(* ===== verification/Prelude.thy ===== *)
theory Prelude
  imports Main "HOL-Library.Word" "HOL-Library.Monad_Syntax" "HOL-Library.List_Lexorder"
    "HOL-Library.Char_ord" "HOL-Library.Sublist" "HOL-Library.Multiset"
begin

unbundle bit_operations_syntax

text \<open>
  Shared vocabulary of the development.

  A C function that can abort (\<open>ni_assert\<close>, \<open>ni_fatal\<close>) or run into undefined behaviour (an access
  outside an object, a NULL or dangling pointer) is a function into \<^typ>\<open>'a option\<close>: \<^const>\<open>None\<close> is
  the fault, \<open>Some r\<close> the value the C function returns, paired with the objects it has written.
  The documented error returns of the code (a negative \<open>int\<close>, a NULL pointer, FALSE) are ordinary
  values inside that \<open>Some\<close>.  Memory is modelled by value: an allocated block is the list of its
  cells, and the primitives below fault when the access leaves the list.  A failed allocation ends the
  process through \<open>ni_fatal\<close> (\<open>xmalloc\<close>, \<open>xcalloc\<close>, \<open>xrealloc\<close> of dborb/util.c), so allocation
  is modelled as always succeeding.
\<close>

section \<open>Type names\<close>

type_synonym byte = "8 word"
type_synonym u32 = "32 word"
type_synonym u64 = "64 word"

text \<open>A C string is the list of its bytes before the terminating NUL; a \<open>char *\<close> that may be NULL
  is an option.\<close>

type_synonym cstring = "char list"

section \<open>Collections of proof rules\<close>

named_theorems mem_simps \<open>characteristic equations of the memory primitives\<close>
named_theorems wf_intros \<open>well-formedness preservation of the components' operations\<close>
named_theorems abs_simps \<open>effect of the components' operations on their abstractions\<close>

section \<open>Faults\<close>

text \<open>\<open>ni_assert(c)\<close>: continue when the condition holds, otherwise abort.\<close>

definition ni_assert :: "bool \<Rightarrow> unit option" where
  "ni_assert b = (if b then Some () else None)"

lemma ni_assert_Some [simp]: "ni_assert b = Some u \<longleftrightarrow> b"
  by (simp add: ni_assert_def)

lemma ni_assert_True [simp]: "ni_assert True = Some ()"
  by (simp add: ni_assert_def)

lemma ni_assert_False [simp]: "ni_assert False = None"
  by (simp add: ni_assert_def)

lemma bind_Some_iff [simp]: "(do { x \<leftarrow> m; f x }) = Some r \<longleftrightarrow> (\<exists>x. m = Some x \<and> f x = Some r)"
  for m :: "'a option"
  by (cases m) auto

lemma bind_None_iff: "(do { x \<leftarrow> m; f x }) = None \<longleftrightarrow> m = None \<or> (\<exists>x. m = Some x \<and> f x = None)"
  for m :: "'a option"
  by (cases m) auto

section \<open>Memory primitives\<close>

definition arr_get :: "'a list \<Rightarrow> nat \<Rightarrow> 'a option" where
  "arr_get xs i = (if i < length xs then Some (xs ! i) else None)"

definition arr_set :: "'a list \<Rightarrow> nat \<Rightarrow> 'a \<Rightarrow> 'a list option" where
  "arr_set xs i v = (if i < length xs then Some (xs[i := v]) else None)"

definition mem_read :: "'a list \<Rightarrow> nat \<Rightarrow> nat \<Rightarrow> 'a list option" where
  "mem_read xs off n = (if off + n \<le> length xs then Some (take n (drop off xs)) else None)"

definition mem_write :: "'a list \<Rightarrow> nat \<Rightarrow> 'a list \<Rightarrow> 'a list option" where
  "mem_write xs off bs =
     (if off + length bs \<le> length xs then Some (take off xs @ bs @ drop (off + length bs) xs)
      else None)"

text \<open>\<open>memmove(&xs[dst], &xs[src], n)\<close> inside one block.\<close>

definition mem_move :: "'a list \<Rightarrow> nat \<Rightarrow> nat \<Rightarrow> nat \<Rightarrow> 'a list option" where
  "mem_move xs dst src n = do { bs \<leftarrow> mem_read xs src n; mem_write xs dst bs }"

lemma arr_get_in [mem_simps]: "i < length xs \<Longrightarrow> arr_get xs i = Some (xs ! i)"
  by (simp add: arr_get_def)

lemma arr_get_Some: "arr_get xs i = Some v \<longleftrightarrow> i < length xs \<and> v = xs ! i"
  by (auto simp: arr_get_def)

lemma arr_set_in [mem_simps]: "i < length xs \<Longrightarrow> arr_set xs i v = Some (xs[i := v])"
  by (simp add: arr_set_def)

lemma arr_set_Some: "arr_set xs i v = Some ys \<longleftrightarrow> i < length xs \<and> ys = xs[i := v]"
  by (auto simp: arr_set_def)

lemma mem_read_in [mem_simps]: "off + n \<le> length xs \<Longrightarrow> mem_read xs off n = Some (take n (drop off xs))"
  by (simp add: mem_read_def)

lemma mem_read_Some:
  "mem_read xs off n = Some bs \<longleftrightarrow> off + n \<le> length xs \<and> bs = take n (drop off xs)"
  by (auto simp: mem_read_def)

lemma mem_write_in [mem_simps]:
  "off + length bs \<le> length xs \<Longrightarrow>
     mem_write xs off bs = Some (take off xs @ bs @ drop (off + length bs) xs)"
  by (simp add: mem_write_def)

lemma mem_write_Some:
  "mem_write xs off bs = Some ys \<longleftrightarrow>
     off + length bs \<le> length xs \<and> ys = take off xs @ bs @ drop (off + length bs) xs"
  by (auto simp: mem_write_def)

lemma mem_write_length: "mem_write xs off bs = Some ys \<Longrightarrow> length ys = length xs"
  by (auto simp: mem_write_Some)

lemma take_mem_write:
  "off + length bs \<le> length xs \<Longrightarrow>
     take (off + length bs) (take off xs @ bs @ drop (off + length bs) xs) = take off xs @ bs"
  by simp

lemmas mem_defs = arr_get_def arr_set_def mem_read_def mem_write_def mem_move_def

section \<open>C strings\<close>

text \<open>\<open>ni_string_eq(a, b)\<close>: two NULL pointers are equal, a NULL pointer and a string are not.\<close>

definition ni_string_eq :: "cstring option \<Rightarrow> cstring option \<Rightarrow> bool" where
  "ni_string_eq a b = (case (a, b) of (Some x, Some y) \<Rightarrow> x = y | (None, None) \<Rightarrow> True | _ \<Rightarrow> False)"

lemma ni_string_eq_iff [simp]: "ni_string_eq a b \<longleftrightarrow> a = b"
  by (cases a; cases b) (auto simp: ni_string_eq_def)

text \<open>\<open>ni_string_len(s)\<close>: a NULL pointer has length 0.\<close>

definition ni_string_len :: "cstring option \<Rightarrow> nat" where
  "ni_string_len s = (case s of None \<Rightarrow> 0 | Some x \<Rightarrow> length x)"

lemma ni_string_len_simps [simp]:
  "ni_string_len None = 0" "ni_string_len (Some x) = length x"
  by (simp_all add: ni_string_len_def)

text \<open>\<open>strcmp(a, b) == 0\<close> on pointers; comparing through NULL is a fault.\<close>

definition strcmp_eq :: "cstring option \<Rightarrow> cstring option \<Rightarrow> bool option" where
  "strcmp_eq a b = do { x \<leftarrow> a; y \<leftarrow> b; Some (x = y) }"

lemma strcmp_eq_simps [simp]:
  "strcmp_eq (Some x) (Some y) = Some (x = y)" "strcmp_eq None b = None" "strcmp_eq a None = None"
  by (cases a; simp add: strcmp_eq_def)+

section \<open>The FIFO interface\<close>

text \<open>
  Several components promise the same contract to their clients: items come out in the order they
  went in, and the queue signals emptiness with NULL.  \<open>items\<close> is the abstraction, \<open>inv\<close> the
  component's invariant.
\<close>

locale fifo_queue =
  fixes enq :: "'q \<Rightarrow> 'a \<Rightarrow> 'q"
    and deq :: "'q \<Rightarrow> 'a option \<times> 'q"
    and items :: "'q \<Rightarrow> 'a list"
    and inv :: "'q \<Rightarrow> bool"
  assumes inv_enq: "inv q \<Longrightarrow> inv (enq q x)"
    and inv_deq: "inv q \<Longrightarrow> inv (snd (deq q))"
    and items_enq: "inv q \<Longrightarrow> items (enq q x) = items q @ [x]"
    and deq_empty: "inv q \<Longrightarrow> items q = [] \<Longrightarrow> fst (deq q) = None \<and> items (snd (deq q)) = []"
    and deq_cons: "inv q \<Longrightarrow> items q = x # xs \<Longrightarrow> fst (deq q) = Some x \<and> items (snd (deq q)) = xs"

text \<open>Take up to \<open>n\<close> items, stopping at the first NULL: the drain loops of the callers.\<close>

primrec deq_upto :: "('q \<Rightarrow> 'a option \<times> 'q) \<Rightarrow> nat \<Rightarrow> 'q \<Rightarrow> 'a list \<times> 'q" where
  "deq_upto dq 0 q = ([], q)"
| "deq_upto dq (Suc n) q =
     (case dq q of
        (None, q') \<Rightarrow> ([], q')
      | (Some x, q') \<Rightarrow> (let (xs, q'') = deq_upto dq n q' in (x # xs, q'')))"

context fifo_queue
begin

lemma enq_all: "inv q \<Longrightarrow> inv (foldl enq q xs) \<and> items (foldl enq q xs) = items q @ xs"
  by (induction xs arbitrary: q) (auto simp: inv_enq items_enq)

lemma deq_upto_items:
  "inv q \<Longrightarrow> fst (deq_upto deq n q) = take n (items q)
     \<and> items (snd (deq_upto deq n q)) = drop n (items q) \<and> inv (snd (deq_upto deq n q))"
proof (induction n arbitrary: q)
  case 0
  then show ?case by simp
next
  case (Suc n)
  obtain r q' where dq: "deq q = (r, q')" by fastforce
  show ?case
  proof (cases "items q")
    case Nil
    with Suc.prems dq deq_empty [of q] inv_deq [of q] show ?thesis by auto
  next
    case (Cons x xs)
    with Suc.prems dq deq_cons [of q x xs] inv_deq [of q] Suc.IH [of q'] show ?thesis
      by (auto simp: split_beta Let_def)
  qed
qed

text \<open>Everything enqueued comes out, once, in order, after what was already there.\<close>

lemma fifo_order:
  assumes "inv q" and "length (items q) + length xs \<le> n"
  shows "fst (deq_upto deq n (foldl enq q xs)) = items q @ xs"
  using enq_all [OF assms(1), of xs] deq_upto_items [of "foldl enq q xs" n] assms(2) by simp

end

section \<open>Generic lemmas\<close>

lemma unat_u32_less: "unat (x :: u32) < 2 ^ 32"
  using unsigned_less [of x] by simp

lemma drop_take_append_nth:
  "i < length xs \<Longrightarrow> take i xs @ xs ! i # drop (Suc i) xs = xs"
  by (simp add: id_take_nth_drop [symmetric])

lemma map_option_eq_bind: "map_option f m = do { x \<leftarrow> m; Some (f x) }"
  by (cases m) auto

end
