(* ===== verification/Arrays.thy ===== *)
theory Arrays
  imports Prelude
begin

text \<open>
  The arrays of dborb/util.c: strings, unsigned integers, variables (name and value), bit fields.  All
  three growing arrays enlarge their block in chunks of 16 when the count reaches a multiple of 16; the
  invariants say how much room that leaves, and the operations are described on the list of items.
\<close>

section \<open>Growing in chunks\<close>

definition ARRAY_CHUNK :: nat where "ARRAY_CHUNK = 16"

definition chunk_cap :: "nat \<Rightarrow> nat" where
  "chunk_cap n = ARRAY_CHUNK * ((n + (ARRAY_CHUNK - 1)) div ARRAY_CHUNK)"

lemma chunk_cap_ge: "n \<le> chunk_cap n"
  by (simp add: chunk_cap_def ARRAY_CHUNK_def)

lemma chunk_cap_mono: "m \<le> n \<Longrightarrow> chunk_cap m \<le> chunk_cap n"
  by (simp add: chunk_cap_def div_le_mono)

lemma chunk_cap_0 [simp]: "chunk_cap 0 = 0"
  by (simp add: chunk_cap_def ARRAY_CHUNK_def)

lemma chunk_cap_full: "n mod ARRAY_CHUNK = 0 \<Longrightarrow> chunk_cap (Suc n) = n + ARRAY_CHUNK"
  unfolding chunk_cap_def ARRAY_CHUNK_def by presburger

lemma chunk_cap_room:
  assumes "n mod ARRAY_CHUNK \<noteq> 0"
  shows "chunk_cap (Suc n) = chunk_cap n"
proof -
  define q r where "q = n div 16" and "r = n mod 16"
  have n: "n = 16 * q + r" "0 < r" "r < 16" using assms by (simp_all add: q_def r_def ARRAY_CHUNK_def)
  have "(r + 16) div 16 = 1" "(r + 15) div 16 = 1" using n(2,3) by simp_all
  then have d: "(16 * q + r + 16) div 16 = q + 1" "(16 * q + r + 15) div 16 = q + 1"
    using div_mult_self4 [of 16 q "r + 16"] div_mult_self4 [of 16 q "r + 15"] by (simp_all only: add.assoc)
  have e: "Suc n + (16 - 1) = 16 * q + r + 16" "n + (16 - 1) = 16 * q + r + 15" using n(1) by simp_all
  show ?thesis unfolding chunk_cap_def ARRAY_CHUNK_def e d ..
qed

text \<open>What the users of a growing array rely on: appending never fails and adds one item at the end.\<close>

locale growing_array =
  fixes append_item :: "'c \<Rightarrow> 'a \<Rightarrow> 'c option"
    and items :: "'c \<Rightarrow> 'a list"
    and inv :: "'c \<Rightarrow> bool"
  assumes append_ok: "inv c \<Longrightarrow> \<exists>c'. append_item c x = Some c' \<and> inv c' \<and> items c' = items c @ [x]"

primrec append_all :: "('c \<Rightarrow> 'a \<Rightarrow> 'c option) \<Rightarrow> 'c \<Rightarrow> 'a list \<Rightarrow> 'c option" where
  "append_all app c [] = Some c"
| "append_all app c (x # xs) = do { c' \<leftarrow> app c x; append_all app c' xs }"

context growing_array
begin

lemma append_all_ok:
  "inv c \<Longrightarrow> \<exists>c'. append_all append_item c xs = Some c' \<and> inv c' \<and> items c' = items c @ xs"
proof (induction xs arbitrary: c)
  case Nil
  then show ?case by simp
next
  case (Cons x xs)
  obtain c1 where "append_item c x = Some c1" "inv c1" "items c1 = items c @ [x]"
    using append_ok [OF Cons.prems] by blast
  then show ?case using Cons.IH [of c1] by auto
qed

end

section \<open>String arrays\<close>

record ni_string_array =
  sa_count :: nat
  sa_data :: "cstring option list"

definition ni_string_array_init :: ni_string_array where
  "ni_string_array_init = \<lparr>sa_count = 0, sa_data = []\<rparr>"

definition ni_string_array_destroy :: "ni_string_array \<Rightarrow> ni_string_array option" where
  "ni_string_array_destroy nsa = do {
     ni_assert (sa_count nsa \<le> length (sa_data nsa));
     Some ni_string_array_init }"

text \<open>\<open>newsize + NI_STRING_ARRAY_CHUNK + 1\<close> slots, NULL from \<open>count\<close> on.\<close>

definition u_ni_string_array_realloc :: "ni_string_array \<Rightarrow> nat \<Rightarrow> ni_string_array option" where
  "u_ni_string_array_realloc nsa newsize = do {
     let newsize = (newsize + ARRAY_CHUNK) + 1;
     keep \<leftarrow> mem_read (sa_data nsa) 0 (min (sa_count nsa) newsize);
     Some (nsa\<lparr>sa_data := keep @ replicate (newsize - sa_count nsa) None\<rparr>) }"

definition u_ni_string_array_append :: "ni_string_array \<Rightarrow> cstring option \<Rightarrow> ni_string_array option" where
  "u_ni_string_array_append nsa str = do {
     nsa1 \<leftarrow> (if sa_count nsa mod ARRAY_CHUNK = 0 then u_ni_string_array_realloc nsa (sa_count nsa) else Some nsa);
     d \<leftarrow> arr_set (sa_data nsa1) (sa_count nsa1) str;
     Some (nsa1\<lparr>sa_data := d, sa_count := sa_count nsa1 + 1\<rparr>) }"

definition u_ni_string_array_insert :: "ni_string_array \<Rightarrow> nat \<Rightarrow> cstring option \<Rightarrow> ni_string_array option" where
  "u_ni_string_array_insert nsa pos str = do {
     nsa1 \<leftarrow> (if sa_count nsa mod ARRAY_CHUNK = 0 then u_ni_string_array_realloc nsa (sa_count nsa) else Some nsa);
     (if sa_count nsa1 \<le> pos then do {
        d \<leftarrow> arr_set (sa_data nsa1) (sa_count nsa1) str;
        Some (nsa1\<lparr>sa_data := d, sa_count := sa_count nsa1 + 1\<rparr>) }
      else do {
        d \<leftarrow> mem_move (sa_data nsa1) (pos + 1) pos (sa_count nsa1 - pos);
        d' \<leftarrow> arr_set d pos str;
        Some (nsa1\<lparr>sa_data := d', sa_count := sa_count nsa1 + 1\<rparr>) }) }"

text \<open>The functions that may fail return -1 or 0 as the first component.\<close>

definition ni_string_array_set :: "ni_string_array \<Rightarrow> nat \<Rightarrow> cstring option \<Rightarrow> (int \<times> ni_string_array) option" where
  "ni_string_array_set nsa pos str =
     (if sa_count nsa \<le> pos then Some (-1, nsa)
      else do { d \<leftarrow> arr_set (sa_data nsa) pos str;
                Some (if str = None then -1 else 0, nsa\<lparr>sa_data := d\<rparr>) })"

definition ni_string_array_at :: "ni_string_array option \<Rightarrow> nat \<Rightarrow> cstring option option" where
  "ni_string_array_at nsa pos =
     (case nsa of None \<Rightarrow> Some None
      | Some a \<Rightarrow> (if sa_count a \<le> pos then Some None else arr_get (sa_data a) pos))"

definition ni_string_array_get :: "ni_string_array \<Rightarrow> nat \<Rightarrow> cstring option \<Rightarrow> (int \<times> cstring option) option" where
  "ni_string_array_get nsa pos str =
     (if sa_count nsa \<le> pos then Some (-1, str)
      else do { s \<leftarrow> arr_get (sa_data nsa) pos; Some (if s = None then -1 else 0, s) })"

definition ni_string_array_append :: "ni_string_array \<Rightarrow> cstring option \<Rightarrow> ni_string_array option" where
  "ni_string_array_append nsa str = u_ni_string_array_append nsa str"

text \<open>\<open>strdup(str)\<close>: a NULL argument is a fault here.\<close>

definition ni_string_array_insert :: "ni_string_array \<Rightarrow> nat \<Rightarrow> cstring option \<Rightarrow> ni_string_array option" where
  "ni_string_array_insert nsa pos str = do { s \<leftarrow> str; u_ni_string_array_insert nsa pos (Some s) }"

definition ni_string_array_copy :: "ni_string_array \<Rightarrow> ni_string_array \<Rightarrow> ni_string_array option" where
  "ni_string_array_copy dst src = do {
     dst1 \<leftarrow> ni_string_array_destroy dst;
     xs \<leftarrow> mem_read (sa_data src) 0 (sa_count src);
     append_all ni_string_array_append dst1 xs }"

definition ni_string_array_move :: "ni_string_array \<Rightarrow> ni_string_array \<Rightarrow> (ni_string_array \<times> ni_string_array) option" where
  "ni_string_array_move dst src = do { d \<leftarrow> ni_string_array_destroy dst; Some (src, ni_string_array_init) }"

fun strings_index :: "nat \<Rightarrow> cstring option list \<Rightarrow> cstring \<Rightarrow> int option" where
  "strings_index i [] str = Some (-1)"
| "strings_index i (x # xs) str = do {
     eq \<leftarrow> strcmp_eq x (Some str);
     (if eq then Some (int i) else strings_index (Suc i) xs str) }"

definition ni_string_array_index :: "ni_string_array \<Rightarrow> cstring \<Rightarrow> int option" where
  "ni_string_array_index nsa str = do {
     xs \<leftarrow> mem_read (sa_data nsa) 0 (sa_count nsa);
     strings_index 0 xs str }"

definition ni_string_array_remove_index :: "ni_string_array \<Rightarrow> nat \<Rightarrow> (int \<times> ni_string_array) option" where
  "ni_string_array_remove_index nsa pos =
     (if sa_count nsa \<le> pos then Some (-1, nsa)
      else do { d \<leftarrow> mem_move (sa_data nsa) pos (pos + 1) (sa_count nsa - pos);
                Some (0, nsa\<lparr>sa_data := d, sa_count := sa_count nsa - 1\<rparr>) })"

text \<open>The loop of \<open>remove_match\<close>: the strings kept, and how many have been freed.\<close>

fun strings_remove :: "cstring \<Rightarrow> nat \<Rightarrow> nat \<Rightarrow> cstring option list \<Rightarrow> (cstring option list \<times> nat) option" where
  "strings_remove str maxkill killed [] = Some ([], killed)"
| "strings_remove str maxkill killed (x # xs) =
     (if killed < maxkill then do {
        eq \<leftarrow> strcmp_eq x (Some str);
        (if eq then strings_remove str maxkill (Suc killed) xs
         else do { (ys, k) \<leftarrow> strings_remove str maxkill killed xs; Some (x # ys, k) }) }
      else do { (ys, k) \<leftarrow> strings_remove str maxkill killed xs; Some (x # ys, k) })"

definition ni_string_array_remove_match :: "ni_string_array \<Rightarrow> cstring \<Rightarrow> nat \<Rightarrow> (nat \<times> ni_string_array) option" where
  "ni_string_array_remove_match nsa str maxkill = do {
     let maxkill = (if maxkill = 0 then sa_count nsa else maxkill);
     xs \<leftarrow> mem_read (sa_data nsa) 0 (sa_count nsa);
     (ys, killed) \<leftarrow> strings_remove str maxkill 0 xs;
     Some (killed, nsa\<lparr>sa_data := ys @ replicate killed None @ drop (sa_count nsa) (sa_data nsa),
                       sa_count := length ys\<rparr>) }"

text \<open>Looking for \<open>val_a\<close> in what is left of the second copy; a match is cleared there.\<close>

fun comm_take :: "cstring \<Rightarrow> cstring option list \<Rightarrow> bool \<times> cstring option list" where
  "comm_take v [] = (False, [])"
| "comm_take v (b # bs) =
     (if b = Some v then (True, None # bs) else (let (found, bs') = comm_take v bs in (found, b # bs')))"

fun comm_loop :: "cstring option list \<Rightarrow> cstring option list \<Rightarrow> ni_string_array \<Rightarrow> ni_string_array \<Rightarrow>
    (cstring option list \<times> ni_string_array \<times> ni_string_array) option" where
  "comm_loop [] bs uniq_a common = Some (bs, uniq_a, common)"
| "comm_loop (None # as) bs uniq_a common = comm_loop as bs uniq_a common"
| "comm_loop (Some v # as) bs uniq_a common =
     (let (found, bs') = comm_take v bs in
      if found then do { common' \<leftarrow> u_ni_string_array_append common (Some v); comm_loop as bs' uniq_a common' }
      else do { uniq_a' \<leftarrow> u_ni_string_array_append uniq_a (Some v); comm_loop as bs' uniq_a' common })"

definition ni_string_array_comm ::
    "ni_string_array \<Rightarrow> ni_string_array \<Rightarrow> ni_string_array \<Rightarrow> ni_string_array \<Rightarrow> ni_string_array \<Rightarrow>
      (ni_string_array \<times> ni_string_array \<times> ni_string_array) option" where
  "ni_string_array_comm a b uniq_a uniq_b common = do {
     copy_a \<leftarrow> ni_string_array_copy ni_string_array_init a;
     copy_b \<leftarrow> ni_string_array_copy ni_string_array_init b;
     as \<leftarrow> mem_read (sa_data copy_a) 0 (sa_count copy_a);
     bs \<leftarrow> mem_read (sa_data copy_b) 0 (sa_count copy_b);
     (bs', uniq_a', common') \<leftarrow> comm_loop as bs uniq_a common;
     uniq_b' \<leftarrow> append_all u_ni_string_array_append uniq_b (filter (\<lambda>b. b \<noteq> None) bs');
     Some (uniq_a', uniq_b', common') }"

text \<open>\<open>is_uniq\<close> compares \<open>data[i]\<close> with \<open>data[i]\<close>: the inner index is not used.\<close>

fun uniq_inner :: "cstring option \<Rightarrow> cstring option list \<Rightarrow> bool option" where
  "uniq_inner val_a [] = Some True"
| "uniq_inner None (x # xs) = Some True"
| "uniq_inner (Some v) (x # xs) = do {
     eq \<leftarrow> strcmp_eq (Some v) (Some v);
     (if eq then Some False else uniq_inner (Some v) xs) }"

fun uniq_outer :: "cstring option list \<Rightarrow> int option" where
  "uniq_outer [] = Some 1"
| "uniq_outer (x # xs) = do { ok \<leftarrow> uniq_inner x xs; (if ok then uniq_outer xs else Some 0) }"

definition ni_string_array_is_uniq :: "ni_string_array \<Rightarrow> int option" where
  "ni_string_array_is_uniq nsa = do { xs \<leftarrow> mem_read (sa_data nsa) 0 (sa_count nsa); uniq_outer xs }"

subsection \<open>Invariant and items\<close>

definition sa_items :: "ni_string_array \<Rightarrow> cstring option list" where
  "sa_items nsa = take (sa_count nsa) (sa_data nsa)"

text \<open>The slots from \<open>count\<close> on are NULL, one of them always exists, and there is room up to the
  end of the chunk.\<close>

definition sa_wf :: "ni_string_array \<Rightarrow> bool" where
  "sa_wf nsa \<longleftrightarrow> (sa_count nsa = 0 \<and> sa_data nsa = [])
     \<or> (chunk_cap (sa_count nsa) < length (sa_data nsa)
        \<and> (\<forall>i < length (sa_data nsa). sa_count nsa \<le> i \<longrightarrow> sa_data nsa ! i = None))"

lemma sa_wf_count: "sa_wf nsa \<Longrightarrow> sa_count nsa \<le> length (sa_data nsa)"
  using chunk_cap_ge [of "sa_count nsa"] by (auto simp: sa_wf_def)

lemma sa_wf_init [wf_intros, simp]: "sa_wf ni_string_array_init" "sa_items ni_string_array_init = []"
  by (simp_all add: sa_wf_def sa_items_def ni_string_array_init_def)

lemma length_sa_items: "sa_wf nsa \<Longrightarrow> length (sa_items nsa) = sa_count nsa"
  using sa_wf_count [of nsa] by (simp add: sa_items_def)

lemma sa_read_items: "sa_wf nsa \<Longrightarrow> mem_read (sa_data nsa) 0 (sa_count nsa) = Some (sa_items nsa)"
  using sa_wf_count [of nsa] by (simp add: mem_read_in sa_items_def)

lemma sa_destroy_ok [simp]: "sa_wf nsa \<Longrightarrow> ni_string_array_destroy nsa = Some ni_string_array_init"
  by (simp add: ni_string_array_destroy_def sa_wf_count)

text \<open>The block before an item is added.\<close>

lemma sa_prepare:
  assumes wf: "sa_wf nsa"
  shows "\<exists>nsa1. (if sa_count nsa mod ARRAY_CHUNK = 0 then u_ni_string_array_realloc nsa (sa_count nsa) else Some nsa) = Some nsa1
           \<and> sa_count nsa1 = sa_count nsa \<and> sa_items nsa1 = sa_items nsa
           \<and> chunk_cap (Suc (sa_count nsa)) < length (sa_data nsa1)
           \<and> (\<forall>i < length (sa_data nsa1). sa_count nsa \<le> i \<longrightarrow> sa_data nsa1 ! i = None)"
proof (cases "sa_count nsa mod ARRAY_CHUNK = 0")
  case True
  let ?n = "sa_count nsa"
  let ?d = "take ?n (sa_data nsa) @ replicate (ARRAY_CHUNK + 1) None"
  have le: "?n \<le> length (sa_data nsa)" by (rule sa_wf_count [OF wf])
  have "u_ni_string_array_realloc nsa ?n = Some (nsa\<lparr>sa_data := ?d\<rparr>)"
    using le by (simp add: u_ni_string_array_realloc_def mem_read_in)
  then show ?thesis using True le chunk_cap_full [OF True]
    by (auto simp: sa_items_def nth_append nth_Cons split: nat.split)
next
  case False
  then have "sa_count nsa \<noteq> 0" by (metis mod_0)
  then show ?thesis using wf False chunk_cap_room [OF False] by (auto simp: sa_wf_def)
qed

lemma u_append_ok:
  assumes wf: "sa_wf nsa"
  shows "\<exists>nsa'. u_ni_string_array_append nsa str = Some nsa' \<and> sa_wf nsa' \<and> sa_items nsa' = sa_items nsa @ [str]"
proof -
  obtain nsa1 where p: "(if sa_count nsa mod ARRAY_CHUNK = 0 then u_ni_string_array_realloc nsa (sa_count nsa) else Some nsa) = Some nsa1"
    "sa_count nsa1 = sa_count nsa" "sa_items nsa1 = sa_items nsa" "chunk_cap (Suc (sa_count nsa)) < length (sa_data nsa1)"
    "\<forall>i < length (sa_data nsa1). sa_count nsa \<le> i \<longrightarrow> sa_data nsa1 ! i = None"
    using sa_prepare [OF wf] by blast
  have lt: "sa_count nsa < length (sa_data nsa1)"
    using p(4) chunk_cap_ge [of "Suc (sa_count nsa)"] by simp
  let ?r = "nsa1\<lparr>sa_data := (sa_data nsa1)[sa_count nsa := str], sa_count := sa_count nsa + 1\<rparr>"
  have "u_ni_string_array_append nsa str = Some ?r"
    unfolding u_ni_string_array_append_def p(1) using lt p(2) by (simp add: arr_set_in)
  moreover have "sa_wf ?r" using p(4,5) by (simp add: sa_wf_def)
  moreover have "sa_items ?r = sa_items nsa @ [str]"
    using p(2,3) lt by (simp add: sa_items_def take_Suc_conv_app_nth)
  ultimately show ?thesis by blast
qed

interpretation string_array: growing_array u_ni_string_array_append sa_items sa_wf
  by unfold_locales (rule u_append_ok)

lemma u_insert_ok:
  assumes wf: "sa_wf nsa"
  shows "\<exists>nsa'. u_ni_string_array_insert nsa pos str = Some nsa' \<and> sa_wf nsa'
           \<and> sa_items nsa' = take pos (sa_items nsa) @ [str] @ drop pos (sa_items nsa)"
proof -
  obtain nsa1 where p: "(if sa_count nsa mod ARRAY_CHUNK = 0 then u_ni_string_array_realloc nsa (sa_count nsa) else Some nsa) = Some nsa1"
    "sa_count nsa1 = sa_count nsa" "sa_items nsa1 = sa_items nsa" "chunk_cap (Suc (sa_count nsa)) < length (sa_data nsa1)"
    "\<forall>i < length (sa_data nsa1). sa_count nsa \<le> i \<longrightarrow> sa_data nsa1 ! i = None"
    using sa_prepare [OF wf] by blast
  let ?n = "sa_count nsa" and ?d = "sa_data nsa1"
  have lt: "?n < length ?d" using p(4) chunk_cap_ge [of "Suc ?n"] by simp
  show ?thesis
  proof (cases "?n \<le> pos")
    case True
    have e: "u_ni_string_array_insert nsa pos str = u_ni_string_array_append nsa str"
      unfolding u_ni_string_array_insert_def u_ni_string_array_append_def p(1) using True p(2) by simp
    have "take pos (sa_items nsa) @ [str] @ drop pos (sa_items nsa) = sa_items nsa @ [str]"
      using True length_sa_items [OF wf] by simp
    then show ?thesis using u_append_ok [OF wf, of str] e by simp
  next
    case False
    let ?m = "take (pos + 1) ?d @ drop pos (take ?n ?d) @ drop (Suc ?n) ?d"
    let ?r = "nsa1\<lparr>sa_data := ?m[pos := str], sa_count := ?n + 1\<rparr>"
    have mv: "mem_move ?d (pos + 1) pos (?n - pos) = Some ?m"
      using False lt by (simp add: mem_move_def mem_read_in mem_write_in drop_take min_def)
    have ln: "length ?m = length ?d" using False lt by simp
    have "u_ni_string_array_insert nsa pos str = Some ?r"
      unfolding u_ni_string_array_insert_def p(1) using False lt p(2) mv ln by (simp add: arr_set_in)
    moreover have "?m ! i = None" if "Suc ?n \<le> i" "i < length ?d" for i
      using p(5) that False lt by (auto simp: nth_append)
    then have "sa_wf ?r" using p(4) ln False by (auto simp: sa_wf_def)
    moreover have it: "?m[pos := str] = take pos ?d @ str # drop pos (take ?n ?d) @ drop (Suc ?n) ?d"
      using False lt by (simp add: list_update_append take_Suc_conv_app_nth)
    have "sa_items ?r = take pos (sa_items nsa1) @ [str] @ drop pos (sa_items nsa1)"
      unfolding sa_items_def it using False lt p(2) by (simp add: min_def Suc_diff_le)
    ultimately show ?thesis using p(3) by auto
  qed
qed


lemma ni_string_array_append_ok:
  "sa_wf nsa \<Longrightarrow> \<exists>nsa'. ni_string_array_append nsa str = Some nsa' \<and> sa_wf nsa' \<and> sa_items nsa' = sa_items nsa @ [str]"
  unfolding ni_string_array_append_def by (rule u_append_ok)

interpretation strings: growing_array ni_string_array_append sa_items sa_wf
  by unfold_locales (rule ni_string_array_append_ok)

lemma ni_string_array_copy_ok:
  assumes "sa_wf dst" and "sa_wf src"
  shows "\<exists>d. ni_string_array_copy dst src = Some d \<and> sa_wf d \<and> sa_items d = sa_items src"
  using strings.append_all_ok [OF sa_wf_init(1), of "sa_items src"] assms
  by (simp add: ni_string_array_copy_def sa_read_items)

lemma ni_string_array_set_ok:
  assumes wf: "sa_wf nsa" and pos: "pos < sa_count nsa"
  shows "\<exists>nsa'. ni_string_array_set nsa pos (Some s) = Some (0, nsa') \<and> sa_wf nsa' \<and> sa_items nsa' = (sa_items nsa)[pos := Some s]"
proof -
  have "pos < length (sa_data nsa)" using pos sa_wf_count [OF wf] by simp
  moreover from this have "sa_wf (nsa\<lparr>sa_data := (sa_data nsa)[pos := Some s]\<rparr>)"
    using wf pos by (auto simp: sa_wf_def nth_list_update)
  ultimately show ?thesis
    using pos by (simp add: ni_string_array_set_def arr_set_in sa_items_def take_update_swap)
qed

lemma ni_string_array_remove_index_ok:
  assumes wf: "sa_wf nsa" and pos: "pos < sa_count nsa"
  shows "\<exists>nsa'. ni_string_array_remove_index nsa pos = Some (0, nsa') \<and> sa_wf nsa'
           \<and> sa_items nsa' = take pos (sa_items nsa) @ drop (Suc pos) (sa_items nsa)"
proof -
  let ?n = "sa_count nsa" and ?d = "sa_data nsa"
  have cap: "chunk_cap ?n < length ?d" and nil: "\<forall>i < length ?d. ?n \<le> i \<longrightarrow> ?d ! i = None"
    using wf pos by (auto simp: sa_wf_def)
  have lt: "?n < length ?d" using cap chunk_cap_ge [of ?n] by simp
  let ?m = "take pos ?d @ drop (Suc pos) (take (Suc ?n) ?d) @ drop ?n ?d"
  let ?r = "nsa\<lparr>sa_data := ?m, sa_count := ?n - 1\<rparr>"
  have mv: "mem_move ?d pos (pos + 1) (?n - pos) = Some ?m"
    using pos lt by (simp add: mem_move_def mem_read_in mem_write_in drop_take min_def Suc_diff_le)
       (intro impI arg_cong2 [of _ _ _ _ drop] refl; linarith)
  have tk: "take (Suc ?n) ?d = take ?n ?d @ [None]" using lt nil by (simp add: take_Suc_conv_app_nth)
  have m: "?m = take pos ?d @ drop (Suc pos) (take ?n ?d) @ None # drop ?n ?d" using pos lt tk by simp
  have "?m ! i = None" if "?n - 1 \<le> i" "i < length ?m" for i
    unfolding m using that pos lt nil by (auto simp: nth_append nth_Cons split: nat.split)
  moreover have "chunk_cap (?n - 1) < length ?m" using cap chunk_cap_mono [of "?n - 1" ?n] pos lt by simp
  ultimately have "sa_wf ?r" by (simp add: sa_wf_def)
  moreover have "sa_items ?r = take pos (sa_items nsa) @ drop (Suc pos) (sa_items nsa)"
    unfolding sa_items_def using pos lt
    by (simp add: m min_def) (intro impI arg_cong2 [of _ _ _ _ take] refl; linarith)
  ultimately show ?thesis using pos mv by (simp add: ni_string_array_remove_index_def)
qed

subsection \<open>Searching and removing\<close>

lemma strings_index_ok:
  "list_all (\<lambda>x. x \<noteq> None) xs \<Longrightarrow>
     strings_index i xs str = Some (if Some str \<in> set xs then int (i + length (takeWhile (\<lambda>x. x \<noteq> Some str) xs)) else -1)"
proof (induction xs arbitrary: i)
  case Nil
  then show ?case by simp
next
  case (Cons x xs)
  obtain y where y: "x = Some y" using Cons.prems by auto
  have "list_all (\<lambda>x. x \<noteq> None) xs" using Cons.prems by simp
  from Cons.IH [OF this, of "Suc i"] show ?case by (simp add: y)
qed

fun remove_upto :: "'a \<Rightarrow> nat \<Rightarrow> 'a list \<Rightarrow> 'a list" where
  "remove_upto x k [] = []"
| "remove_upto x 0 ys = ys"
| "remove_upto x (Suc k) (y # ys) = (if y = x then remove_upto x k ys else y # remove_upto x (Suc k) ys)"

lemma strings_remove_ok:
  "list_all (\<lambda>x. x \<noteq> None) xs \<Longrightarrow> killed \<le> maxkill \<Longrightarrow>
     strings_remove str maxkill killed xs
       = Some (remove_upto (Some str) (maxkill - killed) xs, killed + min (maxkill - killed) (count_list xs (Some str)))"
proof (induction str maxkill killed xs rule: strings_remove.induct)
  case (2 str maxkill killed x xs)
  show ?case
  proof (cases "killed < maxkill")
    case True
    then obtain d where d: "maxkill - killed = Suc d" "maxkill - Suc killed = d" using less_imp_Suc_add by fastforce
    show ?thesis using 2 True d by auto
  next
    case False
    then show ?thesis using 2 by (cases xs) auto
  qed
qed simp

lemma length_remove_upto: "length (remove_upto x k xs) + min k (count_list xs x) = length xs"
  by (induction x k xs rule: remove_upto.induct) auto

lemma ni_string_array_remove_match_ok:
  assumes wf: "sa_wf nsa" and nn: "list_all (\<lambda>x. x \<noteq> None) (sa_items nsa)"
    and k: "k = (if maxkill = 0 then sa_count nsa else maxkill)"
  shows "\<exists>nsa'. ni_string_array_remove_match nsa str maxkill = Some (min k (count_list (sa_items nsa) (Some str)), nsa')
           \<and> sa_wf nsa' \<and> sa_items nsa' = remove_upto (Some str) k (sa_items nsa)"
proof -
  let ?ys = "remove_upto (Some str) k (sa_items nsa)"
  let ?n = "min k (count_list (sa_items nsa) (Some str))"
  have len: "length ?ys + ?n = sa_count nsa"
    using length_remove_upto [of "Some str" k "sa_items nsa"] length_sa_items [OF wf] by simp
  let ?d = "?ys @ replicate ?n None @ drop (sa_count nsa) (sa_data nsa)"
  have ld: "length ?d = length (sa_data nsa)" using len sa_wf_count [OF wf] by simp
  have "ni_string_array_remove_match nsa str maxkill = Some (?n, nsa\<lparr>sa_data := ?d, sa_count := length ?ys\<rparr>)"
    using strings_remove_ok [OF nn, of 0 k str] by (simp add: ni_string_array_remove_match_def sa_read_items [OF wf] k [symmetric] Let_def)
  moreover have "sa_wf (nsa\<lparr>sa_data := ?d, sa_count := length ?ys\<rparr>)"
  proof (cases "sa_data nsa = []")
    case True
    then show ?thesis using len ld wf sa_wf_count [OF wf] by (simp add: sa_wf_def)
  next
    case False
    then have cap: "chunk_cap (sa_count nsa) < length (sa_data nsa)"
      and nil: "\<forall>i < length (sa_data nsa). sa_count nsa \<le> i \<longrightarrow> sa_data nsa ! i = None"
      using wf by (auto simp: sa_wf_def)
    have "chunk_cap (length ?ys) < length (sa_data nsa)" using cap chunk_cap_mono [of "length ?ys" "sa_count nsa"] len by simp
    moreover have "?d ! i = None" if "length ?ys \<le> i" "i < length ?d" for i
      using that nil len ld by (auto simp: nth_append)
    ultimately show ?thesis using ld by (simp add: sa_wf_def)
  qed
  ultimately show ?thesis by (simp add: sa_items_def)
qed

subsection \<open>Comparing\<close>

definition strs :: "cstring option list \<Rightarrow> cstring multiset" where
  "strs xs = mset (List.map_filter (\<lambda>x. x) xs)"

lemma strs_simps [simp]: "strs [] = {#}" "strs (None # xs) = strs xs" "strs (Some v # xs) = add_mset v (strs xs)"
  "strs (xs @ ys) = strs xs + strs ys"
  by (simp_all add: strs_def List.map_filter_def)

lemma comm_take_ok:
  "comm_take v bs = (found, bs') \<Longrightarrow> found = (v \<in># strs bs) \<and> strs bs' = strs bs - {#v#}"
proof (induction bs arbitrary: found bs')
  case Nil
  then show ?case by simp
next
  case (Cons b bs)
  obtain f r where f: "comm_take v bs = (f, r)" by fastforce
  show ?case using Cons.prems Cons.IH [OF f] f by (cases b) (auto split: if_splits)
qed

lemma comm_loop_ok:
  "sa_wf ua \<Longrightarrow> sa_wf co \<Longrightarrow> \<exists>bs' ua' co'. comm_loop as bs ua co = Some (bs', ua', co') \<and> sa_wf ua' \<and> sa_wf co'
     \<and> strs (sa_items ua') = strs (sa_items ua) + (strs as - strs bs)
     \<and> strs (sa_items co') = strs (sa_items co) + (strs as \<inter># strs bs)
     \<and> strs bs' = strs bs - strs as"
proof (induction as bs ua co rule: comm_loop.induct)
  case (1 bs ua co)
  then show ?case by simp
next
  case (2 as bs ua co)
  then show ?case by simp
next
  case (3 v as bs ua co)
  obtain f bs1 where t: "comm_take v bs = (f, bs1)" by fastforce
  note T = comm_take_ok [OF t]
  show ?case
  proof (cases f)
    case True
    obtain co1 where c: "u_ni_string_array_append co (Some v) = Some co1" "sa_wf co1" "sa_items co1 = sa_items co @ [Some v]"
      using u_append_ok [OF "3.prems"(2)] by blast
    obtain m where m: "strs bs = add_mset v m" using T True by (metis mset_add)
    have b1: "strs bs1 = m" using T m by simp
    from "3.IH"(1) [OF t [symmetric] refl] True "3.prems"(1) c show ?thesis
      by (auto simp: t m b1 ac_simps)
  next
    case False
    obtain ua1 where c: "u_ni_string_array_append ua (Some v) = Some ua1" "sa_wf ua1" "sa_items ua1 = sa_items ua @ [Some v]"
      using u_append_ok [OF "3.prems"(1)] by blast
    have nv: "v \<notin># strs bs" using T False by simp
    then have b1: "strs bs1 = strs bs" using T by (simp add: diff_single_trivial)
    from "3.IH"(2) [OF t [symmetric] refl] False "3.prems"(2) c nv show ?thesis
      by (auto simp: t b1 ac_simps inter_add_right1 diff_add_mset_swap)
  qed
qed

lemma ni_string_array_comm_ok:
  assumes "sa_wf a" and "sa_wf b" and "sa_wf ua" and "sa_wf ub" and "sa_wf co"
  shows "\<exists>ua' ub' co'. ni_string_array_comm a b ua ub co = Some (ua', ub', co') \<and> sa_wf ua' \<and> sa_wf ub' \<and> sa_wf co'
     \<and> strs (sa_items ua') = strs (sa_items ua) + (strs (sa_items a) - strs (sa_items b))
     \<and> strs (sa_items ub') = strs (sa_items ub) + (strs (sa_items b) - strs (sa_items a))
     \<and> strs (sa_items co') = strs (sa_items co) + (strs (sa_items a) \<inter># strs (sa_items b))"
proof -
  obtain ca where ca: "ni_string_array_copy ni_string_array_init a = Some ca" "sa_wf ca" "sa_items ca = sa_items a"
    using ni_string_array_copy_ok [OF sa_wf_init(1) assms(1)] by blast
  obtain cb where cb: "ni_string_array_copy ni_string_array_init b = Some cb" "sa_wf cb" "sa_items cb = sa_items b"
    using ni_string_array_copy_ok [OF sa_wf_init(1) assms(2)] by blast
  obtain bs' ua' co' where l: "comm_loop (sa_items ca) (sa_items cb) ua co = Some (bs', ua', co')" "sa_wf ua'" "sa_wf co'"
    "strs (sa_items ua') = strs (sa_items ua) + (strs (sa_items ca) - strs (sa_items cb))"
    "strs (sa_items co') = strs (sa_items co) + (strs (sa_items ca) \<inter># strs (sa_items cb))"
    "strs bs' = strs (sa_items cb) - strs (sa_items ca)"
    using comm_loop_ok [OF assms(3,5)] by blast
  obtain ub' where u: "append_all u_ni_string_array_append ub (filter (\<lambda>b. b \<noteq> None) bs') = Some ub'" "sa_wf ub'"
    "sa_items ub' = sa_items ub @ filter (\<lambda>b. b \<noteq> None) bs'"
    using string_array.append_all_ok [OF assms(4)] by blast
  have "strs (filter (\<lambda>b. b \<noteq> None) bs') = strs bs'" by (induction bs') (auto simp: strs_def List.map_filter_def)
  then show ?thesis using ca cb l u by (simp add: ni_string_array_comm_def sa_read_items)
qed

text \<open>Editing an array: the operations callers combine.\<close>

datatype sa_edit = Append "cstring option" | Insert nat cstring | Set nat cstring | RemoveAt nat

fun sa_apply :: "sa_edit \<Rightarrow> ni_string_array \<Rightarrow> ni_string_array option" where
  "sa_apply (Append s) a = ni_string_array_append a s"
| "sa_apply (Insert i s) a = ni_string_array_insert a i (Some s)"
| "sa_apply (Set i s) a = map_option snd (ni_string_array_set a i (Some s))"
| "sa_apply (RemoveAt i) a = map_option snd (ni_string_array_remove_index a i)"

fun list_apply :: "sa_edit \<Rightarrow> cstring option list \<Rightarrow> cstring option list" where
  "list_apply (Append s) xs = xs @ [s]"
| "list_apply (Insert i s) xs = take i xs @ [Some s] @ drop i xs"
| "list_apply (Set i s) xs = xs[i := Some s]"
| "list_apply (RemoveAt i) xs = take i xs @ drop (Suc i) xs"

primrec sa_run :: "sa_edit list \<Rightarrow> ni_string_array \<Rightarrow> ni_string_array option" where
  "sa_run [] a = Some a"
| "sa_run (e # es) a = do { a' \<leftarrow> sa_apply e a; sa_run es a' }"

lemma sa_apply_ok: "sa_wf a \<Longrightarrow> \<exists>a'. sa_apply e a = Some a' \<and> sa_wf a' \<and> sa_items a' = list_apply e (sa_items a)"
proof (cases e)
  case (Append s)
  assume "sa_wf a"
  then show ?thesis using Append ni_string_array_append_ok by simp
next
  case (Insert i s)
  assume "sa_wf a"
  from u_insert_ok [OF this, of i "Some s"] show ?thesis using Insert by (simp add: ni_string_array_insert_def)
next
  case (Set i s)
  assume wf: "sa_wf a"
  show ?thesis
  proof (cases "i < sa_count a")
    case True
    from ni_string_array_set_ok [OF wf this, of s] show ?thesis using Set by auto
  next
    case False
    then show ?thesis using Set wf length_sa_items [OF wf] by (simp add: ni_string_array_set_def list_update_beyond)
  qed
next
  case (RemoveAt i)
  assume wf: "sa_wf a"
  show ?thesis
  proof (cases "i < sa_count a")
    case True
    from ni_string_array_remove_index_ok [OF wf this] show ?thesis using RemoveAt by auto
  next
    case False
    then show ?thesis using RemoveAt wf length_sa_items [OF wf] by (simp add: ni_string_array_remove_index_def)
  qed
qed

subsection \<open>Properties of string arrays\<close>

text \<open>C9: a string array is a list.  Whatever sequence of append, insert, set and remove operations is
  applied to an array, starting from an empty one, none of them reads or writes outside the block (it is
  enlarged in time), and the strings are those the same edits produce on a list.\<close>

theorem string_array_refines_list:
  "\<exists>a. sa_run es ni_string_array_init = Some a \<and> sa_items a = fold list_apply es []"
proof -
  have "sa_wf a \<Longrightarrow> \<exists>a'. sa_run es a = Some a' \<and> sa_wf a' \<and> sa_items a' = fold list_apply es (sa_items a)" for a
  proof (induction es arbitrary: a)
    case Nil
    then show ?case by simp
  next
    case (Cons e es)
    obtain a1 where "sa_apply e a = Some a1" "sa_wf a1" "sa_items a1 = list_apply e (sa_items a)"
      using sa_apply_ok [OF Cons.prems] by blast
    then show ?case using Cons.IH [of a1] by auto
  qed
  from this [OF sa_wf_init(1)] show ?thesis by auto
qed

text \<open>C11: \<open>ni_string_array_comm\<close> splits two arrays the way comm(1) does.  The strings it appends to
  \<open>common\<close> are the multiset intersection of the two arrays, those appended to \<open>uniq_a\<close> and \<open>uniq_b\<close> the two
  differences, also when strings are repeated or NULL pointers are among them.\<close>

theorem ni_string_array_comm_partitions:
  assumes "sa_wf a" and "sa_wf b"
  shows "\<exists>ua ub co. ni_string_array_comm a b ni_string_array_init ni_string_array_init ni_string_array_init = Some (ua, ub, co)
     \<and> strs (sa_items ua) = strs (sa_items a) - strs (sa_items b)
     \<and> strs (sa_items ub) = strs (sa_items b) - strs (sa_items a)
     \<and> strs (sa_items co) = strs (sa_items a) \<inter># strs (sa_items b)"
  using ni_string_array_comm_ok [OF assms sa_wf_init(1) sa_wf_init(1) sa_wf_init(1)] by auto

lemma sa_wf_example:
  "sa_wf \<lparr>sa_count = 2, sa_data = [Some s, Some t] @ replicate 15 None\<rparr>"
  by (simp add: sa_wf_def chunk_cap_def ARRAY_CHUNK_def nth_append)

lemma ni_string_array_comm_partitions_witness:
  "\<exists>ua ub co. ni_string_array_comm \<lparr>sa_count = 2, sa_data = [Some ''x'', Some ''y''] @ replicate 15 None\<rparr>
        \<lparr>sa_count = 2, sa_data = [Some ''y'', Some ''y''] @ replicate 15 None\<rparr>
        ni_string_array_init ni_string_array_init ni_string_array_init = Some (ua, ub, co)
     \<and> strs (sa_items ua) = {#''x''#} \<and> strs (sa_items ub) = {#''y''#} \<and> strs (sa_items co) = {#''y''#}"
  using ni_string_array_comm_partitions [OF sa_wf_example [of "''x''" "''y''"] sa_wf_example [of "''y''" "''y''"]]
  by (simp add: sa_items_def inter_add_left1 inter_add_left2)

text \<open>\<open>ni_string_array_is_uniq\<close> compares every string with itself.  It returns 0 for every array
  that holds a string before its last position, whether the strings are unique or not.\<close>

theorem ni_string_array_is_uniq_wrong:
  assumes "sa_wf nsa" and "sa_items nsa = pre @ Some v # x # rest" and "list_all (\<lambda>y. y = None) pre"
  shows "ni_string_array_is_uniq nsa = Some 0"
proof -
  have u: "uniq_inner None xs = Some True" for xs by (cases xs) simp_all
  have "list_all (\<lambda>y. y = None) pre \<Longrightarrow> uniq_outer (pre @ Some v # x # rest) = Some 0"
    by (induction pre) (simp_all add: u)
  then show ?thesis using assms sa_read_items [OF assms(1)] by (simp add: ni_string_array_is_uniq_def)
qed

lemma ni_string_array_is_uniq_wrong_witness:
  "ni_string_array_is_uniq \<lparr>sa_count = 2, sa_data = [Some ''x'', Some ''y''] @ replicate 15 None\<rparr> = Some 0"
  by (rule ni_string_array_is_uniq_wrong [OF sa_wf_example, where pre = "[]" and rest = "[]"])
     (simp_all add: sa_items_def)

end
