(* ===== verification/Numbers.thy ===== *)
theory Numbers
  imports Prelude
begin

text \<open>
  Reading and printing numbers, dborb/util.c: the \<open>ni_parse_*\<close> functions over \<open>strtol\<close> and
  \<open>strtoul\<close>, names for numbers (\<open>ni_intmap_t\<close>), hexadecimal data and UUIDs.  \<open>long\<close> has 64 bits, \<open>int\<close> has 32,
  characters are classified as in the C locale.  Result pointers are not NULL; an input string may be.
\<close>

section \<open>Characters\<close>

definition c_code :: "char \<Rightarrow> nat" where "c_code c = of_char c"

definition c_isspace :: "char \<Rightarrow> bool" where "c_isspace c \<longleftrightarrow> c_code c = 32 \<or> 9 \<le> c_code c \<and> c_code c \<le> 13"
definition c_isdigit :: "char \<Rightarrow> bool" where "c_isdigit c \<longleftrightarrow> 48 \<le> c_code c \<and> c_code c \<le> 57"
definition c_isupper :: "char \<Rightarrow> bool" where "c_isupper c \<longleftrightarrow> 65 \<le> c_code c \<and> c_code c \<le> 90"
definition c_islower :: "char \<Rightarrow> bool" where "c_islower c \<longleftrightarrow> 97 \<le> c_code c \<and> c_code c \<le> 122"
definition c_isalnum :: "char \<Rightarrow> bool" where "c_isalnum c \<longleftrightarrow> c_isdigit c \<or> c_isupper c \<or> c_islower c"
definition c_isgraph :: "char \<Rightarrow> bool" where "c_isgraph c \<longleftrightarrow> 33 \<le> c_code c \<and> c_code c \<le> 126"
definition c_iscntrl :: "char \<Rightarrow> bool" where "c_iscntrl c \<longleftrightarrow> c_code c < 32 \<or> c_code c = 127"
definition c_tolower :: "char \<Rightarrow> char" where "c_tolower c = (if c_isupper c then char_of (c_code c + 32) else c)"

definition c_isxdigit :: "char \<Rightarrow> bool" where
  "c_isxdigit c \<longleftrightarrow> c_isdigit c \<or> 97 \<le> c_code (c_tolower c) \<and> c_code (c_tolower c) \<le> 102"

definition strcasecmp_eq :: "cstring \<Rightarrow> cstring \<Rightarrow> bool" where
  "strcasecmp_eq a b \<longleftrightarrow> map c_tolower a = map c_tolower b"

section \<open>strtol and strtoul\<close>

definition digit_value :: "char \<Rightarrow> nat option" where
  "digit_value c =
     (if c_isdigit c then Some (c_code c - 48)
      else if c_islower c then Some (c_code c - 87)
      else if c_isupper c then Some (c_code c - 55)
      else None)"

definition is_digit :: "nat \<Rightarrow> char \<Rightarrow> bool" where
  "is_digit b c = (case digit_value c of None \<Rightarrow> False | Some d \<Rightarrow> d < b)"

fun scan_digits :: "nat \<Rightarrow> nat \<Rightarrow> cstring \<Rightarrow> nat \<times> cstring" where
  "scan_digits b acc [] = (acc, [])"
| "scan_digits b acc (c # cs) =
     (if is_digit b c then scan_digits b (acc * b + the (digit_value c)) cs else (acc, c # cs))"

text \<open>The prefix of base 16 and the base that base 0 stands for.\<close>

fun scan_prefix :: "nat \<Rightarrow> cstring \<Rightarrow> nat \<times> cstring" where
  "scan_prefix b (z # x # d # rest) =
     (if (b = 0 \<or> b = 16) \<and> z = CHR ''0'' \<and> (x = CHR ''x'' \<or> x = CHR ''X'') \<and> is_digit 16 d then (16, d # rest)
      else if b = 0 then (if z = CHR ''0'' then 8 else 10, z # x # d # rest)
      else (b, z # x # d # rest))"
| "scan_prefix b s = (if b = 0 then (if s \<noteq> [] \<and> hd s = CHR ''0'' then 8 else 10) else b, s)"

fun scan_sign :: "cstring \<Rightarrow> bool \<times> cstring" where
  "scan_sign (c # cs) = (if c = CHR ''-'' then (True, cs) else if c = CHR ''+'' then (False, cs) else (False, c # cs))"
| "scan_sign [] = (False, [])"

text \<open>The magnitude and sign read, and the rest of the string (the string itself when there is no number).\<close>

definition scan_number :: "cstring \<Rightarrow> nat \<Rightarrow> bool \<times> nat \<times> cstring" where
  "scan_number s base =
     (let (neg, s1) = scan_sign (dropWhile c_isspace s);
          (b, s2) = scan_prefix base s1
      in if s2 \<noteq> [] \<and> is_digit b (hd s2) then (neg, scan_digits b 0 s2) else (False, 0, s))"

text \<open>Value, whether \<open>errno\<close> is set to ERANGE, and \<open>endptr\<close>.\<close>

definition strtoul :: "cstring \<Rightarrow> nat \<Rightarrow> u64 \<times> bool \<times> cstring" where
  "strtoul s base =
     (let (neg, v, rest) = scan_number s base
      in if 2 ^ 64 \<le> v then (- 1, True, rest) else (if neg then - of_nat v else of_nat v, False, rest))"

definition strtol :: "cstring \<Rightarrow> nat \<Rightarrow> int \<times> bool \<times> cstring" where
  "strtol s base =
     (let (neg, v, rest) = scan_number s base
      in if neg then (if 2 ^ 63 < v then (- (2 ^ 63), True, rest) else (- int v, False, rest))
         else (if 2 ^ 63 \<le> v then (2 ^ 63 - 1, True, rest) else (int v, False, rest)))"

section \<open>The parsing functions\<close>

definition first_ok :: "nat \<Rightarrow> cstring \<Rightarrow> bool" where
  "first_ok base s \<longleftrightarrow> s \<noteq> [] \<and> (if base = 16 then c_isxdigit (hd s) else c_isdigit (hd s))"

definition ni_parse_long :: "cstring option \<Rightarrow> nat \<Rightarrow> int option" where
  "ni_parse_long input base =
     (case input of None \<Rightarrow> None
      | Some s \<Rightarrow>
          (if s = [] then None
           else if \<not> first_ok base (if hd s = CHR ''-'' then tl s else s) then None
           else let (value, erange, end) = strtol s base in
             if erange \<or> end \<noteq> [] then None else Some value))"

definition ni_parse_int :: "cstring option \<Rightarrow> nat \<Rightarrow> int option" where
  "ni_parse_int input base =
     (case ni_parse_long input base of None \<Rightarrow> None
      | Some value \<Rightarrow> (if value > 2 ^ 31 - 1 \<or> value < - (2 ^ 31) then None else Some value))"

definition ni_parse_ulong :: "cstring option \<Rightarrow> nat \<Rightarrow> u64 option" where
  "ni_parse_ulong input base =
     (case input of None \<Rightarrow> None
      | Some s \<Rightarrow>
          (if s = [] \<or> hd s = CHR ''-'' \<or> \<not> first_ok base s then None
           else let (value, erange, end) = strtoul s base in
             if erange \<or> end \<noteq> [] then None else Some value))"

definition ni_parse_uint :: "cstring option \<Rightarrow> nat \<Rightarrow> u32 option" where
  "ni_parse_uint input base =
     (case ni_parse_ulong input base of None \<Rightarrow> None
      | Some value \<Rightarrow> (if 2 ^ 32 - 1 < unat value then None else Some (ucast value)))"

subsection \<open>Named numbers\<close>

record ni_intmap =
  im_name :: cstring
  im_value :: u32

text \<open>A map is the list of its entries up to the one with a NULL name; the map pointer may be NULL.\<close>

fun intmap_by_name :: "cstring \<Rightarrow> ni_intmap list \<Rightarrow> u32 option" where
  "intmap_by_name input [] = None"
| "intmap_by_name input (m # ms) =
     (if strcasecmp_eq (im_name m) input then Some (im_value m) else intmap_by_name input ms)"

fun intmap_by_value :: "u32 \<Rightarrow> ni_intmap list \<Rightarrow> cstring option" where
  "intmap_by_value value [] = None"
| "intmap_by_value value (m # ms) = (if im_value m = value then Some (im_name m) else intmap_by_value value ms)"

definition ni_parse_uint_mapped :: "cstring option \<Rightarrow> ni_intmap list option \<Rightarrow> u32 option" where
  "ni_parse_uint_mapped input im =
     (case (input, im) of (Some s, Some ms) \<Rightarrow> intmap_by_name s ms | _ \<Rightarrow> None)"

definition ni_format_uint_mapped :: "u32 \<Rightarrow> ni_intmap list option \<Rightarrow> cstring option" where
  "ni_format_uint_mapped value im = (case im of None \<Rightarrow> None | Some ms \<Rightarrow> intmap_by_value value ms)"

text \<open>The return code, and the result when it is not negative: 1 for a number without a name.\<close>

definition ni_parse_uint_maybe_mapped :: "cstring option \<Rightarrow> ni_intmap list option \<Rightarrow> nat \<Rightarrow> int \<times> u32 option" where
  "ni_parse_uint_maybe_mapped input im base =
     (if im = None \<or> input = None then (-1, None)
      else case ni_parse_uint_mapped input im of
        Some v \<Rightarrow> (0, Some v)
      | None \<Rightarrow>
          (case ni_parse_uint input base of
             None \<Rightarrow> (-1, None)
           | Some v \<Rightarrow> (if ni_format_uint_mapped v im = None then 1 else 0, Some v)))"

definition digit_char :: "nat \<Rightarrow> char" where
  "digit_char d = char_of (if d < 10 then 48 + d else 87 + d)"

text \<open>\<open>%u\<close> and \<open>%lu\<close>.\<close>

fun print_dec :: "nat \<Rightarrow> cstring" where
  "print_dec n = (if n < 10 then [digit_char n] else print_dec (n div 10) @ [digit_char (n mod 10)])"

declare print_dec.simps [simp del]

text \<open>\<open>%x\<close>.\<close>

fun print_hex :: "nat \<Rightarrow> cstring" where
  "print_hex n = (if n < 16 then [digit_char n] else print_hex (n div 16) @ [digit_char (n mod 16)])"

declare print_hex.simps [simp del]

definition ni_format_uint_maybe_mapped :: "u32 \<Rightarrow> ni_intmap list option \<Rightarrow> cstring option" where
  "ni_format_uint_maybe_mapped value im =
     (if im = None then None
      else case ni_format_uint_mapped value im of Some name \<Rightarrow> Some name | None \<Rightarrow> Some (print_dec (unat value)))"

section \<open>Hexadecimal data\<close>

definition print_hex2 :: "byte \<Rightarrow> cstring" where
  "print_hex2 b = [digit_char (unat b div 16), digit_char (unat b mod 16)]"

text \<open>\<open>namebuf\<close> from position \<open>j\<close> on; the loop stops when another octet might not fit.\<close>

fun format_hex :: "nat \<Rightarrow> nat \<Rightarrow> byte list \<Rightarrow> cstring" where
  "format_hex namelen j [] = []"
| "format_hex namelen j (b # bs) =
     (if namelen \<le> j + 4 then []
      else let sep = (if j = 0 then [] else '':'')
           in sep @ print_hex2 b @ format_hex namelen (j + length sep + 2) bs)"

definition ni_format_hex :: "byte list \<Rightarrow> nat \<Rightarrow> cstring" where
  "ni_format_hex data namelen = format_hex namelen 0 data"

definition ni_print_hex :: "byte list \<Rightarrow> cstring" where
  "ni_print_hex data = ni_format_hex data 512"

lemma scan_digits_length: "length (snd (scan_digits b acc s)) \<le> length s"
proof (induction b acc s rule: scan_digits.induct)
  case (2 b acc c cs)
  then show ?case by (cases "is_digit b c") auto
qed simp

lemma scan_prefix_length: "length (snd (scan_prefix b s)) \<le> length s"
  by (induction b s rule: scan_prefix.induct) auto

lemma scan_sign_length: "length (snd (scan_sign s)) \<le> length s"
  by (cases s) auto

lemma strtoul_length: "length (snd (snd (strtoul s base))) \<le> length s"
proof -
  obtain neg s1 b s2 where x: "scan_sign (dropWhile c_isspace s) = (neg, s1)" "scan_prefix base s1 = (b, s2)" by fastforce
  have "length s2 \<le> length s"
    using scan_prefix_length [of base s1] scan_sign_length [of "dropWhile c_isspace s"] length_dropWhile_le [of c_isspace s] x
    by simp
  then show ?thesis
    using scan_digits_length [of b 0 s2] x
    by (auto simp: strtoul_def scan_number_def Let_def split: prod.split)
qed

lemma strtoul_shorter: "strtoul s b = (v, e, c # cs) \<Longrightarrow> length cs < length s"
  using strtoul_length [of s b] by simp

text \<open>Octets separated by colons; \<open>octet\<close> is an \<open>unsigned int\<close>, the low half of what \<open>strtoul\<close> returns.\<close>

function parse_hex_loop :: "nat \<Rightarrow> nat \<Rightarrow> cstring \<Rightarrow> byte list option option" where
  "parse_hex_loop datasize len string =
     (case strtoul string 16 of (v, _, rest) \<Rightarrow>
       let octet = ucast v :: u32 in
       if 255 < octet then Some None
       else if datasize \<le> len then None
       else case rest of
         [] \<Rightarrow> Some (Some [ucast octet])
       | c # cs \<Rightarrow>
           (if c \<noteq> CHR '':'' then Some None
            else if datasize \<le> len + 1 then Some None
            else do { r \<leftarrow> parse_hex_loop datasize (len + 1) cs; Some (map_option (\<lambda>ds. ucast octet # ds) r) }))"
  by pat_completeness auto
termination
  by (relation "measure (\<lambda>(_, _, s). length s)") (auto dest!: strtoul_shorter [OF sym])

declare parse_hex_loop.simps [simp del]

text \<open>\<^const>\<open>None\<close>: a write outside \<open>data\<close>; \<open>Some None\<close>: -1; otherwise the octets.\<close>

definition ni_parse_hex :: "cstring \<Rightarrow> nat \<Rightarrow> byte list option option" where
  "ni_parse_hex string datasize = parse_hex_loop datasize 0 string"

section \<open>UUIDs\<close>

text \<open>\<open>ni_uuid_t\<close>: 16 octets, also seen as four words.\<close>

type_synonym ni_uuid = "byte list"

definition ni_uuid_is_null :: "ni_uuid \<Rightarrow> bool" where
  "ni_uuid_is_null uuid \<longleftrightarrow> uuid = replicate 16 0"

definition ni_uuid_equal :: "ni_uuid \<Rightarrow> ni_uuid \<Rightarrow> bool" where
  "ni_uuid_equal a b \<longleftrightarrow> a = b"

definition ni_uuid_print :: "ni_uuid option \<Rightarrow> cstring option" where
  "ni_uuid_print uuid =
     (case uuid of None \<Rightarrow> None
      | Some p \<Rightarrow>
          (if ni_uuid_is_null p then Some []
           else Some (concat (map print_hex2 (take 4 p)) @ ''-'' @ concat (map print_hex2 (take 2 (drop 4 p))) @ ''-''
                  @ concat (map print_hex2 (take 2 (drop 6 p))) @ ''-'' @ concat (map print_hex2 (take 2 (drop 8 p))) @ ''-''
                  @ concat (map print_hex2 (take 6 (drop 10 p))))))"

text \<open>\<open>octets\<close> is filled as the digits come; the C code leaves a partly filled UUID when it fails.\<close>

function uuid_parse_loop :: "nat \<Rightarrow> byte \<Rightarrow> ni_uuid \<Rightarrow> cstring \<Rightarrow> int \<times> ni_uuid" where
  "uuid_parse_loop nibbles b octets [] = (if nibbles < 32 then -1 else 0, octets)"
| "uuid_parse_loop nibbles b octets (c # cs) =
     (let cc = c_tolower c in
      if nibbles = 32 then (-1, octets)
      else if \<not> (c_isdigit cc \<or> 97 \<le> c_code cc \<and> c_code cc \<le> 102) then (-1, octets)
      else let b' = push_bit 4 b OR of_nat (if c_isdigit cc then c_code cc - 48 else c_code cc - 97 + 10);
               nibbles' = nibbles + 1
           in if nibbles' mod 2 = 0
              then uuid_parse_loop nibbles' 0 (octets[nibbles' div 2 - 1 := b'])
                     (if cs \<noteq> [] \<and> (hd cs = CHR ''-'' \<or> hd cs = CHR '':'') then tl cs else cs)
              else uuid_parse_loop nibbles' b' octets cs)"
  by pat_completeness auto
termination by (relation "measure (\<lambda>(_, _, _, s). length s)") (auto simp: less_Suc_eq_le)

definition ni_uuid_parse :: "ni_uuid option \<Rightarrow> cstring option \<Rightarrow> int \<times> ni_uuid option" where
  "ni_uuid_parse uuid string =
     (case (uuid, string) of
        (Some u, Some s) \<Rightarrow>
          (if s = [] then (0, Some (replicate 16 0))
           else let (r, u') = uuid_parse_loop 0 0 u s in (r, Some u'))
      | _ \<Rightarrow> (-1, uuid))"


section \<open>Digits\<close>

lemma c_code_char_of [simp]: "n < 256 \<Longrightarrow> c_code (char_of n) = n"
  by (simp add: c_code_def of_char_of take_bit_eq_mod)

lemma digit_char_facts:
  assumes "d < 16"
  shows "digit_value (digit_char d) = Some d" "is_digit 16 (digit_char d)" "d < 10 \<Longrightarrow> c_isdigit (digit_char d)"
    "digit_char d \<noteq> CHR ''-''" "digit_char d \<noteq> CHR '':''" "digit_char d \<noteq> CHR ''x''" "digit_char d \<noteq> CHR ''X''"
    "digit_char d \<noteq> CHR ''+''" "\<not> c_isspace (digit_char d)" "c_tolower (digit_char d) = digit_char d"
    "c_isdigit (digit_char d) \<or> 97 \<le> c_code (digit_char d) \<and> c_code (digit_char d) \<le> 102"
    "(if c_isdigit (digit_char d) then c_code (digit_char d) - 48 else c_code (digit_char d) - 97 + 10) = d"
proof -
  have code: "c_code (digit_char d) = (if d < 10 then 48 + d else 87 + d)" using assms by (simp add: digit_char_def)
  have ne: "digit_char d \<noteq> c" if "c_code c < 48 \<or> 57 < c_code c \<and> c_code c < 97 \<or> 102 < c_code c" for c
    using code that assms by (auto split: if_splits)
  show "digit_value (digit_char d) = Some d" "is_digit 16 (digit_char d)" "d < 10 \<Longrightarrow> c_isdigit (digit_char d)"
    "\<not> c_isspace (digit_char d)" "c_tolower (digit_char d) = digit_char d"
    "c_isdigit (digit_char d) \<or> 97 \<le> c_code (digit_char d) \<and> c_code (digit_char d) \<le> 102"
    "(if c_isdigit (digit_char d) then c_code (digit_char d) - 48 else c_code (digit_char d) - 97 + 10) = d"
    using code assms
    by (auto simp: digit_value_def is_digit_def c_isdigit_def c_islower_def c_isupper_def c_isspace_def c_tolower_def)
  show "digit_char d \<noteq> CHR ''-''" "digit_char d \<noteq> CHR '':''" "digit_char d \<noteq> CHR ''x''" "digit_char d \<noteq> CHR ''X''"
    "digit_char d \<noteq> CHR ''+''"
    by (rule ne, simp add: c_code_def)+
qed

lemma is_digit_10: "is_digit 10 c = c_isdigit c"
  by (auto simp: is_digit_def digit_value_def c_isdigit_def c_islower_def c_isupper_def)

lemma digit_value_dec: "c_isdigit c \<Longrightarrow> digit_value c = Some (c_code c - 48)"
  by (simp add: digit_value_def)

lemma c_isdigit_facts: "c_isdigit c \<Longrightarrow> \<not> c_isspace c \<and> c \<noteq> CHR ''-'' \<and> c \<noteq> CHR ''+''"
  by (auto simp: c_isdigit_def c_isspace_def c_code_def)

definition digits_value :: "nat \<Rightarrow> nat \<Rightarrow> cstring \<Rightarrow> nat" where
  "digits_value b acc s = foldl (\<lambda>a c. a * b + the (digit_value c)) acc s"

lemma digits_value_simps [simp]:
  "digits_value b acc [] = acc" "digits_value b acc (c # s) = digits_value b (acc * b + the (digit_value c)) s"
  "digits_value b acc (s @ t) = digits_value b (digits_value b acc s) t"
  by (simp_all add: digits_value_def)

lemma scan_digits_eq:
  "scan_digits b acc s = (digits_value b acc (takeWhile (is_digit b) s), dropWhile (is_digit b) s)"
  by (induction b acc s rule: scan_digits.induct) auto

lemma print_dec_value: "digits_value 10 0 (print_dec n) = n"
proof (induction n rule: print_dec.induct)
  case (1 n)
  show ?case
  proof (cases "n < 10")
    case True
    then show ?thesis using digit_char_facts(1) [of n] by (simp add: print_dec.simps [of n])
  next
    case False
    then show ?thesis using 1 digit_char_facts(1) [of "n mod 10"] by (simp add: print_dec.simps [of n])
  qed
qed

lemma print_dec_digits: "print_dec n \<noteq> [] \<and> list_all c_isdigit (print_dec n)"
proof (induction n rule: print_dec.induct)
  case (1 n)
  show ?case
  proof (cases "n < 10")
    case True
    then show ?thesis using digit_char_facts(3) [of n] by (simp add: print_dec.simps [of n])
  next
    case False
    then show ?thesis using 1 digit_char_facts(3) [of "n mod 10"] by (simp add: print_dec.simps [of n])
  qed
qed

lemma print_dec_no_zero: "0 < n \<Longrightarrow> hd (print_dec n) \<noteq> CHR ''0''"
proof (induction n rule: print_dec.induct)
  case (1 n)
  show ?case
  proof (cases "n < 10")
    case True
    have "c_code (digit_char n) \<noteq> 48" using True "1.prems" by (simp add: digit_char_def)
    then have "digit_char n \<noteq> CHR ''0''" by (auto simp: c_code_def)
    then show ?thesis using True by (simp add: print_dec.simps [of n])
  next
    case False
    then show ?thesis using 1 print_dec_digits [of "n div 10"] by (simp add: print_dec.simps [of n])
  qed
qed

section \<open>Decimal numbers\<close>

lemma scan_sign_digit: "s \<noteq> [] \<Longrightarrow> c_isdigit (hd s) \<Longrightarrow> scan_sign s = (False, s)"
  using c_isdigit_facts by (cases s) auto

lemma scan_prefix_10: "scan_prefix 10 s = (10, s)"
  by (induction "10 :: nat" s rule: scan_prefix.induct) auto

lemma strtoul_decimal:
  assumes "s \<noteq> []" and "c_isdigit (hd s)"
  shows "strtoul s 10 =
    (let v = digits_value 10 0 (takeWhile c_isdigit s); rest = dropWhile c_isdigit s
     in if 2 ^ 64 \<le> v then (- 1, True, rest) else (of_nat v, False, rest))"
proof -
  have "dropWhile c_isspace s = s" using assms c_isdigit_facts by (cases s) auto
  moreover have d: "is_digit 10 = c_isdigit" by (rule ext) (rule is_digit_10)
  ultimately show ?thesis
    using assms by (simp add: strtoul_def scan_number_def scan_sign_digit scan_prefix_10 scan_digits_eq Let_def)
qed

lemma dropWhile_Nil_iff: "dropWhile P s = [] \<longleftrightarrow> list_all P s"
  by (simp add: dropWhile_eq_Nil_conv list_all_iff)

lemma takeWhile_all: "list_all P s \<Longrightarrow> takeWhile P s = s"
  by (simp add: takeWhile_eq_all_conv list_all_iff)

lemma ni_parse_uint_dec:
  "ni_parse_uint (Some s) 10 =
     (if s \<noteq> [] \<and> list_all c_isdigit s \<and> digits_value 10 0 s < 2 ^ 32 then Some (of_nat (digits_value 10 0 s)) else None)"
proof (cases "s \<noteq> [] \<and> c_isdigit (hd s)")
  case False
  then have "ni_parse_ulong (Some s) 10 = None" by (auto simp: ni_parse_ulong_def first_ok_def)
  moreover have "\<not> (s \<noteq> [] \<and> list_all c_isdigit s)" using False by (cases s) auto
  ultimately show ?thesis by (auto simp: ni_parse_uint_def)
next
  case True
  let ?v = "digits_value 10 0 (takeWhile c_isdigit s)"
  have nm: "hd s \<noteq> CHR ''-''" using True c_isdigit_facts by auto
  have u: "ni_parse_ulong (Some s) 10 = (if 2 ^ 64 \<le> ?v \<or> \<not> list_all c_isdigit s then None else Some (of_nat ?v))"
    using True nm strtoul_decimal [of s] dropWhile_Nil_iff [of c_isdigit s]
    by (auto simp: ni_parse_ulong_def first_ok_def Let_def simp del: dropWhile_eq_Nil_conv split: if_splits)
  show ?thesis
  proof (cases "list_all c_isdigit s")
    case all: True
    have tv: "?v = digits_value 10 0 s" by (simp only: takeWhile_all [OF all])
    show ?thesis
    proof (cases "?v < 2 ^ 64")
      case lt: True
      then have "unat (of_nat ?v :: u64) = ?v" by (simp add: unat_of_nat take_bit_eq_mod)
      moreover have "(ucast (of_nat ?v :: u64) :: u32) = of_nat ?v" by (simp add: word_unat_eq_iff unat_of_nat unsigned_ucast_eq take_bit_eq_mod mod_mod_cancel)
      ultimately show ?thesis using u lt all True tv by (auto simp: ni_parse_uint_def)
    next
      case False
      then show ?thesis using u all True tv by (simp add: ni_parse_uint_def)
    qed
  qed (use u in \<open>simp add: ni_parse_uint_def\<close>)
qed

text \<open>C12: \<open>ni_parse_uint\<close> in base 10 accepts exactly the decimal numbers that fit \<open>unsigned int\<close>: a
  non-empty string of digits with a value below 2 to the 32, and nothing else - no sign, no blanks, no
  trailing characters, no number that is too large for \<open>int\<close> or for \<open>strtoul\<close>.  What \<open>%u\<close> prints is read
  back as the number printed.\<close>

theorem ni_parse_uint_exact:
  "ni_parse_uint (Some s) 10 =
     (if s \<noteq> [] \<and> list_all c_isdigit s \<and> digits_value 10 0 s < 2 ^ 32 then Some (of_nat (digits_value 10 0 s)) else None)
   \<and> ni_parse_uint (Some (print_dec (unat n))) 10 = Some (n :: u32)"
proof -
  have "unat n < 2 ^ 32" using unsigned_less [of n] by simp
  then show ?thesis
    using ni_parse_uint_dec [of s] ni_parse_uint_dec [of "print_dec (unat n)"] print_dec_digits [of "unat n"] print_dec_value [of "unat n"]
    by simp
qed

lemma scan_prefix_0:
  "s \<noteq> [] \<Longrightarrow> list_all c_isdigit s \<Longrightarrow> scan_prefix 0 s = (if hd s = CHR ''0'' then 8 else 10, s)"
proof (induction "0 :: nat" s rule: scan_prefix.induct)
  case (1 z x d rest)
  have "x \<noteq> CHR ''x'' \<and> x \<noteq> CHR ''X''" using 1 by (auto simp: c_isdigit_def c_code_def)
  then show ?case by simp
qed auto

text \<open>Base 0, as the integer accessors of the variable arrays use it, reads \<open>%u\<close> output back too.\<close>

lemma scan_magnitude_0:
  "\<exists>b. scan_prefix 0 (print_dec n) = (b, print_dec n) \<and> is_digit b (hd (print_dec n)) \<and> scan_digits b 0 (print_dec n) = (n, [])"
proof (cases "n = 0")
  case True
  have "char_of (48 :: nat) = CHR ''0''" using char_of_char [of "CHR ''0''", where 'a = nat] by simp
  then have "print_dec n = ''0''" using True by (simp add: print_dec.simps [of 0] digit_char_def)
  then show ?thesis using True by (simp add: is_digit_def digit_value_def c_isdigit_def c_code_def)
next
  case False
  note P = print_dec_digits [of n]
  have d: "is_digit 10 = c_isdigit" by (rule ext) (rule is_digit_10)
  have "scan_prefix 0 (print_dec n) = (10, print_dec n)" using P False print_dec_no_zero [of n] by (simp add: scan_prefix_0)
  moreover have "c_isdigit (hd (print_dec n))" using P by (cases "print_dec n") auto
  moreover have "scan_digits 10 0 (print_dec n) = (n, [])"
    using P d print_dec_value [of n] by (simp add: scan_digits_eq takeWhile_all dropWhile_Nil_iff list_all_iff)
  ultimately show ?thesis using d by simp
qed

lemma scan_number_dec_0:
  "scan_number (print_dec n) 0 = (False, n, [])" "scan_number (CHR ''-'' # print_dec n) 0 = (True, n, [])"
proof -
  obtain b where b: "scan_prefix 0 (print_dec n) = (b, print_dec n)" "is_digit b (hd (print_dec n))" "scan_digits b 0 (print_dec n) = (n, [])"
    using scan_magnitude_0 [of n] by blast
  have P: "print_dec n \<noteq> []" "c_isdigit (hd (print_dec n))" using print_dec_digits [of n] by (cases "print_dec n"; auto)+
  then have "dropWhile c_isspace (print_dec n) = print_dec n" using c_isdigit_facts by (cases "print_dec n") auto
  then show "scan_number (print_dec n) 0 = (False, n, [])"
    using b P by (simp add: scan_number_def scan_sign_digit)
  have "\<not> c_isspace (CHR ''-'')" by (simp add: c_isspace_def c_code_def)
  then show "scan_number (CHR ''-'' # print_dec n) 0 = (True, n, [])" using b P by (simp add: scan_number_def)
qed

lemma strtoul_print_dec_0: "n < 2 ^ 64 \<Longrightarrow> strtoul (print_dec n) 0 = (of_nat n, False, [])"
  by (simp add: strtoul_def scan_number_dec_0)

section \<open>Hexadecimal data and UUIDs\<close>

lemma unat_byte_less: "unat (b :: byte) < 256"
  using unsigned_less [of b] by simp

lemma nibbles: "unat (b :: byte) div 16 < 16" "unat b mod 16 < 16" "of_nat (unat b div 16 * 16 + unat b mod 16) = b"
proof -
  show "unat b div 16 < 16" using unat_byte_less [of b] by simp
  show "unat b mod 16 < 16" by simp
  show "of_nat (unat b div 16 * 16 + unat b mod 16) = b" by simp
qed

lemma strtoul_hex2:
  assumes rest: "rest = [] \<or> hd rest = CHR '':''"
  shows "strtoul (print_hex2 b @ rest) 16 = (ucast b, False, rest)"
proof -
  let ?h = "digit_char (unat b div 16)" and ?l = "digit_char (unat b mod 16)"
  note H = digit_char_facts [OF nibbles(1) [of b]] and L = digit_char_facts [OF nibbles(2) [of b]]
  have nd: "\<not> is_digit 16 (CHR '':'')" by (simp add: is_digit_def digit_value_def c_isdigit_def c_islower_def c_isupper_def c_code_def)
  have sp: "dropWhile c_isspace (?h # ?l # rest) = ?h # ?l # rest" using H(9) by simp
  have sg: "scan_sign (?h # ?l # rest) = (False, ?h # ?l # rest)" using H(4,8) by simp
  have px: "scan_prefix 16 (?h # ?l # rest) = (16, ?h # ?l # rest)" using L(6,7) by (cases rest) auto
  have sd: "scan_digits 16 0 (?h # ?l # rest) = (unat b div 16 * 16 + unat b mod 16, rest)"
    using H(1,2) L(1,2) rest nd by (cases rest) auto
  have "scan_number (?h # ?l # rest) 16 = (False, unat b, rest)"
    using H(2) unfolding scan_number_def sp sg Let_def case_prod_conv px sd by simp
  moreover have "unat b < 2 ^ 64" using unat_byte_less [of b] by simp
  moreover have "of_nat (unat b) = (ucast b :: u64)" by (simp add: word_unat_eq_iff unat_of_nat unsigned_ucast_eq)
  ultimately show ?thesis by (simp add: strtoul_def print_hex2_def)
qed

lemma print_hex2_length [simp]: "length (print_hex2 b) = 2"
  by (simp add: print_hex2_def)

fun colon_hex :: "byte list \<Rightarrow> cstring" where
  "colon_hex [] = []"
| "colon_hex [b] = print_hex2 b"
| "colon_hex (b # bs) = print_hex2 b @ '':'' @ colon_hex bs"

lemma format_hex_rest:
  "0 < j \<Longrightarrow> bs \<noteq> [] \<Longrightarrow> j + 3 * length bs + 1 < namelen \<Longrightarrow> format_hex namelen j bs = CHR '':'' # colon_hex bs"
proof (induction bs arbitrary: j)
  case Nil
  then show ?case by simp
next
  case (Cons b bs)
  then show ?case by (cases bs) auto
qed

lemma ni_format_hex_ok: "3 * length bs + 1 < namelen \<Longrightarrow> ni_format_hex bs namelen = colon_hex bs"
proof (cases bs)
  case (Cons b cs)
  assume "3 * length bs + 1 < namelen"
  then show ?thesis using Cons format_hex_rest [of 2 cs namelen] by (cases cs) (auto simp: ni_format_hex_def)
qed (simp add: ni_format_hex_def)

lemma parse_hex_octet:
  "(ucast (ucast (b :: byte) :: u64) :: u32) = ucast b" "\<not> 255 < (ucast b :: u32)" "(ucast (ucast b :: u32) :: byte) = b"
proof -
  show "(ucast (ucast b :: u64) :: u32) = ucast b" by (rule bit_word_eqI) (auto simp: bit_simps dest: bit_imp_le_length)
  have "unat (ucast b :: u32) = unat b"
    using unat_byte_less [of b] by (simp add: unsigned_ucast_eq take_bit_nat_eq_self)
  then show "\<not> 255 < (ucast b :: u32)" using unat_byte_less [of b] by (simp add: word_less_nat_alt)
  show "(ucast (ucast b :: u32) :: byte) = b" by (rule bit_word_eqI) (auto simp: bit_simps)
qed

lemma parse_hex_colon:
  "bs \<noteq> [] \<Longrightarrow> len + length bs \<le> datasize \<Longrightarrow> parse_hex_loop datasize len (colon_hex bs) = Some (Some bs)"
proof (induction bs arbitrary: len rule: colon_hex.induct)
  case 1
  then show ?case by simp
next
  case (2 b)
  then show ?case using strtoul_hex2 [of "[]" b] parse_hex_octet [of b]
    by (simp add: parse_hex_loop.simps [of _ _ "print_hex2 b"])
next
  case (3 b c bs)
  have "parse_hex_loop datasize (len + 1) (colon_hex (c # bs)) = Some (Some (c # bs))"
    using 3 by simp
  then show ?case using 3(3) strtoul_hex2 [of "'':'' @ colon_hex (c # bs)" b] parse_hex_octet [of b]
    by (simp add: parse_hex_loop.simps [of _ _ "print_hex2 b @ CHR '':'' # _"])
qed

definition skip_sep :: "cstring \<Rightarrow> cstring" where
  "skip_sep rest = (if rest \<noteq> [] \<and> (hd rest = CHR ''-'' \<or> hd rest = CHR '':'') then tl rest else rest)"

lemma uuid_digit:
  assumes "d < 16" and "n \<noteq> 32"
  shows "uuid_parse_loop n b oc (digit_char d # cs) =
    (let b' = push_bit 4 b OR of_nat d
     in if (n + 1) mod 2 = 0 then uuid_parse_loop (n + 1) 0 (oc[(n + 1) div 2 - 1 := b']) (skip_sep cs)
        else uuid_parse_loop (n + 1) b' oc cs)"
proof -
  note D = digit_char_facts [OF assms(1)]
  have e: "\<not> (c_isdigit (digit_char d) \<or> 97 \<le> c_code (digit_char d) \<and> c_code (digit_char d) \<le> 102) \<longleftrightarrow> False"
    using D(11) by blast
  show ?thesis unfolding uuid_parse_loop.simps(2) Let_def D(10) D(12) e if_not_P [OF assms(2)] if_False skip_sep_def ..
qed

lemma uuid_step:
  assumes k: "k < 16"
  shows "uuid_parse_loop (2 * k) 0 octets (print_hex2 b @ rest)
    = uuid_parse_loop (2 * Suc k) 0 (octets[k := b]) (skip_sep rest)"
proof -
  have d: "of_nat (unat b div 16) = drop_bit 4 b"
    using nibbles(1) [of b] by (simp add: word_unat_eq_iff unat_of_nat drop_bit_eq_div take_bit_eq_mod unat_div_distrib)
  have t: "of_nat (unat b mod 16) = take_bit 4 b"
    by (simp add: word_unat_eq_iff unat_of_nat take_bit_eq_mod unat_mod_distrib)
  have e: "push_bit 4 (of_nat (unat b div 16)) OR of_nat (unat b mod 16) = b"
    unfolding d t by (rule bit_word_eqI) (auto simp: bit_simps)
  have "2 * k \<noteq> 32" "2 * k + 1 \<noteq> 32" using k by presburger+
  then show ?thesis
    using uuid_digit [OF nibbles(1) [of b], of "2 * k"] uuid_digit [OF nibbles(2) [of b], of "2 * k + 1"] e
    by (simp add: print_hex2_def Let_def)
qed

lemma skip_sep_hex [simp]: "skip_sep (print_hex2 b @ rest) = print_hex2 b @ rest"
  using digit_char_facts(4,5) [OF nibbles(1) [of b]] by (simp add: skip_sep_def print_hex2_def)

lemma uuid_octets:
  "bs \<noteq> [] \<Longrightarrow> k + length bs \<le> 16 \<Longrightarrow> length octets = 16 \<Longrightarrow>
     uuid_parse_loop (2 * k) 0 octets (concat (map print_hex2 bs) @ rest)
       = uuid_parse_loop (2 * (k + length bs)) 0 (take k octets @ bs @ drop (k + length bs) octets) (skip_sep rest)"
proof (induction bs arbitrary: k octets)
  case Nil
  then show ?case by simp
next
  case (Cons b bs)
  have k: "k < 16" using Cons.prems by simp
  have u: "take (Suc k) (octets[k := b]) = take k octets @ [b]" "drop (Suc k + n) (octets[k := b]) = drop (Suc k + n) octets" for n
    using k Cons.prems(3) by (simp_all add: take_Suc_conv_app_nth)
  show ?case
  proof (cases bs)
    case Nil
    then show ?thesis using uuid_step [OF k, of octets b rest] k Cons.prems(3)
      by (simp add: upd_conv_take_nth_drop)
  next
    case (Cons c cs)
    have "uuid_parse_loop (2 * k) 0 octets (print_hex2 b @ concat (map print_hex2 bs) @ rest)
        = uuid_parse_loop (2 * Suc k) 0 (octets[k := b]) (concat (map print_hex2 bs) @ rest)"
      using uuid_step [OF k, of octets b "concat (map print_hex2 bs) @ rest"] skip_sep_hex [of c "concat (map print_hex2 cs) @ rest"] Cons
      by simp
    also have "\<dots> = uuid_parse_loop (2 * (Suc k + length bs)) 0
        (take (Suc k) (octets[k := b]) @ bs @ drop (Suc k + length bs) (octets[k := b])) (skip_sep rest)"
      by (rule Cons.IH) (use Cons Cons.prems in simp_all)
    finally show ?thesis unfolding u by simp
  qed
qed

lemma skip_sep_minus [simp]: "skip_sep (CHR ''-'' # s) = s" "skip_sep [] = []"
  by (simp_all add: skip_sep_def)

lemma uuid_chunk:
  assumes "length p = 16" and "length u = 16" and "k + n \<le> 16" and "0 < n"
  shows "uuid_parse_loop (2 * k) 0 (take k p @ drop k u) (concat (map print_hex2 (take n (drop k p))) @ rest)
    = uuid_parse_loop (2 * (k + n)) 0 (take (k + n) p @ drop (k + n) u) (skip_sep rest)"
proof -
  have "length (take n (drop k p)) = n" using assms by simp
  then have "uuid_parse_loop (2 * k) 0 (take k p @ drop k u) (concat (map print_hex2 (take n (drop k p))) @ rest)
    = uuid_parse_loop (2 * (k + n)) 0 (take k (take k p @ drop k u) @ take n (drop k p) @ drop (k + n) (take k p @ drop k u)) (skip_sep rest)"
    using uuid_octets [of "take n (drop k p)" k "take k p @ drop k u" rest] assms by (simp del: mult_Suc_right)
  then show ?thesis using assms by (simp add: take_add min_def add.commute)
qed

text \<open>UUIDs survive printing.  Parsing what \<open>ni_uuid_print\<close> prints for any UUID, the null UUID
  (the empty string) included, gives the UUID back, whatever was in the destination before.\<close>

theorem ni_uuid_roundtrip:
  assumes "length p = 16" and "length u = 16" and "ni_uuid_print (Some p) = Some s"
  shows "ni_uuid_parse (Some u) (Some s) = (0, Some p)"
proof (cases "ni_uuid_is_null p")
  case True
  then show ?thesis using assms by (auto simp: ni_uuid_print_def ni_uuid_is_null_def ni_uuid_parse_def)
next
  case False
  let ?h = "\<lambda>xs. concat (map print_hex2 xs)"
  define e d c b where "e = ?h (take 6 (drop 10 p)) @ []" and "d = ?h (take 2 (drop 8 p)) @ CHR ''-'' # e"
    and "c = ?h (take 2 (drop 6 p)) @ CHR ''-'' # d" and "b = ?h (take 2 (drop 4 p)) @ CHR ''-'' # c"
  have s: "s = ?h (take 4 (drop 0 p)) @ CHR ''-'' # b"
    using assms(3) False by (simp add: ni_uuid_print_def e_def d_def c_def b_def)
  note U = uuid_chunk [OF assms(1,2)]
  have "uuid_parse_loop 0 0 u s = uuid_parse_loop (2 * 4) 0 (take 4 p @ drop 4 u) b"
    using U [of 0 4 "CHR ''-'' # b"] by (simp add: s)
  also have "\<dots> = uuid_parse_loop (2 * 6) 0 (take 6 p @ drop 6 u) c" using U [of 4 2 "CHR ''-'' # c"] by (simp add: b_def)
  also have "\<dots> = uuid_parse_loop (2 * 8) 0 (take 8 p @ drop 8 u) d" using U [of 6 2 "CHR ''-'' # d"] by (simp add: c_def)
  also have "\<dots> = uuid_parse_loop (2 * 10) 0 (take 10 p @ drop 10 u) e" using U [of 8 2 "CHR ''-'' # e"] by (simp add: d_def)
  also have "\<dots> = (0, p)" using U [of 10 6 "[]"] assms(1,2) by (simp add: e_def)
  finally have "uuid_parse_loop 0 0 u s = (0, p)" .
  moreover have "s \<noteq> []" by (simp add: s)
  ultimately show ?thesis by (simp add: ni_uuid_parse_def)
qed

lemma ni_uuid_roundtrip_witness:
  "\<exists>s. ni_uuid_print (Some [0x12, 0xab, 0, 0xff, 1, 2, 3, 4, 5, 6, 7, 8, 9, 10, 11, 12]) = Some s
     \<and> ni_uuid_parse (Some (replicate 16 0xee)) (Some s) = (0, Some [0x12, 0xab, 0, 0xff, 1, 2, 3, 4, 5, 6, 7, 8, 9, 10, 11, 12])"
  using ni_uuid_roundtrip [of "[0x12, 0xab, 0, 0xff, 1, 2, 3, 4, 5, 6, 7, 8, 9, 10, 11, 12]" "replicate 16 0xee"]
  by (cases "ni_uuid_print (Some [0x12, 0xab, 0, 0xff, 1, 2, 3, 4, 5, 6, 7, 8, 9, 10, 11, 12 :: byte])")
     (auto simp: ni_uuid_print_def split: if_splits)

text \<open>binary data survives printing in hexadecimal: for up to 170 octets, \<open>ni_parse_hex\<close> of the
  colon-separated text \<open>ni_print_hex\<close> makes gives the octets back, and writes nothing outside a buffer
  that holds them.\<close>

theorem ni_hex_roundtrip:
  assumes "bs \<noteq> []" and "length bs \<le> 170" and "length bs \<le> datasize"
  shows "ni_parse_hex (ni_print_hex bs) datasize = Some (Some bs)"
  using assms parse_hex_colon [of bs 0 datasize] ni_format_hex_ok [of bs 512]
  by (simp add: ni_parse_hex_def ni_print_hex_def)

lemma ni_hex_roundtrip_witness: "ni_parse_hex (ni_print_hex [0xde, 0xad, 0]) 3 = Some (Some [0xde, 0xad, 0])"
  by (rule ni_hex_roundtrip) simp_all

end
