(* ===== verification/Vars.thy ===== *)
theory Vars
  imports Arrays Numbers
begin

text \<open>
  The remaining containers of dborb/util.c: arrays of unsigned integers, arrays of variables with the
  typed accessors, and bit fields.
\<close>

section \<open>Arrays of unsigned integers\<close>

record ni_uint_array =
  ua_count :: nat
  ua_data :: "u32 list"

definition ni_uint_array_init :: ni_uint_array where
  "ni_uint_array_init = \<lparr>ua_count = 0, ua_data = []\<rparr>"

definition ni_uint_array_destroy :: "ni_uint_array option \<Rightarrow> ni_uint_array option" where
  "ni_uint_array_destroy nua = map_option (\<lambda>_. ni_uint_array_init) nua"

definition u_ni_uint_array_realloc :: "ni_uint_array \<Rightarrow> nat \<Rightarrow> ni_uint_array option" where
  "u_ni_uint_array_realloc nua newsize = do {
     let newsize = newsize + ARRAY_CHUNK;
     keep \<leftarrow> mem_read (ua_data nua) 0 (min (ua_count nua) newsize);
     Some (nua\<lparr>ua_data := keep @ replicate (newsize - ua_count nua) 0\<rparr>) }"

definition ni_uint_array_append :: "ni_uint_array option \<Rightarrow> u32 \<Rightarrow> (bool \<times> ni_uint_array option) option" where
  "ni_uint_array_append nua num =
     (case nua of None \<Rightarrow> Some (False, None)
      | Some a \<Rightarrow> do {
          a1 \<leftarrow> (if ua_count a mod ARRAY_CHUNK = 0 then u_ni_uint_array_realloc a (ua_count a) else Some a);
          d \<leftarrow> arr_set (ua_data a1) (ua_count a1) num;
          Some (True, Some (a1\<lparr>ua_data := d, ua_count := ua_count a1 + 1\<rparr>)) })"

definition ni_uint_array_contains :: "ni_uint_array option \<Rightarrow> u32 \<Rightarrow> bool option" where
  "ni_uint_array_contains nua num =
     (case nua of None \<Rightarrow> Some False
      | Some a \<Rightarrow> do { xs \<leftarrow> mem_read (ua_data a) 0 (ua_count a); Some (num \<in> set xs) })"

definition ua_wf :: "ni_uint_array \<Rightarrow> bool" where
  "ua_wf a \<longleftrightarrow> chunk_cap (ua_count a) \<le> length (ua_data a)"

definition ua_items :: "ni_uint_array \<Rightarrow> u32 list" where
  "ua_items a = take (ua_count a) (ua_data a)"

definition ua_append :: "ni_uint_array \<Rightarrow> u32 \<Rightarrow> ni_uint_array option" where
  "ua_append a x = do { (ok, r) \<leftarrow> ni_uint_array_append (Some a) x; r }"

lemma ua_append_ok: "ua_wf a \<Longrightarrow> \<exists>a'. ua_append a x = Some a' \<and> ua_wf a' \<and> ua_items a' = ua_items a @ [x]"
proof -
  assume wf: "ua_wf a"
  let ?n = "ua_count a"
  have le: "?n \<le> length (ua_data a)" using wf chunk_cap_ge [of ?n] by (simp add: ua_wf_def)
  show ?thesis
  proof (cases "?n mod ARRAY_CHUNK = 0")
    case True
    let ?d = "take ?n (ua_data a) @ replicate ARRAY_CHUNK 0"
    have "u_ni_uint_array_realloc a ?n = Some (a\<lparr>ua_data := ?d\<rparr>)"
      using le by (simp add: u_ni_uint_array_realloc_def mem_read_in)
    moreover have "?n < length ?d" using le by (simp add: ARRAY_CHUNK_def)
    ultimately show ?thesis
      using True le chunk_cap_full [OF True]
      by (simp add: ua_append_def ni_uint_array_append_def arr_set_in ua_wf_def ua_items_def take_Suc_conv_app_nth)
  next
    case False
    have "?n < length (ua_data a)"
      using wf chunk_cap_room [OF False] chunk_cap_ge [of "Suc ?n"] by (simp add: ua_wf_def)
    then show ?thesis using False wf chunk_cap_room [OF False]
      by (simp add: ua_append_def ni_uint_array_append_def arr_set_in ua_wf_def ua_items_def take_Suc_conv_app_nth)
  qed
qed

interpretation uint_array: growing_array ua_append ua_items ua_wf
  by unfold_locales (rule ua_append_ok)

section \<open>Arrays of variables\<close>

record ni_var =
  var_name :: "cstring option"
  var_value :: "cstring option"

record ni_var_array =
  va_count :: nat
  va_data :: "ni_var list"

definition no_var :: ni_var where "no_var = \<lparr>var_name = None, var_value = None\<rparr>"

definition ni_var_array_init :: ni_var_array where
  "ni_var_array_init = \<lparr>va_count = 0, va_data = []\<rparr>"

definition ni_var_array_destroy :: "ni_var_array \<Rightarrow> ni_var_array option" where
  "ni_var_array_destroy nva = do { ni_assert (va_count nva \<le> length (va_data nva)); Some ni_var_array_init }"

text \<open>\<open>ni_var_array_get\<close> returns a pointer to the variable: its index.\<close>

fun var_index :: "nat \<Rightarrow> ni_var list \<Rightarrow> cstring \<Rightarrow> nat option option" where
  "var_index i [] name = Some None"
| "var_index i (v # vs) name = do {
     eq \<leftarrow> strcmp_eq (var_name v) (Some name);
     (if eq then Some (Some i) else var_index (Suc i) vs name) }"

definition ni_var_array_get :: "ni_var_array \<Rightarrow> cstring \<Rightarrow> nat option option" where
  "ni_var_array_get nva name = do {
     vs \<leftarrow> mem_read (va_data nva) 0 (va_count nva);
     var_index 0 vs name }"

definition u_ni_var_array_realloc :: "ni_var_array \<Rightarrow> nat \<Rightarrow> ni_var_array option" where
  "u_ni_var_array_realloc nva newsize = do {
     let newsize = newsize + ARRAY_CHUNK;
     keep \<leftarrow> mem_read (va_data nva) 0 (min (va_count nva) newsize);
     Some (nva\<lparr>va_data := keep @ replicate (newsize - va_count nva) no_var\<rparr>) }"

definition ni_var_array_set :: "ni_var_array \<Rightarrow> cstring \<Rightarrow> cstring option \<Rightarrow> ni_var_array option" where
  "ni_var_array_set nva name value = do {
     r \<leftarrow> ni_var_array_get nva name;
     (case r of
        Some i \<Rightarrow> do {
          v \<leftarrow> arr_get (va_data nva) i;
          d \<leftarrow> arr_set (va_data nva) i (v\<lparr>var_value := value\<rparr>);
          Some (nva\<lparr>va_data := d\<rparr>) }
      | None \<Rightarrow> do {
          nva1 \<leftarrow> (if va_count nva mod ARRAY_CHUNK = 0 then u_ni_var_array_realloc nva (va_count nva) else Some nva);
          d \<leftarrow> arr_set (va_data nva1) (va_count nva1) \<lparr>var_name = Some name, var_value = value\<rparr>;
          Some (nva1\<lparr>va_data := d, va_count := va_count nva1 + 1\<rparr>) }) }"

text \<open>\<open>ni_var_array_copy\<close> fills the slots of the destination and leaves its count at 0.\<close>

definition ni_var_array_copy :: "ni_var_array \<Rightarrow> ni_var_array \<Rightarrow> ni_var_array option" where
  "ni_var_array_copy dst src = do {
     d1 \<leftarrow> ni_var_array_destroy dst;
     d2 \<leftarrow> u_ni_var_array_realloc d1 (va_count src);
     vs \<leftarrow> mem_read (va_data src) 0 (va_count src);
     d \<leftarrow> mem_write (va_data d2) 0 vs;
     Some (d2\<lparr>va_data := d\<rparr>) }"

definition var_lookup :: "ni_var_array \<Rightarrow> cstring \<Rightarrow> ni_var option option" where
  "var_lookup nva name = do {
     r \<leftarrow> ni_var_array_get nva name;
     (case r of None \<Rightarrow> Some None | Some i \<Rightarrow> map_option Some (arr_get (va_data nva) i)) }"

text \<open>The accessors return 0 and the value through a pointer; only the latter is shown.\<close>

definition ni_var_array_get_string :: "ni_var_array \<Rightarrow> cstring \<Rightarrow> cstring option option" where
  "ni_var_array_get_string nva name = do {
     r \<leftarrow> var_lookup nva name;
     Some (case r of None \<Rightarrow> None | Some v \<Rightarrow> var_value v) }"

definition ni_var_array_get_integer :: "ni_var_array \<Rightarrow> cstring \<Rightarrow> u32 option" where
  "ni_var_array_get_integer nva name = do {
     r \<leftarrow> var_lookup nva name;
     (case r of None \<Rightarrow> Some 0
      | Some v \<Rightarrow> do { s \<leftarrow> var_value v; Some (ucast (fst (strtoul s 0))) }) }"

definition ni_var_array_get_boolean :: "ni_var_array \<Rightarrow> cstring \<Rightarrow> bool option" where
  "ni_var_array_get_boolean nva name = do {
     r \<leftarrow> var_lookup nva name;
     (case r of None \<Rightarrow> Some False
      | Some v \<Rightarrow> do { s \<leftarrow> var_value v;
                      Some (strcasecmp_eq s ''on'' \<or> strcasecmp_eq s ''true'' \<or> strcasecmp_eq s ''yes'') }) }"

definition ni_var_array_set_integer :: "ni_var_array \<Rightarrow> cstring \<Rightarrow> u32 \<Rightarrow> ni_var_array option" where
  "ni_var_array_set_integer nva name value = ni_var_array_set nva name (Some (print_dec (unat value)))"

definition ni_var_array_set_long :: "ni_var_array \<Rightarrow> cstring \<Rightarrow> u64 \<Rightarrow> ni_var_array option" where
  "ni_var_array_set_long nva name value = ni_var_array_set nva name (Some (print_dec (unat value)))"

definition ni_var_array_set_boolean :: "ni_var_array \<Rightarrow> cstring \<Rightarrow> bool \<Rightarrow> ni_var_array option" where
  "ni_var_array_set_boolean nva name value = ni_var_array_set nva name (Some (if value then ''yes'' else ''no''))"

text \<open>\<open>qsort\<close> by \<open>strcmp\<close> of the names.\<close>

definition ni_var_array_sort :: "ni_var_array \<Rightarrow> ni_var_array option" where
  "ni_var_array_sort nva = do {
     vs \<leftarrow> mem_read (va_data nva) 0 (va_count nva);
     ni_assert (va_count nva < 2 \<or> list_all (\<lambda>v. var_name v \<noteq> None) vs);
     Some (nva\<lparr>va_data := sort_key (\<lambda>v. the (var_name v)) vs @ drop (va_count nva) (va_data nva)\<rparr>) }"

subsection \<open>Invariant and map\<close>

definition va_items :: "ni_var_array \<Rightarrow> ni_var list" where
  "va_items nva = take (va_count nva) (va_data nva)"

definition va_wf :: "ni_var_array \<Rightarrow> bool" where
  "va_wf nva \<longleftrightarrow> chunk_cap (va_count nva) \<le> length (va_data nva)
     \<and> list_all (\<lambda>v. var_name v \<noteq> None) (va_items nva) \<and> distinct (map var_name (va_items nva))"

text \<open>The name-value map an array of variables stands for; a variable may have no value.\<close>

definition var_map :: "ni_var list \<Rightarrow> cstring \<rightharpoonup> cstring option" where
  "var_map vs name = map_of (map (\<lambda>v. (the (var_name v), var_value v)) vs) name"

text \<open>The interface of a variable store, as its users see it: setting a variable changes that
  variable only, and looking one up gives what was set last.\<close>

locale var_store =
  fixes set_var :: "'s \<Rightarrow> cstring \<Rightarrow> 'v \<Rightarrow> 's option"
    and get_var :: "'s \<Rightarrow> cstring \<Rightarrow> 'v option option"
    and vars :: "'s \<Rightarrow> cstring \<rightharpoonup> 'v"
    and inv :: "'s \<Rightarrow> bool"
    and name_ok :: "cstring \<Rightarrow> bool"
  assumes set_ok: "inv s \<Longrightarrow> name_ok n \<Longrightarrow> \<exists>s'. set_var s n v = Some s' \<and> inv s' \<and> vars s' = (vars s)(n \<mapsto> v)"
    and get_ok: "inv s \<Longrightarrow> name_ok n \<Longrightarrow> get_var s n = Some (vars s n)"

primrec set_all :: "('s \<Rightarrow> cstring \<Rightarrow> 'v \<Rightarrow> 's option) \<Rightarrow> 's \<Rightarrow> (cstring \<times> 'v) list \<Rightarrow> 's option" where
  "set_all st s [] = Some s"
| "set_all st s (nv # nvs) = do { s' \<leftarrow> st s (fst nv) (snd nv); set_all st s' nvs }"

context var_store
begin

lemma set_all_ok:
  "inv s \<Longrightarrow> list_all (\<lambda>nv. name_ok (fst nv)) nvs \<Longrightarrow>
     \<exists>s'. set_all set_var s nvs = Some s' \<and> inv s' \<and> vars s' = (vars s) ++ map_of (rev nvs)"
proof (induction nvs arbitrary: s)
  case Nil
  then show ?case by simp
next
  case (Cons nv nvs)
  obtain s1 where s1: "set_var s (fst nv) (snd nv) = Some s1" "inv s1" "vars s1 = (vars s)(fst nv \<mapsto> snd nv)"
    using set_ok [OF Cons.prems(1), of "fst nv" "snd nv"] Cons.prems(2) by auto
  obtain s' where "set_all set_var s1 nvs = Some s'" "inv s'" "vars s' = vars s1 ++ map_of (rev nvs)"
    using Cons.IH [OF s1(2)] Cons.prems(2) by auto
  then show ?case using s1 by (auto simp: map_add_def fun_eq_iff split: option.split)
qed

text \<open>After any sequence of assignments a lookup gives the last one to that name, or what was there before.\<close>

lemma get_after_sets:
  assumes "inv s" and "list_all (\<lambda>nv. name_ok (fst nv)) nvs" and "name_ok n"
  shows "\<exists>s'. set_all set_var s nvs = Some s'
     \<and> get_var s' n = Some (case map_of (rev nvs) n of Some v \<Rightarrow> Some v | None \<Rightarrow> vars s n)"
  using set_all_ok [OF assms(1,2)] get_ok [OF _ assms(3)] by (auto simp: map_add_def)

end

lemma va_count_le: "va_wf nva \<Longrightarrow> va_count nva \<le> length (va_data nva)"
  using chunk_cap_ge [of "va_count nva"] by (simp add: va_wf_def)

lemma va_read_items: "va_wf nva \<Longrightarrow> mem_read (va_data nva) 0 (va_count nva) = Some (va_items nva)"
  using va_count_le [of nva] by (simp add: mem_read_in va_items_def)

lemma va_wf_init: "va_wf ni_var_array_init" "va_items ni_var_array_init = []"
  by (simp_all add: va_wf_def va_items_def ni_var_array_init_def)

lemma var_index_ok:
  "list_all (\<lambda>v. var_name v \<noteq> None) vs \<Longrightarrow>
     (\<exists>k < length vs. var_index i vs name = Some (Some (i + k)) \<and> var_name (vs ! k) = Some name
          \<and> var_map vs name = Some (var_value (vs ! k)))
     \<or> (var_index i vs name = Some None \<and> Some name \<notin> var_name ` set vs \<and> var_map vs name = None)"
proof (induction vs arbitrary: i)
  case Nil
  then show ?case by (simp add: var_map_def)
next
  case (Cons v vs)
  obtain m where m: "var_name v = Some m" using Cons.prems by auto
  show ?case
  proof (cases "m = name")
    case True
    then show ?thesis using m by (intro disjI1 exI [of _ 0]) (simp add: var_map_def)
  next
    case False
    then have e: "var_index i (v # vs) name = var_index (Suc i) vs name" "var_map (v # vs) name = var_map vs name"
      using m by (simp_all add: var_map_def)
    have "list_all (\<lambda>v. var_name v \<noteq> None) vs" using Cons.prems by simp
    from Cons.IH [OF this, of "Suc i"] show ?thesis
    proof
      assume "\<exists>k < length vs. var_index (Suc i) vs name = Some (Some (Suc i + k)) \<and> var_name (vs ! k) = Some name
          \<and> var_map vs name = Some (var_value (vs ! k))"
      then obtain k where "k < length vs" "var_index (Suc i) vs name = Some (Some (Suc i + k))" "var_name (vs ! k) = Some name"
          "var_map vs name = Some (var_value (vs ! k))" by blast
      then show ?thesis using e by (intro disjI1 exI [of _ "Suc k"]) simp
    next
      assume "var_index (Suc i) vs name = Some None \<and> Some name \<notin> var_name ` set vs \<and> var_map vs name = None"
      then show ?thesis using e m False by (intro disjI2) auto
    qed
  qed
qed


lemma var_map_Cons: "var_map (v # vs) = (\<lambda>n. if n = the (var_name v) then Some (var_value v) else var_map vs n)"
  by (rule ext) (simp add: var_map_def)

lemma var_names_iff: "list_all (\<lambda>v. var_name v \<noteq> None) vs \<longleftrightarrow> None \<notin> set (map var_name vs)"
  by (induction vs) auto

lemma var_map_append:
  "var_map (vs @ [v]) = (\<lambda>n. case var_map vs n of Some x \<Rightarrow> Some x | None \<Rightarrow> if n = the (var_name v) then Some (var_value v) else None)"
  by (rule ext) (simp add: var_map_def map_add_def split: option.split)

lemma var_map_update:
  assumes "distinct (map var_name vs)" and "list_all (\<lambda>v. var_name v \<noteq> None) vs" and "k < length vs" and "var_name (vs ! k) = Some n"
  shows "var_map (vs[k := (vs ! k)\<lparr>var_value := x\<rparr>]) = (var_map vs)(n \<mapsto> x)"
  using assms
proof (induction vs arbitrary: k)
  case Nil
  then show ?case by simp
next
  case (Cons v vs)
  show ?case
  proof (cases k)
    case 0
    then show ?thesis using Cons.prems by (auto simp: var_map_Cons)
  next
    case (Suc j)
    have "var_name v \<noteq> Some n" using Cons.prems Suc by (auto simp: image_iff) (metis nth_mem)
    moreover obtain m where "var_name v = Some m" using Cons.prems by auto
    moreover have "var_map (vs[j := (vs ! j)\<lparr>var_value := x\<rparr>]) = (var_map vs)(n \<mapsto> x)"
      by (rule Cons.IH) (use Cons.prems Suc in auto)
    ultimately show ?thesis using Suc by (auto simp: var_map_Cons)
  qed
qed

lemma ni_var_array_set_new:
  assumes wf: "va_wf nva" and none: "var_map (va_items nva) name = None"
  shows "\<exists>nva'. ni_var_array_set nva name value = Some nva' \<and> va_wf nva'
           \<and> va_items nva' = va_items nva @ [\<lparr>var_name = Some name, var_value = value\<rparr>]"
proof -
  let ?n = "va_count nva" and ?vs = "va_items nva" and ?v = "\<lparr>var_name = Some name, var_value = value\<rparr>"
  have nn: "list_all (\<lambda>v. var_name v \<noteq> None) ?vs" and dist: "distinct (map var_name ?vs)" and cap: "chunk_cap ?n \<le> length (va_data nva)"
    using wf by (simp_all add: va_wf_def)
  have le: "?n \<le> length (va_data nva)" by (rule va_count_le [OF wf])
  have new: "var_index 0 ?vs name = Some None" "Some name \<notin> var_name ` set ?vs"
    using var_index_ok [OF nn, of 0 name] none by auto
  have "\<exists>nva1. (if ?n mod ARRAY_CHUNK = 0 then u_ni_var_array_realloc nva ?n else Some nva) = Some nva1
     \<and> va_count nva1 = ?n \<and> va_items nva1 = ?vs \<and> chunk_cap (Suc ?n) \<le> length (va_data nva1)"
  proof (cases "?n mod ARRAY_CHUNK = 0")
    case True
    then show ?thesis using le chunk_cap_full [OF True] by (simp add: u_ni_var_array_realloc_def mem_read_in va_items_def)
  next
    case False
    then show ?thesis using cap chunk_cap_room [OF False] by simp
  qed
  then obtain nva1 where p: "(if ?n mod ARRAY_CHUNK = 0 then u_ni_var_array_realloc nva ?n else Some nva) = Some nva1"
    "va_count nva1 = ?n" "va_items nva1 = ?vs" "chunk_cap (Suc ?n) \<le> length (va_data nva1)" by blast
  have lt: "?n < length (va_data nva1)" using p(4) chunk_cap_ge [of "Suc ?n"] by simp
  let ?r = "nva1\<lparr>va_data := (va_data nva1)[?n := ?v], va_count := ?n + 1\<rparr>"
  have "ni_var_array_set nva name value = Some ?r"
    using new(1) p(1) lt p(2)
    unfolding ni_var_array_set_def ni_var_array_get_def va_read_items [OF wf] by (simp add: arr_set_in)
  moreover have it: "va_items ?r = ?vs @ [?v]"
    using p(2,3) lt by (simp add: va_items_def take_Suc_conv_app_nth)
  moreover have "va_wf ?r" unfolding va_wf_def it using nn dist new(2) p(4) by auto
  ultimately show ?thesis by blast
qed

lemma ni_var_array_set_ok:
  assumes wf: "va_wf nva"
  shows "\<exists>nva'. ni_var_array_set nva name value = Some nva' \<and> va_wf nva'
           \<and> var_map (va_items nva') = (var_map (va_items nva))(name \<mapsto> value)"
proof (cases "var_map (va_items nva) name")
  case None
  obtain nva' where "ni_var_array_set nva name value = Some nva'" "va_wf nva'"
      "va_items nva' = va_items nva @ [\<lparr>var_name = Some name, var_value = value\<rparr>]"
    using ni_var_array_set_new [OF wf None] by blast
  then show ?thesis using None by (auto simp: var_map_append fun_eq_iff split: option.split)
next
  case (Some x)
  let ?n = "va_count nva" and ?vs = "va_items nva"
  have nn: "list_all (\<lambda>v. var_name v \<noteq> None) ?vs" and dist: "distinct (map var_name ?vs)" and cap: "chunk_cap ?n \<le> length (va_data nva)"
    using wf by (simp_all add: va_wf_def)
  have le: "?n \<le> length (va_data nva)" by (rule va_count_le [OF wf])
  obtain k where found: "k < length ?vs" "var_index 0 ?vs name = Some (Some k)" "var_name (?vs ! k) = Some name"
    using var_index_ok [OF nn, of 0 name] Some by auto
  let ?v = "(va_data nva ! k)\<lparr>var_value := value\<rparr>"
  let ?r = "nva\<lparr>va_data := (va_data nva)[k := ?v]\<rparr>"
  have k: "k < ?n" "?vs ! k = va_data nva ! k" using found(1) le by (auto simp: va_items_def)
  have it: "va_items ?r = ?vs[k := (?vs ! k)\<lparr>var_value := value\<rparr>]"
    using k by (simp add: va_items_def take_update_swap)
  have names: "map var_name (va_items ?r) = map var_name ?vs"
    unfolding it using found(1) by (simp add: map_update list_update_same_conv)
  have "ni_var_array_set nva name value = Some ?r"
    using found(2) k le by (simp add: ni_var_array_set_def ni_var_array_get_def va_read_items [OF wf] arr_get_in arr_set_in)
  moreover have "list_all (\<lambda>v. var_name v \<noteq> None) (va_items ?r)"
    using nn unfolding var_names_iff names .
  then have "va_wf ?r" using cap names dist by (simp add: va_wf_def)
  moreover have "var_map (va_items ?r) = (var_map ?vs)(name \<mapsto> value)"
    unfolding it by (rule var_map_update [OF dist nn found(1,3)])
  ultimately show ?thesis by blast
qed

lemma var_lookup_ok:
  assumes wf: "va_wf nva"
  shows "\<exists>r. var_lookup nva name = Some r \<and> map_option var_value r = var_map (va_items nva) name"
proof -
  have nn: "list_all (\<lambda>v. var_name v \<noteq> None) (va_items nva)" using wf by (simp add: va_wf_def)
  have lv: "length (va_items nva) = va_count nva" using va_count_le [OF wf] by (simp add: va_items_def)
  from var_index_ok [OF nn, of 0 name] show ?thesis
    using va_count_le [OF wf] lv by (auto simp: var_lookup_def ni_var_array_get_def va_read_items [OF wf] arr_get_in va_items_def)
qed

lemma ni_var_array_get_string_ok:
  "va_wf nva \<Longrightarrow> ni_var_array_get_string nva name = Some (case var_map (va_items nva) name of None \<Rightarrow> None | Some v \<Rightarrow> v)"
  using var_lookup_ok [of nva name] by (auto simp: ni_var_array_get_string_def split: option.split)

definition va_lookup_value :: "ni_var_array \<Rightarrow> cstring \<Rightarrow> cstring option option option" where
  "va_lookup_value nva name = map_option (map_option var_value) (var_lookup nva name)"

interpretation vars: var_store ni_var_array_set va_lookup_value "\<lambda>nva. var_map (va_items nva)" va_wf "\<lambda>_. True"
proof unfold_locales
  show "\<exists>s'. ni_var_array_set s n v = Some s' \<and> va_wf s' \<and> var_map (va_items s') = (var_map (va_items s))(n \<mapsto> v)"
    if "va_wf s" for s n v by (rule ni_var_array_set_ok [OF that])
  show "va_lookup_value s n = Some (var_map (va_items s) n)" if "va_wf s" for s n
    using var_lookup_ok [OF that, of n] by (auto simp: va_lookup_value_def)
qed

subsection \<open>Properties of variable arrays\<close>

text \<open>C13: a variable array is a map.  After any sequence of \<open>ni_var_array_set\<close> calls on an empty array
  \<open>ni_var_array_get_string\<close> returns, for every name, the value that was set last for it (NULL when there is
  none), and no call reads or writes outside the block.\<close>

theorem ni_var_array_last_value:
  "\<exists>nva. set_all ni_var_array_set ni_var_array_init nvs = Some nva
     \<and> ni_var_array_get_string nva name = Some (case map_of (rev nvs) name of Some v \<Rightarrow> v | None \<Rightarrow> None)"
proof -
  obtain nva where "set_all ni_var_array_set ni_var_array_init nvs = Some nva" "va_wf nva"
    "var_map (va_items nva) = var_map (va_items ni_var_array_init) ++ map_of (rev nvs)"
    using vars.set_all_ok [OF va_wf_init(1), of nvs] by (auto simp: list_all_iff)
  then show ?thesis
    by (auto simp: ni_var_array_get_string_ok va_wf_init var_map_def map_add_def split: option.split)
qed

text \<open>integers and booleans survive the string they are stored as.\<close>

theorem ni_var_array_typed_roundtrip:
  assumes "va_wf nva"
  shows "(\<exists>nva'. ni_var_array_set_integer nva name n = Some nva' \<and> ni_var_array_get_integer nva' name = Some n)
    \<and> (\<exists>nva'. ni_var_array_set_boolean nva name b = Some nva' \<and> ni_var_array_get_boolean nva' name = Some b)"
proof
  have gi: "ni_var_array_get_integer a name = Some (ucast (fst (strtoul s 0)))"
    and gb: "ni_var_array_get_boolean a name = Some (strcasecmp_eq s ''on'' \<or> strcasecmp_eq s ''true'' \<or> strcasecmp_eq s ''yes'')"
    if "va_wf a" "var_map (va_items a) name = Some (Some s)" for a s
    using var_lookup_ok [OF that(1), of name] that(2)
    by (auto simp: ni_var_array_get_integer_def ni_var_array_get_boolean_def)
  have s: "strtoul (print_dec (unat n)) 0 = (of_nat (unat n), False, [])"
    using unat_u32_less [of n] by (intro strtoul_print_dec_0) simp
  have u: "(ucast (of_nat (unat n) :: u64) :: u32) = n"
  proof -
    have "unat (ucast (of_nat (unat n) :: u64) :: u32) = take_bit 32 (take_bit 64 (unat n))"
      by (simp only: unsigned_ucast_eq unat_of_nat) (simp add: take_bit_eq_mod mod_mod_cancel)
    also have "\<dots> = unat n" using unat_u32_less [of n] by (simp add: take_bit_nat_eq_self)
    finally show ?thesis by (simp only: word_unat_eq_iff)
  qed
  obtain a1 where a1: "ni_var_array_set nva name (Some (print_dec (unat n))) = Some a1" "va_wf a1"
    "var_map (va_items a1) name = Some (Some (print_dec (unat n)))"
    using ni_var_array_set_ok [OF assms, of name "Some (print_dec (unat n))"] by auto
  show "\<exists>nva'. ni_var_array_set_integer nva name n = Some nva' \<and> ni_var_array_get_integer nva' name = Some n"
    using a1 gi [OF a1(2,3)] s u by (simp add: ni_var_array_set_integer_def)
  obtain a2 where a2: "ni_var_array_set nva name (Some (if b then ''yes'' else ''no'')) = Some a2" "va_wf a2"
    "var_map (va_items a2) name = Some (Some (if b then ''yes'' else ''no''))"
    using ni_var_array_set_ok [OF assms, of name "Some (if b then ''yes'' else ''no'')"] by auto
  have "strcasecmp_eq (if b then ''yes'' else ''no'') ''on'' \<or> strcasecmp_eq (if b then ''yes'' else ''no'') ''true''
      \<or> strcasecmp_eq (if b then ''yes'' else ''no'') ''yes'' \<longleftrightarrow> b"
    by (simp add: strcasecmp_eq_def c_tolower_def c_isupper_def c_code_def)
  then show "\<exists>nva'. ni_var_array_set_boolean nva name b = Some nva' \<and> ni_var_array_get_boolean nva' name = Some b"
    using a2 gb [OF a2(2,3)] by (simp add: ni_var_array_set_boolean_def)
qed

text \<open>\<open>ni_var_array_copy\<close> copies nothing.  It stores the variables of the source in the destination's
  block but leaves the destination's count at 0, so a lookup in the copy finds no variable at all.\<close>

theorem ni_var_array_copy_loses_all:
  assumes "va_wf dst" and "va_wf src"
  shows "\<exists>d. ni_var_array_copy dst src = Some d \<and> va_count d = 0 \<and> ni_var_array_get_string d name = Some None"
proof -
  have le: "va_count src \<le> length (va_data src)" by (rule va_count_le [OF assms(2)])
  let ?c = "take (va_count src) (va_data src) @ replicate ARRAY_CHUNK no_var"
  have "ni_var_array_copy dst src = Some \<lparr>va_count = 0, va_data = ?c\<rparr>"
    using le va_count_le [OF assms(1)]
    by (simp add: ni_var_array_copy_def ni_var_array_destroy_def ni_var_array_init_def u_ni_var_array_realloc_def
        mem_read_in mem_write_in add.commute)
  then show ?thesis
    by (simp add: ni_var_array_get_string_def var_lookup_def ni_var_array_get_def mem_read_in)
qed

lemma va_wf_one: "va_wf \<lparr>va_count = 1, va_data = \<lparr>var_name = Some n, var_value = Some v\<rparr> # replicate 15 no_var\<rparr>"
  by (simp add: va_wf_def va_items_def chunk_cap_def ARRAY_CHUNK_def)

lemma ni_var_array_typed_roundtrip_witness:
  "(\<exists>nva'. ni_var_array_set_integer \<lparr>va_count = 1, va_data = \<lparr>var_name = Some ''n'', var_value = Some ''x''\<rparr> # replicate 15 no_var\<rparr> ''n'' 77 = Some nva'
      \<and> ni_var_array_get_integer nva' ''n'' = Some 77)
   \<and> (\<exists>nva'. ni_var_array_set_boolean \<lparr>va_count = 1, va_data = \<lparr>var_name = Some ''n'', var_value = Some ''x''\<rparr> # replicate 15 no_var\<rparr> ''n'' True = Some nva'
      \<and> ni_var_array_get_boolean nva' ''n'' = Some True)"
  by (rule ni_var_array_typed_roundtrip [OF va_wf_one])

lemma ni_var_array_copy_loses_all_witness:
  "\<exists>d. ni_var_array_copy ni_var_array_init \<lparr>va_count = 1, va_data = \<lparr>var_name = Some ''n'', var_value = Some ''x''\<rparr> # replicate 15 no_var\<rparr> = Some d
     \<and> va_count d = 0 \<and> ni_var_array_get_string d ''n'' = Some None"
  by (rule ni_var_array_copy_loses_all [OF va_wf_init(1) va_wf_one])

section \<open>Bit fields\<close>

text \<open>\<open>field\<close> points nowhere, to the four words inside the structure, or to an allocated block.\<close>

datatype bit_storage = FieldNull | FieldLocal | FieldHeap "u32 list"

record ni_bitfield =
  bf_size :: u32
  bf_field :: bit_storage
  bf_local :: "u32 list"

definition ni_bitfield_init :: ni_bitfield where
  "ni_bitfield_init = \<lparr>bf_size = 0, bf_field = FieldNull, bf_local = replicate 4 0\<rparr>"

definition ni_bitfield_destroy :: "ni_bitfield \<Rightarrow> ni_bitfield" where
  "ni_bitfield_destroy bf = ni_bitfield_init"

definition bf_words :: "ni_bitfield \<Rightarrow> u32 list" where
  "bf_words bf = (case bf_field bf of FieldNull \<Rightarrow> [] | FieldLocal \<Rightarrow> bf_local bf | FieldHeap ws \<Rightarrow> ws)"

definition bf_store :: "u32 list \<Rightarrow> ni_bitfield \<Rightarrow> ni_bitfield" where
  "bf_store ws bf = (case bf_field bf of FieldHeap _ \<Rightarrow> bf\<lparr>bf_field := FieldHeap ws\<rparr> | _ \<Rightarrow> bf\<lparr>bf_local := ws\<rparr>)"

text \<open>\<open>memcpy(new, old, n)\<close> of \<open>n\<close> bytes between arrays of 32-bit words (little endian), the rest zero.\<close>

definition copy_word_bytes :: "nat \<Rightarrow> nat \<Rightarrow> u32 list \<Rightarrow> u32 list option" where
  "copy_word_bytes nwords n ws = do {
     full \<leftarrow> mem_read ws 0 (n div 4);
     part \<leftarrow> (if n mod 4 = 0 then Some [] else do { w \<leftarrow> arr_get ws (n div 4); Some [take_bit (8 * (n mod 4)) w] });
     mem_write (replicate nwords 0) 0 (full @ part) }"

text \<open>\<open>local_words\<close> is \<open>sizeof(__local_field)\<close>, 16 bytes.\<close>

definition u_ni_bitfield_grow :: "ni_bitfield \<Rightarrow> u32 \<Rightarrow> ni_bitfield option" where
  "u_ni_bitfield_grow bf nbits =
     (let nwords = (nbits + 31) div 32; local_words = 16 in
      if bf_size bf \<le> nwords then
        (if nwords \<le> local_words
         then Some (bf\<lparr>bf_local := replicate 4 0, bf_field := FieldLocal, bf_size := local_words\<rparr>)
         else do {
           ws \<leftarrow> (if bf_size bf \<noteq> 0 then copy_word_bytes (unat nwords) (unat (bf_size bf)) (bf_words bf)
                 else Some (replicate (unat nwords) 0));
           Some (bf\<lparr>bf_field := FieldHeap ws, bf_size := nwords\<rparr>) })
      else Some bf)"

definition ni_bitfield_setbit :: "ni_bitfield \<Rightarrow> u32 \<Rightarrow> ni_bitfield option" where
  "ni_bitfield_setbit bf nr = do {
     bf1 \<leftarrow> u_ni_bitfield_grow bf nr;
     ws \<leftarrow> arr_set (bf_words bf1) (unat (nr div 32)) (push_bit (unat (nr mod 32)) 1);
     Some (bf_store ws bf1) }"

definition ni_bitfield_clearbit :: "ni_bitfield \<Rightarrow> u32 \<Rightarrow> ni_bitfield option" where
  "ni_bitfield_clearbit bf nr = do {
     bf1 \<leftarrow> u_ni_bitfield_grow bf nr;
     w \<leftarrow> arr_get (bf_words bf1) (unat (nr div 32));
     ws \<leftarrow> arr_set (bf_words bf1) (unat (nr div 32)) (w AND NOT (push_bit (unat (nr mod 32)) 1));
     Some (bf_store ws bf1) }"

definition ni_bitfield_testbit :: "ni_bitfield \<Rightarrow> u32 \<Rightarrow> bool option" where
  "ni_bitfield_testbit bf nr =
     (if bf_size bf \<le> nr div 32 then Some False
      else do { w \<leftarrow> arr_get (bf_words bf) (unat (nr div 32));
                Some (w AND push_bit (unat (nr mod 32)) 1 \<noteq> 0) })"

lemma push_bit_one_and:
  assumes "i < 32" and "j < 32"
  shows "push_bit i (1 :: u32) AND push_bit j 1 \<noteq> 0 \<longleftrightarrow> i = j"
proof
  assume "push_bit i (1 :: u32) AND push_bit j 1 \<noteq> 0"
  then obtain n where "n < 32" "bit (push_bit i (1 :: u32) AND push_bit j 1) n"
    using bit_word_eqI [of "push_bit i (1 :: u32) AND push_bit j 1" 0] by auto
  then show "i = j" by (auto simp: bit_simps)
next
  assume "i = j"
  moreover have "bit (push_bit j (1 :: u32)) j" using assms by (simp add: bit_simps)
  then have "push_bit j (1 :: u32) \<noteq> 0" by (metis bit_0_eq bot_apply bot_bool_def)
  ultimately show "push_bit i (1 :: u32) AND push_bit j 1 \<noteq> 0" by simp
qed

lemma u32_div_mod_32: "unat ((x :: u32) div 32) = unat x div 32" "unat (x mod 32) = unat x mod 32"
  by (simp_all add: unat_div_distrib unat_mod_distrib)

lemma grow_words: "(x :: u32) < 512 \<Longrightarrow> (x + 31) div 32 \<le> 16"
proof -
  assume "x < 512"
  then have "unat x < 512" by (simp add: word_less_nat_alt)
  then have "unat (x + 31) = unat x + 31" by (simp add: unat_word_ariths)
  then have "unat ((x + 31) div 32) \<le> 16" using \<open>unat x < 512\<close> by (simp add: unat_div_distrib)
  then show ?thesis by (simp add: word_le_nat_alt)
qed

lemma setbit_new:
  assumes "x < 512"
  shows "ni_bitfield_setbit ni_bitfield_init x =
    (if unat x < 128 then Some \<lparr>bf_size = 16, bf_field = FieldLocal,
        bf_local = (replicate 4 0)[unat x div 32 := push_bit (unat x mod 32) 1]\<rparr> else None)"
  using grow_words [OF assms]
  by (simp add: ni_bitfield_setbit_def u_ni_bitfield_grow_def ni_bitfield_init_def bf_words_def bf_store_def arr_set_def
      u32_div_mod_32 less_mult_imp_div_less div_less_iff_less_mult Let_def)

text \<open>A bit field forgets and overruns.  Setting a bit clears every other bit of the same word, so
  after two bits of one word have been set the first one tests false; and because the size of the inline
  storage is taken in bytes, setting a bit from 128 to 511 in a new bit field writes outside it.\<close>

theorem ni_bitfield_broken:
  assumes "a < 128" and "b div 32 = a div 32" and "a \<noteq> b" and "128 \<le> c" and "c < 512"
  shows "(\<exists>bf1 bf2. ni_bitfield_setbit ni_bitfield_init a = Some bf1 \<and> ni_bitfield_testbit bf1 a = Some True
            \<and> ni_bitfield_setbit bf1 b = Some bf2 \<and> ni_bitfield_testbit bf2 a = Some False)
     \<and> ni_bitfield_setbit ni_bitfield_init c = None"
proof
  have a: "unat a < 128" using assms(1) by (simp add: word_less_nat_alt)
  have q: "unat b div 32 = unat a div 32" using arg_cong [OF assms(2), of unat] by (simp add: u32_div_mod_32)
  have r: "unat b mod 32 \<noteq> unat a mod 32"
    using q assms(3) by (metis div_mult_mod_eq word_unat_eq_iff)
  have "unat b div 32 < 4" using q a by simp
  then have b: "unat b < 128" by simp
  let ?q = "unat a div 32"
  have q4: "?q < 4" using a by simp
  let ?bf1 = "\<lparr>bf_size = 16, bf_field = FieldLocal, bf_local = (replicate 4 0)[?q := push_bit (unat a mod 32) 1]\<rparr>"
  let ?bf2 = "\<lparr>bf_size = 16, bf_field = FieldLocal, bf_local = (replicate 4 0)[?q := push_bit (unat b mod 32) 1]\<rparr>"
  have a512: "a < 512" using a by (simp add: word_less_nat_alt)
  have s1: "ni_bitfield_setbit ni_bitfield_init a = Some ?bf1" using setbit_new [OF a512] a by simp
  have "unat (b + 31) = unat b + 31" using b by (simp add: unat_word_ariths)
  then have "unat ((b + 31) div 32) < 16" using b by (simp add: unat_div_distrib)
  then have nb: "\<not> 16 \<le> (b + 31) div 32" by (simp add: word_le_nat_alt)
  have "\<not> 16 \<le> a div 32" using q4 by (simp add: word_le_nat_alt u32_div_mod_32)
  then have nt: "(16 \<le> a div 32) = False" by simp
  have s2: "ni_bitfield_setbit ?bf1 b = Some ?bf2"
    using nb q4 q by (simp add: ni_bitfield_setbit_def u_ni_bitfield_grow_def bf_words_def bf_store_def arr_set_def u32_div_mod_32 Let_def)
  have t1: "ni_bitfield_testbit ?bf1 a = Some True"
    using nt q4 push_bit_one_and [of "unat a mod 32" "unat a mod 32"]
    by (simp add: ni_bitfield_testbit_def bf_words_def arr_get_def u32_div_mod_32)
  have t2: "ni_bitfield_testbit ?bf2 a = Some False"
    using nt q4 r push_bit_one_and [of "unat b mod 32" "unat a mod 32"]
    by (simp add: ni_bitfield_testbit_def bf_words_def arr_get_def u32_div_mod_32)
  show "\<exists>bf1 bf2. ni_bitfield_setbit ni_bitfield_init a = Some bf1 \<and> ni_bitfield_testbit bf1 a = Some True
            \<and> ni_bitfield_setbit bf1 b = Some bf2 \<and> ni_bitfield_testbit bf2 a = Some False"
    using s1 s2 t1 t2 by blast
  have "128 \<le> unat c" using assms(4) by (simp add: word_le_nat_alt)
  then show "ni_bitfield_setbit ni_bitfield_init c = None" using setbit_new [OF assms(5)] by simp
qed

lemma ni_bitfield_broken_witness:
  "(\<exists>bf1 bf2. ni_bitfield_setbit ni_bitfield_init 3 = Some bf1 \<and> ni_bitfield_testbit bf1 3 = Some True
            \<and> ni_bitfield_setbit bf1 7 = Some bf2 \<and> ni_bitfield_testbit bf2 3 = Some False)
     \<and> ni_bitfield_setbit ni_bitfield_init 200 = None"
  by (rule ni_bitfield_broken) simp_all

end
