(* ===== verification/Strings.thy ===== *)
theory Strings
  imports Arrays Numbers
begin

text \<open>
  String handling of dborb/util.c: string buffers, splitting and joining, shell-style quoting.  A string
  buffer keeps a block of characters with a NUL after the text; its invariant says the block is large
  enough, and every operation is described on the text.
\<close>

section \<open>String buffers\<close>

definition NUL :: char where "NUL = CHR 0x00"

definition STRINGBUF_CHUNK :: nat where "STRINGBUF_CHUNK = 64"

record ni_stringbuf =
  sb_size :: nat
  sb_len :: nat
  sb_string :: "char list option"
  sb_dynamic :: bool

definition ni_stringbuf_init :: ni_stringbuf where
  "ni_stringbuf_init = \<lparr>sb_size = 0, sb_len = 0, sb_string = None, sb_dynamic = True\<rparr>"

definition ni_stringbuf_clear :: "ni_stringbuf \<Rightarrow> ni_stringbuf" where
  "ni_stringbuf_clear sb = sb\<lparr>sb_string := None, sb_size := 0, sb_len := 0\<rparr>"

definition ni_stringbuf_destroy :: "ni_stringbuf \<Rightarrow> ni_stringbuf" where
  "ni_stringbuf_destroy sb = ni_stringbuf_clear sb"

definition ni_stringbuf_empty :: "ni_stringbuf \<Rightarrow> bool" where
  "ni_stringbuf_empty sb \<longleftrightarrow> sb_len sb = 0"

text \<open>Rounding up to a multiple of 64.\<close>

definition u_ni_stringbuf_size :: "ni_stringbuf \<Rightarrow> nat \<Rightarrow> nat" where
  "u_ni_stringbuf_size sb len = (sb_len sb + len + (STRINGBUF_CHUNK - 1)) div STRINGBUF_CHUNK * STRINGBUF_CHUNK"

definition u_ni_stringbuf_realloc :: "ni_stringbuf \<Rightarrow> nat \<Rightarrow> ni_stringbuf option" where
  "u_ni_stringbuf_realloc sb len =
     (if sb_size sb < sb_len sb + len + 1 then do {
        ni_assert (sb_dynamic sb);
        let sz = u_ni_stringbuf_size sb (len + 1);
        keep \<leftarrow> mem_read (case sb_string sb of None \<Rightarrow> [] | Some s \<Rightarrow> s) 0 (sb_len sb);
        Some (sb\<lparr>sb_string := Some (keep @ replicate (sz - sb_len sb) NUL), sb_size := sz\<rparr>) }
      else Some sb)"

definition ni_stringbuf_grow :: "ni_stringbuf \<Rightarrow> nat \<Rightarrow> ni_stringbuf option" where
  "ni_stringbuf_grow sb len = u_ni_stringbuf_realloc sb len"

definition u_ni_stringbuf_put :: "ni_stringbuf \<Rightarrow> cstring \<Rightarrow> ni_stringbuf option" where
  "u_ni_stringbuf_put sb text = do {
     sb1 \<leftarrow> u_ni_stringbuf_realloc sb (length text);
     s \<leftarrow> sb_string sb1;
     s1 \<leftarrow> mem_write s (sb_len sb1) text;
     s2 \<leftarrow> arr_set s1 (sb_len sb1 + length text) NUL;
     Some (sb1\<lparr>sb_string := Some s2, sb_len := sb_len sb1 + length text\<rparr>) }"

definition ni_stringbuf_putc :: "ni_stringbuf \<Rightarrow> char \<Rightarrow> ni_stringbuf option" where
  "ni_stringbuf_putc sb c = u_ni_stringbuf_put sb [c]"

definition ni_stringbuf_puts :: "ni_stringbuf \<Rightarrow> cstring option \<Rightarrow> ni_stringbuf option" where
  "ni_stringbuf_puts sb s = (case s of None \<Rightarrow> Some sb | Some t \<Rightarrow> u_ni_stringbuf_put sb t)"

text \<open>\<open>text\<close> is what \<open>vasprintf\<close> produces.  An empty dynamic buffer takes the block over as it is.\<close>

definition ni_stringbuf_vprintf :: "ni_stringbuf \<Rightarrow> cstring \<Rightarrow> (nat \<times> ni_stringbuf) option" where
  "ni_stringbuf_vprintf sb text = do {
     sb1 \<leftarrow> (if sb_dynamic sb \<and> sb_string sb = None
            then Some (sb\<lparr>sb_string := Some (text @ [NUL]), sb_size := length text, sb_len := length text\<rparr>)
            else ni_stringbuf_puts sb (Some text));
     Some (sb_len sb1, sb1) }"

definition ni_stringbuf_printf :: "ni_stringbuf \<Rightarrow> cstring \<Rightarrow> (nat \<times> ni_stringbuf) option" where
  "ni_stringbuf_printf sb text = ni_stringbuf_vprintf sb text"

definition ni_stringbuf_move :: "ni_stringbuf \<Rightarrow> ni_stringbuf \<Rightarrow> (ni_stringbuf \<times> ni_stringbuf) option" where
  "ni_stringbuf_move dst src = do {
     ni_assert (sb_dynamic dst = sb_dynamic src);
     Some (src, src\<lparr>sb_string := None, sb_len := 0\<rparr>) }"

definition ni_stringbuf_truncate :: "ni_stringbuf \<Rightarrow> nat \<Rightarrow> ni_stringbuf option" where
  "ni_stringbuf_truncate sb at = do {
     sb1 \<leftarrow> u_ni_stringbuf_realloc sb at;
     s \<leftarrow> sb_string sb1;
     s1 \<leftarrow> arr_set s at NUL;
     Some (sb1\<lparr>sb_string := Some s1, sb_len := at\<rparr>) }"

text \<open>The characters of a block as a C string: up to the first NUL.\<close>

definition cstr :: "char list \<Rightarrow> cstring" where
  "cstr s = takeWhile (\<lambda>c. c \<noteq> NUL) s"

definition ni_stringbuf_trim_head :: "ni_stringbuf \<Rightarrow> cstring \<Rightarrow> ni_stringbuf option" where
  "ni_stringbuf_trim_head sb reject = do {
     sb1 \<leftarrow> ni_stringbuf_truncate sb (sb_len sb);
     s \<leftarrow> sb_string sb1;
     let trim = length (takeWhile (\<lambda>c. c \<in> set reject) (cstr s));
     (if trim = 0 then Some sb1
      else do { s1 \<leftarrow> mem_move s 0 trim (sb_len sb1 - trim + 1);
                Some (sb1\<lparr>sb_string := Some s1, sb_len := sb_len sb1 - trim\<rparr>) }) }"

text \<open>\<open>for (n = strlen(s); n; )\<close>: one character less each time, as long as it is in \<open>reject\<close>.\<close>

fun trim_tail_len :: "cstring \<Rightarrow> cstring \<Rightarrow> nat \<Rightarrow> nat \<Rightarrow> nat" where
  "trim_tail_len reject s 0 len = len"
| "trim_tail_len reject s (Suc n) len = (if s ! n \<in> set reject then trim_tail_len reject s n n else len)"

definition ni_stringbuf_trim_tail :: "ni_stringbuf \<Rightarrow> cstring \<Rightarrow> ni_stringbuf option" where
  "ni_stringbuf_trim_tail sb reject = do {
     sb1 \<leftarrow> u_ni_stringbuf_realloc sb (sb_len sb);
     s \<leftarrow> sb_string sb1;
     let len = trim_tail_len reject (cstr s) (length (cstr s)) (sb_len sb1);
     s1 \<leftarrow> arr_set s len NUL;
     Some (sb1\<lparr>sb_string := Some s1, sb_len := len\<rparr>) }"

definition is_eol :: "char \<Rightarrow> bool" where "is_eol c \<longleftrightarrow> c = CHR 0x0D \<or> c = CHR 0x0A"
definition is_blank :: "char \<Rightarrow> bool" where "is_blank c \<longleftrightarrow> c = CHR '' '' \<or> c = CHR 0x09"

fun trim_lines_tail :: "char list \<Rightarrow> nat \<Rightarrow> nat \<Rightarrow> nat option" where
  "trim_lines_tail str 0 trim = Some trim"
| "trim_lines_tail str (Suc n) trim = do {
     cc \<leftarrow> arr_get str n;
     (if is_eol cc then trim_lines_tail str n (Suc n)
      else if \<not> is_blank cc then Some trim
      else trim_lines_tail str n trim) }"

fun trim_lines_head :: "cstring \<Rightarrow> nat \<Rightarrow> nat \<Rightarrow> nat" where
  "trim_lines_head [] n trim = trim"
| "trim_lines_head (c # cs) n trim =
     (if is_eol c then trim_lines_head cs (Suc n) (Suc n)
      else if \<not> is_blank c then trim
      else trim_lines_head cs (Suc n) trim)"

definition ni_stringbuf_trim_empty_lines :: "ni_stringbuf \<Rightarrow> ni_stringbuf option" where
  "ni_stringbuf_trim_empty_lines sb = do {
     let str = (case sb_string sb of None \<Rightarrow> [] | Some s \<Rightarrow> s);
     trim \<leftarrow> trim_lines_tail str (sb_len sb) (sb_len sb);
     s1 \<leftarrow> arr_set str trim NUL;
     let trim' = trim_lines_head (take trim s1) 0 0;
     (if trim' = 0 then Some (sb\<lparr>sb_string := Some s1, sb_len := trim\<rparr>)
      else do { s2 \<leftarrow> mem_move s1 0 trim' (trim - trim' + 1);
                Some (sb\<lparr>sb_string := Some s2, sb_len := trim - trim'\<rparr>) }) }"

subsection \<open>Invariant and text\<close>

definition sb_wf :: "ni_stringbuf \<Rightarrow> bool" where
  "sb_wf sb \<longleftrightarrow> sb_dynamic sb \<and> (case sb_string sb of
      None \<Rightarrow> sb_len sb = 0 \<and> sb_size sb = 0
    | Some s \<Rightarrow> sb_size sb \<le> length s \<and> sb_len sb < length s \<and> s ! sb_len sb = NUL)"

definition sb_text :: "ni_stringbuf \<Rightarrow> cstring" where
  "sb_text sb = (case sb_string sb of None \<Rightarrow> [] | Some s \<Rightarrow> take (sb_len sb) s)"

lemma sb_wf_init [simp]: "sb_wf ni_stringbuf_init" "sb_text ni_stringbuf_init = []" "sb_string ni_stringbuf_init = None"
  by (simp_all add: sb_wf_def sb_text_def ni_stringbuf_init_def)

lemma round_up_ge: "n \<le> (n + (STRINGBUF_CHUNK - 1)) div STRINGBUF_CHUNK * STRINGBUF_CHUNK"
  by (simp add: STRINGBUF_CHUNK_def)

lemma sb_realloc_ok:
  assumes wf: "sb_wf sb"
  shows "\<exists>sb1 s. u_ni_stringbuf_realloc sb n = Some sb1 \<and> sb_string sb1 = Some s \<and> sb_len sb1 = sb_len sb
           \<and> take (sb_len sb) s = sb_text sb \<and> s ! sb_len sb = NUL \<and> sb_len sb + n < length s \<and> sb_size sb1 \<le> length s
           \<and> sb_dynamic sb1"
proof (cases "sb_size sb < sb_len sb + n + 1")
  case True
  let ?sz = "u_ni_stringbuf_size sb (n + 1)"
  have ge: "sb_len sb + (n + 1) \<le> ?sz"
    using round_up_ge [of "sb_len sb + (n + 1)"] by (simp add: u_ni_stringbuf_size_def)
  have le: "sb_len sb \<le> length (case sb_string sb of None \<Rightarrow> [] | Some s \<Rightarrow> s)"
    using wf by (auto simp: sb_wf_def split: option.splits)
  define s where "s = take (sb_len sb) (case sb_string sb of None \<Rightarrow> [] | Some s \<Rightarrow> s) @ replicate (?sz - sb_len sb) NUL"
  have "u_ni_stringbuf_realloc sb n = Some (sb\<lparr>sb_string := Some s, sb_size := ?sz\<rparr>)"
    using True wf le by (simp add: u_ni_stringbuf_realloc_def mem_read_in sb_wf_def s_def Let_def)
  moreover have "take (sb_len sb) s = sb_text sb" using le by (simp add: sb_text_def s_def split: option.split)
  moreover have "s ! sb_len sb = NUL" "sb_len sb + n < length s" "?sz \<le> length s"
    using le ge by (simp_all add: nth_append s_def)
  moreover have "sb_dynamic sb" using wf by (simp add: sb_wf_def)
  ultimately show ?thesis by simp
next
  case False
  then show ?thesis using wf by (cases "sb_string sb") (auto simp: u_ni_stringbuf_realloc_def sb_wf_def sb_text_def)
qed

lemma sb_put_ok:
  assumes wf: "sb_wf sb"
  shows "\<exists>sb'. u_ni_stringbuf_put sb text = Some sb' \<and> sb_wf sb' \<and> sb_text sb' = sb_text sb @ text \<and> sb_string sb' \<noteq> None"
proof -
  obtain sb1 s where r: "u_ni_stringbuf_realloc sb (length text) = Some sb1" "sb_string sb1 = Some s" "sb_len sb1 = sb_len sb"
    "take (sb_len sb) s = sb_text sb" "sb_len sb + length text < length s" "sb_size sb1 \<le> length s" "sb_dynamic sb1"
    using sb_realloc_ok [OF wf, of "length text"] by blast
  let ?s1 = "take (sb_len sb) s @ text @ drop (sb_len sb + length text) s"
  have w: "mem_write s (sb_len sb) text = Some ?s1" using r(5) by (simp add: mem_write_in)
  have l: "length ?s1 = length s" using r(5) by simp
  let ?s2 = "?s1[sb_len sb + length text := NUL]"
  have "u_ni_stringbuf_put sb text = Some (sb1\<lparr>sb_string := Some ?s2, sb_len := sb_len sb + length text\<rparr>)"
    using r w l by (simp add: u_ni_stringbuf_put_def arr_set_in)
  moreover have "take (sb_len sb + length text) ?s2 = sb_text sb @ text"
    using r(5) by (simp add: r(4) [symmetric])
  ultimately show ?thesis using r(5-7) l by (simp add: sb_wf_def sb_text_def)
qed

lemma sb_puts_ok: "sb_wf sb \<Longrightarrow> \<exists>sb'. ni_stringbuf_puts sb t = Some sb' \<and> sb_wf sb' \<and> sb_text sb' = sb_text sb @ (case t of None \<Rightarrow> [] | Some s \<Rightarrow> s)"
  using sb_put_ok [of sb] by (cases t) (fastforce simp: ni_stringbuf_puts_def)+

lemma sb_putc_ok:
  "sb_wf sb \<Longrightarrow> \<exists>sb'. ni_stringbuf_putc sb c = Some sb' \<and> sb_wf sb' \<and> sb_text sb' = sb_text sb @ [c] \<and> sb_string sb' \<noteq> None"
  unfolding ni_stringbuf_putc_def by (rule sb_put_ok)

interpretation stringbuf: growing_array ni_stringbuf_putc sb_text sb_wf
  by unfold_locales (use sb_putc_ok in blast)

lemma sb_vprintf_ok:
  assumes "sb_wf sb"
  shows "\<exists>sb'. ni_stringbuf_vprintf sb text = Some (length (sb_text sb @ text), sb') \<and> sb_wf sb' \<and> sb_text sb' = sb_text sb @ text"
proof (cases "sb_string sb")
  case None
  then show ?thesis using assms by (simp add: ni_stringbuf_vprintf_def sb_wf_def sb_text_def)
next
  case (Some s)
  obtain sb' where p: "u_ni_stringbuf_put sb text = Some sb'" "sb_wf sb'" "sb_text sb' = sb_text sb @ text"
    using sb_put_ok [OF assms] by blast
  have "length (sb_text sb') = sb_len sb'" using p(2) by (auto simp: sb_wf_def sb_text_def split: option.splits)
  then show ?thesis using p Some by (simp add: ni_stringbuf_vprintf_def ni_stringbuf_puts_def)
qed

text \<open>The text as the C string the buffer hands out.\<close>

lemma sb_cstr: "sb_wf sb \<Longrightarrow> sb_string sb = Some s \<Longrightarrow> NUL \<notin> set (sb_text sb) \<Longrightarrow> cstr s = sb_text sb"
proof -
  assume wf: "sb_wf sb" and s: "sb_string sb = Some s" and n: "NUL \<notin> set (sb_text sb)"
  have l: "sb_len sb < length s" "s ! sb_len sb = NUL" using wf s by (simp_all add: sb_wf_def)
  have "s = take (sb_len sb) s @ s ! sb_len sb # drop (Suc (sb_len sb)) s" using l(1) by (rule id_take_nth_drop)
  then have e: "s = sb_text sb @ NUL # drop (Suc (sb_len sb)) s" using l(2) s by (simp add: sb_text_def)
  have "takeWhile (\<lambda>c. c \<noteq> NUL) (sb_text sb) = sb_text sb"
    using n by (auto simp: takeWhile_eq_all_conv)
  then show ?thesis unfolding cstr_def by (subst e) (simp add: takeWhile_tail)
qed

section \<open>Prefixes and suffixes\<close>

definition ni_string_strip_prefix :: "cstring option \<Rightarrow> cstring option \<Rightarrow> cstring option" where
  "ni_string_strip_prefix pfx string =
     (case (pfx, string) of
        (Some p, Some s) \<Rightarrow> (if take (length p) s = p then Some (drop (length p) s) else None)
      | _ \<Rightarrow> string)"

definition ni_string_strip_suffix :: "cstring option \<Rightarrow> cstring option \<Rightarrow> cstring option" where
  "ni_string_strip_suffix string sfx =
     (case (string, sfx) of
        (Some s, Some x) \<Rightarrow>
          (if length x < length s \<and> drop (length s - length x) s = x then Some (take (length s - length x) s) else Some s)
      | _ \<Rightarrow> string)"

section \<open>Splitting and joining\<close>

text \<open>The tokens \<open>strtok_r\<close> returns one after the other.\<close>

function tokens :: "cstring \<Rightarrow> cstring \<Rightarrow> cstring list" where
  "tokens sep s =
     (let t = dropWhile (\<lambda>c. c \<in> set sep) s in
      if t = [] then []
      else takeWhile (\<lambda>c. c \<notin> set sep) t # tokens sep (dropWhile (\<lambda>c. c \<notin> set sep) t))"
  by pat_completeness auto
termination
proof (relation "measure (\<lambda>(sep, s). length s)")
  fix sep s t
  assume t: "t = dropWhile (\<lambda>c. c \<in> set sep) s" "t \<noteq> []"
  then have "hd t \<notin> set sep" using hd_dropWhile [of "\<lambda>c. c \<in> set sep" s] by simp
  then have "length (dropWhile (\<lambda>c. c \<notin> set sep) t) < length t"
    using t(2) length_dropWhile_le [of "\<lambda>c. c \<notin> set sep" "tl t"] by (cases t) auto
  also have "\<dots> \<le> length s" using t(1) length_dropWhile_le by simp
  finally show "((sep, dropWhile (\<lambda>c. c \<notin> set sep) t), sep, s) \<in> measure (\<lambda>(sep, s). length s)" by simp
qed simp

declare tokens.simps [simp del]

definition ni_string_split ::
    "ni_string_array option \<Rightarrow> cstring option \<Rightarrow> cstring option \<Rightarrow> nat \<Rightarrow> (nat \<times> ni_string_array option) option" where
  "ni_string_split nsa str sep limit =
     (case nsa of None \<Rightarrow> Some (0, None)
      | Some a \<Rightarrow>
          (if ni_string_len sep = 0 \<or> ni_string_len str = 0 then Some (0, Some a)
           else do {
             let ts = tokens (the sep) (the str);
             a' \<leftarrow> append_all ni_string_array_append a (map Some (if limit = 0 then ts else take limit ts));
             Some (sa_count a' - sa_count a, Some a') }))"

fun join_loop :: "ni_stringbuf \<Rightarrow> bool \<Rightarrow> cstring option list \<Rightarrow> cstring \<Rightarrow> ni_stringbuf option" where
  "join_loop buf first [] sep = Some buf"
| "join_loop buf first (x # xs) sep = do {
     buf1 \<leftarrow> (if first then Some buf else ni_stringbuf_puts buf (Some sep));
     buf2 \<leftarrow> ni_stringbuf_puts buf1 x;
     join_loop buf2 False xs sep }"

text \<open>The string is the result and also stored through \<open>str\<close>.\<close>

definition ni_string_join :: "ni_string_array option \<Rightarrow> cstring option \<Rightarrow> cstring option option" where
  "ni_string_join nsa sep =
     (case (nsa, sep) of
        (Some a, Some sp) \<Rightarrow> do {
          xs \<leftarrow> mem_read (sa_data a) 0 (sa_count a);
          buf \<leftarrow> join_loop ni_stringbuf_init True xs sp;
          Some (map_option cstr (sb_string buf)) }
      | _ \<Rightarrow> Some None)"

section \<open>Quoting\<close>

definition strcspn :: "cstring \<Rightarrow> cstring \<Rightarrow> nat" where
  "strcspn s reject = length (takeWhile (\<lambda>c. c \<notin> set reject) s)"

definition strspn :: "cstring \<Rightarrow> cstring \<Rightarrow> nat" where
  "strspn s accept = length (takeWhile (\<lambda>c. c \<in> set accept) s)"

definition DQUOTE :: char where "DQUOTE = CHR 0x22"
definition SQUOTE :: char where "SQUOTE = CHR 0x27"
definition BACKSLASH :: char where "BACKSLASH = CHR 0x5C"

fun quote_loop :: "ni_stringbuf \<Rightarrow> cstring \<Rightarrow> ni_stringbuf option" where
  "quote_loop buf [] = Some buf"
| "quote_loop buf (c # cs) = do {
     buf1 \<leftarrow> (if c = DQUOTE \<or> c = SQUOTE \<or> c = BACKSLASH then ni_stringbuf_putc buf BACKSLASH else Some buf);
     buf2 \<leftarrow> ni_stringbuf_putc buf1 c;
     quote_loop buf2 cs }"

definition ni_quote :: "cstring \<Rightarrow> cstring option \<Rightarrow> cstring option" where
  "ni_quote string sepa =
     (let m = (case sepa of Some sp \<Rightarrow> strcspn string sp | None \<Rightarrow> length string);
          n = strcspn string [DQUOTE, SQUOTE]
      in if m = n \<and> n = length string then Some string
         else do {
           b1 \<leftarrow> ni_stringbuf_putc ni_stringbuf_init DQUOTE;
           b2 \<leftarrow> quote_loop b1 string;
           b3 \<leftarrow> ni_stringbuf_putc b2 DQUOTE;
           s \<leftarrow> sb_string b3;
           Some (cstr s) })"

text \<open>Where the scan of \<open>ni_unquote\<close> stands: in its outer loop, in one of the two inner loops, or behind
  a backslash of the first one.\<close>

datatype quote_mode = Plain | InDouble | InEscape | InSingle

text \<open>\<open>Some None\<close> is the label \<open>failed\<close>.\<close>

fun unquote_loop :: "cstring option \<Rightarrow> quote_mode \<Rightarrow> ni_stringbuf \<Rightarrow> cstring \<Rightarrow> (ni_stringbuf \<times> cstring) option option" where
  "unquote_loop sepa m buf [] = (if m = Plain then Some (Some (buf, [])) else Some None)"
| "unquote_loop sepa Plain buf (c # src) =
     (if (case sepa of Some sp \<Rightarrow> c \<in> set sp | None \<Rightarrow> False) then Some (Some (buf, src))
      else if c = DQUOTE then unquote_loop sepa InDouble buf src
      else if c = SQUOTE then unquote_loop sepa InSingle buf src
      else do { b \<leftarrow> ni_stringbuf_putc buf c; unquote_loop sepa Plain b src })"
| "unquote_loop sepa InDouble buf (c # src) =
     (if c = DQUOTE then unquote_loop sepa Plain buf src
      else if c = BACKSLASH then unquote_loop sepa InEscape buf src
      else do { b \<leftarrow> ni_stringbuf_putc buf c; unquote_loop sepa InDouble b src })"
| "unquote_loop sepa InEscape buf (c # src) = do { b \<leftarrow> ni_stringbuf_putc buf c; unquote_loop sepa InDouble b src }"
| "unquote_loop sepa InSingle buf (c # src) =
     (if c = SQUOTE then unquote_loop sepa Plain buf src
      else do { b \<leftarrow> ni_stringbuf_putc buf c; unquote_loop sepa InSingle b src })"

text \<open>The result and the new value of \<open>*stringp\<close>.\<close>

definition ni_unquote :: "cstring \<Rightarrow> cstring option \<Rightarrow> (cstring option \<times> cstring) option" where
  "ni_unquote stringp sepa = do {
     let src = (case sepa of Some sp \<Rightarrow> drop (strspn stringp sp) stringp | None \<Rightarrow> stringp);
     r \<leftarrow> unquote_loop sepa Plain ni_stringbuf_init src;
     (case r of
        None \<Rightarrow> Some (None, stringp)
      | Some (buf, rest) \<Rightarrow> Some (map_option cstr (sb_string buf), rest)) }"

subsection \<open>What the two loops compute\<close>

fun escaped :: "cstring \<Rightarrow> cstring" where
  "escaped [] = []"
| "escaped (c # cs) = (if c = DQUOTE \<or> c = SQUOTE \<or> c = BACKSLASH then [BACKSLASH, c] else [c]) @ escaped cs"

lemma quote_loop_text:
  "sb_wf buf \<Longrightarrow> \<exists>b. quote_loop buf s = Some b \<and> sb_wf b \<and> sb_text b = sb_text buf @ escaped s"
proof (induction s arbitrary: buf)
  case (Cons c s)
  let ?esc = "c = DQUOTE \<or> c = SQUOTE \<or> c = BACKSLASH"
  obtain b1 where b1: "(if ?esc then ni_stringbuf_putc buf BACKSLASH else Some buf) = Some b1" "sb_wf b1"
    "sb_text b1 = sb_text buf @ (if ?esc then [BACKSLASH] else [])"
    using sb_putc_ok [OF Cons.prems, of BACKSLASH] Cons.prems by (cases ?esc) auto
  obtain b2 where b2: "ni_stringbuf_putc b1 c = Some b2" "sb_wf b2" "sb_text b2 = sb_text b1 @ [c]"
    using sb_putc_ok [OF b1(2)] by blast
  obtain b where "quote_loop b2 s = Some b" "sb_wf b" "sb_text b = sb_text b2 @ escaped s"
    using Cons.IH [OF b2(2)] by blast
  then show ?case using b1 b2 by simp
qed simp

lemma unquote_double:
  "sb_wf buf \<Longrightarrow> \<exists>b. unquote_loop sepa InDouble buf (escaped s @ DQUOTE # rest) = unquote_loop sepa Plain b rest
     \<and> sb_wf b \<and> sb_text b = sb_text buf @ s \<and> (s \<noteq> [] \<longrightarrow> sb_string b \<noteq> None)"
proof (induction s arbitrary: buf)
  case (Nil buf)
  then show ?case by (intro exI [of _ buf]) simp
next
  case (Cons c s)
  obtain b1 where b1: "ni_stringbuf_putc buf c = Some b1" "sb_wf b1" "sb_text b1 = sb_text buf @ [c]" "sb_string b1 \<noteq> None"
    using sb_putc_ok [OF Cons.prems] by blast
  obtain b where b: "unquote_loop sepa InDouble b1 (escaped s @ DQUOTE # rest) = unquote_loop sepa Plain b rest"
      "sb_wf b" "sb_text b = sb_text b1 @ s"
    using Cons.IH [OF b1(2)] by blast
  have "unquote_loop sepa InDouble buf (escaped (c # s) @ DQUOTE # rest) = unquote_loop sepa Plain b rest"
    using b1(1) b(1) by (auto simp: DQUOTE_def SQUOTE_def BACKSLASH_def)
  moreover have "sb_text b \<noteq> []" using b(3) b1(3) by simp
  then have "sb_string b \<noteq> None" by (cases "sb_string b") (simp_all add: sb_text_def)
  ultimately show ?case using b b1(3) by auto
qed

lemma unquote_plain:
  "sb_wf buf \<Longrightarrow> DQUOTE \<notin> set s \<Longrightarrow> SQUOTE \<notin> set s \<Longrightarrow> (\<And>sp. sepa = Some sp \<Longrightarrow> set sp \<inter> set s = {}) \<Longrightarrow>
     \<exists>b. unquote_loop sepa Plain buf (s @ rest) = unquote_loop sepa Plain b rest \<and> sb_wf b \<and> sb_text b = sb_text buf @ s"
proof (induction s arbitrary: buf)
  case (Nil buf)
  then show ?case by (intro exI [of _ buf]) simp
next
  case (Cons c s)
  obtain b1 where b1: "ni_stringbuf_putc buf c = Some b1" "sb_wf b1" "sb_text b1 = sb_text buf @ [c]"
    using sb_putc_ok [OF Cons.prems(1)] by blast
  have "\<And>sp. sepa = Some sp \<Longrightarrow> set sp \<inter> set s = {}" using Cons.prems(4) by auto
  then obtain b where b: "unquote_loop sepa Plain b1 (s @ rest) = unquote_loop sepa Plain b rest"
      "sb_wf b" "sb_text b = sb_text b1 @ s"
    using Cons.IH [OF b1(2)] Cons.prems(2,3) by auto
  have "unquote_loop sepa Plain buf ((c # s) @ rest) = unquote_loop sepa Plain b rest"
    using b1(1) b(1) Cons.prems(2-4) by (auto split: option.split)
  then show ?case using b b1(3) by auto
qed

lemma strcspn_full: "strcspn s r = length s \<longleftrightarrow> set s \<inter> set r = {}"
proof -
  have "strcspn s r = length s \<longleftrightarrow> takeWhile (\<lambda>c. c \<notin> set r) s = s"
    unfolding strcspn_def by (metis length_append append_eq_conv_conj takeWhile_dropWhile_id take_all_iff takeWhile_eq_take order_refl)
  then show ?thesis by (auto simp: takeWhile_eq_all_conv)
qed

text \<open>The characters ni_quote returns.\<close>

definition quoted_text :: "cstring \<Rightarrow> cstring option \<Rightarrow> cstring" where
  "quoted_text s sepa =
     (if (\<forall>c\<in>set s. c \<noteq> DQUOTE \<and> c \<noteq> SQUOTE \<and> c \<notin> set (case sepa of None \<Rightarrow> [] | Some sp \<Rightarrow> sp)) then s
      else DQUOTE # escaped s @ [DQUOTE])"

lemma NUL_escaped [simp]: "NUL \<in> set (escaped s) \<longleftrightarrow> NUL \<in> set s"
  by (induction s rule: escaped.induct) (auto simp: DQUOTE_def SQUOTE_def BACKSLASH_def NUL_def)

lemma ni_quote_text:
  assumes nul: "NUL \<notin> set s"
  shows "ni_quote s sepa = Some (quoted_text s sepa)"
proof -
  let ?m = "case sepa of Some sp \<Rightarrow> strcspn s sp | None \<Rightarrow> length s"
  let ?n = "strcspn s [DQUOTE, SQUOTE]"
  have c: "?m = ?n \<and> ?n = length s \<longleftrightarrow>
      (\<forall>c\<in>set s. c \<noteq> DQUOTE \<and> c \<noteq> SQUOTE \<and> c \<notin> set (case sepa of None \<Rightarrow> [] | Some sp \<Rightarrow> sp))"
    using strcspn_full [of s "[DQUOTE, SQUOTE]"] strcspn_full [of s "the sepa"] by (cases sepa) auto
  obtain b1 where b1: "ni_stringbuf_putc ni_stringbuf_init DQUOTE = Some b1" "sb_wf b1" "sb_text b1 = [DQUOTE]"
    using sb_putc_ok [OF sb_wf_init(1), of DQUOTE] by auto
  obtain b2 where b2: "quote_loop b1 s = Some b2" "sb_wf b2" "sb_text b2 = DQUOTE # escaped s"
    using quote_loop_text [OF b1(2), of s] b1(3) by auto
  obtain b3 t where b3: "ni_stringbuf_putc b2 DQUOTE = Some b3" "sb_wf b3" "sb_text b3 = DQUOTE # escaped s @ [DQUOTE]"
      "sb_string b3 = Some t"
    using sb_putc_ok [OF b2(2), of DQUOTE] b2(3) by auto
  have "cstr t = DQUOTE # escaped s @ [DQUOTE]"
    using sb_cstr [OF b3(2,4)] b3(3) nul by (simp add: DQUOTE_def NUL_def [symmetric]) (simp add: NUL_def)
  then have d: "do { b1 \<leftarrow> ni_stringbuf_putc ni_stringbuf_init DQUOTE; b2 \<leftarrow> quote_loop b1 s; b3 \<leftarrow> ni_stringbuf_putc b2 DQUOTE;
      t \<leftarrow> sb_string b3; Some (cstr t) } = Some (DQUOTE # escaped s @ [DQUOTE])"
    using b1(1) b2(1) b3(1,4) by simp
  show ?thesis unfolding ni_quote_def quoted_text_def Let_def c d by (rule if_distrib [symmetric])
qed

text \<open>Where a quoted word ends: at the end of the input or at a separator.\<close>

definition word_end :: "cstring option \<Rightarrow> cstring \<Rightarrow> bool" where
  "word_end sepa rest \<longleftrightarrow> (case rest of [] \<Rightarrow> True | c # r \<Rightarrow> (case sepa of None \<Rightarrow> False | Some sp \<Rightarrow> c \<in> set sp))"

lemma unquote_stop: "word_end sepa rest \<Longrightarrow> unquote_loop sepa Plain b rest = Some (Some (b, tl rest))"
  by (cases rest; cases sepa) (auto simp: word_end_def)

lemma unquote_quoted_text:
  assumes sep: "DQUOTE \<notin> set (case sepa of None \<Rightarrow> [] | Some sp \<Rightarrow> sp)" and e: "word_end sepa rest"
  shows "\<exists>b. unquote_loop sepa Plain ni_stringbuf_init (quoted_text s sepa @ rest) = Some (Some (b, tl rest))
           \<and> sb_wf b \<and> sb_text b = s"
proof (cases "\<forall>c\<in>set s. c \<noteq> DQUOTE \<and> c \<noteq> SQUOTE \<and> c \<notin> set (case sepa of None \<Rightarrow> [] | Some sp \<Rightarrow> sp)")
  case True
  then have "DQUOTE \<notin> set s" "SQUOTE \<notin> set s" "\<And>sp. sepa = Some sp \<Longrightarrow> set sp \<inter> set s = {}" by auto
  from unquote_plain [where rest = rest, OF sb_wf_init(1) this] show ?thesis
    using True unquote_stop [OF e] by (fastforce simp: quoted_text_def)
next
  case False
  then have q: "quoted_text s sepa @ rest = DQUOTE # escaped s @ DQUOTE # rest" by (auto simp: quoted_text_def)
  obtain b where b: "unquote_loop sepa InDouble ni_stringbuf_init (escaped s @ DQUOTE # rest) = unquote_loop sepa Plain b rest"
      "sb_wf b" "sb_text b = s"
    using unquote_double [OF sb_wf_init(1), of sepa s rest] by auto
  have "unquote_loop sepa Plain ni_stringbuf_init (DQUOTE # escaped s @ DQUOTE # rest) = unquote_loop sepa Plain b rest"
    using sep b(1) by (auto split: option.splits)
  then show ?thesis using b unquote_stop [OF e] q by simp
qed

lemma quoted_text_no_skip:
  assumes "DQUOTE \<notin> set sp" "s \<noteq> []"
  shows "strspn (quoted_text s (Some sp) @ rest) sp = 0"
  using assms by (cases s) (auto simp: quoted_text_def strspn_def)

text \<open>C15: A word written by \<open>ni_quote\<close> is read back by \<open>ni_unquote\<close>, which also advances the cursor behind
  the separator that follows.  The word must not be empty and the double quote must not be a separator.\<close>

theorem ni_quote_roundtrip:
  assumes "NUL \<notin> set s" "s \<noteq> []" "DQUOTE \<notin> set (case sepa of None \<Rightarrow> [] | Some sp \<Rightarrow> sp)" "word_end sepa rest"
  shows "\<exists>q. ni_quote s sepa = Some q \<and> ni_unquote (q @ rest) sepa = Some (Some s, tl rest)"
proof -
  obtain b where b: "unquote_loop sepa Plain ni_stringbuf_init (quoted_text s sepa @ rest) = Some (Some (b, tl rest))"
      "sb_wf b" "sb_text b = s"
    using unquote_quoted_text [OF assms(3,4)] by blast
  obtain t where t: "sb_string b = Some t" using b(3) assms(2) by (cases "sb_string b") (auto simp: sb_text_def)
  have "cstr t = s" using sb_cstr [OF b(2) t] b(3) assms(1) by simp
  moreover have "(case sepa of Some sp \<Rightarrow> drop (strspn (quoted_text s sepa @ rest) sp) (quoted_text s sepa @ rest)
      | None \<Rightarrow> quoted_text s sepa @ rest) = quoted_text s sepa @ rest"
    using quoted_text_no_skip assms(2,3) by (auto split: option.split)
  ultimately have "ni_unquote (quoted_text s sepa @ rest) sepa = Some (Some s, tl rest)"
    using b(1) t by (simp add: ni_unquote_def)
  then show ?thesis using ni_quote_text [OF assms(1)] by blast
qed

text \<open>\<open>it's "\<close> between blanks.\<close>

lemma ni_quote_roundtrip_witness:
  "\<exists>q. ni_quote ''it'' (Some '' '') = Some q \<and> ni_unquote (q @ '' x'') (Some '' '') = Some (Some ''it'', ''x'')"
  using ni_quote_roundtrip [of "''it''" "Some '' ''" "'' x''"] by (simp add: NUL_def DQUOTE_def word_end_def)

text \<open>The empty word is lost: it is quoted as nothing and read back as NULL, which is also how
  \<open>ni_unquote\<close> reports a missing closing quote.\<close>

theorem ni_unquote_empty_word:
  "ni_quote [] sepa = Some [] \<and> ni_unquote [] sepa = Some (None, [])
     \<and> ni_unquote [DQUOTE, DQUOTE] None = Some (None, []) \<and> ni_unquote [DQUOTE] None = Some (None, [DQUOTE])"
  by (simp add: ni_quote_def ni_unquote_def strcspn_def strspn_def ni_stringbuf_init_def split: option.split)

section \<open>Joining and splitting\<close>

lemma join_loop_text:
  "sb_wf buf \<Longrightarrow> \<exists>b. join_loop buf first (map Some xs) sep = Some b \<and> sb_wf b
     \<and> sb_text b = sb_text buf @ (if first then [] else concat (map (\<lambda>x. sep @ x) xs)) @
         (if first then (case xs of [] \<Rightarrow> [] | x # r \<Rightarrow> x @ concat (map (\<lambda>x. sep @ x) r)) else [])
     \<and> (xs \<noteq> [] \<longrightarrow> sb_string b \<noteq> None)"
proof (induction xs arbitrary: buf first)
  case (Cons x xs)
  obtain b1 where b1: "(if first then Some buf else ni_stringbuf_puts buf (Some sep)) = Some b1" "sb_wf b1"
      "sb_text b1 = sb_text buf @ (if first then [] else sep)"
    using sb_puts_ok [OF Cons.prems, of "Some sep"] Cons.prems by (cases first) auto
  obtain b2 where b2: "ni_stringbuf_puts b1 (Some x) = Some b2" "sb_wf b2" "sb_text b2 = sb_text b1 @ x" "sb_string b2 \<noteq> None"
    using sb_put_ok [OF b1(2), of x] by (auto simp: ni_stringbuf_puts_def)
  obtain b where b: "join_loop b2 False (map Some xs) sep = Some b" "sb_wf b"
      "sb_text b = sb_text b2 @ concat (map (\<lambda>x. sep @ x) xs)" "xs \<noteq> [] \<longrightarrow> sb_string b \<noteq> None"
    using Cons.IH [OF b2(2), of False] by auto
  have "sb_string b \<noteq> None" using b(1,4) b2(4) by (cases xs) auto
  then show ?case using b1 b2(1,3) b(1-3) by auto
qed simp

definition joined :: "cstring list \<Rightarrow> cstring \<Rightarrow> cstring" where
  "joined xs sep = (case xs of [] \<Rightarrow> [] | x # r \<Rightarrow> x @ concat (map (\<lambda>x. sep @ x) r))"

lemma joined_Cons: "joined (x # xs) sep = x @ concat (map (\<lambda>x. sep @ x) xs)"
  by (simp add: joined_def)

lemma ni_string_join_text:
  assumes wf: "sa_wf a" and it: "sa_items a = map Some xs" and nul: "NUL \<notin> set (joined xs sep)" and ne: "xs \<noteq> []"
  shows "ni_string_join (Some a) (Some sep) = Some (Some (joined xs sep))"
proof -
  have rd: "mem_read (sa_data a) 0 (sa_count a) = Some (map Some xs)"
    using sa_read_items [OF wf] it by simp
  obtain b where b: "join_loop ni_stringbuf_init True (map Some xs) sep = Some b" "sb_wf b" "sb_text b = joined xs sep"
      "sb_string b \<noteq> None"
    using join_loop_text [OF sb_wf_init(1), of True xs sep] ne by (auto simp: joined_def)
  obtain t where t: "sb_string b = Some t" using b(4) by blast
  have "cstr t = joined xs sep" using sb_cstr [OF b(2) t] b(3) nul by simp
  then show ?thesis using rd b(1) t by (simp add: ni_string_join_def)
qed

lemma tokens_Nil [simp]: "tokens sep [] = []"
  by (subst tokens.simps) simp

lemma tokens_skip: "set s \<subseteq> set sep \<Longrightarrow> tokens sep (s @ r) = tokens sep r"
proof -
  assume "set s \<subseteq> set sep"
  then have "dropWhile (\<lambda>c. c \<in> set sep) (s @ r) = dropWhile (\<lambda>c. c \<in> set sep) r" by (simp add: dropWhile_append2 subset_iff)
  then show ?thesis by (simp only: tokens.simps [of sep "s @ r"] tokens.simps [of sep r])
qed

lemma tokens_word:
  assumes "x \<noteq> []" "set x \<inter> set sep = {}" "r = [] \<or> hd r \<in> set sep"
  shows "tokens sep (x @ r) = x # tokens sep r"
proof -
  have w: "c \<notin> set sep" if "c \<in> set x" for c using assms(2) that by blast
  have "dropWhile (\<lambda>c. c \<in> set sep) (x @ r) = x @ r" using assms(1,2) by (cases x) auto
  moreover have "takeWhile (\<lambda>c. c \<notin> set sep) (x @ r) = x"
    using assms(3) by (cases r) (simp_all add: w takeWhile_append2)
  moreover have "dropWhile (\<lambda>c. c \<notin> set sep) (x @ r) = r"
    using assms(3) by (cases r) (simp_all add: w dropWhile_append2)
  ultimately show ?thesis using assms(1) by (simp add: tokens.simps [of sep "x @ r"])
qed

lemma tokens_concat:
  assumes "sep \<noteq> []" "\<And>x. x \<in> set xs \<Longrightarrow> x \<noteq> [] \<and> set x \<inter> set sep = {}"
  shows "tokens sep (concat (map (\<lambda>x. sep @ x) xs)) = xs"
  using assms(2)
proof (induction xs)
  case (Cons x xs)
  let ?r = "concat (map (\<lambda>x. sep @ x) xs)"
  have "?r = [] \<or> hd ?r \<in> set sep" using assms(1) by (cases xs) auto
  then show ?case using Cons tokens_skip [of sep sep] tokens_word [of x sep ?r] by simp
qed simp

lemma tokens_joined:
  assumes "sep \<noteq> []" "\<And>x. x \<in> set xs \<Longrightarrow> x \<noteq> [] \<and> set x \<inter> set sep = {}"
  shows "tokens sep (joined xs sep) = xs"
proof (cases xs)
  case (Cons x r)
  have "concat (map (\<lambda>x. sep @ x) r) = [] \<or> hd (concat (map (\<lambda>x. sep @ x) r)) \<in> set sep" using assms(1) by (cases r) auto
  then show ?thesis
    using Cons assms tokens_word [of x sep "concat (map (\<lambda>x. sep @ x) r)"] tokens_concat [of sep r] by (simp add: joined_Cons)
qed (simp add: joined_def)

lemma split_ok:
  assumes "sa_wf a" "sep \<noteq> []" "s \<noteq> []"
  shows "\<exists>a'. ni_string_split (Some a) (Some s) (Some sep) 0 = Some (length (tokens sep s), Some a')
           \<and> sa_wf a' \<and> sa_items a' = sa_items a @ map Some (tokens sep s)"
proof -
  obtain a' where a': "append_all ni_string_array_append a (map Some (tokens sep s)) = Some a'" "sa_wf a'"
      "sa_items a' = sa_items a @ map Some (tokens sep s)"
    using strings.append_all_ok [OF assms(1)] by blast
  have "sa_count a' - sa_count a = length (tokens sep s)"
    using arg_cong [OF a'(3), of length] assms(1) a'(2) by (simp add: length_sa_items)
  then show ?thesis using a' assms(2,3) by (simp add: ni_string_split_def)
qed

text \<open>C16: Splitting undoes joining.  The strings of an array are joined with a separator and split again
  into an empty array: the same strings come back in order, when none of them is empty or contains a
  character of the separator.\<close>

theorem ni_string_split_join:
  assumes "sa_wf a" "sa_items a = map Some xs" "xs \<noteq> []" "sep \<noteq> []" "NUL \<notin> set (joined xs sep)"
    and "\<forall>x\<in>set xs. x \<noteq> [] \<and> set x \<inter> set sep = {}"
  shows "\<exists>s a'. ni_string_join (Some a) (Some sep) = Some (Some s)
           \<and> ni_string_split (Some ni_string_array_init) (Some s) (Some sep) 0 = Some (length xs, Some a')
           \<and> sa_items a' = map Some xs"
proof -
  have t: "tokens sep (joined xs sep) = xs" using tokens_joined [of sep xs] assms(4,6) by blast
  then have "joined xs sep \<noteq> []" using assms(3) by auto
  then show ?thesis
    using ni_string_join_text [OF assms(1,2,5,3)] split_ok [OF sa_wf_init(1) assms(4), of "joined xs sep"] t by auto
qed

text \<open>The words \<open>a\<close> and \<open>bc\<close>, joined with a colon.\<close>

definition sample_words :: ni_string_array where
  "sample_words = (case append_all ni_string_array_append ni_string_array_init [Some ''a'', Some ''bc''] of
     Some a \<Rightarrow> a | None \<Rightarrow> ni_string_array_init)"

lemma sample_words: "sa_wf sample_words" "sa_items sample_words = [Some ''a'', Some ''bc'']"
  using strings.append_all_ok [OF sa_wf_init(1), of "[Some ''a'', Some ''bc'']"] by (auto simp: sample_words_def)

lemma ni_string_split_join_witness:
  "\<exists>s a'. ni_string_join (Some sample_words) (Some '':'') = Some (Some s)
     \<and> ni_string_split (Some ni_string_array_init) (Some s) (Some '':'') 0 = Some (2, Some a')
     \<and> sa_items a' = [Some ''a'', Some ''bc'']"
  using ni_string_split_join [of sample_words "[''a'', ''bc'']" "'':''"] sample_words
  by (simp add: joined_def NUL_def numeral_2_eq_2)

section \<open>Sequences of output operations\<close>

datatype sb_op = Putc char | Puts "cstring option" | Printf cstring | Grow nat | Clear

definition sb_apply :: "sb_op \<Rightarrow> ni_stringbuf \<Rightarrow> ni_stringbuf option" where
  "sb_apply op sb = (case op of
     Putc c \<Rightarrow> ni_stringbuf_putc sb c
   | Puts s \<Rightarrow> ni_stringbuf_puts sb s
   | Printf s \<Rightarrow> map_option snd (ni_stringbuf_printf sb s)
   | Grow n \<Rightarrow> ni_stringbuf_grow sb n
   | Clear \<Rightarrow> Some (ni_stringbuf_clear sb))"

primrec sb_run :: "sb_op list \<Rightarrow> ni_stringbuf \<Rightarrow> ni_stringbuf option" where
  "sb_run [] sb = Some sb"
| "sb_run (op # ops) sb = do { sb1 \<leftarrow> sb_apply op sb; sb_run ops sb1 }"

definition text_apply :: "sb_op \<Rightarrow> cstring \<Rightarrow> cstring" where
  "text_apply op t = (case op of
     Putc c \<Rightarrow> t @ [c] | Puts s \<Rightarrow> t @ (case s of None \<Rightarrow> [] | Some x \<Rightarrow> x) | Printf s \<Rightarrow> t @ s | Grow n \<Rightarrow> t | Clear \<Rightarrow> [])"

lemma sb_grow_ok: "sb_wf sb \<Longrightarrow> \<exists>sb'. ni_stringbuf_grow sb n = Some sb' \<and> sb_wf sb' \<and> sb_text sb' = sb_text sb"
  using sb_realloc_ok [of sb n] by (fastforce simp: ni_stringbuf_grow_def sb_wf_def sb_text_def)

lemma sb_apply_ok: "sb_wf sb \<Longrightarrow> \<exists>sb'. sb_apply op sb = Some sb' \<and> sb_wf sb' \<and> sb_text sb' = text_apply op (sb_text sb)"
proof (cases op)
  case (Puts s)
  assume "sb_wf sb"
  then show ?thesis using sb_puts_ok [of sb s] Puts by (simp add: sb_apply_def text_apply_def)
next
  case (Printf s)
  assume "sb_wf sb"
  then show ?thesis using sb_vprintf_ok [of sb s] Printf by (auto simp: sb_apply_def text_apply_def ni_stringbuf_printf_def)
next
  case Clear
  assume "sb_wf sb"
  then show ?thesis using Clear by (simp add: sb_apply_def text_apply_def ni_stringbuf_clear_def sb_wf_def sb_text_def)
next
  case (Putc c)
  assume "sb_wf sb"
  then show ?thesis using sb_putc_ok [of sb c] Putc by (auto simp: sb_apply_def text_apply_def)
next
  case (Grow n)
  assume "sb_wf sb"
  then show ?thesis using sb_grow_ok [of sb n] Grow by (simp add: sb_apply_def text_apply_def)
qed

text \<open>C14: A string buffer is a string.  Whatever sequence of put, print, grow and clear operations a new
  buffer gets, its block is always large enough for the text and the terminating NUL, and the text is what
  the same operations make of a string.\<close>

theorem stringbuf_refines_string:
  "\<exists>sb. sb_run ops ni_stringbuf_init = Some sb \<and> sb_wf sb \<and> sb_text sb = fold text_apply ops []"
proof -
  have "sb_wf sb \<Longrightarrow> \<exists>sb'. sb_run ops sb = Some sb' \<and> sb_wf sb' \<and> sb_text sb' = fold text_apply ops (sb_text sb)" for sb
  proof (induction ops arbitrary: sb)
    case (Cons op ops)
    obtain sb1 where "sb_apply op sb = Some sb1" "sb_wf sb1" "sb_text sb1 = text_apply op (sb_text sb)"
      using sb_apply_ok [OF Cons.prems] by blast
    then show ?case using Cons.IH [of sb1] by auto
  qed simp
  from this [OF sb_wf_init(1)] show ?thesis by simp
qed

text \<open>\<open>ni_stringbuf_move\<close> leaves the source with the capacity of the block it has given away, so
  the next short write into the source goes through a NULL pointer.\<close>

theorem ni_stringbuf_move_breaks_source:
  assumes "sb_wf src" "sb_dynamic dst" "length s < sb_size src"
  shows "\<exists>dst' src'. ni_stringbuf_move dst src = Some (dst', src') \<and> sb_text dst' = sb_text src
           \<and> ni_stringbuf_puts src' (Some s) = None"
  using assms by (simp add: ni_stringbuf_move_def sb_wf_def sb_text_def ni_stringbuf_puts_def
      u_ni_stringbuf_put_def u_ni_stringbuf_realloc_def)

lemma ni_stringbuf_move_breaks_source_witness:
  "\<exists>dst' src'. ni_stringbuf_move ni_stringbuf_init \<lparr>sb_size = 64, sb_len = 1, sb_string = Some (CHR ''x'' # replicate 63 NUL), sb_dynamic = True\<rparr>
       = Some (dst', src') \<and> sb_text dst' = sb_text \<lparr>sb_size = 64, sb_len = 1, sb_string = Some (CHR ''x'' # replicate 63 NUL), sb_dynamic = True\<rparr>
     \<and> ni_stringbuf_puts src' (Some ''y'') = None"
  by (rule ni_stringbuf_move_breaks_source) (simp_all add: sb_wf_def ni_stringbuf_init_def)

text \<open>Trimming the empty lines of a buffer nothing was written to goes through its NULL pointer.\<close>

lemma trim_empty_lines_faults: "ni_stringbuf_trim_empty_lines ni_stringbuf_init = None"
  by (simp add: ni_stringbuf_trim_empty_lines_def ni_stringbuf_init_def arr_set_def)

end
