(* ===== verification/Xml.thy ===== *)
theory Xml
  imports Vars Strings
begin

text \<open>
  XML documents (include/dborb/xml.h, dborb/xml.c) as values, and the writer (dborb/xml-writer.c).

  A node that is reached through its parent only is a value: name, cdata, attributes, children in the
  order of the \<open>next\<close> chain, and the location the reader has noted.  The attribute array is the list of
  its used entries; \<open>xml_node_add_attr\<close> on such lists is shown below to be what \<open>ni_var_array_set\<close> does.
  The operations that depend on the identity of nodes, on \<open>parent\<close> pointers and on reference counts are not
  modelled.  The writer is the list of the texts its calls of \<open>xml_writer_printf\<close> produce: a
  file receives them one after the other, a hash the first 255 bytes of each.
\<close>

section \<open>Nodes and documents\<close>

type_synonym xml_attr = "cstring \<times> cstring option"
type_synonym xml_location = "cstring \<times> u32"

datatype xml_node = Xml_node
  (xn_name: "cstring option")
  (xn_cdata: "cstring option")
  (xn_attrs: "xml_attr list")
  (xn_children: "xml_node list")
  (xn_location: "xml_location option")

record xml_document =
  xd_dtd :: "cstring option"
  xd_root :: "xml_node option"

definition xml_node_new :: "cstring option \<Rightarrow> xml_node" where
  "xml_node_new ident = Xml_node ident None [] [] None"

definition xml_document_new :: xml_document where
  "xml_document_new = \<lparr>xd_dtd = None, xd_root = Some (xml_node_new None)\<rparr>"

definition xml_document_root :: "xml_document \<Rightarrow> xml_node option" where
  "xml_document_root doc = xd_root doc"

definition xml_document_type :: "xml_document \<Rightarrow> cstring option" where
  "xml_document_type doc = xd_dtd doc"

definition xml_document_set_root :: "xml_document \<Rightarrow> xml_node option \<Rightarrow> xml_document" where
  "xml_document_set_root doc root = doc\<lparr>xd_root := root\<rparr>"

definition xml_document_take_root :: "xml_document \<Rightarrow> xml_node option \<times> xml_document" where
  "xml_document_take_root doc = (xd_root doc, doc\<lparr>xd_root := None\<rparr>)"

definition xml_node_set_cdata :: "xml_node \<Rightarrow> cstring option \<Rightarrow> xml_node" where
  "xml_node_set_cdata node cdata = Xml_node (xn_name node) cdata (xn_attrs node) (xn_children node) (xn_location node)"

definition xml_node_set_children :: "xml_node \<Rightarrow> xml_node list \<Rightarrow> xml_node" where
  "xml_node_set_children node cs = Xml_node (xn_name node) (xn_cdata node) (xn_attrs node) cs (xn_location node)"

definition xml_node_set_attrs :: "xml_node \<Rightarrow> xml_attr list \<Rightarrow> xml_node" where
  "xml_node_set_attrs node as = Xml_node (xn_name node) (xn_cdata node) as (xn_children node) (xn_location node)"

definition xml_node_set_location :: "xml_node \<Rightarrow> xml_location option \<Rightarrow> xml_node" where
  "xml_node_set_location node l = Xml_node (xn_name node) (xn_cdata node) (xn_attrs node) (xn_children node) l"

lemma xml_node_sel_simps [simp]:
  "xn_name (xml_node_set_cdata n d) = xn_name n" "xn_cdata (xml_node_set_cdata n d) = d"
  "xn_attrs (xml_node_set_cdata n d) = xn_attrs n" "xn_children (xml_node_set_cdata n d) = xn_children n"
  "xn_name (xml_node_set_children n cs) = xn_name n" "xn_cdata (xml_node_set_children n cs) = xn_cdata n"
  "xn_attrs (xml_node_set_children n cs) = xn_attrs n" "xn_children (xml_node_set_children n cs) = cs"
  "xn_name (xml_node_set_attrs n as) = xn_name n" "xn_cdata (xml_node_set_attrs n as) = xn_cdata n"
  "xn_attrs (xml_node_set_attrs n as) = as" "xn_children (xml_node_set_attrs n as) = xn_children n"
  "xn_name (xml_node_set_location n l) = xn_name n" "xn_cdata (xml_node_set_location n l) = xn_cdata n"
  "xn_attrs (xml_node_set_location n l) = xn_attrs n" "xn_children (xml_node_set_location n l) = xn_children n"
  by (simp_all add: xml_node_set_cdata_def xml_node_set_children_def xml_node_set_attrs_def xml_node_set_location_def)

lemma xml_node_new_sel [simp]:
  "xn_name (xml_node_new i) = i" "xn_cdata (xml_node_new i) = None" "xn_attrs (xml_node_new i) = []"
  "xn_children (xml_node_new i) = []" "xn_location (xml_node_new i) = None"
  by (simp_all add: xml_node_new_def)

definition xml_node_add_child :: "xml_node \<Rightarrow> xml_node \<Rightarrow> xml_node" where
  "xml_node_add_child parent child = xml_node_set_children parent (xn_children parent @ [child])"

definition xml_node_set_uint :: "xml_node \<Rightarrow> u32 \<Rightarrow> xml_node" where
  "xml_node_set_uint node value = xml_node_set_cdata node (Some (print_dec (unat value)))"

definition xml_node_set_uint_hex :: "xml_node \<Rightarrow> u32 \<Rightarrow> xml_node" where
  "xml_node_set_uint_hex node value = xml_node_set_cdata node (Some (''0x'' @ print_hex (unat value)))"

definition xml_node_new_element :: "cstring option \<Rightarrow> cstring option \<Rightarrow> xml_node" where
  "xml_node_new_element ident cdata =
     (if cdata \<noteq> None then xml_node_set_cdata (xml_node_new ident) cdata else xml_node_new ident)"

section \<open>Attributes\<close>

fun attrs_set :: "xml_attr list \<Rightarrow> cstring \<Rightarrow> cstring option \<Rightarrow> xml_attr list" where
  "attrs_set [] name value = [(name, value)]"
| "attrs_set (a # as) name value = (if fst a = name then (name, value) # as else a # attrs_set as name value)"

definition xml_node_add_attr :: "xml_node \<Rightarrow> cstring \<Rightarrow> cstring option \<Rightarrow> xml_node" where
  "xml_node_add_attr node name value = xml_node_set_attrs node (attrs_set (xn_attrs node) name value)"

definition xml_node_add_attr_uint :: "xml_node \<Rightarrow> cstring \<Rightarrow> u32 \<Rightarrow> xml_node" where
  "xml_node_add_attr_uint node name value = xml_node_add_attr node name (Some (print_dec (unat value)))"

definition xml_node_add_attr_ulong :: "xml_node \<Rightarrow> cstring \<Rightarrow> u64 \<Rightarrow> xml_node" where
  "xml_node_add_attr_ulong node name value = xml_node_add_attr node name (Some (print_dec (unat value)))"

definition u_xml_node_get_attr :: "xml_node \<Rightarrow> cstring \<Rightarrow> xml_attr option" where
  "u_xml_node_get_attr node name = find (\<lambda>a. fst a = name) (xn_attrs node)"

definition xml_node_has_attr :: "xml_node \<Rightarrow> cstring \<Rightarrow> bool" where
  "xml_node_has_attr node name \<longleftrightarrow> u_xml_node_get_attr node name \<noteq> None"

definition xml_node_get_attr :: "xml_node \<Rightarrow> cstring \<Rightarrow> cstring option" where
  "xml_node_get_attr node name = (case u_xml_node_get_attr node name of None \<Rightarrow> None | Some a \<Rightarrow> snd a)"

text \<open>The getters of numbers give the return code and, where it is written, \<open>*valp\<close>.\<close>

definition xml_node_get_attr_ulong :: "xml_node \<Rightarrow> cstring \<Rightarrow> bool \<times> u64 option" where
  "xml_node_get_attr_ulong node name =
     (case xml_node_get_attr node name of None \<Rightarrow> (False, None)
      | Some value \<Rightarrow> (case strtoul value 0 of (v, _, pos) \<Rightarrow> (pos = [], Some v)))"

definition xml_node_get_attr_uint :: "xml_node \<Rightarrow> cstring \<Rightarrow> bool \<times> u32 option" where
  "xml_node_get_attr_uint node name =
     (case xml_node_get_attr node name of None \<Rightarrow> (False, None)
      | Some value \<Rightarrow> (case strtoul value 0 of (v, _, pos) \<Rightarrow> (pos = [], Some (ucast v))))"

text \<open>\<open>if (*pos) return TRUE; return FALSE;\<close>\<close>

definition xml_node_get_attr_boolean :: "xml_node \<Rightarrow> cstring \<Rightarrow> bool \<times> bool option" where
  "xml_node_get_attr_boolean node name =
     (case xml_node_get_attr node name of None \<Rightarrow> (False, None)
      | Some value \<Rightarrow>
          (if strcasecmp_eq value ''true'' then (True, Some True)
           else if strcasecmp_eq value ''false'' then (True, Some False)
           else (case strtoul value 0 of (v, _, pos) \<Rightarrow> (pos \<noteq> [], Some (v \<noteq> 0)))))"

text \<open>All variables of the list have to be there with the same value; NULL matches a missing attribute.\<close>

definition xml_node_match_attrs :: "xml_node \<Rightarrow> xml_attr list \<Rightarrow> bool" where
  "xml_node_match_attrs node attrlist \<longleftrightarrow> list_all (\<lambda>a. snd a = xml_node_get_attr node (fst a)) attrlist"

section \<open>Children by name\<close>

text \<open>\<open>strcmp(child->name, name)\<close> faults on a child without a name.  The result is the position.\<close>

fun child_index :: "(xml_node \<Rightarrow> bool) \<Rightarrow> nat \<Rightarrow> xml_node list \<Rightarrow> cstring \<Rightarrow> nat option option" where
  "child_index ok i [] name = Some None"
| "child_index ok i (child # cs) name = do {
     eq \<leftarrow> strcmp_eq (xn_name child) (Some name);
     (if eq \<and> ok child then Some (Some i) else child_index ok (Suc i) cs name) }"

definition xml_node_get_child :: "xml_node option \<Rightarrow> cstring \<Rightarrow> nat option option" where
  "xml_node_get_child node name =
     (case node of None \<Rightarrow> Some None | Some n \<Rightarrow> child_index (\<lambda>_. True) 0 (xn_children n) name)"

definition xml_node_get_child_with_attrs :: "xml_node \<Rightarrow> cstring \<Rightarrow> xml_attr list \<Rightarrow> nat option option" where
  "xml_node_get_child_with_attrs node name attrs =
     child_index (\<lambda>child. xml_node_match_attrs child attrs) 0 (xn_children node) name"

section \<open>Writer\<close>

text \<open>\<open>escmap\<close> has 256 entries; \<open>(unsigned int) *pos\<close> of a negative \<open>char\<close> is an index far outside.\<close>

definition escmap :: "char \<Rightarrow> cstring option option" where
  "escmap c =
     (if 128 \<le> c_code c then None
      else Some (if c = CHR ''<'' then Some ''&lt;'' else if c = CHR ''>'' then Some ''&gt;''
                 else if c = CHR ''&'' then Some ''&amp;'' else None))"

fun escape_expand :: "cstring \<Rightarrow> nat option" where
  "escape_expand [] = Some 0"
| "escape_expand (c # cs) = do { r \<leftarrow> escmap c; n \<leftarrow> escape_expand cs; Some (ni_string_len r + n) }"

fun escape_copy :: "cstring \<Rightarrow> cstring option" where
  "escape_copy [] = Some []"
| "escape_copy (c # cs) = do {
     r \<leftarrow> escmap c;
     t \<leftarrow> escape_copy cs;
     Some ((case r of Some replace \<Rightarrow> replace | None \<Rightarrow> [c]) @ t) }"

definition xml_escape_entities :: "cstring \<Rightarrow> cstring option" where
  "xml_escape_entities cdata = do {
     expand \<leftarrow> escape_expand cdata;
     (if expand = 0 then Some cdata else escape_copy cdata) }"

definition xml_escape_quote :: "cstring \<Rightarrow> cstring" where
  "xml_escape_quote string = string"

definition spaces :: "nat \<Rightarrow> cstring" where "spaces n = replicate n (CHR '' '')"

definition NL :: char where "NL = CHR 0x0A"

definition attr_output :: "xml_attr \<Rightarrow> cstring" where
  "attr_output a = (case snd a of
     Some v \<Rightarrow> '' '' @ fst a @ ''='' @ [DQUOTE] @ xml_escape_quote v @ [DQUOTE]
   | None \<Rightarrow> '' '' @ fst a)"

definition cdata_output :: "cstring option \<Rightarrow> bool \<Rightarrow> (cstring list \<times> bool) option" where
  "cdata_output cdata newline =
     (case cdata of None \<Rightarrow> Some ([], newline)
      | Some d \<Rightarrow> do {
          let nl = NL \<in> set d;
          let newline = newline \<or> nl;
          e \<leftarrow> xml_escape_entities d;
          Some ((if nl then [[NL]] else []) @ [e]
                @ (if newline \<and> d \<noteq> [] \<and> List.last d \<noteq> NL then [[NL]] else []), newline) })"

fun xml_node_output :: "xml_node \<Rightarrow> nat \<Rightarrow> cstring list option"
  and xml_nodes_output :: "xml_node list \<Rightarrow> nat \<Rightarrow> cstring list option" where
  "xml_node_output (Xml_node name cdata attrs children loc) indent =
     (case name of
        Some nm \<Rightarrow>
          (let start = (spaces indent @ ''<'' @ nm) # map attr_output attrs
           in if cdata = None \<and> children = [] then Some (start @ [''/>'' @ [NL]])
              else do {
                (ps, newline) \<leftarrow> cdata_output cdata False;
                cs \<leftarrow> xml_nodes_output children (indent + 2);
                let between = (if children \<noteq> [] \<and> \<not> newline then [[NL]] else []);
                let newline = newline \<or> children \<noteq> [];
                Some (start @ [''>''] @ ps @ between @ cs
                      @ (if newline then [spaces indent] else []) @ [''</'' @ nm @ ''>'' @ [NL]]) })
      | None \<Rightarrow> do {
          (ps, newline) \<leftarrow> cdata_output cdata True;
          cs \<leftarrow> xml_nodes_output children indent;
          Some (ps @ cs) })"
| "xml_nodes_output [] indent = Some []"
| "xml_nodes_output (c # cs) indent = do {
     a \<leftarrow> xml_node_output c indent;
     b \<leftarrow> xml_nodes_output cs indent;
     Some (a @ b) }"

definition xml_header :: cstring where
  "xml_header = ''<?xml version='' @ [DQUOTE] @ ''1.0'' @ [DQUOTE] @ '' encoding='' @ [DQUOTE] @ ''utf8'' @ [DQUOTE] @ ''?>'' @ [NL]"

definition xml_document_output :: "xml_document \<Rightarrow> cstring list option" where
  "xml_document_output doc = do {
     root \<leftarrow> xd_root doc;
     ps \<leftarrow> xml_node_output root 0;
     Some (xml_header # ps) }"

text \<open>What a stream receives, and what a hash context does (\<open>char temp[256]\<close> in \<open>xml_writer_printf\<close>).\<close>

definition writer_text :: "cstring list \<Rightarrow> cstring" where
  "writer_text ps = concat ps"

definition writer_hash_input :: "cstring list \<Rightarrow> cstring" where
  "writer_hash_input ps = concat (map (take 255) ps)"

definition xml_node_sprint :: "xml_node \<Rightarrow> cstring option" where
  "xml_node_sprint node = map_option writer_text (xml_node_output node 0)"

definition xml_document_sprint :: "xml_document \<Rightarrow> cstring option" where
  "xml_document_sprint doc = map_option writer_text (xml_document_output doc)"

text \<open>The digest (libgcrypt) is the parameter \<open>md\<close>.\<close>

definition xml_node_hash :: "(cstring \<Rightarrow> byte list) \<Rightarrow> xml_node \<Rightarrow> byte list option" where
  "xml_node_hash md node = map_option (\<lambda>ps. md (writer_hash_input ps)) (xml_node_output node 0)"

definition xml_document_hash :: "(cstring \<Rightarrow> byte list) \<Rightarrow> xml_document \<Rightarrow> byte list option" where
  "xml_document_hash md doc = map_option (\<lambda>ps. md (writer_hash_input ps)) (xml_document_output doc)"

text \<open>The lines \<open>writefn\<close> is called with.\<close>

function text_lines :: "cstring \<Rightarrow> cstring list" where
  "text_lines s =
     (let l = takeWhile (\<lambda>c. c \<noteq> NL) s; r = dropWhile (\<lambda>c. c \<noteq> NL) s
      in if r = [] then [l] else l # text_lines (tl r))"
  by auto
termination
proof (relation "measure length", simp)
  fix s :: cstring and l r
  assume r: "r = dropWhile (\<lambda>c. c \<noteq> NL) s" "r \<noteq> []"
  have "length r \<le> length s" "0 < length r" using r length_dropWhile_le by auto
  then have "length r - 1 < length s" by arith
  then show "(tl r, s) \<in> measure length" by simp
qed

declare text_lines.simps [simp del]

definition xml_node_print_fn :: "xml_node \<Rightarrow> cstring list option" where
  "xml_node_print_fn node = map_option text_lines (xml_node_sprint node)"


section \<open>Attribute lists and variable arrays\<close>

definition attrs_of :: "ni_var_array \<Rightarrow> xml_attr list" where
  "attrs_of nva = map (\<lambda>v. (the (var_name v), var_value v)) (va_items nva)"


lemma attrs_set_new: "name \<notin> fst ` set as \<Longrightarrow> attrs_set as name value = as @ [(name, value)]"
  by (induction as) auto

lemma attrs_set_old:
  "k < length as \<Longrightarrow> fst (as ! k) = name \<Longrightarrow> distinct (map fst as) \<Longrightarrow> attrs_set as name value = as[k := (name, value)]"
proof (induction as arbitrary: k)
  case (Cons a as)
  show ?case
  proof (cases k)
    case 0
    then show ?thesis using Cons.prems by simp
  next
    case (Suc j)
    then have "fst (as ! j) \<in> fst ` set as" using Cons.prems(1) by (intro imageI nth_mem) simp
    moreover have "fst a \<notin> fst ` set as" "fst (as ! j) = name" using Suc Cons.prems(2,3) by simp_all
    ultimately have "fst a \<noteq> name" by metis
    then show ?thesis using Suc Cons by simp
  qed
qed simp

lemma attrs_of_names:
  assumes "va_wf nva"
  shows "map var_name (va_items nva) = map (Some \<circ> fst) (attrs_of nva)" "distinct (map fst (attrs_of nva))"
proof -
  have nn: "list_all (\<lambda>v. var_name v \<noteq> None) (va_items nva)" and d: "distinct (map var_name (va_items nva))"
    using assms by (simp_all add: va_wf_def)
  have *: "map var_name (va_items nva) = map Some (map fst (attrs_of nva))"
    using nn by (auto simp: attrs_of_def list_all_iff)
  then show "map var_name (va_items nva) = map (Some \<circ> fst) (attrs_of nva)" by (simp add: comp_def)
  show "distinct (map fst (attrs_of nva))" using d unfolding * by (auto simp: distinct_map inj_on_def)
qed

lemma attrs_set_refines:
  assumes wf: "va_wf nva"
  shows "\<exists>nva'. ni_var_array_set nva name value = Some nva' \<and> va_wf nva' \<and> attrs_of nva' = attrs_set (attrs_of nva) name value"
proof (cases "var_map (va_items nva) name")
  case None
  obtain nva' where r: "ni_var_array_set nva name value = Some nva'" "va_wf nva'"
      "va_items nva' = va_items nva @ [\<lparr>var_name = Some name, var_value = value\<rparr>]"
    using ni_var_array_set_new [OF wf None] by blast
  have "name \<notin> fst ` set (attrs_of nva)"
    using None unfolding var_map_def map_of_eq_None_iff attrs_of_def by simp
  then show ?thesis using r by (simp add: attrs_set_new attrs_of_def)
next
  case (Some x)
  have nn: "list_all (\<lambda>v. var_name v \<noteq> None) (va_items nva)" using wf by (simp add: va_wf_def)
  obtain k where k: "k < length (va_items nva)" "ni_var_array_get nva name = Some (Some k)" "var_name (va_items nva ! k) = Some name"
    using var_index_ok [OF nn, of 0 name] Some va_count_le [OF wf]
    by (auto simp: ni_var_array_get_def mem_read_in va_items_def)
  obtain nva' where r: "ni_var_array_set nva name value = Some nva'" "va_wf nva'"
    using ni_var_array_set_ok [OF wf, of name "value"] by blast
  have kc: "k < va_count nva" "k < length (va_data nva)" using k(1) by (auto simp: va_items_def)
  have e: "nva' = nva\<lparr>va_data := (va_data nva)[k := (va_data nva ! k)\<lparr>var_value := value\<rparr>]\<rparr>"
    using r(1) k(2) kc(2) by (auto simp: ni_var_array_set_def arr_get_in arr_set_in)
  have "va_items nva' = (va_items nva)[k := (va_items nva ! k)\<lparr>var_value := value\<rparr>]"
    using kc by (simp add: e va_items_def take_update_swap)
  then have a: "attrs_of nva' = (attrs_of nva)[k := (name, value)]"
    using k(3) by (simp add: attrs_of_def map_update)
  have "attrs_set (attrs_of nva) name value = (attrs_of nva)[k := (name, value)]"
    using k attrs_of_names(2) [OF wf] by (intro attrs_set_old) (simp_all add: attrs_of_def)
  then show ?thesis using r a by auto
qed

end
