(* ===== verification/Buffer.thy ===== *)
theory Buffer
  imports Prelude
begin

text \<open>
  The byte buffers of include/dborb/buffer.h and dborb/buffer.c.  A buffer is a memory block \<open>base\<close>
  with a read position \<open>head\<close>, a write position \<open>tail\<close> and the size the code believes the block has;
  the three are \<open>size_t\<close>, kept at 64 bits so that the unsigned wrap-around of the guards is the
  machine's.  \<open>buf_wf\<close> is the invariant every operation keeps, \<open>buf_bytes\<close> the abstraction to the
  pending bytes.  Buffer chains (the captured output of a process) follow.
\<close>

section \<open>State\<close>

record ni_buffer =
  buf_base :: "byte list"
  buf_head :: u64
  buf_tail :: u64
  buf_size :: u64
  buf_overflow :: bool
  buf_underflow :: bool
  buf_allocated :: bool

definition EOF :: int where "EOF = -1"

section \<open>Initialisation\<close>

definition ni_buffer_init :: "byte list \<Rightarrow> u64 \<Rightarrow> ni_buffer" where
  "ni_buffer_init base sz =
     \<lparr>buf_base = base, buf_head = 0, buf_tail = 0, buf_size = sz,
      buf_overflow = False, buf_underflow = False, buf_allocated = False\<rparr>"

definition ni_buffer_init_dynamic :: "u64 \<Rightarrow> ni_buffer" where
  "ni_buffer_init_dynamic sz =
     (ni_buffer_init (replicate (unat sz) 0) sz)\<lparr>buf_allocated := True\<rparr>"

definition ni_buffer_new_dynamic :: "u64 \<Rightarrow> ni_buffer" where
  "ni_buffer_new_dynamic sz = ni_buffer_init_dynamic sz"

definition ni_buffer_new :: "u64 \<Rightarrow> ni_buffer" where
  "ni_buffer_new sz = ni_buffer_init (replicate (unat sz) 0) sz"

definition ni_buffer_init_reader :: "byte list \<Rightarrow> u64 \<Rightarrow> ni_buffer" where
  "ni_buffer_init_reader base sz =
     (ni_buffer_init base sz)\<lparr>buf_tail := sz\<rparr>"

definition ni_buffer_clear :: "ni_buffer \<Rightarrow> ni_buffer" where
  "ni_buffer_clear bp = bp\<lparr>buf_head := 0, buf_tail := 0\<rparr>"

section \<open>Operations\<close>

text \<open>\<open>data\<close> may be NULL: the room is then claimed without writing it.\<close>

definition ni_buffer_put :: "ni_buffer \<Rightarrow> byte list option \<Rightarrow> u64 \<Rightarrow> (int \<times> ni_buffer) option" where
  "ni_buffer_put bp data len =
     (if buf_size bp < buf_tail bp + len then Some (-1, bp\<lparr>buf_overflow := True\<rparr>)
      else do {
        base' \<leftarrow> (case data of
             None \<Rightarrow> Some (buf_base bp)
           | Some d \<Rightarrow> do { bs \<leftarrow> mem_read d 0 (unat len);
                           mem_write (buf_base bp) (unat (buf_tail bp)) bs });
        Some (0, bp\<lparr>buf_base := base', buf_tail := buf_tail bp + len\<rparr>)
      })"

definition ni_buffer_putc :: "ni_buffer \<Rightarrow> byte \<Rightarrow> ni_buffer option" where
  "ni_buffer_putc bp cc = do { (rv, bp') \<leftarrow> ni_buffer_put bp (Some [cc]) 1; Some bp' }"

definition ni_buffer_pad :: "ni_buffer \<Rightarrow> u64 \<Rightarrow> byte \<Rightarrow> ni_buffer option" where
  "ni_buffer_pad bp min_size padbyte =
     (if min_size \<le> buf_tail bp then Some bp
      else do {
        base' \<leftarrow> mem_write (buf_base bp) (unat (buf_tail bp))
                  (replicate (unat (min_size - buf_tail bp)) padbyte);
        Some (bp\<lparr>buf_base := base', buf_tail := min_size\<rparr>)
      })"

text \<open>\<open>ni_buffer_head\<close> and \<open>ni_buffer_tail\<close> return pointers into the block: offsets here.\<close>

definition ni_buffer_head :: "ni_buffer \<Rightarrow> nat" where
  "ni_buffer_head bp = unat (buf_head bp)"

definition ni_buffer_tail :: "ni_buffer \<Rightarrow> nat" where
  "ni_buffer_tail bp = unat (buf_tail bp)"

text \<open>The counts are computed in \<open>size_t\<close> and returned as \<open>unsigned int\<close>.\<close>

definition ni_buffer_count :: "ni_buffer \<Rightarrow> u32" where
  "ni_buffer_count bp =
     (if buf_head bp < buf_tail bp then ucast (buf_tail bp - buf_head bp) else 0)"

definition ni_buffer_tailroom :: "ni_buffer \<Rightarrow> u32" where
  "ni_buffer_tailroom bp =
     (if buf_tail bp < buf_size bp then ucast (buf_size bp - buf_tail bp) else 0)"

definition ni_buffer_get :: "ni_buffer \<Rightarrow> u64 \<Rightarrow> (int \<times> byte list \<times> ni_buffer) option" where
  "ni_buffer_get bp len =
     (if buf_tail bp < buf_head bp + len then Some (-1, [], bp\<lparr>buf_underflow := True\<rparr>)
      else do {
        bs \<leftarrow> mem_read (buf_base bp) (unat (buf_head bp)) (unat len);
        Some (0, bs, bp\<lparr>buf_head := buf_head bp + len\<rparr>)
      })"

definition ni_buffer_getc :: "ni_buffer \<Rightarrow> (int \<times> ni_buffer) option" where
  "ni_buffer_getc bp =
     (if buf_tail bp \<le> buf_head bp then Some (EOF, bp)
      else do {
        b \<leftarrow> arr_get (buf_base bp) (unat (buf_head bp));
        Some (uint b, bp\<lparr>buf_head := buf_head bp + 1\<rparr>)
      })"

text \<open>\<open>bp->base[bp->head - 1] != cc\<close> compares an \<open>unsigned char\<close> with a (signed) \<open>char\<close>, both
  promoted to \<open>int\<close>.\<close>

definition ni_buffer_ungetc :: "ni_buffer \<Rightarrow> byte \<Rightarrow> (int \<times> ni_buffer) option" where
  "ni_buffer_ungetc bp cc =
     (if buf_head bp = 0 then Some (-1, bp)
      else do {
        b \<leftarrow> arr_get (buf_base bp) (unat (buf_head bp - 1));
        Some (if uint b \<noteq> sint cc then (-1, bp) else (0, bp\<lparr>buf_head := buf_head bp - 1\<rparr>))
      })"

definition ni_buffer_reserve_head :: "ni_buffer \<Rightarrow> u64 \<Rightarrow> int \<times> ni_buffer" where
  "ni_buffer_reserve_head bp headroom =
     (if buf_head bp \<noteq> buf_tail bp then (-1, bp)
      else (0, bp\<lparr>buf_tail := buf_tail bp + headroom, buf_head := buf_tail bp + headroom\<rparr>))"

text \<open>The three pointer-returning operations give the offset of the room, or NULL.\<close>

definition ni_buffer_push_head :: "ni_buffer \<Rightarrow> u64 \<Rightarrow> nat option \<times> ni_buffer" where
  "ni_buffer_push_head bp n =
     (if buf_head bp < n then (None, bp\<lparr>buf_overflow := True\<rparr>)
      else (Some (unat (buf_head bp - n)), bp\<lparr>buf_head := buf_head bp - n\<rparr>))"

definition ni_buffer_push_tail :: "ni_buffer \<Rightarrow> u64 \<Rightarrow> nat option \<times> ni_buffer" where
  "ni_buffer_push_tail bp n =
     (if buf_size bp - buf_tail bp < n then (None, bp\<lparr>buf_overflow := True\<rparr>)
      else (Some (unat (buf_tail bp)), bp\<lparr>buf_tail := buf_tail bp + n\<rparr>))"

definition ni_buffer_pull_head :: "ni_buffer \<Rightarrow> u64 \<Rightarrow> nat option \<times> ni_buffer" where
  "ni_buffer_pull_head bp n =
     (if buf_tail bp - buf_head bp < n then (None, bp\<lparr>buf_underflow := True\<rparr>)
      else (Some (unat (buf_head bp)), bp\<lparr>buf_head := buf_head bp + n\<rparr>))"

text \<open>
  Growing reallocates the block.  The bytes past the old block are whatever the allocator returns:
  the argument \<open>fresh\<close> gives the byte at each new offset.
\<close>

definition ni_buffer_ensure_tailroom :: "(nat \<Rightarrow> byte) \<Rightarrow> ni_buffer \<Rightarrow> u32 \<Rightarrow> (bool \<times> ni_buffer) option" where
  "ni_buffer_ensure_tailroom fresh bp min_room =
     (if min_room \<le> ni_buffer_tailroom bp then Some (True, bp)
      else let new_size = buf_size bp + ucast min_room in
        do {
          old \<leftarrow> mem_read (buf_base bp) 0 (min (unat (buf_size bp)) (unat new_size));
          ni_assert (unat (buf_size bp) \<le> unat new_size);
          Some (True, bp\<lparr>buf_base := old @ map fresh [unat (buf_size bp) ..< unat new_size],
                        buf_allocated := True, buf_size := new_size\<rparr>)
        })"

section \<open>Invariant and abstraction\<close>

definition buf_wf :: "ni_buffer \<Rightarrow> bool" where
  "buf_wf bp \<longleftrightarrow> length (buf_base bp) = unat (buf_size bp)
     \<and> buf_head bp \<le> buf_tail bp \<and> buf_tail bp \<le> buf_size bp"

definition buf_bytes :: "ni_buffer \<Rightarrow> byte list" where
  "buf_bytes bp = drop (unat (buf_head bp)) (take (unat (buf_tail bp)) (buf_base bp))"

lemma buf_wfD:
  assumes "buf_wf bp"
  shows "length (buf_base bp) = unat (buf_size bp)"
    and "unat (buf_head bp) \<le> unat (buf_tail bp)"
    and "unat (buf_tail bp) \<le> unat (buf_size bp)"
  using assms by (auto simp: buf_wf_def word_le_nat_alt)

lemma buf_wfI [intro?]:
  "length (buf_base bp) = unat (buf_size bp) \<Longrightarrow> unat (buf_head bp) \<le> unat (buf_tail bp) \<Longrightarrow>
   unat (buf_tail bp) \<le> unat (buf_size bp) \<Longrightarrow> buf_wf bp"
  by (auto simp: buf_wf_def word_le_nat_alt)

lemma unat_u64_less: "unat (x :: u64) < 2 ^ 64"
  using unsigned_less [of x] by simp

lemma unat_add_no_wrap: "unat (a :: u64) + unat b < 2 ^ 64 \<Longrightarrow> unat (a + b) = unat a + unat b"
  by (simp add: unat_word_ariths)

lemma unat_add_le: "unat (a :: u64) + unat b \<le> unat (c :: u64) \<Longrightarrow> unat (a + b) = unat a + unat b"
  using unat_u64_less [of c] by (intro unat_add_no_wrap) linarith

lemma unat_add_one_less: "unat (a :: u64) < unat (b :: u64) \<Longrightarrow> unat (a + 1) = Suc (unat a)"
  using unat_add_le [of a 1 b] by simp

lemma length_buf_bytes: "buf_wf bp \<Longrightarrow> length (buf_bytes bp) = unat (buf_tail bp) - unat (buf_head bp)"
  using buf_wfD [of bp] by (simp add: buf_bytes_def)

section \<open>Effect of the operations\<close>

lemma buf_bytes_append:
  assumes "buf_wf bp" and "unat (buf_tail bp) + length bs \<le> length (buf_base bp)"
  shows "drop (unat (buf_head bp)) (take (unat (buf_tail bp) + length bs)
             (take (unat (buf_tail bp)) (buf_base bp) @ bs @ drop (unat (buf_tail bp) + length bs) (buf_base bp)))
         = buf_bytes bp @ bs"
  using assms(2) buf_wfD[OF assms(1)] by (simp add: buf_bytes_def)

lemma ni_buffer_put_ok:
  assumes wf: "buf_wf bp" and len: "unat len \<le> length d"
    and room: "unat (buf_tail bp) + unat len \<le> unat (buf_size bp)"
  shows "\<exists>bp'. ni_buffer_put bp (Some d) len = Some (0, bp') \<and> buf_wf bp'
           \<and> buf_bytes bp' = buf_bytes bp @ take (unat len) d
           \<and> buf_tail bp' = buf_tail bp + len \<and> buf_head bp' = buf_head bp
           \<and> buf_size bp' = buf_size bp \<and> buf_overflow bp' = buf_overflow bp
           \<and> buf_underflow bp' = buf_underflow bp"
proof -
  note D = buf_wfD[OF wf]
  let ?bs = "take (unat len) d"
  let ?base = "take (unat (buf_tail bp)) (buf_base bp) @ ?bs @ drop (unat (buf_tail bp) + unat len) (buf_base bp)"
  let ?bp = "bp\<lparr>buf_base := ?base, buf_tail := buf_tail bp + len\<rparr>"
  have lbs: "length ?bs = unat len" using len by simp
  have nw: "unat (buf_tail bp + len) = unat (buf_tail bp) + unat len"
    by (rule unat_add_le[OF room])
  have ng: "\<not> buf_size bp < buf_tail bp + len"
    using nw room by (simp add: word_less_nat_alt)
  have "ni_buffer_put bp (Some d) len = Some (0, ?bp)"
    using ng len lbs room D by (simp add: ni_buffer_put_def mem_read_in mem_write_in)
  moreover have "buf_wf ?bp"
    using D nw lbs room by (intro buf_wfI) auto
  moreover have "buf_bytes ?bp = buf_bytes bp @ ?bs"
    using buf_bytes_append[OF wf, of ?bs] lbs room D nw by (simp add: buf_bytes_def)
  ultimately show ?thesis by (intro exI[of _ ?bp]) simp
qed

lemma ni_buffer_put_overflow:
  assumes "unat (buf_tail bp) + unat len < 2 ^ 64"
    and "unat (buf_size bp) < unat (buf_tail bp) + unat len"
  shows "ni_buffer_put bp data len = Some (-1, bp\<lparr>buf_overflow := True\<rparr>)"
  using assms unat_add_no_wrap[OF assms(1)] by (simp add: ni_buffer_put_def word_less_nat_alt)

lemma ni_buffer_get_ok:
  assumes wf: "buf_wf bp" and len: "unat len \<le> length (buf_bytes bp)"
  shows "ni_buffer_get bp len = Some (0, take (unat len) (buf_bytes bp), bp\<lparr>buf_head := buf_head bp + len\<rparr>)
           \<and> buf_wf (bp\<lparr>buf_head := buf_head bp + len\<rparr>)
           \<and> buf_bytes (bp\<lparr>buf_head := buf_head bp + len\<rparr>) = drop (unat len) (buf_bytes bp)"
proof -
  note D = buf_wfD[OF wf]
  have lb: "unat (buf_head bp) + unat len \<le> unat (buf_tail bp)"
    using len length_buf_bytes[OF wf] D by simp
  have nw: "unat (buf_head bp + len) = unat (buf_head bp) + unat len"
    by (rule unat_add_le[OF lb])
  have ng: "\<not> buf_tail bp < buf_head bp + len"
    using nw lb by (simp add: word_less_nat_alt)
  have "take (unat len) (drop (unat (buf_head bp)) (buf_base bp)) = take (unat len) (buf_bytes bp)"
    using lb by (simp add: buf_bytes_def take_drop min_def)
  then have "ni_buffer_get bp len = Some (0, take (unat len) (buf_bytes bp), bp\<lparr>buf_head := buf_head bp + len\<rparr>)"
    using ng lb D by (simp add: ni_buffer_get_def mem_read_in)
  moreover have "buf_wf (bp\<lparr>buf_head := buf_head bp + len\<rparr>)"
    using D nw lb by (intro buf_wfI) auto
  ultimately show ?thesis
    using nw by (simp add: buf_bytes_def add.commute)
qed

lemma ni_buffer_get_short:
  assumes wf: "buf_wf bp" and len: "length (buf_bytes bp) < unat len"
    and nw: "unat (buf_head bp) + unat len < 2 ^ 64"
  shows "ni_buffer_get bp len = Some (-1, [], bp\<lparr>buf_underflow := True\<rparr>)"
  using buf_wfD(2)[OF wf] len unat_add_no_wrap[OF nw] length_buf_bytes[OF wf]
  by (simp add: ni_buffer_get_def word_less_nat_alt)

lemma ni_buffer_getc_ok:
  assumes wf: "buf_wf bp" and ne: "buf_bytes bp = b # rest"
  shows "ni_buffer_getc bp = Some (uint b, bp\<lparr>buf_head := buf_head bp + 1\<rparr>)
           \<and> buf_wf (bp\<lparr>buf_head := buf_head bp + 1\<rparr>)
           \<and> buf_bytes (bp\<lparr>buf_head := buf_head bp + 1\<rparr>) = rest"
proof -
  note D = buf_wfD[OF wf]
  have lt: "unat (buf_head bp) < unat (buf_tail bp)"
    using ne length_buf_bytes[OF wf] by simp
  have lt': "\<not> buf_tail bp \<le> buf_head bp" using lt by (simp add: word_le_nat_alt)
  have one: "unat (1 :: u64) \<le> length (buf_bytes bp)" using ne by simp
  have "buf_base bp ! unat (buf_head bp) = hd (buf_bytes bp)"
    using lt D by (simp add: buf_bytes_def hd_drop_conv_nth)
  then show ?thesis
    using ni_buffer_get_ok[OF wf one] lt lt' D ne by (simp add: ni_buffer_getc_def arr_get_in)
qed

lemma ni_buffer_getc_eof: "buf_wf bp \<Longrightarrow> buf_bytes bp = [] \<Longrightarrow> ni_buffer_getc bp = Some (EOF, bp)"
  using length_buf_bytes[of bp] by (simp add: ni_buffer_getc_def word_le_nat_alt)

lemma ni_buffer_count_wf:
  "buf_wf bp \<Longrightarrow> unat (ni_buffer_count bp) = length (buf_bytes bp) mod 2 ^ 32"
  using length_buf_bytes[of bp] buf_wfD[of bp]
  by (auto simp: ni_buffer_count_def word_less_nat_alt unsigned_ucast_eq unat_sub word_le_nat_alt take_bit_eq_mod)

lemma ni_buffer_tailroom_wf:
  "buf_wf bp \<Longrightarrow> unat (ni_buffer_tailroom bp) = (unat (buf_size bp) - unat (buf_tail bp)) mod 2 ^ 32"
  using buf_wfD [of bp]
  by (auto simp: ni_buffer_tailroom_def word_less_nat_alt unsigned_ucast_eq unat_sub word_le_nat_alt take_bit_eq_mod)

lemma ni_buffer_init_wf [wf_intros]: "length base = unat sz \<Longrightarrow> buf_wf (ni_buffer_init base sz)"
  by (simp add: buf_wf_def ni_buffer_init_def)

lemma ni_buffer_new_wf [wf_intros]: "buf_wf (ni_buffer_new sz)"
  by (simp add: buf_wf_def ni_buffer_new_def ni_buffer_init_def)

lemma ni_buffer_new_bytes [abs_simps]: "buf_bytes (ni_buffer_new sz) = []"
  by (simp add: buf_bytes_def ni_buffer_new_def ni_buffer_init_def)

lemma ni_buffer_init_reader_wf [wf_intros]:
  "length base = unat sz \<Longrightarrow> buf_wf (ni_buffer_init_reader base sz) \<and> buf_bytes (ni_buffer_init_reader base sz) = base"
  by (simp add: buf_wf_def buf_bytes_def ni_buffer_init_reader_def ni_buffer_init_def)

lemma ni_buffer_clear_wf [wf_intros]: "buf_wf bp \<Longrightarrow> buf_wf (ni_buffer_clear bp) \<and> buf_bytes (ni_buffer_clear bp) = []"
  by (simp add: buf_wf_def buf_bytes_def ni_buffer_clear_def)

text \<open>Pushing the tail claims room that the caller fills through the returned pointer; pulling the
  head gives bytes up, pushing it back gives room (or the same bytes) back.\<close>

lemma ni_buffer_push_tail_ok:
  assumes wf: "buf_wf bp" and room: "unat (buf_tail bp) + unat n \<le> unat (buf_size bp)"
  shows "ni_buffer_push_tail bp n = (Some (unat (buf_tail bp)), bp\<lparr>buf_tail := buf_tail bp + n\<rparr>)
           \<and> buf_wf (bp\<lparr>buf_tail := buf_tail bp + n\<rparr>)
           \<and> buf_bytes (bp\<lparr>buf_tail := buf_tail bp + n\<rparr>)
              = buf_bytes bp @ take (unat n) (drop (unat (buf_tail bp)) (buf_base bp))"
proof -
  note D = buf_wfD [OF wf]
  have nw: "unat (buf_tail bp + n) = unat (buf_tail bp) + unat n" by (rule unat_add_le [OF room])
  have "unat (buf_size bp - buf_tail bp) = unat (buf_size bp) - unat (buf_tail bp)"
    using D by (simp add: unat_sub word_le_nat_alt)
  then have "\<not> buf_size bp - buf_tail bp < n" using room by (simp add: word_less_nat_alt)
  moreover have "buf_wf (bp\<lparr>buf_tail := buf_tail bp + n\<rparr>)"
    using D nw room by (intro buf_wfI) auto
  ultimately show ?thesis
    using D nw by (simp add: ni_buffer_push_tail_def buf_bytes_def take_add)
qed

lemma ni_buffer_push_tail_full:
  assumes wf: "buf_wf bp" and full: "unat (buf_size bp) < unat (buf_tail bp) + unat n"
  shows "ni_buffer_push_tail bp n = (None, bp\<lparr>buf_overflow := True\<rparr>)"
proof -
  have "unat (buf_size bp - buf_tail bp) = unat (buf_size bp) - unat (buf_tail bp)"
    using buf_wfD [OF wf] by (simp add: unat_sub word_le_nat_alt)
  then show ?thesis
    using full buf_wfD [OF wf] by (simp add: ni_buffer_push_tail_def word_less_nat_alt)
qed

lemma ni_buffer_pull_head_ok:
  assumes wf: "buf_wf bp" and n: "unat n \<le> length (buf_bytes bp)"
  shows "ni_buffer_pull_head bp n = (Some (unat (buf_head bp)), bp\<lparr>buf_head := buf_head bp + n\<rparr>)
           \<and> buf_wf (bp\<lparr>buf_head := buf_head bp + n\<rparr>)
           \<and> buf_bytes (bp\<lparr>buf_head := buf_head bp + n\<rparr>) = drop (unat n) (buf_bytes bp)"
proof -
  note D = buf_wfD [OF wf]
  have "unat (buf_tail bp - buf_head bp) = unat (buf_tail bp) - unat (buf_head bp)"
    using D by (simp add: unat_sub word_le_nat_alt)
  then have "\<not> buf_tail bp - buf_head bp < n"
    using n length_buf_bytes [OF wf] by (simp add: word_less_nat_alt)
  then show ?thesis
    using ni_buffer_get_ok [OF wf n] by (simp add: ni_buffer_pull_head_def)
qed

lemma ni_buffer_pull_head_short:
  assumes wf: "buf_wf bp" and n: "length (buf_bytes bp) < unat n"
  shows "ni_buffer_pull_head bp n = (None, bp\<lparr>buf_underflow := True\<rparr>)"
proof -
  have "unat (buf_tail bp - buf_head bp) = unat (buf_tail bp) - unat (buf_head bp)"
    using buf_wfD [OF wf] by (simp add: unat_sub word_le_nat_alt)
  then show ?thesis
    using n length_buf_bytes [OF wf] by (simp add: ni_buffer_pull_head_def word_less_nat_alt)
qed

lemma ni_buffer_push_head_ok:
  assumes wf: "buf_wf bp" and n: "unat n \<le> unat (buf_head bp)"
  shows "ni_buffer_push_head bp n = (Some (unat (buf_head bp) - unat n), bp\<lparr>buf_head := buf_head bp - n\<rparr>)
           \<and> buf_wf (bp\<lparr>buf_head := buf_head bp - n\<rparr>)
           \<and> buf_bytes (bp\<lparr>buf_head := buf_head bp - n\<rparr>)
              = take (unat n) (drop (unat (buf_head bp) - unat n) (buf_base bp)) @ buf_bytes bp"
proof -
  note D = buf_wfD [OF wf]
  have sub: "unat (buf_head bp - n) = unat (buf_head bp) - unat n"
    using n by (simp add: unat_sub word_le_nat_alt)
  have "drop (unat (buf_head bp) - unat n) (take (unat (buf_tail bp)) (buf_base bp))
          = take (unat n) (drop (unat (buf_head bp) - unat n) (buf_base bp))
            @ drop (unat (buf_head bp)) (take (unat (buf_tail bp)) (buf_base bp))"
    using D n append_take_drop_id [of "unat n" "drop (unat (buf_head bp) - unat n) (take (unat (buf_tail bp)) (buf_base bp))"]
    by (simp add: take_drop min_def)
  moreover have "buf_wf (bp\<lparr>buf_head := buf_head bp - n\<rparr>)"
    using D sub by (intro buf_wfI) auto
  ultimately show ?thesis
    using sub n by (simp add: ni_buffer_push_head_def buf_bytes_def word_less_nat_alt)
qed

lemma ni_buffer_reserve_head_ok:
  assumes wf: "buf_wf bp" and e: "buf_bytes bp = []"
    and room: "unat (buf_tail bp) + unat n \<le> unat (buf_size bp)"
  shows "fst (ni_buffer_reserve_head bp n) = 0 \<and> buf_wf (snd (ni_buffer_reserve_head bp n))
          \<and> buf_bytes (snd (ni_buffer_reserve_head bp n)) = []
          \<and> unat (buf_head (snd (ni_buffer_reserve_head bp n))) = unat (buf_tail bp) + unat n"
proof -
  note D = buf_wfD [OF wf]
  have "buf_head bp = buf_tail bp"
    using e length_buf_bytes [OF wf] D by (simp add: word_unat_eq_iff)
  moreover have "unat (buf_tail bp + n) = unat (buf_tail bp) + unat n" by (rule unat_add_le [OF room])
  ultimately show ?thesis
    using D room by (auto simp: ni_buffer_reserve_head_def buf_bytes_def intro!: buf_wfI)
qed

lemma ni_buffer_pad_ok:
  assumes wf: "buf_wf bp" and m: "min_size \<le> buf_size bp"
  shows "\<exists>bp'. ni_buffer_pad bp min_size c = Some bp' \<and> buf_wf bp'
           \<and> buf_bytes bp' = buf_bytes bp @ replicate (unat min_size - unat (buf_tail bp)) c"
proof (cases "min_size \<le> buf_tail bp")
  case True
  then show ?thesis using wf by (simp add: ni_buffer_pad_def word_le_nat_alt)
next
  case False
  note D = buf_wfD [OF wf]
  have sub: "unat (min_size - buf_tail bp) = unat min_size - unat (buf_tail bp)"
    using False by (simp add: unat_sub word_le_nat_alt)
  let ?r = "replicate (unat min_size - unat (buf_tail bp)) c"
  have le: "unat (buf_tail bp) + length ?r = unat min_size" using False by (simp add: word_le_nat_alt)
  have le': "unat min_size \<le> length (buf_base bp)" using m D by (simp add: word_le_nat_alt)
  let ?bp = "bp\<lparr>buf_base := take (unat (buf_tail bp)) (buf_base bp) @ ?r @ drop (unat min_size) (buf_base bp), buf_tail := min_size\<rparr>"
  have "mem_write (buf_base bp) (unat (buf_tail bp)) ?r
          = Some (take (unat (buf_tail bp)) (buf_base bp) @ ?r @ drop (unat min_size) (buf_base bp))"
    using le le' by (simp only: mem_write_in)
  then have "ni_buffer_pad bp min_size c = Some ?bp"
    using False by (simp add: ni_buffer_pad_def sub)
  moreover have "buf_wf ?bp" using D le le' m by (intro buf_wfI) (auto simp: word_le_nat_alt)
  moreover have "buf_bytes ?bp = buf_bytes bp @ ?r"
    using D le le' by (simp add: buf_bytes_def)
  ultimately show ?thesis by blast
qed

lemma unat_u32_u64: "unat (ucast (x :: u32) :: u64) = unat x"
  by (simp add: unsigned_ucast_eq take_bit_eq_mod) (rule mod_less, rule less_trans[OF unsigned_less], simp)

lemma ni_buffer_ensure_tailroom_ok:
  assumes wf: "buf_wf bp" and nw: "unat (buf_size bp) + unat m < 2 ^ 64"
  shows "\<exists>bp'. ni_buffer_ensure_tailroom fresh bp m = Some (True, bp') \<and> buf_wf bp'
           \<and> buf_bytes bp' = buf_bytes bp \<and> buf_head bp' = buf_head bp \<and> buf_tail bp' = buf_tail bp
           \<and> unat (buf_tail bp) + unat m \<le> unat (buf_size bp')"
proof (cases "m \<le> ni_buffer_tailroom bp")
  case True
  note D = buf_wfD [OF wf]
  have "unat m \<le> (unat (buf_size bp) - unat (buf_tail bp)) mod 2 ^ 32"
    using True ni_buffer_tailroom_wf [OF wf] by (simp add: word_le_nat_alt)
  also have "\<dots> \<le> unat (buf_size bp) - unat (buf_tail bp)" by (rule mod_less_eq_dividend)
  finally have "unat (buf_tail bp) + unat m \<le> unat (buf_size bp)" using D by linarith
  then show ?thesis using True wf by (simp add: ni_buffer_ensure_tailroom_def)
next
  case False
  note D = buf_wfD [OF wf]
  have ns: "unat (buf_size bp + ucast m) = unat (buf_size bp) + unat m"
    using nw unat_u32_u64 [of m] unat_add_no_wrap [of "buf_size bp" "ucast m"] by simp
  let ?bp = "bp\<lparr>buf_base := buf_base bp @ map fresh [unat (buf_size bp) ..< unat (buf_size bp) + unat m],
                buf_allocated := True, buf_size := buf_size bp + ucast m\<rparr>"
  have "ni_buffer_ensure_tailroom fresh bp m = Some (True, ?bp)"
    using False D ns by (simp add: ni_buffer_ensure_tailroom_def mem_read_in)
  moreover have "buf_wf ?bp" using D ns by (intro buf_wfI) auto
  moreover have "buf_bytes ?bp = buf_bytes bp" using D by (simp add: buf_bytes_def)
  ultimately show ?thesis using ns D by (intro exI [of _ ?bp]) simp
qed

lemma uint_eq_sint_byte: "uint (b :: byte) = sint b \<longleftrightarrow> unat b < 128"
proof -
  have sb: "sint b = (uint b + 128) mod 256 - 128"
    by (simp add: sint_uint signed_take_bit_eq_take_bit_shift take_bit_eq_mod)
  have r: "0 \<le> uint b" "uint b < 256" using uint_range_size [of b] by (simp_all add: word_size)
  have u: "unat b < 128 \<longleftrightarrow> uint b < 128" by (simp only: unat_eq_nat_uint) (use r in linarith)
  show ?thesis
  proof (cases "uint b < 128")
    case True
    then have "(uint b + 128) mod 256 = uint b + 128" using r by (intro mod_pos_pos_trivial) linarith+
    then have "sint b = uint b" using sb by linarith
    then show ?thesis using True u by metis
  next
    case False
    have "(uint b + 128) mod 256 = uint b + 128 - 256"
      proof -
      have "(uint b + 128 - 256) mod 256 = uint b + 128 - 256"
        using False r by (intro mod_pos_pos_trivial) linarith+
      then show ?thesis using minus_mod_self2 [of "uint b + 128" 256] by metis
    qed
    then have "sint b \<noteq> uint b" using sb by linarith
    then show ?thesis using False u by metis
  qed
qed

lemma ni_buffer_ungetc_getc:
  assumes wf: "buf_wf bp" and ne: "buf_bytes bp = b # rest"
  shows "ni_buffer_getc bp = Some (uint b, bp\<lparr>buf_head := buf_head bp + 1\<rparr>)
     \<and> ni_buffer_ungetc (bp\<lparr>buf_head := buf_head bp + 1\<rparr>) b
        = Some (if unat b < 128 then (0, bp) else (-1, bp\<lparr>buf_head := buf_head bp + 1\<rparr>))"
proof -
  note D = buf_wfD [OF wf]
  have lt: "unat (buf_head bp) < unat (buf_tail bp)"
    using ne length_buf_bytes [OF wf] by simp
  have nz: "buf_head bp + 1 \<noteq> 0"
    using unat_add_one_less [OF lt] by (metis nat.distinct(1) unsigned_0)
  have hd: "buf_base bp ! unat (buf_head bp) = b"
    using arg_cong [OF ne, of hd] lt D by (simp add: buf_bytes_def hd_drop_conv_nth)
  note s = uint_eq_sint_byte [of b]
  show ?thesis
    using ni_buffer_getc_ok [OF wf ne] nz hd lt D s
    by (simp add: ni_buffer_ungetc_def arr_get_in)
qed

section \<open>Buffer chains\<close>

text \<open>
  \<open>ni_buffer_chain_t\<close> is a singly linked list with one buffer per link, the list of its buffers here.
  Appending walks to the NULL link at the end.
\<close>

fun ni_buffer_chain_append :: "ni_buffer list \<Rightarrow> ni_buffer \<Rightarrow> ni_buffer list" where
  "ni_buffer_chain_append [] data = [data]"
| "ni_buffer_chain_append (duckling # rest) data = duckling # ni_buffer_chain_append rest data"

fun ni_buffer_chain_count :: "ni_buffer list \<Rightarrow> u32" where
  "ni_buffer_chain_count [] = 0"
| "ni_buffer_chain_count (duckling # rest) = ni_buffer_count duckling + ni_buffer_chain_count rest"

definition ni_buffer_chain_get_next :: "ni_buffer list \<Rightarrow> ni_buffer option \<times> ni_buffer list" where
  "ni_buffer_chain_get_next chain =
     (case chain of [] \<Rightarrow> (None, []) | duckling # rest \<Rightarrow> (Some duckling, rest))"

text \<open>\<open>while ((data = get_next(head)) != NULL) free(data)\<close>: the freed buffers and the chain left.\<close>

function ni_buffer_chain_discard :: "ni_buffer list \<Rightarrow> ni_buffer list \<times> ni_buffer list" where
  "ni_buffer_chain_discard chain =
     (case ni_buffer_chain_get_next chain of
        (None, chain') \<Rightarrow> ([], chain')
      | (Some data, chain') \<Rightarrow> (let (freed, rest) = ni_buffer_chain_discard chain' in (data # freed, rest)))"
  by pat_completeness auto
termination
  by (relation "measure length") (auto simp: ni_buffer_chain_get_next_def split: list.splits)

declare ni_buffer_chain_discard.simps [simp del]

lemma ni_buffer_chain_append_eq [abs_simps]: "ni_buffer_chain_append chain data = chain @ [data]"
  by (induction chain) auto

interpretation chain: fifo_queue ni_buffer_chain_append ni_buffer_chain_get_next "\<lambda>c. c" "\<lambda>_. True"
  by unfold_locales (auto simp: abs_simps ni_buffer_chain_get_next_def)

lemma ni_buffer_chain_discard_all: "ni_buffer_chain_discard chain = (chain, [])"
  by (induction chain)
     (simp_all add: ni_buffer_chain_discard.simps [of "[]"] ni_buffer_chain_discard.simps [of "_ # _"]
        ni_buffer_chain_get_next_def)

lemma ni_buffer_chain_count_append:
  "ni_buffer_chain_count (xs @ ys) = ni_buffer_chain_count xs + ni_buffer_chain_count ys"
  by (induction xs) auto

section \<open>The buffer as a byte stream\<close>

text \<open>
  What the readers and writers of a buffer rely on, as an interface: \<open>put\<close> appends when there is
  room, \<open>get\<close> hands out the oldest bytes, both keep the invariant.
\<close>

locale byte_stream =
  fixes put :: "'b \<Rightarrow> byte list \<Rightarrow> 'b option"
    and get :: "'b \<Rightarrow> nat \<Rightarrow> (byte list \<times> 'b) option"
    and bytes :: "'b \<Rightarrow> byte list"
    and room :: "'b \<Rightarrow> nat"
    and inv :: "'b \<Rightarrow> bool"
  assumes put_ok: "inv b \<Longrightarrow> length d \<le> room b \<Longrightarrow>
      \<exists>b'. put b d = Some b' \<and> inv b' \<and> bytes b' = bytes b @ d \<and> room b' = room b - length d"
    and get_ok: "inv b \<Longrightarrow> n \<le> length (bytes b) \<Longrightarrow>
      \<exists>b'. get b n = Some (take n (bytes b), b') \<and> inv b' \<and> bytes b' = drop n (bytes b) \<and> room b' = room b"

primrec put_all :: "('b \<Rightarrow> byte list \<Rightarrow> 'b option) \<Rightarrow> 'b \<Rightarrow> byte list list \<Rightarrow> 'b option" where
  "put_all pt b [] = Some b"
| "put_all pt b (d # ds) = do { b' \<leftarrow> pt b d; put_all pt b' ds }"

primrec get_all :: "('b \<Rightarrow> nat \<Rightarrow> (byte list \<times> 'b) option) \<Rightarrow> 'b \<Rightarrow> nat list \<Rightarrow> (byte list list \<times> 'b) option" where
  "get_all gt b [] = Some ([], b)"
| "get_all gt b (n # ns) = do { (d, b') \<leftarrow> gt b n; (ds, b'') \<leftarrow> get_all gt b' ns; Some (d # ds, b'') }"

context byte_stream
begin

lemma put_all_ok:
  "inv b \<Longrightarrow> length (concat ds) \<le> room b \<Longrightarrow>
     \<exists>b'. put_all put b ds = Some b' \<and> inv b' \<and> bytes b' = bytes b @ concat ds"
proof (induction ds arbitrary: b)
  case Nil
  then show ?case by simp
next
  case (Cons d ds)
  then obtain b1 where "put b d = Some b1" "inv b1" "bytes b1 = bytes b @ d" "room b1 = room b - length d"
    using put_ok [of b d] by auto
  with Cons.IH [of b1] Cons.prems show ?case by auto
qed

lemma get_all_ok:
  "inv b \<Longrightarrow> sum_list ns \<le> length (bytes b) \<Longrightarrow>
     \<exists>ds b'. get_all get b ns = Some (ds, b') \<and> map length ds = ns \<and> concat ds = take (sum_list ns) (bytes b)
        \<and> inv b' \<and> bytes b' = drop (sum_list ns) (bytes b)"
proof (induction ns arbitrary: b)
  case Nil
  then show ?case by simp
next
  case (Cons n ns)
  then obtain b1 where b1: "get b n = Some (take n (bytes b), b1)" "inv b1" "bytes b1 = drop n (bytes b)"
    using get_ok [of b n] by auto
  have le: "sum_list ns \<le> length (bytes b1)" using b1(3) Cons.prems(2) by simp
  obtain ds b2 where
    "get_all get b1 ns = Some (ds, b2)" "map length ds = ns" "concat ds = take (sum_list ns) (bytes b1)"
    "inv b2" "bytes b2 = drop (sum_list ns) (bytes b1)"
    using Cons.IH [OF b1(2) le] by blast
  with b1 Cons.prems show ?case by (auto simp: take_add add.commute)
qed

text \<open>However the data is cut on either side, the reader gets the writer's bytes in order.\<close>

lemma stream_through:
  assumes "inv b" and "length (concat ds) \<le> room b" and "sum_list ns = length (bytes b @ concat ds)"
  shows "\<exists>b' out b''. put_all put b ds = Some b' \<and> get_all get b' ns = Some (out, b'')
           \<and> map length out = ns \<and> concat out = bytes b @ concat ds \<and> bytes b'' = []"
proof -
  obtain b' where b': "put_all put b ds = Some b'" "inv b'" "bytes b' = bytes b @ concat ds"
    using put_all_ok [OF assms(1,2)] by blast
  with get_all_ok [OF b'(2), of ns] assms(3) show ?thesis by auto
qed

end

definition buf_put :: "ni_buffer \<Rightarrow> byte list \<Rightarrow> ni_buffer option" where
  "buf_put bp d = do { (rv, bp') \<leftarrow> ni_buffer_put bp (Some d) (of_nat (length d));
                       (if rv = 0 then Some bp' else None) }"

definition buf_get :: "ni_buffer \<Rightarrow> nat \<Rightarrow> (byte list \<times> ni_buffer) option" where
  "buf_get bp n = do { (rv, d, bp') \<leftarrow> ni_buffer_get bp (of_nat n); (if rv = 0 then Some (d, bp') else None) }"

definition buf_room :: "ni_buffer \<Rightarrow> nat" where
  "buf_room bp = unat (buf_size bp) - unat (buf_tail bp)"

lemma unat_of_nat_u64: "n < 2 ^ 64 \<Longrightarrow> unat (of_nat n :: u64) = n"
  by (simp add: unat_of_nat take_bit_eq_mod)

lemma buf_put_ok:
  assumes wf: "buf_wf bp" and room: "length d \<le> buf_room bp"
  shows "\<exists>b'. buf_put bp d = Some b' \<and> buf_wf b' \<and> buf_bytes b' = buf_bytes bp @ d
           \<and> buf_room b' = buf_room bp - length d"
proof -
  note D = buf_wfD [OF wf]
  have r: "unat (buf_tail bp) + length d \<le> unat (buf_size bp)"
    using room D by (simp add: buf_room_def)
  have u: "unat (of_nat (length d) :: u64) = length d"
    using r unat_u64_less [of "buf_size bp"] by (intro unat_of_nat_u64) linarith
  show ?thesis
    using ni_buffer_put_ok [OF wf, of "of_nat (length d)" d] u r D
    by (auto simp: buf_put_def buf_room_def unat_add_le)
qed

lemma buf_get_ok:
  assumes wf: "buf_wf bp" and n: "n \<le> length (buf_bytes bp)"
  shows "\<exists>b'. buf_get bp n = Some (take n (buf_bytes bp), b') \<and> buf_wf b'
           \<and> buf_bytes b' = drop n (buf_bytes bp) \<and> buf_room b' = buf_room bp"
proof -
  have "n < 2 ^ 64"
    using n length_buf_bytes [OF wf] unat_u64_less [of "buf_tail bp"] by linarith
  then have "unat (of_nat n :: u64) = n" by (rule unat_of_nat_u64)
  then show ?thesis
    using ni_buffer_get_ok [OF wf, of "of_nat n"] n by (auto simp: buf_get_def buf_room_def)
qed

interpretation buf: byte_stream buf_put buf_get buf_bytes buf_room buf_wf
  by unfold_locales (auto intro: buf_put_ok buf_get_ok)

section \<open>Properties\<close>

text \<open>C17: a buffer is a byte stream.  Writing any sequence of chunks that fit with
  \<open>ni_buffer_put\<close> and reading with \<open>ni_buffer_get\<close> in pieces of any sizes that add up returns
  exactly the bytes written, in order, after those already pending, never touches memory outside the
  block, and leaves the buffer empty.\<close>

theorem ni_buffer_stream_through:
  assumes "buf_wf bp" and "length (concat ds) \<le> unat (buf_size bp) - unat (buf_tail bp)"
    and "sum_list ns = length (buf_bytes bp @ concat ds)"
  shows "\<exists>bp' out bp''. put_all buf_put bp ds = Some bp' \<and> get_all buf_get bp' ns = Some (out, bp'')
           \<and> map length out = ns \<and> concat out = buf_bytes bp @ concat ds \<and> buf_bytes bp'' = []"
  using buf.stream_through [of bp ds ns] assms by (simp add: buf_room_def)

lemma ni_buffer_stream_through_witness:
  "\<exists>bp' out bp''. put_all buf_put (ni_buffer_new 4) [[1, 2], [3 :: byte]] = Some bp'
     \<and> get_all buf_get bp' [1, 2] = Some (out, bp'') \<and> map length out = [1, 2]
     \<and> concat out = buf_bytes (ni_buffer_new 4) @ concat [[1, 2], [3]] \<and> buf_bytes bp'' = []"
  by (rule ni_buffer_stream_through)
     (simp_all add: ni_buffer_new_wf ni_buffer_new_bytes, simp add: ni_buffer_new_def ni_buffer_init_def)

text \<open>after \<open>ni_buffer_ensure_tailroom\<close> the caller may fill and claim the room it asked
  for: the pending bytes are unchanged and \<open>ni_buffer_push_tail\<close> of any count up to the requested one
  succeeds, whatever the allocator put in the new memory.\<close>

theorem ni_buffer_ensure_then_push:
  assumes "buf_wf bp" and "unat (buf_size bp) + unat m < 2 ^ 64" and "unat n \<le> unat m"
  shows "\<exists>bp'. ni_buffer_ensure_tailroom fresh bp m = Some (True, bp') \<and> buf_bytes bp' = buf_bytes bp
           \<and> fst (ni_buffer_push_tail bp' n) = Some (unat (buf_tail bp))
           \<and> buf_wf (snd (ni_buffer_push_tail bp' n))
           \<and> length (buf_bytes (snd (ni_buffer_push_tail bp' n))) = length (buf_bytes bp) + unat n"
proof -
  obtain bp' where bp': "ni_buffer_ensure_tailroom fresh bp m = Some (True, bp')" "buf_wf bp'"
    "buf_bytes bp' = buf_bytes bp" "buf_tail bp' = buf_tail bp"
    "unat (buf_tail bp) + unat m \<le> unat (buf_size bp')"
    using ni_buffer_ensure_tailroom_ok [OF assms(1,2), of fresh] by blast
  have room: "unat (buf_tail bp') + unat n \<le> unat (buf_size bp')" using bp' assms(3) by simp
  show ?thesis
    using ni_buffer_push_tail_ok [OF bp'(2) room] bp' room buf_wfD(1) [OF bp'(2)]
    by (intro exI [of _ bp']) simp
qed

lemma ni_buffer_ensure_then_push_witness:
  "\<exists>bp'. ni_buffer_ensure_tailroom (\<lambda>_. 0xff) (ni_buffer_new 1) 8 = Some (True, bp')
     \<and> buf_bytes bp' = buf_bytes (ni_buffer_new 1)
     \<and> fst (ni_buffer_push_tail bp' (5 :: u64)) = Some (unat (buf_tail (ni_buffer_new 1)))
     \<and> buf_wf (snd (ni_buffer_push_tail bp' 5))
     \<and> length (buf_bytes (snd (ni_buffer_push_tail bp' 5))) = length (buf_bytes (ni_buffer_new 1)) + unat (5 :: u64)"
  by (rule ni_buffer_ensure_then_push)
     (simp_all add: ni_buffer_new_wf, simp add: ni_buffer_new_def ni_buffer_init_def)

text \<open>\<open>ni_buffer_ungetc\<close> puts back the byte \<open>ni_buffer_getc\<close> has just returned exactly when
  the byte is below 0x80.  For the other half of the bytes the comparison of the stored
  \<open>unsigned char\<close> with the (signed) \<open>char\<close> argument fails and the byte stays consumed.\<close>

theorem ni_buffer_ungetc_after_getc:
  assumes "buf_wf bp" and "buf_bytes bp = b # rest"
  shows "\<exists>bp'. ni_buffer_getc bp = Some (uint b, bp') \<and> buf_bytes bp' = rest
     \<and> ni_buffer_ungetc bp' b = Some (if unat b < 128 then (0, bp) else (-1, bp'))"
  using ni_buffer_getc_ok [OF assms] ni_buffer_ungetc_getc [OF assms] by auto

lemma ni_buffer_ungetc_after_getc_witness:
  "\<exists>bp'. ni_buffer_getc (ni_buffer_init_reader [0xc3, 0xa9] 2) = Some (uint (0xc3 :: byte), bp')
     \<and> buf_bytes bp' = [0xa9]
     \<and> ni_buffer_ungetc bp' 0xc3 = Some (if unat (0xc3 :: byte) < 128 then (0, ni_buffer_init_reader [0xc3, 0xa9] 2) else (-1, bp'))"
  by (rule ni_buffer_ungetc_after_getc)
     (simp_all add: buf_wf_def buf_bytes_def ni_buffer_init_reader_def ni_buffer_init_def)

end
