(* ===== verification/XmlRead.thy ===== *)
theory XmlRead
  imports Xml Buffer
begin

text \<open>
  The XML reader (dborb/xml-reader.c).

  A reader takes its characters from a buffer (dborb/buffer.h) or from a stream, which it reads by
  \<open>fgets\<close> into a block of 512 bytes.  \<open>xml_getc\<close> gives \<^const>\<open>None\<close> for EOF.  The string buffers that
  collect a token are modelled by their text, with \<^const>\<open>None\<close> for the NULL pointer of a cleared buffer;
  the section "Token buffers" of \<open>XmlRound\<close> relates these texts to the string buffers of \<open>Strings\<close>.  The
  loops over characters are functions that terminate because the source shrinks; the loops over tokens
  are partial functions, whose termination is a theorem of \<open>XmlRound\<close>.

  A fault is: reading the uninitialised block of an empty entity, an entity that outgrows the 128 bytes of
  its block (an assertion), and the message about an unsupported \<open><!...>\<close> element, which hands a structure
  to a \<open>%s\<close>.
\<close>

section \<open>Sources of characters\<close>

definition byte_char :: "byte \<Rightarrow> char" where "byte_char b = char_of (unat b)"
definition char_byte :: "char \<Rightarrow> byte" where "char_byte c = of_nat (c_code c)"

lemma char_byte_byte_char [simp]: "char_byte (byte_char b) = b"
  using unsigned_less [of b, where ?'a = nat]
  by (simp add: char_byte_def byte_char_def c_code_def of_char_of del: unsigned_less)

lemma c_code_less: "c_code c < 256"
  by (simp add: c_code_def)

lemma byte_char_char_byte [simp]: "byte_char (char_byte c) = c"
  using c_code_less [of c] by (simp add: char_byte_def byte_char_def c_code_def unat_of_nat)

lemma unat_char_byte: "unat (char_byte c) = c_code c"
  using c_code_less [of c] by (simp add: char_byte_def unat_of_nat)

text \<open>A stream: the block \<open>fgets\<close> has filled (without the NUL), the position in it (\<^const>\<open>None\<close> for NULL),
  the bytes still to be read, whether the stream fails after them, and its error indicator.\<close>

record xml_file =
  xf_buffer :: cstring
  xf_pos :: "nat option"
  xf_rest :: cstring
  xf_bad :: bool
  xf_error :: bool

definition XML_READER_BUFSZ :: nat where "XML_READER_BUFSZ = 512"

text \<open>At most 511 bytes, up to and including a newline.\<close>

fun line_split :: "nat \<Rightarrow> cstring \<Rightarrow> cstring \<times> cstring" where
  "line_split 0 s = ([], s)"
| "line_split (Suc n) [] = ([], [])"
| "line_split (Suc n) (c # cs) =
     (if c = NL then ([c], cs) else (let (l, r) = line_split n cs in (c # l, r)))"

definition xf_fgets :: "xml_file \<Rightarrow> xml_file option" where
  "xf_fgets f =
     (let (l, r) = line_split (XML_READER_BUFSZ - 1) (xf_rest f)
      in if l = [] then None
         else if r = [] \<and> xf_bad f \<and> length l < XML_READER_BUFSZ - 1 \<and> List.last l \<noteq> NL then None
         else Some (f\<lparr>xf_buffer := l, xf_rest := r\<rparr>))"

text \<open>What a failing \<open>fgets\<close> leaves: the error indicator when the stream is bad.\<close>

definition xf_fail :: "xml_file \<Rightarrow> xml_file" where
  "xf_fail f = f\<lparr>xf_rest := [], xf_error := xf_error f \<or> xf_bad f\<rparr>"

datatype xml_source = In_buffer ni_buffer | In_file xml_file

datatype xml_parser_state = Initial | Tag | Error

record xml_reader =
  xr_filename :: cstring
  xr_source :: xml_source
  xr_doctype :: "cstring option"
  xr_state :: xml_parser_state
  xr_line :: u32

definition ni_string_empty :: "cstring option \<Rightarrow> bool" where
  "ni_string_empty s \<longleftrightarrow> (case s of None \<Rightarrow> True | Some t \<Rightarrow> t = [])"

definition xml_reader_init :: "cstring \<Rightarrow> xml_source \<Rightarrow> xml_reader" where
  "xml_reader_init name src =
     \<lparr>xr_filename = name, xr_source = src, xr_doctype = None, xr_state = Initial, xr_line = 1\<rparr>"

definition stream_of :: "cstring \<Rightarrow> bool \<Rightarrow> xml_file" where
  "stream_of bytes bad = \<lparr>xf_buffer = [], xf_pos = None, xf_rest = bytes, xf_bad = bad, xf_error = False\<rparr>"

definition xml_reader_init_buffer :: "ni_buffer \<Rightarrow> cstring option \<Rightarrow> xml_reader" where
  "xml_reader_init_buffer buf location =
     xml_reader_init (if ni_string_empty location then ''<buffer>'' else the location) (In_buffer buf)"

definition xml_reader_init_file :: "xml_file \<Rightarrow> cstring option \<Rightarrow> xml_reader" where
  "xml_reader_init_file fp location =
     xml_reader_init (if ni_string_empty location then ''<stdin>'' else the location) (In_file fp)"

text \<open>The file system is a parameter: what \<open>fopen\<close> finds under a name.\<close>

definition xml_reader_open :: "(cstring \<Rightarrow> xml_file option) \<Rightarrow> cstring \<Rightarrow> xml_reader option" where
  "xml_reader_open fs filename =
     (case fs filename of None \<Rightarrow> None | Some f \<Rightarrow> Some (xml_reader_init filename (In_file f)))"

definition xml_reader_destroy :: "xml_reader \<Rightarrow> int" where
  "xml_reader_destroy xr = (case xr_source xr of In_file f \<Rightarrow> (if xf_error f then -1 else 0) | In_buffer b \<Rightarrow> 0)"

text \<open>\<open>xml_getc\<close> on a stream: skip to the next line when the NUL of the block is reached.\<close>

definition xf_left :: "xml_file \<Rightarrow> nat" where
  "xf_left f = (case xf_pos f of None \<Rightarrow> 0 | Some p \<Rightarrow> length (xf_buffer f) - p) + length (xf_rest f)"

lemma line_split_append: "line_split n s = (l, r) \<Longrightarrow> l @ r = s"
  by (induction n s arbitrary: l r rule: line_split.induct) (auto split: if_splits prod.splits)

lemma append_length_eq: "xs @ ys = zs \<Longrightarrow> length xs + length ys = length zs"
  by auto

lemma append_shorter: "xs @ ys = zs \<Longrightarrow> xs \<noteq> [] \<Longrightarrow> length ys < length zs"
  by auto

lemma xf_fgets_shrinks: "xf_fgets f = Some f' \<Longrightarrow> length (xf_rest f') < length (xf_rest f)"
  using line_split_append [of "XML_READER_BUFSZ - 1" "xf_rest f"]
  by (auto simp: xf_fgets_def Let_def split: prod.splits if_splits intro: append_shorter)

function xf_getc :: "xml_file \<Rightarrow> u32 \<Rightarrow> (char option \<times> xml_file \<times> u32) option" where
  "xf_getc f line = do {
     (cc, f1, line1) \<leftarrow>
        (case xf_pos f of
           None \<Rightarrow> Some (NUL, f, line)
         | Some p \<Rightarrow> do {
             c \<leftarrow> arr_get (xf_buffer f @ [NUL]) p;
             let line' = (if c = NL then line + 1 else line);
             Some (c, (if c \<noteq> NUL then f\<lparr>xf_pos := Some (p + 1)\<rparr> else f\<lparr>xf_pos := None\<rparr>), line') });
     (if cc \<noteq> NUL then Some (Some cc, f1, line1)
      else (case xf_fgets f1 of
              None \<Rightarrow> Some (None, xf_fail f1, line1)
            | Some f2 \<Rightarrow> xf_getc (f2\<lparr>xf_pos := Some 0\<rparr>) line1)) }"
  by pat_completeness auto
termination
  by (relation "measure (\<lambda>(f, _). length (xf_rest f))")
    (auto dest!: xf_fgets_shrinks split: option.splits if_splits simp: Let_def)

declare xf_getc.simps [simp del]

definition xml_getc :: "xml_reader \<Rightarrow> (char option \<times> xml_reader) option" where
  "xml_getc xr =
     (case xr_source xr of
        In_buffer b \<Rightarrow> do {
          (r, b') \<leftarrow> ni_buffer_getc b;
          Some (if r = EOF then None else Some (char_of (nat r)), xr\<lparr>xr_source := In_buffer b'\<rparr>) }
      | In_file f \<Rightarrow> do {
          (r, f', line) \<leftarrow> xf_getc f (xr_line xr);
          Some (r, xr\<lparr>xr_source := In_file f', xr_line := line\<rparr>) })"

text \<open>\<open>(char) EOF\<close> is the byte 0xff.\<close>

definition cc_byte :: "char option \<Rightarrow> byte" where
  "cc_byte cc = (case cc of None \<Rightarrow> 0xff | Some c \<Rightarrow> char_byte c)"

definition xml_ungetc :: "xml_reader \<Rightarrow> char option \<Rightarrow> xml_reader option" where
  "xml_ungetc xr cc =
     (case xr_source xr of
        In_buffer b \<Rightarrow> do {
          (r, b') \<leftarrow> ni_buffer_ungetc b (cc_byte cc);
          Some (xr\<lparr>xr_source := In_buffer b', xr_line := (if cc = Some NL then xr_line xr - 1 else xr_line xr)\<rparr>) }
      | In_file f \<Rightarrow>
          (case xf_pos f of
             None \<Rightarrow> Some xr
           | Some p \<Rightarrow>
               if p = 0 then Some xr
               else do {
                 c \<leftarrow> arr_get (xf_buffer f @ [NUL]) (p - 1);
                 Some (if Some c \<noteq> cc then xr
                       else xr\<lparr>xr_source := In_file (f\<lparr>xf_pos := Some (p - 1)\<rparr>),
                               xr_line := (if cc = Some NL then xr_line xr - 1 else xr_line xr)\<rparr>) }))"

definition src_left :: "xml_source \<Rightarrow> nat" where
  "src_left s = (case s of In_buffer b \<Rightarrow> unat (buf_tail b) - unat (buf_head b) | In_file f \<Rightarrow> xf_left f)"

definition xr_left :: "xml_reader \<Rightarrow> nat" where "xr_left xr = src_left (xr_source xr)"


lemma xf_getc_left:
  "xf_getc f line = Some (Some c, f', line') \<Longrightarrow> xf_left f' < xf_left f"
proof (induction f line arbitrary: f' line' rule: xf_getc.induct)
  case (1 f line)
  have sh: "length (xf_buffer f2) + length (xf_rest f2) = length (xf_rest f1)" if "xf_fgets f1 = Some f2" for f1 f2
    using that line_split_append [of "XML_READER_BUFSZ - 1" "xf_rest f1"]
    by (auto simp: xf_fgets_def Let_def split: prod.splits if_splits intro: append_length_eq)
  show ?case
  proof (cases "xf_pos f")
    case None
    then obtain f2 where f2: "xf_fgets f = Some f2" "xf_getc (f2\<lparr>xf_pos := Some 0\<rparr>) line = Some (Some c, f', line')"
      using "1.prems" by (subst (asm) xf_getc.simps) (auto split: option.splits)
    have "xf_left f' < xf_left (f2\<lparr>xf_pos := Some 0\<rparr>)"
      using "1.IH" f2 None by auto
    then show ?thesis using sh [OF f2(1)] None by (simp add: xf_left_def)
  next
    case (Some p)
    have p: "p \<le> length (xf_buffer f)"
      using "1.prems" Some by (subst (asm) xf_getc.simps) (auto simp: arr_get_def split: if_splits)
    show ?thesis
    proof (cases "(xf_buffer f @ [NUL]) ! p = NUL")
      case True
      then obtain f2 where f2: "xf_fgets (f\<lparr>xf_pos := None\<rparr>) = Some f2"
          "xf_getc (f2\<lparr>xf_pos := Some 0\<rparr>) line = Some (Some c, f', line')"
        using "1.prems" Some p by (subst (asm) xf_getc.simps) (auto simp: arr_get_def NL_def NUL_def split: option.splits)
      have "xf_left f' < xf_left (f2\<lparr>xf_pos := Some 0\<rparr>)"
        using "1.IH" f2 Some True p by (auto simp: arr_get_def NL_def NUL_def)
      then show ?thesis using sh [OF f2(1)] Some p by (simp add: xf_left_def)
    next
      case False
      then have "p < length (xf_buffer f)" using p by (auto simp: nth_append split: if_splits)
      then show ?thesis using "1.prems" Some p False
        by (subst (asm) xf_getc.simps) (auto simp: arr_get_def xf_left_def)
    qed
  qed
qed

lemma head_step: "\<not> t \<le> h \<Longrightarrow> unat (h + 1 :: u64) = Suc (unat h) \<and> unat h < unat t"
proof -
  assume "\<not> t \<le> h"
  then have "unat h < unat t" by (simp add: word_le_nat_alt)
  moreover have "unat t < 2 ^ 64" using unsigned_less [of t, where ?'a = nat] by simp
  ultimately show ?thesis by (simp add: unat_word_ariths)
qed

lemma xml_getc_left [termination_simp]:
  "xml_getc xr = Some (Some c, xr') \<Longrightarrow> xr_left xr' < xr_left xr"
proof (cases "xr_source xr")
  case (In_buffer b)
  assume "xml_getc xr = Some (Some c, xr')"
  then obtain "\<not> buf_tail b \<le> buf_head b" "xr' = xr\<lparr>xr_source := In_buffer (b\<lparr>buf_head := buf_head b + 1\<rparr>)\<rparr>"
    using In_buffer by (auto simp: xml_getc_def ni_buffer_getc_def split: if_splits)
  then show ?thesis using head_step [of "buf_tail b" "buf_head b"] In_buffer
    unfolding xr_left_def src_left_def by (simp, arith)
next
  case (In_file f)
  assume "xml_getc xr = Some (Some c, xr')"
  then show ?thesis using In_file by (auto simp: xml_getc_def xr_left_def src_left_def dest!: xf_getc_left)
qed

section \<open>Tokens\<close>

datatype xml_token_type = NoToken | EndOfDocument | LeftAngle | RightAngle | LeftAngleQ | RightAngleQ
  | LeftAngleSlash | RightAngleSlash | LeftAngleExclam | Identifier | Equals | QuotedString | CData | Comment

definition xml_parse_error :: "xml_reader \<Rightarrow> xml_reader" where
  "xml_parse_error xr = xr\<lparr>xr_state := Error\<rparr>"

text \<open>The text of a token buffer and \<open>ni_stringbuf_putc\<close> on it.\<close>

type_synonym tok = "cstring option"

definition tok_putc :: "tok \<Rightarrow> char \<Rightarrow> tok" where
  "tok_putc t c = Some ((case t of None \<Rightarrow> [] | Some s \<Rightarrow> s) @ [c])"

text \<open>\<open>ni_stringbuf_trim_empty_lines\<close> on a text.\<close>

definition trim_text :: "cstring \<Rightarrow> cstring option" where
  "trim_text s = do {
     trim \<leftarrow> trim_lines_tail s (length s) (length s);
     Some (drop (trim_lines_head (take trim s) 0 0) (take trim s)) }"

function xml_skip_space :: "xml_reader \<Rightarrow> tok \<Rightarrow> (xml_reader \<times> tok) option" where
  "xml_skip_space xr result = do {
     (cc, xr1) \<leftarrow> xml_getc xr;
     (case cc of
        None \<Rightarrow> Some (xr1, result)
      | Some c \<Rightarrow>
          if \<not> c_isspace c then do { xr2 \<leftarrow> xml_ungetc xr1 cc; Some (xr2, result) }
          else xml_skip_space xr1 (tok_putc result c)) }"
  by pat_completeness auto
termination by (relation "measure (\<lambda>(xr, _). xr_left xr)") (auto simp: xml_getc_left)

declare xml_skip_space.simps [simp del]

text \<open>After "<!-".\<close>

function comment_loop :: "xml_reader \<Rightarrow> nat \<Rightarrow> (xml_token_type \<times> xml_reader) option" where
  "comment_loop xr match = do {
     (cc, xr1) \<leftarrow> xml_getc xr;
     (case cc of
        None \<Rightarrow> Some (NoToken, xml_parse_error xr1)
      | Some c \<Rightarrow>
          if c = CHR ''-'' then comment_loop xr1 (match + 1)
          else if c = CHR ''>'' \<and> 2 \<le> match then Some (Comment, xr1)
          else comment_loop xr1 0) }"
  by pat_completeness auto
termination by (relation "measure (\<lambda>(xr, _). xr_left xr)") (auto simp: xml_getc_left)

declare comment_loop.simps [simp del]

definition xml_skip_comment :: "xml_reader \<Rightarrow> (xml_token_type \<times> xml_reader) option" where
  "xml_skip_comment xr = do {
     (cc, xr1) \<leftarrow> xml_getc xr;
     (if cc \<noteq> Some (CHR ''-'') then Some (NoToken, xml_parse_error xr1) else comment_loop xr1 0) }"

text \<open>The entity is collected in \<open>char temp[128]\<close>; \<open>ni_stringbuf_putc\<close> asserts that a static buffer is
  not outgrown.  The result is the text, or \<^const>\<open>None\<close> at the end of the input.\<close>

function entity_loop :: "xml_reader \<Rightarrow> cstring \<Rightarrow> (cstring option \<times> xml_reader) option" where
  "entity_loop xr entity = do {
     (cc, xr1) \<leftarrow> xml_getc xr;
     (case cc of
        None \<Rightarrow> Some (None, xml_parse_error xr1)
      | Some c \<Rightarrow>
          if c = CHR '';'' then Some (Some entity, xr1)
          else if c_isspace c then entity_loop xr1 entity
          else if 128 < length entity + 2 then None
          else entity_loop xr1 (entity @ [c])) }"
  by pat_completeness auto
termination by (relation "measure (\<lambda>(xr, _). xr_left xr)") (auto simp: xml_getc_left)

declare entity_loop.simps [simp del]

text \<open>The expansion of an entity: \<^const>\<open>None\<close> when it is unknown.\<close>

definition entity_char :: "cstring \<Rightarrow> char option" where
  "entity_char e =
     (if strcasecmp_eq e ''lt'' then Some (CHR ''<'')
      else if strcasecmp_eq e ''gt'' then Some (CHR ''>'')
      else if strcasecmp_eq e ''amp'' then Some (CHR ''&'')
      else if e \<noteq> [] \<and> hd e = CHR ''#'' then
        (case strtoul (tl e) 0 of (v, _, es) \<Rightarrow> (if es = [] then Some (byte_char (ucast v)) else None))
      else None)"

definition xml_expand_entity :: "xml_reader \<Rightarrow> tok \<Rightarrow> (bool \<times> xml_reader \<times> tok) option" where
  "xml_expand_entity xr res = do {
     (e, xr1) \<leftarrow> entity_loop xr [];
     (case e of
        None \<Rightarrow> Some (False, xr1, res)
      | Some entity \<Rightarrow> do {
          ni_assert (entity \<noteq> []);
          Some (case entity_char (cstr entity) of
                  None \<Rightarrow> (False, xml_parse_error xr1, res)
                | Some c \<Rightarrow> (True, xr1, tok_putc res c)) }) }"


subsection \<open>The source never grows\<close>

lemma xf_getc_left_eof: "xf_getc f line = Some (None, f', line') \<Longrightarrow> xf_left f' \<le> xf_left f"
proof (induction f line arbitrary: f' line' rule: xf_getc.induct)
  case (1 f line)
  define f1 where "f1 = f\<lparr>xf_pos := None\<rparr>"
  have "xf_left f' = 0"
    if "xf_fgets f0 = None" "f' = xf_fail f0" "xf_pos f0 = None" for f0
    using that by (simp add: xf_fail_def xf_left_def)
  moreover have "xf_left f2 \<le> xf_left f" if "xf_fgets f0 = Some f3" "f2 = f3\<lparr>xf_pos := Some 0\<rparr>" "f0 = f \<or> f0 = f1" for f0 f2 f3
    using that line_split_append [of "XML_READER_BUFSZ - 1" "xf_rest f0"]
    by (auto simp: xf_fgets_def Let_def xf_left_def f1_def split: prod.splits if_splits option.splits dest: append_length_eq)
  ultimately show ?case using "1.prems" "1.IH" unfolding f1_def
    by (subst (asm) xf_getc.simps) (fastforce simp: arr_get_def split: option.splits if_splits)
qed

lemma uint_not_EOF: "uint (b :: byte) \<noteq> - 1"
  using unsigned_greater_eq [of b, where ?'a = int] by linarith

lemma xml_getc_left_le: "xml_getc xr = Some (cc, xr') \<Longrightarrow> xr_left xr' \<le> xr_left xr"
proof (cases cc)
  case None
  assume "xml_getc xr = Some (cc, xr')"
  then show ?thesis using None
    by (auto simp: xml_getc_def ni_buffer_getc_def xr_left_def src_left_def EOF_def uint_not_EOF
        dest!: xf_getc_left_eof split: xml_source.splits if_splits)
next
  case (Some c)
  assume "xml_getc xr = Some (cc, xr')"
  then show ?thesis using Some xml_getc_left [of xr c xr'] by simp
qed

lemma xml_ungetc_left: "xml_ungetc xr cc = Some xr' \<Longrightarrow> xr_left xr' \<le> Suc (xr_left xr)"
proof (cases "xr_source xr")
  case (In_buffer b)
  assume u: "xml_ungetc xr cc = Some xr'"
  show ?thesis
  proof (cases "buf_head b = 0")
    case True
    then show ?thesis using u In_buffer by (auto simp: xml_ungetc_def ni_buffer_ungetc_def xr_left_def src_left_def)
  next
    case False
    have e: "unat (buf_head b) = Suc (unat (buf_head b - 1))"
      using False by (simp add: unat_minus_one unat_gt_0)
    from u have "xr_source xr' = In_buffer b \<or> xr_source xr' = In_buffer (b\<lparr>buf_head := buf_head b - 1\<rparr>)"
      using In_buffer False by (auto simp: xml_ungetc_def ni_buffer_ungetc_def split: if_splits)
    then show ?thesis using e In_buffer by (auto simp: xr_left_def src_left_def)
  qed
next
  case (In_file f)
  assume "xml_ungetc xr cc = Some xr'"
  then show ?thesis using In_file
    by (auto simp: xml_ungetc_def xr_left_def src_left_def xf_left_def arr_get_def split: option.splits if_splits)
qed

lemma get_unget_left:
  "xml_getc xr = Some (Some c, xr1) \<Longrightarrow> xml_ungetc xr1 cc = Some xr2 \<Longrightarrow> xr_left xr2 \<le> xr_left xr"
  using xml_getc_left [of xr c xr1] xml_ungetc_left [of xr1 cc xr2] by simp

lemma xml_parse_error_left [simp]: "xr_left (xml_parse_error xr) = xr_left xr"
  by (simp add: xml_parse_error_def xr_left_def)

lemma xr_state_left [simp]: "xr_left (xr\<lparr>xr_state := s\<rparr>) = xr_left xr" "xr_left (xr\<lparr>xr_doctype := d\<rparr>) = xr_left xr"
  by (simp_all add: xr_left_def)

lemma xml_skip_space_left: "xml_skip_space xr res = Some (xr', res') \<Longrightarrow> xr_left xr' \<le> xr_left xr"
proof (induction xr res arbitrary: xr' res' rule: xml_skip_space.induct)
  case (1 xr res)
  obtain cc xr1 where g: "xml_getc xr = Some (cc, xr1)"
    using "1.prems" by (subst (asm) xml_skip_space.simps) auto
  show ?case
  proof (cases cc)
    case None
    then show ?thesis using "1.prems" g xml_getc_left_le [of xr None] by (subst (asm) xml_skip_space.simps) auto
  next
    case (Some c)
    show ?thesis
    proof (cases "c_isspace c")
      case True
      then have "xml_skip_space xr1 (tok_putc res c) = Some (xr', res')"
        using "1.prems" g Some by (subst (asm) xml_skip_space.simps) auto
      then have "xr_left xr' \<le> xr_left xr1" using "1.IH" [OF g] Some True by auto
      then show ?thesis using g Some xml_getc_left [of xr c xr1] by simp
    next
      case False
      then show ?thesis using "1.prems" g Some get_unget_left [of xr c xr1]
        by (subst (asm) xml_skip_space.simps) auto
    qed
  qed
qed

lemma comment_loop_left: "comment_loop xr m = Some (t, xr') \<Longrightarrow> xr_left xr' \<le> xr_left xr"
proof (induction xr m arbitrary: xr' t rule: comment_loop.induct)
  case (1 xr m)
  obtain cc xr1 where g: "xml_getc xr = Some (cc, xr1)"
    using "1.prems" by (subst (asm) comment_loop.simps) auto
  have le: "xr_left xr1 \<le> xr_left xr" by (rule xml_getc_left_le [OF g])
  show ?case
  proof (cases cc)
    case None
    then show ?thesis using "1.prems" g le by (subst (asm) comment_loop.simps) auto
  next
    case (Some c)
    from "1.prems" have "xr' = xr1 \<or> comment_loop xr1 (m + 1) = Some (t, xr') \<and> c = CHR ''-''
        \<or> comment_loop xr1 0 = Some (t, xr') \<and> c \<noteq> CHR ''-'' \<and> \<not> (c = CHR ''>'' \<and> 2 \<le> m)"
      using g Some by (subst (asm) comment_loop.simps) (auto split: if_splits)
    moreover have "xr_left xr' \<le> xr_left xr1" if "comment_loop xr1 (m + 1) = Some (t, xr')" "c = CHR ''-''"
      using "1.IH"(1) [OF g] Some that by auto
    moreover have "xr_left xr' \<le> xr_left xr1" if "comment_loop xr1 0 = Some (t, xr')" "c \<noteq> CHR ''-''" "\<not> (c = CHR ''>'' \<and> 2 \<le> m)"
      using "1.IH"(2) [OF g] Some that by auto
    ultimately show ?thesis using le by auto
  qed
qed

lemma xml_skip_comment_left: "xml_skip_comment xr = Some (t, xr') \<Longrightarrow> xr_left xr' \<le> xr_left xr"
  by (auto simp: xml_skip_comment_def split: if_splits dest!: xml_getc_left_le comment_loop_left)

lemma entity_loop_left: "entity_loop xr e = Some (t, xr') \<Longrightarrow> xr_left xr' \<le> xr_left xr"
proof (induction xr e arbitrary: xr' t rule: entity_loop.induct)
  case (1 xr e)
  obtain cc xr1 where g: "xml_getc xr = Some (cc, xr1)"
    using "1.prems" by (subst (asm) entity_loop.simps) auto
  have le: "xr_left xr1 \<le> xr_left xr" by (rule xml_getc_left_le [OF g])
  show ?case
  proof (cases cc)
    case None
    then show ?thesis using "1.prems" g le by (subst (asm) entity_loop.simps) auto
  next
    case (Some c)
    from "1.prems" have "xr' = xr1 \<or> entity_loop xr1 e = Some (t, xr') \<and> c \<noteq> CHR '';'' \<and> c_isspace c
        \<or> entity_loop xr1 (e @ [c]) = Some (t, xr') \<and> c \<noteq> CHR '';'' \<and> \<not> c_isspace c \<and> \<not> 128 < length e + 2"
      using g Some by (subst (asm) entity_loop.simps) (auto split: if_splits)
    moreover have "xr_left xr' \<le> xr_left xr1" if "entity_loop xr1 e = Some (t, xr')" "c \<noteq> CHR '';''" "c_isspace c"
      using "1.IH"(1) [OF g] Some that by auto
    moreover have "xr_left xr' \<le> xr_left xr1"
      if "entity_loop xr1 (e @ [c]) = Some (t, xr')" "c \<noteq> CHR '';''" "\<not> c_isspace c" "\<not> 128 < length e + 2"
      using "1.IH"(2) [OF g] Some that by auto
    ultimately show ?thesis using le by auto
  qed
qed

lemma xml_expand_entity_left: "xml_expand_entity xr res = Some (ok, xr', res') \<Longrightarrow> xr_left xr' \<le> xr_left xr"
  by (auto simp: xml_expand_entity_def dest!: entity_loop_left split: option.splits)

section \<open>The tokenizer\<close>

text \<open>The text of an element up to the next tag, starting with the character \<open>cc\<close>; \<open>None\<close> for an entity
  that cannot be expanded.\<close>

function cdata_loop :: "xml_reader \<Rightarrow> char \<Rightarrow> tok \<Rightarrow> (bool \<times> xml_reader \<times> tok) option" where
  "cdata_loop xr c res =
     (if c = CHR ''<'' then do { xr1 \<leftarrow> xml_ungetc xr (Some c); Some (True, xr1, res) }
      else do {
        (ok, xr1, res1) \<leftarrow> (if c = CHR ''&'' then xml_expand_entity xr res else Some (True, xr, tok_putc res c));
        (if \<not> ok then Some (False, xr1, res1)
         else do {
           (cc, xr2) \<leftarrow> xml_getc xr1;
           (case cc of None \<Rightarrow> Some (True, xr2, res1) | Some c' \<Rightarrow> cdata_loop xr2 c' res1) }) })"
  by pat_completeness auto
termination
proof (relation "measure (\<lambda>(xr, _). xr_left xr)", simp)
  fix xr c res y y1 y2 y3 y4 y5 y6 y7 c'
  assume a: "(if c = CHR ''&'' then xml_expand_entity xr res else Some (True, xr, tok_putc res c)) = Some y"
    "(y1, y2) = y" "(y3, y4) = y2" "xml_getc y3 = Some y5" "(y6, y7) = y5" "y6 = Some c'"
  then have "xr_left y3 \<le> xr_left xr" by (auto split: if_splits dest: xml_expand_entity_left)
  moreover have "xr_left y7 < xr_left y3" using a xml_getc_left by auto
  ultimately show "((y7, c', y4), xr, c, res) \<in> measure (\<lambda>(xr, _). xr_left xr)" by simp
qed

declare cdata_loop.simps [simp del]

function xml_get_token_initial :: "xml_reader \<Rightarrow> tok \<Rightarrow> (xml_token_type \<times> xml_reader \<times> tok) option" where
  "xml_get_token_initial xr res = do {
     (xr1, res1) \<leftarrow> xml_skip_space xr res;
     (cc, xr2) \<leftarrow> xml_getc xr1;
     (case cc of
        None \<Rightarrow> Some (EndOfDocument, xr2, None)
      | Some c \<Rightarrow>
          if c = CHR ''<'' then
            (let res2 = tok_putc None c in
             if xr_state xr2 \<noteq> Initial then Some (NoToken, xml_parse_error xr2, res2)
             else do {
               (cc, xr3) \<leftarrow> xml_getc (xr2\<lparr>xr_state := Tag\<rparr>);
               (if cc = Some (CHR ''/'') then Some (LeftAngleSlash, xr3, tok_putc res2 (CHR ''/''))
                else if cc = Some (CHR ''?'') then Some (LeftAngleQ, xr3, tok_putc res2 (CHR ''?''))
                else if cc = Some (CHR ''!'') then do {
                  let res3 = tok_putc res2 (CHR ''!'');
                  (cc, xr4) \<leftarrow> xml_getc xr3;
                  (if cc \<noteq> Some (CHR ''-'') then do {
                     xr5 \<leftarrow> xml_ungetc xr4 cc;
                     Some (LeftAngleExclam, xr5, res3) }
                   else do {
                     (token, xr5) \<leftarrow> xml_skip_comment xr4;
                     (if token = Comment then xml_get_token_initial (xr5\<lparr>xr_state := Initial\<rparr>) None
                      else Some (token, xr5, res3)) }) }
                else do { xr4 \<leftarrow> xml_ungetc xr3 cc; Some (LeftAngle, xr4, res2) }) })
          else do {
            (ok, xr3, res2) \<leftarrow> cdata_loop xr2 c res1;
            (if \<not> ok then Some (NoToken, xr3, res2)
             else do {
               s \<leftarrow> res2;
               t \<leftarrow> trim_text s;
               Some (CData, xr3, Some t) }) }) }"
  by pat_completeness auto
termination
proof (relation "measure (\<lambda>(xr, _). xr_left xr)", simp)
  fix xr res y xr1 res1 y1 cc xr2 c r2 y2 cc3 xr3 r3 y3 cc4 xr4 y4 t xr5
  assume a: "xml_skip_space xr res = Some y" "(xr1, res1) = y" "xml_getc xr1 = Some y1" "(cc, xr2) = y1" "cc = Some c"
    "xml_getc (xr2\<lparr>xr_state := Tag\<rparr>) = Some y2" "(cc3, xr3) = y2"
    "xml_getc xr3 = Some y3" "(cc4, xr4) = y3" "xml_skip_comment xr4 = Some y4" "(t, xr5) = y4"
  have "xr_left xr1 \<le> xr_left xr" using a xml_skip_space_left by auto
  moreover have "xr_left xr2 < xr_left xr1" using a xml_getc_left by auto
  moreover have "xr_left xr3 \<le> xr_left xr2" using a xml_getc_left_le by fastforce
  moreover have "xr_left xr4 \<le> xr_left xr3" using a xml_getc_left_le by fastforce
  moreover have "xr_left xr5 \<le> xr_left xr4" using a xml_skip_comment_left by auto
  ultimately show "((xr5\<lparr>xr_state := Initial\<rparr>, None), xr, res) \<in> measure (\<lambda>(xr, _). xr_left xr)" by simp
qed

declare xml_get_token_initial.simps [simp del]

definition ident_start :: "char \<Rightarrow> bool" where
  "ident_start c \<longleftrightarrow> c_islower c \<or> c_isupper c \<or> c = CHR ''_'' \<or> c = CHR ''!''"

definition ident_char :: "char \<Rightarrow> bool" where
  "ident_char c \<longleftrightarrow> c_isalnum c \<or> c = CHR ''_'' \<or> c = CHR ''!'' \<or> c = CHR '':'' \<or> c = CHR ''-''"

function identifier_loop :: "xml_reader \<Rightarrow> tok \<Rightarrow> (xml_reader \<times> tok) option" where
  "identifier_loop xr res = do {
     (cc, xr1) \<leftarrow> xml_getc xr;
     (case cc of
        None \<Rightarrow> Some (xr1, res)
      | Some c \<Rightarrow>
          if \<not> ident_char c then do { xr2 \<leftarrow> xml_ungetc xr1 cc; Some (xr2, res) }
          else identifier_loop xr1 (tok_putc res c)) }"
  by pat_completeness auto
termination by (relation "measure (\<lambda>(xr, _). xr_left xr)") (auto simp: xml_getc_left)

declare identifier_loop.simps [simp del]

function quoted_loop :: "xml_reader \<Rightarrow> char \<Rightarrow> tok \<Rightarrow> (xml_token_type \<times> xml_reader \<times> tok) option" where
  "quoted_loop xr oc res = do {
     (cc, xr1) \<leftarrow> xml_getc xr;
     (case cc of
        None \<Rightarrow> Some (NoToken, xml_parse_error xr1, res)
      | Some c \<Rightarrow>
          if c = oc then Some (QuotedString, xr1, res)
          else quoted_loop xr1 oc (tok_putc res c)) }"
  by pat_completeness auto
termination by (relation "measure (\<lambda>(xr, _, _). xr_left xr)") (auto simp: xml_getc_left)

declare quoted_loop.simps [simp del]

text \<open>After a first character that has to be followed by a right angle.\<close>

definition expect_right :: "xml_reader \<Rightarrow> xml_token_type \<Rightarrow> tok \<Rightarrow> (xml_token_type \<times> xml_reader \<times> tok) option" where
  "expect_right xr token res = do {
     (cc, xr1) \<leftarrow> xml_getc xr;
     Some (if cc \<noteq> Some (CHR ''>'') then (NoToken, xml_parse_error xr1, res)
           else (token, xr1\<lparr>xr_state := Initial\<rparr>, tok_putc res (CHR ''>''))) }"

definition xml_get_token_tag :: "xml_reader \<Rightarrow> tok \<Rightarrow> (xml_token_type \<times> xml_reader \<times> tok) option" where
  "xml_get_token_tag xr res = do {
     (xr1, _) \<leftarrow> xml_skip_space xr None;
     (cc, xr2) \<leftarrow> xml_getc xr1;
     (case cc of
        None \<Rightarrow> Some (NoToken, xml_parse_error xr2, res)
      | Some c \<Rightarrow>
          let res1 = tok_putc res c in
          if c = CHR ''?'' then expect_right xr2 RightAngleQ res1
          else if c = CHR ''>'' then Some (RightAngle, xr2\<lparr>xr_state := Initial\<rparr>, res1)
          else if c = CHR ''/'' then expect_right xr2 RightAngleSlash res1
          else if c = CHR ''='' then Some (Equals, xr2, res1)
          else if ident_start c then do { (xr3, res2) \<leftarrow> identifier_loop xr2 res1; Some (Identifier, xr3, res2) }
          else if c = SQUOTE \<or> c = DQUOTE then quoted_loop xr2 c None
          else Some (NoToken, xml_parse_error xr2, res1)) }"

definition xml_get_token :: "xml_reader \<Rightarrow> (xml_token_type \<times> xml_reader \<times> tok) option" where
  "xml_get_token xr =
     (case xr_state xr of
        Error \<Rightarrow> Some (NoToken, xr, None)
      | Initial \<Rightarrow> xml_get_token_initial xr None
      | Tag \<Rightarrow> xml_get_token_tag xr None)"

definition xml_get_identifier :: "xml_reader \<Rightarrow> (bool \<times> xml_reader \<times> tok) option" where
  "xml_get_identifier xr = do { (token, xr1, res) \<leftarrow> xml_get_token xr; Some (token = Identifier, xr1, res) }"

section \<open>Elements and documents\<close>

partial_function (option) tag_attributes ::
    "xml_reader \<Rightarrow> xml_token_type \<Rightarrow> tok \<Rightarrow> xml_node \<Rightarrow> (xml_token_type \<times> xml_reader \<times> xml_node) option" where
  [code]: "tag_attributes xr token value node =
     (if token = RightAngle \<or> token = RightAngleQ \<or> token = RightAngleSlash then Some (token, xr, node)
      else if token \<noteq> Identifier then Some (NoToken, xml_parse_error xr, node)
      else do {
        name \<leftarrow> value;
        (token1, xr1, value1) \<leftarrow> xml_get_token xr;
        (if token1 \<noteq> Equals then tag_attributes xr1 token1 value1 (xml_node_add_attr node (cstr name) None)
         else do {
           (token2, xr2, value2) \<leftarrow> xml_get_token xr1;
           (if token2 \<noteq> QuotedString then Some (NoToken, xml_parse_error xr2, node)
            else do {
              (token3, xr3, value3) \<leftarrow> xml_get_token xr2;
              tag_attributes xr3 token3 value3 (xml_node_add_attr node (cstr name) (map_option cstr value2)) }) }) })"

definition xml_get_tag_attributes :: "xml_reader \<Rightarrow> xml_node \<Rightarrow> (xml_token_type \<times> xml_reader \<times> xml_node) option" where
  "xml_get_tag_attributes xr node = do {
     (token, xr1, value) \<leftarrow> xml_get_token xr;
     tag_attributes xr1 token value node }"

partial_function (option) doctype_loop :: "xml_reader \<Rightarrow> (bool \<times> xml_reader) option" where
  [code]: "doctype_loop xr = do {
     (token, xr1, value) \<leftarrow> xml_get_token xr;
     (if token = RightAngle then Some (True, xr1)
      else let xr2 = (if token = Identifier \<and> xr_doctype xr1 = None then xr1\<lparr>xr_doctype := map_option cstr value\<rparr> else xr1)
           in if token \<noteq> Identifier \<and> token \<noteq> QuotedString then Some (False, xml_parse_error xr2)
              else doctype_loop xr2) }"

text \<open>The only effect of a processing instruction is a warning: the result says whether there is one.\<close>

definition xml_process_pi_node :: "xml_node \<Rightarrow> bool option" where
  "xml_process_pi_node pi = do {
     eq \<leftarrow> strcmp_eq (xn_name pi) (Some ''xml'');
     Some (eq \<and> (case xml_node_get_attr pi ''version'' of None \<Rightarrow> False | Some v \<Rightarrow> v \<noteq> ''1.0'')) }"

definition xml_node_here :: "xml_reader \<Rightarrow> tok \<Rightarrow> xml_node" where
  "xml_node_here xr ident =
     xml_node_set_location (xml_node_new (map_option cstr ident)) (Some (xr_filename xr, xr_line xr))"

text \<open>\<open>is_top\<close> says that \<open>cur\<close> has no parent.  The code adds a child to its parent before it reads the
  child's attributes and contents; an error drops the whole tree, so the child is added here when it is
  complete.  The result is the element, or \<^const>\<open>None\<close> for FALSE.\<close>

partial_function (option) xml_process_element_nested ::
    "xml_reader \<Rightarrow> bool \<Rightarrow> xml_node \<Rightarrow> (xml_node option \<times> xml_reader) option" where
  [code]: "xml_process_element_nested xr is_top cur = do {
     (token, xr1, value) \<leftarrow> xml_get_token xr;
     (if token = CData then xml_process_element_nested xr1 is_top (xml_node_set_cdata cur (map_option cstr value))
      else if token = LeftAngleExclam then do {
        (ok, xr2, ident) \<leftarrow> xml_get_identifier xr1;
        (if \<not> ok then Some (None, xml_parse_error xr2)
         else do {
           ni_assert (map_option cstr ident = Some ''DOCTYPE'');
           (ok, xr3) \<leftarrow> doctype_loop xr2;
           (if ok then xml_process_element_nested xr3 is_top cur else Some (None, xr3)) }) }
      else if token = LeftAngle then do {
        (ok, xr2, ident) \<leftarrow> xml_get_identifier xr1;
        (if \<not> ok then Some (None, xml_parse_error xr2)
         else do {
           (token2, xr3, child) \<leftarrow> xml_get_tag_attributes xr2 (xml_node_here xr2 ident);
           (if token2 = NoToken then Some (None, xml_parse_error xr3)
            else if token2 = RightAngle then do {
              (r, xr4) \<leftarrow> xml_process_element_nested xr3 False child;
              (if r = None then Some (None, xr4)
               else do { child1 \<leftarrow> r; xml_process_element_nested xr4 is_top (xml_node_add_child cur child1) }) }
            else if token2 = RightAngleSlash then xml_process_element_nested xr3 is_top (xml_node_add_child cur child)
            else Some (None, xml_parse_error xr3)) }) }
      else if token = LeftAngleSlash then do {
        (ok, xr2, ident) \<leftarrow> xml_get_identifier xr1;
        (if \<not> ok then Some (None, xml_parse_error xr2)
         else do {
           (token2, xr3, _) \<leftarrow> xml_get_token xr2;
           (if token2 \<noteq> RightAngle \<or> is_top then Some (None, xml_parse_error xr3)
            else do {
              eq \<leftarrow> strcmp_eq (xn_name cur) (map_option cstr ident);
              Some (if \<not> eq then (None, xml_parse_error xr3) else (Some cur, xr3)) }) }) }
      else if token = LeftAngleQ then do {
        (ok, xr2, ident) \<leftarrow> xml_get_identifier xr1;
        (if \<not> ok then Some (None, xml_parse_error xr2)
         else do {
           (token2, xr3, child) \<leftarrow> xml_get_tag_attributes xr2 (xml_node_here xr2 ident);
           (if token2 = RightAngleQ then do {
              _ \<leftarrow> xml_process_pi_node child;
              xml_process_element_nested xr3 is_top cur }
            else Some (None, xml_parse_error xr3)) }) }
      else if token = EndOfDocument then Some (if is_top then (Some cur, xr1) else (None, xml_parse_error xr1))
      else if token = NoToken then Some (None, xr1)
      else Some (None, xml_parse_error xr1)) }"

definition xml_process_document :: "xml_reader \<Rightarrow> (xml_document option \<times> xml_reader) option" where
  "xml_process_document xr = do {
     root \<leftarrow> xml_document_root xml_document_new;
     (r, xr1) \<leftarrow> xml_process_element_nested xr True
                   (xml_node_set_location root (Some (xr_filename xr, xr_line xr)));
     Some (map_option (\<lambda>root. \<lparr>xd_dtd = None, xd_root = Some root\<rparr>) r, xr1) }"

definition xml_process_reader :: "xml_reader \<Rightarrow> (xml_document option \<times> xml_reader) option" where
  "xml_process_reader xr = do {
     (doc, xr1) \<leftarrow> xml_process_document xr;
     Some (if xml_reader_destroy xr1 < 0 then None else doc, xr1) }"

definition xml_document_from_buffer :: "ni_buffer \<Rightarrow> cstring option \<Rightarrow> (xml_document option \<times> xml_reader) option" where
  "xml_document_from_buffer in_buffer location = xml_process_reader (xml_reader_init_buffer in_buffer location)"

definition xml_document_from_string :: "cstring option \<Rightarrow> cstring option \<Rightarrow> xml_document option option" where
  "xml_document_from_string string location =
     (case string of None \<Rightarrow> Some None
      | Some s \<Rightarrow> map_option fst
          (xml_document_from_buffer (ni_buffer_init_reader (map char_byte s) (of_nat (length s))) location))"

definition xml_document_scan :: "xml_file \<Rightarrow> cstring option \<Rightarrow> (xml_document option \<times> xml_reader) option" where
  "xml_document_scan fp location = xml_process_reader (xml_reader_init_file fp location)"

definition xml_document_read ::
    "(cstring \<Rightarrow> xml_file option) \<Rightarrow> xml_file \<Rightarrow> cstring \<Rightarrow> (xml_document option) option" where
  "xml_document_read fs stdin filename =
     (if filename = ''-'' then map_option fst (xml_document_scan stdin None)
      else (case xml_reader_open fs filename of None \<Rightarrow> Some None | Some xr \<Rightarrow> map_option fst (xml_process_reader xr)))"

text \<open>A reader that has failed is left as it is.\<close>

definition xml_node_scan :: "xml_file \<Rightarrow> cstring option \<Rightarrow> (xml_node option \<times> xml_reader) option" where
  "xml_node_scan fp location = do {
     let xr = xml_reader_init_file fp location;
     (r, xr1) \<leftarrow> xml_process_element_nested xr True
                   (xml_node_set_location (xml_node_new None) (Some (xr_filename xr, xr_line xr)));
     Some (if r = None then None else if xml_reader_destroy xr1 < 0 then None else r, xr1) }"

definition xml_node_location :: "xml_node \<Rightarrow> cstring" where
  "xml_node_location node =
     (case xn_location node of
        Some (f, line) \<Rightarrow> take 4095 (f @ '':'' @ print_dec (unat line))
      | None \<Rightarrow> ''<orphan xml node>'')"

end
