(* ===== verification/XmlLex.thy ===== *)
theory XmlLex
  imports XmlRead
begin

text \<open>
  The tokens of the XML reader, character by character: \<open>rd xr cs st\<close> says that the reader is in state
  \<open>st\<close> in front of the characters \<open>cs\<close>, whether they come from a buffer or from a stream; every function of
  the tokenizer has a lemma about the text it expects there and the reader it leaves behind.
\<close>

section \<open>The reader in front of a text\<close>

definition rd :: "xml_reader \<Rightarrow> cstring \<Rightarrow> xml_parser_state \<Rightarrow> bool" where
  "rd xr cs st \<longleftrightarrow> xr_state xr = st \<and>
     (case xr_source xr of
        In_buffer b \<Rightarrow> buf_wf b \<and> map byte_char (buf_bytes b) = cs
      | In_file f \<Rightarrow> \<not> xf_bad f \<and> \<not> xf_error f \<and> NUL \<notin> set cs \<and>
          (case xf_pos f of None \<Rightarrow> xf_rest f = cs
           | Some p \<Rightarrow> p \<le> length (xf_buffer f) \<and> drop p (xf_buffer f) @ xf_rest f = cs))"

definition ascii :: "char \<Rightarrow> bool" where "ascii c \<longleftrightarrow> c_code c < 128"

lemma rd_state: "rd xr cs st \<Longrightarrow> xr_state xr = st"
  by (simp add: rd_def)

lemma rd_set_state: "rd xr cs st \<Longrightarrow> rd (xr\<lparr>xr_state := s\<rparr>) cs s"
  by (simp add: rd_def)

lemma line_split_nil: "0 < n \<Longrightarrow> (fst (line_split n s) = []) = (s = [])"
  by (induction n s rule: line_split.induct) (auto split: prod.splits)

lemma xf_fgets_some:
  assumes "\<not> xf_bad f" and "xf_rest f \<noteq> []"
  shows "\<exists>l r. xf_fgets f = Some (f\<lparr>xf_buffer := l, xf_rest := r\<rparr>) \<and> l \<noteq> [] \<and> l @ r = xf_rest f"
proof -
  obtain l r where lr: "line_split (XML_READER_BUFSZ - 1) (xf_rest f) = (l, r)" by (cases "line_split (XML_READER_BUFSZ - 1) (xf_rest f)")
  have "l \<noteq> []" using line_split_nil [of "XML_READER_BUFSZ - 1" "xf_rest f"] assms(2) lr by (simp add: XML_READER_BUFSZ_def)
  then have "xf_fgets f = Some (f\<lparr>xf_buffer := l, xf_rest := r\<rparr>)" using assms(1) lr by (simp add: xf_fgets_def)
  then show ?thesis using \<open>l \<noteq> []\<close> line_split_append [OF lr] by blast
qed

lemma xf_fgets_none: "xf_rest f = [] \<Longrightarrow> xf_fgets f = None"
  using line_split_nil [of "XML_READER_BUFSZ - 1" "[]"]
  by (auto simp: xf_fgets_def Let_def XML_READER_BUFSZ_def split: prod.splits)

text \<open>Inside the block a character is read from its position.\<close>

lemma xf_getc_block:
  assumes "xf_pos f = Some p" and "p < length (xf_buffer f)" and "xf_buffer f ! p \<noteq> NUL"
  shows "\<exists>line'. xf_getc f line = Some (Some (xf_buffer f ! p), f\<lparr>xf_pos := Some (p + 1)\<rparr>, line')"
  using assms by (subst xf_getc.simps) (simp add: arr_get_def nth_append Let_def)

definition xf_at :: "xml_file \<Rightarrow> cstring \<Rightarrow> bool" where
  "xf_at f cs \<longleftrightarrow> \<not> xf_bad f \<and> \<not> xf_error f \<and> NUL \<notin> set cs \<and>
     (case xf_pos f of None \<Rightarrow> xf_rest f = cs
      | Some p \<Rightarrow> p \<le> length (xf_buffer f) \<and> drop p (xf_buffer f) @ xf_rest f = cs)"

lemma xf_getc_at:
  assumes "xf_at f (c # cs)"
  shows "\<exists>f' p line'. xf_getc f line = Some (Some c, f'\<lparr>xf_pos := Some (p + 1)\<rparr>, line') \<and> xf_at (f'\<lparr>xf_pos := Some (p + 1)\<rparr>) cs
           \<and> xf_at (f'\<lparr>xf_pos := Some p\<rparr>) (c # cs) \<and> p < length (xf_buffer f') \<and> xf_buffer f' ! p = c"
proof -
  have block: "\<exists>line'. xf_getc g ln = Some (Some c, g\<lparr>xf_pos := Some (p + 1)\<rparr>, line') \<and> xf_at (g\<lparr>xf_pos := Some (p + 1)\<rparr>) cs
           \<and> xf_at (g\<lparr>xf_pos := Some p\<rparr>) (c # cs) \<and> p < length (xf_buffer g) \<and> xf_buffer g ! p = c"
    if at: "xf_at g (c # cs)" "xf_pos g = Some p" "p < length (xf_buffer g)" for g p ln
  proof -
    have "drop p (xf_buffer g) = xf_buffer g ! p # drop (Suc p) (xf_buffer g)" using at(3) by (rule Cons_nth_drop_Suc [symmetric])
    then have e: "xf_buffer g ! p = c" "drop (Suc p) (xf_buffer g) @ xf_rest g = cs" "c \<noteq> NUL"
      using at by (auto simp: xf_at_def)
    show ?thesis using xf_getc_block [OF at(2,3)] e at by (auto simp: xf_at_def)
  qed
  have refill: "\<exists>f2. xf_fgets f1 = Some f2 \<and> xf_at (f2\<lparr>xf_pos := Some 0\<rparr>) (c # cs) \<and> 0 < length (xf_buffer f2)"
    if "xf_at f1 (c # cs)" "xf_pos f1 = None" for f1
    using xf_fgets_some [of f1] that by (fastforce simp: xf_at_def)
  show ?thesis
  proof (cases "\<exists>p. xf_pos f = Some p \<and> p < length (xf_buffer f)")
    case True
    then show ?thesis using block assms by blast
  next
    case False
    then have e: "xf_pos f = None \<or> xf_pos f = Some (length (xf_buffer f))"
      using assms by (auto simp: xf_at_def split: option.splits)
    then have "xf_at (f\<lparr>xf_pos := None\<rparr>) (c # cs)" using assms by (auto simp: xf_at_def)
    then obtain f2 where f2: "xf_fgets (f\<lparr>xf_pos := None\<rparr>) = Some f2" "xf_at (f2\<lparr>xf_pos := Some 0\<rparr>) (c # cs)" "0 < length (xf_buffer f2)"
      using refill by fastforce
    have "xf_fgets f = Some f2" if "xf_pos f = None"
    proof -
      have "f\<lparr>xf_pos := None\<rparr> = f" using that by (cases f) simp
      then show ?thesis using f2(1) by simp
    qed
    then have "xf_getc f line = xf_getc (f2\<lparr>xf_pos := Some 0\<rparr>) line"
      using e f2(1) by (subst xf_getc.simps) (auto simp: arr_get_def NUL_def NL_def)
    then show ?thesis using block [of "f2\<lparr>xf_pos := Some 0\<rparr>" 0 line] f2 by auto
  qed
qed

lemma xf_getc_end: "xf_at f [] \<Longrightarrow> \<exists>f' line'. xf_getc f line = Some (None, f', line') \<and> xf_at f' []"
  by (subst xf_getc.simps)
    (auto simp: xf_at_def xf_fail_def xf_fgets_none arr_get_def NUL_def NL_def split: option.splits)

lemma rd_source:
  "rd xr cs st \<longleftrightarrow> xr_state xr = st \<and>
     (case xr_source xr of In_buffer b \<Rightarrow> buf_wf b \<and> map byte_char (buf_bytes b) = cs | In_file f \<Rightarrow> xf_at f cs)"
  by (simp add: rd_def xf_at_def split: xml_source.split)

lemma rd_getc:
  assumes "rd xr (c # cs) st"
  shows "\<exists>xr'. xml_getc xr = Some (Some c, xr') \<and> rd xr' cs st
           \<and> (ascii c \<longrightarrow> (\<exists>xr''. xml_ungetc xr' (Some c) = Some xr'' \<and> rd xr'' (c # cs) st))"
proof (cases "xr_source xr")
  case (In_buffer b)
  then obtain x rest where b: "buf_wf b" "buf_bytes b = x # rest" "byte_char x = c" "map byte_char rest = cs" "xr_state xr = st"
    using assms by (auto simp: rd_def)
  note g = ni_buffer_getc_ok [OF b(1,2)]
  have x: "char_of (nat (uint x)) = c" using b(3) by (simp add: byte_char_def)
  have "char_byte c = x" using b(3) by auto
  then have u: "ascii c \<Longrightarrow> ni_buffer_ungetc (b\<lparr>buf_head := buf_head b + 1\<rparr>) (char_byte c) = Some (0, b)"
    using ni_buffer_ungetc_getc [OF b(1,2)] unat_char_byte [of c] by (simp add: ascii_def)
  show ?thesis using In_buffer g x b u
    by (auto simp: xml_getc_def xml_ungetc_def rd_def EOF_def uint_not_EOF cc_byte_def)
next
  case (In_file f)
  then have at: "xf_at f (c # cs)" "xr_state xr = st" using assms by (auto simp: rd_source)
  obtain f' p line' where g: "xf_getc f (xr_line xr) = Some (Some c, f'\<lparr>xf_pos := Some (p + 1)\<rparr>, line')"
      "xf_at (f'\<lparr>xf_pos := Some (p + 1)\<rparr>) cs" "xf_at (f'\<lparr>xf_pos := Some p\<rparr>) (c # cs)" "p < length (xf_buffer f')" "xf_buffer f' ! p = c"
    using xf_getc_at [OF at(1), of "xr_line xr"] by blast
  show ?thesis using In_file g at(2)
    by (auto simp: xml_getc_def xml_ungetc_def rd_source arr_get_def nth_append)
qed

lemma rd_eof: "rd xr [] st \<Longrightarrow> \<exists>xr'. xml_getc xr = Some (None, xr') \<and> rd xr' [] st"
proof (cases "xr_source xr")
  case (In_buffer b)
  assume "rd xr [] st"
  then show ?thesis using In_buffer ni_buffer_getc_eof [of b] by (auto simp: rd_def xml_getc_def)
next
  case (In_file f)
  assume "rd xr [] st"
  then show ?thesis using In_file xf_getc_end [of f "xr_line xr"] by (auto simp: rd_source xml_getc_def)
qed

lemma rd_buffer: "buf_wf b \<Longrightarrow> rd (xml_reader_init_buffer b loc) (map byte_char (buf_bytes b)) Initial"
  by (simp add: rd_def xml_reader_init_buffer_def xml_reader_init_def)

lemma rd_string: "length s < 2 ^ 64 \<Longrightarrow>
  rd (xml_reader_init_buffer (ni_buffer_init_reader (map char_byte s) (of_nat (length s))) loc) s Initial"
  by (simp add: rd_def xml_reader_init_buffer_def xml_reader_init_def buf_wf_def ni_buffer_init_reader_def
      ni_buffer_init_def buf_bytes_def unat_of_nat comp_def)

lemma rd_stream: "NUL \<notin> set s \<Longrightarrow> rd (xml_reader_init_file (stream_of s False) loc) s Initial"
  by (simp add: rd_def xml_reader_init_file_def xml_reader_init_def stream_of_def)


section \<open>Characters and token buffers\<close>

definition tok_puts :: "tok \<Rightarrow> cstring \<Rightarrow> tok" where
  "tok_puts t s = foldl tok_putc t s"

lemma tok_puts_simps [simp]: "tok_puts t [] = t" "tok_puts t (c # s) = tok_puts (tok_putc t c) s"
  by (simp_all add: tok_puts_def)

lemma tok_puts_append: "tok_puts t (a @ b) = tok_puts (tok_puts t a) b"
  by (simp add: tok_puts_def)

lemma tok_puts_Some: "tok_puts (Some a) s = Some (a @ s)"
  by (induction s arbitrary: a) (simp_all add: tok_putc_def)

lemma tok_puts_None: "tok_puts None s = (if s = [] then None else Some s)"
  by (cases s) (simp_all add: tok_putc_def tok_puts_Some)

lemma tok_puts_putc: "tok_puts (tok_putc None c) s = Some (c # s)"
  by (simp add: tok_putc_def tok_puts_Some)

lemma space_ascii: "c_isspace c \<Longrightarrow> ascii c"
  by (auto simp: c_isspace_def ascii_def)

text \<open>The next character, if any, ends the piece before it and can be put back.\<close>

definition ends_with :: "(char \<Rightarrow> bool) \<Rightarrow> cstring \<Rightarrow> bool" where
  "ends_with P cs \<longleftrightarrow> (case cs of [] \<Rightarrow> True | c # _ \<Rightarrow> \<not> P c \<and> ascii c)"

lemma rd_skip_space:
  assumes "list_all c_isspace ws" "ends_with c_isspace cs" "rd xr (ws @ cs) st"
  shows "\<exists>xr'. xml_skip_space xr t = Some (xr', tok_puts t ws) \<and> rd xr' cs st"
  using assms
proof (induction ws arbitrary: xr t)
  case Nil
  show ?case
  proof (cases cs)
    case Nil
    then show ?thesis using Nil.prems rd_eof [of xr st] by (subst xml_skip_space.simps) auto
  next
    case (Cons c cs')
    then show ?thesis using Nil.prems rd_getc [of xr c cs' st]
      by (subst xml_skip_space.simps) (fastforce simp: ends_with_def)
  qed
next
  case (Cons w ws)
  obtain xr1 where g: "xml_getc xr = Some (Some w, xr1)" "rd xr1 (ws @ cs) st"
    using rd_getc [of xr w "ws @ cs" st] Cons.prems by auto
  show ?case using Cons.IH [of xr1 "tok_putc t w"] g Cons.prems by (subst xml_skip_space.simps) auto
qed

lemma rd_identifier_loop:
  assumes "list_all ident_char s" "ends_with ident_char cs" "rd xr (s @ cs) st"
  shows "\<exists>xr'. identifier_loop xr t = Some (xr', tok_puts t s) \<and> rd xr' cs st"
  using assms
proof (induction s arbitrary: xr t)
  case Nil
  show ?case
  proof (cases cs)
    case Nil
    then show ?thesis using Nil.prems rd_eof [of xr st] by (subst identifier_loop.simps) auto
  next
    case (Cons c cs')
    then show ?thesis using Nil.prems rd_getc [of xr c cs' st]
      by (subst identifier_loop.simps) (fastforce simp: ends_with_def)
  qed
next
  case (Cons w s)
  obtain xr1 where g: "xml_getc xr = Some (Some w, xr1)" "rd xr1 (s @ cs) st"
    using rd_getc [of xr w "s @ cs" st] Cons.prems by auto
  show ?case using Cons.IH [of xr1 "tok_putc t w"] g Cons.prems by (subst identifier_loop.simps) auto
qed

lemma rd_quoted_loop:
  assumes "oc \<notin> set s" "rd xr (s @ oc # cs) st"
  shows "\<exists>xr'. quoted_loop xr oc t = Some (QuotedString, xr', tok_puts t s) \<and> rd xr' cs st"
  using assms
proof (induction s arbitrary: xr t)
  case Nil
  then show ?case using rd_getc [of xr oc cs st] by (subst quoted_loop.simps) auto
next
  case (Cons w s)
  obtain xr1 where g: "xml_getc xr = Some (Some w, xr1)" "rd xr1 (s @ oc # cs) st"
    using rd_getc [of xr w "s @ oc # cs" st] Cons.prems by auto
  show ?case using Cons.IH [of xr1 "tok_putc t w"] g Cons.prems by (subst quoted_loop.simps) auto
qed

subsection \<open>Entities\<close>

lemma rd_entity_loop:
  assumes "list_all (\<lambda>c. c \<noteq> CHR '';'' \<and> \<not> c_isspace c) n" "length e + length n < 127" "rd xr (n @ CHR '';'' # cs) st"
  shows "\<exists>xr'. entity_loop xr e = Some (Some (e @ n), xr') \<and> rd xr' cs st"
  using assms
proof (induction n arbitrary: xr e)
  case Nil
  then show ?case using rd_getc [of xr "CHR '';''" cs st] by (subst entity_loop.simps) auto
next
  case (Cons w n)
  obtain xr1 where g: "xml_getc xr = Some (Some w, xr1)" "rd xr1 (n @ CHR '';'' # cs) st"
    using rd_getc [of xr w "n @ CHR '';'' # cs" st] Cons.prems by auto
  show ?case using Cons.IH [of "e @ [w]" xr1] g Cons.prems by (subst entity_loop.simps) auto
qed

text \<open>What the writer makes of one character, without the ampersand.\<close>

definition esc_char :: "char \<Rightarrow> cstring" where
  "esc_char c = (case escmap c of Some (Some r) \<Rightarrow> r | _ \<Rightarrow> [c])"

definition esc :: "cstring \<Rightarrow> cstring" where "esc s = concat (map esc_char s)"

lemma esc_simps [simp]: "esc [] = []" "esc (c # s) = esc_char c @ esc s" "esc (a @ b) = esc a @ esc b"
  by (simp_all add: esc_def)

lemma esc_char_special:
  "esc_char (CHR ''<'') = ''&lt;''" "esc_char (CHR ''>'') = ''&gt;''" "esc_char (CHR ''&'') = ''&amp;''"
  by (simp_all add: esc_char_def escmap_def c_code_def)

lemma esc_char_plain: "c \<noteq> CHR ''<'' \<Longrightarrow> c \<noteq> CHR ''>'' \<Longrightarrow> c \<noteq> CHR ''&'' \<Longrightarrow> esc_char c = [c]"
  by (simp add: esc_char_def escmap_def)

lemma escape_copy_esc: "list_all ascii s \<Longrightarrow> escape_copy s = Some (esc s)"
  by (induction s) (auto simp: esc_char_def escmap_def ascii_def)

lemma escape_expand_some: "list_all ascii s \<Longrightarrow> \<exists>n. escape_expand s = Some n \<and> (n = 0 \<longrightarrow> esc s = s)"
proof (induction s)
  case (Cons c s)
  then obtain n where "escape_expand s = Some n" "n = 0 \<longrightarrow> esc s = s" by auto
  then show ?case using Cons.prems by (auto simp: esc_char_def escmap_def ascii_def)
qed simp

lemma xml_escape_entities_esc: "list_all ascii s \<Longrightarrow> xml_escape_entities s = Some (esc s)"
proof -
  assume a: "list_all ascii s"
  obtain n where n: "escape_expand s = Some n" "n = 0 \<longrightarrow> esc s = s" using escape_expand_some [OF a] by blast
  show ?thesis
  proof (cases "n = 0")
    case True
    then show ?thesis using n by (simp add: xml_escape_entities_def del: escape_expand.simps)
  next
    case False
    then show ?thesis using n escape_copy_esc [OF a] by (simp add: xml_escape_entities_def)
  qed
qed

lemma esc_space: "list_all c_isspace s \<Longrightarrow> esc s = s"
proof (induction s)
  case (Cons c s)
  have "c \<noteq> CHR ''<''" "c \<noteq> CHR ''>''" "c \<noteq> CHR ''&''" using Cons.prems by (auto simp: c_isspace_def c_code_def)
  then show ?case using Cons by (simp add: esc_char_plain)
qed simp

lemma entity_names [simp]:
  "strcasecmp_eq ''lt'' ''lt''" "\<not> strcasecmp_eq ''gt'' ''lt''" "strcasecmp_eq ''gt'' ''gt''"
  "\<not> strcasecmp_eq ''amp'' ''lt''" "\<not> strcasecmp_eq ''amp'' ''gt''" "strcasecmp_eq ''amp'' ''amp''"
  by (simp_all add: strcasecmp_eq_def c_tolower_def c_isupper_def c_code_def)

lemma rd_expand:
  assumes "rd xr (n @ CHR '';'' # cs) st" "n = ''lt'' \<and> c = CHR ''<'' \<or> n = ''gt'' \<and> c = CHR ''>'' \<or> n = ''amp'' \<and> c = CHR ''&''"
  shows "\<exists>xr'. xml_expand_entity xr t = Some (True, xr', tok_putc t c) \<and> rd xr' cs st"
proof -
  have n: "list_all (\<lambda>c. c \<noteq> CHR '';'' \<and> \<not> c_isspace c) n" "length ([] :: cstring) + length n < 127" "n \<noteq> []" "cstr n = n" "entity_char n = Some c"
    using assms(2) by (auto simp: c_isspace_def c_code_def cstr_def NUL_def entity_char_def)
  obtain xr' where "entity_loop xr [] = Some (Some n, xr')" "rd xr' cs st"
    using rd_entity_loop [OF n(1,2) assms(1)] by auto
  then show ?thesis using n(3-5) by (simp add: xml_expand_entity_def)
qed


section \<open>Tokens between the tags\<close>

text \<open>An escaped text up to the next tag; its first character has been read.\<close>

lemma esc_char_cases:
  "(\<exists>n. esc_char c = CHR ''&'' # n @ '';'' \<and> (n = ''lt'' \<and> c = CHR ''<'' \<or> n = ''gt'' \<and> c = CHR ''>'' \<or> n = ''amp'' \<and> c = CHR ''&''))
   \<or> esc_char c = [c] \<and> c \<noteq> CHR ''<'' \<and> c \<noteq> CHR ''&''"
proof (cases "c = CHR ''<'' \<or> c = CHR ''>'' \<or> c = CHR ''&''")
  case True
  then show ?thesis using esc_char_special by auto
next
  case False
  then show ?thesis by (simp add: esc_char_plain)
qed

text \<open>One step of the loop: a character or an entity.\<close>

lemma rd_cdata_char:
  assumes "esc_char c = h # es" "rd xr (es @ cs) st"
  shows "\<exists>xr1. rd xr1 cs st \<and> cdata_loop xr h t =
           (do { (cc, xr2) \<leftarrow> xml_getc xr1;
                 (case cc of None \<Rightarrow> Some (True, xr2, tok_putc t c) | Some c' \<Rightarrow> cdata_loop xr2 c' (tok_putc t c)) })"
proof -
  consider n where "esc_char c = CHR ''&'' # n @ '';''" "n = ''lt'' \<and> c = CHR ''<'' \<or> n = ''gt'' \<and> c = CHR ''>'' \<or> n = ''amp'' \<and> c = CHR ''&''"
    | "esc_char c = [c]" "c \<noteq> CHR ''<''" "c \<noteq> CHR ''&''"
    using esc_char_cases [of c] by blast
  then show ?thesis
  proof cases
    case 1
    then have h: "h = CHR ''&''" "es = n @ '';''" using assms(1) by auto
    obtain xr1 where "xml_expand_entity xr t = Some (True, xr1, tok_putc t c)" "rd xr1 cs st"
      using rd_expand [of xr n cs st c t] assms(2) h 1(2) by auto
    then show ?thesis using h by (subst cdata_loop.simps) auto
  next
    case 2
    then show ?thesis using assms by (subst cdata_loop.simps) auto
  qed
qed

lemma esc_nil [simp]: "esc s = [] \<longleftrightarrow> s = []"
proof (cases s)
  case (Cons c u)
  have "esc_char c \<noteq> []" using esc_char_cases [of c] by auto
  then show ?thesis using Cons by simp
qed simp

lemma rd_cdata_loop:
  assumes "esc s = c # e" "rd xr (e @ CHR ''<'' # cs) st"
  shows "\<exists>xr'. cdata_loop xr c t = Some (True, xr', tok_puts t s) \<and> rd xr' (CHR ''<'' # cs) st"
  using assms
proof (induction s arbitrary: xr c e t)
  case Nil
  then show ?case by simp
next
  case (Cons x s)
  obtain h es where ht: "esc_char x = h # es" using esc_char_cases [of x] by auto
  then have ce: "c = h" "e = es @ esc s" using Cons.prems(1) by auto
  obtain xr1 where x1: "rd xr1 (esc s @ CHR ''<'' # cs) st" "cdata_loop xr h t =
           (do { (cc, xr2) \<leftarrow> xml_getc xr1;
                 (case cc of None \<Rightarrow> Some (True, xr2, tok_putc t x) | Some c' \<Rightarrow> cdata_loop xr2 c' (tok_putc t x)) })"
    using rd_cdata_char [OF ht, of xr "esc s @ CHR ''<'' # cs" st t] Cons.prems(2) ce by auto
  show ?case
  proof (cases "esc s")
    case Nil
    then have s: "s = []" by simp
    have lt: "ascii (CHR ''<'')" by (simp add: ascii_def c_code_def)
    obtain xr2 xr3 where g: "xml_getc xr1 = Some (Some (CHR ''<''), xr2)" "xml_ungetc xr2 (Some (CHR ''<'')) = Some xr3" "rd xr3 (CHR ''<'' # cs) st"
      using rd_getc [of xr1 "CHR ''<''" cs st] x1(1) Nil lt by auto
    have "cdata_loop xr2 (CHR ''<'') (tok_putc t x) = Some (True, xr3, tok_putc t x)" using g(2) by (subst cdata_loop.simps) simp
    then show ?thesis using x1(2) g ce s by simp
  next
    case (Cons c' e')
    then obtain xr2 where g: "xml_getc xr1 = Some (Some c', xr2)" "rd xr2 (e' @ CHR ''<'' # cs) st"
      using rd_getc [of xr1 c' "e' @ CHR ''<'' # cs" st] x1(1) by auto
    then show ?thesis using Cons.IH [OF Cons g(2), of "tok_putc t x"] x1(2) ce by simp
  qed
qed

text \<open>A text that is not all white space is a CData token.\<close>

lemma rd_token_cdata:
  assumes "\<not> list_all c_isspace s" "list_all ascii s" "trim_text s = Some d" "rd xr (esc s @ CHR ''<'' # cs) Initial"
  shows "\<exists>xr'. xml_get_token xr = Some (CData, xr', Some d) \<and> rd xr' (CHR ''<'' # cs) Initial"
proof -
  define ws u where "ws = takeWhile c_isspace s" and "u = dropWhile c_isspace s"
  have s: "s = ws @ u" by (simp add: ws_def u_def)
  have ws: "list_all c_isspace ws" by (auto simp: ws_def list_all_iff dest: set_takeWhileD)
  have "u \<noteq> []" using assms(1) by (auto simp: u_def list_all_iff dropWhile_eq_Nil_conv)
  then obtain x u' where u: "u = x # u'" "\<not> c_isspace x" by (metis hd_dropWhile list.exhaust list.sel(1) u_def)
  then obtain h es where ht: "esc_char x = h # es" "\<not> c_isspace h" "ascii h"
    using esc_char_cases [of x] assms(2) s by (auto simp: c_isspace_def c_code_def ascii_def)
  have r: "rd xr (ws @ h # es @ esc u' @ CHR ''<'' # cs) Initial" using assms(4) s u ht(1) ws by (simp add: esc_space)
  obtain xr1 where x1: "xml_skip_space xr None = Some (xr1, tok_puts None ws)" "rd xr1 (h # es @ esc u' @ CHR ''<'' # cs) Initial"
    using rd_skip_space [OF ws _ r] ht(2,3) by (auto simp: ends_with_def)
  obtain xr2 where x2: "xml_getc xr1 = Some (Some h, xr2)" "rd xr2 (es @ esc u' @ CHR ''<'' # cs) Initial"
    using rd_getc [OF x1(2)] by auto
  obtain xr3 where x3: "cdata_loop xr2 h (tok_puts None ws) = Some (True, xr3, tok_puts (tok_puts None ws) u)" "rd xr3 (CHR ''<'' # cs) Initial"
    using rd_cdata_loop [of u h "es @ esc u'" xr2 cs Initial "tok_puts None ws"] x2(2) u ht(1) by auto
  have t: "tok_puts (tok_puts None ws) u = Some s" unfolding tok_puts_append [symmetric] s [symmetric] using s u(1) by (simp add: tok_puts_None)
  have "h \<noteq> CHR ''<''" using ht(1) esc_char_cases [of x] by auto
  then show ?thesis using x1 x2 x3 t assms(3) rd_state [OF assms(4)]
    by (simp add: xml_get_token_def xml_get_token_initial.simps)
qed

text \<open>White space and a tag.\<close>

lemma rd_skip_to_tag:
  assumes "list_all c_isspace ws" "rd xr (ws @ CHR ''<'' # cs) Initial"
  shows "\<exists>xr1 xr2 t. xml_skip_space xr None = Some (xr1, t) \<and> xml_getc xr1 = Some (Some (CHR ''<''), xr2) \<and> rd xr2 cs Initial"
proof -
  have "ends_with c_isspace (CHR ''<'' # cs)" by (simp add: ends_with_def ascii_def c_isspace_def c_code_def)
  then show ?thesis using rd_skip_space [OF assms(1) _ assms(2), of None] rd_getc [of _ "CHR ''<''" cs Initial] by metis
qed

lemma rd_token_left:
  assumes "list_all c_isspace ws" "rd xr (ws @ CHR ''<'' # c # cs) Initial"
    "ascii c" "c \<noteq> CHR ''/''" "c \<noteq> CHR ''?''" "c \<noteq> CHR ''!''"
  shows "\<exists>xr' t. xml_get_token xr = Some (LeftAngle, xr', t) \<and> rd xr' (c # cs) Tag"
proof -
  obtain xr1 xr2 t where g: "xml_skip_space xr None = Some (xr1, t)" "xml_getc xr1 = Some (Some (CHR ''<''), xr2)" "rd xr2 (c # cs) Initial"
    using rd_skip_to_tag [OF assms(1,2)] by blast
  obtain xr3 xr4 where "xml_getc (xr2\<lparr>xr_state := Tag\<rparr>) = Some (Some c, xr3)" "xml_ungetc xr3 (Some c) = Some xr4" "rd xr4 (c # cs) Tag"
    using rd_getc [OF rd_set_state [OF g(3), of Tag]] assms(3) by auto
  then show ?thesis using g assms(4-6) rd_state [OF assms(2)] rd_state [OF g(3)]
    by (simp add: xml_get_token_def xml_get_token_initial.simps)
qed

lemma rd_token_left_mark:
  assumes "list_all c_isspace ws" "rd xr (ws @ CHR ''<'' # c # cs) Initial"
    "c = CHR ''/'' \<and> token = LeftAngleSlash \<or> c = CHR ''?'' \<and> token = LeftAngleQ"
  shows "\<exists>xr' t. xml_get_token xr = Some (token, xr', t) \<and> rd xr' cs Tag"
proof -
  obtain xr1 xr2 t where g: "xml_skip_space xr None = Some (xr1, t)" "xml_getc xr1 = Some (Some (CHR ''<''), xr2)" "rd xr2 (c # cs) Initial"
    using rd_skip_to_tag [OF assms(1,2)] by blast
  obtain xr3 where "xml_getc (xr2\<lparr>xr_state := Tag\<rparr>) = Some (Some c, xr3)" "rd xr3 cs Tag"
    using rd_getc [OF rd_set_state [OF g(3), of Tag]] by auto
  then show ?thesis using g assms(3) rd_state [OF assms(2)] rd_state [OF g(3)]
    by (auto simp add: xml_get_token_def xml_get_token_initial.simps)
qed

lemma rd_token_end:
  assumes "list_all c_isspace ws" "rd xr ws Initial"
  shows "\<exists>xr' t. xml_get_token xr = Some (EndOfDocument, xr', t) \<and> rd xr' [] Initial"
proof -
  obtain xr1 where g: "xml_skip_space xr None = Some (xr1, tok_puts None ws)" "rd xr1 [] Initial"
    using rd_skip_space [OF assms(1), of "[]" xr Initial None] assms(2) by (auto simp: ends_with_def)
  obtain xr2 where "xml_getc xr1 = Some (None, xr2)" "rd xr2 [] Initial" using rd_eof [OF g(2)] by blast
  then show ?thesis using g rd_state [OF assms(2)]
    by (simp add: xml_get_token_def xml_get_token_initial.simps)
qed


section \<open>Tokens inside a tag\<close>

lemma rd_tag_first:
  assumes "list_all c_isspace ws" "rd xr (ws @ c # cs) Tag" "ascii c" "\<not> c_isspace c"
  shows "\<exists>xr1 xr2. xml_skip_space xr None = Some (xr1, tok_puts None ws) \<and> xml_getc xr1 = Some (Some c, xr2) \<and> rd xr2 cs Tag"
  using rd_skip_space [OF assms(1) _ assms(2), of None] rd_getc [of _ c cs Tag] assms(3,4)
  by (fastforce simp: ends_with_def)

definition is_identifier :: "cstring \<Rightarrow> bool" where
  "is_identifier s \<longleftrightarrow> s \<noteq> [] \<and> ident_start (hd s) \<and> list_all ident_char s"

lemma ident_char_ascii: "ident_char c \<Longrightarrow> ascii c"
  by (auto simp: ident_char_def ascii_def c_isalnum_def c_isdigit_def c_islower_def c_isupper_def c_code_def)

lemma ident_char_not: "ident_char c \<Longrightarrow> \<not> c_isspace c \<and> c \<noteq> CHR ''?'' \<and> c \<noteq> CHR ''>'' \<and> c \<noteq> CHR ''/'' \<and> c \<noteq> CHR ''='' \<and> c \<noteq> NUL"
  by (auto simp: ident_char_def c_isspace_def c_isalnum_def c_isdigit_def c_islower_def c_isupper_def c_code_def NUL_def)

lemma identifier_cstr [simp]: "is_identifier s \<Longrightarrow> cstr s = s"
  using ident_char_not by (auto simp: is_identifier_def cstr_def takeWhile_eq_all_conv list_all_iff)

lemma rd_token_identifier:
  assumes "list_all c_isspace ws" "is_identifier s" "ends_with ident_char cs" "rd xr (ws @ s @ cs) Tag"
  shows "\<exists>xr'. xml_get_token xr = Some (Identifier, xr', Some s) \<and> rd xr' cs Tag"
proof -
  obtain c s' where s: "s = c # s'" "ident_start c" "ident_char c" "list_all ident_char s'"
    using assms(2) by (cases s) (auto simp: is_identifier_def)
  note n = ident_char_not [OF s(3)]
  obtain xr1 xr2 where g: "xml_skip_space xr None = Some (xr1, tok_puts None ws)" "xml_getc xr1 = Some (Some c, xr2)" "rd xr2 (s' @ cs) Tag"
    using rd_tag_first [OF assms(1), of xr c "s' @ cs"] assms(4) s(1) n ident_char_ascii [OF s(3)] by auto
  obtain xr3 where "identifier_loop xr2 (tok_putc None c) = Some (xr3, tok_puts (tok_putc None c) s')" "rd xr3 cs Tag"
    using rd_identifier_loop [OF s(4) assms(3) g(3)] by blast
  then show ?thesis using g s n rd_state [OF assms(4)]
    by (simp add: xml_get_token_def xml_get_token_tag_def Let_def tok_puts_putc)
qed

lemma rd_token_quoted:
  assumes "DQUOTE \<notin> set s" "rd xr (DQUOTE # s @ DQUOTE # cs) Tag"
  shows "\<exists>xr'. xml_get_token xr = Some (QuotedString, xr', if s = [] then None else Some s) \<and> rd xr' cs Tag"
proof -
  have q: "ascii DQUOTE" "\<not> c_isspace DQUOTE" "\<not> ident_start DQUOTE" "DQUOTE \<noteq> CHR ''?''" "DQUOTE \<noteq> CHR ''>''"
      "DQUOTE \<noteq> CHR ''/''" "DQUOTE \<noteq> CHR ''=''"
    by (simp_all add: ascii_def c_isspace_def ident_start_def c_islower_def c_isupper_def DQUOTE_def c_code_def)
  obtain xr1 xr2 where g: "xml_skip_space xr None = Some (xr1, tok_puts None [])" "xml_getc xr1 = Some (Some DQUOTE, xr2)" "rd xr2 (s @ DQUOTE # cs) Tag"
    using rd_tag_first [of "[]" xr DQUOTE "s @ DQUOTE # cs"] assms(2) q by auto
  obtain xr3 where "quoted_loop xr2 DQUOTE None = Some (QuotedString, xr3, tok_puts None s)" "rd xr3 cs Tag"
    using rd_quoted_loop [OF assms(1) g(3)] by blast
  then show ?thesis using g q rd_state [OF assms(2)]
    by (simp add: xml_get_token_def xml_get_token_tag_def Let_def tok_puts_None)
qed

lemma rd_token_equals:
  assumes "rd xr (CHR ''='' # cs) Tag"
  shows "\<exists>xr' t. xml_get_token xr = Some (Equals, xr', t) \<and> rd xr' cs Tag"
proof -
  obtain xr1 xr2 where "xml_skip_space xr None = Some (xr1, tok_puts None [])" "xml_getc xr1 = Some (Some (CHR ''=''), xr2)" "rd xr2 cs Tag"
    using rd_tag_first [of "[]" xr "CHR ''=''" cs] assms by (auto simp: ascii_def c_isspace_def c_code_def)
  then show ?thesis using rd_state [OF assms] by (auto simp: xml_get_token_def xml_get_token_tag_def Let_def)
qed

text \<open>The three ways a tag ends.\<close>

inductive tag_end :: "cstring \<Rightarrow> xml_token_type \<Rightarrow> bool" where
  "tag_end ''>'' RightAngle"
| "tag_end ''/>'' RightAngleSlash"
| "tag_end ''?>'' RightAngleQ"

inductive_cases tag_endE: "tag_end e token"

lemma tag_end_char: "tag_end e token \<Longrightarrow> ends_with ident_char (e @ cs)"
  by (auto elim!: tag_endE simp: ends_with_def ident_char_def ascii_def c_isalnum_def c_isdigit_def c_islower_def c_isupper_def c_code_def)

lemma rd_token_tag_end:
  assumes "tag_end e token" "rd xr (e @ cs) Tag"
  shows "\<exists>xr' t. xml_get_token xr = Some (token, xr', t) \<and> rd xr' cs Initial"
proof -
  define c r where "c = hd e" and "r = tl e"
  have e: "e = c # r" "ascii c" "\<not> c_isspace c"
      "c = CHR ''>'' \<and> r = [] \<and> token = RightAngle \<or> r = ''>'' \<and> (c = CHR ''/'' \<and> token = RightAngleSlash \<or> c = CHR ''?'' \<and> token = RightAngleQ)"
    using assms(1) unfolding c_def r_def by (cases; simp add: ascii_def c_isspace_def c_code_def)+
  obtain xr1 xr2 where g: "xml_skip_space xr None = Some (xr1, tok_puts None [])" "xml_getc xr1 = Some (Some c, xr2)" "rd xr2 (r @ cs) Tag"
    using rd_tag_first [of "[]" xr c "r @ cs"] assms(2) e by auto
  show ?thesis
  proof (cases r)
    case Nil
    then have c: "c = CHR ''>''" "token = RightAngle" "rd (xr2\<lparr>xr_state := Initial\<rparr>) cs Initial"
      using e(4) rd_set_state [OF g(3), of Initial] by simp_all
    have "xml_get_token xr = Some (RightAngle, xr2\<lparr>xr_state := Initial\<rparr>, tok_putc None c)"
      using g(1,2) c(1) rd_state [OF assms(2)] by (simp add: xml_get_token_def xml_get_token_tag_def Let_def)
    then show ?thesis using c by blast
  next
    case (Cons x xs)
    then have r: "r = ''>''" using e by auto
    obtain xr3 where g3: "xml_getc xr2 = Some (Some (CHR ''>''), xr3)" "rd xr3 cs Tag"
      using rd_getc [of xr2 "CHR ''>''" cs Tag] g(3) r by auto
    have c: "c = CHR ''/'' \<and> token = RightAngleSlash \<or> c = CHR ''?'' \<and> token = RightAngleQ" using e(4) r by simp
    have "xml_get_token xr = expect_right xr2 token (tok_putc None c)"
      using g(1,2) c rd_state [OF assms(2)] by (elim disjE) (simp_all add: xml_get_token_def xml_get_token_tag_def Let_def)
    also have "\<dots> = Some (token, xr3\<lparr>xr_state := Initial\<rparr>, tok_putc (tok_putc None c) (CHR ''>''))"
      using g3 by (simp add: expect_right_def)
    finally show ?thesis using rd_set_state [OF g3(2), of Initial] by blast
  qed
qed

section \<open>Attributes\<close>

definition attr_ok :: "xml_attr \<Rightarrow> bool" where
  "attr_ok a \<longleftrightarrow> is_identifier (fst a) \<and>
     (case snd a of None \<Rightarrow> True | Some v \<Rightarrow> v \<noteq> [] \<and> DQUOTE \<notin> set v \<and> NUL \<notin> set v)"

lemma attr_value_cstr: "attr_ok (n, Some v) \<Longrightarrow> cstr v = v"
  by (auto simp: attr_ok_def cstr_def takeWhile_eq_all_conv)

definition add_attrs :: "xml_node \<Rightarrow> xml_attr list \<Rightarrow> xml_node" where
  "add_attrs node as = foldl (\<lambda>n a. xml_node_add_attr n (fst a) (snd a)) node as"

definition attrs_text :: "xml_attr list \<Rightarrow> cstring" where
  "attrs_text as = concat (map attr_output as)"

lemma attrs_text_simps [simp]: "attrs_text [] = []" "attrs_text (a # as) = attr_output a @ attrs_text as"
  by (simp_all add: attrs_text_def)

lemma attrs_text_ends: "tag_end e token \<Longrightarrow> ends_with ident_char (attrs_text as @ e @ cs)"
  by (cases as; auto simp: tag_end_char attr_output_def split: option.split)
    (simp_all add: ends_with_def ident_char_def ascii_def c_isalnum_def c_isdigit_def c_islower_def c_isupper_def c_code_def)

lemma rd_attributes:
  assumes "list_all attr_ok as" "tag_end e endtok" "rd xr (attrs_text as @ e @ cs) Tag"
  shows "\<exists>token xr1 v xr'. xml_get_token xr = Some (token, xr1, v) \<and> token \<noteq> Equals
           \<and> tag_attributes xr1 token v node = Some (endtok, xr', add_attrs node as) \<and> rd xr' cs Initial"
  using assms(1,3)
proof (induction as arbitrary: xr node)
  case Nil
  obtain xr' v where "xml_get_token xr = Some (endtok, xr', v)" "rd xr' cs Initial"
    using rd_token_tag_end [OF assms(2), of xr cs] Nil by auto
  moreover have "endtok = RightAngle \<or> endtok = RightAngleQ \<or> endtok = RightAngleSlash" using assms(2) by (auto elim: tag_endE)
  ultimately show ?case by (subst tag_attributes.simps) (auto simp: add_attrs_def)
next
  case (Cons a as)
  obtain n v where a: "a = (n, v)" by (cases a)
  have ok: "is_identifier n" "list_all attr_ok as" using Cons.prems(1) a by (simp_all add: attr_ok_def [of "(n, v)"])
  have sp: "list_all c_isspace '' ''" by (simp add: c_isspace_def c_code_def)
  show ?case
  proof (cases v)
    case None
    obtain xr1 where i: "xml_get_token xr = Some (Identifier, xr1, Some n)" "rd xr1 (attrs_text as @ e @ cs) Tag"
      using rd_token_identifier [OF sp ok(1) attrs_text_ends [OF assms(2)], of xr as cs] Cons.prems(2) a None
      by (auto simp: attr_output_def)
    obtain token xr2 v2 xr' where r: "xml_get_token xr1 = Some (token, xr2, v2)" "token \<noteq> Equals"
        "tag_attributes xr2 token v2 (xml_node_add_attr node n None) = Some (endtok, xr', add_attrs (xml_node_add_attr node n None) as)" "rd xr' cs Initial"
      using Cons.IH [OF ok(2) i(2)] by blast
    have "tag_attributes xr1 Identifier (Some n) node = Some (endtok, xr', add_attrs node (a # as))"
      using r ok(1) a None by (subst tag_attributes.simps) (simp add: add_attrs_def)
    then show ?thesis using i(1) r(4) by auto
  next
    case (Some w)
    have w: "w \<noteq> []" "DQUOTE \<notin> set w" "cstr w = w"
      using Cons.prems(1) a Some attr_value_cstr [of n w] by (auto simp: attr_ok_def)
    have eq: "ends_with ident_char (CHR ''='' # cs')" for cs'
      by (simp add: ends_with_def ident_char_def ascii_def c_isalnum_def c_isdigit_def c_islower_def c_isupper_def c_code_def)
    obtain xr1 where i: "xml_get_token xr = Some (Identifier, xr1, Some n)" "rd xr1 (CHR ''='' # DQUOTE # w @ DQUOTE # attrs_text as @ e @ cs) Tag"
      using rd_token_identifier [OF sp ok(1) eq, of xr "DQUOTE # w @ DQUOTE # attrs_text as @ e @ cs"] Cons.prems(2) a Some
      by (auto simp: attr_output_def xml_escape_quote_def)
    obtain xr2 t2 where q: "xml_get_token xr1 = Some (Equals, xr2, t2)" "rd xr2 (DQUOTE # w @ DQUOTE # attrs_text as @ e @ cs) Tag"
      using rd_token_equals [OF i(2)] by blast
    obtain xr3 where v: "xml_get_token xr2 = Some (QuotedString, xr3, Some w)" "rd xr3 (attrs_text as @ e @ cs) Tag"
      using rd_token_quoted [OF w(2) q(2)] w(1) by auto
    obtain token xr4 v4 xr' where r: "xml_get_token xr3 = Some (token, xr4, v4)" "token \<noteq> Equals"
        "tag_attributes xr4 token v4 (xml_node_add_attr node n (Some w)) = Some (endtok, xr', add_attrs (xml_node_add_attr node n (Some w)) as)" "rd xr' cs Initial"
      using Cons.IH [OF ok(2) v(2)] by blast
    have "tag_attributes xr1 Identifier (Some n) node = Some (endtok, xr', add_attrs node (a # as))"
      using r(1,3) q(1) v(1) ok(1) w(3) a Some by (subst tag_attributes.simps) (simp add: add_attrs_def)
    then show ?thesis using i(1) r(4) by auto
  qed
qed

lemma rd_get_tag_attributes:
  assumes "list_all attr_ok as" "tag_end e endtok" "rd xr (attrs_text as @ e @ cs) Tag"
  shows "\<exists>xr'. xml_get_tag_attributes xr node = Some (endtok, xr', add_attrs node as) \<and> rd xr' cs Initial"
  using rd_attributes [OF assms] by (fastforce simp: xml_get_tag_attributes_def)

lemma add_attrs_fields:
  "xn_name (add_attrs n as) = xn_name n" "xn_cdata (add_attrs n as) = xn_cdata n" "xn_children (add_attrs n as) = xn_children n"
  by (induction as arbitrary: n) (simp_all add: add_attrs_def xml_node_add_attr_def)

lemma add_attrs_distinct:
  "distinct (map fst (xn_attrs n @ as)) \<Longrightarrow> xn_attrs (add_attrs n as) = xn_attrs n @ as"
proof (induction as arbitrary: n)
  case (Cons a as)
  have "fst a \<notin> fst ` set (xn_attrs n)" using Cons.prems by auto
  then have e: "xn_attrs (xml_node_add_attr n (fst a) (snd a)) = xn_attrs n @ [a]"
    by (simp add: xml_node_add_attr_def attrs_set_new)
  have "distinct (map fst (xn_attrs (xml_node_add_attr n (fst a) (snd a)) @ as))" using Cons.prems e by simp
  then show ?case using Cons.IH [of "xml_node_add_attr n (fst a) (snd a)"] e by (simp add: add_attrs_def)
qed (simp add: add_attrs_def)

end
