(* ===== verification/XmlRound.thy ===== *)
theory XmlRound
  imports XmlLex
begin

text \<open>
  Reading what the writer has written: a document whose names, attribute values and texts the syntax can
  carry is read back as it was, up to the locations, from a string, a buffer or a stream.
\<close>

section \<open>Texts and empty lines\<close>

text \<open>The scan from the end, on the reversed text.\<close>

fun trim_rev :: "cstring \<Rightarrow> nat \<Rightarrow> nat" where
  "trim_rev [] t = t"
| "trim_rev (c # xs) t =
     (if is_eol c then trim_rev xs (Suc (length xs)) else if \<not> is_blank c then t else trim_rev xs t)"

lemma trim_lines_tail_rev: "n \<le> length s \<Longrightarrow> trim_lines_tail s n t = Some (trim_rev (rev (take n s)) t)"
proof (induction n arbitrary: t)
  case (Suc n)
  then have "rev (take (Suc n) s) = s ! n # rev (take n s)" by (simp add: take_Suc_conv_app_nth)
  then show ?case using Suc by (simp add: arr_get_def)
qed simp

lemma trim_rev_spaces: "trim_rev (spaces k @ xs) t = trim_rev xs t"
  by (induction k) (simp_all add: spaces_def is_eol_def is_blank_def)

definition has_text :: "cstring \<Rightarrow> bool" where "has_text s \<longleftrightarrow> \<not> list_all c_isspace s"

lemma space_blank: "is_eol c \<or> is_blank c \<Longrightarrow> c_isspace c"
  by (auto simp: is_eol_def is_blank_def c_isspace_def c_code_def)

lemma trim_rev_shift: "has_text xs \<Longrightarrow> trim_rev (xs @ [x]) (Suc t) = Suc (trim_rev xs t)"
proof (induction xs arbitrary: t)
  case (Cons c xs)
  show ?case
  proof (cases "is_eol c \<or> is_blank c")
    case True
    then have "has_text xs" using Cons.prems space_blank by (simp add: has_text_def)
    then show ?thesis using Cons.IH by simp
  qed simp
qed (simp add: has_text_def)

lemma trim_rev_le: "t \<le> m \<Longrightarrow> length xs \<le> m \<Longrightarrow> trim_rev xs t \<le> m"
  by (induction xs arbitrary: t) auto

lemma trim_lines_head_ge: "t \<le> n \<Longrightarrow> t \<le> trim_lines_head s n t"
proof (induction s arbitrary: n t)
  case (Cons c s)
  have "t \<le> Suc n" using Cons.prems by simp
  then have "t \<le> trim_lines_head s (Suc n) (Suc n)" using Cons.IH [of "Suc n" "Suc n"] by (rule le_trans) simp
  then show ?case using Cons by simp
qed simp

lemma trim_lines_head_fix: "trim_lines_head s n 0 = 0 \<Longrightarrow> trim_lines_head s m t = t"
proof (induction s arbitrary: n m)
  case (Cons c s)
  show ?case
  proof (cases "is_eol c")
    case True
    then have "Suc n \<le> trim_lines_head (c # s) n 0" using trim_lines_head_ge [of "Suc n" "Suc n" s] by simp
    then show ?thesis using Cons.prems by simp
  next
    case False
    then show ?thesis using Cons by (auto split: if_splits)
  qed
qed simp

definition text_fix :: "cstring \<Rightarrow> bool" where
  "text_fix d \<longleftrightarrow> trim_text d = Some d"

lemma trim_text_rev:
  "trim_text s = (let m = trim_rev (rev s) (length s) in Some (drop (trim_lines_head (take m s) 0 0) (take m s)))"
  by (simp add: trim_text_def trim_lines_tail_rev Let_def)

lemma text_fixD:
  assumes "text_fix d" "d \<noteq> []"
  shows "trim_rev (rev d) (length d) = length d" "trim_lines_head d n t = t"
proof -
  define m where "m = trim_rev (rev d) (length d)"
  define h where "h = trim_lines_head (take m d) 0 0"
  have "length d - 0 = length (take m d) - h"
    using assms(1) by (metis Let_def diff_zero h_def length_drop m_def option.inject text_fix_def trim_text_rev)
  moreover have "m \<le> length d" unfolding m_def by (rule trim_rev_le) simp_all
  ultimately have e: "length d = m - h" "m \<le> length d" "length d \<noteq> 0" using assms(2) by (auto split: if_splits)
  have m: "m = length d" using e by arith
  have h: "h = 0" using e by arith
  show "trim_rev (rev d) (length d) = length d" using m by (simp add: m_def)
  have "trim_lines_head d 0 0 = 0" using m h by (simp add: h_def)
  then show "trim_lines_head d n t = t" by (rule trim_lines_head_fix)
qed

text \<open>A text that ends in a newline, on a line of its own and followed by the indentation of a tag.\<close>

lemma trim_text_lines:
  assumes "text_fix d" "has_text d" "List.last d = NL"
  shows "trim_text (NL # d @ spaces k) = Some d"
proof -
  have ne: "d \<noteq> []" using assms(2) by (auto simp: has_text_def)
  then obtain d' where d: "d = d' @ [NL]" using assms(3) by (metis append_butlast_last_id)
  have nl: "is_eol NL" "c_isspace NL" by (simp_all add: is_eol_def NL_def c_isspace_def c_code_def)
  have ht: "has_text (rev d')" using assms(2) d nl by (simp add: has_text_def list_all_iff)
  let ?r = "NL # d @ spaces k"
  have "trim_rev (rev ?r) (length ?r) = trim_rev (rev d @ [NL]) (length ?r)"
    using trim_rev_spaces [of k "rev d @ [NL]"] by (simp add: spaces_def)
  also have "\<dots> = trim_rev (rev d' @ [NL]) (Suc (length d))" using nl by (simp add: d)
  also have "\<dots> = Suc (trim_rev (rev d') (length d))" by (rule trim_rev_shift [OF ht])
  also have "\<dots> = Suc (length d)" using text_fixD(1) [OF assms(1) ne] nl by (simp add: d)
  finally have m: "trim_rev (rev ?r) (length ?r) = Suc (length d)" .
  have "trim_lines_head (NL # d) 0 0 = 1" using nl text_fixD(2) [OF assms(1) ne, of 1 1] by simp
  then show ?thesis using m by (simp add: trim_text_rev Let_def)
qed

section \<open>Token buffers\<close>

text \<open>The text of a token is that of the string buffer the code keeps it in.\<close>

definition tok_of :: "ni_stringbuf \<Rightarrow> tok" where
  "tok_of sb = (if sb_string sb = None then None else Some (sb_text sb))"

lemma tok_of_clear: "sb_wf sb \<Longrightarrow> sb_wf (ni_stringbuf_clear sb) \<and> tok_of (ni_stringbuf_clear sb) = None"
  by (simp add: sb_wf_def ni_stringbuf_clear_def tok_of_def)

lemma tok_of_putc:
  assumes "sb_wf sb"
  shows "\<exists>sb'. ni_stringbuf_putc sb c = Some sb' \<and> sb_wf sb' \<and> tok_of sb' = tok_putc (tok_of sb) c"
proof -
  have "sb_string sb = None \<Longrightarrow> sb_text sb = []" by (simp add: sb_text_def)
  then show ?thesis using sb_putc_ok [OF assms, of c] by (auto simp: tok_of_def tok_putc_def)
qed

lemma trim_lines_head_le: "t \<le> n + length s \<Longrightarrow> trim_lines_head s n t \<le> n + length s"
proof (induction s arbitrary: n t)
  case (Cons c s)
  have "trim_lines_head s (Suc n) t \<le> Suc n + length s" "trim_lines_head s (Suc n) (Suc n) \<le> Suc n + length s"
    using Cons.IH [of t "Suc n"] Cons.IH [of "Suc n" "Suc n"] Cons.prems by simp_all
  then show ?case using Cons.prems by simp
qed simp

lemma tok_of_trim:
  assumes wf: "sb_wf sb" and s: "sb_string sb = Some s"
  shows "\<exists>sb'. ni_stringbuf_trim_empty_lines sb = Some sb' \<and> sb_wf sb' \<and> tok_of sb' = trim_text (sb_text sb)"
proof -
  let ?n = "sb_len sb"
  have w: "?n < length s" "sb_size sb \<le> length s" "sb_dynamic sb" using wf s by (simp_all add: sb_wf_def)
  have t: "sb_text sb = take ?n s" using s by (simp add: sb_text_def)
  define m where "m = trim_rev (rev (take ?n s)) ?n"
  have m: "m \<le> ?n" unfolding m_def by (rule trim_rev_le) simp_all
  have tail: "trim_lines_tail s ?n ?n = Some m" using w(1) by (simp add: trim_lines_tail_rev m_def)
  define h where "h = trim_lines_head (take m s) 0 0"
  have h: "h \<le> m" using trim_lines_head_le [of 0 0 "take m s"] m w(1) by (simp add: h_def)
  have tt: "trim_text (sb_text sb) = Some (drop h (take m s))"
    using t m w(1) unfolding trim_text_rev m_def h_def by (simp add: Let_def min_def)
  let ?s1 = "s[m := NUL]"
  have s1: "take m ?s1 = take m s" "?s1 ! m = NUL" "length ?s1 = length s" "drop h (take m ?s1) = drop h (take m s)" using m w(1) by simp_all
  show ?thesis
  proof (cases "h = 0")
    case True
    have "ni_stringbuf_trim_empty_lines sb = Some (sb\<lparr>sb_string := Some ?s1, sb_len := m\<rparr>)"
      using s tail s1(1) True m w(1) by (simp add: ni_stringbuf_trim_empty_lines_def arr_set_in h_def Let_def)
    then show ?thesis using True tt s1 m w by (simp add: sb_wf_def tok_of_def sb_text_def)
  next
    case False
    let ?s2 = "take (m - h + 1) (drop h ?s1) @ drop (m - h + 1) ?s1"
    have len: "length (take (m - h + 1) (drop h ?s1)) = m - h + 1" using m h w(1) by simp
    have mv: "mem_move ?s1 0 h (m - h + 1) = Some ?s2"
      using m h w(1) len by (simp add: mem_move_def mem_read_in mem_write_in)
    have "ni_stringbuf_trim_empty_lines sb = Some (sb\<lparr>sb_string := Some ?s2, sb_len := m - h\<rparr>)"
      using s tail s1(1) False m w(1) mv h_def by (simp add: ni_stringbuf_trim_empty_lines_def arr_set_in Let_def)
    moreover have "?s2 ! (m - h) = NUL" using s1(2) h m w(1) by (simp add: nth_append)
    moreover have "take (m - h) ?s2 = drop h (take m s)" using h m w(1) by (simp add: take_drop min_def)
    moreover have "length ?s2 = length s" using m h w(1) by simp
    ultimately show ?thesis using tt m w h by (simp add: sb_wf_def tok_of_def sb_text_def)
  qed
qed

section \<open>Documents the syntax can carry\<close>

fun strip :: "xml_node \<Rightarrow> xml_node" where
  "strip (Xml_node n d as cs l) = Xml_node n d as (map strip cs) None"

definition strip_doc :: "xml_document \<Rightarrow> xml_document" where
  "strip_doc doc = doc\<lparr>xd_root := map_option strip (xd_root doc)\<rparr>"

definition element_name :: "cstring option \<Rightarrow> bool" where
  "element_name n \<longleftrightarrow> (case n of None \<Rightarrow> False | Some s \<Rightarrow> is_identifier s \<and> hd s \<noteq> CHR ''!'')"

text \<open>A text has to be ASCII, more than white space, without empty lines around it, and on lines of its own
  when it has more than one line or when children follow.\<close>

definition cdata_ok :: "cstring option \<Rightarrow> bool \<Rightarrow> bool" where
  "cdata_ok cdata children \<longleftrightarrow> (case cdata of None \<Rightarrow> True
     | Some d \<Rightarrow> list_all ascii d \<and> NUL \<notin> set d \<and> has_text d \<and> text_fix d
               \<and> (children \<or> NL \<in> set d \<longrightarrow> List.last d = NL))"

fun printable :: "xml_node \<Rightarrow> bool" where
  "printable (Xml_node n d as cs l) \<longleftrightarrow>
     element_name n \<and> list_all attr_ok as \<and> distinct (map fst as) \<and> cdata_ok d (cs \<noteq> []) \<and> list_all printable cs"

definition printable_doc :: "xml_document \<Rightarrow> bool" where
  "printable_doc doc \<longleftrightarrow> xd_dtd doc = None \<and>
     (case xd_root doc of None \<Rightarrow> False
      | Some root \<Rightarrow> xn_name root = None \<and> xn_cdata root = None \<and> xn_attrs root = [] \<and> list_all printable (xn_children root))"

text \<open>The text of an element, without the indentation before it and the newline after it, and the texts of
  a list of elements, indented by \<open>k\<close>, without the first indentation.\<close>

fun element_text :: "nat \<Rightarrow> xml_node \<Rightarrow> cstring"
  and elements_text :: "nat \<Rightarrow> xml_node list \<Rightarrow> cstring" where
  "element_text k (Xml_node n d as cs l) =
     CHR ''<'' # the n @ attrs_text as @
     (if d = None \<and> cs = [] then ''/>''
      else CHR ''>'' #
        (case d of None \<Rightarrow> [] | Some s \<Rightarrow> (if NL \<in> set s then [NL] else []) @ esc s) @
        (if cs = [] then [] else (if d = None then [NL] else []) @ spaces (k + 2) @ elements_text (k + 2) cs) @
        (if cs \<noteq> [] \<or> (\<exists>s. d = Some s \<and> NL \<in> set s) then spaces k else []) @
        CHR ''<'' # CHR ''/'' # the n @ ''>'')"
| "elements_text k [] = []"
| "elements_text k (c # cs) = element_text k c @ NL # (if cs = [] then [] else spaces k @ elements_text k cs)"

lemma attr_output_pieces: "concat (map attr_output as) = attrs_text as"
  by (simp add: attrs_text_def)


section \<open>What the writer writes\<close>

lemma last_NL: "has_text d \<Longrightarrow> List.last d = NL \<Longrightarrow> NL \<in> set d"
  using last_in_set [of d] by (cases "d = []") (auto simp: has_text_def)

lemma cdata_output_ok:
  assumes "cdata_ok d (cs \<noteq> [])"
  shows "\<exists>ps. cdata_output d False = Some (ps, \<exists>s. d = Some s \<and> NL \<in> set s)
           \<and> concat ps = (case d of None \<Rightarrow> [] | Some s \<Rightarrow> (if NL \<in> set s then [NL] else []) @ esc s)"
proof (cases d)
  case (Some s)
  then have "list_all ascii s" "NL \<in> set s \<longrightarrow> List.last s = NL" using assms by (auto simp: cdata_ok_def)
  then show ?thesis using Some by (auto simp: cdata_output_def xml_escape_entities_esc Let_def)
qed (simp add: cdata_output_def)

lemma output_text:
  "printable c \<Longrightarrow> \<exists>ps. xml_node_output c k = Some ps \<and> concat ps = spaces k @ element_text k c @ [NL]"
  "list_all printable cs \<Longrightarrow> \<exists>ps. xml_nodes_output cs k = Some ps
      \<and> concat ps = (if cs = [] then [] else spaces k @ elements_text k cs)"
proof (induction k c and k cs rule: element_text_elements_text.induct)
  case (1 k n d as cs l)
  obtain nm where n: "n = Some nm" using 1 by (auto simp: element_name_def split: option.splits)
  have ok: "list_all printable cs" "cdata_ok d (cs \<noteq> [])" using 1 by simp_all
  obtain ps where ps: "xml_nodes_output cs (k + 2) = Some ps"
      "concat ps = (if cs = [] then [] else spaces (k + 2) @ elements_text (k + 2) cs)"
    using 1 ok(1) by (cases "cs = []") auto
  obtain qs where qs: "cdata_output d False = Some (qs, \<exists>s. d = Some s \<and> NL \<in> set s)"
      "concat qs = (case d of None \<Rightarrow> [] | Some s \<Rightarrow> (if NL \<in> set s then [NL] else []) @ esc s)"
    using cdata_output_ok [OF ok(2)] by blast
  show ?case
  proof (cases "d = None \<and> cs = []")
    case True
    then show ?thesis using n by (simp add: attr_output_pieces)
  next
    case False
    have nl: "cs \<noteq> [] \<Longrightarrow> (\<exists>s. d = Some s \<and> NL \<in> set s) \<longleftrightarrow> d \<noteq> None"
      using ok(2) last_NL by (cases d) (auto simp: cdata_ok_def)
    show ?thesis
    proof (cases "cs = []")
      case True
      then show ?thesis using False n ps qs by (cases d) (simp_all add: attr_output_pieces)
    next
      case cs: False
      then show ?thesis using nl n ps qs by (cases d) (simp_all add: attr_output_pieces)
    qed
  qed
next
  case (2 k)
  then show ?case by simp
next
  case (3 k c cs)
  obtain ps where "xml_node_output c k = Some ps" "concat ps = spaces k @ element_text k c @ [NL]" using 3 by auto
  moreover obtain qs where "xml_nodes_output cs k = Some qs" "concat qs = (if cs = [] then [] else spaces k @ elements_text k cs)"
    using 3 by (cases "cs = []") auto
  ultimately show ?case by simp
qed

section \<open>What the reader reads\<close>

text \<open>The element \<open>c\<close>, wherever it stands, is added to the current node, up to its location.\<close>

definition reads :: "xml_node \<Rightarrow> bool" where
  "reads c \<longleftrightarrow> (\<forall>k ws rest xr t cur. list_all c_isspace ws \<longrightarrow> rd xr (ws @ element_text k c @ rest) Initial \<longrightarrow>
     (\<exists>xr' c'. xml_process_element_nested xr t cur = xml_process_element_nested xr' t (xml_node_add_child cur c')
        \<and> strip c' = strip c \<and> rd xr' rest Initial))"

definition add_children :: "xml_node \<Rightarrow> xml_node list \<Rightarrow> xml_node" where
  "add_children node cs = xml_node_set_children node (xn_children node @ cs)"

lemma add_children_simps [simp]:
  "add_children node [] = node" "add_children (xml_node_add_child node c) cs = add_children node (c # cs)"
  by (cases node; simp add: add_children_def xml_node_add_child_def xml_node_set_children_def)+

lemma nl_space: "c_isspace NL" "list_all c_isspace (spaces k)"
  by (simp_all add: NL_def spaces_def c_isspace_def c_code_def list_all_iff)

lemma reads_children:
  assumes "\<forall>c\<in>set cs. reads c" "list_all c_isspace ws" "rd xr (ws @ elements_text k cs @ rest) Initial"
  shows "\<exists>xr' cs' ws'. xml_process_element_nested xr t cur = xml_process_element_nested xr' t (add_children cur cs')
           \<and> map strip cs' = map strip cs \<and> list_all c_isspace ws' \<and> rd xr' (ws' @ rest) Initial"
  using assms
proof (induction cs arbitrary: ws xr cur)
  case Nil
  then show ?case by (intro exI [of _ xr] exI [of _ "[]"] exI [of _ ws]) simp
next
  case (Cons c cs)
  let ?tail = "if cs = [] then [] else spaces k @ elements_text k cs"
  have "rd xr (ws @ element_text k c @ NL # ?tail @ rest) Initial" using Cons.prems(3) by simp
  then obtain xr1 c' where c': "xml_process_element_nested xr t cur = xml_process_element_nested xr1 t (xml_node_add_child cur c')"
      "strip c' = strip c" "rd xr1 (NL # ?tail @ rest) Initial"
    using Cons.prems(1,2) unfolding reads_def by (metis list.set_intros(1))
  let ?ws = "NL # (if cs = [] then [] else spaces k)"
  have r: "rd xr1 (?ws @ elements_text k cs @ rest) Initial" using c'(3) by (cases "cs = []") simp_all
  have "list_all c_isspace ?ws" using nl_space by simp
  then obtain xr' cs' ws' where "xml_process_element_nested xr1 t (xml_node_add_child cur c')
         = xml_process_element_nested xr' t (add_children (xml_node_add_child cur c') cs')"
      "map strip cs' = map strip cs" "list_all c_isspace ws'" "rd xr' (ws' @ rest) Initial"
    using Cons.IH [OF _ _ r] Cons.prems(1) by (metis list.set_intros(2))
  then show ?case using c' by (intro exI [of _ xr'] exI [of _ "c' # cs'"] exI [of _ ws']) simp
qed

text \<open>The closing tag.\<close>

lemma reads_close:
  assumes "list_all c_isspace ws" "rd xr (ws @ CHR ''<'' # CHR ''/'' # nm @ CHR ''>'' # rest) Initial"
    "is_identifier nm" "xn_name cur = Some nm"
  shows "\<exists>xr'. xml_process_element_nested xr False cur = Some (Some cur, xr') \<and> rd xr' rest Initial"
proof -
  obtain xr1 t where a: "xml_get_token xr = Some (LeftAngleSlash, xr1, t)" "rd xr1 (nm @ CHR ''>'' # rest) Tag"
    using rd_token_left_mark [OF assms(1,2)] by blast
  have e: "tag_end ''>'' RightAngle" by (rule tag_end.intros)
  obtain xr2 where b: "xml_get_token xr1 = Some (Identifier, xr2, Some nm)" "rd xr2 (CHR ''>'' # rest) Tag"
    using rd_token_identifier [OF _ assms(3), of "[]" "CHR ''>'' # rest" xr1] a(2) tag_end_char [OF e, of rest] by auto
  obtain xr3 u where c: "xml_get_token xr2 = Some (RightAngle, xr3, u)" "rd xr3 rest Initial"
    using rd_token_tag_end [OF e, of xr2 rest] b(2) by auto
  show ?thesis using a b c assms(3,4)
    by (subst xml_process_element_nested.simps) (simp add: xml_get_identifier_def)
qed

text \<open>A text in front of a tag.\<close>

lemma reads_cdata:
  assumes "list_all ascii s" "has_text s" "trim_text s = Some d" "NUL \<notin> set d" "rd xr (esc s @ CHR ''<'' # cs) Initial"
  shows "\<exists>xr'. xml_process_element_nested xr t cur = xml_process_element_nested xr' t (xml_node_set_cdata cur (Some d))
           \<and> rd xr' (CHR ''<'' # cs) Initial"
proof -
  obtain xr1 where a: "xml_get_token xr = Some (CData, xr1, Some d)" "rd xr1 (CHR ''<'' # cs) Initial"
    using rd_token_cdata [OF _ assms(1,3,5)] assms(2) by (auto simp: has_text_def)
  have "cstr d = d" using assms(4) by (auto simp: cstr_def takeWhile_eq_all_conv)
  then have "xml_process_element_nested xr t cur = xml_process_element_nested xr1 t (xml_node_set_cdata cur (Some d))"
    using a(1) by (subst xml_process_element_nested.simps) simp
  then show ?thesis using a(2) by blast
qed


text \<open>The opening tag: the node it starts and what follows.\<close>

lemma rd_tag_rest:
  assumes "element_name (Some nm)" "list_all attr_ok as" "distinct (map fst as)" "tag_end e token"
    "rd xr (nm @ attrs_text as @ e @ cs) Tag"
  shows "\<exists>xr1 xr2 l. xml_get_identifier xr = Some (True, xr1, Some nm)
           \<and> xml_get_tag_attributes xr1 (xml_node_here xr1 (Some nm)) = Some (token, xr2, Xml_node (Some nm) None as [] l) \<and> rd xr2 cs Initial"
proof -
  have id: "is_identifier nm" using assms(1) by (simp add: element_name_def)
  obtain xr1 where a: "xml_get_token xr = Some (Identifier, xr1, Some nm)" "rd xr1 (attrs_text as @ e @ cs) Tag"
    using rd_token_identifier [of "[]" nm "attrs_text as @ e @ cs" xr] id attrs_text_ends [OF assms(4)] assms(5) by auto
  let ?n = "xml_node_here xr1 (Some nm)"
  obtain xr2 where b: "xml_get_tag_attributes xr1 ?n = Some (token, xr2, add_attrs ?n as)" "rd xr2 cs Initial"
    using rd_get_tag_attributes [OF assms(2,4) a(2)] by blast
  have "xn_name ?n = Some nm" "xn_cdata ?n = None" "xn_attrs ?n = []" "xn_children ?n = []"
    using id by (simp_all add: xml_node_here_def)
  then have "add_attrs ?n as = Xml_node (Some nm) None as [] (xn_location (add_attrs ?n as))"
    using add_attrs_distinct [of ?n as] assms(3) by (intro xml_node.expand) (simp add: add_attrs_fields)
  then show ?thesis using a b by (simp add: xml_get_identifier_def) metis
qed

lemma reads_open:
  assumes "list_all c_isspace ws" "element_name (Some nm)" "list_all attr_ok as" "distinct (map fst as)"
    "tag_end e token" "rd xr (ws @ CHR ''<'' # nm @ attrs_text as @ e @ cs) Initial" "token = RightAngle \<or> token = RightAngleSlash"
  shows "\<exists>xr1 l. rd xr1 cs Initial \<and> xml_process_element_nested xr t cur =
           (if token = RightAngle then do {
              (r, xr4) \<leftarrow> xml_process_element_nested xr1 False (Xml_node (Some nm) None as [] l);
              (if r = None then Some (None, xr4)
               else do { child1 \<leftarrow> r; xml_process_element_nested xr4 t (xml_node_add_child cur child1) }) }
            else xml_process_element_nested xr1 t (xml_node_add_child cur (Xml_node (Some nm) None as [] l)))"
proof -
  obtain c nm' where nm: "nm = c # nm'" "ident_char c" "c \<noteq> CHR ''!''"
    using assms(2) by (cases nm) (auto simp: element_name_def is_identifier_def)
  obtain xr1 u where a: "xml_get_token xr = Some (LeftAngle, xr1, u)" "rd xr1 (nm @ attrs_text as @ e @ cs) Tag"
    using rd_token_left [OF assms(1), of xr c "nm' @ attrs_text as @ e @ cs"] assms(6) nm ident_char_not [OF nm(2)] ident_char_ascii [OF nm(2)]
    by auto
  obtain xr2 xr3 l where b: "xml_get_identifier xr1 = Some (True, xr2, Some nm)"
      "xml_get_tag_attributes xr2 (xml_node_here xr2 (Some nm)) = Some (token, xr3, Xml_node (Some nm) None as [] l)" "rd xr3 cs Initial"
    using rd_tag_rest [OF assms(2-5) a(2)] by blast
  show ?thesis
    by (intro exI [of _ xr3] exI [of _ l] conjI b(3), subst xml_process_element_nested.simps)
      (use a(1) b assms(7) in auto)
qed

text \<open>What stands between the tags of an element, and its closing tag.\<close>

definition content_text :: "nat \<Rightarrow> cstring option \<Rightarrow> xml_node list \<Rightarrow> cstring" where
  "content_text k d cs =
     (case d of None \<Rightarrow> [] | Some s \<Rightarrow> (if NL \<in> set s then [NL] else []) @ esc s) @
     (if cs = [] then [] else (if d = None then [NL] else []) @ spaces (k + 2) @ elements_text (k + 2) cs) @
     (if cs \<noteq> [] \<or> (\<exists>s. d = Some s \<and> NL \<in> set s) then spaces k else [])"

lemma elements_text_Cons: "\<exists>r. elements_text k (c # cs) = CHR ''<'' # r"
  by (cases c) simp

lemma esc_lines: "esc (NL # s @ spaces k) = NL # esc s @ spaces k"
  using esc_space [OF nl_space(2), of k] esc_space [of "[NL]"] nl_space(1) by simp

text \<open>The text before the children or the closing tag.\<close>

lemma reads_text:
  assumes "cdata_ok (Some s) (cs \<noteq> [])" "rd xr (content_text k (Some s) cs @ CHR ''<'' # rest) Initial"
  shows "\<exists>xr'. xml_process_element_nested xr t cur = xml_process_element_nested xr' t (xml_node_set_cdata cur (Some s))
           \<and> rd xr' ((if cs = [] then [] else elements_text (k + 2) cs @ spaces k) @ CHR ''<'' # rest) Initial"
proof -
  have ok: "list_all ascii s" "NUL \<notin> set s" "has_text s" "text_fix s" "cs \<noteq> [] \<or> NL \<in> set s \<longrightarrow> List.last s = NL"
    using assms(1) by (simp_all add: cdata_ok_def)
  show ?thesis
  proof (cases "NL \<in> set s")
    case False
    then have cs: "cs = []" using ok(3,5) last_NL by auto
    then have "rd xr (esc s @ CHR ''<'' # rest) Initial" using assms(2) False by (simp add: content_text_def)
    then show ?thesis using reads_cdata [of s s xr rest t cur] ok cs by (auto simp: text_fix_def)
  next
    case True
    define m where "m = (if cs = [] then k else k + 2)"
    define r where "r = (if cs = [] then rest else (tl (elements_text (k + 2) cs)) @ spaces k @ CHR ''<'' # rest)"
    have lt: "elements_text (k + 2) cs = CHR ''<'' # tl (elements_text (k + 2) cs)" if "cs \<noteq> []"
      using elements_text_Cons [of "k + 2"] that by (cases cs) (metis list.sel(3))+
    have e: "(if cs = [] then [] else elements_text (k + 2) cs @ spaces k) @ CHR ''<'' # rest = CHR ''<'' # r"
      using lt by (auto simp: r_def)
    have "content_text k (Some s) cs @ CHR ''<'' # rest = esc (NL # s @ spaces m) @ CHR ''<'' # r"
      unfolding esc_lines e [symmetric] using True by (simp add: content_text_def m_def)
    then have "rd xr (esc (NL # s @ spaces m) @ CHR ''<'' # r) Initial" using assms(2) by simp
    moreover have "list_all ascii (NL # s @ spaces m)" using ok(1) nl_space space_ascii by (auto simp: list_all_iff)
    moreover have "has_text (NL # s @ spaces m)" using ok(3) by (auto simp: has_text_def)
    moreover have "trim_text (NL # s @ spaces m) = Some s" using trim_text_lines [OF ok(4,3)] ok(5) True by simp
    ultimately show ?thesis using reads_cdata [of "NL # s @ spaces m" s xr r t cur] ok(2) e by simp
  qed
qed

lemma reads_content:
  assumes "\<forall>c\<in>set cs. reads c" "cdata_ok d (cs \<noteq> [])" "element_name (Some nm)"
    "rd xr (content_text k d cs @ CHR ''<'' # CHR ''/'' # nm @ CHR ''>'' # rest) Initial"
  shows "\<exists>xr' c'. xml_process_element_nested xr False (Xml_node (Some nm) None as [] l) = Some (Some c', xr')
           \<and> strip c' = Xml_node (Some nm) d as (map strip cs) None \<and> rd xr' rest Initial"
proof -
  let ?close = "CHR ''<'' # CHR ''/'' # nm @ CHR ''>'' # rest" and ?n = "Xml_node (Some nm) None as [] l"
  let ?n1 = "Xml_node (Some nm) d as [] l"
  have id: "is_identifier nm" using assms(3) by (simp add: element_name_def)
  have "\<exists>xr1 ws ws1. xml_process_element_nested xr False ?n = xml_process_element_nested xr1 False ?n1
          \<and> list_all c_isspace ws \<and> list_all c_isspace ws1 \<and> rd xr1 (ws @ elements_text (k + 2) cs @ ws1 @ ?close) Initial"
  proof (cases d)
    case None
    show ?thesis
    proof (cases "cs = []")
      case True
      then show ?thesis using None assms(4) by - (rule exI [of _ xr], rule exI [of _ "[]"], rule exI [of _ "[]"], simp add: content_text_def)
    next
      case False
      then show ?thesis using None assms(4) nl_space
        by - (rule exI [of _ xr], rule exI [of _ "NL # spaces (k + 2)"], rule exI [of _ "spaces k"], simp add: content_text_def)
    qed
  next
    case (Some s)
    obtain xr1 where x: "xml_process_element_nested xr False ?n = xml_process_element_nested xr1 False (xml_node_set_cdata ?n (Some s))"
        "rd xr1 ((if cs = [] then [] else elements_text (k + 2) cs @ spaces k) @ ?close) Initial"
      using reads_text [OF assms(2) [unfolded Some], of xr k "CHR ''/'' # nm @ CHR ''>'' # rest" False ?n] assms(4) [unfolded Some]
      by blast
    have e: "xml_node_set_cdata ?n (Some s) = ?n1" by (simp add: Some xml_node_set_cdata_def)
    let ?ws1 = "if cs = [] then [] else spaces k"
    have r: "rd xr1 ([] @ elements_text (k + 2) cs @ ?ws1 @ ?close) Initial" using x(2) by (cases "cs = []") simp_all
    have ws: "list_all c_isspace ?ws1" using nl_space(2) by simp
    show ?thesis
      by (rule exI [of _ xr1], rule exI [of _ "[]"], rule exI [of _ ?ws1], intro conjI)
        (rule x(1) [unfolded e], simp, rule ws, rule r)
  qed
  then obtain xr1 ws ws1 where x1: "xml_process_element_nested xr False ?n = xml_process_element_nested xr1 False ?n1"
      "list_all c_isspace ws" "list_all c_isspace ws1" "rd xr1 (ws @ elements_text (k + 2) cs @ ws1 @ ?close) Initial" by blast
  obtain xr2 cs' ws2 where x2: "xml_process_element_nested xr1 False ?n1 = xml_process_element_nested xr2 False (add_children ?n1 cs')"
      "map strip cs' = map strip cs" "list_all c_isspace ws2" "rd xr2 (ws2 @ ws1 @ ?close) Initial"
    using reads_children [OF assms(1) x1(2,4)] by blast
  obtain xr3 where "xml_process_element_nested xr2 False (add_children ?n1 cs') = Some (Some (add_children ?n1 cs'), xr3)" "rd xr3 rest Initial"
    using reads_close [of "ws2 @ ws1" xr2 nm rest "add_children ?n1 cs'"] x1(3) x2(3,4) id by (auto simp: add_children_def)
  then show ?thesis using x1(1) x2(1,2) by (auto simp: add_children_def xml_node_set_children_def)
qed

lemma printable_reads: "printable c \<Longrightarrow> reads c"
proof (induction c)
  case (Xml_node n d as cs l)
  obtain nm where n: "n = Some nm" "element_name (Some nm)" using Xml_node.prems by (auto simp: element_name_def split: option.splits)
  have ok: "list_all attr_ok as" "distinct (map fst as)" "cdata_ok d (cs \<noteq> [])" "\<forall>c\<in>set cs. reads c"
    using Xml_node by (auto simp: list_all_iff)
  show ?case unfolding reads_def
  proof (intro allI impI)
    fix k ws rest xr t cur
    assume ws: "list_all c_isspace ws" and r: "rd xr (ws @ element_text k (Xml_node n d as cs l) @ rest) Initial"
    show "\<exists>xr' c'. xml_process_element_nested xr t cur = xml_process_element_nested xr' t (xml_node_add_child cur c')
            \<and> strip c' = strip (Xml_node n d as cs l) \<and> rd xr' rest Initial"
    proof (cases "d = None \<and> cs = []")
      case True
      have te: "tag_end ''/>'' RightAngleSlash" by (rule tag_end.intros)
      show ?thesis using reads_open [OF ws n(2) ok(1,2) te, of xr rest t cur] r True n(1) by fastforce
    next
      case False
      have te: "tag_end ''>'' RightAngle" by (rule tag_end.intros)
      have "element_text k (Xml_node n d as cs l) = CHR ''<'' # nm @ attrs_text as @ ''>'' @ content_text k d cs @ CHR ''<'' # CHR ''/'' # nm @ ''>''"
        using False n(1) by (simp add: content_text_def)
      then have r1: "rd xr (ws @ CHR ''<'' # nm @ attrs_text as @ ''>'' @ content_text k d cs @ CHR ''<'' # CHR ''/'' # nm @ CHR ''>'' # rest) Initial"
        using r by simp
      obtain xr1 l1 where o: "rd xr1 (content_text k d cs @ CHR ''<'' # CHR ''/'' # nm @ CHR ''>'' # rest) Initial"
        "xml_process_element_nested xr t cur = (do {
              (r, xr4) \<leftarrow> xml_process_element_nested xr1 False (Xml_node (Some nm) None as [] l1);
              (if r = None then Some (None, xr4)
               else do { child1 \<leftarrow> r; xml_process_element_nested xr4 t (xml_node_add_child cur child1) }) })"
        using reads_open [OF ws n(2) ok(1,2) te r1, of t cur] by auto
      obtain xr2 c' where "xml_process_element_nested xr1 False (Xml_node (Some nm) None as [] l1) = Some (Some c', xr2)"
         "strip c' = Xml_node (Some nm) d as (map strip cs) None" "rd xr2 rest Initial"
        using reads_content [OF ok(4,3) n(2) o(1)] by blast
      then show ?thesis using o(2) n(1) by (intro exI [of _ xr2] exI [of _ c']) simp
    qed
  qed
qed


section \<open>Documents\<close>

definition header_attrs :: "xml_attr list" where
  "header_attrs = [(''version'', Some ''1.0''), (''encoding'', Some ''utf8'')]"

lemma xml_header_text: "xml_header = CHR ''<'' # CHR ''?'' # ''xml'' @ attrs_text header_attrs @ ''?>'' @ [NL]"
  by (simp add: xml_header_def header_attrs_def attr_output_def xml_escape_quote_def)

lemma header_ok: "is_identifier ''xml''" "list_all attr_ok header_attrs"
  by (simp_all add: header_attrs_def is_identifier_def attr_ok_def ident_start_def ident_char_def c_islower_def c_isupper_def
      c_isalnum_def c_isdigit_def c_code_def DQUOTE_def NUL_def)

lemma reads_header:
  assumes "rd xr (xml_header @ cs) Initial"
  shows "\<exists>xr'. xml_process_element_nested xr t cur = xml_process_element_nested xr' t cur \<and> rd xr' (NL # cs) Initial"
proof -
  have te: "tag_end ''?>'' RightAngleQ" by (rule tag_end.intros)
  obtain xr1 v where a: "xml_get_token xr = Some (LeftAngleQ, xr1, v)"
      "rd xr1 (''xml'' @ attrs_text header_attrs @ ''?>'' @ NL # cs) Tag"
    using rd_token_left_mark [of "[]" xr "CHR ''?''" "''xml'' @ attrs_text header_attrs @ ''?>'' @ NL # cs" LeftAngleQ] assms
    by (auto simp: xml_header_text)
  obtain xr2 where b: "xml_get_token xr1 = Some (Identifier, xr2, Some ''xml'')" "rd xr2 (attrs_text header_attrs @ ''?>'' @ NL # cs) Tag"
    using rd_token_identifier [of "[]" "''xml''" "attrs_text header_attrs @ ''?>'' @ NL # cs" xr1] header_ok(1) attrs_text_ends [OF te] a(2)
    by auto
  let ?n = "xml_node_here xr2 (Some ''xml'')"
  obtain xr3 where c: "xml_get_tag_attributes xr2 ?n = Some (RightAngleQ, xr3, add_attrs ?n header_attrs)" "rd xr3 (NL # cs) Initial"
    using rd_get_tag_attributes [OF header_ok(2) te b(2)] by blast
  have nm: "xn_name (add_attrs ?n header_attrs) = Some ''xml''"
    using header_ok(1) by (simp add: add_attrs_fields xml_node_here_def)
  have "xml_process_element_nested xr t cur = xml_process_element_nested xr3 t cur"
    using a b c(1) nm by (subst xml_process_element_nested.simps) (simp add: xml_get_identifier_def xml_process_pi_node_def)
  then show ?thesis using c(2) by blast
qed

lemma reads_end:
  assumes "list_all c_isspace ws" "rd xr ws Initial"
  shows "\<exists>xr'. xml_process_element_nested xr True cur = Some (Some cur, xr') \<and> rd xr' [] Initial"
proof -
  obtain xr' v where "xml_get_token xr = Some (EndOfDocument, xr', v)" "rd xr' [] Initial" using rd_token_end [OF assms] by blast
  then show ?thesis by (subst xml_process_element_nested.simps) auto
qed

lemma rd_destroy: "rd xr cs st \<Longrightarrow> xml_reader_destroy xr = 0"
  by (cases "xr_source xr") (auto simp: rd_def xml_reader_destroy_def)

lemma printable_docE:
  assumes "printable_doc doc"
  obtains cs l where "doc = \<lparr>xd_dtd = None, xd_root = Some (Xml_node None None [] cs l)\<rparr>" "list_all printable cs"
proof -
  obtain root where "xd_root doc = Some root" "xd_dtd doc = None" "xn_name root = None" "xn_cdata root = None" "xn_attrs root = []"
      "list_all printable (xn_children root)"
    using assms by (auto simp: printable_doc_def split: option.splits)
  then show ?thesis using that [of "xn_children root" "xn_location root"] by (cases doc; cases root) auto
qed

text \<open>Reading from a reader in front of the text of a document.\<close>

lemma xml_process_reader_ok:
  assumes "printable_doc doc" "xml_document_sprint doc = Some s" "rd xr s Initial"
  shows "\<exists>doc' xr'. xml_process_reader xr = Some (Some doc', xr') \<and> strip_doc doc' = strip_doc doc \<and> rd xr' [] Initial"
proof -
  obtain cs l where d: "doc = \<lparr>xd_dtd = None, xd_root = Some (Xml_node None None [] cs l)\<rparr>" "list_all printable cs"
    using printable_docE [OF assms(1)] by blast
  obtain ps where ps: "xml_nodes_output cs 0 = Some ps" "concat ps = (if cs = [] then [] else spaces 0 @ elements_text 0 cs)"
    using output_text(2) [OF d(2)] by blast
  have "s = xml_header @ elements_text 0 cs"
    using assms(2) ps d(1) by (auto simp: xml_document_sprint_def xml_document_output_def writer_text_def cdata_output_def spaces_def)
  then have r0: "rd xr (xml_header @ elements_text 0 cs) Initial" using assms(3) by simp
  let ?root = "xml_node_set_location (xml_node_new None) (Some (xr_filename xr, xr_line xr))"
  obtain xr1 where x1: "xml_process_element_nested xr True ?root = xml_process_element_nested xr1 True ?root"
      "rd xr1 ([NL] @ elements_text 0 cs @ []) Initial"
    using reads_header [OF r0] by auto
  have ch: "\<forall>c\<in>set cs. reads c" using d(2) printable_reads by (auto simp: list_all_iff)
  have ws: "list_all c_isspace [NL]" using nl_space by simp
  obtain xr2 cs' ws' where x2: "xml_process_element_nested xr1 True ?root = xml_process_element_nested xr2 True (add_children ?root cs')"
      "map strip cs' = map strip cs" "list_all c_isspace ws'" "rd xr2 ws' Initial"
    using reads_children [OF ch ws x1(2), of True ?root] by auto
  obtain xr3 where x3: "xml_process_element_nested xr2 True (add_children ?root cs') = Some (Some (add_children ?root cs'), xr3)" "rd xr3 [] Initial"
    using reads_end [OF x2(3,4)] by blast
  have "xml_process_reader xr = Some (Some \<lparr>xd_dtd = None, xd_root = Some (add_children ?root cs')\<rparr>, xr3)"
    using x1(1) x2(1) x3 rd_destroy [OF x3(2)]
    by (simp add: xml_process_reader_def xml_process_document_def xml_document_root_def xml_document_new_def)
  moreover have "strip (add_children ?root cs') = strip (Xml_node None None [] cs l)"
    using x2(2) by (simp add: add_children_def xml_node_set_children_def)
  ultimately show ?thesis using x3(2) d(1) by (intro exI [of _ "\<lparr>xd_dtd = None, xd_root = Some (add_children ?root cs')\<rparr>"] exI [of _ xr3])
      (simp add: strip_doc_def)
qed

subsection \<open>The text of a document has no NUL\<close>

lemma esc_NUL: "NUL \<notin> set s \<Longrightarrow> NUL \<notin> set (esc s)"
proof (induction s)
  case (Cons c s)
  have "NUL \<notin> set (esc_char c)" using esc_char_cases [of c] Cons.prems by (auto simp: NUL_def)
  then show ?case using Cons by simp
qed simp

lemma identifier_NUL: "is_identifier n \<Longrightarrow> NUL \<notin> set n"
  using ident_char_not by (auto simp: is_identifier_def list_all_iff)

lemma attrs_NUL: "list_all attr_ok as \<Longrightarrow> NUL \<notin> set (attrs_text as)"
proof (induction as)
  case (Cons a as)
  then have "attr_ok a" "NUL \<notin> set (attrs_text as)" by simp_all
  then show ?case using identifier_NUL [of "fst a"]
    by (auto simp: attr_output_def attr_ok_def xml_escape_quote_def NUL_def DQUOTE_def split: option.splits)
qed simp

lemma element_text_NUL:
  "printable c \<Longrightarrow> NUL \<notin> set (element_text k c)"
  "list_all printable cs \<Longrightarrow> NUL \<notin> set (elements_text k cs)"
proof (induction k c and k cs rule: element_text_elements_text.induct)
  case (1 k n d as cs l)
  obtain nm where n: "n = Some nm" "is_identifier nm" using 1(2) by (auto simp: element_name_def split: option.splits)
  have sp: "NUL \<notin> set (spaces j)" "NUL \<noteq> NL" for j by (simp_all add: spaces_def NUL_def NL_def)
  have d: "NUL \<notin> set (case d of None \<Rightarrow> [] | Some s \<Rightarrow> (if NL \<in> set s then [NL] else []) @ esc s)"
    using 1(2) esc_NUL sp by (auto simp: cdata_ok_def split: option.splits)
  have c: "cs \<noteq> [] \<Longrightarrow> NUL \<notin> set (elements_text (k + 2) cs)" using 1 by auto
  have a: "NUL \<notin> set (attrs_text as)" using 1(2) attrs_NUL by simp
  have ch: "NUL \<noteq> CHR ''<''" "NUL \<noteq> CHR ''>''" "NUL \<noteq> CHR ''/''" by (simp_all add: NUL_def)
  show ?case using sp d c a ch identifier_NUL [OF n(2)] n(1) by simp
next
  case (2 k)
  then show ?case by simp
next
  case (3 k c cs)
  have "NUL \<notin> set (spaces k)" "NUL \<noteq> NL" by (simp_all add: spaces_def NUL_def NL_def)
  then show ?case using 3 by (cases "cs = []") simp_all
qed

lemma printable_sprint:
  assumes "printable_doc doc"
  shows "\<exists>s. xml_document_sprint doc = Some s \<and> NUL \<notin> set s"
proof -
  obtain cs l where d: "doc = \<lparr>xd_dtd = None, xd_root = Some (Xml_node None None [] cs l)\<rparr>" "list_all printable cs"
    using printable_docE [OF assms] by blast
  obtain ps where ps: "xml_nodes_output cs 0 = Some ps" "concat ps = (if cs = [] then [] else spaces 0 @ elements_text 0 cs)"
    using output_text(2) [OF d(2)] by blast
  have "NUL \<notin> set (elements_text 0 cs)" by (rule element_text_NUL(2) [OF d(2)])
  moreover have "NUL \<notin> set xml_header" by (simp add: xml_header_def NUL_def DQUOTE_def NL_def)
  ultimately show ?thesis using ps d(1)
    by (auto simp: xml_document_sprint_def xml_document_output_def writer_text_def cdata_output_def spaces_def)
qed

section \<open>Properties\<close>

text \<open>C33: A document the syntax can carry (identifiers as names, no quote or NUL in an attribute value, ASCII
  texts without surrounding empty lines) is printed, and reading the text gives the document
  back, up to the locations, whether the text is read as a string, from a buffer, or line by line from a stream.\<close>

theorem xml_print_read:
  assumes "printable_doc doc"
  shows "\<exists>s. xml_document_sprint doc = Some s
     \<and> (length s < 2 ^ 64 \<longrightarrow>
          (\<exists>doc'. xml_document_from_string (Some s) loc = Some (Some doc') \<and> strip_doc doc' = strip_doc doc))
     \<and> (\<forall>b. buf_wf b \<and> map byte_char (buf_bytes b) = s \<longrightarrow>
          (\<exists>doc' xr. xml_document_from_buffer b loc = Some (Some doc', xr) \<and> strip_doc doc' = strip_doc doc))
     \<and> (\<exists>doc' xr. xml_document_scan (stream_of s False) loc = Some (Some doc', xr) \<and> strip_doc doc' = strip_doc doc)"
proof -
  obtain s where s: "xml_document_sprint doc = Some s" "NUL \<notin> set s" using printable_sprint [OF assms] by blast
  note ok = xml_process_reader_ok [OF assms s(1)]
  have "\<exists>doc'. xml_document_from_string (Some s) loc = Some (Some doc') \<and> strip_doc doc' = strip_doc doc" if "length s < 2 ^ 64"
    using ok [OF rd_string [OF that, of loc]] by (auto simp: xml_document_from_string_def xml_document_from_buffer_def)
  moreover have "\<exists>doc' xr. xml_document_from_buffer b loc = Some (Some doc', xr) \<and> strip_doc doc' = strip_doc doc"
    if "buf_wf b" "map byte_char (buf_bytes b) = s" for b
    using ok [of "xml_reader_init_buffer b loc"] rd_buffer [OF that(1), of loc] that(2) by (auto simp: xml_document_from_buffer_def)
  moreover have "\<exists>doc' xr. xml_document_scan (stream_of s False) loc = Some (Some doc', xr) \<and> strip_doc doc' = strip_doc doc"
    using ok [OF rd_stream [OF s(2), of loc]] by (auto simp: xml_document_scan_def)
  ultimately show ?thesis using s(1) by blast
qed


definition sample_document :: xml_document where
  "sample_document = \<lparr>xd_dtd = None, xd_root = Some (Xml_node None None []
     [Xml_node (Some ''a'') (Some (''t <'' @ [NL])) [(''b'', Some ''x''), (''c'', None)]
        [Xml_node (Some ''d'') None [] [] None, Xml_node (Some ''e'') (Some ''u'') [] [] None] None] None)\<rparr>"

lemma sample_printable: "printable_doc sample_document"
  by (simp add: printable_doc_def sample_document_def element_name_def is_identifier_def ident_start_def ident_char_def
      c_islower_def c_isupper_def c_isalnum_def c_isdigit_def c_code_def attr_ok_def cdata_ok_def ascii_def NUL_def DQUOTE_def
      NL_def has_text_def c_isspace_def text_fix_def trim_text_def arr_get_def is_eol_def is_blank_def)

lemma xml_print_read_witness:
  "\<exists>s. xml_document_sprint sample_document = Some s
     \<and> (length s < 2 ^ 64 \<longrightarrow>
          (\<exists>doc'. xml_document_from_string (Some s) None = Some (Some doc') \<and> strip_doc doc' = strip_doc sample_document))
     \<and> (\<forall>b. buf_wf b \<and> map byte_char (buf_bytes b) = s \<longrightarrow>
          (\<exists>doc' xr. xml_document_from_buffer b None = Some (Some doc', xr) \<and> strip_doc doc' = strip_doc sample_document))
     \<and> (\<exists>doc' xr. xml_document_scan (stream_of s False) None = Some (Some doc', xr) \<and> strip_doc doc' = strip_doc sample_document)"
  by (rule xml_print_read [OF sample_printable])

end
