(* ===== verification/XmlTotal.thy ===== *)
theory XmlTotal
  imports XmlRound
begin

text \<open>
  The XML reader comes back: every token consumes characters, so the loops of the reader end for every
  input.  The three faults of the reader need an ampersand (an entity) or an exclamation mark (an
  unsupported declaration): a source without them is read without a fault, whatever else it holds.
\<close>

section \<open>Sources without entities and declarations\<close>

definition plain_char :: "char \<Rightarrow> bool" where
  "plain_char c \<longleftrightarrow> c \<noteq> CHR ''&'' \<and> c \<noteq> CHR ''!''"

definition plain_source :: "xml_source \<Rightarrow> bool" where
  "plain_source s = (case s of
     In_buffer b \<Rightarrow> buf_wf b \<and> list_all (\<lambda>x. plain_char (byte_char x)) (buf_base b)
   | In_file f \<Rightarrow> (case xf_pos f of None \<Rightarrow> True | Some p \<Rightarrow> p \<le> length (xf_buffer f))
       \<and> list_all plain_char (xf_buffer f) \<and> list_all plain_char (xf_rest f))"

definition plain :: "xml_reader \<Rightarrow> bool" where "plain xr = plain_source (xr_source xr)"

lemma plain_set_state [simp]: "plain (xr\<lparr>xr_state := s\<rparr>) = plain xr" "plain (xr\<lparr>xr_doctype := d\<rparr>) = plain xr"
    "plain (xml_parse_error xr) = plain xr"
  by (simp_all add: plain_def xml_parse_error_def)

lemma plain_fgets:
  assumes "xf_fgets f = Some f'" "list_all plain_char (xf_rest f)"
  shows "list_all plain_char (xf_buffer f')" "list_all plain_char (xf_rest f')"
proof -
  obtain l r where lr: "line_split (XML_READER_BUFSZ - 1) (xf_rest f) = (l, r)" "f' = f\<lparr>xf_buffer := l, xf_rest := r\<rparr>"
    using assms(1) by (auto simp: xf_fgets_def split: prod.splits if_splits)
  have "xf_rest f = l @ r" using line_split_append [OF lr(1)] by simp
  then have "list_all plain_char l" "list_all plain_char r" using assms(2) by simp_all
  then show "list_all plain_char (xf_buffer f')" "list_all plain_char (xf_rest f')" using lr(2) by simp_all
qed

lemma plain_xf_getc:
  assumes "plain_source (In_file f)"
  shows "\<exists>cc f' line'. xf_getc f line = Some (cc, f', line') \<and> plain_source (In_file f') \<and> (\<forall>c. cc = Some c \<longrightarrow> plain_char c)"
  using assms
proof (induction f line rule: xf_getc.induct)
  case (1 f line)
  have refill: "\<exists>cc f' line'. (case xf_fgets g of None \<Rightarrow> Some (None, xf_fail g, ln) | Some f2 \<Rightarrow> xf_getc (f2\<lparr>xf_pos := Some 0\<rparr>) ln)
        = Some (cc, f', line') \<and> plain_source (In_file f') \<and> (\<forall>c. cc = Some c \<longrightarrow> plain_char c)"
    if g: "list_all plain_char (xf_buffer g)" "list_all plain_char (xf_rest g)" "xf_pos g = None"
      and ih: "\<And>f2. xf_fgets g = Some f2 \<Longrightarrow> plain_source (In_file (f2\<lparr>xf_pos := Some 0\<rparr>)) \<Longrightarrow>
          \<exists>cc f' line'. xf_getc (f2\<lparr>xf_pos := Some 0\<rparr>) ln = Some (cc, f', line') \<and> plain_source (In_file f') \<and> (\<forall>c. cc = Some c \<longrightarrow> plain_char c)"
    for g ln
  proof (cases "xf_fgets g")
    case None
    then show ?thesis using g by (simp add: plain_source_def xf_fail_def)
  next
    case (Some f2)
    then show ?thesis using ih [OF Some] plain_fgets [OF Some g(2)] by (simp add: plain_source_def)
  qed
  show ?case
  proof (cases "xf_pos f")
    case None
    show ?thesis using refill [of f line] 1 None by (subst xf_getc.simps) (simp add: plain_source_def)
  next
    case (Some p)
    then have p: "p \<le> length (xf_buffer f)" using "1.prems" by (simp add: plain_source_def)
    show ?thesis
    proof (cases "(xf_buffer f @ [NUL]) ! p = NUL")
      case True
      show ?thesis using refill [of "f\<lparr>xf_pos := None\<rparr>" line] 1 Some p True
        by (subst xf_getc.simps) (simp add: plain_source_def arr_get_def NUL_def NL_def)
    next
      case False
      then have q: "p < length (xf_buffer f)" "xf_buffer f ! p \<noteq> NUL" using p by (auto simp: nth_append split: if_splits)
      then have "plain_char (xf_buffer f ! p)" using "1.prems" by (simp add: plain_source_def list_all_length)
      then show ?thesis using xf_getc_block [OF Some q, of line] "1.prems" Some q(1) by (auto simp: plain_source_def)
    qed
  qed
qed

lemma plain_getc:
  assumes "plain xr"
  shows "\<exists>cc xr'. xml_getc xr = Some (cc, xr') \<and> plain xr' \<and> (\<forall>c. cc = Some c \<longrightarrow> plain_char c)"
proof (cases "xr_source xr")
  case (In_buffer b)
  then have b: "buf_wf b" "list_all (\<lambda>x. plain_char (byte_char x)) (buf_base b)" using assms by (simp_all add: plain_def plain_source_def)
  show ?thesis
  proof (cases "buf_bytes b")
    case Nil
    then show ?thesis using ni_buffer_getc_eof [OF b(1)] In_buffer assms by (auto simp: xml_getc_def plain_def)
  next
    case (Cons x r)
    have "x \<in> set (buf_base b)" using Cons by (metis buf_bytes_def in_set_dropD in_set_takeD list.set_intros(1))
    then have "plain_char (byte_char x)" using b(2) by (simp add: list_all_iff)
    then show ?thesis using ni_buffer_getc_ok [OF b(1) Cons] In_buffer b(2)
      by (auto simp: xml_getc_def plain_def plain_source_def EOF_def uint_not_EOF byte_char_def)
  qed
next
  case (In_file f)
  then obtain cc f' line' where "xf_getc f (xr_line xr) = Some (cc, f', line')" "plain_source (In_file f')" "\<forall>c. cc = Some c \<longrightarrow> plain_char c"
    using plain_xf_getc [of f "xr_line xr"] assms unfolding plain_def by auto
  then show ?thesis using In_file by (auto simp: xml_getc_def plain_def)
qed

lemma plain_ungetc:
  assumes "plain xr"
  shows "\<exists>xr'. xml_ungetc xr cc = Some xr' \<and> plain xr'"
proof (cases "xr_source xr")
  case (In_buffer b)
  then have b: "buf_wf b" "list_all (\<lambda>x. plain_char (byte_char x)) (buf_base b)" using assms by (simp_all add: plain_def plain_source_def)
  have "\<exists>rv b'. ni_buffer_ungetc b (cc_byte cc) = Some (rv, b') \<and> buf_wf b' \<and> buf_base b' = buf_base b"
  proof (cases "buf_head b = 0")
    case True
    then show ?thesis using b(1) by (simp add: ni_buffer_ungetc_def)
  next
    case False
    then have h: "unat (buf_head b) = Suc (unat (buf_head b - 1))" by (simp add: unat_minus_one unat_gt_0)
    have w: "length (buf_base b) = unat (buf_size b)" "unat (buf_head b) \<le> unat (buf_tail b)" "unat (buf_tail b) \<le> unat (buf_size b)"
      using b(1) by (simp_all add: buf_wf_def word_le_nat_alt)
    then have i: "unat (buf_head b - 1) < length (buf_base b)" using h by linarith
    have "buf_wf (b\<lparr>buf_head := buf_head b - 1\<rparr>)" using w h by (simp add: buf_wf_def word_le_nat_alt)
    then show ?thesis using False i b(1) by (simp add: ni_buffer_ungetc_def arr_get_in)
  qed
  then show ?thesis using In_buffer b(2) by (auto simp: xml_ungetc_def plain_def plain_source_def)
next
  case (In_file f)
  then have f: "plain_source (In_file f)" using assms by (simp add: plain_def)
  show ?thesis
  proof (cases "xf_pos f")
    case None
    then show ?thesis using In_file assms by (simp add: xml_ungetc_def)
  next
    case (Some p)
    then have "p \<le> length (xf_buffer f)" using f by (simp add: plain_source_def)
    then show ?thesis using In_file Some f assms by (auto simp: xml_ungetc_def plain_def plain_source_def arr_get_def)
  qed
qed

lemma ungetc_eof: "xml_ungetc xr None = Some xr' \<Longrightarrow> xr_left xr' \<le> xr_left xr"
proof (cases "xr_source xr")
  case (In_buffer b)
  assume u: "xml_ungetc xr None = Some xr'"
  have "uint (x :: byte) \<noteq> sint (0xff :: byte)" for x using uint_not_EOF [of x] by simp
  then have "xr_source xr' = In_buffer b"
    using u In_buffer by (auto simp: xml_ungetc_def cc_byte_def ni_buffer_ungetc_def split: if_splits)
  then show ?thesis using In_buffer by (simp add: xr_left_def)
next
  case (In_file f)
  assume "xml_ungetc xr None = Some xr'"
  then show ?thesis using In_file by (auto simp: xml_ungetc_def xr_left_def split: option.splits if_splits)
qed

section \<open>The loops over characters\<close>

lemma plain_skip_space:
  "plain xr \<Longrightarrow> \<exists>xr' t'. xml_skip_space xr t = Some (xr', t') \<and> plain xr' \<and> xr_left xr' \<le> xr_left xr"
proof (induction xr t rule: xml_skip_space.induct)
  case (1 xr t)
  obtain cc xr1 where g: "xml_getc xr = Some (cc, xr1)" "plain xr1" using plain_getc [OF "1.prems"] by blast
  have "\<exists>xr' t'. xml_skip_space xr t = Some (xr', t') \<and> plain xr'"
  proof (cases "\<exists>c. cc = Some c \<and> c_isspace c")
    case True
    then show ?thesis using "1.IH" [OF g(1)] g by (subst xml_skip_space.simps) auto
  next
    case False
    then show ?thesis using plain_ungetc [OF g(2), of cc] g by (subst xml_skip_space.simps) (auto split: option.split)
  qed
  then show ?case using xml_skip_space_left by blast
qed

lemma plain_identifier_loop:
  "plain xr \<Longrightarrow> \<exists>xr' t'. identifier_loop xr t = Some (xr', t') \<and> plain xr' \<and> xr_left xr' \<le> xr_left xr \<and> (t \<noteq> None \<longrightarrow> t' \<noteq> None)"
proof (induction xr t rule: identifier_loop.induct)
  case (1 xr t)
  obtain cc xr1 where g: "xml_getc xr = Some (cc, xr1)" "plain xr1" using plain_getc [OF "1.prems"] by blast
  show ?case
  proof (cases cc)
    case None
    then show ?thesis using g xml_getc_left_le [OF g(1)] by (subst identifier_loop.simps) auto
  next
    case (Some c)
    then have l: "xr_left xr1 < xr_left xr" using xml_getc_left g(1) by simp
    show ?thesis
    proof (cases "ident_char c")
      case True
      obtain xr' t' where "identifier_loop xr1 (tok_putc t c) = Some (xr', t')" "plain xr'" "xr_left xr' \<le> xr_left xr1" "t' \<noteq> None"
        using "1.IH" [OF g(1) refl Some] True g(2) by (auto simp: tok_putc_def)
      then show ?thesis using True Some g(1) l by (subst identifier_loop.simps) auto
    next
      case False
      obtain xr2 where u: "xml_ungetc xr1 cc = Some xr2" "plain xr2" using plain_ungetc [OF g(2)] by blast
      then show ?thesis using False Some g(1) get_unget_left [of xr c xr1 cc xr2] by (subst identifier_loop.simps) auto
    qed
  qed
qed

lemma plain_quoted_loop:
  "plain xr \<Longrightarrow> \<exists>token xr' t'. quoted_loop xr oc t = Some (token, xr', t') \<and> plain xr' \<and> xr_left xr' \<le> xr_left xr
      \<and> (token = QuotedString \<or> token = NoToken)"
proof (induction xr oc t rule: quoted_loop.induct)
  case (1 xr oc t)
  obtain cc xr1 where g: "xml_getc xr = Some (cc, xr1)" "plain xr1" using plain_getc [OF "1.prems"] by blast
  have le: "xr_left xr1 \<le> xr_left xr" by (rule xml_getc_left_le [OF g(1)])
  show ?case
  proof (cases "\<exists>c. cc = Some c \<and> c \<noteq> oc")
    case True
    then obtain c where c: "cc = Some c" "c \<noteq> oc" by blast
    obtain token xr' t' where "quoted_loop xr1 oc (tok_putc t c) = Some (token, xr', t')" "plain xr'" "xr_left xr' \<le> xr_left xr1"
        "token = QuotedString \<or> token = NoToken"
      using "1.IH" [OF g(1) refl c(1)] c(2) g(2) by auto
    then show ?thesis using c g(1) le by (subst quoted_loop.simps) auto
  next
    case False
    then show ?thesis using g le by (subst quoted_loop.simps) (auto split: option.split)
  qed
qed

lemma plain_cdata_loop:
  "plain xr \<Longrightarrow> plain_char c \<Longrightarrow> t \<noteq> None \<or> c \<noteq> CHR ''<'' \<Longrightarrow>
     \<exists>xr' t'. cdata_loop xr c t = Some (True, xr', Some t') \<and> plain xr'
       \<and> xr_left xr' \<le> (if c = CHR ''<'' then Suc (xr_left xr) else xr_left xr)"
proof (induction xr c t rule: cdata_loop.induct)
  case (1 xr c t)
  show ?case
  proof (cases "c = CHR ''<''")
    case True
    obtain xr1 where "xml_ungetc xr (Some c) = Some xr1" "plain xr1" using plain_ungetc [OF "1.prems"(1)] by blast
    then show ?thesis using True "1.prems"(3) xml_ungetc_left [of xr "Some c" xr1] by (subst cdata_loop.simps) auto
  next
    case False
    have amp: "c \<noteq> CHR ''&''" using "1.prems"(2) by (simp add: plain_char_def)
    obtain cc xr2 where g: "xml_getc xr = Some (cc, xr2)" "plain xr2" "\<forall>c. cc = Some c \<longrightarrow> plain_char c"
      using plain_getc [OF "1.prems"(1)] by blast
    have eq: "(if c = CHR ''&'' then xml_expand_entity xr t else Some (True, xr, tok_putc t c)) = Some (True, xr, tok_putc t c)"
      using amp by simp
    show ?thesis
    proof (cases cc)
      case None
      then show ?thesis using False amp g xml_getc_left_le [OF g(1)] by (subst cdata_loop.simps) (auto simp: tok_putc_def)
    next
      case (Some c')
      have l: "xr_left xr2 < xr_left xr" using xml_getc_left g(1) Some by simp
      obtain xr' t' where r: "cdata_loop xr2 c' (tok_putc t c) = Some (True, xr', Some t')" "plain xr'"
          "xr_left xr' \<le> (if c' = CHR ''<'' then Suc (xr_left xr2) else xr_left xr2)"
        using "1.IH" [OF False eq refl refl _ g(1) refl Some g(2)] g(3) Some by (auto simp: tok_putc_def)
      then have "xr_left xr' \<le> xr_left xr" using l by (auto split: if_splits)
      then show ?thesis using r False amp g(1) Some by (subst cdata_loop.simps) auto
    qed
  qed
qed


section \<open>Tokens\<close>

text \<open>What every token leaves behind.\<close>

definition token_ok :: "xml_reader \<Rightarrow> (xml_token_type \<times> xml_reader \<times> tok) option \<Rightarrow> bool" where
  "token_ok xr r \<longleftrightarrow> (case r of None \<Rightarrow> False
     | Some (token, xr', t) \<Rightarrow> plain xr' \<and> xr_left xr' \<le> xr_left xr
         \<and> (token \<noteq> NoToken \<and> token \<noteq> EndOfDocument \<longrightarrow> xr_left xr' < xr_left xr)
         \<and> (token = Identifier \<longrightarrow> t \<noteq> None) \<and> token \<noteq> LeftAngleExclam)"

lemma trim_text_total: "\<exists>d. trim_text s = Some d"
  by (simp add: trim_text_rev Let_def)

lemma plain_token_initial:
  assumes "plain xr" shows "token_ok xr (xml_get_token_initial xr t)"
proof -
  obtain xr1 t1 where s: "xml_skip_space xr t = Some (xr1, t1)" "plain xr1" "xr_left xr1 \<le> xr_left xr"
    using plain_skip_space [OF assms] by blast
  obtain cc xr2 where g: "xml_getc xr1 = Some (cc, xr2)" "plain xr2" "\<forall>c. cc = Some c \<longrightarrow> plain_char c"
    using plain_getc [OF s(2)] by blast
  show ?thesis
  proof (cases cc)
    case None
    then show ?thesis using s g xml_getc_left_le [OF g(1)] by (subst xml_get_token_initial.simps) (simp add: token_ok_def)
  next
    case (Some c)
    have l: "xr_left xr2 < xr_left xr" using xml_getc_left [of xr1 c xr2] g(1) Some s(3) by simp
    show ?thesis
    proof (cases "c = CHR ''<''")
      case False
      obtain xr3 t3 where c: "cdata_loop xr2 c t1 = Some (True, xr3, Some t3)" "plain xr3" "xr_left xr3 \<le> xr_left xr2"
        using plain_cdata_loop [OF g(2), of c t1] g(3) Some False by auto
      obtain d where "trim_text t3 = Some d" using trim_text_total by blast
      then show ?thesis using s(1) g(1) Some False c l by (subst xml_get_token_initial.simps) (simp add: token_ok_def)
    next
      case lt: True
      have "plain (xr2\<lparr>xr_state := Tag\<rparr>)" using g(2) by simp
      then obtain cc3 xr3 where g3: "xml_getc (xr2\<lparr>xr_state := Tag\<rparr>) = Some (cc3, xr3)" "plain xr3" "\<forall>c. cc3 = Some c \<longrightarrow> plain_char c"
        using plain_getc by blast
      have l3: "xr_left xr3 \<le> xr_left xr2" using xml_getc_left_le [OF g3(1)] by simp
      obtain xr4 where u: "xml_ungetc xr3 cc3 = Some xr4" "plain xr4" using plain_ungetc [OF g3(2)] by blast
      have l4: "xr_left xr4 \<le> Suc (xr_left xr3)" by (rule xml_ungetc_left [OF u(1)])
      have ex: "cc3 \<noteq> Some (CHR ''!'')" using g3(3) by (auto simp: plain_char_def)
      have "xr_left xr4 \<le> xr_left xr2 \<or> cc3 = None"
        using xml_getc_left [of "xr2\<lparr>xr_state := Tag\<rparr>" "the cc3" xr3] g3(1) l4 by (cases cc3) auto
      moreover have "xr_left xr4 \<le> xr_left xr3" if "cc3 = None"
        using u(1) that ungetc_eof by blast
      ultimately have "xr_left xr4 \<le> xr_left xr2" using l3 by auto
      then show ?thesis using s(1) g(1,2) Some lt g3(1,2) l l3 u ex
        by (subst xml_get_token_initial.simps) (auto simp: token_ok_def Let_def)
    qed
  qed
qed

lemma plain_expect_right:
  assumes "plain xr1" "xr_left xr1 < xr_left xr" "token \<noteq> Identifier" "token \<noteq> LeftAngleExclam"
  shows "token_ok xr (expect_right xr1 token t)"
proof -
  obtain cc xr2 where g: "xml_getc xr1 = Some (cc, xr2)" "plain xr2" using plain_getc [OF assms(1)] by blast
  show ?thesis using g assms xml_getc_left_le [OF g(1)] by (simp add: expect_right_def token_ok_def)
qed

lemma plain_token_tag:
  assumes "plain xr" shows "token_ok xr (xml_get_token_tag xr t)"
proof -
  obtain xr1 t1 where s: "xml_skip_space xr None = Some (xr1, t1)" "plain xr1" "xr_left xr1 \<le> xr_left xr"
    using plain_skip_space [OF assms] by blast
  obtain cc xr2 where g: "xml_getc xr1 = Some (cc, xr2)" "plain xr2" using plain_getc [OF s(2)] by blast
  show ?thesis
  proof (cases cc)
    case None
    then show ?thesis using s g xml_getc_left_le [OF g(1)] by (simp add: xml_get_token_tag_def token_ok_def)
  next
    case (Some c)
    have l: "xr_left xr2 < xr_left xr" using xml_getc_left [of xr1 c xr2] g(1) Some s(3) by simp
    have "token_ok xr (expect_right xr2 RightAngleQ (tok_putc t c))" "token_ok xr (expect_right xr2 RightAngleSlash (tok_putc t c))"
      using plain_expect_right [OF g(2) l] by simp_all
    moreover obtain xr3 t3 where "identifier_loop xr2 (tok_putc t c) = Some (xr3, t3)" "plain xr3" "xr_left xr3 \<le> xr_left xr2" "t3 \<noteq> None"
      using plain_identifier_loop [OF g(2), of "tok_putc t c"] by (auto simp: tok_putc_def)
    moreover obtain tk xr4 t4 where "quoted_loop xr2 c None = Some (tk, xr4, t4)" "plain xr4" "xr_left xr4 \<le> xr_left xr2" "tk = QuotedString \<or> tk = NoToken"
      using plain_quoted_loop [OF g(2), of c None] by blast
    ultimately show ?thesis using s(1) g Some l
      by (auto simp: xml_get_token_tag_def Let_def token_ok_def)
  qed
qed

lemma plain_token:
  assumes "plain xr"
  obtains token xr' t where "xml_get_token xr = Some (token, xr', t)" "plain xr'" "xr_left xr' \<le> xr_left xr"
    "token \<noteq> NoToken \<Longrightarrow> token \<noteq> EndOfDocument \<Longrightarrow> xr_left xr' < xr_left xr" "token = Identifier \<Longrightarrow> t \<noteq> None" "token \<noteq> LeftAngleExclam"
proof -
  have "token_ok xr (xml_get_token xr)"
    using plain_token_initial [OF assms] plain_token_tag [OF assms] assms
    by (cases "xr_state xr") (simp_all add: xml_get_token_def token_ok_def)
  then show ?thesis using that by (auto simp: token_ok_def split: option.splits prod.splits)
qed

section \<open>Elements\<close>

lemma plain_tag_attributes:
  "plain xr \<Longrightarrow> (token = Identifier \<longrightarrow> v \<noteq> None) \<Longrightarrow>
     \<exists>token' xr' node'. tag_attributes xr token v node = Some (token', xr', node') \<and> plain xr' \<and> xr_left xr' \<le> xr_left xr
        \<and> xn_name node' = xn_name node"
proof (induction "xr_left xr" arbitrary: xr token v node rule: less_induct)
  case less
  show ?case
  proof (cases "token = Identifier")
    case False
    then show ?thesis using less.prems by (subst tag_attributes.simps) auto
  next
    case True
    then obtain name where n: "v = Some name" using less.prems by auto
    have nm: "xn_name (xml_node_add_attr node a b) = xn_name node" for a b by (simp add: xml_node_add_attr_def)
    obtain t1 xr1 v1 where g1: "xml_get_token xr = Some (t1, xr1, v1)" "plain xr1" "xr_left xr1 \<le> xr_left xr"
        "t1 \<noteq> NoToken \<Longrightarrow> t1 \<noteq> EndOfDocument \<Longrightarrow> xr_left xr1 < xr_left xr" "t1 = Identifier \<Longrightarrow> v1 \<noteq> None"
      using plain_token [OF less.prems(1)] by metis
    show ?thesis
    proof (cases "t1 = Equals")
      case False
      have "\<exists>token' xr' node'. tag_attributes xr1 t1 v1 (xml_node_add_attr node (cstr name) None) = Some (token', xr', node')
          \<and> plain xr' \<and> xr_left xr' \<le> xr_left xr1 \<and> xn_name node' = xn_name node"
      proof (cases "t1 = Identifier")
        case True
        then show ?thesis using less.hyps [of xr1 t1 v1 "xml_node_add_attr node (cstr name) None"] g1 nm by simp
      next
        case False
        then show ?thesis using g1(2) nm by (subst tag_attributes.simps) auto
      qed
      then show ?thesis using True n g1 False by (subst tag_attributes.simps) auto
    next
      case eq: True
      obtain t2 xr2 v2 where g2: "xml_get_token xr1 = Some (t2, xr2, v2)" "plain xr2" "xr_left xr2 \<le> xr_left xr1"
        using plain_token [OF g1(2)] by metis
      obtain t3 xr3 v3 where g3: "xml_get_token xr2 = Some (t3, xr3, v3)" "plain xr3" "xr_left xr3 \<le> xr_left xr2" "t3 = Identifier \<Longrightarrow> v3 \<noteq> None"
        using plain_token [OF g2(2)] by metis
      have l: "xr_left xr3 < xr_left xr" using g1(4) eq g2(3) g3(3) by simp
      then obtain t4 xr4 n4 where r: "tag_attributes xr3 t3 v3 (xml_node_add_attr node (cstr name) (map_option cstr v2)) = Some (t4, xr4, n4)"
          "plain xr4" "xr_left xr4 \<le> xr_left xr3" "xn_name n4 = xn_name node"
        using less.hyps [of xr3 t3 v3 "xml_node_add_attr node (cstr name) (map_option cstr v2)"] g3 nm by auto
      show ?thesis
      proof (cases "t2 = QuotedString")
        case True
        then show ?thesis using \<open>token = Identifier\<close> n g1(1) eq g2(1) g3(1) r l by (subst tag_attributes.simps) auto
      next
        case False
        then show ?thesis using \<open>token = Identifier\<close> n g1(1,3) eq g2 by (subst tag_attributes.simps) auto
      qed
    qed
  qed
qed

lemma plain_identifier:
  assumes "plain xr"
  obtains ok xr' t where "xml_get_identifier xr = Some (ok, xr', t)" "plain xr'" "xr_left xr' \<le> xr_left xr" "ok \<Longrightarrow> t \<noteq> None"
proof -
  obtain token xr' t where "xml_get_token xr = Some (token, xr', t)" "plain xr'" "xr_left xr' \<le> xr_left xr" "token = Identifier \<Longrightarrow> t \<noteq> None"
    using plain_token [OF assms] by metis
  then show ?thesis using that by (simp add: xml_get_identifier_def)
qed

lemma plain_get_tag_attributes:
  assumes "plain xr"
  obtains token xr' node' where "xml_get_tag_attributes xr node = Some (token, xr', node')" "plain xr'" "xr_left xr' \<le> xr_left xr"
    "xn_name node' = xn_name node"
proof -
  obtain t xr1 v where g: "xml_get_token xr = Some (t, xr1, v)" "plain xr1" "xr_left xr1 \<le> xr_left xr" "t = Identifier \<Longrightarrow> v \<noteq> None"
    using plain_token [OF assms] by metis
  obtain token xr' node' where r: "tag_attributes xr1 t v node = Some (token, xr', node')" "plain xr'" "xr_left xr' \<le> xr_left xr1" "xn_name node' = xn_name node"
    using plain_tag_attributes [OF g(2)] g(4) by blast
  have "xml_get_tag_attributes xr node = Some (token, xr', node')" using g(1) r(1) by (simp add: xml_get_tag_attributes_def)
  then show ?thesis by (rule that) (use g(3) r(2-4) in simp_all)
qed

text \<open>An element is read to its end or to an error: the recursion into a child and the return from it both
  leave fewer characters.\<close>

lemma plain_element:
  "plain xr \<Longrightarrow> t \<or> xn_name cur \<noteq> None \<Longrightarrow>
     \<exists>r xr'. xml_process_element_nested xr t cur = Some (r, xr') \<and> plain xr' \<and> xr_left xr' \<le> xr_left xr"
proof (induction "xr_left xr" arbitrary: xr t cur rule: less_induct)
  case less
  obtain token xr1 v where g: "xml_get_token xr = Some (token, xr1, v)" "plain xr1" "xr_left xr1 \<le> xr_left xr"
      "token \<noteq> NoToken \<Longrightarrow> token \<noteq> EndOfDocument \<Longrightarrow> xr_left xr1 < xr_left xr" "token \<noteq> LeftAngleExclam"
    using plain_token [OF less.prems(1)] by metis
  obtain ok xr2 ident where i: "xml_get_identifier xr1 = Some (ok, xr2, ident)" "plain xr2" "xr_left xr2 \<le> xr_left xr1" "ok \<Longrightarrow> ident \<noteq> None"
    using plain_identifier [OF g(2)] by metis
  have again: "\<exists>r xr'. xml_process_element_nested xa t ca = Some (r, xr') \<and> plain xr' \<and> xr_left xr' \<le> xr_left xr"
    if "plain xa" "xr_left xa < xr_left xr" "xn_name ca = xn_name cur" for xa ca
    using less.hyps [OF that(2,1), of t ca] that less.prems(2) by auto
  let ?n = "xml_node_here xr2 ident"
  obtain t3 xr3 child where a: "xml_get_tag_attributes xr2 ?n = Some (t3, xr3, child)" "plain xr3" "xr_left xr3 \<le> xr_left xr2" "xn_name child = xn_name ?n"
    using plain_get_tag_attributes [OF i(2)] by metis
  have nm: "ok \<Longrightarrow> xn_name child \<noteq> None" using i(4) a(4) by (simp add: xml_node_here_def)
  have add: "xn_name (xml_node_add_child cur c) = xn_name cur" for c by (simp add: xml_node_add_child_def)
  consider "token = CData" | "token = LeftAngle" | "token = LeftAngleSlash" | "token = LeftAngleQ" | "token = EndOfDocument"
    | "token = NoToken" | "token \<notin> {CData, LeftAngleExclam, LeftAngle, LeftAngleSlash, LeftAngleQ, EndOfDocument, NoToken}"
    using g(5) by blast
  then show ?case
  proof cases
    case 1
    have "\<exists>r xr'. xml_process_element_nested xr1 t (xml_node_set_cdata cur (map_option cstr v)) = Some (r, xr') \<and> plain xr' \<and> xr_left xr' \<le> xr_left xr"
      using again [OF g(2)] g(4) 1 by simp
    then show ?thesis using g(1) 1 by (subst xml_process_element_nested.simps) simp
  next
    case 2
    have l3: "xr_left xr3 < xr_left xr" using g(4) 2 i(3) a(3) by simp
    show ?thesis
    proof (cases "ok \<and> (t3 = RightAngle \<or> t3 = RightAngleSlash)")
      case False
      then show ?thesis using g(1,2) 2 i a l3 g(3) by (subst xml_process_element_nested.simps) auto
    next
      case True
      show ?thesis
      proof (cases "t3 = RightAngle")
        case False
        obtain r xr' where "xml_process_element_nested xr3 t (xml_node_add_child cur child) = Some (r, xr')" "plain xr'" "xr_left xr' \<le> xr_left xr"
          using again [OF a(2) l3 add] by blast
        then show ?thesis using g(1) 2 i(1) a(1) True False by (subst xml_process_element_nested.simps) simp
      next
        case ra: True
        obtain r xr4 where c: "xml_process_element_nested xr3 False child = Some (r, xr4)" "plain xr4" "xr_left xr4 \<le> xr_left xr3"
          using less.hyps [OF l3 a(2), of False child] nm True by auto
        show ?thesis
        proof (cases r)
          case None
          then show ?thesis using g(1) 2 i(1) a(1) True ra c l3 by (subst xml_process_element_nested.simps) simp
        next
          case (Some c1)
          have "xr_left xr4 < xr_left xr" using c(3) l3 by simp
          then obtain r' xr' where "xml_process_element_nested xr4 t (xml_node_add_child cur c1) = Some (r', xr')" "plain xr'" "xr_left xr' \<le> xr_left xr"
            using again [OF c(2) _ add] by blast
          then show ?thesis using g(1) 2 i(1) a(1) True ra c(1) Some by (subst xml_process_element_nested.simps) simp
        qed
      qed
    qed
  next
    case 3
    obtain t4 xr4 v4 where e: "xml_get_token xr2 = Some (t4, xr4, v4)" "plain xr4" "xr_left xr4 \<le> xr_left xr2" using plain_token [OF i(2)] by metis
    have cmp: "\<exists>eq. strcmp_eq (xn_name cur) (map_option cstr ident) = Some eq" if "ok" "\<not> t"
      using i(4) that less.prems(2) by auto
    show ?thesis
    proof (cases "ok \<and> t4 = RightAngle \<and> \<not> t")
      case True
      then obtain eq where "strcmp_eq (xn_name cur) (map_option cstr ident) = Some eq" using cmp by blast
      then show ?thesis using g(1,3) 3 i(1,3) e True by (subst xml_process_element_nested.simps) simp
    next
      case False
      then show ?thesis using g(1,3) 3 i(1-3) e by (subst xml_process_element_nested.simps) auto
    qed
  next
    case 4
    have l3: "xr_left xr3 < xr_left xr" using g(4) 4 i(3) a(3) by simp
    show ?thesis
    proof (cases "ok \<and> t3 = RightAngleQ")
      case False
      then show ?thesis using g(1,2) 4 i a l3 g(3) by (subst xml_process_element_nested.simps) auto
    next
      case True
      have "\<exists>w. xml_process_pi_node child = Some w" using nm True by (auto simp: xml_process_pi_node_def)
      then obtain w where w: "xml_process_pi_node child = Some w" by blast
      obtain r xr' where "xml_process_element_nested xr3 t cur = Some (r, xr')" "plain xr'" "xr_left xr' \<le> xr_left xr"
        using again [OF a(2) l3 refl] by blast
      then show ?thesis using g(1) 4 i(1) a(1) True w by (subst xml_process_element_nested.simps) simp
    qed
  next
    case 5
    then show ?thesis using g by (subst xml_process_element_nested.simps) simp
  next
    case 6
    then show ?thesis using g by (subst xml_process_element_nested.simps) simp
  next
    case 7
    then show ?thesis using g by (subst xml_process_element_nested.simps) simp
  qed
qed

section \<open>Properties\<close>

text \<open>C34: Reading comes to an end and does not fault, whatever the bytes: every string, buffer or stream
  without an ampersand and an exclamation mark is either turned into a document or rejected, however
  unbalanced, truncated or nested it is and even when the stream fails.\<close>

theorem xml_read_total:
  assumes "plain_source src"
  shows "\<exists>doc xr. xml_process_reader (xml_reader_init name src) = Some (doc, xr)"
proof -
  let ?xr = "xml_reader_init name src"
  let ?root = "xml_node_set_location (xml_node_new None) (Some (xr_filename ?xr, xr_line ?xr))"
  have p: "plain ?xr" using assms by (simp add: plain_def xml_reader_init_def)
  obtain r xr' where "xml_process_element_nested ?xr True ?root = Some (r, xr')"
    using plain_element [OF p, of True ?root] by blast
  then show ?thesis by (simp add: xml_process_reader_def xml_process_document_def xml_document_root_def xml_document_new_def)
qed

lemma xml_read_total_witness:
  "\<exists>doc xr. xml_process_reader (xml_reader_init ''f'' (In_file (stream_of ''<a b='c'></d>'' True))) = Some (doc, xr)"
  by (rule xml_read_total) (simp add: plain_source_def stream_of_def plain_char_def)

text \<open>The faults are real: an empty entity and an unsupported declaration.\<close>

lemma xml_read_faults:
  "xml_document_from_string (Some ''<a>&;</a>'') None = None"
  "xml_document_from_string (Some ''<!X>'') None = None"
  by code_simp+

section \<open>What the round trip leaves out\<close>

definition one_element :: "cstring option \<Rightarrow> xml_attr list \<Rightarrow> xml_document" where
  "one_element d as = \<lparr>xd_dtd = None, xd_root = Some (Xml_node None None [] [Xml_node (Some ''a'') d as [] None] None)\<rparr>"

definition read_back :: "xml_document \<Rightarrow> xml_document option option" where
  "read_back doc = do { s \<leftarrow> xml_document_sprint doc; map_option (map_option strip_doc) (xml_document_from_string (Some s) None) }"

text \<open>A character outside ASCII in a text makes the writer index its table out of bounds.\<close>

lemma writer_faults_outside_ascii: "xml_document_sprint (one_element (Some [char_of (0xc3 :: nat)]) []) = None"
  by code_simp

text \<open>An empty attribute value comes back as no value, a quote in a value ends it.\<close>

lemma read_back_empty_value: "read_back (one_element None [(''b'', Some [])]) = Some (Some (one_element None [(''b'', None)]))"
  by code_simp

lemma read_back_quote: "read_back (one_element None [(''b'', Some [DQUOTE])]) = Some None"
  by code_simp

text \<open>A text on one line in front of a child gets a newline, a text of white space is lost.\<close>

lemma read_back_text:
  "read_back (one_element (Some ''  '') []) = Some (Some (one_element None []))"
  "read_back \<lparr>xd_dtd = None, xd_root = Some (Xml_node None None [] [Xml_node (Some ''a'') (Some ''t'') []
       [Xml_node (Some ''b'') None [] [] None] None] None)\<rparr>
   = Some (Some \<lparr>xd_dtd = None, xd_root = Some (Xml_node None None [] [Xml_node (Some ''a'') (Some (''t'' @ [NL])) []
       [Xml_node (Some ''b'') None [] [] None] None] None)\<rparr>)"
  by code_simp+

text \<open>A reader of a buffer cannot put a byte above 127 back: the first one of a text is lost.\<close>

lemma first_byte_lost:
  "map_option (map_option strip_doc) (xml_document_from_string (Some (''<a>'' @ [char_of (0xc3 :: nat), char_of (0xa9 :: nat)] @ ''</a>'')) None)
   = Some (Some (one_element (Some [char_of (0xa9 :: nat)]) []))"
  "map_option (map_option strip_doc \<circ> fst) (xml_document_scan (stream_of (''<a>'' @ [char_of (0xc3 :: nat), char_of (0xa9 :: nat)] @ ''</a>'') False) None)
   = Some (Some (one_element (Some [char_of (0xc3 :: nat), char_of (0xa9 :: nat)]) []))"
  by code_simp+

text \<open>The line of a node read from a buffer only ever decreases.\<close>

lemma buffer_lines:
  "map_option (map_option (\<lambda>d. map xn_location (xn_children (the (xd_root d))))) (xml_document_from_string (Some ([NL, NL] @ ''<a/><b/>'')) None)
   = Some (Some [Some (''<buffer>'', 1), Some (''<buffer>'', 1)])"
  "map_option (map_option (\<lambda>d. map xn_location (xn_children (the (xd_root d)))) \<circ> fst)
      (xml_document_scan (stream_of ([NL, NL] @ ''<a/><b/>'') False) None)
   = Some (Some [Some (''<stdin>'', 3), Some (''<stdin>'', 3)])"
  by code_simp+

text \<open>The document type is read and dropped.\<close>

lemma doctype_dropped:
  "map_option (map_option xd_dtd) (xml_document_from_string (Some ''<!DOCTYPE foo><a/>'') None) = Some (Some None)"
  by code_simp

text \<open>A number as boolean: the getter fails when it is one and succeeds when it is not.\<close>

lemma get_attr_boolean_inverted:
  "xml_node_get_attr_boolean (Xml_node (Some ''a'') None [(''b'', Some ''1'')] [] None) ''b'' = (False, Some True)"
  "xml_node_get_attr_boolean (Xml_node (Some ''a'') None [(''b'', Some ''maybe'')] [] None) ''b'' = (True, Some False)"
  by (simp_all add: xml_node_get_attr_boolean_def xml_node_get_attr_def u_xml_node_get_attr_def strcasecmp_eq_def c_tolower_def
      c_isupper_def c_code_def strtoul_def scan_number_def is_digit_def digit_value_def c_isspace_def c_isdigit_def c_islower_def)

end
