(* ===== verification/XPath.thy ===== *)
theory XPath
  imports Xml
begin

text \<open>
  XPath expressions (dborb/xpath.c, include/dborb/xpath.h): the parser that makes trees of operators, and the
  evaluation of a tree on an XML node.

  Strings that are being parsed are their rest from the current position on.  The tree of an expression is a
  value; a node whose operator is a NULL pointer can be parsed (\<open>xpath_get_function\<close> may fail) and is a fault
  where the operator is used.  Results are counted objects in a store.  XML nodes are values, since no operator
  goes from a node to its parent.  Numbers are of type \<open>long\<close>, and overflow is a fault.  Tracing
  (\<open>NI_XPATH_DEBUG_LEVEL\<close>) is compiled out.
\<close>

section \<open>Operators and trees\<close>

datatype xpath_node_type = XPATH_VOID | XPATH_ELEMENT | XPATH_STRING | XPATH_BOOLEAN | XPATH_INTEGER | XPATH_ANY

datatype xpath_operator =
    Op_node | Op_self | Op_child | Op_descendant | Op_getattr | Op_predicate
  | Op_stringconst | Op_intconst | Op_true | Op_false | Op_last | Op_not
  | Op_and | Op_or | Op_add | Op_subtract | Op_multiply | Op_divide | Op_modulo
  | Op_eq | Op_ne | Op_lt | Op_gt | Op_le | Op_ge

text \<open>The members of the operator structures.\<close>

definition op_binary :: "xpath_operator \<Rightarrow> bool" where
  "op_binary p \<longleftrightarrow> p \<in> {Op_and, Op_or, Op_add, Op_subtract, Op_multiply, Op_divide, Op_modulo, Op_eq, Op_ne, Op_lt, Op_gt, Op_le, Op_ge}"

definition op_intype :: "xpath_operator \<Rightarrow> xpath_node_type" where
  "op_intype p = (case p of
     Op_stringconst \<Rightarrow> XPATH_VOID | Op_intconst \<Rightarrow> XPATH_VOID | Op_true \<Rightarrow> XPATH_VOID | Op_false \<Rightarrow> XPATH_VOID
   | Op_not \<Rightarrow> XPATH_BOOLEAN | Op_and \<Rightarrow> XPATH_BOOLEAN | Op_or \<Rightarrow> XPATH_BOOLEAN
   | Op_add \<Rightarrow> XPATH_INTEGER | Op_subtract \<Rightarrow> XPATH_INTEGER | Op_multiply \<Rightarrow> XPATH_INTEGER | Op_divide \<Rightarrow> XPATH_INTEGER | Op_modulo \<Rightarrow> XPATH_INTEGER
   | Op_eq \<Rightarrow> XPATH_ANY | Op_ne \<Rightarrow> XPATH_ANY | Op_lt \<Rightarrow> XPATH_ANY | Op_gt \<Rightarrow> XPATH_ANY | Op_le \<Rightarrow> XPATH_ANY | Op_ge \<Rightarrow> XPATH_ANY
   | _ \<Rightarrow> XPATH_ELEMENT)"

definition op_outtype :: "xpath_operator \<Rightarrow> xpath_node_type" where
  "op_outtype p = (case p of
     Op_getattr \<Rightarrow> XPATH_STRING | Op_stringconst \<Rightarrow> XPATH_STRING
   | Op_intconst \<Rightarrow> XPATH_INTEGER | Op_last \<Rightarrow> XPATH_INTEGER
   | Op_add \<Rightarrow> XPATH_INTEGER | Op_subtract \<Rightarrow> XPATH_INTEGER | Op_multiply \<Rightarrow> XPATH_INTEGER | Op_divide \<Rightarrow> XPATH_INTEGER | Op_modulo \<Rightarrow> XPATH_INTEGER
   | Op_node \<Rightarrow> XPATH_ELEMENT | Op_self \<Rightarrow> XPATH_ELEMENT | Op_child \<Rightarrow> XPATH_ELEMENT | Op_descendant \<Rightarrow> XPATH_ELEMENT | Op_predicate \<Rightarrow> XPATH_ELEMENT
   | _ \<Rightarrow> XPATH_BOOLEAN)"

text \<open>\<open>XPATH_INFIXPRIO_NONE\<close> is 0.\<close>

definition op_priority :: "xpath_operator \<Rightarrow> nat" where
  "op_priority p = (case p of
     Op_or \<Rightarrow> 1 | Op_and \<Rightarrow> 2
   | Op_eq \<Rightarrow> 3 | Op_ne \<Rightarrow> 3 | Op_lt \<Rightarrow> 3 | Op_gt \<Rightarrow> 3 | Op_le \<Rightarrow> 3 | Op_ge \<Rightarrow> 3
   | Op_add \<Rightarrow> 4 | Op_subtract \<Rightarrow> 4
   | Op_multiply \<Rightarrow> 5 | Op_divide \<Rightarrow> 5 | Op_modulo \<Rightarrow> 5
   | _ \<Rightarrow> 0)"

definition op_constant :: "xpath_operator \<Rightarrow> bool" where
  "op_constant p \<longleftrightarrow> p \<in> {Op_stringconst, Op_intconst, Op_true, Op_false, Op_last, Op_not}"

datatype xpath_enode = Enode
  (en_ops: "xpath_operator option")
  (en_left: "xpath_enode option")
  (en_right: "xpath_enode option")
  (en_identifier: "cstring option")
  (en_integer: int)

definition xpath_enode_new :: "xpath_operator option \<Rightarrow> xpath_enode" where
  "xpath_enode_new p = Enode p None None None 0"

definition xpath_get_axis_ops :: "cstring \<Rightarrow> xpath_operator option" where
  "xpath_get_axis_ops name =
     (if name = ''child'' then Some Op_child
      else if name = ''descendant'' then Some Op_descendant
      else if name = ''attribute'' then Some Op_getattr
      else if name = ''self'' then Some Op_self
      else None)"

definition xpath_get_infix_ops :: "cstring \<Rightarrow> xpath_operator option" where
  "xpath_get_infix_ops name =
     (if name = ''and'' then Some Op_and
      else if name = ''or'' then Some Op_or
      else if name = ''+'' then Some Op_add
      else if name = ''-'' then Some Op_subtract
      else if name = ''*'' then Some Op_multiply
      else if name = ''div'' then Some Op_divide
      else if name = ''mod'' then Some Op_modulo
      else None)"

definition xpath_get_function :: "cstring \<Rightarrow> xpath_operator option" where
  "xpath_get_function name =
     (if name = ''true'' then Some Op_true
      else if name = ''false'' then Some Op_false
      else if name = ''last'' then Some Op_last
      else if name = ''not'' then Some Op_not
      else None)"

text \<open>The operator at the position and the position behind it, tested in the order of the code.\<close>

definition xpath_get_comparison_ops :: "cstring \<Rightarrow> (xpath_operator \<times> cstring) option" where
  "xpath_get_comparison_ops pos =
     (if take 1 pos = ''='' then Some (Op_eq, drop 1 pos)
      else if take 1 pos = ''<'' then Some (Op_lt, drop 1 pos)
      else if take 1 pos = ''>'' then Some (Op_gt, drop 1 pos)
      else if take 2 pos = ''!='' then Some (Op_ne, drop 2 pos)
      else if take 2 pos = ''<='' then Some (Op_le, drop 2 pos)
      else if take 2 pos = ''>='' then Some (Op_ge, drop 2 pos)
      else None)"

section \<open>Words\<close>

definition u_xpath_skipws :: "cstring \<Rightarrow> cstring" where
  "u_xpath_skipws pos = dropWhile c_isspace pos"

definition ident_rest :: "char \<Rightarrow> bool" where
  "ident_rest c \<longleftrightarrow> c_isalnum c \<or> c = CHR ''-'' \<or> c = CHR '':''"

text \<open>None: no identifier, or one that does not fit into the buffer of 1025 bytes.\<close>

definition u_xpath_next_identifier :: "cstring \<Rightarrow> (cstring \<times> cstring) option" where
  "u_xpath_next_identifier pos =
     (case pos of
        [] \<Rightarrow> None
      | c # _ \<Rightarrow>
          (if \<not> (c_isupper c \<or> c_islower c) then None
           else let ident = takeWhile ident_rest pos in
             if 1025 \<le> length ident then None else Some (ident, u_xpath_skipws (dropWhile ident_rest pos))))"

text \<open>\<open>strstr(ident, "::")\<close>: what is before and behind it.\<close>

fun split_colons :: "cstring \<Rightarrow> (cstring \<times> cstring) option" where
  "split_colons [] = None"
| "split_colons (c # cs) =
     (if c = CHR '':'' \<and> take 1 cs = '':'' then Some ([], drop 1 cs)
      else map_option (\<lambda>(a, b). (c # a, b)) (split_colons cs))"

section \<open>The parser\<close>

text \<open>One turn of the loop of \<open>__xpath_build_expr\<close> ends in failure, leaves the loop at a position, goes on
  with a new current node, or parses a part by a recursive call: a predicate, an expression in parentheses, the
  right side of an infix operator, the argument of a function.\<close>

datatype xpath_sub = Sub_predicate xpath_enode | Sub_paren | Sub_infix xpath_operator xpath_enode | Sub_function xpath_operator

datatype xpath_step = Step_fail | Step_break cstring | Step_next xpath_enode cstring | Step_sub xpath_sub cstring

text \<open>None: the current node does not give elements.  The operator is read without a test.\<close>

definition u_xpath_enode_assert_element :: "xpath_enode option \<Rightarrow> xpath_enode option option" where
  "u_xpath_enode_assert_element current =
     (case current of
        None \<Rightarrow> Some (Some (xpath_enode_new (Some Op_node)))
      | Some enode \<Rightarrow> do { p \<leftarrow> en_ops enode; Some (if op_outtype p \<noteq> XPATH_ELEMENT then None else Some enode) })"

definition handle_function :: "xpath_enode option \<Rightarrow> cstring \<Rightarrow> cstring \<Rightarrow> xpath_step" where
  "handle_function current ident pos =
     (case xpath_get_function ident of
        None \<Rightarrow> Step_fail
      | Some p \<Rightarrow>
          let pos1 = u_xpath_skipws (drop 1 pos) in
          if take 1 pos1 = '')'' then Step_next (Enode (Some p) current None None 0) (drop 1 pos1)
          else if current \<noteq> None then Step_fail
          else Step_sub (Sub_function p) pos1)"

definition handle_name_or_axis :: "xpath_enode option \<Rightarrow> xpath_operator option \<Rightarrow> cstring \<Rightarrow> cstring \<Rightarrow> xpath_step option" where
  "handle_name_or_axis current ops ident pos = do {
     elem \<leftarrow> u_xpath_enode_assert_element current;
     Some (case elem of
       None \<Rightarrow> Step_fail
     | Some cur \<Rightarrow>
         (case ops of
            Some p \<Rightarrow> Step_next (Enode (Some p) (Some cur) None (Some ident) 0) pos
          | None \<Rightarrow>
              (case split_colons ident of
                 Some (axis, name) \<Rightarrow>
                   (case xpath_get_axis_ops axis of
                      None \<Rightarrow> Step_fail
                    | Some p \<Rightarrow>
                        if name \<noteq> [] then Step_next (Enode (Some p) (Some cur) None (Some name) 0) pos
                        else if take 1 pos = ''*'' then Step_next (Enode (Some p) (Some cur) None None 0) (drop 1 pos)
                        else Step_fail)
               | None \<Rightarrow>
                   (if take 1 pos = ''('' then handle_function (Some cur) ident pos
                    else Step_next (Enode (Some Op_child) (Some cur) None (Some ident) 0) pos)))) }"

text \<open>A name that was announced by \<open>/\<close>, \<open>//\<close> or \<open>@\<close>.\<close>

definition handle_path :: "xpath_enode option \<Rightarrow> xpath_operator option \<Rightarrow> cstring \<Rightarrow> xpath_step option" where
  "handle_path current ops pos =
     (case u_xpath_next_identifier pos of
        None \<Rightarrow> Some Step_fail
      | Some (ident, pos1) \<Rightarrow> handle_name_or_axis current ops ident pos1)"

definition handle_infix_operator :: "xpath_enode option \<Rightarrow> xpath_operator \<Rightarrow> nat \<Rightarrow> cstring \<Rightarrow> cstring \<Rightarrow> xpath_step" where
  "handle_infix_operator current p infixprio token_begin pos =
     (case current of
        None \<Rightarrow> Step_fail
      | Some cur \<Rightarrow> (if op_priority p \<le> infixprio then Step_break token_begin else Step_sub (Sub_infix p cur) pos))"

definition handle_word :: "xpath_enode option \<Rightarrow> nat \<Rightarrow> cstring \<Rightarrow> xpath_step option" where
  "handle_word current infixprio pos =
     (case u_xpath_next_identifier pos of
        None \<Rightarrow> Some Step_fail
      | Some (ident, pos1) \<Rightarrow>
          if split_colons ident \<noteq> None then handle_name_or_axis current None ident pos1
          else if strcasecmp_eq ident ''and'' \<or> strcasecmp_eq ident ''or'' \<or> strcasecmp_eq ident ''div'' \<or> strcasecmp_eq ident ''mod'' then
            Some (case xpath_get_infix_ops ident of
                    None \<Rightarrow> Step_fail
                  | Some p \<Rightarrow> handle_infix_operator current p infixprio pos pos1)
          else if take 1 pos1 = ''('' then Some (handle_function current ident pos1)
          else if strcasecmp_eq ident ''true'' \<or> strcasecmp_eq ident ''false'' then
            Some (if current \<noteq> None then Step_fail else Step_next (xpath_enode_new (xpath_get_function ident)) pos1)
          else handle_name_or_axis current None ident pos1)"

definition handle_string :: "xpath_enode option \<Rightarrow> cstring \<Rightarrow> xpath_step" where
  "handle_string current pos =
     (let text = takeWhile (\<lambda>c. c \<noteq> CHR 0x27) pos in
      if current \<noteq> None \<or> length text = length pos then Step_fail
      else Step_next (Enode (Some Op_stringconst) None None (Some text) 0) (drop (Suc (length text)) pos))"

definition handle_number :: "xpath_enode option \<Rightarrow> cstring \<Rightarrow> xpath_step" where
  "handle_number current pos =
     (if current \<noteq> None then Step_fail
      else (case strtol pos 0 of (v, _, pos1) \<Rightarrow> Step_next (Enode (Some Op_intconst) None None None v) pos1))"

definition build_step :: "xpath_enode option \<Rightarrow> nat \<Rightarrow> cstring \<Rightarrow> xpath_step option" where
  "build_step current infixprio pos0 =
     (case u_xpath_skipws pos0 of
        [] \<Rightarrow> Some Step_fail
      | c # cs \<Rightarrow>
          if c = CHR ''/'' then
            (if take 1 cs = ''/'' then handle_path current (Some Op_descendant) (drop 1 cs)
             else if take 1 cs = ''@'' then handle_path current (Some Op_getattr) (drop 1 cs)
             else handle_path current None cs)
          else if c = CHR ''@'' then handle_path current (Some Op_getattr) cs
          else if c = CHR ''['' then do {
            elem \<leftarrow> u_xpath_enode_assert_element current;
            Some (case elem of None \<Rightarrow> Step_fail | Some cur \<Rightarrow> Step_sub (Sub_predicate cur) cs) }
          else if c = CHR ''('' then Some (if current \<noteq> None then Step_fail else Step_sub Sub_paren cs)
          else (case xpath_get_comparison_ops (c # cs) of
                  Some (p, pos) \<Rightarrow> Some (handle_infix_operator current p infixprio (c # cs) pos)
                | None \<Rightarrow>
                    if current \<noteq> None \<and> (c = CHR ''+'' \<or> c = CHR ''-'' \<or> c = CHR ''*'') then
                      Some (case xpath_get_infix_ops [c] of
                              None \<Rightarrow> Step_fail
                            | Some p \<Rightarrow> handle_infix_operator current p infixprio (c # cs) cs)
                    else if c_isupper c \<or> c_islower c then handle_word current infixprio (c # cs)
                    else if c = CHR 0x27 then Some (handle_string current cs)
                    else if c_isdigit c then Some (handle_number current (c # cs))
                    else Some Step_fail))"

text \<open>A terminator of None is the end of the string.\<close>

definition at_terminator :: "char option \<Rightarrow> cstring \<Rightarrow> bool" where
  "at_terminator terminator pos = (case terminator of None \<Rightarrow> pos = [] | Some t \<Rightarrow> take 1 pos = [t])"

fun sub_call :: "xpath_sub \<Rightarrow> char option \<Rightarrow> char option \<times> nat" where
  "sub_call (Sub_predicate _) terminator = (Some (CHR '']''), 0)"
| "sub_call Sub_paren terminator = (Some (CHR '')''), 0)"
| "sub_call (Sub_infix p _) terminator = (terminator, op_priority p)"
| "sub_call (Sub_function _) terminator = (Some (CHR '')''), 0)"

text \<open>The node that is current after the call, and the position; None inside: failure.  Behind the argument of a
  function the position is advanced without a test.\<close>

fun sub_finish :: "xpath_sub \<Rightarrow> xpath_enode \<Rightarrow> cstring \<Rightarrow> (xpath_enode \<times> cstring) option option" where
  "sub_finish (Sub_predicate cur) arg pos =
     Some (if take 1 pos = '']'' then Some (Enode (Some Op_predicate) (Some cur) (Some arg) None 0, drop 1 pos) else None)"
| "sub_finish Sub_paren arg pos = Some (if take 1 pos = '')'' then Some (arg, drop 1 pos) else None)"
| "sub_finish (Sub_infix p cur) arg pos = Some (Some (Enode (Some p) (Some cur) (Some arg) None 0, pos))"
| "sub_finish (Sub_function p) arg pos = (if pos = [] then None else Some (Some (Enode (Some p) (Some arg) None None 0, drop 1 pos)))"

function build_expr :: "xpath_enode option \<Rightarrow> char option \<Rightarrow> nat \<Rightarrow> cstring \<Rightarrow> (xpath_enode option \<times> cstring) option" where
  "build_expr current terminator infixprio pos =
     (if at_terminator terminator pos then Some (current, pos)
      else do {
        st \<leftarrow> build_step current infixprio pos;
        (case st of
           Step_fail \<Rightarrow> Some (None, pos)
         | Step_break token_begin \<Rightarrow> Some (current, token_begin)
         | Step_next node pos1 \<Rightarrow> build_expr (Some node) terminator infixprio pos1
         | Step_sub sub pos1 \<Rightarrow> do {
             (r, pos2) \<leftarrow> build_expr None (fst (sub_call sub terminator)) (snd (sub_call sub terminator)) pos1;
             (case r of
                None \<Rightarrow> Some (None, pos)
              | Some arg \<Rightarrow> do {
                  fin \<leftarrow> sub_finish sub arg pos2;
                  (case fin of
                     None \<Rightarrow> Some (None, pos)
                   | Some (node, pos3) \<Rightarrow> build_expr (Some node) terminator infixprio pos3) }) }) })"
  by pat_completeness auto

lemma next_identifier_shorter: "u_xpath_next_identifier pos = Some (ident, pos1) \<Longrightarrow> length pos1 < length pos"
proof -
  assume a: "u_xpath_next_identifier pos = Some (ident, pos1)"
  then obtain c cs where p: "pos = c # cs" "c_isupper c \<or> c_islower c" "pos1 = u_xpath_skipws (dropWhile ident_rest pos)"
    by (auto simp: u_xpath_next_identifier_def Let_def split: list.splits if_splits)
  then have "dropWhile ident_rest pos = dropWhile ident_rest cs" by (auto simp: ident_rest_def c_isalnum_def)
  moreover have "length (u_xpath_skipws (dropWhile ident_rest cs)) \<le> length cs"
    unfolding u_xpath_skipws_def using length_dropWhile_le order_trans by blast
  ultimately show ?thesis using p by simp
qed

text \<open>What a step leaves of a string of length \<open>n\<close>.\<close>

fun step_rest :: "nat \<Rightarrow> xpath_step \<Rightarrow> bool" where
  "step_rest n Step_fail \<longleftrightarrow> True"
| "step_rest n (Step_break p) \<longleftrightarrow> length p \<le> n"
| "step_rest n (Step_next _ p) \<longleftrightarrow> length p < n"
| "step_rest n (Step_sub _ p) \<longleftrightarrow> length p < n"

lemma skipws_length: "length (u_xpath_skipws pos) \<le> length pos"
  by (simp add: u_xpath_skipws_def length_dropWhile_le)

lemma handle_function_rest:
  assumes "length pos < n"
  shows "step_rest n (handle_function current ident pos)"
proof -
  have "length (u_xpath_skipws (drop 1 pos)) < n" using skipws_length [of "drop 1 pos"] assms by simp
  then show ?thesis by (cases "xpath_get_function ident") (simp_all add: handle_function_def Let_def less_imp_diff_less)
qed

lemma handle_name_or_axis_rest:
  assumes "handle_name_or_axis current ops ident pos = Some st" "length pos < n"
  shows "step_rest n st"
proof -
  obtain elem where e: "u_xpath_enode_assert_element current = Some elem" using assms(1) by (auto simp: handle_name_or_axis_def)
  have d: "length pos - k < n" for k using assms(2) by simp
  show ?thesis
  proof (cases elem)
    case None
    then show ?thesis using assms(1) e by (auto simp: handle_name_or_axis_def)
  next
    case (Some cur)
    show ?thesis
    proof (cases "ops = None \<and> split_colons ident = None")
      case True
      then show ?thesis using assms e Some handle_function_rest [OF assms(2), of "Some cur" ident]
        by (auto simp: handle_name_or_axis_def split: if_splits)
    next
      case False
      then show ?thesis using assms e Some d by (auto simp: handle_name_or_axis_def split: option.splits if_splits)
    qed
  qed
qed

lemma handle_path_rest:
  assumes "handle_path current ops pos = Some st" "length pos < n"
  shows "step_rest n st"
  using assms next_identifier_shorter [of pos] handle_name_or_axis_rest [of current ops _ _ st n]
  by (fastforce simp: handle_path_def split: option.splits)

lemma handle_infix_rest:
  "length token \<le> n \<Longrightarrow> length pos < n \<Longrightarrow> step_rest n (handle_infix_operator current p prio token pos)"
  by (cases current) (simp_all add: handle_infix_operator_def)

lemma handle_word_rest:
  assumes "handle_word current prio pos = Some st" "length pos \<le> n"
  shows "step_rest n st"
proof (cases "u_xpath_next_identifier pos")
  case None
  then show ?thesis using assms by (auto simp: handle_word_def)
next
  case (Some r)
  obtain ident pos1 where r: "r = (ident, pos1)" by fastforce
  have less: "length pos1 < n" using next_identifier_shorter [of pos ident pos1] Some r assms(2) by simp
  note h = handle_name_or_axis_rest [of current None ident pos1 st n, OF _ less] handle_function_rest [OF less, of current ident]
    handle_infix_rest [OF assms(2) less, of current]
  show ?thesis using assms(1) h Some r less by (auto simp: handle_word_def split: if_splits option.splits)
qed

lemma scan_prefix_at_digit:
  assumes "c_isdigit c" "scan_prefix 0 (c # cs) = (b, s2)"
  shows "s2 \<noteq> [] \<and> is_digit b (hd s2) \<and> length s2 \<le> length (c # cs)"
proof -
  have ten: "is_digit 10 c" using assms(1) by (simp add: is_digit_10)
  have eight: "is_digit 8 (CHR ''0'')" by (simp add: is_digit_def digit_value_def c_isdigit_def c_code_def)
  show ?thesis
  proof (cases "\<exists>x d r. cs = x # d # r")
    case True
    then obtain x d r where "cs = x # d # r" by blast
    then show ?thesis using assms(2) ten eight by (auto split: if_splits)
  next
    case False
    then have "scan_prefix 0 (c # cs) = (if c = CHR ''0'' then 8 else 10, c # cs)" by (cases "(0 :: nat, c # cs)" rule: scan_prefix.cases) auto
    then show ?thesis using assms(2) ten eight by (auto split: if_splits)
  qed
qed

lemma strtol_digit_shorter:
  assumes "c_isdigit c" "strtol (c # cs) 0 = (v, e, rest)"
  shows "length rest < length (c # cs)"
proof -
  have sp: "dropWhile c_isspace (c # cs) = c # cs" using c_isdigit_facts [OF assms(1)] by simp
  have sg: "scan_sign (c # cs) = (False, c # cs)" using c_isdigit_facts [OF assms(1)] by simp
  obtain b s2 where p: "scan_prefix 0 (c # cs) = (b, s2)" by fastforce
  obtain d ds where d: "s2 = d # ds" "is_digit b d" "length ds < length (c # cs)"
    using scan_prefix_at_digit [OF assms(1) p] by (cases s2) auto
  have "scan_number (c # cs) 0 = (False, scan_digits b 0 s2)"
    unfolding scan_number_def sp sg Let_def case_prod_conv p using d(1,2) by simp
  then have "rest = snd (scan_digits b 0 s2)" using assms(2) by (auto simp: strtol_def split: prod.splits if_splits)
  then show ?thesis using d scan_digits_length [of b "the (digit_value d)" ds] by simp
qed

lemma handle_number_rest: "c_isdigit c \<Longrightarrow> step_rest (length (c # cs)) (handle_number current (c # cs))"
  using strtol_digit_shorter [of c cs] by (auto simp: handle_number_def split: prod.splits)

lemma handle_string_rest: "length pos < n \<Longrightarrow> step_rest n (handle_string current pos)"
  by (simp add: handle_string_def Let_def less_imp_diff_less)

lemma comparison_rest: "xpath_get_comparison_ops (c # cs) = Some (p, pos) \<Longrightarrow> length pos < length (c # cs)"
  by (auto simp: xpath_get_comparison_ops_def split: if_splits)

lemma build_step_rest:
  assumes "build_step current prio pos = Some st"
  shows "step_rest (length pos) st"
proof (cases "u_xpath_skipws pos")
  case Nil
  then show ?thesis using assms by (auto simp: build_step_def)
next
  case (Cons c cs)
  define n where "n = length pos"
  have n: "length (c # cs) \<le> n" using skipws_length [of pos] Cons by (simp add: n_def)
  then have cs: "length cs < n" "length (drop 1 cs) < n" by simp_all
  note path = handle_path_rest [OF _ cs(1)] handle_path_rest [OF _ cs(2)] and word = handle_word_rest [OF _ n]
    and infix1 = handle_infix_rest [OF n cs(1), of current]
  have num: "c_isdigit c \<Longrightarrow> step_rest n (handle_number current (c # cs))"
    using handle_number_rest [of c cs current] n by (cases "handle_number current (c # cs)") (auto simp: handle_number_def split: prod.splits if_splits)
  have cmp: "step_rest n (handle_infix_operator current p prio (c # cs) q)" if "xpath_get_comparison_ops (c # cs) = Some (p, q)" for p q
    using comparison_rest [OF that] n by (intro handle_infix_rest) simp_all
  show ?thesis
  proof (cases "c = CHR ''/'' \<or> c = CHR ''@''")
    case True
    then show ?thesis using assms Cons path unfolding n_def [symmetric] by (auto simp: build_step_def split: if_splits)
  next
    case slash: False
    show ?thesis
    proof (cases "c = CHR ''['' \<or> c = CHR ''(''")
      case True
      then show ?thesis using assms Cons cs unfolding n_def [symmetric] by (auto simp: build_step_def split: if_splits option.splits)
    next
      case False
      show ?thesis
      proof (cases "xpath_get_comparison_ops (c # cs)")
        case None
        then show ?thesis using assms Cons slash False word infix1 num handle_string_rest [OF cs(1), of current] unfolding n_def [symmetric]
          by (auto simp: build_step_def split: if_splits option.splits)
      next
        case (Some r)
        then show ?thesis using assms Cons slash False cmp unfolding n_def [symmetric]
          by (cases r) (auto simp: build_step_def)
      qed
    qed
  qed
qed

lemma sub_finish_rest: "sub_finish sub arg pos = Some (Some (node, pos1)) \<Longrightarrow> length pos1 \<le> length pos"
  by (cases sub) (auto split: if_splits)

lemma build_expr_rest:
  "build_expr_dom (current, terminator, prio, pos) \<Longrightarrow> build_expr current terminator prio pos = Some (r, pos1) \<Longrightarrow> length pos1 \<le> length pos"
proof (induction arbitrary: r pos1 rule: build_expr.pinduct)
  case (1 current terminator prio pos)
  show ?case
  proof (cases "at_terminator terminator pos")
    case True
    then show ?thesis using 1(1,5) by (simp add: build_expr.psimps)
  next
    case False
    then obtain st where st: "build_step current prio pos = Some st" using 1(1,5) by (auto simp: build_expr.psimps)
    note rest = build_step_rest [OF st]
    show ?thesis
    proof (cases st)
      case Step_fail
      then show ?thesis using 1(1,5) False st by (simp add: build_expr.psimps)
    next
      case (Step_break p)
      then show ?thesis using 1(1,5) False st rest by (simp add: build_expr.psimps)
    next
      case (Step_next node p)
      then show ?thesis using 1(1,5) False st rest 1(2) [OF False st Step_next] by (fastforce simp: build_expr.psimps)
    next
      case (Step_sub sub p)
      then obtain r' p2 where r': "build_expr None (fst (sub_call sub terminator)) (snd (sub_call sub terminator)) p = Some (r', p2)"
        using 1(1,5) False st by (auto simp: build_expr.psimps)
      have p2: "length p2 \<le> length p" by (rule 1(3) [OF False st Step_sub r'])
      show ?thesis
      proof (cases r')
        case None
        then show ?thesis using 1(1,5) False st Step_sub r' by (simp add: build_expr.psimps)
      next
        case (Some arg)
        then obtain fin where fin: "sub_finish sub arg p2 = Some fin" using 1(1,5) False st Step_sub r' by (auto simp: build_expr.psimps)
        show ?thesis
        proof (cases fin)
          case None
          then show ?thesis using 1(1,5) False st Step_sub r' Some fin by (simp add: build_expr.psimps)
        next
          case (Some x)
          obtain node p3 where x: "x = (node, p3)" by fastforce
          have b: "build_expr (Some node) terminator prio p3 = Some (r, pos1)"
            using 1(1,5) False st Step_sub r' \<open>r' = Some arg\<close> fin Some x by (simp add: build_expr.psimps)
          have "length pos1 \<le> length p3"
            using 1(4) [OF False st Step_sub r' refl \<open>r' = Some arg\<close> fin Some x [symmetric] b] by simp
          then show ?thesis using sub_finish_rest [of sub arg p2 node p3] fin Some x p2 rest Step_sub by simp
        qed
      qed
    qed
  qed
qed

termination build_expr
proof (relation "measure (\<lambda>(_, _, _, pos). length pos)", goal_cases)
  case 1
  then show ?case by simp
next
  case (2 current terminator prio pos st node p)
  then show ?case using build_step_rest [of current prio pos st] by simp
next
  case (3 current terminator prio pos st sub p)
  then show ?case using build_step_rest [of current prio pos st] by simp
next
  case (4 current terminator prio pos st sub p x r p2 arg fin y node p3)
  then show ?case using build_step_rest [of current prio pos st] sub_finish_rest [of sub arg p2 node p3] build_expr_rest
    by fastforce
qed

declare build_expr.simps [simp del]

definition xpath_expression_parse :: "cstring option \<Rightarrow> xpath_enode option option" where
  "xpath_expression_parse expr =
     (case expr of
        None \<Rightarrow> Some None
      | Some s \<Rightarrow>
          (if s = ''/'' \<or> s = ''//'' then Some (Some (xpath_enode_new (Some Op_node)))
           else do {
             (tree, pos) \<leftarrow> build_expr None None 0 s;
             Some (if tree = None \<or> pos \<noteq> [] then None else tree) }))"

end
