(* ===== verification/XPathEval.thy ===== *)
theory XPathEval
  imports XPath
begin

text \<open>
  Results of XPath expressions and the evaluation (dborb/xpath.c, include/dborb/xpath.h).  A result is a counted
  object in a store: \<open>users\<close> references, a type, and its nodes.  An address without an object is freed memory.
\<close>

section \<open>Results\<close>

text \<open>The union of a node; the type says which member is in use.\<close>

datatype xpath_node = XN_element xml_node | XN_string "cstring option" | XN_integer int | XN_boolean bool

record xpath_result =
  xr_users :: nat
  xr_type :: xpath_node_type
  xr_node :: "xpath_node list"

record xpath_store =
  xs_results :: "nat \<Rightarrow> xpath_result option"
  xs_next :: nat

definition rget :: "nat \<Rightarrow> xpath_store \<Rightarrow> xpath_result option" where
  "rget a st = xs_results st a"

definition rput :: "nat \<Rightarrow> xpath_result option \<Rightarrow> xpath_store \<Rightarrow> xpath_store" where
  "rput a r st = st\<lparr>xs_results := (xs_results st)(a := r)\<rparr>"

definition xpath_result_new :: "xpath_node_type \<Rightarrow> xpath_store \<Rightarrow> nat \<times> xpath_store" where
  "xpath_result_new t st = (xs_next st, (rput (xs_next st) (Some \<lparr>xr_users = 1, xr_type = t, xr_node = []\<rparr>) st)\<lparr>xs_next := xs_next st + 1\<rparr>)"

definition xpath_result_dup :: "nat \<Rightarrow> xpath_store \<Rightarrow> xpath_store option" where
  "xpath_result_dup a st = do {
     r \<leftarrow> rget a st;
     ni_assert (xr_users r \<noteq> 0);
     Some (rput a (Some (r\<lparr>xr_users := xr_users r + 1\<rparr>)) st) }"

text \<open>NULL is ignored.\<close>

definition xpath_result_free :: "nat option \<Rightarrow> xpath_store \<Rightarrow> xpath_store option" where
  "xpath_result_free na st =
     (case na of
        None \<Rightarrow> Some st
      | Some a \<Rightarrow> do {
          r \<leftarrow> rget a st;
          ni_assert (xr_users r \<noteq> 0);
          Some (if xr_users r - 1 \<noteq> 0 then rput a (Some (r\<lparr>xr_users := xr_users r - 1\<rparr>)) st else rput a None st) })"

definition u_xpath_node_array_append :: "nat \<Rightarrow> xpath_node \<Rightarrow> xpath_store \<Rightarrow> xpath_store option" where
  "u_xpath_node_array_append a n st = do {
     r \<leftarrow> rget a st;
     Some (rput a (Some (r\<lparr>xr_node := xr_node r @ [n]\<rparr>)) st) }"

definition xpath_result_append_element :: "nat \<Rightarrow> xml_node \<Rightarrow> xpath_store \<Rightarrow> xpath_store option" where
  "xpath_result_append_element a xn = u_xpath_node_array_append a (XN_element xn)"

definition xpath_result_append_string :: "nat \<Rightarrow> cstring option \<Rightarrow> xpath_store \<Rightarrow> xpath_store option" where
  "xpath_result_append_string a s = u_xpath_node_array_append a (XN_string s)"

definition xpath_result_append_boolean :: "nat \<Rightarrow> bool \<Rightarrow> xpath_store \<Rightarrow> xpath_store option" where
  "xpath_result_append_boolean a bv = u_xpath_node_array_append a (XN_boolean bv)"

definition xpath_result_append_integer :: "nat \<Rightarrow> int \<Rightarrow> xpath_store \<Rightarrow> xpath_store option" where
  "xpath_result_append_integer a iv = u_xpath_node_array_append a (XN_integer iv)"

text \<open>False is the empty result.\<close>

definition u_xpath_build_boolean :: "bool \<Rightarrow> xpath_store \<Rightarrow> (nat \<times> xpath_store) option" where
  "u_xpath_build_boolean bv st =
     (let (a, st1) = xpath_result_new XPATH_BOOLEAN st
      in if bv then do { st2 \<leftarrow> xpath_result_append_boolean a bv st1; Some (a, st2) } else Some (a, st1))"

definition u_xpath_build_string :: "cstring option \<Rightarrow> xpath_store \<Rightarrow> (nat option \<times> xpath_store) option" where
  "u_xpath_build_string s st =
     (if s = None then Some (None, st)
      else let (a, st1) = xpath_result_new XPATH_STRING st
           in do { st2 \<leftarrow> xpath_result_append_string a s st1; Some (Some a, st2) })"

definition u_xpath_build_integer :: "int \<Rightarrow> xpath_store \<Rightarrow> (nat \<times> xpath_store) option" where
  "u_xpath_build_integer v st =
     (let (a, st1) = xpath_result_new XPATH_INTEGER st
      in do { st2 \<leftarrow> xpath_result_append_integer a v st1; Some (a, st2) })"

definition test_boolean :: "xpath_node list \<Rightarrow> bool option" where
  "test_boolean ns = (case ns of [] \<Rightarrow> Some False | [XN_boolean True] \<Rightarrow> Some True | _ \<Rightarrow> None)"

definition u_xpath_test_boolean :: "nat \<Rightarrow> xpath_store \<Rightarrow> bool option" where
  "u_xpath_test_boolean a st = do { r \<leftarrow> rget a st; test_boolean (xr_node r) }"

section \<open>Members of the union\<close>

definition the_element :: "xpath_node \<Rightarrow> xml_node option" where
  "the_element n = (case n of XN_element xn \<Rightarrow> Some xn | _ \<Rightarrow> None)"

definition the_integer :: "xpath_node \<Rightarrow> int option" where
  "the_integer n = (case n of XN_integer i \<Rightarrow> Some i | _ \<Rightarrow> None)"

text \<open>The result of an operation on numbers of type \<open>long\<close>.\<close>

definition long_value :: "int \<Rightarrow> int option" where
  "long_value i = (if - (2 ^ 63) \<le> i \<and> i < 2 ^ 63 then Some i else None)"

section \<open>Casts\<close>

text \<open>The loop stops at the first node that is true.  None inside: the type can not be converted.\<close>

fun bool_of_nodes :: "xpath_node_type \<Rightarrow> xpath_node list \<Rightarrow> bool option option" where
  "bool_of_nodes t [] = Some (Some False)"
| "bool_of_nodes t (n # ns) =
     (case t of
        XPATH_ELEMENT \<Rightarrow> do { _ \<leftarrow> the_element n; Some (Some True) }
      | XPATH_STRING \<Rightarrow>
          (case n of XN_string (Some s) \<Rightarrow> (if s \<noteq> [] then Some (Some True) else bool_of_nodes t ns) | _ \<Rightarrow> None)
      | XPATH_INTEGER \<Rightarrow> do { i \<leftarrow> the_integer n; (if i \<noteq> 0 then Some (Some True) else bool_of_nodes t ns) }
      | _ \<Rightarrow> Some None)"

text \<open>Strings that are not numbers are left out; a NULL string is a fault of \<open>strtol\<close>.\<close>

fun integer_of_string :: "cstring option \<Rightarrow> int list option" where
  "integer_of_string None = None"
| "integer_of_string (Some s) = (case strtol s 0 of (v, _, rest) \<Rightarrow> Some (if rest = [] then [v] else []))"

fun integers_of_nodes :: "xpath_node_type \<Rightarrow> xpath_node list \<Rightarrow> int list option option" where
  "integers_of_nodes t [] = Some (Some [])"
| "integers_of_nodes t (n # ns) =
     (case t of
        XPATH_ELEMENT \<Rightarrow> do {
          xn \<leftarrow> the_element n;
          is \<leftarrow> integer_of_string (xn_cdata xn);
          r \<leftarrow> integers_of_nodes t ns;
          Some (map_option (\<lambda>js. is @ js) r) }
      | XPATH_STRING \<Rightarrow>
          (case n of
             XN_string s \<Rightarrow> do { is \<leftarrow> integer_of_string s; r \<leftarrow> integers_of_nodes t ns; Some (map_option (\<lambda>js. is @ js) r) }
           | _ \<Rightarrow> None)
      | _ \<Rightarrow> Some None)"

fun append_integers :: "nat \<Rightarrow> int list \<Rightarrow> xpath_store \<Rightarrow> xpath_store option" where
  "append_integers a [] st = Some st"
| "append_integers a (i # is) st = do { st1 \<leftarrow> xpath_result_append_integer a i st; append_integers a is st1 }"

text \<open>Whether the cast is possible, and the reference the caller has then.  A failed cast to integers loses the
  result it has begun.\<close>

definition u_xpath_expression_cast :: "xpath_operator \<Rightarrow> nat option \<Rightarrow> xpath_store \<Rightarrow> (bool \<times> nat option \<times> xpath_store) option" where
  "u_xpath_expression_cast p na st =
     (case na of
        None \<Rightarrow> Some (False, None, st)
      | Some a \<Rightarrow>
          (if op_intype p = XPATH_ANY \<or> op_intype p = XPATH_VOID then Some (True, na, st)
           else do {
             r \<leftarrow> rget a st;
             (if op_intype p = xr_type r then Some (True, na, st)
              else if op_intype p = XPATH_BOOLEAN then do {
                bv \<leftarrow> bool_of_nodes (xr_type r) (xr_node r);
                (case bv of
                   None \<Rightarrow> Some (False, na, st)
                 | Some b \<Rightarrow> do {
                     st1 \<leftarrow> xpath_result_free na st;
                     (x, st2) \<leftarrow> u_xpath_build_boolean b st1;
                     Some (True, Some x, st2) }) }
              else if op_intype p = XPATH_INTEGER then
                (let (x, st1) = xpath_result_new XPATH_INTEGER st in do {
                   iv \<leftarrow> integers_of_nodes (xr_type r) (xr_node r);
                   (case iv of
                      None \<Rightarrow> Some (False, na, st1)
                    | Some is \<Rightarrow> do {
                        st2 \<leftarrow> append_integers x is st1;
                        st3 \<leftarrow> xpath_result_free na st2;
                        Some (True, Some x, st3) }) })
              else Some (False, na, st)) }))"

section \<open>Paths\<close>

text \<open>\<open>!match_name || !strcmp(xn->name, match_name)\<close>\<close>

definition name_matches :: "cstring option \<Rightarrow> xml_node \<Rightarrow> bool option" where
  "name_matches match_name xn = (if match_name = None then Some True else strcmp_eq (xn_name xn) match_name)"

definition append_if_match :: "nat \<Rightarrow> cstring option \<Rightarrow> xml_node \<Rightarrow> xpath_store \<Rightarrow> xpath_store option" where
  "append_if_match result match_name xn st = do {
     m \<leftarrow> name_matches match_name xn;
     (if m then xpath_result_append_element result xn st else Some st) }"

fun self_loop :: "nat \<Rightarrow> cstring option \<Rightarrow> xpath_node list \<Rightarrow> xpath_store \<Rightarrow> xpath_store option" where
  "self_loop result match_name [] st = Some st"
| "self_loop result match_name (n # ns) st = do {
     xn \<leftarrow> the_element n;
     st1 \<leftarrow> append_if_match result match_name xn st;
     self_loop result match_name ns st1 }"

fun children_loop :: "nat \<Rightarrow> cstring option \<Rightarrow> xml_node list \<Rightarrow> xpath_store \<Rightarrow> xpath_store option" where
  "children_loop result match_name [] st = Some st"
| "children_loop result match_name (cn # cs) st = do {
     st1 \<leftarrow> append_if_match result match_name cn st;
     children_loop result match_name cs st1 }"

fun child_loop :: "nat \<Rightarrow> cstring option \<Rightarrow> xpath_node list \<Rightarrow> xpath_store \<Rightarrow> xpath_store option" where
  "child_loop result match_name [] st = Some st"
| "child_loop result match_name (n # ns) st = do {
     xn \<leftarrow> the_element n;
     st1 \<leftarrow> children_loop result match_name (xn_children xn) st;
     child_loop result match_name ns st1 }"

fun descendants_match :: "nat \<Rightarrow> cstring option \<Rightarrow> xml_node \<Rightarrow> xpath_store \<Rightarrow> xpath_store option"
  and descendants_children :: "nat \<Rightarrow> cstring option \<Rightarrow> xml_node list \<Rightarrow> xpath_store \<Rightarrow> xpath_store option" where
  "descendants_match result match_name (Xml_node name cdata attrs cs loc) st = descendants_children result match_name cs st"
| "descendants_children result match_name [] st = Some st"
| "descendants_children result match_name (child # cs) st = do {
     st1 \<leftarrow> append_if_match result match_name child st;
     st2 \<leftarrow> (if xn_children child \<noteq> [] then descendants_match result match_name child st1 else Some st1);
     descendants_children result match_name cs st2 }"

fun descendant_loop :: "nat \<Rightarrow> cstring option \<Rightarrow> xpath_node list \<Rightarrow> xpath_store \<Rightarrow> xpath_store option" where
  "descendant_loop result match_name [] st = Some st"
| "descendant_loop result match_name (n # ns) st = do {
     xn \<leftarrow> the_element n;
     st1 \<leftarrow> descendants_match result match_name xn st;
     descendant_loop result match_name ns st1 }"

text \<open>Without a name (\<open>attribute::*\<close>) the comparison with the first attribute is a fault.\<close>

definition attr_value :: "xml_node \<Rightarrow> cstring option \<Rightarrow> cstring option option" where
  "attr_value xn attr_name =
     (case attr_name of
        None \<Rightarrow> (if xn_attrs xn = [] then Some None else None)
      | Some name \<Rightarrow> Some (xml_node_get_attr xn name))"

fun getattr_loop :: "nat \<Rightarrow> cstring option \<Rightarrow> xpath_node list \<Rightarrow> xpath_store \<Rightarrow> xpath_store option" where
  "getattr_loop result attr_name [] st = Some st"
| "getattr_loop result attr_name (n # ns) st = do {
     xn \<leftarrow> the_element n;
     attrval \<leftarrow> attr_value xn attr_name;
     st1 \<leftarrow> (if attrval \<noteq> None then xpath_result_append_string result attrval st else Some st);
     getattr_loop result attr_name ns st1 }"

section \<open>Arithmetic\<close>

text \<open>None: overflow; \<open>Some None\<close>: the operator gives no value.  \<open>/\<close> and \<open>%\<close> of C truncate towards zero.\<close>

definition c_div :: "int \<Rightarrow> int \<Rightarrow> int" where
  "c_div l r = (if (l < 0) = (r < 0) then \<bar>l\<bar> div \<bar>r\<bar> else - (\<bar>l\<bar> div \<bar>r\<bar>))"

definition arith_oper :: "xpath_operator \<Rightarrow> int \<Rightarrow> int \<Rightarrow> int option option" where
  "arith_oper p l r =
     (case p of
        Op_add \<Rightarrow> map_option Some (long_value (l + r))
      | Op_subtract \<Rightarrow> map_option Some (long_value (l - r))
      | Op_multiply \<Rightarrow> map_option Some (long_value (l * r))
      | Op_divide \<Rightarrow> (if r = 0 then Some None else map_option Some (long_value (c_div l r)))
      | Op_modulo \<Rightarrow> (if r = 0 then Some None else do { _ \<leftarrow> long_value (c_div l r); Some (Some (l - c_div l r * r)) })
      | _ \<Rightarrow> None)"

fun arith_row :: "xpath_operator \<Rightarrow> nat \<Rightarrow> int \<Rightarrow> xpath_node list \<Rightarrow> xpath_store \<Rightarrow> xpath_store option" where
  "arith_row p result l [] st = Some st"
| "arith_row p result l (n # ns) st = do {
     r \<leftarrow> the_integer n;
     v \<leftarrow> arith_oper p l r;
     st1 \<leftarrow> (case v of None \<Rightarrow> Some st | Some rv \<Rightarrow> xpath_result_append_integer result rv st);
     arith_row p result l ns st1 }"

fun arith_loop :: "xpath_operator \<Rightarrow> nat \<Rightarrow> xpath_node list \<Rightarrow> xpath_node list \<Rightarrow> xpath_store \<Rightarrow> xpath_store option" where
  "arith_loop p result [] right st = Some st"
| "arith_loop p result (n # ns) right st = do {
     l \<leftarrow> the_integer n;
     st1 \<leftarrow> arith_row p result l right st;
     arith_loop p result ns right st1 }"

definition u_xpath_enode_generic_arith :: "xpath_operator \<Rightarrow> nat \<Rightarrow> nat \<Rightarrow> xpath_store \<Rightarrow> (nat \<times> xpath_store) option" where
  "u_xpath_enode_generic_arith p left right st =
     (let (result, st1) = xpath_result_new XPATH_INTEGER st in do {
        l \<leftarrow> rget left st1;
        r \<leftarrow> rget right st1;
        st2 \<leftarrow> arith_loop p result (xr_node l) (xr_node r) st1;
        Some (result, st2) })"

section \<open>Comparisons\<close>

definition compare_with :: "xpath_operator \<Rightarrow> 'a::linorder \<Rightarrow> 'a \<Rightarrow> bool" where
  "compare_with p l r =
     (case p of Op_eq \<Rightarrow> l = r | Op_ne \<Rightarrow> l \<noteq> r | Op_lt \<Rightarrow> l < r | Op_gt \<Rightarrow> r < l | Op_le \<Rightarrow> l \<le> r | Op_ge \<Rightarrow> r \<le> l | _ \<Rightarrow> False)"

text \<open>\<open>xstrcmp\<close> takes NULL for an empty string; \<open>strcmp\<close> orders by unsigned bytes.\<close>

definition xstr :: "cstring option \<Rightarrow> cstring" where
  "xstr s = (case s of None \<Rightarrow> [] | Some x \<Rightarrow> x)"

definition compare_strings :: "xpath_operator \<Rightarrow> cstring option \<Rightarrow> cstring option \<Rightarrow> bool" where
  "compare_strings p l r = compare_with p (map c_code (xstr l)) (map c_code (xstr r))"

text \<open>The entry of the comparison table; there is none for the types void and any.\<close>

definition node_compare :: "xpath_operator \<Rightarrow> xpath_node_type \<Rightarrow> xpath_node \<Rightarrow> xpath_node \<Rightarrow> bool option" where
  "node_compare p t l r =
     (case (t, l, r) of
        (XPATH_ELEMENT, XN_element a, XN_element b) \<Rightarrow> Some (compare_strings p (xn_cdata a) (xn_cdata b))
      | (XPATH_STRING, XN_string a, XN_string b) \<Rightarrow> Some (compare_strings p a b)
      | (XPATH_INTEGER, XN_integer a, XN_integer b) \<Rightarrow> Some (compare_with p a b)
      | (XPATH_BOOLEAN, XN_boolean a, XN_boolean b) \<Rightarrow> Some (compare_with p a b)
      | _ \<Rightarrow> None)"

fun compare_row :: "xpath_operator \<Rightarrow> xpath_node_type \<Rightarrow> xpath_node \<Rightarrow> xpath_node list \<Rightarrow> bool option" where
  "compare_row p t l [] = Some False"
| "compare_row p t l (r # rs) = do { b \<leftarrow> node_compare p t l r; (if b then Some True else compare_row p t l rs) }"

fun compare_loop :: "xpath_operator \<Rightarrow> xpath_node_type \<Rightarrow> xpath_node list \<Rightarrow> xpath_node list \<Rightarrow> bool option" where
  "compare_loop p t [] rs = Some False"
| "compare_loop p t (l # ls) rs = do { b \<leftarrow> compare_row p t l rs; (if b then Some True else compare_loop p t ls rs) }"

text \<open>\<open>%lu\<close> of a \<open>long\<close>.\<close>

definition print_lu :: "int \<Rightarrow> cstring" where
  "print_lu i = print_dec (nat (i mod 2 ^ 64))"

fun append_strings :: "nat \<Rightarrow> xpath_node_type \<Rightarrow> xpath_node list \<Rightarrow> xpath_store \<Rightarrow> xpath_store option" where
  "append_strings a t [] st = Some st"
| "append_strings a t (n # ns) st = do {
     s \<leftarrow> (case (t, n) of
             (XPATH_INTEGER, XN_integer i) \<Rightarrow> Some (Some (print_lu i))
           | (XPATH_ELEMENT, XN_element xn) \<Rightarrow> Some (xn_cdata xn)
           | _ \<Rightarrow> None);
     st1 \<leftarrow> xpath_result_append_string a s st;
     append_strings a t ns st1 }"

definition xpath_result_to_strings :: "nat \<Rightarrow> xpath_store \<Rightarrow> (nat \<times> xpath_store) option" where
  "xpath_result_to_strings a st = do {
     r \<leftarrow> rget a st;
     (if xr_type r = XPATH_STRING \<or> xr_type r = XPATH_VOID then do { st1 \<leftarrow> xpath_result_dup a st; Some (a, st1) }
      else let (x, st1) = xpath_result_new XPATH_STRING st in
        (case xr_type r of
           XPATH_BOOLEAN \<Rightarrow> do {
             b \<leftarrow> u_xpath_test_boolean a st1;
             st2 \<leftarrow> xpath_result_append_string x (Some (if b then ''true'' else ''false'')) st1;
             Some (x, st2) }
         | XPATH_ANY \<Rightarrow> Some (x, st1)
         | t \<Rightarrow> do { st2 \<leftarrow> append_strings x t (xr_node r) st1; Some (x, st2) })) }"

definition u_xpath_enode_generic_comparison :: "xpath_operator \<Rightarrow> nat \<Rightarrow> nat \<Rightarrow> xpath_store \<Rightarrow> (nat \<times> xpath_store) option" where
  "u_xpath_enode_generic_comparison p left right st = do {
     l \<leftarrow> rget left st;
     r \<leftarrow> rget right st;
     (left1, right1, st1) \<leftarrow>
       (if xr_type l \<noteq> xr_type r then do {
          (x, sta) \<leftarrow> xpath_result_to_strings left st;
          (y, stb) \<leftarrow> xpath_result_to_strings right sta;
          Some (x, y, stb) }
        else do {
          sta \<leftarrow> xpath_result_dup left st;
          stb \<leftarrow> xpath_result_dup right sta;
          Some (left, right, stb) });
     l1 \<leftarrow> rget left1 st1;
     r1 \<leftarrow> rget right1 st1;
     bv \<leftarrow> (if xr_type l1 = XPATH_VOID \<or> xr_type l1 = XPATH_ANY then Some False
            else compare_loop p (xr_type l1) (xr_node l1) (xr_node r1));
     st2 \<leftarrow> xpath_result_free (Some left1) st1;
     st3 \<leftarrow> xpath_result_free (Some right1) st2;
     u_xpath_build_boolean bv st3 }"

section \<open>Predicates\<close>

text \<open>The operator of a leaf is read without a test.\<close>

fun u_xpath_expression_constant :: "xpath_enode \<Rightarrow> bool option" where
  "u_xpath_expression_constant (Enode p None r i v) = map_option op_constant p"
| "u_xpath_expression_constant (Enode p (Some l) None i v) = u_xpath_expression_constant l"
| "u_xpath_expression_constant (Enode p (Some l) (Some r) i v) = do {
     c \<leftarrow> u_xpath_expression_constant l;
     d \<leftarrow> u_xpath_expression_constant r;
     Some (c \<and> d) }"

text \<open>The subscript is constant.  True inside: \<open>return left\<close>.\<close>

fun constant_loop :: "nat \<Rightarrow> xpath_node list \<Rightarrow> xpath_node list \<Rightarrow> xpath_store \<Rightarrow> (bool \<times> xpath_store) option" where
  "constant_loop result left [] st = Some (False, st)"
| "constant_loop result left (n # ns) st =
     (case n of
        XN_integer index \<Rightarrow>
          (if 0 < index \<and> index - 1 < int (length left) then do {
             xn \<leftarrow> the_element (left ! nat (index - 1));
             st1 \<leftarrow> xpath_result_append_element result xn st;
             constant_loop result left ns st1 }
           else constant_loop result left ns st)
      | XN_boolean True \<Rightarrow> do { st1 \<leftarrow> xpath_result_free (Some result) st; Some (True, st1) }
      | _ \<Rightarrow> constant_loop result left ns st)"

text \<open>What the subscript says of the element at index \<open>m\<close>.\<close>

fun subscript_loop :: "nat \<Rightarrow> nat \<Rightarrow> xml_node \<Rightarrow> xpath_node list \<Rightarrow> xpath_store \<Rightarrow> xpath_store option" where
  "subscript_loop result m xn [] st = Some st"
| "subscript_loop result m xn (n # ns) st =
     (case n of
        XN_element _ \<Rightarrow> xpath_result_append_element result xn st
      | XN_integer i \<Rightarrow> do {
          st1 \<leftarrow> (if i = int (m + 1) then xpath_result_append_element result xn st else Some st);
          subscript_loop result m xn ns st1 }
      | XN_boolean b \<Rightarrow> do {
          st1 \<leftarrow> (if b then xpath_result_append_element result xn st else Some st);
          subscript_loop result m xn ns st1 }
      | XN_string _ \<Rightarrow> subscript_loop result m xn ns st)"

text \<open>The loop over the elements.  True inside: left with NULL, at a node that is not an element.\<close>

fun predicate_loop :: "(nat \<Rightarrow> xpath_store \<Rightarrow> (nat option \<times> xpath_store) option) \<Rightarrow> nat \<Rightarrow> nat \<Rightarrow> xpath_node list \<Rightarrow> xpath_store \<Rightarrow>
    (bool \<times> xpath_store) option" where
  "predicate_loop eval result m [] st = Some (False, st)"
| "predicate_loop eval result m (n # ns) st =
     (case the_element n of
        None \<Rightarrow> Some (True, st)
      | Some xn \<Rightarrow>
          (let (tmp, st1) = xpath_result_new XPATH_ELEMENT st in do {
             st2 \<leftarrow> xpath_result_append_element tmp xn st1;
             (right, st3) \<leftarrow> eval tmp st2;
             st4 \<leftarrow> xpath_result_free (Some tmp) st3;
             (case right of
                None \<Rightarrow> predicate_loop eval result (Suc m) ns st4
              | Some rt \<Rightarrow> do {
                  r \<leftarrow> rget rt st4;
                  st5 \<leftarrow> subscript_loop result m xn (xr_node r) st4;
                  st6 \<leftarrow> xpath_result_free right st5;
                  predicate_loop eval result (Suc m) ns st6 }) }))"

definition u_xpath_enode_predicate_evaluate ::
    "(nat \<Rightarrow> xpath_store \<Rightarrow> (nat option \<times> xpath_store) option) \<Rightarrow> bool option \<Rightarrow> nat \<Rightarrow> xpath_store \<Rightarrow> (nat option \<times> xpath_store) option" where
  "u_xpath_enode_predicate_evaluate eval const left st =
     (let (result, st1) = xpath_result_new XPATH_ELEMENT st in do {
        l \<leftarrow> rget left st1;
        (if xr_node l = [] then Some (Some result, st1)
         else do {
           c \<leftarrow> const;
           (if c then do {
              (right, st2) \<leftarrow> eval left st1;
              (case right of
                 None \<Rightarrow> do { st3 \<leftarrow> xpath_result_free (Some result) st2; Some (None, st3) }
               | Some rt \<Rightarrow> do {
                   r \<leftarrow> rget rt st2;
                   (all, st3) \<leftarrow> constant_loop result (xr_node l) (xr_node r) st2;
                   (if all then Some (Some left, st3)
                    else do { st4 \<leftarrow> xpath_result_free right st3; Some (Some result, st4) }) }) }
            else do {
              (failed, st2) \<leftarrow> predicate_loop eval result 0 (xr_node l) st1;
              Some (if failed then None else Some result, st2) }) }) })"

section \<open>Evaluation\<close>

text \<open>The operators on one operand, but for predicates.\<close>

definition op_evaluate :: "xpath_operator \<Rightarrow> cstring option \<Rightarrow> int \<Rightarrow> nat \<Rightarrow> xpath_store \<Rightarrow> (nat option \<times> xpath_store) option" where
  "op_evaluate p ident v a st =
     (let into = (\<lambda>t loop. let (x, st1) = xpath_result_new t st in do {
                     r \<leftarrow> rget a st1; st2 \<leftarrow> loop x ident (xr_node r) st1; Some (Some x, st2) });
          one = (\<lambda>m. do { (x, st1) \<leftarrow> m; Some (Some x, st1) }) in
      case p of
        Op_node \<Rightarrow> do { st1 \<leftarrow> xpath_result_dup a st; Some (Some a, st1) }
      | Op_self \<Rightarrow> into XPATH_ELEMENT self_loop
      | Op_child \<Rightarrow> into XPATH_ELEMENT child_loop
      | Op_descendant \<Rightarrow> into XPATH_ELEMENT descendant_loop
      | Op_getattr \<Rightarrow> into XPATH_STRING getattr_loop
      | Op_stringconst \<Rightarrow> u_xpath_build_string ident st
      | Op_intconst \<Rightarrow> one (u_xpath_build_integer v st)
      | Op_true \<Rightarrow> one (u_xpath_build_boolean True st)
      | Op_false \<Rightarrow> one (u_xpath_build_boolean False st)
      | Op_last \<Rightarrow> do { r \<leftarrow> rget a st; one (u_xpath_build_integer (int (length (xr_node r))) st) }
      | Op_not \<Rightarrow> do { b \<leftarrow> u_xpath_test_boolean a st; one (u_xpath_build_boolean (\<not> b) st) }
      | _ \<Rightarrow> None)"

definition op_evaluate2 :: "xpath_operator \<Rightarrow> nat \<Rightarrow> nat \<Rightarrow> xpath_store \<Rightarrow> (nat \<times> xpath_store) option" where
  "op_evaluate2 p left right st =
     (if p = Op_and then do {
        l \<leftarrow> u_xpath_test_boolean left st;
        r \<leftarrow> (if l then u_xpath_test_boolean right st else Some False);
        u_xpath_build_boolean r st }
      else if p = Op_or then do {
        l \<leftarrow> u_xpath_test_boolean left st;
        r \<leftarrow> (if l then Some True else u_xpath_test_boolean right st);
        u_xpath_build_boolean r st }
      else if op_priority p = 3 then u_xpath_enode_generic_comparison p left right st
      else u_xpath_enode_generic_arith p left right st)"

text \<open>A result of the wrong type is dropped.\<close>

definition check_outtype :: "xpath_operator \<Rightarrow> nat option \<Rightarrow> xpath_store \<Rightarrow> (nat option \<times> xpath_store) option" where
  "check_outtype p result st =
     (case result of
        None \<Rightarrow> Some (None, st)
      | Some a \<Rightarrow> do {
          r \<leftarrow> rget a st;
          (if op_outtype p \<noteq> xr_type r then do { st1 \<leftarrow> xpath_result_free result st; Some (None, st1) }
           else Some (result, st)) })"

fun u_xpath_expression_eval :: "xpath_enode \<Rightarrow> nat \<Rightarrow> xpath_store \<Rightarrow> (nat option \<times> xpath_store) option" where
  "u_xpath_expression_eval (Enode ops el er ident v) inp st = do {
     p \<leftarrow> ops;
     (if op_binary p then
        (case (el, er) of
           (Some l, Some r) \<Rightarrow> do {
             (left, st1) \<leftarrow> u_xpath_expression_eval l inp st;
             (right, st2) \<leftarrow> u_xpath_expression_eval r inp st1;
             (ok, left1, st3) \<leftarrow> u_xpath_expression_cast p left st2;
             (ok2, right1, st4) \<leftarrow> (if ok then u_xpath_expression_cast p right st3 else Some (False, right, st3));
             (result, st5) \<leftarrow> (case (ok2, left1, right1) of
                (True, Some x, Some y) \<Rightarrow> do { (z, sta) \<leftarrow> op_evaluate2 p x y st4; Some (Some z, sta) }
              | _ \<Rightarrow> Some (None, st4));
             st6 \<leftarrow> xpath_result_free left1 st5;
             st7 \<leftarrow> xpath_result_free right1 st6;
             check_outtype p result st7 }
         | _ \<Rightarrow> None)
      else do {
        (left, st1) \<leftarrow> (case el of
           Some l \<Rightarrow> u_xpath_expression_eval l inp st
         | None \<Rightarrow> do { sta \<leftarrow> xpath_result_dup inp st; Some (Some inp, sta) });
        (if left = None then Some (None, st1)
         else do {
           (ok, left1, st2) \<leftarrow> u_xpath_expression_cast p left st1;
           (result, st3) \<leftarrow> (case (ok, left1) of
              (True, Some x) \<Rightarrow>
                (if p = Op_predicate then
                   (case er of
                      None \<Rightarrow> None
                    | Some r \<Rightarrow> u_xpath_enode_predicate_evaluate (u_xpath_expression_eval r) (u_xpath_expression_constant r) x st2)
                 else op_evaluate p ident v x st2)
            | _ \<Rightarrow> Some (None, st2));
           st4 \<leftarrow> xpath_result_free left1 st3;
           check_outtype p result st4 }) }) }"

definition xpath_expression_eval :: "xpath_enode \<Rightarrow> xml_node \<Rightarrow> xpath_store \<Rightarrow> (nat option \<times> xpath_store) option" where
  "xpath_expression_eval enode xn st =
     (let (inp, st1) = xpath_result_new XPATH_ELEMENT st in do {
        st2 \<leftarrow> xpath_result_append_element inp xn st1;
        (result, st3) \<leftarrow> u_xpath_expression_eval enode inp st2;
        st4 \<leftarrow> xpath_result_free (Some inp) st3;
        Some (result, st4) })"

text \<open>The first string of the result.\<close>

definition xml_xpath_eval_string :: "xml_node \<Rightarrow> cstring option \<Rightarrow> xpath_store \<Rightarrow> (cstring option \<times> xpath_store) option" where
  "xml_xpath_eval_string xn expr st = do {
     tree \<leftarrow> xpath_expression_parse expr;
     (case tree of
        None \<Rightarrow> Some (None, st)
      | Some e \<Rightarrow> do {
          (xresult, st1) \<leftarrow> xpath_expression_eval e xn st;
          (case xresult of
             None \<Rightarrow> Some (None, st1)
           | Some a \<Rightarrow> do {
               r \<leftarrow> rget a st1;
               result \<leftarrow> (if xr_type r = XPATH_STRING
                          then (case xr_node r of XN_string s # _ \<Rightarrow> Some s | [] \<Rightarrow> Some None | _ \<Rightarrow> None) else Some None);
               st2 \<leftarrow> xpath_result_free xresult st1;
               Some (result, st2) }) }) }"

text \<open>The elements an expression refers to (dborb/dbus-xml.c): a number of at most \<open>max_nodes\<close>, or an error.\<close>

fun expand_loop :: "nat \<Rightarrow> xpath_node list \<Rightarrow> xml_node list \<Rightarrow> xml_node list option" where
  "expand_loop max_nodes [] acc = Some acc"
| "expand_loop max_nodes (n # ns) acc =
     (case n of
        XN_element xn \<Rightarrow> expand_loop max_nodes ns (if length acc < max_nodes then acc @ [xn] else acc)
      | _ \<Rightarrow> None)"

definition ni_dbus_xml_expand_element_reference ::
    "xml_node option \<Rightarrow> cstring option \<Rightarrow> nat \<Rightarrow> xpath_store \<Rightarrow> (xml_node list option \<times> xpath_store) option" where
  "ni_dbus_xml_expand_element_reference doc_node expr_string max_nodes st =
     (case doc_node of
        None \<Rightarrow> Some (Some [], st)
      | Some xn \<Rightarrow> do {
          tree \<leftarrow> xpath_expression_parse expr_string;
          (case tree of
             None \<Rightarrow> Some (None, st)
           | Some e \<Rightarrow> do {
               (result, st1) \<leftarrow> xpath_expression_eval e xn st;
               (case result of
                  None \<Rightarrow> Some (None, st1)
                | Some a \<Rightarrow> do {
                    r \<leftarrow> rget a st1;
                    let nodes = expand_loop max_nodes (xr_node r) [];
                    st2 \<leftarrow> xpath_result_free result st1;
                    Some (nodes, st2) }) }) })"

end
