(* ===== verification/XPathSound.thy ===== *)
theory XPathSound
  imports XPathEval
begin

text \<open>
  The meaning of XPath expressions as functions from lists of nodes to lists of nodes, the static types of
  expressions, and the proof that the evaluation computes the meaning of every typed expression, keeps its
  reference counts exact and loses no result.
\<close>

section \<open>The meaning of expressions\<close>

fun flat :: "('a \<Rightarrow> 'b list option) \<Rightarrow> 'a list \<Rightarrow> 'b list option" where
  "flat f [] = Some []"
| "flat f (x # xs) = do { a \<leftarrow> f x; b \<leftarrow> flat f xs; Some (a @ b) }"

fun nodes_below :: "xml_node \<Rightarrow> xml_node list" where
  "nodes_below (Xml_node name cdata attrs cs loc) = concat (map (\<lambda>c. c # nodes_below c) cs)"

definition matching :: "cstring option \<Rightarrow> xml_node \<Rightarrow> xpath_node list option" where
  "matching i xn = do { m \<leftarrow> name_matches i xn; Some (if m then [XN_element xn] else []) }"

definition on_elements :: "(xml_node \<Rightarrow> xpath_node list option) \<Rightarrow> xpath_node list \<Rightarrow> xpath_node list option" where
  "on_elements f = flat (\<lambda>n. do { xn \<leftarrow> the_element n; f xn })"

definition bool_nodes :: "bool \<Rightarrow> xpath_node list" where
  "bool_nodes b = (if b then [XN_boolean True] else [])"

definition as_strings :: "xpath_node_type \<Rightarrow> xpath_node list \<Rightarrow> cstring option list" where
  "as_strings t ns =
     (if t = XPATH_BOOLEAN then [Some (if ns = [] then ''false'' else ''true'')]
      else map (\<lambda>n. case n of XN_integer i \<Rightarrow> Some (print_lu i) | XN_element xn \<Rightarrow> xn_cdata xn | XN_string s \<Rightarrow> s | XN_boolean _ \<Rightarrow> None) ns)"

text \<open>Two lists are in a relation if some member of the one and some member of the other are.\<close>

definition meaning_compare :: "xpath_operator \<Rightarrow> xpath_node_type \<Rightarrow> xpath_node list \<Rightarrow> xpath_node_type \<Rightarrow> xpath_node list \<Rightarrow> bool" where
  "meaning_compare p t ls u rs =
     (if t = u then (\<exists>l\<in>set ls. \<exists>r\<in>set rs. node_compare p t l r = Some True)
      else (\<exists>l\<in>set (as_strings t ls). \<exists>r\<in>set (as_strings u rs). compare_strings p l r))"

definition meaning_arith :: "xpath_operator \<Rightarrow> xpath_node list \<Rightarrow> xpath_node list \<Rightarrow> xpath_node list option" where
  "meaning_arith p ls rs = flat (\<lambda>l. do {
     i \<leftarrow> the_integer l;
     flat (\<lambda>r. do {
       j \<leftarrow> the_integer r;
       v \<leftarrow> arith_oper p i j;
       Some (case v of None \<Rightarrow> [] | Some x \<Rightarrow> [XN_integer x]) }) rs }) ls"

definition cast_nodes :: "xpath_node_type \<Rightarrow> xpath_node_type \<Rightarrow> xpath_node list \<Rightarrow> xpath_node list option" where
  "cast_nodes t u ns =
     (if u = XPATH_ANY \<or> u = XPATH_VOID \<or> u = t then Some ns
      else if u = XPATH_BOOLEAN then do { b \<leftarrow> bool_of_nodes t ns; b' \<leftarrow> b; Some (bool_nodes b') }
      else do { is \<leftarrow> integers_of_nodes t ns; js \<leftarrow> is; Some (map XN_integer js) })"

definition cast_type :: "xpath_node_type \<Rightarrow> xpath_node_type \<Rightarrow> xpath_node_type" where
  "cast_type t u = (if u = XPATH_ANY \<or> u = XPATH_VOID then t else u)"

definition castable :: "xpath_node_type \<Rightarrow> xpath_node_type \<Rightarrow> bool" where
  "castable t u \<longleftrightarrow> u = XPATH_ANY \<or> u = XPATH_VOID \<or> t = u \<or> u = XPATH_BOOLEAN \<or> u = XPATH_INTEGER \<and> t \<noteq> XPATH_BOOLEAN"

definition meaning1 :: "xpath_operator \<Rightarrow> cstring option \<Rightarrow> int \<Rightarrow> xpath_node list \<Rightarrow> xpath_node list option" where
  "meaning1 p i v ns =
     (case p of
        Op_node \<Rightarrow> Some ns
      | Op_self \<Rightarrow> on_elements (matching i) ns
      | Op_child \<Rightarrow> on_elements (\<lambda>xn. flat (matching i) (xn_children xn)) ns
      | Op_descendant \<Rightarrow> on_elements (\<lambda>xn. flat (matching i) (nodes_below xn)) ns
      | Op_getattr \<Rightarrow> on_elements (\<lambda>xn. do { a \<leftarrow> attr_value xn i; Some (if a = None then [] else [XN_string a]) }) ns
      | Op_stringconst \<Rightarrow> Some [XN_string i]
      | Op_intconst \<Rightarrow> Some [XN_integer v]
      | Op_true \<Rightarrow> Some (bool_nodes True)
      | Op_false \<Rightarrow> Some (bool_nodes False)
      | Op_last \<Rightarrow> Some [XN_integer (int (length ns))]
      | Op_not \<Rightarrow> Some (bool_nodes (ns = []))
      | _ \<Rightarrow> None)"

definition meaning2 :: "xpath_operator \<Rightarrow> xpath_node_type \<Rightarrow> xpath_node list \<Rightarrow> xpath_node_type \<Rightarrow> xpath_node list \<Rightarrow> xpath_node list option" where
  "meaning2 p t ls u rs =
     (if p = Op_and then Some (bool_nodes (ls \<noteq> [] \<and> rs \<noteq> []))
      else if p = Op_or then Some (bool_nodes (ls \<noteq> [] \<or> rs \<noteq> []))
      else if op_priority p = 3 then Some (bool_nodes (meaning_compare p t ls u rs))
      else meaning_arith p ls rs)"

definition select_constant :: "xpath_node list \<Rightarrow> xpath_node list \<Rightarrow> xpath_node list option" where
  "select_constant left = flat (\<lambda>n. case n of
     XN_integer i \<Rightarrow> (if 0 < i \<and> i - 1 < int (length left) then Some [left ! nat (i - 1)] else Some [])
   | _ \<Rightarrow> Some [])"

fun subscript :: "nat \<Rightarrow> xpath_node \<Rightarrow> xpath_node list \<Rightarrow> xpath_node list" where
  "subscript m x [] = []"
| "subscript m x (n # ns) =
     (case n of
        XN_element _ \<Rightarrow> [x]
      | XN_integer i \<Rightarrow> (if i = int (m + 1) then [x] else []) @ subscript m x ns
      | XN_boolean b \<Rightarrow> (if b then [x] else []) @ subscript m x ns
      | XN_string _ \<Rightarrow> subscript m x ns)"

fun select_each :: "(xpath_node list \<Rightarrow> xpath_node list option) \<Rightarrow> nat \<Rightarrow> xpath_node list \<Rightarrow> xpath_node list option" where
  "select_each f m [] = Some []"
| "select_each f m (n # ns) = do { r \<leftarrow> f [n]; rest \<leftarrow> select_each f (Suc m) ns; Some (subscript m n r @ rest) }"

definition meaning_predicate :: "(xpath_node list \<Rightarrow> xpath_node list option) \<Rightarrow> bool option \<Rightarrow> xpath_node list \<Rightarrow> xpath_node list option" where
  "meaning_predicate f const ns =
     (if ns = [] then Some []
      else if const = Some True then do { r \<leftarrow> f ns; select_constant ns r }
      else select_each f 0 ns)"

definition out :: "xpath_enode \<Rightarrow> xpath_node_type" where
  "out e = (case en_ops e of None \<Rightarrow> XPATH_VOID | Some p \<Rightarrow> op_outtype p)"

fun meaning :: "xpath_enode \<Rightarrow> xpath_node list \<Rightarrow> xpath_node list option" where
  "meaning (Enode ops el er ident v) ns = do {
     p \<leftarrow> ops;
     (if op_binary p then
        (case (el, er) of
           (Some l, Some r) \<Rightarrow> do {
             ls \<leftarrow> meaning l ns;
             rs \<leftarrow> meaning r ns;
             ls1 \<leftarrow> cast_nodes (out l) (op_intype p) ls;
             rs1 \<leftarrow> cast_nodes (out r) (op_intype p) rs;
             meaning2 p (cast_type (out l) (op_intype p)) ls1 (cast_type (out r) (op_intype p)) rs1 }
         | _ \<Rightarrow> None)
      else do {
        ls \<leftarrow> (case el of None \<Rightarrow> Some ns | Some l \<Rightarrow> meaning l ns);
        ls1 \<leftarrow> cast_nodes (case el of None \<Rightarrow> XPATH_ELEMENT | Some l \<Rightarrow> out l) (op_intype p) ls;
        (if p = Op_predicate then
           (case er of None \<Rightarrow> None | Some r \<Rightarrow> meaning_predicate (meaning r) (u_xpath_expression_constant r) ls1)
         else meaning1 p ident v ls1) }) }"

text \<open>Every cast is possible, every operand is there, and no predicate is a constant that is true or false.\<close>

fun typed :: "xpath_enode \<Rightarrow> bool" where
  "typed (Enode ops el er ident v) \<longleftrightarrow>
     (case ops of None \<Rightarrow> False
      | Some p \<Rightarrow>
          (if op_binary p then
             (case (el, er) of
                (Some l, Some r) \<Rightarrow> typed l \<and> typed r \<and> castable (out l) (op_intype p) \<and> castable (out r) (op_intype p)
              | _ \<Rightarrow> False)
           else (case el of None \<Rightarrow> castable XPATH_ELEMENT (op_intype p) | Some l \<Rightarrow> typed l \<and> castable (out l) (op_intype p))
              \<and> (p = Op_stringconst \<longrightarrow> ident \<noteq> None)
              \<and> (if p = Op_predicate then
                   (case er of None \<Rightarrow> False | Some r \<Rightarrow> typed r \<and> \<not> (u_xpath_expression_constant r = Some True \<and> out r = XPATH_BOOLEAN))
                 else er = None)))"

definition has_type :: "xpath_node_type \<Rightarrow> xpath_node list \<Rightarrow> bool" where
  "has_type t ns \<longleftrightarrow>
     (case t of
        XPATH_ELEMENT \<Rightarrow> (\<forall>n\<in>set ns. \<exists>x. n = XN_element x)
      | XPATH_STRING \<Rightarrow> (\<forall>n\<in>set ns. \<exists>x. n = XN_string x)
      | XPATH_INTEGER \<Rightarrow> (\<forall>n\<in>set ns. \<exists>x. n = XN_integer x)
      | XPATH_BOOLEAN \<Rightarrow> ns = [] \<or> ns = [XN_boolean True]
      | _ \<Rightarrow> False)"

section \<open>The store\<close>

definition obj :: "nat \<Rightarrow> xpath_store \<Rightarrow> (xpath_node_type \<times> xpath_node list) option" where
  "obj a st = map_option (\<lambda>r. (xr_type r, xr_node r)) (rget a st)"

definition users_of :: "nat \<Rightarrow> xpath_store \<Rightarrow> nat" where
  "users_of a st = (case rget a st of None \<Rightarrow> 0 | Some r \<Rightarrow> xr_users r)"

definition store_ok :: "xpath_store \<Rightarrow> bool" where
  "store_ok st \<longleftrightarrow> (\<forall>a r. rget a st = Some r \<longrightarrow> xr_users r \<noteq> 0 \<and> a < xs_next st)"

text \<open>\<open>st'\<close> is \<open>st\<close> with the references \<open>B\<close> added.\<close>

definition held :: "xpath_store \<Rightarrow> xpath_store \<Rightarrow> nat multiset \<Rightarrow> bool" where
  "held st st' B \<longleftrightarrow> store_ok st \<and> store_ok st' \<and> xs_next st \<le> xs_next st' \<and> (\<forall>a. users_of a st' = users_of a st + count B a)
     \<and> (\<forall>a. rget a st \<noteq> None \<longrightarrow> obj a st' = obj a st)"

lemma rget_rput [simp]: "rget a (rput b r st) = (if a = b then r else rget a st)"
  by (simp add: rget_def rput_def)

lemma rget_next [simp]: "rget a (st\<lparr>xs_next := n\<rparr>) = rget a st"
  by (simp add: rget_def)

lemma next_rput [simp]: "xs_next (rput a r st) = xs_next st"
  by (simp add: rput_def)

lemma users_live: "store_ok st \<Longrightarrow> users_of a st = 0 \<longleftrightarrow> rget a st = None"
  by (cases "rget a st") (auto simp: users_of_def store_ok_def)

lemma obj_Some: "obj a st = Some (t, v) \<longleftrightarrow> (\<exists>r. rget a st = Some r \<and> xr_type r = t \<and> xr_node r = v)"
  by (auto simp: obj_def)

lemma held_refl: "store_ok st \<Longrightarrow> held st st {#}"
  by (simp add: held_def)

lemma held_trans: "held st st' B \<Longrightarrow> held st' st'' C \<Longrightarrow> held st st'' (B + C)"
proof -
  assume h: "held st st' B" "held st' st'' C"
  have "obj a st'' = obj a st" if "rget a st \<noteq> None" for a
  proof -
    have "obj a st' = obj a st" using h(1) that by (simp add: held_def)
    then have "rget a st' \<noteq> None" using that by (auto simp: obj_def)
    then show ?thesis using h(2) \<open>obj a st' = obj a st\<close> by (simp add: held_def)
  qed
  then show ?thesis using h by (simp add: held_def)
qed

lemma held_ok: "held st st' B \<Longrightarrow> store_ok st'" "held st st' B \<Longrightarrow> store_ok st"
  by (simp_all add: held_def)

lemma held_live:
  assumes "held st st' B" "a \<in># B \<or> rget a st \<noteq> None"
  shows "rget a st' \<noteq> None"
proof -
  have "users_of a st' \<noteq> 0" using assms users_live [of st a] held_ok [OF assms(1)] by (auto simp: held_def)
  then show ?thesis using users_live [of st' a] held_ok [OF assms(1)] by simp
qed

lemma held_fresh: "held st st' B \<Longrightarrow> rget (xs_next st') st = None \<and> rget (xs_next st') st' = None"
  unfolding held_def store_ok_def by (metis less_irrefl not_None_eq order_less_le_trans)

lemma held_new:
  assumes h: "held st st' B" and n: "xpath_result_new t st' = (x, st'')"
  shows "held st st'' (add_mset x B)" "rget x st'' = Some \<lparr>xr_users = 1, xr_type = t, xr_node = []\<rparr>"
    "\<And>a. a \<noteq> x \<Longrightarrow> rget a st'' = rget a st'" "rget x st = None" "rget x st' = None"
proof -
  have x: "x = xs_next st'" and st'': "st'' = (rput x (Some \<lparr>xr_users = 1, xr_type = t, xr_node = []\<rparr>) st')\<lparr>xs_next := xs_next st' + 1\<rparr>"
    using n by (auto simp: xpath_result_new_def)
  show f: "rget x st = None" "rget x st' = None" using held_fresh [OF h] x by simp_all
  show r: "rget x st'' = Some \<lparr>xr_users = 1, xr_type = t, xr_node = []\<rparr>" "\<And>a. a \<noteq> x \<Longrightarrow> rget a st'' = rget a st'"
    by (simp_all add: st'')
  have "store_ok st''" using h r x unfolding held_def store_ok_def st'' by (auto intro: less_SucI)
  moreover have "users_of a st'' = users_of a st + count (add_mset x B) a" for a
  proof (cases "a = x")
    case True
    have "users_of x st' = users_of x st + count B x" using h by (simp add: held_def)
    then have "count B x = 0" "users_of x st = 0" using f by (simp_all add: users_of_def)
    then show ?thesis using True r by (simp add: users_of_def)
  next
    case False
    then show ?thesis using h r(2) by (simp add: held_def users_of_def)
  qed
  moreover have "obj a st'' = obj a st" if "rget a st \<noteq> None" for a
  proof -
    have "a \<noteq> x" using that f by blast
    then show ?thesis using h r(2) that by (simp add: held_def obj_def)
  qed
  moreover have "xs_next st \<le> xs_next st''" using h by (simp add: held_def st'')
  ultimately show "held st st'' (add_mset x B)" using held_ok [OF h] by (simp add: held_def)
qed

lemma held_dup:
  assumes h: "held st st' B" and live: "rget a st' = Some r"
  shows "\<exists>st''. xpath_result_dup a st' = Some st'' \<and> held st st'' (add_mset a B) \<and> (\<forall>x. obj x st'' = obj x st')"
proof -
  have u: "xr_users r \<noteq> 0" "a < xs_next st'" using h live by (auto simp: held_def store_ok_def)
  let ?s = "rput a (Some (r\<lparr>xr_users := xr_users r + 1\<rparr>)) st'"
  have o: "obj x ?s = obj x st'" for x using live by (simp add: obj_def)
  have "users_of x ?s = users_of x st' + (if x = a then 1 else 0)" for x using live by (simp add: users_of_def)
  moreover have "store_ok ?s" using h u by (auto simp: held_def store_ok_def)
  ultimately have "held st ?s (add_mset a B)" using h o held_ok [OF h] by (simp add: held_def)
  then show ?thesis using live u o by (simp add: xpath_result_dup_def)
qed

lemma held_free:
  assumes h: "held st st' (add_mset a B)"
  shows "\<exists>st''. xpath_result_free (Some a) st' = Some st'' \<and> held st st'' B \<and> (\<forall>x. rget x st'' \<noteq> None \<longrightarrow> obj x st'' = obj x st')
      \<and> (\<forall>x. x \<noteq> a \<longrightarrow> rget x st'' = rget x st')"
proof -
  have "users_of a st' \<noteq> 0" using h by (simp add: held_def)
  then obtain r where r: "rget a st' = Some r" "xr_users r \<noteq> 0" by (auto simp: users_of_def split: option.splits)
  let ?s = "if xr_users r - 1 \<noteq> 0 then rput a (Some (r\<lparr>xr_users := xr_users r - 1\<rparr>)) st' else rput a None st'"
  have o: "rget x ?s \<noteq> None \<Longrightarrow> obj x ?s = obj x st'" for x using r by (auto simp: obj_def split: if_splits)
  have u: "users_of x ?s + (if x = a then 1 else 0) = users_of x st'" for x using r by (simp add: users_of_def)
  have ok: "store_ok ?s" using h r by (auto simp: held_def store_ok_def split: if_splits)
  have u2: "users_of x ?s = users_of x st + count B x" for x
  proof -
    have "users_of x st' = users_of x st + count (add_mset a B) x" using h by (simp add: held_def)
    then show ?thesis using u [of x] by (cases "x = a") auto
  qed
  have "obj x ?s = obj x st" if "rget x st \<noteq> None" for x
  proof -
    have "obj x st' = obj x st" using h that by (simp add: held_def)
    moreover have "rget x ?s \<noteq> None"
      using u2 [of x] that users_live [of st x] users_live [OF ok, of x] held_ok [OF h] by auto
    ultimately show ?thesis using o by simp
  qed
  then have "held st ?s B" using h ok u2 by (simp add: held_def)
  then show ?thesis using r o by (simp add: xpath_result_free_def)
qed

section \<open>Filling a result\<close>

definition push :: "nat \<Rightarrow> xpath_node list \<Rightarrow> xpath_store \<Rightarrow> xpath_store" where
  "push a v st = (case rget a st of None \<Rightarrow> st | Some r \<Rightarrow> rput a (Some (r\<lparr>xr_node := xr_node r @ v\<rparr>)) st)"

lemma rput_twice [simp]: "rput a r (rput a q st) = rput a r st"
  by (simp add: rput_def)

lemma rput_same: "rget a st = Some r \<Longrightarrow> rput a (Some r) st = st"
  by (cases st) (auto simp: rput_def rget_def)

lemma push_Nil [simp]: "push a [] st = st"
  by (cases "rget a st") (simp_all add: push_def rput_same)

lemma push_push [simp]: "push a w (push a v st) = push a (v @ w) st"
  by (cases "rget a st") (simp_all add: push_def)

lemma rget_push: "rget b (push a v st) = (if a = b then map_option (\<lambda>r. r\<lparr>xr_node := xr_node r @ v\<rparr>) (rget a st) else rget b st)"
  by (cases "rget a st") (auto simp: push_def)

definition live :: "nat \<Rightarrow> xpath_store \<Rightarrow> bool" where
  "live a st \<longleftrightarrow> rget a st \<noteq> None"

lemma live_Some: "rget a st = Some r \<Longrightarrow> live a st"
  by (simp add: live_def)

lemma rget_push_other [simp]: "b \<noteq> a \<Longrightarrow> rget b (push a v st) = rget b st"
  by (simp add: rget_push)

lemma live_push [simp]: "live b (push a v st) \<longleftrightarrow> live b st"
  by (simp add: live_def rget_push)

lemma append_push:
  "live a st \<Longrightarrow> u_xpath_node_array_append a n st = Some (push a [n] st)"
  by (cases "rget a st") (simp_all add: u_xpath_node_array_append_def push_def live_def)

lemmas append_defs = xpath_result_append_element_def xpath_result_append_string_def xpath_result_append_boolean_def xpath_result_append_integer_def

lemma obj_push: "obj b (push a v st) = (if a = b then map_option (\<lambda>(t, w). (t, w @ v)) (obj a st) else obj b st)"
  by (cases "rget b st") (auto simp: obj_def rget_push)

lemma held_push: "held st st' B \<Longrightarrow> rget a st = None \<Longrightarrow> held st (push a v st') B"
proof -
  assume h: "held st st' B" and f: "rget a st = None"
  have "users_of x (push a v st') = users_of x st'" for x
    by (cases "rget a st'"; cases "x = a") (simp_all add: users_of_def rget_push)
  moreover have "xs_next (push a v st') = xs_next st'" by (simp add: push_def split: option.split)
  moreover have "store_ok (push a v st')" using held_ok(1) [OF h] by (auto simp: store_ok_def rget_push calculation(2) split: if_splits)
  ultimately show ?thesis using h f by (auto simp: held_def obj_push)
qed

text \<open>A new result with some contents.\<close>

lemma held_build:
  assumes "held st st' B" "xpath_result_new t st' = (x, st1)"
  shows "live x st1" "held st (push x v st1) (add_mset x B)" "obj x (push x v st1) = Some (t, v)"
    "\<And>a. a \<noteq> x \<Longrightarrow> rget a (push x v st1) = rget a st'" "rget x st' = None"
  using held_new [OF assms] by (simp_all add: held_push obj_def rget_push live_def)

abbreviation pushes :: "nat \<Rightarrow> xpath_node list option \<Rightarrow> xpath_store \<Rightarrow> xpath_store option" where
  "pushes a m st \<equiv> map_option (\<lambda>v. push a v st) m"

lemma pushes_flat_step:
  "(do { st1 \<leftarrow> pushes a m st; pushes a m' st1 }) = pushes a (do { v \<leftarrow> m; w \<leftarrow> m'; Some (v @ w) }) st"
  by (cases m; cases m') simp_all

lemma append_if_match_ok: "live a st \<Longrightarrow> append_if_match a i xn st = pushes a (matching i xn) st"
  by (cases "name_matches i xn") (simp_all add: append_if_match_def matching_def append_defs append_push)

lemma children_loop_ok: "live a st \<Longrightarrow> children_loop a i cs st = pushes a (flat (matching i) cs) st"
proof (induction cs arbitrary: st)
  case (Cons c cs)
  then show ?case by (cases "matching i c"; cases "flat (matching i) cs") (simp_all add: append_if_match_ok)
qed simp

lemma self_loop_ok: "live a st \<Longrightarrow> self_loop a i ns st = pushes a (on_elements (matching i) ns) st"
proof (induction ns arbitrary: st)
  case (Cons n ns)
  show ?case
  proof (cases "the_element n")
    case (Some xn)
    then show ?thesis using Cons unfolding on_elements_def
      by (cases "matching i xn"; cases "flat (\<lambda>n. the_element n \<bind> matching i) ns") (simp_all add: append_if_match_ok)
  qed (simp add: on_elements_def)
qed (simp add: on_elements_def)

lemma child_loop_ok: "live a st \<Longrightarrow> child_loop a i ns st = pushes a (on_elements (\<lambda>xn. flat (matching i) (xn_children xn)) ns) st"
proof (induction ns arbitrary: st)
  case (Cons n ns)
  show ?case
  proof (cases "the_element n")
    case (Some xn)
    then show ?thesis using Cons unfolding on_elements_def
      by (cases "flat (matching i) (xn_children xn)"; cases "flat (\<lambda>n. the_element n \<bind> (\<lambda>xn. flat (matching i) (xn_children xn))) ns")
        (simp_all add: children_loop_ok)
  qed (simp add: on_elements_def)
qed (simp add: on_elements_def)

lemma flat_append: "flat f (xs @ ys) = do { a \<leftarrow> flat f xs; b \<leftarrow> flat f ys; Some (a @ b) }"
  by (induction xs) (auto simp: bind_assoc)

lemma descendants_ok:
  "live a st \<Longrightarrow> descendants_match a i xn st = pushes a (flat (matching i) (nodes_below xn)) st"
  "live a st \<Longrightarrow> descendants_children a i cs st = pushes a (flat (matching i) (concat (map (\<lambda>c. c # nodes_below c) cs))) st"
proof (induction a i xn st and a i cs st rule: descendants_match_descendants_children.induct)
  case (3 a i c cs st)
  have leaf: "nodes_below c = []" if "xn_children c = []" using that by (cases c) simp
  show ?case
  proof (cases "matching i c")
    case None
    then show ?thesis using 3(3) by (simp add: append_if_match_ok)
  next
    case (Some v)
    have m: "append_if_match a i c st = Some (push a v st)" using Some 3(3) by (simp add: append_if_match_ok)
    have d: "(if xn_children c \<noteq> [] then descendants_match a i c (push a v st) else Some (push a v st)) = pushes a (flat (matching i) (nodes_below c)) (push a v st)"
      using 3(1) [OF m] 3(3) leaf by auto
    show ?thesis
    proof (cases "flat (matching i) (nodes_below c)")
      case None
      then show ?thesis using m d Some by (simp add: flat_append)
    next
      case (Some w)
      have e: "(if xn_children c \<noteq> [] then descendants_match a i c (push a v st) else Some (push a v st)) = Some (push a (v @ w) st)"
        using d Some by simp
      have r: "descendants_children a i cs (push a (v @ w) st) = pushes a (flat (matching i) (concat (map (\<lambda>c. c # nodes_below c) cs))) (push a (v @ w) st)"
        using 3(2) [OF m e] 3(3) by simp
      have "descendants_children a i (c # cs) st = descendants_children a i cs (push a (v @ w) st)" using m e by simp
      then show ?thesis using r Some \<open>matching i c = Some v\<close>
        by (cases "flat (matching i) (concat (map (\<lambda>c. c # nodes_below c) cs))") (simp_all add: flat_append)
    qed
  qed
qed simp_all

lemma descendant_loop_ok: "live a st \<Longrightarrow> descendant_loop a i ns st = pushes a (on_elements (\<lambda>xn. flat (matching i) (nodes_below xn)) ns) st"
proof (induction ns arbitrary: st)
  case (Cons n ns)
  show ?case
  proof (cases "the_element n")
    case (Some xn)
    then show ?thesis using Cons unfolding on_elements_def
      by (cases "flat (matching i) (nodes_below xn)"; cases "flat (\<lambda>n. the_element n \<bind> (\<lambda>xn. flat (matching i) (nodes_below xn))) ns")
        (simp_all add: descendants_ok)
  qed (simp add: on_elements_def)
qed (simp add: on_elements_def)

lemma getattr_loop_ok: "live a st \<Longrightarrow>
  getattr_loop a i ns st = pushes a (on_elements (\<lambda>xn. do { v \<leftarrow> attr_value xn i; Some (if v = None then [] else [XN_string v]) }) ns) st"
proof (induction ns arbitrary: st)
  case (Cons n ns)
  show ?case
  proof (cases "the_element n")
    case (Some xn)
    then show ?thesis using Cons unfolding on_elements_def
      by (cases "attr_value xn i"; cases "flat (\<lambda>n. the_element n \<bind> (\<lambda>xn. attr_value xn i \<bind> (\<lambda>v. Some (if v = None then [] else [XN_string v])))) ns")
        (simp_all add: append_defs append_push)
  qed (simp add: on_elements_def)
qed (simp add: on_elements_def)

lemma arith_row_ok: "live a st \<Longrightarrow>
  arith_row p a l ns st = pushes a (flat (\<lambda>r. do { j \<leftarrow> the_integer r; v \<leftarrow> arith_oper p l j; Some (case v of None \<Rightarrow> [] | Some x \<Rightarrow> [XN_integer x]) }) ns) st"
proof (induction ns arbitrary: st)
  case (Cons n ns)
  let ?f = "\<lambda>r. do { j \<leftarrow> the_integer r; v \<leftarrow> arith_oper p l j; Some (case v of None \<Rightarrow> [] | Some x \<Rightarrow> [XN_integer x]) }"
  show ?case
  proof (cases "the_integer n")
    case (Some j)
    then show ?thesis using Cons
      by (cases "arith_oper p l j"; cases "flat ?f ns") (auto simp: append_defs append_push split: option.split)
  qed simp
qed simp

lemma arith_loop_ok: "live a st \<Longrightarrow> arith_loop p a ls rs st = pushes a (meaning_arith p ls rs) st"
proof (induction ls arbitrary: st)
  case (Cons n ns)
  let ?g = "\<lambda>l. flat (\<lambda>r. do { j \<leftarrow> the_integer r; v \<leftarrow> arith_oper p l j; Some (case v of None \<Rightarrow> [] | Some x \<Rightarrow> [XN_integer x]) }) rs"
  show ?case
  proof (cases "the_integer n")
    case (Some i)
    then show ?thesis using Cons unfolding meaning_arith_def
      by (cases "?g i"; cases "flat (\<lambda>l. do { i \<leftarrow> the_integer l; ?g i }) ns") (simp_all add: arith_row_ok)
  qed (simp add: meaning_arith_def)
qed (simp add: meaning_arith_def)

lemma subscript_loop_ok: "live a st \<Longrightarrow> subscript_loop a m xn ns st = Some (push a (subscript m (XN_element xn) ns) st)"
proof (induction ns arbitrary: st)
  case (Cons n ns)
  then show ?case by (cases n) (simp_all add: append_defs append_push)
qed simp

lemma append_integers_ok: "live a st \<Longrightarrow> append_integers a is st = Some (push a (map XN_integer is) st)"
  by (induction "is" arbitrary: st) (simp_all add: append_defs append_push)

lemma append_strings_ok:
  "live a st \<Longrightarrow> has_type t ns \<Longrightarrow> t = XPATH_INTEGER \<or> t = XPATH_ELEMENT \<Longrightarrow> append_strings a t ns st = Some (push a (map XN_string (as_strings t ns)) st)"
proof (induction ns arbitrary: st)
  case (Cons n ns)
  then have "has_type t ns" by (auto simp: has_type_def)
  then show ?case using Cons by (auto simp: has_type_def as_strings_def append_defs append_push split: xpath_node_type.splits)
qed (auto simp: as_strings_def)

lemma constant_loop_ok:
  assumes "live a st" "has_type XPATH_ELEMENT left" "has_type t ns" "t \<noteq> XPATH_BOOLEAN"
  shows "constant_loop a left ns st = map_option (\<lambda>v. (False, push a v st)) (select_constant left ns)"
  using assms(1,3)
proof (induction ns arbitrary: st)
  case (Cons n ns)
  have t: "has_type t ns" using Cons.prems(2) assms(4) by (auto simp: has_type_def split: xpath_node_type.splits)
  have nb: "n \<noteq> XN_boolean b" for b using Cons.prems(2) assms(4) by (auto simp: has_type_def split: xpath_node_type.splits)
  note IH = Cons.IH [OF _ t]
  show ?case
  proof (cases "\<exists>i. n = XN_integer i \<and> 0 < i \<and> i - 1 < int (length left)")
    case True
    then obtain i where i: "n = XN_integer i" "0 < i" "i - 1 < int (length left)" by blast
    then have "left ! nat (i - 1) \<in> set left" by (auto intro!: nth_mem)
    then obtain x where "left ! nat (i - 1) = XN_element x" using assms(2) by (auto simp: has_type_def)
    then show ?thesis using i IH Cons.prems(1)
      by (cases "select_constant left ns") (simp_all add: select_constant_def append_defs append_push the_element_def)
  next
    case False
    then show ?thesis using IH Cons.prems(1) nb
      by (cases n; cases "select_constant left ns") (auto simp: select_constant_def)
  qed
qed (simp add: select_constant_def)

section \<open>Delivering a result\<close>

text \<open>From \<open>st1\<close>, where the references \<open>B\<close> are held, a step leads to \<open>st2\<close> with one more reference: to the result.\<close>

definition delivers :: "xpath_store \<Rightarrow> nat multiset \<Rightarrow> xpath_store \<Rightarrow> nat \<Rightarrow> xpath_store \<Rightarrow> xpath_node_type \<Rightarrow> xpath_node list \<Rightarrow> bool" where
  "delivers st B st1 x st2 t w \<longleftrightarrow> held st st2 (add_mset x B) \<and> obj x st2 = Some (t, w) \<and> (\<forall>b\<in>#B. obj b st2 = obj b st1)"

lemma delivers_held: "delivers st B st1 x st2 t w \<Longrightarrow> held st st2 (add_mset x B)" "delivers st B st1 x st2 t w \<Longrightarrow> obj x st2 = Some (t, w)"
  "delivers st B st1 x st2 t w \<Longrightarrow> b \<in># B \<Longrightarrow> obj b st2 = obj b st1"
  by (simp_all add: delivers_def)

lemma build_delivers:
  assumes "held st st1 B" "xpath_result_new t st1 = (x, st2)"
  shows "live x st2" "delivers st B st1 x (push x v st2) t v" "\<And>b. b \<noteq> x \<Longrightarrow> rget b st2 = rget b st1" "rget x st = None"
    "b \<in># B \<Longrightarrow> b \<noteq> x"
proof -
  note b = held_build [OF assms]
  have "b \<noteq> x" if "b \<in># B" for b using held_live [OF assms(1), of b] that b(5) by auto
  then show "b \<in># B \<Longrightarrow> b \<noteq> x" "delivers st B st1 x (push x v st2) t v"
    using b by (auto simp: delivers_def obj_def)
  show "live x st2" "\<And>b. b \<noteq> x \<Longrightarrow> rget b st2 = rget b st1" "rget x st = None" using b(1) held_new [OF assms] by simp_all
qed

lemma free_delivered:
  assumes "delivers st (add_mset a B) st1 x st2 t w"
  shows "\<exists>st3. xpath_result_free (Some a) st2 = Some st3 \<and> delivers st B st1 x st3 t w"
proof -
  have h: "held st st2 (add_mset a (add_mset x B))" using delivers_held(1) [OF assms] by (simp add: add_mset_commute)
  obtain st3 where f: "xpath_result_free (Some a) st2 = Some st3" "held st st3 (add_mset x B)" "\<forall>y. rget y st3 \<noteq> None \<longrightarrow> obj y st3 = obj y st2"
    using held_free [OF h] by blast
  have "obj y st3 = obj y st2" if "y \<in># add_mset x B" for y using held_live [OF f(2), of y] that f(3) by blast
  then have "delivers st B st1 x st3 t w" using f(2) assms by (auto simp: delivers_def)
  then show ?thesis using f(1) by blast
qed

lemma dup_delivers:
  assumes "held st st1 B" "obj a st1 = Some (t, w)"
  shows "\<exists>st2. xpath_result_dup a st1 = Some st2 \<and> delivers st B st1 a st2 t w"
proof -
  obtain r where "rget a st1 = Some r" using assms(2) by (auto simp: obj_Some)
  then show ?thesis using held_dup [OF assms(1)] assms(2) by (fastforce simp: delivers_def)
qed

lemma boolean_delivers:
  assumes "held st st1 B"
  shows "\<exists>x st2. u_xpath_build_boolean b st1 = Some (x, st2) \<and> delivers st B st1 x st2 XPATH_BOOLEAN (bool_nodes b)"
proof -
  obtain x st2 where n: "xpath_result_new XPATH_BOOLEAN st1 = (x, st2)" by fastforce
  note d = build_delivers(1,2) [OF assms n]
  show ?thesis using d(1) d(2) [of "bool_nodes b"] n
    by (cases b) (simp_all add: u_xpath_build_boolean_def bool_nodes_def append_defs append_push)
qed

lemma integer_delivers:
  assumes "held st st1 B"
  shows "\<exists>x st2. u_xpath_build_integer v st1 = Some (x, st2) \<and> delivers st B st1 x st2 XPATH_INTEGER [XN_integer v]"
proof -
  obtain x st2 where n: "xpath_result_new XPATH_INTEGER st1 = (x, st2)" by fastforce
  note d = build_delivers(1,2) [OF assms n]
  show ?thesis using d(1) d(2) [of "[XN_integer v]"] n by (simp add: u_xpath_build_integer_def append_defs append_push)
qed

lemma string_delivers:
  assumes "held st st1 B"
  shows "\<exists>x st2. u_xpath_build_string (Some s) st1 = Some (Some x, st2) \<and> delivers st B st1 x st2 XPATH_STRING [XN_string (Some s)]"
proof -
  obtain x st2 where n: "xpath_result_new XPATH_STRING st1 = (x, st2)" by fastforce
  note d = build_delivers(1,2) [OF assms n]
  show ?thesis using d(1) d(2) [of "[XN_string (Some s)]"] n by (simp add: u_xpath_build_string_def append_defs append_push)
qed

section \<open>Casts\<close>

lemma bool_of_nodes_typed: "has_type t v \<Longrightarrow> t \<noteq> XPATH_BOOLEAN \<Longrightarrow> bool_of_nodes t v \<noteq> Some None"
proof (induction v)
  case (Cons n ns)
  then have "has_type t ns" by (auto simp: has_type_def split: xpath_node_type.splits)
  then show ?case using Cons
    by (cases t) (auto simp: has_type_def the_element_def the_integer_def split: option.splits if_splits)
qed simp

lemma integers_of_nodes_typed: "has_type t v \<Longrightarrow> t = XPATH_ELEMENT \<or> t = XPATH_STRING \<Longrightarrow> integers_of_nodes t v \<noteq> Some None"
proof (induction v)
  case (Cons n ns)
  then have "has_type t ns" by (auto simp: has_type_def)
  then show ?case using Cons by (auto simp: has_type_def the_element_def)
qed simp

lemma has_type_cast: "has_type t v \<Longrightarrow> castable t u \<Longrightarrow> cast_nodes t u v = Some w \<Longrightarrow> has_type (cast_type t u) w"
  by (auto simp: cast_nodes_def cast_type_def castable_def has_type_def bool_nodes_def split: if_splits xpath_node_type.splits)

lemma cast_ok:
  assumes h: "held st st1 (add_mset a B)" and o: "obj a st1 = Some (t, v)" and t: "has_type t v" "castable t (op_intype p)"
  shows "case cast_nodes t (op_intype p) v of
           None \<Rightarrow> u_xpath_expression_cast p (Some a) st1 = None
         | Some w \<Rightarrow> \<exists>x st2. u_xpath_expression_cast p (Some a) st1 = Some (True, Some x, st2)
             \<and> delivers st B st1 x st2 (cast_type t (op_intype p)) w"
proof -
  define u where "u = op_intype p"
  obtain r where r: "rget a st1 = Some r" "xr_type r = t" "xr_node r = v" using o by (auto simp: obj_Some)
  have same: "delivers st B st1 a st1 t v" using h o by (simp add: delivers_def)
  consider "u = XPATH_ANY \<or> u = XPATH_VOID \<or> u = t" | "u = XPATH_BOOLEAN" "t \<noteq> XPATH_BOOLEAN"
    | "u = XPATH_INTEGER" "t = XPATH_ELEMENT \<or> t = XPATH_STRING"
    using t by (cases t) (auto simp: castable_def u_def [symmetric] has_type_def)
  then have "case cast_nodes t u v of
           None \<Rightarrow> u_xpath_expression_cast p (Some a) st1 = None
         | Some w \<Rightarrow> \<exists>x st2. u_xpath_expression_cast p (Some a) st1 = Some (True, Some x, st2) \<and> delivers st B st1 x st2 (cast_type t u) w"
  proof cases
    case 1
    then have "u_xpath_expression_cast p (Some a) st1 = Some (True, Some a, st1)" using r by (auto simp: u_xpath_expression_cast_def u_def [symmetric])
    moreover have "cast_nodes t u v = Some v" "cast_type t u = t" using 1 by (auto simp: cast_nodes_def cast_type_def)
    ultimately show ?thesis using same by simp
  next
    case 2
    show ?thesis
    proof (cases "bool_of_nodes t v")
      case None
      then show ?thesis using 2 r by (simp add: u_xpath_expression_cast_def u_def [symmetric] cast_nodes_def)
    next
      case (Some ob)
      then obtain b where b: "bool_of_nodes t v = Some (Some b)" using bool_of_nodes_typed [OF t(1) 2(2)] by (cases ob) auto
      obtain st2 where f: "xpath_result_free (Some a) st1 = Some st2" "held st st2 B" "\<forall>y. rget y st2 \<noteq> None \<longrightarrow> obj y st2 = obj y st1"
        using held_free [OF h] by blast
      obtain x st3 where d: "u_xpath_build_boolean b st2 = Some (x, st3)" "delivers st B st2 x st3 XPATH_BOOLEAN (bool_nodes b)"
        using boolean_delivers [OF f(2)] by blast
      have "delivers st B st1 x st3 XPATH_BOOLEAN (bool_nodes b)" using d(2) f(3) held_live [OF f(2)] by (simp add: delivers_def)
      moreover have "u_xpath_expression_cast p (Some a) st1 = Some (True, Some x, st3)"
        using 2 r b f(1) d(1) by (simp add: u_xpath_expression_cast_def u_def [symmetric])
      ultimately show ?thesis using 2 b by (simp add: cast_nodes_def cast_type_def)
    qed
  next
    case 3
    obtain x st2 where n: "xpath_result_new XPATH_INTEGER st1 = (x, st2)" by fastforce
    show ?thesis
    proof (cases "integers_of_nodes t v")
      case None
      then show ?thesis using 3 r n by (auto simp: u_xpath_expression_cast_def u_def [symmetric] cast_nodes_def)
    next
      case (Some oi)
      then obtain js where j: "integers_of_nodes t v = Some (Some js)" using integers_of_nodes_typed [OF t(1) 3(2)] by (cases oi) auto
      note d = build_delivers(1,2) [OF h n]
      obtain st3 where f: "xpath_result_free (Some a) (push x (map XN_integer js) st2) = Some st3" "delivers st B st1 x st3 XPATH_INTEGER (map XN_integer js)"
        using free_delivered [OF d(2) [of "map XN_integer js"]] by blast
      have "u_xpath_expression_cast p (Some a) st1 = Some (True, Some x, st3)"
        using 3 r j n f(1) append_integers_ok [OF d(1)] by (auto simp: u_xpath_expression_cast_def u_def [symmetric])
      then show ?thesis using 3 j f(2) by (auto simp: cast_nodes_def cast_type_def)
    qed
  qed
  then show ?thesis unfolding u_def .
qed

section \<open>Comparisons\<close>

lemma test_boolean_typed: "has_type XPATH_BOOLEAN v \<Longrightarrow> test_boolean v = Some (v \<noteq> [])"
  by (auto simp: has_type_def test_boolean_def)

lemma to_strings_ok:
  assumes h: "held st st1 B" and o: "obj a st1 = Some (t, v)" and t: "has_type t v" and a: "a \<in># B"
  shows "\<exists>x st2. xpath_result_to_strings a st1 = Some (x, st2) \<and> delivers st B st1 x st2 XPATH_STRING (map XN_string (as_strings t v))"
proof -
  obtain r where r: "rget a st1 = Some r" "xr_type r = t" "xr_node r = v" using o by (auto simp: obj_Some)
  show ?thesis
  proof (cases "t = XPATH_STRING")
    case True
    have "\<forall>n\<in>set v. \<exists>x. n = XN_string x" using t True by (simp add: has_type_def)
    then have m: "map XN_string (as_strings t v) = v" using True by (auto simp: as_strings_def intro!: map_idI)
    show ?thesis using dup_delivers [OF h o] r True m by (auto simp: xpath_result_to_strings_def)
  next
    case False
    obtain x st2 where n: "xpath_result_new XPATH_STRING st1 = (x, st2)" by fastforce
    note d = build_delivers(1,2) [OF h n]
    have ra: "rget a st2 = Some r" using build_delivers(3,5) [OF h n] a r(1) by metis
    have e: "xpath_result_to_strings a st1 = Some (x, push x (map XN_string (as_strings t v)) st2)"
    proof (cases "t = XPATH_BOOLEAN")
      case True
      have "u_xpath_test_boolean a st2 = Some (v \<noteq> [])" using ra r test_boolean_typed [of v] t True by (simp add: u_xpath_test_boolean_def)
      then show ?thesis using r n d(1) True
        by (simp add: xpath_result_to_strings_def as_strings_def append_defs append_push)
    next
      case nb: False
      then have "t = XPATH_INTEGER \<or> t = XPATH_ELEMENT" using t False by (cases t) (simp_all add: has_type_def)
      then show ?thesis
      proof
        assume "t = XPATH_INTEGER"
        then show ?thesis using r n append_strings_ok [OF d(1) t] by (simp add: xpath_result_to_strings_def)
      next
        assume "t = XPATH_ELEMENT"
        then show ?thesis using r n append_strings_ok [OF d(1) t] by (simp add: xpath_result_to_strings_def)
      qed
    qed
    then show ?thesis using d(2) by blast
  qed
qed

lemma compare_row_ok:
  "\<forall>r\<in>set rs. node_compare p t l r \<noteq> None \<Longrightarrow> compare_row p t l rs = Some (\<exists>r\<in>set rs. node_compare p t l r = Some True)"
proof (induction rs)
  case (Cons r rs)
  then obtain b where "node_compare p t l r = Some b" by auto
  then show ?case using Cons by (cases b) simp_all
qed simp

lemma compare_loop_ok:
  "\<forall>l\<in>set ls. \<forall>r\<in>set rs. node_compare p t l r \<noteq> None \<Longrightarrow>
    compare_loop p t ls rs = Some (\<exists>l\<in>set ls. \<exists>r\<in>set rs. node_compare p t l r = Some True)"
proof (induction ls)
  case (Cons l ls)
  then have "compare_row p t l rs = Some (\<exists>r\<in>set rs. node_compare p t l r = Some True)" by (intro compare_row_ok) simp
  then show ?case using Cons by simp
qed simp

lemma node_compare_typed: "has_type t ls \<Longrightarrow> has_type t rs \<Longrightarrow> l \<in> set ls \<Longrightarrow> r \<in> set rs \<Longrightarrow> node_compare p t l r \<noteq> None"
  by (cases l; cases r) (auto simp: has_type_def node_compare_def split: xpath_node_type.splits)

lemma compare_typed:
  assumes "has_type t ls" "has_type t rs"
  shows "compare_loop p t ls rs = Some (\<exists>l\<in>set ls. \<exists>r\<in>set rs. node_compare p t l r = Some True)"
  by (rule compare_loop_ok) (use node_compare_typed [OF assms] in blast)

lemma has_type_strings: "has_type XPATH_STRING (map XN_string ss)"
  by (auto simp: has_type_def)

text \<open>Two references are given back.\<close>

lemma free_two:
  assumes "held st st1 (add_mset y (add_mset x B))"
  shows "\<exists>st2 st3. xpath_result_free (Some x) st1 = Some st2 \<and> xpath_result_free (Some y) st2 = Some st3 \<and> held st st3 B
    \<and> (\<forall>b\<in>#B. obj b st3 = obj b st1)"
proof -
  have h: "held st st1 (add_mset x (add_mset y B))" using assms by (simp add: add_mset_commute)
  obtain st2 where f: "xpath_result_free (Some x) st1 = Some st2" "held st st2 (add_mset y B)" "\<forall>z. rget z st2 \<noteq> None \<longrightarrow> obj z st2 = obj z st1"
    using held_free [OF h] by blast
  obtain st3 where g: "xpath_result_free (Some y) st2 = Some st3" "held st st3 B" "\<forall>z. rget z st3 \<noteq> None \<longrightarrow> obj z st3 = obj z st2"
    using held_free [OF f(2)] by blast
  have "obj b st3 = obj b st1" if "b \<in># B" for b
    using held_live [OF g(2), of b] held_live [OF f(2), of b] that f(3) g(3) by simp
  then show ?thesis using f(1) g(1,2) by blast
qed

lemma comparison_ok:
  assumes h: "held st st1 B" and l: "obj a st1 = Some (t, ls)" "has_type t ls" "a \<in># B" and r: "obj b st1 = Some (u, rs)" "has_type u rs" "b \<in># B"
  shows "\<exists>x st2. u_xpath_enode_generic_comparison p a b st1 = Some (x, st2)
    \<and> delivers st B st1 x st2 XPATH_BOOLEAN (bool_nodes (meaning_compare p t ls u rs))"
proof -
  obtain ra rb where rr: "rget a st1 = Some ra" "xr_type ra = t" "xr_node ra = ls" "rget b st1 = Some rb" "xr_type rb = u" "xr_node rb = rs"
    using l(1) r(1) by (auto simp: obj_Some)
  define w where "w = (if t = u then t else XPATH_STRING)"
  define ls1 where "ls1 = (if t = u then ls else map XN_string (as_strings t ls))"
  define rs1 where "rs1 = (if t = u then rs else map XN_string (as_strings u rs))"
  have typed1: "has_type w ls1" "has_type w rs1" using l(2) r(2) has_type_strings by (auto simp: w_def ls1_def rs1_def)
  have bv: "compare_loop p w ls1 rs1 = Some (meaning_compare p t ls u rs)"
    unfolding compare_typed [OF typed1] by (auto simp: w_def ls1_def rs1_def meaning_compare_def node_compare_def)
  have nw: "w \<noteq> XPATH_VOID \<and> w \<noteq> XPATH_ANY" using typed1(1) by (auto simp: has_type_def)
  obtain x y st2 where conv: "(if t \<noteq> u then do {
          (x, sta) \<leftarrow> xpath_result_to_strings a st1;
          (y, stb) \<leftarrow> xpath_result_to_strings b sta;
          Some (x, y, stb) }
        else do {
          sta \<leftarrow> xpath_result_dup a st1;
          stb \<leftarrow> xpath_result_dup b sta;
          Some (a, b, stb) }) = Some (x, y, st2)"
      and st2: "held st st2 (add_mset y (add_mset x B))" "obj x st2 = Some (w, ls1)" "obj y st2 = Some (w, rs1)" "\<forall>c\<in>#B. obj c st2 = obj c st1"
  proof (cases "t = u")
    case True
    obtain sta where a: "xpath_result_dup a st1 = Some sta" "delivers st B st1 a sta t ls" using dup_delivers [OF h l(1)] by blast
    have "obj b sta = Some (u, rs)" using delivers_held(3) [OF a(2) r(3)] r(1) by simp
    then obtain stb where b: "xpath_result_dup b sta = Some stb" "delivers st (add_mset a B) sta b stb u rs"
      using dup_delivers [OF delivers_held(1) [OF a(2)]] by blast
    show thesis
      by (rule that [of a b stb]) (use True a b l(1) delivers_held [OF a(2)] delivers_held [OF b(2)] in \<open>simp_all add: w_def ls1_def rs1_def\<close>)
  next
    case False
    obtain x sta where a: "xpath_result_to_strings a st1 = Some (x, sta)" "delivers st B st1 x sta XPATH_STRING (map XN_string (as_strings t ls))"
      using to_strings_ok [OF h l] by blast
    have ob: "obj b sta = Some (u, rs)" using delivers_held(3) [OF a(2) r(3)] r(1) by simp
    obtain y stb where b: "xpath_result_to_strings b sta = Some (y, stb)" "delivers st (add_mset x B) sta y stb XPATH_STRING (map XN_string (as_strings u rs))"
      using to_strings_ok [OF delivers_held(1) [OF a(2)] ob r(2)] r(3) by auto
    show thesis
      by (rule that [of x y stb]) (use False a b delivers_held [OF a(2)] delivers_held [OF b(2)] in \<open>simp_all add: w_def ls1_def rs1_def\<close>)
  qed
  obtain rx ry where xy: "rget x st2 = Some rx" "xr_type rx = w" "xr_node rx = ls1" "rget y st2 = Some ry" "xr_node ry = rs1"
    using st2(2,3) by (auto simp: obj_Some)
  obtain st3 st4 where f: "xpath_result_free (Some x) st2 = Some st3" "xpath_result_free (Some y) st3 = Some st4" "held st st4 B" "\<forall>c\<in>#B. obj c st4 = obj c st2"
    using free_two [OF st2(1)] by blast
  obtain z st5 where z: "u_xpath_build_boolean (meaning_compare p t ls u rs) st4 = Some (z, st5)"
      "delivers st B st4 z st5 XPATH_BOOLEAN (bool_nodes (meaning_compare p t ls u rs))"
    using boolean_delivers [OF f(3)] by blast
  have "u_xpath_enode_generic_comparison p a b st1 = Some (z, st5)"
    unfolding u_xpath_enode_generic_comparison_def rr(1,4) Option.bind.bind_lunit rr(2,5) conv case_prod_conv xy bv
    using nw f(1,2) z(1) by simp
  moreover have "delivers st B st1 z st5 XPATH_BOOLEAN (bool_nodes (meaning_compare p t ls u rs))"
    using z(2) f(4) st2(4) by (simp add: delivers_def)
  ultimately show ?thesis by blast
qed

section \<open>The operators\<close>

lemma flat_typed:
  assumes "\<And>x a. x \<in> set xs \<Longrightarrow> f x = Some a \<Longrightarrow> \<forall>n\<in>set a. P n" "flat f xs = Some w"
  shows "\<forall>n\<in>set w. P n"
  using assms
proof (induction xs arbitrary: w)
  case (Cons x xs)
  then obtain a b where ab: "f x = Some a" "flat f xs = Some b" "w = a @ b" by auto
  have "\<forall>n\<in>set a. P n" using Cons.prems(1) [of x a] ab(1) by simp
  moreover have "\<forall>n\<in>set b. P n" using Cons.IH [of b] Cons.prems(1) ab(2) by (metis list.set_intros(2))
  ultimately show ?case using ab(3) by auto
qed simp

lemma matching_typed: "flat (matching i) xs = Some w \<Longrightarrow> \<forall>n\<in>set w. \<exists>x. n = XN_element x"
  by (rule flat_typed) (auto simp: matching_def split: if_splits)

lemma meaning1_typed:
  assumes "meaning1 p i v ns = Some w" "op_intype p = XPATH_ELEMENT \<longrightarrow> has_type XPATH_ELEMENT ns"
  shows "has_type (op_outtype p) w"
proof -
  have el: "on_elements f ns = Some w \<Longrightarrow> (\<And>xn a. f xn = Some a \<Longrightarrow> \<forall>n\<in>set a. P n) \<Longrightarrow> \<forall>n\<in>set w. P n" for f P
    unfolding on_elements_def by (rule flat_typed) auto
  show ?thesis
  proof (cases p)
    case Op_self
    then have o: "on_elements (matching i) ns = Some w" using assms(1) by (simp add: meaning1_def)
    have "\<forall>n\<in>set w. \<exists>x. n = XN_element x" by (rule el [OF o]) (auto simp: matching_def split: if_splits)
    then show ?thesis using Op_self by (simp add: has_type_def op_outtype_def)
  next
    case Op_child
    then have o: "on_elements (\<lambda>xn. flat (matching i) (xn_children xn)) ns = Some w" using assms(1) by (simp add: meaning1_def)
    have "\<forall>n\<in>set w. \<exists>x. n = XN_element x" by (rule el [OF o]) (rule matching_typed)
    then show ?thesis using Op_child by (simp add: has_type_def op_outtype_def)
  next
    case Op_descendant
    then have o: "on_elements (\<lambda>xn. flat (matching i) (nodes_below xn)) ns = Some w" using assms(1) by (simp add: meaning1_def)
    have "\<forall>n\<in>set w. \<exists>x. n = XN_element x" by (rule el [OF o]) (rule matching_typed)
    then show ?thesis using Op_descendant by (simp add: has_type_def op_outtype_def)
  next
    case Op_getattr
    then have o: "on_elements (\<lambda>xn. do { a \<leftarrow> attr_value xn i; Some (if a = None then [] else [XN_string a]) }) ns = Some w"
      using assms(1) by (simp add: meaning1_def)
    have "\<forall>n\<in>set w. \<exists>x. n = XN_string x" by (rule el [OF o]) (auto split: if_splits)
    then show ?thesis using Op_getattr by (simp add: has_type_def op_outtype_def)
  qed (use assms in \<open>auto simp: meaning1_def has_type_def op_outtype_def op_intype_def bool_nodes_def split: if_splits\<close>)
qed

lemma into_ok:
  assumes h: "held st st1 B" and a: "a \<in># B" "obj a st1 = Some (u, v)"
    and loop: "\<And>x s. live x s \<Longrightarrow> loop x i v s = pushes x m s"
  shows "case m of
      None \<Rightarrow> (let (x, st2) = xpath_result_new t st1 in do { r \<leftarrow> rget a st2; st3 \<leftarrow> loop x i (xr_node r) st2; Some (Some x, st3) }) = None
    | Some w \<Rightarrow> \<exists>x st2. (let (x, st2) = xpath_result_new t st1 in do { r \<leftarrow> rget a st2; st3 \<leftarrow> loop x i (xr_node r) st2; Some (Some x, st3) }) = Some (Some x, st2)
        \<and> delivers st B st1 x st2 t w"
proof -
  obtain x st2 where n: "xpath_result_new t st1 = (x, st2)" by fastforce
  note d = build_delivers [OF h n]
  obtain r where "rget a st1 = Some r" "xr_node r = v" using a(2) by (auto simp: obj_Some)
  then have "rget a st2 = Some r" "xr_node r = v" using d(3,5) a(1) by metis+
  then show ?thesis using n loop [OF d(1)] d(2) by (cases m) auto
qed

lemma op1_ok:
  assumes h: "held st st1 B" and a: "a \<in># B" "obj a st1 = Some (u, v)" "has_type u v"
    and u: "op_intype p = XPATH_VOID \<or> op_intype p = u" and p: "\<not> op_binary p" "p \<noteq> Op_predicate" "p = Op_stringconst \<longrightarrow> i \<noteq> None"
  shows "case meaning1 p i k v of
      None \<Rightarrow> op_evaluate p i k a st1 = None
    | Some w \<Rightarrow> \<exists>x st2. op_evaluate p i k a st1 = Some (Some x, st2) \<and> delivers st B st1 x st2 (op_outtype p) w"
proof -
  note into = into_ok [OF h a(1,2)]
  obtain r where r: "rget a st1 = Some r" "xr_node r = v" using a(2) by (auto simp: obj_Some)
  show ?thesis
  proof (cases p)
    case Op_node
    then have "u = XPATH_ELEMENT" using u by (simp add: op_intype_def)
    then show ?thesis using dup_delivers [OF h a(2)] Op_node by (auto simp: meaning1_def op_evaluate_def op_outtype_def)
  next
    case Op_self
    show ?thesis unfolding Op_self meaning1_def op_evaluate_def Let_def op_outtype_def xpath_operator.case
      by (rule into [of self_loop i _ XPATH_ELEMENT, OF self_loop_ok, unfolded Let_def])
  next
    case Op_child
    show ?thesis unfolding Op_child meaning1_def op_evaluate_def Let_def op_outtype_def xpath_operator.case
      by (rule into [of child_loop i _ XPATH_ELEMENT, OF child_loop_ok, unfolded Let_def])
  next
    case Op_descendant
    show ?thesis unfolding Op_descendant meaning1_def op_evaluate_def Let_def op_outtype_def xpath_operator.case
      by (rule into [of descendant_loop i _ XPATH_ELEMENT, OF descendant_loop_ok, unfolded Let_def])
  next
    case Op_getattr
    show ?thesis unfolding Op_getattr meaning1_def op_evaluate_def Let_def op_outtype_def xpath_operator.case
      by (rule into [of getattr_loop i _ XPATH_STRING, OF getattr_loop_ok, unfolded Let_def])
  next
    case Op_stringconst
    then obtain s where "i = Some s" using p(3) by auto
    then show ?thesis using string_delivers [OF h, of s] Op_stringconst by (auto simp: meaning1_def op_evaluate_def op_outtype_def)
  next
    case Op_intconst
    then show ?thesis using integer_delivers [OF h, of k] by (auto simp: meaning1_def op_evaluate_def op_outtype_def)
  next
    case Op_true
    then show ?thesis using boolean_delivers [OF h, of True] by (auto simp: meaning1_def op_evaluate_def op_outtype_def)
  next
    case Op_false
    then show ?thesis using boolean_delivers [OF h, of False] by (auto simp: meaning1_def op_evaluate_def op_outtype_def)
  next
    case Op_last
    then show ?thesis using integer_delivers [OF h, of "int (length v)"] r by (auto simp: meaning1_def op_evaluate_def op_outtype_def)
  next
    case Op_not
    then have "u = XPATH_BOOLEAN" using u by (simp add: op_intype_def)
    then have "u_xpath_test_boolean a st1 = Some (v \<noteq> [])" using r test_boolean_typed [of v] a(3) by (simp add: u_xpath_test_boolean_def)
    then show ?thesis using boolean_delivers [OF h, of "v = []"] Op_not by (auto simp: meaning1_def op_evaluate_def op_outtype_def)
  qed (use p in \<open>simp_all add: op_binary_def\<close>)
qed

lemma has_type_bool_nodes: "has_type XPATH_BOOLEAN (bool_nodes b)"
  by (simp add: has_type_def bool_nodes_def)

lemma meaning2_typed:
  assumes "meaning2 p t ls u rs = Some w" "op_binary p"
  shows "has_type (op_outtype p) w"
proof (cases "p \<in> {Op_add, Op_subtract, Op_multiply, Op_divide, Op_modulo}")
  case True
  then have m: "meaning_arith p ls rs = Some w" using assms(1) by (auto simp: meaning2_def op_priority_def)
  have "\<forall>n\<in>set w. \<exists>x. n = XN_integer x"
    by (rule flat_typed [OF _ m [unfolded meaning_arith_def]])
      (auto dest!: flat_typed [rotated, where P = "\<lambda>n. \<exists>x. n = XN_integer x"] split: option.splits)
  then show ?thesis using True by (auto simp: has_type_def op_outtype_def)
next
  case False
  then show ?thesis using assms
    by (cases p) (auto simp: meaning2_def op_binary_def op_priority_def op_outtype_def has_type_bool_nodes)
qed

lemma op2_ok:
  assumes h: "held st st1 B" and l: "obj a st1 = Some (t, ls)" "has_type t ls" "a \<in># B" and r: "obj b st1 = Some (u, rs)" "has_type u rs" "b \<in># B"
    and p: "op_binary p" "op_intype p = XPATH_ANY \<or> op_intype p = t \<and> op_intype p = u"
  shows "case meaning2 p t ls u rs of
      None \<Rightarrow> op_evaluate2 p a b st1 = None
    | Some w \<Rightarrow> \<exists>x st2. op_evaluate2 p a b st1 = Some (x, st2) \<and> delivers st B st1 x st2 (op_outtype p) w"
proof -
  obtain ra rb where rr: "rget a st1 = Some ra" "xr_node ra = ls" "rget b st1 = Some rb" "xr_node rb = rs"
    using l(1) r(1) by (auto simp: obj_Some)
  have out3: "op_priority p = 3 \<Longrightarrow> op_outtype p = XPATH_BOOLEAN" by (cases p) (simp_all add: op_priority_def op_outtype_def)
  consider "p = Op_and \<or> p = Op_or" | "p \<noteq> Op_and" "p \<noteq> Op_or" "op_priority p = 3" | "p \<in> {Op_add, Op_subtract, Op_multiply, Op_divide, Op_modulo}"
    using p(1) by (auto simp: op_binary_def op_priority_def)
  then show ?thesis
  proof cases
    case 1
    then have "t = XPATH_BOOLEAN" "u = XPATH_BOOLEAN" using p(2) by (auto simp: op_intype_def)
    then have b: "u_xpath_test_boolean a st1 = Some (ls \<noteq> [])" "u_xpath_test_boolean b st1 = Some (rs \<noteq> [])"
      using rr test_boolean_typed l(2) r(2) by (auto simp: u_xpath_test_boolean_def)
    show ?thesis using 1
    proof
      assume p: "p = Op_and"
      have "op_evaluate2 p a b st1 = u_xpath_build_boolean (ls \<noteq> [] \<and> rs \<noteq> []) st1" using b p by (cases "ls = []") (simp_all add: op_evaluate2_def)
      then show ?thesis using boolean_delivers [OF h] p by (auto simp: meaning2_def op_outtype_def)
    next
      assume p: "p = Op_or"
      have "op_evaluate2 p a b st1 = u_xpath_build_boolean (ls \<noteq> [] \<or> rs \<noteq> []) st1" using b p by (cases "ls = []") (simp_all add: op_evaluate2_def)
      then show ?thesis using boolean_delivers [OF h] p by (auto simp: meaning2_def op_outtype_def)
    qed
  next
    case 2
    then show ?thesis using comparison_ok [OF h l r, of p] out3 by (auto simp: meaning2_def op_evaluate2_def)
  next
    case 3
    then have e: "op_evaluate2 p a b st1 = u_xpath_enode_generic_arith p a b st1" "meaning2 p t ls u rs = meaning_arith p ls rs" "op_outtype p = XPATH_INTEGER"
      by (auto simp: op_evaluate2_def meaning2_def op_priority_def op_outtype_def)
    obtain x st2 where n: "xpath_result_new XPATH_INTEGER st1 = (x, st2)" by fastforce
    note d = build_delivers [OF h n]
    have "rget a st2 = Some ra" "rget b st2 = Some rb" using d(3,5) l(3) r(3) rr(1,3) by metis+
    then have "u_xpath_enode_generic_arith p a b st1 = map_option (\<lambda>v. (x, push x v st2)) (meaning_arith p ls rs)"
      using n rr arith_loop_ok [OF d(1), of p ls rs] by (cases "meaning_arith p ls rs") (simp_all add: u_xpath_enode_generic_arith_def)
    then show ?thesis using e d(2) by (cases "meaning_arith p ls rs") auto
  qed
qed

section \<open>Predicates\<close>

text \<open>What holds of the evaluation of a subexpression.\<close>

definition evaluates :: "(nat \<Rightarrow> xpath_store \<Rightarrow> (nat option \<times> xpath_store) option) \<Rightarrow> (xpath_node list \<Rightarrow> xpath_node list option) \<Rightarrow> xpath_node_type \<Rightarrow> bool" where
  "evaluates f g t \<longleftrightarrow> (\<forall>st st1 B a ns. held st st1 B \<longrightarrow> a \<in># B \<longrightarrow> obj a st1 = Some (XPATH_ELEMENT, ns) \<longrightarrow> has_type XPATH_ELEMENT ns \<longrightarrow>
     (case g ns of
        None \<Rightarrow> f a st1 = None
      | Some w \<Rightarrow> has_type t w \<and> (\<exists>x st2. f a st1 = Some (Some x, st2) \<and> delivers st B st1 x st2 t w)))"

lemma evaluatesD:
  assumes "evaluates f g t" "held st st1 B" "a \<in># B" "obj a st1 = Some (XPATH_ELEMENT, ns)" "has_type XPATH_ELEMENT ns"
  shows "g ns = None \<Longrightarrow> f a st1 = None"
    "g ns = Some w \<Longrightarrow> has_type t w \<and> (\<exists>x st2. f a st1 = Some (Some x, st2) \<and> delivers st B st1 x st2 t w)"
proof -
  have "case g ns of None \<Rightarrow> f a st1 = None
      | Some w \<Rightarrow> has_type t w \<and> (\<exists>x st2. f a st1 = Some (Some x, st2) \<and> delivers st B st1 x st2 t w)"
    using assms(1) [unfolded evaluates_def, rule_format, OF assms(2-5)] .
  then show "g ns = None \<Longrightarrow> f a st1 = None"
    "g ns = Some w \<Longrightarrow> has_type t w \<and> (\<exists>x st2. f a st1 = Some (Some x, st2) \<and> delivers st B st1 x st2 t w)" by simp_all
qed

lemma predicate_loop_ok:
  assumes f: "evaluates f g t"
  shows "held st st1 B \<Longrightarrow> res \<in># B \<Longrightarrow> rget res st = None \<Longrightarrow> obj res st1 = Some (XPATH_ELEMENT, acc) \<Longrightarrow> has_type XPATH_ELEMENT ns \<Longrightarrow>
    (case select_each g m ns of
       None \<Rightarrow> predicate_loop f res m ns st1 = None
     | Some w \<Rightarrow> \<exists>st2. predicate_loop f res m ns st1 = Some (False, st2) \<and> held st st2 B \<and> obj res st2 = Some (XPATH_ELEMENT, acc @ w)
         \<and> (\<forall>b\<in>#B. b \<noteq> res \<longrightarrow> obj b st2 = obj b st1))"
proof (induction ns arbitrary: m st1 acc)
  case (Cons n ns)
  note h = Cons.prems(1) and res = Cons.prems(2) and fresh = Cons.prems(3)
  obtain xn where xn: "n = XN_element xn" using Cons.prems(5) by (auto simp: has_type_def)
  have ns: "has_type XPATH_ELEMENT ns" using Cons.prems(5) by (simp add: has_type_def)
  obtain tmp st2 where new: "xpath_result_new XPATH_ELEMENT st1 = (tmp, st2)" by fastforce
  note d = build_delivers [OF h new]
  define st3 where "st3 = push tmp [n] st2"
  have st3: "delivers st B st1 tmp st3 XPATH_ELEMENT [n]" using d(2) by (simp add: st3_def)
  have app: "xpath_result_append_element tmp xn st2 = Some st3" using d(1) xn by (simp add: append_defs append_push st3_def)
  have one: "has_type XPATH_ELEMENT [n]" using xn by (simp add: has_type_def)
  note E = evaluatesD [OF f delivers_held(1) [OF st3] _ delivers_held(2) [OF st3] one]
  show ?case
  proof (cases "g [n]")
    case None
    then show ?thesis using E(1) new app xn by (simp add: the_element_def)
  next
    case (Some r)
    then obtain y st4 where y: "f tmp st3 = Some (Some y, st4)" "delivers st (add_mset tmp B) st3 y st4 t r"
      using E(2) by auto
    obtain st5 where st5: "xpath_result_free (Some tmp) st4 = Some st5" "delivers st B st3 y st5 t r"
      using free_delivered [OF y(2)] by blast
    have keep5: "obj b st5 = obj b st1" if "b \<in># B" for b
      using delivers_held(3) [OF st5(2) that] delivers_held(3) [OF st3 that] by simp
    obtain ry where ry: "rget y st5 = Some ry" "xr_node ry = r" using delivers_held(2) [OF st5(2)] by (auto simp: obj_Some)
    have ores: "obj res st5 = Some (XPATH_ELEMENT, acc)" using keep5 [OF res] Cons.prems(4) by simp
    then have live: "live res st5" by (auto simp: obj_def live_def)
    define st6 where "st6 = push res (subscript m n r) st5"
    have sub: "subscript_loop res m xn r st5 = Some st6" using subscript_loop_ok [OF live] xn by (simp add: st6_def)
    have h6: "held st st6 (add_mset y B)" using held_push [OF delivers_held(1) [OF st5(2)] fresh] by (simp add: st6_def)
    obtain st7 where st7: "xpath_result_free (Some y) st6 = Some st7" "held st st7 B" "\<forall>z. rget z st7 \<noteq> None \<longrightarrow> obj z st7 = obj z st6"
      using held_free [OF h6] by blast
    have o7: "obj b st7 = obj b st6" if "b \<in># B" for b using st7(3) held_live [OF st7(2), of b] that by simp
    have res7: "obj res st7 = Some (XPATH_ELEMENT, acc @ subscript m n r)" using o7 [OF res] ores by (simp add: st6_def obj_push)
    have keep7: "obj b st7 = obj b st1" if "b \<in># B" "b \<noteq> res" for b using o7 [OF that(1)] keep5 [OF that(1)] that(2) by (simp add: st6_def obj_push)
    have step: "predicate_loop f res m (n # ns) st1 = predicate_loop f res (Suc m) ns st7"
      using new app y(1) st5(1) ry sub st7(1) xn by (simp add: the_element_def)
    note IH = Cons.IH [OF st7(2) res fresh res7 ns, of "Suc m"]
    show ?thesis
    proof (cases "select_each g (Suc m) ns")
      case None
      then show ?thesis using IH Some step by simp
    next
      case (Some w)
      then obtain st8 where "predicate_loop f res (Suc m) ns st7 = Some (False, st8)" "held st st8 B"
          "obj res st8 = Some (XPATH_ELEMENT, (acc @ subscript m n r) @ w)" "\<forall>b\<in>#B. b \<noteq> res \<longrightarrow> obj b st8 = obj b st7"
        using IH by auto
      then show ?thesis using Some \<open>g [n] = Some r\<close> step keep7 by simp
    qed
  qed
qed simp

lemma select_each_typed: "select_each g m ns = Some w \<Longrightarrow> has_type XPATH_ELEMENT ns \<Longrightarrow> has_type XPATH_ELEMENT w"
proof (induction ns arbitrary: m w)
  case (Cons n ns)
  have "\<forall>x\<in>set (subscript m n r). x = n" for r by (induction r) (auto split: xpath_node.splits if_splits)
  then show ?case using Cons by (fastforce simp: has_type_def)
qed (simp add: has_type_def)

lemma select_constant_typed:
  assumes "select_constant ns r = Some w" "has_type XPATH_ELEMENT ns"
  shows "has_type XPATH_ELEMENT w"
proof -
  have "\<forall>n\<in>set w. \<exists>x. n = XN_element x"
    by (rule flat_typed [OF _ assms(1) [unfolded select_constant_def]])
      (use assms(2) in \<open>auto simp: has_type_def split: xpath_node.splits if_splits intro!: nth_mem\<close>)
  then show ?thesis by (simp add: has_type_def)
qed

lemma meaning_predicate_typed: "meaning_predicate g c ns = Some w \<Longrightarrow> has_type XPATH_ELEMENT ns \<Longrightarrow> has_type XPATH_ELEMENT w"
  by (auto simp: meaning_predicate_def select_constant_typed select_each_typed split: if_splits)

lemma predicate_ok:
  assumes f: "evaluates f g t" and h: "held st st1 B" and a: "a \<in># B" "obj a st1 = Some (XPATH_ELEMENT, ns)" "has_type XPATH_ELEMENT ns"
    and c: "const = Some c" "c \<longrightarrow> t \<noteq> XPATH_BOOLEAN"
  shows "case meaning_predicate g const ns of
      None \<Rightarrow> u_xpath_enode_predicate_evaluate f const a st1 = None
    | Some w \<Rightarrow> \<exists>x st2. u_xpath_enode_predicate_evaluate f const a st1 = Some (Some x, st2) \<and> delivers st B st1 x st2 XPATH_ELEMENT w"
proof -
  obtain res st2 where new: "xpath_result_new XPATH_ELEMENT st1 = (res, st2)" by fastforce
  note d = build_delivers [OF h new]
  have d0: "delivers st B st1 res st2 XPATH_ELEMENT []" using d(2) [of "[]"] by simp
  obtain l where l: "rget a st2 = Some l" "xr_node l = ns" using a(1,2) d(3,5) by (fastforce simp: obj_Some)
  have oa: "obj a st2 = Some (XPATH_ELEMENT, ns)" using delivers_held(3) [OF d0 a(1)] a(2) by simp
  consider "ns = []" | "ns \<noteq> []" "c" | "ns \<noteq> []" "\<not> c" by blast
  then show ?thesis
  proof cases
    case 1
    then show ?thesis using new l d0 by (simp add: u_xpath_enode_predicate_evaluate_def meaning_predicate_def)
  next
    case 2
    note E = evaluatesD [OF f delivers_held(1) [OF d0] _ oa a(3)]
    show ?thesis
    proof (cases "g ns")
      case None
      then show ?thesis using 2 E(1) new l a(1) c by (simp add: u_xpath_enode_predicate_evaluate_def meaning_predicate_def)
    next
      case (Some r)
      then obtain y st3 where y: "f a st2 = Some (Some y, st3)" "delivers st (add_mset res B) st2 y st3 t r" "has_type t r"
        using E(2) [of r] a(1) by auto
      obtain ry where ry: "rget y st3 = Some ry" "xr_node ry = r" using delivers_held(2) [OF y(2)] by (auto simp: obj_Some)
      have ores: "obj res st3 = Some (XPATH_ELEMENT, [])" using delivers_held(3) [OF y(2), of res] delivers_held(2) [OF d0] by simp
      then have live: "live res st3" by (auto simp: obj_def live_def)
      note cl = constant_loop_ok [OF live a(3) y(3)]
      show ?thesis
      proof (cases "select_constant ns r")
        case None
        then show ?thesis using 2 Some new l c y(1) ry cl by (simp add: u_xpath_enode_predicate_evaluate_def meaning_predicate_def)
      next
        case sel: (Some w)
        define st4 where "st4 = push res w st3"
        have h4: "held st st4 (add_mset y (add_mset res B))" using held_push [OF delivers_held(1) [OF y(2)] d(4)] by (simp add: st4_def)
        obtain st5 where st5: "xpath_result_free (Some y) st4 = Some st5" "held st st5 (add_mset res B)" "\<forall>z. rget z st5 \<noteq> None \<longrightarrow> obj z st5 = obj z st4"
          using held_free [OF h4] by blast
        have o5: "obj b st5 = obj b st4" if "b \<in># add_mset res B" for b using st5(3) held_live [OF st5(2), of b] that by blast
        have "obj b st5 = obj b st1" if "b \<in># B" for b
          using o5 [of b] that delivers_held(3) [OF y(2), of b] delivers_held(3) [OF d0 that] d(5) [OF that] by (simp add: st4_def obj_push)
        moreover have "obj res st5 = Some (XPATH_ELEMENT, w)" using o5 [of res] ores by (simp add: st4_def obj_push)
        ultimately have "delivers st B st1 res st5 XPATH_ELEMENT w" using st5(2) by (simp add: delivers_def)
        moreover have "u_xpath_enode_predicate_evaluate f const a st1 = Some (Some res, st5)"
          using 2 new l c y(1) ry cl sel st5(1) by (simp add: u_xpath_enode_predicate_evaluate_def st4_def)
        ultimately show ?thesis using 2 Some sel c by (simp add: meaning_predicate_def)
      qed
    qed
  next
    case 3
    note P = predicate_loop_ok [OF f delivers_held(1) [OF d0] _ d(4) delivers_held(2) [OF d0] a(3), of 0]
    show ?thesis
    proof (cases "select_each g 0 ns")
      case None
      then show ?thesis using 3 P new l c by (simp add: u_xpath_enode_predicate_evaluate_def meaning_predicate_def)
    next
      case (Some w)
      then obtain st3 where p: "predicate_loop f res 0 ns st2 = Some (False, st3)" "held st st3 (add_mset res B)" "obj res st3 = Some (XPATH_ELEMENT, w)"
          "\<forall>b\<in>#add_mset res B. b \<noteq> res \<longrightarrow> obj b st3 = obj b st2"
        using P by auto
      have "delivers st B st1 res st3 XPATH_ELEMENT w"
        using p(2-4) delivers_held(3) [OF d0] d(5) by (auto simp: delivers_def)
      then show ?thesis using 3 new l c p(1) Some by (simp add: u_xpath_enode_predicate_evaluate_def meaning_predicate_def)
    qed
  qed
qed

section \<open>Expressions\<close>

lemma delivers_after: "delivers st B st2 y st3 t w \<Longrightarrow> \<forall>b\<in>#B. obj b st2 = obj b st1 \<Longrightarrow> delivers st B st1 y st3 t w"
  by (simp add: delivers_def)

lemma check_ok: "delivers st B st1 x st2 (op_outtype p) w \<Longrightarrow> check_outtype p (Some x) st2 = Some (Some x, st2)"
proof -
  assume "delivers st B st1 x st2 (op_outtype p) w"
  then obtain r where "rget x st2 = Some r" "xr_type r = op_outtype p" by (auto simp: obj_Some dest!: delivers_held(2))
  then show ?thesis by (simp add: check_outtype_def)
qed

lemma constant_typed: "typed e \<Longrightarrow> \<exists>c. u_xpath_expression_constant e = Some c"
  by (induction e rule: u_xpath_expression_constant.induct)
    (auto split: option.splits if_splits)

lemma unary_ok:
  assumes d: "delivers st B st1 x st2 t v" "has_type t v" "castable t (op_intype p)"
    and k: "\<And>y st3 v1. delivers st B st1 y st3 (cast_type t (op_intype p)) v1 \<Longrightarrow> has_type (cast_type t (op_intype p)) v1 \<Longrightarrow>
      (case g v1 of None \<Rightarrow> K y st3 = None
       | Some w \<Rightarrow> \<exists>z st4. K y st3 = Some (Some z, st4) \<and> delivers st (add_mset y B) st3 z st4 (op_outtype p) w)"
    and E: "E = do { (ok, left1, st3) \<leftarrow> u_xpath_expression_cast p (Some x) st2;
           (result, st4) \<leftarrow> (case (ok, left1) of (True, Some y) \<Rightarrow> K y st3 | _ \<Rightarrow> Some (None, st3));
           st5 \<leftarrow> xpath_result_free left1 st4;
           check_outtype p result st5 }"
  shows "case do { v1 \<leftarrow> cast_nodes t (op_intype p) v; g v1 } of None \<Rightarrow> E = None
    | Some w \<Rightarrow> \<exists>z st5. E = Some (Some z, st5) \<and> delivers st B st1 z st5 (op_outtype p) w"
proof -
  note c = cast_ok [OF delivers_held(1,2) [OF d(1)] d(2,3)]
  show ?thesis
  proof (cases "cast_nodes t (op_intype p) v")
    case None
    then show ?thesis using c E by simp
  next
    case (Some v1)
    then obtain y st3 where y: "u_xpath_expression_cast p (Some x) st2 = Some (True, Some y, st3)" "delivers st B st2 y st3 (cast_type t (op_intype p)) v1"
      using c by auto
    have y1: "delivers st B st1 y st3 (cast_type t (op_intype p)) v1"
      using y(2) by (rule delivers_after) (simp add: delivers_held(3) [OF d(1)])
    note kk = k [OF y1 has_type_cast [OF d(2,3) Some]]
    show ?thesis
    proof (cases "g v1")
      case None
      then show ?thesis using kk Some E y(1) by simp
    next
      case gs: (Some w)
      then obtain z st4 where z: "K y st3 = Some (Some z, st4)" "delivers st (add_mset y B) st3 z st4 (op_outtype p) w" using kk by auto
      obtain st5 where st5: "xpath_result_free (Some y) st4 = Some st5" "delivers st B st3 z st5 (op_outtype p) w"
        using free_delivered [OF z(2)] by blast
      have "delivers st B st1 z st5 (op_outtype p) w"
        using st5(2) by (rule delivers_after) (simp add: delivers_held(3) [OF y1])
      moreover have "E = Some (Some z, st5)" using E y(1) z(1) st5(1) check_ok [OF st5(2)] by simp
      ultimately show ?thesis using Some gs by simp
    qed
  qed
qed

lemma binary_ok:
  assumes l: "delivers st B st1 x st2 t v" "has_type t v" "castable t (op_intype p)"
    and r: "delivers st (add_mset x B) st2 y st3 u w" "has_type u w" "castable u (op_intype p)"
    and p: "op_binary p"
    and E: "E = do { (ok, left1, st4) \<leftarrow> u_xpath_expression_cast p (Some x) st3;
             (ok2, right1, st5) \<leftarrow> (if ok then u_xpath_expression_cast p (Some y) st4 else Some (False, Some y, st4));
             (result, st6) \<leftarrow> (case (ok2, left1, right1) of
                (True, Some x, Some y) \<Rightarrow> do { (z, sta) \<leftarrow> op_evaluate2 p x y st5; Some (Some z, sta) }
              | _ \<Rightarrow> Some (None, st5));
             st7 \<leftarrow> xpath_result_free left1 st6;
             st8 \<leftarrow> xpath_result_free right1 st7;
             check_outtype p result st8 }"
  shows "case do { v1 \<leftarrow> cast_nodes t (op_intype p) v; w1 \<leftarrow> cast_nodes u (op_intype p) w;
             meaning2 p (cast_type t (op_intype p)) v1 (cast_type u (op_intype p)) w1 } of
      None \<Rightarrow> E = None
    | Some n \<Rightarrow> \<exists>z st5. E = Some (Some z, st5) \<and> delivers st B st1 z st5 (op_outtype p) n"
proof -
  let ?t = "cast_type t (op_intype p)" and ?u = "cast_type u (op_intype p)"
  have h3: "held st st3 (add_mset x (add_mset y B))" using delivers_held(1) [OF r(1)] by (simp add: add_mset_commute)
  have ox: "obj x st3 = Some (t, v)" using delivers_held(3) [OF r(1), of x] delivers_held(2) [OF l(1)] by simp
  note c = cast_ok [OF h3 ox l(2,3)]
  show ?thesis
  proof (cases "cast_nodes t (op_intype p) v")
    case None
    then show ?thesis using c E by simp
  next
    case v1: (Some v1)
    then obtain a st4 where a: "u_xpath_expression_cast p (Some x) st3 = Some (True, Some a, st4)" "delivers st (add_mset y B) st3 a st4 ?t v1"
      using c by auto
    have h4: "held st st4 (add_mset y (add_mset a B))" using delivers_held(1) [OF a(2)] by (simp add: add_mset_commute)
    have oy: "obj y st4 = Some (u, w)" using delivers_held(3) [OF a(2), of y] delivers_held(2) [OF r(1)] by simp
    note c = cast_ok [OF h4 oy r(2,3)]
    show ?thesis
    proof (cases "cast_nodes u (op_intype p) w")
      case None
      then show ?thesis using c E a(1) v1 by simp
    next
      case w1: (Some w1)
      then obtain b st5 where b: "u_xpath_expression_cast p (Some y) st4 = Some (True, Some b, st5)" "delivers st (add_mset a B) st4 b st5 ?u w1"
        using c by auto
      have oa: "obj a st5 = Some (?t, v1)" using delivers_held(3) [OF b(2), of a] delivers_held(2) [OF a(2)] by simp
      have h5: "held st st5 (add_mset a (add_mset b B))" using delivers_held(1) [OF b(2)] by (simp add: add_mset_commute)
      have ty: "has_type ?t v1" "has_type ?u w1" using has_type_cast l(2,3) r(2,3) v1 w1 by blast+
      have i: "op_intype p = XPATH_ANY \<or> op_intype p = ?t \<and> op_intype p = ?u"
        using p by (auto simp: op_binary_def op_intype_def cast_type_def)
      note o2 = op2_ok [OF h5 oa ty(1) _ delivers_held(2) [OF b(2)] ty(2) _ p i]
      show ?thesis
      proof (cases "meaning2 p ?t v1 ?u w1")
        case None
        then show ?thesis using o2 E a(1) b(1) v1 w1 by simp
      next
        case n: (Some n)
        then obtain z st6 where z: "op_evaluate2 p a b st5 = Some (z, st6)" "delivers st (add_mset a (add_mset b B)) st5 z st6 (op_outtype p) n"
          using o2 by auto
        obtain st7 where st7: "xpath_result_free (Some a) st6 = Some st7" "delivers st (add_mset b B) st5 z st7 (op_outtype p) n"
          using free_delivered [OF z(2)] by blast
        obtain st8 where st8: "xpath_result_free (Some b) st7 = Some st8" "delivers st B st5 z st8 (op_outtype p) n"
          using free_delivered [OF st7(2)] by blast
        have "obj k st5 = obj k st1" if "k \<in># B" for k
          using that delivers_held(3) [OF b(2)] delivers_held(3) [OF a(2)] delivers_held(3) [OF r(1)] delivers_held(3) [OF l(1)] by simp
        then have "delivers st B st1 z st8 (op_outtype p) n" using delivers_after [OF st8(2)] by simp
        moreover have "E = Some (Some z, st8)" using E a(1) b(1) z(1) st7(1) st8(1) check_ok [OF st8(2)] by simp
        ultimately show ?thesis using v1 w1 n by simp
      qed
    qed
  qed
qed

lemma outcome_typed: "case m of None \<Rightarrow> A | Some w \<Rightarrow> Q w \<Longrightarrow> k = m \<Longrightarrow> (\<And>w. k = Some w \<Longrightarrow> P w) \<Longrightarrow>
    case k of None \<Rightarrow> A | Some w \<Rightarrow> P w \<and> Q w"
  by (simp split: option.splits)

lemma typed_evaluates: "typed e \<Longrightarrow> evaluates (u_xpath_expression_eval e) (meaning e) (out e)"
proof (induction e)
  case (Enode ops el er ident v)
  obtain p where p: "ops = Some p" using Enode.prems by (auto split: option.splits)
  have o: "out (Enode ops el er ident v) = op_outtype p" by (simp add: out_def p)
  show ?case unfolding evaluates_def o
  proof (intro allI impI)
    fix st st1 B a ns
    assume h: "held st st1 B" and a: "a \<in># B" "obj a st1 = Some (XPATH_ELEMENT, ns)" "has_type XPATH_ELEMENT ns"
    let ?e = "Enode ops el er ident v"
    show "case meaning ?e ns of None \<Rightarrow> u_xpath_expression_eval ?e a st1 = None
      | Some w \<Rightarrow> has_type (op_outtype p) w \<and>
          (\<exists>x st2. u_xpath_expression_eval ?e a st1 = Some (Some x, st2) \<and> delivers st B st1 x st2 (op_outtype p) w)"
    proof (cases "op_binary p")
      case True
      then obtain l r where lr: "el = Some l" "er = Some r" "typed l" "typed r" "castable (out l) (op_intype p)" "castable (out r) (op_intype p)"
        using Enode.prems p by (auto split: option.splits)
      have m: "meaning ?e ns = do { ls \<leftarrow> meaning l ns; rs \<leftarrow> meaning r ns;
          ls1 \<leftarrow> cast_nodes (out l) (op_intype p) ls; rs1 \<leftarrow> cast_nodes (out r) (op_intype p) rs;
          meaning2 p (cast_type (out l) (op_intype p)) ls1 (cast_type (out r) (op_intype p)) rs1 }"
        using True lr by (simp add: p)
      have ev: "evaluates (u_xpath_expression_eval l) (meaning l) (out l)" "evaluates (u_xpath_expression_eval r) (meaning r) (out r)"
        using Enode.IH lr by simp_all
      note L = evaluatesD [OF ev(1) h a]
      show ?thesis
      proof (cases "meaning l ns")
        case None
        then show ?thesis using L(1) lr m True p by simp
      next
        case (Some ls)
        then obtain x st2 where x: "u_xpath_expression_eval l a st1 = Some (Some x, st2)" "delivers st B st1 x st2 (out l) ls" "has_type (out l) ls"
          using L(2) lr by auto
        have oa: "obj a st2 = Some (XPATH_ELEMENT, ns)" using delivers_held(3) [OF x(2) a(1)] a(2) by simp
        note R = evaluatesD [OF ev(2) delivers_held(1) [OF x(2)] _ oa a(3)]
        show ?thesis
        proof (cases "meaning r ns")
          case None
          then show ?thesis using R(1) lr m True p x(1) Some a(1) by simp
        next
          case rs: (Some rs)
          then obtain y st3 where y: "u_xpath_expression_eval r a st2 = Some (Some y, st3)" "delivers st (add_mset x B) st2 y st3 (out r) rs" "has_type (out r) rs"
            using R(2) lr a(1) by auto
          have "meaning2 p t u w z = Some n \<Longrightarrow> has_type (op_outtype p) n" for t u w z n using meaning2_typed True by blast
          then have ty: "meaning ?e ns = Some n \<Longrightarrow> has_type (op_outtype p) n" for n unfolding m by (auto simp: bind_eq_Some_conv)
          have "u_xpath_expression_eval ?e a st1 = do { (ok, left1, st4) \<leftarrow> u_xpath_expression_cast p (Some x) st3;
             (ok2, right1, st5) \<leftarrow> (if ok then u_xpath_expression_cast p (Some y) st4 else Some (False, Some y, st4));
             (result, st6) \<leftarrow> (case (ok2, left1, right1) of
                (True, Some x, Some y) \<Rightarrow> do { (z, sta) \<leftarrow> op_evaluate2 p x y st5; Some (Some z, sta) }
              | _ \<Rightarrow> Some (None, st5));
             st7 \<leftarrow> xpath_result_free left1 st6;
             st8 \<leftarrow> xpath_result_free right1 st7;
             check_outtype p result st8 }" using True lr x(1) y(1) by (simp add: p)
          note b = binary_ok [OF x(2) x(3) lr(5) y(2) y(3) lr(6) True this]
          have "meaning ?e ns = do { v1 \<leftarrow> cast_nodes (out l) (op_intype p) ls; w1 \<leftarrow> cast_nodes (out r) (op_intype p) rs;
             meaning2 p (cast_type (out l) (op_intype p)) v1 (cast_type (out r) (op_intype p)) w1 }" by (simp only: m Some rs Option.bind.simps)
          then show ?thesis by (rule outcome_typed [OF b _ ty])
        qed
      qed
    next
      case False
      define t where "t = (case el of None \<Rightarrow> XPATH_ELEMENT | Some l \<Rightarrow> out l)"
      define left where "left = (case el of None \<Rightarrow> Some ns | Some l \<Rightarrow> meaning l ns)"
      define ev where "ev = (case el of Some l \<Rightarrow> u_xpath_expression_eval l a st1
         | None \<Rightarrow> do { sta \<leftarrow> xpath_result_dup a st1; Some (Some a, sta) })"
      define g where "g = (\<lambda>v1. if p = Op_predicate then
           (case er of None \<Rightarrow> None | Some r \<Rightarrow> meaning_predicate (meaning r) (u_xpath_expression_constant r) v1)
         else meaning1 p ident v v1)"
      define K where "K = (\<lambda>x st2. if p = Op_predicate then
           (case er of None \<Rightarrow> None
            | Some r \<Rightarrow> u_xpath_enode_predicate_evaluate (u_xpath_expression_eval r) (u_xpath_expression_constant r) x st2)
         else op_evaluate p ident v x st2)"
      have m: "meaning ?e ns = do { v \<leftarrow> left; v1 \<leftarrow> cast_nodes t (op_intype p) v; g v1 }"
        using False by (simp add: p t_def left_def g_def)
      have c: "castable t (op_intype p)" using Enode.prems p False by (auto simp: t_def split: option.splits)
      have left: "case left of None \<Rightarrow> ev = None
        | Some w \<Rightarrow> has_type t w \<and> (\<exists>x st2. ev = Some (Some x, st2) \<and> delivers st B st1 x st2 t w)"
      proof (cases el)
        case None
        then show ?thesis using dup_delivers [OF h a(2)] a(3) by (auto simp: left_def ev_def t_def)
      next
        case (Some l)
        have "typed l" using Enode.prems p False Some by auto
        then have "evaluates (u_xpath_expression_eval l) (meaning l) (out l)" using Enode.IH(1) [of l] Some by simp
        moreover have "left = meaning l ns" "ev = u_xpath_expression_eval l a st1" "t = out l" by (simp_all add: left_def ev_def t_def Some)
        ultimately show ?thesis using h a unfolding evaluates_def by blast
      qed
      show ?thesis
      proof (cases left)
        case None
        then show ?thesis using left m False by (simp add: p ev_def)
      next
        case (Some w)
        then obtain x st2 where x: "ev = Some (Some x, st2)" "delivers st B st1 x st2 t w" "has_type t w" using left by auto
        let ?u = "cast_type t (op_intype p)"
        have step: "case g v1 of None \<Rightarrow> K y st3 = None
          | Some w \<Rightarrow> \<exists>z st4. K y st3 = Some (Some z, st4) \<and> delivers st (add_mset y B) st3 z st4 (op_outtype p) w"
          if d: "delivers st B st1 y st3 ?u v1" and ty: "has_type ?u v1" for y st3 v1
        proof (cases "p = Op_predicate")
          case True
          then obtain r where r: "er = Some r" "typed r" "\<not> (u_xpath_expression_constant r = Some True \<and> out r = XPATH_BOOLEAN)"
            using Enode.prems p False by (auto split: option.splits)
          have u: "?u = XPATH_ELEMENT" "op_outtype p = XPATH_ELEMENT" using True by (simp_all add: cast_type_def op_intype_def op_outtype_def)
          obtain cc where cc: "u_xpath_expression_constant r = Some cc" using constant_typed [OF r(2)] by blast
          have "evaluates (u_xpath_expression_eval r) (meaning r) (out r)" using Enode.IH(2) [of r] r(1,2) by simp
          from predicate_ok [OF this delivers_held(1) [OF d] _ _ _ cc, of y v1] r(3) cc delivers_held(2) [OF d] ty
          have "case meaning_predicate (meaning r) (u_xpath_expression_constant r) v1 of
              None \<Rightarrow> u_xpath_enode_predicate_evaluate (u_xpath_expression_eval r) (u_xpath_expression_constant r) y st3 = None
            | Some w \<Rightarrow> \<exists>z st4. u_xpath_enode_predicate_evaluate (u_xpath_expression_eval r) (u_xpath_expression_constant r) y st3 = Some (Some z, st4)
                \<and> delivers st (add_mset y B) st3 z st4 XPATH_ELEMENT w" unfolding u by auto
          moreover have "g v1 = meaning_predicate (meaning r) (u_xpath_expression_constant r) v1"
            "K y st3 = u_xpath_enode_predicate_evaluate (u_xpath_expression_eval r) (u_xpath_expression_constant r) y st3"
            by (simp_all add: g_def K_def True r(1))
          ultimately show ?thesis unfolding u(2) by (simp only:)
        next
          case pr: False
          have i: "op_intype p = XPATH_VOID \<or> op_intype p = ?u" using False pr by (cases p) (simp_all add: op_binary_def op_intype_def cast_type_def)
          have s: "p = Op_stringconst \<longrightarrow> ident \<noteq> None" using Enode.prems p False by (simp split: option.splits)
          have "g v1 = meaning1 p ident v v1" "K y st3 = op_evaluate p ident v y st3" by (simp_all add: g_def K_def pr)
          moreover note op1_ok [OF delivers_held(1) [OF d] _ delivers_held(2) [OF d] ty i False pr s, of v]
          ultimately show ?thesis by (simp only: union_single_eq_member)
        qed
        have E: "u_xpath_expression_eval ?e a st1 = do { (ok, left1, st3) \<leftarrow> u_xpath_expression_cast p (Some x) st2;
           (result, st4) \<leftarrow> (case (ok, left1) of (True, Some y) \<Rightarrow> K y st3 | _ \<Rightarrow> Some (None, st3));
           st5 \<leftarrow> xpath_result_free left1 st4;
           check_outtype p result st5 }" using False x(1) unfolding K_def ev_def by (simp add: p)
        have ty: "has_type (op_outtype p) n" if n: "meaning ?e ns = Some n" for n
        proof -
          obtain v1 where v1: "cast_nodes t (op_intype p) w = Some v1" "g v1 = Some n" using n unfolding m Some by (auto simp: bind_eq_Some_conv)
          have t1: "has_type ?u v1" using has_type_cast [OF x(3) c v1(1)] .
          show ?thesis
          proof (cases "p = Op_predicate")
            case True
            then show ?thesis using v1(2) t1 meaning_predicate_typed
              by (auto simp: g_def cast_type_def op_intype_def op_outtype_def split: option.splits)
          next
            case False
            have "meaning1 p ident v v1 = Some n" using v1(2) False by (simp add: g_def)
            then show ?thesis by (rule meaning1_typed) (use t1 in \<open>auto simp: cast_type_def\<close>)
          qed
        qed
        have "meaning ?e ns = do { v1 \<leftarrow> cast_nodes t (op_intype p) w; g v1 }" by (simp only: m Some Option.bind.simps)
        then show ?thesis by (rule outcome_typed [rotated, OF _ ty]) (assumption, rule unary_ok [OF x(2,3) c step E])
      qed
    qed
  qed
qed

text \<open>C39: evaluating a typed expression at an element of a document either stops where the meaning of the
  expression is a fault, or returns a result of the static type of the expression with the nodes of its meaning:
  the only new reference is that of the result, every object there was keeps its references and nodes.\<close>

theorem xpath_eval_sound:
  assumes "typed e" "store_ok st"
  shows "case meaning e [XN_element xn] of
      None \<Rightarrow> xpath_expression_eval e xn st = None
    | Some w \<Rightarrow> has_type (out e) w \<and>
        (\<exists>x st2. xpath_expression_eval e xn st = Some (Some x, st2) \<and> held st st2 {#x#} \<and> obj x st2 = Some (out e, w))"
proof -
  obtain i st1 where new: "xpath_result_new XPATH_ELEMENT st = (i, st1)" by fastforce
  note d = build_delivers [OF held_refl [OF assms(2)] new]
  define st2 where "st2 = push i [XN_element xn] st1"
  have d2: "delivers st {#} st i st2 XPATH_ELEMENT [XN_element xn]" using d(2) by (simp add: st2_def)
  have app: "xpath_result_append_element i xn st1 = Some st2" using d(1) by (simp add: append_defs append_push st2_def)
  note E = evaluatesD [OF typed_evaluates [OF assms(1)] delivers_held(1) [OF d2] _ delivers_held(2) [OF d2]]
  have eval: "xpath_expression_eval e xn st = do {
      (result, st3) \<leftarrow> u_xpath_expression_eval e i st2; st4 \<leftarrow> xpath_result_free (Some i) st3; Some (result, st4) }"
    using new app by (simp add: xpath_expression_eval_def)
  show ?thesis
  proof (cases "meaning e [XN_element xn]")
    case None
    then show ?thesis using E(1) eval by (simp add: has_type_def)
  next
    case (Some w)
    then obtain x st3 where x: "has_type (out e) w" "u_xpath_expression_eval e i st2 = Some (Some x, st3)"
        "delivers st {#i#} st2 x st3 (out e) w" using E(2) by (auto simp: has_type_def)
    obtain st4 where st4: "xpath_result_free (Some i) st3 = Some st4" "delivers st {#} st2 x st4 (out e) w"
      using free_delivered [OF x(3)] by blast
    have "xpath_expression_eval e xn st = Some (Some x, st4)" using eval x(2) st4(1) by simp
    then show ?thesis using Some x(1) delivers_held(1,2) [OF st4(2)] by auto
  qed
qed

definition no_results :: xpath_store where
  "no_results = \<lparr>xs_results = (\<lambda>_. None), xs_next = 0\<rparr>"

definition sample_list :: xml_node where
  "sample_list = Xml_node (Some ''list'') None []
     [Xml_node (Some ''item'') (Some ''one'') [] [] None, Xml_node (Some ''note'') None [] [] None,
      Xml_node (Some ''item'') (Some ''two'') [] [] None] None"

text \<open>\<open>item[1 + 1]\<close>\<close>

definition sample_subscript :: xpath_enode where
  "sample_subscript = Enode (Some Op_predicate)
     (Some (Enode (Some Op_child) (Some (xpath_enode_new (Some Op_node))) None (Some ''item'') 0))
     (Some (Enode (Some Op_add) (Some (Enode (Some Op_intconst) None None None 1)) (Some (Enode (Some Op_intconst) None None None 1)) None 0)) None 0"

theorem xpath_eval_sound_witness:
  "\<exists>x st2. xpath_expression_eval sample_subscript sample_list no_results = Some (Some x, st2)
     \<and> obj x st2 = Some (XPATH_ELEMENT, [XN_element (Xml_node (Some ''item'') (Some ''two'') [] [] None)])"
proof -
  have t: "typed sample_subscript" by code_simp
  have s: "store_ok no_results" by (simp add: store_ok_def no_results_def rget_def)
  have m: "meaning sample_subscript [XN_element sample_list] = Some [XN_element (Xml_node (Some ''item'') (Some ''two'') [] [] None)]" by code_simp
  have o: "out sample_subscript = XPATH_ELEMENT" by code_simp
  show ?thesis using xpath_eval_sound [OF t s, of sample_list] by (auto simp: m o)
qed

section \<open>What is not sound\<close>

text \<open>Both characters are never taken together: \<open><\<close> and \<open>>\<close> are tested before \<open><=\<close> and \<open>>=\<close>.\<close>

lemma comparison_never_le: "xpath_get_comparison_ops pos = Some (p, q) \<Longrightarrow> p \<noteq> Op_le \<and> p \<noteq> Op_ge"
  by (cases pos) (auto simp: xpath_get_comparison_ops_def split: if_splits)

text \<open>A predicate that is constant and true gives its operand without a reference for the caller.\<close>

lemma predicate_true_faults:
  "do { tree \<leftarrow> xpath_expression_parse (Some ''item[true]''); e \<leftarrow> tree; Some (map_option fst (xpath_expression_eval e sample_list no_results)) } = Some None"
  by code_simp

text \<open>The constant is recognised without regard to case, its operator is not.\<close>

lemma constant_case_faults:
  "do { tree \<leftarrow> xpath_expression_parse (Some ''TRUE''); e \<leftarrow> tree; Some (en_ops e, map_option fst (xpath_expression_eval e sample_list no_results)) } = Some (None, None)"
  by code_simp

lemma infix_case_rejected: "xpath_expression_parse (Some ''true AND true'') = Some None"
  by code_simp

text \<open>False is the empty list of nodes, and no member of it is equal to another.\<close>

lemma false_not_equal: "\<not> meaning_compare p XPATH_BOOLEAN (bool_nodes False) XPATH_BOOLEAN rs"
  by (simp add: meaning_compare_def bool_nodes_def)

text \<open>Strings say nothing of the elements of a predicate: \<open>item[@name]\<close> selects no element.\<close>

lemma subscript_strings: "has_type XPATH_STRING r \<Longrightarrow> subscript m x r = []"
  by (induction r) (auto simp: has_type_def)

text \<open>White space is skipped in front of a token only, behind the last one it makes the parse fail.\<close>

lemma trailing_space_rejected: "xpath_expression_parse (Some ''last() '') = Some None"
  by code_simp

end
