(* ===== verification/Proxy.thy ===== *)
theory Proxy
  imports Buffer
begin

text \<open>
  The DBus proxy, proxy/main.c: endpoints, their write queues and receive credits, and the frames of
  the multiplexed connection.  Endpoints live in a store indexed by an identity (their address in C);
  a missing entry is memory that has been freed, and following a pointer to it is a fault.  The
  singly linked lists of endpoints and of queued buffers are lists.

  What the operating system answers comes in from outside: \<open>os_newfd\<close> gives the descriptor
  \<open>socket()\<close> or \<open>open()\<close> returns for the endpoint being made, \<open>os_connect\<close> whether its
  \<open>connect()\<close> succeeds, and the reads and writes of a handler are its arguments.  What the proxy
  asks of the system is appended to \<open>px_log\<close>.
\<close>

section \<open>State\<close>

datatype io_endpoint_type = IO_ENDPOINT_TYPE_NONE | IO_ENDPOINT_TYPE_SIMPLEX | IO_ENDPOINT_TYPE_MULTIPLEX

text \<open>The two transports of a proxy; \<open>xprt->other\<close> is the opposite one.\<close>

datatype side = Upstream | Downstream

fun other_side :: "side \<Rightarrow> side" where
  "other_side Upstream = Downstream"
| "other_side Downstream = Upstream"

type_synonym ep_ref = nat

record io_mbuf =
  mb_source :: "ep_ref option"
  mb_buffer :: "ni_buffer option"
  mb_credit :: u32

record io_endpoint =
  ep_type :: io_endpoint_type
  ep_transport :: side
  ep_sink :: "ep_ref option"
  ep_channel_id :: u32
  ep_rfd :: int
  ep_wfd :: int
  ep_rx_credit :: u32
  ep_rbuf :: "ni_buffer option"
  ep_wbuf :: "ni_buffer option"
  ep_wqueue :: "io_mbuf list"
  ep_shutdown_write :: bool
  ep_connected :: bool

text \<open>The three transport operation tables (unix, serial, stdio) and the three receive handlers a
  transport's \<open>data_available\<close> can point to.\<close>

datatype io_transport_ops = io_unix_transport_ops | io_serial_transport_ops | io_stdio_transport_ops

datatype recv_fn = proxy_recv_copy_fn | proxy_recv_mux_fn | proxy_recv_demux_fn

record io_transport =
  xp_ops :: "io_transport_ops option"
  xp_data_available :: "recv_fn option"
  xp_type :: io_endpoint_type
  xp_multiplex :: "ep_ref option"
  xp_ep_list :: "ep_ref list"
  xp_garbage_list :: "ep_ref list"
  xp_address :: "cstring option"
  xp_listen_fd :: int
  xp_fork_on_accept :: bool
  xp_next_channel_id :: u32

datatype shut_how = SHUT_RD | SHUT_WR | SHUT_RDWR

datatype os_event =
    OsShutdown int shut_how
  | OsClose int
  | OsWrite int "byte list"
  | OsConnect int

record os_env =
  os_newfd :: "ep_ref \<Rightarrow> int"
  os_connect :: "ep_ref \<Rightarrow> bool"

record proxy =
  px_eps :: "ep_ref \<Rightarrow> io_endpoint option"
  px_fresh :: ep_ref
  px_up :: io_transport
  px_down :: io_transport
  px_os :: os_env
  px_log :: "os_event list"

definition CHANNEL_ID_NONE :: u32 where "CHANNEL_ID_NONE = 0"
definition DEFAULT_CREDIT_SIMPLEX :: u32 where "DEFAULT_CREDIT_SIMPLEX = 8192"
definition DEFAULT_CREDIT_MULTIPLEX :: u32 where "DEFAULT_CREDIT_MULTIPLEX = 16 * DEFAULT_CREDIT_SIMPLEX"

definition CHANNEL_OPEN :: u32 where "CHANNEL_OPEN = 0"
definition CHANNEL_CLOSE :: u32 where "CHANNEL_CLOSE = 1"
definition CHANNEL_DATA :: u32 where "CHANNEL_DATA = 2"

subsection \<open>Access to the state\<close>

fun px_transport :: "proxy \<Rightarrow> side \<Rightarrow> io_transport" where
  "px_transport px Upstream = px_up px"
| "px_transport px Downstream = px_down px"

fun set_transport :: "side \<Rightarrow> io_transport \<Rightarrow> proxy \<Rightarrow> proxy" where
  "set_transport Upstream x px = px\<lparr>px_up := x\<rparr>"
| "set_transport Downstream x px = px\<lparr>px_down := x\<rparr>"

definition set_ep :: "ep_ref \<Rightarrow> io_endpoint \<Rightarrow> proxy \<Rightarrow> proxy" where
  "set_ep i ep px = px\<lparr>px_eps := (px_eps px)(i := Some ep)\<rparr>"

definition os_log :: "os_event list \<Rightarrow> proxy \<Rightarrow> proxy" where
  "os_log es px = px\<lparr>px_log := px_log px @ es\<rparr>"

lemma set_ep_sel [simp]:
  "px_eps (set_ep i ep px) = (px_eps px)(i \<mapsto> ep)"
  "px_up (set_ep i ep px) = px_up px" "px_down (set_ep i ep px) = px_down px"
  "px_fresh (set_ep i ep px) = px_fresh px" "px_os (set_ep i ep px) = px_os px"
  "px_log (set_ep i ep px) = px_log px"
  "px_transport (set_ep i ep px) s = px_transport px s"
  by (cases s; simp add: set_ep_def)+

lemma os_log_sel [simp]:
  "px_eps (os_log es px) = px_eps px" "px_up (os_log es px) = px_up px"
  "px_down (os_log es px) = px_down px" "px_fresh (os_log es px) = px_fresh px"
  "px_os (os_log es px) = px_os px" "px_log (os_log es px) = px_log px @ es"
  "px_transport (os_log es px) s = px_transport px s"
  by (cases s; simp add: os_log_def)+

lemma set_transport_sel [simp]:
  "px_eps (set_transport s x px) = px_eps px" "px_fresh (set_transport s x px) = px_fresh px"
  "px_os (set_transport s x px) = px_os px" "px_log (set_transport s x px) = px_log px"
  "px_transport (set_transport s x px) s' = (if s' = s then x else px_transport px s')"
  by (cases s; cases s'; simp)+

section \<open>Queued buffers\<close>

definition io_mbuf_wrap :: "ni_buffer \<Rightarrow> ep_ref option \<Rightarrow> io_mbuf" where
  "io_mbuf_wrap bp ep = \<lparr>mb_source = ep, mb_buffer = Some bp, mb_credit = ni_buffer_count bp\<rparr>"

text \<open>Taking the buffer out gives its credit back to the endpoint the data came from.\<close>

definition io_mbuf_take_buffer :: "proxy \<Rightarrow> io_mbuf \<Rightarrow> (ni_buffer option \<times> io_mbuf \<times> proxy) option" where
  "io_mbuf_take_buffer px mbuf =
     (case mb_buffer mbuf of
        None \<Rightarrow> Some (None, mbuf, px)
      | Some bp \<Rightarrow> do {
          px' \<leftarrow> (case mb_source mbuf of
               None \<Rightarrow> Some px
             | Some s \<Rightarrow> do { source \<leftarrow> px_eps px s;
                 Some (set_ep s (source\<lparr>ep_rx_credit := ep_rx_credit source + mb_credit mbuf\<rparr>) px) });
          Some (Some bp, mbuf\<lparr>mb_buffer := None\<rparr>, px')
        })"

definition io_mbuf_free :: "proxy \<Rightarrow> io_mbuf \<Rightarrow> proxy option" where
  "io_mbuf_free px mbuf = do { (bp, mbuf', px') \<leftarrow> io_mbuf_take_buffer px mbuf; Some px' }"

section \<open>Endpoint lists\<close>

datatype ep_list_id = EpList | GarbageList

definition io_endpoint_link :: "ep_ref \<Rightarrow> side \<Rightarrow> ep_list_id \<Rightarrow> proxy \<Rightarrow> proxy" where
  "io_endpoint_link ep s l px =
     (let x = px_transport px s in
      case l of
        EpList \<Rightarrow> set_transport s (x\<lparr>xp_ep_list := xp_ep_list x @ [ep]\<rparr>) px
      | GarbageList \<Rightarrow> set_transport s (x\<lparr>xp_garbage_list := xp_garbage_list x @ [ep]\<rparr>) px)"

text \<open>An endpoint is on at most one of its transport's lists (\<open>ep->prevp\<close>), or is its multiplex
  endpoint, which is never on a list.\<close>

definition io_endpoint_unlink :: "ep_ref \<Rightarrow> proxy \<Rightarrow> proxy option" where
  "io_endpoint_unlink i px = do {
     ep \<leftarrow> px_eps px i;
     let s = ep_transport ep;
     let x = px_transport px s;
     Some (if xp_multiplex x = Some i then set_transport s (x\<lparr>xp_multiplex := None\<rparr>) px
           else set_transport s (x\<lparr>xp_ep_list := remove1 i (xp_ep_list x),
                                  xp_garbage_list := remove1 i (xp_garbage_list x)\<rparr>) px)
   }"

section \<open>Writing to an endpoint\<close>

definition io_endpoint_socket_delayed_connect :: "ep_ref \<Rightarrow> proxy \<Rightarrow> (bool \<times> proxy) option" where
  "io_endpoint_socket_delayed_connect i px = do {
     ep \<leftarrow> px_eps px i;
     Some (if os_connect (px_os px) i
           then (True, os_log [OsConnect (ep_wfd ep)] (set_ep i (ep\<lparr>ep_connected := True\<rparr>) px))
           else (False, px))
   }"

text \<open>Only the unix transport has a \<open>delayed_connector\<close>.\<close>

definition io_transport_connect_finish :: "side \<Rightarrow> ep_ref \<Rightarrow> proxy \<Rightarrow> (bool \<times> proxy) option" where
  "io_transport_connect_finish s i px = do {
     ep \<leftarrow> px_eps px i;
     (if ep_connected ep then Some (False, px)
      else do {
        ni_assert (xp_ops (px_transport px s) = Some io_unix_transport_ops);
        (ok, px1) \<leftarrow> io_endpoint_socket_delayed_connect i px;
        (if \<not> ok then Some (False, px1)
         else do { ep1 \<leftarrow> px_eps px1 i; Some (True, set_ep i (ep1\<lparr>ep_connected := True\<rparr>) px1) })
      })
   }"

text \<open>Queueing takes the credit of the data away from its source; a sink that was set up without
  being connected is connected now, and the program ends when that fails.\<close>

definition io_endpoint_queue_write :: "ep_ref \<Rightarrow> io_mbuf \<Rightarrow> proxy \<Rightarrow> proxy option" where
  "io_endpoint_queue_write i mbuf px = do {
     sink \<leftarrow> px_eps px i;
     px1 \<leftarrow> (if ep_connected sink then Some px
            else do { (ok, px') \<leftarrow> io_transport_connect_finish (ep_transport sink) i px;
                      (if ok then Some px' else None) });
     px2 \<leftarrow> (case mb_source mbuf of
          None \<Rightarrow> Some px1
        | Some s \<Rightarrow> do {
            source \<leftarrow> px_eps px1 s;
            ni_assert (mb_credit mbuf \<le> ep_rx_credit source);
            Some (set_ep s (source\<lparr>ep_rx_credit := ep_rx_credit source - mb_credit mbuf\<rparr>) px1) });
     sink' \<leftarrow> px_eps px2 i;
     Some (set_ep i (sink'\<lparr>ep_wqueue := ep_wqueue sink' @ [mbuf]\<rparr>) px2)
   }"

text \<open>The buffer being written, taken from the head of the queue when there is none.\<close>

definition io_endpoint_pullup :: "ep_ref \<Rightarrow> proxy \<Rightarrow> (ni_buffer option \<times> proxy) option" where
  "io_endpoint_pullup i px = do {
     ep \<leftarrow> px_eps px i;
     (case ep_wbuf ep of
        Some b \<Rightarrow> do { ni_assert (ni_buffer_count b \<noteq> 0); Some (Some b, px) }
      | None \<Rightarrow>
          (case ep_wqueue ep of
             [] \<Rightarrow> Some (None, px)
           | mbuf # rest \<Rightarrow> do {
               (b, mbuf', px1) \<leftarrow> io_mbuf_take_buffer px mbuf;
               ep1 \<leftarrow> px_eps px1 i;
               let px2 = set_ep i (ep1\<lparr>ep_wbuf := b, ep_wqueue := rest\<rparr>) px1;
               px3 \<leftarrow> io_mbuf_free px2 mbuf';
               Some (b, px3) }))
   }"

text \<open>\<open>while (ep->wqueue != NULL)\<close>: unlink the first buffer, free it.\<close>

fun discard_wqueue :: "ep_ref \<Rightarrow> nat \<Rightarrow> proxy \<Rightarrow> proxy option" where
  "discard_wqueue i 0 px = Some px"
| "discard_wqueue i (Suc n) px = do {
     ep \<leftarrow> px_eps px i;
     (case ep_wqueue ep of
        [] \<Rightarrow> Some px
      | mbuf # rest \<Rightarrow> do {
          px1 \<leftarrow> io_mbuf_free (set_ep i (ep\<lparr>ep_wqueue := rest\<rparr>) px) mbuf;
          discard_wqueue i n px1 })
   }"

definition io_endpoint_write_queue_discard :: "ep_ref \<Rightarrow> proxy \<Rightarrow> proxy option" where
  "io_endpoint_write_queue_discard i px = do {
     ep \<leftarrow> px_eps px i;
     discard_wqueue i (length (ep_wqueue ep)) (set_ep i (ep\<lparr>ep_wbuf := None\<rparr>) px)
   }"

section \<open>Closing an endpoint\<close>

text \<open>The read half: \<open>shutdown(fd, SHUT_RD)\<close>, and \<open>close\<close> unless the write half shares the
  descriptor.\<close>

definition shutdown_read_half :: "ep_ref \<Rightarrow> shut_how \<Rightarrow> proxy \<Rightarrow> proxy option" where
  "shutdown_read_half i how px = do {
     ep \<leftarrow> px_eps px i;
     Some (if 0 \<le> ep_rfd ep \<and> (how = SHUT_RD \<or> how = SHUT_RDWR)
           then os_log (OsShutdown (ep_rfd ep) SHUT_RD
                        # (if ep_rfd ep \<noteq> ep_wfd ep then [OsClose (ep_rfd ep)] else []))
                  (set_ep i (ep\<lparr>ep_rfd := -1\<rparr>) px)
           else px)
   }"

text \<open>The write half drops what is still to be written.\<close>

definition shutdown_write_half :: "ep_ref \<Rightarrow> shut_how \<Rightarrow> proxy \<Rightarrow> proxy option" where
  "shutdown_write_half i how px = do {
     ep \<leftarrow> px_eps px i;
     (if 0 \<le> ep_wfd ep \<and> (how = SHUT_WR \<or> how = SHUT_RDWR)
      then do {
        (b, px1) \<leftarrow> io_endpoint_pullup i px;
        px2 \<leftarrow> (if b \<noteq> None then io_endpoint_write_queue_discard i px1 else Some px1);
        ep2 \<leftarrow> px_eps px2 i;
        Some (os_log (OsShutdown (ep_wfd ep2) SHUT_WR
                      # (if ep_rfd ep2 \<noteq> ep_wfd ep2 then [OsClose (ep_wfd ep2)] else []))
                (set_ep i (ep2\<lparr>ep_wfd := -1\<rparr>) px2)) }
      else Some px)
   }"

definition io_endpoint_shutdown :: "ep_ref \<Rightarrow> shut_how \<Rightarrow> proxy \<Rightarrow> proxy option" where
  "io_endpoint_shutdown i how px = do {
     px1 \<leftarrow> shutdown_read_half i how px;
     px2 \<leftarrow> shutdown_write_half i how px1;
     ep2 \<leftarrow> px_eps px2 i;
     (if ep_rfd ep2 < 0 \<and> ep_wfd ep2 < 0
      then do { px3 \<leftarrow> io_endpoint_unlink i px2;
                Some (io_endpoint_link i (ep_transport ep2) GarbageList px3) }
      else Some px2)
   }"

definition io_endpoint_halfclose :: "ep_ref \<Rightarrow> proxy \<Rightarrow> proxy option" where
  "io_endpoint_halfclose i px = do {
     ep \<leftarrow> px_eps px i;
     (b, px1) \<leftarrow> io_endpoint_pullup i (set_ep i (ep\<lparr>ep_shutdown_write := True\<rparr>) px);
     io_endpoint_shutdown i (if b = None then SHUT_RDWR else SHUT_RD) px1
   }"

text \<open>Freeing an endpoint returns the credit of what it still had queued.  The buffers that other
  endpoints have queued from it keep their \<open>source\<close> pointer.\<close>

definition io_endpoint_free :: "ep_ref \<Rightarrow> proxy \<Rightarrow> proxy option" where
  "io_endpoint_free i px = do {
     ep \<leftarrow> px_eps px i;
     px1 \<leftarrow> io_endpoint_write_queue_discard i (set_ep i (ep\<lparr>ep_rbuf := None\<rparr>) px);
     px2 \<leftarrow> (case ep_sink ep of
          None \<Rightarrow> Some px1
        | Some k \<Rightarrow> do {
            sink \<leftarrow> px_eps px1 k;
            (if ep_sink sink = Some i
             then do { pxa \<leftarrow> io_endpoint_shutdown k SHUT_RDWR px1;
                       sink' \<leftarrow> px_eps pxa k;
                       Some (set_ep k (sink'\<lparr>ep_sink := None\<rparr>) pxa) }
             else Some px1) });
     px3 \<leftarrow> io_endpoint_unlink i px2;
     Some (px3\<lparr>px_eps := (px_eps px3)(i := None)\<rparr>)
   }"

section \<open>Making endpoints\<close>

text \<open>A new endpoint gets the next free identity; a channel ID above the transport's counter moves the
  counter past it.\<close>

definition io_endpoint_new :: "side \<Rightarrow> u32 \<Rightarrow> int \<Rightarrow> int \<Rightarrow> bool \<Rightarrow> proxy \<Rightarrow> ep_ref \<times> proxy" where
  "io_endpoint_new s channel_id rfd wfd connected px =
     (let x = px_transport px s;
          i = px_fresh px;
          ep = \<lparr>ep_type = xp_type x, ep_transport = s, ep_sink = None, ep_channel_id = channel_id,
                ep_rfd = rfd, ep_wfd = wfd,
                ep_rx_credit = (if xp_type x = IO_ENDPOINT_TYPE_SIMPLEX then DEFAULT_CREDIT_SIMPLEX
                                else DEFAULT_CREDIT_MULTIPLEX),
                ep_rbuf = None, ep_wbuf = None, ep_wqueue = [], ep_shutdown_write = False,
                ep_connected = connected\<rparr>;
          px1 = set_ep i ep (px\<lparr>px_fresh := Suc i\<rparr>)
      in (i, if xp_next_channel_id x < channel_id
             then set_transport s (x\<lparr>xp_next_channel_id := channel_id + 1\<rparr>) px1
             else px1))"

definition io_endpoint_pipe_new :: "side \<Rightarrow> u32 \<Rightarrow> proxy \<Rightarrow> (ep_ref option \<times> proxy) option" where
  "io_endpoint_pipe_new s channel_id px =
     (let fd = os_newfd (px_os px) (px_fresh px) in
      if xp_address (px_transport px s) \<noteq> None \<and> fd < 0 then Some (None, px)
      else let (i, px1) = (if xp_address (px_transport px s) \<noteq> None
                           then io_endpoint_new s channel_id fd fd True px
                           else io_endpoint_new s channel_id 0 1 True px) in
        do { ep \<leftarrow> px_eps px1 i;
             Some (Some i, set_ep i (ep\<lparr>ep_type := IO_ENDPOINT_TYPE_MULTIPLEX\<rparr>) px1) })"

definition io_endpoint_socket_new :: "side \<Rightarrow> u32 \<Rightarrow> proxy \<Rightarrow> (ep_ref option \<times> proxy) option" where
  "io_endpoint_socket_new s channel_id px =
     (let fd = os_newfd (px_os px) (px_fresh px) in
      if fd < 0 then None
      else let (i, px1) = io_endpoint_new s channel_id fd fd False px in Some (Some i, px1))"

definition io_endpoint_serial_new :: "side \<Rightarrow> u32 \<Rightarrow> proxy \<Rightarrow> (ep_ref option \<times> proxy) option" where
  "io_endpoint_serial_new s channel_id px =
     (let fd = os_newfd (px_os px) (px_fresh px) in
      if fd < 0 then None
      else let (i, px1) = io_endpoint_new s channel_id fd fd True px in Some (Some i, px1))"

fun connector :: "io_transport_ops \<Rightarrow> side \<Rightarrow> u32 \<Rightarrow> proxy \<Rightarrow> (ep_ref option \<times> proxy) option" where
  "connector io_unix_transport_ops = io_endpoint_socket_new"
| "connector io_serial_transport_ops = io_endpoint_serial_new"
| "connector io_stdio_transport_ops = io_endpoint_pipe_new"

text \<open>\<open>io_transport_connect\<close> uses channel 0, the demultiplexer the channel of the OPEN frame.\<close>

definition u_io_transport_connect :: "side \<Rightarrow> u32 \<Rightarrow> bool \<Rightarrow> proxy \<Rightarrow> (ep_ref option \<times> proxy) option" where
  "u_io_transport_connect s channel_id now px = do {
     ops \<leftarrow> xp_ops (px_transport px s);
     (r, px1) \<leftarrow> connector ops s channel_id px;
     (case r of
        None \<Rightarrow> Some (None, px1)
      | Some i \<Rightarrow> do {
          ep \<leftarrow> px_eps px1 i;
          let px2 = set_ep i (ep\<lparr>ep_type := xp_type (px_transport px1 s)\<rparr>) px1;
          (if \<not> ep_connected ep \<and> now
           then do { (ok, px3) \<leftarrow> io_transport_connect_finish s i px2;
                     (if ok then Some (Some i, px3)
                      else do { px4 \<leftarrow> io_endpoint_free i px3; Some (None, px4) }) }
           else Some (Some i, px2)) })
   }"

definition io_transport_connect :: "side \<Rightarrow> bool \<Rightarrow> proxy \<Rightarrow> (ep_ref option \<times> proxy) option" where
  "io_transport_connect s now px = u_io_transport_connect s CHANNEL_ID_NONE now px"

section \<open>Frames of the multiplexed connection\<close>

definition DATA_HEADER_SIZE :: nat where "DATA_HEADER_SIZE = 12"

text \<open>\<open>htonl\<close> into and \<open>ntohl\<close> out of four bytes of memory.\<close>

definition htonl :: "u32 \<Rightarrow> byte list" where
  "htonl x = [ucast (drop_bit 24 x), ucast (drop_bit 16 x), ucast (drop_bit 8 x), ucast x]"

definition ntohl :: "byte list \<Rightarrow> u32" where
  "ntohl bs = push_bit 24 (ucast (bs ! 0)) OR push_bit 16 (ucast (bs ! 1))
                OR push_bit 8 (ucast (bs ! 2)) OR ucast (bs ! 3)"

definition header_bytes :: "u32 \<Rightarrow> u32 \<Rightarrow> u32 \<Rightarrow> byte list" where
  "header_bytes cmd channel cnt = htonl cmd @ htonl channel @ htonl cnt"

definition header_cmd :: "byte list \<Rightarrow> u32" where "header_cmd h = ntohl h"
definition header_channel :: "byte list \<Rightarrow> u32" where "header_channel h = ntohl (drop 4 h)"
definition header_count :: "byte list \<Rightarrow> u32" where "header_count h = ntohl (drop 8 h)"

definition proxy_command_new :: "u32 \<Rightarrow> u32 \<Rightarrow> u32 \<Rightarrow> io_mbuf option" where
  "proxy_command_new cmd channel_id cnt =
     (case ni_buffer_push_tail (ni_buffer_new (of_nat DATA_HEADER_SIZE + ucast cnt)) (of_nat DATA_HEADER_SIZE) of
        (None, bp) \<Rightarrow> None
      | (Some off, bp) \<Rightarrow> do {
          base \<leftarrow> mem_write (buf_base bp) off (header_bytes cmd channel_id cnt);
          Some (io_mbuf_wrap (bp\<lparr>buf_base := base\<rparr>) None) })"

definition proxy_channel_open_new :: "u32 \<Rightarrow> io_mbuf option" where
  "proxy_channel_open_new channel_id = proxy_command_new CHANNEL_OPEN channel_id 0"

definition proxy_channel_close_new :: "u32 \<Rightarrow> io_mbuf option" where
  "proxy_channel_close_new channel_id = proxy_command_new CHANNEL_CLOSE channel_id 0"

section \<open>Receiving\<close>

text \<open>
  The answers \<open>read()\<close> gives are a script, consumed call by call: some bytes (a call that asks for
  fewer leaves the rest for the next one), end of file, or an error, which is also what an exhausted
  script gives (nothing to read, \<open>EAGAIN\<close>).
\<close>

datatype os_read = Data "byte list" | Eof | ReadError

datatype read_result = ReadSome "byte list" | ReadEof | ReadFailed

fun os_do_read :: "os_read list \<Rightarrow> nat \<Rightarrow> read_result \<times> os_read list" where
  "os_do_read [] n = (ReadFailed, [])"
| "os_do_read (Data bs # rs) n =
     (if n = 0 then (ReadEof, Data bs # rs)
      else if bs = [] then (ReadEof, rs)
      else if length bs \<le> n then (ReadSome bs, rs)
      else (ReadSome (take n bs), Data (drop n bs) # rs))"
| "os_do_read (Eof # rs) n = (ReadEof, Eof # rs)"
| "os_do_read (ReadError # rs) n = (ReadFailed, rs)"

text \<open>\<open>fcntl(fd, FIONREAD, &rcount)\<close>: \<open>fionread\<close> is the count, \<^const>\<open>None\<close> when the call fails.\<close>

definition proxy_recv_bufsiz :: "u32 option \<Rightarrow> io_endpoint \<Rightarrow> u32 option" where
  "proxy_recv_bufsiz fionread ep = do {
     ni_assert (ep_rx_credit ep \<noteq> 0);
     let rcount = (case fionread of None \<Rightarrow> 4096 | Some n \<Rightarrow> n);
     Some (if ep_rx_credit ep < rcount then ep_rx_credit ep else rcount)
   }"

text \<open>The first endpoint on the transport's list with that channel.\<close>

fun find_channel :: "(ep_ref \<Rightarrow> io_endpoint option) \<Rightarrow> u32 \<Rightarrow> ep_ref list \<Rightarrow> ep_ref option option" where
  "find_channel eps channel_id [] = Some None"
| "find_channel eps channel_id (i # is) = do {
     ep \<leftarrow> eps i;
     (if ep_channel_id ep = channel_id then Some (Some i) else find_channel eps channel_id is) }"

definition proxy_channel_by_id :: "side \<Rightarrow> u32 \<Rightarrow> proxy \<Rightarrow> ep_ref option option" where
  "proxy_channel_by_id s channel_id px = find_channel (px_eps px) channel_id (xp_ep_list (px_transport px s))"

text \<open>A complete frame from the multiplex endpoint \<open>source\<close>.  An OPEN for a channel that is open
  already is reported but carried out all the same.\<close>

definition proxy_demux_packet :: "ep_ref \<Rightarrow> ni_buffer \<Rightarrow> proxy \<Rightarrow> proxy option" where
  "proxy_demux_packet source bp px = do {
     src \<leftarrow> px_eps px source;
     let s = other_side (ep_transport src);
     (off, bp1) \<leftarrow> (case ni_buffer_pull_head bp (of_nat DATA_HEADER_SIZE) of
          (None, b) \<Rightarrow> None | (Some off, b) \<Rightarrow> Some (off, b));
     hdr \<leftarrow> mem_read (buf_base bp1) off DATA_HEADER_SIZE;
     let channel_id = header_channel hdr;
     sink \<leftarrow> proxy_channel_by_id s channel_id px;
     (if header_cmd hdr = CHANNEL_OPEN then do {
        (r, px1) \<leftarrow> u_io_transport_connect s channel_id True px;
        i \<leftarrow> r;
        ep \<leftarrow> px_eps px1 i;
        Some (io_endpoint_link i s EpList
               (set_ep i (ep\<lparr>ep_channel_id := channel_id, ep_sink := Some source,
                            ep_rx_credit := DEFAULT_CREDIT_SIMPLEX\<rparr>) px1)) }
      else (case sink of
          None \<Rightarrow> Some px
        | Some i \<Rightarrow>
            (if header_cmd hdr = CHANNEL_CLOSE then io_endpoint_halfclose i px
             else if header_cmd hdr = CHANNEL_DATA
                  then io_endpoint_queue_write i (io_mbuf_wrap bp1 (Some source)) px
             else Some px)))
   }"

definition proxy_recv_copy :: "u32 option \<Rightarrow> os_read list \<Rightarrow> ep_ref \<Rightarrow> proxy \<Rightarrow> proxy option" where
  "proxy_recv_copy fionread script i px = do {
     ep \<leftarrow> px_eps px i;
     rcount \<leftarrow> proxy_recv_bufsiz fionread ep;
     k \<leftarrow> ep_sink ep;
     let bp = ni_buffer_new (ucast rcount);
     (case fst (os_do_read script (unat (ni_buffer_tailroom bp))) of
        ReadSome bs \<Rightarrow> do {
          base \<leftarrow> mem_write (buf_base bp) (ni_buffer_tail bp) bs;
          let bp1 = snd (ni_buffer_push_tail (bp\<lparr>buf_base := base\<rparr>) (of_nat (length bs)));
          io_endpoint_queue_write k (io_mbuf_wrap bp1 (Some i)) px }
      | ReadEof \<Rightarrow> do {
          sink \<leftarrow> px_eps px k;
          io_endpoint_shutdown i SHUT_RD (set_ep k (sink\<lparr>ep_shutdown_write := True\<rparr>) px) }
      | ReadFailed \<Rightarrow> Some px)
   }"

text \<open>From a simplex endpoint into the multiplexed connection: room for the header is reserved before
  the data is read, and the header is written in front of it.\<close>

definition proxy_recv_mux :: "u32 option \<Rightarrow> os_read list \<Rightarrow> ep_ref \<Rightarrow> proxy \<Rightarrow> proxy option" where
  "proxy_recv_mux fionread script i px = do {
     ep \<leftarrow> px_eps px i;
     rcount \<leftarrow> proxy_recv_bufsiz fionread ep;
     k \<leftarrow> ep_sink ep;
     ni_assert (ep_channel_id ep \<noteq> 0);
     let bp = snd (ni_buffer_reserve_head (ni_buffer_new (ucast rcount + of_nat DATA_HEADER_SIZE)) (of_nat DATA_HEADER_SIZE));
     (case fst (os_do_read script (unat (ni_buffer_tailroom bp))) of
        ReadSome bs \<Rightarrow> do {
          base \<leftarrow> mem_write (buf_base bp) (ni_buffer_tail bp) bs;
          let bp1 = snd (ni_buffer_push_tail (bp\<lparr>buf_base := base\<rparr>) (of_nat (length bs)));
          let mbuf = io_mbuf_wrap bp1 (Some i);
          (off, bp2) \<leftarrow> (case ni_buffer_push_head bp1 (of_nat DATA_HEADER_SIZE) of
               (None, b) \<Rightarrow> None | (Some off, b) \<Rightarrow> Some (off, b));
          base2 \<leftarrow> mem_write (buf_base bp2) off
                    (header_bytes CHANNEL_DATA (ep_channel_id ep) (ni_buffer_count bp1));
          io_endpoint_queue_write k (mbuf\<lparr>mb_buffer := Some (bp2\<lparr>buf_base := base2\<rparr>)\<rparr>) px }
      | ReadEof \<Rightarrow> do {
          close_mbuf \<leftarrow> proxy_channel_close_new (ep_channel_id ep);
          px1 \<leftarrow> io_endpoint_queue_write k close_mbuf px;
          io_endpoint_shutdown i SHUT_RD px1 }
      | ReadFailed \<Rightarrow> Some px)
   }"

subsection \<open>Reassembling frames\<close>

text \<open>
  How many more bytes complete the header or the frame in \<open>rbuf\<close>; \<open>Some None\<close> when the frame is
  complete.  The size is the 32-bit sum of the count field and the header size.
\<close>

definition demux_want :: "ni_buffer \<Rightarrow> nat option option" where
  "demux_want bp =
     (let avail = ni_buffer_count bp in
      if unat avail < DATA_HEADER_SIZE then Some (Some (DATA_HEADER_SIZE - unat avail))
      else do {
        hdr \<leftarrow> mem_read (buf_base bp) (ni_buffer_head bp) DATA_HEADER_SIZE;
        let pktsize = header_count hdr + of_nat DATA_HEADER_SIZE;
        (if avail = pktsize then Some None
         else do { ni_assert (avail < pktsize); Some (Some (unat (pktsize - avail))) })
      })"

datatype demux_result = RxPacket | RxMore | RxPartialEof | RxClosed | RxError

lemma os_do_read_some:
  "os_do_read script n = (ReadSome bs, script') \<Longrightarrow> bs \<noteq> [] \<and> length bs \<le> n"
  by (induction script n rule: os_do_read.induct) (auto split: if_splits)

text \<open>The loop \<open>while (rcount != 0)\<close>: it stops with a complete frame in the buffer, with the read
  budget used up, or on end of file or error.\<close>

function demux_loop :: "(nat \<Rightarrow> byte) \<Rightarrow> nat \<Rightarrow> bool \<Rightarrow> ni_buffer \<Rightarrow> os_read list \<Rightarrow>
    (demux_result \<times> ni_buffer \<times> os_read list) option" where
  "demux_loop fresh rcount read_some bp script =
     (if rcount = 0 then Some (RxMore, bp, script)
      else do {
        want \<leftarrow> demux_want bp;
        (case want of
           None \<Rightarrow> Some (RxPacket, bp, script)
         | Some w \<Rightarrow> do {
             let rnext = min w rcount;
             (ok, bp1) \<leftarrow> ni_buffer_ensure_tailroom fresh bp (of_nat rnext);
             (case os_do_read script rnext of
                (ReadSome bs, script') \<Rightarrow> do {
                  base \<leftarrow> mem_write (buf_base bp1) (ni_buffer_tail bp1) bs;
                  let bp2 = snd (ni_buffer_push_tail (bp1\<lparr>buf_base := base\<rparr>) (of_nat (length bs)));
                  demux_loop fresh (rcount - length bs) True bp2 script' }
              | (ReadEof, script') \<Rightarrow> Some (if read_some then RxPartialEof else RxClosed, bp1, script')
              | (ReadFailed, script') \<Rightarrow> Some (RxError, bp1, script')) }) })"
  by pat_completeness auto
termination
  by (relation "measure (\<lambda>(fresh, rcount, rs, bp, script). rcount)")
     (auto dest!: os_do_read_some [OF sym])

declare demux_loop.simps [simp del]

text \<open>
  \<open>foreach_io_endpoint (other, ...) io_endpoint_halfclose(other)\<close>.  The loop reads \<open>other->next\<close>
  after the call; an endpoint the call has moved to the garbage list has a NULL \<open>next\<close> there, which
  ends the loop.
\<close>

fun halfclose_list :: "side \<Rightarrow> ep_ref list \<Rightarrow> proxy \<Rightarrow> proxy option" where
  "halfclose_list s [] px = Some px"
| "halfclose_list s (i # is) px = do {
     px1 \<leftarrow> io_endpoint_halfclose i px;
     (if i \<in> set (xp_ep_list (px_transport px1 s)) then halfclose_list s is px1 else Some px1) }"

definition proxy_recv_demux ::
    "(nat \<Rightarrow> byte) \<Rightarrow> u32 option \<Rightarrow> os_read list \<Rightarrow> ep_ref \<Rightarrow> proxy \<Rightarrow> (os_read list \<times> proxy) option" where
  "proxy_recv_demux fresh fionread script i px = do {
     ep \<leftarrow> px_eps px i;
     rcount \<leftarrow> proxy_recv_bufsiz fionread ep;
     let bp = (case ep_rbuf ep of None \<Rightarrow> ni_buffer_new (4096 + of_nat DATA_HEADER_SIZE) | Some b \<Rightarrow> b);
     (r, bp', script') \<leftarrow> demux_loop fresh (unat rcount) False bp script;
     let px1 = set_ep i (ep\<lparr>ep_rbuf := Some bp'\<rparr>) px;
     (case r of
        RxPacket \<Rightarrow> do {
          px2 \<leftarrow> proxy_demux_packet i bp' px1;
          ep2 \<leftarrow> px_eps px2 i;
          Some (script', set_ep i (ep2\<lparr>ep_rbuf := None\<rparr>) px2) }
      | RxClosed \<Rightarrow> do {
          let s = other_side (ep_transport ep);
          px2 \<leftarrow> halfclose_list s (xp_ep_list (px_transport px1 s)) px1;
          px3 \<leftarrow> io_endpoint_shutdown i SHUT_RD px2;
          Some (script', px3) }
      | _ \<Rightarrow> Some (script', px1))
   }"

section \<open>Polling\<close>

text \<open>One \<open>write()\<close>: the number of bytes taken, a broken pipe, or another error.\<close>

datatype os_write = Wrote nat | WriteEpipe | WriteError

record os_answers =
  ans_fresh :: "nat \<Rightarrow> byte"
  ans_fionread :: "u32 option"
  ans_read :: "os_read list"
  ans_write :: os_write

definition data_available :: "os_answers \<Rightarrow> ep_ref \<Rightarrow> proxy \<Rightarrow> proxy option" where
  "data_available ans i px = do {
     ep \<leftarrow> px_eps px i;
     fn \<leftarrow> xp_data_available (px_transport px (ep_transport ep));
     (case fn of
        proxy_recv_copy_fn \<Rightarrow> proxy_recv_copy (ans_fionread ans) (ans_read ans) i px
      | proxy_recv_mux_fn \<Rightarrow> proxy_recv_mux (ans_fionread ans) (ans_read ans) i px
      | proxy_recv_demux_fn \<Rightarrow> map_option snd (proxy_recv_demux (ans_fresh ans) (ans_fionread ans) (ans_read ans) i px))
   }"

definition endpoint_transmit :: "os_write \<Rightarrow> ep_ref \<Rightarrow> proxy \<Rightarrow> proxy option" where
  "endpoint_transmit w i px = do {
     ep \<leftarrow> px_eps px i;
     bp \<leftarrow> ep_wbuf ep;
     (case w of
        Wrote ret \<Rightarrow>
          (if 0 < ret then do {
             bs \<leftarrow> mem_read (buf_base bp) (ni_buffer_head bp) ret;
             let bp1 = snd (ni_buffer_pull_head bp (of_nat ret));
             Some (os_log [OsWrite (ep_wfd ep) bs]
                    (set_ep i (ep\<lparr>ep_wbuf := (if ni_buffer_count bp1 = 0 then None else Some bp1)\<rparr>) px)) }
           else Some px)
      | WriteEpipe \<Rightarrow> io_endpoint_shutdown i SHUT_WR px
      | WriteError \<Rightarrow> Some px)
   }"

text \<open>\<open>fd\<close> is the descriptor that was polled, the flags are its \<open>revents\<close>.\<close>

definition io_endpoint_doio :: "os_answers \<Rightarrow> int \<Rightarrow> bool \<Rightarrow> bool \<Rightarrow> bool \<Rightarrow> ep_ref \<Rightarrow> proxy \<Rightarrow> proxy option" where
  "io_endpoint_doio ans fd pollin pollout pollhup i px = do {
     ep \<leftarrow> px_eps px i;
     px1 \<leftarrow> (if ep_rfd ep = fd \<and> pollin then data_available ans i px else Some px);
     ep1 \<leftarrow> px_eps px1 i;
     px2 \<leftarrow> (if ep_wfd ep1 = fd \<and> pollout then endpoint_transmit (ans_write ans) i px1 else Some px1);
     ep2 \<leftarrow> px_eps px2 i;
     (if ep_wfd ep2 = fd \<and> pollhup then io_endpoint_shutdown i SHUT_WR px2 else Some px2)
   }"

definition io_endpoint_poll_prepare :: "ep_ref \<Rightarrow> proxy \<Rightarrow> proxy option" where
  "io_endpoint_poll_prepare i px = do {
     ep \<leftarrow> px_eps px i;
     (if 0 \<le> ep_wfd ep then do {
        (b, px1) \<leftarrow> io_endpoint_pullup i px;
        ep1 \<leftarrow> px_eps px1 i;
        (if b = None \<and> ep_shutdown_write ep1 then io_endpoint_shutdown i SHUT_WR px1 else Some px1) }
      else Some px)
   }"

text \<open>The poll entries an endpoint asks for: the descriptor and whether for input or output.\<close>

definition io_endpoint_poll :: "ep_ref \<Rightarrow> proxy \<Rightarrow> (int \<times> bool \<times> bool) list option" where
  "io_endpoint_poll i px = do {
     ep \<leftarrow> px_eps px i;
     (if ep_rfd ep < 0 \<and> ep_wfd ep < 0 then Some []
      else if \<not> ep_connected ep then Some []
      else do {
        ni_assert (case ep_wbuf ep of None \<Rightarrow> True | Some b \<Rightarrow> ni_buffer_count b \<noteq> 0);
        Some (if ep_rfd ep = ep_wfd ep
              then (if ep_rx_credit ep \<noteq> 0 \<or> ep_wbuf ep \<noteq> None
                    then [(ep_rfd ep, ep_rx_credit ep \<noteq> 0, ep_wbuf ep \<noteq> None)] else [])
              else (if 0 \<le> ep_rfd ep \<and> ep_rx_credit ep \<noteq> 0 then [(ep_rfd ep, True, False)] else [])
                 @ (if 0 \<le> ep_wfd ep \<and> ep_wbuf ep \<noteq> None then [(ep_rfd ep, False, True)] else []))
      })
   }"

text \<open>\<open>foreach_io_endpoint\<close> with \<open>io_endpoint_poll_prepare\<close>: the loop ends at an endpoint that dies,
  as in \<^const>\<open>halfclose_list\<close>.\<close>

fun poll_prepare_list :: "side \<Rightarrow> ep_ref list \<Rightarrow> proxy \<Rightarrow> proxy option" where
  "poll_prepare_list s [] px = Some px"
| "poll_prepare_list s (i # is) px = do {
     px1 \<leftarrow> io_endpoint_poll_prepare i px;
     (if i \<in> set (xp_ep_list (px_transport px1 s)) then poll_prepare_list s is px1 else Some px1) }"

text \<open>Freeing the dead endpoints of a list; the result counts them.\<close>

fun purge_list :: "ep_ref list \<Rightarrow> proxy \<Rightarrow> (nat \<times> proxy) option" where
  "purge_list [] px = Some (0, px)"
| "purge_list (i # is) px = do {
     ep \<leftarrow> px_eps px i;
     (if ep_rfd ep < 0 \<and> ep_wfd ep < 0 then do {
        px1 \<leftarrow> io_endpoint_free i px;
        (n, px2) \<leftarrow> purge_list is px1;
        Some (Suc n, px2) }
      else purge_list is px) }"

definition multiplex_list :: "side \<Rightarrow> proxy \<Rightarrow> ep_ref list" where
  "multiplex_list s px = (case xp_multiplex (px_transport px s) of None \<Rightarrow> [] | Some i \<Rightarrow> [i])"

definition io_transport_purge :: "side \<Rightarrow> proxy \<Rightarrow> (nat \<times> proxy) option" where
  "io_transport_purge s px = do {
     (a, px1) \<leftarrow> purge_list (xp_ep_list (px_transport px s)) px;
     (b, px2) \<leftarrow> purge_list (xp_garbage_list (px_transport px1 s)) px1;
     (c, px3) \<leftarrow> purge_list (multiplex_list s px2) px2;
     Some (a + b + c, px3)
   }"

definition io_transport_poll_prepare :: "side \<Rightarrow> proxy \<Rightarrow> proxy option" where
  "io_transport_poll_prepare s px = do {
     px1 \<leftarrow> (case xp_multiplex (px_transport px s) of
          None \<Rightarrow> Some px
        | Some i \<Rightarrow> do { pxa \<leftarrow> io_endpoint_poll_prepare i px;
                        (n, pxb) \<leftarrow> purge_list (multiplex_list s pxa) pxa; Some pxb });
     px2 \<leftarrow> poll_prepare_list s (xp_ep_list (px_transport px1 s)) px1;
     (n, px3) \<leftarrow> purge_list (xp_ep_list (px_transport px2 s)) px2;
     Some px3
   }"

fun poll_list :: "ep_ref list \<Rightarrow> proxy \<Rightarrow> (ep_ref \<times> int \<times> bool \<times> bool) list option" where
  "poll_list [] px = Some []"
| "poll_list (i # is) px = do {
     es \<leftarrow> io_endpoint_poll i px;
     rest \<leftarrow> poll_list is px;
     Some (map (\<lambda>e. (i, e)) es @ rest) }"

definition io_transport_poll :: "side \<Rightarrow> proxy \<Rightarrow> ((ep_ref \<times> int \<times> bool \<times> bool) list \<times> proxy) option" where
  "io_transport_poll s px = do {
     px1 \<leftarrow> io_transport_poll_prepare s px;
     (n, px2) \<leftarrow> io_transport_purge s px1;
     ms \<leftarrow> poll_list (multiplex_list s px2) px2;
     es \<leftarrow> poll_list (xp_ep_list (px_transport px2 s)) px2;
     Some (ms @ es, px2)
   }"

end
