(* ===== verification/ProxyMain.thy ===== *)
theory ProxyMain
  imports Proxy
begin

text \<open>
  Setting a proxy up and running it: proxy/main.c from the transport specifications on the command
  line to the poll loop.  \<open>accept()\<close> and \<open>fork()\<close> answer through arguments.
\<close>

section \<open>Transports\<close>

definition u_io_transport_init :: "side \<Rightarrow> io_transport_ops \<Rightarrow> cstring option \<Rightarrow> io_endpoint_type \<Rightarrow> proxy \<Rightarrow> proxy" where
  "u_io_transport_init s ops address ty px =
     set_transport s ((px_transport px s)\<lparr>xp_ops := Some ops, xp_type := ty, xp_address := address, xp_listen_fd := -1\<rparr>) px"

definition io_transport_unix_init :: "side \<Rightarrow> cstring option \<Rightarrow> io_endpoint_type \<Rightarrow> proxy \<Rightarrow> proxy" where
  "io_transport_unix_init s sockname ty px = u_io_transport_init s io_unix_transport_ops sockname ty px"

definition io_transport_serial_init :: "side \<Rightarrow> cstring option \<Rightarrow> proxy \<Rightarrow> proxy" where
  "io_transport_serial_init s devname px =
     u_io_transport_init s io_serial_transport_ops devname IO_ENDPOINT_TYPE_MULTIPLEX px"

definition io_transport_stdio_init :: "side \<Rightarrow> proxy \<Rightarrow> proxy" where
  "io_transport_stdio_init s px = u_io_transport_init s io_stdio_transport_ops None IO_ENDPOINT_TYPE_MULTIPLEX px"

text \<open>Listening: \<open>fd\<close> is what \<open>io_socket_listen\<close> returns, which ends the program on any error.\<close>

definition io_endpoint_socket_listen :: "int \<Rightarrow> side \<Rightarrow> proxy \<Rightarrow> (bool \<times> proxy) option" where
  "io_endpoint_socket_listen fd s px = do {
     let x = px_transport px s;
     ni_assert (xp_address x \<noteq> None);
     ni_assert (xp_listen_fd x < 0);
     let px1 = set_transport s (x\<lparr>xp_listen_fd := fd\<rparr>) px;
     Some (0 \<le> fd, px1)
   }"

definition io_transport_listen :: "int \<Rightarrow> side \<Rightarrow> proxy \<Rightarrow> (bool \<times> proxy) option" where
  "io_transport_listen fd s px = do {
     ops \<leftarrow> xp_ops (px_transport px s);
     (if ops = io_unix_transport_ops then io_endpoint_socket_listen fd s px else Some (True, px))
   }"

text \<open>\<open>strchr(spec, ':')\<close>: the text before the first colon, and what follows it (NULL without one).\<close>

fun split_spec :: "cstring \<Rightarrow> cstring \<times> cstring option" where
  "split_spec [] = ([], None)"
| "split_spec (c # cs) =
     (if c = CHR '':'' then ([], Some cs) else (let (a, b) = split_spec cs in (c # a, b)))"

definition io_transport_init :: "int \<Rightarrow> side \<Rightarrow> cstring \<Rightarrow> bool \<Rightarrow> proxy \<Rightarrow> (bool \<times> proxy) option" where
  "io_transport_init listen_fd s param_string active px =
     (let (ty, options) = split_spec param_string;
          r = (if ty = ''stdio'' then Some (io_transport_stdio_init s px)
               else if ty = ''unix'' then Some (io_transport_unix_init s options IO_ENDPOINT_TYPE_SIMPLEX px)
               else if ty = ''unix-mux'' then Some (io_transport_unix_init s options IO_ENDPOINT_TYPE_MULTIPLEX px)
               else if ty = ''serial'' then Some (io_transport_serial_init s options px)
               else None)
      in case r of
           None \<Rightarrow> Some (False, px)
         | Some px1 \<Rightarrow> do {
             px2 \<leftarrow> (if active then Some px1
                    else do { (ok, pxa) \<leftarrow> io_transport_listen listen_fd s px1; (if ok then Some pxa else None) });
             (if xp_type (px_transport px2 s) = IO_ENDPOINT_TYPE_MULTIPLEX \<and> active
              then do {
                (r, px3) \<leftarrow> io_transport_connect s True px2;
                (case r of
                   None \<Rightarrow> Some (False, px3)
                 | Some i \<Rightarrow> Some (True, set_transport s ((px_transport px3 s)\<lparr>xp_multiplex := Some i\<rparr>) px3)) }
              else Some (True, px2)) })"

definition transport0 :: io_transport where
  "transport0 = \<lparr>xp_ops = None, xp_data_available = None, xp_type = IO_ENDPOINT_TYPE_NONE,
     xp_multiplex = None, xp_ep_list = [], xp_garbage_list = [], xp_address = None, xp_listen_fd = 0,
     xp_fork_on_accept = False, xp_next_channel_id = 1\<rparr>"

definition proxy_init :: "os_env \<Rightarrow> proxy" where
  "proxy_init os = \<lparr>px_eps = (\<lambda>_. None), px_fresh = 0, px_up = transport0, px_down = transport0,
     px_os = os, px_log = []\<rparr>"

text \<open>Which receive handler each side gets, from the types of the two transports.\<close>

definition proxy_setup_recv :: "proxy \<Rightarrow> proxy option" where
  "proxy_setup_recv px =
     (let u = px_up px; d = px_down px in
      if xp_type u = xp_type d then
        Some (px\<lparr>px_up := u\<lparr>xp_data_available := Some proxy_recv_copy_fn\<rparr>,
                px_down := d\<lparr>xp_data_available := Some proxy_recv_copy_fn\<rparr>\<rparr>)
      else if xp_type u = IO_ENDPOINT_TYPE_SIMPLEX \<and> xp_type d = IO_ENDPOINT_TYPE_MULTIPLEX then
        Some (px\<lparr>px_up := u\<lparr>xp_data_available := Some proxy_recv_mux_fn\<rparr>,
                px_down := d\<lparr>xp_data_available := Some proxy_recv_demux_fn, xp_fork_on_accept := True\<rparr>\<rparr>)
      else if xp_type u = IO_ENDPOINT_TYPE_MULTIPLEX \<and> xp_type d = IO_ENDPOINT_TYPE_SIMPLEX then
        Some (px\<lparr>px_up := u\<lparr>xp_data_available := Some proxy_recv_demux_fn\<rparr>,
                px_down := d\<lparr>xp_data_available := Some proxy_recv_mux_fn\<rparr>\<rparr>)
      else None)"

section \<open>Incoming connections\<close>

definition io_endpoint_socket_accept :: "int \<Rightarrow> side \<Rightarrow> u32 \<Rightarrow> int \<Rightarrow> proxy \<Rightarrow> (ep_ref option \<times> proxy) option" where
  "io_endpoint_socket_accept accepted s channel_id listen_fd px = do {
     ni_assert (xp_listen_fd (px_transport px s) = listen_fd);
     (if accepted < 0 then Some (None, px)
      else let (i, px1) = io_endpoint_new s channel_id accepted accepted True px in Some (Some i, px1))
   }"

text \<open>A simplex connection gets the next channel ID, a multiplexed one channel 0.\<close>

definition io_transport_accept :: "int \<Rightarrow> side \<Rightarrow> int \<Rightarrow> proxy \<Rightarrow> (ep_ref option \<times> proxy) option" where
  "io_transport_accept accepted s fd px = do {
     let x = px_transport px s;
     let (channel_id, px1) =
       (if xp_type x = IO_ENDPOINT_TYPE_SIMPLEX
        then (xp_next_channel_id x, set_transport s (x\<lparr>xp_next_channel_id := xp_next_channel_id x + 1\<rparr>) px)
        else (CHANNEL_ID_NONE, px));
     ni_assert (xp_ops x = Some io_unix_transport_ops);
     (r, px2) \<leftarrow> io_endpoint_socket_accept accepted s channel_id fd px1;
     (case r of
        None \<Rightarrow> Some (None, px2)
      | Some i \<Rightarrow> do {
          ep \<leftarrow> px_eps px2 i;
          Some (Some i, set_ep i (ep\<lparr>ep_connected := True, ep_type := xp_type x\<rparr>) px2) })
   }"

text \<open>\<open>pid\<close> is the result of \<open>fork()\<close>: the parent keeps listening, the child serves.\<close>

definition proxy_downstream_accept :: "int \<Rightarrow> int \<Rightarrow> int \<Rightarrow> bool \<Rightarrow> proxy \<Rightarrow> proxy option" where
  "proxy_downstream_accept accepted pid fd pollin px =
     (if \<not> pollin then Some px
      else do {
        (r, px1) \<leftarrow> io_transport_accept accepted Downstream fd px;
        (case r of
           None \<Rightarrow> Some px1
         | Some i \<Rightarrow> do {
             ep \<leftarrow> px_eps px1 i;
             (if ep_type ep = IO_ENDPOINT_TYPE_MULTIPLEX then
                (if xp_multiplex (px_down px1) \<noteq> None then None
                 else if xp_fork_on_accept (px_down px1) \<and> pid \<noteq> 0 then io_endpoint_free i px1
                 else let d = px_down px1;
                          d1 = (if xp_fork_on_accept d then d\<lparr>xp_listen_fd := -1\<rparr> else d)
                      in Some (px1\<lparr>px_down := d1\<lparr>xp_multiplex := Some i\<rparr>\<rparr>))
              else do {
                (r2, px2) \<leftarrow>
                  (case xp_multiplex (px_up px1) of
                     Some m \<Rightarrow> do {
                       mbuf \<leftarrow> proxy_channel_open_new (ep_channel_id ep);
                       pxa \<leftarrow> io_endpoint_queue_write m mbuf px1;
                       Some (Some m, pxa) }
                   | None \<Rightarrow> do {
                       (u, pxa) \<leftarrow> io_transport_connect Upstream False px1;
                       (case u of
                          None \<Rightarrow> do { pxb \<leftarrow> io_endpoint_free i pxa; Some (None, pxb) }
                        | Some j \<Rightarrow> do {
                            up \<leftarrow> px_eps pxa j;
                            Some (Some j, io_endpoint_link j Upstream EpList (set_ep j (up\<lparr>ep_sink := Some i\<rparr>) pxa)) }) });
                (case r2 of
                   None \<Rightarrow> Some px2
                 | Some j \<Rightarrow> do {
                     let px3 = io_endpoint_link i Downstream EpList px2;
                     ep3 \<leftarrow> px_eps px3 i;
                     Some (set_ep i (ep3\<lparr>ep_sink := Some j\<rparr>) px3) }) }) })
      })"

section \<open>The poll loop\<close>

text \<open>A polled descriptor: the listening socket, or an endpoint with the events it asked for.\<close>

datatype poll_entry = PollListen int | PollEndpoint ep_ref int bool bool

text \<open>What \<open>poll()\<close> and the system calls of the handler answer for one entry.\<close>

record poll_answer =
  rev_in :: bool
  rev_out :: bool
  rev_hup :: bool
  rev_io :: os_answers
  rev_accepted :: int
  rev_pid :: int

definition proxy_poll_set :: "proxy \<Rightarrow> (poll_entry list \<times> proxy) option" where
  "proxy_poll_set px = do {
     let ls = (if 0 \<le> xp_listen_fd (px_down px) then [PollListen (xp_listen_fd (px_down px))] else []);
     (us, px1) \<leftarrow> io_transport_poll Upstream px;
     (ds, px2) \<leftarrow> io_transport_poll Downstream px1;
     Some (ls @ map (\<lambda>(i, fd, r, w). PollEndpoint i fd r w) (us @ ds), px2)
   }"

fun proxy_handle :: "poll_entry \<Rightarrow> poll_answer \<Rightarrow> proxy \<Rightarrow> proxy option" where
  "proxy_handle (PollListen fd) a px = proxy_downstream_accept (rev_accepted a) (rev_pid a) fd (rev_in a) px"
| "proxy_handle (PollEndpoint i fd r w) a px =
     io_endpoint_doio (rev_io a) fd (rev_in a) (rev_out a) (rev_hup a) i px"

fun proxy_handle_all :: "(poll_entry \<times> poll_answer) list \<Rightarrow> proxy \<Rightarrow> proxy option" where
  "proxy_handle_all [] px = Some px"
| "proxy_handle_all ((e, a) # rest) px = do { px1 \<leftarrow> proxy_handle e a px; proxy_handle_all rest px1 }"

text \<open>One turn of \<open>while (!proxy_done)\<close>; \<open>answers\<close> gives the events for the polled set.  The
  loop ends when there is nothing to poll (first component False).\<close>

definition do_proxy_turn :: "(poll_entry list \<Rightarrow> poll_answer list) \<Rightarrow> proxy \<Rightarrow> (bool \<times> proxy) option" where
  "do_proxy_turn answers px = do {
     (es, px1) \<leftarrow> proxy_poll_set px;
     (if es = [] then Some (False, px1)
      else do { px2 \<leftarrow> proxy_handle_all (zip es (answers es)) px1; Some (True, px2) })
   }"

end
