(* ===== verification/ProxyFrames.thy ===== *)
theory ProxyFrames
  imports ProxyMain
begin

text \<open>
  The multiplexed connection of proxy/main.c: the wire format, reassembly of frames from however the
  bytes arrive, and the tunnel from a simplex endpoint of one proxy to the sink of another.
  \<open>ep_pending\<close> is what an endpoint has still to write; the receive handlers are described by what
  they append to it.
\<close>

section \<open>The wire format\<close>

lemma ntohl_htonl: "ntohl (htonl x) = x"
proof (rule bit_word_eqI)
  fix n :: nat
  assume "n < LENGTH(32)"
  then show "bit (ntohl (htonl x)) n = bit x n"
    by (cases "n < 8"; cases "n < 16"; cases "n < 24") (auto simp: ntohl_def htonl_def bit_simps)
qed

lemma length_htonl [simp]: "length (htonl x) = 4"
  by (simp add: htonl_def)

lemma ntohl_append: "length a = 4 \<Longrightarrow> ntohl (a @ b) = ntohl a"
  by (simp add: ntohl_def nth_append)

lemma header_fields [simp]:
  "length (header_bytes cmd ch n) = 12"
  "header_cmd (header_bytes cmd ch n @ bs) = cmd"
  "header_channel (header_bytes cmd ch n @ bs) = ch"
  "header_count (header_bytes cmd ch n @ bs) = n"
  by (simp_all add: header_bytes_def header_cmd_def header_channel_def header_count_def ntohl_append ntohl_htonl)

definition recv_budget :: "u32 option \<Rightarrow> io_endpoint \<Rightarrow> u32" where
  "recv_budget fionread ep =
     (let rcount = (case fionread of None \<Rightarrow> 4096 | Some n \<Rightarrow> n)
      in if ep_rx_credit ep < rcount then ep_rx_credit ep else rcount)"

lemma proxy_recv_bufsiz_eq [simp]:
  "ep_rx_credit ep \<noteq> 0 \<Longrightarrow> proxy_recv_bufsiz fionread ep = Some (recv_budget fionread ep)"
  by (simp add: proxy_recv_bufsiz_def recv_budget_def Let_def)

lemma recv_budget_le: "recv_budget fionread ep \<le> ep_rx_credit ep"
  by (auto simp: recv_budget_def Let_def)

definition mux_room :: "u32 \<Rightarrow> ni_buffer" where
  "mux_room rcount = snd (ni_buffer_reserve_head (ni_buffer_new (ucast rcount + of_nat DATA_HEADER_SIZE)) (of_nat DATA_HEADER_SIZE))"

lemma unat_mux_size: "unat (ucast (rcount :: u32) + 12 :: u64) = unat rcount + 12"
  using unat_u32_less [of rcount] unat_u32_u64 [of rcount]
    unat_add_no_wrap [of "ucast rcount" 12] by simp

lemma mux_room_eq:
  "mux_room rcount = (ni_buffer_new (ucast rcount + 12))\<lparr>buf_head := 12, buf_tail := 12\<rparr>"
  by (simp add: mux_room_def ni_buffer_reserve_head_def ni_buffer_new_def ni_buffer_init_def DATA_HEADER_SIZE_def)

lemma mux_room_facts:
  "buf_wf (mux_room rcount)" "buf_bytes (mux_room rcount) = []"
  "unat (ni_buffer_tailroom (mux_room rcount)) = unat rcount"
  "ni_buffer_tail (mux_room rcount) = 12" "length (buf_base (mux_room rcount)) = unat rcount + 12"
proof -
  have s: "buf_size (mux_room rcount) = ucast rcount + 12"
    by (simp add: mux_room_eq ni_buffer_new_def ni_buffer_init_def)
  show wf: "buf_wf (mux_room rcount)"
    by (rule buf_wfI) (simp_all add: mux_room_eq ni_buffer_new_def ni_buffer_init_def unat_mux_size)
  show "buf_bytes (mux_room rcount) = []" by (simp add: mux_room_eq buf_bytes_def)
  show "unat (ni_buffer_tailroom (mux_room rcount)) = unat rcount"
    using ni_buffer_tailroom_wf [OF wf] unat_u32_less [of rcount]
    by (simp add: s unat_mux_size) (simp add: mux_room_eq)
  show "ni_buffer_tail (mux_room rcount) = 12" by (simp add: mux_room_eq ni_buffer_tail_def)
  show "length (buf_base (mux_room rcount)) = unat rcount + 12"
    by (simp add: mux_room_eq ni_buffer_new_def ni_buffer_init_def unat_mux_size)
qed

text \<open>Reading into the tail room of a buffer and claiming the bytes.\<close>

lemma fill_tail:
  assumes wf: "buf_wf bp" and room: "unat (buf_tail bp) + length bs \<le> unat (buf_size bp)"
  shows "\<exists>base bp'. mem_write (buf_base bp) (ni_buffer_tail bp) bs = Some base
           \<and> snd (ni_buffer_push_tail (bp\<lparr>buf_base := base\<rparr>) (of_nat (length bs))) = bp'
           \<and> buf_wf bp' \<and> buf_bytes bp' = buf_bytes bp @ bs \<and> buf_head bp' = buf_head bp
           \<and> unat (buf_tail bp') = unat (buf_tail bp) + length bs \<and> buf_size bp' = buf_size bp
           \<and> take (unat (buf_head bp)) (buf_base bp') = take (unat (buf_head bp)) (buf_base bp)"
proof -
  note D = buf_wfD [OF wf]
  let ?base = "take (unat (buf_tail bp)) (buf_base bp) @ bs @ drop (unat (buf_tail bp) + length bs) (buf_base bp)"
  let ?b = "bp\<lparr>buf_base := ?base\<rparr>"
  have n: "unat (of_nat (length bs) :: u64) = length bs"
    using room unat_u64_less [of "buf_size bp"] by (intro unat_of_nat_u64) linarith
  have w: "mem_write (buf_base bp) (ni_buffer_tail bp) bs = Some ?base"
    using room D by (simp add: mem_write_in ni_buffer_tail_def)
  have wfb: "buf_wf ?b" using D room by (intro buf_wfI) auto
  have roomb: "unat (buf_tail ?b) + unat (of_nat (length bs) :: u64) \<le> unat (buf_size ?b)"
    using room n by simp
  have bb: "buf_bytes ?b = buf_bytes bp" using D by (simp add: buf_bytes_def)
  show ?thesis
    using w ni_buffer_push_tail_ok [OF wfb roomb] n D room
    by (simp add: bb unat_add_le)
qed

lemma u32_of_nat: "n < 2 ^ 32 \<Longrightarrow> unat (of_nat n :: u32) = n"
  by (simp add: unat_of_nat take_bit_eq_mod)

lemma buf_count_eq:
  "buf_wf b \<Longrightarrow> length (buf_bytes b) < 2 ^ 32 \<Longrightarrow> ni_buffer_count b = of_nat (length (buf_bytes b))"
  using ni_buffer_count_wf [of b] u32_of_nat [of "length (buf_bytes b)"] by (simp add: word_unat_eq_iff)

text \<open>A frame as the multiplexing side builds it: the header written into the reserved room, directly
  in front of the data.\<close>

lemma mux_frame:
  assumes len: "length bs \<le> unat rcount"
  shows "\<exists>base off base2 bp1 bp2 b. mem_write (buf_base (mux_room rcount)) (ni_buffer_tail (mux_room rcount)) bs = Some base
     \<and> snd (ni_buffer_push_tail ((mux_room rcount)\<lparr>buf_base := base\<rparr>) (of_nat (length bs))) = bp1
     \<and> ni_buffer_count bp1 = of_nat (length bs)
     \<and> ni_buffer_push_head bp1 (of_nat DATA_HEADER_SIZE) = (Some off, bp2)
     \<and> mem_write (buf_base bp2) off (header_bytes cmd ch (of_nat (length bs))) = Some base2
     \<and> b = bp2\<lparr>buf_base := base2\<rparr>
     \<and> buf_wf b \<and> buf_bytes b = header_bytes cmd ch (of_nat (length bs)) @ bs"
proof -
  let ?m = "mux_room rcount"
  let ?h = "header_bytes cmd ch (of_nat (length bs))"
  have wf: "buf_wf ?m" and e: "buf_bytes ?m = []" using mux_room_facts by auto
  have hd: "buf_head ?m = 12" "buf_tail ?m = 12" "unat (buf_size ?m) = unat rcount + 12"
    by (simp_all add: mux_room_eq ni_buffer_new_def ni_buffer_init_def unat_mux_size)
  have room: "unat (buf_tail ?m) + length bs \<le> unat (buf_size ?m)" using len hd by simp
  obtain base bp1 where b1: "mem_write (buf_base ?m) (ni_buffer_tail ?m) bs = Some base"
    "snd (ni_buffer_push_tail (?m\<lparr>buf_base := base\<rparr>) (of_nat (length bs))) = bp1"
    "buf_wf bp1" "buf_bytes bp1 = bs" "buf_head bp1 = 12" "unat (buf_tail bp1) = 12 + length bs"
    "unat (buf_size bp1) = unat rcount + 12"
    using fill_tail [OF wf room] e hd by auto
  have lbs: "length bs < 2 ^ 32" using len unat_u32_less [of rcount] by linarith
  have cnt: "ni_buffer_count bp1 = of_nat (length bs)"
    using buf_count_eq [OF b1(3)] b1(4) lbs by simp
  have n12: "unat (12 :: u64) \<le> unat (buf_head bp1)" using b1(5) by simp
  let ?bp2 = "bp1\<lparr>buf_head := 0\<rparr>"
  have ph: "ni_buffer_push_head bp1 12 = (Some 0, ?bp2)" "buf_wf ?bp2"
    using ni_buffer_push_head_ok [OF b1(3) n12] b1(5) by simp_all
  note D = buf_wfD [OF ph(2)]
  let ?base2 = "?h @ drop 12 (buf_base ?bp2)"
  have l12: "12 \<le> length (buf_base ?bp2)" using D b1(7) by simp
  then have w2: "mem_write (buf_base ?bp2) 0 ?h = Some ?base2" by (simp add: mem_write_in)
  have wfb: "buf_wf (?bp2\<lparr>buf_base := ?base2\<rparr>)"
    using D l12 by (intro buf_wfI) auto
  have "drop 12 (take (unat (buf_tail bp1)) (buf_base bp1)) = bs"
    using b1(4,5) by (simp add: buf_bytes_def)
  then have "buf_bytes (?bp2\<lparr>buf_base := ?base2\<rparr>) = ?h @ bs"
    using b1(6) by (simp add: buf_bytes_def drop_take)
  then show ?thesis
    using b1(1,2) cnt ph w2 wfb by (auto simp: DATA_HEADER_SIZE_def)
qed

section \<open>What the handlers queue\<close>

lemma proxy_recv_mux_some:
  assumes ep: "px_eps px i = Some ep" and cr: "ep_rx_credit ep \<noteq> 0" and k: "ep_sink ep = Some k"
    and ch: "ep_channel_id ep \<noteq> 0"
    and rd: "fst (os_do_read script (unat (recv_budget fionread ep))) = ReadSome bs"
  shows "\<exists>b. proxy_recv_mux fionread script i px
           = io_endpoint_queue_write k \<lparr>mb_source = Some i, mb_buffer = Some b, mb_credit = of_nat (length bs)\<rparr> px
         \<and> buf_wf b \<and> buf_bytes b = header_bytes CHANNEL_DATA (ep_channel_id ep) (of_nat (length bs)) @ bs"
proof -
  let ?r = "recv_budget fionread ep"
  have len: "length bs \<le> unat ?r"
    using rd os_do_read_some by (metis prod.collapse)
  obtain base off base2 bp1 bp2 b where f:
    "mem_write (buf_base (mux_room ?r)) (ni_buffer_tail (mux_room ?r)) bs = Some base"
    "snd (ni_buffer_push_tail ((mux_room ?r)\<lparr>buf_base := base\<rparr>) (of_nat (length bs))) = bp1"
    "ni_buffer_count bp1 = of_nat (length bs)"
    "ni_buffer_push_head bp1 (of_nat DATA_HEADER_SIZE) = (Some off, bp2)"
    "mem_write (buf_base bp2) off (header_bytes CHANNEL_DATA (ep_channel_id ep) (of_nat (length bs))) = Some base2"
    "b = bp2\<lparr>buf_base := base2\<rparr>" "buf_wf b"
    "buf_bytes b = header_bytes CHANNEL_DATA (ep_channel_id ep) (of_nat (length bs)) @ bs"
    using mux_frame [OF len, of CHANNEL_DATA "ep_channel_id ep"] by blast
  have rd': "fst (os_do_read script (unat (ni_buffer_tailroom (mux_room ?r)))) = ReadSome bs"
    using rd mux_room_facts(3) by simp
  have "proxy_recv_mux fionread script i px
          = io_endpoint_queue_write k \<lparr>mb_source = Some i, mb_buffer = Some b, mb_credit = of_nat (length bs)\<rparr> px"
    using ep cr k ch rd' f(1-6)
    by (simp add: proxy_recv_mux_def mux_room_def [symmetric] io_mbuf_wrap_def Let_def)
  with f(7,8) show ?thesis by blast
qed

lemma demux_frame:
  assumes wf: "buf_wf bp" and b: "buf_bytes bp = header_bytes cmd ch n @ payload"
  shows "\<exists>off bp1. ni_buffer_pull_head bp (of_nat DATA_HEADER_SIZE) = (Some off, bp1)
          \<and> mem_read (buf_base bp1) off DATA_HEADER_SIZE = Some (header_bytes cmd ch n)
          \<and> buf_wf bp1 \<and> buf_bytes bp1 = payload"
proof -
  have l: "unat (12 :: u64) \<le> length (buf_bytes bp)" by (simp add: b)
  note D = buf_wfD [OF wf]
  have len: "12 \<le> unat (buf_tail bp) - unat (buf_head bp)"
    using l length_buf_bytes [OF wf] by simp
  have "take 12 (drop (unat (buf_head bp)) (buf_base bp)) = take 12 (buf_bytes bp)"
    using len by (simp add: buf_bytes_def take_drop min_def)
  also have "\<dots> = header_bytes cmd ch n" by (simp add: b)
  finally have "mem_read (buf_base bp) (unat (buf_head bp)) 12 = Some (header_bytes cmd ch n)"
    using len D by (simp add: mem_read_in)
  then show ?thesis
    using ni_buffer_pull_head_ok [OF wf l] b by (simp add: DATA_HEADER_SIZE_def)
qed

lemma header_fields_nil [simp]:
  "header_cmd (header_bytes cmd ch n) = cmd" "header_channel (header_bytes cmd ch n) = ch"
  "header_count (header_bytes cmd ch n) = n"
  using header_fields(2-4) [where bs = "[]" and cmd = cmd and ch = ch and n = n] by simp_all

lemma channel_cmds [simp]:
  "CHANNEL_OPEN \<noteq> CHANNEL_CLOSE" "CHANNEL_OPEN \<noteq> CHANNEL_DATA" "CHANNEL_CLOSE \<noteq> CHANNEL_DATA"
  "CHANNEL_CLOSE \<noteq> CHANNEL_OPEN" "CHANNEL_DATA \<noteq> CHANNEL_OPEN" "CHANNEL_DATA \<noteq> CHANNEL_CLOSE"
  by (simp_all add: CHANNEL_OPEN_def CHANNEL_CLOSE_def CHANNEL_DATA_def)

lemma proxy_demux_packet_data:
  assumes src: "px_eps px source = Some s" and wf: "buf_wf bp"
    and b: "buf_bytes bp = header_bytes CHANNEL_DATA ch n @ payload"
    and len: "length payload < 2 ^ 32"
    and ch: "proxy_channel_by_id (other_side (ep_transport s)) ch px = Some (Some k)"
  shows "\<exists>b. proxy_demux_packet source bp px
            = io_endpoint_queue_write k \<lparr>mb_source = Some source, mb_buffer = Some b, mb_credit = of_nat (length payload)\<rparr> px
          \<and> buf_wf b \<and> buf_bytes b = payload"
proof -
  obtain off bp1 where f: "ni_buffer_pull_head bp (of_nat DATA_HEADER_SIZE) = (Some off, bp1)"
    "mem_read (buf_base bp1) off DATA_HEADER_SIZE = Some (header_bytes CHANNEL_DATA ch n)"
    "buf_wf bp1" "buf_bytes bp1 = payload"
    using demux_frame [OF wf b] by blast
  have "ni_buffer_count bp1 = of_nat (length payload)"
    using buf_count_eq [OF f(3)] f(4) len by simp
  then show ?thesis
    using src ch f by (intro exI [of _ bp1]) (simp add: proxy_demux_packet_def io_mbuf_wrap_def Let_def)
qed

text \<open>What an endpoint still has to write: the buffer in hand, then the queue.\<close>

definition mbuf_bytes :: "io_mbuf \<Rightarrow> byte list" where
  "mbuf_bytes m = (case mb_buffer m of None \<Rightarrow> [] | Some b \<Rightarrow> buf_bytes b)"

definition ep_pending :: "io_endpoint \<Rightarrow> byte list" where
  "ep_pending ep = (case ep_wbuf ep of None \<Rightarrow> [] | Some b \<Rightarrow> buf_bytes b) @ concat (map mbuf_bytes (ep_wqueue ep))"

definition px_pending :: "proxy \<Rightarrow> ep_ref \<Rightarrow> byte list" where
  "px_pending px i = (case px_eps px i of None \<Rightarrow> [] | Some ep \<Rightarrow> ep_pending ep)"

lemma queue_write_pending:
  assumes "io_endpoint_queue_write k m px = Some px'"
  shows "px_pending px' k = px_pending px k @ mbuf_bytes m"
    and "j \<noteq> k \<Longrightarrow> px_pending px' j = px_pending px j"
  using assms
  by (auto simp: io_endpoint_queue_write_def io_transport_connect_finish_def
      io_endpoint_socket_delayed_connect_def px_pending_def ep_pending_def
      split: if_splits option.splits)


lemma queue_write_ok:
  assumes "px_eps px k = Some sink" and "ep_connected sink"
    and "\<And>s. mb_source m = Some s \<Longrightarrow> \<exists>src. px_eps px s = Some src \<and> mb_credit m \<le> ep_rx_credit src"
  shows "\<exists>px'. io_endpoint_queue_write k m px = Some px'"
  using assms by (cases "mb_source m") (fastforce simp: io_endpoint_queue_write_def)+

text \<open>Frames as the other side sends them.\<close>

type_synonym frame = "u32 \<times> u32 \<times> byte list"

definition frame_bytes :: "frame \<Rightarrow> byte list" where
  "frame_bytes f = (case f of (cmd, ch, payload) \<Rightarrow> header_bytes cmd ch (of_nat (length payload)) @ payload)"

definition frame_ok :: "frame \<Rightarrow> bool" where
  "frame_ok f \<longleftrightarrow> length (snd (snd f)) + DATA_HEADER_SIZE < 2 ^ 32"

lemma length_frame_bytes: "length (frame_bytes f) = 12 + length (snd (snd f))"
  by (simp add: frame_bytes_def split: prod.split)

text \<open>The receive buffer: nothing before the data, and room that fits \<open>unsigned int\<close>.\<close>

definition rbuf_ok :: "ni_buffer \<Rightarrow> bool" where
  "rbuf_ok bp \<longleftrightarrow> buf_wf bp \<and> buf_head bp = 0 \<and> unat (buf_size bp) < unat (buf_tail bp) + 2 ^ 32"

lemma rbuf_bytes: "rbuf_ok bp \<Longrightarrow> buf_bytes bp = take (unat (buf_tail bp)) (buf_base bp)"
  by (simp add: rbuf_ok_def buf_bytes_def)

lemma demux_want_prefix:
  assumes ok: "rbuf_ok bp" and f: "frame_ok f" and pre: "prefix (buf_bytes bp) (frame_bytes f)"
  shows "demux_want bp = Some (if length (buf_bytes bp) < 12 then Some (12 - length (buf_bytes bp))
           else if buf_bytes bp = frame_bytes f then None
           else Some (length (frame_bytes f) - length (buf_bytes bp)))"
proof -
  obtain cmd ch pl where ff: "f = (cmd, ch, pl)" by (cases f)
  have lf: "length (frame_bytes f) = 12 + length pl" "length pl + 12 < 2 ^ 32"
    using f by (simp_all add: ff length_frame_bytes frame_ok_def DATA_HEADER_SIZE_def)
  have lb: "length (buf_bytes bp) \<le> length (frame_bytes f)" using pre by (rule prefix_length_le)
  have wf: "buf_wf bp" using ok by (simp add: rbuf_ok_def)
  have cnt: "unat (ni_buffer_count bp) = length (buf_bytes bp)"
    using ni_buffer_count_wf [OF wf] lb lf by simp
  have nb: "buf_bytes bp = take (length (buf_bytes bp)) (frame_bytes f)"
    using pre by (auto simp: prefix_def)
  show ?thesis
  proof (cases "length (buf_bytes bp) < 12")
    case True
    then show ?thesis using cnt by (simp add: demux_want_def DATA_HEADER_SIZE_def)
  next
    case False
    note D = buf_wfD [OF wf]
    have tl: "unat (buf_tail bp) = length (buf_bytes bp)"
      using length_buf_bytes [OF wf] ok by (simp add: rbuf_ok_def)
    have t12: "12 \<le> unat (buf_tail bp)" using False tl by simp
    have "take 12 (take (unat (buf_tail bp)) (buf_base bp)) = take 12 (buf_base bp)"
      using t12 by (simp add: min_def)
    then have "take 12 (buf_base bp) = take 12 (buf_bytes bp)" by (simp only: rbuf_bytes [OF ok])
    also have "\<dots> = take 12 (frame_bytes f)"
      using False by (subst nb, simp add: min_def)
    also have "\<dots> = header_bytes cmd ch (of_nat (length pl))" by (simp add: ff frame_bytes_def)
    finally have rd: "mem_read (buf_base bp) (ni_buffer_head bp) 12 = Some (header_bytes cmd ch (of_nat (length pl)))"
      using ok False tl D by (simp add: mem_read_in ni_buffer_head_def rbuf_ok_def)
    have "unat (of_nat (length pl) + 12 :: u32) = length pl + 12"
      using lf(2) u32_of_nat [of "length pl"] by (simp add: unat_word_ariths)
    then have pk: "unat (of_nat (length pl) + 12 :: u32) = length (frame_bytes f)" using lf(1) by simp
    have eq: "ni_buffer_count bp = of_nat (length pl) + 12 \<longleftrightarrow> buf_bytes bp = frame_bytes f"
    proof
      assume "ni_buffer_count bp = of_nat (length pl) + 12"
      then have "length (buf_bytes bp) = length (frame_bytes f)" using cnt pk by simp
      then show "buf_bytes bp = frame_bytes f" using nb by simp
    next
      assume "buf_bytes bp = frame_bytes f"
      then have "unat (ni_buffer_count bp) = unat (of_nat (length pl) + 12 :: u32)" using cnt pk by simp
      then show "ni_buffer_count bp = of_nat (length pl) + 12" by (simp only: word_unat_eq_iff)
    qed
    have "unat (of_nat (length pl) + 12 - ni_buffer_count bp) = length (frame_bytes f) - length (buf_bytes bp)"
      using pk cnt lb by (subst unat_sub) (simp_all add: word_le_nat_alt)
    moreover have "ni_buffer_count bp < of_nat (length pl) + 12" if "buf_bytes bp \<noteq> frame_bytes f"
    proof -
      have "length (buf_bytes bp) \<noteq> length (frame_bytes f)" using that nb by auto
      then have "unat (ni_buffer_count bp) < unat (of_nat (length pl) + 12 :: u32)" using lb pk cnt by linarith
      then show ?thesis by (simp only: word_less_nat_alt)
    qed
    ultimately show ?thesis
      using False cnt rd eq by (auto simp: demux_want_def DATA_HEADER_SIZE_def Let_def)
  qed
qed

section \<open>Reassembly\<close>

lemma rbuf_tail: "rbuf_ok bp \<Longrightarrow> unat (buf_tail bp) = length (buf_bytes bp)"
  using length_buf_bytes [of bp] by (simp add: rbuf_ok_def)

lemma rbuf_ensure:
  assumes ok: "rbuf_ok bp" and n: "n < 2 ^ 31" and len: "length (buf_bytes bp) < 2 ^ 32"
  shows "\<exists>bp1. ni_buffer_ensure_tailroom fresh bp (of_nat n) = Some (True, bp1) \<and> rbuf_ok bp1
           \<and> buf_bytes bp1 = buf_bytes bp \<and> unat (buf_tail bp1) + n \<le> unat (buf_size bp1)"
proof -
  have wf: "buf_wf bp" and h: "buf_head bp = 0" and sz: "unat (buf_size bp) < unat (buf_tail bp) + 2 ^ 32"
    using ok by (auto simp: rbuf_ok_def)
  have un: "unat (of_nat n :: u32) = n" using n by (simp add: u32_of_nat)
  have nw: "unat (buf_size bp) + unat (of_nat n :: u32) < 2 ^ 64"
    using sz rbuf_tail [OF ok] len n un by simp
  obtain bp1 where b1: "ni_buffer_ensure_tailroom fresh bp (of_nat n) = Some (True, bp1)" "buf_wf bp1"
     "buf_bytes bp1 = buf_bytes bp" "buf_head bp1 = buf_head bp" "buf_tail bp1 = buf_tail bp"
     "unat (buf_tail bp) + n \<le> unat (buf_size bp1)"
    using ni_buffer_ensure_tailroom_ok [OF wf nw, of fresh] un by auto
  have "unat (buf_size bp1) < unat (buf_tail bp) + 2 ^ 32"
  proof (cases "(of_nat n :: u32) \<le> ni_buffer_tailroom bp")
    case True
    then show ?thesis using b1(1) sz by (simp add: ni_buffer_ensure_tailroom_def)
  next
    case False
    have "unat (ni_buffer_tailroom bp) = unat (buf_size bp) - unat (buf_tail bp)"
      using ni_buffer_tailroom_wf [OF wf] sz by simp
    then have small: "unat (buf_size bp) < unat (buf_tail bp) + n"
      using False un by (simp add: word_le_nat_alt)
    have "buf_size bp1 = buf_size bp + ucast (of_nat n :: u32)"
      using b1(1) False by (auto simp: ni_buffer_ensure_tailroom_def Let_def)
    then have "unat (buf_size bp1) = unat (buf_size bp) + n"
      using nw un unat_u32_u64 [of "of_nat n"] unat_add_no_wrap [of "buf_size bp" "ucast (of_nat n :: u32)"] by simp
    then show ?thesis using small n by simp
  qed
  then show ?thesis using b1 h by (auto simp: rbuf_ok_def)
qed

lemma rbuf_fill:
  assumes ok: "rbuf_ok bp" and room: "unat (buf_tail bp) + n \<le> unat (buf_size bp)" and l: "length bs \<le> n"
  shows "\<exists>base bp'. mem_write (buf_base bp) (ni_buffer_tail bp) bs = Some base
           \<and> snd (ni_buffer_push_tail (bp\<lparr>buf_base := base\<rparr>) (of_nat (length bs))) = bp'
           \<and> rbuf_ok bp' \<and> buf_bytes bp' = buf_bytes bp @ bs"
  using fill_tail [of bp bs] ok room l by (fastforce simp: rbuf_ok_def)

text \<open>A script of data only: the chunks in which the bytes arrive.\<close>

definition chunks :: "byte list list \<Rightarrow> os_read list" where
  "chunks cs = map Data cs"

definition chunks_ok :: "byte list list \<Rightarrow> bool" where
  "chunks_ok cs \<longleftrightarrow> (\<forall>c \<in> set cs. c \<noteq> [])"

lemma os_do_read_chunks:
  assumes "chunks_ok cs" and "0 < n"
  shows "(cs = [] \<and> os_do_read (chunks cs) n = (ReadFailed, []))
     \<or> (\<exists>bs cs'. os_do_read (chunks cs) n = (ReadSome bs, chunks cs') \<and> bs \<noteq> [] \<and> length bs \<le> n
           \<and> chunks_ok cs' \<and> concat cs = bs @ concat cs')"
proof (cases cs)
  case Nil
  then show ?thesis by (simp add: chunks_def)
next
  case (Cons c cs0)
  show ?thesis
  proof (cases "length c \<le> n")
    case True
    then show ?thesis using assms Cons by (auto simp: chunks_def chunks_ok_def)
  next
    case False
    then have "os_do_read (chunks cs) n = (ReadSome (take n c), chunks (drop n c # cs0))"
      using assms Cons by (auto simp: chunks_def chunks_ok_def)
    moreover have "chunks_ok (drop n c # cs0)" using assms Cons False by (auto simp: chunks_ok_def)
    moreover have "concat cs = take n c @ concat (drop n c # cs0)" using Cons by simp
    ultimately show ?thesis using assms False by fastforce
  qed
qed

lemma demux_loop_frame:
  assumes ok: "rbuf_ok bp" and f: "frame_ok f" and cs: "chunks_ok cs" and rc: "rcount < 2 ^ 31"
    and acc: "prefix (buf_bytes bp) (frame_bytes f)"
    and str: "prefix (frame_bytes f) (buf_bytes bp @ concat cs) \<or> prefix (buf_bytes bp @ concat cs) (frame_bytes f)"
  shows "\<exists>r bp' cs'. demux_loop fresh rcount rs bp (chunks cs) = Some (r, bp', chunks cs')
     \<and> rbuf_ok bp' \<and> chunks_ok cs' \<and> prefix (buf_bytes bp') (frame_bytes f)
     \<and> buf_bytes bp' @ concat cs' = buf_bytes bp @ concat cs
     \<and> (r = RxPacket \<and> buf_bytes bp' = frame_bytes f \<and> length (buf_bytes bp') < length (buf_bytes bp) + rcount
        \<or> r = RxMore \<and> length (buf_bytes bp') = length (buf_bytes bp) + rcount
        \<or> r = RxError \<and> cs' = [] \<and> buf_bytes bp' \<noteq> frame_bytes f)"
  using ok cs rc acc str
proof (induction rcount arbitrary: bp cs rs rule: less_induct)
  case (less rcount)
  let ?acc = "buf_bytes bp"
  note lf = length_frame_bytes [of f]
  have lacc: "length ?acc \<le> length (frame_bytes f)" using less.prems(4) by (rule prefix_length_le)
  have lf32: "length (frame_bytes f) < 2 ^ 32" using f lf by (simp add: frame_ok_def DATA_HEADER_SIZE_def)
  show ?case
  proof (cases "rcount = 0")
    case True
    then show ?thesis using less.prems by (auto simp: demux_loop.simps [of fresh 0])
  next
    case rpos: False
    note want = demux_want_prefix [OF less.prems(1) f less.prems(4)]
    show ?thesis
    proof (cases "?acc = frame_bytes f")
      case True
      then have "demux_loop fresh rcount rs bp (chunks cs) = Some (RxPacket, bp, chunks cs)"
        using want rpos lf by (simp add: demux_loop.simps [of fresh rcount])
      then show ?thesis using less.prems True rpos by auto
    next
      case False
      then have lt: "length ?acc < length (frame_bytes f)"
        using less.prems(4) lacc by (metis append_Nil2 prefix_def prefix_length_le le_neq_implies_less append_eq_append_conv)
      define w where "w = (if length ?acc < 12 then 12 - length ?acc else length (frame_bytes f) - length ?acc)"
      have wpos: "0 < w" and wle: "length ?acc + w \<le> length (frame_bytes f)"
        using lt lf by (auto simp: w_def)
      have want': "demux_want bp = Some (Some w)" using want False by (simp add: w_def)
      let ?n = "min w rcount"
      have npos: "0 < ?n" and n31: "?n < 2 ^ 31" using wpos rpos less.prems(3) by auto
      obtain bp1 where b1: "ni_buffer_ensure_tailroom fresh bp (of_nat ?n) = Some (True, bp1)" "rbuf_ok bp1"
        "buf_bytes bp1 = ?acc" "unat (buf_tail bp1) + ?n \<le> unat (buf_size bp1)"
        using rbuf_ensure [OF less.prems(1) n31] lacc lf32 by auto
      from os_do_read_chunks [OF less.prems(2) npos]
      consider (none) "cs = []" "os_do_read (chunks cs) ?n = (ReadFailed, [])"
        | (some) bs cs1 where "os_do_read (chunks cs) ?n = (ReadSome bs, chunks cs1)" "bs \<noteq> []"
          "length bs \<le> ?n" "chunks_ok cs1" "concat cs = bs @ concat cs1" by blast
      then show ?thesis
      proof cases
        case none
        then have "demux_loop fresh rcount rs bp (chunks cs) = Some (RxError, bp1, chunks [])"
          using rpos want' b1(1) by (simp add: demux_loop.simps [of fresh rcount] chunks_def Let_def)
        then show ?thesis using b1 less.prems False none by (auto simp: chunks_ok_def)
      next
        case some
        obtain base bp2 where b2: "mem_write (buf_base bp1) (ni_buffer_tail bp1) bs = Some base"
          "snd (ni_buffer_push_tail (bp1\<lparr>buf_base := base\<rparr>) (of_nat (length bs))) = bp2"
          "rbuf_ok bp2" "buf_bytes bp2 = ?acc @ bs"
          using rbuf_fill [OF b1(2,4) some(3)] b1(3) by auto
        have step: "demux_loop fresh rcount rs bp (chunks cs) = demux_loop fresh (rcount - length bs) True bp2 (chunks cs1)"
          using rpos want' b1(1) some(1) b2(1,2) by (simp add: demux_loop.simps [of fresh rcount] Let_def)
        have dec: "rcount - length bs < rcount" using some(2) rpos by auto
        have pre2: "prefix (buf_bytes bp2) (frame_bytes f)"
        proof -
          have pp: "prefix (buf_bytes bp2) (?acc @ concat cs)" using b2(4) some(5) by simp
          have "length (buf_bytes bp2) \<le> length (frame_bytes f)"
            using some(3) wle b2(4) by simp
          with pp less.prems(5) show ?thesis
            by (meson prefix_length_prefix prefix_order.trans)
        qed
        have str2: "prefix (frame_bytes f) (buf_bytes bp2 @ concat cs1) \<or> prefix (buf_bytes bp2 @ concat cs1) (frame_bytes f)"
          using less.prems(5) b2(4) some(5) by simp
        have lb: "length bs \<le> rcount" using some(3) by simp
        have rc2: "rcount - length bs < 2 ^ 31" using less.prems(3) by simp
        from less.IH [OF dec b2(3) some(4) rc2 pre2 str2, of True] step show ?thesis
          using b2(4) some(5) lb by fastforce
      qed
    qed
  qed
qed

definition rbuf_new :: ni_buffer where
  "rbuf_new = ni_buffer_new (4096 + of_nat DATA_HEADER_SIZE)"

fun demux_run :: "(nat \<Rightarrow> byte) \<Rightarrow> nat list \<Rightarrow> ni_buffer \<Rightarrow> os_read list \<Rightarrow>
    (byte list list \<times> ni_buffer \<times> os_read list) option" where
  "demux_run fresh [] bp script = Some ([], bp, script)"
| "demux_run fresh (n # ns) bp script = do {
     (r, bp', script') \<leftarrow> demux_loop fresh n False bp script;
     (if r = RxPacket
      then do { (ps, b, s) \<leftarrow> demux_run fresh ns rbuf_new script'; Some (buf_bytes bp' # ps, b, s) }
      else demux_run fresh ns bp' script') }"

lemma rbuf_new_ok: "rbuf_ok rbuf_new" "buf_bytes rbuf_new = []"
proof -
  show "rbuf_ok rbuf_new"
    by (simp add: rbuf_ok_def rbuf_new_def ni_buffer_new_wf DATA_HEADER_SIZE_def)
       (simp add: ni_buffer_new_def ni_buffer_init_def)
  show "buf_bytes rbuf_new = []" by (simp add: rbuf_new_def ni_buffer_new_bytes)
qed

definition frames_bytes :: "frame list \<Rightarrow> byte list" where
  "frames_bytes fs = concat (map frame_bytes fs)"

lemma frame_bytes_nonempty [simp]: "frame_bytes f \<noteq> []"
  using length_frame_bytes [of f] by auto

lemma demux_call:
  assumes ok: "rbuf_ok bp" and cs: "chunks_ok cs" and n: "0 < n" "n < 2 ^ 31" and fs: "\<forall>f \<in> set fs. frame_ok f"
    and eq: "buf_bytes bp @ concat cs = frames_bytes fs"
    and pre: "case fs of [] \<Rightarrow> True | f # _ \<Rightarrow> prefix (buf_bytes bp) (frame_bytes f)"
  obtains (packet) bp' cs' f fs' where "fs = f # fs'"
      "demux_loop fresh n False bp (chunks cs) = Some (RxPacket, bp', chunks cs')"
      "buf_bytes bp' = frame_bytes f" "chunks_ok cs'" "concat cs' = frames_bytes fs'"
      "length (concat cs') \<le> length (concat cs)"
    | (more) r bp' cs' where "r \<noteq> RxPacket" "demux_loop fresh n False bp (chunks cs) = Some (r, bp', chunks cs')"
      "rbuf_ok bp'" "chunks_ok cs'" "buf_bytes bp' @ concat cs' = frames_bytes fs"
      "case fs of [] \<Rightarrow> True | f # _ \<Rightarrow> prefix (buf_bytes bp') (frame_bytes f)"
      "length (concat cs') < length (concat cs) \<or> fs = []"
proof (cases fs)
  case Nil
  then have e: "buf_bytes bp = []" "concat cs = []" using eq by (auto simp: frames_bytes_def)
  define d :: frame where "d = (0, 0, [])"
  have d: "frame_ok d" by (simp add: d_def frame_ok_def DATA_HEADER_SIZE_def)
  have p: "prefix (buf_bytes bp) (frame_bytes d)" by (simp add: e)
  have q: "prefix (frame_bytes d) (buf_bytes bp @ concat cs) \<or> prefix (buf_bytes bp @ concat cs) (frame_bytes d)"
    by (simp add: e)
  obtain r bp' cs' where x: "demux_loop fresh n False bp (chunks cs) = Some (r, bp', chunks cs')"
    "rbuf_ok bp'" "chunks_ok cs'" "buf_bytes bp' @ concat cs' = buf_bytes bp @ concat cs"
    "r = RxPacket \<and> buf_bytes bp' = frame_bytes d \<or> r \<noteq> RxPacket"
    using demux_loop_frame [OF ok d cs n(2) p q, of fresh False] by blast
  have e2: "buf_bytes bp' = []" using x(4) by (simp add: e)
  then have "r \<noteq> RxPacket" using x(5) frame_bytes_nonempty [of d] by metis
  from more [OF this x(1-3)] x(4) eq Nil show thesis by simp
next
  case (Cons f fs')
  have fo: "frame_ok f" using fs Cons by simp
  have str: "prefix (frame_bytes f) (buf_bytes bp @ concat cs)" using eq Cons by (simp add: frames_bytes_def)
  have pf: "prefix (buf_bytes bp) (frame_bytes f)" using pre Cons by simp
  obtain r bp' cs' where x: "demux_loop fresh n False bp (chunks cs) = Some (r, bp', chunks cs')"
    "rbuf_ok bp'" "chunks_ok cs'" "prefix (buf_bytes bp') (frame_bytes f)"
    "buf_bytes bp' @ concat cs' = buf_bytes bp @ concat cs"
    "r = RxPacket \<and> buf_bytes bp' = frame_bytes f
        \<or> r = RxMore \<and> length (buf_bytes bp') = length (buf_bytes bp) + n
        \<or> r = RxError \<and> cs' = [] \<and> buf_bytes bp' \<noteq> frame_bytes f"
    using demux_loop_frame [OF ok fo cs n(2) pf, of fresh False] str by blast
  have len: "length (buf_bytes bp') + length (concat cs') = length (buf_bytes bp) + length (concat cs)"
    using arg_cong [OF x(5), of length] by simp
  consider "r = RxPacket" "buf_bytes bp' = frame_bytes f"
    | "r = RxMore" "length (buf_bytes bp') = length (buf_bytes bp) + n"
    | "r = RxError" "cs' = []" "buf_bytes bp' \<noteq> frame_bytes f" using x(6) by blast
  then show thesis
  proof cases
    case 1
    have "concat cs' = frames_bytes fs'" using x(5) eq 1 Cons by (simp add: frames_bytes_def)
    moreover have "length (concat cs') \<le> length (concat cs)"
      using len 1 prefix_length_le [OF pf] by simp
    ultimately show thesis using packet [OF Cons _ 1(2) x(3)] x(1) 1 by blast
  next
    case 2
    then have "length (concat cs') < length (concat cs)" using len n by linarith
    then show thesis using more [of r bp' cs'] x eq Cons 2 by simp
  next
    case 3
    have "prefix (frame_bytes f) (buf_bytes bp')" using str x(5) 3 by simp
    then have "buf_bytes bp' = frame_bytes f" using x(4) by (simp add: prefix_order.antisym)
    then show thesis using 3 by simp
  qed
qed

lemma demux_run_frames:
  assumes "rbuf_ok bp" and "chunks_ok cs" and "\<forall>n \<in> set ns. 0 < n \<and> n < 2 ^ 31" and "\<forall>f \<in> set fs. frame_ok f"
    and "buf_bytes bp @ concat cs = frames_bytes fs"
    and "case fs of [] \<Rightarrow> True | f # _ \<Rightarrow> prefix (buf_bytes bp) (frame_bytes f)"
  shows "\<exists>fs1 fs2 b cs'. fs = fs1 @ fs2 \<and> demux_run fresh ns bp (chunks cs) = Some (map frame_bytes fs1, b, chunks cs')
           \<and> buf_bytes b @ concat cs' = frames_bytes fs2
           \<and> (length (concat cs) + length fs \<le> length ns \<longrightarrow> fs2 = [])"
  using assms
proof (induction ns arbitrary: bp cs fs)
  case Nil
  then show ?case by (intro exI [of _ "[]"] exI [of _ fs] exI [of _ bp] exI [of _ cs]) auto
next
  case (Cons n ns)
  have n: "0 < n" "n < 2 ^ 31" and ns: "\<forall>n \<in> set ns. 0 < n \<and> n < 2 ^ 31" using Cons.prems(3) by auto
  show ?case
  proof (rule demux_call [OF Cons.prems(1,2) n Cons.prems(4,5,6), of fresh])
    fix bp' cs' f fs'
    assume p: "fs = f # fs'" "demux_loop fresh n False bp (chunks cs) = Some (RxPacket, bp', chunks cs')"
      "buf_bytes bp' = frame_bytes f" "chunks_ok cs'" "concat cs' = frames_bytes fs'"
      "length (concat cs') \<le> length (concat cs)"
    have hd: "case fs' of [] \<Rightarrow> True | f # _ \<Rightarrow> prefix (buf_bytes rbuf_new) (frame_bytes f)"
      by (simp add: rbuf_new_ok split: list.split)
    have fo: "\<forall>f \<in> set fs'. frame_ok f" using Cons.prems(4) p by simp
    have eq: "buf_bytes rbuf_new @ concat cs' = frames_bytes fs'" using p by (simp add: rbuf_new_ok)
    from Cons.IH [OF rbuf_new_ok(1) p(4) ns fo eq hd] obtain fs1 fs2 b cs'' where
      "fs' = fs1 @ fs2" "demux_run fresh ns rbuf_new (chunks cs') = Some (map frame_bytes fs1, b, chunks cs'')"
      "buf_bytes b @ concat cs'' = frames_bytes fs2" "length (concat cs') + length fs' \<le> length ns \<longrightarrow> fs2 = []"
      by blast
    moreover from this have "demux_run fresh (n # ns) bp (chunks cs) = Some (map frame_bytes (f # fs1), b, chunks cs'')"
      using p(2,3) by simp
    moreover have "length (concat cs) + length fs \<le> length (n # ns) \<longrightarrow> length (concat cs') + length fs' \<le> length ns"
      using p(1,6) by simp
    ultimately show ?thesis using p(1)
      by (intro exI [of _ "f # fs1"] exI [of _ fs2] exI [of _ b] exI [of _ cs'']) simp
  next
    fix r bp' cs'
    assume m: "r \<noteq> RxPacket" "demux_loop fresh n False bp (chunks cs) = Some (r, bp', chunks cs')"
      "rbuf_ok bp'" "chunks_ok cs'" "buf_bytes bp' @ concat cs' = frames_bytes fs"
      "case fs of [] \<Rightarrow> True | f # _ \<Rightarrow> prefix (buf_bytes bp') (frame_bytes f)"
      "length (concat cs') < length (concat cs) \<or> fs = []"
    from Cons.IH [OF m(3,4) ns Cons.prems(4) m(5,6)] obtain fs1 fs2 b cs'' where
      "fs = fs1 @ fs2" "demux_run fresh ns bp' (chunks cs') = Some (map frame_bytes fs1, b, chunks cs'')"
      "buf_bytes b @ concat cs'' = frames_bytes fs2" "length (concat cs') + length fs \<le> length ns \<longrightarrow> fs2 = []"
      by blast
    moreover from this have "demux_run fresh (n # ns) bp (chunks cs) = Some (map frame_bytes fs1, b, chunks cs'')"
      using m(1,2) by simp
    moreover have "length (concat cs) + length fs \<le> length (n # ns) \<longrightarrow> fs = [] \<or> length (concat cs') + length fs \<le> length ns"
      using m(7) by auto
    ultimately show ?thesis
      by (intro exI [of _ fs1] exI [of _ fs2] exI [of _ b] exI [of _ cs'']) auto
  qed
qed

text \<open>C3: The demultiplexer reassembles the frame stream.  However the bytes of a sequence of frames
  are cut into chunks on the wire, and whatever the read budget of each call, the frames handed on are
  exactly the frames sent, whole, in order and without a gap; and once there have been enough calls
  all of them have been handed on.\<close>

theorem demux_reassembles:
  assumes "chunks_ok cs" and "\<forall>n \<in> set ns. 0 < n \<and> n < 2 ^ 31" and "\<forall>f \<in> set fs. frame_ok f"
    and "concat cs = frames_bytes fs"
  shows "\<exists>k b cs'. demux_run fresh ns rbuf_new (chunks cs) = Some (map frame_bytes (take k fs), b, chunks cs')
           \<and> buf_bytes b @ concat cs' = frames_bytes (drop k fs)
           \<and> (length (concat cs) + length fs \<le> length ns \<longrightarrow> length fs \<le> k)"
proof -
  have "\<exists>fs1 fs2 b cs'. fs = fs1 @ fs2 \<and> demux_run fresh ns rbuf_new (chunks cs) = Some (map frame_bytes fs1, b, chunks cs')
           \<and> buf_bytes b @ concat cs' = frames_bytes fs2
           \<and> (length (concat cs) + length fs \<le> length ns \<longrightarrow> fs2 = [])"
    by (rule demux_run_frames) (use assms rbuf_new_ok in \<open>auto split: list.split\<close>)
  then obtain fs1 fs2 b cs' where "fs = fs1 @ fs2" "demux_run fresh ns rbuf_new (chunks cs) = Some (map frame_bytes fs1, b, chunks cs')"
    "buf_bytes b @ concat cs' = frames_bytes fs2" "length (concat cs) + length fs \<le> length ns \<longrightarrow> fs2 = []" by blast
  then show ?thesis by (intro exI [of _ "length fs1"] exI [of _ b] exI [of _ cs']) auto
qed

lemma demux_reassembles_witness:
  "\<exists>k b cs'. demux_run (\<lambda>_. 0) [4096, 5] rbuf_new (chunks [htonl 2 @ htonl 7, htonl 1 @ [65 :: byte]])
        = Some (map frame_bytes (take k [(2, 7, [65])]), b, chunks cs')
     \<and> buf_bytes b @ concat cs' = frames_bytes (drop k [(2, 7, [65])])
     \<and> (length (concat [htonl 2 @ htonl 7, htonl 1 @ [65 :: byte]]) + length [(2 :: u32, 7 :: u32, [65 :: byte])] \<le> length [4096, 5 :: nat]
        \<longrightarrow> length [(2 :: u32, 7 :: u32, [65 :: byte])] \<le> k)"
  by (rule demux_reassembles)
     (auto simp: chunks_ok_def htonl_def frame_ok_def DATA_HEADER_SIZE_def frames_bytes_def frame_bytes_def header_bytes_def)

section \<open>The tunnel\<close>

lemma find_channel_cong:
  "(\<And>j. map_option ep_channel_id (eps' j) = map_option ep_channel_id (eps j)) \<Longrightarrow>
     find_channel eps' ch is = find_channel eps ch is"
proof (induction "is")
  case Nil
  then show ?case by simp
next
  case (Cons i "is")
  from Cons.prems [of i] Cons.IH [OF Cons.prems] show ?case
    by (cases "eps i"; cases "eps' i") auto
qed

lemma px_pending_set_ep:
  "px_pending (set_ep i ep px) j = (if j = i then ep_pending ep else px_pending px j)"
  by (simp add: px_pending_def)

lemma ep_pending_rbuf [simp]: "ep_pending (ep\<lparr>ep_rbuf := b\<rparr>) = ep_pending ep"
  by (simp add: ep_pending_def)

text \<open>Queueing data for a connected endpoint: the source pays, and nothing else changes.\<close>

lemma queue_write_exact:
  assumes "px_eps px k = Some sk" "ep_connected sk" "mb_source m = Some i" "px_eps px i = Some ep" "i \<noteq> k"
    "mb_credit m \<le> ep_rx_credit ep"
  shows "io_endpoint_queue_write k m px =
     Some (px\<lparr>px_eps := (px_eps px)(i \<mapsto> ep\<lparr>ep_rx_credit := ep_rx_credit ep - mb_credit m\<rparr>, k \<mapsto> sk\<lparr>ep_wqueue := ep_wqueue sk @ [m]\<rparr>)\<rparr>)"
  using assms by (simp add: io_endpoint_queue_write_def set_ep_def)

subsection \<open>The sending side\<close>

text \<open>Several reads of a simplex endpoint, each with what the operating system answers, and the pieces they get.\<close>

fun mux_calls :: "(u32 option \<times> os_read list) list \<Rightarrow> ep_ref \<Rightarrow> proxy \<Rightarrow> proxy option" where
  "mux_calls [] i px = Some px"
| "mux_calls ((fionread, script) # rs) i px = do { px1 \<leftarrow> proxy_recv_mux fionread script i px; mux_calls rs i px1 }"

fun pieces :: "(u32 option \<times> os_read list) list \<Rightarrow> io_endpoint \<Rightarrow> byte list list option" where
  "pieces [] ep = Some []"
| "pieces ((fionread, script) # rs) ep =
     (if ep_rx_credit ep = 0 then None
      else case fst (os_do_read script (unat (recv_budget fionread ep))) of
        ReadSome bs \<Rightarrow> map_option ((#) bs) (pieces rs (ep\<lparr>ep_rx_credit := ep_rx_credit ep - of_nat (length bs)\<rparr>))
      | _ \<Rightarrow> None)"

definition messages :: "ep_ref \<Rightarrow> (byte list \<Rightarrow> byte list) \<Rightarrow> byte list list \<Rightarrow> io_mbuf list \<Rightarrow> bool" where
  "messages src f = list_all2 (\<lambda>d x. mb_source x = Some src \<and> mb_credit x = of_nat (length d) \<and> mbuf_bytes x = f d)"

text \<open>The messages for the pieces stand at the end of the queue, their source has paid for them, and that is all.\<close>

definition sent :: "proxy \<Rightarrow> ep_ref \<Rightarrow> ep_ref \<Rightarrow> (byte list \<Rightarrow> byte list) \<Rightarrow> byte list list \<Rightarrow> ni_buffer option \<Rightarrow> proxy \<Rightarrow> bool" where
  "sent px i k f ds rbuf px' \<longleftrightarrow> (\<exists>ep sk ms. px_eps px i = Some ep \<and> px_eps px k = Some sk \<and> messages i f ds ms
     \<and> px' = px\<lparr>px_eps := (px_eps px)(i \<mapsto> ep\<lparr>ep_rx_credit := ep_rx_credit ep - of_nat (length (concat ds)), ep_rbuf := rbuf\<rparr>,
                                  k \<mapsto> sk\<lparr>ep_wqueue := ep_wqueue sk @ ms\<rparr>)\<rparr>)"

lemma sent_nil:
  assumes "px_eps px i = Some ep" "px_eps px k = Some sk" "i \<noteq> k"
  shows "sent px i k f [] r (px\<lparr>px_eps := (px_eps px)(i \<mapsto> ep\<lparr>ep_rbuf := r\<rparr>)\<rparr>)"
proof -
  have e: "(px_eps px)(i \<mapsto> ep\<lparr>ep_rbuf := r\<rparr>) =
      (px_eps px)(i \<mapsto> ep\<lparr>ep_rx_credit := ep_rx_credit ep - of_nat (length (concat ([] :: byte list list))), ep_rbuf := r\<rparr>, k \<mapsto> sk\<lparr>ep_wqueue := ep_wqueue sk @ []\<rparr>)"
    using assms by (simp add: fun_eq_iff)
  show ?thesis unfolding sent_def
    by (rule exI [of _ ep], rule exI [of _ sk], rule exI [of _ "[]"], intro conjI) (simp_all only: assms e messages_def list_all2_Nil)
qed

lemma sent_trans:
  assumes "sent px i k f ds1 r1 px1" "sent px1 i k f ds2 r2 px2" "i \<noteq> k"
  shows "sent px i k f (ds1 @ ds2) r2 px2"
proof -
  obtain ep sk ms where 1: "px_eps px i = Some ep" "px_eps px k = Some sk" "messages i f ds1 ms"
    "px1 = px\<lparr>px_eps := (px_eps px)(i \<mapsto> ep\<lparr>ep_rx_credit := ep_rx_credit ep - of_nat (length (concat ds1)), ep_rbuf := r1\<rparr>,
        k \<mapsto> sk\<lparr>ep_wqueue := ep_wqueue sk @ ms\<rparr>)\<rparr>" using assms(1) unfolding sent_def by blast
  obtain ms2 where 2: "messages i f ds2 ms2"
    "px2 = px\<lparr>px_eps := (px_eps px)(i \<mapsto> ep\<lparr>ep_rx_credit := ep_rx_credit ep - of_nat (length (concat ds1)) - of_nat (length (concat ds2)), ep_rbuf := r2\<rparr>,
        k \<mapsto> sk\<lparr>ep_wqueue := (ep_wqueue sk @ ms) @ ms2\<rparr>)\<rparr>"
    using assms(2,3) unfolding sent_def 1(4) by (auto simp: fun_upd_twist)
  have "messages i f (ds1 @ ds2) (ms @ ms2)" using 1(3) 2(1) by (auto simp: messages_def intro: list_all2_appendI)
  then show ?thesis using 1(1,2) 2(2) unfolding sent_def by (intro exI [of _ ep] exI [of _ sk] exI [of _ "ms @ ms2"]) (simp add: diff_diff_eq)
qed

lemma sent_source:
  assumes "sent px i k f ds r px'" "px_eps px i = Some ep" "i \<noteq> k"
  shows "px_eps px' i = Some (ep\<lparr>ep_rx_credit := ep_rx_credit ep - of_nat (length (concat ds)), ep_rbuf := r\<rparr>)"
  using assms by (auto simp: sent_def)

lemma sent_sink:
  assumes "sent px i k f ds r px'" "px_eps px k = Some sk"
  shows "\<exists>q. px_eps px' k = Some (sk\<lparr>ep_wqueue := q\<rparr>)"
  using assms by (auto simp: sent_def)

lemma sent_others: "sent px i k f ds r px' \<Longrightarrow> j \<noteq> i \<Longrightarrow> j \<noteq> k \<Longrightarrow> px_eps px' j = px_eps px j"
  by (auto simp: sent_def)

lemma sent_pending:
  assumes "sent px i k f ds r px'" "i \<noteq> k"
  shows "px_pending px' k = px_pending px k @ concat (map f ds)"
proof -
  obtain ep sk ms where s: "px_eps px k = Some sk" "messages i f ds ms" "px_eps px' k = Some (sk\<lparr>ep_wqueue := ep_wqueue sk @ ms\<rparr>)"
    using assms by (auto simp: sent_def)
  have "map mbuf_bytes ms = map f ds" using s(2) unfolding messages_def by (induction rule: list_all2_induct) simp_all
  then show ?thesis using s(1,3) by (simp add: px_pending_def ep_pending_def)
qed

lemma sent_channel:
  assumes "sent px i k f ds r px'" "i \<noteq> k"
  shows "proxy_channel_by_id s ch px' = proxy_channel_by_id s ch px"
proof -
  obtain ep sk ms where e: "px_eps px i = Some ep" "px_eps px k = Some sk"
    "px' = px\<lparr>px_eps := (px_eps px)(i \<mapsto> ep\<lparr>ep_rx_credit := ep_rx_credit ep - of_nat (length (concat ds)), ep_rbuf := r\<rparr>,
        k \<mapsto> sk\<lparr>ep_wqueue := ep_wqueue sk @ ms\<rparr>)\<rparr>" using assms by (auto simp: sent_def)
  have "px_transport px' s = px_transport px s" by (cases s) (simp_all add: e(3))
  moreover have "find_channel (px_eps px') ch is = find_channel (px_eps px) ch is" for "is"
    by (rule find_channel_cong) (simp add: e)
  ultimately show ?thesis by (simp add: proxy_channel_by_id_def)
qed

abbreviation data_frame :: "u32 \<Rightarrow> byte list \<Rightarrow> byte list" where
  "data_frame ch d \<equiv> frame_bytes (CHANNEL_DATA, ch, d)"

lemma mux_calls_sent:
  assumes "pieces rs ep = Some ds" "px_eps px i = Some ep" "ep_sink ep = Some k" "ep_channel_id ep \<noteq> 0"
    "px_eps px k = Some sk" "ep_connected sk" "i \<noteq> k"
  shows "\<exists>px'. mux_calls rs i px = Some px' \<and> sent px i k (data_frame (ep_channel_id ep)) ds (ep_rbuf ep) px' \<and> length (concat ds) \<le> unat (ep_rx_credit ep)"
  using assms
proof (induction rs arbitrary: ep ds px sk)
  case Nil
  have "px = px\<lparr>px_eps := (px_eps px)(i \<mapsto> ep\<lparr>ep_rbuf := ep_rbuf ep\<rparr>)\<rparr>" using Nil.prems(2) by (simp add: fun_upd_idem)
  then show ?case using sent_nil [OF Nil.prems(2,5,7), of _ "ep_rbuf ep"] Nil.prems(1) by simp
next
  case (Cons r rs)
  obtain fionread script where r: "r = (fionread, script)" by fastforce
  let ?f = "data_frame (ep_channel_id ep)"
  obtain bs ds1 where p: "ep_rx_credit ep \<noteq> 0" "fst (os_do_read script (unat (recv_budget fionread ep))) = ReadSome bs"
    "pieces rs (ep\<lparr>ep_rx_credit := ep_rx_credit ep - of_nat (length bs)\<rparr>) = Some ds1" "ds = bs # ds1"
    using Cons.prems(1) r by (auto split: if_splits read_result.splits)
  obtain b where b: "proxy_recv_mux fionread script i px
      = io_endpoint_queue_write k \<lparr>mb_source = Some i, mb_buffer = Some b, mb_credit = of_nat (length bs)\<rparr> px"
    "buf_bytes b = header_bytes CHANNEL_DATA (ep_channel_id ep) (of_nat (length bs)) @ bs"
    using proxy_recv_mux_some [OF Cons.prems(2) p(1) Cons.prems(3,4) p(2)] by blast
  let ?m = "\<lparr>mb_source = Some i, mb_buffer = Some b, mb_credit = of_nat (length bs)\<rparr>"
  have len: "length bs \<le> unat (ep_rx_credit ep)"
    using p(2) os_do_read_some [of script "unat (recv_budget fionread ep)" bs] recv_budget_le [of fionread ep]
    by (metis le_trans prod.collapse word_le_nat_alt)
  then have un: "unat (of_nat (length bs) :: u32) = length bs" using unat_u32_less [of "ep_rx_credit ep"] u32_of_nat by simp
  then have pay: "mb_credit ?m \<le> ep_rx_credit ep" using len by (simp add: word_le_nat_alt)
  obtain px1 where px1: "proxy_recv_mux fionread script i px = Some px1"
    "px1 = px\<lparr>px_eps := (px_eps px)(i \<mapsto> ep\<lparr>ep_rx_credit := ep_rx_credit ep - of_nat (length bs)\<rparr>, k \<mapsto> sk\<lparr>ep_wqueue := ep_wqueue sk @ [?m]\<rparr>)\<rparr>"
    using queue_write_exact [OF Cons.prems(5,6) _ Cons.prems(2,7) pay] b(1) by simp
  have "messages i ?f [bs] [?m]" using b(2) by (simp add: messages_def mbuf_bytes_def frame_bytes_def)
  then have s1: "sent px i k ?f [bs] (ep_rbuf ep) px1"
    unfolding sent_def px1(2) using Cons.prems(2,5) by (intro exI conjI) (assumption | simp)+
  have e1: "px_eps px1 i = Some (ep\<lparr>ep_rx_credit := ep_rx_credit ep - of_nat (length bs)\<rparr>)"
    "px_eps px1 k = Some (sk\<lparr>ep_wqueue := ep_wqueue sk @ [?m]\<rparr>)" using px1(2) Cons.prems(7) by simp_all
  obtain px' where px': "mux_calls rs i px1 = Some px'" "sent px1 i k ?f ds1 (ep_rbuf ep) px'"
    "length (concat ds1) \<le> unat (ep_rx_credit ep - of_nat (length bs))"
    using Cons.IH [OF p(3) e1(1) _ _ e1(2) _ Cons.prems(7)] Cons.prems(3,4,6) by auto
  have "unat (ep_rx_credit ep - of_nat (length bs)) = unat (ep_rx_credit ep) - length bs" using pay un by (simp add: unat_sub)
  then show ?case using sent_trans [OF s1 px'(2) Cons.prems(7)] px'(1,3) px1(1) r p(4) len by simp
qed

subsection \<open>The receiving side\<close>

text \<open>One call of the loop, when the bytes that are there are the beginning of a sequence of frames.\<close>

lemma demux_call_prefix:
  assumes ok: "rbuf_ok bp" and cs: "chunks_ok cs" and n: "0 < n" "n < 2 ^ 31" and fs: "\<forall>f \<in> set fs. frame_ok f"
    and str: "prefix (buf_bytes bp @ concat cs) (frames_bytes fs)"
    and pre: "case fs of [] \<Rightarrow> True | f # _ \<Rightarrow> prefix (buf_bytes bp) (frame_bytes f)"
  obtains (packet) bp' cs' f fs' where "fs = f # fs'"
      "demux_loop fresh n False bp (chunks cs) = Some (RxPacket, bp', chunks cs')"
      "rbuf_ok bp'" "buf_bytes bp' = frame_bytes f" "chunks_ok cs'" "buf_bytes bp @ concat cs = frame_bytes f @ concat cs'"
    | (more) r bp' cs' where "r = RxMore \<or> r = RxError" "demux_loop fresh n False bp (chunks cs) = Some (r, bp', chunks cs')"
      "rbuf_ok bp'" "chunks_ok cs'" "buf_bytes bp' @ concat cs' = buf_bytes bp @ concat cs"
      "case fs of [] \<Rightarrow> True | f # _ \<Rightarrow> prefix (buf_bytes bp') (frame_bytes f)"
      "length (concat cs') < length (concat cs) \<or> cs' = [] \<and> (case fs of [] \<Rightarrow> True | f # _ \<Rightarrow> buf_bytes bp' \<noteq> frame_bytes f)"
proof -
  define f :: frame where "f = (case fs of [] \<Rightarrow> (0, 0, []) | f # _ \<Rightarrow> f)"
  have fo: "frame_ok f" using fs by (cases fs) (simp_all add: f_def frame_ok_def DATA_HEADER_SIZE_def)
  have pf: "prefix (buf_bytes bp) (frame_bytes f)" using pre str by (cases fs) (simp_all add: f_def frames_bytes_def)
  have st: "prefix (frame_bytes f) (buf_bytes bp @ concat cs) \<or> prefix (buf_bytes bp @ concat cs) (frame_bytes f)"
  proof (cases fs)
    case (Cons g gs)
    then have "prefix (buf_bytes bp @ concat cs) (frame_bytes f @ frames_bytes gs)" using str by (simp add: f_def frames_bytes_def)
    then show ?thesis using prefix_same_cases prefixI by blast
  next
    case Nil
    then have "buf_bytes bp @ concat cs = []" using str by (simp only: frames_bytes_def list.map concat.simps prefix_bot.extremum_unique)
    then show ?thesis by (simp only: Nil_prefix simp_thms)
  qed
  obtain r bp' cs' where x: "demux_loop fresh n False bp (chunks cs) = Some (r, bp', chunks cs')"
    "rbuf_ok bp'" "chunks_ok cs'" "prefix (buf_bytes bp') (frame_bytes f)"
    "buf_bytes bp' @ concat cs' = buf_bytes bp @ concat cs"
    "r = RxPacket \<and> buf_bytes bp' = frame_bytes f
        \<or> r = RxMore \<and> length (buf_bytes bp') = length (buf_bytes bp) + n
        \<or> r = RxError \<and> cs' = [] \<and> buf_bytes bp' \<noteq> frame_bytes f"
    using demux_loop_frame [OF ok fo cs n(2) pf st, of fresh False] by blast
  have pre': "case fs of [] \<Rightarrow> True | f # _ \<Rightarrow> prefix (buf_bytes bp') (frame_bytes f)" using x(4) by (cases fs) (simp_all add: f_def)
  consider "r = RxPacket" "buf_bytes bp' = frame_bytes f"
    | "r = RxMore" "length (buf_bytes bp') = length (buf_bytes bp) + n"
    | "r = RxError" "cs' = []" "buf_bytes bp' \<noteq> frame_bytes f" using x(6) by blast
  then show thesis
  proof cases
    case 1
    show thesis
    proof (cases fs)
      case Nil
      then have "buf_bytes bp' @ concat cs' = []" using str unfolding x(5) by (simp only: frames_bytes_def list.map concat.simps prefix_bot.extremum_unique)
      then have "buf_bytes bp' = []" by (simp only: append_is_Nil_conv)
      then show thesis using 1(2) frame_bytes_nonempty [of f] by metis
    next
      case (Cons g gs)
      then show thesis using packet [OF Cons, of bp' cs'] x 1 by (simp add: f_def)
    qed
  next
    case 2
    have "length (buf_bytes bp') + length (concat cs') = length (buf_bytes bp) + length (concat cs)"
      using arg_cong [OF x(5), of length] by simp
    then have "length (concat cs') < length (concat cs)" using 2(2) n(1) by linarith
    then show thesis using more [OF _ x(1-3,5) pre'] 2(1) by blast
  next
    case 3
    have "case fs of [] \<Rightarrow> True | f # _ \<Rightarrow> buf_bytes bp' \<noteq> frame_bytes f" using 3(3) by (cases fs) (simp_all add: f_def)
    then show thesis using more [OF _ x(1-3,5) pre'] 3(1,2) by blast
  qed
qed

definition rbuf_of :: "ni_buffer option \<Rightarrow> ni_buffer" where
  "rbuf_of r = (case r of None \<Rightarrow> rbuf_new | Some b \<Rightarrow> b)"

lemma budget_bounds:
  assumes "fionread \<noteq> Some 0" "ep_rx_credit ep \<noteq> 0" "ep_rx_credit ep < 2 ^ 31"
  shows "0 < unat (recv_budget fionread ep)" "unat (recv_budget fionread ep) < 2 ^ 31"
proof -
  have "recv_budget fionread ep \<noteq> 0" using assms(1,2) by (auto simp: recv_budget_def Let_def split: option.split)
  then show "0 < unat (recv_budget fionread ep)" by (simp add: unat_gt_0)
  have "recv_budget fionread ep < 2 ^ 31" using recv_budget_le [of fionread ep] assms(3) by (rule le_less_trans)
  then show "unat (recv_budget fionread ep) < 2 ^ 31" by (simp add: word_less_nat_alt)
qed

lemma rbuf_of_eq: "(case r of None \<Rightarrow> ni_buffer_new (4096 + of_nat DATA_HEADER_SIZE) | Some b \<Rightarrow> b) = rbuf_of r"
  by (cases r) (simp_all add: rbuf_of_def rbuf_new_def)

text \<open>A call that completes a frame sends its data to the endpoint of the channel.\<close>

lemma recv_demux_packet:
  assumes ep: "px_eps px m = Some me" "ep_rx_credit me \<noteq> 0"
    and loop: "demux_loop fresh (unat (recv_budget fionread me)) False (rbuf_of (ep_rbuf me)) script = Some (RxPacket, bp', script')"
      "rbuf_ok bp'" "buf_bytes bp' = data_frame ch d"
    and len: "length d \<le> unat (ep_rx_credit me)"
    and sink: "proxy_channel_by_id (other_side (ep_transport me)) ch px = Some (Some t)" "px_eps px t = Some te" "ep_connected te" "m \<noteq> t"
  shows "\<exists>px'. proxy_recv_demux fresh fionread script m px = Some (script', px') \<and> sent px m t (\<lambda>d. d) [d] None px'"
proof -
  let ?me = "me\<lparr>ep_rbuf := Some bp'\<rparr>"
  let ?px1 = "set_ep m ?me px"
  have un: "unat (of_nat (length d) :: u32) = length d" "length d < 2 ^ 32"
    using len unat_u32_less [of "ep_rx_credit me"] u32_of_nat by simp_all
  have "px_transport ?px1 s = px_transport px s" for s by (cases s) simp_all
  moreover have "find_channel (px_eps ?px1) ch is = find_channel (px_eps px) ch is" for "is"
    by (rule find_channel_cong) (simp add: ep(1))
  ultimately have ch1: "proxy_channel_by_id (other_side (ep_transport ?me)) ch ?px1 = Some (Some t)"
    using sink(1) by (simp add: proxy_channel_by_id_def)
  have e1: "px_eps ?px1 m = Some ?me" "px_eps ?px1 t = Some te" using sink(2,4) by simp_all
  have wf: "buf_wf bp'" using loop(2) by (simp add: rbuf_ok_def)
  have pb: "buf_bytes bp' = header_bytes CHANNEL_DATA ch (of_nat (length d)) @ d" using loop(3) by (simp add: frame_bytes_def)
  obtain b where b: "proxy_demux_packet m bp' ?px1 = io_endpoint_queue_write t \<lparr>mb_source = Some m, mb_buffer = Some b, mb_credit = of_nat (length d)\<rparr> ?px1"
    "buf_bytes b = d"
    using proxy_demux_packet_data [OF e1(1) wf pb un(2) ch1] by blast
  let ?m = "\<lparr>mb_source = Some m, mb_buffer = Some b, mb_credit = of_nat (length d)\<rparr>"
  have pay: "mb_credit ?m \<le> ep_rx_credit ?me" using len un(1) by (simp add: word_le_nat_alt)
  let ?px' = "px\<lparr>px_eps := (px_eps px)(m \<mapsto> me\<lparr>ep_rx_credit := ep_rx_credit me - of_nat (length d), ep_rbuf := None\<rparr>,
      t \<mapsto> te\<lparr>ep_wqueue := ep_wqueue te @ [?m]\<rparr>)\<rparr>"
  have twist: "(px_eps px)(m \<mapsto> x, t \<mapsto> y, m \<mapsto> z) = (px_eps px)(m \<mapsto> z, t \<mapsto> y)" for x y z
    using sink(4) by (simp add: fun_upd_twist)
  have q: "io_endpoint_queue_write t ?m ?px1 = Some (?px1\<lparr>px_eps := (px_eps ?px1)(m \<mapsto> ?me\<lparr>ep_rx_credit := ep_rx_credit ?me - of_nat (length d)\<rparr>,
      t \<mapsto> te\<lparr>ep_wqueue := ep_wqueue te @ [?m]\<rparr>)\<rparr>)"
    using queue_write_exact [OF e1(2) sink(3) _ e1(1) sink(4) pay] by simp
  have "proxy_recv_demux fresh fionread script m px = Some (script', ?px')"
    using ep loop(1) b(1) q sink(4)
    by (simp add: proxy_recv_demux_def rbuf_of_eq set_ep_def twist)
  moreover have "messages m (\<lambda>d. d) [d] [?m]" using b(2) by (simp add: messages_def mbuf_bytes_def)
  then have "sent px m t (\<lambda>d. d) [d] None ?px'"
    unfolding sent_def using ep(1) sink(2) by (intro exI conjI) (assumption | simp)+
  ultimately show ?thesis by blast
qed

lemma recv_demux_more:
  assumes "px_eps px m = Some me" "ep_rx_credit me \<noteq> 0" "px_eps px t = Some te" "m \<noteq> t" "r = RxMore \<or> r = RxError"
    "demux_loop fresh (unat (recv_budget fionread me)) False (rbuf_of (ep_rbuf me)) script = Some (r, bp', script')"
  shows "\<exists>px'. proxy_recv_demux fresh fionread script m px = Some (script', px') \<and> sent px m t f [] (Some bp') px'"
proof -
  have "proxy_recv_demux fresh fionread script m px = Some (script', set_ep m (me\<lparr>ep_rbuf := Some bp'\<rparr>) px)"
    using assms by (auto simp: proxy_recv_demux_def rbuf_of_eq)
  then show ?thesis using sent_nil [OF assms(1,3,4), of f "Some bp'"] by (simp add: set_ep_def)
qed

text \<open>Calls one after the other: what the operating system answers to each, and the chunks that have come in before
  it.  What a call leaves unread is there for the next one.\<close>

type_synonym demux_turn = "(nat \<Rightarrow> byte) \<times> u32 option \<times> byte list list"

fun demux_calls :: "demux_turn list \<Rightarrow> ep_ref \<Rightarrow> os_read list \<Rightarrow> proxy \<Rightarrow> (os_read list \<times> proxy) option" where
  "demux_calls [] m unread px = Some (unread, px)"
| "demux_calls ((fresh, fionread, arrived) # turns) m unread px = do {
     (unread1, px1) \<leftarrow> proxy_recv_demux fresh fionread (unread @ chunks arrived) m px;
     demux_calls turns m unread1 px1 }"

definition arriving :: "demux_turn list \<Rightarrow> byte list" where
  "arriving turns = concat (map (\<lambda>(_, _, arrived). concat arrived) turns)"

definition turn_ok :: "demux_turn \<Rightarrow> bool" where
  "turn_ok turn \<longleftrightarrow> (case turn of (_, fionread, arrived) \<Rightarrow> fionread \<noteq> Some 0 \<and> chunks_ok arrived)"

text \<open>What has been received in part is the beginning of the next frame.\<close>

definition rest_ok :: "u32 \<Rightarrow> ni_buffer option \<Rightarrow> byte list list \<Rightarrow> bool" where
  "rest_ok ch r ds \<longleftrightarrow> rbuf_ok (rbuf_of r) \<and> (case ds of [] \<Rightarrow> True | d # _ \<Rightarrow> prefix (buf_bytes (rbuf_of r)) (data_frame ch d))"

lemma rest_ok_None [simp]: "rest_ok ch None ds"
  by (simp add: rest_ok_def rbuf_of_def rbuf_new_ok split: list.split)

lemma demux_turn_step:
  assumes px: "px_eps px m = Some me" "proxy_channel_by_id (other_side (ep_transport me)) ch px = Some (Some t)"
      "px_eps px t = Some te" "ep_connected te" "m \<noteq> t"
    and credit: "length (concat ds) < unat (ep_rx_credit me)" "ep_rx_credit me < 2 ^ 31"
    and cs: "chunks_ok cs" "fionread \<noteq> Some 0" "rest_ok ch (ep_rbuf me) ds"
      "prefix (buf_bytes (rbuf_of (ep_rbuf me)) @ concat cs) (concat (map (data_frame ch) ds))"
  obtains cs' px' ds1 ds2 r where "proxy_recv_demux fresh fionread (chunks cs) m px = Some (chunks cs', px')" "chunks_ok cs'"
    "sent px m t (\<lambda>d. d) ds1 r px'" "ds = ds1 @ ds2" "rest_ok ch r ds2"
    "buf_bytes (rbuf_of (ep_rbuf me)) @ concat cs = concat (map (data_frame ch) ds1) @ buf_bytes (rbuf_of r) @ concat cs'"
    "length (concat cs') + length ds2 < length (concat cs) + length ds \<or> cs' = [] \<and> ds1 = [] \<and> (case ds of [] \<Rightarrow> True | d # _ \<Rightarrow> buf_bytes (rbuf_of r) \<noteq> data_frame ch d)"
proof -
  let ?b = "rbuf_of (ep_rbuf me)"
  let ?fs = "map (\<lambda>d. (CHANNEL_DATA, ch, d)) ds"
  have c0: "ep_rx_credit me \<noteq> 0" using credit(1) by auto
  note n = budget_bounds [OF cs(2) c0 credit(2)]
  have small: "unat (ep_rx_credit me) < 2 ^ 31" using credit(2) by (simp add: word_less_nat_alt)
  have fo: "\<forall>f\<in>set ?fs. frame_ok f"
  proof
    fix f assume "f \<in> set ?fs"
    then obtain d where d: "f = (CHANNEL_DATA, ch, d)" "d \<in> set ds" by auto
    have "length d \<le> length (concat ds)" using d(2) by (induction ds) auto
    then show "frame_ok f" using credit(1) small by (simp add: d(1) frame_ok_def DATA_HEADER_SIZE_def)
  qed
  have fb: "frames_bytes (map (\<lambda>d. (CHANNEL_DATA, ch, d)) xs) = concat (map (data_frame ch) xs)" for xs
    by (simp add: frames_bytes_def comp_def)
  have st: "prefix (buf_bytes ?b @ concat cs) (frames_bytes ?fs)" using cs(4) by (simp only: fb)
  have ok: "rbuf_ok ?b" and pre: "case ?fs of [] \<Rightarrow> True | f # _ \<Rightarrow> prefix (buf_bytes ?b) (frame_bytes f)"
    using cs(3) by (cases ds; simp add: rest_ok_def)+
  show thesis
  proof (rule demux_call_prefix [OF ok cs(1) n fo st pre, of fresh])
    fix bp' cs' f fs'
    assume p: "?fs = f # fs'" "demux_loop fresh (unat (recv_budget fionread me)) False ?b (chunks cs) = Some (RxPacket, bp', chunks cs')"
      "rbuf_ok bp'" "buf_bytes bp' = frame_bytes f" "chunks_ok cs'" "buf_bytes ?b @ concat cs = frame_bytes f @ concat cs'"
    obtain d ds2 where d: "ds = d # ds2" "f = (CHANNEL_DATA, ch, d)" using p(1) by (cases ds) auto
    have len: "length d \<le> unat (ep_rx_credit me)" using credit(1) d(1) by simp
    obtain px' where px': "proxy_recv_demux fresh fionread (chunks cs) m px = Some (chunks cs', px')" "sent px m t (\<lambda>d. d) [d] None px'"
      using recv_demux_packet [OF px(1) c0 p(2,3) _ len px(2-5)] p(4) d(2) by blast
    have "length (buf_bytes ?b) \<le> length (frame_bytes f)" using cs(3) d by (auto simp: rest_ok_def dest: prefix_length_le)
    then have "length (concat cs') \<le> length (concat cs)" using arg_cong [OF p(6), of length] by simp
    then show thesis
      using that [OF px'(1) p(5) px'(2), of ds2] d p(6) by (simp add: rbuf_of_def rbuf_new_ok)
  next
    fix r bp' cs'
    assume p: "r = RxMore \<or> r = RxError" "demux_loop fresh (unat (recv_budget fionread me)) False ?b (chunks cs) = Some (r, bp', chunks cs')"
      "rbuf_ok bp'" "chunks_ok cs'" "buf_bytes bp' @ concat cs' = buf_bytes ?b @ concat cs"
      "case ?fs of [] \<Rightarrow> True | f # _ \<Rightarrow> prefix (buf_bytes bp') (frame_bytes f)"
      "length (concat cs') < length (concat cs) \<or> cs' = [] \<and> (case ?fs of [] \<Rightarrow> True | f # _ \<Rightarrow> buf_bytes bp' \<noteq> frame_bytes f)"
    obtain px' where px': "proxy_recv_demux fresh fionread (chunks cs) m px = Some (chunks cs', px')" "sent px m t (\<lambda>d. d) [] (Some bp') px'"
      using recv_demux_more [OF px(1) c0 px(3,5) p(1,2)] by blast
    have "rest_ok ch (Some bp') ds" using p(3,6) by (cases ds) (simp_all add: rest_ok_def rbuf_of_def)
    then show thesis using that [OF px'(1) p(4) px'(2), of ds] p(5,7) by (cases ds) (simp_all add: rbuf_of_def)
  qed
qed

lemma demux_calls_sent:
  assumes "px_eps px m = Some me" "proxy_channel_by_id (other_side (ep_transport me)) ch px = Some (Some t)"
      "px_eps px t = Some te" "ep_connected te" "m \<noteq> t"
    and "length (concat ds) < unat (ep_rx_credit me)" "ep_rx_credit me < 2 ^ 31"
    and "\<forall>turn\<in>set turns. turn_ok turn" "chunks_ok cs" "rest_ok ch (ep_rbuf me) ds"
      "prefix (buf_bytes (rbuf_of (ep_rbuf me)) @ concat cs @ arriving turns) (concat (map (data_frame ch) ds))"
  shows "\<exists>ds1 ds2 r cs' px'. demux_calls turns m (chunks cs) px = Some (chunks cs', px') \<and> ds = ds1 @ ds2
     \<and> sent px m t (\<lambda>d. d) ds1 r px' \<and> chunks_ok cs' \<and> rest_ok ch r ds2
     \<and> buf_bytes (rbuf_of (ep_rbuf me)) @ concat cs @ arriving turns = concat (map (data_frame ch) ds1) @ buf_bytes (rbuf_of r) @ concat cs'
     \<and> (arriving turns = [] \<and> buf_bytes (rbuf_of (ep_rbuf me)) @ concat cs = concat (map (data_frame ch) ds)
          \<and> length (concat cs) + length ds \<le> length turns \<longrightarrow> ds2 = [])"
  using assms
proof (induction turns arbitrary: px me te ds cs)
  case Nil
  have "px = px\<lparr>px_eps := (px_eps px)(m \<mapsto> me\<lparr>ep_rbuf := ep_rbuf me\<rparr>)\<rparr>" using Nil.prems(1) by (simp add: fun_upd_idem)
  then have "sent px m t (\<lambda>d. d) [] (ep_rbuf me) px"
    using sent_nil [OF Nil.prems(1,3,5), of _ "ep_rbuf me"] by simp
  then show ?case using Nil.prems(9,10) by (intro exI [of _ "[]"] exI [of _ ds] exI [of _ "ep_rbuf me"] exI [of _ cs] exI [of _ px])
      (simp add: arriving_def)
next
  case (Cons turn turns)
  obtain fresh fionread arrived where turn: "turn = (fresh, fionread, arrived)" by (cases turn)
  have tk: "fionread \<noteq> Some 0" "chunks_ok arrived" "\<forall>turn\<in>set turns. turn_ok turn"
    using Cons.prems(8) turn by (simp_all add: turn_ok_def)
  let ?cs = "cs @ arrived"
  have arr: "arriving (turn # turns) = concat arrived @ arriving turns" by (simp add: arriving_def turn)
  have cs: "chunks_ok ?cs" using Cons.prems(9) tk(2) by (auto simp: chunks_ok_def)
  have pre: "prefix (buf_bytes (rbuf_of (ep_rbuf me)) @ concat ?cs @ arriving turns) (concat (map (data_frame ch) ds))"
    using Cons.prems(11) by (simp add: arr)
  then have pre1: "prefix (buf_bytes (rbuf_of (ep_rbuf me)) @ concat ?cs) (concat (map (data_frame ch) ds))"
    by (metis append_assoc append_prefixD)
  obtain cs1 px1 ds1 ds2 r where s: "proxy_recv_demux fresh fionread (chunks ?cs) m px = Some (chunks cs1, px1)" "chunks_ok cs1"
    "sent px m t (\<lambda>d. d) ds1 r px1" "ds = ds1 @ ds2" "rest_ok ch r ds2"
    "buf_bytes (rbuf_of (ep_rbuf me)) @ concat ?cs = concat (map (data_frame ch) ds1) @ buf_bytes (rbuf_of r) @ concat cs1"
    "length (concat cs1) + length ds2 < length (concat ?cs) + length ds
      \<or> cs1 = [] \<and> ds1 = [] \<and> (case ds of [] \<Rightarrow> True | d # _ \<Rightarrow> buf_bytes (rbuf_of r) \<noteq> data_frame ch d)"
    by (rule demux_turn_step [OF Cons.prems(1-7) cs tk(1) Cons.prems(10) pre1, of fresh])
  let ?me = "me\<lparr>ep_rx_credit := ep_rx_credit me - of_nat (length (concat ds1)), ep_rbuf := r\<rparr>"
  obtain q where px1: "px_eps px1 m = Some ?me" "px_eps px1 t = Some (te\<lparr>ep_wqueue := q\<rparr>)"
    using sent_source [OF s(3) Cons.prems(1,5)] sent_sink [OF s(3) Cons.prems(3)] by blast
  have l1: "length (concat ds1) + length (concat ds2) < unat (ep_rx_credit me)" using Cons.prems(6) s(4) by simp
  then have un: "unat (of_nat (length (concat ds1)) :: u32) = length (concat ds1)"
    using unat_u32_less [of "ep_rx_credit me"] by (intro u32_of_nat) linarith
  then have le: "of_nat (length (concat ds1)) \<le> ep_rx_credit me" using l1 by (simp add: word_le_nat_alt)
  then have un2: "unat (ep_rx_credit ?me) = unat (ep_rx_credit me) - length (concat ds1)" using un by (simp add: unat_sub)
  have "unat (ep_rx_credit ?me) < 2 ^ 31" using un2 Cons.prems(7) by (simp add: word_less_nat_alt)
  then have cr: "length (concat ds2) < unat (ep_rx_credit ?me)" "ep_rx_credit ?me < 2 ^ 31"
    using un2 l1 by (simp_all add: word_less_nat_alt)
  have rest: "buf_bytes (rbuf_of (ep_rbuf me)) @ concat ?cs @ arriving turns
      = concat (map (data_frame ch) ds1) @ buf_bytes (rbuf_of r) @ concat cs1 @ arriving turns"
    using arg_cong [OF s(6), of "\<lambda>x. x @ arriving turns"] by simp
  have pre2: "prefix (buf_bytes (rbuf_of (ep_rbuf ?me)) @ concat cs1 @ arriving turns) (concat (map (data_frame ch) ds2))"
    using pre unfolding rest s(4) by simp
  have ch1: "proxy_channel_by_id (other_side (ep_transport ?me)) ch px1 = Some (Some t)"
    using Cons.prems(2) sent_channel [OF s(3) Cons.prems(5)] by simp
  have con: "ep_connected (te\<lparr>ep_wqueue := q\<rparr>)" using Cons.prems(4) by simp
  have rb: "ep_rbuf ?me = r" by simp
  have ro: "rest_ok ch (ep_rbuf ?me) ds2" using s(5) by simp
  obtain ds3 ds4 r' cs' px' where t: "demux_calls turns m (chunks cs1) px1 = Some (chunks cs', px')" "ds2 = ds3 @ ds4"
    "sent px1 m t (\<lambda>d. d) ds3 r' px'" "chunks_ok cs'" "rest_ok ch r' ds4"
    "buf_bytes (rbuf_of r) @ concat cs1 @ arriving turns = concat (map (data_frame ch) ds3) @ buf_bytes (rbuf_of r') @ concat cs'"
    "arriving turns = [] \<and> buf_bytes (rbuf_of r) @ concat cs1 = concat (map (data_frame ch) ds2)
      \<and> length (concat cs1) + length ds2 \<le> length turns \<longrightarrow> ds4 = []"
    using Cons.IH [OF px1(1) ch1 px1(2) con Cons.prems(5) cr tk(3) s(2) ro pre2] unfolding rb by blast
  have empty: "ds4 = []" if d: "arriving (turn # turns) = []" "buf_bytes (rbuf_of (ep_rbuf me)) @ concat cs = concat (map (data_frame ch) ds)"
      "length (concat cs) + length ds \<le> length (turn # turns)"
  proof -
    have a: "concat arrived = []" "arriving turns = []" using d(1) arr by simp_all
    have e: "buf_bytes (rbuf_of r) @ concat cs1 = concat (map (data_frame ch) ds2)"
      using s(6) d(2) a(1) unfolding s(4) by simp
    show ?thesis
    proof (cases "length (concat cs1) + length ds2 < length (concat ?cs) + length ds")
      case True
      then show ?thesis using t(7) a e d(3) by simp
    next
      case False
      then have f: "cs1 = []" "ds1 = []" "case ds of [] \<Rightarrow> True | d # _ \<Rightarrow> buf_bytes (rbuf_of r) \<noteq> data_frame ch d" using s(7) by blast+
      have "ds = []"
      proof (cases ds)
        case (Cons d ds')
        have d2: "ds2 = d # ds'" using s(4) f(2) Cons by simp
        then have "prefix (buf_bytes (rbuf_of r)) (data_frame ch d)" using s(5) by (simp add: rest_ok_def)
        moreover have "buf_bytes (rbuf_of r) = data_frame ch d @ concat (map (data_frame ch) ds')" using e f(1) d2 by simp
        ultimately have "buf_bytes (rbuf_of r) = data_frame ch d" by (metis prefix_order.antisym prefixI)
        then show ?thesis using f(3) Cons by simp
      qed
      then show ?thesis using s(4) t(2) by simp
    qed
  qed
  have chs: "chunks cs @ chunks arrived = chunks ?cs" by (simp add: chunks_def)
  have run: "demux_calls (turn # turns) m (chunks cs) px = Some (chunks cs', px')" using s(1) t(1) by (simp add: turn chs)
  have all: "ds = (ds1 @ ds3) @ ds4" using s(4) t(2) by simp
  have bytes: "buf_bytes (rbuf_of (ep_rbuf me)) @ concat cs @ arriving (turn # turns)
      = concat (map (data_frame ch) (ds1 @ ds3)) @ buf_bytes (rbuf_of r') @ concat cs'"
    using rest t(6) by (simp add: arr)
  show ?case
    using run all sent_trans [OF s(3) t(3) Cons.prems(5)] t(4,5) bytes empty by blast
qed

lemma demux_calls_append:
  "demux_calls (ts @ us) m unread px = Option.bind (demux_calls ts m unread px) (\<lambda>(unread1, px1). demux_calls us m unread1 px1)"
proof (induction ts arbitrary: unread px)
  case (Cons t ts)
  obtain f n a where t: "t = (f, n, a)" by (cases t)
  show ?case by (cases "proxy_recv_demux f n (unread @ chunks a) m px") (auto simp: t Cons.IH)
qed simp

text \<open>How many calls there have been since the last bytes came in.\<close>

definition idle_turns :: "demux_turn list \<Rightarrow> nat" where
  "idle_turns turns = length (takeWhile (\<lambda>(_, _, arrived). arrived = []) (rev turns))"

lemma idle_turns_split:
  obtains early idle where "turns = early @ idle" "length idle = idle_turns turns" "arriving idle = []" "arriving turns = arriving early"
proof -
  let ?P = "\<lambda>(_, _, arrived). arrived = []"
  let ?idle = "rev (takeWhile ?P (rev turns))" and ?early = "rev (dropWhile ?P (rev turns))"
  have t: "turns = ?early @ ?idle" by (metis rev_append rev_rev_ident takeWhile_dropWhile_id)
  have "\<forall>x\<in>set ?idle. ?P x" by (auto dest: set_takeWhileD)
  then have i: "arriving ?idle = []" unfolding arriving_def concat_eq_Nil_conv by fastforce
  have "arriving turns = arriving ?early @ arriving ?idle" using arg_cong [OF t, of arriving] by (simp add: arriving_def)
  then show thesis using that [OF t _ i] i by (simp add: idle_turns_def)
qed


text \<open>A proxy with one channel open, for the witnesses: endpoint 0 is the simplex end of channel 7,
  endpoint 1 the multiplexed connection.\<close>

definition sample_ep :: "side \<Rightarrow> io_endpoint_type \<Rightarrow> u32 \<Rightarrow> ep_ref \<Rightarrow> int \<Rightarrow> io_endpoint" where
  "sample_ep s ty ch k fd =
     \<lparr>ep_type = ty, ep_transport = s, ep_sink = Some k, ep_channel_id = ch, ep_rfd = fd, ep_wfd = fd,
      ep_rx_credit = 8192, ep_rbuf = None, ep_wbuf = None, ep_wqueue = [], ep_shutdown_write = False,
      ep_connected = True\<rparr>"

definition sample_proxy :: proxy where
  "sample_proxy =
     (proxy_init \<lparr>os_newfd = (\<lambda>i. 5), os_connect = (\<lambda>i. True)\<rparr>)
       \<lparr>px_eps := [0 \<mapsto> sample_ep Upstream IO_ENDPOINT_TYPE_SIMPLEX 7 1 3,
                  1 \<mapsto> sample_ep Downstream IO_ENDPOINT_TYPE_MULTIPLEX 0 0 4],
        px_fresh := 2,
        px_up := transport0\<lparr>xp_ops := Some io_unix_transport_ops, xp_type := IO_ENDPOINT_TYPE_SIMPLEX,
                   xp_data_available := Some proxy_recv_mux_fn, xp_ep_list := [0]\<rparr>,
        px_down := transport0\<lparr>xp_ops := Some io_serial_transport_ops, xp_type := IO_ENDPOINT_TYPE_MULTIPLEX,
                   xp_data_available := Some proxy_recv_demux_fn, xp_multiplex := Some 1\<rparr>\<rparr>"


end
