(* ===== verification/ProxyCredit.thy ===== *)
theory ProxyCredit
  imports ProxyFrames
begin

text \<open>
  Flow control of proxy/main.c.  The bytes an endpoint has read and another one has not yet taken up
  for writing are its debt; debt and remaining credit add up to the endpoint's limit in every state
  the program reaches.
\<close>

section \<open>Credit and debt\<close>

definition mbuf_debt :: "ep_ref \<Rightarrow> io_mbuf \<Rightarrow> nat" where
  "mbuf_debt s m = (if mb_source m = Some s \<and> mb_buffer m \<noteq> None then unat (mb_credit m) else 0)"

definition queue_debt :: "ep_ref \<Rightarrow> io_mbuf list \<Rightarrow> nat" where
  "queue_debt s q = sum_list (map (mbuf_debt s) q)"

definition slot_debt :: "ep_ref \<Rightarrow> io_endpoint option \<Rightarrow> nat" where
  "slot_debt s e = (case e of None \<Rightarrow> 0 | Some ep \<Rightarrow> queue_debt s (ep_wqueue ep))"

definition px_debt :: "proxy \<Rightarrow> ep_ref \<Rightarrow> nat" where
  "px_debt px s = (\<Sum>j < px_fresh px. slot_debt s (px_eps px j))"

definition credit_limits :: "nat set" where
  "credit_limits = {unat DEFAULT_CREDIT_SIMPLEX, unat DEFAULT_CREDIT_MULTIPLEX}"

text \<open>Identities in use are below \<open>px_fresh\<close>, and so are the sources of the queued buffers.\<close>

definition px_ids :: "proxy \<Rightarrow> bool" where
  "px_ids px \<longleftrightarrow> (\<forall>i ep. px_eps px i = Some ep \<longrightarrow> i < px_fresh px
      \<and> (\<forall>m \<in> set (ep_wqueue ep). \<forall>s. mb_source m = Some s \<longrightarrow> s < px_fresh px))"

definition px_inv :: "proxy \<Rightarrow> bool" where
  "px_inv px \<longleftrightarrow> px_ids px
     \<and> (\<forall>s ep. px_eps px s = Some ep \<longrightarrow> unat (ep_rx_credit ep) + px_debt px s \<in> credit_limits)"

lemma queue_debt_simps [simp]:
  "queue_debt s [] = 0" "queue_debt s (m # q) = mbuf_debt s m + queue_debt s q"
  "queue_debt s (q @ r) = queue_debt s q + queue_debt s r"
  by (simp_all add: queue_debt_def)

lemma slot_debt_simps [simp]:
  "slot_debt s None = 0" "slot_debt s (Some ep) = queue_debt s (ep_wqueue ep)"
  by (simp_all add: slot_debt_def)

lemma px_debt_upd:
  assumes "i < px_fresh px" and "px_eps px' = (px_eps px)(i := e)" and "px_fresh px' = px_fresh px"
  shows "px_debt px' s + slot_debt s (px_eps px i) = px_debt px s + slot_debt s e"
proof -
  let ?F = "{..< px_fresh px}"
  have i: "i \<in> ?F" using assms(1) by simp
  have "px_debt px' s = slot_debt s e + (\<Sum>j \<in> ?F - {i}. slot_debt s (px_eps px j))"
    using sum.remove [OF _ i, of "\<lambda>j. slot_debt s (px_eps px' j)"] assms(2,3) by (simp add: px_debt_def)
  moreover have "px_debt px s = slot_debt s (px_eps px i) + (\<Sum>j \<in> ?F - {i}. slot_debt s (px_eps px j))"
    using sum.remove [OF _ i, of "\<lambda>j. slot_debt s (px_eps px j)"] by (simp add: px_debt_def)
  ultimately show ?thesis by simp
qed

lemma px_inv_cong:
  "px_eps px' = px_eps px \<Longrightarrow> px_fresh px' = px_fresh px \<Longrightarrow> px_inv px' = px_inv px"
  by (simp add: px_inv_def px_ids_def px_debt_def)

lemma px_inv_irrelevant [simp]:
  "px_inv (os_log es px) = px_inv px" "px_inv (set_transport s x px) = px_inv px"
  "px_inv (px\<lparr>px_up := u\<rparr>) = px_inv px" "px_inv (px\<lparr>px_down := d\<rparr>) = px_inv px"
  "px_inv (io_endpoint_link i s l px) = px_inv px"
  by (rule px_inv_cong; simp add: io_endpoint_link_def Let_def split: ep_list_id.split)+

lemma px_inv_live: "px_inv px \<Longrightarrow> px_eps px i = Some ep \<Longrightarrow> i < px_fresh px"
  by (auto simp: px_inv_def px_ids_def)

text \<open>Writing an endpoint back with its credit and its queue as they were.\<close>

lemma px_inv_set_ep:
  assumes inv: "px_inv px" and ep: "px_eps px i = Some ep0"
    and same: "ep_wqueue ep = ep_wqueue ep0" "ep_rx_credit ep = ep_rx_credit ep0"
  shows "px_inv (set_ep i ep px)"
proof -
  have d: "px_debt (set_ep i ep px) s = px_debt px s" for s
    using px_debt_upd [OF px_inv_live [OF inv ep], of "set_ep i ep px" "Some ep" s] ep same by simp
  show ?thesis
    using inv ep same unfolding px_inv_def px_ids_def by (auto simp: d split: if_splits)
qed

lemma px_inv_unlink: "io_endpoint_unlink i px = Some px' \<Longrightarrow> px_inv px' = px_inv px"
  by (auto simp: io_endpoint_unlink_def Let_def split: if_splits)

subsection \<open>Queueing and taking up\<close>

lemma debt_le_limit: "px_inv px \<Longrightarrow> px_eps px s = Some ep \<Longrightarrow> unat (ep_rx_credit ep) + px_debt px s \<le> 131072"
proof -
  assume "px_inv px" "px_eps px s = Some ep"
  then have "unat (ep_rx_credit ep) + px_debt px s \<in> {8192, 131072}"
    by (simp add: px_inv_def credit_limits_def DEFAULT_CREDIT_SIMPLEX_def DEFAULT_CREDIT_MULTIPLEX_def)
  then show ?thesis by auto
qed

lemma mbuf_debt_le: "m \<in> set q \<Longrightarrow> mbuf_debt s m \<le> queue_debt s q"
  by (induction q) auto

lemma slot_debt_le: "px_inv px \<Longrightarrow> px_eps px i = Some ep \<Longrightarrow> queue_debt s (ep_wqueue ep) \<le> px_debt px s"
  using px_debt_upd [of i px "px\<lparr>px_eps := (px_eps px)(i := None)\<rparr>" None s] px_inv_live [of px i ep] by simp

text \<open>Giving a source its credit back, when the queue of \<open>i\<close> loses the buffer.\<close>

lemma px_inv_dequeue:
  assumes inv: "px_inv px" and ep: "px_eps px i = Some ep" and q: "ep_wqueue ep = m # rest"
    and taken: "io_mbuf_take_buffer px m = Some (b, m', px1)"
    and ep1: "px_eps px1 i = Some ep1" and ep2: "ep_wqueue ep2 = rest" "ep_rx_credit ep2 = ep_rx_credit ep1"
  shows "px_inv (set_ep i ep2 px1)"
proof -
  have i: "i < px_fresh px" by (rule px_inv_live [OF inv ep])
  have rest: "\<forall>x \<in> set rest. \<forall>s. mb_source x = Some s \<longrightarrow> s < px_fresh px"
    using inv ep q by (fastforce simp: px_inv_def px_ids_def)
  show ?thesis
  proof (cases "\<exists>s bp. mb_source m = Some s \<and> mb_buffer m = Some bp")
    case False
    then have px1: "px1 = px" using taken by (auto simp: io_mbuf_take_buffer_def split: option.splits)
    have z: "mbuf_debt s m = 0" for s using False by (auto simp: mbuf_debt_def)
    have d: "px_debt (set_ep i ep2 px) s = px_debt px s" for s
      using px_debt_upd [OF i, of "set_ep i ep2 px" "Some ep2" s] ep q ep2 z by simp
    show ?thesis
      using inv ep ep1 ep2 rest px1 unfolding px_inv_def px_ids_def by (auto simp: d split: if_splits)
  next
    case True
    then obtain s bp src where s: "mb_source m = Some s" "mb_buffer m = Some bp" "px_eps px s = Some src"
      and px1: "px1 = set_ep s (src\<lparr>ep_rx_credit := ep_rx_credit src + mb_credit m\<rparr>) px"
      using taken by (auto simp: io_mbuf_take_buffer_def)
    have fr: "s < px_fresh px" by (rule px_inv_live [OF inv s(3)])
    have dm: "mbuf_debt t m = (if t = s then unat (mb_credit m) else 0)" for t
      using s by (simp add: mbuf_debt_def)
    have d1: "px_debt px1 t = px_debt px t" for t
      using px_debt_upd [OF fr, of px1 "px_eps px1 s" t] px1 s(3) by simp
    have q1: "ep_wqueue ep1 = m # rest" using ep1 px1 ep q s(3) by (auto split: if_splits)
    have d2: "px_debt (set_ep i ep2 px1) t + mbuf_debt t m = px_debt px t" for t
      using px_debt_upd [of i px1 "set_ep i ep2 px1" "Some ep2" t] ep1 ep2 q1 i px1 d1 [of t] by simp
    have c: "unat (ep_rx_credit src + mb_credit m) = unat (ep_rx_credit src) + unat (mb_credit m)"
    proof -
      have "unat (ep_rx_credit src) + unat (mb_credit m) \<le> 131072"
        using debt_le_limit [OF inv s(3)] d2 [of s] dm [of s] by simp
      then show ?thesis by (simp add: unat_word_ariths)
    qed
    have old: "unat (ep_rx_credit e) + px_debt px t \<in> credit_limits" if "px_eps px t = Some e" for t e
      using inv that by (simp add: px_inv_def)
    have ids: "px_ids (set_ep i ep2 px1)"
      using inv px1 s(3) i fr rest ep2 unfolding px_inv_def px_ids_def by (auto split: if_splits)
    have "unat (ep_rx_credit e) + px_debt (set_ep i ep2 px1) t \<in> credit_limits"
      if e: "px_eps (set_ep i ep2 px1) t = Some e" for t e
    proof (cases "t = s")
      case True
      then have "ep_rx_credit e = ep_rx_credit src + mb_credit m"
        using e ep1 ep2 px1 by (auto split: if_splits)
      then show ?thesis using c d2 [of s] dm [of s] old [OF s(3)] True by (simp add: ac_simps)
    next
      case False
      obtain e0 where "px_eps px t = Some e0" "ep_rx_credit e = ep_rx_credit e0"
        using e ep1 ep2 px1 False ep by (auto split: if_splits)
      then show ?thesis using d2 [of t] dm [of t] False old [of t e0] by simp
    qed
    with ids show ?thesis by (simp add: px_inv_def)
  qed
qed

lemma take_buffer_empty: "io_mbuf_take_buffer px m = Some (b, m', px1) \<Longrightarrow> mb_buffer m' = None"
  by (auto simp: io_mbuf_take_buffer_def split: option.splits)

lemma free_empty: "mb_buffer m = None \<Longrightarrow> io_mbuf_free px m = Some px"
  by (simp add: io_mbuf_free_def io_mbuf_take_buffer_def)

lemma px_inv_pullup:
  assumes inv: "px_inv px" and p: "io_endpoint_pullup i px = Some (b, px')"
  shows "px_inv px'"
proof -
  obtain ep where ep: "px_eps px i = Some ep" using p by (auto simp: io_endpoint_pullup_def)
  show ?thesis
  proof (cases "ep_wbuf ep")
    case (Some x)
    then show ?thesis using p ep inv by (auto simp: io_endpoint_pullup_def)
  next
    case None
    show ?thesis
    proof (cases "ep_wqueue ep")
      case Nil
      then show ?thesis using p ep inv None by (auto simp: io_endpoint_pullup_def)
    next
      case (Cons m rest)
      then obtain m' px1 ep1 where t: "io_mbuf_take_buffer px m = Some (b, m', px1)" "px_eps px1 i = Some ep1"
        and f: "io_mbuf_free (set_ep i (ep1\<lparr>ep_wbuf := b, ep_wqueue := rest\<rparr>) px1) m' = Some px'"
        using p ep None by (auto simp: io_endpoint_pullup_def)
      have "px' = set_ep i (ep1\<lparr>ep_wbuf := b, ep_wqueue := rest\<rparr>) px1"
        using f free_empty [OF take_buffer_empty [OF t(1)]] by simp
      then show ?thesis using px_inv_dequeue [OF inv ep Cons t] by simp
    qed
  qed
qed

lemma discard_step_inv:
  assumes inv: "px_inv px" and ep: "px_eps px i = Some ep" and q: "ep_wqueue ep = m # rest"
    and f: "io_mbuf_free (set_ep i (ep\<lparr>ep_wqueue := rest\<rparr>) px) m = Some px1"
  shows "px_inv px1 \<and> (\<exists>ep1. px_eps px1 i = Some ep1 \<and> ep_wqueue ep1 = rest)"
proof (cases "\<exists>s bp. mb_source m = Some s \<and> mb_buffer m = Some bp")
  case False
  then have t: "io_mbuf_take_buffer px m = Some (mb_buffer m, m\<lparr>mb_buffer := None\<rparr>, px)"
    and p: "px1 = set_ep i (ep\<lparr>ep_wqueue := rest\<rparr>) px"
    using f by (auto simp: io_mbuf_take_buffer_def io_mbuf_free_def split: option.splits)
  then show ?thesis using px_inv_dequeue [OF inv ep q t ep] by simp
next
  case True
  then obtain s bp where s: "mb_source m = Some s" "mb_buffer m = Some bp" by blast
  obtain src where src: "px_eps px s = Some src"
    using f s ep by (auto simp: io_mbuf_free_def io_mbuf_take_buffer_def split: if_splits)
  let ?g = "\<lambda>e. e\<lparr>ep_rx_credit := ep_rx_credit e + mb_credit m\<rparr>"
  let ?px1 = "set_ep s (?g src) px"
  have t: "io_mbuf_take_buffer px m = Some (Some bp, m\<lparr>mb_buffer := None\<rparr>, ?px1)"
    using s src by (simp add: io_mbuf_take_buffer_def)
  define e1 where "e1 = (if s = i then ?g src else ep)"
  have e1: "px_eps ?px1 i = Some e1" using ep by (simp add: e1_def)
  have inv1: "px_inv (set_ep i (e1\<lparr>ep_wqueue := rest\<rparr>) ?px1)"
    by (rule px_inv_dequeue [OF inv ep q t e1]) simp_all
  have "px_eps px1 = px_eps (set_ep i (e1\<lparr>ep_wqueue := rest\<rparr>) ?px1)" "px_fresh px1 = px_fresh px"
    using f s src ep by (auto simp: io_mbuf_free_def io_mbuf_take_buffer_def e1_def fun_upd_twist split: if_splits)
  then show ?thesis using inv1 px_inv_cong [of px1 "set_ep i (e1\<lparr>ep_wqueue := rest\<rparr>) ?px1"] by simp
qed

lemma discard_wqueue_inv:
  "px_inv px \<Longrightarrow> discard_wqueue i n px = Some px' \<Longrightarrow> px_eps px i = Some ep \<Longrightarrow> length (ep_wqueue ep) \<le> n \<Longrightarrow>
     px_inv px' \<and> (\<exists>ep'. px_eps px' i = Some ep' \<and> ep_wqueue ep' = [])"
proof (induction n arbitrary: px ep)
  case 0
  then show ?case by simp
next
  case (Suc n)
  show ?case
  proof (cases "ep_wqueue ep")
    case Nil
    then show ?thesis using Suc.prems by auto
  next
    case (Cons m rest)
    then obtain px1 where f: "io_mbuf_free (set_ep i (ep\<lparr>ep_wqueue := rest\<rparr>) px) m = Some px1"
      and d: "discard_wqueue i n px1 = Some px'"
      using Suc.prems by auto
    obtain ep1 where "px_inv px1" "px_eps px1 i = Some ep1" "ep_wqueue ep1 = rest"
      using discard_step_inv [OF Suc.prems(1,3) Cons f] by blast
    then show ?thesis using Suc.IH [OF _ d] Suc.prems(4) Cons by simp
  qed
qed

lemma px_inv_write_queue_discard:
  assumes "px_inv px" and "io_endpoint_write_queue_discard i px = Some px'"
  shows "px_inv px' \<and> (\<exists>ep'. px_eps px' i = Some ep' \<and> ep_wqueue ep' = [])"
proof -
  obtain ep where ep: "px_eps px i = Some ep"
    and d: "discard_wqueue i (length (ep_wqueue ep)) (set_ep i (ep\<lparr>ep_wbuf := None\<rparr>) px) = Some px'"
    using assms by (auto simp: io_endpoint_write_queue_discard_def)
  have "px_inv (set_ep i (ep\<lparr>ep_wbuf := None\<rparr>) px)" by (rule px_inv_set_ep [OF assms(1) ep]) simp_all
  from discard_wqueue_inv [OF this d, of "ep\<lparr>ep_wbuf := None\<rparr>"] show ?thesis by simp
qed

lemma px_inv_connect_finish:
  assumes "px_inv px" and "io_transport_connect_finish s i px = Some (r, px')"
  shows "px_inv px'"
  using assms
  by (auto simp: io_transport_connect_finish_def io_endpoint_socket_delayed_connect_def
      intro!: px_inv_set_ep split: if_splits)

lemma px_inv_queue_write:
  assumes inv: "px_inv px" and w: "io_endpoint_queue_write k m px = Some px'" and b: "mb_buffer m \<noteq> None"
  shows "px_inv px'"
proof -
  obtain sk px1 px2 sink where "px_eps px k = Some sk" and c: "(if ep_connected sk then Some px
            else do { (ok, px') \<leftarrow> io_transport_connect_finish (ep_transport sk) k px;
                      (if ok then Some px' else None) }) = Some px1"
    and px2: "(case mb_source m of None \<Rightarrow> Some px1
                | Some s \<Rightarrow> do { source \<leftarrow> px_eps px1 s; ni_assert (mb_credit m \<le> ep_rx_credit source);
                    Some (set_ep s (source\<lparr>ep_rx_credit := ep_rx_credit source - mb_credit m\<rparr>) px1) }) = Some px2"
    and sink: "px_eps px2 k = Some sink" and px'0: "set_ep k (sink\<lparr>ep_wqueue := ep_wqueue sink @ [m]\<rparr>) px2 = px'"
    using w unfolding io_endpoint_queue_write_def bind_Some_iff option.inject by blast
  note px' = px'0 [symmetric]
  have px1: "px_inv px1" using c inv px_inv_connect_finish [OF inv] by (auto split: if_splits)
  have old: "unat (ep_rx_credit e) + px_debt px1 t \<in> credit_limits" if "px_eps px1 t = Some e" for t e
    using px1 that by (simp add: px_inv_def)
  have k1: "\<exists>e. px_eps px1 k = Some e \<and> ep_wqueue sink = ep_wqueue e"
    using px2 sink by (auto split: option.splits if_splits)
  then have kf: "k < px_fresh px1" using px_inv_live [OF px1] by blast
  show ?thesis
  proof (cases "mb_source m")
    case None
    then have e: "px2 = px1" using px2 by simp
    have z: "mbuf_debt t m = 0" for t using None by (simp add: mbuf_debt_def)
    have d: "px_debt px' t = px_debt px1 t" for t
      using px_debt_upd [OF kf, of px' "Some (sink\<lparr>ep_wqueue := ep_wqueue sink @ [m]\<rparr>)" t] px' e sink z by simp
    show ?thesis using px1 px' sink None unfolding px_inv_def px_ids_def by (auto simp: d [unfolded px' e] e split: if_splits)
  next
    case (Some s)
    then obtain src where src: "px_eps px1 s = Some src" "mb_credit m \<le> ep_rx_credit src"
      and e: "px2 = set_ep s (src\<lparr>ep_rx_credit := ep_rx_credit src - mb_credit m\<rparr>) px1"
      using px2 by auto
    have sf: "s < px_fresh px1" by (rule px_inv_live [OF px1 src(1)])
    have dm: "mbuf_debt t m = (if t = s then unat (mb_credit m) else 0)" for t
      using Some b by (auto simp: mbuf_debt_def)
    have d1: "px_debt px2 t = px_debt px1 t" for t
      using px_debt_upd [OF sf, of px2 "px_eps px2 s" t] e src by simp
    have d: "px_debt px' t = px_debt px1 t + mbuf_debt t m" for t
      using px_debt_upd [of k px2 px' "Some (sink\<lparr>ep_wqueue := ep_wqueue sink @ [m]\<rparr>)" t] px' e kf sink d1 [of t] by simp
    have c: "unat (ep_rx_credit src - mb_credit m) = unat (ep_rx_credit src) - unat (mb_credit m)"
      using src(2) by (rule unat_sub)
    have le: "unat (mb_credit m) \<le> unat (ep_rx_credit src)" using src(2) by (simp add: word_le_nat_alt)
    have ids: "px_ids px'"
      using px1 px' e src sink kf sf k1 Some unfolding px_inv_def px_ids_def by (auto split: if_splits)
    have "unat (ep_rx_credit x) + px_debt px' t \<in> credit_limits" if x: "px_eps px' t = Some x" for t x
    proof (cases "t = s")
      case True
      then have "ep_rx_credit x = ep_rx_credit src - mb_credit m"
        using x px' e sink by (auto split: if_splits)
      then show ?thesis using c le d [of s] dm [of s] old [OF src(1)] True by simp
    next
      case False
      obtain e0 where "px_eps px1 t = Some e0" "ep_rx_credit x = ep_rx_credit e0"
        using x px' e sink False by (auto split: if_splits)
      then show ?thesis using d [of t] dm [of t] False old [of t e0] by simp
    qed
    with ids show ?thesis by (simp add: px_inv_def)
  qed
qed

end
