(* ===== verification/ProxyInvariant.thy ===== *)
theory ProxyInvariant
  imports ProxyCredit
begin

text \<open>
  The reachable states of the proxy, proxy/main.c.  Two locales collect what an invariant of the endpoint
  store needs in order to survive the operations that close endpoints, and then all the handlers of the poll
  loop; the flow-control invariant is one interpretation, the emptiness of a discarded queue another.
\<close>

section \<open>Invariants of the endpoint store\<close>

text \<open>
  What an invariant of the endpoints has to withstand for closing operations to keep it, and the
  operations it then survives.  It may look at the endpoints and their identities only.
\<close>

locale closing_invariant =
  fixes P :: "proxy \<Rightarrow> bool"
  assumes P_cong: "px_eps px' = px_eps px \<Longrightarrow> px_fresh px' = px_fresh px \<Longrightarrow> P px \<Longrightarrow> P px'"
    and P_set: "P px \<Longrightarrow> px_eps px i = Some ep0 \<Longrightarrow> ep_wqueue ep = ep_wqueue ep0 \<Longrightarrow>
      ep_rx_credit ep = ep_rx_credit ep0 \<Longrightarrow> P (set_ep i ep px)"
    and P_pullup: "P px \<Longrightarrow> io_endpoint_pullup i px = Some (b, px') \<Longrightarrow> P px'"
    and P_discard: "P px \<Longrightarrow> io_endpoint_write_queue_discard i px = Some px' \<Longrightarrow> P px'"
begin

lemma P_os_log: "P px \<Longrightarrow> P (os_log es px)" by (rule P_cong [rotated 2]) simp_all

lemma P_set_transport: "P px \<Longrightarrow> P (set_transport s x px)" by (rule P_cong [rotated 2]) simp_all

lemma P_link: "P px \<Longrightarrow> P (io_endpoint_link i s l px)"
  by (auto simp: io_endpoint_link_def Let_def P_set_transport split: ep_list_id.split)

lemma P_unlink: "P px \<Longrightarrow> io_endpoint_unlink i px = Some px' \<Longrightarrow> P px'"
  by (auto simp: io_endpoint_unlink_def Let_def P_set_transport split: if_splits)

lemma P_shutdown_read: "P px \<Longrightarrow> shutdown_read_half i how px = Some px' \<Longrightarrow> P px'"
proof -
  assume P: "P px" and s: "shutdown_read_half i how px = Some px'"
  obtain ep where ep: "px_eps px i = Some ep" using s by (auto simp: shutdown_read_half_def)
  have "P (set_ep i (ep\<lparr>ep_rfd := -1\<rparr>) px)" by (rule P_set [OF P ep]) simp_all
  then show "P px'" using s ep P P_os_log [of "set_ep i (ep\<lparr>ep_rfd := -1\<rparr>) px"]
    by (auto simp: shutdown_read_half_def split: if_splits)
qed

lemma P_shutdown_write: "P px \<Longrightarrow> shutdown_write_half i how px = Some px' \<Longrightarrow> P px'"
proof -
  assume P: "P px" and s: "shutdown_write_half i how px = Some px'"
  obtain ep where ep: "px_eps px i = Some ep" using s by (auto simp: shutdown_write_half_def)
  show "P px'"
  proof (cases "0 \<le> ep_wfd ep \<and> (how = SHUT_WR \<or> how = SHUT_RDWR)")
    case False
    then show ?thesis using s ep P unfolding shutdown_write_half_def by (simp split: if_splits)
  next
    case True
    then have "(do {
        (b, px1) \<leftarrow> io_endpoint_pullup i px;
        px2 \<leftarrow> (if b \<noteq> None then io_endpoint_write_queue_discard i px1 else Some px1);
        ep2 \<leftarrow> px_eps px2 i;
        Some (os_log (OsShutdown (ep_wfd ep2) SHUT_WR
                      # (if ep_rfd ep2 \<noteq> ep_wfd ep2 then [OsClose (ep_wfd ep2)] else []))
                (set_ep i (ep2\<lparr>ep_wfd := -1\<rparr>) px2)) }) = Some px'"
      using s ep unfolding shutdown_write_half_def by simp
    then obtain b px1 px2 ep2 where x: "io_endpoint_pullup i px = Some (b, px1)"
      "(if b \<noteq> None then io_endpoint_write_queue_discard i px1 else Some px1) = Some px2"
      "px_eps px2 i = Some ep2"
      "os_log (OsShutdown (ep_wfd ep2) SHUT_WR # (if ep_rfd ep2 \<noteq> ep_wfd ep2 then [OsClose (ep_wfd ep2)] else []))
                (set_ep i (ep2\<lparr>ep_wfd := -1\<rparr>) px2) = px'"
      unfolding bind_Some_iff split_paired_Ex case_prod_conv option.inject by blast
    have P1: "P px1" by (rule P_pullup [OF P x(1)])
    have P2: "P px2" using x(2) P1 P_discard by (cases "b = None") auto
    have "P (set_ep i (ep2\<lparr>ep_wfd := -1\<rparr>) px2)" by (rule P_set [OF P2 x(3)]) simp_all
    then show ?thesis unfolding x(4) [symmetric] by (rule P_os_log)
  qed
qed

lemma P_shutdown: "P px \<Longrightarrow> io_endpoint_shutdown i how px = Some px' \<Longrightarrow> P px'"
proof -
  assume P: "P px" and s: "io_endpoint_shutdown i how px = Some px'"
  obtain px1 px2 ep2 where x: "shutdown_read_half i how px = Some px1" "shutdown_write_half i how px1 = Some px2"
    "px_eps px2 i = Some ep2"
    "(if ep_rfd ep2 < 0 \<and> ep_wfd ep2 < 0
      then do { px3 \<leftarrow> io_endpoint_unlink i px2; Some (io_endpoint_link i (ep_transport ep2) GarbageList px3) }
      else Some px2) = Some px'"
    using s unfolding io_endpoint_shutdown_def bind_Some_iff by blast
  have "P px2" by (rule P_shutdown_write [OF P_shutdown_read [OF P x(1)] x(2)])
  then show "P px'" using x(4) P_unlink P_link by (auto split: if_splits)
qed

lemma P_halfclose: "P px \<Longrightarrow> io_endpoint_halfclose i px = Some px' \<Longrightarrow> P px'"
proof -
  assume P: "P px" and h: "io_endpoint_halfclose i px = Some px'"
  obtain ep b px1 where x: "px_eps px i = Some ep"
    "io_endpoint_pullup i (set_ep i (ep\<lparr>ep_shutdown_write := True\<rparr>) px) = Some (b, px1)"
    "io_endpoint_shutdown i (if b = None then SHUT_RDWR else SHUT_RD) px1 = Some px'"
    using h by (auto simp: io_endpoint_halfclose_def)
  have "P (set_ep i (ep\<lparr>ep_shutdown_write := True\<rparr>) px)" using P x(1) by (rule P_set) simp_all
  from P_shutdown [OF P_pullup [OF this x(2)] x(3)] show "P px'" .
qed

lemma P_halfclose_list: "P px \<Longrightarrow> halfclose_list s is px = Some px' \<Longrightarrow> P px'"
  by (induction "is" arbitrary: px) (auto dest: P_halfclose split: if_splits)

lemma P_transmit: "P px \<Longrightarrow> endpoint_transmit w i px = Some px' \<Longrightarrow> P px'"
  by (cases w) (auto simp: endpoint_transmit_def Let_def intro!: P_os_log P_set intro: P_shutdown split: if_splits)

lemma P_poll_prepare: "P px \<Longrightarrow> io_endpoint_poll_prepare i px = Some px' \<Longrightarrow> P px'"
  by (auto simp: io_endpoint_poll_prepare_def dest: P_pullup P_shutdown split: if_splits)

lemma P_poll_prepare_list: "P px \<Longrightarrow> poll_prepare_list s is px = Some px' \<Longrightarrow> P px'"
  by (induction "is" arbitrary: px) (auto dest: P_poll_prepare split: if_splits)

end

definition qempty :: "ep_ref \<Rightarrow> proxy \<Rightarrow> bool" where
  "qempty j px \<longleftrightarrow> (\<exists>ep. px_eps px j = Some ep \<and> ep_wqueue ep = [])"

lemma qempty_take_buffer: "qempty j px \<Longrightarrow> io_mbuf_take_buffer px m = Some (b, m', px') \<Longrightarrow> qempty j px'"
  by (auto simp: io_mbuf_take_buffer_def qempty_def split: option.splits)

lemma qempty_free: "qempty j px \<Longrightarrow> io_mbuf_free px m = Some px' \<Longrightarrow> qempty j px'"
  by (auto simp: io_mbuf_free_def dest: qempty_take_buffer)

lemma qempty_set: "qempty j px \<Longrightarrow> px_eps px i = Some ep0 \<Longrightarrow> (ep_wqueue ep0 = [] \<Longrightarrow> ep_wqueue ep = []) \<Longrightarrow>
    qempty j (set_ep i ep px)"
  by (auto simp: qempty_def)

lemma take_buffer_queues:
  "io_mbuf_take_buffer px m = Some (b, m', px') \<Longrightarrow> px_eps px i = Some ep \<Longrightarrow>
     \<exists>ep'. px_eps px' i = Some ep' \<and> ep_wqueue ep' = ep_wqueue ep \<and> ep_wbuf ep' = ep_wbuf ep"
  by (auto simp: io_mbuf_take_buffer_def split: option.splits)

lemma qempty_pullup: "qempty j px \<Longrightarrow> io_endpoint_pullup i px = Some (b, px') \<Longrightarrow> qempty j px'"
proof -
  assume q: "qempty j px" and p: "io_endpoint_pullup i px = Some (b, px')"
  obtain ep where ep: "px_eps px i = Some ep" using p by (auto simp: io_endpoint_pullup_def)
  show ?thesis
  proof (cases "ep_wbuf ep = None \<and> ep_wqueue ep \<noteq> []")
    case False
    then show ?thesis using p ep q by (auto simp: io_endpoint_pullup_def split: option.splits list.splits)
  next
    case True
    then obtain m rest where c: "ep_wbuf ep = None" "ep_wqueue ep = m # rest" by (auto simp: neq_Nil_conv)
    then obtain m' px1 ep1 where t: "io_mbuf_take_buffer px m = Some (b, m', px1)" "px_eps px1 i = Some ep1"
      and f: "io_mbuf_free (set_ep i (ep1\<lparr>ep_wbuf := b, ep_wqueue := rest\<rparr>) px1) m' = Some px'"
      using p ep by (auto simp: io_endpoint_pullup_def)
    have "ep_wqueue ep1 = m # rest" using take_buffer_queues [OF t(1) ep] t(2) c by simp
    then have "qempty j (set_ep i (ep1\<lparr>ep_wbuf := b, ep_wqueue := rest\<rparr>) px1)"
      using qempty_set [OF qempty_take_buffer [OF q t(1)] t(2)] by simp
    then show ?thesis using f by (rule qempty_free)
  qed
qed

lemma qempty_discard_wqueue: "qempty j px \<Longrightarrow> discard_wqueue i n px = Some px' \<Longrightarrow> qempty j px'"
proof (induction n arbitrary: px)
  case 0
  then show ?case by simp
next
  case (Suc n)
  obtain ep where ep: "px_eps px i = Some ep" using Suc.prems by auto
  show ?case
  proof (cases "ep_wqueue ep")
    case Nil
    then show ?thesis using Suc.prems ep by simp
  next
    case (Cons m rest)
    then obtain px1 where "io_mbuf_free (set_ep i (ep\<lparr>ep_wqueue := rest\<rparr>) px) m = Some px1"
      "discard_wqueue i n px1 = Some px'" using Suc.prems ep by auto
    then show ?thesis
      using qempty_free [OF qempty_set [OF Suc.prems(1) ep]] Cons Suc.IH by fastforce
  qed
qed

lemma qempty_discard: "qempty j px \<Longrightarrow> io_endpoint_write_queue_discard i px = Some px' \<Longrightarrow> qempty j px'"
proof -
  assume q: "qempty j px" and d: "io_endpoint_write_queue_discard i px = Some px'"
  obtain ep where ep: "px_eps px i = Some ep"
    "discard_wqueue i (length (ep_wqueue ep)) (set_ep i (ep\<lparr>ep_wbuf := None\<rparr>) px) = Some px'"
    using d by (auto simp: io_endpoint_write_queue_discard_def)
  have "qempty j (set_ep i (ep\<lparr>ep_wbuf := None\<rparr>) px)" by (rule qempty_set [OF q ep(1)]) simp
  then show ?thesis using ep(2) by (rule qempty_discard_wqueue)
qed

interpretation qempty: closing_invariant "qempty j" for j
proof unfold_locales
  show "qempty j px'" if "px_eps px' = px_eps px" "qempty j px" for px px' using that by (simp add: qempty_def)
  show "qempty j (set_ep i ep px)" if "qempty j px" "px_eps px i = Some ep0" "ep_wqueue ep = ep_wqueue ep0" for px i ep ep0
    using qempty_set [OF that(1,2)] that(3) by simp
qed (auto intro: qempty_pullup qempty_discard)

lemma discard_wqueue_empties:
  "discard_wqueue i n px = Some px' \<Longrightarrow> px_eps px i = Some ep \<Longrightarrow> length (ep_wqueue ep) \<le> n \<Longrightarrow> qempty i px'"
proof (induction n arbitrary: px ep)
  case 0
  then show ?case by (simp add: qempty_def)
next
  case (Suc n)
  show ?case
  proof (cases "ep_wqueue ep")
    case Nil
    then show ?thesis using Suc.prems by (simp add: qempty_def)
  next
    case (Cons m rest)
    then obtain px1 where f: "io_mbuf_free (set_ep i (ep\<lparr>ep_wqueue := rest\<rparr>) px) m = Some px1"
      and d: "discard_wqueue i n px1 = Some px'"
      using Suc.prems by auto
    obtain b m' where t: "io_mbuf_take_buffer (set_ep i (ep\<lparr>ep_wqueue := rest\<rparr>) px) m = Some (b, m', px1)"
      using f by (auto simp: io_mbuf_free_def)
    obtain ep1 where "px_eps px1 i = Some ep1" "ep_wqueue ep1 = rest"
      using take_buffer_queues [OF t, of i "ep\<lparr>ep_wqueue := rest\<rparr>"] by auto
    then show ?thesis using Suc.IH [OF d] Suc.prems(3) Cons by simp
  qed
qed

lemma discard_empties: "io_endpoint_write_queue_discard i px = Some px' \<Longrightarrow> qempty i px'"
  by (auto simp: io_endpoint_write_queue_discard_def intro: discard_wqueue_empties)

locale proxy_invariant = closing_invariant +
  assumes P_queue_write: "P px \<Longrightarrow> io_endpoint_queue_write i m px = Some px' \<Longrightarrow> mb_buffer m \<noteq> None \<Longrightarrow> P px'"
    and P_new: "P px \<Longrightarrow> px_eps px' = (px_eps px)(px_fresh px \<mapsto> ep) \<Longrightarrow> px_fresh px' = Suc (px_fresh px) \<Longrightarrow>
      ep_wqueue ep = [] \<Longrightarrow> unat (ep_rx_credit ep) \<in> credit_limits \<Longrightarrow> P px'"
    and P_drop: "P px \<Longrightarrow> qempty i px \<Longrightarrow> P (px\<lparr>px_eps := (px_eps px)(i := None)\<rparr>)"

text \<open>What making an endpoint does to the store.\<close>

definition made :: "proxy \<Rightarrow> ep_ref \<Rightarrow> proxy \<Rightarrow> bool" where
  "made px i px' \<longleftrightarrow> i = px_fresh px \<and> px_fresh px' = Suc i
     \<and> (\<exists>ep. px_eps px' = (px_eps px)(i \<mapsto> ep) \<and> ep_wqueue ep = [] \<and> unat (ep_rx_credit ep) \<in> credit_limits)"

lemma io_endpoint_new_made: "io_endpoint_new s ch rfd wfd c px = (i, px') \<Longrightarrow> made px i px'"
  by (auto simp: io_endpoint_new_def Let_def made_def credit_limits_def intro!: exI)

lemma made_set:
  "made px i px1 \<Longrightarrow> px_eps px1 i = Some ep0 \<Longrightarrow> ep_wqueue ep = ep_wqueue ep0 \<Longrightarrow>
     unat (ep_rx_credit ep) \<in> credit_limits \<Longrightarrow> made px i (set_ep i ep px1)"
  by (auto simp: made_def)

lemma made_credit: "made px i px' \<Longrightarrow> px_eps px' i = Some ep \<Longrightarrow> unat (ep_rx_credit ep) \<in> credit_limits"
  by (auto simp: made_def)

lemma made_cong: "px_eps p' = px_eps p \<Longrightarrow> px_fresh p' = px_fresh p \<Longrightarrow> made px i p' = made px i p"
  by (simp only: made_def)

lemma made_log: "made px i (os_log es px') = made px i px'"
  by (rule made_cong) simp_all

lemma made_link: "made px i (io_endpoint_link i s l px') = made px i px'"
  by (rule made_cong) (cases l; simp add: io_endpoint_link_def Let_def)+

lemma connector_made: "connector ops s ch px = Some (r, px') \<Longrightarrow> (case r of None \<Rightarrow> px' = px | Some i \<Rightarrow> made px i px')"
proof (cases ops)
  case io_unix_transport_ops
  assume "connector ops s ch px = Some (r, px')"
  then show ?thesis using io_unix_transport_ops
    by (auto simp: io_endpoint_socket_new_def Let_def split: if_splits prod.splits dest!: io_endpoint_new_made)
next
  case io_serial_transport_ops
  assume "connector ops s ch px = Some (r, px')"
  then show ?thesis using io_serial_transport_ops
    by (auto simp: io_endpoint_serial_new_def Let_def split: if_splits prod.splits dest!: io_endpoint_new_made)
next
  case io_stdio_transport_ops
  assume c: "connector ops s ch px = Some (r, px')"
  show ?thesis
  proof (cases r)
    case None
    then show ?thesis using c io_stdio_transport_ops
      by (auto simp: io_endpoint_pipe_new_def Let_def split: if_splits prod.splits)
  next
    case (Some i)
    then obtain a b px1 ep where "io_endpoint_new s ch a b True px = (i, px1)" "px_eps px1 i = Some ep"
      "px' = set_ep i (ep\<lparr>ep_type := IO_ENDPOINT_TYPE_MULTIPLEX\<rparr>) px1"
      using c io_stdio_transport_ops by (auto simp: io_endpoint_pipe_new_def Let_def split: if_splits prod.splits)
    then show ?thesis using Some made_set [OF io_endpoint_new_made] made_credit [OF io_endpoint_new_made] by simp
  qed
qed

lemma connect_finish_made:
  assumes m: "made px i px1" and f: "io_transport_connect_finish s i px1 = Some (r, px2)"
  shows "made px i px2"
proof -
  obtain ep where ep: "px_eps px1 i = Some ep" using f by (auto simp: io_transport_connect_finish_def)
  let ?ep = "ep\<lparr>ep_connected := True\<rparr>"
  let ?l = "os_log [OsConnect (ep_wfd ep)] (set_ep i ?ep px1)"
  have c: "unat (ep_rx_credit ?ep) \<in> credit_limits" using made_credit [OF m ep] by simp
  have "made px i (set_ep i ?ep px1)" by (rule made_set [OF m ep]) (use c in simp_all)
  then have ml: "made px i ?l" by (simp add: made_log)
  have "made px i (set_ep i ?ep ?l)" by (rule made_set [OF ml, of ?ep]) (use c in simp_all)
  then show ?thesis
    using f m ep by (auto simp: io_transport_connect_finish_def io_endpoint_socket_delayed_connect_def split: if_splits)
qed

context proxy_invariant
begin

lemma P_made: "P px \<Longrightarrow> made px i px' \<Longrightarrow> P px'"
  unfolding made_def using P_new by blast

lemma P_free: "P px \<Longrightarrow> io_endpoint_free i px = Some px' \<Longrightarrow> P px'"
proof -
  assume P: "P px" and f: "io_endpoint_free i px = Some px'"
  obtain ep px1 px2 px3 where x: "px_eps px i = Some ep"
    "io_endpoint_write_queue_discard i (set_ep i (ep\<lparr>ep_rbuf := None\<rparr>) px) = Some px1"
    "(case ep_sink ep of
          None \<Rightarrow> Some px1
        | Some k \<Rightarrow> do {
            sink \<leftarrow> px_eps px1 k;
            (if ep_sink sink = Some i
             then do { pxa \<leftarrow> io_endpoint_shutdown k SHUT_RDWR px1;
                       sink' \<leftarrow> px_eps pxa k;
                       Some (set_ep k (sink'\<lparr>ep_sink := None\<rparr>) pxa) }
             else Some px1) }) = Some px2"
    "io_endpoint_unlink i px2 = Some px3" "px3\<lparr>px_eps := (px_eps px3)(i := None)\<rparr> = px'"
    using f unfolding io_endpoint_free_def bind_Some_iff option.inject by blast
  have "P (set_ep i (ep\<lparr>ep_rbuf := None\<rparr>) px)" by (rule P_set [OF P x(1)]) simp_all
  then have P1: "P px1" using x(2) by (rule P_discard)
  have Q1: "qempty i px1" using discard_empties [OF x(2)] .
  have "P px2 \<and> qempty i px2"
  proof (cases "ep_sink ep")
    case None
    then show ?thesis using x(3) P1 Q1 by simp
  next
    case (Some k)
    then obtain sink where k: "px_eps px1 k = Some sink" using x(3) by auto
    show ?thesis
    proof (cases "ep_sink sink = Some i")
      case False
      then show ?thesis using x(3) Some k P1 Q1 by simp
    next
      case True
      then obtain pxa sink' where a: "io_endpoint_shutdown k SHUT_RDWR px1 = Some pxa" "px_eps pxa k = Some sink'"
        "px2 = set_ep k (sink'\<lparr>ep_sink := None\<rparr>) pxa"
        using x(3) Some k by auto
      have "P (set_ep k (sink'\<lparr>ep_sink := None\<rparr>) pxa)"
        by (rule P_set [OF P_shutdown [OF P1 a(1)] a(2)]) simp_all
      moreover have "qempty i (set_ep k (sink'\<lparr>ep_sink := None\<rparr>) pxa)"
        by (rule qempty.P_set [OF qempty.P_shutdown [OF Q1 a(1)] a(2)]) simp_all
      ultimately show ?thesis using a(3) by simp
    qed
  qed
  then have "P px3" "qempty i px3" using x(4) P_unlink qempty.P_unlink by blast+
  then show "P px'" using x(5) P_drop by blast
qed

lemma P_connect: "P px \<Longrightarrow> u_io_transport_connect s ch now px = Some (r, px') \<Longrightarrow>
    P px' \<and> (\<forall>i. r = Some i \<longrightarrow> made px i px')"
proof -
  assume P: "P px" and c: "u_io_transport_connect s ch now px = Some (r, px')"
  obtain ops r1 px1 where x: "connector ops s ch px = Some (r1, px1)"
    "(case r1 of
        None \<Rightarrow> Some (None, px1)
      | Some i \<Rightarrow> do {
          ep \<leftarrow> px_eps px1 i;
          let px2 = set_ep i (ep\<lparr>ep_type := xp_type (px_transport px1 s)\<rparr>) px1;
          (if \<not> ep_connected ep \<and> now
           then do { (ok, px3) \<leftarrow> io_transport_connect_finish s i px2;
                     (if ok then Some (Some i, px3)
                      else do { px4 \<leftarrow> io_endpoint_free i px3; Some (None, px4) }) }
           else Some (Some i, px2)) }) = Some (r, px')"
    using c unfolding u_io_transport_connect_def bind_Some_iff split_paired_Ex case_prod_conv by blast
  show ?thesis
  proof (cases r1)
    case None
    then show ?thesis using x connector_made [OF x(1)] P by simp
  next
    case (Some i)
    then obtain ep where ep: "px_eps px1 i = Some ep" using x(2) by auto
    let ?px2 = "set_ep i (ep\<lparr>ep_type := xp_type (px_transport px1 s)\<rparr>) px1"
    have m1: "made px i px1" using connector_made [OF x(1)] Some by simp
    have m2: "made px i ?px2" by (rule made_set [OF m1 ep]) (use made_credit [OF m1 ep] in simp_all)
    show ?thesis
    proof (cases "\<not> ep_connected ep \<and> now")
      case False
      then have "r = Some i" "px' = ?px2" using x(2) Some ep by (auto simp: Let_def)
      then show ?thesis using m2 P_made [OF P m2] by simp
    next
      case True
      then obtain ok px3 where f: "io_transport_connect_finish s i ?px2 = Some (ok, px3)"
        and rest: "(if ok then Some (Some i, px3)
                      else do { px4 \<leftarrow> io_endpoint_free i px3; Some (None, px4) }) = Some (r, px')"
        using x(2) Some ep by (auto simp: Let_def)
      have m3: "made px i px3" by (rule connect_finish_made [OF m2 f])
      show ?thesis using rest m3 P_made [OF P m3] P_free by (auto split: if_splits)
    qed
  qed
qed

end

lemma proxy_command_buffer: "proxy_command_new c ch n = Some m \<Longrightarrow> mb_buffer m \<noteq> None \<and> mb_source m = None"
  by (auto simp: proxy_command_new_def io_mbuf_wrap_def split: prod.splits option.splits)

context proxy_invariant
begin

lemma P_demux_packet: "P px \<Longrightarrow> proxy_demux_packet source bp px = Some px' \<Longrightarrow> P px'"
proof -
  assume P: "P px" and d: "proxy_demux_packet source bp px = Some px'"
  obtain src off bp1 hdr sink where
    x: "(if header_cmd hdr = CHANNEL_OPEN then do {
        (r, px1) \<leftarrow> u_io_transport_connect (other_side (ep_transport src)) (header_channel hdr) True px;
        i \<leftarrow> r;
        ep \<leftarrow> px_eps px1 i;
        Some (io_endpoint_link i (other_side (ep_transport src)) EpList
               (set_ep i (ep\<lparr>ep_channel_id := header_channel hdr, ep_sink := Some source,
                            ep_rx_credit := DEFAULT_CREDIT_SIMPLEX\<rparr>) px1)) }
      else (case sink of
          None \<Rightarrow> Some px
        | Some i \<Rightarrow>
            (if header_cmd hdr = CHANNEL_CLOSE then io_endpoint_halfclose i px
             else if header_cmd hdr = CHANNEL_DATA
                  then io_endpoint_queue_write i (io_mbuf_wrap bp1 (Some source)) px
             else Some px))) = Some px'" "px_eps px source = Some src"
    using d unfolding proxy_demux_packet_def Let_def bind_Some_iff split_paired_Ex case_prod_conv by blast
  show "P px'"
  proof (cases "header_cmd hdr = CHANNEL_OPEN")
    case True
    then obtain px1 i ep where o: "u_io_transport_connect (other_side (ep_transport src)) (header_channel hdr) True px = Some (Some i, px1)"
      "px_eps px1 i = Some ep"
      "px' = io_endpoint_link i (other_side (ep_transport src)) EpList
               (set_ep i (ep\<lparr>ep_channel_id := header_channel hdr, ep_sink := Some source,
                            ep_rx_credit := DEFAULT_CREDIT_SIMPLEX\<rparr>) px1)"
      using x(1) by auto
    have m: "made px i px1" using P_connect [OF P o(1)] by simp
    have "made px i (set_ep i (ep\<lparr>ep_channel_id := header_channel hdr, ep_sink := Some source,
                            ep_rx_credit := DEFAULT_CREDIT_SIMPLEX\<rparr>) px1)"
      by (rule made_set [OF m o(2)]) (simp_all add: credit_limits_def)
    then show ?thesis using o(3) P_link P_made [OF P] by blast
  next
    case False
    have q: "mb_buffer (io_mbuf_wrap bp1 (Some source)) \<noteq> None" by (simp add: io_mbuf_wrap_def)
    show ?thesis
      using x(1) False P P_halfclose P_queue_write [OF P _ q]
      by (auto split: option.splits if_splits)
  qed
qed

lemma P_mark_shutdown:
  assumes P: "P px" and k: "px_eps px k = Some sink"
    and s: "io_endpoint_shutdown i how (set_ep k (sink\<lparr>ep_shutdown_write := b\<rparr>) px) = Some px'"
  shows "P px'"
proof -
  have "P (set_ep k (sink\<lparr>ep_shutdown_write := b\<rparr>) px)" by (rule P_set [OF P k]) simp_all
  then show ?thesis using s by (rule P_shutdown)
qed

lemma P_recv_copy: "P px \<Longrightarrow> proxy_recv_copy fio script i px = Some px' \<Longrightarrow> P px'"
proof -
  assume P: "P px" and r: "proxy_recv_copy fio script i px = Some px'"
  obtain ep rc k where e: "px_eps px i = Some ep" "proxy_recv_bufsiz fio ep = Some rc" "ep_sink ep = Some k"
    using r by (auto simp: proxy_recv_copy_def)
  show "P px'"
  proof (cases "fst (os_do_read script (unat (ni_buffer_tailroom (ni_buffer_new (ucast rc)))))")
    case (ReadSome bs)
    then obtain b where "io_endpoint_queue_write k (io_mbuf_wrap b (Some i)) px = Some px'"
      using r e by (auto simp: proxy_recv_copy_def Let_def)
    then show ?thesis by (rule P_queue_write [OF P]) (simp add: io_mbuf_wrap_def)
  next
    case ReadEof
    then obtain sink where "px_eps px k = Some sink"
      "io_endpoint_shutdown i SHUT_RD (set_ep k (sink\<lparr>ep_shutdown_write := True\<rparr>) px) = Some px'"
      using r e by (auto simp: proxy_recv_copy_def Let_def)
    then show ?thesis by (rule P_mark_shutdown [OF P])
  next
    case ReadFailed
    then show ?thesis using r e P by (auto simp: proxy_recv_copy_def Let_def)
  qed
qed

lemma P_recv_mux: "P px \<Longrightarrow> proxy_recv_mux fio script i px = Some px' \<Longrightarrow> P px'"
proof -
  assume P: "P px" and r: "proxy_recv_mux fio script i px = Some px'"
  obtain ep rc k where e: "px_eps px i = Some ep" "proxy_recv_bufsiz fio ep = Some rc" "ep_sink ep = Some k"
    using r by (auto simp: proxy_recv_mux_def)
  show "P px'"
  proof (cases "fst (os_do_read script (unat (ni_buffer_tailroom (mux_room rc))))")
    case (ReadSome bs)
    then obtain m b where "io_endpoint_queue_write k (m\<lparr>mb_buffer := Some b\<rparr>) px = Some px'"
      using r e by (auto simp: proxy_recv_mux_def Let_def mux_room_def [symmetric])
    then show ?thesis by (rule P_queue_write [OF P]) simp
  next
    case ReadEof
    then obtain m px1 where x: "proxy_channel_close_new (ep_channel_id ep) = Some m"
      "io_endpoint_queue_write k m px = Some px1" "io_endpoint_shutdown i SHUT_RD px1 = Some px'"
      using r e by (auto simp: proxy_recv_mux_def Let_def mux_room_def [symmetric])
    have "P px1"
      using P_queue_write [OF P x(2)] proxy_command_buffer x(1) unfolding proxy_channel_close_new_def by blast
    then show ?thesis using x(3) by (rule P_shutdown)
  next
    case ReadFailed
    then show ?thesis using r e P by (auto simp: proxy_recv_mux_def Let_def mux_room_def [symmetric])
  qed
qed

lemma P_recv_demux: "P px \<Longrightarrow> proxy_recv_demux fresh fio script i px = Some (s', px') \<Longrightarrow> P px'"
proof -
  assume P: "P px" and r: "proxy_recv_demux fresh fio script i px = Some (s', px')"
  obtain ep rc res bp' s1 where e: "px_eps px i = Some ep" "proxy_recv_bufsiz fio ep = Some rc"
    "demux_loop fresh (unat rc) False (case ep_rbuf ep of None \<Rightarrow> ni_buffer_new (4096 + of_nat DATA_HEADER_SIZE) | Some b \<Rightarrow> b) script
       = Some (res, bp', s1)"
    using r by (auto simp: proxy_recv_demux_def Let_def)
  let ?px1 = "set_ep i (ep\<lparr>ep_rbuf := Some bp'\<rparr>) px"
  have P1: "P ?px1" by (rule P_set [OF P e(1)]) simp_all
  show "P px'"
  proof (cases res)
    case RxPacket
    then obtain px2 ep2 where x: "proxy_demux_packet i bp' ?px1 = Some px2" "px_eps px2 i = Some ep2"
      "px' = set_ep i (ep2\<lparr>ep_rbuf := None\<rparr>) px2"
      using r e by (auto simp: proxy_recv_demux_def Let_def)
    show ?thesis unfolding x(3) by (rule P_set [OF P_demux_packet [OF P1 x(1)] x(2)]) simp_all
  next
    case RxClosed
    then obtain px2 where "halfclose_list (other_side (ep_transport ep)) (xp_ep_list (px_transport ?px1 (other_side (ep_transport ep)))) ?px1 = Some px2"
      "io_endpoint_shutdown i SHUT_RD px2 = Some px'"
      using r e by (auto simp: proxy_recv_demux_def Let_def)
    then show ?thesis using P_shutdown [OF P_halfclose_list [OF P1]] by blast
  qed (use r e P1 in \<open>auto simp: proxy_recv_demux_def Let_def\<close>)
qed

lemma P_data_available: "P px \<Longrightarrow> data_available ans i px = Some px' \<Longrightarrow> P px'"
proof -
  assume P: "P px" and d: "data_available ans i px = Some px'"
  obtain ep fn where e: "px_eps px i = Some ep" "xp_data_available (px_transport px (ep_transport ep)) = Some fn"
    using d by (auto simp: data_available_def)
  show "P px'"
    using d e P by (cases fn) (auto simp: data_available_def dest: P_recv_copy P_recv_mux P_recv_demux)
qed

lemma P_doio: "P px \<Longrightarrow> io_endpoint_doio ans fd r w h i px = Some px' \<Longrightarrow> P px'"
proof -
  assume P: "P px" and d: "io_endpoint_doio ans fd r w h i px = Some px'"
  obtain ep px1 ep1 px2 ep2 where x: "px_eps px i = Some ep"
    "(if ep_rfd ep = fd \<and> r then data_available ans i px else Some px) = Some px1" "px_eps px1 i = Some ep1"
    "(if ep_wfd ep1 = fd \<and> w then endpoint_transmit (ans_write ans) i px1 else Some px1) = Some px2" "px_eps px2 i = Some ep2"
    "(if ep_wfd ep2 = fd \<and> h then io_endpoint_shutdown i SHUT_WR px2 else Some px2) = Some px'"
    using d unfolding io_endpoint_doio_def bind_Some_iff by blast
  have P1: "P px1" using x(2) P P_data_available by (auto split: if_splits)
  have P2: "P px2" using x(4) P1 P_transmit by (auto split: if_splits)
  show "P px'" using x(6) P2 P_shutdown by (auto split: if_splits)
qed

lemma P_purge_list: "P px \<Longrightarrow> purge_list is px = Some (n, px') \<Longrightarrow> P px'"
  by (induction "is" arbitrary: px n) (auto dest: P_free split: if_splits)

lemma P_purge: "P px \<Longrightarrow> io_transport_purge s px = Some (n, px') \<Longrightarrow> P px'"
proof -
  assume P: "P px" and p: "io_transport_purge s px = Some (n, px')"
  obtain n1 px1 n2 px2 n3 where x: "purge_list (xp_ep_list (px_transport px s)) px = Some (n1, px1)"
    "purge_list (xp_garbage_list (px_transport px1 s)) px1 = Some (n2, px2)"
    "purge_list (multiplex_list s px2) px2 = Some (n3, px')"
    using p by (auto simp: io_transport_purge_def)
  from P_purge_list [OF P_purge_list [OF P_purge_list [OF P x(1)] x(2)] x(3)] show "P px'" .
qed

lemma P_transport_poll_prepare: "P px \<Longrightarrow> io_transport_poll_prepare s px = Some px' \<Longrightarrow> P px'"
proof -
  assume P: "P px" and t: "io_transport_poll_prepare s px = Some px'"
  obtain px1 px2 n where x: "(case xp_multiplex (px_transport px s) of
          None \<Rightarrow> Some px
        | Some i \<Rightarrow> do { pxa \<leftarrow> io_endpoint_poll_prepare i px;
                        (n, pxb) \<leftarrow> purge_list (multiplex_list s pxa) pxa; Some pxb }) = Some px1"
    "poll_prepare_list s (xp_ep_list (px_transport px1 s)) px1 = Some px2"
    "purge_list (xp_ep_list (px_transport px2 s)) px2 = Some (n, px')"
    using t by (auto simp: io_transport_poll_prepare_def)
  have "P px1"
  proof (cases "xp_multiplex (px_transport px s)")
    case None
    then show ?thesis using x(1) P by simp
  next
    case (Some i)
    then obtain pxa n where a: "io_endpoint_poll_prepare i px = Some pxa" "purge_list (multiplex_list s pxa) pxa = Some (n, px1)"
      using x(1) by auto
    show ?thesis by (rule P_purge_list [OF P_poll_prepare [OF P a(1)] a(2)])
  qed
  from P_purge_list [OF P_poll_prepare_list [OF this x(2)] x(3)] show "P px'" .
qed

lemma P_transport_poll: "P px \<Longrightarrow> io_transport_poll s px = Some (es, px') \<Longrightarrow> P px'"
proof -
  assume P: "P px" and t: "io_transport_poll s px = Some (es, px')"
  obtain px1 n where x: "io_transport_poll_prepare s px = Some px1" "io_transport_purge s px1 = Some (n, px')"
    using t by (auto simp: io_transport_poll_def)
  show "P px'" by (rule P_purge [OF P_transport_poll_prepare [OF P x(1)] x(2)])
qed

lemma P_accept: "P px \<Longrightarrow> io_transport_accept acc s fd px = Some (r, px') \<Longrightarrow> P px'"
proof -
  assume P: "P px" and a: "io_transport_accept acc s fd px = Some (r, px')"
  define x where "x = px_transport px s"
  define c where "c = (if xp_type x = IO_ENDPOINT_TYPE_SIMPLEX
        then (xp_next_channel_id x, set_transport s (x\<lparr>xp_next_channel_id := xp_next_channel_id x + 1\<rparr>) px)
        else (CHANNEL_ID_NONE, px))"
  obtain ch px1 where c': "c = (ch, px1)" by (cases c)
  have p1: "px1 = px \<or> (\<exists>t. px1 = set_transport s t px)" using c' by (auto simp: c_def split: if_splits)
  obtain r1 px2 where x: "io_endpoint_socket_accept acc s ch fd px1 = Some (r1, px2)"
    "(case r1 of None \<Rightarrow> Some (None, px2) | Some i \<Rightarrow> do { ep \<leftarrow> px_eps px2 i;
          Some (Some i, set_ep i (ep\<lparr>ep_connected := True, ep_type := xp_type x\<rparr>) px2) }) = Some (r, px')"
    using a unfolding io_transport_accept_def Let_def x_def [symmetric] c_def [symmetric] c' by auto
  have P1: "P px1" using p1 P P_set_transport by auto
  show "P px'"
  proof (cases r1)
    case None
    then show ?thesis using x P1 by (auto simp: io_endpoint_socket_accept_def Let_def split: if_splits prod.splits)
  next
    case (Some i)
    then obtain ep where m: "made px1 i px2" and ep: "px_eps px2 i = Some ep"
      "px' = set_ep i (ep\<lparr>ep_connected := True, ep_type := xp_type (px_transport px s)\<rparr>) px2"
      using x by (auto simp: io_endpoint_socket_accept_def Let_def x_def split: if_splits prod.splits dest!: io_endpoint_new_made)
    show ?thesis unfolding ep(2) by (rule P_set [OF P_made [OF P1 m] ep(1)]) simp_all
  qed
qed

lemma P_downstream_accept: "P px \<Longrightarrow> proxy_downstream_accept acc pid fd r px = Some px' \<Longrightarrow> P px'"
proof -
  assume P: "P px" and d: "proxy_downstream_accept acc pid fd r px = Some px'"
  show "P px'"
  proof (cases r)
    case False
    then show ?thesis using d P by (simp add: proxy_downstream_accept_def)
  next
    case True
    then obtain r0 px1 where a: "io_transport_accept acc Downstream fd px = Some (r0, px1)"
      using d by (auto simp: proxy_downstream_accept_def)
    have P1: "P px1" by (rule P_accept [OF P a])
    show ?thesis
    proof (cases r0)
      case None
      then show ?thesis using d a P1 True by (simp add: proxy_downstream_accept_def)
    next
      case (Some i)
      then obtain ep where ep: "px_eps px1 i = Some ep"
        using d a True by (auto simp: proxy_downstream_accept_def)
      show ?thesis
      proof (cases "ep_type ep = IO_ENDPOINT_TYPE_MULTIPLEX")
        case True
        then have "io_endpoint_free i px1 = Some px' \<or> (\<exists>t. px' = px1\<lparr>px_down := t\<rparr>)"
          using d a ep Some \<open>r\<close> by (auto simp: proxy_downstream_accept_def Let_def split: if_splits)
        then show ?thesis using P_free [OF P1] P_cong [of _ px1] P1 by auto
      next
        case False
        obtain r2 px2 where u: "(case xp_multiplex (px_up px1) of
             Some m \<Rightarrow> do { mbuf \<leftarrow> proxy_channel_open_new (ep_channel_id ep);
                           pxa \<leftarrow> io_endpoint_queue_write m mbuf px1; Some (Some m, pxa) }
           | None \<Rightarrow> do {
               (u, pxa) \<leftarrow> io_transport_connect Upstream False px1;
               (case u of
                  None \<Rightarrow> do { pxb \<leftarrow> io_endpoint_free i pxa; Some (None, pxb) }
                | Some j \<Rightarrow> do {
                    up \<leftarrow> px_eps pxa j;
                    Some (Some j, io_endpoint_link j Upstream EpList (set_ep j (up\<lparr>ep_sink := Some i\<rparr>) pxa)) }) }) = Some (r2, px2)"
          and f: "(case r2 of None \<Rightarrow> Some px2 | Some j \<Rightarrow> do {
                     let px3 = io_endpoint_link i Downstream EpList px2;
                     ep3 \<leftarrow> px_eps px3 i;
                     Some (set_ep i (ep3\<lparr>ep_sink := Some j\<rparr>) px3) }) = Some px'"
          using d a ep Some \<open>r\<close> False by (auto simp: proxy_downstream_accept_def)
        have P2: "P px2"
        proof (cases "xp_multiplex (px_up px1)")
          case (Some m)
          then obtain mbuf where "proxy_command_new CHANNEL_OPEN (ep_channel_id ep) 0 = Some mbuf"
            "io_endpoint_queue_write m mbuf px1 = Some px2"
            using u by (auto simp: proxy_channel_open_new_def)
          then show ?thesis using P_queue_write [OF P1] proxy_command_buffer by blast
        next
          case None
          then obtain ur pxa where c: "u_io_transport_connect Upstream CHANNEL_ID_NONE False px1 = Some (ur, pxa)"
            using u by (auto simp: io_transport_connect_def)
          have Pa: "P pxa" using P_connect [OF P1 c] by simp
          show ?thesis
          proof (cases ur)
            case n: None
            then show ?thesis using u c None P_free [OF Pa] by (auto simp: io_transport_connect_def)
          next
            case (Some j)
            then obtain up where up: "px_eps pxa j = Some up"
              "px2 = io_endpoint_link j Upstream EpList (set_ep j (up\<lparr>ep_sink := Some i\<rparr>) pxa)"
              using u c None by (auto simp: io_transport_connect_def)
            have "P (set_ep j (up\<lparr>ep_sink := Some i\<rparr>) pxa)" by (rule P_set [OF Pa up(1)]) simp_all
            then show ?thesis using up(2) P_link by simp
          qed
        qed
        show ?thesis
        proof (cases r2)
          case None
          then show ?thesis using f P2 by simp
        next
          case (Some j)
          then obtain ep3 where e: "px_eps (io_endpoint_link i Downstream EpList px2) i = Some ep3"
            "px' = set_ep i (ep3\<lparr>ep_sink := Some j\<rparr>) (io_endpoint_link i Downstream EpList px2)"
            using f by (auto simp: Let_def)
          show ?thesis unfolding e(2) by (rule P_set [OF P_link [OF P2] e(1)]) simp_all
        qed
      qed
    qed
  qed
qed

lemma P_handle: "P px \<Longrightarrow> proxy_handle e a px = Some px' \<Longrightarrow> P px'"
  by (cases e) (auto dest: P_downstream_accept P_doio)

lemma P_handle_all: "P px \<Longrightarrow> proxy_handle_all eas px = Some px' \<Longrightarrow> P px'"
proof (induction eas arbitrary: px)
  case Nil
  then show ?case by simp
next
  case (Cons x eas)
  obtain e a px1 where "x = (e, a)" "proxy_handle e a px = Some px1" "proxy_handle_all eas px1 = Some px'"
    using Cons.prems(2) by (cases x) auto
  then show ?case using Cons.IH P_handle [OF Cons.prems(1)] by blast
qed

lemma P_turn: "P px \<Longrightarrow> do_proxy_turn answers px = Some (go, px') \<Longrightarrow> P px'"
proof -
  assume P: "P px" and t: "do_proxy_turn answers px = Some (go, px')"
  obtain es px1 where a: "proxy_poll_set px = Some (es, px1)"
    and b: "(if es = [] then Some (False, px1)
      else do { px2 \<leftarrow> proxy_handle_all (zip es (answers es)) px1; Some (True, px2) }) = Some (go, px')"
    using t unfolding do_proxy_turn_def bind_Some_iff split_paired_Ex case_prod_conv by blast
  obtain us pxa ds where "io_transport_poll Upstream px = Some (us, pxa)" "io_transport_poll Downstream pxa = Some (ds, px1)"
    using a by (auto simp: proxy_poll_set_def Let_def)
  then have "P px1" using P_transport_poll P by blast
  then show "P px'" using b P_handle_all by (auto split: if_splits)
qed

lemma P_listen: "P px \<Longrightarrow> io_transport_listen lfd s px = Some (ok, px') \<Longrightarrow> P px'"
  by (auto simp: io_transport_listen_def io_endpoint_socket_listen_def Let_def intro: P_set_transport split: if_splits)

lemma P_transport_init: "P px \<Longrightarrow> io_transport_init lfd s spec active px = Some (ok, px') \<Longrightarrow> P px'"
proof -
  assume P: "P px" and t: "io_transport_init lfd s spec active px = Some (ok, px')"
  obtain ty opts where sp: "split_spec spec = (ty, opts)" by fastforce
  define r where "r = (if ty = ''stdio'' then Some (io_transport_stdio_init s px)
               else if ty = ''unix'' then Some (io_transport_unix_init s opts IO_ENDPOINT_TYPE_SIMPLEX px)
               else if ty = ''unix-mux'' then Some (io_transport_unix_init s opts IO_ENDPOINT_TYPE_MULTIPLEX px)
               else if ty = ''serial'' then Some (io_transport_serial_init s opts px)
               else None)"
  show "P px'"
  proof (cases r)
    case None
    then show ?thesis using t P unfolding io_transport_init_def sp Let_def case_prod_conv r_def [symmetric] by simp
  next
    case (Some px1)
    have P1: "P px1"
      using Some P by (auto simp: r_def io_transport_stdio_init_def io_transport_unix_init_def
          io_transport_serial_init_def u_io_transport_init_def intro: P_set_transport split: if_splits)
    obtain px2 where l: "(if active then Some px1
              else do { (ok, pxa) \<leftarrow> io_transport_listen lfd s px1; (if ok then Some pxa else None) }) = Some px2"
      and c: "(if xp_type (px_transport px2 s) = IO_ENDPOINT_TYPE_MULTIPLEX \<and> active
              then do {
                (r, px3) \<leftarrow> io_transport_connect s True px2;
                (case r of
                   None \<Rightarrow> Some (False, px3)
                 | Some i \<Rightarrow> Some (True, set_transport s ((px_transport px3 s)\<lparr>xp_multiplex := Some i\<rparr>) px3)) }
              else Some (True, px2)) = Some (ok, px')"
      using t unfolding io_transport_init_def sp Let_def case_prod_conv r_def [symmetric] Some option.case bind_Some_iff by blast
    have P2: "P px2" using l P1 P_listen by (auto split: if_splits)
    show ?thesis
    proof (cases "xp_type (px_transport px2 s) = IO_ENDPOINT_TYPE_MULTIPLEX \<and> active")
      case False
      then show ?thesis using c P2 unfolding if_not_P [OF False] by simp
    next
      case True
      then obtain r1 px3 where "u_io_transport_connect s CHANNEL_ID_NONE True px2 = Some (r1, px3)"
        and e: "px' = px3 \<or> (\<exists>t. px' = set_transport s t px3)"
        using c by (auto simp: io_transport_connect_def split: option.splits)
      then have "P px3" using P_connect [OF P2] by blast
      then show ?thesis using e P_set_transport by auto
    qed
  qed
qed

lemma P_setup_recv: "P px \<Longrightarrow> proxy_setup_recv px = Some px' \<Longrightarrow> P px'"
  by (auto simp: proxy_setup_recv_def Let_def intro: P_cong [of _ px] split: if_splits)

end

section \<open>Flow control as an invariant\<close>

lemma px_inv_new:
  assumes inv: "px_inv px" and e: "px_eps px' = (px_eps px)(px_fresh px \<mapsto> ep)" and f: "px_fresh px' = Suc (px_fresh px)"
    and q: "ep_wqueue ep = []" and c: "unat (ep_rx_credit ep) \<in> credit_limits"
  shows "px_inv px'"
proof -
  have d: "px_debt px' s = px_debt px s" for s
    using q by (simp add: px_debt_def e f)
  have z: "mbuf_debt (px_fresh px) m = 0" if "px_eps px j = Some x" "m \<in> set (ep_wqueue x)" for j x m
    using inv that by (fastforce simp: px_inv_def px_ids_def mbuf_debt_def)
  have "slot_debt (px_fresh px) (px_eps px j) = 0" for j
    using z by (cases "px_eps px j") (simp_all add: queue_debt_def)
  then have "px_debt px (px_fresh px) = 0" by (simp add: px_debt_def)
  then show ?thesis
    using inv e f q c unfolding px_inv_def px_ids_def by (auto simp: d less_Suc_eq split: if_splits)
qed

lemma px_inv_drop:
  assumes inv: "px_inv px" and q: "qempty i px"
  shows "px_inv (px\<lparr>px_eps := (px_eps px)(i := None)\<rparr>)"
proof -
  obtain ep where ep: "px_eps px i = Some ep" "ep_wqueue ep = []" using q by (auto simp: qempty_def)
  have d: "px_debt (px\<lparr>px_eps := (px_eps px)(i := None)\<rparr>) s = px_debt px s" for s
    using px_debt_upd [OF px_inv_live [OF inv ep(1)], of "px\<lparr>px_eps := (px_eps px)(i := None)\<rparr>" None s] ep by simp
  show ?thesis using inv unfolding px_inv_def px_ids_def by (auto simp: d split: if_splits)
qed

interpretation credit: proxy_invariant px_inv
proof unfold_locales
  show "px_inv px'" if "px_eps px' = px_eps px" "px_fresh px' = px_fresh px" "px_inv px" for px px'
    using px_inv_cong [OF that(1,2)] that(3) by simp
qed (auto intro: px_inv_set_ep px_inv_pullup px_inv_queue_write px_inv_new px_inv_drop
       dest: px_inv_write_queue_discard)

text \<open>The states a run of the program goes through: two transports initialised from their
  specifications, then any number of turns of the poll loop with any answers from the system.\<close>

inductive proxy_reachable :: "proxy \<Rightarrow> bool" where
  start: "io_transport_init lfd1 Upstream up True (proxy_init os) = Some (True, px1) \<Longrightarrow>
     io_transport_init lfd2 Downstream down False px1 = Some (True, px2) \<Longrightarrow>
     proxy_setup_recv px2 = Some px \<Longrightarrow> proxy_reachable px"
| turn: "proxy_reachable px \<Longrightarrow> do_proxy_turn answers px = Some (go, px') \<Longrightarrow> proxy_reachable px'"

lemma px_inv_init: "px_inv (proxy_init os)"
  by (simp add: px_inv_def px_ids_def proxy_init_def)

lemma px_inv_reachable: "proxy_reachable px \<Longrightarrow> px_inv px"
proof (induction rule: proxy_reachable.induct)
  case (start lfd1 up os px1 lfd2 down px2 px)
  from credit.P_setup_recv [OF credit.P_transport_init [OF credit.P_transport_init [OF px_inv_init start(1)] start(2)] start(3)]
  show ?case .
qed (rule credit.P_turn)

text \<open>C2: flow control.  In every state the proxy reaches, for every endpoint that exists the credit
  it has left and the bytes of it that are queued on other endpoints add up to its limit, 8192 for a
  simplex and 131072 for a multiplexed endpoint.  So the memory one sender can tie up is bounded by
  its limit, and the 32-bit credit never wraps.\<close>

theorem proxy_flow_control:
  assumes "proxy_reachable px" and "px_eps px i = Some ep"
  shows "unat (ep_rx_credit ep) + px_debt px i \<in> {8192, 131072}"
  using px_inv_reachable [OF assms(1)] assms(2)
  by (auto simp: px_inv_def credit_limits_def DEFAULT_CREDIT_SIMPLEX_def DEFAULT_CREDIT_MULTIPLEX_def)

lemma proxy_flow_control_witness:
  "\<exists>px ep. proxy_reachable px \<and> px_eps px 0 = Some ep \<and> unat (ep_rx_credit ep) + px_debt px 0 \<in> {8192, 131072}"
proof -
  let ?os = "\<lparr>os_newfd = (\<lambda>_. 5), os_connect = (\<lambda>_. True)\<rparr>"
  obtain px1 where 1: "io_transport_init 3 Upstream ''stdio'' True (proxy_init ?os) = Some (True, px1)"
    and 2: "\<exists>ep. px_eps px1 0 = Some ep" "xp_type (px_up px1) = IO_ENDPOINT_TYPE_MULTIPLEX"
      "px_down px1 = transport0"
    by (simp add: io_transport_init_def io_transport_stdio_init_def u_io_transport_init_def io_transport_connect_def
        u_io_transport_connect_def io_endpoint_pipe_new_def io_endpoint_new_def Let_def proxy_init_def transport0_def
        CHANNEL_ID_NONE_def)
  obtain px2 where 3: "io_transport_init 3 Downstream ''unix:/s'' False px1 = Some (True, px2)"
    and 4: "\<exists>ep. px_eps px2 0 = Some ep" "xp_type (px_up px2) = IO_ENDPOINT_TYPE_MULTIPLEX"
      "xp_type (px_down px2) = IO_ENDPOINT_TYPE_SIMPLEX"
    using 2 by (simp add: io_transport_init_def io_transport_unix_init_def u_io_transport_init_def io_transport_listen_def
        io_endpoint_socket_listen_def transport0_def Let_def)
  obtain px where 5: "proxy_setup_recv px2 = Some px" and 6: "\<exists>ep. px_eps px 0 = Some ep"
    using 4 by (simp add: proxy_setup_recv_def Let_def)
  have "proxy_reachable px" by (rule proxy_reachable.start [OF 1 3 5])
  then show ?thesis using 6 proxy_flow_control [of px 0] by blast
qed

end
