(* ===== verification/ProxyOutput.thy ===== *)
theory ProxyOutput
  imports ProxyInvariant
begin

text \<open>
  The output side of an endpoint of proxy/main.c: \<open>io_endpoint_pullup\<close> and \<open>endpoint_transmit\<close> from one turn
  of the poll loop to the next.
\<close>

section \<open>Output order\<close>

definition obuf_ok :: "ni_buffer \<Rightarrow> bool" where
  "obuf_ok b \<longleftrightarrow> buf_wf b \<and> buf_bytes b \<noteq> [] \<and> length (buf_bytes b) < 2 ^ 32"

definition mbuf_ok :: "proxy \<Rightarrow> io_mbuf \<Rightarrow> bool" where
  "mbuf_ok px m \<longleftrightarrow> (\<exists>b. mb_buffer m = Some b \<and> obuf_ok b) \<and> (\<forall>s. mb_source m = Some s \<longrightarrow> px_eps px s \<noteq> None)"

text \<open>What an endpoint has to write is sound: no empty buffer, and the sources still exist.\<close>

definition outq_ok :: "ep_ref \<Rightarrow> proxy \<Rightarrow> bool" where
  "outq_ok i px \<longleftrightarrow> (\<exists>ep. px_eps px i = Some ep \<and> (\<forall>b. ep_wbuf ep = Some b \<longrightarrow> obuf_ok b)
      \<and> (\<forall>m \<in> set (ep_wqueue ep). mbuf_ok px m))"

lemma obuf_count: "obuf_ok b \<Longrightarrow> ni_buffer_count b \<noteq> 0"
proof -
  assume o: "obuf_ok b"
  then have "unat (ni_buffer_count b) = length (buf_bytes b)" using ni_buffer_count_wf [of b] by (simp add: obuf_ok_def)
  then show ?thesis using o by (auto simp: obuf_ok_def)
qed

lemma take_buffer_ep:
  "io_mbuf_take_buffer px m = Some (b, m', px') \<Longrightarrow> px_eps px i = Some ep \<Longrightarrow>
     \<exists>c. px_eps px' i = Some (ep\<lparr>ep_rx_credit := c\<rparr>)"
  by (cases ep) (auto simp: io_mbuf_take_buffer_def split: option.splits)

text \<open>Taking up the next buffer moves it within the endpoint; only credits change otherwise.\<close>

lemma pullup_ok:
  assumes ok: "outq_ok i px" and ep: "px_eps px i = Some ep"
  shows "\<exists>px' c w q. io_endpoint_pullup i px = Some (w, px')
           \<and> px_eps px' i = Some (ep\<lparr>ep_rx_credit := c, ep_wbuf := w, ep_wqueue := q\<rparr>) \<and> outq_ok i px'
           \<and> ep_pending (ep\<lparr>ep_rx_credit := c, ep_wbuf := w, ep_wqueue := q\<rparr>) = ep_pending ep
           \<and> px_log px' = px_log px \<and> (\<forall>s. px_transport px' s = px_transport px s)
           \<and> (w = None \<longleftrightarrow> ep_pending ep = []) \<and> (w = None \<longrightarrow> px' = px)"
proof (cases "ep_wbuf ep")
  case (Some b)
  then have "obuf_ok b" using ok ep by (auto simp: outq_ok_def)
  then have pu: "io_endpoint_pullup i px = Some (Some b, px)" "ep_pending ep \<noteq> []"
    using Some ep obuf_count by (simp_all add: io_endpoint_pullup_def ep_pending_def obuf_ok_def)
  have "ep_pending (ep\<lparr>ep_wbuf := Some b\<rparr>) = ep_pending ep" using Some by (simp add: ep_pending_def)
  then show ?thesis using pu ep ok Some
    by (intro exI [of _ px] exI [of _ "ep_rx_credit ep"] exI [of _ "ep_wbuf ep"] exI [of _ "ep_wqueue ep"]) simp
next
  case None
  show ?thesis
  proof (cases "ep_wqueue ep")
    case Nil
    then show ?thesis using None ep ok
      by (intro exI [of _ px] exI [of _ "ep_rx_credit ep"] exI [of _ "ep_wbuf ep"] exI [of _ "ep_wqueue ep"])
         (simp add: io_endpoint_pullup_def ep_pending_def)
  next
    case (Cons m rest)
    have q: "\<forall>x \<in> set (m # rest). mbuf_ok px x" using ok ep Cons by (auto simp: outq_ok_def)
    then obtain b where b: "mb_buffer m = Some b" "obuf_ok b" by (auto simp: mbuf_ok_def)
    obtain px1 where t: "io_mbuf_take_buffer px m = Some (Some b, m\<lparr>mb_buffer := None\<rparr>, px1)"
      and live: "\<forall>j. px_eps px j \<noteq> None \<longrightarrow> px_eps px1 j \<noteq> None" and l: "px_log px1 = px_log px"
      and x: "\<forall>s. px_transport px1 s = px_transport px s"
    proof (cases "mb_source m")
      case None
      then show thesis using that [of px] b by (simp add: io_mbuf_take_buffer_def)
    next
      case (Some s)
      then obtain src where "px_eps px s = Some src" using q by (auto simp: mbuf_ok_def)
      then show thesis using Some b that by (simp add: io_mbuf_take_buffer_def)
    qed
    obtain c where e1: "px_eps px1 i = Some (ep\<lparr>ep_rx_credit := c\<rparr>)" using take_buffer_ep [OF t ep] by blast
    let ?e = "ep\<lparr>ep_rx_credit := c, ep_wbuf := Some b, ep_wqueue := rest\<rparr>"
    let ?px = "set_ep i ?e px1"
    have "io_endpoint_pullup i px = Some (Some b, ?px)"
      using ep None Cons t e1 by (simp add: io_endpoint_pullup_def free_empty)
    moreover have "\<forall>x \<in> set rest. mbuf_ok ?px x" using q live by (auto simp: mbuf_ok_def)
    then have "outq_ok i ?px" using b by (simp add: outq_ok_def)
    moreover have "ep_pending ?e = ep_pending ep" "ep_pending ep \<noteq> []"
      using None Cons b by (simp_all add: ep_pending_def mbuf_bytes_def obuf_ok_def)
    ultimately show ?thesis using l x by (intro exI [of _ ?px] exI [of _ c] exI [of _ "Some b"] exI [of _ rest]) simp
  qed
qed

lemma transmit_ok:
  assumes ok: "outq_ok i px" and ep: "px_eps px i = Some ep" and b: "ep_wbuf ep = Some b"
    and n: "0 < n" "n \<le> length (buf_bytes b)"
  shows "\<exists>px' ep'. endpoint_transmit (Wrote n) i px = Some px' \<and> px_eps px' i = Some ep' \<and> outq_ok i px'
           \<and> px_log px' = px_log px @ [OsWrite (ep_wfd ep) (take n (ep_pending ep))]
           \<and> ep_pending ep' = drop n (ep_pending ep) \<and> ep_wfd ep' = ep_wfd ep"
proof -
  have ob: "obuf_ok b" using ok ep b by (auto simp: outq_ok_def)
  then have wf: "buf_wf b" and len: "length (buf_bytes b) < 2 ^ 32" by (auto simp: obuf_ok_def)
  note D = buf_wfD [OF wf]
  have un: "unat (of_nat n :: u64) = n" using n len by (intro unat_of_nat_u64) simp
  have pl: "unat (of_nat n :: u64) \<le> length (buf_bytes b)" using n un by simp
  let ?b = "b\<lparr>buf_head := buf_head b + of_nat n\<rparr>"
  have ph: "snd (ni_buffer_pull_head b (of_nat n)) = ?b" "buf_wf ?b" "buf_bytes ?b = drop n (buf_bytes b)"
    using ni_buffer_pull_head_ok [OF wf pl] un by simp_all
  have rd: "mem_read (buf_base b) (ni_buffer_head b) n = Some (take n (buf_bytes b))"
    using n D length_buf_bytes [OF wf] by (simp add: mem_read_in ni_buffer_head_def buf_bytes_def take_drop min_def)
  have cnt: "ni_buffer_count ?b = 0 \<longleftrightarrow> drop n (buf_bytes b) = []"
  proof -
    have "unat (ni_buffer_count ?b) = length (drop n (buf_bytes b))"
      using ni_buffer_count_wf [OF ph(2)] ph(3) len by simp
    then show ?thesis by (metis length_0_conv unat_eq_zero)
  qed
  let ?e = "ep\<lparr>ep_wbuf := (if ni_buffer_count ?b = 0 then None else Some ?b)\<rparr>"
  let ?px = "os_log [OsWrite (ep_wfd ep) (take n (buf_bytes b))] (set_ep i ?e px)"
  have "endpoint_transmit (Wrote n) i px = Some ?px"
    using ep b n rd ph(1) by (simp add: endpoint_transmit_def)
  moreover have "obuf_ok ?b" if "ni_buffer_count ?b \<noteq> 0" using that cnt ph len by (auto simp: obuf_ok_def)
  then have "outq_ok i ?px" using ok ep by (auto simp: outq_ok_def mbuf_ok_def)
  moreover have "ep_pending ?e = drop n (ep_pending ep)" using b n cnt ph(3) by (simp add: ep_pending_def)
  moreover have "take n (buf_bytes b) = take n (ep_pending ep)" using b n by (simp add: ep_pending_def)
  ultimately show ?thesis by (intro exI [of _ ?px] exI [of _ ?e]) simp
qed

text \<open>The output side of an endpoint over several turns of the loop: \<open>io_endpoint_poll_prepare\<close> pulls
  up, and when there is something to write one \<open>write()\<close> takes at most \<open>n\<close> bytes of it.\<close>

fun drain :: "nat list \<Rightarrow> ep_ref \<Rightarrow> proxy \<Rightarrow> proxy option" where
  "drain [] i px = Some px"
| "drain (n # ns) i px = do {
     (b, px1) \<leftarrow> io_endpoint_pullup i px;
     px2 \<leftarrow> (case b of None \<Rightarrow> Some px1
            | Some bp \<Rightarrow> endpoint_transmit (Wrote (min n (length (buf_bytes bp)))) i px1);
     drain ns i px2 }"

definition written_to :: "int \<Rightarrow> os_event list \<Rightarrow> byte list" where
  "written_to fd es = concat (map (\<lambda>e. case e of OsWrite f bs \<Rightarrow> if f = fd then bs else [] | _ \<Rightarrow> []) es)"

lemma written_to_append [simp]: "written_to fd (es @ fs) = written_to fd es @ written_to fd fs"
  by (simp add: written_to_def)

text \<open>C4: nothing an endpoint has queued is lost, repeated or reordered on its way out.  Whatever part
  of it each \<open>write()\<close> takes, the bytes written to the descriptor followed by what is still pending are
  what was pending at the start, and no call fails; when every write takes something, as many turns
  as there are bytes write all of it.\<close>

theorem endpoint_output_order:
  assumes "outq_ok i px" and "px_eps px i = Some ep" and "\<forall>n \<in> set ns. 0 < n"
  shows "\<exists>px' out. drain ns i px = Some px' \<and> written_to (ep_wfd ep) (px_log px') = written_to (ep_wfd ep) (px_log px) @ out
           \<and> out @ px_pending px' i = px_pending px i
           \<and> (length (px_pending px i) \<le> length ns \<longrightarrow> px_pending px' i = [])"
  using assms
proof (induction ns arbitrary: px ep)
  case Nil
  then show ?case by simp
next
  case (Cons n ns)
  have n: "0 < n" and ns: "\<forall>n \<in> set ns. 0 < n" using Cons.prems(3) by auto
  obtain px1 ep1 where p: "io_endpoint_pullup i px = Some (ep_wbuf ep1, px1)" "px_eps px1 i = Some ep1" "outq_ok i px1"
     "ep_pending ep1 = ep_pending ep" "px_log px1 = px_log px" "ep_wfd ep1 = ep_wfd ep"
     "ep_wbuf ep1 = None \<longrightarrow> ep_pending ep = []"
  proof -
    obtain px' c w q where x: "io_endpoint_pullup i px = Some (w, px')"
      "px_eps px' i = Some (ep\<lparr>ep_rx_credit := c, ep_wbuf := w, ep_wqueue := q\<rparr>)" "outq_ok i px'"
      "ep_pending (ep\<lparr>ep_rx_credit := c, ep_wbuf := w, ep_wqueue := q\<rparr>) = ep_pending ep" "px_log px' = px_log px"
      "w = None \<longleftrightarrow> ep_pending ep = []"
      using pullup_ok [OF Cons.prems(1,2)] by blast
    show thesis by (rule that [OF _ x(2)]) (use x in simp_all)
  qed
  show ?case
  proof (cases "ep_wbuf ep1")
    case None
    obtain px' out where "drain ns i px1 = Some px'"
      "written_to (ep_wfd ep1) (px_log px') = written_to (ep_wfd ep1) (px_log px1) @ out"
      "out @ px_pending px' i = px_pending px1 i"
      using Cons.IH [OF p(3,2) ns] by blast
    then show ?thesis using p None Cons.prems(2) by (auto simp: px_pending_def)
  next
    case (Some b)
    let ?k = "min n (length (buf_bytes b))"
    have "obuf_ok b" using p(2,3) Some by (auto simp: outq_ok_def)
    then have k: "0 < ?k" "?k \<le> length (buf_bytes b)" using n by (auto simp: obuf_ok_def)
    obtain px2 ep2 where t: "endpoint_transmit (Wrote ?k) i px1 = Some px2" "px_eps px2 i = Some ep2" "outq_ok i px2"
      "px_log px2 = px_log px1 @ [OsWrite (ep_wfd ep1) (take ?k (ep_pending ep1))]"
      "ep_pending ep2 = drop ?k (ep_pending ep1)" "ep_wfd ep2 = ep_wfd ep1"
      using transmit_ok [OF p(3,2) Some k] by blast
    obtain px' out where r: "drain ns i px2 = Some px'"
      "written_to (ep_wfd ep2) (px_log px') = written_to (ep_wfd ep2) (px_log px2) @ out"
      "out @ px_pending px' i = px_pending px2 i" "length (px_pending px2 i) \<le> length ns \<longrightarrow> px_pending px' i = []"
      using Cons.IH [OF t(3,2) ns] by blast
    have pend: "px_pending px2 i = drop ?k (ep_pending ep)" "px_pending px i = ep_pending ep"
      using t(2,5) p(4) Cons.prems(2) by (simp_all add: px_pending_def)
    let ?o = "take ?k (ep_pending ep) @ out"
    have "drain (n # ns) i px = Some px'" using p(1) t(1) r(1) Some by simp
    moreover have "written_to (ep_wfd ep) (px_log px') = written_to (ep_wfd ep) (px_log px) @ ?o"
      using r(2) t(4,6) p(4,5,6) by (simp add: written_to_def)
    moreover have "?o @ px_pending px' i = px_pending px i" using r(3) pend by simp
    moreover have "length (px_pending px i) \<le> length (n # ns) \<longrightarrow> length (px_pending px2 i) \<le> length ns"
      unfolding pend using k(1) unfolding length_drop list.size by linarith
    ultimately show ?thesis using r(4) by blast
  qed
qed

lemma endpoint_output_order_witness:
  "\<exists>px ep. outq_ok 0 px \<and> px_eps px 0 = Some ep \<and> px_pending px 0 = [7, 8, 9]
     \<and> (\<exists>px' out. drain [2, 1, 4] 0 px = Some px' \<and> written_to (ep_wfd ep) (px_log px') = written_to (ep_wfd ep) (px_log px) @ out
           \<and> out @ px_pending px' 0 = px_pending px 0
           \<and> (length (px_pending px 0) \<le> length [2, 1, 4 :: nat] \<longrightarrow> px_pending px' 0 = []))"
proof -
  let ?b = "ni_buffer_init_reader [7, 8, 9] 3"
  let ?ep = "(sample_ep Upstream IO_ENDPOINT_TYPE_SIMPLEX 7 1 3)\<lparr>ep_wqueue := [io_mbuf_wrap ?b (Some 1)]\<rparr>"
  let ?px = "set_ep 0 ?ep sample_proxy"
  have b: "buf_wf ?b" "buf_bytes ?b = [7, 8, 9]" using ni_buffer_init_reader_wf [of "[7, 8, 9]" 3] by simp_all
  have ok: "outq_ok 0 ?px"
    using b by (simp add: outq_ok_def mbuf_ok_def obuf_ok_def io_mbuf_wrap_def sample_ep_def sample_proxy_def)
  have ep: "px_eps ?px 0 = Some ?ep" by simp
  have "px_pending ?px 0 = [7, 8, 9]"
    using b by (simp add: px_pending_def ep_pending_def mbuf_bytes_def io_mbuf_wrap_def sample_ep_def)
  then show ?thesis using ok ep endpoint_output_order [OF ok ep, of "[2, 1, 4]"] by fastforce
qed

end
