(* ===== verification/ProxyClose.thy ===== *)
theory ProxyClose
  imports ProxyOutput
begin

text \<open>
  Closing and the limits of the proxy, proxy/main.c: what happens to output that is pending when an
  endpoint is closed, when the multiplexed connection ends, and when a frame meets a source that
  has little credit left or has gone.
\<close>

section \<open>Half-close\<close>

lemma outq_ok_set:
  "outq_ok i px \<Longrightarrow> px_eps px i = Some ep0 \<Longrightarrow> ep_wbuf ep = ep_wbuf ep0 \<Longrightarrow> ep_wqueue ep = ep_wqueue ep0 \<Longrightarrow>
     outq_ok i (set_ep i ep px)"
  by (auto simp: outq_ok_def mbuf_ok_def)

lemma outq_ok_log: "outq_ok i (os_log es px) = outq_ok i px"
  by (simp add: outq_ok_def mbuf_ok_def)

lemma halfclose_pending:
  assumes "outq_ok i px" and "px_eps px i = Some ep" and "0 \<le> ep_rfd ep" and "ep_rfd ep = ep_wfd ep"
    and p: "ep_pending ep \<noteq> []"
  shows "\<exists>px' c b q. io_endpoint_halfclose i px = Some px' \<and> outq_ok i px'
           \<and> px_eps px' i = Some (ep\<lparr>ep_shutdown_write := True, ep_rx_credit := c, ep_wbuf := Some b, ep_wqueue := q, ep_rfd := -1\<rparr>)
           \<and> px_pending px' i = ep_pending ep"
proof -
  let ?e = "ep\<lparr>ep_shutdown_write := True\<rparr>"
  have ok: "outq_ok i (set_ep i ?e px)" by (rule outq_ok_set [OF assms(1,2)]) simp_all
  have pe: "ep_pending ?e = ep_pending ep" by (simp add: ep_pending_def)
  obtain px1 c w q where x: "io_endpoint_pullup i (set_ep i ?e px) = Some (w, px1)"
    "px_eps px1 i = Some (?e\<lparr>ep_rx_credit := c, ep_wbuf := w, ep_wqueue := q\<rparr>)" "outq_ok i px1"
    "ep_pending (?e\<lparr>ep_rx_credit := c, ep_wbuf := w, ep_wqueue := q\<rparr>) = ep_pending ?e"
    "w = None \<longleftrightarrow> ep_pending ?e = []"
    using pullup_ok [OF ok, of ?e] by auto
  obtain b where b: "w = Some b" using x(5) p pe by auto
  let ?e2 = "?e\<lparr>ep_rx_credit := c, ep_wbuf := w, ep_wqueue := q, ep_rfd := -1\<rparr>"
  let ?px = "os_log [OsShutdown (ep_rfd ep) SHUT_RD] (set_ep i ?e2 px1)"
  have "io_endpoint_halfclose i px = Some ?px"
    using assms(2-4) x(1,2) b
    by (simp add: io_endpoint_halfclose_def io_endpoint_shutdown_def shutdown_read_half_def shutdown_write_half_def)
  moreover have "outq_ok i ?px" unfolding outq_ok_log by (rule outq_ok_set [OF x(3,2)]) simp_all
  moreover have "px_pending ?px i = ep_pending ep" using x(4) pe by (simp add: px_pending_def ep_pending_def)
  ultimately show ?thesis using b by (intro exI [of _ ?px] exI [of _ c] exI [of _ b] exI [of _ q]) simp
qed

lemma halfclose_idle:
  assumes ep: "px_eps px i = Some ep" and fd: "0 \<le> ep_rfd ep" "ep_rfd ep = ep_wfd ep"
    and e: "ep_wbuf ep = None" "ep_wqueue ep = []" and m: "xp_multiplex (px_transport px (ep_transport ep)) \<noteq> Some i"
  shows "\<exists>px'. io_endpoint_halfclose i px = Some px'
           \<and> px_eps px' = (px_eps px)(i \<mapsto> ep\<lparr>ep_shutdown_write := True, ep_rfd := -1, ep_wfd := -1\<rparr>)
           \<and> xp_ep_list (px_transport px' (ep_transport ep)) = remove1 i (xp_ep_list (px_transport px (ep_transport ep)))
           \<and> i \<in> set (xp_garbage_list (px_transport px' (ep_transport ep)))"
  using assms
  by (auto simp: io_endpoint_halfclose_def io_endpoint_shutdown_def shutdown_read_half_def shutdown_write_half_def
      io_endpoint_pullup_def io_endpoint_unlink_def io_endpoint_link_def Let_def)

text \<open>C7: half-closing keeps the pending output but it is never written.  An endpoint with output
  pending loses only its read side, nothing of the output is dropped, and the endpoint is marked to be
  shut down for writing once it is out.  But the next poll asks for output on \<open>ep->rfd\<close>, which is now -1,
  instead of \<open>ep->wfd\<close>: no event on the polled descriptor makes the handler write anything, and the
  pending bytes stay where they are.\<close>

theorem halfclose_output_stalls:
  assumes "outq_ok i px" and "px_eps px i = Some ep" and "0 \<le> ep_rfd ep" and "ep_rfd ep = ep_wfd ep"
    and "ep_connected ep" and "ep_pending ep \<noteq> []"
  shows "\<exists>px'. io_endpoint_halfclose i px = Some px' \<and> px_pending px' i = px_pending px i
           \<and> io_endpoint_poll_prepare i px' = Some px' \<and> io_endpoint_poll i px' = Some [(-1, False, True)]
           \<and> (\<forall>ans w h. io_endpoint_doio ans (-1) False w h i px' = Some px')"
proof -
  obtain px' c b q where h: "io_endpoint_halfclose i px = Some px'" "outq_ok i px'"
    "px_eps px' i = Some (ep\<lparr>ep_shutdown_write := True, ep_rx_credit := c, ep_wbuf := Some b, ep_wqueue := q, ep_rfd := -1\<rparr>)"
    "px_pending px' i = ep_pending ep"
    using halfclose_pending [OF assms(1-4,6)] by blast
  have "obuf_ok b" using h(2,3) by (auto simp: outq_ok_def)
  then have "ni_buffer_count b \<noteq> 0" by (rule obuf_count)
  then show ?thesis using h assms
    by (intro exI [of _ px'])
       (simp add: px_pending_def io_endpoint_poll_prepare_def io_endpoint_pullup_def io_endpoint_poll_def io_endpoint_doio_def)
qed

lemma outq_ok_sample:
  "outq_ok 0 (set_ep 0 ((sample_ep Upstream IO_ENDPOINT_TYPE_SIMPLEX 7 1 3)
      \<lparr>ep_wqueue := [io_mbuf_wrap (ni_buffer_init_reader [7, 8, 9] 3) (Some 1)]\<rparr>) sample_proxy)"
  using ni_buffer_init_reader_wf [of "[7, 8, 9]" 3]
  by (simp add: outq_ok_def mbuf_ok_def obuf_ok_def io_mbuf_wrap_def sample_ep_def sample_proxy_def)

lemma halfclose_output_stalls_witness:
  "\<exists>px px'. px_pending px 0 = [7, 8, 9] \<and> io_endpoint_halfclose 0 px = Some px' \<and> px_pending px' 0 = px_pending px 0
     \<and> io_endpoint_poll_prepare 0 px' = Some px' \<and> io_endpoint_poll 0 px' = Some [(-1, False, True)]
     \<and> (\<forall>ans w h. io_endpoint_doio ans (-1) False w h 0 px' = Some px')"
proof -
  let ?b = "ni_buffer_init_reader [7, 8, 9] 3"
  let ?ep = "(sample_ep Upstream IO_ENDPOINT_TYPE_SIMPLEX 7 1 3)\<lparr>ep_wqueue := [io_mbuf_wrap ?b (Some 1)]\<rparr>"
  have p: "ep_pending ?ep = [7, 8, 9]"
    using ni_buffer_init_reader_wf [of "[7, 8, 9]" 3]
    by (simp add: ep_pending_def mbuf_bytes_def io_mbuf_wrap_def sample_ep_def)
  then have "px_pending (set_ep 0 ?ep sample_proxy) 0 = [7, 8, 9]" by (simp add: px_pending_def)
  then show ?thesis using halfclose_output_stalls [OF outq_ok_sample, of ?ep] p
    by (fastforce simp: sample_ep_def)
qed

section \<open>The end of the multiplexed connection\<close>

text \<open>When the multiplexed connection ends, the loop over the endpoints of the other side stops at
  the first one without pending output.  Half-closing it moves it to the garbage list, where its \<open>next\<close>
  is NULL, so the endpoints behind it on the list are not told and are left exactly as they were.\<close>

theorem demux_eof_stops_early:
  assumes "px_eps px i = Some ep" and "ep_transport ep = s" and "0 \<le> ep_rfd ep" and "ep_rfd ep = ep_wfd ep"
    and "ep_wbuf ep = None" and "ep_wqueue ep = []" and "xp_multiplex (px_transport px s) \<noteq> Some i"
    and "xp_ep_list (px_transport px s) = i # rest" and "distinct (i # rest)"
  shows "\<exists>px'. halfclose_list s (xp_ep_list (px_transport px s)) px = Some px'
           \<and> (\<forall>j \<in> set rest. px_eps px' j = px_eps px j) \<and> xp_ep_list (px_transport px' s) = rest"
  using halfclose_idle [OF assms(1,3-6)] assms(2,7-9) by auto

lemma demux_eof_stops_early_witness:
  "\<exists>px px'. xp_ep_list (px_transport px Upstream) = [0, 2] \<and> halfclose_list Upstream (xp_ep_list (px_transport px Upstream)) px = Some px'
     \<and> (\<forall>j \<in> set [2]. px_eps px' j = px_eps px j) \<and> xp_ep_list (px_transport px' Upstream) = [2]"
proof -
  let ?e = "sample_ep Upstream IO_ENDPOINT_TYPE_SIMPLEX 7 1 3"
  let ?px = "set_transport Upstream ((px_transport sample_proxy Upstream)\<lparr>xp_ep_list := [0, 2]\<rparr>)
     (set_ep 2 (sample_ep Upstream IO_ENDPOINT_TYPE_SIMPLEX 8 1 6) sample_proxy)"
  have "px_eps ?px 0 = Some ?e" "xp_multiplex (px_transport ?px Upstream) \<noteq> Some 0"
    "xp_ep_list (px_transport ?px Upstream) = [0, 2]"
    by (simp_all add: sample_proxy_def transport0_def)
  then show ?thesis using demux_eof_stops_early [of ?px 0 ?e Upstream "[2]"] by (fastforce simp: sample_ep_def)
qed

section \<open>Frames and credit\<close>

lemma demux_completes:
  assumes ok: "rbuf_ok bp" and f: "frame_ok f" and cs: "chunks_ok cs" and n: "n < 2 ^ 31"
    and e: "buf_bytes bp @ concat cs = frame_bytes f" and lt: "length (concat cs) < n"
  shows "\<exists>bp'. demux_loop fresh n False bp (chunks cs) = Some (RxPacket, bp', chunks []) \<and> rbuf_ok bp' \<and> buf_bytes bp' = frame_bytes f"
proof -
  have p: "prefix (buf_bytes bp) (frame_bytes f)" using e by (metis prefixI)
  have q: "prefix (frame_bytes f) (buf_bytes bp @ concat cs) \<or> prefix (buf_bytes bp @ concat cs) (frame_bytes f)" by (simp add: e)
  obtain r bp' cs' where x: "demux_loop fresh n False bp (chunks cs) = Some (r, bp', chunks cs')"
    "rbuf_ok bp'" "prefix (buf_bytes bp') (frame_bytes f)" "chunks_ok cs'"
    "buf_bytes bp' @ concat cs' = buf_bytes bp @ concat cs"
    "r = RxPacket \<and> buf_bytes bp' = frame_bytes f
        \<or> r = RxMore \<and> length (buf_bytes bp') = length (buf_bytes bp) + n
        \<or> r = RxError \<and> cs' = [] \<and> buf_bytes bp' \<noteq> frame_bytes f"
    using demux_loop_frame [OF ok f cs n p q, of fresh False] by blast
  have e': "buf_bytes bp' @ concat cs' = frame_bytes f" using x(5) e by simp
  have "length (buf_bytes bp') \<le> length (buf_bytes bp) + length (concat cs)"
    using prefix_length_le [OF x(3)] arg_cong [OF e, of length] by simp
  then have r: "r = RxPacket" "buf_bytes bp' = frame_bytes f" using x(6) e' lt by auto
  then have "cs' = []" using e' x(4) by (cases cs') (auto simp: chunks_ok_def)
  then show ?thesis using x r by auto
qed

text \<open>C6: a busy channel ends the proxy.  The read budget of a call is limited by the credit the
  multiplexed connection has left, but a frame is collected over several calls and charged as a whole.
  When the rest of a DATA frame arrives whose payload is larger than the credit, the assertion in
  \<open>io_endpoint_queue_write\<close> aborts the process; nothing in the sender's protocol keeps it from sending
  such a frame while the sink is slow.\<close>

theorem demux_aborts_without_credit:
  assumes "px_eps px i = Some ep" and "ep_rx_credit ep \<noteq> 0" and "ep_rbuf ep = Some bp" and "rbuf_ok bp"
    and "chunks_ok cs" and "buf_bytes bp @ concat cs = frame_bytes (CHANNEL_DATA, ch, payload)"
    and "length (concat cs) < unat (recv_budget fionread ep)" and "unat (recv_budget fionread ep) < 2 ^ 31"
    and "unat (ep_rx_credit ep) < length payload" and "length payload + 12 < 2 ^ 32"
    and "proxy_channel_by_id (other_side (ep_transport ep)) ch px = Some (Some k)"
    and "px_eps px k = Some sk" and "ep_connected sk"
  shows "proxy_recv_demux fresh fionread (chunks cs) i px = None"
proof -
  let ?f = "(CHANNEL_DATA, ch, payload)"
  have f: "frame_ok ?f" using assms(10) by (simp add: frame_ok_def DATA_HEADER_SIZE_def)
  obtain bp' where d: "demux_loop fresh (unat (recv_budget fionread ep)) False bp (chunks cs) = Some (RxPacket, bp', chunks [])"
    "rbuf_ok bp'" "buf_bytes bp' = frame_bytes ?f"
    using demux_completes [OF assms(4) f assms(5,8,6,7)] by blast
  let ?e1 = "ep\<lparr>ep_rbuf := Some bp'\<rparr>"
  let ?px1 = "set_ep i ?e1 px"
  have ch1: "proxy_channel_by_id (other_side (ep_transport ?e1)) ch ?px1 = Some (Some k)"
    using assms(11) find_channel_cong [of "px_eps ?px1" "px_eps px" ch] assms(1)
    by (simp add: proxy_channel_by_id_def)
  have wf: "buf_wf bp'" using d(2) by (simp add: rbuf_ok_def)
  have pb: "buf_bytes bp' = header_bytes CHANNEL_DATA ch (of_nat (length payload)) @ payload"
    using d(3) by (simp add: frame_bytes_def)
  have l32: "length payload < 2 ^ 32" using assms(10) by simp
  have e1: "px_eps ?px1 i = Some ?e1" by simp
  obtain b where b: "proxy_demux_packet i bp' ?px1 = io_endpoint_queue_write k
      \<lparr>mb_source = Some i, mb_buffer = Some b, mb_credit = of_nat (length payload)\<rparr> ?px1"
    using proxy_demux_packet_data [OF e1 wf pb l32 ch1] by blast
  have "\<not> of_nat (length payload) \<le> ep_rx_credit ep"
    using assms(9) l32 by (simp add: word_le_nat_alt u32_of_nat)
  moreover obtain sk1 where "px_eps ?px1 k = Some sk1" "ep_connected sk1" using assms(1,12,13) by (cases "k = i") auto
  ultimately have "proxy_demux_packet i bp' ?px1 = None" unfolding b
    by (simp add: io_endpoint_queue_write_def)
  then show ?thesis using assms(1-3) d(1) by (simp add: proxy_recv_demux_def)
qed

definition short_credit_proxy :: "ni_buffer \<Rightarrow> proxy" where
  "short_credit_proxy b =
     set_ep 1 ((sample_ep Downstream IO_ENDPOINT_TYPE_MULTIPLEX 0 0 4)\<lparr>ep_rx_credit := 2, ep_rbuf := Some b\<rparr>) sample_proxy"

lemma rbuf_partial_ok:
  assumes "length bs < 2 ^ 32"
  shows "rbuf_ok (ni_buffer_init_reader bs (of_nat (length bs)))
     \<and> buf_bytes (ni_buffer_init_reader bs (of_nat (length bs))) = bs"
proof -
  have u: "unat (of_nat (length bs) :: u64) = length bs" using assms by (intro unat_of_nat_u64) simp
  then show ?thesis
    using ni_buffer_init_reader_wf [of bs "of_nat (length bs)"]
    by (simp add: rbuf_ok_def ni_buffer_init_reader_def ni_buffer_init_def)
qed

lemma demux_aborts_without_credit_witness:
  "proxy_recv_demux (\<lambda>_. 0) None (chunks [[3]])
     1 (short_credit_proxy (ni_buffer_init_reader (header_bytes CHANNEL_DATA 7 3 @ [1, 2]) 14)) = None"
proof -
  let ?bs = "header_bytes CHANNEL_DATA 7 3 @ [1, 2 :: byte]"
  have r: "rbuf_ok (ni_buffer_init_reader ?bs 14)" "buf_bytes (ni_buffer_init_reader ?bs 14) = ?bs"
    using rbuf_partial_ok [of ?bs] by simp_all
  show ?thesis
    by (rule demux_aborts_without_credit [where ch = 7 and payload = "[1, 2, 3]" and k = 0
          and bp = "ni_buffer_init_reader ?bs 14"
          and ep = "(sample_ep Downstream IO_ENDPOINT_TYPE_MULTIPLEX 0 0 4)\<lparr>ep_rx_credit := 2, ep_rbuf := Some (ni_buffer_init_reader ?bs 14)\<rparr>"
          and sk = "sample_ep Upstream IO_ENDPOINT_TYPE_SIMPLEX 7 1 3"])
       (simp_all add: r short_credit_proxy_def sample_proxy_def proxy_init_def sample_ep_def chunks_ok_def frame_bytes_def
          recv_budget_def proxy_channel_by_id_def)
qed

text \<open>A frame that ends where the read budget ends is not handed on.  The loop leaves when the
  budget is used up before it looks at the buffer again, so the complete frame stays in \<open>rbuf\<close> and its
  sink gets nothing until more data arrives on the connection.\<close>

theorem demux_frame_at_budget_waits:
  assumes "px_eps px i = Some ep" and "ep_rx_credit ep \<noteq> 0" and "ep_rbuf ep = Some bp" and "rbuf_ok bp"
    and "frame_ok f" and "chunks_ok cs" and "buf_bytes bp @ concat cs = frame_bytes f"
    and "length (concat cs) = unat (recv_budget fionread ep)" and "unat (recv_budget fionread ep) < 2 ^ 31"
  shows "\<exists>bp'. proxy_recv_demux fresh fionread (chunks cs) i px = Some ([], set_ep i (ep\<lparr>ep_rbuf := Some bp'\<rparr>) px)
           \<and> buf_bytes bp' = frame_bytes f"
proof -
  let ?n = "unat (recv_budget fionread ep)"
  have p: "prefix (buf_bytes bp) (frame_bytes f)" using assms(7) by (metis prefixI)
  have q: "prefix (frame_bytes f) (buf_bytes bp @ concat cs) \<or> prefix (buf_bytes bp @ concat cs) (frame_bytes f)"
    by (simp add: assms(7))
  obtain r bp' cs' where x: "demux_loop fresh ?n False bp (chunks cs) = Some (r, bp', chunks cs')"
    "prefix (buf_bytes bp') (frame_bytes f)" "chunks_ok cs'" "buf_bytes bp' @ concat cs' = buf_bytes bp @ concat cs"
    "r = RxPacket \<and> buf_bytes bp' = frame_bytes f \<and> length (buf_bytes bp') < length (buf_bytes bp) + ?n
        \<or> r = RxMore \<and> length (buf_bytes bp') = length (buf_bytes bp) + ?n
        \<or> r = RxError \<and> cs' = [] \<and> buf_bytes bp' \<noteq> frame_bytes f"
    using demux_loop_frame [OF assms(4-6,9) p q, of fresh False] by blast
  have e: "buf_bytes bp' @ concat cs' = frame_bytes f" using x(4) assms(7) by simp
  have l: "length (frame_bytes f) = length (buf_bytes bp) + ?n"
    using arg_cong [OF assms(7), of length] assms(8) by simp
  have r: "r = RxMore" "length (buf_bytes bp') = length (frame_bytes f)" using x(5) e l by auto
  then have b: "buf_bytes bp' = frame_bytes f" using e by (metis append_eq_conv_conj take_all order_refl)
  then have "cs' = []" using e x(3) by (cases cs') (auto simp: chunks_ok_def)
  then show ?thesis using assms(1-3) x(1) r b by (intro exI [of _ bp']) (simp add: proxy_recv_demux_def chunks_def)
qed

lemma demux_frame_at_budget_waits_witness:
  "\<exists>bp'. proxy_recv_demux (\<lambda>_. 0) None (chunks [[3, 4]])
        1 (short_credit_proxy (ni_buffer_init_reader (header_bytes CHANNEL_DATA 7 4 @ [1, 2]) 14))
      = Some ([], set_ep 1 ((sample_ep Downstream IO_ENDPOINT_TYPE_MULTIPLEX 0 0 4)\<lparr>ep_rx_credit := 2, ep_rbuf := Some bp'\<rparr>)
          (short_credit_proxy (ni_buffer_init_reader (header_bytes CHANNEL_DATA 7 4 @ [1, 2]) 14)))
    \<and> buf_bytes bp' = frame_bytes (CHANNEL_DATA, 7, [1, 2, 3, 4])"
proof -
  let ?bs = "header_bytes CHANNEL_DATA 7 4 @ [1, 2 :: byte]"
  let ?b = "ni_buffer_init_reader ?bs 14"
  let ?e = "(sample_ep Downstream IO_ENDPOINT_TYPE_MULTIPLEX 0 0 4)\<lparr>ep_rx_credit := 2, ep_rbuf := Some ?b\<rparr>"
  have r: "rbuf_ok ?b" "buf_bytes ?b = ?bs" using rbuf_partial_ok [of ?bs] by simp_all
  have "\<exists>bp'. proxy_recv_demux (\<lambda>_. 0) None (chunks [[3, 4]]) 1 (short_credit_proxy ?b)
          = Some ([], set_ep 1 (?e\<lparr>ep_rbuf := Some bp'\<rparr>) (short_credit_proxy ?b))
      \<and> buf_bytes bp' = frame_bytes (CHANNEL_DATA, 7, [1, 2, 3, 4])"
    by (rule demux_frame_at_budget_waits [where bp = ?b])
       (simp_all add: r short_credit_proxy_def sample_ep_def chunks_ok_def frame_bytes_def frame_ok_def recv_budget_def
          DATA_HEADER_SIZE_def)
  then show ?thesis by simp
qed

section \<open>Dangling sources\<close>

text \<open>freeing an endpoint does not look for the buffers other endpoints have queued from it.  When
  one of them is taken up for writing, its credit is returned through the dangling \<open>source\<close> pointer.\<close>

theorem freed_source_dangles:
  assumes "io_endpoint_free s px = Some px1" and "px_eps px1 k = Some ep" and "ep_wbuf ep = None"
    and "ep_wqueue ep = m # rest" and "mb_source m = Some s" and "mb_buffer m = Some b"
  shows "io_endpoint_pullup k px1 = None"
proof -
  have "px_eps px1 s = None" using assms(1) by (auto simp: io_endpoint_free_def)
  then show ?thesis using assms by (simp add: io_endpoint_pullup_def io_mbuf_take_buffer_def bind_None_iff)
qed

lemma freed_source_dangles_witness:
  "\<exists>px px1. io_endpoint_free 0 px = Some px1 \<and> io_endpoint_pullup 1 px1 = None"
proof -
  let ?m = "io_mbuf_wrap (ni_buffer_init_reader [7] 1) (Some 0)"
  let ?e = "(sample_ep Downstream IO_ENDPOINT_TYPE_MULTIPLEX 0 9 4)\<lparr>ep_wqueue := [?m]\<rparr>"
  let ?px = "set_ep 1 ?e (set_ep 0 ((sample_ep Upstream IO_ENDPOINT_TYPE_SIMPLEX 7 1 3)\<lparr>ep_rfd := -1, ep_wfd := -1\<rparr>) sample_proxy)"
  obtain px1 where f: "io_endpoint_free 0 ?px = Some px1" "px_eps px1 1 = Some ?e"
    by (simp add: io_endpoint_free_def io_endpoint_write_queue_discard_def io_endpoint_unlink_def sample_ep_def sample_proxy_def
        transport0_def proxy_init_def Let_def numeral_2_eq_2)
  have "io_endpoint_pullup 1 px1 = None"
    by (rule freed_source_dangles [OF f, where m = ?m and rest = "[]" and b = "ni_buffer_init_reader [7] 1"])
       (simp_all add: sample_ep_def io_mbuf_wrap_def)
  with f show ?thesis by blast
qed

end
