(* ===== verification/Environ.thy ===== *)
theory Environ
  imports Vars
begin

text \<open>
  Test environments (server/environ.c): variables with a flag that says whether they are sorted by name,
  and the n-way merge of several environments into one.  In a merge the environment that comes first in
  the array decides the value of a variable; a variable it has unset (value NULL) stays unset.
\<close>

section \<open>Environments\<close>

record ni_testbus_env =
  env_sorted :: bool
  env_vars :: ni_var_array

definition ni_testbus_env_init :: ni_testbus_env where
  "ni_testbus_env_init = \<lparr>env_sorted = False, env_vars = ni_var_array_init\<rparr>"

definition ni_testbus_env_destroy :: "ni_testbus_env \<Rightarrow> ni_testbus_env option" where
  "ni_testbus_env_destroy env = do { v \<leftarrow> ni_var_array_destroy (env_vars env); Some ni_testbus_env_init }"

definition ni_testbus_env_name_valid :: "cstring \<Rightarrow> bool" where
  "ni_testbus_env_name_valid name =
     (case name of
        [] \<Rightarrow> False
      | c # cs \<Rightarrow> (if c \<noteq> CHR ''_'' \<and> \<not> (c_isupper c \<or> c_islower c) then False
                  else list_all (\<lambda>c. c = CHR ''_'' \<or> c_isalnum c) cs))"

definition reserved_prefix :: cstring where "reserved_prefix = ''testbus_''"

definition ni_testbus_env_name_reserved :: "cstring \<Rightarrow> bool" where
  "ni_testbus_env_name_reserved name \<longleftrightarrow> take (length reserved_prefix) name = reserved_prefix"

definition ni_testbus_setenv :: "ni_testbus_env \<Rightarrow> cstring \<Rightarrow> cstring option \<Rightarrow> ni_testbus_env option" where
  "ni_testbus_setenv env name value = do {
     v \<leftarrow> ni_var_array_set (env_vars env) name value;
     Some (env\<lparr>env_vars := v, env_sorted := False\<rparr>) }"

definition ni_testbus_unsetenv :: "ni_testbus_env \<Rightarrow> cstring \<Rightarrow> ni_testbus_env option" where
  "ni_testbus_unsetenv env name = do {
     v \<leftarrow> ni_var_array_set (env_vars env) name None;
     Some (env\<lparr>env_vars := v, env_sorted := False\<rparr>) }"

definition ni_testbus_getenv :: "ni_testbus_env \<Rightarrow> cstring \<Rightarrow> cstring option option" where
  "ni_testbus_getenv env name = do {
     r \<leftarrow> var_lookup (env_vars env) name;
     Some (case r of None \<Rightarrow> None | Some v \<Rightarrow> (if var_value v \<noteq> None then var_value v else None)) }"

section \<open>The merge\<close>

definition u_ni_testbus_env_sort :: "ni_testbus_env \<Rightarrow> ni_testbus_env option" where
  "u_ni_testbus_env_sort env =
     (if env_sorted env then Some env
      else do { v \<leftarrow> ni_var_array_sort (env_vars env); Some (env\<lparr>env_vars := v, env_sorted := True\<rparr>) })"

record env_merge_input =
  mi_array :: ni_var_array
  mi_next :: nat

text \<open>\<open>strcmp\<close> as a comparison of byte strings.\<close>

function skip_dups_loop :: "ni_var list \<Rightarrow> nat \<Rightarrow> nat \<Rightarrow> cstring \<Rightarrow> nat option" where
  "skip_dups_loop data nvars nx name =
     (if nvars \<le> nx then Some nx
      else do {
        v \<leftarrow> arr_get data nx;
        n \<leftarrow> var_name v;
        (if n < name then None
         else if name < n then Some nx
         else skip_dups_loop data nvars (nx + 1) name) })"
  by pat_completeness auto
termination by (relation "measure (\<lambda>(data, nvars, nx, name). nvars - nx)") auto

declare skip_dups_loop.simps [simp del]

definition u_ni_testbus_env_merge_skip_dups :: "env_merge_input \<Rightarrow> cstring \<Rightarrow> env_merge_input option" where
  "u_ni_testbus_env_merge_skip_dups m name = do {
     nx \<leftarrow> skip_dups_loop (va_data (mi_array m)) (va_count (mi_array m)) (mi_next m) name;
     Some (m\<lparr>mi_next := nx\<rparr>) }"

definition u_ni_testbus_env_merge_next :: "env_merge_input \<Rightarrow> ni_var option \<Rightarrow> ni_var option option" where
  "u_ni_testbus_env_merge_next m best =
     (if va_count (mi_array m) \<le> mi_next m then Some best
      else do {
        nx \<leftarrow> arr_get (va_data (mi_array m)) (mi_next m);
        (case best of
           None \<Rightarrow> Some (Some nx)
         | Some b \<Rightarrow> do { n \<leftarrow> var_name nx; bn \<leftarrow> var_name b; Some (if n < bn then Some nx else best) }) })"

text \<open>One pass over the inputs: skip what was merged last, then look for the smallest name.\<close>

fun merge_pass :: "ni_var option \<Rightarrow> env_merge_input list \<Rightarrow> ni_var option \<Rightarrow> (env_merge_input list \<times> ni_var option) option" where
  "merge_pass lst [] var = Some ([], var)"
| "merge_pass lst (m # ms) var = do {
     m1 \<leftarrow> (case lst of None \<Rightarrow> Some m
            | Some l \<Rightarrow> do { n \<leftarrow> var_name l; u_ni_testbus_env_merge_skip_dups m n });
     var1 \<leftarrow> u_ni_testbus_env_merge_next m1 var;
     r \<leftarrow> merge_pass lst ms var1;
     Some (m1 # fst r, snd r) }"

text \<open>\<open>while (TRUE)\<close>: not returning is \<open>None\<close> too.\<close>

partial_function (option) merge_loop ::
    "ni_testbus_env \<Rightarrow> ni_var option \<Rightarrow> env_merge_input list \<Rightarrow> ni_testbus_env option" where
  "merge_loop result lst merge = do {
     r \<leftarrow> merge_pass lst merge None;
     (case snd r of
        None \<Rightarrow> Some result
      | Some var \<Rightarrow> do {
          n \<leftarrow> var_name var;
          result1 \<leftarrow> ni_testbus_setenv result n (var_value var);
          merge_loop result1 (Some var) (fst r) }) }"

declare merge_loop.simps [code]

fun sort_all :: "ni_testbus_env list \<Rightarrow> ni_testbus_env list option" where
  "sort_all [] = Some []"
| "sort_all (e # es) = do { e1 \<leftarrow> u_ni_testbus_env_sort e; es1 \<leftarrow> sort_all es; Some (e1 # es1) }"

text \<open>The array of environments is changed too: its members are sorted.  The function returns TRUE.\<close>

definition ni_testbus_env_merge :: "ni_testbus_env \<Rightarrow> ni_testbus_env list \<Rightarrow> (ni_testbus_env \<times> ni_testbus_env list) option" where
  "ni_testbus_env_merge result env_array = do {
     envs \<leftarrow> sort_all env_array;
     res \<leftarrow> merge_loop result None (map (\<lambda>e. \<lparr>mi_array = env_vars e, mi_next = 0\<rparr>) envs);
     Some (res\<lparr>env_sorted := True\<rparr>, envs) }"

section \<open>Invariant\<close>

definition vname :: "ni_var \<Rightarrow> cstring" where "vname v = the (var_name v)"

definition sorted_vars :: "ni_var list \<Rightarrow> bool" where
  "sorted_vars vs \<longleftrightarrow> list_all (\<lambda>v. var_name v \<noteq> None) vs \<and> sorted_wrt (\<lambda>a b. vname a < vname b) vs"

text \<open>A set flag means what it says.\<close>

definition env_wf :: "ni_testbus_env \<Rightarrow> bool" where
  "env_wf env \<longleftrightarrow> va_wf (env_vars env) \<and> (env_sorted env \<longrightarrow> sorted_vars (va_items (env_vars env)))"

definition env_map :: "ni_testbus_env \<Rightarrow> cstring \<rightharpoonup> cstring option" where
  "env_map env = var_map (va_items (env_vars env))"

lemma env_wf_init: "env_wf ni_testbus_env_init" "env_map ni_testbus_env_init = (\<lambda>n. None)"
  by (simp_all add: env_wf_def env_map_def ni_testbus_env_init_def va_wf_init var_map_def fun_eq_iff)

lemma setenv_ok:
  "env_wf env \<Longrightarrow> \<exists>env'. ni_testbus_setenv env name value = Some env' \<and> env_wf env' \<and> env_map env' = (env_map env)(name \<mapsto> value)"
  using ni_var_array_set_ok [of "env_vars env" name] by (fastforce simp: ni_testbus_setenv_def env_wf_def env_map_def)

lemma unsetenv_setenv: "ni_testbus_unsetenv env name = ni_testbus_setenv env name None"
  by (simp add: ni_testbus_unsetenv_def ni_testbus_setenv_def)

lemma getenv_ok: "env_wf env \<Longrightarrow> ni_testbus_getenv env name = Some (case env_map env name of None \<Rightarrow> None | Some v \<Rightarrow> v)"
  using var_lookup_ok [of "env_vars env" name] by (auto simp: ni_testbus_getenv_def env_wf_def env_map_def split: option.splits)

definition env_lookup :: "ni_testbus_env \<Rightarrow> cstring \<Rightarrow> cstring option option option" where
  "env_lookup env name = va_lookup_value (env_vars env) name"

interpretation environ: var_store ni_testbus_setenv env_lookup env_map env_wf "\<lambda>_. True"
  by unfold_locales (use setenv_ok vars.get_ok in \<open>auto simp: env_lookup_def env_wf_def env_map_def\<close>)

text \<open>After any sequence of \<open>ni_testbus_setenv\<close> calls on a well-formed environment, \<open>ni_testbus_getenv\<close>
  gives for a name the value set last, or what the environment had before.\<close>

theorem testbus_env_last_value:
  assumes "env_wf env"
  shows "\<exists>env'. set_all ni_testbus_setenv env nvs = Some env'
     \<and> ni_testbus_getenv env' name = Some (case map_of (rev nvs) name of Some v \<Rightarrow> v
           | None \<Rightarrow> (case env_map env name of Some v \<Rightarrow> v | None \<Rightarrow> None))"
  using environ.set_all_ok [OF assms, of nvs] getenv_ok [of _ name]
  by (auto simp: list_all_iff map_add_def split: option.split)

lemma testbus_env_last_value_witness:
  "\<exists>env'. set_all ni_testbus_setenv ni_testbus_env_init [(''a'', Some ''1''), (''a'', None)] = Some env'
     \<and> ni_testbus_getenv env' ''a'' = Some None"
  using testbus_env_last_value [OF env_wf_init(1), of "[(''a'', Some ''1''), (''a'', None)]" "''a''"] by simp

section \<open>The merge on lists\<close>

definition mi_rem :: "env_merge_input \<Rightarrow> ni_var list" where
  "mi_rem m = drop (mi_next m) (va_items (mi_array m))"

definition mi_ok :: "env_merge_input \<Rightarrow> bool" where
  "mi_ok m \<longleftrightarrow> va_wf (mi_array m) \<and> sorted_vars (va_items (mi_array m)) \<and> mi_next m \<le> va_count (mi_array m)"

definition skip_name :: "ni_var option \<Rightarrow> ni_var list \<Rightarrow> ni_var list" where
  "skip_name lst vs = (case lst of None \<Rightarrow> vs | Some l \<Rightarrow> dropWhile (\<lambda>v. vname v = vname l) vs)"

fun pick :: "ni_var option \<Rightarrow> ni_var list \<Rightarrow> ni_var option" where
  "pick best [] = best"
| "pick None (v # vs) = Some v"
| "pick (Some b) (v # vs) = (if vname v < vname b then Some v else Some b)"

fun first_binding :: "(cstring \<rightharpoonup> cstring option) list \<Rightarrow> cstring \<rightharpoonup> cstring option" where
  "first_binding [] = (\<lambda>n. None)"
| "first_binding (m # ms) = first_binding ms ++ m"

lemma skip_dups_loop_ok:
  assumes "nvars \<le> length data" "nx \<le> nvars" "list_all (\<lambda>v. var_name v \<noteq> None) (take nvars data)"
    and "\<forall>v \<in> set (drop nx (take nvars data)). name \<le> vname v"
  shows "\<exists>nx'. skip_dups_loop data nvars nx name = Some nx' \<and> nx' \<le> nvars
           \<and> drop nx' (take nvars data) = dropWhile (\<lambda>v. vname v = name) (drop nx (take nvars data))"
  using assms
proof (induction data nvars nx name rule: skip_dups_loop.induct)
  case (1 data nvars nx name)
  show ?case
  proof (cases "nvars \<le> nx")
    case True
    then show ?thesis using "1.prems"(2) by (subst skip_dups_loop.simps) simp
  next
    case False
    have lt: "nx < length data" using False "1.prems"(1) by simp
    have d: "drop nx (take nvars data) = data ! nx # drop (Suc nx) (take nvars data)"
      using False "1.prems"(1) by (simp add: Cons_nth_drop_Suc [symmetric])
    have mem: "data ! nx \<in> set (take nvars data)" using False lt by (auto simp: in_set_conv_nth)
    obtain n where n: "var_name (data ! nx) = Some n" using "1.prems"(3) mem by (auto simp: list_all_iff)
    have ge: "name \<le> n" using "1.prems"(4) n d by (simp add: vname_def)
    let ?dr = "\<lambda>k. drop k (take nvars data)"
    have st: "skip_dups_loop data nvars nx name =
        (if n < name then None else if name < n then Some nx else skip_dups_loop data nvars (Suc nx) name)"
      using False lt n by (simp add: skip_dups_loop.simps [of data nvars nx name] arr_get_in)
    show ?thesis
    proof (cases "n = name")
      case True
      have ih: "\<exists>nx'. skip_dups_loop data nvars (nx + 1) name = Some nx' \<and> nx' \<le> nvars
           \<and> ?dr nx' = dropWhile (\<lambda>v. vname v = name) (?dr (nx + 1))"
      proof (rule "1.IH" [of "data ! nx" n])
        show "\<forall>v\<in>set (?dr (nx + 1)). name \<le> vname v"
          using "1.prems"(4) unfolding d by simp
      qed (use False lt n True "1.prems"(1,3) in \<open>simp_all add: arr_get_in\<close>)
      have "dropWhile (\<lambda>v. vname v = name) (?dr nx) = dropWhile (\<lambda>v. vname v = name) (?dr (nx + 1))"
        unfolding d using n True by (simp add: vname_def)
      then show ?thesis using ih True st by simp
    next
      case neq: False
      have "dropWhile (\<lambda>v. vname v = name) (?dr nx) = ?dr nx"
        unfolding d using n neq by (simp add: vname_def)
      moreover have "skip_dups_loop data nvars nx name = Some nx" using st ge neq by (simp add: order_less_le not_less)
      ultimately show ?thesis using False by simp
    qed
  qed
qed

lemma skip_dups_ok:
  assumes ok: "mi_ok m" and ge: "\<forall>v \<in> set (mi_rem m). name \<le> vname v"
  shows "\<exists>m1. u_ni_testbus_env_merge_skip_dups m name = Some m1 \<and> mi_ok m1
           \<and> mi_rem m1 = dropWhile (\<lambda>v. vname v = name) (mi_rem m)"
proof -
  have wf: "va_wf (mi_array m)" "sorted_vars (va_items (mi_array m))" "mi_next m \<le> va_count (mi_array m)"
    using ok by (simp_all add: mi_ok_def)
  obtain nx where "skip_dups_loop (va_data (mi_array m)) (va_count (mi_array m)) (mi_next m) name = Some nx"
      "nx \<le> va_count (mi_array m)"
      "drop nx (va_items (mi_array m)) = dropWhile (\<lambda>v. vname v = name) (drop (mi_next m) (va_items (mi_array m)))"
    using skip_dups_loop_ok [OF va_count_le [OF wf(1)] wf(3), of name] wf(2) ge
    by (auto simp: sorted_vars_def mi_rem_def va_items_def)
  then show ?thesis using wf by (simp add: u_ni_testbus_env_merge_skip_dups_def mi_ok_def mi_rem_def)
qed

lemma merge_next_ok:
  assumes ok: "mi_ok m" and b: "\<And>b. best = Some b \<Longrightarrow> var_name b \<noteq> None"
  shows "u_ni_testbus_env_merge_next m best = Some (pick best (mi_rem m))"
proof (cases "va_count (mi_array m) \<le> mi_next m")
  case True
  then show ?thesis by (simp add: u_ni_testbus_env_merge_next_def mi_rem_def va_items_def)
next
  case False
  have wf: "va_wf (mi_array m)" "sorted_vars (va_items (mi_array m))" using ok by (simp_all add: mi_ok_def)
  let ?v = "va_data (mi_array m) ! mi_next m"
  have lt: "mi_next m < length (va_data (mi_array m))" using False va_count_le [OF wf(1)] by simp
  have r: "mi_rem m = ?v # drop (Suc (mi_next m)) (va_items (mi_array m))"
    using False lt by (simp add: mi_rem_def va_items_def Cons_nth_drop_Suc [symmetric])
  have "?v \<in> set (va_items (mi_array m))" using False lt by (auto simp: va_items_def in_set_conv_nth)
  then obtain n where n: "var_name ?v = Some n" using wf(2) by (auto simp: sorted_vars_def list_all_iff)
  show ?thesis
  proof (cases best)
    case None
    show ?thesis unfolding r None using False lt by (simp add: u_ni_testbus_env_merge_next_def arr_get_in)
  next
    case (Some bv)
    obtain k where "var_name bv = Some k" using b [OF Some] by blast
    then show ?thesis unfolding r Some using False lt n
      by (simp add: u_ni_testbus_env_merge_next_def arr_get_in vname_def)
  qed
qed

lemma pick_name:
  assumes "\<And>b. best = Some b \<Longrightarrow> var_name b \<noteq> None" "list_all (\<lambda>v. var_name v \<noteq> None) vs" "pick best vs = Some b"
  shows "var_name b \<noteq> None"
  using assms by (cases best; cases vs) (auto split: if_splits)

definition lst_ok :: "ni_var option \<Rightarrow> ni_var list \<Rightarrow> bool" where
  "lst_ok lst vs \<longleftrightarrow> (case lst of None \<Rightarrow> True | Some l \<Rightarrow> var_name l \<noteq> None \<and> (\<forall>v \<in> set vs. vname l \<le> vname v))"

lemma merge_pass_ok:
  assumes "\<forall>m \<in> set ms. mi_ok m \<and> lst_ok lst (mi_rem m)" "\<And>b. best = Some b \<Longrightarrow> var_name b \<noteq> None"
  shows "\<exists>ms'. merge_pass lst ms best = Some (ms', foldl pick best (map (\<lambda>m. skip_name lst (mi_rem m)) ms))
           \<and> (\<forall>m \<in> set ms'. mi_ok m) \<and> map mi_rem ms' = map (\<lambda>m. skip_name lst (mi_rem m)) ms"
  using assms
proof (induction ms arbitrary: best)
  case (Cons m ms)
  have "\<exists>m1. (case lst of None \<Rightarrow> Some m | Some l \<Rightarrow> do { n \<leftarrow> var_name l; u_ni_testbus_env_merge_skip_dups m n }) = Some m1
      \<and> mi_ok m1 \<and> mi_rem m1 = skip_name lst (mi_rem m)"
  proof (cases lst)
    case (Some l)
    then obtain n where "var_name l = Some n" using Cons.prems(1) by (auto simp: lst_ok_def)
    then show ?thesis
      using skip_dups_ok [of m n] Cons.prems(1) Some by (auto simp: lst_ok_def skip_name_def vname_def)
  qed (use Cons.prems(1) in \<open>simp add: skip_name_def\<close>)
  then obtain m1 where m1: "(case lst of None \<Rightarrow> Some m | Some l \<Rightarrow> do { n \<leftarrow> var_name l; u_ni_testbus_env_merge_skip_dups m n }) = Some m1"
      "mi_ok m1" "mi_rem m1 = skip_name lst (mi_rem m)" by blast
  let ?b = "pick best (mi_rem m1)"
  have nx: "u_ni_testbus_env_merge_next m1 best = Some ?b" by (rule merge_next_ok [OF m1(2) Cons.prems(2)])
  have "list_all (\<lambda>v. var_name v \<noteq> None) (mi_rem m1)"
    using m1(2) by (auto simp: mi_ok_def sorted_vars_def mi_rem_def list_all_iff dest: in_set_dropD)
  then have bn: "\<And>b. ?b = Some b \<Longrightarrow> var_name b \<noteq> None" using pick_name Cons.prems(2) by blast
  obtain ms' where "merge_pass lst ms ?b = Some (ms', foldl pick ?b (map (\<lambda>m. skip_name lst (mi_rem m)) ms))"
      "\<forall>m \<in> set ms'. mi_ok m" "map mi_rem ms' = map (\<lambda>m. skip_name lst (mi_rem m)) ms"
    using Cons.IH [of ?b] Cons.prems(1) bn by auto
  then show ?case using m1 nx by simp
qed simp

text \<open>The variable a pass picks: the smallest name, from the first input that has it.\<close>

lemma var_map_None: "list_all (\<lambda>v. var_name v \<noteq> None) vs \<Longrightarrow> (\<And>v. v \<in> set vs \<Longrightarrow> vname v \<noteq> n) \<Longrightarrow> var_map vs n = None"
  by (induction vs) (auto simp: var_map_def vname_def)

lemma first_binding_None: "(\<And>m. m \<in> set ms \<Longrightarrow> m n = None) \<Longrightarrow> first_binding ms n = None"
proof (induction ms)
  case (Cons a ms)
  have "a n = None" "first_binding ms n = None" using Cons by simp_all
  then show ?case by (simp add: map_add_def)
qed simp

lemma first_binding_snoc: "first_binding (ms @ [m]) n = (case first_binding ms n of Some x \<Rightarrow> Some x | None \<Rightarrow> m n)"
  by (induction ms) (simp_all add: map_add_def split: option.split)

lemma sorted_vars_Cons:
  "sorted_vars (v # vs) \<longleftrightarrow> var_name v \<noteq> None \<and> (\<forall>w \<in> set vs. vname v < vname w) \<and> sorted_vars vs"
  by (auto simp: sorted_vars_def)

definition first_map :: "ni_var list list \<Rightarrow> cstring \<rightharpoonup> cstring option" where
  "first_map rs = first_binding (map var_map rs)"

lemma picked:
  assumes "\<forall>r \<in> set rs. sorted_vars r"
  shows "case foldl pick None rs of
           None \<Rightarrow> \<forall>r \<in> set rs. r = []
         | Some v \<Rightarrow> var_name v \<noteq> None \<and> first_map rs (vname v) = Some (var_value v)
             \<and> (\<forall>r \<in> set rs. \<forall>w \<in> set r. vname v \<le> vname w)"
  using assms
proof (induction rs rule: rev_induct)
  case (snoc r rs)
  have ih: "case foldl pick None rs of None \<Rightarrow> \<forall>r \<in> set rs. r = []
         | Some v \<Rightarrow> var_name v \<noteq> None \<and> first_map rs (vname v) = Some (var_value v)
             \<and> (\<forall>r \<in> set rs. \<forall>w \<in> set r. vname v \<le> vname w)"
    using snoc by simp
  show ?case
  proof (cases r)
    case Nil
    then show ?thesis using ih by (auto simp: first_map_def first_binding_snoc var_map_def split: option.splits)
  next
    case (Cons x xs)
    have x: "var_name x \<noteq> None" "\<forall>w \<in> set r. vname x \<le> vname w" "var_map r (vname x) = Some (var_value x)"
      using snoc.prems Cons by (auto simp: sorted_vars_Cons var_map_Cons vname_def)
    have none: "first_map rs (vname x) = None" if "\<forall>r \<in> set rs. \<forall>w \<in> set r. vname x < vname w"
      unfolding first_map_def
    proof (rule first_binding_None)
      fix m assume "m \<in> set (map var_map rs)"
      then obtain r' where r': "r' \<in> set rs" "m = var_map r'" by auto
      have "sorted_vars r'" using snoc.prems r'(1) by simp
      moreover have "vname v \<noteq> vname x" if "v \<in> set r'" for v
        using \<open>\<forall>r \<in> set rs. \<forall>w \<in> set r. vname x < vname w\<close> r'(1) that by fastforce
      ultimately show "m (vname x) = None" unfolding r'(2) by (intro var_map_None) (simp_all add: sorted_vars_def)
    qed
    show ?thesis
    proof (cases "foldl pick None rs")
      case None
      then have e: "\<forall>r \<in> set rs. r = []" using ih by simp
      then have "first_map rs (vname x) = None" by (intro none) fastforce
      then show ?thesis using None Cons x e by (auto simp: first_map_def first_binding_snoc)
    next
      case (Some b)
      then have b: "var_name b \<noteq> None" "first_map rs (vname b) = Some (var_value b)"
          "\<forall>r \<in> set rs. \<forall>w \<in> set r. vname b \<le> vname w" using ih by simp_all
      show ?thesis
      proof (cases "vname x < vname b")
        case True
        have "\<forall>r \<in> set rs. \<forall>w \<in> set r. vname x < vname w" using b(3) True by (meson less_le_trans)
        then show ?thesis using Some Cons x none True
          by (simp add: first_map_def first_binding_snoc) (meson order.strict_implies_order)
      next
        case False
        then have le: "vname b \<le> vname x" by simp
        have "\<forall>w \<in> set r. vname b \<le> vname w" using x(2) le by (meson order_trans)
        then show ?thesis using Some Cons b False by (auto simp: first_map_def first_binding_snoc)
      qed
    qed
  qed
qed simp

lemma picked_in: "foldl pick best rs = Some v \<Longrightarrow> best = Some v \<or> (\<exists>r \<in> set rs. v \<in> set r)"
proof (induction rs arbitrary: best)
  case (Cons r rs)
  have "pick best r = Some v \<Longrightarrow> best = Some v \<or> v \<in> set r"
    by (cases best; cases r) (auto split: if_splits)
  then show ?case using Cons.IH [of "pick best r"] Cons.prems by auto
qed simp

subsection \<open>The loop\<close>

text \<open>What is left to merge after \<open>lst\<close>.\<close>

definition todo :: "ni_var option \<Rightarrow> env_merge_input list \<Rightarrow> ni_var list list" where
  "todo lst ms = map (\<lambda>m. skip_name lst (mi_rem m)) ms"

lemma skip_name_sorted: "sorted_vars vs \<Longrightarrow> sorted_vars (skip_name lst vs)"
  unfolding sorted_vars_def skip_name_def list_all_iff
  by (auto split: option.split dest: set_dropWhileD intro: sorted_wrt_dropWhile)

lemma skip_name_gt: "sorted_vars vs \<Longrightarrow> \<forall>w \<in> set vs. vname l \<le> vname w \<Longrightarrow> w \<in> set (skip_name (Some l) vs) \<Longrightarrow> vname l < vname w"
proof (induction vs)
  case (Cons v vs)
  show ?case
  proof (cases "vname v = vname l")
    case True
    then show ?thesis using Cons by (auto simp: skip_name_def sorted_vars_Cons)
  next
    case False
    then have "vname l < vname v" using Cons.prems(2) by (simp add: order_less_le)
    then show ?thesis using Cons.prems False by (auto simp: skip_name_def sorted_vars_Cons intro: less_trans)
  qed
qed (simp add: skip_name_def)

lemma skip_name_map:
  "sorted_vars vs \<Longrightarrow> \<forall>w \<in> set vs. vname l \<le> vname w \<Longrightarrow>
     var_map (skip_name (Some l) vs) = (var_map vs)(vname l := None)"
proof (induction vs)
  case (Cons v vs)
  have n: "vname w \<noteq> vname v" if "w \<in> set vs" for w using Cons.prems(1) that by (fastforce simp: sorted_vars_Cons)
  show ?case
  proof (cases "vname v = vname l")
    case True
    have "skip_name (Some l) vs = vs"
      using n True by (cases vs) (auto simp: skip_name_def)
    moreover have "var_map vs (vname l) = None"
      using n True Cons.prems(1) by (intro var_map_None) (auto simp: sorted_vars_Cons sorted_vars_def)
    ultimately show ?thesis using True by (auto simp: skip_name_def var_map_Cons fun_eq_iff vname_def)
  next
    case False
    then have lt: "vname l < vname v" using Cons.prems(2) by (simp add: order_less_le)
    have "vname w \<noteq> vname l" if "w \<in> set (v # vs)" for w
      using lt that Cons.prems(1) by (auto simp: sorted_vars_Cons dest!: bspec)
    then have "var_map (v # vs) (vname l) = None"
      using Cons.prems(1) by (intro var_map_None) (auto simp: sorted_vars_def)
    then show ?thesis using False by (simp add: skip_name_def fun_upd_idem)
  qed
qed (simp add: skip_name_def var_map_def fun_eq_iff)

lemma first_map_skip:
  "\<forall>r \<in> set rs. sorted_vars r \<and> (\<forall>w \<in> set r. vname l \<le> vname w) \<Longrightarrow>
     first_map (map (skip_name (Some l)) rs) = (first_map rs)(vname l := None)"
  by (induction rs) (auto simp: first_map_def skip_name_map fun_eq_iff map_add_def split: option.split)

lemma skip_name_shorter:
  assumes "\<forall>r \<in> set rs. sorted_vars r \<and> (\<forall>w \<in> set r. vname l \<le> vname w)" and "first_map rs (vname l) \<noteq> None"
  shows "sum_list (map length (map (skip_name (Some l)) rs)) < sum_list (map length rs)"
proof -
  have le: "length (skip_name lst r) \<le> length r" for lst r
    by (auto simp: skip_name_def length_dropWhile_le split: option.split)
  have "\<exists>m \<in> set (map var_map rs). m (vname l) \<noteq> None"
  proof (rule ccontr)
    assume "\<not> ?thesis"
    then have "m (vname l) = None" if "m \<in> set (map var_map rs)" for m using that by blast
    then have "first_map rs (vname l) = None" unfolding first_map_def by (rule first_binding_None)
    then show False using assms(2) by simp
  qed
  then obtain r where r: "r \<in> set rs" "var_map r (vname l) \<noteq> None" by auto
  have "var_map (skip_name (Some l) r) (vname l) = None" using skip_name_map [of r l] assms(1) r(1) by simp
  then have "skip_name (Some l) r \<noteq> r" using r(2) by metis
  moreover have "takeWhile (\<lambda>v. vname v = vname l) r @ skip_name (Some l) r = r" by (simp add: skip_name_def)
  ultimately have t: "takeWhile (\<lambda>v. vname v = vname l) r \<noteq> []" "takeWhile (\<lambda>v. vname v = vname l) r @ skip_name (Some l) r = r"
    by fastforce+
  have "length (skip_name (Some l) r) < length r" using arg_cong [OF t(2), of length] t(1) by (cases "takeWhile (\<lambda>v. vname v = vname l) r") simp_all
  moreover have "sum_list (map length (map (skip_name (Some l)) xs)) \<le> sum_list (map length xs)" for xs
    by (induction xs) (simp_all add: le add_mono)
  moreover obtain as bs where "rs = as @ r # bs" using r(1) by (meson split_list)
  ultimately show ?thesis by (auto simp del: map_map intro: add_le_less_mono add_less_le_mono)
qed

definition below :: "ni_var list \<Rightarrow> ni_var list list \<Rightarrow> bool" where
  "below vs rs \<longleftrightarrow> sorted_vars vs \<and> (\<forall>v \<in> set vs. \<forall>r \<in> set rs. \<forall>w \<in> set r. vname v < vname w)"

lemma setenv_below:
  assumes wf: "va_wf (env_vars res)" and b: "below (va_items (env_vars res)) rs" and v: "var_name v \<noteq> None"
    and rs: "\<forall>r \<in> set rs. sorted_vars r \<and> (\<forall>w \<in> set r. vname v \<le> vname w)" "\<exists>r \<in> set rs. v \<in> set r"
    and st: "ni_testbus_setenv res (vname v) x = Some res'"
  shows "below (va_items (env_vars res')) (map (skip_name (Some v)) rs)"
proof -
  have lt: "\<forall>u \<in> set (va_items (env_vars res)). vname u < vname v" using b rs(2) unfolding below_def by blast
  then have "var_map (va_items (env_vars res)) (vname v) = None"
    using b by (intro var_map_None) (auto simp: below_def sorted_vars_def)
  from ni_var_array_set_new [OF wf this, of x] obtain va where "ni_var_array_set (env_vars res) (vname v) x = Some va"
      "va_items va = va_items (env_vars res) @ [\<lparr>var_name = Some (vname v), var_value = x\<rparr>]" by blast
  then have "va_items (env_vars res') = va_items (env_vars res) @ [\<lparr>var_name = Some (vname v), var_value = x\<rparr>]"
    using st by (auto simp: ni_testbus_setenv_def)
  moreover have "sorted_vars (va_items (env_vars res) @ [\<lparr>var_name = Some (vname v), var_value = x\<rparr>])"
    using b lt by (auto simp: below_def sorted_vars_def sorted_wrt_append vname_def)
  moreover have "vname v < vname w" if "r \<in> set rs" "w \<in> set (skip_name (Some v) r)" for r w
    using skip_name_gt [of r v w] rs(1) that by blast
  moreover have "vname u < vname w" if "u \<in> set (va_items (env_vars res))" "r \<in> set rs" "w \<in> set (skip_name (Some v) r)" for u r w
    using lt that(1) \<open>\<And>r w. r \<in> set rs \<Longrightarrow> w \<in> set (skip_name (Some v) r) \<Longrightarrow> vname v < vname w\<close> [OF that(2,3)]
    by (meson less_trans)
  ultimately show ?thesis by (auto simp: below_def vname_def)
qed

lemma merge_loop_ok:
  assumes "va_wf (env_vars result)" "\<forall>m \<in> set ms. mi_ok m \<and> lst_ok lst (mi_rem m)"
  shows "\<exists>res. merge_loop result lst ms = Some res \<and> va_wf (env_vars res)
           \<and> env_map res = env_map result ++ first_map (todo lst ms)
           \<and> (below (va_items (env_vars result)) (todo lst ms) \<longrightarrow> sorted_vars (va_items (env_vars res)))"
  using assms
proof (induction "sum_list (map length (todo lst ms))" arbitrary: result lst ms rule: less_induct)
  case less
  let ?rs = "todo lst ms"
  obtain ms' where pass: "merge_pass lst ms None = Some (ms', foldl pick None ?rs)" "\<forall>m \<in> set ms'. mi_ok m" "map mi_rem ms' = ?rs"
    using merge_pass_ok [OF less.prems(2), of None] by (auto simp: todo_def)
  have srt: "\<forall>r \<in> set ?rs. sorted_vars r"
    using pass(2) unfolding pass(3) [symmetric]
    by (auto simp: mi_ok_def mi_rem_def sorted_vars_def list_all_iff sorted_wrt_drop dest: in_set_dropD)
  show ?case
  proof (cases "foldl pick None ?rs")
    case None
    have "\<forall>r \<in> set ?rs. r = []" using picked [OF srt] None by simp
    then have "first_map ?rs n = None" for n
      unfolding first_map_def by (intro first_binding_None) (auto simp: var_map_def)
    then have "env_map result = env_map result ++ first_map ?rs" by (simp add: map_add_def fun_eq_iff)
    then show ?thesis using pass(1) None less.prems(1) by (subst merge_loop.simps) (simp add: below_def)
  next
    case (Some v)
    have v: "var_name v \<noteq> None" "first_map ?rs (vname v) = Some (var_value v)" "\<forall>r \<in> set ?rs. \<forall>w \<in> set r. vname v \<le> vname w"
      using picked [OF srt] Some by simp_all
    have vn: "var_name v = Some (vname v)" using v(1) by (auto simp: vname_def)
    have both: "\<forall>r \<in> set ?rs. sorted_vars r \<and> (\<forall>w \<in> set r. vname v \<le> vname w)" using srt v(3) by blast
    obtain va where va: "ni_var_array_set (env_vars result) (vname v) (var_value v) = Some va" "va_wf va"
        "var_map (va_items va) = (var_map (va_items (env_vars result)))(vname v \<mapsto> var_value v)"
      using ni_var_array_set_ok [OF less.prems(1)] by blast
    let ?res = "result\<lparr>env_vars := va, env_sorted := False\<rparr>"
    have st: "ni_testbus_setenv result (vname v) (var_value v) = Some ?res" using va(1) by (simp add: ni_testbus_setenv_def)
    have todo': "todo (Some v) ms' = map (skip_name (Some v)) ?rs"
      unfolding pass(3) [symmetric] by (simp add: todo_def)
    have "sum_list (map length (todo (Some v) ms')) < sum_list (map length ?rs)"
      unfolding todo' by (rule skip_name_shorter [OF both]) (simp add: v(2))
    moreover have "\<forall>m \<in> set ms'. mi_ok m \<and> lst_ok (Some v) (mi_rem m)"
      using pass(2) v(1,3) unfolding pass(3) [symmetric] by (auto simp: lst_ok_def)
    moreover have "va_wf (env_vars ?res)" using va(2) by simp
    ultimately obtain res where res: "merge_loop ?res (Some v) ms' = Some res" "va_wf (env_vars res)"
        "env_map res = env_map ?res ++ first_map (todo (Some v) ms')"
        "below (va_items (env_vars ?res)) (todo (Some v) ms') \<longrightarrow> sorted_vars (va_items (env_vars res))"
      using less.hyps by blast
    have "env_map ?res ++ first_map (todo (Some v) ms') = env_map result ++ first_map ?rs"
      unfolding todo' first_map_skip [OF both] using va(3) v(2)
      by (auto simp: env_map_def map_add_def fun_eq_iff split: option.split)
    moreover have "merge_loop result lst ms = Some res"
      using pass(1) Some vn st res(1) by (subst merge_loop.simps) simp
    moreover have "sorted_vars (va_items (env_vars res))" if "below (va_items (env_vars result)) ?rs"
    proof -
      have "\<exists>r \<in> set ?rs. v \<in> set r" using picked_in [OF Some] by simp
      then show ?thesis using setenv_below [OF less.prems(1) that v(1) both _ st] res(4) todo' by simp
    qed
    ultimately show ?thesis using res(2,3) by metis
  qed
qed

lemma sort_ok:
  assumes "env_wf e"
  shows "\<exists>e'. u_ni_testbus_env_sort e = Some e' \<and> va_wf (env_vars e') \<and> sorted_vars (va_items (env_vars e')) \<and> env_map e' = env_map e"
proof (cases "env_sorted e")
  case True
  then show ?thesis using assms by (simp add: u_ni_testbus_env_sort_def env_wf_def)
next
  case False
  let ?va = "env_vars e" let ?vs = "va_items ?va"
  let ?ss = "sort_key (\<lambda>v. the (var_name v)) ?vs"
  have wf: "va_wf ?va" using assms by (simp add: env_wf_def)
  then have nn: "list_all (\<lambda>v. var_name v \<noteq> None) ?vs" and dist: "distinct (map var_name ?vs)"
      and cap: "chunk_cap (va_count ?va) \<le> length (va_data ?va)" by (simp_all add: va_wf_def)
  let ?va' = "?va\<lparr>va_data := ?ss @ drop (va_count ?va) (va_data ?va)\<rparr>"
  have len: "length ?vs = va_count ?va" using va_count_le [OF wf] by (simp add: va_items_def)
  have items: "va_items ?va' = ?ss" using len by (simp add: va_items_def)
  have nn': "list_all (\<lambda>v. var_name v \<noteq> None) ?ss" using nn by (simp add: list_all_iff)
  have mset: "mset ?ss = mset ?vs" by simp
  have dist': "distinct (map var_name ?ss)"
    using dist by (metis mset_map mset_sort mset_eq_imp_distinct_iff)
  have "va_wf ?va'" using nn' dist' cap len va_count_le [OF wf] by (simp add: va_wf_def items)
  moreover have "sorted_vars ?ss"
  proof -
    have "distinct (map the (map var_name ?ss))"
      using dist' nn' by (auto simp: distinct_map inj_on_def list_all_iff) (metis option.sel)
    then have "sorted_wrt (<) (map (\<lambda>v. the (var_name v)) ?ss)" unfolding strict_sorted_iff by (simp add: comp_def)
    then show ?thesis using nn' by (simp add: sorted_vars_def vname_def sorted_wrt_map)
  qed
  moreover have "var_map ?ss = var_map ?vs"
  proof -
    let ?p = "\<lambda>v. (the (var_name v), var_value v)"
    have d: "distinct (map fst (map ?p vs))" if "list_all (\<lambda>v. var_name v \<noteq> None) vs" "distinct (map var_name vs)" for vs
      using that by (auto simp: distinct_map inj_on_def list_all_iff comp_def) (metis option.sel)
    have "map_of (map ?p ?ss) = map_of (map ?p ?vs)"
      by (subst map_of_inject_set [OF d [OF nn' dist'] d [OF nn dist]]) simp
    then show ?thesis by (simp add: var_map_def fun_eq_iff)
  qed
  moreover have "u_ni_testbus_env_sort e = Some (e\<lparr>env_vars := ?va', env_sorted := True\<rparr>)"
    using False nn va_read_items [OF wf] by (simp add: u_ni_testbus_env_sort_def ni_var_array_sort_def)
  ultimately show ?thesis by (simp add: items env_map_def)
qed

lemma sort_all_ok:
  "list_all env_wf es \<Longrightarrow> \<exists>es'. sort_all es = Some es' \<and> map env_map es' = map env_map es
     \<and> (\<forall>e \<in> set es'. va_wf (env_vars e) \<and> sorted_vars (va_items (env_vars e)))"
proof (induction es)
  case (Cons e es)
  then obtain e' es' where "u_ni_testbus_env_sort e = Some e'" "va_wf (env_vars e')" "sorted_vars (va_items (env_vars e'))"
      "env_map e' = env_map e" "sort_all es = Some es'" "map env_map es' = map env_map es"
      "\<forall>e \<in> set es'. va_wf (env_vars e) \<and> sorted_vars (va_items (env_vars e))"
    using sort_ok [of e] by auto
  then show ?case by simp
qed simp

lemma env_merge_ok:
  assumes "env_wf result" "list_all env_wf envs"
  shows "\<exists>res envs'. ni_testbus_env_merge result envs = Some (res, envs') \<and> va_wf (env_vars res) \<and> env_sorted res
           \<and> env_map res = env_map result ++ first_binding (map env_map envs)
           \<and> (va_items (env_vars result) = [] \<longrightarrow> env_wf res)"
proof -
  obtain es where es: "sort_all envs = Some es" "map env_map es = map env_map envs"
      "\<forall>e \<in> set es. va_wf (env_vars e) \<and> sorted_vars (va_items (env_vars e))"
    using sort_all_ok [OF assms(2)] by blast
  let ?ms = "map (\<lambda>e. \<lparr>mi_array = env_vars e, mi_next = 0\<rparr>) es"
  have ms: "\<forall>m \<in> set ?ms. mi_ok m \<and> lst_ok None (mi_rem m)" using es(3) by (auto simp: mi_ok_def lst_ok_def)
  have todo: "first_map (todo None ?ms) = first_binding (map env_map envs)"
    unfolding es(2) [symmetric] by (simp add: first_map_def todo_def skip_name_def mi_rem_def comp_def env_map_def [abs_def])
  have "va_wf (env_vars result)" using assms(1) by (simp add: env_wf_def)
  then obtain res where res: "merge_loop result None ?ms = Some res" "va_wf (env_vars res)"
      "env_map res = env_map result ++ first_binding (map env_map envs)"
      "below (va_items (env_vars result)) (todo None ?ms) \<longrightarrow> sorted_vars (va_items (env_vars res))"
    using merge_loop_ok [OF _ ms, of result] unfolding todo by blast
  have "va_items (env_vars result) = [] \<Longrightarrow> below (va_items (env_vars result)) (todo None ?ms)"
    by (simp add: below_def sorted_vars_def)
  then show ?thesis using es(1) res by (auto simp: ni_testbus_env_merge_def env_wf_def env_map_def)
qed

text \<open>C8: The n-way merge of environments returns, and the result maps each name to what the first
  environment of the array that knows the name says (a name unset there is unset in the result), and the
  names none of them knows to what the result had before.  A result that was empty ends up sorted, as its
  flag says.\<close>

theorem testbus_env_merge_first_wins:
  assumes "env_wf result" "list_all env_wf envs"
  shows "\<exists>res envs'. ni_testbus_env_merge result envs = Some (res, envs') \<and> env_sorted res
           \<and> env_map res = env_map result ++ first_binding (map env_map envs)
           \<and> (va_items (env_vars result) = [] \<longrightarrow> env_wf res)"
  using env_merge_ok [OF assms] by blast

definition env_of :: "(cstring \<times> cstring option) list \<Rightarrow> ni_testbus_env" where
  "env_of nvs = (case set_all ni_testbus_setenv ni_testbus_env_init nvs of Some e \<Rightarrow> e | None \<Rightarrow> ni_testbus_env_init)"

lemma env_of_ok: "env_wf (env_of nvs) \<and> env_map (env_of nvs) = map_of (rev nvs)"
  using environ.set_all_ok [OF env_wf_init(1), of nvs] env_wf_init by (auto simp: env_of_def list_all_iff)

lemma testbus_env_merge_first_wins_witness:
  "\<exists>res envs'. ni_testbus_env_merge ni_testbus_env_init [env_of [(''b'', Some ''1'')], env_of [(''b'', Some ''2''), (''a'', Some ''3'')]]
       = Some (res, envs') \<and> env_sorted res \<and> env_map res = [''b'' \<mapsto> Some ''1'', ''a'' \<mapsto> Some ''3'']"
proof -
  have "list_all env_wf [env_of [(''b'', Some ''1'')], env_of [(''b'', Some ''2''), (''a'', Some ''3'')]]"
    using env_of_ok by simp
  from testbus_env_merge_first_wins [OF env_wf_init(1) this] show ?thesis
    using env_of_ok [of "[(''b'', Some ''1'')]"] env_of_ok [of "[(''b'', Some ''2''), (''a'', Some ''3'')]"]
    by (auto simp: env_wf_init fun_eq_iff map_add_def split: if_splits)
qed

definition badly_merged :: "ni_testbus_env option" where
  "badly_merged = map_option fst (ni_testbus_env_merge (env_of [(''b'', None)]) [env_of [(''a'', None)]])"

text \<open>A merge into an environment that already has variables marks it sorted without sorting it; the
  next merge that reads it ends the process with \<open>bad: missed variable\<close>.\<close>

theorem testbus_env_merge_marks_unsorted:
  "map_option env_sorted badly_merged = Some True
     \<and> map_option (\<lambda>e. map vname (va_items (env_vars e))) badly_merged = Some [''b'', ''a'']
     \<and> do { e \<leftarrow> badly_merged; ni_testbus_env_merge ni_testbus_env_init [e] } = None"
proof (intro conjI)
  show "map_option env_sorted badly_merged = Some True" by code_simp
  show "map_option (\<lambda>e. map vname (va_items (env_vars e))) badly_merged = Some [''b'', ''a'']" by code_simp
  show "do { e \<leftarrow> badly_merged; ni_testbus_env_merge ni_testbus_env_init [e] } = None" by code_simp
qed

end
