(* ===== verification/Variant.thy ===== *)
theory Variant
  imports Strings Buffer
begin

text \<open>
  The values sent over the bus, dborb/dbus-common.c: variants, their arrays, dicts and structs.  A variant
  is a type code, the description of its elements when it is an array, and a union.  The union is modelled
  with what was written last: a 64-bit word for the numbers, of which a narrower write changes the low
  bytes only (a little-endian machine), a NULL pointer being the word 0, or an owned block.  An entry that
  was moved inside its array stays behind, in the slot it came from, as an alias: its pointers are owned by the
  moved entry.  Freeing a garbage pointer or an alias is a fault.  The magic cookie, which every variant
  made by these functions carries or has 0 for, and the reference to the message of libdbus are left out.
\<close>

section \<open>Type codes\<close>

abbreviation (input) "DBUS_TYPE_INVALID \<equiv> CHR 0x00"
abbreviation (input) "DBUS_TYPE_BYTE \<equiv> CHR ''y''"
abbreviation (input) "DBUS_TYPE_BOOLEAN \<equiv> CHR ''b''"
abbreviation (input) "DBUS_TYPE_INT16 \<equiv> CHR ''n''"
abbreviation (input) "DBUS_TYPE_UINT16 \<equiv> CHR ''q''"
abbreviation (input) "DBUS_TYPE_INT32 \<equiv> CHR ''i''"
abbreviation (input) "DBUS_TYPE_UINT32 \<equiv> CHR ''u''"
abbreviation (input) "DBUS_TYPE_INT64 \<equiv> CHR ''x''"
abbreviation (input) "DBUS_TYPE_UINT64 \<equiv> CHR ''t''"
abbreviation (input) "DBUS_TYPE_DOUBLE \<equiv> CHR ''d''"
abbreviation (input) "DBUS_TYPE_STRING \<equiv> CHR ''s''"
abbreviation (input) "DBUS_TYPE_OBJECT_PATH \<equiv> CHR ''o''"
abbreviation (input) "DBUS_TYPE_ARRAY \<equiv> CHR ''a''"
abbreviation (input) "DBUS_TYPE_VARIANT \<equiv> CHR ''v''"
abbreviation (input) "DBUS_TYPE_STRUCT \<equiv> CHR ''r''"
abbreviation (input) "DBUS_TYPE_DICT_ENTRY \<equiv> CHR ''e''"

definition NI_DBUS_DICT_SIGNATURE :: cstring where "NI_DBUS_DICT_SIGNATURE = ''a{sv}''"

definition ni_dbus_type_as_string :: "char \<Rightarrow> cstring option" where
  "ni_dbus_type_as_string ty =
     (if ty \<in> {DBUS_TYPE_BYTE, DBUS_TYPE_BOOLEAN, DBUS_TYPE_INT16, DBUS_TYPE_UINT16, DBUS_TYPE_INT32, DBUS_TYPE_UINT32,
               DBUS_TYPE_INT64, DBUS_TYPE_UINT64, DBUS_TYPE_DOUBLE, DBUS_TYPE_STRING, DBUS_TYPE_OBJECT_PATH}
      then Some [ty] else None)"

section \<open>Variants\<close>

datatype ni_dbus_variant =
    Variant (v_type: char) (v_element_type: char) (v_element_signature: "cstring option") (v_len: nat) (v_value: v_union)
and v_union =
    Raw u64
  | Str cstring
  | ByteArr "byte list"
  | StrArr "cstring option list"
  | VarArr "ni_dbus_variant list"
  | DictArr "dict_entry list"
  | Alias v_union
and dict_entry = Entry (de_key: "cstring option") (de_datum: ni_dbus_variant)

definition ni_dbus_variant_init :: ni_dbus_variant where
  "ni_dbus_variant_init = Variant DBUS_TYPE_INVALID DBUS_TYPE_INVALID None 0 (Raw 0)"

definition ni_dbus_variant_new :: ni_dbus_variant where
  "ni_dbus_variant_new = ni_dbus_variant_init"

definition ni_dbus_variant_vector_init :: "nat \<Rightarrow> ni_dbus_variant list" where
  "ni_dbus_variant_vector_init n = replicate n ni_dbus_variant_init"

definition with_type :: "char \<Rightarrow> ni_dbus_variant \<Rightarrow> ni_dbus_variant" where
  "with_type ty v = (case v of Variant _ et es n p \<Rightarrow> Variant ty et es n p)"

definition with_elements :: "char \<Rightarrow> cstring option \<Rightarrow> ni_dbus_variant \<Rightarrow> ni_dbus_variant" where
  "with_elements et es v = (case v of Variant ty _ _ n p \<Rightarrow> Variant ty et es n p)"

definition with_value :: "nat \<Rightarrow> v_union \<Rightarrow> ni_dbus_variant \<Rightarrow> ni_dbus_variant" where
  "with_value n p v = (case v of Variant ty et es _ _ \<Rightarrow> Variant ty et es n p)"

lemma with_simps [simp]:
  "v_type (with_type ty v) = ty" "v_element_type (with_type ty v) = v_element_type v"
  "v_element_signature (with_type ty v) = v_element_signature v" "v_len (with_type ty v) = v_len v" "v_value (with_type ty v) = v_value v"
  "v_type (with_elements et es v) = v_type v" "v_element_type (with_elements et es v) = et"
  "v_element_signature (with_elements et es v) = es" "v_len (with_elements et es v) = v_len v" "v_value (with_elements et es v) = v_value v"
  "v_type (with_value n p v) = v_type v" "v_element_type (with_value n p v) = v_element_type v"
  "v_element_signature (with_value n p v) = v_element_signature v" "v_len (with_value n p v) = n" "v_value (with_value n p v) = p"
  by (cases v; simp add: with_type_def with_elements_def with_value_def)+

subsection \<open>Tests\<close>

definition u_ni_dbus_is_array :: "ni_dbus_variant \<Rightarrow> cstring \<Rightarrow> bool" where
  "u_ni_dbus_is_array var element_signature =
     (if v_type var \<noteq> DBUS_TYPE_ARRAY then False
      else if v_element_type var \<noteq> DBUS_TYPE_INVALID then element_signature = [v_element_type var]
      else v_element_signature var = Some element_signature)"

definition ni_dbus_variant_is_array_of :: "ni_dbus_variant \<Rightarrow> cstring \<Rightarrow> bool" where
  "ni_dbus_variant_is_array_of var sig = u_ni_dbus_is_array var sig"

definition ni_dbus_variant_is_dict :: "ni_dbus_variant \<Rightarrow> bool" where
  "ni_dbus_variant_is_dict var = u_ni_dbus_is_array var [DBUS_TYPE_DICT_ENTRY]"

definition ni_dbus_variant_is_dict_array :: "ni_dbus_variant \<Rightarrow> bool" where
  "ni_dbus_variant_is_dict_array var = u_ni_dbus_is_array var NI_DBUS_DICT_SIGNATURE"

definition ni_dbus_variant_is_string_array :: "ni_dbus_variant \<Rightarrow> bool" where
  "ni_dbus_variant_is_string_array var = u_ni_dbus_is_array var [DBUS_TYPE_STRING]"

definition ni_dbus_variant_is_byte_array :: "ni_dbus_variant \<Rightarrow> bool" where
  "ni_dbus_variant_is_byte_array var = u_ni_dbus_is_array var [DBUS_TYPE_BYTE]"

subsection \<open>Destruction\<close>

text \<open>What destruction looks at in a union: for the elements of an array, whether each of them can be
  destroyed.\<close>

datatype union_shape = SRaw u64 | SStr | SBytes | SStrings nat | SVariants "bool list" | SEntries "bool list" | SAlias

definition frees_string :: "union_shape \<Rightarrow> bool" where
  "frees_string p = (case p of SStr \<Rightarrow> True | SRaw w \<Rightarrow> w = 0 | _ \<Rightarrow> False)"

definition frees_elements :: "char \<Rightarrow> cstring option \<Rightarrow> nat \<Rightarrow> union_shape \<Rightarrow> bool" where
  "frees_elements et es n p =
     (if et = DBUS_TYPE_BYTE then (case p of SBytes \<Rightarrow> True | SRaw w \<Rightarrow> w = 0 | _ \<Rightarrow> False)
      else if et = DBUS_TYPE_STRING \<or> et = DBUS_TYPE_OBJECT_PATH then
        (case p of SStrings m \<Rightarrow> n \<le> m | SRaw w \<Rightarrow> w = 0 \<and> n = 0 | _ \<Rightarrow> False)
      else if et = DBUS_TYPE_DICT_ENTRY then
        (case p of SEntries ds \<Rightarrow> n \<le> length ds \<and> list_all id (take n ds) | SRaw w \<Rightarrow> w = 0 \<and> n = 0 | _ \<Rightarrow> False)
      else if et = DBUS_TYPE_INVALID \<and> es = None then True
      else if et = DBUS_TYPE_INVALID \<or> et = DBUS_TYPE_VARIANT \<or> et = DBUS_TYPE_STRUCT then
        (case p of SVariants vs \<Rightarrow> n \<le> length vs \<and> list_all id (take n vs) | SRaw w \<Rightarrow> w = 0 \<and> n = 0 | _ \<Rightarrow> False)
      else True)"

text \<open>Whether everything the variant owns can be freed.  A variant of type struct is not looked into: what
  it owns is lost.\<close>

primrec can_free :: "ni_dbus_variant \<Rightarrow> bool" and shape :: "v_union \<Rightarrow> union_shape" and can_free_entry :: "dict_entry \<Rightarrow> bool" where
  "can_free (Variant ty et es n p) =
     (if ty = DBUS_TYPE_STRING \<or> ty = DBUS_TYPE_OBJECT_PATH then frees_string (shape p)
      else if ty = DBUS_TYPE_ARRAY then frees_elements et es n (shape p)
      else True)"
| "shape (Raw w) = SRaw w"
| "shape (Str s) = SStr"
| "shape (ByteArr b) = SBytes"
| "shape (StrArr ss) = SStrings (length ss)"
| "shape (VarArr vs) = SVariants (map can_free vs)"
| "shape (DictArr ds) = SEntries (map can_free_entry ds)"
| "shape (Alias p) = SAlias"
| "can_free_entry (Entry k x) = can_free x"

definition ni_dbus_variant_destroy :: "ni_dbus_variant \<Rightarrow> ni_dbus_variant option" where
  "ni_dbus_variant_destroy var = (if can_free var then Some ni_dbus_variant_init else None)"

definition ni_dbus_variant_free :: "ni_dbus_variant \<Rightarrow> unit option" where
  "ni_dbus_variant_free var = do { ni_dbus_variant_destroy var; Some () }"

fun ni_dbus_variant_vector_destroy :: "ni_dbus_variant list \<Rightarrow> ni_dbus_variant list option" where
  "ni_dbus_variant_vector_destroy [] = Some []"
| "ni_dbus_variant_vector_destroy (v # vs) = do {
     v1 \<leftarrow> ni_dbus_variant_destroy v; vs1 \<leftarrow> ni_dbus_variant_vector_destroy vs; Some (v1 # vs1) }"

section \<open>Basic values\<close>

definition u_ni_dbus_variant_change_type :: "ni_dbus_variant \<Rightarrow> char \<Rightarrow> ni_dbus_variant option" where
  "u_ni_dbus_variant_change_type var new_type =
     (if v_type var = new_type then Some var
      else do {
        v1 \<leftarrow> (if v_type var \<in> {DBUS_TYPE_STRING, DBUS_TYPE_OBJECT_PATH, DBUS_TYPE_ARRAY, DBUS_TYPE_STRUCT}
              then ni_dbus_variant_destroy var else Some var);
        Some (with_type new_type v1) })"

definition u_ni_dbus_init_array :: "ni_dbus_variant \<Rightarrow> char \<Rightarrow> ni_dbus_variant" where
  "u_ni_dbus_init_array var element_type = with_elements element_type (v_element_signature var) (with_type DBUS_TYPE_ARRAY var)"

text \<open>\<open>element_sig\<close> is not empty.\<close>

definition u_ni_dbus_init_array_signature :: "ni_dbus_variant \<Rightarrow> cstring \<Rightarrow> ni_dbus_variant" where
  "u_ni_dbus_init_array_signature var element_sig =
     (let v1 = with_type DBUS_TYPE_ARRAY var in
      if length element_sig = 1 \<and> ni_dbus_type_as_string (hd element_sig) \<noteq> None
      then with_elements (hd element_sig) (v_element_signature v1) v1
      else with_elements (v_element_type v1) (Some element_sig) v1)"

definition ni_dbus_variant_init_signature :: "ni_dbus_variant \<Rightarrow> cstring \<Rightarrow> (bool \<times> ni_dbus_variant) option" where
  "ni_dbus_variant_init_signature var sig = do {
     v \<leftarrow> ni_dbus_variant_destroy var;
     Some (case sig of
        [] \<Rightarrow> (False, v)
      | ty # rest \<Rightarrow>
          (if rest = [] \<and> ni_dbus_type_as_string ty \<noteq> None then (True, with_type ty v)
           else if ty = DBUS_TYPE_ARRAY then
             (if rest = [] then (False, v)
              else if rest = ''{sv}'' then (True, u_ni_dbus_init_array v DBUS_TYPE_DICT_ENTRY)
              else (True, u_ni_dbus_init_array_signature v rest))
           else (False, v))) }"

text \<open>\<open>ni_string_dup(&var->string_value, value)\<close>: what the union holds is freed as a string.\<close>

definition dup_string_value :: "ni_dbus_variant \<Rightarrow> cstring option \<Rightarrow> ni_dbus_variant option" where
  "dup_string_value var value = do {
     ni_assert (case v_value var of Str s \<Rightarrow> True | Raw w \<Rightarrow> w = 0 | _ \<Rightarrow> False);
     Some (with_value (v_len var) (case value of None \<Rightarrow> Raw 0 | Some s \<Rightarrow> Str s) var) }"

definition ni_dbus_variant_set_string :: "ni_dbus_variant \<Rightarrow> cstring option \<Rightarrow> ni_dbus_variant option" where
  "ni_dbus_variant_set_string var value = do {
     v \<leftarrow> u_ni_dbus_variant_change_type var DBUS_TYPE_STRING; dup_string_value v value }"

definition ni_dbus_variant_set_object_path :: "ni_dbus_variant \<Rightarrow> cstring option \<Rightarrow> ni_dbus_variant option" where
  "ni_dbus_variant_set_object_path var value = do {
     v \<leftarrow> u_ni_dbus_variant_change_type var DBUS_TYPE_OBJECT_PATH; dup_string_value v value }"

text \<open>A write to the low \<open>n\<close> bits of the union, and a read of it as a number.\<close>

definition write_bits :: "nat \<Rightarrow> u64 \<Rightarrow> ni_dbus_variant \<Rightarrow> ni_dbus_variant option" where
  "write_bits n x var = (case v_value var of
     Raw w \<Rightarrow> Some (with_value (v_len var) (Raw ((w AND NOT (mask n)) OR (x AND mask n))) var) | _ \<Rightarrow> None)"

definition read_bits :: "ni_dbus_variant \<Rightarrow> u64 option" where
  "read_bits var = (case v_value var of Raw w \<Rightarrow> Some w | _ \<Rightarrow> None)"

definition ni_dbus_variant_set_bool :: "ni_dbus_variant \<Rightarrow> u32 \<Rightarrow> ni_dbus_variant option" where
  "ni_dbus_variant_set_bool var value = do { v \<leftarrow> u_ni_dbus_variant_change_type var DBUS_TYPE_BOOLEAN; write_bits 32 (ucast value) v }"

definition ni_dbus_variant_set_byte :: "ni_dbus_variant \<Rightarrow> byte \<Rightarrow> ni_dbus_variant option" where
  "ni_dbus_variant_set_byte var value = do { v \<leftarrow> u_ni_dbus_variant_change_type var DBUS_TYPE_BYTE; write_bits 8 (ucast value) v }"

definition ni_dbus_variant_set_uint16 :: "ni_dbus_variant \<Rightarrow> 16 word \<Rightarrow> ni_dbus_variant option" where
  "ni_dbus_variant_set_uint16 var value = do { v \<leftarrow> u_ni_dbus_variant_change_type var DBUS_TYPE_UINT16; write_bits 16 (ucast value) v }"

definition ni_dbus_variant_set_int16 :: "ni_dbus_variant \<Rightarrow> 16 word \<Rightarrow> ni_dbus_variant option" where
  "ni_dbus_variant_set_int16 var value = do { v \<leftarrow> u_ni_dbus_variant_change_type var DBUS_TYPE_INT16; write_bits 16 (ucast value) v }"

definition ni_dbus_variant_set_uint32 :: "ni_dbus_variant \<Rightarrow> u32 \<Rightarrow> ni_dbus_variant option" where
  "ni_dbus_variant_set_uint32 var value = do { v \<leftarrow> u_ni_dbus_variant_change_type var DBUS_TYPE_UINT32; write_bits 32 (ucast value) v }"

definition ni_dbus_variant_set_int32 :: "ni_dbus_variant \<Rightarrow> u32 \<Rightarrow> ni_dbus_variant option" where
  "ni_dbus_variant_set_int32 var value = do { v \<leftarrow> u_ni_dbus_variant_change_type var DBUS_TYPE_INT32; write_bits 32 (ucast value) v }"

definition ni_dbus_variant_set_uint64 :: "ni_dbus_variant \<Rightarrow> u64 \<Rightarrow> ni_dbus_variant option" where
  "ni_dbus_variant_set_uint64 var value = do { v \<leftarrow> u_ni_dbus_variant_change_type var DBUS_TYPE_UINT64; write_bits 64 value v }"

definition ni_dbus_variant_set_int64 :: "ni_dbus_variant \<Rightarrow> u64 \<Rightarrow> ni_dbus_variant option" where
  "ni_dbus_variant_set_int64 var value = do { v \<leftarrow> u_ni_dbus_variant_change_type var DBUS_TYPE_INT64; write_bits 64 value v }"

text \<open>A double is its 64 bits.\<close>

definition ni_dbus_variant_set_double :: "ni_dbus_variant \<Rightarrow> u64 \<Rightarrow> ni_dbus_variant option" where
  "ni_dbus_variant_set_double var value = do { v \<leftarrow> u_ni_dbus_variant_change_type var DBUS_TYPE_DOUBLE; write_bits 64 value v }"

text \<open>The getters return FALSE (here \<open>Some None\<close>) for a variant of another type.\<close>

definition string_value :: "ni_dbus_variant \<Rightarrow> cstring option option" where
  "string_value var = (case v_value var of Str s \<Rightarrow> Some (Some s) | Alias (Str s) \<Rightarrow> Some (Some s) | Raw w \<Rightarrow> (if w = 0 then Some None else None) | _ \<Rightarrow> None)"

definition ni_dbus_variant_get_string :: "ni_dbus_variant \<Rightarrow> cstring option option option" where
  "ni_dbus_variant_get_string var =
     (if v_type var \<noteq> DBUS_TYPE_STRING then Some None else do { s \<leftarrow> string_value var; Some (Some s) })"

definition ni_dbus_variant_get_object_path :: "ni_dbus_variant \<Rightarrow> cstring option option option" where
  "ni_dbus_variant_get_object_path var =
     (if v_type var \<noteq> DBUS_TYPE_OBJECT_PATH then Some None else do { s \<leftarrow> string_value var; Some (Some s) })"

definition ni_dbus_variant_get_bool :: "ni_dbus_variant \<Rightarrow> u32 option option" where
  "ni_dbus_variant_get_bool var = (if v_type var \<noteq> DBUS_TYPE_BOOLEAN then Some None else do { w \<leftarrow> read_bits var; Some (Some (ucast w)) })"

definition ni_dbus_variant_get_byte :: "ni_dbus_variant \<Rightarrow> byte option option" where
  "ni_dbus_variant_get_byte var = (if v_type var \<noteq> DBUS_TYPE_BYTE then Some None else do { w \<leftarrow> read_bits var; Some (Some (ucast w)) })"

definition ni_dbus_variant_get_uint16 :: "ni_dbus_variant \<Rightarrow> 16 word option option" where
  "ni_dbus_variant_get_uint16 var = (if v_type var \<noteq> DBUS_TYPE_UINT16 then Some None else do { w \<leftarrow> read_bits var; Some (Some (ucast w)) })"

definition ni_dbus_variant_get_int16 :: "ni_dbus_variant \<Rightarrow> 16 word option option" where
  "ni_dbus_variant_get_int16 var = (if v_type var \<noteq> DBUS_TYPE_INT16 then Some None else do { w \<leftarrow> read_bits var; Some (Some (ucast w)) })"

definition ni_dbus_variant_get_uint32 :: "ni_dbus_variant \<Rightarrow> u32 option option" where
  "ni_dbus_variant_get_uint32 var = (if v_type var \<noteq> DBUS_TYPE_UINT32 then Some None else do { w \<leftarrow> read_bits var; Some (Some (ucast w)) })"

definition ni_dbus_variant_get_int32 :: "ni_dbus_variant \<Rightarrow> u32 option option" where
  "ni_dbus_variant_get_int32 var = (if v_type var \<noteq> DBUS_TYPE_INT32 then Some None else do { w \<leftarrow> read_bits var; Some (Some (ucast w)) })"

definition ni_dbus_variant_get_uint64 :: "ni_dbus_variant \<Rightarrow> u64 option option" where
  "ni_dbus_variant_get_uint64 var = (if v_type var \<noteq> DBUS_TYPE_UINT64 then Some None else do { w \<leftarrow> read_bits var; Some (Some w) })"

definition ni_dbus_variant_get_int64 :: "ni_dbus_variant \<Rightarrow> u64 option option" where
  "ni_dbus_variant_get_int64 var = (if v_type var \<noteq> DBUS_TYPE_INT64 then Some None else do { w \<leftarrow> read_bits var; Some (Some w) })"

definition ni_dbus_variant_get_double :: "ni_dbus_variant \<Rightarrow> u64 option option" where
  "ni_dbus_variant_get_double var = (if v_type var \<noteq> DBUS_TYPE_DOUBLE then Some None else do { w \<leftarrow> read_bits var; Some (Some w) })"

subsection \<open>Casts between numbers\<close>

text \<open>The value of a number of any type as 64 bits, sign- or zero-extended as C does; a \<open>char\<close> is signed.
  \<open>dbl\<close> converts the bits of a double the way the machine converts it to the result type.  The result is
  cut to the size of the C type by the callers.\<close>

definition cast_switch_get :: "(u64 \<Rightarrow> u64) \<Rightarrow> ni_dbus_variant \<Rightarrow> u64 option option" where
  "cast_switch_get dbl var =
     (if v_type var = DBUS_TYPE_BOOLEAN then do { w \<leftarrow> read_bits var; Some (Some (ucast (ucast w :: u32))) }
      else if v_type var = DBUS_TYPE_BYTE then do { w \<leftarrow> read_bits var; Some (Some (scast (ucast w :: byte))) }
      else if v_type var = DBUS_TYPE_INT16 then do { w \<leftarrow> read_bits var; Some (Some (scast (ucast w :: 16 word))) }
      else if v_type var = DBUS_TYPE_UINT16 then do { w \<leftarrow> read_bits var; Some (Some (ucast (ucast w :: 16 word))) }
      else if v_type var = DBUS_TYPE_INT32 then do { w \<leftarrow> read_bits var; Some (Some (scast (ucast w :: u32))) }
      else if v_type var = DBUS_TYPE_UINT32 then do { w \<leftarrow> read_bits var; Some (Some (ucast (ucast w :: u32))) }
      else if v_type var = DBUS_TYPE_INT64 \<or> v_type var = DBUS_TYPE_UINT64 then do { w \<leftarrow> read_bits var; Some (Some w) }
      else if v_type var = DBUS_TYPE_DOUBLE then do { w \<leftarrow> read_bits var; Some (Some (dbl w)) }
      else Some None)"

definition ni_dbus_variant_get_int :: "(u64 \<Rightarrow> u64) \<Rightarrow> ni_dbus_variant \<Rightarrow> u32 option option" where
  "ni_dbus_variant_get_int dbl var = do { r \<leftarrow> cast_switch_get dbl var; Some (map_option ucast r) }"

definition ni_dbus_variant_get_uint :: "(u64 \<Rightarrow> u64) \<Rightarrow> ni_dbus_variant \<Rightarrow> u32 option option" where
  "ni_dbus_variant_get_uint dbl var = do { r \<leftarrow> cast_switch_get dbl var; Some (map_option ucast r) }"

definition ni_dbus_variant_get_long :: "(u64 \<Rightarrow> u64) \<Rightarrow> ni_dbus_variant \<Rightarrow> u64 option option" where
  "ni_dbus_variant_get_long dbl var = cast_switch_get dbl var"

definition ni_dbus_variant_get_ulong :: "(u64 \<Rightarrow> u64) \<Rightarrow> ni_dbus_variant \<Rightarrow> u64 option option" where
  "ni_dbus_variant_get_ulong dbl var = cast_switch_get dbl var"

text \<open>The other direction: \<open>x\<close> is the value converted to 64 bits, \<open>d\<close> the bits of the value as a double.  The
  type of the variant stays; FALSE for a type that is not a number.\<close>

definition cast_switch_set :: "ni_dbus_variant \<Rightarrow> u64 \<Rightarrow> u64 \<Rightarrow> (bool \<times> ni_dbus_variant) option" where
  "cast_switch_set var x d =
     (if v_type var \<in> {DBUS_TYPE_BOOLEAN, DBUS_TYPE_INT32, DBUS_TYPE_UINT32} then map_option (Pair True) (write_bits 32 x var)
      else if v_type var = DBUS_TYPE_BYTE then map_option (Pair True) (write_bits 8 x var)
      else if v_type var \<in> {DBUS_TYPE_INT16, DBUS_TYPE_UINT16} then map_option (Pair True) (write_bits 16 x var)
      else if v_type var \<in> {DBUS_TYPE_INT64, DBUS_TYPE_UINT64} then map_option (Pair True) (write_bits 64 x var)
      else if v_type var = DBUS_TYPE_DOUBLE then map_option (Pair True) (write_bits 64 d var)
      else Some (False, var))"

definition ni_dbus_variant_assign_bool :: "(int \<Rightarrow> u64) \<Rightarrow> ni_dbus_variant \<Rightarrow> u32 \<Rightarrow> (bool \<times> ni_dbus_variant) option" where
  "ni_dbus_variant_assign_bool dbl var x = cast_switch_set var (ucast x) (dbl (uint x))"

definition ni_dbus_variant_set_int :: "(int \<Rightarrow> u64) \<Rightarrow> ni_dbus_variant \<Rightarrow> u32 \<Rightarrow> (bool \<times> ni_dbus_variant) option" where
  "ni_dbus_variant_set_int dbl var x = cast_switch_set var (scast x) (dbl (sint x))"

definition ni_dbus_variant_set_uint :: "(int \<Rightarrow> u64) \<Rightarrow> ni_dbus_variant \<Rightarrow> u32 \<Rightarrow> (bool \<times> ni_dbus_variant) option" where
  "ni_dbus_variant_set_uint dbl var x = cast_switch_set var (ucast x) (dbl (uint x))"

definition ni_dbus_variant_set_long :: "(int \<Rightarrow> u64) \<Rightarrow> ni_dbus_variant \<Rightarrow> u64 \<Rightarrow> (bool \<times> ni_dbus_variant) option" where
  "ni_dbus_variant_set_long dbl var x = cast_switch_set var x (dbl (sint x))"

definition ni_dbus_variant_set_ulong :: "(int \<Rightarrow> u64) \<Rightarrow> ni_dbus_variant \<Rightarrow> u64 \<Rightarrow> (bool \<times> ni_dbus_variant) option" where
  "ni_dbus_variant_set_ulong dbl var x = cast_switch_set var x (dbl (uint x))"

section \<open>Printing and parsing\<close>

text \<open>\<open>%d\<close>, and \<open>%02x\<close> of a \<open>char\<close>, which is promoted to \<open>int\<close> with its sign.\<close>

definition print_int :: "int \<Rightarrow> cstring" where
  "print_int i = (if i < 0 then CHR ''-'' # print_dec (nat (- i)) else print_dec (nat i))"

definition print_02x :: "u32 \<Rightarrow> cstring" where
  "print_02x w = (let s = print_hex (unat w) in if length s < 2 then CHR ''0'' # s else s)"

text \<open>\<open>fmt\<close> is \<open>%f\<close> of libc.\<close>

definition ni_dbus_variant_sprint :: "(u64 \<Rightarrow> cstring) \<Rightarrow> ni_dbus_variant \<Rightarrow> cstring option option" where
  "ni_dbus_variant_sprint fmt var =
     (if v_type var = DBUS_TYPE_STRING \<or> v_type var = DBUS_TYPE_OBJECT_PATH then string_value var
      else if v_type var = DBUS_TYPE_BYTE then do { w \<leftarrow> read_bits var; Some (Some (''0x'' @ print_02x (scast (ucast w :: byte)))) }
      else if v_type var = DBUS_TYPE_BOOLEAN then do { w \<leftarrow> read_bits var; Some (Some (if (ucast w :: u32) \<noteq> 0 then ''true'' else ''false'')) }
      else if v_type var = DBUS_TYPE_INT16 then do { w \<leftarrow> read_bits var; Some (Some (print_int (sint (ucast w :: 16 word)))) }
      else if v_type var = DBUS_TYPE_UINT16 then do { w \<leftarrow> read_bits var; Some (Some (print_dec (unat (ucast w :: 16 word)))) }
      else if v_type var = DBUS_TYPE_INT32 then do { w \<leftarrow> read_bits var; Some (Some (print_int (sint (ucast w :: u32)))) }
      else if v_type var = DBUS_TYPE_UINT32 then do { w \<leftarrow> read_bits var; Some (Some (print_dec (unat (ucast w :: u32)))) }
      else if v_type var = DBUS_TYPE_INT64 then do { w \<leftarrow> read_bits var; Some (Some (print_int (sint w))) }
      else if v_type var = DBUS_TYPE_UINT64 then do { w \<leftarrow> read_bits var; Some (Some (print_dec (unat w))) }
      else if v_type var = DBUS_TYPE_DOUBLE then do { w \<leftarrow> read_bits var; Some (Some (fmt w)) }
      else if v_type var = DBUS_TYPE_STRUCT then Some (Some ''<struct>'')
      else Some (Some ''<unknown type>''))"

text \<open>\<open>sd\<close> is \<open>strtod\<close>: the bits of the value and the rest of the string.  \<open>strtoll\<close> and \<open>strtoull\<close> are \<open>strtol\<close> and
  \<open>strtoul\<close>, \<open>long\<close> having 64 bits.\<close>

definition ni_dbus_variant_parse ::
    "(cstring \<Rightarrow> u64 \<times> cstring) \<Rightarrow> ni_dbus_variant \<Rightarrow> cstring \<Rightarrow> cstring \<Rightarrow> (bool \<times> ni_dbus_variant) option" where
  "ni_dbus_variant_parse sd var s sig =
     (case sig of
        [ty] \<Rightarrow> do {
          v \<leftarrow> u_ni_dbus_variant_change_type var ty;
          (if ty = DBUS_TYPE_STRING \<or> ty = DBUS_TYPE_OBJECT_PATH then map_option (Pair True) (ni_dbus_variant_set_string v (Some s))
           else if ty = DBUS_TYPE_BYTE then
             (let (x, _, ep) = strtoul s 0 in map_option (Pair (ep = [])) (write_bits 8 x v))
           else if ty = DBUS_TYPE_BOOLEAN then
             (if s = ''true'' then map_option (Pair True) (write_bits 32 1 v)
              else if s = ''false'' then map_option (Pair True) (write_bits 32 0 v)
              else (let (x, _, ep) = strtoul s 0 in map_option (Pair (ep = [])) (write_bits 32 x v)))
           else if ty = DBUS_TYPE_INT16 then
             (let (x, _, ep) = strtol s 0 in map_option (Pair (ep = [])) (write_bits 16 (of_int x) v))
           else if ty = DBUS_TYPE_UINT16 then
             (let (x, _, ep) = strtoul s 0 in map_option (Pair (ep = [])) (write_bits 16 x v))
           else if ty = DBUS_TYPE_INT32 then
             (let (x, _, ep) = strtol s 0 in map_option (Pair (ep = [])) (write_bits 32 (of_int x) v))
           else if ty = DBUS_TYPE_UINT32 then
             (let (x, _, ep) = strtoul s 0 in map_option (Pair (ep = [])) (write_bits 32 x v))
           else if ty = DBUS_TYPE_INT64 then
             (let (x, _, ep) = strtol s 0 in map_option (Pair (ep = [])) (write_bits 64 (of_int x) v))
           else if ty = DBUS_TYPE_UINT64 then
             (let (x, _, ep) = strtoul s 0 in map_option (Pair (ep = [])) (write_bits 64 x v))
           else if ty = DBUS_TYPE_DOUBLE then
             (let (x, ep) = sd s in map_option (Pair (ep = [])) (write_bits 64 x v))
           else Some (False, v)) }
      | _ \<Rightarrow> Some (False, var))"

subsection \<open>Printed numbers are read back\<close>

lemma strtol_print_int: "- (2 ^ 63) \<le> i \<Longrightarrow> i < 2 ^ 63 \<Longrightarrow> strtol (print_int i) 0 = (i, False, [])"
  by (auto simp: strtol_def print_int_def scan_number_dec_0 nat_less_iff)

lemma print_hex_facts:
  "digits_value 16 0 (print_hex n) = n \<and> print_hex n \<noteq> [] \<and> list_all (is_digit 16) (print_hex n)"
proof (induction n rule: print_hex.induct)
  case (1 n)
  show ?case
  proof (cases "n < 16")
    case True
    then show ?thesis using digit_char_facts(1,2) [of n] by (simp add: print_hex.simps [of n])
  next
    case False
    then show ?thesis using 1 digit_char_facts(1,2) [of "n mod 16"] by (simp add: print_hex.simps [of n])
  qed
qed

lemma scan_number_0x:
  assumes "s \<noteq> []" "list_all (is_digit 16) s"
  shows "scan_number (''0x'' @ s) 0 = (False, digits_value 16 0 s, [])"
proof -
  obtain d rest where s: "s = d # rest" "is_digit 16 d" using assms by (cases s) auto
  have "\<not> c_isspace (CHR ''0'')" by (simp add: c_isspace_def c_code_def)
  moreover have "scan_digits 16 0 s = (digits_value 16 0 s, [])"
    using assms(2) by (simp add: scan_digits_eq takeWhile_all dropWhile_Nil_iff list_all_iff)
  ultimately show ?thesis using s by (simp add: scan_number_def)
qed

lemma strtoul_print_02x: "strtoul (''0x'' @ print_02x w) 0 = (ucast w, False, [])"
proof -
  let ?s = "print_hex (unat w)"
  have d: "digit_value (CHR ''0'') = Some 0" "is_digit 16 (CHR ''0'')"
    by (simp_all add: is_digit_def digit_value_def c_isdigit_def c_code_def)
  have "print_02x w \<noteq> [] \<and> list_all (is_digit 16) (print_02x w) \<and> digits_value 16 0 (print_02x w) = unat w"
    using print_hex_facts [of "unat w"] d by (simp add: print_02x_def Let_def)
  then have "scan_number (''0x'' @ print_02x w) 0 = (False, unat w, [])" using scan_number_0x by simp
  moreover have "unat w < 2 ^ 64" using unat_u32_less [of w] by simp
  moreover have "of_nat (unat w) = (ucast w :: u64)" by (simp add: word_unat_eq_iff unat_of_nat unsigned_ucast_eq)
  ultimately show ?thesis by (simp add: strtoul_def)
qed

lemma low_bits_ucast:
  "LENGTH('a) \<le> 64 \<Longrightarrow> (ucast ((w AND NOT (mask LENGTH('a))) OR ((ucast (y :: 'a::len word) :: u64) AND mask LENGTH('a))) :: 'a word) = y"
  by (rule bit_word_eqI) (simp add: bit_simps)

lemma low_bits_scast:
  "LENGTH('a) \<le> 64 \<Longrightarrow> (ucast ((w AND NOT (mask LENGTH('a))) OR ((scast (y :: 'a::len word) :: u64) AND mask LENGTH('a))) :: 'a word) = y"
  by (rule bit_word_eqI) (auto simp: bit_simps bit_signed_iff)

lemma low_bits [simp]:
  "(ucast ((w AND NOT (mask 8)) OR ((ucast (b :: byte) :: u64) AND mask 8)) :: byte) = b"
  "(ucast ((w AND NOT (mask 16)) OR ((ucast (h :: 16 word) :: u64) AND mask 16)) :: 16 word) = h"
  "(ucast ((w AND NOT (mask 32)) OR ((ucast (x :: u32) :: u64) AND mask 32)) :: u32) = x"
  "(ucast ((w AND NOT (mask 16)) OR ((scast (h :: 16 word) :: u64) AND mask 16)) :: 16 word) = h"
  "(ucast ((w AND NOT (mask 32)) OR ((scast (x :: u32) :: u64) AND mask 32)) :: u32) = x"
  "(w AND NOT (mask 64)) OR (q AND mask 64) = (q :: u64)"
  using low_bits_ucast [of w b] low_bits_ucast [of w h] low_bits_ucast [of w x] low_bits_scast [of w h] low_bits_scast [of w x]
  by simp_all (rule bit_word_eqI, simp add: bit_simps)

lemma change_type_init [simp]: "u_ni_dbus_variant_change_type ni_dbus_variant_init ty = Some (with_type ty ni_dbus_variant_init)"
  by (auto simp: u_ni_dbus_variant_change_type_def ni_dbus_variant_init_def with_type_def)

lemma write_bits_fresh [simp]:
  "write_bits n x (with_type ty ni_dbus_variant_init) = Some (with_value 0 (Raw (x AND mask n)) (with_type ty ni_dbus_variant_init))"
  by (simp add: write_bits_def ni_dbus_variant_init_def with_type_def with_value_def)

lemma unat_less_64: "LENGTH('a) \<le> 64 \<Longrightarrow> unat (x :: 'a::len word) < 2 ^ 64"
proof -
  assume l: "LENGTH('a) \<le> 64"
  have "unat x < 2 ^ LENGTH('a)" by (rule unsigned_less)
  also have "\<dots> \<le> 2 ^ 64" using l by (simp only: power_increasing_iff)
  finally show ?thesis .
qed

lemma cast_back_16_32:
  "ucast (scast h :: u64) = (h :: 16 word)" "ucast (scast z :: u64) = (z :: u32)"
  "ucast (ucast h :: u64) = (h :: 16 word)" "ucast (ucast z :: u64) = (z :: u32)"
  by (rule bit_word_eqI, auto simp: bit_simps bit_signed_iff)+

lemma cast_back:
  "ucast (x AND mask 8 :: u64) = (ucast x :: byte)" "ucast (x AND mask 16 :: u64) = (ucast x :: 16 word)"
  "ucast (x AND mask 32 :: u64) = (ucast x :: u32)" "x AND mask 64 = (x :: u64)"
  "ucast (ucast b :: u64) = (b :: byte)" "ucast (ucast (scast b :: u32) :: u64) = (b :: byte)"
  "ucast (of_int (sint h) :: u64) = (h :: 16 word)" "ucast (of_nat (unat h) :: u64) = (h :: 16 word)"
  "ucast (of_int (sint z) :: u64) = (z :: u32)" "ucast (of_nat (unat z) :: u64) = (z :: u32)"
  "(of_int (sint x) :: u64) = x" "(of_nat (unat x) :: u64) = x"
proof -
  have a: "(of_int (sint h) :: u64) = scast h" "(of_int (sint z) :: u64) = scast z" for h :: "16 word" and z :: u32
    by simp_all
  have b: "(of_nat (unat h) :: u64) = ucast h" "(of_nat (unat z) :: u64) = ucast z" for h :: "16 word" and z :: u32
    by (simp_all add: word_unat_eq_iff unat_of_nat unsigned_ucast_eq)
  show "ucast (x AND mask 8 :: u64) = (ucast x :: byte)" "ucast (x AND mask 16 :: u64) = (ucast x :: 16 word)"
    "ucast (x AND mask 32 :: u64) = (ucast x :: u32)" "x AND mask 64 = (x :: u64)"
    by (rule bit_word_eqI, simp add: bit_simps)+
  show "ucast (ucast b :: u64) = (b :: byte)" by (rule bit_word_eqI) (simp add: bit_simps)
  show "ucast (ucast (scast b :: u32) :: u64) = (b :: byte)"
    by (rule bit_word_eqI) (simp add: bit_simps bit_signed_iff)
  show "ucast (of_int (sint h) :: u64) = (h :: 16 word)" "ucast (of_int (sint z) :: u64) = (z :: u32)"
    unfolding a by (rule bit_word_eqI, auto simp: bit_simps bit_signed_iff)+
  show "ucast (of_nat (unat h) :: u64) = (h :: 16 word)" "ucast (of_nat (unat z) :: u64) = (z :: u32)"
    unfolding b by (rule bit_word_eqI, simp add: bit_simps)+
  show "(of_int (sint x) :: u64) = x" "(of_nat (unat x) :: u64) = x" by simp_all
qed

text \<open>Integers survive their text.  What \<open>ni_dbus_variant_sprint\<close> prints for an integer of any type is
  accepted by \<open>ni_dbus_variant_parse\<close> with the type's signature, and the variant it makes has the same
  value.\<close>

theorem ni_dbus_variant_print_parse:
  assumes ty: "v_type var \<in> {DBUS_TYPE_BYTE, DBUS_TYPE_INT16, DBUS_TYPE_UINT16, DBUS_TYPE_INT32, DBUS_TYPE_UINT32, DBUS_TYPE_INT64, DBUS_TYPE_UINT64}"
    and raw: "v_value var = Raw w"
  shows "\<exists>s v. ni_dbus_variant_sprint fmt var = Some (Some s)
     \<and> ni_dbus_variant_parse sd ni_dbus_variant_init s [v_type var] = Some (True, v)
     \<and> v_type v = v_type var \<and> cast_switch_get dbl v = cast_switch_get dbl var"
proof -
  have rd: "read_bits var = Some w" using raw by (simp add: read_bits_def)
  have rd': "read_bits (with_value n (Raw x) v) = Some x" for n x v by (simp add: read_bits_def)
  have i16: "strtol (print_int (sint h)) 0 = (sint h, False, [])" for h :: "16 word"
    using sint_ge [of h] sint_lt [of h] by (intro strtol_print_int) simp_all
  have i32: "strtol (print_int (sint z)) 0 = (sint z, False, [])" for z :: u32
    using sint_ge [of z] sint_lt [of z] by (intro strtol_print_int) simp_all
  have i64: "strtol (print_int (sint x)) 0 = (sint x, False, [])" for x :: u64
    using sint_ge [of x] sint_lt [of x] by (intro strtol_print_int) simp_all
  have u16: "strtoul (print_dec (unat h)) 0 = (of_nat (unat h), False, [])" for h :: "16 word"
    using unat_less_64 [of h] by (intro strtoul_print_dec_0) simp
  have u32: "strtoul (print_dec (unat z)) 0 = (of_nat (unat z), False, [])" for z :: u32
    using unat_less_64 [of z] by (intro strtoul_print_dec_0) simp
  have u64: "strtoul (print_dec (unat x)) 0 = (of_nat (unat x), False, [])" for x :: u64
    using unat_less_64 [of x] by (intro strtoul_print_dec_0) simp
  from ty consider "v_type var = DBUS_TYPE_BYTE" | "v_type var = DBUS_TYPE_INT16" | "v_type var = DBUS_TYPE_UINT16"
    | "v_type var = DBUS_TYPE_INT32" | "v_type var = DBUS_TYPE_UINT32" | "v_type var = DBUS_TYPE_INT64" | "v_type var = DBUS_TYPE_UINT64"
    by blast
  then show ?thesis
    by cases (simp_all add: ni_dbus_variant_sprint_def ni_dbus_variant_parse_def cast_switch_get_def rd rd'
        strtoul_print_02x [simplified] i16 i32 i64 u16 u32 u64 cast_back cast_back_16_32)
qed

lemma ni_dbus_variant_print_parse_witness:
  "\<exists>s v. ni_dbus_variant_sprint (\<lambda>_. []) (Variant DBUS_TYPE_INT16 DBUS_TYPE_INVALID None 0 (Raw 0xfffe)) = Some (Some s)
     \<and> ni_dbus_variant_parse (\<lambda>s. (0, s)) ni_dbus_variant_init s [DBUS_TYPE_INT16] = Some (True, v) \<and> v_type v = DBUS_TYPE_INT16
     \<and> cast_switch_get id v = cast_switch_get id (Variant DBUS_TYPE_INT16 DBUS_TYPE_INVALID None 0 (Raw 0xfffe))"
  using ni_dbus_variant_print_parse [where var = "Variant DBUS_TYPE_INT16 DBUS_TYPE_INVALID None 0 (Raw 0xfffe)" and w = "0xfffe"
      and fmt = "\<lambda>_. []" and sd = "\<lambda>s. (0, s)" and dbl = id]
  by simp

section \<open>One interface for all members\<close>

text \<open>What a client relies on: setting a new variant never fails, and the getter of the same type gives the
  value back.\<close>

locale variant_member =
  fixes set_val :: "ni_dbus_variant \<Rightarrow> 'a \<Rightarrow> ni_dbus_variant option"
    and get_val :: "ni_dbus_variant \<Rightarrow> 'a option option"
  assumes set_get: "\<exists>v. set_val ni_dbus_variant_init x = Some v \<and> get_val v = Some (Some x)"

lemmas member_defs =
  ni_dbus_variant_set_string_def ni_dbus_variant_get_string_def ni_dbus_variant_set_object_path_def ni_dbus_variant_get_object_path_def
  ni_dbus_variant_set_bool_def ni_dbus_variant_get_bool_def ni_dbus_variant_set_byte_def ni_dbus_variant_get_byte_def
  ni_dbus_variant_set_uint16_def ni_dbus_variant_get_uint16_def ni_dbus_variant_set_int16_def ni_dbus_variant_get_int16_def
  ni_dbus_variant_set_uint32_def ni_dbus_variant_get_uint32_def ni_dbus_variant_set_int32_def ni_dbus_variant_get_int32_def
  ni_dbus_variant_set_uint64_def ni_dbus_variant_get_uint64_def ni_dbus_variant_set_int64_def ni_dbus_variant_get_int64_def
  ni_dbus_variant_set_double_def ni_dbus_variant_get_double_def read_bits_def

lemma dup_string_fresh:
  "dup_string_value (with_type ty ni_dbus_variant_init) x =
     Some (with_value 0 (case x of None \<Rightarrow> Raw 0 | Some s \<Rightarrow> Str s) (with_type ty ni_dbus_variant_init))"
  by (simp add: dup_string_value_def ni_dbus_variant_init_def with_type_def)

lemma string_value_case [simp]: "string_value (with_value n (case x of None \<Rightarrow> Raw 0 | Some s \<Rightarrow> Str s) v) = Some x"
  by (simp add: string_value_def split: option.split)

interpretation string_member: variant_member ni_dbus_variant_set_string ni_dbus_variant_get_string
  by unfold_locales (simp add: member_defs dup_string_fresh)

interpretation path_member: variant_member ni_dbus_variant_set_object_path ni_dbus_variant_get_object_path
  by unfold_locales (simp add: member_defs dup_string_fresh)

interpretation bool_member: variant_member ni_dbus_variant_set_bool ni_dbus_variant_get_bool
  by unfold_locales (simp add: member_defs cast_back cast_back_16_32)

interpretation byte_member: variant_member ni_dbus_variant_set_byte ni_dbus_variant_get_byte
  by unfold_locales (simp add: member_defs cast_back cast_back_16_32)

interpretation uint16_member: variant_member ni_dbus_variant_set_uint16 ni_dbus_variant_get_uint16
  by unfold_locales (simp add: member_defs cast_back cast_back_16_32)

interpretation int16_member: variant_member ni_dbus_variant_set_int16 ni_dbus_variant_get_int16
  by unfold_locales (simp add: member_defs cast_back cast_back_16_32)

interpretation uint32_member: variant_member ni_dbus_variant_set_uint32 ni_dbus_variant_get_uint32
  by unfold_locales (simp add: member_defs cast_back cast_back_16_32)

interpretation int32_member: variant_member ni_dbus_variant_set_int32 ni_dbus_variant_get_int32
  by unfold_locales (simp add: member_defs cast_back cast_back_16_32)

interpretation uint64_member: variant_member ni_dbus_variant_set_uint64 ni_dbus_variant_get_uint64
  by unfold_locales (simp add: member_defs cast_back cast_back_16_32)

interpretation int64_member: variant_member ni_dbus_variant_set_int64 ni_dbus_variant_get_int64
  by unfold_locales (simp add: member_defs cast_back cast_back_16_32)

interpretation double_member: variant_member ni_dbus_variant_set_double ni_dbus_variant_get_double
  by unfold_locales (simp add: member_defs cast_back cast_back_16_32)

text \<open>Reusing a number as a string is fatal.  \<open>change_type\<close> clears nothing when a number becomes a
  string, so \<open>ni_dbus_variant_set_string\<close> on a variant that holds a number other than 0 passes the number to
  \<open>free\<close>; over 0 it works.\<close>

theorem ni_dbus_variant_number_to_string:
  "(\<exists>v. ni_dbus_variant_set_uint32 ni_dbus_variant_init n = Some v
      \<and> (ni_dbus_variant_set_string v s = None \<longleftrightarrow> n \<noteq> 0))"
proof -
  let ?v = "with_value 0 (Raw (ucast n AND mask 32)) (with_type DBUS_TYPE_UINT32 ni_dbus_variant_init)"
  have "ni_dbus_variant_set_uint32 ni_dbus_variant_init n = Some ?v" by (simp add: ni_dbus_variant_set_uint32_def)
  moreover have "(ucast n AND mask 32 :: u64) = 0 \<longleftrightarrow> n = 0"
  proof
    assume "(ucast n AND mask 32 :: u64) = 0"
    then have "(ucast (ucast n AND mask 32 :: u64) :: u32) = 0" by simp
    then show "n = 0" by (simp add: cast_back cast_back_16_32)
  qed simp
  ultimately show ?thesis
    by (simp add: ni_dbus_variant_set_string_def u_ni_dbus_variant_change_type_def dup_string_value_def bind_None_iff ni_assert_def)
qed

lemma scast_byte: "(ucast (scast (b :: byte) :: u64) :: u32) = (if 128 \<le> b then ucast b - 256 else ucast b)"
proof -
  have "(ucast (scast b :: u64) :: u32) = scast b" by (rule bit_word_eqI) (auto simp: bit_simps bit_signed_iff)
  also have "\<dots> = word_of_int (sint b)" by simp
  also have "sint b = (if 128 \<le> uint b then uint b - 256 else uint b)"
  proof -
    have lt: "0 \<le> uint b" "uint b < 256" using uint_lt2p [of b] by simp_all
    have "odd (uint b div 128) \<longleftrightarrow> 128 \<le> uint b" using lt by presburger
    then show ?thesis using lt
      by (simp add: sint_uint signed_take_bit_eq_take_bit_minus bit_iff_odd take_bit_int_eq_self)
  qed
  also have "word_of_int (if 128 \<le> uint b then uint b - 256 else uint b) = (if 128 \<le> b then ucast b - 256 else (ucast b :: u32))"
    by (simp add: word_le_def)
  finally show ?thesis .
qed

text \<open>A byte above 127 becomes negative when it is read as an integer, because the member is a plain
  \<open>char\<close>: \<open>ni_dbus_variant_get_uint\<close> gives a number near 2 to the 32, while \<open>ni_dbus_variant_get_byte\<close> gives the byte.\<close>

theorem ni_dbus_variant_byte_sign:
  "\<exists>v. ni_dbus_variant_set_byte ni_dbus_variant_init b = Some v \<and> ni_dbus_variant_get_byte v = Some (Some b)
     \<and> ni_dbus_variant_get_uint dbl v = Some (Some (if 128 \<le> b then ucast b - 256 else ucast b))"
proof -
  let ?v = "with_value 0 (Raw (ucast b AND mask 8)) (with_type DBUS_TYPE_BYTE ni_dbus_variant_init)"
  have s: "ni_dbus_variant_set_byte ni_dbus_variant_init b = Some ?v" by (simp add: ni_dbus_variant_set_byte_def)
  have g: "ni_dbus_variant_get_byte ?v = Some (Some b)" by (simp add: ni_dbus_variant_get_byte_def read_bits_def cast_back)
  have "ni_dbus_variant_get_uint dbl ?v = Some (Some (ucast (scast b :: u64)))"
    by (simp add: ni_dbus_variant_get_uint_def cast_switch_get_def read_bits_def cast_back)
  moreover have "(ucast (scast b :: u64) :: u32) = (if 128 \<le> b then ucast b - 256 else ucast b)"
    by (simp add: scast_byte)
  ultimately show ?thesis using s g by simp
qed

end
