(* ===== verification/Dicts.thy ===== *)
theory Dicts
  imports Variant
begin

text \<open>
  Arrays, dicts, structs and arrays of them over variants, dborb/dbus-common.c.  The block of an array has
  room for its length rounded up to a multiple of 32.  A function that returns a pointer to an element
  returns its index here.  Deleting an entry of a dict moves the entries behind it down and leaves the bytes
  of the last one in place, which are an alias from then on.
\<close>

section \<open>Growth\<close>

definition NI_DBUS_ARRAY_ALLOCATION :: "nat \<Rightarrow> nat" where
  "NI_DBUS_ARRAY_ALLOCATION len = (len + 31) div 32 * 32"

text \<open>On a block of cells; the cells behind the copied ones come from \<open>calloc\<close>.\<close>

definition u_ni_dbus_array_grow :: "'a list \<Rightarrow> nat \<Rightarrow> nat \<Rightarrow> 'a \<Rightarrow> 'a list option" where
  "u_ni_dbus_array_grow data len grow_by zero =
     (if NI_DBUS_ARRAY_ALLOCATION len \<le> len + grow_by then do {
        keep \<leftarrow> mem_read data 0 len;
        Some (keep @ replicate (NI_DBUS_ARRAY_ALLOCATION (len + grow_by) - len) zero) }
      else Some data)"

definition byte_array_value :: "ni_dbus_variant \<Rightarrow> byte list option" where
  "byte_array_value var = (case v_value var of ByteArr b \<Rightarrow> Some b | Raw w \<Rightarrow> (if w = 0 then Some [] else None) | _ \<Rightarrow> None)"

definition string_array_value :: "ni_dbus_variant \<Rightarrow> cstring option list option" where
  "string_array_value var = (case v_value var of StrArr b \<Rightarrow> Some b | Raw w \<Rightarrow> (if w = 0 then Some [] else None) | _ \<Rightarrow> None)"

definition variant_array_value :: "ni_dbus_variant \<Rightarrow> ni_dbus_variant list option" where
  "variant_array_value var = (case v_value var of VarArr b \<Rightarrow> Some b | Raw w \<Rightarrow> (if w = 0 then Some [] else None) | _ \<Rightarrow> None)"

definition dict_array_value :: "ni_dbus_variant \<Rightarrow> dict_entry list option" where
  "dict_array_value var = (case v_value var of DictArr b \<Rightarrow> Some b | Raw w \<Rightarrow> (if w = 0 then Some [] else None) | _ \<Rightarrow> None)"

text \<open>All bytes zero, as \<open>calloc\<close> gives them: type and cookie 0, which is as good as initialised.\<close>

definition zero_entry :: dict_entry where "zero_entry = Entry None ni_dbus_variant_init"

section \<open>Arrays of bytes and strings\<close>

definition ni_dbus_variant_init_byte_array :: "ni_dbus_variant \<Rightarrow> ni_dbus_variant option" where
  "ni_dbus_variant_init_byte_array var = do { v \<leftarrow> ni_dbus_variant_destroy var; Some (u_ni_dbus_init_array v DBUS_TYPE_BYTE) }"

definition ni_dbus_variant_set_byte_array :: "ni_dbus_variant \<Rightarrow> byte list \<Rightarrow> ni_dbus_variant option" where
  "ni_dbus_variant_set_byte_array var data = do {
     v \<leftarrow> ni_dbus_variant_destroy var;
     let v1 = u_ni_dbus_init_array v DBUS_TYPE_BYTE;
     b \<leftarrow> byte_array_value v1;
     b1 \<leftarrow> u_ni_dbus_array_grow b (v_len v1) (length data) 0;
     (if data \<noteq> [] then do { b2 \<leftarrow> mem_write b1 0 data; Some (with_value (length data) (ByteArr b2) v1) }
      else Some (with_value (v_len v1) (ByteArr b1) v1)) }"

definition ni_dbus_variant_append_byte_array :: "ni_dbus_variant \<Rightarrow> byte \<Rightarrow> (bool \<times> ni_dbus_variant) option" where
  "ni_dbus_variant_append_byte_array var x =
     (if \<not> u_ni_dbus_is_array var [DBUS_TYPE_BYTE] then Some (False, var)
      else do {
        b \<leftarrow> byte_array_value var;
        b1 \<leftarrow> u_ni_dbus_array_grow b (v_len var) 1 0;
        b2 \<leftarrow> arr_set b1 (v_len var) x;
        Some (True, with_value (v_len var + 1) (ByteArr b2) var) })"

text \<open>The bytes copied out, or FALSE.\<close>

definition ni_dbus_variant_get_byte_array_minmax :: "ni_dbus_variant \<Rightarrow> nat \<Rightarrow> nat \<Rightarrow> byte list option option" where
  "ni_dbus_variant_get_byte_array_minmax var minlen maxlen =
     (if \<not> u_ni_dbus_is_array var [DBUS_TYPE_BYTE] then Some None
      else if v_len var < minlen \<or> maxlen < v_len var then Some None
      else do { b \<leftarrow> byte_array_value var; bs \<leftarrow> mem_read b 0 (v_len var); Some (Some bs) })"

definition ni_dbus_variant_set_uuid :: "ni_dbus_variant \<Rightarrow> ni_uuid \<Rightarrow> ni_dbus_variant option" where
  "ni_dbus_variant_set_uuid var uuid = ni_dbus_variant_set_byte_array var uuid"

definition ni_dbus_variant_get_uuid :: "ni_dbus_variant \<Rightarrow> ni_uuid option option" where
  "ni_dbus_variant_get_uuid var = ni_dbus_variant_get_byte_array_minmax var 16 16"

definition ni_dbus_variant_init_string_array :: "ni_dbus_variant \<Rightarrow> ni_dbus_variant option" where
  "ni_dbus_variant_init_string_array var = do { v \<leftarrow> ni_dbus_variant_destroy var; Some (u_ni_dbus_init_array v DBUS_TYPE_STRING) }"

text \<open>A NULL string is stored as the empty one.\<close>

definition or_empty :: "cstring option \<Rightarrow> cstring option" where
  "or_empty s = (case s of None \<Rightarrow> Some [] | Some x \<Rightarrow> Some x)"

definition ni_dbus_variant_set_string_array :: "ni_dbus_variant \<Rightarrow> cstring option list \<Rightarrow> ni_dbus_variant option" where
  "ni_dbus_variant_set_string_array var data = do {
     v \<leftarrow> ni_dbus_variant_destroy var;
     let v1 = u_ni_dbus_init_array v DBUS_TYPE_STRING;
     b \<leftarrow> string_array_value v1;
     b1 \<leftarrow> u_ni_dbus_array_grow b (v_len v1) (length data) None;
     (if data \<noteq> [] then do { b2 \<leftarrow> mem_write b1 0 (map or_empty data); Some (with_value (length data) (StrArr b2) v1) }
      else Some (with_value (v_len v1) (StrArr b1) v1)) }"

definition ni_dbus_variant_get_string_array :: "ni_dbus_variant \<Rightarrow> ni_string_array \<Rightarrow> (bool \<times> ni_string_array) option" where
  "ni_dbus_variant_get_string_array var array =
     (if \<not> u_ni_dbus_is_array var [DBUS_TYPE_STRING] then Some (False, array)
      else do {
        b \<leftarrow> string_array_value var;
        ss \<leftarrow> mem_read b 0 (v_len var);
        a1 \<leftarrow> append_all ni_string_array_append array ss;
        Some (True, a1) })"

definition ni_dbus_variant_append_string_array :: "ni_dbus_variant \<Rightarrow> cstring option \<Rightarrow> (bool \<times> ni_dbus_variant) option" where
  "ni_dbus_variant_append_string_array var string =
     (if \<not> u_ni_dbus_is_array var [DBUS_TYPE_STRING] then Some (False, var)
      else do {
        b \<leftarrow> string_array_value var;
        b1 \<leftarrow> u_ni_dbus_array_grow b (v_len var) 1 None;
        b2 \<leftarrow> arr_set b1 (v_len var) (or_empty string);
        Some (True, with_value (v_len var + 1) (StrArr b2) var) })"

definition ni_dbus_variant_init_object_path_array :: "ni_dbus_variant \<Rightarrow> ni_dbus_variant option" where
  "ni_dbus_variant_init_object_path_array var = do { v \<leftarrow> ni_dbus_variant_destroy var; Some (u_ni_dbus_init_array v DBUS_TYPE_OBJECT_PATH) }"

definition ni_dbus_variant_append_object_path_array :: "ni_dbus_variant \<Rightarrow> cstring option \<Rightarrow> (bool \<times> ni_dbus_variant) option" where
  "ni_dbus_variant_append_object_path_array var string =
     (if \<not> u_ni_dbus_is_array var [DBUS_TYPE_OBJECT_PATH] then Some (False, var)
      else do {
        b \<leftarrow> string_array_value var;
        b1 \<leftarrow> u_ni_dbus_array_grow b (v_len var) 1 None;
        b2 \<leftarrow> arr_set b1 (v_len var) (or_empty string);
        Some (True, with_value (v_len var + 1) (StrArr b2) var) })"

section \<open>Arrays of variants and structs\<close>

definition append_variant :: "ni_dbus_variant \<Rightarrow> (nat option \<times> ni_dbus_variant) option" where
  "append_variant var = do {
     b \<leftarrow> variant_array_value var;
     b1 \<leftarrow> u_ni_dbus_array_grow b (v_len var) 1 ni_dbus_variant_init;
     ni_assert (v_len var < length b1);
     Some (Some (v_len var), with_value (v_len var + 1) (VarArr b1) var) }"

definition update_element :: "ni_dbus_variant \<Rightarrow> nat \<Rightarrow> (ni_dbus_variant \<Rightarrow> ni_dbus_variant option) \<Rightarrow> ni_dbus_variant option" where
  "update_element var i f = do {
     b \<leftarrow> variant_array_value var;
     e \<leftarrow> arr_get b i;
     e1 \<leftarrow> f e;
     b1 \<leftarrow> arr_set b i e1;
     Some (with_value (v_len var) (VarArr b1) var) }"

definition ni_dbus_variant_init_variant_array :: "ni_dbus_variant \<Rightarrow> ni_dbus_variant option" where
  "ni_dbus_variant_init_variant_array var = do { v \<leftarrow> ni_dbus_variant_destroy var; Some (u_ni_dbus_init_array v DBUS_TYPE_VARIANT) }"

definition ni_dbus_variant_append_variant_element :: "ni_dbus_variant \<Rightarrow> (nat option \<times> ni_dbus_variant) option" where
  "ni_dbus_variant_append_variant_element var =
     (if \<not> u_ni_dbus_is_array var [DBUS_TYPE_VARIANT] then Some (None, var) else append_variant var)"

definition ni_dbus_variant_init_struct :: "ni_dbus_variant \<Rightarrow> ni_dbus_variant option" where
  "ni_dbus_variant_init_struct var = do { v \<leftarrow> ni_dbus_variant_destroy var; Some (with_value 0 (v_value v) (with_type DBUS_TYPE_STRUCT v)) }"

definition ni_dbus_struct_add :: "ni_dbus_variant \<Rightarrow> (nat option \<times> ni_dbus_variant) option" where
  "ni_dbus_struct_add var = (if v_type var \<noteq> DBUS_TYPE_STRUCT then Some (None, var) else append_variant var)"

definition ni_dbus_struct_add_string :: "ni_dbus_variant \<Rightarrow> cstring option \<Rightarrow> (bool \<times> ni_dbus_variant) option" where
  "ni_dbus_struct_add_string var s = do {
     (r, v) \<leftarrow> ni_dbus_struct_add var;
     (case r of None \<Rightarrow> Some (False, v)
      | Some i \<Rightarrow> do { v1 \<leftarrow> update_element v i (\<lambda>e. ni_dbus_variant_set_string e s); Some (True, v1) }) }"

definition ni_dbus_struct_get :: "ni_dbus_variant \<Rightarrow> nat \<Rightarrow> ni_dbus_variant option option" where
  "ni_dbus_struct_get var index =
     (if v_type var \<noteq> DBUS_TYPE_STRUCT \<or> v_len var \<le> index then Some None
      else do { b \<leftarrow> variant_array_value var; e \<leftarrow> arr_get b index; Some (Some e) })"

definition ni_dbus_struct_get_string :: "ni_dbus_variant \<Rightarrow> nat \<Rightarrow> cstring option option option" where
  "ni_dbus_struct_get_string var index = do {
     r \<leftarrow> ni_dbus_struct_get var index;
     (case r of None \<Rightarrow> Some None | Some member \<Rightarrow> ni_dbus_variant_get_string member) }"

definition ni_dbus_array_array_init :: "ni_dbus_variant \<Rightarrow> cstring \<Rightarrow> ni_dbus_variant option" where
  "ni_dbus_array_array_init var elem_signature = do {
     v \<leftarrow> ni_dbus_variant_destroy var;
     Some (with_elements (v_element_type v) (Some elem_signature) (with_type DBUS_TYPE_ARRAY v)) }"

definition ni_dbus_array_array_add :: "ni_dbus_variant \<Rightarrow> (nat option \<times> ni_dbus_variant) option" where
  "ni_dbus_array_array_add var =
     (if v_type var \<noteq> DBUS_TYPE_ARRAY \<or> v_element_type var \<noteq> DBUS_TYPE_INVALID
         \<or> (case v_element_signature var of None \<Rightarrow> True | Some es \<Rightarrow> es = [] \<or> hd es \<noteq> DBUS_TYPE_ARRAY)
      then Some (None, var) else append_variant var)"

section \<open>Dicts\<close>

definition ni_dbus_variant_init_dict :: "ni_dbus_variant \<Rightarrow> ni_dbus_variant option" where
  "ni_dbus_variant_init_dict var = do { v \<leftarrow> ni_dbus_variant_destroy var; Some (u_ni_dbus_init_array v DBUS_TYPE_DICT_ENTRY) }"

definition ni_dbus_dict_new :: "ni_dbus_variant option" where
  "ni_dbus_dict_new = ni_dbus_variant_init_dict ni_dbus_variant_new"

definition ni_dbus_dict_is_empty :: "ni_dbus_variant \<Rightarrow> bool" where
  "ni_dbus_dict_is_empty var \<longleftrightarrow> ni_dbus_variant_is_dict var \<and> v_len var = 0"

definition is_entry_array :: "ni_dbus_variant \<Rightarrow> bool" where
  "is_entry_array dict \<longleftrightarrow> v_type dict = DBUS_TYPE_ARRAY \<and> v_element_type dict = DBUS_TYPE_DICT_ENTRY"

text \<open>The new entry gets its key; its datum is whatever the slot holds.\<close>

definition ni_dbus_dict_add :: "ni_dbus_variant \<Rightarrow> cstring option \<Rightarrow> (nat option \<times> ni_dbus_variant) option" where
  "ni_dbus_dict_add dict key =
     (if \<not> is_entry_array dict then Some (None, dict)
      else do {
        b \<leftarrow> dict_array_value dict;
        b1 \<leftarrow> u_ni_dbus_array_grow b (v_len dict) 1 zero_entry;
        e \<leftarrow> arr_get b1 (v_len dict);
        b2 \<leftarrow> arr_set b1 (v_len dict) (Entry key (de_datum e));
        Some (Some (v_len dict), with_value (v_len dict + 1) (DictArr b2) dict) })"

definition update_datum :: "ni_dbus_variant \<Rightarrow> nat \<Rightarrow> (ni_dbus_variant \<Rightarrow> ni_dbus_variant option) \<Rightarrow> ni_dbus_variant option" where
  "update_datum dict i f = do {
     b \<leftarrow> dict_array_value dict;
     e \<leftarrow> arr_get b i;
     d \<leftarrow> f (de_datum e);
     b1 \<leftarrow> arr_set b i (Entry (de_key e) d);
     Some (with_value (v_len dict) (DictArr b1) dict) }"

text \<open>The common shape of the functions that add an entry and set its datum.\<close>

definition dict_add_with ::
    "(ni_dbus_variant \<Rightarrow> 'a \<Rightarrow> ni_dbus_variant option) \<Rightarrow> ni_dbus_variant \<Rightarrow> cstring \<Rightarrow> 'a \<Rightarrow> (bool \<times> ni_dbus_variant) option" where
  "dict_add_with set_val dict key x = do {
     (r, d) \<leftarrow> ni_dbus_dict_add dict (Some key);
     (case r of None \<Rightarrow> Some (False, d)
      | Some i \<Rightarrow> do { d1 \<leftarrow> update_datum d i (\<lambda>v. set_val v x); Some (True, d1) }) }"

definition ni_dbus_dict_add_string :: "ni_dbus_variant \<Rightarrow> cstring \<Rightarrow> cstring option \<Rightarrow> (bool \<times> ni_dbus_variant) option" where
  "ni_dbus_dict_add_string = dict_add_with ni_dbus_variant_set_string"
definition ni_dbus_dict_add_object_path :: "ni_dbus_variant \<Rightarrow> cstring \<Rightarrow> cstring option \<Rightarrow> (bool \<times> ni_dbus_variant) option" where
  "ni_dbus_dict_add_object_path = dict_add_with ni_dbus_variant_set_object_path"
definition ni_dbus_dict_add_bool :: "ni_dbus_variant \<Rightarrow> cstring \<Rightarrow> u32 \<Rightarrow> (bool \<times> ni_dbus_variant) option" where
  "ni_dbus_dict_add_bool = dict_add_with ni_dbus_variant_set_bool"
definition ni_dbus_dict_add_uint16 :: "ni_dbus_variant \<Rightarrow> cstring \<Rightarrow> 16 word \<Rightarrow> (bool \<times> ni_dbus_variant) option" where
  "ni_dbus_dict_add_uint16 = dict_add_with ni_dbus_variant_set_uint16"
definition ni_dbus_dict_add_int16 :: "ni_dbus_variant \<Rightarrow> cstring \<Rightarrow> 16 word \<Rightarrow> (bool \<times> ni_dbus_variant) option" where
  "ni_dbus_dict_add_int16 = dict_add_with ni_dbus_variant_set_int16"
definition ni_dbus_dict_add_uint32 :: "ni_dbus_variant \<Rightarrow> cstring \<Rightarrow> u32 \<Rightarrow> (bool \<times> ni_dbus_variant) option" where
  "ni_dbus_dict_add_uint32 = dict_add_with ni_dbus_variant_set_uint32"
definition ni_dbus_dict_add_int32 :: "ni_dbus_variant \<Rightarrow> cstring \<Rightarrow> u32 \<Rightarrow> (bool \<times> ni_dbus_variant) option" where
  "ni_dbus_dict_add_int32 = dict_add_with ni_dbus_variant_set_int32"
definition ni_dbus_dict_add_uint64 :: "ni_dbus_variant \<Rightarrow> cstring \<Rightarrow> u64 \<Rightarrow> (bool \<times> ni_dbus_variant) option" where
  "ni_dbus_dict_add_uint64 = dict_add_with ni_dbus_variant_set_uint64"
definition ni_dbus_dict_add_int64 :: "ni_dbus_variant \<Rightarrow> cstring \<Rightarrow> u64 \<Rightarrow> (bool \<times> ni_dbus_variant) option" where
  "ni_dbus_dict_add_int64 = dict_add_with ni_dbus_variant_set_int64"
definition ni_dbus_dict_add_double :: "ni_dbus_variant \<Rightarrow> cstring \<Rightarrow> u64 \<Rightarrow> (bool \<times> ni_dbus_variant) option" where
  "ni_dbus_dict_add_double = dict_add_with ni_dbus_variant_set_double"
definition ni_dbus_dict_add_byte_array :: "ni_dbus_variant \<Rightarrow> cstring \<Rightarrow> byte list \<Rightarrow> (bool \<times> ni_dbus_variant) option" where
  "ni_dbus_dict_add_byte_array = dict_add_with ni_dbus_variant_set_byte_array"
definition ni_dbus_dict_add_string_array :: "ni_dbus_variant \<Rightarrow> cstring \<Rightarrow> cstring option list \<Rightarrow> (bool \<times> ni_dbus_variant) option" where
  "ni_dbus_dict_add_string_array = dict_add_with ni_dbus_variant_set_string_array"

definition ni_dbus_dict_add_byte_array_buffer :: "ni_dbus_variant \<Rightarrow> cstring \<Rightarrow> ni_buffer \<Rightarrow> (bool \<times> ni_dbus_variant) option" where
  "ni_dbus_dict_add_byte_array_buffer dict key buf = do {
     bs \<leftarrow> mem_read (buf_base buf) (ni_buffer_head buf) (unat (ni_buffer_count buf));
     ni_dbus_dict_add_byte_array dict key bs }"

text \<open>\<open>ni_dbus_variant_copy\<close> is not implemented: it ends the process.\<close>

definition ni_dbus_variant_copy :: "ni_dbus_variant \<Rightarrow> ni_dbus_variant \<Rightarrow> ni_dbus_variant option" where
  "ni_dbus_variant_copy dst src = do { ni_dbus_variant_destroy dst; None }"

definition ni_dbus_dict_add_entry :: "ni_dbus_variant \<Rightarrow> dict_entry \<Rightarrow> (bool \<times> ni_dbus_variant) option" where
  "ni_dbus_dict_add_entry dict entry = do {
     (r, d) \<leftarrow> ni_dbus_dict_add dict (de_key entry);
     (case r of None \<Rightarrow> Some (False, d)
      | Some i \<Rightarrow> do { d1 \<leftarrow> update_datum d i (\<lambda>v. ni_dbus_variant_copy v (de_datum entry)); Some (True, d1) }) }"

fun find_key :: "nat \<Rightarrow> dict_entry list \<Rightarrow> cstring \<Rightarrow> nat option" where
  "find_key i [] key = None"
| "find_key i (e # es) key = (if de_key e = Some key then Some i else find_key (Suc i) es key)"

definition ni_dbus_dict_get :: "ni_dbus_variant \<Rightarrow> cstring \<Rightarrow> nat option option" where
  "ni_dbus_dict_get dict key =
     (if \<not> ni_dbus_variant_is_dict dict then Some None
      else do { b \<leftarrow> dict_array_value dict; es \<leftarrow> mem_read b 0 (v_len dict); Some (find_key 0 es key) })"

definition dict_datum :: "ni_dbus_variant \<Rightarrow> nat \<Rightarrow> ni_dbus_variant option" where
  "dict_datum dict i = do { b \<leftarrow> dict_array_value dict; e \<leftarrow> arr_get b i; Some (de_datum e) }"

text \<open>The index of the entry and its key.\<close>

definition ni_dbus_dict_get_entry :: "ni_dbus_variant \<Rightarrow> nat \<Rightarrow> (nat \<times> cstring option) option option" where
  "ni_dbus_dict_get_entry dict index =
     (if \<not> ni_dbus_variant_is_dict dict then Some None
      else if v_len dict \<le> index then Some None
      else do { b \<leftarrow> dict_array_value dict; e \<leftarrow> arr_get b index; Some (Some (index, de_key e)) })"

fun find_next :: "nat \<Rightarrow> dict_entry list \<Rightarrow> cstring option \<Rightarrow> nat option" where
  "find_next i [] key = None"
| "find_next i (e # es) key = (if key = None \<or> ni_string_eq (de_key e) key then Some i else find_next (Suc i) es key)"

definition ni_dbus_dict_get_next :: "ni_dbus_variant \<Rightarrow> cstring option \<Rightarrow> nat option \<Rightarrow> nat option option" where
  "ni_dbus_dict_get_next dict key previous =
     (if \<not> ni_dbus_variant_is_dict dict then Some None
      else do {
        b \<leftarrow> dict_array_value dict;
        es \<leftarrow> mem_read b 0 (v_len dict);
        (case previous of
           None \<Rightarrow> Some (find_next 0 es key)
         | Some p \<Rightarrow> (if v_len dict \<le> p then Some None else Some (find_next (Suc p) (drop (Suc p) es) key))) })"

text \<open>The common shape of the typed lookups.\<close>

definition dict_get_with ::
    "(ni_dbus_variant \<Rightarrow> 'a option option) \<Rightarrow> ni_dbus_variant \<Rightarrow> cstring \<Rightarrow> 'a option option" where
  "dict_get_with get_val dict key = do {
     r \<leftarrow> ni_dbus_dict_get dict key;
     (case r of None \<Rightarrow> Some None | Some i \<Rightarrow> do { v \<leftarrow> dict_datum dict i; get_val v }) }"

definition ni_dbus_dict_get_bool :: "ni_dbus_variant \<Rightarrow> cstring \<Rightarrow> u32 option option" where
  "ni_dbus_dict_get_bool = dict_get_with ni_dbus_variant_get_bool"
definition ni_dbus_dict_get_uint16 :: "ni_dbus_variant \<Rightarrow> cstring \<Rightarrow> 16 word option option" where
  "ni_dbus_dict_get_uint16 = dict_get_with ni_dbus_variant_get_uint16"
definition ni_dbus_dict_get_uint32 :: "ni_dbus_variant \<Rightarrow> cstring \<Rightarrow> u32 option option" where
  "ni_dbus_dict_get_uint32 = dict_get_with ni_dbus_variant_get_uint32"
definition ni_dbus_dict_get_uint64 :: "ni_dbus_variant \<Rightarrow> cstring \<Rightarrow> u64 option option" where
  "ni_dbus_dict_get_uint64 = dict_get_with ni_dbus_variant_get_uint64"
definition ni_dbus_dict_get_string :: "ni_dbus_variant \<Rightarrow> cstring \<Rightarrow> cstring option option option" where
  "ni_dbus_dict_get_string = dict_get_with ni_dbus_variant_get_string"
definition ni_dbus_dict_get_object_path :: "ni_dbus_variant \<Rightarrow> cstring \<Rightarrow> cstring option option option" where
  "ni_dbus_dict_get_object_path = dict_get_with ni_dbus_variant_get_object_path"
definition ni_dbus_dict_get_double :: "ni_dbus_variant \<Rightarrow> cstring \<Rightarrow> u64 option option" where
  "ni_dbus_dict_get_double = dict_get_with ni_dbus_variant_get_double"

text \<open>The type of the datum is not looked at.\<close>

definition ni_dbus_dict_get_byte_array_buffer :: "ni_dbus_variant \<Rightarrow> cstring \<Rightarrow> ni_buffer option option" where
  "ni_dbus_dict_get_byte_array_buffer dict key = do {
     r \<leftarrow> ni_dbus_dict_get dict key;
     (case r of None \<Rightarrow> Some None
      | Some i \<Rightarrow> do {
          v \<leftarrow> dict_datum dict i;
          let res = ni_buffer_new (of_nat (v_len v));
          bs \<leftarrow> (if v_len v = 0 then Some [] else do { b \<leftarrow> byte_array_value v; mem_read b 0 (v_len v) });
          (_, res1) \<leftarrow> ni_buffer_put res (Some bs) (of_nat (v_len v));
          Some (Some res1) }) }"

text \<open>The slot an entry was moved out of.\<close>

definition alias_of :: "ni_dbus_variant \<Rightarrow> ni_dbus_variant" where
  "alias_of v = (case v_value v of
     Raw w \<Rightarrow> (if v_element_signature v = None then v else with_value (v_len v) (Alias (Raw w)) v)
   | Alias p \<Rightarrow> v
   | p \<Rightarrow> with_value (v_len v) (Alias p) v)"

definition ni_dbus_dict_delete_entry :: "ni_dbus_variant \<Rightarrow> cstring \<Rightarrow> (bool \<times> ni_dbus_variant) option" where
  "ni_dbus_dict_delete_entry dict key =
     (if \<not> is_entry_array dict then Some (False, dict)
      else do {
        b \<leftarrow> dict_array_value dict;
        es \<leftarrow> mem_read b 0 (v_len dict);
        (case find_key 0 es key of
           None \<Rightarrow> Some (False, dict)
         | Some i \<Rightarrow> do {
             e \<leftarrow> arr_get es i;
             d \<leftarrow> ni_dbus_variant_destroy (de_datum e);
             let n = v_len dict - 1;
             l \<leftarrow> arr_get (es[i := Entry (de_key e) d]) n;
             let left = (if i = n then l else Entry (de_key l) (alias_of (de_datum l)));
             Some (True, with_value n (DictArr (take i es @ drop (Suc i) es @ [left] @ drop (Suc n) b)) dict) }) })"

section \<open>Arrays of dicts\<close>

definition ni_dbus_dict_array_init :: "ni_dbus_variant \<Rightarrow> ni_dbus_variant option" where
  "ni_dbus_dict_array_init var = do {
     v \<leftarrow> ni_dbus_variant_destroy var;
     Some (with_elements (v_element_type v) (Some NI_DBUS_DICT_SIGNATURE) (with_type DBUS_TYPE_ARRAY v)) }"

definition ni_dbus_dict_array_add :: "ni_dbus_variant \<Rightarrow> (nat option \<times> ni_dbus_variant) option" where
  "ni_dbus_dict_array_add var =
     (if \<not> u_ni_dbus_is_array var NI_DBUS_DICT_SIGNATURE then Some (None, var)
      else do {
        (r, v) \<leftarrow> append_variant var;
        i \<leftarrow> r;
        v1 \<leftarrow> update_element v i ni_dbus_variant_init_dict;
        Some (Some i, v1) })"

definition ni_dbus_dict_array_at :: "ni_dbus_variant \<Rightarrow> nat \<Rightarrow> ni_dbus_variant option option" where
  "ni_dbus_dict_array_at var index =
     (if \<not> u_ni_dbus_is_array var NI_DBUS_DICT_SIGNATURE then Some None
      else if v_len var \<le> index then Some None
      else do { b \<leftarrow> variant_array_value var; e \<leftarrow> arr_get b index; Some (Some e) })"

section \<open>Elements as text, signatures\<close>

definition ni_dbus_type_size :: "char \<Rightarrow> nat" where
  "ni_dbus_type_size ty =
     (if ty \<in> {DBUS_TYPE_STRING, DBUS_TYPE_OBJECT_PATH, DBUS_TYPE_INT64, DBUS_TYPE_UINT64, DBUS_TYPE_DOUBLE} then 8
      else if ty \<in> {DBUS_TYPE_BYTE, DBUS_TYPE_BOOLEAN} then 1
      else if ty \<in> {DBUS_TYPE_INT16, DBUS_TYPE_UINT16} then 2
      else if ty \<in> {DBUS_TYPE_INT32, DBUS_TYPE_UINT32} then 4
      else 0)"

text \<open>The cells of the other scalar types are seen as bytes; no element of them is ever stored.\<close>

definition ni_dbus_variant_array_parse_and_append_string ::
    "ni_dbus_variant \<Rightarrow> cstring option \<Rightarrow> (bool \<times> ni_dbus_variant) option" where
  "ni_dbus_variant_array_parse_and_append_string var s =
     (if v_type var \<noteq> DBUS_TYPE_ARRAY \<or> v_element_type var = DBUS_TYPE_INVALID \<or> ni_dbus_type_size (v_element_type var) = 0
      then Some (False, var)
      else if v_element_type var = DBUS_TYPE_STRING \<or> v_element_type var = DBUS_TYPE_OBJECT_PATH then do {
        b \<leftarrow> string_array_value var;
        b1 \<leftarrow> u_ni_dbus_array_grow b (v_len var) 1 None;
        b2 \<leftarrow> arr_set b1 (v_len var) s;
        Some (True, with_value (v_len var + 1) (StrArr b2) var) }
      else if v_element_type var = DBUS_TYPE_BYTE then do {
        b \<leftarrow> byte_array_value var;
        b1 \<leftarrow> u_ni_dbus_array_grow b (v_len var) 1 0;
        text \<leftarrow> s;
        let (x, _, ep) = strtoul text 0;
        b2 \<leftarrow> arr_set b1 (v_len var) (ucast x);
        (if ep \<noteq> [] then Some (False, with_value (v_len var) (ByteArr b2) var)
         else Some (True, with_value (v_len var + 1) (ByteArr b2) var)) }
      else do {
        let sz = ni_dbus_type_size (v_element_type var);
        b \<leftarrow> byte_array_value var;
        (if NI_DBUS_ARRAY_ALLOCATION (v_len var) \<le> v_len var + 1 then do {
           keep \<leftarrow> mem_read b 0 (v_len var * sz);
           Some (False, with_value (v_len var)
              (ByteArr (keep @ replicate ((NI_DBUS_ARRAY_ALLOCATION (v_len var + 1) - v_len var) * sz) 0)) var) }
         else Some (False, var)) })"

definition ni_dbus_variant_array_print_element :: "ni_dbus_variant \<Rightarrow> nat \<Rightarrow> cstring option option" where
  "ni_dbus_variant_array_print_element var index =
     (if v_type var \<noteq> DBUS_TYPE_ARRAY \<or> v_element_type var = DBUS_TYPE_INVALID \<or> v_len var \<le> index then Some None
      else if v_element_type var = DBUS_TYPE_STRING \<or> v_element_type var = DBUS_TYPE_OBJECT_PATH then do {
        b \<leftarrow> string_array_value var; arr_get b index }
      else if v_element_type var = DBUS_TYPE_BYTE then do {
        b \<leftarrow> byte_array_value var; x \<leftarrow> arr_get b index; Some (Some (''0x'' @ print_02x (ucast x))) }
      else Some None)"

text \<open>A long element signature is cut to what the static buffer of 16 bytes holds.\<close>

definition array_signature :: "char \<Rightarrow> cstring option \<Rightarrow> cstring option" where
  "array_signature et es =
     (case es of
        Some sg \<Rightarrow> Some (take 15 (DBUS_TYPE_ARRAY # sg))
      | None \<Rightarrow>
          (if et = DBUS_TYPE_BYTE then Some ''ay'' else if et = DBUS_TYPE_STRING then Some ''as''
           else if et = DBUS_TYPE_VARIANT then Some ''av'' else if et = DBUS_TYPE_DICT_ENTRY then Some ''a{sv}''
           else None))"

definition struct_signature :: "cstring option list \<Rightarrow> cstring option" where
  "struct_signature sigs =
     (if list_all (\<lambda>s. s \<noteq> None) sigs then Some (CHR ''('' # concat (map the sigs) @ '')'') else None)"

datatype sig_shape = SigMembers "cstring option list" | SigOther

text \<open>NULL for a struct a member of which has no signature.  The result of a nested struct is in the same
  static string as that of the outer one, which is written last.\<close>

primrec ni_dbus_variant_signature :: "ni_dbus_variant \<Rightarrow> cstring option" and union_sigs :: "v_union \<Rightarrow> sig_shape" and entry_sig :: "dict_entry \<Rightarrow> unit" where
  "ni_dbus_variant_signature (Variant ty et es n p) =
     (case ni_dbus_type_as_string ty of
        Some sg \<Rightarrow> Some sg
      | None \<Rightarrow>
          (if ty = DBUS_TYPE_ARRAY then array_signature et es
           else if ty = DBUS_TYPE_STRUCT then
             (case union_sigs p of SigMembers ss \<Rightarrow> struct_signature (take n ss) | SigOther \<Rightarrow> struct_signature [])
           else None))"
| "union_sigs (Raw w) = SigOther"
| "union_sigs (Str s) = SigOther"
| "union_sigs (ByteArr b) = SigOther"
| "union_sigs (StrArr ss) = SigOther"
| "union_sigs (VarArr vs) = SigMembers (map ni_dbus_variant_signature vs)"
| "union_sigs (DictArr ds) = SigOther"
| "union_sigs (Alias p) = union_sigs p"
| "entry_sig (Entry k x) = ()"

section \<open>Growth keeps what is stored\<close>

lemma allocation_ge: "len \<le> NI_DBUS_ARRAY_ALLOCATION len"
  by (simp add: NI_DBUS_ARRAY_ALLOCATION_def)

lemma allocation_room: "len + k < NI_DBUS_ARRAY_ALLOCATION len \<Longrightarrow> NI_DBUS_ARRAY_ALLOCATION (len + k) \<le> NI_DBUS_ARRAY_ALLOCATION len"
proof -
  let ?q = "(len + 31) div 32"
  assume "len + k < NI_DBUS_ARRAY_ALLOCATION len"
  then have "(len + k + 31) div 32 \<le> (?q * 32 + 30) div 32"
    by (intro div_le_mono) (simp add: NI_DBUS_ARRAY_ALLOCATION_def)
  also have "\<dots> = ?q" by simp
  finally show ?thesis by (simp add: NI_DBUS_ARRAY_ALLOCATION_def)
qed

definition fits :: "'a list \<Rightarrow> nat \<Rightarrow> bool" where
  "fits data len \<longleftrightarrow> NI_DBUS_ARRAY_ALLOCATION len \<le> length data"

lemma fits_le: "fits data len \<Longrightarrow> len \<le> length data"
  using allocation_ge [of len] by (simp add: fits_def)

lemma fits_Nil [simp]: "fits [] 0"
  by (simp add: fits_def NI_DBUS_ARRAY_ALLOCATION_def)

lemma array_grow_ok:
  assumes f: "fits data len" and z: "\<forall>i. len \<le> i \<and> i < length data \<longrightarrow> P (data ! i)" "P zero"
  shows "\<exists>d. u_ni_dbus_array_grow data len k zero = Some d \<and> take len d = take len data \<and> fits d (len + k)
     \<and> (\<forall>i. len \<le> i \<and> i < length d \<longrightarrow> P (d ! i))"
proof (cases "NI_DBUS_ARRAY_ALLOCATION len \<le> len + k")
  case True
  let ?n = "NI_DBUS_ARRAY_ALLOCATION (len + k) - len"
  have le: "len \<le> length data" by (rule fits_le [OF f])
  have "u_ni_dbus_array_grow data len k zero = Some (take len data @ replicate ?n zero)"
    using True le by (simp add: u_ni_dbus_array_grow_def mem_read_in)
  moreover have "fits (take len data @ replicate ?n zero) (len + k)"
    using le allocation_ge [of "len + k"] by (simp add: fits_def)
  ultimately show ?thesis using le z(2) by (auto simp: nth_append)
next
  case False
  then show ?thesis using f z(1) allocation_room [of len k] by (auto simp: u_ni_dbus_array_grow_def fits_def)
qed

section \<open>Dicts are association lists\<close>

definition dict_entries :: "ni_dbus_variant \<Rightarrow> dict_entry list" where
  "dict_entries d = take (v_len d) (case v_value d of DictArr b \<Rightarrow> b | _ \<Rightarrow> [])"

text \<open>A dict no entry was deleted from: behind the entries there are only fresh slots.\<close>

definition dict_wf :: "ni_dbus_variant \<Rightarrow> bool" where
  "dict_wf d \<longleftrightarrow> is_entry_array d \<and> (\<exists>b. dict_array_value d = Some b \<and> fits b (v_len d)
     \<and> (\<forall>i. v_len d \<le> i \<and> i < length b \<longrightarrow> de_datum (b ! i) = ni_dbus_variant_init))"

lemma dict_block: "dict_array_value d = Some b \<Longrightarrow> take (v_len d) b = dict_entries d"
  by (auto simp: dict_array_value_def dict_entries_def split: v_union.splits if_splits)

lemma is_entry_array_dict: "is_entry_array d \<Longrightarrow> ni_dbus_variant_is_dict d"
  by (simp add: is_entry_array_def ni_dbus_variant_is_dict_def u_ni_dbus_is_array_def)

lemma dict_add_ok:
  assumes wf: "dict_wf d"
  shows "\<exists>d1. ni_dbus_dict_add d key = Some (Some (v_len d), d1) \<and> is_entry_array d1 \<and> v_len d1 = v_len d + 1
     \<and> (\<exists>b. dict_array_value d1 = Some b \<and> fits b (v_len d1) \<and> take (v_len d) b = dict_entries d
          \<and> b ! v_len d = Entry key ni_dbus_variant_init
          \<and> (\<forall>i. v_len d1 \<le> i \<and> i < length b \<longrightarrow> de_datum (b ! i) = ni_dbus_variant_init))"
proof -
  obtain b where b: "dict_array_value d = Some b" "fits b (v_len d)"
      "\<forall>i. v_len d \<le> i \<and> i < length b \<longrightarrow> de_datum (b ! i) = ni_dbus_variant_init"
    using wf by (auto simp: dict_wf_def)
  obtain b1 where b1: "u_ni_dbus_array_grow b (v_len d) 1 zero_entry = Some b1" "take (v_len d) b1 = take (v_len d) b"
      "fits b1 (v_len d + 1)" "\<forall>i. v_len d \<le> i \<and> i < length b1 \<longrightarrow> de_datum (b1 ! i) = ni_dbus_variant_init"
    using array_grow_ok [OF b(2,3), of zero_entry 1] by (auto simp: zero_entry_def)
  have lt: "v_len d < length b1" using fits_le [OF b1(3)] by simp
  let ?b2 = "b1[v_len d := Entry key ni_dbus_variant_init]"
  let ?d1 = "with_value (v_len d + 1) (DictArr ?b2) d"
  have "ni_dbus_dict_add d key = Some (Some (v_len d), ?d1)"
    using wf b(1) b1(1,4) lt by (simp add: ni_dbus_dict_add_def dict_wf_def arr_get_in arr_set_in)
  moreover have "dict_array_value ?d1 = Some ?b2" by (simp add: dict_array_value_def)
  moreover have "fits ?b2 (v_len d + 1)" using b1(3) by (simp add: fits_def)
  moreover have "take (v_len d) ?b2 = dict_entries d" using b1(2) dict_block [OF b(1)] by simp
  moreover have "\<forall>i. v_len d + 1 \<le> i \<and> i < length ?b2 \<longrightarrow> de_datum (?b2 ! i) = ni_dbus_variant_init"
    using b1(4) by (auto simp: nth_list_update)
  ultimately show ?thesis using wf lt by (auto simp: dict_wf_def is_entry_array_def)
qed

lemma update_datum_last:
  assumes d1: "is_entry_array d1" "v_len d1 = n + 1" "dict_array_value d1 = Some b" "fits b (v_len d1)" "b ! n = Entry key v0"
    and rest: "\<forall>i. v_len d1 \<le> i \<and> i < length b \<longrightarrow> de_datum (b ! i) = ni_dbus_variant_init" and f: "f v0 = Some v"
  shows "\<exists>d2. update_datum d1 n f = Some d2 \<and> dict_wf d2 \<and> dict_entries d2 = take n b @ [Entry key v]"
proof -
  have lt: "n < length b" using fits_le [OF d1(4)] d1(2) by simp
  let ?b = "b[n := Entry key v]"
  let ?d2 = "with_value (v_len d1) (DictArr ?b) d1"
  have "update_datum d1 n f = Some ?d2" using d1(3,5) lt f by (simp add: update_datum_def arr_get_in arr_set_in)
  moreover have "dict_wf ?d2" using d1 rest by (auto simp: dict_wf_def is_entry_array_def dict_array_value_def fits_def nth_list_update)
  moreover have "dict_entries ?d2 = take n b @ [Entry key v]" using d1(2) lt by (simp add: dict_entries_def take_Suc_conv_app_nth)
  ultimately show ?thesis by blast
qed

lemma dict_add_with_ok:
  assumes wf: "dict_wf d" and s: "set_val ni_dbus_variant_init x = Some v"
  shows "\<exists>d2. dict_add_with set_val d key x = Some (True, d2) \<and> dict_wf d2 \<and> dict_entries d2 = dict_entries d @ [Entry (Some key) v]"
proof -
  obtain d1 b where d1: "ni_dbus_dict_add d (Some key) = Some (Some (v_len d), d1)" "is_entry_array d1" "v_len d1 = v_len d + 1"
      "dict_array_value d1 = Some b" "fits b (v_len d1)" "take (v_len d) b = dict_entries d"
      "b ! v_len d = Entry (Some key) ni_dbus_variant_init"
      "\<forall>i. v_len d1 \<le> i \<and> i < length b \<longrightarrow> de_datum (b ! i) = ni_dbus_variant_init"
    using dict_add_ok [OF wf, of "Some key"] by blast
  obtain d2 where "update_datum d1 (v_len d) (\<lambda>v. set_val v x) = Some d2" "dict_wf d2"
      "dict_entries d2 = take (v_len d) b @ [Entry (Some key) v]"
    using update_datum_last [OF d1(2,3,4,5,7,8), of "\<lambda>v. set_val v x"] s by blast
  then show ?thesis using d1(1,6) by (simp add: dict_add_with_def)
qed

text \<open>The first entry with a key counts.\<close>

definition dict_map :: "dict_entry list \<Rightarrow> cstring \<rightharpoonup> ni_dbus_variant" where
  "dict_map es key = map_option de_datum (find (\<lambda>e. de_key e = Some key) es)"

lemma find_key_find:
  "find_key i es key = Some j \<Longrightarrow> i \<le> j \<and> j - i < length es \<and> find (\<lambda>e. de_key e = Some key) es = Some (es ! (j - i))"
  "find_key i es key = None \<Longrightarrow> find (\<lambda>e. de_key e = Some key) es = None"
proof (induction es arbitrary: i)
  case (Cons e es)
  { case 1
    show ?case
    proof (cases "de_key e = Some key")
      case False
      then have "find_key (Suc i) es key = Some j" using 1 by simp
      from Cons.IH(1) [OF this] show ?thesis using False by (auto simp: nth_Cons' Suc_diff_le le_Suc_eq)
    qed (use 1 in simp) }
  { case 2
    then show ?case using Cons.IH(2) [of "Suc i"] by (simp split: if_splits) }
qed simp_all

lemma dict_get_with_ok:
  assumes wf: "dict_wf d"
  shows "dict_get_with get_val d key = (case dict_map (dict_entries d) key of None \<Rightarrow> Some None | Some v \<Rightarrow> get_val v)"
proof -
  obtain b where b: "dict_array_value d = Some b" "fits b (v_len d)" using wf by (auto simp: dict_wf_def)
  have le: "v_len d \<le> length b" by (rule fits_le [OF b(2)])
  have g: "ni_dbus_dict_get d key = Some (find_key 0 (dict_entries d) key)"
    using wf is_entry_array_dict [of d] b(1) le dict_block [OF b(1)] by (simp add: ni_dbus_dict_get_def dict_wf_def mem_read_in)
  show ?thesis
  proof (cases "find_key 0 (dict_entries d) key")
    case None
    then show ?thesis using g find_key_find(2) [OF None] by (simp add: dict_get_with_def dict_map_def)
  next
    case (Some j)
    have j: "j < length (dict_entries d)" "find (\<lambda>e. de_key e = Some key) (dict_entries d) = Some (dict_entries d ! j)"
      using find_key_find(1) [OF Some] by simp_all
    have "j < length b" "b ! j = dict_entries d ! j" using j(1) unfolding dict_block [OF b(1), symmetric] by auto
    then have "dict_datum d j = Some (de_datum (dict_entries d ! j))" using b(1) by (simp add: dict_datum_def arr_get_in)
    then show ?thesis using g Some j(2) by (simp add: dict_get_with_def dict_map_def)
  qed
qed

lemma init_dict_ok:
  "can_free v \<Longrightarrow> \<exists>d. ni_dbus_variant_init_dict v = Some d \<and> dict_wf d \<and> dict_entries d = []"
  by (auto simp: ni_dbus_variant_init_dict_def ni_dbus_variant_destroy_def ni_dbus_variant_init_def u_ni_dbus_init_array_def
      with_type_def with_elements_def dict_wf_def is_entry_array_def dict_array_value_def dict_entries_def)

context variant_member
begin

text \<open>A value added under a new key is found there, whatever the member's type.\<close>

lemma add_get:
  assumes "dict_wf d" "dict_map (dict_entries d) key = None"
  shows "\<exists>d2. dict_add_with set_val d key x = Some (True, d2) \<and> dict_wf d2 \<and> dict_get_with get_val d2 key = Some (Some x)
     \<and> (\<forall>k. k \<noteq> key \<longrightarrow> dict_map (dict_entries d2) k = dict_map (dict_entries d) k)"
proof -
  obtain v where v: "set_val ni_dbus_variant_init x = Some v" "get_val v = Some (Some x)" using set_get by blast
  obtain d2 where d2: "dict_add_with set_val d key x = Some (True, d2)" "dict_wf d2" "dict_entries d2 = dict_entries d @ [Entry (Some key) v]"
    using dict_add_with_ok [OF assms(1), of set_val x v key] v(1) by blast
  have f: "find P (xs @ ys) = (case find P xs of Some y \<Rightarrow> Some y | None \<Rightarrow> find P ys)" for P :: "dict_entry \<Rightarrow> bool" and xs ys
    by (induction xs) auto
  have "dict_map (dict_entries d2) key = Some v" using assms(2) by (auto simp: d2(3) dict_map_def f split: option.splits)
  moreover have "dict_map (dict_entries d2) k = dict_map (dict_entries d) k" if "k \<noteq> key" for k
    using that by (auto simp: d2(3) dict_map_def f split: option.splits)
  ultimately show ?thesis using d2(1,2) v(2) by (auto simp: dict_get_with_ok [OF d2(2)])
qed

end

section \<open>Properties of dicts\<close>

datatype dict_item = IString "cstring option" | IPath "cstring option" | IBool u32 | IUInt16 "16 word" | IInt16 "16 word"
  | IUInt32 u32 | IInt32 u32 | IUInt64 u64 | IInt64 u64 | IDouble u64

fun add_item :: "ni_dbus_variant \<Rightarrow> cstring \<Rightarrow> dict_item \<Rightarrow> (bool \<times> ni_dbus_variant) option" where
  "add_item d k (IString s) = ni_dbus_dict_add_string d k s"
| "add_item d k (IPath s) = ni_dbus_dict_add_object_path d k s"
| "add_item d k (IBool b) = ni_dbus_dict_add_bool d k b"
| "add_item d k (IUInt16 n) = ni_dbus_dict_add_uint16 d k n"
| "add_item d k (IInt16 n) = ni_dbus_dict_add_int16 d k n"
| "add_item d k (IUInt32 n) = ni_dbus_dict_add_uint32 d k n"
| "add_item d k (IInt32 n) = ni_dbus_dict_add_int32 d k n"
| "add_item d k (IUInt64 n) = ni_dbus_dict_add_uint64 d k n"
| "add_item d k (IInt64 n) = ni_dbus_dict_add_int64 d k n"
| "add_item d k (IDouble n) = ni_dbus_dict_add_double d k n"

fun add_items :: "ni_dbus_variant \<Rightarrow> (cstring \<times> dict_item) list \<Rightarrow> ni_dbus_variant option" where
  "add_items d [] = Some d"
| "add_items d ((k, it) # kvs) = do { (ok, d1) \<leftarrow> add_item d k it; ni_assert ok; add_items d1 kvs }"

text \<open>The datum an item leaves.\<close>

fun item_variant :: "dict_item \<Rightarrow> ni_dbus_variant" where
  "item_variant (IString s) = Variant DBUS_TYPE_STRING DBUS_TYPE_INVALID None 0 (case s of None \<Rightarrow> Raw 0 | Some x \<Rightarrow> Str x)"
| "item_variant (IPath s) = Variant DBUS_TYPE_OBJECT_PATH DBUS_TYPE_INVALID None 0 (case s of None \<Rightarrow> Raw 0 | Some x \<Rightarrow> Str x)"
| "item_variant (IBool b) = Variant DBUS_TYPE_BOOLEAN DBUS_TYPE_INVALID None 0 (Raw (ucast b AND mask 32))"
| "item_variant (IUInt16 n) = Variant DBUS_TYPE_UINT16 DBUS_TYPE_INVALID None 0 (Raw (ucast n AND mask 16))"
| "item_variant (IInt16 n) = Variant DBUS_TYPE_INT16 DBUS_TYPE_INVALID None 0 (Raw (ucast n AND mask 16))"
| "item_variant (IUInt32 n) = Variant DBUS_TYPE_UINT32 DBUS_TYPE_INVALID None 0 (Raw (ucast n AND mask 32))"
| "item_variant (IInt32 n) = Variant DBUS_TYPE_INT32 DBUS_TYPE_INVALID None 0 (Raw (ucast n AND mask 32))"
| "item_variant (IUInt64 n) = Variant DBUS_TYPE_UINT64 DBUS_TYPE_INVALID None 0 (Raw (n AND mask 64))"
| "item_variant (IInt64 n) = Variant DBUS_TYPE_INT64 DBUS_TYPE_INVALID None 0 (Raw (n AND mask 64))"
| "item_variant (IDouble n) = Variant DBUS_TYPE_DOUBLE DBUS_TYPE_INVALID None 0 (Raw (n AND mask 64))"

lemmas dict_add_defs =
  ni_dbus_dict_add_string_def ni_dbus_dict_add_object_path_def ni_dbus_dict_add_bool_def ni_dbus_dict_add_uint16_def
  ni_dbus_dict_add_int16_def ni_dbus_dict_add_uint32_def ni_dbus_dict_add_int32_def ni_dbus_dict_add_uint64_def
  ni_dbus_dict_add_int64_def ni_dbus_dict_add_double_def

lemma fresh_variant:
  "with_value 0 p (with_type ty ni_dbus_variant_init) = Variant ty DBUS_TYPE_INVALID None 0 p"
  by (simp add: ni_dbus_variant_init_def with_type_def with_value_def)

lemma add_item_ok:
  assumes "dict_wf d"
  shows "\<exists>d2. add_item d k it = Some (True, d2) \<and> dict_wf d2 \<and> dict_entries d2 = dict_entries d @ [Entry (Some k) (item_variant it)]"
  by (cases it)
     (simp only: add_item.simps dict_add_defs,
      rule dict_add_with_ok [OF assms], simp add: member_defs dup_string_fresh fresh_variant)+

lemma item_variant_can_free: "can_free (item_variant it)"
  by (cases it) (auto simp: frees_string_def split: option.split)

lemma add_items_ok:
  "dict_wf d \<Longrightarrow> \<exists>d2. add_items d kvs = Some d2 \<and> dict_wf d2
     \<and> dict_entries d2 = dict_entries d @ map (\<lambda>(k, it). Entry (Some k) (item_variant it)) kvs"
proof (induction kvs arbitrary: d)
  case (Cons kv kvs)
  obtain k it where kv: "kv = (k, it)" by fastforce
  obtain d1 where d1: "add_item d k it = Some (True, d1)" "dict_wf d1" "dict_entries d1 = dict_entries d @ [Entry (Some k) (item_variant it)]"
    using add_item_ok [OF Cons.prems] by blast
  then show ?case using Cons.IH [OF d1(2)] kv by auto
qed simp

lemma dict_map_items:
  "dict_map (map (\<lambda>(k, it). Entry (Some k) (item_variant it)) kvs) key = map_option item_variant (map_of kvs key)"
  by (induction kvs) (auto simp: dict_map_def)

lemma dict_wf_can_free:
  assumes "dict_wf d" "list_all (\<lambda>e. can_free (de_datum e)) (dict_entries d)"
  shows "can_free d"
proof -
  obtain b where b: "dict_array_value d = Some b" "fits b (v_len d)" using assms(1) by (auto simp: dict_wf_def)
  have le: "v_len d \<le> length b" by (rule fits_le [OF b(2)])
  have ce: "can_free_entry e = can_free (de_datum e)" for e by (cases e) simp
  obtain ty et es n p where d: "d = Variant ty et es n p" by (cases d)
  have "ty = DBUS_TYPE_ARRAY" "et = DBUS_TYPE_DICT_ENTRY" using assms(1) d by (simp_all add: dict_wf_def is_entry_array_def)
  moreover have "(p = DictArr b) \<or> (p = Raw 0 \<and> b = [])"
    using b(1) d by (auto simp: dict_array_value_def split: v_union.splits if_splits)
  moreover have "take n (map can_free_entry b) = map can_free_entry (dict_entries d)"
    using dict_block [OF b(1)] d by (simp add: take_map)
  then have "list_all id (take n (map can_free_entry b))"
    using assms(2) by (simp add: list_all_iff ce)
  ultimately show ?thesis using d le by (auto simp: frees_elements_def)
qed

subsection \<open>Dicts as the code builds and reads them\<close>

definition has_entries :: "ni_dbus_variant \<Rightarrow> dict_entry list \<Rightarrow> bool" where
  "has_entries d es \<longleftrightarrow> dict_wf d \<and> dict_entries d = es"

lemma has_entries_new: "can_free v \<Longrightarrow> \<exists>d. ni_dbus_variant_init_dict v = Some d \<and> has_entries d []"
  using init_dict_ok by (auto simp: has_entries_def)

lemma has_entries_add:
  "has_entries d es \<Longrightarrow> set_val ni_dbus_variant_init x = Some v \<Longrightarrow>
     \<exists>d2. dict_add_with set_val d key x = Some (True, d2) \<and> has_entries d2 (es @ [Entry (Some key) v])"
  using dict_add_with_ok by (metis has_entries_def)

lemma has_entries_add_item:
  "has_entries d es \<Longrightarrow> \<exists>d2. add_item d k it = Some (True, d2) \<and> has_entries d2 (es @ [Entry (Some k) (item_variant it)])"
  using add_item_ok by (metis has_entries_def)

lemma has_entries_add_items:
  "has_entries d es \<Longrightarrow> \<exists>d2. add_items d kvs = Some d2
     \<and> has_entries d2 (es @ map (\<lambda>(k, it). Entry (Some k) (item_variant it)) kvs)"
  using add_items_ok by (metis has_entries_def)

text \<open>Taking the additions one by one.\<close>

lemma add_items_step:
  "add_items d ((k, it) # kvs) = Some d2 \<Longrightarrow> \<exists>d1. add_item d k it = Some (True, d1) \<and> add_items d1 kvs = Some d2"
  by (auto simp: bind_eq_Some_conv ni_assert_def split: if_splits)

lemma has_entries_get:
  "has_entries d es \<Longrightarrow> dict_get_with get_val d k = (case dict_map es k of None \<Rightarrow> Some None | Some v \<Rightarrow> get_val v)"
  using dict_get_with_ok by (metis has_entries_def)

lemma dict_map_Cons: "dict_map (Entry k v # es) key = (if k = Some key then Some v else dict_map es key)"
  by (simp add: dict_map_def)

lemma dict_map_Nil: "dict_map [] key = None"
  by (simp add: dict_map_def)

text \<open>The getter of the type an item was added with.\<close>

lemma item_get:
  "ni_dbus_variant_get_string (item_variant (IString s)) = Some (Some s)"
  "ni_dbus_variant_get_object_path (item_variant (IPath s)) = Some (Some s)"
  "ni_dbus_variant_get_bool (item_variant (IBool b)) = Some (Some b)"
  "ni_dbus_variant_get_uint32 (item_variant (IUInt32 n)) = Some (Some n)"
  "ni_dbus_variant_get_uint64 (item_variant (IUInt64 m)) = Some (Some m)"
  by (simp_all add: member_defs string_value_def cast_back cast_back_16_32 split: option.split)

lemmas dict_get_defs =
  ni_dbus_dict_get_string_def ni_dbus_dict_get_object_path_def ni_dbus_dict_get_bool_def ni_dbus_dict_get_uint16_def
  ni_dbus_dict_get_uint32_def ni_dbus_dict_get_uint64_def ni_dbus_dict_get_double_def

lemmas dict_read = has_entries_get dict_map_Cons dict_map_Nil item_get dict_get_defs

subsection \<open>Arrays of dicts\<close>

definition has_dicts :: "ni_dbus_variant \<Rightarrow> ni_dbus_variant list \<Rightarrow> bool" where
  "has_dicts v ds \<longleftrightarrow> v_type v = DBUS_TYPE_ARRAY \<and> v_element_type v = DBUS_TYPE_INVALID
     \<and> v_element_signature v = Some NI_DBUS_DICT_SIGNATURE \<and> v_len v = length ds
     \<and> (\<exists>b. variant_array_value v = Some b \<and> fits b (length ds) \<and> take (length ds) b = ds
          \<and> (\<forall>i. length ds \<le> i \<and> i < length b \<longrightarrow> b ! i = ni_dbus_variant_init))"

lemma has_dicts_is_array: "has_dicts v ds \<Longrightarrow> u_ni_dbus_is_array v NI_DBUS_DICT_SIGNATURE"
  by (simp add: has_dicts_def u_ni_dbus_is_array_def)

lemma has_dicts_init: "\<exists>v. ni_dbus_dict_array_init ni_dbus_variant_init = Some v \<and> has_dicts v []"
  by (simp add: ni_dbus_dict_array_init_def ni_dbus_variant_destroy_def ni_dbus_variant_init_def has_dicts_def variant_array_value_def
      with_type_def with_elements_def)

lemma has_dicts_at: "has_dicts v ds \<Longrightarrow> ni_dbus_dict_array_at v i = Some (if i < length ds then Some (ds ! i) else None)"
proof -
  assume h: "has_dicts v ds"
  then obtain b where b: "variant_array_value v = Some b" "fits b (length ds)" "take (length ds) b = ds"
    by (auto simp: has_dicts_def)
  have "length ds \<le> length b" by (rule fits_le [OF b(2)])
  moreover have "i < length ds \<Longrightarrow> b ! i = ds ! i" by (metis b(3) nth_take)
  ultimately show ?thesis
    using h has_dicts_is_array [OF h] b(1) by (auto simp: ni_dbus_dict_array_at_def has_dicts_def arr_get_in)
qed

lemma has_dicts_update:
  assumes "has_dicts v (ds @ [e])"
  shows "\<exists>w. update_element v (length ds) (\<lambda>_. Some x) = Some w \<and> has_dicts w (ds @ [x])"
proof -
  obtain b where b: "variant_array_value v = Some b" "fits b (Suc (length ds))" "take (Suc (length ds)) b = ds @ [e]"
      "\<forall>i. Suc (length ds) \<le> i \<and> i < length b \<longrightarrow> b ! i = ni_dbus_variant_init"
    using assms by (auto simp: has_dicts_def)
  have lt: "length ds < length b" using fits_le [OF b(2)] by simp
  let ?w = "with_value (v_len v) (VarArr (b[length ds := x])) v"
  have "take (Suc (length ds)) (b[length ds := x]) = ds @ [x]"
    using arg_cong [OF b(3), of butlast] lt by (simp add: take_Suc_conv_app_nth)
  then have "has_dicts ?w (ds @ [x])"
    using assms b lt by (auto simp: has_dicts_def variant_array_value_def fits_def nth_list_update)
  moreover have "update_element v (length ds) (\<lambda>_. Some x) = Some ?w"
    using b(1) lt by (simp add: update_element_def arr_get_in arr_set_in)
  ultimately show ?thesis by blast
qed

lemma has_dicts_element: "has_dicts v (ds @ [e]) \<Longrightarrow> \<exists>b. variant_array_value v = Some b \<and> arr_get b (length ds) = Some e"
  using has_dicts_at [of v "ds @ [e]" "length ds"] has_dicts_is_array [of v "ds @ [e]"]
  by (auto simp: ni_dbus_dict_array_at_def has_dicts_def bind_eq_Some_conv)

lemma has_dicts_add:
  assumes h: "has_dicts v ds"
  shows "\<exists>w e. ni_dbus_dict_array_add v = Some (Some (length ds), w) \<and> has_dicts w (ds @ [e]) \<and> has_entries e [] \<and> can_free e"
proof -
  obtain b where b: "variant_array_value v = Some b" "fits b (length ds)" "take (length ds) b = ds"
      "\<forall>i. length ds \<le> i \<and> i < length b \<longrightarrow> b ! i = ni_dbus_variant_init"
    using h by (auto simp: has_dicts_def)
  have n: "v_len v = length ds" using h by (simp add: has_dicts_def)
  obtain b1 where b1: "u_ni_dbus_array_grow b (length ds) 1 ni_dbus_variant_init = Some b1" "take (length ds) b1 = ds"
      "fits b1 (length ds + 1)" "\<forall>i. length ds \<le> i \<and> i < length b1 \<longrightarrow> b1 ! i = ni_dbus_variant_init"
    using array_grow_ok [OF b(2,4), of ni_dbus_variant_init 1] b(3) by auto
  have lt: "length ds < length b1" using fits_le [OF b1(3)] by simp
  let ?v1 = "with_value (length ds + 1) (VarArr b1) v"
  have a: "append_variant v = Some (Some (length ds), ?v1)" using b(1) b1(1) lt n by (simp add: append_variant_def)
  have "has_dicts ?v1 (ds @ [ni_dbus_variant_init])"
    using h b1 lt by (auto simp: has_dicts_def variant_array_value_def take_Suc_conv_app_nth)
  moreover obtain e where e: "ni_dbus_variant_init_dict ni_dbus_variant_init = Some e" "has_entries e []"
    using has_entries_new [of ni_dbus_variant_init] by (auto simp: ni_dbus_variant_init_def)
  ultimately obtain w where w: "update_element ?v1 (length ds) (\<lambda>_. Some e) = Some w" "has_dicts w (ds @ [e])"
    using has_dicts_update [of ?v1 ds ni_dbus_variant_init e] by blast
  have "variant_array_value ?v1 = Some b1" by (simp add: variant_array_value_def)
  then have "update_element ?v1 (length ds) ni_dbus_variant_init_dict = Some w"
    using w(1) e(1) b1(4) lt by (simp add: update_element_def arr_get_in)
  then have "ni_dbus_dict_array_add v = Some (Some (length ds), w)"
    using has_dicts_is_array [OF h] a by (simp add: ni_dbus_dict_array_add_def)
  moreover have "can_free e" using dict_wf_can_free [of e] e(2) by (simp add: has_entries_def)
  ultimately show ?thesis using w(2) e(2) by blast
qed

text \<open>C18: A dict is an association list.  After any sequence of typed additions to a new dict, a typed lookup
  gives the value that was added first under the key when it was added with that type, and fails otherwise;
  no addition leaves the block, and the dict can be destroyed.\<close>

theorem ni_dbus_dict_first_added:
  "\<exists>d0 d. ni_dbus_variant_init_dict ni_dbus_variant_init = Some d0 \<and> add_items d0 kvs = Some d
     \<and> ni_dbus_dict_get_string d k = Some (case map_of kvs k of Some (IString s) \<Rightarrow> Some s | _ \<Rightarrow> None)
     \<and> ni_dbus_dict_get_object_path d k = Some (case map_of kvs k of Some (IPath s) \<Rightarrow> Some s | _ \<Rightarrow> None)
     \<and> ni_dbus_dict_get_bool d k = Some (case map_of kvs k of Some (IBool b) \<Rightarrow> Some b | _ \<Rightarrow> None)
     \<and> ni_dbus_dict_get_uint16 d k = Some (case map_of kvs k of Some (IUInt16 n) \<Rightarrow> Some n | _ \<Rightarrow> None)
     \<and> ni_dbus_dict_get_uint32 d k = Some (case map_of kvs k of Some (IUInt32 n) \<Rightarrow> Some n | _ \<Rightarrow> None)
     \<and> ni_dbus_dict_get_uint64 d k = Some (case map_of kvs k of Some (IUInt64 n) \<Rightarrow> Some n | _ \<Rightarrow> None)
     \<and> ni_dbus_dict_get_double d k = Some (case map_of kvs k of Some (IDouble n) \<Rightarrow> Some n | _ \<Rightarrow> None)
     \<and> ni_dbus_variant_destroy d = Some ni_dbus_variant_init"
proof -
  obtain d0 where d0: "ni_dbus_variant_init_dict ni_dbus_variant_init = Some d0" "dict_wf d0" "dict_entries d0 = []"
    using init_dict_ok [of ni_dbus_variant_init] by (auto simp: ni_dbus_variant_init_def)
  obtain d where d: "add_items d0 kvs = Some d" "dict_wf d" "dict_entries d = map (\<lambda>(k, it). Entry (Some k) (item_variant it)) kvs"
    using add_items_ok [OF d0(2), of kvs] d0(3) by auto
  have g: "dict_get_with get_val d k = (case map_of kvs k of None \<Rightarrow> Some None | Some it \<Rightarrow> get_val (item_variant it))"
    for get_val :: "ni_dbus_variant \<Rightarrow> 'a option option"
    unfolding dict_get_with_ok [OF d(2)] d(3) dict_map_items by (simp split: option.split)
  have "list_all (\<lambda>e. can_free (de_datum e)) (dict_entries d)"
    unfolding d(3) by (auto simp: list_all_iff item_variant_can_free)
  then have "ni_dbus_variant_destroy d = Some ni_dbus_variant_init"
    using dict_wf_can_free [OF d(2)] by (simp add: ni_dbus_variant_destroy_def)
  moreover have "ni_dbus_dict_get_string d k = Some (case map_of kvs k of Some (IString s) \<Rightarrow> Some s | _ \<Rightarrow> None)"
      "ni_dbus_dict_get_object_path d k = Some (case map_of kvs k of Some (IPath s) \<Rightarrow> Some s | _ \<Rightarrow> None)"
    by (auto simp: ni_dbus_dict_get_string_def ni_dbus_dict_get_object_path_def g member_defs string_value_def split: option.split dict_item.split)
  moreover have "ni_dbus_dict_get_bool d k = Some (case map_of kvs k of Some (IBool b) \<Rightarrow> Some b | _ \<Rightarrow> None)"
      "ni_dbus_dict_get_uint16 d k = Some (case map_of kvs k of Some (IUInt16 n) \<Rightarrow> Some n | _ \<Rightarrow> None)"
      "ni_dbus_dict_get_uint32 d k = Some (case map_of kvs k of Some (IUInt32 n) \<Rightarrow> Some n | _ \<Rightarrow> None)"
      "ni_dbus_dict_get_uint64 d k = Some (case map_of kvs k of Some (IUInt64 n) \<Rightarrow> Some n | _ \<Rightarrow> None)"
      "ni_dbus_dict_get_double d k = Some (case map_of kvs k of Some (IDouble n) \<Rightarrow> Some n | _ \<Rightarrow> None)"
    by (auto simp: ni_dbus_dict_get_bool_def ni_dbus_dict_get_uint16_def ni_dbus_dict_get_uint32_def ni_dbus_dict_get_uint64_def
        ni_dbus_dict_get_double_def g member_defs cast_back cast_back_16_32 split: option.split dict_item.split)
  ultimately show ?thesis using d0(1) d(1) by blast
qed

text \<open>Deleting an entry and adding another corrupts the dict.  When an entry other than the last one is
  deleted, the next addition of a string reuses the slot the last entry was moved out of and frees the string
  that the moved entry still owns (unless the block is being replaced).\<close>

theorem ni_dbus_dict_delete_then_add:
  assumes wf: "dict_wf d" and free: "list_all (\<lambda>e. can_free (de_datum e)) (dict_entries d)"
    and key: "find_key 0 (dict_entries d) key = Some i" "Suc i < v_len d"
    and lst: "de_datum (last (dict_entries d)) = Variant DBUS_TYPE_STRING DBUS_TYPE_INVALID None 0 (Str s)"
    and room: "v_len d < NI_DBUS_ARRAY_ALLOCATION (v_len d - 1)"
  shows "\<exists>d1. ni_dbus_dict_delete_entry d key = Some (True, d1)
     \<and> dict_entries d1 = take i (dict_entries d) @ drop (Suc i) (dict_entries d)
     \<and> ni_dbus_dict_add_string d1 key2 x = None"
proof -
  obtain b where b: "dict_array_value d = Some b" "fits b (v_len d)" using wf by (auto simp: dict_wf_def)
  let ?n = "v_len d" let ?es = "dict_entries d"
  have le: "?n \<le> length b" by (rule fits_le [OF b(2)])
  have es: "take ?n b = ?es" by (rule dict_block [OF b(1)])
  have len: "length ?es = ?n" using le es by (metis length_take min.absorb2)
  have ne: "?es \<noteq> []" using key(2) len by auto
  have lastn: "?es ! (?n - 1) = last ?es" using ne len by (simp add: last_conv_nth)
  let ?a = "Variant DBUS_TYPE_STRING DBUS_TYPE_INVALID None 0 (Alias (Str s))"
  let ?left = "Entry (de_key (last ?es)) ?a"
  let ?b1 = "take i ?es @ drop (Suc i) ?es @ [?left] @ drop ?n b"
  let ?d1 = "with_value (?n - 1) (DictArr ?b1) d"
  have i: "i < ?n" "i \<noteq> ?n - 1" using key(2) by simp_all
  have "can_free (de_datum (?es ! i))" using free i(1) len by (simp add: list_all_length)
  then have "ni_dbus_variant_destroy (de_datum (?es ! i)) = Some ni_dbus_variant_init" by (simp add: ni_dbus_variant_destroy_def)
  moreover have "alias_of (de_datum (last ?es)) = ?a" unfolding lst by (simp add: alias_of_def with_value_def)
  moreover have "?es[i := e] ! (?n - 1) = last ?es" for e using i lastn by simp
  ultimately have del: "ni_dbus_dict_delete_entry d key = Some (True, ?d1)"
    using wf b(1) le es key(1) i len
    by (simp add: ni_dbus_dict_delete_entry_def dict_wf_def mem_read_in arr_get_in)
  have len1: "length (take i ?es @ drop (Suc i) ?es) = ?n - 1" using i(1) len by simp
  have ent: "dict_entries ?d1 = take i ?es @ drop (Suc i) ?es"
  proof -
    have "dict_entries ?d1 = take (?n - 1) ((take i ?es @ drop (Suc i) ?es) @ [?left] @ drop ?n b)"
      unfolding dict_entries_def [of ?d1] by simp
    moreover have "min (?n - 1) i = i" using i by simp
    ultimately show ?thesis using len1 by (simp only: take_append) simp
  qed
  have nth: "?b1 ! (?n - 1) = ?left" using len1 by (metis append_assoc append_Cons nth_append_length)
  have "length ?b1 = length b" using len1 le key(2) by simp
  then have add: "ni_dbus_dict_add ?d1 (Some key2) =
      Some (Some (?n - 1), with_value ?n (DictArr (?b1[?n - 1 := Entry (Some key2) ?a])) ?d1)"
    using wf room key(2) nth le
    by (simp add: ni_dbus_dict_add_def dict_wf_def is_entry_array_def dict_array_value_def u_ni_dbus_array_grow_def arr_get_in arr_set_in)
  have "ni_dbus_variant_set_string ?a x = None"
    by (simp add: ni_dbus_variant_set_string_def u_ni_dbus_variant_change_type_def dup_string_value_def)
  then have "update_datum (with_value ?n (DictArr (?b1[?n - 1 := Entry (Some key2) ?a])) ?d1) (?n - 1) (\<lambda>v. ni_dbus_variant_set_string v x) = None"
    using le key(2) \<open>length ?b1 = length b\<close> by (simp add: update_datum_def dict_array_value_def arr_get_in)
  then have "ni_dbus_dict_add_string ?d1 key2 x = None"
    using add by (simp add: ni_dbus_dict_add_string_def dict_add_with_def)
  then show ?thesis using del ent by blast
qed

definition two_strings :: ni_dbus_variant where
  "two_strings = (case do { d \<leftarrow> ni_dbus_dict_new; add_items d [(''a'', IString (Some ''1'')), (''b'', IString (Some ''2''))] } of
     Some d \<Rightarrow> d | None \<Rightarrow> ni_dbus_variant_init)"

lemma two_strings: "dict_wf two_strings"
  "dict_entries two_strings = [Entry (Some ''a'') (item_variant (IString (Some ''1''))), Entry (Some ''b'') (item_variant (IString (Some ''2'')))]"
  "v_len two_strings = 2"
proof -
  obtain d0 where d0: "ni_dbus_variant_init_dict ni_dbus_variant_init = Some d0" "dict_wf d0" "dict_entries d0 = []"
    using init_dict_ok [of ni_dbus_variant_init] by (auto simp: ni_dbus_variant_init_def)
  obtain d where d: "add_items d0 [(''a'', IString (Some ''1'')), (''b'', IString (Some ''2''))] = Some d" "dict_wf d"
      "dict_entries d = map (\<lambda>(k, it). Entry (Some k) (item_variant it)) [(''a'', IString (Some ''1'')), (''b'', IString (Some ''2''))]"
    using add_items_ok [OF d0(2), of "[(''a'', IString (Some ''1'')), (''b'', IString (Some ''2''))]"] d0(3) by auto
  have "two_strings = d" using d0(1) d(1) by (simp add: two_strings_def ni_dbus_dict_new_def ni_dbus_variant_new_def del: add_items.simps)
  then show "dict_wf two_strings"
    "dict_entries two_strings = [Entry (Some ''a'') (item_variant (IString (Some ''1''))), Entry (Some ''b'') (item_variant (IString (Some ''2'')))]"
    using d(2,3) by simp_all
  obtain b where b: "dict_array_value d = Some b" "fits b (v_len d)" using d(2) by (auto simp: dict_wf_def)
  have "length (dict_entries d) = v_len d" using dict_block [OF b(1)] fits_le [OF b(2)] by (metis length_take min.absorb2)
  then show "v_len two_strings = 2" using d(3) \<open>two_strings = d\<close> by simp
qed

lemma ni_dbus_dict_delete_then_add_witness:
  "\<exists>d1. ni_dbus_dict_delete_entry two_strings ''a'' = Some (True, d1)
     \<and> dict_entries d1 = [Entry (Some ''b'') (item_variant (IString (Some ''2'')))] \<and> ni_dbus_dict_add_string d1 ''c'' None = None"
  using ni_dbus_dict_delete_then_add [of two_strings "''a''" 0 "''2''" "''c''" None] two_strings
  by (simp add: item_variant_can_free frees_string_def NI_DBUS_ARRAY_ALLOCATION_def)

section \<open>Arrays of bytes and strings\<close>

definition bytes_wf :: "ni_dbus_variant \<Rightarrow> bool" where
  "bytes_wf v \<longleftrightarrow> u_ni_dbus_is_array v [DBUS_TYPE_BYTE] \<and> (\<exists>b. byte_array_value v = Some b \<and> fits b (v_len v))"

definition bytes_of :: "ni_dbus_variant \<Rightarrow> byte list" where
  "bytes_of v = take (v_len v) (case byte_array_value v of Some b \<Rightarrow> b | None \<Rightarrow> [])"

definition append_byte :: "ni_dbus_variant \<Rightarrow> byte \<Rightarrow> ni_dbus_variant option" where
  "append_byte v x = do { (ok, v1) \<leftarrow> ni_dbus_variant_append_byte_array v x; ni_assert ok; Some v1 }"

lemma is_array_with_value [simp]: "u_ni_dbus_is_array (with_value n p v) sig = u_ni_dbus_is_array v sig"
  by (simp add: u_ni_dbus_is_array_def)

lemma grow_set:
  assumes "fits b n"
  shows "\<exists>b1. u_ni_dbus_array_grow b n 1 z = Some b1 \<and> n < length b1 \<and> fits (b1[n := x]) (Suc n) \<and> take (Suc n) (b1[n := x]) = take n b @ [x]"
proof -
  obtain b1 where b1: "u_ni_dbus_array_grow b n 1 z = Some b1" "take n b1 = take n b" "fits b1 (n + 1)"
    using array_grow_ok [OF assms, of "\<lambda>_. True" z 1] by auto
  moreover have "n < length b1" using fits_le [OF b1(3)] by simp
  ultimately show ?thesis by (auto simp: fits_def take_Suc_conv_app_nth)
qed

lemma append_byte_ok:
  assumes "bytes_wf v"
  shows "\<exists>v1. append_byte v x = Some v1 \<and> bytes_wf v1 \<and> bytes_of v1 = bytes_of v @ [x]"
proof -
  obtain b where b: "byte_array_value v = Some b" "fits b (v_len v)" using assms by (auto simp: bytes_wf_def)
  obtain b1 where b1: "u_ni_dbus_array_grow b (v_len v) 1 0 = Some b1" "v_len v < length b1" "fits (b1[v_len v := x]) (Suc (v_len v))"
      "take (Suc (v_len v)) (b1[v_len v := x]) = take (v_len v) b @ [x]"
    using grow_set [OF b(2), of 0 x] by blast
  let ?v1 = "with_value (v_len v + 1) (ByteArr (b1[v_len v := x])) v"
  have "append_byte v x = Some ?v1"
    using assms b(1) b1(1,2) by (simp add: append_byte_def ni_dbus_variant_append_byte_array_def bytes_wf_def arr_set_in)
  moreover have "bytes_wf ?v1" using assms b1(3) by (simp add: bytes_wf_def byte_array_value_def)
  moreover have "bytes_of ?v1 = bytes_of v @ [x]" using b1(4) b(1) by (simp add: bytes_of_def byte_array_value_def)
  ultimately show ?thesis by blast
qed

interpretation byte_array: growing_array append_byte bytes_of bytes_wf
  by unfold_locales (rule append_byte_ok)

definition strings_wf :: "char \<Rightarrow> ni_dbus_variant \<Rightarrow> bool" where
  "strings_wf ty v \<longleftrightarrow> u_ni_dbus_is_array v [ty] \<and> (\<exists>b. string_array_value v = Some b \<and> fits b (v_len v))"

definition strings_of :: "ni_dbus_variant \<Rightarrow> cstring option list" where
  "strings_of v = take (v_len v) (case string_array_value v of Some b \<Rightarrow> b | None \<Rightarrow> [])"

definition append_string :: "ni_dbus_variant \<Rightarrow> cstring \<Rightarrow> ni_dbus_variant option" where
  "append_string v s = do { (ok, v1) \<leftarrow> ni_dbus_variant_append_string_array v (Some s); ni_assert ok; Some v1 }"

definition append_path :: "ni_dbus_variant \<Rightarrow> cstring \<Rightarrow> ni_dbus_variant option" where
  "append_path v s = do { (ok, v1) \<leftarrow> ni_dbus_variant_append_object_path_array v (Some s); ni_assert ok; Some v1 }"

lemma append_string_ok:
  assumes "strings_wf ty v"
  shows "\<exists>b1. u_ni_dbus_array_grow (case string_array_value v of Some b \<Rightarrow> b | None \<Rightarrow> []) (v_len v) 1 None = Some b1 \<and> v_len v < length b1
     \<and> strings_wf ty (with_value (v_len v + 1) (StrArr (b1[v_len v := s])) v)
     \<and> strings_of (with_value (v_len v + 1) (StrArr (b1[v_len v := s])) v) = strings_of v @ [s]"
proof -
  obtain b where b: "string_array_value v = Some b" "fits b (v_len v)" using assms by (auto simp: strings_wf_def)
  obtain b1 where "u_ni_dbus_array_grow b (v_len v) 1 None = Some b1" "v_len v < length b1" "fits (b1[v_len v := s]) (Suc (v_len v))"
      "take (Suc (v_len v)) (b1[v_len v := s]) = take (v_len v) b @ [s]"
    using grow_set [OF b(2), of None s] by blast
  then show ?thesis using assms b by (intro exI [of _ b1]) (simp add: strings_wf_def strings_of_def string_array_value_def)
qed

interpretation dbus_strings: growing_array append_string "\<lambda>v. map the (strings_of v)" "strings_wf DBUS_TYPE_STRING"
proof unfold_locales
  fix v x assume wf: "strings_wf DBUS_TYPE_STRING v"
  then show "\<exists>v1. append_string v x = Some v1 \<and> strings_wf DBUS_TYPE_STRING v1 \<and> map the (strings_of v1) = map the (strings_of v) @ [x]"
    using append_string_ok [OF wf, of "Some x"]
    by (auto simp: append_string_def ni_dbus_variant_append_string_array_def strings_wf_def or_empty_def arr_set_in split: option.splits)
qed

interpretation dbus_paths: growing_array append_path "\<lambda>v. map the (strings_of v)" "strings_wf DBUS_TYPE_OBJECT_PATH"
proof unfold_locales
  fix v x assume wf: "strings_wf DBUS_TYPE_OBJECT_PATH v"
  then show "\<exists>v1. append_path v x = Some v1 \<and> strings_wf DBUS_TYPE_OBJECT_PATH v1 \<and> map the (strings_of v1) = map the (strings_of v) @ [x]"
    using append_string_ok [OF wf, of "Some x"]
    by (auto simp: append_path_def ni_dbus_variant_append_object_path_array_def strings_wf_def or_empty_def arr_set_in split: option.splits)
qed

lemma grow_write:
  "\<exists>b. u_ni_dbus_array_grow [] 0 (length xs) z = Some b \<and> mem_write b 0 xs = Some (xs @ drop (length xs) b) \<and> length xs \<le> length b"
proof -
  obtain b where b: "u_ni_dbus_array_grow [] 0 (length xs) z = Some b" "fits b (length xs)"
    using array_grow_ok [of "[]" 0 "\<lambda>_. True" z "length xs"] by auto
  then show ?thesis using fits_le [OF b(2)] by (simp add: mem_write_in)
qed

lemma init_array_fresh:
  "u_ni_dbus_init_array ni_dbus_variant_init et = Variant DBUS_TYPE_ARRAY et None 0 (Raw 0)"
  by (simp add: u_ni_dbus_init_array_def ni_dbus_variant_init_def with_type_def with_elements_def)

lemma set_byte_array_ok:
  assumes "can_free var"
  shows "\<exists>b. ni_dbus_variant_set_byte_array var bs = Some (Variant DBUS_TYPE_ARRAY DBUS_TYPE_BYTE None (length bs) (ByteArr b))
     \<and> length bs \<le> length b \<and> take (length bs) b = bs"
proof -
  have de: "ni_dbus_variant_destroy var = Some ni_dbus_variant_init" using assms by (simp add: ni_dbus_variant_destroy_def)
  obtain b where b: "u_ni_dbus_array_grow [] 0 (length bs) 0 = Some b" "mem_write b 0 bs = Some (bs @ drop (length bs) b)" "length bs \<le> length b"
    using grow_write [of bs 0] by blast
  let ?b = "if bs = [] then b else bs @ drop (length bs) b"
  have "ni_dbus_variant_set_byte_array var bs = Some (Variant DBUS_TYPE_ARRAY DBUS_TYPE_BYTE None (length bs) (ByteArr ?b))"
    using de b by (auto simp: ni_dbus_variant_set_byte_array_def init_array_fresh byte_array_value_def with_value_def)
  then show ?thesis using b(3) by (intro exI [of _ ?b]) auto
qed

lemma set_string_array_ok:
  assumes "can_free var"
  shows "\<exists>b. ni_dbus_variant_set_string_array var ss = Some (Variant DBUS_TYPE_ARRAY DBUS_TYPE_STRING None (length ss) (StrArr b))
     \<and> length ss \<le> length b \<and> take (length ss) b = map or_empty ss"
proof -
  have de: "ni_dbus_variant_destroy var = Some ni_dbus_variant_init" using assms by (simp add: ni_dbus_variant_destroy_def)
  let ?xs = "map or_empty ss"
  obtain b where b: "u_ni_dbus_array_grow [] 0 (length ?xs) None = Some b" "mem_write b 0 ?xs = Some (?xs @ drop (length ?xs) b)" "length ?xs \<le> length b"
    using grow_write [of ?xs None] by blast
  let ?b = "if ss = [] then b else ?xs @ drop (length ?xs) b"
  have "ni_dbus_variant_set_string_array var ss = Some (Variant DBUS_TYPE_ARRAY DBUS_TYPE_STRING None (length ss) (StrArr ?b))"
    using de b by (auto simp: ni_dbus_variant_set_string_array_def init_array_fresh string_array_value_def with_value_def)
  then show ?thesis using b(3) by (intro exI [of _ ?b]) auto
qed

lemma get_string_array_ok:
  assumes "length ss \<le> length b" "take (length ss) b = map or_empty ss" "sa_wf a0"
  shows "\<exists>a. ni_dbus_variant_get_string_array (Variant DBUS_TYPE_ARRAY DBUS_TYPE_STRING None (length ss) (StrArr b)) a0 = Some (True, a)
     \<and> sa_wf a \<and> sa_items a = sa_items a0 @ map or_empty ss"
  using strings.append_all_ok [OF assms(3), of "map or_empty ss"] assms(1,2)
  by (auto simp: ni_dbus_variant_get_string_array_def u_ni_dbus_is_array_def string_array_value_def mem_read_in)

text \<open>C21: Byte and string arrays come back as they were stored, in a variant that can be destroyed; a byte
  array of the wrong length is refused; a NULL string comes back as the empty string.\<close>

theorem ni_dbus_variant_array_roundtrip:
  assumes "can_free var"
  shows "(\<exists>v. ni_dbus_variant_set_byte_array var bs = Some v \<and> ni_dbus_variant_destroy v = Some ni_dbus_variant_init
        \<and> ni_dbus_variant_get_byte_array_minmax v lo hi = Some (if lo \<le> length bs \<and> length bs \<le> hi then Some bs else None))
    \<and> (\<exists>v a. ni_dbus_variant_set_string_array var ss = Some v \<and> ni_dbus_variant_destroy v = Some ni_dbus_variant_init
        \<and> ni_dbus_variant_get_string_array v ni_string_array_init = Some (True, a) \<and> sa_items a = map or_empty ss)"
proof
  obtain b where "ni_dbus_variant_set_byte_array var bs = Some (Variant DBUS_TYPE_ARRAY DBUS_TYPE_BYTE None (length bs) (ByteArr b))"
      "length bs \<le> length b" "take (length bs) b = bs"
    using set_byte_array_ok [OF assms] by blast
  then show "\<exists>v. ni_dbus_variant_set_byte_array var bs = Some v \<and> ni_dbus_variant_destroy v = Some ni_dbus_variant_init
        \<and> ni_dbus_variant_get_byte_array_minmax v lo hi = Some (if lo \<le> length bs \<and> length bs \<le> hi then Some bs else None)"
    by (simp add: ni_dbus_variant_destroy_def frees_elements_def ni_dbus_variant_get_byte_array_minmax_def
        u_ni_dbus_is_array_def byte_array_value_def mem_read_in)
next
  obtain b where b: "ni_dbus_variant_set_string_array var ss = Some (Variant DBUS_TYPE_ARRAY DBUS_TYPE_STRING None (length ss) (StrArr b))"
      "length ss \<le> length b" "take (length ss) b = map or_empty ss"
    using set_string_array_ok [OF assms] by blast
  show "\<exists>v a. ni_dbus_variant_set_string_array var ss = Some v \<and> ni_dbus_variant_destroy v = Some ni_dbus_variant_init
        \<and> ni_dbus_variant_get_string_array v ni_string_array_init = Some (True, a) \<and> sa_items a = map or_empty ss"
    using b get_string_array_ok [OF b(2,3) sa_wf_init(1)] by (auto simp: ni_dbus_variant_destroy_def frees_elements_def)
qed

lemma ni_dbus_variant_array_roundtrip_witness:
  "(\<exists>v. ni_dbus_variant_set_byte_array ni_dbus_variant_init [1, 2] = Some v \<and> ni_dbus_variant_destroy v = Some ni_dbus_variant_init
        \<and> ni_dbus_variant_get_byte_array_minmax v 2 2 = Some (Some [1, 2]))
    \<and> (\<exists>v a. ni_dbus_variant_set_string_array ni_dbus_variant_init [None] = Some v \<and> ni_dbus_variant_destroy v = Some ni_dbus_variant_init
        \<and> ni_dbus_variant_get_string_array v ni_string_array_init = Some (True, a) \<and> sa_items a = [Some []])"
  using ni_dbus_variant_array_roundtrip [of ni_dbus_variant_init "[1, 2]" 2 2 "[None]"]
  by (simp add: ni_dbus_variant_init_def or_empty_def)

text \<open>C22: The signature a variant was made from is reported for it, cut to 15 characters, except for arrays of the
  basic types other than bytes and strings (booleans, the integers, doubles, object paths), for which
  \<open>ni_dbus_variant_signature\<close> returns NULL.\<close>

theorem ni_dbus_variant_signature_of_init:
  assumes "ni_dbus_variant_init_signature var sig = Some (True, v)"
  shows "ni_dbus_variant_signature v =
    (if length sig = 2 \<and> ni_dbus_type_as_string (sig ! 1) \<noteq> None \<and> sig \<noteq> ''ay'' \<and> sig \<noteq> ''as'' then None else Some (take 15 sig))"
proof -
  have de: "ni_dbus_variant_destroy var = Some ni_dbus_variant_init"
    using assms by (auto simp: ni_dbus_variant_init_signature_def ni_dbus_variant_destroy_def split: if_splits)
  obtain ty rest where sig: "sig = ty # rest" using assms de by (cases sig) (auto simp: ni_dbus_variant_init_signature_def)
  have iv: "ni_dbus_variant_init = Variant DBUS_TYPE_INVALID DBUS_TYPE_INVALID None 0 (Raw 0)" by (simp add: ni_dbus_variant_init_def)
  consider (basic) "rest = []" "ni_dbus_type_as_string ty \<noteq> None" "v = with_type ty ni_dbus_variant_init"
    | (dict) "ty = DBUS_TYPE_ARRAY" "rest = ''{sv}''" "v = u_ni_dbus_init_array ni_dbus_variant_init DBUS_TYPE_DICT_ENTRY"
    | (array) "ty = DBUS_TYPE_ARRAY" "rest \<noteq> []" "rest \<noteq> ''{sv}''" "v = u_ni_dbus_init_array_signature ni_dbus_variant_init rest"
    using assms de sig by (auto simp: ni_dbus_variant_init_signature_def split: if_splits)
  then show ?thesis
  proof cases
    case basic
    have "ni_dbus_type_as_string ty = Some [ty]" using basic(2) by (auto simp: ni_dbus_type_as_string_def split: if_splits)
    then show ?thesis using basic sig by (simp add: iv with_type_def)
  next
    case dict
    then show ?thesis using sig by (simp add: init_array_fresh array_signature_def ni_dbus_type_as_string_def)
  next
    case array
    show ?thesis
    proof (cases "length rest = 1 \<and> ni_dbus_type_as_string (hd rest) \<noteq> None")
      case True
      then obtain c where c: "rest = [c]" by (cases rest) auto
      then have "v = Variant DBUS_TYPE_ARRAY c None 0 (Raw 0)" "ni_dbus_type_as_string c \<noteq> None"
        using array(4) True by (simp_all add: u_ni_dbus_init_array_signature_def iv with_type_def with_elements_def)
      then show ?thesis using c sig array(1)
        by (auto simp: array_signature_def ni_dbus_type_as_string_def split: if_splits)
    next
      case False
      then have "v = Variant DBUS_TYPE_ARRAY DBUS_TYPE_INVALID (Some rest) 0 (Raw 0)"
        using array(4) by (simp add: u_ni_dbus_init_array_signature_def iv with_type_def with_elements_def Let_def)
      moreover have "\<not> (length sig = 2 \<and> ni_dbus_type_as_string (sig ! 1) \<noteq> None)"
        using False sig by (cases rest) auto
      ultimately show ?thesis using sig array(1) by (auto simp: array_signature_def ni_dbus_type_as_string_def)
    qed
  qed
qed

lemma ni_dbus_variant_signature_of_init_witness:
  "ni_dbus_variant_signature (Variant DBUS_TYPE_ARRAY DBUS_TYPE_INVALID (Some ''a{sv}'') 0 (Raw 0)) = Some ''aa{sv}''"
  using ni_dbus_variant_signature_of_init [of ni_dbus_variant_init "''aa{sv}''" "Variant DBUS_TYPE_ARRAY DBUS_TYPE_INVALID (Some ''a{sv}'') 0 (Raw 0)"]
  by (simp add: ni_dbus_variant_init_signature_def ni_dbus_variant_destroy_def ni_dbus_variant_init_def
      u_ni_dbus_init_array_signature_def with_type_def with_elements_def ni_dbus_type_as_string_def)

end
