(* ===== verification/Fileset.thy ===== *)
theory Fileset
  imports Dicts
begin

text \<open>
  The reference-counted files of testbus/file.c and the arrays that hold them.  A file lives at an address;
  an address without a file is freed memory, and using it is a fault (in the code the cookie of a freed file
  is overwritten).  An array is the list of the addresses in its block, which is reallocated to the exact
  size on every append.  The files \<open>unlink\<close> was called for are recorded.
\<close>

section \<open>Files\<close>

definition NI_TESTBUS_FILE_READ :: u32 where "NI_TESTBUS_FILE_READ = 1"

record ni_testbus_file =
  f_refcount :: nat
  f_id :: u32
  f_object_path :: "cstring option"
  f_name :: "cstring option"
  f_mode :: u32
  f_inum :: u32
  f_iseq :: u32
  f_instance_path :: "cstring option"
  f_data :: "ni_buffer option"
  f_size :: u32

record file_store =
  fs_files :: "nat \<rightharpoonup> ni_testbus_file"
  fs_next :: nat
  fs_inum :: u32
  fs_unlinked :: "cstring list"

record ni_testbus_file_array =
  fa_data :: "nat list"
  fa_next_id :: u32

definition put_file :: "nat \<Rightarrow> ni_testbus_file \<Rightarrow> file_store \<Rightarrow> file_store" where
  "put_file a f fs = fs\<lparr>fs_files := (fs_files fs)(a \<mapsto> f)\<rparr>"

definition ni_testbus_file_get :: "nat \<Rightarrow> file_store \<Rightarrow> file_store option" where
  "ni_testbus_file_get a fs = do {
     f \<leftarrow> fs_files fs a;
     ni_assert (f_refcount f \<noteq> 0);
     Some (put_file a (f\<lparr>f_refcount := f_refcount f + 1\<rparr>) fs) }"

definition ni_testbus_file_drop_cache :: "nat \<Rightarrow> file_store \<Rightarrow> file_store option" where
  "ni_testbus_file_drop_cache a fs = do {
     f \<leftarrow> fs_files fs a;
     let fs1 = put_file a (f\<lparr>f_data := None, f_instance_path := None\<rparr>) fs;
     Some (case f_instance_path f of None \<Rightarrow> fs1 | Some p \<Rightarrow> fs1\<lparr>fs_unlinked := fs_unlinked fs1 @ [p]\<rparr>) }"

definition ni_testbus_file_free :: "nat \<Rightarrow> file_store \<Rightarrow> file_store option" where
  "ni_testbus_file_free a fs = do {
     fs1 \<leftarrow> ni_testbus_file_drop_cache a fs;
     Some (fs1\<lparr>fs_files := (fs_files fs1)(a := None)\<rparr>) }"

definition ni_testbus_file_put :: "nat \<Rightarrow> file_store \<Rightarrow> file_store option" where
  "ni_testbus_file_put a fs = do {
     f \<leftarrow> fs_files fs a;
     ni_assert (f_refcount f \<noteq> 0);
     let fs1 = put_file a (f\<lparr>f_refcount := f_refcount f - 1\<rparr>) fs;
     (if f_refcount f - 1 = 0 then ni_testbus_file_free a fs1 else Some fs1) }"

section \<open>Arrays\<close>

definition ni_testbus_file_array_init :: ni_testbus_file_array where
  "ni_testbus_file_array_init = \<lparr>fa_data = [], fa_next_id = 0\<rparr>"

definition ni_testbus_file_array_new :: ni_testbus_file_array where
  "ni_testbus_file_array_new = ni_testbus_file_array_init"

fun put_all_files :: "nat list \<Rightarrow> file_store \<Rightarrow> file_store option" where
  "put_all_files [] fs = Some fs"
| "put_all_files (a # as) fs = do { fs1 \<leftarrow> ni_testbus_file_put a fs; put_all_files as fs1 }"

definition ni_testbus_file_array_destroy :: "ni_testbus_file_array \<Rightarrow> file_store \<Rightarrow> (ni_testbus_file_array \<times> file_store) option" where
  "ni_testbus_file_array_destroy arr fs = do {
     fs1 \<leftarrow> put_all_files (fa_data arr) fs; Some (ni_testbus_file_array_init, fs1) }"

definition ni_testbus_file_array_free :: "ni_testbus_file_array \<Rightarrow> file_store \<Rightarrow> file_store option" where
  "ni_testbus_file_array_free arr fs = do { (_, fs1) \<leftarrow> ni_testbus_file_array_destroy arr fs; Some fs1 }"

definition ni_testbus_file_array_append ::
    "ni_testbus_file_array \<Rightarrow> nat \<Rightarrow> file_store \<Rightarrow> (ni_testbus_file_array \<times> file_store) option" where
  "ni_testbus_file_array_append arr a fs = do {
     fs1 \<leftarrow> ni_testbus_file_get a fs; Some (arr\<lparr>fa_data := fa_data arr @ [a]\<rparr>, fs1) }"

fun index_of :: "nat \<Rightarrow> nat list \<Rightarrow> nat \<Rightarrow> int" where
  "index_of i [] a = -1"
| "index_of i (x # xs) a = (if x = a then int i else index_of (Suc i) xs a)"

definition ni_testbus_file_array_index :: "ni_testbus_file_array \<Rightarrow> nat \<Rightarrow> int" where
  "ni_testbus_file_array_index arr a = index_of 0 (fa_data arr) a"

definition ni_testbus_file_array_remove ::
    "ni_testbus_file_array \<Rightarrow> nat \<Rightarrow> file_store \<Rightarrow> (bool \<times> ni_testbus_file_array \<times> file_store) option" where
  "ni_testbus_file_array_remove arr a fs =
     (let index = ni_testbus_file_array_index arr a in
      if index < 0 then Some (False, arr, fs)
      else do {
        x \<leftarrow> arr_get (fa_data arr) (nat index);
        fs1 \<leftarrow> ni_testbus_file_put x fs;
        Some (True, arr\<lparr>fa_data := take (nat index) (fa_data arr) @ drop (nat index + 1) (fa_data arr)\<rparr>, fs1) })"

definition ni_testbus_file_array_set ::
    "ni_testbus_file_array \<Rightarrow> nat \<Rightarrow> nat \<Rightarrow> file_store \<Rightarrow> (ni_testbus_file_array \<times> file_store) option" where
  "ni_testbus_file_array_set arr index a fs = do {
     ni_assert (index < length (fa_data arr));
     fs1 \<leftarrow> ni_testbus_file_get a fs;
     x \<leftarrow> arr_get (fa_data arr) index;
     fs2 \<leftarrow> ni_testbus_file_put x fs1;
     d \<leftarrow> arr_set (fa_data arr) index a;
     Some (arr\<lparr>fa_data := d\<rparr>, fs2) }"

fun find_file :: "(ni_testbus_file \<Rightarrow> bool) \<Rightarrow> nat list \<Rightarrow> file_store \<Rightarrow> nat option option" where
  "find_file P [] fs = Some None"
| "find_file P (a # as) fs = do { f \<leftarrow> fs_files fs a; (if P f then Some (Some a) else find_file P as fs) }"

definition ni_testbus_file_array_find_by_name :: "ni_testbus_file_array \<Rightarrow> cstring option \<Rightarrow> file_store \<Rightarrow> nat option option" where
  "ni_testbus_file_array_find_by_name arr name fs = find_file (\<lambda>f. ni_string_eq (f_name f) name) (fa_data arr) fs"

definition ni_testbus_file_array_find_by_inum :: "ni_testbus_file_array \<Rightarrow> u32 \<Rightarrow> file_store \<Rightarrow> nat option option" where
  "ni_testbus_file_array_find_by_inum arr inum fs = find_file (\<lambda>f. f_inum f = inum) (fa_data arr) fs"

fun merge_files :: "nat list \<Rightarrow> ni_testbus_file_array \<Rightarrow> file_store \<Rightarrow> (ni_testbus_file_array \<times> file_store) option" where
  "merge_files [] result fs = Some (result, fs)"
| "merge_files (a # as) result fs = do {
     f \<leftarrow> fs_files fs a;
     r \<leftarrow> ni_testbus_file_array_find_by_name result (f_name f) fs;
     (if r \<noteq> None then merge_files as result fs
      else do { (result1, fs1) \<leftarrow> ni_testbus_file_array_append result a fs; merge_files as result1 fs1 }) }"

definition ni_testbus_file_array_merge ::
    "ni_testbus_file_array \<Rightarrow> ni_testbus_file_array \<Rightarrow> file_store \<Rightarrow> (ni_testbus_file_array \<times> file_store) option" where
  "ni_testbus_file_array_merge result merge fs = merge_files (fa_data merge) result fs"

text \<open>The new file: it starts with one reference, the array takes another, the first is dropped.\<close>

definition ni_testbus_file_new ::
    "cstring option \<Rightarrow> ni_testbus_file_array \<Rightarrow> u32 \<Rightarrow> file_store \<Rightarrow> (nat \<times> ni_testbus_file_array \<times> file_store) option" where
  "ni_testbus_file_new name arr mode fs = do {
     let a = fs_next fs;
     let f = \<lparr>f_refcount = 1, f_id = fa_next_id arr, f_object_path = None, f_name = name,
              f_mode = (if mode \<noteq> 0 then mode else NI_TESTBUS_FILE_READ), f_inum = fs_inum fs, f_iseq = 0,
              f_instance_path = None, f_data = None, f_size = 0\<rparr>;
     let fs1 = fs\<lparr>fs_files := (fs_files fs)(a \<mapsto> f), fs_next := a + 1, fs_inum := fs_inum fs + 1\<rparr>;
     (arr1, fs2) \<leftarrow> ni_testbus_file_array_append (arr\<lparr>fa_next_id := fa_next_id arr + 1\<rparr>) a fs1;
     fs3 \<leftarrow> ni_testbus_file_put a fs2;
     Some (a, arr1, fs3) }"

section \<open>Reference counts are exact\<close>

text \<open>\<open>cnt a\<close> references to address \<open>a\<close> exist outside the store.\<close>

definition counted :: "file_store \<Rightarrow> (nat \<Rightarrow> nat) \<Rightarrow> bool" where
  "counted fs cnt \<longleftrightarrow> (\<forall>a. cnt a = (case fs_files fs a of None \<Rightarrow> 0 | Some f \<Rightarrow> f_refcount f))
     \<and> (\<forall>a f. fs_files fs a = Some f \<longrightarrow> 0 < f_refcount f)
     \<and> (\<forall>a. fs_next fs \<le> a \<longrightarrow> fs_files fs a = None)"

lemma countedD: "counted fs cnt \<Longrightarrow> 0 < cnt a \<Longrightarrow> \<exists>f. fs_files fs a = Some f \<and> f_refcount f = cnt a \<and> a < fs_next fs"
proof -
  assume c: "counted fs cnt" and a: "0 < cnt a"
  then obtain f where f: "fs_files fs a = Some f" by (cases "fs_files fs a") (auto simp: counted_def)
  have "cnt a = (case fs_files fs a of None \<Rightarrow> 0 | Some f \<Rightarrow> f_refcount f)" using c unfolding counted_def by blast
  moreover have "fs_next fs \<le> a \<longrightarrow> fs_files fs a = None" using c unfolding counted_def by blast
  ultimately show ?thesis using f by fastforce
qed

lemma counted_update:
  "counted fs cnt \<Longrightarrow> a < fs_next fs \<Longrightarrow> f_refcount f = n \<Longrightarrow> 0 < n \<Longrightarrow>
     counted (fs\<lparr>fs_files := (fs_files fs)(a \<mapsto> f), fs_unlinked := u\<rparr>) (cnt(a := n))"
  by (simp add: counted_def)

lemma counted_delete:
  "counted fs cnt \<Longrightarrow> counted (fs\<lparr>fs_files := (fs_files fs)(a := None), fs_unlinked := u\<rparr>) (cnt(a := 0))"
  by (simp add: counted_def)

definition unlinked_by :: "ni_testbus_file \<Rightarrow> file_store \<Rightarrow> cstring list" where
  "unlinked_by f fs = fs_unlinked fs @ (case f_instance_path f of None \<Rightarrow> [] | Some p \<Rightarrow> [p])"

lemma put_file_eq: "put_file a f fs = fs\<lparr>fs_files := (fs_files fs)(a \<mapsto> f), fs_unlinked := fs_unlinked fs\<rparr>"
  by (simp add: put_file_def)

lemma file_get_ok:
  assumes c: "counted fs cnt" and a: "0 < cnt a"
  shows "\<exists>fs1. ni_testbus_file_get a fs = Some fs1 \<and> counted fs1 (cnt(a := cnt a + 1))
     \<and> (\<forall>b f. fs_files fs b = Some f \<longrightarrow> (\<exists>g. fs_files fs1 b = Some g \<and> f_name g = f_name f))"
proof -
  obtain f where f: "fs_files fs a = Some f" "f_refcount f = cnt a" "a < fs_next fs" using countedD [OF c a] by blast
  let ?fs = "put_file a (f\<lparr>f_refcount := f_refcount f + 1\<rparr>) fs"
  have "ni_testbus_file_get a fs = Some ?fs" using a f by (simp add: ni_testbus_file_get_def)
  moreover have "counted ?fs (cnt(a := cnt a + 1))" unfolding put_file_eq using f by (intro counted_update [OF c]) simp_all
  moreover have "\<forall>b g. fs_files fs b = Some g \<longrightarrow> (\<exists>h. fs_files ?fs b = Some h \<and> f_name h = f_name g)"
    using f by (simp add: put_file_def)
  ultimately show ?thesis by blast
qed

lemma file_put_ok:
  assumes c: "counted fs cnt" and a: "0 < cnt a"
  shows "\<exists>fs1. ni_testbus_file_put a fs = Some fs1 \<and> counted fs1 (cnt(a := cnt a - 1))"
proof -
  obtain f where f: "fs_files fs a = Some f" "f_refcount f = cnt a" "a < fs_next fs" using countedD [OF c a] by blast
  show ?thesis
  proof (cases "cnt a = 1")
    case True
    then have "ni_testbus_file_put a fs = Some (fs\<lparr>fs_files := (fs_files fs)(a := None), fs_unlinked := unlinked_by f fs\<rparr>)"
      using f by (cases "f_instance_path f")
        (simp_all add: ni_testbus_file_put_def ni_testbus_file_free_def ni_testbus_file_drop_cache_def put_file_def Let_def unlinked_by_def)
    then show ?thesis using counted_delete [OF c] True by auto
  next
    case False
    let ?fs = "put_file a (f\<lparr>f_refcount := f_refcount f - 1\<rparr>) fs"
    have "ni_testbus_file_put a fs = Some ?fs" using f a False by (simp add: ni_testbus_file_put_def)
    moreover have "counted ?fs (cnt(a := cnt a - 1))"
      unfolding put_file_eq using f a False by (intro counted_update [OF c]) simp_all
    ultimately show ?thesis by blast
  qed
qed

lemma drop_cache_ok:
  assumes c: "counted fs cnt" and a: "0 < cnt a"
  shows "\<exists>fs1. ni_testbus_file_drop_cache a fs = Some fs1 \<and> counted fs1 cnt"
proof -
  obtain f where f: "fs_files fs a = Some f" "f_refcount f = cnt a" "a < fs_next fs" using countedD [OF c a] by blast
  let ?f = "f\<lparr>f_data := None, f_instance_path := None\<rparr>"
  have "ni_testbus_file_drop_cache a fs = Some (fs\<lparr>fs_files := (fs_files fs)(a \<mapsto> ?f), fs_unlinked := unlinked_by f fs\<rparr>)"
    using f by (cases "f_instance_path f") (simp_all add: ni_testbus_file_drop_cache_def put_file_def Let_def unlinked_by_def)
  then show ?thesis using counted_update [OF c f(3), where f = ?f and n = "cnt a"] f(2) a by auto
qed

definition add_refs :: "(nat \<Rightarrow> nat) \<Rightarrow> nat list \<Rightarrow> nat \<Rightarrow> nat" where
  "add_refs cnt xs a = cnt a + count_list xs a"

lemma put_all_files_ok:
  "counted fs (add_refs cnt xs) \<Longrightarrow> \<exists>fs1. put_all_files xs fs = Some fs1 \<and> counted fs1 cnt"
proof (induction xs arbitrary: fs)
  case Nil
  then show ?case by (simp add: add_refs_def)
next
  case (Cons a xs)
  obtain fs1 where fs1: "ni_testbus_file_put a fs = Some fs1" "counted fs1 ((add_refs cnt (a # xs))(a := add_refs cnt (a # xs) a - 1))"
    using file_put_ok [OF Cons.prems, of a] by (auto simp: add_refs_def [of _ "a # xs" a])
  have "(add_refs cnt (a # xs))(a := add_refs cnt (a # xs) a - 1) = add_refs cnt xs"
    by (auto simp: add_refs_def fun_eq_iff)
  then show ?case using fs1 Cons.IH [of fs1] by auto
qed

lemma find_file_ok:
  "\<forall>a\<in>set xs. fs_files fs a \<noteq> None \<Longrightarrow> find_file P xs fs = Some (find (\<lambda>a. P (the (fs_files fs a))) xs)"
  by (induction xs) auto

subsection \<open>The operations of one array\<close>

text \<open>The counts after one array has changed from \<open>xs\<close> to \<open>ys\<close>.\<close>

definition moved :: "(nat \<Rightarrow> nat) \<Rightarrow> nat list \<Rightarrow> nat list \<Rightarrow> nat \<Rightarrow> nat" where
  "moved cnt xs ys a = cnt a - count_list xs a + count_list ys a"

definition covers :: "(nat \<Rightarrow> nat) \<Rightarrow> nat list \<Rightarrow> bool" where
  "covers cnt xs \<longleftrightarrow> (\<forall>a. count_list xs a \<le> cnt a)"

lemma covers_pos: "covers cnt xs \<Longrightarrow> a \<in> set xs \<Longrightarrow> 0 < cnt a"
  unfolding covers_def by (metis count_list_0_iff gr0I le_zero_eq)

lemma covers_live: "counted fs cnt \<Longrightarrow> covers cnt xs \<Longrightarrow> \<forall>a\<in>set xs. fs_files fs a \<noteq> None"
  using countedD covers_pos by blast

lemma moved_append: "covers cnt xs \<Longrightarrow> moved cnt xs (xs @ [a]) = cnt(a := cnt a + 1)"
  by (auto simp: moved_def covers_def fun_eq_iff)

lemma moved_moved: "covers cnt xs \<Longrightarrow> moved (moved cnt xs ys) ys zs = moved cnt xs zs"
  by (auto simp: moved_def covers_def fun_eq_iff)

lemma covers_moved: "covers (moved cnt xs ys) ys"
  by (simp add: moved_def covers_def)

lemma count_remove:
  "p < length xs \<Longrightarrow> count_list xs a = count_list (take p xs @ drop (Suc p) xs) a + (if xs ! p = a then 1 else 0)"
  using arg_cong [OF id_take_nth_drop [of p xs], of "\<lambda>l. count_list l a"] by simp

lemma moved_remove:
  "covers cnt xs \<Longrightarrow> p < length xs \<Longrightarrow> moved cnt xs (take p xs @ drop (Suc p) xs) = cnt(xs ! p := cnt (xs ! p) - 1)"
proof (rule ext)
  fix a assume c: "covers cnt xs" and p: "p < length xs"
  then show "moved cnt xs (take p xs @ drop (Suc p) xs) a = (cnt(xs ! p := cnt (xs ! p) - 1)) a"
    using count_remove [OF p, of a] by (auto simp: moved_def covers_def dest: spec [of _ a])
qed

lemma count_update:
  "p < length xs \<Longrightarrow> count_list (xs[p := b]) a = count_list (take p xs @ drop (Suc p) xs) a + (if b = a then 1 else 0)"
  by (simp add: upd_conv_take_nth_drop)

lemma array_append_ok:
  assumes "counted fs cnt" "covers cnt (fa_data arr)" "0 < cnt a"
  shows "\<exists>arr1 fs1. ni_testbus_file_array_append arr a fs = Some (arr1, fs1) \<and> counted fs1 (moved cnt (fa_data arr) (fa_data arr1))
     \<and> fa_data arr1 = fa_data arr @ [a]
     \<and> (\<forall>b f. fs_files fs b = Some f \<longrightarrow> (\<exists>g. fs_files fs1 b = Some g \<and> f_name g = f_name f))"
  using file_get_ok [OF assms(1,3)] moved_append [OF assms(2), of a] by (auto simp: ni_testbus_file_array_append_def)

lemma index_of_nth: "index_of i xs a = (if a \<in> set xs then int i + int (length (takeWhile (\<lambda>x. x \<noteq> a) xs)) else -1)"
  by (induction i xs a rule: index_of.induct) auto

lemma array_remove_ok:
  assumes "counted fs cnt" "covers cnt (fa_data arr)"
  shows "\<exists>arr1 fs1. ni_testbus_file_array_remove arr a fs = Some (a \<in> set (fa_data arr), arr1, fs1)
     \<and> counted fs1 (moved cnt (fa_data arr) (fa_data arr1))"
proof (cases "a \<in> set (fa_data arr)")
  case False
  then have "ni_testbus_file_array_remove arr a fs = Some (False, arr, fs)"
    by (simp add: ni_testbus_file_array_remove_def ni_testbus_file_array_index_def index_of_nth)
  moreover have "moved cnt (fa_data arr) (fa_data arr) = cnt" using assms(2) by (auto simp: moved_def covers_def fun_eq_iff)
  ultimately show ?thesis using assms(1) False by simp
next
  case True
  let ?xs = "fa_data arr"
  let ?p = "length (takeWhile (\<lambda>x. x \<noteq> a) ?xs)"
  have p: "?p < length ?xs" "?xs ! ?p = a"
  proof -
    have "takeWhile (\<lambda>x. x \<noteq> a) ?xs \<noteq> ?xs" using True by (auto simp: takeWhile_eq_all_conv)
    then show "?p < length ?xs" by (metis length_append less_add_same_cancel1 length_greater_0_conv takeWhile_dropWhile_id append_Nil2)
    then show "?xs ! ?p = a" using nth_length_takeWhile [of "\<lambda>x. x \<noteq> a" ?xs] by simp
  qed
  obtain fs1 where fs1: "ni_testbus_file_put a fs = Some fs1" "counted fs1 (cnt(a := cnt a - 1))"
    using file_put_ok [OF assms(1) covers_pos [OF assms(2) True]] by blast
  have "ni_testbus_file_array_remove arr a fs = Some (True, arr\<lparr>fa_data := take ?p ?xs @ drop (?p + 1) ?xs\<rparr>, fs1)"
    using True p fs1(1) by (simp add: ni_testbus_file_array_remove_def ni_testbus_file_array_index_def index_of_nth arr_get_in)
  then show ?thesis using fs1(2) moved_remove [OF assms(2) p(1)] p(2) True by auto
qed

lemma array_set_ok:
  assumes "counted fs cnt" "covers cnt (fa_data arr)" "p < length (fa_data arr)" "0 < cnt a"
  shows "\<exists>arr1 fs1. ni_testbus_file_array_set arr p a fs = Some (arr1, fs1)
     \<and> counted fs1 (moved cnt (fa_data arr) (fa_data arr1))"
proof -
  let ?xs = "fa_data arr" let ?b = "fa_data arr ! p"
  obtain fs1 where fs1: "ni_testbus_file_get a fs = Some fs1" "counted fs1 (cnt(a := cnt a + 1))"
    using file_get_ok [OF assms(1,4)] by blast
  have "0 < (cnt(a := cnt a + 1)) ?b" using covers_pos [OF assms(2), of ?b] assms(3) by simp
  then obtain fs2 where fs2: "ni_testbus_file_put ?b fs1 = Some fs2"
      "counted fs2 ((cnt(a := cnt a + 1))(?b := (cnt(a := cnt a + 1)) ?b - 1))"
    using file_put_ok [OF fs1(2)] by blast
  have "moved cnt ?xs (?xs[p := a]) = (cnt(a := cnt a + 1))(?b := (cnt(a := cnt a + 1)) ?b - 1)"
  proof (rule ext)
    fix x show "moved cnt ?xs (?xs[p := a]) x = ((cnt(a := cnt a + 1))(?b := (cnt(a := cnt a + 1)) ?b - 1)) x"
      using count_remove [OF assms(3), of x] count_update [OF assms(3), of a x] assms(2)
      by (auto simp: moved_def covers_def dest: spec [of _ x])
  qed
  moreover have "ni_testbus_file_array_set arr p a fs = Some (arr\<lparr>fa_data := ?xs[p := a]\<rparr>, fs2)"
    using fs1(1) fs2(1) assms(3) by (simp add: ni_testbus_file_array_set_def arr_get_in arr_set_in)
  ultimately show ?thesis using fs2(2) by auto
qed

lemma array_merge_ok:
  assumes "counted fs cnt" "covers cnt (fa_data arr)" "\<forall>a\<in>set xs. 0 < cnt a"
  shows "\<exists>arr1 fs1. merge_files xs arr fs = Some (arr1, fs1) \<and> counted fs1 (moved cnt (fa_data arr) (fa_data arr1))"
  using assms
proof (induction xs arbitrary: arr fs cnt)
  case Nil
  then have "moved cnt (fa_data arr) (fa_data arr) = cnt" by (auto simp: moved_def covers_def fun_eq_iff)
  then show ?case using Nil by simp
next
  case (Cons a xs)
  obtain f where f: "fs_files fs a = Some f" using countedD [OF Cons.prems(1), of a] Cons.prems(3) by auto
  obtain r where r: "ni_testbus_file_array_find_by_name arr (f_name f) fs = Some r"
    using find_file_ok [OF covers_live [OF Cons.prems(1,2)]] by (auto simp: ni_testbus_file_array_find_by_name_def)
  show ?case
  proof (cases "r = None")
    case False
    then show ?thesis using f r Cons.IH [OF Cons.prems(1,2)] Cons.prems(3) by simp
  next
    case True
    have "0 < cnt a" using Cons.prems(3) by simp
    from array_append_ok [OF Cons.prems(1,2) this] obtain arr1 fs1 where a1: "ni_testbus_file_array_append arr a fs = Some (arr1, fs1)"
      "counted fs1 (moved cnt (fa_data arr) (fa_data arr1))" "fa_data arr1 = fa_data arr @ [a]" by blast
    have "\<forall>b\<in>set xs. 0 < moved cnt (fa_data arr) (fa_data arr1) b"
      using Cons.prems(3) moved_append [OF Cons.prems(2), of a] a1(3) by auto
    from Cons.IH [OF a1(2) covers_moved this] obtain arr2 fs2 where a2: "merge_files xs arr1 fs1 = Some (arr2, fs2)"
      "counted fs2 (moved (moved cnt (fa_data arr) (fa_data arr1)) (fa_data arr1) (fa_data arr2))" by blast
    then show ?thesis using f r True a1(1) moved_moved [OF Cons.prems(2)] by simp
  qed
qed

lemma array_destroy_ok:
  assumes "counted fs cnt" "covers cnt (fa_data arr)"
  shows "\<exists>fs1. ni_testbus_file_array_destroy arr fs = Some (ni_testbus_file_array_init, fs1) \<and> counted fs1 (moved cnt (fa_data arr) [])"
proof -
  have "add_refs (moved cnt (fa_data arr) []) (fa_data arr) = cnt"
    using assms(2) by (auto simp: add_refs_def moved_def covers_def fun_eq_iff)
  then show ?thesis using put_all_files_ok [of fs "moved cnt (fa_data arr) []" "fa_data arr"] assms(1)
    by (auto simp: ni_testbus_file_array_destroy_def)
qed

lemma file_new_ok:
  assumes "counted fs cnt" "covers cnt (fa_data arr)"
  shows "\<exists>a arr1 fs1. ni_testbus_file_new name arr mode fs = Some (a, arr1, fs1)
     \<and> counted fs1 (moved cnt (fa_data arr) (fa_data arr1)) \<and> fa_data arr1 = fa_data arr @ [a] \<and> fs_files fs a = None"
proof -
  let ?a = "fs_next fs"
  let ?f = "\<lparr>f_refcount = 1, f_id = fa_next_id arr, f_object_path = None, f_name = name,
              f_mode = (if mode \<noteq> 0 then mode else NI_TESTBUS_FILE_READ), f_inum = fs_inum fs, f_iseq = 0,
              f_instance_path = None, f_data = None, f_size = 0\<rparr>"
  let ?fs1 = "fs\<lparr>fs_files := (fs_files fs)(?a \<mapsto> ?f), fs_next := ?a + 1, fs_inum := fs_inum fs + 1\<rparr>"
  let ?arr = "arr\<lparr>fa_next_id := fa_next_id arr + 1\<rparr>"
  have none: "fs_files fs ?a = None" using assms(1) by (simp add: counted_def)
  have z: "cnt ?a = 0" using assms(1) none unfolding counted_def by (metis option.case(1))
  have c1: "counted ?fs1 (cnt(?a := 1))" using assms(1) by (simp add: counted_def)
  have cov: "covers (cnt(?a := 1)) (fa_data ?arr)"
    using assms(2) z by (auto simp: covers_def dest: spec [of _ "fs_next fs"])
  have "0 < (cnt(?a := 1)) ?a" by simp
  from array_append_ok [OF c1 cov this]
  obtain arr1 fs2 where a1: "ni_testbus_file_array_append ?arr ?a ?fs1 = Some (arr1, fs2)"
      "counted fs2 (moved (cnt(?a := 1)) (fa_data ?arr) (fa_data arr1))" "fa_data arr1 = fa_data ?arr @ [?a]"
    by blast
  have m: "moved (cnt(?a := 1)) (fa_data ?arr) (fa_data arr1) = cnt(?a := 2)"
    unfolding a1(3) moved_append [OF cov] by (simp add: numeral_2_eq_2)
  obtain fs3 where fs3: "ni_testbus_file_put ?a fs2 = Some fs3" "counted fs3 ((cnt(?a := 2))(?a := (cnt(?a := 2)) ?a - 1))"
    using file_put_ok [OF a1(2), of ?a] unfolding m by auto
  have "(cnt(?a := 2))(?a := (cnt(?a := 2)) ?a - 1) = moved cnt (fa_data arr) (fa_data arr1)"
    using moved_append [OF assms(2), of ?a] a1(3) z by simp
  moreover have "ni_testbus_file_new name arr mode fs = Some (?a, arr1, fs3)"
    unfolding ni_testbus_file_new_def Let_def using a1(1) fs3(1) by simp
  ultimately show ?thesis using fs3(2) a1(3) none by simp
qed

subsection \<open>Any sequence of operations on a set of arrays\<close>

text \<open>An operation names its arrays, and files that are in an array, by index; one whose indices are out of
  range is not made.\<close>

datatype fs_op =
    NewFile nat "cstring option" u32
  | Share nat nat nat
  | RemoveFile nat nat nat
  | Replace nat nat nat nat
  | MergeInto nat nat
  | Destroy nat
  | DropCache nat nat

type_synonym fileset = "ni_testbus_file_array list \<times> file_store"

definition member_at :: "ni_testbus_file_array list \<Rightarrow> nat \<Rightarrow> nat \<Rightarrow> nat option" where
  "member_at arrs j k = (if j < length arrs \<and> k < length (fa_data (arrs ! j)) then Some (fa_data (arrs ! j) ! k) else None)"

definition with_array :: "fileset \<Rightarrow> nat \<Rightarrow> (ni_testbus_file_array \<Rightarrow> (ni_testbus_file_array \<times> file_store) option) \<Rightarrow> fileset option" where
  "with_array st i f =
     (if i < length (fst st) then do { (arr, fs) \<leftarrow> f (fst st ! i); Some ((fst st)[i := arr], fs) } else Some st)"

fun fs_apply :: "fs_op \<Rightarrow> fileset \<Rightarrow> fileset option" where
  "fs_apply (NewFile i name mode) st =
     with_array st i (\<lambda>arr. map_option snd (ni_testbus_file_new name arr mode (snd st)))"
| "fs_apply (Share i j k) st =
     (case member_at (fst st) j k of None \<Rightarrow> Some st
      | Some a \<Rightarrow> with_array st i (\<lambda>arr. ni_testbus_file_array_append arr a (snd st)))"
| "fs_apply (RemoveFile i j k) st =
     (case member_at (fst st) j k of None \<Rightarrow> Some st
      | Some a \<Rightarrow> with_array st i (\<lambda>arr. map_option snd (ni_testbus_file_array_remove arr a (snd st))))"
| "fs_apply (Replace i p j k) st =
     (case member_at (fst st) j k of None \<Rightarrow> Some st
      | Some a \<Rightarrow> with_array st i (\<lambda>arr. if p < length (fa_data arr) then ni_testbus_file_array_set arr p a (snd st) else Some (arr, snd st)))"
| "fs_apply (MergeInto i j) st =
     (if j < length (fst st) then with_array st i (\<lambda>arr. ni_testbus_file_array_merge arr (fst st ! j) (snd st)) else Some st)"
| "fs_apply (Destroy i) st = with_array st i (\<lambda>arr. ni_testbus_file_array_destroy arr (snd st))"
| "fs_apply (DropCache j k) st =
     (case member_at (fst st) j k of None \<Rightarrow> Some st
      | Some a \<Rightarrow> map_option (Pair (fst st)) (ni_testbus_file_drop_cache a (snd st)))"

fun fs_run :: "fs_op list \<Rightarrow> fileset \<Rightarrow> fileset option" where
  "fs_run [] st = Some st"
| "fs_run (op # ops) st = do { st1 \<leftarrow> fs_apply op st; fs_run ops st1 }"

definition references :: "ni_testbus_file_array list \<Rightarrow> nat \<Rightarrow> nat" where
  "references arrs a = count_list (concat (map fa_data arrs)) a"

definition fileset_inv :: "fileset \<Rightarrow> bool" where
  "fileset_inv st \<longleftrightarrow> counted (snd st) (references (fst st))"

lemma references_covers: "i < length arrs \<Longrightarrow> covers (references arrs) (fa_data (arrs ! i))"
proof (induction arrs arbitrary: i)
  case (Cons x arrs)
  then show ?case by (cases i) (auto simp: covers_def references_def trans_le_add2)
qed simp

lemma references_update:
  "i < length arrs \<Longrightarrow> references (arrs[i := arr]) = moved (references arrs) (fa_data (arrs ! i)) (fa_data arr)"
proof (induction arrs arbitrary: i)
  case (Cons x arrs)
  show ?case
  proof (cases i)
    case 0
    then show ?thesis by (auto simp: references_def moved_def fun_eq_iff)
  next
    case (Suc j)
    then have "references (arrs[j := arr]) a = moved (references arrs) (fa_data (arrs ! j)) (fa_data arr) a" for a
      using Cons by simp
    moreover have "covers (references arrs) (fa_data (arrs ! j))" using references_covers [of j arrs] Cons.prems Suc by simp
    moreover have "references (x # l) a = count_list (fa_data x) a + references l a" for l a by (simp add: references_def)
    ultimately have "references (x # arrs[j := arr]) a = moved (references (x # arrs)) (fa_data (arrs ! j)) (fa_data arr) a" for a
      unfolding covers_def moved_def by (metis Nat.add_diff_assoc add.assoc)
    then show ?thesis using Suc by (simp add: fun_eq_iff)
  qed
qed simp

lemma with_array_ok:
  assumes "fileset_inv st"
    and "\<And>arr. covers (references (fst st)) (fa_data arr) \<Longrightarrow>
       \<exists>arr1 fs1. f arr = Some (arr1, fs1) \<and> counted fs1 (moved (references (fst st)) (fa_data arr) (fa_data arr1))"
  shows "\<exists>st1. with_array st i f = Some st1 \<and> fileset_inv st1"
proof (cases "i < length (fst st)")
  case True
  from assms(2) [OF references_covers [OF True]] obtain arr1 fs1 where
    "f (fst st ! i) = Some (arr1, fs1)" "counted fs1 (moved (references (fst st)) (fa_data (fst st ! i)) (fa_data arr1))" by blast
  then show ?thesis using True references_update [OF True, of arr1] by (simp add: with_array_def fileset_inv_def)
qed (use assms(1) in \<open>simp add: with_array_def\<close>)

lemma member_at_pos: "member_at arrs j k = Some a \<Longrightarrow> 0 < references arrs a"
  using covers_pos [OF references_covers [of j arrs], of a] by (auto simp: member_at_def split: if_splits)

lemma moved_same: "covers cnt xs \<Longrightarrow> moved cnt xs xs = cnt"
  by (auto simp: moved_def covers_def fun_eq_iff)

lemma fs_apply_ok:
  assumes inv: "fileset_inv st"
  shows "\<exists>st1. fs_apply op st = Some st1 \<and> fileset_inv st1"
proof -
  have c: "counted (snd st) (references (fst st))" using inv by (simp add: fileset_inv_def)
  note W = with_array_ok [OF inv]
  show ?thesis
  proof (cases op)
    case (NewFile i name mode)
    show ?thesis unfolding NewFile fs_apply.simps by (rule W) (use file_new_ok [OF c, of _ name mode] in fastforce)
  next
    case (Share i j k)
    show ?thesis
    proof (cases "member_at (fst st) j k")
      case (Some a)
      show ?thesis unfolding Share fs_apply.simps Some option.case
        by (rule W) (use array_append_ok [OF c _ member_at_pos [OF Some]] in blast)
    qed (use inv Share in simp)
  next
    case (RemoveFile i j k)
    show ?thesis
    proof (cases "member_at (fst st) j k")
      case (Some a)
      show ?thesis unfolding RemoveFile fs_apply.simps Some option.case
        by (rule W) (use array_remove_ok [OF c, of _ a] in fastforce)
    qed (use inv RemoveFile in simp)
  next
    case (Replace i p j k)
    show ?thesis
    proof (cases "member_at (fst st) j k")
      case (Some a)
      show ?thesis unfolding Replace fs_apply.simps Some option.case
        by (rule W) (use array_set_ok [OF c _ _ member_at_pos [OF Some]] moved_same c in \<open>fastforce split: if_splits\<close>)
    qed (use inv Replace in simp)
  next
    case (MergeInto i j)
    show ?thesis
    proof (cases "j < length (fst st)")
      case True
      have p: "\<forall>a\<in>set (fa_data (fst st ! j)). 0 < references (fst st) a" using covers_pos references_covers [OF True] by blast
      have e: "fs_apply op st = with_array st i (\<lambda>arr. ni_testbus_file_array_merge arr (fst st ! j) (snd st))"
        using MergeInto True by simp
      show ?thesis unfolding e ni_testbus_file_array_merge_def by (rule W) (rule array_merge_ok [OF c _ p])
    qed (use inv MergeInto in simp)
  next
    case (Destroy i)
    show ?thesis unfolding Destroy fs_apply.simps
      by (rule W) (use array_destroy_ok [OF c] in \<open>fastforce simp: ni_testbus_file_array_init_def\<close>)
  next
    case (DropCache j k)
    show ?thesis
    proof (cases "member_at (fst st) j k")
      case (Some a)
      then show ?thesis using drop_cache_ok [OF c member_at_pos [OF Some]] DropCache by (auto simp: fileset_inv_def)
    qed (use inv DropCache in simp)
  qed
qed

definition no_files :: file_store where
  "no_files = \<lparr>fs_files = (\<lambda>a. None), fs_next = 0, fs_inum = 1, fs_unlinked = []\<rparr>"

text \<open>C19: Reference counts are exact.  Whatever sequence of operations is made on any number of new file arrays
  - creating, sharing, removing, replacing and merging files, destroying arrays, dropping caches - no operation
  uses a freed file or fails an assertion, and at the end a file exists exactly when some array refers to it, its
  count being the number of those references.\<close>

theorem file_refcounts_exact:
  "\<exists>arrs fs. fs_run ops (replicate n ni_testbus_file_array_init, no_files) = Some (arrs, fs)
     \<and> (\<forall>a. references arrs a = (case fs_files fs a of None \<Rightarrow> 0 | Some f \<Rightarrow> f_refcount f)
            \<and> (fs_files fs a = None \<longleftrightarrow> references arrs a = 0))"
proof -
  have run: "fileset_inv st \<Longrightarrow> \<exists>st1. fs_run ops st = Some st1 \<and> fileset_inv st1" for st
  proof (induction ops arbitrary: st)
    case (Cons op ops)
    obtain st1 where "fs_apply op st = Some st1" "fileset_inv st1" using fs_apply_ok [OF Cons.prems] by blast
    then show ?case using Cons.IH by auto
  qed simp
  have "references (replicate n ni_testbus_file_array_init) a = 0" for a
    by (induction n) (simp_all add: references_def ni_testbus_file_array_init_def)
  then have "fileset_inv (replicate n ni_testbus_file_array_init, no_files)" by (simp add: fileset_inv_def counted_def no_files_def)
  from run [OF this] obtain arrs fs where r: "fs_run ops (replicate n ni_testbus_file_array_init, no_files) = Some (arrs, fs)"
      "counted fs (references arrs)" by (auto simp: fileset_inv_def)
  have "references arrs a = (case fs_files fs a of None \<Rightarrow> 0 | Some f \<Rightarrow> f_refcount f)" for a
    using r(2) unfolding counted_def by blast
  moreover have "0 < f_refcount f" if "fs_files fs a = Some f" for a f using r(2) that unfolding counted_def by blast
  ultimately have "references arrs a = (case fs_files fs a of None \<Rightarrow> 0 | Some f \<Rightarrow> f_refcount f)
            \<and> (fs_files fs a = None \<longleftrightarrow> references arrs a = 0)" for a
    by (cases "fs_files fs a") force+
  then show ?thesis using r(1) by blast
qed

section \<open>Files on the bus\<close>

text \<open>Only the metadata travels: name, inode and sequence numbers, mode, object path.\<close>

definition ni_testbus_file_serialize :: "ni_testbus_file \<Rightarrow> ni_dbus_variant \<Rightarrow> (bool \<times> ni_dbus_variant) option" where
  "ni_testbus_file_serialize file dict = do {
     d0 \<leftarrow> ni_dbus_variant_init_dict dict;
     (_, d1) \<leftarrow> ni_dbus_dict_add_string d0 ''name'' (f_name file);
     (_, d2) \<leftarrow> ni_dbus_dict_add_uint32 d1 ''inum'' (f_inum file);
     (_, d3) \<leftarrow> ni_dbus_dict_add_uint32 d2 ''iseq'' (f_iseq file);
     (_, d4) \<leftarrow> ni_dbus_dict_add_uint32 d3 ''mode'' (f_mode file);
     (_, d5) \<leftarrow> (case f_object_path file of None \<Rightarrow> Some (True, d4)
                | Some path \<Rightarrow> ni_dbus_dict_add_string d4 ''object-path'' (Some path));
     Some (True, d5) }"

definition ni_testbus_file_deserialize ::
    "ni_dbus_variant \<Rightarrow> ni_testbus_file_array \<Rightarrow> file_store \<Rightarrow> (nat option \<times> ni_testbus_file_array \<times> file_store) option" where
  "ni_testbus_file_deserialize dict container fs = do {
     rname \<leftarrow> ni_dbus_dict_get_string dict ''name'';
     (case rname of None \<Rightarrow> Some (None, container, fs)
      | Some name \<Rightarrow> do {
          rinum \<leftarrow> ni_dbus_dict_get_uint32 dict ''inum'';
          riseq \<leftarrow> ni_dbus_dict_get_uint32 dict ''iseq'';
          rmode \<leftarrow> ni_dbus_dict_get_uint32 dict ''mode'';
          (case (rinum, riseq, rmode) of
             (Some inum, Some iseq, Some mode) \<Rightarrow> do {
               (a, arr1, fs1) \<leftarrow> ni_testbus_file_new name container mode fs;
               f \<leftarrow> fs_files fs1 a;
               rpath \<leftarrow> ni_dbus_dict_get_string dict ''object-path'';
               let f1 = f\<lparr>f_inum := inum, f_iseq := iseq\<rparr>;
               let f2 = (case rpath of None \<Rightarrow> f1 | Some path \<Rightarrow> f1\<lparr>f_object_path := path\<rparr>);
               Some (Some a, arr1, put_file a f2 fs1) }
           | _ \<Rightarrow> Some (None, container, fs)) }) }"

fun serialize_files :: "nat list \<Rightarrow> file_store \<Rightarrow> ni_dbus_variant \<Rightarrow> (bool \<times> ni_dbus_variant) option" where
  "serialize_files [] fs d = Some (True, d)"
| "serialize_files (a # as) fs d = do {
     (r, d1) \<leftarrow> ni_dbus_dict_array_add d;
     i \<leftarrow> r;
     f \<leftarrow> fs_files fs a;
     b \<leftarrow> variant_array_value d1;
     e \<leftarrow> arr_get b i;
     (ok, e1) \<leftarrow> ni_testbus_file_serialize f e;
     d2 \<leftarrow> update_element d1 i (\<lambda>_. Some e1);
     (if \<not> ok then Some (False, d2) else serialize_files as fs d2) }"

definition ni_testbus_file_array_serialize ::
    "ni_testbus_file_array \<Rightarrow> file_store \<Rightarrow> ni_dbus_variant \<Rightarrow> (bool \<times> ni_dbus_variant) option" where
  "ni_testbus_file_array_serialize arr fs dict_array = do {
     d \<leftarrow> ni_dbus_dict_array_init dict_array; serialize_files (fa_data arr) fs d }"

fun deserialize_files :: "nat list \<Rightarrow> ni_dbus_variant \<Rightarrow> ni_testbus_file_array \<Rightarrow> file_store
    \<Rightarrow> (bool \<times> ni_testbus_file_array \<times> file_store) option" where
  "deserialize_files [] d arr fs = Some (True, arr, fs)"
| "deserialize_files (i # is) d arr fs = do {
     e \<leftarrow> ni_dbus_dict_array_at d i;
     (case e of None \<Rightarrow> Some (False, arr, fs)
      | Some dict \<Rightarrow> do {
          (r, arr1, fs1) \<leftarrow> ni_testbus_file_deserialize dict arr fs;
          (if r = None then Some (False, arr1, fs1) else deserialize_files is d arr1 fs1) }) }"

definition ni_testbus_file_array_deserialize ::
    "ni_dbus_variant \<Rightarrow> file_store \<Rightarrow> (ni_testbus_file_array option \<times> file_store) option" where
  "ni_testbus_file_array_deserialize dict_array fs = do {
     (ok, arr, fs1) \<leftarrow> deserialize_files [0..<v_len dict_array] dict_array ni_testbus_file_array_new fs;
     (if ok then Some (Some arr, fs1)
      else do { fs2 \<leftarrow> ni_testbus_file_array_free arr fs1; Some (None, fs2) }) }"

definition file_items :: "ni_testbus_file \<Rightarrow> (cstring \<times> dict_item) list" where
  "file_items f = [(''name'', IString (f_name f)), (''inum'', IUInt32 (f_inum f)), (''iseq'', IUInt32 (f_iseq f)),
     (''mode'', IUInt32 (f_mode f))] @ (case f_object_path f of None \<Rightarrow> [] | Some p \<Rightarrow> [(''object-path'', IString (Some p))])"

definition file_entries :: "ni_testbus_file \<Rightarrow> dict_entry list" where
  "file_entries f = map (\<lambda>(k, it). Entry (Some k) (item_variant it)) (file_items f)"

lemma file_serialize_ok:
  assumes "can_free v"
  shows "\<exists>d. ni_testbus_file_serialize f v = Some (True, d) \<and> has_entries d (file_entries f)"
proof -
  obtain d0 where d0: "ni_dbus_variant_init_dict v = Some d0" "has_entries d0 []" using has_entries_new [OF assms] by blast
  obtain d where d: "add_items d0 (file_items f) = Some d" "has_entries d (file_entries f)"
    using has_entries_add_items [OF d0(2), of "file_items f"] by (auto simp: file_entries_def)
  from d(1) d0(1) have "ni_testbus_file_serialize f v = Some (True, d)"
    by (cases "f_object_path f") (auto simp: ni_testbus_file_serialize_def file_items_def dest!: add_items_step)
  then show ?thesis using d(2) by blast
qed

lemma serialize_files_ok:
  "has_dicts d ds \<Longrightarrow> \<forall>a\<in>set as. fs_files fs a \<noteq> None \<Longrightarrow>
     \<exists>d2 es. serialize_files as fs d = Some (True, d2) \<and> has_dicts d2 (ds @ es)
       \<and> list_all2 (\<lambda>e a. has_entries e (file_entries (the (fs_files fs a)))) es as"
proof (induction as arbitrary: d ds)
  case (Cons a as)
  obtain f where f: "fs_files fs a = Some f" using Cons.prems(2) by auto
  obtain d1 e where d1: "ni_dbus_dict_array_add d = Some (Some (length ds), d1)" "has_dicts d1 (ds @ [e])" "can_free e"
    using has_dicts_add [OF Cons.prems(1)] by blast
  obtain e1 where e1: "ni_testbus_file_serialize f e = Some (True, e1)" "has_entries e1 (file_entries f)"
    using file_serialize_ok [OF d1(3)] by blast
  obtain d2 where d2: "update_element d1 (length ds) (\<lambda>_. Some e1) = Some d2" "has_dicts d2 (ds @ [e1])"
    using has_dicts_update [OF d1(2)] by blast
  obtain b where b: "variant_array_value d1 = Some b" "arr_get b (length ds) = Some e" using has_dicts_element [OF d1(2)] by blast
  obtain d3 es where d3: "serialize_files as fs d2 = Some (True, d3)" "has_dicts d3 ((ds @ [e1]) @ es)"
      "list_all2 (\<lambda>e a. has_entries e (file_entries (the (fs_files fs a)))) es as"
    using Cons.IH [OF d2(2)] Cons.prems(2) by fastforce
  have "serialize_files (a # as) fs d = Some (True, d3)" using d1(1) f b e1(1) d2(1) d3(1) by simp
  then show ?case using d3(2,3) f e1(2) by (intro exI [of _ d3] exI [of _ "e1 # es"]) simp
qed (auto intro: exI [of _ "[]"])

lemma file_new_eq:
  "ni_testbus_file_new name arr mode fs =
     Some (fs_next fs, arr\<lparr>fa_data := fa_data arr @ [fs_next fs], fa_next_id := fa_next_id arr + 1\<rparr>,
       fs\<lparr>fs_files := (fs_files fs)(fs_next fs \<mapsto>
            \<lparr>f_refcount = 1, f_id = fa_next_id arr, f_object_path = None, f_name = name,
             f_mode = (if mode \<noteq> 0 then mode else NI_TESTBUS_FILE_READ), f_inum = fs_inum fs, f_iseq = 0,
             f_instance_path = None, f_data = None, f_size = 0\<rparr>),
          fs_next := fs_next fs + 1, fs_inum := fs_inum fs + 1\<rparr>)"
  by (cases arr, cases fs) (simp add: ni_testbus_file_new_def ni_testbus_file_array_append_def ni_testbus_file_get_def ni_testbus_file_put_def put_file_def Let_def)

text \<open>What arrives of a file; the receiver counts one reference, the array's.\<close>

definition received :: "ni_testbus_file \<Rightarrow> nat \<times> cstring option \<times> u32 \<times> u32 \<times> u32 \<times> cstring option" where
  "received f = (1, f_name f, f_inum f, f_iseq f, if f_mode f \<noteq> 0 then f_mode f else NI_TESTBUS_FILE_READ, f_object_path f)"

definition file_state :: "ni_testbus_file \<Rightarrow> nat \<times> cstring option \<times> u32 \<times> u32 \<times> u32 \<times> cstring option" where
  "file_state f = (f_refcount f, f_name f, f_inum f, f_iseq f, f_mode f, f_object_path f)"

lemma file_deserialize_ok:
  assumes "has_entries d (file_entries f)"
  shows "\<exists>arr1 fs1 g. ni_testbus_file_deserialize d arr fs = Some (Some (fs_next fs), arr1, fs1)
     \<and> fa_data arr1 = fa_data arr @ [fs_next fs] \<and> fs_next fs1 = fs_next fs + 1
     \<and> fs_files fs1 = (fs_files fs)(fs_next fs \<mapsto> g) \<and> file_state g = received f"
proof -
  have g: "dict_get_with get_val d k = (case dict_map (file_entries f) k of None \<Rightarrow> Some None | Some v \<Rightarrow> get_val v)"
    for get_val :: "ni_dbus_variant \<Rightarrow> 'b option option" and k by (rule has_entries_get [OF assms])
  note read = dict_get_defs g file_entries_def file_items_def dict_map_Cons dict_map_Nil item_get
  have r: "ni_dbus_dict_get_string d ''name'' = Some (Some (f_name f))" "ni_dbus_dict_get_uint32 d ''inum'' = Some (Some (f_inum f))"
      "ni_dbus_dict_get_uint32 d ''iseq'' = Some (Some (f_iseq f))" "ni_dbus_dict_get_uint32 d ''mode'' = Some (Some (f_mode f))"
      "ni_dbus_dict_get_string d ''object-path'' = Some (case f_object_path f of None \<Rightarrow> None | Some p \<Rightarrow> Some (Some p))"
    by (simp_all add: read del: item_variant.simps split: option.split)
  define g where "g = \<lparr>f_refcount = 1, f_id = fa_next_id arr, f_object_path = f_object_path f, f_name = f_name f,
    f_mode = (if f_mode f \<noteq> 0 then f_mode f else NI_TESTBUS_FILE_READ), f_inum = f_inum f, f_iseq = f_iseq f,
    f_instance_path = None, f_data = None, f_size = 0\<rparr>"
  have "\<exists>arr1 fs1. ni_testbus_file_deserialize d arr fs = Some (Some (fs_next fs), arr1, fs1)
     \<and> fa_data arr1 = fa_data arr @ [fs_next fs] \<and> fs_next fs1 = fs_next fs + 1 \<and> fs_files fs1 = (fs_files fs)(fs_next fs \<mapsto> g)"
    using r by (cases "f_object_path f") (simp_all add: ni_testbus_file_deserialize_def file_new_eq put_file_def g_def Let_def)
  moreover have "file_state g = received f" by (simp add: file_state_def received_def g_def)
  ultimately show ?thesis by blast
qed

lemma deserialize_files_ok:
  assumes "has_dicts v ds" "list_all2 (\<lambda>e f. has_entries e (file_entries f)) ds gs"
  shows "k \<le> length ds \<Longrightarrow> \<exists>arr1 fs1. deserialize_files [k..<length ds] v arr fs = Some (True, arr1, fs1)
     \<and> fa_data arr1 = fa_data arr @ [fs_next fs..<fs_next fs + (length ds - k)]
     \<and> map (\<lambda>a. map_option file_state (fs_files fs1 a)) [fs_next fs..<fs_next fs + (length ds - k)] = map (\<lambda>f. Some (received f)) (drop k gs)
     \<and> (\<forall>a < fs_next fs. fs_files fs1 a = fs_files fs a)"
proof (induction "length ds - k" arbitrary: k arr fs)
  case 0
  then show ?case using list_all2_lengthD [OF assms(2)] by simp
next
  case (Suc n)
  have k: "k < length ds" "k < length gs" using Suc(2) list_all2_lengthD [OF assms(2)] by simp_all
  have at: "ni_dbus_dict_array_at v k = Some (Some (ds ! k))" using has_dicts_at [OF assms(1), of k] k by simp
  have he: "has_entries (ds ! k) (file_entries (gs ! k))" using assms(2) k by (simp add: list_all2_conv_all_nth)
  obtain arr1 fs1 g where 1: "ni_testbus_file_deserialize (ds ! k) arr fs = Some (Some (fs_next fs), arr1, fs1)"
      "fa_data arr1 = fa_data arr @ [fs_next fs]" "fs_next fs1 = fs_next fs + 1"
      "fs_files fs1 = (fs_files fs)(fs_next fs \<mapsto> g)" "file_state g = received (gs ! k)"
    using file_deserialize_ok [OF he, of arr fs] by blast
  have "n = length ds - Suc k" "Suc k \<le> length ds" using Suc(2) by simp_all
  from Suc(1) [OF this, of arr1 fs1] obtain arr2 fs2 where
    2: "deserialize_files [Suc k..<length ds] v arr1 fs1 = Some (True, arr2, fs2)"
      "fa_data arr2 = fa_data arr1 @ [fs_next fs1..<fs_next fs1 + (length ds - Suc k)]"
      "map (\<lambda>a. map_option file_state (fs_files fs2 a)) [fs_next fs1..<fs_next fs1 + (length ds - Suc k)] = map (\<lambda>f. Some (received f)) (drop (Suc k) gs)"
      "\<forall>a < fs_next fs1. fs_files fs2 a = fs_files fs1 a" by blast
  have l: "length ds - k = Suc (length ds - Suc k)" using k by simp
  have c: "[fs_next fs..<fs_next fs + (length ds - k)] = fs_next fs # [fs_next fs1..<fs_next fs1 + (length ds - Suc k)]"
    unfolding l 1(3) by (subst upt_conv_Cons) simp_all
  have "deserialize_files [k..<length ds] v arr fs = Some (True, arr2, fs2)"
    using at 1(1) 2(1) k(1) by (simp add: upt_conv_Cons)
  moreover have "fs_files fs2 (fs_next fs) = Some g" using 2(4) 1(3,4) by simp
  ultimately show ?case unfolding c using 1(2-5) 2(2-4) k(2) by (auto simp: Cons_nth_drop_Suc [symmetric])
qed

text \<open>C20: A set of files arrives as it was sent.  Deserialising what another process made of a file array gives,
  in the same order, new files with the name, inode and sequence numbers, mode (read-only when it was 0) and
  object path of the originals, one reference each, and touches no other file of the receiver.\<close>

theorem file_array_roundtrip:
  assumes "\<forall>a\<in>set (fa_data arr). fs_files fs a \<noteq> None"
  shows "\<exists>d arr1 rs1. ni_testbus_file_array_serialize arr fs ni_dbus_variant_init = Some (True, d)
     \<and> ni_testbus_file_array_deserialize d rs = Some (Some arr1, rs1)
     \<and> map (\<lambda>a. map_option file_state (fs_files rs1 a)) (fa_data arr1) = map (\<lambda>a. map_option received (fs_files fs a)) (fa_data arr)
     \<and> (\<forall>a < fs_next rs. fs_files rs1 a = fs_files rs a)"
proof -
  obtain d0 where d0: "ni_dbus_dict_array_init ni_dbus_variant_init = Some d0" "has_dicts d0 []" using has_dicts_init by blast
  obtain d es where d: "serialize_files (fa_data arr) fs d0 = Some (True, d)" "has_dicts d es"
      "list_all2 (\<lambda>e a. has_entries e (file_entries (the (fs_files fs a)))) es (fa_data arr)"
    using serialize_files_ok [OF d0(2) assms] by auto
  let ?gs = "map (\<lambda>a. the (fs_files fs a)) (fa_data arr)"
  have g: "list_all2 (\<lambda>e f. has_entries e (file_entries f)) es ?gs" using d(3) by (simp add: list_all2_conv_all_nth)
  have n: "v_len d = length es" using d(2) by (simp add: has_dicts_def)
  obtain arr1 rs1 where r: "deserialize_files [0..<length es] d ni_testbus_file_array_new rs = Some (True, arr1, rs1)"
      "fa_data arr1 = [fs_next rs..<fs_next rs + length es]"
      "map (\<lambda>a. map_option file_state (fs_files rs1 a)) [fs_next rs..<fs_next rs + length es] = map (\<lambda>f. Some (received f)) ?gs"
      "\<forall>a < fs_next rs. fs_files rs1 a = fs_files rs a"
    using deserialize_files_ok [OF d(2) g, of 0 ni_testbus_file_array_new rs]
    by (auto simp: ni_testbus_file_array_new_def ni_testbus_file_array_init_def)
  have "map (\<lambda>f. Some (received f)) ?gs = map (\<lambda>a. map_option received (fs_files fs a)) (fa_data arr)"
    using assms by (auto simp: option.expand)
  moreover have "ni_testbus_file_array_serialize arr fs ni_dbus_variant_init = Some (True, d)"
    using d0(1) d(1) by (simp add: ni_testbus_file_array_serialize_def)
  moreover have "ni_testbus_file_array_deserialize d rs = Some (Some arr1, rs1)"
    using r(1) n by (simp add: ni_testbus_file_array_deserialize_def)
  ultimately show ?thesis using r(2-4) by auto
qed

definition one_file :: ni_testbus_file where
  "one_file = \<lparr>f_refcount = 1, f_id = 0, f_object_path = None, f_name = Some ''stdin'', f_mode = 1, f_inum = 7, f_iseq = 0,
     f_instance_path = None, f_data = None, f_size = 0\<rparr>"

lemma file_array_roundtrip_witness:
  "\<exists>d arr1 rs1. ni_testbus_file_array_serialize \<lparr>fa_data = [0], fa_next_id = 1\<rparr> (put_file 0 one_file no_files) ni_dbus_variant_init = Some (True, d)
     \<and> ni_testbus_file_array_deserialize d no_files = Some (Some arr1, rs1)
     \<and> map (\<lambda>a. map_option file_state (fs_files rs1 a)) (fa_data arr1) = [Some (1, Some ''stdin'', 7, 0, 1, None)]"
  using file_array_roundtrip [of "\<lparr>fa_data = [0], fa_next_id = 1\<rparr>" "put_file 0 one_file no_files" no_files]
  by (auto simp: put_file_def no_files_def one_file_def received_def NI_TESTBUS_FILE_READ_def)

end
