(* ===== verification/Timer.thy ===== *)
theory Timer
  imports Prelude
begin

text \<open>
  The timers of dborb/timer.c: the list of armed timers in the order of their expiry, and the retransmission
  timeouts.  A handle is the identity of a timer; the time \<open>gettimeofday\<close> gives is an argument of the functions
  that ask for it.  A callback is a sequence of calls of the timer functions, each at its own time; what a
  callback is and what it does is a parameter.
\<close>

section \<open>Times\<close>

type_synonym timeval = "int \<times> int"

text \<open>A \<open>long\<close> has 64 bits.  Unsigned results that are stored in one are cut to its range; a signed operation that
  leaves the range is undefined.\<close>

definition to_long :: "int \<Rightarrow> int" where
  "to_long x = sint (word_of_int x :: u64)"

definition long_result :: "int \<Rightarrow> int option" where
  "long_result x = (if - (2 ^ 63) \<le> x \<and> x < 2 ^ 63 then Some x else None)"

fun timercmp_less :: "timeval \<Rightarrow> timeval \<Rightarrow> bool" where
  "timercmp_less (s, u) (s', u') = (if s = s' then u < u' else s < s')"

fun timersub :: "timeval \<Rightarrow> timeval \<Rightarrow> timeval" where
  "timersub (s, u) (s', u') = (if u - u' < 0 then (s - s' - 1, u - u' + 1000000) else (s - s', u - u'))"

text \<open>The milliseconds of a difference.\<close>

definition delta_msec :: "timeval \<Rightarrow> int option" where
  "delta_msec delta = do {
     sec \<leftarrow> long_result (fst delta);
     ms \<leftarrow> long_result (sec * 1000);
     long_result (ms + snd delta div 1000) }"

section \<open>Timers\<close>

datatype callback = Alarm_handler | Callback nat

record ni_timer =
  tmr_handle :: nat
  tmr_ident :: u32
  tmr_expires :: timeval
  tmr_callback :: callback
  tmr_user_data :: nat

record timers =
  tm_list :: "ni_timer list"
  tm_id_counter :: u32
  tm_next :: nat
  tm_flags :: "nat \<Rightarrow> bool"

fun expiry :: "timeval \<Rightarrow> u64 \<Rightarrow> timeval" where
  "expiry (s, u) timeout =
     (let s1 = to_long (s + int (unat timeout div 1000)); u1 = u + int (unat timeout mod 1000) * 1000 in
      if 1000000 \<le> u1 then (to_long (s1 + 1), u1 - 1000000) else (s1, u1))"

fun insert_timer :: "ni_timer \<Rightarrow> ni_timer list \<Rightarrow> ni_timer list" where
  "insert_timer timer [] = [timer]"
| "insert_timer timer (tail # rest) =
     (if timercmp_less (tmr_expires timer) (tmr_expires tail) then timer # tail # rest else tail # insert_timer timer rest)"

definition u_ni_timer_arm :: "ni_timer \<Rightarrow> u64 \<Rightarrow> timeval \<Rightarrow> timers \<Rightarrow> timers" where
  "u_ni_timer_arm timer timeout now st =
     st\<lparr>tm_list := insert_timer (timer\<lparr>tmr_expires := expiry now timeout\<rparr>) (tm_list st)\<rparr>"

fun unlink_timer :: "nat \<Rightarrow> ni_timer list \<Rightarrow> ni_timer option \<times> ni_timer list" where
  "unlink_timer handle [] = (None, [])"
| "unlink_timer handle (timer # rest) =
     (if tmr_handle timer = handle then (Some timer, rest)
      else (let (r, ts) = unlink_timer handle rest in (r, timer # ts)))"

definition u_ni_timer_disarm :: "nat \<Rightarrow> timers \<Rightarrow> ni_timer option \<times> timers" where
  "u_ni_timer_disarm handle st = (let (r, ts) = unlink_timer handle (tm_list st) in (r, st\<lparr>tm_list := ts\<rparr>))"

definition ni_timer_register :: "u64 \<Rightarrow> callback \<Rightarrow> nat \<Rightarrow> timeval \<Rightarrow> timers \<Rightarrow> nat \<times> timers" where
  "ni_timer_register timeout callback data now st =
     (let timer = \<lparr>tmr_handle = tm_next st, tmr_ident = tm_id_counter st, tmr_expires = (0, 0), tmr_callback = callback,
                   tmr_user_data = data\<rparr> in
      (tm_next st, u_ni_timer_arm timer timeout now (st\<lparr>tm_next := tm_next st + 1, tm_id_counter := tm_id_counter st + 1\<rparr>)))"

definition ni_timer_cancel :: "nat \<Rightarrow> timers \<Rightarrow> nat option \<times> timers" where
  "ni_timer_cancel handle st =
     (let (r, st1) = u_ni_timer_disarm handle st in (map_option tmr_user_data r, st1))"

definition u_ni_timer_alarm_handler :: "nat \<Rightarrow> timers \<Rightarrow> timers" where
  "u_ni_timer_alarm_handler flag_p st = st\<lparr>tm_flags := (tm_flags st)(flag_p := True)\<rparr>"

definition ni_timer_create_alarm :: "u64 \<Rightarrow> nat \<Rightarrow> timeval \<Rightarrow> timers \<Rightarrow> nat \<times> timers" where
  "ni_timer_create_alarm timeout_ms flag_p now st =
     ni_timer_register timeout_ms Alarm_handler flag_p now (st\<lparr>tm_flags := (tm_flags st)(flag_p := False)\<rparr>)"

definition ni_timer_rearm :: "nat \<Rightarrow> u64 \<Rightarrow> timeval \<Rightarrow> timers \<Rightarrow> nat option \<times> timers" where
  "ni_timer_rearm handle timeout now st =
     (case u_ni_timer_disarm handle st of
        (Some timer, st1) \<Rightarrow> (Some handle, u_ni_timer_arm timer timeout now st1)
      | (None, st1) \<Rightarrow> (None, st1))"

text \<open>The calls a callback makes.\<close>

datatype timer_call =
    Register u64 callback nat
  | Create_alarm u64 nat
  | Cancel nat
  | Rearm nat u64

fun do_timer_call :: "timeval \<times> timer_call \<Rightarrow> timers \<Rightarrow> timers" where
  "do_timer_call (now, Register timeout callback data) st = snd (ni_timer_register timeout callback data now st)"
| "do_timer_call (now, Create_alarm timeout flag_p) st = snd (ni_timer_create_alarm timeout flag_p now st)"
| "do_timer_call (now, Cancel handle) st = snd (ni_timer_cancel handle st)"
| "do_timer_call (now, Rearm handle timeout) st = snd (ni_timer_rearm handle timeout now st)"

type_synonym callbacks = "nat \<Rightarrow> nat \<Rightarrow> nat \<Rightarrow> timers \<Rightarrow> (timeval \<times> timer_call) list"

text \<open>\<open>timer->callback(timer->user_data, timer)\<close>.\<close>

definition run_callback :: "callbacks \<Rightarrow> ni_timer \<Rightarrow> timers \<Rightarrow> timers" where
  "run_callback cb timer st =
     (case tmr_callback timer of
        Alarm_handler \<Rightarrow> u_ni_timer_alarm_handler (tmr_user_data timer) st
      | Callback c \<Rightarrow> fold do_timer_call (cb c (tmr_user_data timer) (tmr_handle timer) st) st)"

text \<open>The time is taken once, before the loop.  The timers whose callbacks were called are returned as well.
  None: callbacks that keep arming timers that have expired keep the loop busy for ever, or a wait does not fit into
  a \<open>long\<close>.\<close>

partial_function (option) ni_timer_next_timeout :: "callbacks \<Rightarrow> timeval \<Rightarrow> timers \<Rightarrow> (int \<times> timers \<times> ni_timer list) option" where
  [code]: "ni_timer_next_timeout cb now st =
     (case tm_list st of
        [] \<Rightarrow> Some (-1, st, [])
      | timer # rest \<Rightarrow>
          do {
            timeout \<leftarrow> (if timercmp_less (tmr_expires timer) now then Some 0
                       else delta_msec (timersub (tmr_expires timer) now));
            (if 0 < timeout then Some (timeout, st, [])
             else do {
               (r, st1, fired) \<leftarrow> ni_timer_next_timeout cb now (run_callback cb timer (st\<lparr>tm_list := rest\<rparr>));
               Some (r, st1, timer # fired) }) })"

section \<open>Retransmission timeouts\<close>

record ni_timeout_param =
  tp_nretries :: int
  tp_timeout :: u32
  tp_increment :: "32 word"
  tp_jitter :: "int \<times> int"
  tp_max_timeout :: u32

text \<open>The backoff callback may change the parameters; it answers with a boolean.\<close>

definition ni_timeout_recompute ::
    "(ni_timeout_param \<Rightarrow> bool \<times> ni_timeout_param) option \<Rightarrow> ni_timeout_param \<Rightarrow> bool \<times> ni_timeout_param" where
  "ni_timeout_recompute backoff_callback tmo =
     (if tp_nretries tmo = 0 then (False, tmo)
      else
        (let t1 = (if 0 \<le> sint (tp_increment tmo) then tp_timeout tmo + tp_increment tmo else push_bit 1 (tp_timeout tmo));
             t2 = (if tp_max_timeout tmo < t1 then tp_max_timeout tmo else t1);
             tmo1 = tmo\<lparr>tp_timeout := t2\<rparr> in
         case backoff_callback of None \<Rightarrow> (True, tmo1) | Some f \<Rightarrow> f tmo1))"

text \<open>\<open>rnd\<close> is what \<open>random\<close> gives, 0 to 2^31 - 1; the range is an \<open>unsigned int\<close>.\<close>

definition ni_timeout_randomize :: "nat \<Rightarrow> u64 \<Rightarrow> (int \<times> int) option \<Rightarrow> u64" where
  "ni_timeout_randomize rnd timeout jitter =
     (case jitter of
        None \<Rightarrow> timeout
      | Some (lo, hi) \<Rightarrow>
          (if lo < hi then timeout + of_int (int rnd mod ((hi - lo) mod 2 ^ 32) + lo) else timeout))"

definition u_ni_timeout_arm_msec :: "nat \<Rightarrow> timeval \<Rightarrow> u64 \<Rightarrow> (int \<times> int) option \<Rightarrow> u64 \<times> timeval" where
  "u_ni_timeout_arm_msec rnd now timeout jitter =
     (let t = ni_timeout_randomize rnd timeout jitter;
          s = to_long (fst now + int (unat t div 1000)); u = snd now + int (unat t mod 1000) * 1000 in
      (t, if u < 0 then (to_long (s - 1), u + 1000000) else if 1000000 < u then (to_long (s + 1), u - 1000000) else (s, u)))"

definition ni_timeout_arm_msec :: "nat \<Rightarrow> timeval \<Rightarrow> ni_timeout_param \<Rightarrow> u64 \<times> timeval" where
  "ni_timeout_arm_msec rnd now tp = u_ni_timeout_arm_msec rnd now (ucast (tp_timeout tp)) (Some (tp_jitter tp))"

text \<open>In seconds; the product \<open>tp->timeout * 1000\<close> is an \<open>unsigned int\<close>, the bounds of the jitter are \<open>int\<close>s.\<close>

definition ni_timeout_arm :: "nat \<Rightarrow> timeval \<Rightarrow> ni_timeout_param \<Rightarrow> u64 \<times> timeval" where
  "ni_timeout_arm rnd now tp =
     u_ni_timeout_arm_msec rnd now (ucast (tp_timeout tp * 1000)) (Some (fst (tp_jitter tp) * 1000, snd (tp_jitter tp) * 1000))"

section \<open>The list stays in the order of expiry\<close>

fun usec :: "timeval \<Rightarrow> int" where "usec (s, u) = 1000000 * s + u"

text \<open>What \<open>gettimeofday\<close> gives, long before the seconds get near the end of their range.\<close>

fun clock :: "timeval \<Rightarrow> bool" where "clock (s, u) = (0 \<le> s \<and> s < 2 ^ 62 \<and> 0 \<le> u \<and> u < 1000000)"

fun normal :: "timeval \<Rightarrow> bool" where "normal (s, u) = (0 \<le> u \<and> u < 1000000)"

definition timers_wf :: "timers \<Rightarrow> bool" where
  "timers_wf st \<longleftrightarrow> sorted (map (\<lambda>t. usec (tmr_expires t)) (tm_list st)) \<and> (\<forall>t\<in>set (tm_list st). normal (tmr_expires t))"

text \<open>Less than a millisecond left.\<close>

definition due :: "timeval \<Rightarrow> ni_timer \<Rightarrow> bool" where
  "due now t \<longleftrightarrow> usec (tmr_expires t) < usec now + 1000"

text \<open>Less than 2^63 milliseconds left.\<close>

definition near :: "timeval \<Rightarrow> timeval \<Rightarrow> bool" where
  "near now t \<longleftrightarrow> usec t < usec now + 1000 * 2 ^ 63"

definition timers_near :: "timeval \<Rightarrow> timers \<Rightarrow> bool" where
  "timers_near now st \<longleftrightarrow> (\<forall>t\<in>set (tm_list st). near now (tmr_expires t))"

lemma clock_normal: "clock t \<Longrightarrow> normal t"
  by (cases t) simp

lemma to_long_id: "- (2 ^ 63) \<le> x \<Longrightarrow> x < 2 ^ 63 \<Longrightarrow> to_long x = x"
  by (simp add: to_long_def sint_sbintrunc' signed_take_bit_int_eq_self)

lemma timercmp_less_usec: "normal a \<Longrightarrow> normal b \<Longrightarrow> timercmp_less a b \<longleftrightarrow> usec a < usec b"
  by (cases a; cases b) auto

lemma timersub_msec:
  "normal a \<Longrightarrow> normal b \<Longrightarrow> fst (timersub a b) * 1000 + snd (timersub a b) div 1000 = (usec a - usec b) div 1000"
  by (cases a; cases b) auto

lemma delta_msec_near:
  assumes "normal t" "normal now" "near now t" "usec now \<le> usec t"
  shows "delta_msec (timersub t now) = Some ((usec t - usec now) div 1000)"
proof -
  obtain s u where d: "timersub t now = (s, u)" by fastforce
  have n: "0 \<le> u" "u < 1000000" "1000000 * s + u = usec t - usec now"
    using assms(1,2) d by (cases t; cases now; auto split: if_splits)+
  have ms: "s * 1000 + u div 1000 = (usec t - usec now) div 1000" using timersub_msec [OF assms(1,2)] d by simp
  have "0 \<le> s" "1000 * s < 2 ^ 63" "s * 1000 + u div 1000 < 2 ^ 63" using n assms(3,4) by (auto simp: near_def)
  then show ?thesis using ms d n(1,2) by (simp add: delta_msec_def long_result_def)
qed

lemma expiry_normal: "normal now \<Longrightarrow> normal (expiry now timeout)"
  by (cases now) (auto simp: Let_def)

lemma expiry_usec:
  assumes "clock now"
  shows "usec (expiry now timeout) = usec now + 1000 * int (unat timeout)"
proof -
  obtain s u where n: "now = (s, u)" by fastforce
  have "int (unat timeout) = int (unat timeout div 1000) * 1000 + int (unat timeout mod 1000)"
    using div_mult_mod_eq [of "unat timeout" 1000] by (metis of_nat_add of_nat_mult of_nat_numeral)
  moreover have "int (unat timeout div 1000) < 2 ^ 55"
  proof -
    have "unat timeout < 2 ^ LENGTH(64)" by (rule unsigned_less)
    then have "unat timeout div 1000 < 2 ^ 55" by simp
    then show ?thesis by (simp del: of_nat_div)
  qed
  ultimately show ?thesis using assms unfolding n by (simp add: Let_def to_long_id del: of_nat_mod of_nat_div)
qed

lemma insert_timer_set [simp]: "set (insert_timer t ts) = insert t (set ts)"
  by (induction ts) auto

lemma insert_timer_sorted:
  assumes "sorted (map (\<lambda>t. usec (tmr_expires t)) ts)" "\<forall>x\<in>set ts. normal (tmr_expires x)" "normal (tmr_expires t)"
  shows "sorted (map (\<lambda>t. usec (tmr_expires t)) (insert_timer t ts))"
  using assms by (induction ts) (auto simp: timercmp_less_usec)

lemma insert_timer_filter: "\<not> P t \<Longrightarrow> filter P (insert_timer t ts) = filter P ts"
  by (induction ts) auto

lemma timers_wf_arm: "timers_wf st \<Longrightarrow> normal now \<Longrightarrow> timers_wf (u_ni_timer_arm t timeout now st)"
  using insert_timer_sorted [of "tm_list st" "t\<lparr>tmr_expires := expiry now timeout\<rparr>"] expiry_normal [of now timeout]
  by (simp add: timers_wf_def u_ni_timer_arm_def)

lemma unlink_timer_set: "set (snd (unlink_timer handle ts)) \<subseteq> set ts"
  by (induction ts) (auto simp: split_beta)

lemma unlink_timer_sorted: "sorted (map f ts) \<Longrightarrow> sorted (map f (snd (unlink_timer handle ts)))"
  using unlink_timer_set by (induction ts) (fastforce simp: split_beta)+

lemma unlink_timer_filter: "length (filter P (snd (unlink_timer handle ts))) \<le> length (filter P ts)"
  by (induction ts) (auto simp: split_beta)

lemma unlink_timer_some: "fst (unlink_timer handle ts) = Some t \<Longrightarrow> t \<in> set ts \<and> tmr_handle t = handle"
  by (induction ts) (auto simp: split_beta split: if_splits)

lemma timers_wf_disarm: "timers_wf st \<Longrightarrow> timers_wf (snd (u_ni_timer_disarm handle st))"
  using unlink_timer_set [of handle "tm_list st"] unlink_timer_sorted
  by (auto simp: timers_wf_def u_ni_timer_disarm_def split_beta)

lemma timers_wf_cong: "tm_list st1 = tm_list st \<Longrightarrow> timers_wf st1 = timers_wf st"
  by (simp add: timers_wf_def)

text \<open>A call is patient when it arms for a millisecond or more, at or behind the time \<open>now\<close>, and for less than
  2^63 milliseconds behind it.\<close>

definition patient_arm :: "timeval \<Rightarrow> timeval \<Rightarrow> u64 \<Rightarrow> bool" where
  "patient_arm now t timeout \<longleftrightarrow> clock t \<and> usec now \<le> usec t \<and> timeout \<noteq> 0 \<and> near now (expiry t timeout)"

fun patient :: "timeval \<Rightarrow> timeval \<times> timer_call \<Rightarrow> bool" where
  "patient now (t, Register timeout c d) = patient_arm now t timeout"
| "patient now (t, Create_alarm timeout f) = patient_arm now t timeout"
| "patient now (t, Cancel h) = True"
| "patient now (t, Rearm h timeout) = patient_arm now t timeout"

definition due_count :: "timeval \<Rightarrow> timers \<Rightarrow> nat" where
  "due_count now st = length (filter (due now) (tm_list st))"

lemma patient_armD: "patient_arm now t timeout \<Longrightarrow> normal t \<and> near now (expiry t timeout)"
  by (simp add: patient_arm_def clock_normal)

lemma arm_not_due:
  assumes "patient_arm now t timeout"
  shows "\<not> due now (timer\<lparr>tmr_expires := expiry t timeout\<rparr>)"
proof -
  have "0 < unat timeout" using assms by (simp add: patient_arm_def unat_gt_0)
  then have "1 \<le> int (unat timeout)" by linarith
  then show ?thesis unfolding due_def using expiry_usec [of t timeout] assms by (simp add: patient_arm_def)
qed

lemma arm_due_count: "patient_arm now t timeout \<Longrightarrow> due_count now (u_ni_timer_arm timer timeout t st) = due_count now st"
  using insert_timer_filter [of "due now" "timer\<lparr>tmr_expires := expiry t timeout\<rparr>" "tm_list st"] arm_not_due [of now t timeout timer]
  by (simp add: due_count_def u_ni_timer_arm_def)

lemma timers_near_arm: "timers_near now st \<Longrightarrow> patient_arm now t timeout \<Longrightarrow> timers_near now (u_ni_timer_arm timer timeout t st)"
  using patient_armD by (auto simp: timers_near_def u_ni_timer_arm_def)

lemma timers_near_disarm: "timers_near now st \<Longrightarrow> timers_near now (snd (u_ni_timer_disarm handle st))"
  using unlink_timer_set [of handle "tm_list st"] by (auto simp: timers_near_def u_ni_timer_disarm_def split_beta)

lemma disarm_due_count: "due_count now (snd (u_ni_timer_disarm handle st)) \<le> due_count now st"
  using unlink_timer_filter by (simp add: due_count_def u_ni_timer_disarm_def split_beta)

text \<open>What the loop keeps while callbacks run.\<close>

definition calm :: "timeval \<Rightarrow> nat \<Rightarrow> timers \<Rightarrow> bool" where
  "calm now n st \<longleftrightarrow> timers_wf st \<and> timers_near now st \<and> due_count now st \<le> n"

lemma calm_cong: "tm_list st1 = tm_list st \<Longrightarrow> calm now n st1 = calm now n st"
  by (simp add: calm_def timers_wf_def timers_near_def due_count_def)

lemma calm_arm: "calm now n st \<Longrightarrow> patient_arm now t timeout \<Longrightarrow> calm now n (u_ni_timer_arm timer timeout t st)"
  using timers_wf_arm timers_near_arm arm_due_count patient_armD by (auto simp: calm_def)

lemma calm_disarm: "calm now n st \<Longrightarrow> calm now n (snd (u_ni_timer_disarm handle st))"
  by (simp add: calm_def timers_wf_disarm timers_near_disarm order_trans [OF disarm_due_count])

lemma calm_register: "calm now n st \<Longrightarrow> patient_arm now t timeout \<Longrightarrow> calm now n (snd (ni_timer_register timeout cb d t st))"
  using calm_arm calm_cong [of "st\<lparr>tm_next := tm_next st + 1, tm_id_counter := tm_id_counter st + 1\<rparr>" st]
  by (simp add: ni_timer_register_def Let_def)

lemma patient_call:
  assumes "calm now n st" "patient now c"
  shows "calm now n (do_timer_call c st)"
proof -
  obtain t k where c: "c = (t, k)" by fastforce
  show ?thesis
  proof (cases k)
    case (Rearm h timeout)
    then show ?thesis using assms c calm_disarm [OF assms(1), of h] calm_arm
      by (cases "u_ni_timer_disarm h st") (auto simp: ni_timer_rearm_def split: option.split)
  qed (use assms c calm_disarm [OF assms(1)] calm_register calm_cong [of "st\<lparr>tm_flags := x\<rparr>" st for x] in
      \<open>simp_all add: ni_timer_create_alarm_def ni_timer_cancel_def split_beta\<close>)
qed

lemma patient_calls: "calm now n st \<Longrightarrow> \<forall>c\<in>set cs. patient now c \<Longrightarrow> calm now n (fold do_timer_call cs st)"
  by (induction cs arbitrary: st) (simp_all add: patient_call)

lemma run_callback_patient:
  assumes "calm now n st" "\<forall>c d h st. \<forall>x\<in>set (cb c d h st). patient now x"
  shows "calm now n (run_callback cb t st)"
  using assms patient_calls [OF assms(1)] calm_cong [of "st\<lparr>tm_flags := x\<rparr>" st for x]
  by (cases "tmr_callback t") (simp_all add: run_callback_def u_ni_timer_alarm_handler_def)

lemma next_timeout_head:
  assumes "normal (tmr_expires t)" "normal now" "near now (tmr_expires t)"
  obtains v where "(if timercmp_less (tmr_expires t) now then Some 0 else delta_msec (timersub (tmr_expires t) now)) = Some v"
    "0 < v \<longleftrightarrow> \<not> due now t" "\<not> due now t \<Longrightarrow> v = (usec (tmr_expires t) - usec now) div 1000"
  using delta_msec_near [OF assms] timercmp_less_usec [OF assms(1,2)] that
    pos_imp_zdiv_pos_iff [of 1000 "usec (tmr_expires t) - usec now"]
  by (cases "usec (tmr_expires t) < usec now") (auto simp: due_def)

lemma next_timeout_due:
  assumes "tm_list st = t # ts" "normal (tmr_expires t)" "normal now" "near now (tmr_expires t)" "due now t"
  shows "ni_timer_next_timeout cb now st =
     do { (r, st1, fired) \<leftarrow> ni_timer_next_timeout cb now (run_callback cb t (st\<lparr>tm_list := ts\<rparr>)); Some (r, st1, t # fired) }"
proof -
  obtain v where "(if timercmp_less (tmr_expires t) now then Some 0 else delta_msec (timersub (tmr_expires t) now)) = Some v" "\<not> 0 < v"
    using next_timeout_head [OF assms(2-4)] assms(5) by metis
  then show ?thesis using assms(1) by (subst ni_timer_next_timeout.simps) simp
qed

lemma next_timeout_wait:
  assumes "tm_list st = t # ts" "normal (tmr_expires t)" "normal now" "near now (tmr_expires t)" "\<not> due now t"
  shows "ni_timer_next_timeout cb now st = Some ((usec (tmr_expires t) - usec now) div 1000, st, [])"
proof -
  obtain v where "(if timercmp_less (tmr_expires t) now then Some 0 else delta_msec (timersub (tmr_expires t) now)) = Some v" "0 < v"
      "v = (usec (tmr_expires t) - usec now) div 1000"
    using next_timeout_head [OF assms(2-4)] assms(5) by metis
  then show ?thesis using assms(1) by (subst ni_timer_next_timeout.simps) simp
qed

text \<open>What the loop returns: the wait for the first timer it leaves.\<close>

definition first_wait :: "timeval \<Rightarrow> ni_timer list \<Rightarrow> int" where
  "first_wait now ts = (case ts of [] \<Rightarrow> -1 | t # _ \<Rightarrow> (usec (tmr_expires t) - usec now) div 1000)"

text \<open>What the loop leaves: nothing that is due.\<close>

lemma next_timeout_ok:
  assumes now: "normal now" and cb: "\<forall>c d h st. \<forall>x\<in>set (cb c d h st). patient now x"
  shows "timers_wf st \<Longrightarrow> timers_near now st \<Longrightarrow> \<exists>st1 fired. ni_timer_next_timeout cb now st = Some (first_wait now (tm_list st1), st1, fired)
     \<and> timers_wf st1 \<and> list_all (due now) fired \<and> list_all (\<lambda>t. \<not> due now t) (tm_list st1)"
proof (induction "due_count now st" arbitrary: st rule: less_induct)
  case less
  show ?case
  proof (cases "tm_list st")
    case Nil
    then show ?thesis using less.prems by (subst ni_timer_next_timeout.simps) (simp add: first_wait_def)
  next
    case (Cons t ts)
    have nt: "normal (tmr_expires t)" "near now (tmr_expires t)" using less.prems Cons by (simp_all add: timers_wf_def timers_near_def)
    show ?thesis
    proof (cases "due now t")
      case False
      have "list_all (\<lambda>t. \<not> due now t) (tm_list st)"
        using False less.prems Cons by (auto simp: timers_wf_def due_def list_all_iff)
      then show ?thesis using next_timeout_wait [OF Cons nt(1) now nt(2) False, of cb] less.prems Cons by (simp add: first_wait_def)
    next
      case True
      let ?st = "run_callback cb t (st\<lparr>tm_list := ts\<rparr>)"
      have "calm now (due_count now (st\<lparr>tm_list := ts\<rparr>)) (st\<lparr>tm_list := ts\<rparr>)"
        using less.prems Cons by (simp add: calm_def timers_wf_def timers_near_def)
      then have "calm now (due_count now (st\<lparr>tm_list := ts\<rparr>)) ?st" by (rule run_callback_patient [OF _ cb])
      then have wf: "timers_wf ?st" "timers_near now ?st" and "due_count now ?st \<le> due_count now (st\<lparr>tm_list := ts\<rparr>)"
        by (simp_all add: calm_def)
      moreover have "due_count now (st\<lparr>tm_list := ts\<rparr>) < due_count now st" using True Cons by (simp add: due_count_def)
      ultimately have lt: "due_count now ?st < due_count now st" by simp
      show ?thesis using less.hyps [OF lt wf] next_timeout_due [OF Cons nt(1) now nt(2) True, of cb] True by fastforce
    qed
  qed
qed

text \<open>C23: Waiting for a timer always comes to an end.  When the callbacks arm timers only for a millisecond or
  more, at times not before the loop took its own, and no timer expires 2^63 milliseconds or more behind that time,
  so that the waits fit into a \<open>long\<close>, \<open>ni_timer_next_timeout\<close> returns: the callbacks it called are of timers with
  less than a millisecond left, no timer it leaves is that close, the list is still in the order of expiry, and the
  result is the time to the first of them in milliseconds, -1 when there is none.\<close>

theorem ni_timer_next_timeout_returns:
  assumes "timers_wf st" "timers_near now st" "normal now" "\<forall>c d h st. \<forall>x\<in>set (cb c d h st). patient now x"
  shows "\<exists>st1 fired. ni_timer_next_timeout cb now st = Some (first_wait now (tm_list st1), st1, fired)
     \<and> timers_wf st1 \<and> list_all (due now) fired \<and> list_all (\<lambda>t. \<not> due now t) (tm_list st1)"
  using assms by (intro next_timeout_ok)

definition no_timers :: timers where
  "no_timers = \<lparr>tm_list = [], tm_id_counter = 0, tm_next = 0, tm_flags = (\<lambda>_. False)\<rparr>"

text \<open>A periodic timer of 5 milliseconds.\<close>

definition periodic :: callbacks where
  "periodic c d h st = [((1, 0), Register 5 (Callback 0) d)]"

lemma ni_timer_next_timeout_returns_witness:
  "\<exists>st1 fired. ni_timer_next_timeout periodic (1, 0) (snd (ni_timer_register 0 (Callback 0) 7 (1, 0) no_timers))
       = Some (first_wait (1, 0) (tm_list st1), st1, fired)
     \<and> timers_wf st1 \<and> list_all (due (1, 0)) fired \<and> list_all (\<lambda>t. \<not> due (1, 0) t) (tm_list st1)"
  by (rule ni_timer_next_timeout_returns)
    (simp_all add: periodic_def no_timers_def ni_timer_register_def u_ni_timer_arm_def timers_wf_def timers_near_def near_def
       patient_arm_def to_long_id)

text \<open>A timer armed for 2^63 milliseconds: the wait is not a \<open>long\<close>.\<close>

lemma timeout_overflows: "ni_timer_next_timeout cb (1, 0) (snd (ni_timer_register (2 ^ 63) (Callback 0) 7 (1, 0) no_timers)) = None"
  by (subst ni_timer_next_timeout.simps)
    (simp add: no_timers_def ni_timer_register_def u_ni_timer_arm_def to_long_id delta_msec_def long_result_def)

section \<open>Timers fire in the order of expiry\<close>

abbreviation deadline :: "ni_timer \<Rightarrow> int" where "deadline t \<equiv> usec (tmr_expires t)"

text \<open>The new timer goes behind those that expire at the same time: the list is a stable sort of the timers
  in the order they were armed.\<close>

lemma insert_timer_filter_key:
  assumes "sorted (map deadline ts)" "\<forall>x\<in>set ts. normal (tmr_expires x)" "normal (tmr_expires t)"
  shows "filter (\<lambda>x. k = deadline x) (insert_timer t ts) = filter (\<lambda>x. k = deadline x) ts @ (if k = deadline t then [t] else [])"
  using assms
proof (induction ts)
  case (Cons a ts)
  show ?case
  proof (cases "deadline t < deadline a")
    case True
    have "filter (\<lambda>x. deadline t = deadline x) (a # ts) = []" unfolding filter_empty_conv using True Cons.prems(1) by auto
    then show ?thesis using True Cons.prems(2,3) by (auto simp: timercmp_less_usec)
  qed (use Cons in \<open>auto simp: timercmp_less_usec\<close>)
qed simp

lemma insert_timer_mset: "mset (insert_timer t ts) = add_mset t (mset ts)"
  by (induction ts) auto

lemma insert_timer_sort:
  assumes "\<forall>x\<in>set ts. normal (tmr_expires x)" "normal (tmr_expires t)"
  shows "insert_timer t (sort_key deadline ts) = sort_key deadline (ts @ [t])"
proof (rule properties_for_sort_key [symmetric])
  have n: "\<forall>x\<in>set (sort_key deadline ts). normal (tmr_expires x)" using assms(1) by simp
  show "mset (insert_timer t (sort_key deadline ts)) = mset (ts @ [t])" by (simp add: insert_timer_mset)
  show "sorted (map deadline (insert_timer t (sort_key deadline ts)))"
    using insert_timer_sorted [OF _ n assms(2)] by simp
  fix k assume "k \<in> set (insert_timer t (sort_key deadline ts))"
  show "filter (\<lambda>x. deadline k = deadline x) (insert_timer t (sort_key deadline ts)) = filter (\<lambda>x. deadline k = deadline x) (ts @ [t])"
    using insert_timer_filter_key [OF _ n assms(2), of "deadline k"] sort_key_stable [of deadline "deadline k" ts]
    by (simp add: eq_commute [of "deadline k"])
qed

text \<open>Timers registered one after the other: the time, the timeout, the callback and its data.\<close>

type_synonym request = "timeval \<times> u64 \<times> callback \<times> nat"

fun register_all :: "request list \<Rightarrow> timers \<Rightarrow> timers" where
  "register_all [] st = st"
| "register_all ((now, timeout, c, d) # rs) st = register_all rs (snd (ni_timer_register timeout c d now st))"

fun requested :: "nat \<Rightarrow> request \<Rightarrow> ni_timer" where
  "requested i (now, timeout, c, d) =
     \<lparr>tmr_handle = i, tmr_ident = of_nat i, tmr_expires = expiry now timeout, tmr_callback = c, tmr_user_data = d\<rparr>"

definition all_requested :: "nat \<Rightarrow> request list \<Rightarrow> ni_timer list" where
  "all_requested i rs = map (\<lambda>(j, r). requested j r) (zip [i..<i + length rs] rs)"

lemma all_requested_Cons: "all_requested i (r # rs) = requested i r # all_requested (Suc i) rs"
  by (simp add: all_requested_def upt_conv_Cons del: upt_Suc)

lemma register_all_ok:
  assumes "tm_list st = sort_key deadline ts" "\<forall>x\<in>set ts. normal (tmr_expires x)" "tm_id_counter st = of_nat (tm_next st)"
    and "\<forall>r\<in>set rs. normal (fst r)"
  shows "tm_list (register_all rs st) = sort_key deadline (ts @ all_requested (tm_next st) rs) \<and> tm_flags (register_all rs st) = tm_flags st"
  using assms
proof (induction rs arbitrary: st ts)
  case Nil
  then show ?case by (simp add: all_requested_def)
next
  case (Cons r rs)
  obtain now timeout c d where r: "r = (now, timeout, c, d)" by (cases r) auto
  let ?st = "snd (ni_timer_register timeout c d now st)"
  let ?t = "requested (tm_next st) r"
  have nt: "normal (tmr_expires ?t)" using Cons.prems(4) r by (simp add: expiry_normal)
  have "tm_list ?st = insert_timer ?t (tm_list st)" "tm_next ?st = Suc (tm_next st)" "tm_flags ?st = tm_flags st"
      "tm_id_counter ?st = of_nat (Suc (tm_next st))"
    using Cons.prems(3) r by (simp_all add: ni_timer_register_def u_ni_timer_arm_def Let_def)
  then show ?case
    using Cons.IH [of ?st "ts @ [?t]"] Cons.prems insert_timer_sort [OF Cons.prems(2) nt] nt r
    by (simp add: all_requested_Cons)
qed

definition no_calls :: callbacks where "no_calls = (\<lambda>c d h st. [])"

lemma due_split:
  assumes "sorted (map deadline (t # ts))" "\<not> due now t"
  shows "filter (due now) (t # ts) = [] \<and> filter (\<lambda>t. \<not> due now t) (t # ts) = t # ts \<and> (\<forall>x\<in>set (t # ts). \<not> due now x)"
  using assms by (auto simp: filter_empty_conv filter_id_conv due_def)

lemma next_timeout_no_calls:
  assumes now: "normal now"
  shows "timers_wf st \<Longrightarrow> timers_near now st \<Longrightarrow>
     \<exists>st1. ni_timer_next_timeout no_calls now st = Some (first_wait now (tm_list st1), st1, filter (due now) (tm_list st))
     \<and> tm_list st1 = filter (\<lambda>t. \<not> due now t) (tm_list st)
     \<and> (\<forall>f. tm_flags st1 f \<longleftrightarrow> tm_flags st f \<or> (\<exists>t\<in>set (tm_list st). due now t \<and> tmr_callback t = Alarm_handler \<and> tmr_user_data t = f))"
proof (induction "tm_list st" arbitrary: st)
  case Nil
  then show ?case by (subst ni_timer_next_timeout.simps) (simp add: Nil(1) [symmetric] first_wait_def)
next
  case (Cons t ts)
  note c = Cons(2) [symmetric]
  have nt: "normal (tmr_expires t)" "sorted (map deadline (t # ts))" "near now (tmr_expires t)"
    using Cons.prems c by (simp_all add: timers_wf_def timers_near_def)
  show ?case
  proof (cases "due now t")
    case False
    have "\<not> due now x" if "x \<in> set (tm_list st)" for x
      using due_split [OF nt(2) False] that unfolding c by blast
    then show ?thesis
      using next_timeout_wait [OF c nt(1) now nt(3) False, of no_calls] c due_split [OF nt(2) False] by (auto simp: first_wait_def)
  next
    case True
    let ?st = "run_callback no_calls t (st\<lparr>tm_list := ts\<rparr>)"
    have l: "tm_list ?st = ts" by (simp add: run_callback_def no_calls_def u_ni_timer_alarm_handler_def split: callback.split)
    have fl: "tm_flags ?st f \<longleftrightarrow> tm_flags st f \<or> tmr_callback t = Alarm_handler \<and> tmr_user_data t = f" for f
      by (auto simp: run_callback_def no_calls_def u_ni_timer_alarm_handler_def split: callback.split)
    have "timers_wf ?st" "timers_near now ?st" using Cons.prems c l by (simp_all add: timers_wf_def timers_near_def)
    from Cons(1) [OF l [symmetric] this] obtain st1 where
      "ni_timer_next_timeout no_calls now ?st = Some (first_wait now (tm_list st1), st1, filter (due now) ts)"
      "tm_list st1 = filter (\<lambda>t. \<not> due now t) ts"
      "\<forall>f. tm_flags st1 f \<longleftrightarrow> tm_flags ?st f \<or> (\<exists>t\<in>set ts. due now t \<and> tmr_callback t = Alarm_handler \<and> tmr_user_data t = f)"
      unfolding l by blast
    then show ?thesis using next_timeout_due [OF c nt(1) now nt(3) True, of no_calls] True c fl by auto
  qed
qed

text \<open>C24: Timers fire in the order of expiry.  Of timers registered at any times with any timeouts, as long as none
  expires 2^63 milliseconds or more behind the time the loop takes, the callbacks called are exactly those of the
  timers that have expired or have less than a millisecond left, ordered by their expiry and, at the same expiry, by
  their registration; the flags of the alarms among them are set and no others, the remaining timers stay in order,
  and the loop returns the milliseconds until the first of them, -1 when there is none.\<close>

theorem timers_fire_in_order:
  assumes "\<forall>(t, timeout, c, d)\<in>set rs. clock t \<and> near now (expiry t timeout)" "clock now"
  shows "\<exists>st1. ni_timer_next_timeout no_calls now (register_all rs no_timers)
        = Some (first_wait now (tm_list st1), st1, filter (due now) (sort_key deadline (all_requested 0 rs)))
     \<and> tm_list st1 = filter (\<lambda>t. \<not> due now t) (sort_key deadline (all_requested 0 rs))
     \<and> (\<forall>f. tm_flags st1 f \<longleftrightarrow> (\<exists>t\<in>set (all_requested 0 rs). due now t \<and> tmr_callback t = Alarm_handler \<and> tmr_user_data t = f))"
proof -
  let ?st = "register_all rs no_timers"
  have n: "\<forall>r\<in>set rs. normal (fst r)" using assms(1) clock_normal by fastforce
  have l: "tm_list ?st = sort_key deadline (all_requested 0 rs)" "tm_flags ?st = (\<lambda>_. False)"
    using register_all_ok [of no_timers "[]" rs] n by (simp_all add: no_timers_def)
  have "normal (tmr_expires t) \<and> near now (tmr_expires t)" if t: "t \<in> set (all_requested 0 rs)" for t
  proof -
    obtain j r where "t = requested j r" "r \<in> set rs" using t by (auto simp: all_requested_def dest!: set_zip_rightD)
    then show ?thesis using assms(1) by (cases r) (auto simp: expiry_normal clock_normal simp del: expiry.simps normal.simps clock.simps)
  qed
  then have "timers_wf ?st" "timers_near now ?st" using l(1) by (simp_all add: timers_wf_def timers_near_def)
  from next_timeout_no_calls [OF clock_normal [OF assms(2)] this] show ?thesis unfolding l by auto
qed

lemma timers_fire_in_order_witness:
  "\<exists>st1. ni_timer_next_timeout no_calls (2, 0) (register_all [((1, 0), 900, Alarm_handler, 4), ((1, 0), 300, Callback 1, 5)] no_timers)
      = Some (first_wait (2, 0) (tm_list st1), st1,
          filter (due (2, 0)) (sort_key deadline (all_requested 0 [((1, 0), 900, Alarm_handler, 4), ((1, 0), 300, Callback 1, 5)])))"
  using timers_fire_in_order [of "[((1, 0), 900, Alarm_handler, 4), ((1, 0), 300, Callback 1, 5)]" "(2, 0)"]
  by (auto simp: near_def to_long_id)

text \<open>The deadline of a retransmission can have a million microseconds: the overflow is tested with \<open>>\<close>.\<close>

lemma u_ni_timeout_arm_msec_denormal:
  "clock (s, u) \<Longrightarrow> u_ni_timeout_arm_msec rnd (s, 400000) 600 None = (600, (s, 1000000))"
  by (simp add: u_ni_timeout_arm_msec_def ni_timeout_randomize_def Let_def to_long_id)

end
