(* ===== verification/Events.thy ===== *)
theory Events
  imports Dicts
begin

text \<open>
  Events, their log and the file monitor (dborb/monitor.c), and their form on the bus (testbus/event.c).  The log
  is the list of all events with the number of those already consumed.  The monitor of a file sees the file
  system through a view: what is at its path, the contents of files by device and inode (an open file keeps its
  contents when its name goes away), and how many bytes each \<open>read\<close> is willing to return.
\<close>

section \<open>The event log\<close>

record ni_event =
  ev_class :: "cstring option"
  ev_source :: "cstring option"
  ev_type :: "cstring option"
  ev_sequence :: u32
  ev_timestamp :: "int \<times> int"
  ev_data :: "ni_buffer option"

record ni_event_class =
  ec_name :: cstring
  ec_max_type :: nat
  ec_type_names :: "cstring option list"

record ni_eventlog =
  el_consumed :: nat
  el_seqno :: u32
  el_events :: "ni_event list"

record ni_monitor =
  mon_refcount :: nat
  mon_name :: "cstring option"
  mon_class :: ni_event_class
  mon_interval :: nat

definition NI_EVENT_INIT :: ni_event where
  "NI_EVENT_INIT = \<lparr>ev_class = None, ev_source = None, ev_type = None, ev_sequence = 0, ev_timestamp = (0, 0), ev_data = None\<rparr>"

definition ni_eventlog_new :: ni_eventlog where
  "ni_eventlog_new = \<lparr>el_consumed = 0, el_seqno = 1, el_events = []\<rparr>"

definition ni_event_array_init :: "ni_event list" where "ni_event_array_init = []"

definition ni_event_array_add :: "ni_event list \<Rightarrow> ni_event list" where
  "ni_event_array_add array = array @ [NI_EVENT_INIT]"

text \<open>The event that is added is written through the pointer to the new slot.\<close>

definition set_last_event :: "(ni_event \<Rightarrow> ni_event) \<Rightarrow> ni_event list \<Rightarrow> ni_event list" where
  "set_last_event f array = butlast array @ [f (last array)]"

definition ni_event_destroy :: "ni_event \<Rightarrow> ni_event" where
  "ni_event_destroy ev = NI_EVENT_INIT"

definition ni_event_array_destroy :: "ni_event list \<Rightarrow> ni_event list" where
  "ni_event_array_destroy array = ni_event_array_init"

text \<open>An event type without a name is reported and not logged.\<close>

definition ni_eventlog_add_event ::
    "ni_eventlog \<Rightarrow> ni_monitor \<Rightarrow> nat \<Rightarrow> ni_buffer option \<Rightarrow> int \<times> int \<Rightarrow> ni_eventlog option" where
  "ni_eventlog_add_event log source event data now = do {
     let c = mon_class source;
     ty \<leftarrow> (if ec_max_type c \<le> event then Some None else arr_get (ec_type_names c) event);
     Some (case ty of
        None \<Rightarrow> log
      | Some name \<Rightarrow>
          log\<lparr>el_events := set_last_event (\<lambda>ev. ev\<lparr>ev_sequence := el_seqno log, ev_class := Some (ec_name c),
                  ev_source := mon_name source, ev_type := Some name, ev_data := data, ev_timestamp := now\<rparr>)
                  (ni_event_array_add (el_events log)),
              el_seqno := el_seqno log + 1\<rparr>) }"

definition ni_eventlog_last :: "ni_eventlog \<Rightarrow> ni_event option option" where
  "ni_eventlog_last log =
     (if length (el_events log) \<le> el_consumed log then Some None
      else do { ev \<leftarrow> arr_get (el_events log) (length (el_events log) - 1); Some (Some ev) })"

definition ni_eventlog_consume :: "ni_eventlog \<Rightarrow> ni_event option \<times> ni_eventlog" where
  "ni_eventlog_consume log =
     (if length (el_events log) \<le> el_consumed log then (None, log)
      else (Some (el_events log ! el_consumed log), log\<lparr>el_consumed := el_consumed log + 1\<rparr>))"

text \<open>The events from index \<open>i\<close> up to the first that is newer than \<open>seq\<close>: the index behind them.\<close>

fun consume_index :: "ni_event list \<Rightarrow> u32 \<Rightarrow> nat \<Rightarrow> nat" where
  "consume_index [] seq i = i"
| "consume_index (ev # rest) seq i = (if seq < ev_sequence ev then i else consume_index rest seq (i + 1))"

definition ni_eventlog_consume_upto :: "ni_eventlog \<Rightarrow> u32 \<Rightarrow> ni_eventlog" where
  "ni_eventlog_consume_upto log seq =
     (let i = consume_index (drop (el_consumed log) (el_events log)) seq (el_consumed log) in
      if el_consumed log < i then log\<lparr>el_consumed := i\<rparr> else log)"

definition ni_eventlog_prune :: "ni_eventlog \<Rightarrow> ni_eventlog" where
  "ni_eventlog_prune log = log\<lparr>el_events := ni_event_array_destroy (el_events log), el_consumed := 0\<rparr>"

definition ni_eventlog_flush :: "ni_eventlog \<Rightarrow> ni_eventlog" where
  "ni_eventlog_flush log = log\<lparr>el_events := ni_event_array_destroy (el_events log), el_consumed := 0\<rparr>"

definition ni_eventlog_pending_count :: "ni_eventlog \<Rightarrow> nat option" where
  "ni_eventlog_pending_count log = do {
     ni_assert (el_consumed log \<le> length (el_events log));
     Some (length (el_events log) - el_consumed log) }"

section \<open>Monitors\<close>

definition ni_monitor_init :: "ni_event_class \<Rightarrow> cstring option \<Rightarrow> ni_monitor" where
  "ni_monitor_init c name = \<lparr>mon_refcount = 1, mon_name = name, mon_class = c, mon_interval = 0\<rparr>"

definition ni_monitor_get :: "ni_monitor \<Rightarrow> ni_monitor option" where
  "ni_monitor_get mon = do {
     ni_assert (mon_refcount mon \<noteq> 0); Some (mon\<lparr>mon_refcount := mon_refcount mon + 1\<rparr>) }"

text \<open>None inside: the monitor was freed.\<close>

definition ni_monitor_put :: "ni_monitor \<Rightarrow> ni_monitor option option" where
  "ni_monitor_put mon = do {
     ni_assert (mon_refcount mon \<noteq> 0);
     Some (if mon_refcount mon - 1 = 0 then None else Some (mon\<lparr>mon_refcount := mon_refcount mon - 1\<rparr>)) }"

definition ni_monitor_add_event ::
    "ni_monitor \<Rightarrow> nat \<Rightarrow> ni_buffer option \<Rightarrow> int \<times> int \<Rightarrow> ni_eventlog \<Rightarrow> ni_eventlog option" where
  "ni_monitor_add_event mon event data now log = ni_eventlog_add_event log mon event data now"

section \<open>The file monitor\<close>

definition NI_FILEMON_EVENT_DATA :: nat where "NI_FILEMON_EVENT_DATA = 0"
definition NI_FILEMON_EVENT_TRUNC :: nat where "NI_FILEMON_EVENT_TRUNC = 1"

definition ni_file_monitor_class :: ni_event_class where
  "ni_file_monitor_class =
     \<lparr>ec_name = ''file'', ec_max_type = 2, ec_type_names = [Some ''data'', Some ''truncate'']\<rparr>"

type_synonym inode = "nat \<times> nat"

record fs_view =
  fv_path :: "inode option"
  fv_readable :: bool
  fv_fstat_ok :: bool
  fv_content :: "inode \<Rightarrow> byte list"
  fv_reads :: "nat list"

record ni_file_monitor =
  fm_base :: ni_monitor
  fm_fd :: "inode option"
  fm_statbuf_valid :: bool
  fm_st_ino :: inode
  fm_st_size :: int

definition st_size :: "fs_view \<Rightarrow> inode \<Rightarrow> int" where
  "st_size v ino = int (length (fv_content v ino))"

definition ni_filemon_open :: "fs_view \<Rightarrow> ni_file_monitor \<Rightarrow> bool \<times> ni_file_monitor" where
  "ni_filemon_open v fm =
     (case (if fv_readable v then fv_path v else None) of
        None \<Rightarrow> (False, fm\<lparr>fm_fd := None\<rparr>)
      | Some ino \<Rightarrow> (True, fm\<lparr>fm_fd := Some ino, fm_st_ino := ino, fm_st_size := st_size v ino, fm_statbuf_valid := True\<rparr>))"

definition ni_filemon_close :: "ni_file_monitor \<Rightarrow> ni_file_monitor" where
  "ni_filemon_close fm = fm\<lparr>fm_fd := None, fm_statbuf_valid := False\<rparr>"

text \<open>\<open>read\<close> into the tail of the buffer.\<close>

definition buffer_fill :: "ni_buffer \<Rightarrow> byte list \<Rightarrow> ni_buffer option" where
  "buffer_fill data bs = do {
     base \<leftarrow> mem_write (buf_base data) (ni_buffer_tail data) bs;
     Some (snd (ni_buffer_push_tail (data\<lparr>buf_base := base\<rparr>) (of_nat (length bs)))) }"

text \<open>\<open>rest\<close> is the file behind its offset.  A call that is willing to return nothing is a read error; when the
  given sizes run out, a call returns all that fits.\<close>

fun read_loop :: "nat list \<Rightarrow> byte list \<Rightarrow> ni_buffer \<Rightarrow> ni_buffer option" where
  "read_loop ks rest data =
     (let count = unat (ni_buffer_tailroom data) in
      if count = 0 then Some data
      else case ks of
        [] \<Rightarrow> (if rest = [] then Some data else buffer_fill data (take count rest))
      | k # ks1 \<Rightarrow>
          (if k = 0 \<or> rest = [] then Some data
           else do { data1 \<leftarrow> buffer_fill data (take (min count k) rest);
                     read_loop ks1 (drop (min count k) rest) data1 }))"

declare read_loop.simps [simp del]

text \<open>A negative size is a \<open>size_t\<close> close to 2^64, which cannot be allocated: the process ends.\<close>

definition ni_filemon_log_data ::
    "fs_view \<Rightarrow> int \<times> int \<Rightarrow> ni_file_monitor \<Rightarrow> int \<Rightarrow> int \<Rightarrow> ni_eventlog \<Rightarrow> ni_eventlog option" where
  "ni_filemon_log_data v now fm from to log = do {
     ni_assert (from \<le> to);
     ino \<leftarrow> fm_fd fm;
     data \<leftarrow> read_loop (fv_reads v) (drop (nat from) (fv_content v ino)) (ni_buffer_new (of_int (to - from)));
     ni_monitor_add_event (fm_base fm) NI_FILEMON_EVENT_DATA (Some data) now log }"

definition ni_filemon_check_for_events ::
    "fs_view \<Rightarrow> int \<times> int \<Rightarrow> ni_file_monitor \<Rightarrow> ni_eventlog \<Rightarrow> (bool \<times> ni_file_monitor \<times> ni_eventlog) option" where
  "ni_filemon_check_for_events v now fm log =
     (case fm_fd fm of
        None \<Rightarrow>
          (let (ok, fm1) = ni_filemon_open v fm in
           if \<not> ok then Some (False, fm1, log)
           else do { log1 \<leftarrow> ni_filemon_log_data v now fm1 0 (fm_st_size fm1) log; Some (True, fm1, log1) })
      | Some ino \<Rightarrow>
          (if \<not> fv_fstat_ok v then Some (False, ni_filemon_close fm, log)
           else do {
             let size_now = st_size v ino;
             let grown = fm_statbuf_valid fm \<and> fm_st_size fm < size_now;
             log1 \<leftarrow> (if grown then ni_filemon_log_data v now fm (fm_st_size fm) size_now log else Some log);
             let fm1 = fm\<lparr>fm_st_ino := ino, fm_st_size := size_now, fm_statbuf_valid := True\<rparr>;
             (case fv_path v of
                None \<Rightarrow> do {
                  log2 \<leftarrow> ni_filemon_log_data v now fm1 (fm_st_size fm1) 0x7fffffff log1;
                  Some (True, ni_filemon_close fm1, log2) }
              | Some ino2 \<Rightarrow>
                  (if fm_st_ino fm1 \<noteq> ino2 then do {
                     log2 \<leftarrow> ni_filemon_log_data v now fm1 (fm_st_size fm1) 0x7fffffff log1;
                     let (ok, fm2) = ni_filemon_open v (ni_filemon_close fm1);
                     log3 \<leftarrow> (if ok then ni_filemon_log_data v now fm2 0 (fm_st_size fm2) log2 else Some log2);
                     Some (True, fm2, log3) }
                   else Some (grown, fm1, log1))) }))"

definition ni_monitor_poll ::
    "fs_view \<Rightarrow> int \<times> int \<Rightarrow> ni_file_monitor \<Rightarrow> ni_eventlog \<Rightarrow> (bool \<times> ni_file_monitor \<times> ni_eventlog) option" where
  "ni_monitor_poll v now mon log = ni_filemon_check_for_events v now mon log"

definition ni_file_monitor_new :: "cstring option \<Rightarrow> fs_view \<Rightarrow> ni_file_monitor" where
  "ni_file_monitor_new name v =
     snd (ni_filemon_open v
       \<lparr>fm_base = (ni_monitor_init ni_file_monitor_class name)\<lparr>mon_interval := 5\<rparr>, fm_fd = None, fm_statbuf_valid = False,
        fm_st_ino = (0, 0), fm_st_size = 0\<rparr>)"

section \<open>The log is a queue\<close>

text \<open>What the file monitor puts into the log, and what its reader takes out.\<close>

definition log_file_data :: "ni_eventlog \<Rightarrow> ni_buffer option \<times> (int \<times> int) \<Rightarrow> ni_eventlog" where
  "log_file_data log x =
     (case ni_monitor_add_event (ni_monitor_init ni_file_monitor_class None) NI_FILEMON_EVENT_DATA (fst x) (snd x) log of
        Some log1 \<Rightarrow> log1 | None \<Rightarrow> log)"

definition event_payload :: "ni_event \<Rightarrow> ni_buffer option \<times> (int \<times> int)" where
  "event_payload ev = (ev_data ev, ev_timestamp ev)"

definition take_payload :: "ni_eventlog \<Rightarrow> (ni_buffer option \<times> (int \<times> int)) option \<times> ni_eventlog" where
  "take_payload log = (let (r, log1) = ni_eventlog_consume log in (map_option event_payload r, log1))"

definition pending_events :: "ni_eventlog \<Rightarrow> ni_event list" where
  "pending_events log = drop (el_consumed log) (el_events log)"

definition log_wf :: "ni_eventlog \<Rightarrow> bool" where
  "log_wf log \<longleftrightarrow> el_consumed log \<le> length (el_events log)"

definition new_event :: "ni_eventlog \<Rightarrow> ni_monitor \<Rightarrow> cstring \<Rightarrow> ni_buffer option \<Rightarrow> int \<times> int \<Rightarrow> ni_event" where
  "new_event log mon name data now =
     \<lparr>ev_class = Some (ec_name (mon_class mon)), ev_source = mon_name mon, ev_type = Some name, ev_sequence = el_seqno log,
      ev_timestamp = now, ev_data = data\<rparr>"

lemma set_last_added: "set_last_event f (ni_event_array_add array) = array @ [f NI_EVENT_INIT]"
  by (simp add: set_last_event_def ni_event_array_add_def)

lemma add_event_eq:
  "ni_eventlog_add_event log mon event data now =
     (case (if ec_max_type (mon_class mon) \<le> event then Some None else arr_get (ec_type_names (mon_class mon)) event) of
        None \<Rightarrow> None
      | Some None \<Rightarrow> Some log
      | Some (Some name) \<Rightarrow> Some (log\<lparr>el_events := el_events log @ [new_event log mon name data now], el_seqno := el_seqno log + 1\<rparr>))"
  by (auto simp: ni_eventlog_add_event_def set_last_added NI_EVENT_INIT_def new_event_def Let_def split: option.split)

lemma file_data_event:
  "mon_class mon = ni_file_monitor_class \<Longrightarrow> ni_monitor_add_event mon NI_FILEMON_EVENT_DATA data now log =
     Some (log\<lparr>el_events := el_events log @ [new_event log mon ''data'' data now], el_seqno := el_seqno log + 1\<rparr>)"
  by (simp add: ni_monitor_add_event_def add_event_eq ni_file_monitor_class_def NI_FILEMON_EVENT_DATA_def arr_get_def)

interpretation eventlog: fifo_queue log_file_data take_payload "\<lambda>log. map event_payload (pending_events log)" log_wf
proof unfold_locales
  fix log x
  have e: "log_file_data log x = log\<lparr>el_events := el_events log @ [new_event log (ni_monitor_init ni_file_monitor_class None) ''data'' (fst x) (snd x)],
      el_seqno := el_seqno log + 1\<rparr>" for log x
    using file_data_event [of "ni_monitor_init ni_file_monitor_class None"] by (simp add: log_file_data_def ni_monitor_init_def)
  { assume "log_wf log"
    then show "log_wf (log_file_data log x)" "map event_payload (pending_events (log_file_data log x)) = map event_payload (pending_events log) @ [x]"
      by (simp_all add: e log_wf_def pending_events_def event_payload_def new_event_def) }
next
  fix log
  assume wf: "log_wf log"
  show "log_wf (snd (take_payload log))" using wf by (auto simp: take_payload_def ni_eventlog_consume_def log_wf_def)
  show "fst (take_payload log) = None \<and> map event_payload (pending_events (snd (take_payload log))) = []"
    if "map event_payload (pending_events log) = []" using that by (auto simp: take_payload_def ni_eventlog_consume_def pending_events_def)
  show "fst (take_payload log) = Some y \<and> map event_payload (pending_events (snd (take_payload log))) = ys"
    if "map event_payload (pending_events log) = y # ys" for y ys
  proof -
    have lt: "el_consumed log < length (el_events log)" using that by (cases "el_consumed log < length (el_events log)") (auto simp: pending_events_def)
    show ?thesis using that lt
      by (auto simp: take_payload_def ni_eventlog_consume_def pending_events_def Cons_nth_drop_Suc [symmetric])
  qed
qed

text \<open>Every operation of the log, and what a queue of numbered events makes of it.\<close>

datatype log_op =
    LogAdd ni_monitor nat "ni_buffer option" "int \<times> int"
  | LogConsume
  | LogConsumeUpto u32
  | LogPrune
  | LogFlush

fun log_apply :: "log_op \<Rightarrow> ni_eventlog \<Rightarrow> (ni_event option \<times> ni_eventlog) option" where
  "log_apply (LogAdd mon event data now) log = map_option (Pair None) (ni_eventlog_add_event log mon event data now)"
| "log_apply LogConsume log = Some (ni_eventlog_consume log)"
| "log_apply (LogConsumeUpto seq) log = Some (None, ni_eventlog_consume_upto log seq)"
| "log_apply LogPrune log = Some (None, ni_eventlog_prune log)"
| "log_apply LogFlush log = Some (None, ni_eventlog_flush log)"

fun log_run :: "log_op list \<Rightarrow> ni_eventlog \<Rightarrow> (ni_event option list \<times> ni_eventlog) option" where
  "log_run [] log = Some ([], log)"
| "log_run (op # ops) log = do { (r, log1) \<leftarrow> log_apply op log; (rs, log2) \<leftarrow> log_run ops log1; Some (r # rs, log2) }"

type_synonym event_queue = "u32 \<times> ni_event list"

definition known_type :: "ni_monitor \<Rightarrow> nat \<Rightarrow> cstring option" where
  "known_type mon event = (if event < min (ec_max_type (mon_class mon)) (length (ec_type_names (mon_class mon)))
     then ec_type_names (mon_class mon) ! event else None)"

fun queue_apply :: "log_op \<Rightarrow> event_queue \<Rightarrow> ni_event option \<times> event_queue" where
  "queue_apply (LogAdd mon event data now) (n, q) =
     (None, case known_type mon event of
        None \<Rightarrow> (n, q)
      | Some name \<Rightarrow> (n + 1, q @ [\<lparr>ev_class = Some (ec_name (mon_class mon)), ev_source = mon_name mon, ev_type = Some name,
                               ev_sequence = n, ev_timestamp = now, ev_data = data\<rparr>]))"
| "queue_apply LogConsume (n, q) = (case q of [] \<Rightarrow> (None, n, []) | ev # q1 \<Rightarrow> (Some ev, n, q1))"
| "queue_apply (LogConsumeUpto seq) (n, q) = (None, n, dropWhile (\<lambda>ev. ev_sequence ev \<le> seq) q)"
| "queue_apply LogPrune (n, q) = (None, n, [])"
| "queue_apply LogFlush (n, q) = (None, n, [])"

fun queue_run :: "log_op list \<Rightarrow> event_queue \<Rightarrow> ni_event option list \<times> event_queue" where
  "queue_run [] q = ([], q)"
| "queue_run (op # ops) q = (let (r, q1) = queue_apply op q; (rs, q2) = queue_run ops q1 in (r # rs, q2))"

text \<open>The table of a class has a slot for every type.\<close>

fun complete_class :: "log_op \<Rightarrow> bool" where
  "complete_class (LogAdd mon event data now) = (ec_max_type (mon_class mon) \<le> length (ec_type_names (mon_class mon)))"
| "complete_class _ = True"

lemma consume_index_eq: "consume_index es seq i = i + length (takeWhile (\<lambda>ev. ev_sequence ev \<le> seq) es)"
  by (induction es seq i rule: consume_index.induct) auto

lemma consume_upto_pending:
  assumes "log_wf log"
  shows "log_wf (ni_eventlog_consume_upto log seq) \<and> el_seqno (ni_eventlog_consume_upto log seq) = el_seqno log
     \<and> pending_events (ni_eventlog_consume_upto log seq) = dropWhile (\<lambda>ev. ev_sequence ev \<le> seq) (pending_events log)"
proof -
  let ?es = "drop (el_consumed log) (el_events log)"
  let ?n = "length (takeWhile (\<lambda>ev. ev_sequence ev \<le> seq) ?es)"
  have "?n \<le> length (el_events log) - el_consumed log" using length_takeWhile_le [of _ ?es] by simp
  moreover have "dropWhile (\<lambda>ev. ev_sequence ev \<le> seq) ?es = drop (?n + el_consumed log) (el_events log)"
    by (simp add: dropWhile_eq_drop)
  moreover have "ni_eventlog_consume_upto log seq = log\<lparr>el_consumed := el_consumed log + ?n\<rparr>"
    unfolding ni_eventlog_consume_upto_def consume_index_eq by simp
  ultimately show ?thesis using assms by (simp add: log_wf_def pending_events_def add.commute)
qed

lemma log_apply_queue:
  assumes "log_wf log" "complete_class op"
  shows "\<exists>r log1. log_apply op log = Some (r, log1) \<and> log_wf log1
     \<and> queue_apply op (el_seqno log, pending_events log) = (r, el_seqno log1, pending_events log1)"
proof (cases op)
  case (LogAdd mon event data now)
  then show ?thesis using assms
    by (auto simp: add_event_eq known_type_def arr_get_def new_event_def log_wf_def pending_events_def split: option.split)
next
  case LogConsume
  then show ?thesis using assms
    by (auto simp: ni_eventlog_consume_def pending_events_def log_wf_def Cons_nth_drop_Suc [symmetric] split: list.split)
next
  case (LogConsumeUpto seq)
  then show ?thesis using consume_upto_pending [OF assms(1), of seq] by simp
qed (simp_all add: ni_eventlog_prune_def ni_eventlog_flush_def ni_event_array_destroy_def ni_event_array_init_def log_wf_def pending_events_def)

text \<open>C25: The event log is a queue of numbered events.  Under every sequence of additions, consumptions of the
  next event or of all up to a sequence number, prunings and flushes the results and the pending events are
  those of a queue whose additions are numbered on from 1, and the count of pending events is its length; no
  operation reads outside the log.\<close>

theorem eventlog_refines_queue:
  assumes "\<forall>op\<in>set ops. complete_class op"
  shows "\<exists>rs log. log_run ops ni_eventlog_new = Some (rs, log)
     \<and> queue_run ops (1, []) = (rs, el_seqno log, drop (el_consumed log) (el_events log))
     \<and> ni_eventlog_pending_count log = Some (length (snd (snd (queue_run ops (1, [])))))"
proof -
  have "log_wf log \<Longrightarrow> \<forall>op\<in>set ops. complete_class op \<Longrightarrow> \<exists>rs log1. log_run ops log = Some (rs, log1) \<and> log_wf log1
      \<and> queue_run ops (el_seqno log, pending_events log) = (rs, el_seqno log1, pending_events log1)" for log
  proof (induction ops arbitrary: log)
    case (Cons op ops)
    obtain r log1 where 1: "log_apply op log = Some (r, log1)" "log_wf log1"
        "queue_apply op (el_seqno log, pending_events log) = (r, el_seqno log1, pending_events log1)"
      using log_apply_queue [OF Cons.prems(1), of op] Cons.prems(2) by auto
    then show ?case using Cons.IH [OF 1(2)] Cons.prems(2) by fastforce
  qed simp
  from this [of ni_eventlog_new] assms show ?thesis
    by (auto simp: log_wf_def pending_events_def ni_eventlog_new_def ni_eventlog_pending_count_def)
qed

lemma eventlog_refines_queue_witness:
  "\<exists>rs log. log_run [LogAdd (ni_monitor_init ni_file_monitor_class None) 0 None (1, 0), LogConsume] ni_eventlog_new = Some (rs, log)
     \<and> rs = [None, Some \<lparr>ev_class = Some ''file'', ev_source = None, ev_type = Some ''data'', ev_sequence = 1, ev_timestamp = (1, 0), ev_data = None\<rparr>]"
  using eventlog_refines_queue [of "[LogAdd (ni_monitor_init ni_file_monitor_class None) 0 None (1, 0), LogConsume]"]
  by (auto simp: ni_monitor_init_def ni_file_monitor_class_def known_type_def)

section \<open>The file monitor is a tail\<close>

lemma buffer_fill_ok:
  assumes wf: "buf_wf data" and room: "length bs \<le> buf_room data"
  shows "\<exists>d. buffer_fill data bs = Some d \<and> buf_wf d \<and> buf_bytes d = buf_bytes data @ bs
     \<and> buf_size d = buf_size data \<and> buf_room d = buf_room data - length bs"
proof -
  note D = buf_wfD [OF wf]
  have r: "unat (buf_tail data) + length bs \<le> unat (buf_size data)" using room D by (simp add: buf_room_def)
  have u: "unat (of_nat (length bs) :: u64) = length bs"
    using r unat_u64_less [of "buf_size data"] by (intro unat_of_nat_u64) linarith
  define base where "base = take (unat (buf_tail data)) (buf_base data) @ bs @ drop (unat (buf_tail data) + length bs) (buf_base data)"
  have w: "mem_write (buf_base data) (ni_buffer_tail data) bs = Some base"
    using r D by (simp add: mem_write_in ni_buffer_tail_def base_def)
  let ?d = "data\<lparr>buf_base := base\<rparr>"
  have wf1: "buf_wf ?d" using wf r D by (auto simp: buf_wf_def base_def)
  have b1: "buf_bytes ?d = buf_bytes data" using D r by (simp add: buf_bytes_def base_def)
  have t1: "take (length bs) (drop (unat (buf_tail data)) base) = bs" using D r by (simp add: base_def)
  have p: "unat (buf_tail ?d) + unat (of_nat (length bs) :: u64) \<le> unat (buf_size ?d)" using r u by simp
  show ?thesis
    using ni_buffer_push_tail_ok [OF wf1 p] w b1 t1 u r unat_add_le [of "buf_tail data" "of_nat (length bs)" "buf_size data"]
    by (auto simp: buffer_fill_def buf_room_def)
qed

lemma read_loop_ok:
  "buf_wf data \<Longrightarrow> buf_room data < 2 ^ 32 \<Longrightarrow> \<forall>k\<in>set ks. 0 < k \<Longrightarrow>
     \<exists>d. read_loop ks rest data = Some d \<and> buf_bytes d = buf_bytes data @ take (buf_room data) rest"
proof (induction ks rest data rule: read_loop.induct)
  case (1 ks rest data)
  have tr: "unat (ni_buffer_tailroom data) = buf_room data"
    using ni_buffer_tailroom_wf [OF 1(2)] 1(3) by (simp add: buf_room_def)
  show ?case
  proof (cases "buf_room data = 0 \<or> rest = []")
    case True
    have "read_loop ks rest data = Some data" using True tr by (subst read_loop.simps) (auto simp: Let_def split: list.split)
    then show ?thesis using True by auto
  next
    case False
    show ?thesis
    proof (cases ks)
      case Nil
      have "length (take (buf_room data) rest) \<le> buf_room data" by simp
      from buffer_fill_ok [OF 1(2) this] show ?thesis using Nil False tr by (subst read_loop.simps) auto
    next
      case (Cons k ks1)
      have k: "0 < k" using 1(4) Cons by simp
      let ?bs = "take (min (buf_room data) k) rest"
      have "length ?bs \<le> buf_room data" by simp
      from buffer_fill_ok [OF 1(2) this] obtain d1 where d1: "buffer_fill data ?bs = Some d1" "buf_wf d1"
          "buf_bytes d1 = buf_bytes data @ ?bs" "buf_room d1 = buf_room data - length ?bs" by blast
      have "buf_room d1 < 2 ^ 32" using d1(4) 1(3) by simp
      then obtain d where d: "read_loop ks1 (drop (min (buf_room data) k) rest) d1 = Some d"
          "buf_bytes d = buf_bytes d1 @ take (buf_room d1) (drop (min (buf_room data) k) rest)"
        using 1(1) [OF refl _ Cons, of d1] False k tr d1(1,2) 1(4) Cons by auto
      have "buf_bytes d = buf_bytes data @ take (buf_room data) rest"
        unfolding d(2) d1(3,4) using False
        by (cases "length rest \<le> min (buf_room data) k") (auto simp: min_def take_add [symmetric] split: if_splits)
      moreover have "read_loop ks rest data = Some d" using False k tr d1(1) d(1) Cons by (subst read_loop.simps) simp
      ultimately show ?thesis by blast
    qed
  qed
qed

definition logged_bytes :: "ni_eventlog \<Rightarrow> byte list" where
  "logged_bytes log = concat (map (\<lambda>ev. case ev_data ev of None \<Rightarrow> [] | Some b \<Rightarrow> buf_bytes b) (el_events log))"

text \<open>A view in which every call succeeds and files are smaller than two gigabytes.\<close>

definition good_view :: "fs_view \<Rightarrow> bool" where
  "good_view v \<longleftrightarrow> fv_readable v \<and> fv_fstat_ok v \<and> (\<forall>k\<in>set (fv_reads v). 0 < k) \<and> (\<forall>ino. length (fv_content v ino) \<le> 0x7fffffff)"

lemma log_data_ok:
  assumes v: "good_view v" and c: "mon_class (fm_base fm) = ni_file_monitor_class" and fd: "fm_fd fm = Some ino"
    and b: "0 \<le> from" "from \<le> to" "to \<le> 0x7fffffff"
  shows "\<exists>log1. ni_filemon_log_data v now fm from to log = Some log1
     \<and> logged_bytes log1 = logged_bytes log @ take (nat (to - from)) (drop (nat from) (fv_content v ino))"
proof -
  let ?n = "ni_buffer_new (of_int (to - from))"
  have u: "unat (of_int (to - from) :: u64) = nat (to - from)"
  proof -
    have "(of_int (to - from) :: u64) = of_nat (nat (to - from))" using b by simp
    moreover have "nat (to - from) < 2 ^ 64" using b by simp
    ultimately show ?thesis by (metis unat_of_nat_u64)
  qed
  have r: "buf_room ?n = nat (to - from)" using u by (simp add: buf_room_def ni_buffer_new_def ni_buffer_init_def)
  have "buf_room ?n < 2 ^ 32" using r b by simp
  then obtain d where d: "read_loop (fv_reads v) (drop (nat from) (fv_content v ino)) ?n = Some d"
      "buf_bytes d = take (nat (to - from)) (drop (nat from) (fv_content v ino))"
    using read_loop_ok [OF ni_buffer_new_wf, of "of_int (to - from)" "fv_reads v" "drop (nat from) (fv_content v ino)"] v r
    by (auto simp: good_view_def ni_buffer_new_bytes)
  show ?thesis
    using d b fd file_data_event [OF c, of "Some d" now log]
    by (auto simp: ni_filemon_log_data_def logged_bytes_def new_event_def)
qed

text \<open>What is printed when a file is looked at from time to time by its path: what was appended to the file that is
  open, and all of a file that has come to its path.  The state is the open file and its length at the last look.
  \<open>again\<close>: whether a file that has become shorter is printed again from its start.\<close>

fun looked_at :: "bool \<Rightarrow> (inode \<times> nat) option \<Rightarrow> fs_view list \<Rightarrow> byte list" where
  "looked_at again cur [] = []"
| "looked_at again None (v # vs) =
     (case fv_path v of
        None \<Rightarrow> looked_at again None vs
      | Some ino \<Rightarrow> fv_content v ino @ looked_at again (Some (ino, length (fv_content v ino))) vs)"
| "looked_at again (Some (ino, n)) (v # vs) =
     (if again \<and> length (fv_content v ino) < n then fv_content v ino else drop n (fv_content v ino)) @
     (case fv_path v of
        None \<Rightarrow> looked_at again None vs
      | Some ino2 \<Rightarrow>
          (if ino2 = ino then looked_at again (Some (ino, length (fv_content v ino))) vs
           else fv_content v ino2 @ looked_at again (Some (ino2, length (fv_content v ino2))) vs))"

text \<open>\<open>tail -F\<close> prints a file that was truncated from its start again; the monitor does not.\<close>

abbreviation "tail_output \<equiv> looked_at True"
abbreviation "polled_output \<equiv> looked_at False"

text \<open>The open file is never found shorter than it was at the last look.\<close>

fun only_grows :: "(inode \<times> nat) option \<Rightarrow> fs_view list \<Rightarrow> bool" where
  "only_grows cur [] = True"
| "only_grows cur (v # vs) \<longleftrightarrow>
     (case cur of None \<Rightarrow> True | Some (ino, n) \<Rightarrow> n \<le> length (fv_content v ino))
     \<and> only_grows (map_option (\<lambda>ino. (ino, length (fv_content v ino))) (fv_path v)) vs"

lemma looked_at_grows: "only_grows cur vs \<Longrightarrow> polled_output cur vs = tail_output cur vs"
proof (induction vs arbitrary: cur)
  case (Cons v vs)
  have "polled_output (Some (ino, length (fv_content v ino))) vs = tail_output (Some (ino, length (fv_content v ino))) vs"
    if "fv_path v = Some ino" for ino
    using Cons.IH Cons.prems that by simp
  moreover have "polled_output None vs = tail_output None vs" if "fv_path v = None" using Cons.IH Cons.prems that by simp
  ultimately show ?case using Cons.prems by (cases cur) (auto split: option.splits)
qed simp

fun poll_all :: "(fs_view \<times> (int \<times> int)) list \<Rightarrow> ni_file_monitor \<Rightarrow> ni_eventlog \<Rightarrow> (ni_file_monitor \<times> ni_eventlog) option" where
  "poll_all [] fm log = Some (fm, log)"
| "poll_all ((v, now) # vs) fm log = do { (_, fm1, log1) \<leftarrow> ni_monitor_poll v now fm log; poll_all vs fm1 log1 }"

definition fm_cur :: "ni_file_monitor \<Rightarrow> (inode \<times> nat) option" where
  "fm_cur fm = map_option (\<lambda>ino. (ino, nat (fm_st_size fm))) (fm_fd fm)"

definition fm_wf :: "ni_file_monitor \<Rightarrow> bool" where
  "fm_wf fm \<longleftrightarrow> mon_class (fm_base fm) = ni_file_monitor_class
     \<and> (fm_fd fm \<noteq> None \<longrightarrow> fm_statbuf_valid fm \<and> 0 \<le> fm_st_size fm)"

lemma open_ok:
  "fv_readable v \<Longrightarrow> ni_filemon_open v fm =
     (case fv_path v of None \<Rightarrow> (False, fm\<lparr>fm_fd := None\<rparr>)
      | Some ino \<Rightarrow> (True, fm\<lparr>fm_fd := Some ino, fm_st_ino := ino, fm_st_size := st_size v ino, fm_statbuf_valid := True\<rparr>))"
  by (simp add: ni_filemon_open_def)

lemma poll_ok:
  assumes v: "good_view v" and wf: "fm_wf fm"
  shows "\<exists>r fm1 log1. ni_monitor_poll v now fm log = Some (r, fm1, log1) \<and> fm_wf fm1
     \<and> (\<forall>vs. logged_bytes log @ polled_output (fm_cur fm) (v # vs) = logged_bytes log1 @ polled_output (fm_cur fm1) vs)"
proof -
  have c: "mon_class (fm_base fm) = ni_file_monitor_class" using wf by (simp add: fm_wf_def)
  have len: "0 \<le> st_size v i" "st_size v i \<le> 0x7fffffff" "nat (st_size v i) = length (fv_content v i)" for i
    using v by (cases i, simp_all add: good_view_def st_size_def)+
  have rd: "fv_readable v" using v by (simp add: good_view_def)
  show ?thesis
  proof (cases "fm_fd fm")
    case None
    show ?thesis
    proof (cases "fv_path v")
      case None
      then have "ni_monitor_poll v now fm log = Some (False, fm\<lparr>fm_fd := None\<rparr>, log)"
        using \<open>fm_fd fm = None\<close> open_ok [OF rd, of fm] by (simp add: ni_monitor_poll_def ni_filemon_check_for_events_def)
      then show ?thesis using \<open>fm_fd fm = None\<close> None wf by (auto simp: fm_cur_def fm_wf_def)
    next
      case (Some ino)
      let ?fm = "fm\<lparr>fm_fd := Some ino, fm_st_ino := ino, fm_st_size := st_size v ino, fm_statbuf_valid := True\<rparr>"
      obtain log1 where "ni_filemon_log_data v now ?fm 0 (st_size v ino) log = Some log1"
          "logged_bytes log1 = logged_bytes log @ take (nat (st_size v ino - 0)) (drop (nat 0) (fv_content v ino))"
        using log_data_ok [OF v, of ?fm ino 0 "st_size v ino" now log] c len by auto
      then show ?thesis using \<open>fm_fd fm = None\<close> Some wf open_ok [OF rd, of fm] len [of ino]
        by (auto simp: ni_monitor_poll_def ni_filemon_check_for_events_def fm_cur_def fm_wf_def)
    qed
  next
    case (Some ino)
    have fs: "fv_fstat_ok v" "fm_statbuf_valid fm" "0 \<le> fm_st_size fm" using v wf Some by (simp_all add: good_view_def fm_wf_def)
    let ?size = "st_size v ino"
    let ?fm = "fm\<lparr>fm_st_ino := ino, fm_st_size := ?size, fm_statbuf_valid := True\<rparr>"
    obtain log1 where l1: "(if fm_st_size fm < ?size then ni_filemon_log_data v now fm (fm_st_size fm) ?size log else Some log) = Some log1"
        "logged_bytes log1 = logged_bytes log @ drop (nat (fm_st_size fm)) (fv_content v ino)"
    proof (cases "fm_st_size fm < ?size")
      case True
      then obtain log1 where 1: "ni_filemon_log_data v now fm (fm_st_size fm) ?size log = Some log1"
          "logged_bytes log1 = logged_bytes log @ take (nat (?size - fm_st_size fm)) (drop (nat (fm_st_size fm)) (fv_content v ino))"
        using log_data_ok [OF v c Some fs(3), of ?size now log] len by auto
      have "nat (?size - fm_st_size fm) = length (fv_content v ino) - nat (fm_st_size fm)" using fs(3) len(3) [of ino] by linarith
      then show ?thesis using that [of log1] 1 True by simp
    next
      case False
      then have "drop (nat (fm_st_size fm)) (fv_content v ino) = []" using len(3) [of ino] by simp
      then show ?thesis using that [of log] False by simp
    qed
    have lost: "\<exists>log2. ni_filemon_log_data v now ?fm ?size 0x7fffffff log1 = Some log2 \<and> logged_bytes log2 = logged_bytes log1"
      using log_data_ok [OF v, of ?fm ino ?size "0x7fffffff" now log1] c Some len by auto
    show ?thesis
    proof (cases "fv_path v")
      case None
      obtain log2 where "ni_filemon_log_data v now ?fm ?size 0x7fffffff log1 = Some log2" "logged_bytes log2 = logged_bytes log1"
        using lost by blast
      then show ?thesis using Some None fs l1 wf
        by (auto simp: ni_monitor_poll_def ni_filemon_check_for_events_def ni_filemon_close_def fm_cur_def fm_wf_def Let_def)
    next
      case path: (Some ino2)
      show ?thesis
      proof (cases "ino2 = ino")
        case True
        then show ?thesis using Some path fs l1 wf len [of ino]
          by (auto simp: ni_monitor_poll_def ni_filemon_check_for_events_def fm_cur_def fm_wf_def Let_def)
      next
        case False
        let ?fm2 = "(ni_filemon_close ?fm)\<lparr>fm_fd := Some ino2, fm_st_ino := ino2, fm_st_size := st_size v ino2, fm_statbuf_valid := True\<rparr>"
        obtain log2 where l2: "ni_filemon_log_data v now ?fm ?size 0x7fffffff log1 = Some log2" "logged_bytes log2 = logged_bytes log1"
          using lost by blast
        obtain log3 where l3: "ni_filemon_log_data v now ?fm2 0 (st_size v ino2) log2 = Some log3"
            "logged_bytes log3 = logged_bytes log2 @ take (nat (st_size v ino2 - 0)) (drop (nat 0) (fv_content v ino2))"
          using log_data_ok [OF v, of ?fm2 ino2 0 "st_size v ino2" now log2] c len by (auto simp: ni_filemon_close_def)
        have "ni_monitor_poll v now fm log = Some (True, ?fm2, log3)"
          using Some path False fs l1(1) l2(1) l3(1) open_ok [OF rd, of "ni_filemon_close ?fm"]
          by (simp add: ni_monitor_poll_def ni_filemon_check_for_events_def Let_def)
        moreover have "fm_wf ?fm2" using wf len [of ino2] by (simp add: fm_wf_def ni_filemon_close_def)
        moreover have "logged_bytes log @ polled_output (fm_cur fm) (v # vs) = logged_bytes log3 @ polled_output (fm_cur ?fm2) vs" for vs
          using Some path False l1(2) l2(2) l3(2) len [of ino2] by (simp add: fm_cur_def)
        ultimately show ?thesis by blast
      qed
    qed
  qed
qed

text \<open>The events the monitor logs carry, in order, what was appended to the file since the monitor was made and all
  of the contents of every file that came to the path later.\<close>

lemma monitor_logs:
  assumes "good_view v0" "\<forall>(v, now)\<in>set vs. good_view v"
  shows "\<exists>fm log. poll_all vs (ni_file_monitor_new name v0) ni_eventlog_new = Some (fm, log)
     \<and> logged_bytes log = polled_output (map_option (\<lambda>ino. (ino, length (fv_content v0 ino))) (fv_path v0)) (map fst vs)"
proof -
  have run: "fm_wf fm \<Longrightarrow> \<forall>(v, now)\<in>set vs. good_view v \<Longrightarrow> \<exists>fm1 log1. poll_all vs fm log = Some (fm1, log1)
      \<and> logged_bytes log1 = logged_bytes log @ polled_output (fm_cur fm) (map fst vs)" for fm log
  proof (induction vs arbitrary: fm log)
    case (Cons x vs)
    obtain v now where x: "x = (v, now)" by (cases x)
    obtain r fm1 log1 where 1: "ni_monitor_poll v now fm log = Some (r, fm1, log1)" "fm_wf fm1"
        "\<forall>vs. logged_bytes log @ polled_output (fm_cur fm) (v # vs) = logged_bytes log1 @ polled_output (fm_cur fm1) vs"
      using poll_ok [OF _ Cons.prems(1), of v now log] Cons.prems(2) x by auto
    obtain fm2 log2 where "poll_all vs fm1 log1 = Some (fm2, log2)"
        "logged_bytes log2 = logged_bytes log1 @ polled_output (fm_cur fm1) (map fst vs)"
      using Cons.IH [OF 1(2)] Cons.prems(2) by fastforce
    then show ?case using 1(1,3) x by simp
  qed simp
  have "fm_wf (ni_file_monitor_new name v0)"
      "fm_cur (ni_file_monitor_new name v0) = map_option (\<lambda>ino. (ino, length (fv_content v0 ino))) (fv_path v0)"
    using assms(1) by (auto simp: ni_file_monitor_new_def good_view_def open_ok ni_monitor_init_def fm_wf_def fm_cur_def st_size_def split: option.split)
  with run [of "ni_file_monitor_new name v0" ni_eventlog_new] assms(2) show ?thesis
    by (simp add: logged_bytes_def ni_eventlog_new_def)
qed

text \<open>C26: The file monitor is \<open>tail -F\<close> as long as files are not truncated.  It is polled over any history of a
  path: the file grows, goes away, comes back, is replaced by another.  If the file that is open is never found shorter
  than it was at the last poll, no poll fails, and the events logged carry, in order, exactly what \<open>tail -F\<close> would have
  printed that started, at the end of the file, when the monitor was made and looked when the monitor was polled.\<close>

theorem ni_file_monitor_is_tail:
  assumes "good_view v0" "\<forall>(v, now)\<in>set vs. good_view v"
    and "only_grows (map_option (\<lambda>ino. (ino, length (fv_content v0 ino))) (fv_path v0)) (map fst vs)"
  shows "\<exists>fm log. poll_all vs (ni_file_monitor_new name v0) ni_eventlog_new = Some (fm, log)
     \<and> logged_bytes log = tail_output (map_option (\<lambda>ino. (ino, length (fv_content v0 ino))) (fv_path v0)) (map fst vs)"
  using monitor_logs [OF assms(1,2), of name] looked_at_grows [OF assms(3)] by simp

definition sample_view :: "nat \<Rightarrow> byte list \<Rightarrow> fs_view" where
  "sample_view i bs = \<lparr>fv_path = Some (0, i), fv_readable = True, fv_fstat_ok = True, fv_content = (\<lambda>_. bs), fv_reads = [1]\<rparr>"

lemma ni_file_monitor_is_tail_witness:
  "\<exists>fm log. poll_all [(sample_view 1 [7, 8, 9], (1, 0)), ((sample_view 2 [5])\<lparr>fv_content := (\<lambda>i. if i = (0, 1) then [7, 8, 9, 4] else [5])\<rparr>, (6, 0))]
       (ni_file_monitor_new None (sample_view 1 [7])) ni_eventlog_new = Some (fm, log)
     \<and> logged_bytes log = [8, 9, 4, 5]"
  using ni_file_monitor_is_tail [of "sample_view 1 [7]"
      "[(sample_view 1 [7, 8, 9], (1, 0)), ((sample_view 2 [5])\<lparr>fv_content := (\<lambda>i. if i = (0, 1) then [7, 8, 9, 4] else [5])\<rparr>, (6, 0))]" None]
  by (simp add: sample_view_def good_view_def)

text \<open>A file that is truncated and written anew, \<open>[1, 2, 3]\<close> and then \<open>[9, 9]\<close>: the monitor logs nothing, and when the
  file grows again only what is behind the two bytes; \<open>tail -F\<close> prints the new bytes.\<close>

lemma truncated_file_skipped:
  "\<exists>fm log. poll_all [(sample_view 1 [9, 9], (1, 0)), (sample_view 1 [9, 9, 8], (6, 0))] (ni_file_monitor_new None (sample_view 1 [1, 2, 3])) ni_eventlog_new = Some (fm, log)
     \<and> logged_bytes log = [8]"
  "tail_output (Some ((0, 1), 3)) [sample_view 1 [9, 9], sample_view 1 [9, 9, 8]] = [9, 9, 8]"
  using monitor_logs [of "sample_view 1 [1, 2, 3]" "[(sample_view 1 [9, 9], (1, 0)), (sample_view 1 [9, 9, 8], (6, 0))]" None]
  by (simp_all add: sample_view_def good_view_def)

section \<open>Events on the bus\<close>

definition ni_testbus_event_serialize :: "ni_event \<Rightarrow> ni_dbus_variant \<Rightarrow> (bool \<times> ni_dbus_variant) option" where
  "ni_testbus_event_serialize ev dict = do {
     d0 \<leftarrow> ni_dbus_variant_init_dict dict;
     (_, d1) \<leftarrow> ni_dbus_dict_add_string d0 ''source'' (ev_source ev);
     (_, d2) \<leftarrow> ni_dbus_dict_add_string d1 ''class'' (ev_class ev);
     (_, d3) \<leftarrow> ni_dbus_dict_add_string d2 ''type'' (ev_type ev);
     (_, d4) \<leftarrow> ni_dbus_dict_add_uint32 d3 ''seq'' (ev_sequence ev);
     let timestamp = 1000000 * (of_int (fst (ev_timestamp ev)) :: u64) + of_int (snd (ev_timestamp ev));
     (_, d5) \<leftarrow> ni_dbus_dict_add_uint64 d4 ''timestamp'' timestamp;
     (_, d6) \<leftarrow> (case ev_data ev of None \<Rightarrow> Some (True, d5)
                | Some data \<Rightarrow> ni_dbus_dict_add_byte_array_buffer d5 ''data'' data);
     Some (True, d6) }"

definition ni_testbus_event_deserialize :: "ni_dbus_variant \<Rightarrow> (bool \<times> ni_event) option" where
  "ni_testbus_event_deserialize dict = do {
     rclass \<leftarrow> ni_dbus_dict_get_string dict ''class'';
     rsource \<leftarrow> ni_dbus_dict_get_string dict ''source'';
     rtype \<leftarrow> ni_dbus_dict_get_string dict ''type'';
     rseq \<leftarrow> ni_dbus_dict_get_uint32 dict ''seq'';
     rtime \<leftarrow> ni_dbus_dict_get_uint64 dict ''timestamp'';
     (case (rclass, rsource, rtype, rseq, rtime) of
        (Some c, Some source, Some ty, Some seq, Some timestamp) \<Rightarrow> do {
          data \<leftarrow> ni_dbus_dict_get_byte_array_buffer dict ''data'';
          Some (True, \<lparr>ev_class = c, ev_source = source, ev_type = ty, ev_sequence = seq,
                       ev_timestamp = (uint timestamp div 1000000, uint timestamp mod 1000000), ev_data = data\<rparr>) }
      | _ \<Rightarrow> Some (False, NI_EVENT_INIT)) }"

definition event_items :: "ni_event \<Rightarrow> (cstring \<times> dict_item) list" where
  "event_items ev =
     [(''source'', IString (ev_source ev)), (''class'', IString (ev_class ev)), (''type'', IString (ev_type ev)),
      (''seq'', IUInt32 (ev_sequence ev)),
      (''timestamp'', IUInt64 (1000000 * of_int (fst (ev_timestamp ev)) + of_int (snd (ev_timestamp ev))))]"

definition event_entries :: "ni_event \<Rightarrow> dict_entry list" where
  "event_entries ev = map (\<lambda>(k, it). Entry (Some k) (item_variant it)) (event_items ev)"

lemma count_bytes:
  "buf_wf b \<Longrightarrow> length (buf_bytes b) < 2 ^ 32 \<Longrightarrow> mem_read (buf_base b) (ni_buffer_head b) (unat (ni_buffer_count b)) = Some (buf_bytes b)"
  using buf_wfD [of b] length_buf_bytes [of b] ni_buffer_count_wf [of b]
  by (simp add: mem_read_in ni_buffer_head_def buf_bytes_def take_drop)

definition buffer_of :: "ni_dbus_variant \<Rightarrow> ni_buffer option option" where
  "buffer_of v = do {
     let res = ni_buffer_new (of_nat (v_len v));
     bs \<leftarrow> (if v_len v = 0 then Some [] else do { b \<leftarrow> byte_array_value v; mem_read b 0 (v_len v) });
     (_, res1) \<leftarrow> ni_buffer_put res (Some bs) (of_nat (v_len v));
     Some (Some res1) }"

lemma get_buffer_eq: "ni_dbus_dict_get_byte_array_buffer d key = dict_get_with buffer_of d key"
  unfolding ni_dbus_dict_get_byte_array_buffer_def dict_get_with_def buffer_of_def [abs_def] Let_def by (rule refl)

lemma buffer_of_bytes:
  assumes "length bs < 2 ^ 32" "length bs \<le> length b" "take (length bs) b = bs"
  shows "\<exists>res. buffer_of (Variant DBUS_TYPE_ARRAY DBUS_TYPE_BYTE None (length bs) (ByteArr b)) = Some (Some res) \<and> buf_wf res \<and> buf_bytes res = bs"
proof -
  have u: "unat (of_nat (length bs) :: u64) = length bs" using assms(1) by (intro unat_of_nat_u64) simp
  let ?n = "of_nat (length bs) :: u64"
  have "unat (buf_tail (ni_buffer_new ?n)) + unat ?n \<le> unat (buf_size (ni_buffer_new ?n))"
    by (simp add: ni_buffer_new_def ni_buffer_init_def)
  from ni_buffer_put_ok [OF ni_buffer_new_wf _ this, of bs] u
  obtain res where "ni_buffer_put (ni_buffer_new ?n) (Some bs) ?n = Some (0, res)" "buf_wf res" "buf_bytes res = bs"
    by (auto simp: ni_buffer_new_bytes)
  moreover have "(if length bs = 0 then Some [] else do { b1 \<leftarrow> Some b; mem_read b1 0 (length bs) }) = Some bs"
    using assms(2,3) by (simp add: mem_read_in)
  ultimately show ?thesis by (auto simp: buffer_of_def byte_array_value_def Let_def)
qed

lemma event_serialize_ok:
  assumes "\<forall>b. ev_data ev = Some b \<longrightarrow> buf_wf b \<and> length (buf_bytes b) < 2 ^ 32"
  shows "\<exists>d es. ni_testbus_event_serialize ev ni_dbus_variant_init = Some (True, d) \<and> has_entries d (event_entries ev @ es)
     \<and> (case ev_data ev of None \<Rightarrow> es = []
        | Some b \<Rightarrow> \<exists>a. es = [Entry (Some ''data'') (Variant DBUS_TYPE_ARRAY DBUS_TYPE_BYTE None (length (buf_bytes b)) (ByteArr a))]
            \<and> length (buf_bytes b) \<le> length a \<and> take (length (buf_bytes b)) a = buf_bytes b)"
proof -
  have cf: "can_free ni_dbus_variant_init" by (simp add: ni_dbus_variant_init_def)
  obtain d0 where d0: "ni_dbus_variant_init_dict ni_dbus_variant_init = Some d0" "has_entries d0 []" using has_entries_new [OF cf] by blast
  obtain d where d: "add_items d0 (event_items ev) = Some d" "has_entries d (event_entries ev)"
    using has_entries_add_items [OF d0(2), of "event_items ev"] by (auto simp: event_entries_def)
  show ?thesis
  proof (cases "ev_data ev")
    case None
    then have "ni_testbus_event_serialize ev ni_dbus_variant_init = Some (True, d)"
      using d(1) d0(1) by (auto simp: ni_testbus_event_serialize_def event_items_def Let_def dest!: add_items_step)
    then show ?thesis using d(2) None by (intro exI [of _ d] exI [of _ "[]"]) simp
  next
    case (Some b)
    let ?bs = "buf_bytes b"
    have b: "mem_read (buf_base b) (ni_buffer_head b) (unat (ni_buffer_count b)) = Some ?bs"
      using assms Some by (intro count_bytes) simp_all
    obtain a where a: "ni_dbus_variant_set_byte_array ni_dbus_variant_init ?bs = Some (Variant DBUS_TYPE_ARRAY DBUS_TYPE_BYTE None (length ?bs) (ByteArr a))"
        "length ?bs \<le> length a" "take (length ?bs) a = ?bs"
      using set_byte_array_ok [OF cf] by blast
    obtain d2 where d2: "ni_dbus_dict_add_byte_array d ''data'' ?bs = Some (True, d2)"
        "has_entries d2 (event_entries ev @ [Entry (Some ''data'') (Variant DBUS_TYPE_ARRAY DBUS_TYPE_BYTE None (length ?bs) (ByteArr a))])"
      using has_entries_add [where set_val = ni_dbus_variant_set_byte_array, OF d(2) a(1), of "''data''"] by (auto simp: ni_dbus_dict_add_byte_array_def)
    have "ni_testbus_event_serialize ev ni_dbus_variant_init = Some (True, d2)"
      using d(1) d0(1) d2(1) Some b
      by (auto simp: ni_testbus_event_serialize_def event_items_def Let_def ni_dbus_dict_add_byte_array_buffer_def dest!: add_items_step)
    then show ?thesis using d2(2) a(2,3) Some
      by (intro exI [of _ d2] exI [of _ "[Entry (Some ''data'') (Variant DBUS_TYPE_ARRAY DBUS_TYPE_BYTE None (length ?bs) (ByteArr a))]"]) simp
  qed
qed

lemma timestamp_back:
  assumes "0 \<le> s" "s < 18446744073709" "0 \<le> u" "u < 1000000"
  shows "uint (1000000 * (of_int s :: u64) + of_int u) = 1000000 * s + u"
proof -
  have "1000000 * (of_int s :: u64) + of_int u = of_int (1000000 * s + u)" by simp
  also have "uint (of_int (1000000 * s + u) :: u64) = 1000000 * s + u"
    using assms by (simp only: unsigned_of_int) (simp add: take_bit_int_eq_self)
  finally show ?thesis .
qed

text \<open>C27: Events arrive as they were logged.  Class, source, type, sequence number, time stamp and data of an event
  are the same after it went over the bus (the time stamp is a number of microseconds in 64 bits).\<close>

theorem event_roundtrip:
  assumes time: "ev_timestamp ev = (s, u)" "0 \<le> s" "s < 18446744073709" "0 \<le> u" "u < 1000000"
    and data: "\<forall>b. ev_data ev = Some b \<longrightarrow> buf_wf b \<and> length (buf_bytes b) < 2 ^ 32"
  shows "\<exists>d ev1. ni_testbus_event_serialize ev ni_dbus_variant_init = Some (True, d)
     \<and> ni_testbus_event_deserialize d = Some (True, ev1) \<and> ev1\<lparr>ev_data := None\<rparr> = ev\<lparr>ev_data := None\<rparr>
     \<and> map_option buf_bytes (ev_data ev1) = map_option buf_bytes (ev_data ev)"
proof -
  obtain d es where d: "ni_testbus_event_serialize ev ni_dbus_variant_init = Some (True, d)" "has_entries d (event_entries ev @ es)"
      "case ev_data ev of None \<Rightarrow> es = []
        | Some b \<Rightarrow> \<exists>a. es = [Entry (Some ''data'') (Variant DBUS_TYPE_ARRAY DBUS_TYPE_BYTE None (length (buf_bytes b)) (ByteArr a))]
            \<and> length (buf_bytes b) \<le> length a \<and> take (length (buf_bytes b)) a = buf_bytes b"
    using event_serialize_ok [OF data] by blast
  have g: "dict_get_with get_val d k = (case dict_map (event_entries ev @ es) k of None \<Rightarrow> Some None | Some v \<Rightarrow> get_val v)"
    for get_val :: "ni_dbus_variant \<Rightarrow> 'b option option" and k by (rule has_entries_get [OF d(2)])
  note read = dict_get_defs g event_entries_def event_items_def dict_map_Cons dict_map_Nil item_get
  have r: "ni_dbus_dict_get_string d ''class'' = Some (Some (ev_class ev))" "ni_dbus_dict_get_string d ''source'' = Some (Some (ev_source ev))"
      "ni_dbus_dict_get_string d ''type'' = Some (Some (ev_type ev))" "ni_dbus_dict_get_uint32 d ''seq'' = Some (Some (ev_sequence ev))"
      "ni_dbus_dict_get_uint64 d ''timestamp'' = Some (Some (1000000 * of_int s + of_int u))"
    by (simp_all add: read time(1) del: item_variant.simps)
  obtain rd where rd: "ni_dbus_dict_get_byte_array_buffer d ''data'' = Some rd" "map_option buf_bytes rd = map_option buf_bytes (ev_data ev)"
  proof (cases "ev_data ev")
    case None
    then show ?thesis using that [of None] d(3) by (simp add: get_buffer_eq read del: item_variant.simps)
  next
    case (Some b)
    then obtain a where a: "es = [Entry (Some ''data'') (Variant DBUS_TYPE_ARRAY DBUS_TYPE_BYTE None (length (buf_bytes b)) (ByteArr a))]"
        "length (buf_bytes b) \<le> length a" "take (length (buf_bytes b)) a = buf_bytes b" using d(3) by auto
    have "length (buf_bytes b) < 2 ^ 32" using data Some by blast
    from buffer_of_bytes [OF this a(2,3)] obtain res where
      "buffer_of (Variant DBUS_TYPE_ARRAY DBUS_TYPE_BYTE None (length (buf_bytes b)) (ByteArr a)) = Some (Some res)" "buf_bytes res = buf_bytes b"
      by blast
    then show ?thesis using that [of "Some res"] a(1) Some by (simp add: get_buffer_eq read del: item_variant.simps)
  qed
  define ev1 where "ev1 = \<lparr>ev_class = ev_class ev, ev_source = ev_source ev, ev_type = ev_type ev, ev_sequence = ev_sequence ev,
      ev_timestamp = (s, u), ev_data = rd\<rparr>"
  have "ni_testbus_event_deserialize d = Some (True, ev1)"
    using r rd(1) timestamp_back [OF time(2-5)] time(2-5) by (simp add: ni_testbus_event_deserialize_def ev1_def)
  then show ?thesis using d(1) rd(2) time(1) by (intro exI [of _ d] exI [of _ ev1]) (simp add: ev1_def)
qed

lemma event_roundtrip_witness:
  "\<exists>d ev1. ni_testbus_event_serialize (NI_EVENT_INIT\<lparr>ev_class := Some ''file'', ev_timestamp := (7, 5), ev_data := Some (ni_buffer_init_reader [1, 2] 2)\<rparr>) ni_dbus_variant_init = Some (True, d)
     \<and> ni_testbus_event_deserialize d = Some (True, ev1) \<and> ev_class ev1 = Some ''file'' \<and> ev_timestamp ev1 = (7, 5)
     \<and> map_option buf_bytes (ev_data ev1) = Some [1, 2]"
proof -
  let ?ev = "NI_EVENT_INIT\<lparr>ev_class := Some ''file'', ev_timestamp := (7, 5), ev_data := Some (ni_buffer_init_reader [1, 2] 2)\<rparr>"
  have "buf_wf (ni_buffer_init_reader [1, 2] 2) \<and> buf_bytes (ni_buffer_init_reader [1, 2] 2) = [1, 2]"
    by (rule ni_buffer_init_reader_wf) simp
  then obtain d ev1 where 1: "ni_testbus_event_serialize ?ev ni_dbus_variant_init = Some (True, d)" "ni_testbus_event_deserialize d = Some (True, ev1)"
      "ev1\<lparr>ev_data := None\<rparr> = ?ev\<lparr>ev_data := None\<rparr>" "map_option buf_bytes (ev_data ev1) = Some [1, 2]"
    using event_roundtrip [of ?ev 7 5] by auto
  from 1(3) have "ev_class ev1 = Some ''file''" "ev_timestamp ev1 = (7, 5)" by (cases ev1, simp add: NI_EVENT_INIT_def)+
  with 1 show ?thesis by blast
qed

end
