(* ===== verification/Process.thy ===== *)
theory Process
  imports Events Vars
begin

text \<open>
  Subprocesses (dborb/process.c): command lines and their environment, the buffers of the standard streams, the
  queue of running processes and the collection of their exit status; and the form of processes and exit
  statuses on the bus (testbus/process.c).  Processes live at addresses in a store, so that the links of the wait
  queue are pointers that can dangle or form a cycle.  The operating system answers through arguments: the
  environment of the program, which files can be executed, process ids, what a \<open>read\<close> or \<open>write\<close> returns.
\<close>

section \<open>Environments of processes\<close>

text \<open>\<open>!strncmp(oldvar, name, namelen) && oldvar[namelen] == '='\<close>.\<close>

definition binds :: "cstring \<Rightarrow> cstring \<Rightarrow> bool" where
  "binds name oldvar \<longleftrightarrow> take (length name) oldvar = name \<and> length name < length oldvar \<and> oldvar ! length name = CHR ''=''"

fun env_index :: "nat \<Rightarrow> cstring option list \<Rightarrow> cstring \<Rightarrow> nat option option" where
  "env_index i [] name = Some None"
| "env_index i (x # xs) name = do { oldvar \<leftarrow> x; (if binds name oldvar then Some (Some i) else env_index (Suc i) xs name) }"

text \<open>\<open>strlen\<close> of a NULL value is a fault.\<close>

definition u_ni_process_setenv :: "ni_string_array \<Rightarrow> cstring \<Rightarrow> cstring option \<Rightarrow> ni_string_array option" where
  "u_ni_process_setenv env name val = do {
     v \<leftarrow> val;
     let newvar = name @ ''='' @ v;
     xs \<leftarrow> mem_read (sa_data env) 0 (sa_count env);
     r \<leftarrow> env_index 0 xs name;
     (case r of
        Some i \<Rightarrow> do { d \<leftarrow> arr_set (sa_data env) i (Some newvar); Some (env\<lparr>sa_data := d\<rparr>) }
      | None \<Rightarrow> ni_string_array_append env (Some newvar)) }"

text \<open>An empty value is as good as none.\<close>

definition u_ni_process_getenv :: "ni_string_array \<Rightarrow> cstring \<Rightarrow> cstring option option" where
  "u_ni_process_getenv env name = do {
     xs \<leftarrow> mem_read (sa_data env) 0 (sa_count env);
     r \<leftarrow> env_index 0 xs name;
     (case r of
        None \<Rightarrow> Some None
      | Some i \<Rightarrow> do { x \<leftarrow> arr_get xs i; oldvar \<leftarrow> x;
          Some (case drop (length name + 1) oldvar of [] \<Rightarrow> None | v \<Rightarrow> Some v) }) }"

definition copy_env :: "cstring list" where "copy_env = [''LD_LIBRARY_PATH'', ''LD_PRELOAD'', ''PATH'']"

fun default_env_loop :: "(cstring \<Rightarrow> cstring option) \<Rightarrow> cstring list \<Rightarrow> ni_string_array \<Rightarrow> ni_string_array option" where
  "default_env_loop getenv [] env = Some env"
| "default_env_loop getenv (name # names) env = do {
     env1 \<leftarrow> (case getenv name of None \<Rightarrow> Some env | Some v \<Rightarrow> u_ni_process_setenv env name (Some v));
     default_env_loop getenv names env1 }"

definition u_ni_default_environment :: "(cstring \<Rightarrow> cstring option) \<Rightarrow> ni_string_array option" where
  "u_ni_default_environment getenv = default_env_loop getenv copy_env ni_string_array_init"

section \<open>Commands\<close>

record ni_shellcmd =
  sc_refcount :: nat
  sc_command :: "cstring option"
  sc_argv :: ni_string_array
  sc_environ :: ni_string_array

definition no_shellcmd :: ni_shellcmd where
  "no_shellcmd = \<lparr>sc_refcount = 0, sc_command = None, sc_argv = ni_string_array_init, sc_environ = ni_string_array_init\<rparr>"

definition u_ni_shellcmd_parse :: "ni_string_array \<Rightarrow> cstring option \<Rightarrow> (bool \<times> ni_string_array) option" where
  "u_ni_shellcmd_parse argv command = do {
     (n, a) \<leftarrow> ni_string_split (Some argv) command (Some [CHR '' '', CHR 0x09]) 0;
     argv1 \<leftarrow> a;
     Some (n \<noteq> 0, argv1) }"

definition u_ni_shellcmd_format :: "ni_string_array \<Rightarrow> cstring option option" where
  "u_ni_shellcmd_format argv = ni_string_join (Some argv) (Some '' '')"

text \<open>None inside: the command could not be made.\<close>

definition ni_shellcmd_new :: "(cstring \<Rightarrow> cstring option) \<Rightarrow> ni_string_array \<Rightarrow> ni_shellcmd option option" where
  "ni_shellcmd_new getenv argv = do {
     args \<leftarrow> mem_read (sa_data argv) 0 (sa_count argv);
     a \<leftarrow> append_all ni_string_array_append ni_string_array_init (filter (\<lambda>x. ni_string_len x \<noteq> 0) args);
     cmd \<leftarrow> u_ni_shellcmd_format a;
     (case cmd of
        None \<Rightarrow> Some None
      | Some c \<Rightarrow> do {
          defenv \<leftarrow> u_ni_default_environment getenv;
          env \<leftarrow> ni_string_array_copy ni_string_array_init defenv;
          Some (Some \<lparr>sc_refcount = 1, sc_command = Some c, sc_argv = a, sc_environ = env\<rparr>) }) }"

definition ni_shellcmd_parse :: "(cstring \<Rightarrow> cstring option) \<Rightarrow> cstring \<Rightarrow> ni_shellcmd option option" where
  "ni_shellcmd_parse getenv command = do {
     (ok, a) \<leftarrow> u_ni_shellcmd_parse ni_string_array_init (Some command);
     (if \<not> ok then Some None
      else do {
        defenv \<leftarrow> u_ni_default_environment getenv;
        env \<leftarrow> ni_string_array_copy ni_string_array_init defenv;
        Some (Some \<lparr>sc_refcount = 1, sc_command = Some command, sc_argv = a, sc_environ = env\<rparr>) }) }"

definition ni_shellcmd_add_arg :: "ni_shellcmd option \<Rightarrow> cstring option \<Rightarrow> (bool \<times> ni_shellcmd option) option" where
  "ni_shellcmd_add_arg proc arg =
     (case proc of None \<Rightarrow> Some (False, None)
      | Some p \<Rightarrow>
          (if ni_string_len arg = 0 then Some (False, Some p)
           else do {
             a \<leftarrow> ni_string_array_append (sc_argv p) arg;
             cmd \<leftarrow> u_ni_shellcmd_format a;
             Some (cmd \<noteq> None, Some (p\<lparr>sc_argv := a, sc_command := cmd\<rparr>)) }))"

definition ni_shellcmd_setenv :: "ni_shellcmd \<Rightarrow> cstring \<Rightarrow> cstring option \<Rightarrow> ni_shellcmd option" where
  "ni_shellcmd_setenv proc name val = do {
     env \<leftarrow> u_ni_process_setenv (sc_environ proc) name val; Some (proc\<lparr>sc_environ := env\<rparr>) }"

definition ni_shellcmd_hold :: "ni_shellcmd \<Rightarrow> ni_shellcmd option" where
  "ni_shellcmd_hold proc = do {
     ni_assert (sc_refcount proc \<noteq> 0); Some (proc\<lparr>sc_refcount := sc_refcount proc + 1\<rparr>) }"

text \<open>None inside: the command was freed.\<close>

definition ni_shellcmd_release :: "ni_shellcmd option \<Rightarrow> ni_shellcmd option option" where
  "ni_shellcmd_release proc =
     (case proc of None \<Rightarrow> Some None
      | Some p \<Rightarrow> do {
          ni_assert (sc_refcount p \<noteq> 0);
          Some (if sc_refcount p - 1 = 0 then None else Some (p\<lparr>sc_refcount := sc_refcount p - 1\<rparr>)) })"

section \<open>Processes\<close>

record process_socket =
  sk_fd :: int
  sk_active :: bool
  sk_pollout :: bool

record ni_process_buffer =
  pb_active :: bool
  pb_master_fd :: int
  pb_slave_fd :: int
  pb_socket :: "process_socket option"
  pb_wbuf :: "ni_buffer option"
  pb_low_water_mark :: u32

record ni_process_exit_info =
  xi_how :: u32
  xi_exit_code :: u32
  xi_crash_signal :: u32
  xi_core_dumped :: u32
  xi_stdout_bytes :: u32
  xi_stderr_bytes :: u32

abbreviation (input) "NI_PROCESS_NONSTARTER \<equiv> (0 :: u32)"
abbreviation (input) "NI_PROCESS_EXITED \<equiv> (1 :: u32)"
abbreviation (input) "NI_PROCESS_CRASHED \<equiv> (2 :: u32)"
abbreviation (input) "NI_PROCESS_TIMED_OUT \<equiv> (3 :: u32)"
abbreviation (input) "NI_PROCESS_TRANSCENDED \<equiv> (4 :: u32)"

text \<open>A callback is an observer: the record tells whether there is one.\<close>

record ni_process =
  pi_next :: "nat option"
  pi_process :: "nat option"
  pi_pid :: int
  pi_status :: u32
  pi_exit_info :: ni_process_exit_info
  pi_argv :: ni_string_array
  pi_environ :: ni_string_array
  pi_use_terminal :: u32
  pi_stdin :: ni_process_buffer
  pi_stdout :: ni_process_buffer
  pi_stderr :: ni_process_buffer
  pi_read_callback :: bool
  pi_exit_callback :: bool

datatype stream = Stdout | Stderr

text \<open>What the outside sees: the output handed to a read callback, the calls of an exit callback, the
  descriptors closed and the signals sent.\<close>

datatype process_event =
    Output nat stream "byte list"
  | Exit_called nat
  | Closed int
  | Killed int nat

text \<open>The processes and commands at their addresses, the head of the wait queue, and the flag the signal handler
  sets.\<close>

record process_store =
  ps_procs :: "nat \<rightharpoonup> ni_process"
  ps_cmds :: "nat \<rightharpoonup> ni_shellcmd"
  ps_queue :: "nat option"
  ps_sigchld :: bool
  ps_trace :: "process_event list"

definition log_events :: "process_event list \<Rightarrow> process_store \<Rightarrow> process_store" where
  "log_events es ps = ps\<lparr>ps_trace := ps_trace ps @ es\<rparr>"

definition put_process :: "nat \<Rightarrow> ni_process \<Rightarrow> process_store \<Rightarrow> process_store" where
  "put_process a p ps = ps\<lparr>ps_procs := (ps_procs ps)(a \<mapsto> p)\<rparr>"

definition ni_process_buffer_init :: ni_process_buffer where
  "ni_process_buffer_init =
     \<lparr>pb_active = False, pb_master_fd = -1, pb_slave_fd = -1, pb_socket = None, pb_wbuf = None, pb_low_water_mark = 4096\<rparr>"

definition no_exit_info :: ni_process_exit_info where
  "no_exit_info = \<lparr>xi_how = 0, xi_exit_code = 0, xi_crash_signal = 0, xi_core_dumped = 0, xi_stdout_bytes = 0, xi_stderr_bytes = 0\<rparr>"

definition ni_process_new :: "(cstring \<Rightarrow> cstring option) \<Rightarrow> bool \<Rightarrow> ni_process option" where
  "ni_process_new getenv use_default_env = do {
     env \<leftarrow> (if use_default_env then do { defenv \<leftarrow> u_ni_default_environment getenv; ni_string_array_copy ni_string_array_init defenv }
            else Some ni_string_array_init);
     Some \<lparr>pi_next = None, pi_process = None, pi_pid = 0, pi_status = 0, pi_exit_info = no_exit_info\<lparr>xi_how := -1\<rparr>,
           pi_argv = ni_string_array_init, pi_environ = env, pi_use_terminal = 0, pi_stdin = ni_process_buffer_init,
           pi_stdout = ni_process_buffer_init, pi_stderr = ni_process_buffer_init, pi_read_callback = False, pi_exit_callback = False\<rparr> }"

definition ni_process_setenv :: "ni_process \<Rightarrow> cstring \<Rightarrow> cstring option \<Rightarrow> ni_process option" where
  "ni_process_setenv pi name val = do {
     env \<leftarrow> u_ni_process_setenv (pi_environ pi) name val; Some (pi\<lparr>pi_environ := env\<rparr>) }"

definition ni_process_getenv :: "ni_process \<Rightarrow> cstring \<Rightarrow> cstring option option" where
  "ni_process_getenv pi name = u_ni_process_getenv (pi_environ pi) name"

fun setenv_all :: "ni_var list \<Rightarrow> ni_process \<Rightarrow> ni_process option" where
  "setenv_all [] pi = Some pi"
| "setenv_all (v # vs) pi = do {
     name \<leftarrow> var_name v; pi1 \<leftarrow> ni_process_setenv pi name (var_value v); setenv_all vs pi1 }"

definition ni_process_new_ext :: "ni_string_array \<Rightarrow> ni_var_array \<Rightarrow> ni_process option" where
  "ni_process_new_ext argv env = do {
     pi \<leftarrow> ni_process_new (\<lambda>_. None) False;
     a \<leftarrow> ni_string_array_copy (pi_argv pi) argv;
     vs \<leftarrow> mem_read (va_data env) 0 (va_count env);
     setenv_all vs (pi\<lparr>pi_argv := a\<rparr>) }"

text \<open>The process holds the command at address \<open>c\<close>.\<close>

definition ni_process_new_shellcmd :: "(cstring \<Rightarrow> cstring option) \<Rightarrow> nat \<Rightarrow> process_store \<Rightarrow> (ni_process \<times> process_store) option" where
  "ni_process_new_shellcmd getenv c ps = do {
     pi \<leftarrow> ni_process_new getenv True;
     cmd \<leftarrow> ps_cmds ps c;
     a \<leftarrow> ni_string_array_copy (pi_argv pi) (sc_argv cmd);
     e \<leftarrow> ni_string_array_copy (pi_environ pi) (sc_environ cmd);
     cmd1 \<leftarrow> ni_shellcmd_hold cmd;
     Some (pi\<lparr>pi_argv := a, pi_environ := e, pi_process := Some c\<rparr>, ps\<lparr>ps_cmds := (ps_cmds ps)(c \<mapsto> cmd1)\<rparr>) }"

definition ni_process_capture_stdout :: "ni_process \<Rightarrow> ni_process" where
  "ni_process_capture_stdout pi = pi\<lparr>pi_stdout := (pi_stdout pi)\<lparr>pb_active := True\<rparr>\<rparr>"

definition ni_process_capture_stderr :: "ni_process \<Rightarrow> ni_process" where
  "ni_process_capture_stderr pi = pi\<lparr>pi_stderr := (pi_stderr pi)\<lparr>pb_active := True\<rparr>\<rparr>"

section \<open>The buffers of the standard streams\<close>

text \<open>\<open>fdpair\<close> is what \<open>socketpair\<close> or \<open>openpty\<close> gives.\<close>

definition ni_process_buffer_open_pipe :: "(int \<times> int) option \<Rightarrow> ni_process_buffer \<Rightarrow> bool \<times> ni_process_buffer" where
  "ni_process_buffer_open_pipe fdpair pb =
     (if pb_active pb then
        (case fdpair of
           None \<Rightarrow> (False, pb)
         | Some (fd0, fd1) \<Rightarrow> (True, pb\<lparr>pb_master_fd := fd0, pb_slave_fd := fd1\<rparr>))
      else (True, pb))"

definition ni_process_buffer_open_pty :: "(int \<times> int) option \<Rightarrow> ni_process_buffer \<Rightarrow> bool \<times> ni_process_buffer" where
  "ni_process_buffer_open_pty pty pb =
     (if pb_active pb then
        (case pty of
           None \<Rightarrow> (False, pb)
         | Some (master, slave) \<Rightarrow> (True, pb\<lparr>pb_master_fd := master, pb_slave_fd := slave\<rparr>))
      else (True, pb))"

definition u_ni_process_connect_stdin :: "int \<Rightarrow> process_socket" where
  "u_ni_process_connect_stdin fd = \<lparr>sk_fd = fd, sk_active = False, sk_pollout = True\<rparr>"

definition u_ni_process_connect_output :: "int \<Rightarrow> process_socket" where
  "u_ni_process_connect_output fd = \<lparr>sk_fd = fd, sk_active = False, sk_pollout = False\<rparr>"

definition ni_process_buffer_attach_parent :: "bool \<Rightarrow> ni_process_buffer \<Rightarrow> ni_process_buffer \<times> process_event list" where
  "ni_process_buffer_attach_parent is_stdin pb =
     (if pb_active pb \<and> 0 \<le> pb_master_fd pb then
        (let sock = (if is_stdin then u_ni_process_connect_stdin (pb_master_fd pb) else u_ni_process_connect_output (pb_master_fd pb));
             pb1 = pb\<lparr>pb_socket := Some (sock\<lparr>sk_active := True\<rparr>), pb_master_fd := -1\<rparr> in
         if is_stdin then (pb1, []) else (pb1\<lparr>pb_slave_fd := -1\<rparr>, [Closed (pb_slave_fd pb)]))
      else (pb, []))"

text \<open>The pointer to the freed write buffer stays in \<open>wbuf\<close>; the only caller that uses the process
  buffer again, \<open>ni_process_buffer_destroy\<close>, overwrites it.\<close>

definition ni_process_buffer_reset :: "ni_process_buffer \<Rightarrow> ni_process_buffer \<times> process_event list" where
  "ni_process_buffer_reset pb =
     (pb\<lparr>pb_socket := None, pb_master_fd := (if 0 \<le> pb_master_fd pb then -1 else pb_master_fd pb),
         pb_slave_fd := (if 0 \<le> pb_slave_fd pb then -1 else pb_slave_fd pb)\<rparr>,
      (case pb_socket pb of None \<Rightarrow> [] | Some sock \<Rightarrow> [Closed (sk_fd sock)])
      @ (if 0 \<le> pb_master_fd pb then [Closed (pb_master_fd pb)] else [])
      @ (if 0 \<le> pb_slave_fd pb then [Closed (pb_slave_fd pb)] else []))"

definition ni_process_buffer_destroy :: "ni_process_buffer \<Rightarrow> ni_process_buffer \<times> process_event list" where
  "ni_process_buffer_destroy pb = (let (_, es) = ni_process_buffer_reset pb in (ni_process_buffer_init, es))"

text \<open>\<open>fd\<close> is what \<open>open\<close> gives.\<close>

definition ni_process_attach_input_regular_file :: "int \<Rightarrow> nat \<Rightarrow> process_store \<Rightarrow> (bool \<times> process_store) option" where
  "ni_process_attach_input_regular_file fd a ps = do {
     pi \<leftarrow> ps_procs ps a;
     let pb = pi_stdin pi;
     let pb1 = (if 0 \<le> pb_slave_fd pb then pb\<lparr>pb_slave_fd := -1\<rparr> else pb);
     let ps1 = log_events (if 0 \<le> pb_slave_fd pb then [Closed (pb_slave_fd pb)] else []) ps;
     Some (if fd < 0 then (False, put_process a (pi\<lparr>pi_stdin := pb1\<rparr>) ps1)
           else (True, put_process a (pi\<lparr>pi_stdin := pb1\<lparr>pb_slave_fd := fd, pb_active := True\<rparr>\<rparr>) ps1)) }"

text \<open>The output of a process.  A \<open>read\<close> gives at most what it is asked for of the bytes that are there, possibly
  nothing; when the list of answers ends, nothing has come in yet.\<close>

datatype sock_read = Read_some nat | Read_would_block | Read_error

definition u_ni_process_notify_buffer :: "bool \<Rightarrow> ni_process_buffer \<Rightarrow> byte list list \<times> ni_process_buffer" where
  "u_ni_process_notify_buffer read_callback pb =
     (case pb_wbuf pb of
        None \<Rightarrow> ([], pb)
      | Some wbuf \<Rightarrow> (if read_callback then [buf_bytes wbuf] else [], pb\<lparr>pb_wbuf := None\<rparr>))"

definition recv_wbuf :: "ni_process_buffer \<Rightarrow> ni_buffer" where
  "recv_wbuf pb = (case pb_wbuf pb of None \<Rightarrow> ni_buffer_new 4096 | Some wbuf \<Rightarrow> wbuf)"

definition deactivate :: "ni_process_buffer \<Rightarrow> ni_process_buffer" where
  "deactivate pb = pb\<lparr>pb_socket := map_option (\<lambda>sock. sock\<lparr>sk_active := False\<rparr>) (pb_socket pb)\<rparr>"

fun u_ni_process_output_recv ::
    "bool \<Rightarrow> sock_read list \<Rightarrow> byte list \<Rightarrow> ni_process_buffer \<Rightarrow> (byte list list \<times> byte list \<times> ni_process_buffer) option" where
  "u_ni_process_output_recv cb [] pending pb = Some ([], pending, pb\<lparr>pb_wbuf := Some (recv_wbuf pb)\<rparr>)"
| "u_ni_process_output_recv cb (Read_would_block # rs) pending pb = Some ([], pending, pb\<lparr>pb_wbuf := Some (recv_wbuf pb)\<rparr>)"
| "u_ni_process_output_recv cb (Read_error # rs) pending pb =
     Some ([], pending, deactivate (pb\<lparr>pb_wbuf := Some (recv_wbuf pb)\<rparr>))"
| "u_ni_process_output_recv cb (Read_some k # rs) pending pb = do {
     let n = min k (unat (ni_buffer_tailroom (recv_wbuf pb)));
     wbuf \<leftarrow> buffer_fill (recv_wbuf pb) (take n pending);
     let pb1 = pb\<lparr>pb_wbuf := Some wbuf\<rparr>;
     (if ni_buffer_tailroom wbuf = 0 then
        (let (c, pb2) = u_ni_process_notify_buffer cb pb1 in do {
           (cs, pending1, pb3) \<leftarrow> u_ni_process_output_recv cb rs (drop n pending) pb2;
           Some (c @ cs, pending1, pb3) })
      else if pb_low_water_mark pb \<le> ni_buffer_count wbuf then
        (let (c, pb2) = u_ni_process_notify_buffer cb pb1 in Some (c, drop n pending, pb2))
      else Some ([], drop n pending, pb1)) }"

text \<open>Only the sockets of the output streams have a \<open>receive\<close> function.\<close>

definition u_ni_process_flush_buffer ::
    "bool \<Rightarrow> sock_read list \<Rightarrow> byte list \<Rightarrow> ni_process_buffer \<Rightarrow> (byte list list \<times> byte list \<times> ni_process_buffer) option" where
  "u_ni_process_flush_buffer cb rs pending pb = do {
     (cs, pending1, pb1) \<leftarrow> (case pb_socket pb of
        None \<Rightarrow> Some ([], pending, pb)
      | Some _ \<Rightarrow> u_ni_process_output_recv cb rs pending pb);
     let (c, pb2) = u_ni_process_notify_buffer cb pb1;
     Some (cs @ c, pending1, pb2) }"

text \<open>The input of a process: the bytes of the file that are left, what a \<open>read\<close> of it gives (None: an error), what
  the \<open>write\<close> answers; the bytes taken, the rest of the file, and whether the file was closed come back.\<close>

datatype sock_write = Wrote nat | Write_would_block | Write_error

definition u_ni_process_input_send ::
    "nat option \<Rightarrow> sock_write \<Rightarrow> byte list \<Rightarrow> ni_process_buffer \<Rightarrow> (byte list \<times> byte list \<times> ni_process_buffer \<times> process_event list) option" where
  "u_ni_process_input_send rd wr file pb = do {
     (file1, pb1, es) \<leftarrow>
       (if pb_wbuf pb = None \<and> 0 \<le> pb_slave_fd pb then
          (case rd of
             None \<Rightarrow> Some (file, pb, [])
           | Some k \<Rightarrow>
               (let n = min k 8192 in
                if take n file = [] then Some (file, pb\<lparr>pb_slave_fd := -1\<rparr>, [Closed (pb_slave_fd pb)])
                else do { bp \<leftarrow> buffer_fill (ni_buffer_new 8192) (take n file); Some (drop n file, pb\<lparr>pb_wbuf := Some bp\<rparr>, []) }))
        else Some (file, pb, []));
     let bytes = (case pb_wbuf pb1 of None \<Rightarrow> replicate 1024 0x04 | Some bp \<Rightarrow> buf_bytes bp);
     (case wr of
        Write_would_block \<Rightarrow> Some ([], file1, pb1, es)
      | Write_error \<Rightarrow> Some ([], file1, deactivate pb1, es)
      | Wrote k \<Rightarrow>
          (let sent = take k bytes in
           case pb_wbuf pb1 of
             None \<Rightarrow> Some (sent, file1, pb1, es)
           | Some bp \<Rightarrow>
               (let bp1 = snd (ni_buffer_pull_head bp (of_nat (length sent))) in
                Some (sent, file1, pb1\<lparr>pb_wbuf := (if ni_buffer_count bp1 = 0 then None else Some bp1)\<rparr>, es)))) }"

section \<open>Running processes\<close>

definition ni_process_free :: "bool \<Rightarrow> nat \<Rightarrow> process_store \<Rightarrow> process_store option" where
  "ni_process_free kill_ok a ps = do {
     pi \<leftarrow> ps_procs ps a;
     ps1 \<leftarrow> (if pi_pid pi = 0 then Some ps
            else if kill_ok then Some (log_events [Killed (pi_pid pi) 9] ps)
            else do { c \<leftarrow> pi_process pi; cmd \<leftarrow> ps_cmds ps c; Some ps });
     let es = snd (ni_process_buffer_destroy (pi_stdin pi)) @ snd (ni_process_buffer_destroy (pi_stdout pi))
              @ snd (ni_process_buffer_destroy (pi_stderr pi));
     cmds \<leftarrow> (case pi_process pi of
        None \<Rightarrow> Some (ps_cmds ps1)
      | Some c \<Rightarrow> do { cmd \<leftarrow> ps_cmds ps1 c; r \<leftarrow> ni_shellcmd_release (Some cmd); Some ((ps_cmds ps1)(c := r)) });
     Some (log_events es (ps1\<lparr>ps_procs := (ps_procs ps1)(a := None), ps_cmds := cmds\<rparr>)) }"

definition bin_path :: "cstring list" where "bin_path = [''/bin'', ''/sbin'', ''/usr/bin'', ''/usr/sbin'']"

text \<open>\<open>snprintf\<close> into \<open>PATH_MAX + 1\<close> bytes.\<close>

definition path_in :: "cstring \<Rightarrow> cstring \<Rightarrow> cstring" where "path_in name dir = take 4096 (dir @ ''/'' @ name)"

definition u_ni_process_find_path :: "(cstring \<Rightarrow> bool) \<Rightarrow> cstring \<Rightarrow> cstring" where
  "u_ni_process_find_path executable name =
     (if CHR ''/'' \<in> set name then name
      else case find executable (map (path_in name) bin_path) of Some p \<Rightarrow> p | None \<Rightarrow> name)"

definition u_ni_process_add_waitq :: "nat \<Rightarrow> process_store \<Rightarrow> process_store option" where
  "u_ni_process_add_waitq a ps = do {
     pi \<leftarrow> ps_procs ps a;
     Some (if pi_next pi \<noteq> None then ps
           else (put_process a (pi\<lparr>pi_next := ps_queue ps\<rparr>) ps)\<lparr>ps_queue := Some a\<rparr>) }"

text \<open>\<open>executable\<close> is \<open>ni_file_executable\<close>, \<open>forked\<close> what \<open>fork\<close> gives to the parent.\<close>

definition u_ni_process_run :: "(cstring \<Rightarrow> bool) \<Rightarrow> int \<Rightarrow> nat \<Rightarrow> process_store \<Rightarrow> (int \<times> process_store) option" where
  "u_ni_process_run executable forked a ps = do {
     pi \<leftarrow> ps_procs ps a;
     x \<leftarrow> arr_get (sa_data (pi_argv pi)) 0;
     (if pi_pid pi \<noteq> 0 then do { c \<leftarrow> pi_process pi; cmd \<leftarrow> ps_cmds ps c; Some (-1, ps) }
      else do {
        name \<leftarrow> x;
        let arg0 = (if take 1 name \<noteq> ''/'' then u_ni_process_find_path executable name else name);
        (if \<not> executable arg0 then Some (-1, ps)
         else do {
           ps1 \<leftarrow> u_ni_process_add_waitq a ps;
           (if forked < 0 then Some (-1, ps1)
            else do {
              pi1 \<leftarrow> ps_procs ps1 a;
              let (pin, es0) = ni_process_buffer_attach_parent True (pi_stdin pi1);
              let (pout, es1) = ni_process_buffer_attach_parent False (pi_stdout pi1);
              let (perr, es2) = ni_process_buffer_attach_parent False (pi_stderr pi1);
              Some (0, log_events (es0 @ es1 @ es2) (put_process a
                (pi1\<lparr>pi_pid := forked, pi_stdin := pin, pi_stdout := pout, pi_stderr := perr\<rparr>) ps1)) }) }) }) }"

text \<open>The child: the program, arguments and environment it gives to \<open>execve\<close>.\<close>

definition child_execve :: "ni_process \<Rightarrow> (cstring \<times> cstring option list \<times> cstring option list) option" where
  "child_execve pi = do {
     pi1 \<leftarrow> (if pi_use_terminal pi \<noteq> 0 then ni_process_setenv pi ''TERM'' (Some ''vt100'') else Some pi);
     argv \<leftarrow> ni_string_array_append (pi_argv pi1) None;
     env \<leftarrow> ni_string_array_append (pi_environ pi1) None;
     x \<leftarrow> arr_get (sa_data argv) 0;
     arg0 \<leftarrow> x;
     args \<leftarrow> mem_read (sa_data argv) 0 (sa_count argv);
     vars \<leftarrow> mem_read (sa_data env) 0 (sa_count env);
     Some (arg0, args, vars) }"

record run_answers =
  ra_executable :: "cstring \<Rightarrow> bool"
  ra_fork :: int
  ra_pty :: "(int \<times> int) option"
  ra_dup :: int
  ra_stdout_pipe :: "(int \<times> int) option"
  ra_stderr_pipe :: "(int \<times> int) option"

definition ni_process_run :: "run_answers \<Rightarrow> nat \<Rightarrow> process_store \<Rightarrow> (int \<times> process_store) option" where
  "ni_process_run os a ps = do {
     pi \<leftarrow> ps_procs ps a;
     (if pi_use_terminal pi \<noteq> 0 then
        (let (ok, pout) = ni_process_buffer_open_pty (ra_pty os) (pi_stdout pi) in
         if \<not> ok then Some (-1, ps)
         else
           (let (perr, es) = ni_process_buffer_destroy (pi_stderr pi);
                pin = (pi_stdin pi)\<lparr>pb_master_fd := ra_dup os, pb_active := True\<rparr> in
            u_ni_process_run (ra_executable os) (ra_fork os) a
              (log_events es (put_process a (pi\<lparr>pi_stdout := pout, pi_stderr := perr, pi_stdin := pin\<rparr>) ps))))
      else
        (let (ok1, pout) = ni_process_buffer_open_pipe (ra_stdout_pipe os) (pi_stdout pi) in
         if \<not> ok1 then Some (-1, ps)
         else
           (let (ok2, perr) = ni_process_buffer_open_pipe (ra_stderr_pipe os) (pi_stderr pi);
                ps1 = put_process a (pi\<lparr>pi_stdout := pout, pi_stderr := perr\<rparr>) ps in
            if \<not> ok2 then Some (-1, ps1)
            else u_ni_process_run (ra_executable os) (ra_fork os) a ps1))) }"

definition ni_process_kill :: "nat \<Rightarrow> process_store \<Rightarrow> (int \<times> process_store) option" where
  "ni_process_kill a ps = do {
     pi \<leftarrow> ps_procs ps a;
     Some (0, if pi_pid pi = 0 then ps else log_events [Killed (- pi_pid pi) 15, Killed (- pi_pid pi) 9] ps) }"

section \<open>Exit status\<close>

text \<open>The macros of \<open>sys/wait.h\<close>.\<close>

definition WIFEXITED :: "u32 \<Rightarrow> bool" where "WIFEXITED st \<longleftrightarrow> st AND 0x7f = 0"
definition WEXITSTATUS :: "u32 \<Rightarrow> u32" where "WEXITSTATUS st = drop_bit 8 (st AND 0xff00)"
definition WTERMSIG :: "u32 \<Rightarrow> u32" where "WTERMSIG st = st AND 0x7f"
definition WIFSIGNALED :: "u32 \<Rightarrow> bool" where "WIFSIGNALED st \<longleftrightarrow> st AND 0x7f \<noteq> 0 \<and> st AND 0x7f \<noteq> 0x7f"
definition WCOREDUMP :: "u32 \<Rightarrow> bool" where "WCOREDUMP st \<longleftrightarrow> st AND 0x80 \<noteq> 0"

definition ni_process_exit_status_okay :: "ni_process \<Rightarrow> bool" where
  "ni_process_exit_status_okay pi \<longleftrightarrow> WIFEXITED (pi_status pi) \<and> WEXITSTATUS (pi_status pi) = 0"

definition ni_process_set_exit_info :: "ni_process_exit_info \<Rightarrow> ni_process \<Rightarrow> ni_process" where
  "ni_process_set_exit_info exit_info pi = pi\<lparr>pi_exit_info := exit_info\<rparr>"

definition ni_process_get_exit_info :: "ni_process \<Rightarrow> ni_process_exit_info" where
  "ni_process_get_exit_info pi = pi_exit_info pi"

definition u_ni_process_fill_exit_info :: "ni_process \<Rightarrow> ni_process" where
  "u_ni_process_fill_exit_info pi =
     pi\<lparr>pi_exit_info :=
       (if WIFEXITED (pi_status pi) then
          no_exit_info\<lparr>xi_how := NI_PROCESS_EXITED, xi_exit_code := WEXITSTATUS (pi_status pi)\<rparr>
        else if WIFSIGNALED (pi_status pi) then
          no_exit_info\<lparr>xi_how := NI_PROCESS_CRASHED, xi_crash_signal := WTERMSIG (pi_status pi),
                       xi_core_dumped := (if WCOREDUMP (pi_status pi) then 1 else 0)\<rparr>
        else no_exit_info\<lparr>xi_how := NI_PROCESS_TRANSCENDED\<rparr>)\<rparr>"

text \<open>What comes in on the two output streams of a process while they are flushed.\<close>

record last_output =
  lo_stdout_reads :: "sock_read list"
  lo_stdout :: "byte list"
  lo_stderr_reads :: "sock_read list"
  lo_stderr :: "byte list"

definition flush_both :: "last_output \<Rightarrow> nat \<Rightarrow> ni_process \<Rightarrow> (ni_process \<times> process_event list) option" where
  "flush_both lo a pi = do {
     (cs1, _, pout) \<leftarrow> u_ni_process_flush_buffer (pi_read_callback pi) (lo_stdout_reads lo) (lo_stdout lo) (pi_stdout pi);
     (cs2, _, perr) \<leftarrow> u_ni_process_flush_buffer (pi_read_callback pi) (lo_stderr_reads lo) (lo_stderr lo) (pi_stderr pi);
     Some (pi\<lparr>pi_stdout := pout, pi_stderr := perr\<rparr>, map (Output a Stdout) cs1 @ map (Output a Stderr) cs2) }"

definition exit_call :: "nat \<Rightarrow> ni_process \<Rightarrow> process_event list" where
  "exit_call a pi = (if pi_exit_callback pi then [Exit_called a] else [])"

definition ni_process_reap :: "last_output \<Rightarrow> nat \<Rightarrow> process_store \<Rightarrow> process_store option" where
  "ni_process_reap lo a ps = do {
     pi \<leftarrow> ps_procs ps a;
     (pi1, es) \<leftarrow> flush_both lo a (u_ni_process_fill_exit_info pi);
     Some (log_events (es @ exit_call a pi1) (put_process a pi1 ps)) }"

text \<open>\<open>waited\<close>: the status \<open>waitpid\<close> gives in the end, None for an error other than \<open>EINTR\<close>.\<close>

definition ni_process_run_and_wait ::
    "(cstring \<Rightarrow> bool) \<Rightarrow> int \<Rightarrow> u32 option \<Rightarrow> last_output \<Rightarrow> nat \<Rightarrow> process_store \<Rightarrow> (int \<times> process_store) option" where
  "ni_process_run_and_wait executable forked waited lo a ps = do {
     (rv, ps1) \<leftarrow> u_ni_process_run executable forked a ps;
     (if rv < 0 then Some (rv, ps1)
      else case waited of
        None \<Rightarrow> Some (-1, ps1)
      | Some st \<Rightarrow> do {
          pi \<leftarrow> ps_procs ps1 a;
          (pi1, es) \<leftarrow> flush_both lo a (pi\<lparr>pi_status := st\<rparr>);
          let pi2 = pi1\<lparr>pi_pid := 0\<rparr>;
          Some (if ni_process_exit_status_okay pi2 then rv else -1,
                log_events (es @ exit_call a pi2) (put_process a pi2 ps1)) }) }"

section \<open>The wait queue\<close>

text \<open>The process with the given pid and its predecessor.  None: the walk ran into a dangling pointer, or the
  queue is a cycle without that process.\<close>

partial_function (option) queue_find ::
    "(nat \<rightharpoonup> ni_process) \<Rightarrow> int \<Rightarrow> nat option \<Rightarrow> nat option \<Rightarrow> (nat option \<times> nat) option option" where
  [code]: "queue_find procs pid prev cur =
     (if cur = None then Some None
      else do {
        a \<leftarrow> cur;
        pi \<leftarrow> procs a;
        (if pi_pid pi = pid then Some (Some (prev, a)) else queue_find procs pid (Some a) (pi_next pi)) })"

definition queue_unlink :: "nat option \<Rightarrow> nat \<Rightarrow> process_store \<Rightarrow> process_store option" where
  "queue_unlink prev a ps = do {
     pi \<leftarrow> ps_procs ps a;
     ps1 \<leftarrow> (case prev of
        None \<Rightarrow> Some (ps\<lparr>ps_queue := pi_next pi\<rparr>)
      | Some b \<Rightarrow> do { pb \<leftarrow> ps_procs ps b; Some (put_process b (pb\<lparr>pi_next := pi_next pi\<rparr>) ps) });
     pi1 \<leftarrow> ps_procs ps1 a;
     Some (put_process a (pi1\<lparr>pi_next := None\<rparr>) ps1) }"

text \<open>The children \<open>waitpid\<close> reports, with the output they leave; no more children end the loop.\<close>

fun reap_loop :: "(int \<times> u32 \<times> last_output) list \<Rightarrow> process_store \<Rightarrow> process_store option" where
  "reap_loop [] ps = Some ps"
| "reap_loop ((pid, status, lo) # children) ps = do {
     r \<leftarrow> queue_find (ps_procs ps) pid None (ps_queue ps);
     ps1 \<leftarrow> (case r of
        None \<Rightarrow> Some ps
      | Some (prev, a) \<Rightarrow> do {
          ps2 \<leftarrow> queue_unlink prev a ps;
          pi \<leftarrow> ps_procs ps2 a;
          ni_process_reap lo a (put_process a (pi\<lparr>pi_status := status, pi_pid := 0\<rparr>) ps2) });
     reap_loop children ps1 }"

definition ni_process_reap_children :: "(int \<times> u32 \<times> last_output) list \<Rightarrow> process_store \<Rightarrow> process_store option" where
  "ni_process_reap_children children ps =
     (if \<not> ps_sigchld ps then Some ps else reap_loop children (ps\<lparr>ps_sigchld := False\<rparr>))"

definition u_ni_process_sigchld :: "process_store \<Rightarrow> process_store" where
  "u_ni_process_sigchld ps = ps\<lparr>ps_sigchld := True\<rparr>"

definition u_ni_process_io_hangup :: "int \<Rightarrow> ni_process \<Rightarrow> ni_process" where
  "u_ni_process_io_hangup fd pi =
     (let is_sock = (\<lambda>pb. map_option sk_fd (pb_socket pb) = Some fd) in
      if is_sock (pi_stdin pi) then pi\<lparr>pi_stdin := (pi_stdin pi)\<lparr>pb_socket := None\<rparr>\<rparr>
      else if is_sock (pi_stdout pi) then pi\<lparr>pi_stdout := (pi_stdout pi)\<lparr>pb_socket := None\<rparr>\<rparr>
      else if is_sock (pi_stderr pi) then pi\<lparr>pi_stderr := (pi_stderr pi)\<lparr>pb_socket := None\<rparr>\<rparr>
      else pi)"

section \<open>Processes on the bus\<close>

definition ni_testbus_process_serialize :: "ni_process \<Rightarrow> ni_dbus_variant \<Rightarrow> (bool \<times> ni_dbus_variant) option" where
  "ni_testbus_process_serialize pi dict = do {
     d0 \<leftarrow> ni_dbus_variant_init_dict dict;
     argv \<leftarrow> mem_read (sa_data (pi_argv pi)) 0 (sa_count (pi_argv pi));
     (_, d1) \<leftarrow> ni_dbus_dict_add_string_array d0 ''argv'' argv;
     env \<leftarrow> mem_read (sa_data (pi_environ pi)) 0 (sa_count (pi_environ pi));
     (_, d2) \<leftarrow> ni_dbus_dict_add_string_array d1 ''env'' env;
     (_, d3) \<leftarrow> ni_dbus_dict_add_bool d2 ''use-terminal'' (pi_use_terminal pi);
     Some (True, d3) }"

text \<open>None inside: NULL.  The process is made from the default environment; the variables that were sent are
  appended to it.\<close>

definition ni_testbus_process_deserialize :: "(cstring \<Rightarrow> cstring option) \<Rightarrow> ni_dbus_variant \<Rightarrow> ni_process option option" where
  "ni_testbus_process_deserialize getenv dict = do {
     pi \<leftarrow> ni_process_new getenv True;
     r1 \<leftarrow> dict_get_with (\<lambda>e. map_option Some (ni_dbus_variant_get_string_array e (pi_argv pi))) dict ''argv'';
     (case r1 of
        Some (True, argv) \<Rightarrow> do {
          r2 \<leftarrow> dict_get_with (\<lambda>e. map_option Some (ni_dbus_variant_get_string_array e (pi_environ pi))) dict ''env'';
          (case r2 of
             Some (True, env) \<Rightarrow> do {
               b \<leftarrow> ni_dbus_dict_get_bool dict ''use-terminal'';
               Some (Some (pi\<lparr>pi_argv := argv, pi_environ := env,
                              pi_use_terminal := (case b of None \<Rightarrow> pi_use_terminal pi | Some x \<Rightarrow> x)\<rparr>)) }
           | _ \<Rightarrow> Some None) }
      | _ \<Rightarrow> Some None) }"

definition exit_info_items :: "ni_process_exit_info \<Rightarrow> (cstring \<times> dict_item) list" where
  "exit_info_items xi =
     [(''how'', IUInt32 (xi_how xi))]
     @ (if xi_how xi = NI_PROCESS_EXITED then [(''exit-code'', IUInt32 (xi_exit_code xi))]
        else if xi_how xi = NI_PROCESS_CRASHED then
          [(''exit-signal'', IUInt32 (xi_crash_signal xi)), (''core-dumped'', IBool (xi_core_dumped xi))]
        else [])
     @ [(''stdout-total-bytes'', IUInt32 (xi_stdout_bytes xi)), (''stderr-total-bytes'', IUInt32 (xi_stderr_bytes xi))]"

definition ni_testbus_process_exit_info_serialize :: "ni_process_exit_info \<Rightarrow> ni_dbus_variant \<Rightarrow> (bool \<times> ni_dbus_variant) option" where
  "ni_testbus_process_exit_info_serialize xi dict = do {
     d0 \<leftarrow> ni_dbus_variant_init_dict dict;
     (_, d1) \<leftarrow> ni_dbus_dict_add_uint32 d0 ''how'' (xi_how xi);
     d3 \<leftarrow> (if xi_how xi = NI_PROCESS_EXITED then do {
              (_, d2) \<leftarrow> ni_dbus_dict_add_uint32 d1 ''exit-code'' (xi_exit_code xi); Some d2 }
           else if xi_how xi = NI_PROCESS_CRASHED then do {
              (_, d2) \<leftarrow> ni_dbus_dict_add_uint32 d1 ''exit-signal'' (xi_crash_signal xi);
              (_, d3) \<leftarrow> ni_dbus_dict_add_bool d2 ''core-dumped'' (xi_core_dumped xi); Some d3 }
           else Some d1);
     (_, d4) \<leftarrow> ni_dbus_dict_add_uint32 d3 ''stdout-total-bytes'' (xi_stdout_bytes xi);
     (_, d5) \<leftarrow> ni_dbus_dict_add_uint32 d4 ''stderr-total-bytes'' (xi_stderr_bytes xi);
     Some (True, d5) }"

definition ni_testbus_process_exit_info_deserialize :: "ni_dbus_variant \<Rightarrow> ni_process_exit_info option" where
  "ni_testbus_process_exit_info_deserialize dict = do {
     how \<leftarrow> ni_dbus_dict_get_uint32 dict ''how'';
     let xi0 = no_exit_info\<lparr>xi_how := (case how of None \<Rightarrow> NI_PROCESS_TRANSCENDED | Some x \<Rightarrow> x)\<rparr>;
     code \<leftarrow> ni_dbus_dict_get_uint32 dict ''exit-code'';
     xi1 \<leftarrow> (case code of
        Some x \<Rightarrow> Some (xi0\<lparr>xi_how := NI_PROCESS_EXITED, xi_exit_code := x\<rparr>)
      | None \<Rightarrow> do {
          sig \<leftarrow> ni_dbus_dict_get_uint32 dict ''exit-signal'';
          (case sig of
             None \<Rightarrow> Some xi0
           | Some x \<Rightarrow> do {
               core \<leftarrow> ni_dbus_dict_get_bool dict ''core-dumped'';
               Some (xi0\<lparr>xi_how := NI_PROCESS_CRASHED, xi_crash_signal := x,
                         xi_core_dumped := (case core of None \<Rightarrow> 0 | Some b \<Rightarrow> b)\<rparr>) }) });
     out \<leftarrow> ni_dbus_dict_get_uint32 dict ''stdout-total-bytes'';
     err \<leftarrow> ni_dbus_dict_get_uint32 dict ''stderr-total-bytes'';
     Some (xi1\<lparr>xi_stdout_bytes := (case out of None \<Rightarrow> 0 | Some x \<Rightarrow> x), xi_stderr_bytes := (case err of None \<Rightarrow> 0 | Some x \<Rightarrow> x)\<rparr>) }"

section \<open>The exit status arrives\<close>

lemma exit_info_serialize_ok:
  assumes "can_free v"
  shows "\<exists>d. ni_testbus_process_exit_info_serialize xi v = Some (True, d)
     \<and> has_entries d (map (\<lambda>(k, it). Entry (Some k) (item_variant it)) (exit_info_items xi))"
proof -
  obtain d0 where d0: "ni_dbus_variant_init_dict v = Some d0" "has_entries d0 []" using has_entries_new [OF assms] by blast
  obtain d where d: "add_items d0 (exit_info_items xi) = Some d"
      "has_entries d (map (\<lambda>(k, it). Entry (Some k) (item_variant it)) (exit_info_items xi))"
    using has_entries_add_items [OF d0(2), of "exit_info_items xi"] by auto
  have "ni_testbus_process_exit_info_serialize xi v = Some (True, d)"
    using d(1) d0(1)
    by (auto simp: ni_testbus_process_exit_info_serialize_def exit_info_items_def split: if_splits dest!: add_items_step)
  then show ?thesis using d(2) by blast
qed

text \<open>Only the fields that go with \<open>how\<close> are sent.\<close>

definition sent_exit_info :: "ni_process_exit_info \<Rightarrow> ni_process_exit_info" where
  "sent_exit_info xi = xi\<lparr>
     xi_exit_code := (if xi_how xi = NI_PROCESS_EXITED then xi_exit_code xi else 0),
     xi_crash_signal := (if xi_how xi = NI_PROCESS_CRASHED then xi_crash_signal xi else 0),
     xi_core_dumped := (if xi_how xi = NI_PROCESS_CRASHED then xi_core_dumped xi else 0)\<rparr>"

lemma exit_info_deserialize_ok:
  assumes "has_entries d (map (\<lambda>(k, it). Entry (Some k) (item_variant it)) (exit_info_items xi))"
  shows "ni_testbus_process_exit_info_deserialize d = Some (sent_exit_info xi)"
proof -
  have g: "dict_get_with get_val d k = (case dict_map (map (\<lambda>(k, it). Entry (Some k) (item_variant it)) (exit_info_items xi)) k of
      None \<Rightarrow> Some None | Some v \<Rightarrow> get_val v)" for get_val :: "ni_dbus_variant \<Rightarrow> 'b option option" and k
    by (rule has_entries_get [OF assms])
  note read = dict_get_defs g exit_info_items_def dict_map_Cons dict_map_Nil item_get
  consider "xi_how xi = NI_PROCESS_EXITED" | "xi_how xi = NI_PROCESS_CRASHED"
    | "xi_how xi \<noteq> NI_PROCESS_EXITED" "xi_how xi \<noteq> NI_PROCESS_CRASHED" by blast
  then show ?thesis
    by cases (simp_all add: ni_testbus_process_exit_info_deserialize_def read sent_exit_info_def no_exit_info_def del: item_variant.simps)
qed

text \<open>C30: Whatever status \<open>waitpid\<close> reports, the exit information made of it goes over the bus unchanged, and it
  says that the process exited with code 0 exactly when the process counts as successful.\<close>

theorem exit_status_arrives:
  fixes pi :: ni_process
  defines "xi \<equiv> ni_process_get_exit_info (u_ni_process_fill_exit_info pi)"
  shows "(\<exists>d. ni_testbus_process_exit_info_serialize xi ni_dbus_variant_init = Some (True, d)
       \<and> ni_testbus_process_exit_info_deserialize d = Some xi)
     \<and> ni_process_exit_status_okay pi = (xi_how xi = NI_PROCESS_EXITED \<and> xi_exit_code xi = 0)"
proof -
  have "can_free ni_dbus_variant_init" by (simp add: ni_dbus_variant_init_def)
  then obtain d where d: "ni_testbus_process_exit_info_serialize xi ni_dbus_variant_init = Some (True, d)"
      "has_entries d (map (\<lambda>(k, it). Entry (Some k) (item_variant it)) (exit_info_items xi))"
    using exit_info_serialize_ok by blast
  have "sent_exit_info xi = xi"
    by (simp add: xi_def sent_exit_info_def ni_process_get_exit_info_def u_ni_process_fill_exit_info_def no_exit_info_def)
  with exit_info_deserialize_ok [OF d(2)] d(1) show ?thesis
    by (auto simp: xi_def ni_process_get_exit_info_def u_ni_process_fill_exit_info_def ni_process_exit_status_okay_def)
qed

section \<open>Environment variables\<close>

text \<open>The variables of an environment, and what the last assignment to a name was.\<close>

definition env_strings :: "ni_string_array \<Rightarrow> cstring list" where
  "env_strings env = map the (sa_items env)"

definition penv_wf :: "ni_string_array \<Rightarrow> bool" where
  "penv_wf env \<longleftrightarrow> sa_wf env \<and> None \<notin> set (sa_items env)"

definition penv_lookup :: "cstring list \<Rightarrow> cstring \<Rightarrow> cstring option" where
  "penv_lookup xs name = map_option (drop (length name + 1)) (find (binds name) xs)"

lemma penv_lookup_Nil [simp]: "penv_lookup [] name = None"
  by (simp add: penv_lookup_def)

lemma find_over_append: "find P (xs @ ys) = (case find P xs of None \<Rightarrow> find P ys | Some x \<Rightarrow> Some x)"
  by (induction xs) simp_all

lemma binds_append: "CHR ''='' \<notin> set name \<Longrightarrow> CHR ''='' \<notin> set n \<Longrightarrow> binds n (name @ ''='' @ v) \<longleftrightarrow> n = name"
proof
  assume ne: "CHR ''='' \<notin> set name" "CHR ''='' \<notin> set n" and b: "binds n (name @ ''='' @ v)"
  then have t: "take (length n) (name @ ''='' @ v) = n" and x: "(name @ ''='' @ v) ! length n = CHR ''=''"
    by (simp_all add: binds_def)
  have "length n \<le> length name"
  proof (rule ccontr)
    assume "\<not> length n \<le> length name"
    then have "n ! length name = CHR ''=''" using t by (metis append_Cons append_Nil linorder_not_le nth_append_length nth_take)
    then show False using ne(2) \<open>\<not> length n \<le> length name\<close> by (metis linorder_not_le nth_mem)
  qed
  moreover have "\<not> length n < length name" using x ne(1) by (metis nth_append nth_mem)
  ultimately show "n = name" using t by simp
qed (simp add: binds_def nth_append)

lemma env_index_find:
  "env_index i (map Some xs) name = Some (if \<exists>x\<in>set xs. binds name x then Some (i + length (takeWhile (\<lambda>x. \<not> binds name x) xs)) else None)"
  by (induction xs arbitrary: i) auto

lemma binds_split: "binds name x \<Longrightarrow> x = name @ ''='' @ drop (length name + 1) x"
  unfolding binds_def by (metis Cons_nth_drop_Suc Suc_eq_plus1 append_Cons append_Nil append_take_drop_id)

lemma binds_unique: "binds name x \<Longrightarrow> binds n x \<Longrightarrow> CHR ''='' \<notin> set name \<Longrightarrow> CHR ''='' \<notin> set n \<Longrightarrow> n = name"
  using binds_split [of name x] binds_append [of name n "drop (length name + 1) x"] by simp

lemma env_index_split:
  assumes "\<forall>y\<in>set ys. \<not> binds name y" "binds name x"
  shows "env_index i (map Some (ys @ x # zs)) name = Some (Some (i + length ys))"
  using assms by (induction ys arbitrary: i) simp_all

lemma env_index_none: "\<forall>y\<in>set ys. \<not> binds name y \<Longrightarrow> env_index i (map Some ys) name = Some None"
  by (induction ys arbitrary: i) simp_all

lemma env_items: "penv_wf env \<Longrightarrow> sa_items env = map Some (env_strings env)"
  by (auto simp: penv_wf_def env_strings_def intro!: nth_equalityI) (metis nth_mem option.collapse)

lemma env_items_wf: "sa_wf env \<Longrightarrow> sa_items env = map Some xs \<Longrightarrow> penv_wf env \<and> env_strings env = xs"
  by (auto simp: penv_wf_def env_strings_def comp_def)

lemma env_setenv_ok:
  assumes wf: "penv_wf env" and name: "CHR ''='' \<notin> set name"
  shows "\<exists>env1. u_ni_process_setenv env name (Some v) = Some env1 \<and> penv_wf env1
     \<and> (\<forall>n. CHR ''='' \<notin> set n \<longrightarrow> penv_lookup (env_strings env1) n = (if n = name then Some v else penv_lookup (env_strings env) n))"
proof -
  have sw: "sa_wf env" using wf by (simp add: penv_wf_def)
  let ?new = "name @ ''='' @ v"
  have new: "binds n ?new \<longleftrightarrow> n = name" if "CHR ''='' \<notin> set n" for n using binds_append [OF name that] .
  show ?thesis
  proof (cases "\<exists>x\<in>set (env_strings env). binds name x")
    case True
    then obtain ys x zs where s: "env_strings env = ys @ x # zs" "binds name x" "\<forall>y\<in>set ys. \<not> binds name y"
      by (metis split_list_first_prop)
    have it: "sa_items env = map Some (ys @ x # zs)" using env_items [OF wf] s(1) by simp
    then have len: "length ys < sa_count env" using length_sa_items [OF sw] by simp
    define env1 where "env1 = env\<lparr>sa_data := (sa_data env)[length ys := Some ?new]\<rparr>"
    have dl: "length ys < length (sa_data env)" using len sa_wf_count [OF sw] by simp
    have set: "u_ni_process_setenv env name (Some v) = Some env1"
      using sa_read_items [OF sw] env_index_split [OF s(3,2), of 0 zs] it dl
      by (simp add: u_ni_process_setenv_def arr_set_in env1_def)
    have "ni_string_array_set env (length ys) (Some ?new) = Some (0, env1)"
      using len dl by (simp add: ni_string_array_set_def arr_set_in env1_def)
    with ni_string_array_set_ok [OF sw len, of ?new] have "sa_wf env1" "sa_items env1 = map Some (ys @ ?new # zs)"
      using it by (auto simp: list_update_append)
    then have e1: "penv_wf env1" "env_strings env1 = ys @ ?new # zs" using env_items_wf by blast+
    have "penv_lookup (env_strings env1) n = (if n = name then Some v else penv_lookup (env_strings env) n)"
      if n: "CHR ''='' \<notin> set n" for n
    proof -
      have bx: "binds n x \<longleftrightarrow> n = name" using binds_unique [OF s(2) _ name n] s(2) by blast
      have ny: "find (binds name) ys = None" using s(3) by (simp add: find_None_iff)
      show ?thesis using bx new [OF n] ny
        by (cases "n = name") (simp_all add: e1(2) s(1) penv_lookup_def find_over_append split: option.split)
    qed
    with set e1(1) show ?thesis by blast
  next
    case False
    obtain env1 where e1: "ni_string_array_append env (Some ?new) = Some env1" "sa_wf env1" "sa_items env1 = sa_items env @ [Some ?new]"
      using ni_string_array_append_ok [OF sw, of "Some ?new"] by blast
    have set: "u_ni_process_setenv env name (Some v) = Some env1"
      using sa_read_items [OF sw] env_index_none [of "env_strings env" name 0] False env_items [OF wf] e1(1)
      by (simp add: u_ni_process_setenv_def)
    have s1: "penv_wf env1" "env_strings env1 = env_strings env @ [?new]"
      using env_items_wf [OF e1(2), of "env_strings env @ [?new]"] e1(3) env_items [OF wf] by simp_all
    have "penv_lookup (env_strings env1) n = (if n = name then Some v else penv_lookup (env_strings env) n)"
      if n: "CHR ''='' \<notin> set n" for n
    proof -
      have ny: "find (binds name) (env_strings env) = None" using False by (simp add: find_None_iff)
      show ?thesis using new [OF n] ny
        by (cases "n = name") (simp_all add: s1(2) penv_lookup_def find_over_append split: option.split)
    qed
    with set s1(1) show ?thesis by blast
  qed
qed

lemma process_getenv_ok:
  assumes wf: "penv_wf env"
  shows "u_ni_process_getenv env name = Some (case penv_lookup (env_strings env) name of None \<Rightarrow> None | Some v \<Rightarrow> if v = [] then None else Some v)"
proof -
  have sw: "sa_wf env" using wf by (simp add: penv_wf_def)
  note rd = sa_read_items [OF sw] env_items [OF wf]
  show ?thesis
  proof (cases "\<exists>x\<in>set (env_strings env). binds name x")
    case True
    then obtain ys x zs where s: "env_strings env = ys @ x # zs" "binds name x" "\<forall>y\<in>set ys. \<not> binds name y"
      by (metis split_list_first_prop)
    have "find (binds name) (ys @ x # zs) = Some x" using s(2,3) by (induction ys) simp_all
    then show ?thesis
      using rd s(1) env_index_split [OF s(3,2), of 0 zs]
      by (auto simp: u_ni_process_getenv_def penv_lookup_def arr_get_def nth_append split: list.split)
  next
    case False
    then have "find (binds name) (env_strings env) = None" by (simp add: find_None_iff)
    then show ?thesis using rd env_index_none [of "env_strings env" name 0] False
      by (simp add: u_ni_process_getenv_def penv_lookup_def)
  qed
qed

lemma process_setenv_ok:
  assumes "penv_wf (pi_environ pi)" and "CHR ''='' \<notin> set name"
  shows "\<exists>pi1. ni_process_setenv pi name (Some v) = Some pi1 \<and> penv_wf (pi_environ pi1) \<and> pi_argv pi1 = pi_argv pi
     \<and> (\<forall>n. CHR ''='' \<notin> set n \<longrightarrow>
          penv_lookup (env_strings (pi_environ pi1)) n = (if n = name then Some v else penv_lookup (env_strings (pi_environ pi)) n))"
  using env_setenv_ok [OF assms, of v] by (auto simp: ni_process_setenv_def)

lemma setenv_all_ok:
  assumes "penv_wf (pi_environ pi)" and "\<forall>(n, v)\<in>set vars. CHR ''='' \<notin> set n"
  shows "\<exists>pi1. setenv_all (map (\<lambda>(n, v). \<lparr>var_name = Some n, var_value = Some v\<rparr>) vars) pi = Some pi1 \<and> penv_wf (pi_environ pi1)
     \<and> pi_argv pi1 = pi_argv pi
     \<and> (\<forall>n. CHR ''='' \<notin> set n \<longrightarrow>
          penv_lookup (env_strings (pi_environ pi1)) n = (case map_of (rev vars) n of None \<Rightarrow> penv_lookup (env_strings (pi_environ pi)) n | Some v \<Rightarrow> Some v))"
  using assms
proof (induction vars arbitrary: pi)
  case Nil
  then show ?case by simp
next
  case (Cons x vars)
  obtain name v where x: "x = (name, v)" by (cases x)
  obtain p1 where p1: "ni_process_setenv pi name (Some v) = Some p1" "penv_wf (pi_environ p1)" "pi_argv p1 = pi_argv pi"
      "\<forall>n. CHR ''='' \<notin> set n \<longrightarrow>
          penv_lookup (env_strings (pi_environ p1)) n = (if n = name then Some v else penv_lookup (env_strings (pi_environ pi)) n)"
    using process_setenv_ok [OF Cons.prems(1), of name v] Cons.prems(2) x by auto
  have "\<forall>(n, v)\<in>set vars. CHR ''='' \<notin> set n" using Cons.prems(2) by simp
  from Cons.IH [OF p1(2) this] obtain pi1 where pi1:
      "setenv_all (map (\<lambda>(n, v). \<lparr>var_name = Some n, var_value = Some v\<rparr>) vars) p1 = Some pi1" "penv_wf (pi_environ pi1)" "pi_argv pi1 = pi_argv p1"
      "\<forall>n. CHR ''='' \<notin> set n \<longrightarrow>
          penv_lookup (env_strings (pi_environ pi1)) n = (case map_of (rev vars) n of None \<Rightarrow> penv_lookup (env_strings (pi_environ p1)) n | Some v \<Rightarrow> Some v)"
    by blast
  have "setenv_all (map (\<lambda>(n, v). \<lparr>var_name = Some n, var_value = Some v\<rparr>) (x # vars)) pi = Some pi1" using x p1(1) pi1(1) by simp
  then show ?case using pi1(2-4) p1(3,4) x by (intro exI [of _ pi1]) (auto simp: map_add_def split: option.splits)
qed

lemma penv_wf_init [simp]: "penv_wf ni_string_array_init" "env_strings ni_string_array_init = []"
  by (simp_all add: penv_wf_def env_strings_def)

text \<open>C31: A process made from arguments and variables runs with these arguments and, for each name, the value set
  last; an empty value reads as none.  (Names hold no equals sign.)\<close>

theorem process_gets_arguments_and_variables:
  assumes args: "sa_wf argv" and vars: "va_count env = length vs" "length vs \<le> length (va_data env)"
    "take (length vs) (va_data env) = map (\<lambda>(n, v). \<lparr>var_name = Some n, var_value = Some v\<rparr>) vs"
    and names: "\<forall>(n, v)\<in>set vs. CHR ''='' \<notin> set n"
  shows "\<exists>pi. ni_process_new_ext argv env = Some pi \<and> sa_items (pi_argv pi) = sa_items argv
     \<and> (\<forall>n. CHR ''='' \<notin> set n \<longrightarrow> ni_process_getenv pi n = Some (case map_of (rev vs) n of Some v \<Rightarrow> if v = [] then None else Some v | None \<Rightarrow> None))"
proof -
  obtain p0 where p0: "ni_process_new (\<lambda>_. None) False = Some p0" "pi_environ p0 = ni_string_array_init" "pi_argv p0 = ni_string_array_init"
    by (simp add: ni_process_new_def)
  obtain a where a: "ni_string_array_copy ni_string_array_init argv = Some a" "sa_items a = sa_items argv"
    using ni_string_array_copy_ok [OF sa_wf_init(1) args] by blast
  let ?p = "p0\<lparr>pi_argv := a\<rparr>"
  have "penv_wf (pi_environ ?p)" using p0(2) by simp
  from setenv_all_ok [OF this names] obtain pi where pi:
      "setenv_all (map (\<lambda>(n, v). \<lparr>var_name = Some n, var_value = Some v\<rparr>) vs) ?p = Some pi" "penv_wf (pi_environ pi)" "pi_argv pi = a"
      "\<forall>n. CHR ''='' \<notin> set n \<longrightarrow> penv_lookup (env_strings (pi_environ pi)) n = (case map_of (rev vs) n of None \<Rightarrow> penv_lookup (env_strings (pi_environ ?p)) n | Some v \<Rightarrow> Some v)"
    by auto
  have new: "ni_process_new_ext argv env = Some pi"
    using p0 a(1) pi(1) vars by (simp add: ni_process_new_ext_def mem_read_in)
  show ?thesis
    using new pi(2-4) a(2) by (intro exI [of _ pi]) (auto simp: ni_process_getenv_def process_getenv_ok p0(2) split: option.splits)
qed

lemma process_gets_arguments_and_variables_witness:
  "\<exists>pi. ni_process_new_ext ni_string_array_init
      \<lparr>va_count = 2, va_data = [\<lparr>var_name = Some ''A'', var_value = Some ''x''\<rparr>, \<lparr>var_name = Some ''A'', var_value = Some ''y''\<rparr>]\<rparr> = Some pi
    \<and> ni_process_getenv pi ''A'' = Some (Some ''y'')"
  using process_gets_arguments_and_variables [of ni_string_array_init
      "\<lparr>va_count = 2, va_data = [\<lparr>var_name = Some ''A'', var_value = Some ''x''\<rparr>, \<lparr>var_name = Some ''A'', var_value = Some ''y''\<rparr>]\<rparr>"
      "[(''A'', ''x''), (''A'', ''y'')]"]
  by auto

section \<open>Output\<close>

definition wbuf_bytes :: "ni_process_buffer \<Rightarrow> byte list" where
  "wbuf_bytes pb = (case pb_wbuf pb of None \<Rightarrow> [] | Some b \<Rightarrow> buf_bytes b)"

definition pb_wf :: "ni_process_buffer \<Rightarrow> bool" where
  "pb_wf pb \<longleftrightarrow> (\<forall>b. pb_wbuf pb = Some b \<longrightarrow> buf_wf b \<and> buf_room b < 2 ^ 32)"

lemma recv_wbuf_ok:
  assumes "pb_wf pb"
  shows "buf_wf (recv_wbuf pb)" "buf_bytes (recv_wbuf pb) = wbuf_bytes pb" "buf_room (recv_wbuf pb) < 2 ^ 32"
  using assms ni_buffer_new_wf [of 4096] ni_buffer_new_bytes [of 4096]
  by (auto simp: pb_wf_def recv_wbuf_def wbuf_bytes_def buf_room_def ni_buffer_new_def ni_buffer_init_def split: option.split)

lemma notify_ok:
  "u_ni_process_notify_buffer cb pb = (c, pb1) \<Longrightarrow>
     (cb \<longrightarrow> concat c = wbuf_bytes pb) \<and> pb1 = pb\<lparr>pb_wbuf := None\<rparr>"
  by (cases "pb_wbuf pb") (auto simp: u_ni_process_notify_buffer_def wbuf_bytes_def)

lemma output_recv_ok:
  "pb_wf pb \<Longrightarrow> \<exists>cs pending1 pb1. u_ni_process_output_recv cb rs pending pb = Some (cs, pending1, pb1) \<and> pb_wf pb1
     \<and> (cb \<longrightarrow> concat cs @ wbuf_bytes pb1 @ pending1 = wbuf_bytes pb @ pending)"
proof (induction rs arbitrary: pb pending)
  case Nil
  then show ?case using recv_wbuf_ok [OF Nil] by (auto simp: pb_wf_def wbuf_bytes_def)
next
  case (Cons r rs)
  note w = recv_wbuf_ok [OF Cons.prems]
  show ?case
  proof (cases r)
    case (Read_some k)
    let ?n = "min k (unat (ni_buffer_tailroom (recv_wbuf pb)))"
    have room: "unat (ni_buffer_tailroom (recv_wbuf pb)) = buf_room (recv_wbuf pb)"
      using ni_buffer_tailroom_wf [OF w(1)] w(3) by (simp add: buf_room_def)
    have "length (take ?n pending) \<le> buf_room (recv_wbuf pb)" using room by simp
    from buffer_fill_ok [OF w(1) this] obtain wb where wb: "buffer_fill (recv_wbuf pb) (take ?n pending) = Some wb" "buf_wf wb"
        "buf_bytes wb = wbuf_bytes pb @ take ?n pending" "buf_room wb < 2 ^ 32"
      using w(2,3) by auto
    let ?pb1 = "pb\<lparr>pb_wbuf := Some wb\<rparr>"
    have pw: "pb_wf ?pb1" "wbuf_bytes ?pb1 = wbuf_bytes pb @ take ?n pending" using wb by (simp_all add: pb_wf_def wbuf_bytes_def)
    obtain c pb2 where c: "u_ni_process_notify_buffer cb ?pb1 = (c, pb2)" by (cases "u_ni_process_notify_buffer cb ?pb1")
    have n: "cb \<longrightarrow> concat c = wbuf_bytes pb @ take ?n pending" "pb_wf pb2" "wbuf_bytes pb2 = []"
      using notify_ok [OF c] pw(2) by (simp_all add: pb_wf_def wbuf_bytes_def)
    consider "ni_buffer_tailroom wb = 0" | "ni_buffer_tailroom wb \<noteq> 0" "pb_low_water_mark pb \<le> ni_buffer_count wb"
      | "ni_buffer_tailroom wb \<noteq> 0" "\<not> pb_low_water_mark pb \<le> ni_buffer_count wb" by blast
    then show ?thesis
    proof cases
      case 1
      obtain cs p1 pb3 where i: "u_ni_process_output_recv cb rs (drop ?n pending) pb2 = Some (cs, p1, pb3)" "pb_wf pb3"
          "cb \<longrightarrow> concat cs @ wbuf_bytes pb3 @ p1 = drop ?n pending"
        using Cons.IH [OF n(2), of "drop ?n pending"] n(3) by auto
      then show ?thesis using 1 Read_some wb(1) c n(1) by auto
    next
      case 2
      then show ?thesis using Read_some wb(1) c n by auto
    next
      case 3
      then show ?thesis using Read_some wb(1) pw by auto
    qed
  qed (use w in \<open>auto simp: pb_wf_def wbuf_bytes_def deactivate_def\<close>)
qed

lemma output_recv_total:
  assumes "pb_wf pb"
  shows "\<exists>cs p1 pb1. u_ni_process_output_recv cb rs pending pb = Some (cs, p1, pb1) \<and> pb_wf pb1"
  using output_recv_ok [OF assms, of cb rs pending] by blast

lemma output_recv_order:
  assumes "pb_wf pb"
  shows "\<exists>cs p1 pb1. u_ni_process_output_recv True rs pending pb = Some (cs, p1, pb1) \<and> pb_wf pb1
     \<and> concat cs @ wbuf_bytes pb1 @ p1 = wbuf_bytes pb @ pending"
  using output_recv_ok [OF assms, of True rs pending] by simp

text \<open>Any number of calls of the receive function, and the flush at the end.\<close>

fun recv_all :: "(sock_read list \<times> byte list) list \<Rightarrow> byte list \<Rightarrow> ni_process_buffer \<Rightarrow> (byte list list \<times> byte list \<times> ni_process_buffer) option" where
  "recv_all [] pending pb = Some ([], pending, pb)"
| "recv_all ((rs, fresh) # calls) pending pb = do {
     (cs, p1, pb1) \<leftarrow> u_ni_process_output_recv True rs (pending @ fresh) pb;
     (cs2, p2, pb2) \<leftarrow> recv_all calls p1 pb1;
     Some (cs @ cs2, p2, pb2) }"

lemma recv_all_ok:
  "pb_wf pb \<Longrightarrow> \<exists>cs p1 pb1. recv_all calls pending pb = Some (cs, p1, pb1) \<and> pb_wf pb1
     \<and> concat cs @ wbuf_bytes pb1 @ p1 = wbuf_bytes pb @ pending @ concat (map snd calls)"
proof (induction calls arbitrary: pending pb)
  case (Cons x calls)
  obtain rs fresh where x: "x = (rs, fresh)" by (cases x)
  obtain cs p1 pb1 where 1: "u_ni_process_output_recv True rs (pending @ fresh) pb = Some (cs, p1, pb1)" "pb_wf pb1"
      "concat cs @ wbuf_bytes pb1 @ p1 = wbuf_bytes pb @ pending @ fresh"
    using output_recv_order [OF Cons.prems] by blast
  obtain cs2 p2 pb2 where 2: "recv_all calls p1 pb1 = Some (cs2, p2, pb2)" "pb_wf pb2"
      "concat cs2 @ wbuf_bytes pb2 @ p2 = wbuf_bytes pb1 @ p1 @ concat (map snd calls)"
    using Cons.IH [OF 1(2)] by blast
  have "concat (cs @ cs2) @ wbuf_bytes pb2 @ p2 = wbuf_bytes pb @ pending @ concat (map snd (x # calls))"
    using 1(3) 2(3) x by (metis append.assoc concat_append concat.simps(2) list.simps(9) snd_conv)
  then show ?case using x 1(1) 2(1,2) by auto
qed simp

text \<open>Reads that give all that is there and fits.\<close>

definition full_reads :: "sock_read list \<Rightarrow> bool" where
  "full_reads rs \<longleftrightarrow> (\<forall>r\<in>set rs. \<exists>k. r = Read_some k \<and> 2 ^ 32 \<le> k)"

lemma output_recv_drains:
  "pb_wf pb \<Longrightarrow> full_reads rs \<Longrightarrow> length pending + (if buf_room (recv_wbuf pb) = 0 then 1 else 0) < length rs \<Longrightarrow>
     \<exists>cs pb1. u_ni_process_output_recv True rs pending pb = Some (cs, [], pb1)"
proof (induction rs arbitrary: pb pending)
  case (Cons r rs)
  note w = recv_wbuf_ok [OF Cons.prems(1)]
  obtain k where k: "r = Read_some k" "2 ^ 32 \<le> k" using Cons.prems(2) by (auto simp: full_reads_def)
  let ?w = "recv_wbuf pb"
  let ?n = "min k (unat (ni_buffer_tailroom ?w))"
  have room: "unat (ni_buffer_tailroom ?w) = buf_room ?w" using ni_buffer_tailroom_wf [OF w(1)] w(3) by (simp add: buf_room_def)
  then have n: "?n = buf_room ?w" using k(2) w(3) by simp
  have "length (take ?n pending) \<le> buf_room ?w" using n by simp
  from buffer_fill_ok [OF w(1) this] obtain wb where wb: "buffer_fill ?w (take ?n pending) = Some wb" "buf_wf wb"
      "buf_room wb = buf_room ?w - length (take ?n pending)" by blast
  have rb: "unat (ni_buffer_tailroom wb) = buf_room wb"
    using ni_buffer_tailroom_wf [OF wb(2)] wb(3) w(3) by (simp add: buf_room_def)
  then have t0: "ni_buffer_tailroom wb = 0 \<longleftrightarrow> buf_room ?w \<le> length pending"
    using wb(3) n by (auto simp: unat_eq_0 [symmetric] simp del: unat_eq_0)
  let ?pb1 = "pb\<lparr>pb_wbuf := Some wb\<rparr>"
  obtain c pb2 where c: "u_ni_process_notify_buffer True ?pb1 = (c, pb2)" by (cases "u_ni_process_notify_buffer True ?pb1")
  show ?case
  proof (cases "buf_room ?w \<le> length pending")
    case True
    have p2: "pb_wf pb2" "pb_wbuf pb2 = None" using notify_ok [OF c] by (simp_all add: pb_wf_def)
    then have r2: "buf_room (recv_wbuf pb2) \<noteq> 0" by (simp add: recv_wbuf_def buf_room_def ni_buffer_new_def ni_buffer_init_def)
    have l2: "length (drop ?n pending) < length rs" using Cons.prems(3) n True by (auto split: if_splits)
    then have "length (drop ?n pending) + (if buf_room (recv_wbuf pb2) = 0 then 1 else 0) < length rs" using r2 by simp
    moreover have "full_reads rs" using Cons.prems(2) by (simp add: full_reads_def)
    ultimately obtain cs pb3 where "u_ni_process_output_recv True rs (drop ?n pending) pb2 = Some (cs, [], pb3)"
      using Cons.IH [OF p2(1)] by blast
    then show ?thesis using k(1) wb(1) c t0 True by simp
  next
    case False
    then have "drop ?n pending = []" using n by simp
    then show ?thesis using k(1) wb(1) c t0 False
      by (cases "pb_low_water_mark pb \<le> ni_buffer_count wb") (simp_all add: Let_def)
  qed
qed simp

text \<open>C29: The output of a process reaches its read callback whole and in order: whatever the reads give, in however
  many calls, the chunks handed over and what is still unread make up what the process has written; the flush at
  the end hands over all that was read, and everything when its reads give all there is.\<close>

theorem process_output_in_order:
  assumes pb: "pb_wbuf pb = None"
  shows "\<exists>cs p1 pb1 cs2 p2 pb2. recv_all calls [] pb = Some (cs, p1, pb1)
     \<and> u_ni_process_flush_buffer True rs p1 pb1 = Some (cs2, p2, pb2)
     \<and> concat (cs @ cs2) @ p2 = concat (map snd calls) \<and> pb_wbuf pb2 = None
     \<and> (pb_socket pb1 \<noteq> None \<longrightarrow> full_reads rs \<longrightarrow> length p1 + 1 < length rs \<longrightarrow> p2 = [])"
proof -
  have wf: "pb_wf pb" "wbuf_bytes pb = []" using pb by (simp_all add: pb_wf_def wbuf_bytes_def)
  obtain cs p1 pb1 where 1: "recv_all calls [] pb = Some (cs, p1, pb1)" "pb_wf pb1"
      "concat cs @ wbuf_bytes pb1 @ p1 = concat (map snd calls)"
    using recv_all_ok [OF wf(1), of calls "[]"] wf(2) by auto
  have "\<exists>cs2 p2 pb2. (case pb_socket pb1 of None \<Rightarrow> Some ([], p1, pb1) | Some _ \<Rightarrow> u_ni_process_output_recv True rs p1 pb1) = Some (cs2, p2, pb2)
     \<and> concat cs2 @ wbuf_bytes pb2 @ p2 = wbuf_bytes pb1 @ p1
     \<and> (pb_socket pb1 \<noteq> None \<longrightarrow> full_reads rs \<longrightarrow> length p1 + 1 < length rs \<longrightarrow> p2 = [])"
  proof (cases "pb_socket pb1")
    case (Some sock)
    obtain cs2 p2 pb2 where r: "u_ni_process_output_recv True rs p1 pb1 = Some (cs2, p2, pb2)"
        "concat cs2 @ wbuf_bytes pb2 @ p2 = wbuf_bytes pb1 @ p1" using output_recv_order [OF 1(2)] by blast
    have "p2 = []" if "full_reads rs" "length p1 + 1 < length rs"
    proof -
      have "length p1 + (if buf_room (recv_wbuf pb1) = 0 then 1 else 0) < length rs" using that(2) by simp
      from output_recv_drains [OF 1(2) that(1) this] r(1) show ?thesis by auto
    qed
    then show ?thesis using Some r by auto
  qed simp
  then obtain cs2 p2 pb2 where 2: "(case pb_socket pb1 of None \<Rightarrow> Some ([], p1, pb1) | Some _ \<Rightarrow> u_ni_process_output_recv True rs p1 pb1) = Some (cs2, p2, pb2)"
      "concat cs2 @ wbuf_bytes pb2 @ p2 = wbuf_bytes pb1 @ p1"
      "pb_socket pb1 \<noteq> None \<longrightarrow> full_reads rs \<longrightarrow> length p1 + 1 < length rs \<longrightarrow> p2 = []" by blast
  obtain c pb3 where c: "u_ni_process_notify_buffer True pb2 = (c, pb3)" by (cases "u_ni_process_notify_buffer True pb2")
  have fl: "u_ni_process_flush_buffer True rs p1 pb1 = Some (cs2 @ c, p2, pb3)"
    unfolding u_ni_process_flush_buffer_def 2(1) using c by simp
  have "concat (cs @ cs2 @ c) @ p2 = concat (map snd calls)"
    using 1(3) 2(2) notify_ok [OF c] by (metis append.assoc concat_append)
  then show ?thesis using 1(1) fl notify_ok [OF c] 2(3)
    by (intro exI [of _ cs] exI [of _ p1] exI [of _ pb1] exI [of _ "cs2 @ c"] exI [of _ p2] exI [of _ pb3]) simp
qed

lemma process_output_in_order_witness:
  "\<exists>cs p1 pb1 cs2 p2 pb2. recv_all [([Read_some 2], [1, 2, 3])] [] ni_process_buffer_init = Some (cs, p1, pb1)
     \<and> u_ni_process_flush_buffer True [] p1 pb1 = Some (cs2, p2, pb2) \<and> concat (cs @ cs2) @ p2 = [1, 2, 3]"
proof -
  have "pb_wbuf ni_process_buffer_init = None" by (simp add: ni_process_buffer_init_def)
  from process_output_in_order [OF this, of "[([Read_some 2], [1, 2, 3])]" "[]"] show ?thesis by auto
qed

section \<open>The wait queue is a list\<close>

text \<open>The queue runs through the processes \<open>xs\<close>.\<close>

fun chain :: "(nat \<rightharpoonup> ni_process) \<Rightarrow> nat option \<Rightarrow> nat list \<Rightarrow> bool" where
  "chain procs cur [] \<longleftrightarrow> cur = None"
| "chain procs cur (a # xs) \<longleftrightarrow> cur = Some a \<and> (\<exists>pi. procs a = Some pi \<and> chain procs (pi_next pi) xs)"

definition pid_of :: "process_store \<Rightarrow> nat \<Rightarrow> int" where
  "pid_of ps a = (case ps_procs ps a of None \<Rightarrow> 0 | Some pi \<Rightarrow> pi_pid pi)"

definition queue_wf :: "process_store \<Rightarrow> nat list \<Rightarrow> bool" where
  "queue_wf ps xs \<longleftrightarrow> chain (ps_procs ps) (ps_queue ps) xs \<and> distinct xs"

lemma chain_cong: "(\<And>a. a \<in> set xs \<Longrightarrow> map_option pi_next (procs1 a) = map_option pi_next (procs a)) \<Longrightarrow> chain procs1 cur xs = chain procs cur xs"
proof (induction xs arbitrary: cur)
  case (Cons a xs)
  have e: "map_option pi_next (procs1 a) = map_option pi_next (procs a)" using Cons.prems by simp
  have "chain procs1 c xs = chain procs c xs" for c using Cons.IH Cons.prems by simp
  then show ?case using e by (cases "procs1 a"; cases "procs a") auto
qed simp

lemma chain_append:
  "chain procs cur (ys @ a # zs) \<Longrightarrow> \<exists>pi. procs a = Some pi \<and> chain procs (pi_next pi) zs"
  by (induction ys arbitrary: cur) auto

lemma queue_find_none:
  "chain procs cur xs \<Longrightarrow> \<forall>a\<in>set xs. \<forall>pi. procs a = Some pi \<longrightarrow> pi_pid pi \<noteq> pid \<Longrightarrow> queue_find procs pid prev cur = Some None"
proof (induction xs arbitrary: cur prev)
  case Nil
  then show ?case by (subst queue_find.simps) simp
next
  case (Cons a xs)
  then show ?case by (subst queue_find.simps) auto
qed

lemma queue_find_some:
  assumes "chain procs cur (ys @ a # zs)" "\<forall>b\<in>set ys. \<forall>pi. procs b = Some pi \<longrightarrow> pi_pid pi \<noteq> pid" "map_option pi_pid (procs a) = Some pid"
  shows "queue_find procs pid prev cur = Some (Some (if ys = [] then prev else Some (last ys), a))"
  using assms
proof (induction ys arbitrary: cur prev)
  case Nil
  then show ?case by (subst queue_find.simps) auto
next
  case (Cons b ys)
  then obtain pi where b: "cur = Some b" "procs b = Some pi" "chain procs (pi_next pi) (ys @ a # zs)" "pi_pid pi \<noteq> pid" by auto
  have "queue_find procs pid (Some b) (pi_next pi) = Some (Some (if ys = [] then Some b else Some (last ys), a))"
    using Cons.IH [OF b(3)] Cons.prems(2,3) by simp
  then show ?case using b(1,2,4) by (subst queue_find.simps) simp
qed

lemma chain_skip:
  assumes "chain procs cur (ys @ b # a # zs)" "distinct (ys @ b # a # zs)" "procs b = Some pb" "procs a = Some pa"
  shows "chain (procs(b \<mapsto> pb\<lparr>pi_next := pi_next pa\<rparr>)) cur (ys @ b # zs)"
  using assms(1,2)
proof (induction ys arbitrary: cur)
  case Nil
  then have "cur = Some b" "chain procs (pi_next pa) zs" "b \<notin> set zs" using assms(3,4) by auto
  moreover have "chain (procs(b \<mapsto> pb\<lparr>pi_next := pi_next pa\<rparr>)) (pi_next pa) zs = chain procs (pi_next pa) zs"
    using \<open>b \<notin> set zs\<close> by (intro chain_cong) auto
  ultimately show ?case by (simp add: fun_upd_same del: fun_upd_apply)
next
  case (Cons c ys)
  then show ?case by auto
qed

lemma unlink_ok:
  assumes wf: "queue_wf ps (ys @ a # zs)"
  shows "\<exists>ps1. queue_unlink (if ys = [] then None else Some (last ys)) a ps = Some ps1 \<and> queue_wf ps1 (ys @ zs)
     \<and> (\<forall>b. map_option (\<lambda>pi. pi\<lparr>pi_next := None\<rparr>) (ps_procs ps1 b) = map_option (\<lambda>pi. pi\<lparr>pi_next := None\<rparr>) (ps_procs ps b))
     \<and> map_option pi_next (ps_procs ps1 a) = Some None \<and> (\<forall>b. b \<notin> set (ys @ a # zs) \<longrightarrow> ps_procs ps1 b = ps_procs ps b)
     \<and> ps_cmds ps1 = ps_cmds ps \<and> ps_sigchld ps1 = ps_sigchld ps \<and> ps_trace ps1 = ps_trace ps"
proof -
  have ch: "chain (ps_procs ps) (ps_queue ps) (ys @ a # zs)" and d: "distinct (ys @ a # zs)" using wf by (simp_all add: queue_wf_def)
  obtain pa where pa: "ps_procs ps a = Some pa" "chain (ps_procs ps) (pi_next pa) zs" using chain_append [OF ch] by blast
  show ?thesis
  proof (cases ys rule: rev_cases)
    case Nil
    let ?ps1 = "put_process a (pa\<lparr>pi_next := None\<rparr>) (ps\<lparr>ps_queue := pi_next pa\<rparr>)"
    have "chain ((ps_procs ps)(a \<mapsto> pa\<lparr>pi_next := None\<rparr>)) (pi_next pa) zs = chain (ps_procs ps) (pi_next pa) zs"
      using d by (intro chain_cong) auto
    then have "queue_wf ?ps1 (ys @ zs)" using Nil d pa(2) by (simp add: queue_wf_def put_process_def)
    then show ?thesis using Nil pa(1) by (simp add: queue_unlink_def put_process_def)
  next
    case (snoc us b)
    have chb: "chain (ps_procs ps) (ps_queue ps) (us @ b # a # zs)" and db: "distinct (us @ b # a # zs)" using ch d snoc by simp_all
    obtain pb where pb: "ps_procs ps b = Some pb" using chain_append [OF chb] by auto
    have ab: "a \<noteq> b" using db by auto
    let ?m = "(ps_procs ps)(b \<mapsto> pb\<lparr>pi_next := pi_next pa\<rparr>)"
    let ?ps1 = "put_process a (pa\<lparr>pi_next := None\<rparr>) (put_process b (pb\<lparr>pi_next := pi_next pa\<rparr>) ps)"
    have c1: "chain ?m (ps_queue ps) (us @ b # zs)" by (rule chain_skip [OF chb db pb pa(1)])
    have "chain (?m(a \<mapsto> pa\<lparr>pi_next := None\<rparr>)) (ps_queue ps) (us @ b # zs) = chain ?m (ps_queue ps) (us @ b # zs)"
      using db by (intro chain_cong) auto
    then have "queue_wf ?ps1 (ys @ zs)" using snoc c1 db by (simp add: queue_wf_def put_process_def)
    then show ?thesis using snoc pa(1) pb ab by (simp add: queue_unlink_def put_process_def)
  qed
qed

text \<open>The flush that ends a process always returns.\<close>

definition proc_wf :: "ni_process \<Rightarrow> bool" where
  "proc_wf pi \<longleftrightarrow> pb_wf (pi_stdout pi) \<and> pb_wf (pi_stderr pi)"

lemma flush_ok:
  assumes "pb_wf pb"
  shows "\<exists>cs p1 pb1. u_ni_process_flush_buffer cb rs pending pb = Some (cs, p1, pb1) \<and> pb_wf pb1"
proof -
  obtain cs p1 pb1 where 1: "(case pb_socket pb of None \<Rightarrow> Some ([], pending, pb) | Some _ \<Rightarrow> u_ni_process_output_recv cb rs pending pb) = Some (cs, p1, pb1)"
      "pb_wf pb1"
  proof (cases "pb_socket pb")
    case None
    then show ?thesis using that assms by simp
  next
    case (Some sock)
    obtain cs p1 pb1 where "u_ni_process_output_recv cb rs pending pb = Some (cs, p1, pb1)" "pb_wf pb1"
      using output_recv_total [OF assms] by blast
    then show ?thesis using that Some by simp
  qed
  obtain c pb2 where c: "u_ni_process_notify_buffer cb pb1 = (c, pb2)" by (cases "u_ni_process_notify_buffer cb pb1")
  have "pb_wf pb2" using notify_ok [OF c] by (simp add: pb_wf_def)
  then show ?thesis unfolding u_ni_process_flush_buffer_def 1 using c by simp
qed

lemma flush_both_ok:
  assumes "proc_wf pi"
  shows "\<exists>pout perr cs1 cs2. flush_both lo a pi = Some (pi\<lparr>pi_stdout := pout, pi_stderr := perr\<rparr>, map (Output a Stdout) cs1 @ map (Output a Stderr) cs2)
     \<and> proc_wf (pi\<lparr>pi_stdout := pout, pi_stderr := perr\<rparr>)"
proof -
  have w: "pb_wf (pi_stdout pi)" "pb_wf (pi_stderr pi)" using assms by (simp_all add: proc_wf_def)
  obtain cs1 p1 pout where 1: "u_ni_process_flush_buffer (pi_read_callback pi) (lo_stdout_reads lo) (lo_stdout lo) (pi_stdout pi) = Some (cs1, p1, pout)" "pb_wf pout"
    using flush_ok [OF w(1)] by blast
  obtain cs2 p2 perr where 2: "u_ni_process_flush_buffer (pi_read_callback pi) (lo_stderr_reads lo) (lo_stderr lo) (pi_stderr pi) = Some (cs2, p2, perr)" "pb_wf perr"
    using flush_ok [OF w(2)] by blast
  show ?thesis using 1 2 by (intro exI [of _ pout] exI [of _ perr] exI [of _ cs1] exI [of _ cs2]) (simp add: flush_both_def proc_wf_def)
qed

text \<open>The calls of exit callbacks.\<close>

fun exits :: "process_event list \<Rightarrow> nat list" where
  "exits [] = []"
| "exits (e # es) = (case e of Exit_called a \<Rightarrow> a # exits es | _ \<Rightarrow> exits es)"

lemma exits_append [simp]: "exits (es1 @ es2) = exits es1 @ exits es2"
  by (induction es1) (simp_all split: process_event.split)

lemma exits_output [simp]: "exits (map (Output a st) cs) = []"
  by (induction cs) simp_all

text \<open>The processes in the queue have distinct pids, not 0.\<close>

definition running :: "process_store \<Rightarrow> nat list \<Rightarrow> bool" where
  "running ps xs \<longleftrightarrow> queue_wf ps xs \<and> inj_on (pid_of ps) (set xs)
     \<and> (\<forall>a\<in>set xs. \<exists>pi. ps_procs ps a = Some pi \<and> pi_pid pi \<noteq> 0 \<and> proc_wf pi)"

definition exited :: "u32 \<Rightarrow> ni_process \<Rightarrow> bool" where
  "exited st pi \<longleftrightarrow> pi_pid pi = 0 \<and> pi_next pi = None \<and> pi_status pi = st
     \<and> pi_exit_info pi = pi_exit_info (u_ni_process_fill_exit_info pi)"

definition same_process :: "ni_process \<Rightarrow> ni_process \<Rightarrow> bool" where
  "same_process p q \<longleftrightarrow> p\<lparr>pi_next := None\<rparr> = q\<lparr>pi_next := None\<rparr>"

lemma same_processD:
  "same_process p q \<Longrightarrow> pi_pid p = pi_pid q \<and> proc_wf p = proc_wf q \<and> pi_exit_callback p = pi_exit_callback q"
  by (cases p; cases q) (simp add: same_process_def proc_wf_def)

lemma reap_process_ok:
  assumes "ps_procs ps a = Some pi" "proc_wf pi" "pi_pid pi = 0" "pi_next pi = None"
  shows "\<exists>ps1. ni_process_reap lo a ps = Some ps1 \<and> (\<exists>pi1. ps_procs ps1 a = Some pi1 \<and> exited (pi_status pi) pi1)
     \<and> (\<forall>b. b \<noteq> a \<longrightarrow> ps_procs ps1 b = ps_procs ps b) \<and> ps_queue ps1 = ps_queue ps
     \<and> exits (ps_trace ps1) = exits (ps_trace ps) @ (if pi_exit_callback pi then [a] else [])"
proof -
  let ?p = "u_ni_process_fill_exit_info pi"
  have "proc_wf ?p" using assms(2) by (simp add: proc_wf_def u_ni_process_fill_exit_info_def)
  from flush_both_ok [OF this] obtain pout perr cs1 cs2 where f:
      "flush_both lo a ?p = Some (?p\<lparr>pi_stdout := pout, pi_stderr := perr\<rparr>, map (Output a Stdout) cs1 @ map (Output a Stderr) cs2)" by blast
  let ?q = "?p\<lparr>pi_stdout := pout, pi_stderr := perr\<rparr>"
  have "ni_process_reap lo a ps = Some (log_events ((map (Output a Stdout) cs1 @ map (Output a Stderr) cs2) @ exit_call a ?q) (put_process a ?q ps))"
    using assms(1) f by (simp add: ni_process_reap_def)
  moreover have "exited (pi_status pi) ?q" using assms(3,4) by (simp add: exited_def u_ni_process_fill_exit_info_def)
  moreover have "pi_exit_callback ?q = pi_exit_callback pi" by (simp add: u_ni_process_fill_exit_info_def)
  ultimately show ?thesis by (auto simp: log_events_def put_process_def exit_call_def)
qed

text \<open>One reported child of the queue.\<close>

definition reap_one :: "int \<Rightarrow> u32 \<Rightarrow> last_output \<Rightarrow> process_store \<Rightarrow> process_store option" where
  "reap_one pid status lo ps = do {
     r \<leftarrow> queue_find (ps_procs ps) pid None (ps_queue ps);
     (case r of
        None \<Rightarrow> Some ps
      | Some (prev, a) \<Rightarrow> do {
          ps2 \<leftarrow> queue_unlink prev a ps;
          pi \<leftarrow> ps_procs ps2 a;
          ni_process_reap lo a (put_process a (pi\<lparr>pi_status := status, pi_pid := 0\<rparr>) ps2) }) }"

lemma reap_loop_Cons: "reap_loop ((pid, status, lo) # children) ps = do { ps1 \<leftarrow> reap_one pid status lo ps; reap_loop children ps1 }"
  by (simp add: reap_one_def)

lemma same_process_option:
  "map_option (\<lambda>pi. pi\<lparr>pi_next := None\<rparr>) x = map_option (\<lambda>pi. pi\<lparr>pi_next := None\<rparr>) (Some q) \<Longrightarrow> \<exists>p. x = Some p \<and> same_process p q"
  by (cases x) (auto simp: same_process_def)

lemma reap_one_unknown:
  assumes "running ps xs" "pid \<notin> pid_of ps ` set xs"
  shows "reap_one pid status lo ps = Some ps"
proof -
  have "queue_find (ps_procs ps) pid None (ps_queue ps) = Some None"
    using assms by (intro queue_find_none [of _ _ xs]) (auto simp: running_def queue_wf_def pid_of_def image_iff split: option.splits)
  then show ?thesis by (simp add: reap_one_def)
qed

lemma reap_one_known:
  assumes run: "running ps xs" and a: "a \<in> set xs" "pid_of ps a = pid"
  shows "\<exists>ps1. reap_one pid status lo ps = Some ps1 \<and> queue_wf ps1 (removeAll a xs)
     \<and> (\<exists>pi1. ps_procs ps1 a = Some pi1 \<and> exited status pi1)
     \<and> (\<forall>b pi. b \<noteq> a \<longrightarrow> ps_procs ps b = Some pi \<longrightarrow> (\<exists>pi1. ps_procs ps1 b = Some pi1 \<and> same_process pi1 pi))
     \<and> (\<forall>b. b \<notin> set xs \<longrightarrow> ps_procs ps1 b = ps_procs ps b)
     \<and> exits (ps_trace ps1) = exits (ps_trace ps) @ (if map_option pi_exit_callback (ps_procs ps a) = Some True then [a] else [])"
proof -
  obtain ys zs where s: "xs = ys @ a # zs" by (metis a(1) split_list)
  have qw: "queue_wf ps (ys @ a # zs)" and inj: "inj_on (pid_of ps) (set xs)" using run s by (simp_all add: running_def)
  obtain pa where pa: "ps_procs ps a = Some pa" "proc_wf pa" "pi_pid pa = pid"
    using run a by (auto simp: running_def pid_of_def)
  have d: "distinct (ys @ a # zs)" and ch: "chain (ps_procs ps) (ps_queue ps) (ys @ a # zs)" using qw by (simp_all add: queue_wf_def)
  have other: "pi_pid q \<noteq> pid" if "b \<in> set ys" "ps_procs ps b = Some q" for b q
  proof
    assume "pi_pid q = pid"
    then have "pid_of ps b = pid_of ps a" using that a(2) by (simp add: pid_of_def)
    moreover have "b \<in> set xs" using that(1) s by simp
    ultimately have "b = a" using inj_onD [OF inj] a(1) by blast
    then show False using d that(1) by auto
  qed
  have qf: "queue_find (ps_procs ps) pid None (ps_queue ps) = Some (Some (if ys = [] then None else Some (last ys), a))"
    using queue_find_some [OF ch, of pid None] other pa by auto
  obtain ps2 where ps2: "queue_unlink (if ys = [] then None else Some (last ys)) a ps = Some ps2" "queue_wf ps2 (ys @ zs)"
      "\<forall>b. map_option (\<lambda>pi. pi\<lparr>pi_next := None\<rparr>) (ps_procs ps2 b) = map_option (\<lambda>pi. pi\<lparr>pi_next := None\<rparr>) (ps_procs ps b)"
      "map_option pi_next (ps_procs ps2 a) = Some None" "ps_trace ps2 = ps_trace ps"
      "\<forall>b. b \<notin> set (ys @ a # zs) \<longrightarrow> ps_procs ps2 b = ps_procs ps b"
    using unlink_ok [OF qw] by blast
  obtain p2 where p2: "ps_procs ps2 a = Some p2" "same_process p2 pa" "pi_next p2 = None"
    using ps2(3,4) pa(1) same_process_option [of "ps_procs ps2 a" pa] by (metis map_option_eq_Some option.inject)
  let ?p = "p2\<lparr>pi_status := status, pi_pid := 0\<rparr>"
  let ?ps3 = "put_process a ?p ps2"
  have "ps_procs ?ps3 a = Some ?p" "proc_wf ?p" "pi_pid ?p = 0" "pi_next ?p = None"
    using p2(3) same_processD [OF p2(2)] pa(2) by (simp_all add: put_process_def proc_wf_def)
  from reap_process_ok [OF this, of lo] obtain ps1 pi1 where ps1: "ni_process_reap lo a ?ps3 = Some ps1" "ps_procs ps1 a = Some pi1" "exited status pi1"
      "\<forall>b. b \<noteq> a \<longrightarrow> ps_procs ps1 b = ps_procs ?ps3 b" "ps_queue ps1 = ps_queue ?ps3"
      "exits (ps_trace ps1) = exits (ps_trace ps) @ (if pi_exit_callback pa then [a] else [])"
    using same_processD [OF p2(2)] ps2(5) by (auto simp: put_process_def)
  have "reap_one pid status lo ps = Some ps1" using qf ps2(1) p2(1) ps1(1) by (simp add: reap_one_def)
  moreover have "queue_wf ps1 (removeAll a xs)"
  proof -
    have "removeAll a xs = ys @ zs" using s d by simp
    moreover have "chain (ps_procs ps1) (ps_queue ps2) (ys @ zs) = chain (ps_procs ps2) (ps_queue ps2) (ys @ zs)"
      using ps1(4) d by (intro chain_cong) (auto simp: put_process_def)
    ultimately show ?thesis using ps2(2) ps1(5) d by (simp add: queue_wf_def put_process_def)
  qed
  moreover have "\<exists>q. ps_procs ps1 b = Some q \<and> same_process q pi" if "b \<noteq> a" "ps_procs ps b = Some pi" for b pi
    using ps1(4) ps2(3) that same_process_option [of "ps_procs ps2 b" pi] by (simp add: put_process_def)
  moreover have "ps_procs ps1 b = ps_procs ps b" if "b \<notin> set xs" for b
    using ps1(4) ps2(6) that a(1) s by (auto simp: put_process_def)
  ultimately show ?thesis using ps1(2,3,6) pa(1) by auto
qed

lemma running_removed:
  assumes run: "running ps xs" and qw: "queue_wf ps1 (removeAll a xs)"
    and same: "\<forall>b pi. b \<noteq> a \<longrightarrow> ps_procs ps b = Some pi \<longrightarrow> (\<exists>pi1. ps_procs ps1 b = Some pi1 \<and> same_process pi1 pi)"
  shows "running ps1 (removeAll a xs)" and "\<And>b. b \<in> set (removeAll a xs) \<Longrightarrow> pid_of ps1 b = pid_of ps b
     \<and> map_option pi_exit_callback (ps_procs ps1 b) = map_option pi_exit_callback (ps_procs ps b)"
proof -
  have b: "\<exists>pi pi1. ps_procs ps b = Some pi \<and> ps_procs ps1 b = Some pi1 \<and> same_process pi1 pi \<and> pi_pid pi \<noteq> 0 \<and> proc_wf pi"
    if "b \<in> set (removeAll a xs)" for b
    using run same that by (auto simp: running_def)
  show p: "pid_of ps1 b = pid_of ps b \<and> map_option pi_exit_callback (ps_procs ps1 b) = map_option pi_exit_callback (ps_procs ps b)"
    if "b \<in> set (removeAll a xs)" for b
    using b [OF that] same_processD by (auto simp: pid_of_def)
  have "inj_on (pid_of ps1) (set (removeAll a xs))"
  proof (rule inj_onI)
    fix x y assume x: "x \<in> set (removeAll a xs)" and y: "y \<in> set (removeAll a xs)" and "pid_of ps1 x = pid_of ps1 y"
    then have "pid_of ps x = pid_of ps y" using p by simp
    moreover have "inj_on (pid_of ps) (set xs)" using run by (simp add: running_def)
    ultimately show "x = y" using x y by (auto dest: inj_onD)
  qed
  moreover have "\<exists>pi. ps_procs ps1 b = Some pi \<and> pi_pid pi \<noteq> 0 \<and> proc_wf pi" if "b \<in> set (removeAll a xs)" for b
    using b [OF that] same_processD by metis
  ultimately show "running ps1 (removeAll a xs)" using qw by (simp add: running_def)
qed

definition reported :: "(int \<times> u32 \<times> last_output) list \<Rightarrow> (int \<times> u32) list" where
  "reported children = map (\<lambda>(pid, status, lo). (pid, status)) children"

definition called :: "process_store \<Rightarrow> nat list \<Rightarrow> int \<Rightarrow> nat list" where
  "called ps xs pid = [a \<leftarrow> xs. pid_of ps a = pid \<and> map_option pi_exit_callback (ps_procs ps a) = Some True]"

lemma called_single:
  assumes "running ps xs" "a \<in> set xs"
  shows "called ps xs (pid_of ps a) = (if map_option pi_exit_callback (ps_procs ps a) = Some True then [a] else [])"
proof -
  have d: "distinct xs" and inj: "inj_on (pid_of ps) (set xs)" using assms(1) by (simp_all add: running_def queue_wf_def)
  let ?c = "map_option pi_exit_callback (ps_procs ps a) = Some True"
  have "called ps xs (pid_of ps a) = [b \<leftarrow> xs. b = a \<and> ?c]"
    unfolding called_def using inj assms(2) by (intro filter_cong refl) (auto dest: inj_onD)
  also have "\<dots> = (if ?c then [a] else [])" using d assms(2) by (induction xs) (auto simp: filter_empty_conv)
  finally show ?thesis .
qed

lemma called_removed:
  assumes "\<And>b. b \<in> set (removeAll a xs) \<Longrightarrow> pid_of ps1 b = pid_of ps b
     \<and> map_option pi_exit_callback (ps_procs ps1 b) = map_option pi_exit_callback (ps_procs ps b)" and "pid \<noteq> pid_of ps a"
  shows "called ps1 (removeAll a xs) pid = called ps xs pid"
proof -
  have "called ps1 (removeAll a xs) pid = [b \<leftarrow> removeAll a xs. pid_of ps b = pid \<and> map_option pi_exit_callback (ps_procs ps b) = Some True]"
    unfolding called_def using assms(1) by (intro filter_cong refl) simp
  also have "\<dots> = called ps xs pid" unfolding called_def removeAll_filter_not_eq filter_filter
    using assms(2) by (intro filter_cong refl) auto
  finally show ?thesis .
qed

lemma reap_loop_ok:
  "running ps xs \<Longrightarrow> distinct (map fst children) \<Longrightarrow>
     \<exists>ps1. reap_loop children ps = Some ps1 \<and> queue_wf ps1 [a \<leftarrow> xs. pid_of ps a \<notin> fst ` set children]
       \<and> (\<forall>a\<in>set xs. case map_of (reported children) (pid_of ps a) of
            Some st \<Rightarrow> \<exists>pi. ps_procs ps1 a = Some pi \<and> exited st pi
          | None \<Rightarrow> \<exists>pi pi1. ps_procs ps a = Some pi \<and> ps_procs ps1 a = Some pi1 \<and> same_process pi1 pi)
       \<and> (\<forall>b. b \<notin> set xs \<longrightarrow> ps_procs ps1 b = ps_procs ps b)
       \<and> exits (ps_trace ps1) = exits (ps_trace ps) @ concat (map (called ps xs) (map fst children))"
proof (induction children arbitrary: ps xs)
  case Nil
  then show ?case by (auto simp: running_def reported_def same_process_def filter_id_conv)
next
  case (Cons c children)
  obtain pid st lo where c: "c = (pid, st, lo)" by (cases c)
  have run: "running ps xs" and nd: "pid \<notin> fst ` set children" and d: "distinct (map fst children)" using Cons.prems c by auto
  show ?case
  proof (cases "pid \<in> pid_of ps ` set xs")
    case False
    have "called ps xs pid = []" using False by (auto simp: called_def filter_empty_conv image_iff)
    moreover have "[a \<leftarrow> xs. pid_of ps a \<notin> fst ` set (c # children)] = [a \<leftarrow> xs. pid_of ps a \<notin> fst ` set children]"
      using False c by (intro filter_cong refl) (auto simp: image_iff)
    moreover have "map_of (reported (c # children)) (pid_of ps a) = map_of (reported children) (pid_of ps a)" if "a \<in> set xs" for a
      using False that c by (auto simp: reported_def)
    moreover have "reap_loop (c # children) ps = reap_loop children ps"
      using reap_one_unknown [OF run False, of st lo] by (simp add: c reap_loop_Cons del: reap_loop.simps)
    ultimately show ?thesis using Cons.IH [OF run d] c by simp
  next
    case True
    then obtain a where a: "a \<in> set xs" "pid_of ps a = pid" by auto
    obtain ps1 pa where ps1: "reap_one pid st lo ps = Some ps1" "queue_wf ps1 (removeAll a xs)" "ps_procs ps1 a = Some pa" "exited st pa"
        "\<forall>b pi. b \<noteq> a \<longrightarrow> ps_procs ps b = Some pi \<longrightarrow> (\<exists>pi1. ps_procs ps1 b = Some pi1 \<and> same_process pi1 pi)"
        "\<forall>b. b \<notin> set xs \<longrightarrow> ps_procs ps1 b = ps_procs ps b"
        "exits (ps_trace ps1) = exits (ps_trace ps) @ called ps xs pid"
      using reap_one_known [OF run a, of st lo] unfolding called_single [OF run a(1), unfolded a(2), symmetric] by blast
    note rem = running_removed [OF run ps1(2,5)]
    obtain ps2 where ps2: "reap_loop children ps1 = Some ps2" "queue_wf ps2 [b \<leftarrow> removeAll a xs. pid_of ps1 b \<notin> fst ` set children]"
        "\<forall>b\<in>set (removeAll a xs). case map_of (reported children) (pid_of ps1 b) of
            Some st \<Rightarrow> \<exists>pi. ps_procs ps2 b = Some pi \<and> exited st pi
          | None \<Rightarrow> \<exists>pi pi1. ps_procs ps1 b = Some pi \<and> ps_procs ps2 b = Some pi1 \<and> same_process pi1 pi"
        "\<forall>b. b \<notin> set (removeAll a xs) \<longrightarrow> ps_procs ps2 b = ps_procs ps1 b"
        "exits (ps_trace ps2) = exits (ps_trace ps1) @ concat (map (called ps1 (removeAll a xs)) (map fst children))"
      using Cons.IH [OF rem(1) d] by blast
    have inj: "inj_on (pid_of ps) (set xs)" using run by (simp add: running_def)
    have "[b \<leftarrow> removeAll a xs. pid_of ps1 b \<notin> fst ` set children] = [b \<leftarrow> removeAll a xs. pid_of ps b \<notin> fst ` set children]"
      using rem(2) by (intro filter_cong refl) simp
    also have "\<dots> = [b \<leftarrow> xs. pid_of ps b \<notin> fst ` set (c # children)]"
      unfolding removeAll_filter_not_eq filter_filter using a c inj by (intro filter_cong refl) (auto dest: inj_onD)
    finally have q: "queue_wf ps2 [b \<leftarrow> xs. pid_of ps b \<notin> fst ` set (c # children)]" using ps2(2) by simp
    have e: "concat (map (called ps1 (removeAll a xs)) (map fst children)) = concat (map (called ps xs) (map fst children))"
    proof (intro arg_cong [of _ _ concat] map_cong refl called_removed)
      fix q assume "q \<in> set (map fst children)"
      then have "q \<in> fst ` set children" by simp
      then show "q \<noteq> pid_of ps a" using nd a(2) by metis
    qed (rule rem(2))
    have p: "case map_of (reported (c # children)) (pid_of ps b) of
            Some st \<Rightarrow> \<exists>pi. ps_procs ps2 b = Some pi \<and> exited st pi
          | None \<Rightarrow> \<exists>pi pi1. ps_procs ps b = Some pi \<and> ps_procs ps2 b = Some pi1 \<and> same_process pi1 pi"
      if b: "b \<in> set xs" for b
    proof (cases "b = a")
      case True
      then show ?thesis using ps2(4) ps1(3,4) a(2) c by (simp add: reported_def)
    next
      case False
      then have bx: "b \<in> set (removeAll a xs)" using b by simp
      have np: "pid_of ps b \<noteq> pid" using inj_onD [OF inj _ b a(1)] a(2) False by auto
      then have m: "map_of (reported (c # children)) (pid_of ps b) = map_of (reported children) (pid_of ps1 b)"
        using c rem(2) [OF bx] by (simp add: reported_def)
      obtain pi where pi: "ps_procs ps b = Some pi" using run b by (auto simp: running_def)
      obtain pi1 where pi1: "ps_procs ps1 b = Some pi1" "same_process pi1 pi" using ps1(5) False pi by blast
      show ?thesis
        using bspec [OF ps2(3) bx] pi pi1 unfolding m by (cases "map_of (reported children) (pid_of ps1 b)") (auto simp: same_process_def)
    qed
    have "reap_loop (c # children) ps = Some ps2" using ps1(1) ps2(1) by (simp add: c reap_loop_Cons del: reap_loop.simps)
    moreover have "\<forall>b. b \<notin> set xs \<longrightarrow> ps_procs ps2 b = ps_procs ps b" using ps2(4) ps1(6) by simp
    moreover have "exits (ps_trace ps2) = exits (ps_trace ps) @ concat (map (called ps xs) (map fst (c # children)))"
      using ps1(7) ps2(5) e c by simp
    moreover have "\<forall>b\<in>set xs. case map_of (reported (c # children)) (pid_of ps b) of
            Some st \<Rightarrow> \<exists>pi. ps_procs ps2 b = Some pi \<and> exited st pi
          | None \<Rightarrow> \<exists>pi pi1. ps_procs ps b = Some pi \<and> ps_procs ps2 b = Some pi1 \<and> same_process pi1 pi"
      using p by (rule ballI)
    ultimately show ?thesis using q by (intro exI [of _ ps2] conjI)
  qed
qed

lemma add_waitq_ok:
  assumes qw: "queue_wf ps xs" and a: "ps_procs ps a = Some pi" "pi_next pi = None" "a \<notin> set xs"
  shows "\<exists>ps1. u_ni_process_add_waitq a ps = Some ps1 \<and> queue_wf ps1 (a # xs) \<and> ps_procs ps1 a = Some (pi\<lparr>pi_next := ps_queue ps\<rparr>)
     \<and> (\<forall>b. b \<noteq> a \<longrightarrow> ps_procs ps1 b = ps_procs ps b)"
proof -
  have "chain ((ps_procs ps)(a \<mapsto> pi\<lparr>pi_next := ps_queue ps\<rparr>)) (ps_queue ps) xs = chain (ps_procs ps) (ps_queue ps) xs"
    using a(3) by (intro chain_cong) auto
  then show ?thesis using assms by (simp add: u_ni_process_add_waitq_def put_process_def queue_wf_def)
qed

lemma attach_parent_wf: "pb_wf pb \<Longrightarrow> pb_wf (fst (ni_process_buffer_attach_parent b pb))"
  by (simp add: ni_process_buffer_attach_parent_def pb_wf_def Let_def)

lemma process_run_ok:
  assumes run: "running ps xs" and a: "ps_procs ps a = Some pi" "pi_next pi = None" "pi_pid pi = 0" "proc_wf pi" "a \<notin> set xs"
    and argv: "sa_data (pi_argv pi) = Some (CHR ''/'' # name) # rest" "executable (CHR ''/'' # name)"
    and pid: "0 < pid" "pid \<notin> pid_of ps ` set xs"
  shows "\<exists>ps1. u_ni_process_run executable pid a ps = Some (0, ps1) \<and> running ps1 (a # xs) \<and> pid_of ps1 a = pid
     \<and> (\<forall>b. b \<noteq> a \<longrightarrow> ps_procs ps1 b = ps_procs ps b)"
proof -
  have qw: "queue_wf ps xs" using run by (simp add: running_def)
  obtain ps1 where ps1: "u_ni_process_add_waitq a ps = Some ps1" "queue_wf ps1 (a # xs)" "ps_procs ps1 a = Some (pi\<lparr>pi_next := ps_queue ps\<rparr>)"
      "\<forall>b. b \<noteq> a \<longrightarrow> ps_procs ps1 b = ps_procs ps b"
    using add_waitq_ok [OF qw a(1,2,5)] by blast
  obtain pin es0 pout es1 perr es2 where at: "ni_process_buffer_attach_parent True (pi_stdin pi) = (pin, es0)"
      "ni_process_buffer_attach_parent False (pi_stdout pi) = (pout, es1)" "ni_process_buffer_attach_parent False (pi_stderr pi) = (perr, es2)"
    by (metis prod.exhaust)
  let ?p = "pi\<lparr>pi_next := ps_queue ps, pi_pid := pid, pi_stdin := pin, pi_stdout := pout, pi_stderr := perr\<rparr>"
  let ?ps2 = "log_events (es0 @ es1 @ es2) (put_process a ?p ps1)"
  have r: "u_ni_process_run executable pid a ps = Some (0, ?ps2)"
    using a(1,3) argv pid(1) ps1(1,3) at by (simp add: u_ni_process_run_def arr_get_def)
  have w: "proc_wf ?p" using a(4) attach_parent_wf [of "pi_stdout pi" False] attach_parent_wf [of "pi_stderr pi" False] at
    by (simp add: proc_wf_def)
  have same: "ps_procs ?ps2 b = ps_procs ps b" if "b \<noteq> a" for b using ps1(4) that by (simp add: log_events_def put_process_def)
  have pa: "ps_procs ?ps2 a = Some ?p" by (simp add: log_events_def put_process_def)
  have "chain (ps_procs ?ps2) (ps_queue ps1) (a # xs) = chain (ps_procs ps1) (ps_queue ps1) (a # xs)"
  proof (rule chain_cong)
    fix b
    show "map_option pi_next (ps_procs ?ps2 b) = map_option pi_next (ps_procs ps1 b)"
    proof (cases "b = a")
      case True
      then show ?thesis using ps1(3) by (simp add: log_events_def put_process_def)
    next
      case False
      then show ?thesis using same [OF False] spec [OF ps1(4), of b] by presburger
    qed
  qed
  then have q: "queue_wf ?ps2 (a # xs)" using ps1(2) by (simp add: queue_wf_def log_events_def put_process_def)
  have pids: "pid_of ?ps2 b = (if b = a then pid else pid_of ps b)" for b using same [of b] pa by (auto simp: pid_of_def)
  have "inj_on (pid_of ?ps2) (set (a # xs))"
  proof -
    have "inj_on (pid_of ?ps2) (set xs) = inj_on (pid_of ps) (set xs)" using a(5) pids by (intro inj_on_cong) auto
    moreover have "pid_of ?ps2 ` set xs = pid_of ps ` set xs" using a(5) pids by (intro image_cong) auto
    ultimately show ?thesis using run a(5) pid(2) pids [of a] by (simp add: running_def)
  qed
  moreover have "\<exists>q. ps_procs ?ps2 b = Some q \<and> pi_pid q \<noteq> 0 \<and> proc_wf q" if "b \<in> set (a # xs)" for b
    using that pa w pid(1) same [of b] run a(5) by (cases "b = a") (auto simp: running_def)
  ultimately have "running ?ps2 (a # xs)" using q by (simp add: running_def)
  then show ?thesis using r same pids [of a] by (intro exI [of _ ?ps2]) simp
qed

text \<open>C28: The wait queue.  Whatever children are reported, the reaper returns; each process in the queue whose child
  has ended is taken out of it, has pid 0, the reported status and the exit information made of it; its exit
  callback is called once, in the order of the reports; all other processes stay as they are, those in the queue
  in their order.\<close>

theorem children_are_collected:
  assumes run: "running ps xs" and sig: "ps_sigchld ps" and once: "distinct (map fst children)"
  shows "\<exists>ps1. ni_process_reap_children children ps = Some ps1 \<and> queue_wf ps1 [a \<leftarrow> xs. pid_of ps a \<notin> fst ` set children]
       \<and> (\<forall>a\<in>set xs. case map_of (reported children) (pid_of ps a) of
            Some st \<Rightarrow> \<exists>pi. ps_procs ps1 a = Some pi \<and> exited st pi
          | None \<Rightarrow> \<exists>pi pi1. ps_procs ps a = Some pi \<and> ps_procs ps1 a = Some pi1 \<and> same_process pi1 pi)
       \<and> (\<forall>b. b \<notin> set xs \<longrightarrow> ps_procs ps1 b = ps_procs ps b)
       \<and> exits (ps_trace ps1) = exits (ps_trace ps) @ concat (map (called ps xs) (map fst children))"
proof -
  let ?ps = "ps\<lparr>ps_sigchld := False\<rparr>"
  have same: "ps_procs ?ps = ps_procs ps" "ps_trace ?ps = ps_trace ps" "pid_of ?ps = pid_of ps" "queue_wf ?ps = queue_wf ps" "called ?ps = called ps"
    by (auto simp: fun_eq_iff pid_of_def queue_wf_def called_def)
  then have "running ?ps xs" using run by (simp add: running_def)
  from reap_loop_ok [OF this once, unfolded same] show ?thesis using sig by (simp add: ni_process_reap_children_def)
qed

text \<open>A process with one argument, and a store with this process alone.\<close>

definition true_process :: ni_process where
  "true_process = \<lparr>pi_next = None, pi_process = None, pi_pid = 0, pi_status = 0, pi_exit_info = no_exit_info,
     pi_argv = \<lparr>sa_count = 1, sa_data = Some ''/bin/true'' # replicate 16 None\<rparr>, pi_environ = ni_string_array_init,
     pi_use_terminal = 0, pi_stdin = ni_process_buffer_init, pi_stdout = ni_process_buffer_init,
     pi_stderr = ni_process_buffer_init, pi_read_callback = False, pi_exit_callback = True\<rparr>"

definition one_process :: process_store where
  "one_process = \<lparr>ps_procs = [1 \<mapsto> true_process], ps_cmds = Map.empty, ps_queue = None, ps_sigchld = True, ps_trace = []\<rparr>"

definition no_output :: last_output where
  "no_output = \<lparr>lo_stdout_reads = [], lo_stdout = [], lo_stderr_reads = [], lo_stderr = []\<rparr>"

lemma true_process_wf: "proc_wf true_process"
  by (simp add: proc_wf_def pb_wf_def true_process_def ni_process_buffer_init_def)

lemma children_are_collected_witness:
  "\<exists>ps ps1. u_ni_process_run (\<lambda>_. True) 100 1 one_process = Some (0, ps)
     \<and> ni_process_reap_children [(99, 0, no_output), (100, 0x100, no_output)] (u_ni_process_sigchld ps) = Some ps1
     \<and> queue_wf ps1 [] \<and> (\<exists>pi. ps_procs ps1 1 = Some pi \<and> exited 0x100 pi)"
proof -
  have "running one_process []" by (simp add: running_def queue_wf_def one_process_def)
  from process_run_ok [OF this, of 1 true_process "''bin/true''" "replicate 16 None" "\<lambda>_. True" 100]
  obtain ps where ps: "u_ni_process_run (\<lambda>_. True) 100 1 one_process = Some (0, ps)" "running ps [1]" "pid_of ps 1 = 100"
    using true_process_wf by (auto simp: one_process_def true_process_def)
  have sig: "running (u_ni_process_sigchld ps) [1]" "pid_of (u_ni_process_sigchld ps) 1 = 100"
    using ps(2,3) by (simp_all add: running_def queue_wf_def pid_of_def u_ni_process_sigchld_def)
  show ?thesis
    using children_are_collected [OF sig(1), of "[(99, 0, no_output), (100, 0x100, no_output)]"] ps(1) sig(2)
    by (auto simp: u_ni_process_sigchld_def reported_def)
qed

section \<open>Waiting twice\<close>

lemma queue_cycle_left:
  assumes "queue_find procs pid prev cur = Some r"
  shows "procs a = Some pi \<longrightarrow> pi_next pi = Some a \<longrightarrow> pi_pid pi \<noteq> pid \<longrightarrow> cur \<noteq> Some a"
  by (rule queue_find.raw_induct [OF _ assms], auto split: if_splits) blast+

lemma queue_cycle:
  "procs a = Some pi \<Longrightarrow> pi_next pi = Some a \<Longrightarrow> pi_pid pi \<noteq> pid \<Longrightarrow> queue_find procs pid prev (Some a) = None"
  using queue_cycle_left [of procs pid prev "Some a"] by (cases "queue_find procs pid prev (Some a)") auto

text \<open>A process that can be run: its program is named by a path and there.\<close>

definition can_run :: "(cstring \<Rightarrow> bool) \<Rightarrow> ni_process \<Rightarrow> bool" where
  "can_run executable pi \<longleftrightarrow> pi_pid pi = 0 \<and> pi_next pi = None \<and> proc_wf pi
     \<and> (\<exists>name rest. sa_data (pi_argv pi) = Some (CHR ''/'' # name) # rest \<and> executable (CHR ''/'' # name))"

lemma run_and_wait_ok:
  assumes a: "ps_procs ps a = Some pi" "can_run executable pi" and pid: "0 < pid"
  shows "\<exists>ps1 pi1. ni_process_run_and_wait executable pid (Some 0) lo a ps = Some (0, ps1) \<and> ps_queue ps1 = Some a
     \<and> ps_procs ps1 a = Some pi1 \<and> pi_pid pi1 = 0 \<and> pi_next pi1 = ps_queue ps \<and> proc_wf pi1 \<and> pi_argv pi1 = pi_argv pi"
proof -
  obtain pin es0 pout es1 perr es2 where at: "ni_process_buffer_attach_parent True (pi_stdin pi) = (pin, es0)"
      "ni_process_buffer_attach_parent False (pi_stdout pi) = (pout, es1)" "ni_process_buffer_attach_parent False (pi_stderr pi) = (perr, es2)"
    by (metis prod.exhaust)
  let ?p = "pi\<lparr>pi_next := ps_queue ps, pi_pid := pid, pi_stdin := pin, pi_stdout := pout, pi_stderr := perr\<rparr>"
  obtain ps1 where r: "u_ni_process_run executable pid a ps = Some (0, ps1)" "ps_procs ps1 a = Some ?p" "ps_queue ps1 = Some a"
    using a pid at by (auto simp: can_run_def u_ni_process_run_def arr_get_def u_ni_process_add_waitq_def put_process_def log_events_def)
  let ?q = "?p\<lparr>pi_status := 0\<rparr>"
  have "proc_wf ?q" using a(2) attach_parent_wf [of "pi_stdout pi" False] attach_parent_wf [of "pi_stderr pi" False] at
    by (simp add: proc_wf_def can_run_def)
  from flush_both_ok [OF this, of lo a] obtain po pe es where f: "flush_both lo a ?q = Some (?q\<lparr>pi_stdout := po, pi_stderr := pe\<rparr>, es)"
      "proc_wf (?q\<lparr>pi_stdout := po, pi_stderr := pe\<rparr>)" by blast
  let ?z = "?q\<lparr>pi_stdout := po, pi_stderr := pe, pi_pid := 0\<rparr>"
  have "ni_process_run_and_wait executable pid (Some 0) lo a ps = Some (0, log_events (es @ exit_call a ?z) (put_process a ?z ps1))"
    using r(1,2) f(1) by (simp add: ni_process_run_and_wait_def ni_process_exit_status_okay_def WIFEXITED_def WEXITSTATUS_def Let_def)
  moreover have "proc_wf ?z" using f(2) by (simp add: proc_wf_def)
  ultimately show ?thesis using r(3)
    by (intro exI [of _ "log_events (es @ exit_call a ?z) (put_process a ?z ps1)"] exI [of _ ?z]) (simp add: log_events_def put_process_def)
qed

text \<open>C32: A process that was waited for stays in the wait queue.  Run and waited for a second time, successfully again,
  it becomes its own successor there - the head of the queue, with no process number - and the reaper never returns
  when the next unknown child ends.\<close>

theorem run_and_wait_twice_hangs:
  assumes "ps_procs ps a = Some pi" and "can_run executable pi" and "ps_queue ps = None" and "0 < pid1" and "0 < pid2" and "pid \<noteq> 0"
  shows "\<exists>ps1 ps2. ni_process_run_and_wait executable pid1 (Some 0) lo1 a ps = Some (0, ps1)
     \<and> ni_process_run_and_wait executable pid2 (Some 0) lo2 a ps1 = Some (0, ps2)
     \<and> (\<exists>pi2. ps_queue ps2 = Some a \<and> ps_procs ps2 a = Some pi2 \<and> pi_next pi2 = Some a \<and> pi_pid pi2 = 0)
     \<and> ni_process_reap_children ((pid, st, lo) # children) (u_ni_process_sigchld ps2) = None"
proof -
  obtain ps1 pi1 where 1: "ni_process_run_and_wait executable pid1 (Some 0) lo1 a ps = Some (0, ps1)" "ps_queue ps1 = Some a"
      "ps_procs ps1 a = Some pi1" "pi_pid pi1 = 0" "pi_next pi1 = None" "proc_wf pi1" "pi_argv pi1 = pi_argv pi"
    using run_and_wait_ok [OF assms(1,2,4), of lo1] assms(3) by auto
  have "can_run executable pi1" using assms(2) 1(4-7) by (simp add: can_run_def)
  from run_and_wait_ok [OF 1(3) this assms(5), of lo2] obtain ps2 pi2 where 2:
      "ni_process_run_and_wait executable pid2 (Some 0) lo2 a ps1 = Some (0, ps2)" "ps_queue ps2 = Some a"
      "ps_procs ps2 a = Some pi2" "pi_pid pi2 = 0" "pi_next pi2 = Some a"
    using 1(2) by auto
  have "queue_find (ps_procs ps2) pid None (Some a) = None"
    using queue_cycle [of "ps_procs ps2" a pi2 pid None] 2(3-5) assms(6) by simp
  then have "ni_process_reap_children ((pid, st, lo) # children) (u_ni_process_sigchld ps2) = None"
    using 2(2) by (simp add: ni_process_reap_children_def u_ni_process_sigchld_def)
  then show ?thesis using 1(1) 2 by blast
qed

lemma run_and_wait_twice_hangs_witness:
  "\<exists>ps1 ps2. ni_process_run_and_wait (\<lambda>_. True) 100 (Some 0) no_output 1 one_process = Some (0, ps1)
     \<and> ni_process_run_and_wait (\<lambda>_. True) 101 (Some 0) no_output 1 ps1 = Some (0, ps2)
     \<and> (\<exists>pi2. ps_queue ps2 = Some 1 \<and> ps_procs ps2 1 = Some pi2 \<and> pi_next pi2 = Some 1 \<and> pi_pid pi2 = 0)
     \<and> ni_process_reap_children [(7, 0, no_output)] (u_ni_process_sigchld ps2) = None"
  using run_and_wait_twice_hangs [of one_process 1 true_process "\<lambda>_. True" 100 101 7 no_output no_output 0 no_output "[]"] true_process_wf
  by (simp add: one_process_def can_run_def true_process_def)

section \<open>The program that is executed\<close>

text \<open>The path at which a program without a slash was found is used for the check only: the child executes its
  first argument, in the root directory.\<close>

lemma program_found_is_not_executed:
  assumes argv: "sa_wf (pi_argv pi)" "sa_items (pi_argv pi) = Some name # args" and env: "penv_wf (pi_environ pi)"
    and name: "CHR ''/'' \<notin> set name" "executable (path_in name ''/bin'')"
  shows "u_ni_process_find_path executable name = path_in name ''/bin''
     \<and> (\<exists>vars. child_execve pi = Some (name, Some name # args @ [None], vars))"
proof -
  have "\<exists>p1. (if pi_use_terminal pi \<noteq> 0 then ni_process_setenv pi ''TERM'' (Some ''vt100'') else Some pi) = Some p1
      \<and> penv_wf (pi_environ p1) \<and> pi_argv p1 = pi_argv pi"
    using process_setenv_ok [OF env, of "''TERM''" "''vt100''"] env by auto
  then obtain p1 where p1: "(if pi_use_terminal pi \<noteq> 0 then ni_process_setenv pi ''TERM'' (Some ''vt100'') else Some pi) = Some p1"
      "sa_wf (pi_environ p1)" "pi_argv p1 = pi_argv pi" by (auto simp: penv_wf_def)
  obtain a where a: "ni_string_array_append (pi_argv p1) None = Some a" "sa_wf a" "sa_items a = Some name # args @ [None]"
    using ni_string_array_append_ok [of "pi_argv p1" None] argv p1(3) by auto
  obtain e where e: "ni_string_array_append (pi_environ p1) None = Some e" "sa_wf e"
    using ni_string_array_append_ok [OF p1(2), of None] by blast
  have "arr_get (sa_data a) 0 = Some (Some name)"
    using a(3) by (cases "sa_data a"; cases "sa_count a") (simp_all add: sa_items_def arr_get_def)
  then have "child_execve pi = Some (name, Some name # args @ [None], sa_items e)"
    unfolding child_execve_def p1(1) using a e sa_read_items [OF a(2)] sa_read_items [OF e(2)] by simp
  then show ?thesis using name by (simp add: u_ni_process_find_path_def bin_path_def)
qed

end
