(* ===== verification/Container.thy ===== *)
theory Container
  imports Environ Fileset Events Process
begin

text \<open>
  The containers of the server (server/container.h, container.c) with the kinds of objects that are
  containers: hosts (host.c), test cases (test.c), commands and processes (command.c), monitors (monitor.c).

  Containers live at addresses of a store; a missing entry is freed memory.  The five kinds of child arrays are
  five C types with the same code; an array is named by the container it is a member of and the kind of its
  members.  The functions that can destroy a container call each other in a circle (put, destroy,
  release_owned, the release and destroy hooks of the kinds, the array destructors); they have fuel, and
  running out of it is \<open>None\<close> like a fault.  The reference counts are natural numbers.
\<close>

section \<open>Containers\<close>

datatype kind = Global | Host | Testcase | Command | Process | Monitor

record child_array =
  ca_data :: "nat list"
  ca_next_id :: u32

definition child_array_init :: child_array where
  "child_array_init = \<lparr>ca_data = [], ca_next_id = 0\<rparr>"

text \<open>The common part and the fields of the kinds; the fields of another kind stay as they were initialised.\<close>

record container =
  c_kind :: kind
  c_trace_name :: "cstring option"
  c_path :: "cstring option"
  c_refcount :: nat
  c_id :: u32
  c_name :: "cstring option"
  c_parent :: "nat option"
  c_owner :: "nat option"
  c_env :: ni_testbus_env
  c_commands :: child_array
  c_processes :: child_array
  c_hosts :: child_array
  c_files :: ni_testbus_file_array
  c_tests :: child_array
  c_monitors :: child_array
  h_capabilities :: ni_string_array
  h_uuid :: ni_uuid
  h_agent_bus_name :: "cstring option"
  h_role :: "cstring option"
  h_eventlog :: "ni_eventlog option"
  h_generation :: u32
  h_ready :: bool
  cmd_argv :: ni_string_array
  cmd_use_terminal :: bool
  p_command :: "nat option"
  p_process :: "ni_process option"

text \<open>\<open>ni_name_mapping_t\<close>: a well-known name on the bus and the connection that owns it.\<close>

record ni_name_mapping =
  nm_bus_name :: "cstring option"
  nm_owner :: "cstring option"

record server =
  sv_containers :: "nat \<rightharpoonup> container"
  sv_next :: nat
  sv_global :: "nat option"
  sv_files :: file_store
  sv_names :: "ni_name_mapping list"
  sv_signals :: "(cstring \<times> cstring \<times> ni_dbus_variant list) list"
  sv_processes_freed :: "ni_process list"

definition cget :: "nat \<Rightarrow> server \<Rightarrow> container option" where
  "cget a sv = sv_containers sv a"

definition cset :: "nat \<Rightarrow> container \<Rightarrow> server \<Rightarrow> server" where
  "cset a c sv = sv\<lparr>sv_containers := (sv_containers sv)(a \<mapsto> c)\<rparr>"

section \<open>Kinds\<close>

definition HAS_ENV :: u32 where "HAS_ENV = 0x01"
definition HAS_CMDS :: u32 where "HAS_CMDS = 0x02"
definition HAS_FILES :: u32 where "HAS_FILES = 0x04"
definition HAS_HOSTS :: u32 where "HAS_HOSTS = 0x08"
definition HAS_TESTS :: u32 where "HAS_TESTS = 0x10"
definition HAS_PROCS :: u32 where "HAS_PROCS = 0x20"
definition HAS_MONITORS :: u32 where "HAS_MONITORS = 0x40"

lemmas feature_defs = HAS_ENV_def HAS_CMDS_def HAS_FILES_def HAS_HOSTS_def HAS_TESTS_def HAS_PROCS_def HAS_MONITORS_def

definition features :: "kind \<Rightarrow> u32" where
  "features k = (case k of
     Global \<Rightarrow> - 1
   | Host \<Rightarrow> HAS_ENV OR HAS_CMDS OR HAS_PROCS OR HAS_FILES OR HAS_MONITORS
   | Testcase \<Rightarrow> HAS_ENV OR HAS_CMDS OR HAS_HOSTS OR HAS_TESTS OR HAS_FILES OR HAS_MONITORS
   | Command \<Rightarrow> HAS_ENV OR HAS_FILES
   | Process \<Rightarrow> HAS_ENV OR HAS_FILES
   | Monitor \<Rightarrow> 0)"

text \<open>\<open>dbus_name_prefix\<close>; the global context has none.\<close>

definition name_prefix :: "kind \<Rightarrow> cstring" where
  "name_prefix k = (case k of Global \<Rightarrow> [] | Host \<Rightarrow> ''Host'' | Testcase \<Rightarrow> ''Test'' | Command \<Rightarrow> ''Command''
     | Process \<Rightarrow> ''Process'' | Monitor \<Rightarrow> ''Monitor'')"

definition ni_testbus_container_has_feature :: "container \<Rightarrow> u32 \<Rightarrow> bool" where
  "ni_testbus_container_has_feature cc f \<longleftrightarrow> features (c_kind cc) AND f \<noteq> 0"

lemma has_feature_kind [simp]:
  "ni_testbus_container_has_feature cc HAS_HOSTS \<longleftrightarrow> c_kind cc = Global \<or> c_kind cc = Testcase"
  "ni_testbus_container_has_feature cc HAS_TESTS \<longleftrightarrow> c_kind cc = Global \<or> c_kind cc = Testcase"
  "ni_testbus_container_has_feature cc HAS_CMDS \<longleftrightarrow> c_kind cc = Global \<or> c_kind cc = Testcase \<or> c_kind cc = Host"
  "ni_testbus_container_has_feature cc HAS_PROCS \<longleftrightarrow> c_kind cc = Global \<or> c_kind cc = Host"
  "ni_testbus_container_has_feature cc HAS_MONITORS \<longleftrightarrow> c_kind cc = Global \<or> c_kind cc = Testcase \<or> c_kind cc = Host"
  "ni_testbus_container_has_feature cc HAS_ENV \<longleftrightarrow> c_kind cc \<noteq> Monitor"
  "ni_testbus_container_has_feature cc HAS_FILES \<longleftrightarrow> c_kind cc \<noteq> Monitor"
  by (cases "c_kind cc"; simp add: ni_testbus_container_has_feature_def features_def feature_defs)+

text \<open>The array of a container that holds the children of a kind.\<close>

definition children_of :: "kind \<Rightarrow> container \<Rightarrow> child_array" where
  "children_of k c = (case k of Host \<Rightarrow> c_hosts c | Testcase \<Rightarrow> c_tests c | Command \<Rightarrow> c_commands c
     | Process \<Rightarrow> c_processes c | Monitor \<Rightarrow> c_monitors c | Global \<Rightarrow> child_array_init)"

definition set_children :: "kind \<Rightarrow> child_array \<Rightarrow> container \<Rightarrow> container" where
  "set_children k arr c = (case k of Host \<Rightarrow> c\<lparr>c_hosts := arr\<rparr> | Testcase \<Rightarrow> c\<lparr>c_tests := arr\<rparr>
     | Command \<Rightarrow> c\<lparr>c_commands := arr\<rparr> | Process \<Rightarrow> c\<lparr>c_processes := arr\<rparr>
     | Monitor \<Rightarrow> c\<lparr>c_monitors := arr\<rparr> | Global \<Rightarrow> c)"

text \<open>The order of \<open>ni_testbus_container_all_children\<close>: monitors are not among them.\<close>

definition all_children :: "container \<Rightarrow> nat list" where
  "all_children c = ca_data (c_hosts c) @ ca_data (c_tests c) @ ca_data (c_commands c) @ ca_data (c_processes c)"

section \<open>References and arrays\<close>

definition ni_testbus_container_get :: "nat \<Rightarrow> server \<Rightarrow> server option" where
  "ni_testbus_container_get a sv = do {
     c \<leftarrow> cget a sv;
     ni_assert (c_refcount c \<noteq> 0);
     Some (cset a (c\<lparr>c_refcount := c_refcount c + 1\<rparr>) sv) }"

fun container_get_all :: "nat list \<Rightarrow> server \<Rightarrow> server option" where
  "container_get_all [] sv = Some sv"
| "container_get_all (a # as) sv = do { sv1 \<leftarrow> ni_testbus_container_get a sv; container_get_all as sv1 }"

definition child_append :: "kind \<Rightarrow> nat \<Rightarrow> nat \<Rightarrow> server \<Rightarrow> server option" where
  "child_append k p a sv = do {
     sv1 \<leftarrow> ni_testbus_container_get a sv;
     c \<leftarrow> cget p sv1;
     let arr = children_of k c;
     Some (cset p (set_children k (arr\<lparr>ca_data := ca_data arr @ [a]\<rparr>) c) sv1) }"

definition ni_testbus_host_array_append :: "nat \<Rightarrow> nat \<Rightarrow> server \<Rightarrow> server option" where
  "ni_testbus_host_array_append = child_append Host"

definition ni_testbus_test_array_append :: "nat \<Rightarrow> nat \<Rightarrow> server \<Rightarrow> server option" where
  "ni_testbus_test_array_append = child_append Testcase"

definition ni_testbus_command_array_append :: "nat \<Rightarrow> nat \<Rightarrow> server \<Rightarrow> server option" where
  "ni_testbus_command_array_append = child_append Command"

definition ni_testbus_process_array_append :: "nat \<Rightarrow> nat \<Rightarrow> server \<Rightarrow> server option" where
  "ni_testbus_process_array_append = child_append Process"

definition child_pos :: "child_array \<Rightarrow> nat \<Rightarrow> int" where
  "child_pos arr a = index_of 0 (ca_data arr) a"

definition child_take_at :: "child_array \<Rightarrow> nat \<Rightarrow> nat option \<times> child_array" where
  "child_take_at arr i =
     (if length (ca_data arr) \<le> i then (None, arr)
      else (Some (ca_data arr ! i), arr\<lparr>ca_data := take i (ca_data arr) @ drop (Suc i) (ca_data arr)\<rparr>))"

text \<open>Finding the child and taking it out of the array, before its reference is dropped.\<close>

definition child_take :: "kind \<Rightarrow> nat \<Rightarrow> nat \<Rightarrow> server \<Rightarrow> (nat option \<times> server) option" where
  "child_take k p a sv = do {
     c \<leftarrow> cget p sv;
     let arr = children_of k c;
     let i = child_pos arr a;
     (if i < 0 then Some (None, sv)
      else (case child_take_at arr (nat i) of
              (None, _) \<Rightarrow> Some (None, sv)
            | (Some taken, arr1) \<Rightarrow> Some (Some taken, cset p (set_children k arr1 c) sv))) }"

section \<open>Making containers\<close>

definition blank_container :: "kind \<Rightarrow> container" where
  "blank_container k =
     \<lparr>c_kind = k, c_trace_name = None, c_path = None, c_refcount = 0, c_id = 0, c_name = None, c_parent = None, c_owner = None,
      c_env = ni_testbus_env_init, c_commands = child_array_init, c_processes = child_array_init, c_hosts = child_array_init,
      c_files = ni_testbus_file_array_init, c_tests = child_array_init, c_monitors = child_array_init,
      h_capabilities = ni_string_array_init, h_uuid = replicate 16 0, h_agent_bus_name = None, h_role = None, h_eventlog = None, h_generation = 0,
      h_ready = False, cmd_argv = ni_string_array_init, cmd_use_terminal = False, p_command = None, p_process = None\<rparr>"

text \<open>A block of zeroes, as \<open>ni_malloc\<close> gives it.\<close>

definition container_malloc :: "kind \<Rightarrow> server \<Rightarrow> nat \<times> server" where
  "container_malloc k sv = (sv_next sv, (cset (sv_next sv) (blank_container k) sv)\<lparr>sv_next := sv_next sv + 1\<rparr>)"

definition ni_testbus_global_context :: "server \<Rightarrow> nat \<times> server" where
  "ni_testbus_global_context sv =
     (case sv_global sv of
        Some g \<Rightarrow> (g, sv)
      | None \<Rightarrow>
          let (g, sv1) = container_malloc Global sv
          in (g, (cset g ((blank_container Global)\<lparr>c_refcount := 1, c_name := Some ''globalcontext''\<rparr>) sv1)\<lparr>sv_global := Some g\<rparr>))"

definition has_children :: "kind \<Rightarrow> container \<Rightarrow> bool" where
  "has_children k c = (case k of
     Host \<Rightarrow> ni_testbus_container_has_feature c HAS_HOSTS
   | Testcase \<Rightarrow> ni_testbus_container_has_feature c HAS_TESTS
   | Command \<Rightarrow> ni_testbus_container_has_feature c HAS_CMDS
   | Process \<Rightarrow> ni_testbus_container_has_feature c HAS_PROCS
   | Monitor \<Rightarrow> ni_testbus_container_has_feature c HAS_MONITORS
   | Global \<Rightarrow> False)"

definition ni_testbus_container_set_owner :: "nat \<Rightarrow> nat \<Rightarrow> server \<Rightarrow> server option" where
  "ni_testbus_container_set_owner a owner sv = do {
     c \<leftarrow> cget a sv;
     ni_assert (c_owner c = None);
     Some (cset a (c\<lparr>c_owner := Some owner\<rparr>) sv) }"

section \<open>Destroying containers\<close>

definition ni_testbus_host_release :: "nat \<Rightarrow> server \<Rightarrow> server option" where
  "ni_testbus_host_release a sv = do {
     c \<leftarrow> cget a sv;
     ni_assert (c_kind c = Host);
     Some (cset a (c\<lparr>h_role := None, h_eventlog := map_option ni_eventlog_flush (h_eventlog c)\<rparr>) sv) }"

definition ni_testbus_host_destroy :: "nat \<Rightarrow> server \<Rightarrow> server option" where
  "ni_testbus_host_destroy a sv = do {
     c \<leftarrow> cget a sv;
     ni_assert (c_kind c = Host);
     caps \<leftarrow> ni_string_array_destroy (h_capabilities c);
     Some (cset a (c\<lparr>h_eventlog := None, h_capabilities := caps, h_agent_bus_name := None, h_role := None\<rparr>) sv) }"

definition ni_testbus_host_set_role :: "nat \<Rightarrow> cstring option \<Rightarrow> nat option \<Rightarrow> server \<Rightarrow> (bool \<times> server) option" where
  "ni_testbus_host_set_role a role role_owner sv = do {
     c \<leftarrow> cget a sv;
     (if role_owner = None then Some (True, cset a (c\<lparr>h_role := None, c_owner := None\<rparr>) sv)
      else if h_role c \<noteq> None then Some (ni_string_eq (h_role c) role \<and> c_owner c = role_owner, sv)
      else Some (True, cset a (c\<lparr>h_role := role, c_owner := role_owner\<rparr>) sv)) }"

definition ni_testbus_command_destroy :: "nat \<Rightarrow> server \<Rightarrow> server option" where
  "ni_testbus_command_destroy a sv = do {
     c \<leftarrow> cget a sv;
     ni_assert (c_kind c = Command);
     argv \<leftarrow> ni_string_array_destroy (cmd_argv c);
     Some (cset a (c\<lparr>cmd_argv := argv\<rparr>) sv) }"

text \<open>The DBus object under the path of the container goes away; its destructor broadcasts the signal and frees the path.\<close>

definition ni_testbus_container_unregister :: "nat \<Rightarrow> server \<Rightarrow> server option" where
  "ni_testbus_container_unregister a sv = do {
     c \<leftarrow> cget a sv;
     Some (case c_path c of None \<Rightarrow> sv
       | Some path \<Rightarrow> (cset a (c\<lparr>c_path := None\<rparr>) sv)\<lparr>sv_signals := sv_signals sv @ [(path, ''deleted'', [])]\<rparr>) }"

definition container_free :: "nat \<Rightarrow> server \<Rightarrow> server" where
  "container_free a sv = sv\<lparr>sv_containers := (sv_containers sv)(a := None)\<rparr>"

text \<open>\<open>taken->context.parent = NULL\<close> when the array is the parent's (only in \<open>ni_testbus_host_array_remove\<close>).\<close>

definition host_forget_parent :: "nat \<Rightarrow> nat \<Rightarrow> server \<Rightarrow> server option" where
  "host_forget_parent p taken sv = do {
     c \<leftarrow> cget taken sv;
     Some (if c_parent c = Some p then cset taken (c\<lparr>c_parent := None\<rparr>) sv else sv) }"

definition set_parent_null :: "nat \<Rightarrow> server \<Rightarrow> server option" where
  "set_parent_null a sv = do { c \<leftarrow> cget a sv; Some (cset a (c\<lparr>c_parent := None\<rparr>) sv) }"

text \<open>Taking the last member out of an array that is emptied in place.\<close>

definition child_pop :: "kind \<Rightarrow> nat \<Rightarrow> server \<Rightarrow> (nat option \<times> server) option" where
  "child_pop k p sv = do {
     c \<leftarrow> cget p sv;
     let arr = children_of k c;
     Some (if ca_data arr = [] then (None, sv)
           else (Some (List.last (ca_data arr)), cset p (set_children k (arr\<lparr>ca_data := butlast (ca_data arr)\<rparr>) c) sv)) }"

definition child_reset :: "kind \<Rightarrow> nat \<Rightarrow> server \<Rightarrow> server option" where
  "child_reset k p sv = do { c \<leftarrow> cget p sv; Some (cset p (set_children k child_array_init c) sv) }"

text \<open>\<open>if (host->context.owner != NULL && &host->context.owner->hosts == array)\<close>\<close>

definition host_unclaim :: "nat \<Rightarrow> nat \<Rightarrow> server \<Rightarrow> server option" where
  "host_unclaim p host sv = do {
     c \<leftarrow> cget host sv;
     (case c_owner c of None \<Rightarrow> Some sv
      | Some owner \<Rightarrow> do {
          _ \<leftarrow> cget owner sv;
          (if owner = p then do { (_, sv1) \<leftarrow> ni_testbus_host_set_role host None None sv; Some sv1 } else Some sv) }) }"

text \<open>The members of the container after the hooks and the arrays.\<close>

definition destroy_members :: "nat \<Rightarrow> server \<Rightarrow> server option" where
  "destroy_members a sv = do {
     c \<leftarrow> cget a sv;
     (files, fs) \<leftarrow> ni_testbus_file_array_destroy (c_files c) (sv_files sv);
     let sv1 = (cset a (c\<lparr>c_files := files, c_name := None\<rparr>) sv)\<lparr>sv_files := fs\<rparr>;
     ni_testbus_container_unregister a sv1 }"

definition destroy_env :: "nat \<Rightarrow> server \<Rightarrow> server option" where
  "destroy_env a sv = do {
     c \<leftarrow> cget a sv;
     env \<leftarrow> ni_testbus_env_destroy (c_env c);
     Some (cset a (c\<lparr>c_env := env\<rparr>) sv) }"

function (sequential) ni_testbus_container_put :: "nat \<Rightarrow> nat \<Rightarrow> server \<Rightarrow> server option"
  and put_list :: "nat \<Rightarrow> nat list \<Rightarrow> server \<Rightarrow> server option"
  and ni_testbus_container_destroy :: "nat \<Rightarrow> nat \<Rightarrow> server \<Rightarrow> server option"
  and ni_testbus_container_remove_child :: "nat \<Rightarrow> nat \<Rightarrow> nat \<Rightarrow> server \<Rightarrow> (bool \<times> server) option"
  and ni_testbus_container_release_owned :: "nat \<Rightarrow> nat \<Rightarrow> nat \<Rightarrow> server \<Rightarrow> server option"
  and release_list :: "nat \<Rightarrow> nat list \<Rightarrow> nat \<Rightarrow> server \<Rightarrow> server option"
  and ops_release :: "nat \<Rightarrow> nat \<Rightarrow> server \<Rightarrow> server option"
  and ops_destroy :: "nat \<Rightarrow> nat \<Rightarrow> server \<Rightarrow> server option"
  and ni_testbus_process_destroy :: "nat \<Rightarrow> nat \<Rightarrow> server \<Rightarrow> server option"
  and destroy_children :: "nat \<Rightarrow> nat list \<Rightarrow> server \<Rightarrow> server option"
  and ni_testbus_command_array_destroy :: "nat \<Rightarrow> nat \<Rightarrow> server \<Rightarrow> server option"
  and ni_testbus_process_array_destroy :: "nat \<Rightarrow> nat \<Rightarrow> server \<Rightarrow> server option"
  and ni_testbus_host_array_destroy :: "nat \<Rightarrow> nat \<Rightarrow> server \<Rightarrow> server option"
  and ni_testbus_test_array_destroy :: "nat \<Rightarrow> nat \<Rightarrow> server \<Rightarrow> server option"
where
  "ni_testbus_container_put 0 a sv = None"
| "ni_testbus_container_put (Suc n) a sv = do {
     c \<leftarrow> cget a sv;
     ni_assert (c_refcount c \<noteq> 0);
     (if c_refcount c > 1 then Some (cset a (c\<lparr>c_refcount := c_refcount c - 1\<rparr>) sv)
      else do {
        let sv1 = cset a (c\<lparr>c_owner := None\<rparr>) sv;
        ni_assert (c_parent c = None);
        sv2 \<leftarrow> ni_testbus_container_destroy n a sv1;
        _ \<leftarrow> cget a sv2;
        Some (container_free a sv2) }) }"
| "put_list n [] sv = Some sv"
| "put_list n (a # as) sv = do { sv1 \<leftarrow> ni_testbus_container_put n a sv; put_list n as sv1 }"
| "ni_testbus_container_destroy 0 a sv = None"
| "ni_testbus_container_destroy (Suc n) a sv = do {
     c \<leftarrow> cget a sv;
     ni_assert (c_trace_name c \<noteq> None);
     sv1 \<leftarrow> (case c_parent c of
              None \<Rightarrow> Some sv
            | Some p \<Rightarrow> do {
                (_, sv0) \<leftarrow> ni_testbus_container_remove_child n a p (cset a (c\<lparr>c_parent := None\<rparr>) sv);
                Some sv0 });
     let (g, sv2) = ni_testbus_global_context sv1;
     sv3 \<leftarrow> ni_testbus_container_release_owned n g a sv2;
     sv4 \<leftarrow> ni_testbus_container_release_owned n a a sv3;
     sv5 \<leftarrow> ops_destroy n a sv4;
     sv6 \<leftarrow> destroy_env a sv5;
     sv7 \<leftarrow> ni_testbus_command_array_destroy n a sv6;
     sv8 \<leftarrow> ni_testbus_process_array_destroy n a sv7;
     sv9 \<leftarrow> ni_testbus_host_array_destroy n a sv8;
     sv10 \<leftarrow> ni_testbus_test_array_destroy n a sv9;
     destroy_members a sv10 }"
| "ni_testbus_container_remove_child n a p sv = do {
     c \<leftarrow> cget a sv;
     ni_assert (c_kind c \<noteq> Global);
     (taken, sv1) \<leftarrow> child_take (c_kind c) p a sv;
     (case taken of
        None \<Rightarrow> Some (False, sv1)
      | Some t \<Rightarrow> do {
          sv2 \<leftarrow> (if c_kind c = Host then host_forget_parent p t sv1 else Some sv1);
          sv3 \<leftarrow> ni_testbus_container_put n t sv2;
          Some (True, sv3) }) }"
| "ni_testbus_container_release_owned 0 a owner sv = None"
| "ni_testbus_container_release_owned (Suc n) a owner sv = do {
     c \<leftarrow> cget a sv;
     let children = all_children c;
     sv1 \<leftarrow> container_get_all children sv;
     sv2 \<leftarrow> release_list n children owner sv1;
     put_list n children sv2 }"
| "release_list n [] owner sv = Some sv"
| "release_list n (child # cs) owner sv = do {
     c \<leftarrow> cget child sv;
     sv1 \<leftarrow> (if c_owner c = Some owner then ops_release n child (cset child (c\<lparr>c_owner := None\<rparr>) sv) else Some sv);
     c1 \<leftarrow> cget child sv1;
     sv2 \<leftarrow> (if c_refcount c1 > 1 then ni_testbus_container_release_owned n child owner sv1 else Some sv1);
     release_list n cs owner sv2 }"
| "ops_release n a sv = do {
     c \<leftarrow> cget a sv;
     (case c_kind c of
        Host \<Rightarrow> ni_testbus_host_release a sv
      | Command \<Rightarrow> ni_testbus_container_destroy n a sv
      | Process \<Rightarrow> ni_testbus_container_destroy n a sv
      | _ \<Rightarrow> Some sv) }"
| "ops_destroy n a sv = do {
     c \<leftarrow> cget a sv;
     (case c_kind c of
        Host \<Rightarrow> ni_testbus_host_destroy a sv
      | Command \<Rightarrow> ni_testbus_command_destroy a sv
      | Process \<Rightarrow> ni_testbus_process_destroy n a sv
      | _ \<Rightarrow> Some sv) }"
| "ni_testbus_process_destroy n a sv = do {
     c \<leftarrow> cget a sv;
     ni_assert (c_kind c = Process);
     argv \<leftarrow> ni_string_array_destroy (cmd_argv c);
     let sv1 = cset a (c\<lparr>cmd_argv := argv\<rparr>) sv;
     sv2 \<leftarrow> (case p_command c of
              None \<Rightarrow> Some sv1
            | Some cmd \<Rightarrow> do {
                sv' \<leftarrow> ni_testbus_container_put n cmd sv1;
                c' \<leftarrow> cget a sv';
                Some (cset a (c'\<lparr>p_command := None\<rparr>) sv') });
     c2 \<leftarrow> cget a sv2;
     Some (case p_process c2 of
             None \<Rightarrow> sv2
           | Some pi \<Rightarrow> (cset a (c2\<lparr>p_process := None\<rparr>) sv2)\<lparr>sv_processes_freed := sv_processes_freed sv2 @ [pi]\<rparr>) }"
| "destroy_children n [] sv = Some sv"
| "destroy_children n (x # xs) sv = do {
     sv1 \<leftarrow> set_parent_null x sv;
     sv2 \<leftarrow> ni_testbus_container_put n x sv1;
     destroy_children n xs sv2 }"
| "ni_testbus_command_array_destroy 0 a sv = None"
| "ni_testbus_command_array_destroy (Suc n) a sv = do {
     (x, sv1) \<leftarrow> child_pop Command a sv;
     (case x of
        None \<Rightarrow> child_reset Command a sv1
      | Some cmd \<Rightarrow> do {
          sv2 \<leftarrow> set_parent_null cmd sv1;
          sv3 \<leftarrow> ni_testbus_container_put n cmd sv2;
          ni_testbus_command_array_destroy n a sv3 }) }"
| "ni_testbus_process_array_destroy n a sv = do {
     c \<leftarrow> cget a sv;
     sv1 \<leftarrow> child_reset Process a sv;
     sv2 \<leftarrow> destroy_children n (rev (ca_data (c_processes c))) sv1;
     child_reset Process a sv2 }"
| "ni_testbus_host_array_destroy 0 a sv = None"
| "ni_testbus_host_array_destroy (Suc n) a sv = do {
     (x, sv1) \<leftarrow> child_pop Host a sv;
     (case x of
        None \<Rightarrow> child_reset Host a sv1
      | Some host \<Rightarrow> do {
          sv2 \<leftarrow> host_unclaim a host sv1;
          sv3 \<leftarrow> set_parent_null host sv2;
          sv4 \<leftarrow> ni_testbus_container_put n host sv3;
          ni_testbus_host_array_destroy n a sv4 }) }"
| "ni_testbus_test_array_destroy n a sv = do {
     c \<leftarrow> cget a sv;
     sv1 \<leftarrow> child_reset Testcase a sv;
     sv2 \<leftarrow> destroy_children n (rev (ca_data (c_tests c))) sv1;
     child_reset Testcase a sv2 }"
  by pat_completeness auto
termination by size_change

end
