(* ===== verification/ContainerOps.thy ===== *)
theory ContainerOps
  imports Container
begin

text \<open>
  Operations on the tree of containers: making hosts, test cases, commands, processes and monitors, finding
  hosts, files and tests by name along the chain of parents, merging environments and files of a chain
  (server/container.c, host.c, test.c, command.c, monitor.c), and the map from well-known bus names to the
  connections that own them (server/main.c).
\<close>

section \<open>Initialising\<close>

text \<open>The members of the kinds around \<open>context\<close> stay as they are.\<close>

definition context_init :: "kind \<Rightarrow> cstring option \<Rightarrow> nat \<Rightarrow> container \<Rightarrow> container" where
  "context_init k name parent c = c\<lparr>c_kind := k, c_trace_name := None, c_path := None, c_refcount := 1, c_id := 0, c_name := name,
     c_parent := Some parent, c_owner := None, c_env := ni_testbus_env_init, c_commands := child_array_init,
     c_processes := child_array_init, c_hosts := child_array_init, c_files := ni_testbus_file_array_init,
     c_tests := child_array_init, c_monitors := child_array_init\<rparr>"

text \<open>\<open>container->id = parent->hosts.next_id++\<close> and the like.\<close>

definition take_id :: "kind \<Rightarrow> nat \<Rightarrow> nat \<Rightarrow> server \<Rightarrow> server option" where
  "take_id k parent a sv = do {
     p \<leftarrow> cget parent sv;
     let arr = children_of k p;
     let sv1 = cset parent (set_children k (arr\<lparr>ca_next_id := ca_next_id arr + 1\<rparr>) p) sv;
     c \<leftarrow> cget a sv1;
     Some (cset a (c\<lparr>c_id := ca_next_id arr\<rparr>) sv1) }"

text \<open>The trace name has 64 bytes.\<close>

definition set_trace_name :: "kind \<Rightarrow> nat \<Rightarrow> server \<Rightarrow> server option" where
  "set_trace_name k a sv = do {
     c \<leftarrow> cget a sv;
     Some (cset a (c\<lparr>c_trace_name := Some (take 63 (name_prefix k @ print_dec (unat (c_id c))))\<rparr>) sv) }"

text \<open>A kind without a case in the code, a monitor for one, ends the server (\<open>ni_fatal\<close>).\<close>

definition ni_testbus_container_init :: "nat \<Rightarrow> kind \<Rightarrow> cstring option \<Rightarrow> nat \<Rightarrow> server \<Rightarrow> server option" where
  "ni_testbus_container_init a k name parent sv = do {
     c \<leftarrow> cget a sv;
     let sv1 = cset a (context_init k name parent c) sv;
     ni_assert (k \<noteq> Monitor \<and> k \<noteq> Global);
     p \<leftarrow> cget parent sv1;
     ni_assert (has_children k p);
     sv2 \<leftarrow> take_id k parent a sv1;
     sv3 \<leftarrow> child_append k parent a sv2;
     sv4 \<leftarrow> set_trace_name k a sv3;
     sv5 \<leftarrow> ni_testbus_container_put 1 a sv4;
     c1 \<leftarrow> cget a sv5;
     ni_assert (c_refcount c1 \<noteq> 0);
     Some sv5 }"

section \<open>Looking up\<close>

fun find_child :: "(container \<Rightarrow> bool) \<Rightarrow> nat list \<Rightarrow> server \<Rightarrow> nat option option" where
  "find_child P [] sv = Some None"
| "find_child P (a # as) sv = do { c \<leftarrow> cget a sv; (if P c then Some (Some a) else find_child P as sv) }"

definition ni_testbus_host_array_find_by_name :: "child_array \<Rightarrow> cstring option \<Rightarrow> server \<Rightarrow> nat option option" where
  "ni_testbus_host_array_find_by_name arr name sv = find_child (\<lambda>c. ni_string_eq (c_name c) name) (ca_data arr) sv"

definition ni_testbus_host_array_find_by_role :: "child_array \<Rightarrow> cstring option \<Rightarrow> server \<Rightarrow> nat option option" where
  "ni_testbus_host_array_find_by_role arr role sv = find_child (\<lambda>c. ni_string_eq (h_role c) role) (ca_data arr) sv"

definition ni_testbus_test_array_find_by_name :: "child_array \<Rightarrow> cstring option \<Rightarrow> server \<Rightarrow> nat option option" where
  "ni_testbus_test_array_find_by_name arr name sv = find_child (\<lambda>c. ni_string_eq (c_name c) name) (ca_data arr) sv"

text \<open>\<open>for (; container; container = container->parent)\<close> with a search in each container; when the search is not
  global it ends after the first.  A loop over a circle of parents does not return.\<close>

partial_function (option) search_up ::
    "bool \<Rightarrow> (container \<Rightarrow> nat option option) \<Rightarrow> nat option \<Rightarrow> server \<Rightarrow> nat option option" where
  [code]: "search_up globally f p sv = (if p = None then Some None
     else do {
       a \<leftarrow> p;
       c \<leftarrow> cget a sv;
       r \<leftarrow> f c;
       (if r \<noteq> None \<or> \<not> globally then Some r else search_up globally f (c_parent c) sv) })"

definition ni_testbus_container_get_host_by_name :: "nat option \<Rightarrow> cstring option \<Rightarrow> server \<Rightarrow> nat option option" where
  "ni_testbus_container_get_host_by_name p name sv = search_up True
     (\<lambda>c. if ni_testbus_container_has_feature c HAS_HOSTS then ni_testbus_host_array_find_by_name (c_hosts c) name sv else Some None) p sv"

definition ni_testbus_container_get_host_by_role :: "nat option \<Rightarrow> cstring option \<Rightarrow> server \<Rightarrow> nat option option" where
  "ni_testbus_container_get_host_by_role p role sv = search_up True
     (\<lambda>c. if ni_testbus_container_has_feature c HAS_HOSTS then ni_testbus_host_array_find_by_role (c_hosts c) role sv else Some None) p sv"

definition ni_testbus_container_get_file_by_name :: "nat option \<Rightarrow> cstring option \<Rightarrow> bool \<Rightarrow> server \<Rightarrow> nat option option" where
  "ni_testbus_container_get_file_by_name p name globally sv = search_up globally
     (\<lambda>c. if ni_testbus_container_has_feature c HAS_FILES then ni_testbus_file_array_find_by_name (c_files c) name (sv_files sv) else Some None) p sv"

definition u_ni_testbus_container_get_file_by_name :: "nat \<Rightarrow> cstring option \<Rightarrow> server \<Rightarrow> nat option option" where
  "u_ni_testbus_container_get_file_by_name a name sv = do {
     c \<leftarrow> cget a sv;
     (if ni_testbus_container_has_feature c HAS_FILES then ni_testbus_file_array_find_by_name (c_files c) name (sv_files sv) else Some None) }"

definition ni_testbus_container_get_test_by_name :: "nat option \<Rightarrow> cstring option \<Rightarrow> bool \<Rightarrow> server \<Rightarrow> nat option option" where
  "ni_testbus_container_get_test_by_name p name globally sv = search_up globally
     (\<lambda>c. if ni_testbus_container_has_feature c HAS_TESTS then ni_testbus_test_array_find_by_name (c_tests c) name sv else Some None) p sv"

definition ni_testbus_container_find_agent_host :: "nat \<Rightarrow> cstring option \<Rightarrow> server \<Rightarrow> nat option option" where
  "ni_testbus_container_find_agent_host a dbus_name sv = do {
     c \<leftarrow> cget a sv;
     (if ni_testbus_container_has_feature c HAS_HOSTS
      then find_child (\<lambda>h. ni_string_eq (h_agent_bus_name h) dbus_name) (ca_data (c_hosts c)) sv else Some None) }"

section \<open>Making the kinds\<close>

definition NI_ERROR_NAME_EXISTS :: int where "NI_ERROR_NAME_EXISTS = 28"

text \<open>A negative error code, or the new host.\<close>

definition ni_testbus_host_new :: "nat \<Rightarrow> cstring option \<Rightarrow> server \<Rightarrow> ((int + nat) \<times> server) option" where
  "ni_testbus_host_new parent name sv = do {
     p \<leftarrow> cget parent sv;
     ni_assert (ni_testbus_container_has_feature p HAS_HOSTS);
     r \<leftarrow> ni_testbus_container_get_host_by_name (Some parent) name sv;
     (if r \<noteq> None then Some (Inl (- NI_ERROR_NAME_EXISTS), sv)
      else do {
        let (a, sv1) = container_malloc Host sv;
        sv2 \<leftarrow> ni_testbus_container_init a Host name parent sv1;
        Some (Inr a, sv2) }) }"

definition ni_testbus_testcase_new :: "cstring option \<Rightarrow> nat \<Rightarrow> server \<Rightarrow> (nat \<times> server) option" where
  "ni_testbus_testcase_new name parent sv = do {
     let (a, sv1) = container_malloc Testcase sv;
     sv2 \<leftarrow> ni_testbus_container_init a Testcase name parent sv1;
     Some (a, sv2) }"

definition set_argv :: "nat \<Rightarrow> ni_string_array \<Rightarrow> server \<Rightarrow> server option" where
  "set_argv a argv sv = do {
     c \<leftarrow> cget a sv;
     arr \<leftarrow> ni_string_array_copy (cmd_argv c) argv;
     Some (cset a (c\<lparr>cmd_argv := arr\<rparr>) sv) }"

definition ni_testbus_command_new :: "nat \<Rightarrow> ni_string_array \<Rightarrow> server \<Rightarrow> (nat \<times> server) option" where
  "ni_testbus_command_new parent argv sv = do {
     p \<leftarrow> cget parent sv;
     ni_assert (ni_testbus_container_has_feature p HAS_CMDS);
     let (a, sv1) = container_malloc Command sv;
     sv2 \<leftarrow> set_argv a argv sv1;
     sv3 \<leftarrow> ni_testbus_container_init a Command None parent sv2;
     Some (a, sv3) }"

definition ni_testbus_process_new :: "nat \<Rightarrow> nat \<Rightarrow> server \<Rightarrow> (nat \<times> server) option" where
  "ni_testbus_process_new parent command sv = do {
     p \<leftarrow> cget parent sv;
     ni_assert (ni_testbus_container_has_feature p HAS_PROCS);
     let (a, sv1) = container_malloc Process sv;
     sv2 \<leftarrow> ni_testbus_container_get command sv1;
     cmd \<leftarrow> cget command sv2;
     c \<leftarrow> cget a sv2;
     let sv3 = cset a (c\<lparr>p_command := Some command\<rparr>) sv2;
     sv4 \<leftarrow> set_argv a (cmd_argv cmd) sv3;
     sv5 \<leftarrow> ni_testbus_container_init a Process None parent sv4;
     sv6 \<leftarrow> ni_testbus_container_set_owner a command sv5;
     Some (a, sv6) }"

text \<open>The class and the parameters of the monitor are copied before; they do not matter.\<close>

definition ni_testbus_monitor_new :: "nat \<Rightarrow> cstring option \<Rightarrow> server \<Rightarrow> (nat \<times> server) option" where
  "ni_testbus_monitor_new parent name sv = do {
     p \<leftarrow> cget parent sv;
     ni_assert (ni_testbus_container_has_feature p HAS_MONITORS);
     let (a, sv1) = container_malloc Monitor sv;
     sv2 \<leftarrow> ni_testbus_container_init a Monitor name parent sv1;
     Some (a, sv2) }"

section \<open>Environments and files of a chain\<close>

text \<open>The containers up the chain that have variables, nearest first.\<close>

partial_function (option) env_chain :: "nat option \<Rightarrow> server \<Rightarrow> nat list option" where
  [code]: "env_chain p sv = (if p = None then Some []
     else do {
       a \<leftarrow> p;
       c \<leftarrow> cget a sv;
       rest \<leftarrow> env_chain (c_parent c) sv;
       Some (if ni_testbus_container_has_feature c HAS_ENV \<and> va_count (env_vars (c_env c)) \<noteq> 0 then a # rest else rest) })"

fun get_envs :: "nat list \<Rightarrow> server \<Rightarrow> ni_testbus_env list option" where
  "get_envs [] sv = Some []"
| "get_envs (a # as) sv = do { c \<leftarrow> cget a sv; es \<leftarrow> get_envs as sv; Some (c_env c # es) }"

fun set_envs :: "nat list \<Rightarrow> ni_testbus_env list \<Rightarrow> server \<Rightarrow> server option" where
  "set_envs (a # as) (e # es) sv = do { c \<leftarrow> cget a sv; set_envs as es (cset a (c\<lparr>c_env := e\<rparr>) sv) }"
| "set_envs as es sv = Some sv"

text \<open>The merge sorts the environments of the chain in place.  The result is the environment of a container
  outside the chain.\<close>

definition ni_testbus_container_merge_environment ::
    "nat option \<Rightarrow> ni_testbus_env \<Rightarrow> server \<Rightarrow> (bool \<times> ni_testbus_env \<times> server) option" where
  "ni_testbus_container_merge_environment p result sv = do {
     chain \<leftarrow> env_chain p sv;
     es \<leftarrow> get_envs chain sv;
     let own = va_count (env_vars result) \<noteq> 0;
     let inputs = (if own then [result] else []) @ es;
     (if inputs = [] then Some (True, result, sv)
      else do {
        (merged, sorted) \<leftarrow> ni_testbus_env_merge ni_testbus_env_init inputs;
        sv1 \<leftarrow> set_envs chain (if own then List.tl sorted else sorted) sv;
        _ \<leftarrow> ni_testbus_env_destroy (if own then hd sorted else result);
        Some (True, merged, sv1) }) }"

partial_function (option) merge_files_up ::
    "nat option \<Rightarrow> ni_testbus_file_array \<Rightarrow> server \<Rightarrow> (ni_testbus_file_array \<times> server) option" where
  [code]: "merge_files_up p result sv = (if p = None then Some (result, sv)
     else do {
       a \<leftarrow> p;
       c \<leftarrow> cget a sv;
       r \<leftarrow> (if ni_testbus_container_has_feature c HAS_FILES then ni_testbus_file_array_merge result (c_files c) (sv_files sv)
             else Some (result, sv_files sv));
       merge_files_up (c_parent c) (fst r) (sv\<lparr>sv_files := snd r\<rparr>) })"

definition ni_testbus_container_merge_files ::
    "nat option \<Rightarrow> ni_testbus_file_array \<Rightarrow> server \<Rightarrow> (bool \<times> ni_testbus_file_array \<times> server) option" where
  "ni_testbus_container_merge_files p result sv = do { (r, sv1) \<leftarrow> merge_files_up p result sv; Some (True, r, sv1) }"

definition ni_testbus_process_apply_context :: "nat \<Rightarrow> nat \<Rightarrow> server \<Rightarrow> server option" where
  "ni_testbus_process_apply_context proc container sv = do {
     c \<leftarrow> cget proc sv;
     (_, env, sv1) \<leftarrow> ni_testbus_container_merge_environment (Some container) (c_env c) sv;
     c1 \<leftarrow> cget proc sv1;
     let sv2 = cset proc (c1\<lparr>c_env := env\<rparr>) sv1;
     (_, files, sv3) \<leftarrow> ni_testbus_container_merge_files (Some container) (c_files c1) sv2;
     c2 \<leftarrow> cget proc sv3;
     Some (cset proc (c2\<lparr>c_files := files\<rparr>) sv3) }"

definition NI_TESTBUS_FILE_WRITE :: u32 where "NI_TESTBUS_FILE_WRITE = 2"

fun output_files :: "nat list \<Rightarrow> ni_testbus_file_array \<Rightarrow> file_store \<Rightarrow> (ni_testbus_file_array \<times> file_store) option" where
  "output_files [] ofiles fs = Some (ofiles, fs)"
| "output_files (a # as) ofiles fs = do {
     f \<leftarrow> fs_files fs a;
     (if f_mode f AND NI_TESTBUS_FILE_WRITE \<noteq> 0
      then do { (ofiles1, fs1) \<leftarrow> ni_testbus_file_array_append ofiles a fs; output_files as ofiles1 fs1 }
      else output_files as ofiles fs) }"

fun renew_files :: "nat list \<Rightarrow> ni_testbus_file_array \<Rightarrow> file_store \<Rightarrow> (ni_testbus_file_array \<times> file_store) option" where
  "renew_files [] arr fs = Some (arr, fs)"
| "renew_files (a # as) arr fs = do {
     f \<leftarrow> fs_files fs a;
     (_, arr1, fs1) \<leftarrow> ni_testbus_file_new (f_name f) arr (f_mode f) fs;
     (_, arr2, fs2) \<leftarrow> ni_testbus_file_array_remove arr1 a fs1;
     renew_files as arr2 fs2 }"

text \<open>A process gets files of its own for its output.\<close>

definition ni_testbus_process_finalize :: "nat \<Rightarrow> server \<Rightarrow> (bool \<times> server) option" where
  "ni_testbus_process_finalize proc sv = do {
     c \<leftarrow> cget proc sv;
     (ofiles, fs1) \<leftarrow> output_files (fa_data (c_files c)) ni_testbus_file_array_init (sv_files sv);
     (arr, fs2) \<leftarrow> renew_files (fa_data ofiles) (c_files c) fs1;
     (_, fs3) \<leftarrow> ni_testbus_file_array_destroy ofiles fs2;
     Some (True, (cset proc (c\<lparr>c_files := arr\<rparr>) sv)\<lparr>sv_files := fs3\<rparr>) }"

section \<open>Membership\<close>

definition ni_testbus_container_add_host :: "nat \<Rightarrow> nat \<Rightarrow> server \<Rightarrow> server option" where
  "ni_testbus_container_add_host a host sv = do {
     c \<leftarrow> cget a sv;
     ni_assert (ni_testbus_container_has_feature c HAS_HOSTS);
     ni_testbus_host_array_append a host sv }"

definition child_remove :: "kind \<Rightarrow> nat \<Rightarrow> nat \<Rightarrow> nat \<Rightarrow> server \<Rightarrow> (bool \<times> server) option" where
  "child_remove k n p a sv = do {
     (taken, sv1) \<leftarrow> child_take k p a sv;
     (case taken of
        None \<Rightarrow> Some (False, sv1)
      | Some t \<Rightarrow> do {
          sv2 \<leftarrow> (if k = Host then host_forget_parent p t sv1 else Some sv1);
          sv3 \<leftarrow> ni_testbus_container_put n t sv2;
          Some (True, sv3) }) }"

definition ni_testbus_host_array_remove :: "nat \<Rightarrow> nat \<Rightarrow> nat \<Rightarrow> server \<Rightarrow> (bool \<times> server) option" where
  "ni_testbus_host_array_remove = child_remove Host"

definition ni_testbus_test_array_remove :: "nat \<Rightarrow> nat \<Rightarrow> nat \<Rightarrow> server \<Rightarrow> (bool \<times> server) option" where
  "ni_testbus_test_array_remove = child_remove Testcase"

definition ni_testbus_command_array_remove :: "nat \<Rightarrow> nat \<Rightarrow> nat \<Rightarrow> server \<Rightarrow> (bool \<times> server) option" where
  "ni_testbus_command_array_remove = child_remove Command"

definition ni_testbus_process_array_remove :: "nat \<Rightarrow> nat \<Rightarrow> nat \<Rightarrow> server \<Rightarrow> (bool \<times> server) option" where
  "ni_testbus_process_array_remove = child_remove Process"

definition ni_testbus_container_remove_host :: "nat \<Rightarrow> nat \<Rightarrow> nat \<Rightarrow> server \<Rightarrow> server option" where
  "ni_testbus_container_remove_host n a host sv = do {
     c \<leftarrow> cget a sv;
     ni_assert (ni_testbus_container_has_feature c HAS_HOSTS);
     (_, sv1) \<leftarrow> ni_testbus_host_array_remove n a host sv;
     Some sv1 }"

definition ni_testbus_container_add_file :: "nat \<Rightarrow> nat \<Rightarrow> server \<Rightarrow> server option" where
  "ni_testbus_container_add_file a file sv = do {
     c \<leftarrow> cget a sv;
     ni_assert (ni_testbus_container_has_feature c HAS_FILES);
     (files, fs) \<leftarrow> ni_testbus_file_array_append (c_files c) file (sv_files sv);
     Some ((cset a (c\<lparr>c_files := files\<rparr>) sv)\<lparr>sv_files := fs\<rparr>) }"

definition ni_testbus_container_remove_file :: "nat \<Rightarrow> nat \<Rightarrow> server \<Rightarrow> server option" where
  "ni_testbus_container_remove_file a file sv = do {
     c \<leftarrow> cget a sv;
     ni_assert (ni_testbus_container_has_feature c HAS_FILES);
     (_, files, fs) \<leftarrow> ni_testbus_file_array_remove (c_files c) file (sv_files sv);
     Some ((cset a (c\<lparr>c_files := files\<rparr>) sv)\<lparr>sv_files := fs\<rparr>) }"

definition ni_testbus_container_add_test :: "nat \<Rightarrow> nat \<Rightarrow> server \<Rightarrow> server option" where
  "ni_testbus_container_add_test a test sv = do {
     c \<leftarrow> cget a sv;
     ni_assert (ni_testbus_container_has_feature c HAS_TESTS);
     ni_testbus_test_array_append a test sv }"

definition ni_testbus_container_remove_test :: "nat \<Rightarrow> nat \<Rightarrow> nat \<Rightarrow> server \<Rightarrow> server option" where
  "ni_testbus_container_remove_test n a test sv = do {
     c \<leftarrow> cget a sv;
     ni_assert (ni_testbus_container_has_feature c HAS_TESTS);
     (_, sv1) \<leftarrow> ni_testbus_test_array_remove n a test sv;
     Some sv1 }"

fun detach_hosts :: "nat list \<Rightarrow> nat option \<Rightarrow> server \<Rightarrow> server option" where
  "detach_hosts [] owner sv = Some sv"
| "detach_hosts (a # as) owner sv = do {
     c \<leftarrow> cget a sv;
     sv1 \<leftarrow> (if c_owner c = owner then do { (_, sv0) \<leftarrow> ni_testbus_host_set_role a None None sv; Some sv0 } else Some sv);
     detach_hosts as owner sv1 }"

definition ni_testbus_host_array_detach_from :: "child_array \<Rightarrow> nat option \<Rightarrow> server \<Rightarrow> server option" where
  "ni_testbus_host_array_detach_from arr owner sv = detach_hosts (ca_data arr) owner sv"

section \<open>Agents\<close>

definition ni_testbus_host_agent_ready :: "nat \<Rightarrow> server \<Rightarrow> server option" where
  "ni_testbus_host_agent_ready a sv = do {
     c \<leftarrow> cget a sv;
     Some (cset a (c\<lparr>h_ready := True, h_generation := h_generation c + 1\<rparr>) sv) }"

definition ni_testbus_host_agent_disconnected :: "nat \<Rightarrow> server \<Rightarrow> server option" where
  "ni_testbus_host_agent_disconnected a sv = do {
     c \<leftarrow> cget a sv;
     caps \<leftarrow> ni_string_array_destroy (h_capabilities c);
     env \<leftarrow> ni_testbus_env_destroy (c_env c);
     Some (cset a (c\<lparr>h_capabilities := caps, c_env := env, h_agent_bus_name := None, h_ready := False\<rparr>) sv) }"

definition ni_testbus_host_add_capability :: "nat \<Rightarrow> cstring option \<Rightarrow> server \<Rightarrow> server option" where
  "ni_testbus_host_add_capability a capability sv = do {
     c \<leftarrow> cget a sv;
     (case capability of
        None \<Rightarrow> Some sv
      | Some cap \<Rightarrow> do {
          i \<leftarrow> ni_string_array_index (h_capabilities c) cap;
          (if i < 0 then do {
             caps \<leftarrow> ni_string_array_append (h_capabilities c) capability;
             Some (cset a (c\<lparr>h_capabilities := caps\<rparr>) sv) }
           else Some sv) }) }"

section \<open>Well-known bus names\<close>

fun record_name :: "cstring option \<Rightarrow> cstring option \<Rightarrow> ni_name_mapping list \<Rightarrow> ni_name_mapping list" where
  "record_name bus_name owner [] = (if owner \<noteq> None then [\<lparr>nm_bus_name = bus_name, nm_owner = owner\<rparr>] else [])"
| "record_name bus_name owner (m # ms) =
     (if ni_string_eq (nm_bus_name m) bus_name then (if owner = None then ms else m\<lparr>nm_owner := owner\<rparr> # ms)
      else m # record_name bus_name owner ms)"

definition ni_testbus_record_wellknown_bus_name :: "cstring option \<Rightarrow> cstring option \<Rightarrow> server \<Rightarrow> server" where
  "ni_testbus_record_wellknown_bus_name bus_name owner sv =
     sv\<lparr>sv_names := record_name bus_name (if owner = Some [] then None else owner) (sv_names sv)\<rparr>"

fun lookup_name :: "cstring option \<Rightarrow> ni_name_mapping list \<Rightarrow> cstring option" where
  "lookup_name owner [] = owner"
| "lookup_name owner (m # ms) = (if ni_string_eq (nm_owner m) owner then nm_bus_name m else lookup_name owner ms)"

definition ni_testbus_lookup_wellknown_bus_name :: "cstring option \<Rightarrow> server \<Rightarrow> cstring option" where
  "ni_testbus_lookup_wellknown_bus_name owner sv = lookup_name owner (sv_names sv)"

end
