(* ===== verification/ServerBus.thy ===== *)
theory ServerBus
  imports ContainerOps
begin

text \<open>
  What the server does for the calls and signals that arrive on the bus (server/dbus-*.c, main.c).  A handler
  gets the arguments as variants and answers with an error or the strings of its reply.  The tree of bus
  objects is represented by the paths the containers are registered under; objects of other kinds are a
  parameter where a client may name them.  Paths are compared as strings.  Which handler is called for which
  object is the business of the object model; a handler whose object is a container is given its address.
\<close>

section \<open>Errors, arguments, signals\<close>

datatype dbus_error = Invalid_args | Failed | Name_exists | Name_unknown | Name_invalid | Permission_denied
  | Agent_offline | Not_compatible | In_use | Bad_size | Property_not_present

type_synonym 'a answer = "((dbus_error + 'a) \<times> server) option"

text \<open>\<open>ni_dbus_set_error_from_code\<close> for the one code the server passes to it.\<close>

definition error_from_code :: "int \<Rightarrow> dbus_error" where
  "error_from_code rc = (if rc = - NI_ERROR_NAME_EXISTS then Name_exists else Failed)"

text \<open>\<open>argc != n || !ni_dbus_variant_get_string(&argv[0], ...) || ...\<close>; None inside: wrong arguments.\<close>

fun get_strings :: "ni_dbus_variant list \<Rightarrow> cstring option list option option" where
  "get_strings [] = Some (Some [])"
| "get_strings (v # vs) = do {
     r \<leftarrow> ni_dbus_variant_get_string v;
     (case r of None \<Rightarrow> Some None
      | Some s \<Rightarrow> do { rs \<leftarrow> get_strings vs; Some (case rs of None \<Rightarrow> None | Some ss \<Rightarrow> Some (s # ss)) }) }"

definition string_args :: "nat \<Rightarrow> ni_dbus_variant list \<Rightarrow> cstring option list option option" where
  "string_args n argv = (if length argv \<noteq> n then Some None else get_strings argv)"

definition send_signal :: "cstring \<Rightarrow> cstring \<Rightarrow> ni_dbus_variant list \<Rightarrow> server \<Rightarrow> server" where
  "send_signal path member args sv = sv\<lparr>sv_signals := sv_signals sv @ [(path, member, args)]\<rparr>"

definition u_ni_testbus_identifier_valid :: "cstring \<Rightarrow> bool" where
  "u_ni_testbus_identifier_valid name =
     (case name of
        [] \<Rightarrow> False
      | c # cs \<Rightarrow> (if \<not> (c_isupper c \<or> c_islower c) \<and> c \<noteq> CHR ''_'' then False
                  else list_all (\<lambda>c. c_isalnum c \<or> c = CHR ''_'') cs))"

section \<open>Objects on the bus\<close>

definition registered :: "cstring \<Rightarrow> server \<Rightarrow> nat option" where
  "registered path sv = List.find (\<lambda>a. case cget a sv of None \<Rightarrow> False | Some c \<Rightarrow> c_path c = Some path) [0..<sv_next sv]"

text \<open>The path buffer has 256 bytes.\<close>

definition ni_testbus_container_build_path :: "cstring \<Rightarrow> container \<Rightarrow> cstring" where
  "ni_testbus_container_build_path parent_path c =
     take 255 (parent_path @ ''/'' @ name_prefix (c_kind c) @ print_dec (unat (c_id c)))"

text \<open>Registering a second container under a path is fatal.\<close>

definition ni_testbus_container_wrap :: "cstring \<Rightarrow> nat \<Rightarrow> server \<Rightarrow> (cstring \<times> server) option" where
  "ni_testbus_container_wrap parent_path a sv = do {
     c \<leftarrow> cget a sv;
     ni_assert (c_kind c \<noteq> Global);
     let path = ni_testbus_container_build_path parent_path c;
     ni_assert (registered path sv = None \<or> registered path sv = Some a);
     Some (path, cset a (c\<lparr>c_path := Some path, c_trace_name := Some path\<rparr>) sv) }"

definition ni_testbus_file_full_path :: "cstring \<Rightarrow> ni_testbus_file \<Rightarrow> cstring" where
  "ni_testbus_file_full_path container_path f = take 255 (container_path @ ''/File'' @ print_dec (unat (f_id f)))"

definition ni_testbus_file_wrap :: "cstring \<Rightarrow> nat \<Rightarrow> server \<Rightarrow> (cstring \<times> server) option" where
  "ni_testbus_file_wrap container_path a sv = do {
     f \<leftarrow> fs_files (sv_files sv) a;
     let path = ni_testbus_file_full_path container_path f;
     fs \<leftarrow> ni_testbus_file_get a (sv_files sv);
     f1 \<leftarrow> fs_files fs a;
     Some (path, sv\<lparr>sv_files := put_file a (f1\<lparr>f_object_path := Some path\<rparr>) fs\<rparr>) }"

text \<open>A client names an object by its path.  Besides the registered containers there is the global context;
  \<open>others\<close> are the paths of objects that are not containers.\<close>

datatype bus_object = No_object | Other_object | Container_object nat

definition global_path :: cstring where "global_path = ''/org/opensuse/Testbus/GlobalContext''"

definition ni_dbus_object_lookup :: "(cstring \<Rightarrow> bool) \<Rightarrow> cstring \<Rightarrow> server \<Rightarrow> bus_object" where
  "ni_dbus_object_lookup others path sv =
     (case registered path sv of
        Some a \<Rightarrow> Container_object a
      | None \<Rightarrow> (if path = global_path \<and> sv_global sv \<noteq> None then Container_object (the (sv_global sv))
                else if others path then Other_object else No_object))"

section \<open>Agents come and go\<close>

definition u_ni_testbus_host_set_agent :: "nat \<Rightarrow> cstring option \<Rightarrow> server \<Rightarrow> server option" where
  "u_ni_testbus_host_set_agent a owner sv = do {
     c \<leftarrow> cget a sv;
     Some (cset a (c\<lparr>h_agent_bus_name := ni_testbus_lookup_wellknown_bus_name owner sv, h_eventlog := None\<rparr>) sv) }"

text \<open>\<open>destination\<close> is the destination of the reply, that is the caller; \<open>fresh\<close> is what \<open>ni_uuid_generate\<close> gives.\<close>

definition u_ni_Testbus_Hostlist_createHost ::
    "cstring \<Rightarrow> cstring option \<Rightarrow> ni_uuid \<Rightarrow> ni_dbus_variant list \<Rightarrow> server \<Rightarrow> cstring list answer" where
  "u_ni_Testbus_Hostlist_createHost path destination fresh argv sv = do {
     let (g, sv0) = ni_testbus_global_context sv;
     args \<leftarrow> string_args 1 argv;
     (case args of
        None \<Rightarrow> Some (Inl Invalid_args, sv0)
      | Some ss \<Rightarrow> do {
          name \<leftarrow> arr_get ss 0;
          (r, sv1) \<leftarrow> ni_testbus_host_new g name sv0;
          (case r of
             Inl rc \<Rightarrow> Some (Inl (error_from_code rc), sv1)
           | Inr h \<Rightarrow> do {
               sv2 \<leftarrow> u_ni_testbus_host_set_agent h destination sv1;
               c \<leftarrow> cget h sv2;
               (host_path, sv3) \<leftarrow> ni_testbus_container_wrap path h (cset h (c\<lparr>h_uuid := fresh\<rparr>) sv2);
               Some (Inr [host_path], send_signal host_path ''connected'' [] sv3) }) }) }"

definition u_ni_Testbus_Hostlist_removeHost :: "nat \<Rightarrow> ni_dbus_variant list \<Rightarrow> server \<Rightarrow> cstring list answer" where
  "u_ni_Testbus_Hostlist_removeHost n argv sv = do {
     let (g, sv0) = ni_testbus_global_context sv;
     args \<leftarrow> string_args 1 argv;
     (case args of
        None \<Rightarrow> Some (Inl Invalid_args, sv0)
      | Some ss \<Rightarrow> do {
          name \<leftarrow> arr_get ss 0;
          r \<leftarrow> ni_testbus_container_get_host_by_name (Some g) name sv0;
          (case r of
             None \<Rightarrow> Some (Inl Name_unknown, sv0)
           | Some h \<Rightarrow> do {
               sv1 \<leftarrow> ni_testbus_container_remove_host n g h sv0;
               Some (Inr [], sv1) }) }) }"

text \<open>The part of \<open>reconnect\<close> for a host that is there: None inside: the host is taken.\<close>

definition reclaim_host :: "nat \<Rightarrow> ni_uuid \<Rightarrow> server \<Rightarrow> (bool \<times> server) option" where
  "reclaim_host h uuid sv = do {
     c \<leftarrow> cget h sv;
     sv1 \<leftarrow> (if \<not> ni_uuid_is_null uuid \<and> ni_uuid_equal (h_uuid c) uuid \<and> h_agent_bus_name c \<noteq> None
             then ni_testbus_host_agent_disconnected h sv else Some sv);
     c1 \<leftarrow> cget h sv1;
     Some (h_agent_bus_name c1 = None, sv1) }"

definition finish_reconnect ::
    "cstring \<Rightarrow> cstring option \<Rightarrow> ni_uuid \<Rightarrow> nat \<Rightarrow> ni_uuid \<Rightarrow> server \<Rightarrow> cstring list answer" where
  "finish_reconnect path destination fresh h uuid sv = do {
     c \<leftarrow> cget h sv;
     sv1 \<leftarrow> u_ni_testbus_host_set_agent h destination (cset h (c\<lparr>h_uuid := (if ni_uuid_is_null uuid then fresh else uuid)\<rparr>) sv);
     c1 \<leftarrow> cget h sv1;
     host_path \<leftarrow> c_path c1;
     Some (Inr [host_path], send_signal path ''connected'' [] sv1) }"

text \<open>The signal is sent for the object of the call, the list of hosts.\<close>

definition u_ni_Testbus_Hostlist_reconnect ::
    "cstring \<Rightarrow> cstring option \<Rightarrow> ni_uuid \<Rightarrow> ni_dbus_variant list \<Rightarrow> server \<Rightarrow> cstring list answer" where
  "u_ni_Testbus_Hostlist_reconnect path destination fresh argv sv = do {
     let (g, sv0) = ni_testbus_global_context sv;
     args \<leftarrow> (if length argv \<noteq> 2 then Some None else get_strings (take 1 argv));
     (case args of
        None \<Rightarrow> Some (Inl Invalid_args, sv0)
      | Some ss \<Rightarrow> do {
          name \<leftarrow> arr_get ss 0;
          v \<leftarrow> arr_get argv 1;
          ruuid \<leftarrow> ni_dbus_variant_get_uuid v;
          (case ruuid of
             None \<Rightarrow> Some (Inl Invalid_args, sv0)
           | Some uuid \<Rightarrow> do {
               r \<leftarrow> ni_testbus_container_get_host_by_name (Some g) name sv0;
               (case r of
                  None \<Rightarrow> do {
                    (rh, sv1) \<leftarrow> ni_testbus_host_new g name sv0;
                    (case rh of
                       Inl rc \<Rightarrow> Some (Inl (error_from_code rc), sv1)
                     | Inr h \<Rightarrow> do {
                         (_, sv2) \<leftarrow> ni_testbus_container_wrap path h sv1;
                         finish_reconnect path destination fresh h uuid sv2 }) }
                | Some h \<Rightarrow> do {
                    (free, sv1) \<leftarrow> reclaim_host h uuid sv0;
                    (if free then finish_reconnect path destination fresh h uuid sv1 else Some (Inl Name_exists, sv1)) }) }) }) }"

text \<open>The agent interface's signals, from any sender.\<close>

definition u_ni_testbus_host_agent_signal :: "cstring option \<Rightarrow> cstring \<Rightarrow> server \<Rightarrow> server option" where
  "u_ni_testbus_host_agent_signal sender signal sv =
     (if signal \<noteq> ''ready'' then Some sv
      else do {
        let (g, sv0) = ni_testbus_global_context sv;
        r \<leftarrow> ni_testbus_container_find_agent_host g (ni_testbus_lookup_wellknown_bus_name sender sv0) sv0;
        (case r of
           None \<Rightarrow> Some sv0
         | Some h \<Rightarrow> do {
             sv1 \<leftarrow> ni_testbus_host_agent_ready h sv0;
             c \<leftarrow> cget h sv1;
             Some (case c_path c of None \<Rightarrow> sv1 | Some path \<Rightarrow> send_signal path ''ready'' [] sv1) }) })"

definition NI_TESTBUS_NAMESPACE :: cstring where "NI_TESTBUS_NAMESPACE = ''org.opensuse.Testbus''"

text \<open>\<open>NameOwnerChanged\<close> with the arguments decoded; other signals of the bus are ignored.\<close>

definition u_ni_testbus_dbus_bus_signal_handler :: "cstring \<Rightarrow> cstring \<Rightarrow> cstring \<Rightarrow> server \<Rightarrow> server option" where
  "u_ni_testbus_dbus_bus_signal_handler signal name new_owner sv =
     (if signal \<noteq> ''NameOwnerChanged'' then Some sv
      else do {
        let sv1 = (if take (length NI_TESTBUS_NAMESPACE) name = NI_TESTBUS_NAMESPACE
                   then ni_testbus_record_wellknown_bus_name (Some name) (Some new_owner) sv else sv);
        (if new_owner \<noteq> [] then Some sv1
         else do {
           let (g, sv2) = ni_testbus_global_context sv1;
           r \<leftarrow> ni_testbus_container_find_agent_host g (Some name) sv2;
           (case r of None \<Rightarrow> Some sv2 | Some h \<Rightarrow> ni_testbus_host_agent_disconnected h sv2) }) })"

section \<open>Hosts\<close>

text \<open>A method of a host called for another object is an error.\<close>

definition u_ni_Testbus_Host_addCapability :: "nat \<Rightarrow> ni_dbus_variant list \<Rightarrow> server \<Rightarrow> cstring list answer" where
  "u_ni_Testbus_Host_addCapability a argv sv = do {
     c \<leftarrow> cget a sv;
     (if c_kind c \<noteq> Host then Some (Inl Failed, sv)
      else do {
        args \<leftarrow> string_args 1 argv;
        (case args of
           None \<Rightarrow> Some (Inl Invalid_args, sv)
         | Some ss \<Rightarrow> do {
             capability \<leftarrow> arr_get ss 0;
             sv1 \<leftarrow> ni_testbus_host_add_capability a capability sv;
             Some (Inr [], sv1) }) }) }"

text \<open>\<open>Host.shutdown\<close> and \<open>Host.reboot\<close> differ in the signal.\<close>

definition host_goes_down :: "cstring \<Rightarrow> cstring \<Rightarrow> nat \<Rightarrow> ni_dbus_variant list \<Rightarrow> server \<Rightarrow> cstring list answer" where
  "host_goes_down signal path a argv sv = do {
     c \<leftarrow> cget a sv;
     (if c_kind c \<noteq> Host then Some (Inl Failed, sv)
      else if argv \<noteq> [] then Some (Inl Invalid_args, sv)
      else do {
        sv1 \<leftarrow> ni_testbus_host_agent_disconnected a (send_signal path signal [] sv);
        Some (Inr [], sv1) }) }"

definition u_ni_Testbus_Host_shutdown :: "cstring \<Rightarrow> nat \<Rightarrow> ni_dbus_variant list \<Rightarrow> server \<Rightarrow> cstring list answer" where
  "u_ni_Testbus_Host_shutdown = host_goes_down ''shutdownRequested''"

definition u_ni_Testbus_Host_reboot :: "cstring \<Rightarrow> nat \<Rightarrow> ni_dbus_variant list \<Rightarrow> server \<Rightarrow> cstring list answer" where
  "u_ni_Testbus_Host_reboot = host_goes_down ''rebootRequested''"

text \<open>The call is handed on to the object of each host in turn, up to the first that fails.  A host without a path
  leads to the root object, which is not a host.  The list grows no members meanwhile.\<close>

fun delegate_to_hosts ::
    "(cstring \<Rightarrow> nat \<Rightarrow> ni_dbus_variant list \<Rightarrow> server \<Rightarrow> cstring list answer) \<Rightarrow> nat list \<Rightarrow> ni_dbus_variant list \<Rightarrow> server \<Rightarrow> cstring list answer" where
  "delegate_to_hosts call [] argv sv = Some (Inr [], sv)"
| "delegate_to_hosts call (h # hs) argv sv = do {
     c \<leftarrow> cget h sv;
     (case c_path c of
        None \<Rightarrow> Some (Inl Failed, sv)
      | Some path \<Rightarrow>
          (case registered path sv of
             None \<Rightarrow> Some (Inl Failed, sv)
           | Some a \<Rightarrow> do {
               (r, sv1) \<leftarrow> call path a argv sv;
               (case r of Inl e \<Rightarrow> Some (Inl e, sv1) | Inr _ \<Rightarrow> delegate_to_hosts call hs argv sv1) })) }"

definition u_ni_testbus_context_delegate_hosts ::
    "(cstring \<Rightarrow> nat \<Rightarrow> ni_dbus_variant list \<Rightarrow> server \<Rightarrow> cstring list answer) \<Rightarrow> nat \<Rightarrow> ni_dbus_variant list \<Rightarrow> server \<Rightarrow> cstring list answer" where
  "u_ni_testbus_context_delegate_hosts call a argv sv = do { c \<leftarrow> cget a sv; delegate_to_hosts call (ca_data (c_hosts c)) argv sv }"

definition u_ni_Testbus_Hostlist_shutdown :: "ni_dbus_variant list \<Rightarrow> server \<Rightarrow> cstring list answer" where
  "u_ni_Testbus_Hostlist_shutdown argv sv =
     (case ni_testbus_global_context sv of (g, sv0) \<Rightarrow> u_ni_testbus_context_delegate_hosts u_ni_Testbus_Host_shutdown g argv sv0)"

definition u_ni_Testbus_Hostlist_reboot :: "ni_dbus_variant list \<Rightarrow> server \<Rightarrow> cstring list answer" where
  "u_ni_Testbus_Hostlist_reboot argv sv =
     (case ni_testbus_global_context sv of (g, sv0) \<Rightarrow> u_ni_testbus_context_delegate_hosts u_ni_Testbus_Host_reboot g argv sv0)"

definition u_ni_Testbus_Hostset_shutdown :: "nat \<Rightarrow> ni_dbus_variant list \<Rightarrow> server \<Rightarrow> cstring list answer" where
  "u_ni_Testbus_Hostset_shutdown = u_ni_testbus_context_delegate_hosts u_ni_Testbus_Host_shutdown"

definition u_ni_Testbus_Hostset_reboot :: "nat \<Rightarrow> ni_dbus_variant list \<Rightarrow> server \<Rightarrow> cstring list answer" where
  "u_ni_Testbus_Hostset_reboot = u_ni_testbus_context_delegate_hosts u_ni_Testbus_Host_reboot"

text \<open>A test claims a host under a role.\<close>

definition u_ni_Testbus_Hostset_addHost ::
    "(cstring \<Rightarrow> bool) \<Rightarrow> nat \<Rightarrow> ni_dbus_variant list \<Rightarrow> server \<Rightarrow> cstring list answer" where
  "u_ni_Testbus_Hostset_addHost others a argv sv = do {
     args \<leftarrow> string_args 2 argv;
     (case args of
        None \<Rightarrow> Some (Inl Invalid_args, sv)
      | Some ss \<Rightarrow> do {
          arg0 \<leftarrow> arr_get ss 0;
          name \<leftarrow> arg0;
          arg1 \<leftarrow> arr_get ss 1;
          host_object_path \<leftarrow> arg1;
          (if \<not> u_ni_testbus_identifier_valid name then Some (Inl Name_invalid, sv)
           else do {
             r \<leftarrow> ni_testbus_container_get_host_by_role (Some a) (Some name) sv;
             (if r \<noteq> None then Some (Inl Name_exists, sv)
              else
                (case ni_dbus_object_lookup others host_object_path sv of
                   No_object \<Rightarrow> Some (Inl Name_unknown, sv)
                 | Other_object \<Rightarrow> Some (Inl Not_compatible, sv)
                 | Container_object h \<Rightarrow> do {
                     c \<leftarrow> cget h sv;
                     (if c_kind c \<noteq> Host then Some (Inl Not_compatible, sv)
                      else do {
                        (ok, sv1) \<leftarrow> ni_testbus_host_set_role h (Some name) (Some a) sv;
                        (if \<not> ok then Some (Inl In_use, sv1)
                         else do { sv2 \<leftarrow> ni_testbus_container_add_host a h sv1; Some (Inr [], sv2) }) }) })) }) }) }"

text \<open>The signal carries the process and its files; when that fails no signal is sent.\<close>

definition ni_testbus_host_signal_process_scheduled :: "cstring \<Rightarrow> cstring \<Rightarrow> nat \<Rightarrow> server \<Rightarrow> (bool \<times> server) option" where
  "ni_testbus_host_signal_process_scheduled host_path process_path proc sv = do {
     c \<leftarrow> cget proc sv;
     cmd \<leftarrow> p_command c;
     cc \<leftarrow> cget cmd sv;
     pi \<leftarrow> ni_process_new_ext (cmd_argv c) (env_vars (c_env c));
     let pi1 = pi\<lparr>pi_use_terminal := (if cmd_use_terminal cc then 1 else 0)\<rparr>;
     (ok, d0) \<leftarrow> ni_testbus_process_serialize pi1 ni_dbus_variant_init;
     (if \<not> ok then Some (False, sv)
      else do {
        (_, d1) \<leftarrow> ni_dbus_dict_add_string d0 ''object-path'' (Some process_path);
        (ok2, d2) \<leftarrow> ni_testbus_file_array_serialize (c_files c) (sv_files sv) ni_dbus_variant_init;
        (if \<not> ok2 then Some (False, sv)
         else Some (True, cset proc (c\<lparr>p_process := Some pi1\<rparr>) (send_signal host_path ''processScheduled'' [d1, d2] sv))) }) }"

fun wrap_outputs :: "cstring \<Rightarrow> nat list \<Rightarrow> server \<Rightarrow> server option" where
  "wrap_outputs path [] sv = Some sv"
| "wrap_outputs path (a # as) sv = do {
     f \<leftarrow> fs_files (sv_files sv) a;
     sv1 \<leftarrow> (if f_mode f AND NI_TESTBUS_FILE_WRITE \<noteq> 0 \<and> f_object_path f = None
             then do { (_, sv0) \<leftarrow> ni_testbus_file_wrap path a sv; Some sv0 } else Some sv);
     wrap_outputs path as sv1 }"

text \<open>Running a command on a host makes a process with the variables and files of the command and its parents, then
  those of the host and its parents.\<close>

definition run_command :: "cstring \<Rightarrow> nat \<Rightarrow> nat \<Rightarrow> server \<Rightarrow> cstring list answer" where
  "run_command path host cmd sv = do {
     (proc, sv1) \<leftarrow> ni_testbus_process_new host cmd sv;
     sv2 \<leftarrow> ni_testbus_process_apply_context proc cmd sv1;
     sv3 \<leftarrow> ni_testbus_process_apply_context proc host sv2;
     (process_path, sv4) \<leftarrow> ni_testbus_container_wrap path proc sv3;
     (ok, sv5) \<leftarrow> ni_testbus_process_finalize proc sv4;
     c \<leftarrow> cget proc sv5;
     sv6 \<leftarrow> (if ok then wrap_outputs process_path (fa_data (c_files c)) sv5 else Some sv5);
     (_, sv7) \<leftarrow> ni_testbus_host_signal_process_scheduled path process_path proc sv6;
     Some (Inr [process_path], sv7) }"

definition u_ni_Testbus_Host_run ::
    "(cstring \<Rightarrow> bool) \<Rightarrow> cstring \<Rightarrow> nat \<Rightarrow> ni_dbus_variant list \<Rightarrow> server \<Rightarrow> cstring list answer" where
  "u_ni_Testbus_Host_run others path a argv sv = do {
     h \<leftarrow> cget a sv;
     (if c_kind h \<noteq> Host then Some (Inl Failed, sv)
      else do {
        args \<leftarrow> string_args 1 argv;
        (case args of
           None \<Rightarrow> Some (Inl Invalid_args, sv)
         | Some ss \<Rightarrow>
             (if \<not> h_ready h then Some (Inl Agent_offline, sv)
              else do {
                arg0 \<leftarrow> arr_get ss 0;
                command_path \<leftarrow> arg0;
                (case ni_dbus_object_lookup others command_path sv of
                   No_object \<Rightarrow> Some (Inl Name_unknown, sv)
                 | Other_object \<Rightarrow> Some (Inl Failed, sv)
                 | Container_object cmd \<Rightarrow> do {
                     c \<leftarrow> cget cmd sv;
                     (if c_kind c \<noteq> Command then Some (Inl Failed, sv) else run_command path a cmd sv) }) })) }) }"

section \<open>Containers, tests, commands\<close>

text \<open>The children a class name stands for; \<open>class_of\<close> looks the class up in the schema.\<close>

datatype child_class = File_class | Testcase_class | Other_class

definition u_ni_Testbus_Container_find_child ::
    "cstring \<Rightarrow> nat \<Rightarrow> child_class option \<Rightarrow> cstring option \<Rightarrow> server \<Rightarrow> cstring option option" where
  "u_ni_Testbus_Container_find_child path a cl name sv = do {
     f \<leftarrow> (if cl = None \<or> cl = Some File_class then ni_testbus_container_get_file_by_name (Some a) name False sv else Some None);
     (case f of
        Some fa \<Rightarrow> do { file \<leftarrow> fs_files (sv_files sv) fa; Some (Some (ni_testbus_file_full_path path file)) }
      | None \<Rightarrow> do {
          t \<leftarrow> (if cl = None \<or> cl = Some Testcase_class then ni_testbus_container_get_test_by_name (Some a) name False sv else Some None);
          (case t of
             Some ta \<Rightarrow> do { c \<leftarrow> cget ta sv; Some (Some (ni_testbus_container_build_path path c)) }
           | None \<Rightarrow> Some None) }) }"

definition u_ni_Testbus_Container_getChildByName ::
    "(cstring \<Rightarrow> child_class option) \<Rightarrow> cstring \<Rightarrow> nat \<Rightarrow> ni_dbus_variant list \<Rightarrow> server \<Rightarrow> cstring list answer" where
  "u_ni_Testbus_Container_getChildByName class_of path a argv sv = do {
     args \<leftarrow> string_args 2 argv;
     (case args of
        None \<Rightarrow> Some (Inl Invalid_args, sv)
      | Some ss \<Rightarrow> do {
          class_name \<leftarrow> arr_get ss 0;
          child_name \<leftarrow> arr_get ss 1;
          let named = class_name \<noteq> None \<and> class_name \<noteq> Some [];
          let cl = (if named then class_of (the class_name) else None);
          (if named \<and> cl = None then Some (Inl Name_unknown, sv)
           else do {
             child_path \<leftarrow> u_ni_Testbus_Container_find_child path a cl child_name sv;
             Some (case child_path of None \<Rightarrow> (Inl Name_unknown, sv) | Some p \<Rightarrow> (Inr [p], sv)) }) }) }"

definition u_ni_Testbus_Container_delete :: "nat \<Rightarrow> nat \<Rightarrow> ni_dbus_variant list \<Rightarrow> server \<Rightarrow> cstring list answer" where
  "u_ni_Testbus_Container_delete n a argv sv = do {
     (if argv \<noteq> [] then Some (Inl Invalid_args, sv)
      else do {
        let (g, sv0) = ni_testbus_global_context sv;
        c \<leftarrow> cget a sv0;
        (if a = g \<or> c_parent c = None then Some (Inl Permission_denied, sv0)
         else do {
           sv1 \<leftarrow> ni_testbus_container_get a sv0;
           sv2 \<leftarrow> ni_testbus_container_destroy n a sv1;
           sv3 \<leftarrow> ni_testbus_container_put n a sv2;
           Some (Inr [], sv3) }) }) }"

definition u_ni_Testbus_Testset_createTest :: "cstring \<Rightarrow> nat \<Rightarrow> ni_dbus_variant list \<Rightarrow> server \<Rightarrow> cstring list answer" where
  "u_ni_Testbus_Testset_createTest path a argv sv = do {
     args \<leftarrow> string_args 1 argv;
     (case args of
        None \<Rightarrow> Some (Inl Invalid_args, sv)
      | Some ss \<Rightarrow> do {
          arg0 \<leftarrow> arr_get ss 0;
          name \<leftarrow> arg0;
          (if \<not> u_ni_testbus_identifier_valid name then Some (Inl Name_invalid, sv)
           else do {
             r \<leftarrow> ni_testbus_container_get_test_by_name (Some a) (Some name) False sv;
             (if r \<noteq> None then Some (Inl Name_exists, sv)
              else do {
                (t, sv1) \<leftarrow> ni_testbus_testcase_new (Some name) a sv;
                (test_path, sv2) \<leftarrow> ni_testbus_container_wrap path t sv1;
                Some (Inr [test_path], sv2) }) }) }) }"

definition u_ni_Testbus_CommandQueue_createCommand :: "cstring \<Rightarrow> nat \<Rightarrow> ni_dbus_variant list \<Rightarrow> server \<Rightarrow> cstring list answer" where
  "u_ni_Testbus_CommandQueue_createCommand path a argv sv = do {
     (if length argv \<noteq> 2 then Some (Inl Invalid_args, sv)
      else do {
        v \<leftarrow> arr_get argv 0;
        (ok, cmd_argv0) \<leftarrow> ni_dbus_variant_get_string_array v ni_string_array_init;
        (if \<not> ok then Some (Inl Invalid_args, sv)
         else do {
           dict \<leftarrow> arr_get argv 1;
           opt \<leftarrow> ni_dbus_dict_get dict ''use-terminal'';
           (cmd, sv1) \<leftarrow> ni_testbus_command_new a cmd_argv0 sv;
           _ \<leftarrow> ni_string_array_destroy cmd_argv0;
           c \<leftarrow> cget cmd sv1;
           (command_path, sv2) \<leftarrow> ni_testbus_container_wrap path cmd (cset cmd (c\<lparr>cmd_use_terminal := (opt \<noteq> None)\<rparr>) sv1);
           sv3 \<leftarrow> ni_testbus_container_set_owner cmd a sv2;
           Some (Inr [command_path], sv3) }) }) }"

section \<open>Environments and event logs\<close>

text \<open>\<open>*name\<close> of a NULL name is a fault; a NULL value is refused.\<close>

definition u_ni_Testbus_Environment_setenv :: "nat \<Rightarrow> ni_dbus_variant list \<Rightarrow> server \<Rightarrow> cstring list answer" where
  "u_ni_Testbus_Environment_setenv a argv sv = do {
     args \<leftarrow> string_args 2 argv;
     (case args of
        None \<Rightarrow> Some (Inl Invalid_args, sv)
      | Some ss \<Rightarrow> do {
          arg0 \<leftarrow> arr_get ss 0;
          name \<leftarrow> arg0;
          v \<leftarrow> arr_get ss 1;
          (if \<not> ni_testbus_env_name_valid name \<or> v = None then Some (Inl Invalid_args, sv)
           else if ni_testbus_env_name_reserved name then Some (Inl Name_invalid, sv)
           else do {
             c \<leftarrow> cget a sv;
             env \<leftarrow> ni_testbus_setenv (c_env c) name v;
             Some (Inr [], cset a (c\<lparr>c_env := env\<rparr>) sv) }) }) }"

definition u_ni_Testbus_Environment_getenv :: "nat \<Rightarrow> ni_dbus_variant list \<Rightarrow> server \<Rightarrow> cstring list answer" where
  "u_ni_Testbus_Environment_getenv a argv sv = do {
     args \<leftarrow> string_args 1 argv;
     (case args of
        None \<Rightarrow> Some (Inl Invalid_args, sv)
      | Some ss \<Rightarrow> do {
          arg0 \<leftarrow> arr_get ss 0;
          name \<leftarrow> arg0;
          (if \<not> ni_testbus_env_name_valid name then Some (Inl Invalid_args, sv)
           else do {
             c \<leftarrow> cget a sv;
             v \<leftarrow> ni_testbus_getenv (c_env c) name;
             Some (Inr [case v of None \<Rightarrow> [] | Some x \<Rightarrow> x], sv) }) }) }"

text \<open>The host's event log, made on the first write access.\<close>

definition u_ni_objectmodel_get_eventlog :: "nat \<Rightarrow> bool \<Rightarrow> server \<Rightarrow> ni_eventlog answer" where
  "u_ni_objectmodel_get_eventlog a write_access sv = do {
     c \<leftarrow> cget a sv;
     (if c_kind c \<noteq> Host then Some (Inl Failed, sv)
      else case h_eventlog c of
             Some log \<Rightarrow> Some (Inr log, sv)
           | None \<Rightarrow> (if \<not> write_access then Some (Inl Property_not_present, sv)
                     else Some (Inr ni_eventlog_new, cset a (c\<lparr>h_eventlog := Some ni_eventlog_new\<rparr>) sv))) }"

definition set_eventlog :: "nat \<Rightarrow> ni_eventlog \<Rightarrow> server \<Rightarrow> server option" where
  "set_eventlog a log sv = do { c \<leftarrow> cget a sv; Some (cset a (c\<lparr>h_eventlog := Some log\<rparr>) sv) }"

definition u_ni_Testbus_Eventlog_add :: "cstring \<Rightarrow> nat \<Rightarrow> ni_dbus_variant list \<Rightarrow> server \<Rightarrow> cstring list answer" where
  "u_ni_Testbus_Eventlog_add path a argv sv = do {
     (r, sv1) \<leftarrow> u_ni_objectmodel_get_eventlog a True sv;
     (case r of
        Inl e \<Rightarrow> Some (Inl e, sv1)
      | Inr log \<Rightarrow> do {
          _ \<leftarrow> ni_eventlog_last log;
          (if length argv \<noteq> 1 then Some (Inl Invalid_args, sv1)
           else do {
             v \<leftarrow> arr_get argv 0;
             (ok, ev) \<leftarrow> ni_testbus_event_deserialize v;
             (if \<not> ok then Some (Inl Invalid_args, sv1)
              else do {
                sv2 \<leftarrow> set_eventlog a (log\<lparr>el_events := set_last_event (\<lambda>_. ev) (ni_event_array_add (el_events log))\<rparr>) sv1;
                arg \<leftarrow> ni_dbus_variant_set_uint32 ni_dbus_variant_init (ev_sequence ev);
                Some (Inr [], send_signal path ''eventsAdded'' [arg] sv2) }) }) }) }"

definition u_ni_Testbus_Eventlog_purge :: "nat \<Rightarrow> ni_dbus_variant list \<Rightarrow> server \<Rightarrow> cstring list answer" where
  "u_ni_Testbus_Eventlog_purge a argv sv = do {
     (r, sv1) \<leftarrow> u_ni_objectmodel_get_eventlog a True sv;
     (case r of
        Inl e \<Rightarrow> Some (Inl e, sv1)
      | Inr log \<Rightarrow>
          (if length argv \<noteq> 1 then Some (Inl Invalid_args, sv1)
           else do {
             v \<leftarrow> arr_get argv 0;
             n \<leftarrow> ni_dbus_variant_get_uint32 v;
             (case n of
                None \<Rightarrow> Some (Inl Invalid_args, sv1)
              | Some upto_seq \<Rightarrow> do {
                  sv2 \<leftarrow> set_eventlog a (if upto_seq = 0 then ni_eventlog_flush log else ni_eventlog_consume_upto log upto_seq) sv1;
                  Some (Inr [], sv2) }) })) }"

section \<open>Files\<close>

text \<open>A second argument gives the mode.\<close>

definition create_file_args :: "ni_dbus_variant list \<Rightarrow> (cstring option \<times> u32) option option" where
  "create_file_args argv =
     (if argv = [] then Some None
      else do {
        v \<leftarrow> arr_get argv 0;
        r \<leftarrow> ni_dbus_variant_get_string v;
        (case r of
           None \<Rightarrow> Some None
         | Some name \<Rightarrow>
             (if length argv = 2 then do {
                m \<leftarrow> arr_get argv 1;
                rm \<leftarrow> ni_dbus_variant_get_uint32 m;
                Some (case rm of None \<Rightarrow> None | Some mode \<Rightarrow> Some (name, mode)) }
              else Some (if length argv > 2 then None else Some (name, 0)))) })"

definition u_ni_Testbus_Fileset_createFile :: "cstring \<Rightarrow> nat \<Rightarrow> ni_dbus_variant list \<Rightarrow> server \<Rightarrow> cstring list answer" where
  "u_ni_Testbus_Fileset_createFile path a argv sv = do {
     args \<leftarrow> create_file_args argv;
     (case args of
        None \<Rightarrow> Some (Inl Invalid_args, sv)
      | Some (arg0, mode) \<Rightarrow> do {
          name \<leftarrow> arg0;
          (if \<not> u_ni_testbus_identifier_valid name then Some (Inl Name_invalid, sv)
           else do {
             r \<leftarrow> u_ni_testbus_container_get_file_by_name a (Some name) sv;
             (if r \<noteq> None then Some (Inl Name_exists, sv)
              else do {
                c \<leftarrow> cget a sv;
                (f, files, fs) \<leftarrow> ni_testbus_file_new (Some name) (c_files c) mode (sv_files sv);
                (file_path, sv1) \<leftarrow> ni_testbus_file_wrap path f ((cset a (c\<lparr>c_files := files\<rparr>) sv)\<lparr>sv_files := fs\<rparr>);
                Some (Inr [file_path], sv1) }) }) }) }"

definition NI_TESTBUS_TMPFILE_SIZE_MAX :: u32 where "NI_TESTBUS_TMPFILE_SIZE_MAX = 1024 * 1024"

definition set_file :: "nat \<Rightarrow> ni_testbus_file \<Rightarrow> server \<Rightarrow> server" where
  "set_file f file sv = sv\<lparr>sv_files := put_file f file (sv_files sv)\<rparr>"

text \<open>\<open>mem\<close> is what the allocator leaves in new memory.\<close>

definition u_ni_Testbus_Tmpfile_append :: "(nat \<Rightarrow> byte) \<Rightarrow> nat \<Rightarrow> ni_dbus_variant list \<Rightarrow> server \<Rightarrow> cstring list answer" where
  "u_ni_Testbus_Tmpfile_append mem f argv sv = do {
     file \<leftarrow> fs_files (sv_files sv) f;
     (if length argv \<noteq> 1 then Some (Inl Invalid_args, sv)
      else do {
        v \<leftarrow> arr_get argv 0;
        (if \<not> ni_dbus_variant_is_byte_array v then Some (Inl Invalid_args, sv)
         else do {
           let cnt = (of_nat (v_len v) :: u32);
           let buf = (case f_data file of Some b \<Rightarrow> b | None \<Rightarrow> ni_buffer_new (if cnt < 4096 then ucast cnt else 0));
           let file1 = file\<lparr>f_data := Some buf\<rparr>;
           (if NI_TESTBUS_TMPFILE_SIZE_MAX < cnt \<or> NI_TESTBUS_TMPFILE_SIZE_MAX < cnt + ni_buffer_count buf
            then Some (Inl Bad_size, set_file f file1 sv)
            else do {
              (ok, buf1) \<leftarrow> ni_buffer_ensure_tailroom mem buf cnt;
              (if \<not> ok then Some (Inl Bad_size, set_file f (file1\<lparr>f_data := Some buf1\<rparr>) sv)
               else do {
                 block \<leftarrow> (if v_len v = 0 then Some [] else byte_array_value v);
                 bytes \<leftarrow> mem_read block 0 (v_len v);
                 (_, buf2) \<leftarrow> ni_buffer_put buf1 (Some bytes) (ucast cnt);
                 Some (Inr [], set_file f (file1\<lparr>f_data := Some buf2, f_size := ni_buffer_count buf2, f_iseq := f_iseq file + 1\<rparr>) sv) }) }) }) }) }"

text \<open>The bytes of the reply.\<close>

definition u_ni_Testbus_Tmpfile_retrieve :: "nat \<Rightarrow> ni_dbus_variant list \<Rightarrow> server \<Rightarrow> ni_dbus_variant answer" where
  "u_ni_Testbus_Tmpfile_retrieve f argv sv = do {
     file \<leftarrow> fs_files (sv_files sv) f;
     (if length argv \<noteq> 2 then Some (Inl Invalid_args, sv)
      else do {
        v0 \<leftarrow> arr_get argv 0;
        r0 \<leftarrow> ni_dbus_variant_get_uint64 v0;
        v1 \<leftarrow> arr_get argv 1;
        r1 \<leftarrow> (if r0 = None then Some None else ni_dbus_variant_get_uint32 v1);
        (case (r0, r1) of
           (Some offset, Some cnt) \<Rightarrow>
             (if 65536 < cnt then Some (Inl Invalid_args, sv)
              else do {
                res \<leftarrow> ni_dbus_variant_init_byte_array ni_dbus_variant_init;
                (case f_data file of
                   None \<Rightarrow> Some (Inr res, sv)
                 | Some buf \<Rightarrow> do {
                     let sz = (ucast (ni_buffer_count buf) :: u64);
                     (if offset < sz then do {
                        let n = (if sz - offset < ucast cnt then ucast (sz - offset) else cnt);
                        bytes \<leftarrow> mem_read (buf_base buf) (ni_buffer_head buf + unat offset) (unat n);
                        res1 \<leftarrow> ni_dbus_variant_set_byte_array res bytes;
                        Some (Inr res1, sv) }
                      else Some (Inr res, sv)) }) })
         | _ \<Rightarrow> Some (Inl Invalid_args, sv)) }) }"

section \<open>Processes\<close>

definition output_size :: "nat \<Rightarrow> cstring \<Rightarrow> server \<Rightarrow> u32 option option" where
  "output_size a name sv = do {
     r \<leftarrow> ni_testbus_container_get_file_by_name (Some a) (Some name) False sv;
     (case r of None \<Rightarrow> Some None | Some f \<Rightarrow> do { file \<leftarrow> fs_files (sv_files sv) f; Some (Some (f_size file)) }) }"

text \<open>The agent reports how a process ended; everybody is told.\<close>

definition u_ni_Testbus_Process_setExitInfo :: "cstring \<Rightarrow> nat \<Rightarrow> ni_dbus_variant list \<Rightarrow> server \<Rightarrow> cstring list answer" where
  "u_ni_Testbus_Process_setExitInfo path a argv sv = do {
     c \<leftarrow> cget a sv;
     (if c_kind c \<noteq> Process then Some (Inl Failed, sv)
      else if length argv \<noteq> 1 then Some (Inl Invalid_args, sv)
      else do {
        v \<leftarrow> arr_get argv 0;
        xi \<leftarrow> ni_testbus_process_exit_info_deserialize v;
        out \<leftarrow> output_size a ''stdout'' sv;
        err \<leftarrow> output_size a ''stderr'' sv;
        let xi1 = (case out of None \<Rightarrow> xi | Some n \<Rightarrow> xi\<lparr>xi_stdout_bytes := n\<rparr>);
        let xi2 = (case err of None \<Rightarrow> xi1 | Some n \<Rightarrow> xi1\<lparr>xi_stderr_bytes := n\<rparr>);
        let sv1 = (case p_process c of None \<Rightarrow> sv
                   | Some pi \<Rightarrow> cset a (c\<lparr>p_process := Some (ni_process_set_exit_info xi2 pi)\<rparr>) sv);
        (_, dict) \<leftarrow> ni_testbus_process_exit_info_serialize xi2 ni_dbus_variant_init;
        Some (Inr [], send_signal path ''processExited'' [dict] sv1) }) }"

definition u_ni_testbus_process_get_exit_info :: "nat \<Rightarrow> server \<Rightarrow> ni_dbus_variant answer" where
  "u_ni_testbus_process_get_exit_info a sv = do {
     c \<leftarrow> cget a sv;
     (if c_kind c \<noteq> Process then Some (Inl Failed, sv)
      else case p_process c of
             None \<Rightarrow> Some (Inl Property_not_present, sv)
           | Some pi \<Rightarrow>
               (if xi_how (pi_exit_info pi) = - 1 then Some (Inl Property_not_present, sv)
                else do {
                  (_, dict) \<leftarrow> ni_testbus_process_exit_info_serialize (pi_exit_info pi) ni_dbus_variant_init;
                  Some (Inr dict, sv) })) }"

end
