(* ===== verification/ServerFiles.thy ===== *)
theory ServerFiles
  imports ServerBus
begin

text \<open>
  Files that clients and agents fill through the bus and read back in pieces (server/dbus-fileset.c): what was
  appended comes back, and a piece that would make the file larger than a mebibyte is refused.
\<close>

section \<open>The contents of a file\<close>

definition file_holds :: "server \<Rightarrow> nat \<Rightarrow> byte list \<Rightarrow> bool" where
  "file_holds sv f data \<longleftrightarrow> (\<exists>fi. fs_files (sv_files sv) f = Some fi \<and> length data \<le> 2 ^ 20 \<and>
     (case f_data fi of None \<Rightarrow> data = []
      | Some b \<Rightarrow> buf_wf b \<and> buf_bytes b = data \<and> buf_head b = 0 \<and> unat (buf_size b) \<le> 4096 + length data))"

text \<open>What a byte array argument of a message looks like: shorter than the largest message.\<close>

definition byte_arg :: "ni_dbus_variant \<Rightarrow> bool" where
  "byte_arg v \<longleftrightarrow> bytes_wf v \<and> v_len v < 2 ^ 32"

lemma byte_arg_read:
  assumes "byte_arg v"
  obtains block where "byte_array_value v = Some block" "mem_read block 0 (v_len v) = Some (bytes_of v)" "length (bytes_of v) = v_len v"
  using assms fits_le by (fastforce simp: byte_arg_def bytes_wf_def bytes_of_def mem_read_in)

lemma new_file_buffer:
  fixes n :: u32
  shows "buf_wf (ni_buffer_new (if n < 4096 then ucast n else 0)) \<and> buf_bytes (ni_buffer_new (if n < 4096 then ucast n else 0)) = []
     \<and> buf_head (ni_buffer_new (if n < 4096 then ucast n else 0)) = 0 \<and> unat (buf_size (ni_buffer_new (if n < 4096 then ucast n else 0))) \<le> 4096"
  using unat_u32_u64 [of n] by (simp add: ni_buffer_new_wf ni_buffer_new_bytes) (simp add: ni_buffer_new_def ni_buffer_init_def word_less_nat_alt)

lemma buffer_count_small: "buf_wf b \<Longrightarrow> length (buf_bytes b) \<le> 2 ^ 20 \<Longrightarrow> unat (ni_buffer_count b) = length (buf_bytes b)"
  using ni_buffer_count_wf [of b] by simp

text \<open>Room is made for the piece and the piece put into it.  The block grows by no more than the piece.\<close>

lemma grow_and_put:
  assumes "buf_wf b" "buf_head b = 0" "unat (buf_size b) \<le> 4096 + length (buf_bytes b)" "length (buf_bytes b) \<le> 2 ^ 20"
    "length bs \<le> 2 ^ 20" "unat n = length bs"
  shows "\<exists>b1 b2. ni_buffer_ensure_tailroom mem b n = Some (True, b1) \<and> ni_buffer_put b1 (Some bs) (ucast n) = Some (0, b2)
     \<and> buf_wf b2 \<and> buf_bytes b2 = buf_bytes b @ bs \<and> buf_head b2 = 0 \<and> unat (buf_size b2) \<le> 4096 + length (buf_bytes b2)"
proof -
  have nw: "unat (buf_size b) + unat n < 2 ^ 64" using assms(3-6) by simp
  obtain b1 where b1: "ni_buffer_ensure_tailroom mem b n = Some (True, b1)" "buf_wf b1" "buf_bytes b1 = buf_bytes b"
      "buf_head b1 = buf_head b" "buf_tail b1 = buf_tail b" "unat (buf_tail b) + unat n \<le> unat (buf_size b1)"
    using ni_buffer_ensure_tailroom_ok [OF assms(1) nw, of mem] by blast
  have un: "unat (ucast n :: u64) = length bs" using unat_u32_u64 [of n] assms(6) by simp
  have room: "unat (buf_tail b1) + unat (ucast n :: u64) \<le> unat (buf_size b1)" using b1(5,6) un assms(6) by simp
  obtain b2 where b2: "ni_buffer_put b1 (Some bs) (ucast n) = Some (0, b2)" "buf_wf b2" "buf_bytes b2 = buf_bytes b1 @ bs"
      "buf_head b2 = buf_head b1" "buf_size b2 = buf_size b1"
    using ni_buffer_put_ok [OF b1(2) _ room, of bs] un by auto
  have sz: "unat (buf_size b1) \<le> unat (buf_size b) + unat n"
  proof (cases "n \<le> ni_buffer_tailroom b")
    case True
    then show ?thesis using b1(1) by (simp add: ni_buffer_ensure_tailroom_def)
  next
    case False
    have "buf_size b1 = buf_size b + ucast n"
      using b1(1) False by (auto simp: ni_buffer_ensure_tailroom_def Let_def split: bind_splits)
    then show ?thesis using unat_add_no_wrap [of "buf_size b" "ucast n"] nw unat_u32_u64 [of n] by simp
  qed
  show ?thesis using b1 b2 assms(2,3,6) sz by (intro exI [of _ b1] exI [of _ b2]) simp
qed

lemma tmpfile_append_ok:
  assumes "file_holds sv f data" "byte_arg v" "length data + v_len v \<le> 2 ^ 20"
  shows "\<exists>sv'. u_ni_Testbus_Tmpfile_append mem f [v] sv = Some (Inr [], sv') \<and> file_holds sv' f (data @ bytes_of v)"
proof -
  obtain fi where fi: "fs_files (sv_files sv) f = Some fi" "length data \<le> 2 ^ 20"
      "case f_data fi of None \<Rightarrow> data = []
       | Some b \<Rightarrow> buf_wf b \<and> buf_bytes b = data \<and> buf_head b = 0 \<and> unat (buf_size b) \<le> 4096 + length data"
    using assms(1) by (auto simp: file_holds_def)
  let ?n = "of_nat (v_len v) :: u32"
  define b where "b = (case f_data fi of Some b \<Rightarrow> b | None \<Rightarrow> ni_buffer_new (if ?n < 4096 then ucast ?n else 0))"
  have b: "buf_wf b" "buf_bytes b = data" "buf_head b = 0" "unat (buf_size b) \<le> 4096 + length data"
    using fi(3) new_file_buffer [of ?n] unfolding b_def by (auto split: option.splits)
  obtain block where block: "byte_array_value v = Some block" "mem_read block 0 (v_len v) = Some (bytes_of v)" "length (bytes_of v) = v_len v"
    using byte_arg_read [OF assms(2)] by blast
  have un: "unat ?n = length (bytes_of v)" using assms(3) block(3) by (simp add: unat_of_nat take_bit_nat_eq_self)
  obtain b1 b2 where b2: "ni_buffer_ensure_tailroom mem b ?n = Some (True, b1)" "ni_buffer_put b1 (Some (bytes_of v)) (ucast ?n) = Some (0, b2)"
      "buf_wf b2" "buf_bytes b2 = data @ bytes_of v" "buf_head b2 = 0" "unat (buf_size b2) \<le> 4096 + length (buf_bytes b2)"
    using grow_and_put [of b "bytes_of v" ?n mem] b fi(2) assms(3) un block(3) by auto
  have fits: "\<not> NI_TESTBUS_TMPFILE_SIZE_MAX < ?n" "\<not> NI_TESTBUS_TMPFILE_SIZE_MAX < ?n + ni_buffer_count b"
    using assms(3) un block(3) buffer_count_small [OF b(1)] b(2) fi(2)
    by (simp_all add: NI_TESTBUS_TMPFILE_SIZE_MAX_def word_less_nat_alt unat_word_ariths)
  have arr: "ni_dbus_variant_is_byte_array v" using assms(2) by (simp add: byte_arg_def bytes_wf_def ni_dbus_variant_is_byte_array_def)
  let ?file = "fi\<lparr>f_data := Some b2, f_size := ni_buffer_count b2, f_iseq := f_iseq fi + 1\<rparr>"
  have rd: "(if v_len v = 0 then Some [] else byte_array_value v) = Some (if v_len v = 0 then [] else block)" using block(1) by simp
  have rd2: "mem_read (if v_len v = 0 then [] else block) 0 (v_len v) = Some (bytes_of v)" using block by (auto simp: mem_read_in)
  have "u_ni_Testbus_Tmpfile_append mem f [v] sv = Some (Inr [], set_file f ?file sv)"
    using fi(1) arr fits b2(1,2) rd rd2 by (simp add: u_ni_Testbus_Tmpfile_append_def arr_get_def Let_def flip: b_def)
  moreover have "file_holds (set_file f ?file sv) f (data @ bytes_of v)"
    using b2 assms(3) block(3) by (simp add: file_holds_def set_file_def put_file_def)
  ultimately show ?thesis by blast
qed

lemma tmpfile_append_refused:
  assumes "file_holds sv f data" "byte_arg v" "2 ^ 20 < length data + v_len v"
  shows "\<exists>sv'. u_ni_Testbus_Tmpfile_append mem f [v] sv = Some (Inl Bad_size, sv') \<and> file_holds sv' f data"
proof -
  obtain fi where fi: "fs_files (sv_files sv) f = Some fi" "length data \<le> 2 ^ 20"
      "case f_data fi of None \<Rightarrow> data = []
       | Some b \<Rightarrow> buf_wf b \<and> buf_bytes b = data \<and> buf_head b = 0 \<and> unat (buf_size b) \<le> 4096 + length data"
    using assms(1) by (auto simp: file_holds_def)
  let ?n = "of_nat (v_len v) :: u32"
  define b where "b = (case f_data fi of Some b \<Rightarrow> b | None \<Rightarrow> ni_buffer_new (if ?n < 4096 then ucast ?n else 0))"
  have b: "buf_wf b" "buf_bytes b = data" "buf_head b = 0" "unat (buf_size b) \<le> 4096 + length data"
    using fi(3) new_file_buffer [of ?n] unfolding b_def by (auto split: option.splits)
  have un: "unat ?n = v_len v" using assms(2) by (simp add: byte_arg_def unat_of_nat take_bit_nat_eq_self)
  have small: "2 ^ 20 < v_len v \<or> v_len v + length data < 2 ^ 32" using fi(2) by (cases "2 ^ 20 < v_len v") simp_all
  have big: "NI_TESTBUS_TMPFILE_SIZE_MAX < ?n \<or> NI_TESTBUS_TMPFILE_SIZE_MAX < ?n + ni_buffer_count b"
    using small assms(3) un buffer_count_small [OF b(1)] b(2) fi(2)
    by (cases "2 ^ 20 < v_len v") (simp_all add: NI_TESTBUS_TMPFILE_SIZE_MAX_def word_less_nat_alt unat_word_ariths)
  have arr: "ni_dbus_variant_is_byte_array v" using assms(2) by (simp add: byte_arg_def bytes_wf_def ni_dbus_variant_is_byte_array_def)
  have "u_ni_Testbus_Tmpfile_append mem f [v] sv = Some (Inl Bad_size, set_file f (fi\<lparr>f_data := Some b\<rparr>) sv)"
    using fi(1) arr big by (simp add: u_ni_Testbus_Tmpfile_append_def arr_get_def Let_def flip: b_def)
  moreover have "file_holds (set_file f (fi\<lparr>f_data := Some b\<rparr>) sv) f data"
    using b fi(2) by (simp add: file_holds_def set_file_def put_file_def)
  ultimately show ?thesis by blast
qed

lemma empty_bytes_can_free: "can_free (Variant DBUS_TYPE_ARRAY DBUS_TYPE_BYTE None 0 (Raw 0))"
  by code_simp

lemma init_byte_array_fresh:
  "ni_dbus_variant_init_byte_array ni_dbus_variant_init = Some (Variant DBUS_TYPE_ARRAY DBUS_TYPE_BYTE None 0 (Raw 0))"
  by code_simp

lemma set_bytes_read:
  "\<exists>res. ni_dbus_variant_set_byte_array (Variant DBUS_TYPE_ARRAY DBUS_TYPE_BYTE None 0 (Raw 0)) bs = Some res
     \<and> ni_dbus_variant_is_byte_array res \<and> bytes_of res = bs"
  using set_byte_array_ok [OF empty_bytes_can_free, of bs]
  by (fastforce simp: bytes_of_def byte_array_value_def ni_dbus_variant_is_byte_array_def u_ni_dbus_is_array_def)

lemma tmpfile_retrieve_ok:
  assumes "file_holds sv f data" "ni_dbus_variant_get_uint64 ov = Some (Some off)" "ni_dbus_variant_get_uint32 cv = Some (Some n)" "n \<le> 65536"
  shows "\<exists>res. u_ni_Testbus_Tmpfile_retrieve f [ov, cv] sv = Some (Inr res, sv) \<and> ni_dbus_variant_is_byte_array res
     \<and> bytes_of res = take (unat n) (drop (unat off) data)"
proof -
  obtain fi where fi: "fs_files (sv_files sv) f = Some fi" "length data \<le> 2 ^ 20"
      "case f_data fi of None \<Rightarrow> data = []
       | Some b \<Rightarrow> buf_wf b \<and> buf_bytes b = data \<and> buf_head b = 0 \<and> unat (buf_size b) \<le> 4096 + length data"
    using assms(1) by (auto simp: file_holds_def)
  have ng: "\<not> 65536 < n" using assms(4) by simp
  have ini: "ni_dbus_variant_is_byte_array (Variant DBUS_TYPE_ARRAY DBUS_TYPE_BYTE None 0 (Raw 0))"
      "bytes_of (Variant DBUS_TYPE_ARRAY DBUS_TYPE_BYTE None 0 (Raw 0)) = []"
    by (simp_all add: ni_dbus_variant_is_byte_array_def u_ni_dbus_is_array_def bytes_of_def)
  show ?thesis
  proof (cases "f_data fi")
    case None
    then have "data = []" using fi(3) by simp
    then show ?thesis using fi(1) None assms(2,3) ng ini
      by (simp add: u_ni_Testbus_Tmpfile_retrieve_def arr_get_def init_byte_array_fresh)
  next
    case (Some b)
    then have b: "buf_wf b" "buf_bytes b = data" "buf_head b = 0" using fi(3) by simp_all
    let ?sz = "ucast (ni_buffer_count b) :: u64"
    have sz: "unat ?sz = length data" using buffer_count_small [OF b(1)] b(2) fi(2) unat_u32_u64 [of "ni_buffer_count b"] by simp
    show ?thesis
    proof (cases "off < ?sz")
      case False
      then have "drop (unat off) data = []" using sz by (simp add: word_less_nat_alt)
      then show ?thesis using fi(1) Some assms(2,3) ng ini False
        by (simp add: u_ni_Testbus_Tmpfile_retrieve_def arr_get_def init_byte_array_fresh Let_def)
    next
      case True
      then have lt: "unat off < length data" using sz by (simp add: word_less_nat_alt)
      define k where "k = (if ?sz - off < ucast n then ucast (?sz - off) else n)"
      have ud: "unat (?sz - off) = length data - unat off" using unat_sub [of off ?sz] True sz by simp
      have un: "unat (ucast n :: u64) = unat n" by (rule unat_u32_u64)
      have uc: "unat (ucast (?sz - off) :: u32) = length data - unat off"
        using ud fi(2) by (simp add: unsigned_ucast_eq take_bit_nat_eq_self)
      have k: "unat k = min (unat n) (length data - unat off)"
        using ud un uc by (simp add: k_def word_less_nat_alt)
      have base: "mem_read (buf_base b) (ni_buffer_head b + unat off) (unat k) = Some (take (unat n) (drop (unat off) data))"
      proof -
        have "data = take (unat (buf_tail b)) (buf_base b)" using b(2,3) by (simp add: buf_bytes_def)
        moreover have "unat (buf_tail b) = length data" using length_buf_bytes [OF b(1)] b(2,3) by simp
        moreover have "unat (buf_tail b) \<le> length (buf_base b)" using buf_wfD [OF b(1)] by simp
        ultimately have tail: "drop (unat off) data = take (length data - unat off) (drop (unat off) (buf_base b))"
            and len: "length data \<le> length (buf_base b)" by (metis drop_take, simp)
        have "take (unat k) (drop (unat off) (buf_base b)) = take (unat n) (drop (unat off) data)"
          unfolding tail take_take k ..
        moreover have "unat off + unat k \<le> length (buf_base b)" using k lt len by simp
        ultimately show ?thesis using b(3) by (simp add: mem_read_in ni_buffer_head_def)
      qed
      obtain res where res: "ni_dbus_variant_set_byte_array (Variant DBUS_TYPE_ARRAY DBUS_TYPE_BYTE None 0 (Raw 0)) (take (unat n) (drop (unat off) data)) = Some res"
          "ni_dbus_variant_is_byte_array res" "bytes_of res = take (unat n) (drop (unat off) data)"
        using set_bytes_read by blast
      have "u_ni_Testbus_Tmpfile_retrieve f [ov, cv] sv = Some (Inr res, sv)"
        using fi(1) Some assms(2,3) ng True base res(1)
        by (simp add: u_ni_Testbus_Tmpfile_retrieve_def arr_get_def init_byte_array_fresh Let_def flip: k_def)
      then show ?thesis using res by blast
    qed
  qed
qed

section \<open>Uploads and downloads\<close>

text \<open>A client sends the pieces one after the other and goes on when one is refused.\<close>

fun upload :: "(nat \<Rightarrow> byte) \<Rightarrow> nat \<Rightarrow> ni_dbus_variant list \<Rightarrow> server \<Rightarrow> ((dbus_error + cstring list) list \<times> server) option" where
  "upload mem f [] sv = Some ([], sv)"
| "upload mem f (v # vs) sv = do {
     (r, sv1) \<leftarrow> u_ni_Testbus_Tmpfile_append mem f [v] sv;
     (rs, sv2) \<leftarrow> upload mem f vs sv1;
     Some (r # rs, sv2) }"

fun accepted :: "byte list \<Rightarrow> byte list list \<Rightarrow> (dbus_error + cstring list) list \<times> byte list" where
  "accepted data [] = ([], data)"
| "accepted data (p # ps) =
     (if length data + length p \<le> 2 ^ 20 then (Inr [] # fst (accepted (data @ p) ps), snd (accepted (data @ p) ps))
      else (Inl Bad_size # fst (accepted data ps), snd (accepted data ps)))"

lemma upload_ok:
  assumes "file_holds sv f data" "\<forall>v\<in>set vs. byte_arg v"
  shows "\<exists>sv'. upload mem f vs sv = Some (fst (accepted data (map bytes_of vs)), sv') \<and> file_holds sv' f (snd (accepted data (map bytes_of vs)))"
  using assms
proof (induction vs arbitrary: sv data)
  case (Cons v vs)
  then have v: "byte_arg v" "\<forall>v\<in>set vs. byte_arg v" by simp_all
  have len: "length (bytes_of v) = v_len v" using byte_arg_read [OF v(1)] by blast
  show ?case
  proof (cases "length data + length (bytes_of v) \<le> 2 ^ 20")
    case True
    obtain sv1 where sv1: "u_ni_Testbus_Tmpfile_append mem f [v] sv = Some (Inr [], sv1)" "file_holds sv1 f (data @ bytes_of v)"
      using tmpfile_append_ok [OF Cons.prems(1) v(1), of mem] True len by auto
    show ?thesis using Cons.IH [OF sv1(2) v(2)] sv1(1) True by auto
  next
    case False
    obtain sv1 where sv1: "u_ni_Testbus_Tmpfile_append mem f [v] sv = Some (Inl Bad_size, sv1)" "file_holds sv1 f data"
      using tmpfile_append_refused [OF Cons.prems(1) v(1), of mem] False len by auto
    show ?thesis using Cons.IH [OF sv1(2) v(2)] sv1(1) False by auto
  qed
qed simp

text \<open>C37: Pieces appended to a new file through the bus are stored in order; one that would make the file larger
  than a mebibyte is refused as a whole with \<open>Bad_size\<close> and changes nothing.  Whatever the memory the buffer grows
  into held before, any range of up to 64 KiB that is retrieved afterwards is that range of the stored bytes, cut
  at the end of the file.\<close>

theorem tmpfile_upload_download:
  assumes "fs_files (sv_files sv) f = Some fi" "f_data fi = None" "\<forall>v\<in>set vs. byte_arg v"
  shows "\<exists>sv'. upload mem f vs sv = Some (fst (accepted [] (map bytes_of vs)), sv') \<and>
     (\<forall>ov cv off n. ni_dbus_variant_get_uint64 ov = Some (Some off) \<and> ni_dbus_variant_get_uint32 cv = Some (Some n) \<and> n \<le> 65536 \<longrightarrow>
        (\<exists>res. u_ni_Testbus_Tmpfile_retrieve f [ov, cv] sv' = Some (Inr res, sv') \<and> ni_dbus_variant_is_byte_array res
          \<and> bytes_of res = take (unat n) (drop (unat off) (snd (accepted [] (map bytes_of vs))))))"
proof -
  have "file_holds sv f []" using assms(1,2) by (simp add: file_holds_def)
  then obtain sv' where "upload mem f vs sv = Some (fst (accepted [] (map bytes_of vs)), sv')"
      "file_holds sv' f (snd (accepted [] (map bytes_of vs)))"
    using upload_ok [of sv f "[]" vs mem] assms(3) by blast
  then show ?thesis using tmpfile_retrieve_ok [of sv' f "snd (accepted [] (map bytes_of vs))"]
    by (intro exI [of _ sv']) simp
qed

text \<open>A server with one empty file.\<close>

definition file_server :: server where
  "file_server = \<lparr>sv_containers = (\<lambda>_. None), sv_next = 0, sv_global = None,
     sv_files = no_files\<lparr>fs_files := [0 \<mapsto> one_file\<lparr>f_data := None\<rparr>]\<rparr>, sv_names = [], sv_signals = [], sv_processes_freed = []\<rparr>"

definition byte_piece :: "byte list \<Rightarrow> ni_dbus_variant" where
  "byte_piece bs = Variant DBUS_TYPE_ARRAY DBUS_TYPE_BYTE None (length bs) (ByteArr (bs @ replicate 64 0))"

lemma byte_piece_ok: "length bs < 1000 \<Longrightarrow> byte_arg (byte_piece bs) \<and> bytes_of (byte_piece bs) = bs"
  by (simp add: byte_arg_def byte_piece_def bytes_wf_def bytes_of_def byte_array_value_def u_ni_dbus_is_array_def fits_def NI_DBUS_ARRAY_ALLOCATION_def)

lemma tmpfile_upload_download_witness:
  "\<exists>sv'. upload (\<lambda>_. 0xaa) 0 [byte_piece [1, 2, 3], byte_piece [], byte_piece [4, 5]] file_server = Some ([Inr [], Inr [], Inr []], sv')
     \<and> (\<exists>res. u_ni_Testbus_Tmpfile_retrieve 0
            [Variant DBUS_TYPE_UINT64 DBUS_TYPE_INVALID None 0 (Raw 2), Variant DBUS_TYPE_UINT32 DBUS_TYPE_INVALID None 0 (Raw 16)] sv' = Some (Inr res, sv')
          \<and> bytes_of res = [3, 4, 5])"
proof -
  have pieces: "\<forall>v\<in>set [byte_piece [1, 2, 3], byte_piece [], byte_piece [4, 5]]. byte_arg v" using byte_piece_ok by simp
  have bytes: "map bytes_of [byte_piece [1, 2, 3], byte_piece [], byte_piece [4, 5]] = [[1, 2, 3], [], [4, 5]]" using byte_piece_ok by simp
  have new: "fs_files (sv_files file_server) 0 = Some (one_file\<lparr>f_data := None\<rparr>)" by (simp add: file_server_def)
  have off: "ni_dbus_variant_get_uint64 (Variant DBUS_TYPE_UINT64 DBUS_TYPE_INVALID None 0 (Raw 2)) = Some (Some 2)" by code_simp
  have len: "ni_dbus_variant_get_uint32 (Variant DBUS_TYPE_UINT32 DBUS_TYPE_INVALID None 0 (Raw 16)) = Some (Some 16)" by code_simp
  show ?thesis
    using tmpfile_upload_download [OF new _ pieces, of "\<lambda>_. 0xaa", unfolded bytes] off len by fastforce
qed

end
