(* ===== verification/ServerChain.thy ===== *)
theory ServerChain
  imports ServerBus
begin

text \<open>
  What a process gets from the containers above it (server/container.c): of the variables and files with the
  same name the ones of the nearest container count, and a host or a file is found in the nearest container
  that has one of the name.
\<close>

section \<open>The chain of parents\<close>

fun ancestors :: "server \<Rightarrow> nat option \<Rightarrow> nat list \<Rightarrow> bool" where
  "ancestors sv p [] \<longleftrightarrow> p = None"
| "ancestors sv p (a # as) \<longleftrightarrow> p = Some a \<and> (\<exists>c. cget a sv = Some c \<and> ancestors sv (c_parent c) as)"

lemma cget_cset [simp]: "cget a (cset b c sv) = (if a = b then Some c else cget a sv)"
  by (simp add: cget_def cset_def)

lemma cget_other [simp]:
  "cget a (sv\<lparr>sv_files := fs\<rparr>) = cget a sv" "cget a (sv\<lparr>sv_signals := ss\<rparr>) = cget a sv" "cget a (sv\<lparr>sv_names := ns\<rparr>) = cget a sv"
  "cget a (sv\<lparr>sv_next := n\<rparr>) = cget a sv" "cget a (sv\<lparr>sv_global := g\<rparr>) = cget a sv" "cget a (sv\<lparr>sv_processes_freed := ps\<rparr>) = cget a sv"
  by (simp_all add: cget_def)

lemma sv_files_cset [simp]: "sv_files (cset a c sv) = sv_files sv"
  by (simp add: cset_def)

lemma search_up_none [simp]: "search_up globally f None sv = Some None"
  by (subst search_up.simps) simp

lemma search_up_some:
  "search_up globally f (Some a) sv = do {
     c \<leftarrow> cget a sv;
     r \<leftarrow> f c;
     (if r \<noteq> None \<or> \<not> globally then Some r else search_up globally f (c_parent c) sv) }"
  by (subst search_up.simps) simp

section \<open>Environments\<close>

definition has_vars :: "server \<Rightarrow> nat \<Rightarrow> bool" where
  "has_vars sv a \<longleftrightarrow> (\<exists>c. cget a sv = Some c \<and> c_kind c \<noteq> Monitor \<and> va_count (env_vars (c_env c)) \<noteq> 0)"

definition env_at :: "server \<Rightarrow> nat \<Rightarrow> cstring \<rightharpoonup> cstring option" where
  "env_at sv a = (case cget a sv of Some c \<Rightarrow> (if c_kind c \<noteq> Monitor then env_map (c_env c) else Map.empty) | None \<Rightarrow> Map.empty)"

lemma env_chain_eq: "ancestors sv p as \<Longrightarrow> env_chain p sv = Some (filter (has_vars sv) as)"
proof (induction as arbitrary: p)
  case Nil
  then show ?case by (subst env_chain.simps) simp
next
  case (Cons a as)
  then obtain c where "p = Some a" "cget a sv = Some c" "ancestors sv (c_parent c) as" by auto
  moreover from this have "has_vars sv a \<longleftrightarrow> c_kind c \<noteq> Monitor \<and> va_count (env_vars (c_env c)) \<noteq> 0" by (simp add: has_vars_def)
  ultimately show ?case using Cons.IH [of "c_parent c"] by (subst env_chain.simps) simp
qed

lemma empty_env_map: "env_wf env \<Longrightarrow> va_count (env_vars env) = 0 \<Longrightarrow> env_map env = Map.empty"
  by (simp add: env_map_def va_items_def var_map_def fun_eq_iff)

lemma first_binding_filter:
  "(\<And>x. x \<in> set xs \<Longrightarrow> \<not> P x \<Longrightarrow> f x = Map.empty) \<Longrightarrow> first_binding (map f (filter P xs)) = first_binding (map f xs)"
  by (induction xs) auto

text \<open>Two states that differ in the order of the variables in some environments.\<close>

definition c_view :: "container \<Rightarrow> container \<times> (cstring \<rightharpoonup> cstring option) \<times> bool" where
  "c_view c = (c\<lparr>c_env := ni_testbus_env_init\<rparr>, env_map (c_env c), env_wf (c_env c))"

definition same_but_order :: "server \<Rightarrow> server \<Rightarrow> bool" where
  "same_but_order sv sv' \<longleftrightarrow> (\<forall>x. map_option c_view (cget x sv') = map_option c_view (cget x sv)) \<and> sv' = sv\<lparr>sv_containers := sv_containers sv'\<rparr>"

lemma same_but_order_refl [simp]: "same_but_order sv sv"
  by (simp add: same_but_order_def)

lemma same_but_order_trans: "same_but_order sv sv1 \<Longrightarrow> same_but_order sv1 sv2 \<Longrightarrow> same_but_order sv sv2"
  by (cases sv; cases sv1; cases sv2) (simp add: same_but_order_def)

lemma same_but_order_cset:
  assumes "cget a sv = Some c" "env_map e = env_map (c_env c)" "env_wf e" "env_wf (c_env c)"
  shows "same_but_order sv (cset a (c\<lparr>c_env := e\<rparr>) sv)"
  using assms by (cases sv) (auto simp: same_but_order_def c_view_def cset_def cget_def)

lemma c_view_eq:
  assumes "c_view c' = c_view c"
  shows "c' = c\<lparr>c_env := c_env c'\<rparr>" "c_parent c' = c_parent c" "c_kind c' = c_kind c" "c_files c' = c_files c"
    "env_map (c_env c') = env_map (c_env c)" "env_wf (c_env c') = env_wf (c_env c)"
proof -
  have e: "c'\<lparr>c_env := ni_testbus_env_init\<rparr> = c\<lparr>c_env := ni_testbus_env_init\<rparr>" using assms by (simp add: c_view_def)
  have "c' = (c'\<lparr>c_env := ni_testbus_env_init\<rparr>)\<lparr>c_env := c_env c'\<rparr>" by simp
  then show "c' = c\<lparr>c_env := c_env c'\<rparr>" unfolding e by simp
  show "c_parent c' = c_parent c" "c_kind c' = c_kind c" "c_files c' = c_files c"
    using arg_cong [OF e, of c_parent] arg_cong [OF e, of c_kind] arg_cong [OF e, of c_files] by simp_all
  show "env_map (c_env c') = env_map (c_env c)" "env_wf (c_env c') = env_wf (c_env c)" using assms by (simp_all add: c_view_def)
qed

lemma same_but_order_cget:
  assumes "same_but_order sv sv'" "cget a sv = Some c"
  shows "\<exists>c'. cget a sv' = Some c' \<and> c' = c\<lparr>c_env := c_env c'\<rparr> \<and> env_map (c_env c') = env_map (c_env c) \<and> env_wf (c_env c') = env_wf (c_env c)"
proof -
  have "map_option c_view (cget a sv') = Some (c_view c)" using assms by (simp add: same_but_order_def)
  then obtain c' where "cget a sv' = Some c'" "c_view c' = c_view c" by auto
  then show ?thesis using c_view_eq [of c' c] by blast
qed

lemma set_envs_ok:
  assumes "list_all2 (\<lambda>a e. \<exists>c. cget a sv = Some c \<and> env_wf (c_env c) \<and> env_map e = env_map (c_env c) \<and> env_wf e) as es"
  shows "\<exists>sv'. set_envs as es sv = Some sv' \<and> same_but_order sv sv'"
  using assms
proof (induction as arbitrary: es sv)
  case (Cons a as)
  obtain e es' where es: "es = e # es'" using Cons.prems by (cases es) auto
  obtain c where c: "cget a sv = Some c" "env_wf (c_env c)" "env_map e = env_map (c_env c)" "env_wf e"
    using Cons.prems es by auto
  have rest: "list_all2 (\<lambda>a e. \<exists>c. cget a sv = Some c \<and> env_wf (c_env c) \<and> env_map e = env_map (c_env c) \<and> env_wf e) as es'"
    using Cons.prems es by simp
  let ?sv1 = "cset a (c\<lparr>c_env := e\<rparr>) sv"
  have same: "same_but_order sv ?sv1" using c by (intro same_but_order_cset) auto
  have "list_all2 (\<lambda>a e. \<exists>c. cget a ?sv1 = Some c \<and> env_wf (c_env c) \<and> env_map e = env_map (c_env c) \<and> env_wf e) as es'"
  proof (rule list_all2_mono [OF rest])
    fix x y assume "\<exists>c. cget x sv = Some c \<and> env_wf (c_env c) \<and> env_map y = env_map (c_env c) \<and> env_wf y"
    then show "\<exists>c. cget x ?sv1 = Some c \<and> env_wf (c_env c) \<and> env_map y = env_map (c_env c) \<and> env_wf y"
      using same_but_order_cget [OF same, of x] by fastforce
  qed
  then obtain sv' where "set_envs as es' ?sv1 = Some sv'" "same_but_order ?sv1 sv'" using Cons.IH by blast
  then show ?case using c es same_but_order_trans [OF same] by auto
qed simp

lemma get_envs_ok:
  "\<forall>a\<in>set as. \<exists>c. cget a sv = Some c \<and> env_wf (c_env c) \<Longrightarrow>
   \<exists>es. get_envs as sv = Some es \<and> list_all2 (\<lambda>a e. \<exists>c. cget a sv = Some c \<and> e = c_env c \<and> env_wf e) as es"
proof (induction as)
  case (Cons a as)
  then obtain c es where "cget a sv = Some c" "env_wf (c_env c)" "get_envs as sv = Some es"
      "list_all2 (\<lambda>a e. \<exists>c. cget a sv = Some c \<and> e = c_env c \<and> env_wf e) as es" by auto
  then show ?case by (intro exI [of _ "c_env c # es"]) simp
qed simp

lemma sort_all_wf:
  assumes "list_all env_wf es" "sort_all es = Some es'"
  shows "list_all env_wf es'" "map env_map es' = map env_map es"
  using sort_all_ok [OF assms(1)] assms(2) by (auto simp: list_all_iff env_wf_def)

lemma merge_sorts: "ni_testbus_env_merge result es = Some (res, es') \<Longrightarrow> sort_all es = Some es'"
  by (auto simp: ni_testbus_env_merge_def split: bind_splits)

lemma env_destroy_ok: "env_wf env \<Longrightarrow> ni_testbus_env_destroy env = Some ni_testbus_env_init"
  using va_count_le [of "env_vars env"] by (simp add: ni_testbus_env_destroy_def ni_var_array_destroy_def env_wf_def)

lemma list_all2_maps:
  "list_all2 (\<lambda>a e. \<exists>c. cget a sv = Some c \<and> e = c_env c \<and> env_wf e) as es \<Longrightarrow> list_all env_wf es' \<Longrightarrow> map env_map es' = map env_map es \<Longrightarrow>
   list_all2 (\<lambda>a e. \<exists>c. cget a sv = Some c \<and> env_wf (c_env c) \<and> env_map e = env_map (c_env c) \<and> env_wf e) as es'"
proof (induction as es arbitrary: es' rule: list_all2_induct)
  case (Cons a as e es)
  then obtain e' rest where "es' = e' # rest" by (cases es') auto
  then show ?case using Cons by auto
qed simp

lemma first_binding_chain:
  "list_all2 (\<lambda>a e. \<exists>c. cget a sv = Some c \<and> e = c_env c \<and> env_wf e) as es \<Longrightarrow> \<forall>a\<in>set as. has_vars sv a \<Longrightarrow>
   map env_map es = map (env_at sv) as"
  by (induction as es rule: list_all2_induct) (auto simp: env_at_def has_vars_def)

lemma merge_environment_ok:
  assumes "ancestors sv p as" "\<forall>x\<in>set as. \<forall>c. cget x sv = Some c \<longrightarrow> env_wf (c_env c)" "env_wf result"
  shows "\<exists>env sv'. ni_testbus_container_merge_environment p result sv = Some (True, env, sv') \<and> env_wf env
     \<and> env_map env = first_binding (env_map result # map (env_at sv) as) \<and> same_but_order sv sv'"
proof -
  have live: "\<forall>a\<in>set as. \<exists>c. cget a sv = Some c" using assms(1) by (induction as arbitrary: p) auto
  let ?chain = "filter (has_vars sv) as"
  have chain: "env_chain p sv = Some ?chain" by (rule env_chain_eq [OF assms(1)])
  have "\<forall>a\<in>set ?chain. \<exists>c. cget a sv = Some c \<and> env_wf (c_env c)" using live assms(2) by fastforce
  then obtain es where es: "get_envs ?chain sv = Some es"
      "list_all2 (\<lambda>a e. \<exists>c. cget a sv = Some c \<and> e = c_env c \<and> env_wf e) ?chain es" using get_envs_ok by blast
  have maps: "map env_map es = map (env_at sv) ?chain" using first_binding_chain [OF es(2)] by simp
  have skipped: "first_binding (map (env_at sv) ?chain) = first_binding (map (env_at sv) as)"
  proof (rule first_binding_filter)
    fix x assume "x \<in> set as" "\<not> has_vars sv x"
    then show "env_at sv x = Map.empty"
      using live assms(2) empty_env_map by (auto simp: has_vars_def env_at_def split: option.splits)
  qed
  define own where "own = (if va_count (env_vars result) \<noteq> 0 then [result] else [])"
  have own: "first_binding (map env_map (own @ es)) = first_binding (env_map result # map (env_at sv) as)"
    using empty_env_map [OF assms(3)] maps skipped by (auto simp: own_def)
  have "list_all env_wf es" using es(2) by (auto simp: list_all2_conv_all_nth list_all_length)
  then have wf: "list_all env_wf (own @ es)" using assms(3) by (simp add: own_def)
  show ?thesis
  proof (cases "own @ es = []")
    case True
    then have "env_map result = Map.empty" "first_binding (map (env_at sv) as) = Map.empty"
      using empty_env_map [OF assms(3)] maps skipped by (auto simp: own_def split: if_splits)
    then show ?thesis using True chain es(1) assms(3) unfolding own_def
      by (intro exI [of _ result] exI [of _ sv]) (simp add: ni_testbus_container_merge_environment_def Let_def split: if_splits)
  next
    case False
    obtain env es' where m: "ni_testbus_env_merge ni_testbus_env_init (own @ es) = Some (env, es')" "env_wf env"
        "env_map env = env_map ni_testbus_env_init ++ first_binding (map env_map (own @ es))"
      using env_merge_ok [OF env_wf_init(1) wf] by (auto simp: ni_testbus_env_init_def va_wf_init)
    have sorted: "list_all env_wf es'" "map env_map es' = map env_map (own @ es)" using sort_all_wf [OF wf merge_sorts [OF m(1)]] by simp_all
    define es2 where "es2 = (if va_count (env_vars result) \<noteq> 0 then List.tl es' else es')"
    define old where "old = (if va_count (env_vars result) \<noteq> 0 then hd es' else result)"
    have es2: "list_all env_wf es2" "map env_map es2 = map env_map es" "env_wf old"
      using sorted assms(3) by (cases es'; auto simp: es2_def old_def own_def)+
    obtain sv' where sv': "set_envs ?chain es2 sv = Some sv'" "same_but_order sv sv'"
      using set_envs_ok [OF list_all2_maps [OF es(2) es2(1,2)]] by blast
    have "ni_testbus_container_merge_environment p result sv = Some (True, env, sv')"
      using chain es(1) m(1) sv'(1) False env_destroy_ok [OF es2(3)]
      by (cases "va_count (env_vars result) = 0")
        (simp_all add: ni_testbus_container_merge_environment_def own_def es2_def old_def)
    then show ?thesis using m(2,3) own sv'(2) env_wf_init(2) by simp
  qed
qed

section \<open>Files\<close>

definition file_name_of :: "file_store \<Rightarrow> nat \<Rightarrow> cstring option" where
  "file_name_of fs a = (case fs_files fs a of Some f \<Rightarrow> f_name f | None \<Rightarrow> None)"

definition alive :: "file_store \<Rightarrow> nat list \<Rightarrow> bool" where
  "alive fs as \<longleftrightarrow> (\<forall>a\<in>set as. \<exists>f. fs_files fs a = Some f \<and> f_refcount f \<noteq> 0)"

definition files_at :: "server \<Rightarrow> nat \<Rightarrow> nat list" where
  "files_at sv a = (case cget a sv of Some c \<Rightarrow> (if c_kind c \<noteq> Monitor then fa_data (c_files c) else []) | None \<Rightarrow> [])"

text \<open>The store after some references were taken.\<close>

definition more_references :: "file_store \<Rightarrow> file_store \<Rightarrow> bool" where
  "more_references fs fs' \<longleftrightarrow> (\<forall>a. file_name_of fs' a = file_name_of fs a) \<and> (\<forall>as. alive fs as \<longrightarrow> alive fs' as)"

lemma more_references_refl [simp]: "more_references fs fs"
  by (simp add: more_references_def)

lemma more_references_trans: "more_references fs fs1 \<Longrightarrow> more_references fs1 fs2 \<Longrightarrow> more_references fs fs2"
  by (simp add: more_references_def)

lemma find_by_name_alive:
  "alive fs as \<Longrightarrow> find_file (\<lambda>f. ni_string_eq (f_name f) name) as fs = Some (List.find (\<lambda>a. file_name_of fs a = name) as)"
  by (induction as) (auto simp: alive_def file_name_of_def)

lemma shared_file_get_ok:
  assumes "alive fs [a]"
  shows "\<exists>fs'. ni_testbus_file_get a fs = Some fs' \<and> more_references fs fs'"
proof -
  obtain f where f: "fs_files fs a = Some f" "f_refcount f \<noteq> 0" using assms by (auto simp: alive_def)
  then show ?thesis
    by (auto simp: ni_testbus_file_get_def more_references_def put_file_def file_name_of_def alive_def)
qed

lemma find_none_iff: "List.find P xs = None \<longleftrightarrow> (\<forall>x\<in>set xs. \<not> P x)"
  by (auto simp: find_None_iff)

lemma find_append: "List.find P (xs @ ys) = (case List.find P xs of Some x \<Rightarrow> Some x | None \<Rightarrow> List.find P ys)"
  by (induction xs) auto

text \<open>Merging keeps the first file of a name.\<close>

lemma merge_files_ok:
  assumes "alive fs (fa_data result)" "alive fs as"
  shows "\<exists>r fs'. merge_files as result fs = Some (r, fs') \<and> more_references fs fs' \<and> alive fs' (fa_data r)
     \<and> (\<forall>name. List.find (\<lambda>a. file_name_of fs a = name) (fa_data r) = List.find (\<lambda>a. file_name_of fs a = name) (fa_data result @ as))"
  using assms
proof (induction as arbitrary: result fs)
  case (Cons a as)
  obtain f where f: "fs_files fs a = Some f" "f_refcount f \<noteq> 0" using Cons.prems(2) by (auto simp: alive_def)
  have name: "file_name_of fs a = f_name f" using f(1) by (simp add: file_name_of_def)
  have look: "ni_testbus_file_array_find_by_name result (f_name f) fs = Some (List.find (\<lambda>b. file_name_of fs b = f_name f) (fa_data result))"
    using find_by_name_alive [OF Cons.prems(1)] by (simp add: ni_testbus_file_array_find_by_name_def)
  have rest: "alive fs as" using Cons.prems(2) by (simp add: alive_def)
  show ?case
  proof (cases "List.find (\<lambda>b. file_name_of fs b = f_name f) (fa_data result)")
    case None
    obtain fs1 where fs1: "ni_testbus_file_get a fs = Some fs1" "more_references fs fs1"
      using shared_file_get_ok [of fs a] Cons.prems(2) by (auto simp: alive_def)
    let ?r1 = "result\<lparr>fa_data := fa_data result @ [a]\<rparr>"
    have "alive fs (fa_data result @ [a])" "alive fs as" using Cons.prems by (auto simp: alive_def)
    then have al: "alive fs1 (fa_data ?r1)" "alive fs1 as" using fs1(2) by (auto simp: more_references_def)
    have same: "\<And>x. file_name_of fs1 x = file_name_of fs x" using fs1(2) by (simp add: more_references_def)
    obtain r fs' where r: "merge_files as ?r1 fs1 = Some (r, fs')" "more_references fs1 fs'" "alive fs' (fa_data r)"
        "\<forall>name. List.find (\<lambda>a. file_name_of fs1 a = name) (fa_data r) = List.find (\<lambda>a. file_name_of fs1 a = name) (fa_data ?r1 @ as)"
      using Cons.IH [OF al] by blast
    show ?thesis using f look None fs1 r more_references_trans [OF fs1(2) r(2)] same
      by (intro exI [of _ r] exI [of _ fs']) (simp add: ni_testbus_file_array_append_def)
  next
    case (Some b)
    obtain r fs' where r: "merge_files as result fs = Some (r, fs')" "more_references fs fs'" "alive fs' (fa_data r)"
        "\<forall>name. List.find (\<lambda>a. file_name_of fs a = name) (fa_data r) = List.find (\<lambda>a. file_name_of fs a = name) (fa_data result @ as)"
      using Cons.IH [OF Cons.prems(1) rest] by blast
    have "List.find (\<lambda>x. file_name_of fs x = nm) (fa_data result @ a # as) = List.find (\<lambda>x. file_name_of fs x = nm) (fa_data result @ as)" for nm
      using Some name by (auto simp: find_append split: option.splits)
    then show ?thesis using f look Some r by (intro exI [of _ r] exI [of _ fs']) simp
  qed
qed simp

lemma ancestors_files [simp]: "ancestors (sv\<lparr>sv_files := fs\<rparr>) p as = ancestors sv p as"
  by (induction as arbitrary: p) auto

lemma files_at_files [simp]: "files_at (sv\<lparr>sv_files := fs\<rparr>) = files_at sv"
  by (simp add: files_at_def fun_eq_iff)

lemma alive_append [simp]: "alive fs (xs @ ys) \<longleftrightarrow> alive fs xs \<and> alive fs ys"
  by (auto simp: alive_def)

lemma merge_files_up_none: "merge_files_up None result sv = Some (result, sv)"
  by (subst merge_files_up.simps) simp

lemma merge_files_up_some:
  "cget a sv = Some c \<Longrightarrow> merge_files_up (Some a) result sv = do {
     r \<leftarrow> ni_testbus_file_array_merge result (if c_kind c \<noteq> Monitor then c_files c else ni_testbus_file_array_init) (sv_files sv);
     merge_files_up (c_parent c) (fst r) (sv\<lparr>sv_files := snd r\<rparr>) }"
  by (subst merge_files_up.simps) (auto simp: ni_testbus_file_array_merge_def ni_testbus_file_array_init_def)

lemma merge_files_up_ok:
  assumes "ancestors sv p as" "alive (sv_files sv) (fa_data result)" "alive (sv_files sv) (concat (map (files_at sv) as))"
  shows "\<exists>r fs. merge_files_up p result sv = Some (r, sv\<lparr>sv_files := fs\<rparr>) \<and> more_references (sv_files sv) fs \<and> alive fs (fa_data r)
     \<and> (\<forall>name. List.find (\<lambda>a. file_name_of (sv_files sv) a = name) (fa_data r)
            = List.find (\<lambda>a. file_name_of (sv_files sv) a = name) (fa_data result @ concat (map (files_at sv) as)))"
  using assms
proof (induction as arbitrary: p result sv)
  case Nil
  then show ?case by (intro exI [of _ result] exI [of _ "sv_files sv"]) (simp add: merge_files_up_none)
next
  case (Cons a as)
  obtain c where c: "p = Some a" "cget a sv = Some c" "ancestors sv (c_parent c) as" using Cons.prems(1) by auto
  have at: "files_at sv a = fa_data (if c_kind c \<noteq> Monitor then c_files c else ni_testbus_file_array_init)"
    using c(2) by (simp add: files_at_def ni_testbus_file_array_init_def)
  have al: "alive (sv_files sv) (files_at sv a)" "alive (sv_files sv) (concat (map (files_at sv) as))" using Cons.prems(3) by simp_all
  obtain r1 fs1 where r1: "merge_files (files_at sv a) result (sv_files sv) = Some (r1, fs1)" "more_references (sv_files sv) fs1"
      "alive fs1 (fa_data r1)"
      "\<forall>name. List.find (\<lambda>x. file_name_of (sv_files sv) x = name) (fa_data r1)
         = List.find (\<lambda>x. file_name_of (sv_files sv) x = name) (fa_data result @ files_at sv a)"
    using merge_files_ok [OF Cons.prems(2) al(1)] by blast
  let ?sv1 = "sv\<lparr>sv_files := fs1\<rparr>"
  have same: "\<And>x. file_name_of fs1 x = file_name_of (sv_files sv) x" using r1(2) by (simp add: more_references_def)
  have "ancestors ?sv1 (c_parent c) as" "alive (sv_files ?sv1) (fa_data r1)" "alive (sv_files ?sv1) (concat (map (files_at ?sv1) as))"
    using c(3) r1(2,3) al(2) by (auto simp add: more_references_def)
  then obtain r fs where r: "merge_files_up (c_parent c) r1 ?sv1 = Some (r, ?sv1\<lparr>sv_files := fs\<rparr>)" "more_references fs1 fs" "alive fs (fa_data r)"
      "\<forall>name. List.find (\<lambda>x. file_name_of fs1 x = name) (fa_data r)
         = List.find (\<lambda>x. file_name_of fs1 x = name) (fa_data r1 @ concat (map (files_at sv) as))"
    using Cons.IH [of ?sv1 "c_parent c" r1] by auto
  have "List.find (\<lambda>x. file_name_of (sv_files sv) x = nm) (fa_data r)
      = List.find (\<lambda>x. file_name_of (sv_files sv) x = nm) (fa_data result @ concat (map (files_at sv) (a # as)))" for nm
    using r(4) r1(4) same by (simp add: find_append split: option.splits)
  moreover have "merge_files_up p result sv = Some (r, sv\<lparr>sv_files := fs\<rparr>)"
    using c(1) r1(1) r(1) at merge_files_up_some [OF c(2)] by (simp add: ni_testbus_file_array_merge_def)
  ultimately show ?case using r(3) more_references_trans [OF r1(2) r(2)] by blast
qed

section \<open>The context of a process\<close>

text \<open>Two states that differ in one container, in the order of variables and in references to files.\<close>

definition same_around :: "nat \<Rightarrow> server \<Rightarrow> server \<Rightarrow> bool" where
  "same_around proc sv sv' \<longleftrightarrow> (\<forall>x. x \<noteq> proc \<longrightarrow> map_option c_view (cget x sv') = map_option c_view (cget x sv)) \<and> more_references (sv_files sv) (sv_files sv')"

lemma same_around_cget:
  assumes "same_around proc sv sv'" "x \<noteq> proc"
  shows "(cget x sv = None \<longleftrightarrow> cget x sv' = None) \<and> (\<forall>c c'. cget x sv = Some c \<and> cget x sv' = Some c' \<longrightarrow>
     c_parent c' = c_parent c \<and> c_kind c' = c_kind c \<and> c_files c' = c_files c \<and> env_map (c_env c') = env_map (c_env c) \<and> env_wf (c_env c') = env_wf (c_env c))"
proof -
  have v: "map_option c_view (cget x sv') = map_option c_view (cget x sv)" using assms by (simp add: same_around_def)
  then have "cget x sv = None \<longleftrightarrow> cget x sv' = None" by (auto simp: map_option_case split: option.splits)
  moreover have "c_parent c' = c_parent c \<and> c_kind c' = c_kind c \<and> c_files c' = c_files c \<and> env_map (c_env c') = env_map (c_env c) \<and> env_wf (c_env c') = env_wf (c_env c)"
    if "cget x sv = Some c" "cget x sv' = Some c'" for c c'
    using v that c_view_eq [of c' c] by simp
  ultimately show ?thesis by blast
qed

lemma same_around_chain:
  assumes "same_around proc sv sv'" "proc \<notin> set as"
  shows "ancestors sv p as \<Longrightarrow> ancestors sv' p as" "map (env_at sv') as = map (env_at sv) as" "map (files_at sv') as = map (files_at sv) as"
    "(\<forall>x\<in>set as. \<forall>c. cget x sv = Some c \<longrightarrow> env_wf (c_env c)) \<Longrightarrow> (\<forall>x\<in>set as. \<forall>c. cget x sv' = Some c \<longrightarrow> env_wf (c_env c))"
proof -
  have at: "env_at sv' x = env_at sv x \<and> files_at sv' x = files_at sv x" if "x \<noteq> proc" for x
  proof (cases "cget x sv")
    case None
    then show ?thesis using same_around_cget [OF assms(1) that] by (simp add: env_at_def files_at_def)
  next
    case (Some c)
    have "cget x sv' \<noteq> None" using same_around_cget [OF assms(1) that] Some by simp
    then obtain c' where c': "cget x sv' = Some c'" by blast
    then have "c_kind c' = c_kind c" "c_files c' = c_files c" "env_map (c_env c') = env_map (c_env c)"
      using same_around_cget [OF assms(1) that] Some by simp_all
    then show ?thesis using Some c' by (simp add: env_at_def files_at_def)
  qed
  have "env_at sv' x = env_at sv x \<and> files_at sv' x = files_at sv x" if "x \<in> set as" for x
    using that assms(2) by (intro at) blast
  then show "map (env_at sv') as = map (env_at sv) as" "map (files_at sv') as = map (files_at sv) as" by simp_all
  show "ancestors sv p as \<Longrightarrow> ancestors sv' p as" using assms(2)
  proof (induction as arbitrary: p)
    case (Cons a as)
    then obtain c where c: "p = Some a" "cget a sv = Some c" "ancestors sv (c_parent c) as" "a \<noteq> proc" by auto
    have "cget a sv' \<noteq> None" using same_around_cget [OF assms(1) c(4)] c(2) by simp
    then obtain c' where c': "cget a sv' = Some c'" by blast
    then have "c_parent c' = c_parent c" using same_around_cget [OF assms(1) c(4)] c(2) by simp
    moreover have "ancestors sv' (c_parent c) as" using Cons.IH [of "c_parent c"] Cons.prems c(3) by simp
    ultimately show ?case using c(1) c' by simp
  qed simp
  show "(\<forall>x\<in>set as. \<forall>c. cget x sv = Some c \<longrightarrow> env_wf (c_env c)) \<Longrightarrow> (\<forall>x\<in>set as. \<forall>c. cget x sv' = Some c \<longrightarrow> env_wf (c_env c))"
  proof (intro ballI allI impI)
    fix x c' assume wf: "\<forall>x\<in>set as. \<forall>c. cget x sv = Some c \<longrightarrow> env_wf (c_env c)" and x: "x \<in> set as" "cget x sv' = Some c'"
    then obtain c where "cget x sv = Some c" using same_around_cget [OF assms(1), of x] assms(2) by (cases "cget x sv") auto
    then show "env_wf (c_env c')" using same_around_cget [OF assms(1), of x] assms(2) wf x by auto
  qed
qed

definition chain_ok :: "server \<Rightarrow> nat \<Rightarrow> nat \<Rightarrow> nat list \<Rightarrow> bool" where
  "chain_ok sv proc a as \<longleftrightarrow> ancestors sv (Some a) as \<and> proc \<notin> set as \<and> (\<forall>x\<in>set as. \<forall>c. cget x sv = Some c \<longrightarrow> env_wf (c_env c))
     \<and> alive (sv_files sv) (concat (map (files_at sv) as))"

lemma chain_ok_same_around:
  assumes "chain_ok sv proc a as" "same_around proc sv sv'"
  shows "chain_ok sv' proc a as"
proof -
  have notin: "proc \<notin> set as" using assms(1) by (simp add: chain_ok_def)
  note same = same_around_chain [OF assms(2) notin]
  have "alive (sv_files sv') (concat (map (files_at sv) as))" using assms by (auto simp: chain_ok_def same_around_def more_references_def)
  then have "alive (sv_files sv') (concat (map (files_at sv') as))" unfolding same(3) .
  moreover have "ancestors sv' (Some a) as" using same(1) assms(1) by (simp add: chain_ok_def)
  moreover have "\<forall>x\<in>set as. \<forall>c. cget x sv' = Some c \<longrightarrow> env_wf (c_env c)" using same(4) assms(1) by (simp add: chain_ok_def)
  ultimately show ?thesis using notin by (simp add: chain_ok_def)
qed

lemma apply_context_ok:
  assumes "chain_ok sv proc a as" "cget proc sv = Some c" "env_wf (c_env c)" "alive (sv_files sv) (fa_data (c_files c))"
  shows "\<exists>sv' c'. ni_testbus_process_apply_context proc a sv = Some sv' \<and> cget proc sv' = Some c' \<and> same_around proc sv sv'
     \<and> env_wf (c_env c') \<and> env_map (c_env c') = first_binding (env_map (c_env c) # map (env_at sv) as)
     \<and> alive (sv_files sv') (fa_data (c_files c'))
     \<and> (\<forall>name. List.find (\<lambda>x. file_name_of (sv_files sv) x = name) (fa_data (c_files c'))
          = List.find (\<lambda>x. file_name_of (sv_files sv) x = name) (fa_data (c_files c) @ concat (map (files_at sv) as)))"
proof -
  obtain env sv1 where m: "ni_testbus_container_merge_environment (Some a) (c_env c) sv = Some (True, env, sv1)" "env_wf env"
      "env_map env = first_binding (env_map (c_env c) # map (env_at sv) as)" "same_but_order sv sv1"
    using merge_environment_ok [of sv "Some a" as "c_env c"] assms(1,3) by (auto simp: chain_ok_def)
  obtain c1 where c1: "cget proc sv1 = Some c1" "c1 = c\<lparr>c_env := c_env c1\<rparr>" using same_but_order_cget [OF m(4) assms(2)] by blast
  have "sv1 = sv\<lparr>sv_containers := sv_containers sv1\<rparr>" using m(4) by (simp add: same_but_order_def)
  then have "sv_files sv1 = sv_files sv" by (metis server.ext_inject server.surjective server.update_convs(1))
  moreover have "c_files c1 = c_files c" by (subst c1(2)) simp
  ultimately have fs1: "sv_files sv1 = sv_files sv" "c_files c1 = c_files c" by simp_all
  let ?sv2 = "cset proc (c1\<lparr>c_env := env\<rparr>) sv1"
  have sa2: "same_around proc sv ?sv2" using m(4) fs1 by (auto simp: same_around_def same_but_order_def cset_def cget_def)
  have ch: "chain_ok ?sv2 proc a as" by (rule chain_ok_same_around [OF assms(1) sa2])
  have at: "map (files_at ?sv2) as = map (files_at sv) as" using assms(1) by (intro same_around_chain(3) [OF sa2]) (simp add: chain_ok_def)
  have f2: "sv_files ?sv2 = sv_files sv" using fs1(1) by (simp add: cset_def)
  obtain r fs where r: "merge_files_up (Some a) (c_files c) ?sv2 = Some (r, ?sv2\<lparr>sv_files := fs\<rparr>)" "more_references (sv_files sv) fs" "alive fs (fa_data r)"
      "\<forall>name. List.find (\<lambda>x. file_name_of (sv_files sv) x = name) (fa_data r)
        = List.find (\<lambda>x. file_name_of (sv_files sv) x = name) (fa_data (c_files c) @ concat (map (files_at sv) as))"
    using merge_files_up_ok [of ?sv2 "Some a" as "c_files c"] ch assms(4) f2 at by (auto simp: chain_ok_def)
  let ?sv3 = "cset proc (c1\<lparr>c_env := env, c_files := r\<rparr>) (?sv2\<lparr>sv_files := fs\<rparr>)"
  have "ni_testbus_process_apply_context proc a sv = Some ?sv3"
    using assms(2) m(1) c1(1) r(1) fs1(2)
    by (simp add: ni_testbus_process_apply_context_def ni_testbus_container_merge_files_def Let_def del: c1)
  moreover have "same_around proc sv ?sv3" using sa2 r(2) by (simp add: same_around_def)
  moreover have "sv_files ?sv3 = fs" by (simp add: cset_def)
  ultimately show ?thesis using m(2,3) r(3,4) by (intro exI [of _ ?sv3] exI [of _ "c1\<lparr>c_env := env, c_files := r\<rparr>"]) simp
qed

text \<open>C36: The context of a process that runs a command on a host: the variables of the command and the containers
  above it, then those of the host and the containers above it.  For each name the nearest container in this
  order decides, and the file found under a name is the first of the name in this order.\<close>

theorem process_context_nearest:
  assumes "chain_ok sv proc cmd cs" "chain_ok sv proc host hs"
    "cget proc sv = Some c" "c_env c = ni_testbus_env_init" "c_files c = ni_testbus_file_array_init"
  shows "\<exists>sv1 sv2 c'. ni_testbus_process_apply_context proc cmd sv = Some sv1 \<and> ni_testbus_process_apply_context proc host sv1 = Some sv2
     \<and> cget proc sv2 = Some c' \<and> env_map (c_env c') = first_binding (map (env_at sv) (cs @ hs))
     \<and> (\<forall>name. ni_testbus_file_array_find_by_name (c_files c') name (sv_files sv2)
          = Some (List.find (\<lambda>a. file_name_of (sv_files sv) a = name) (concat (map (files_at sv) (cs @ hs)))))"
proof -
  obtain sv1 c1 where s1: "ni_testbus_process_apply_context proc cmd sv = Some sv1" "cget proc sv1 = Some c1" "same_around proc sv sv1"
      "env_wf (c_env c1)" "env_map (c_env c1) = first_binding (env_map (c_env c) # map (env_at sv) cs)" "alive (sv_files sv1) (fa_data (c_files c1))"
      "\<forall>name. List.find (\<lambda>x. file_name_of (sv_files sv) x = name) (fa_data (c_files c1))
          = List.find (\<lambda>x. file_name_of (sv_files sv) x = name) (fa_data (c_files c) @ concat (map (files_at sv) cs))"
    using apply_context_ok [OF assms(1,3)] assms(4,5) env_wf_init(1) by (auto simp: ni_testbus_file_array_init_def alive_def)
  note h1 = chain_ok_same_around [OF assms(2) s1(3)]
  have notin: "proc \<notin> set hs" using assms(2) by (simp add: chain_ok_def)
  note same = same_around_chain [OF s1(3) notin]
  obtain sv2 c2 where s2: "ni_testbus_process_apply_context proc host sv1 = Some sv2" "cget proc sv2 = Some c2" "same_around proc sv1 sv2"
      "env_map (c_env c2) = first_binding (env_map (c_env c1) # map (env_at sv1) hs)" "alive (sv_files sv2) (fa_data (c_files c2))"
      "\<forall>name. List.find (\<lambda>x. file_name_of (sv_files sv1) x = name) (fa_data (c_files c2))
          = List.find (\<lambda>x. file_name_of (sv_files sv1) x = name) (fa_data (c_files c1) @ concat (map (files_at sv1) hs))"
    using apply_context_ok [OF h1 s1(2,4,6)] by blast
  have names: "\<And>x. file_name_of (sv_files sv1) x = file_name_of (sv_files sv) x" "\<And>x. file_name_of (sv_files sv2) x = file_name_of (sv_files sv) x"
    using s1(3) s2(3) by (simp_all add: same_around_def more_references_def)
  have fb: "first_binding (xs @ ys) = first_binding ys ++ first_binding xs" for xs ys :: "(cstring \<rightharpoonup> cstring option) list"
    by (induction xs) simp_all
  have "env_map (c_env c2) = first_binding (map (env_at sv) (cs @ hs))"
    unfolding s2(4) s1(5) same(2) using env_wf_init(2) assms(4) by (simp add: fb)
  moreover have "ni_testbus_file_array_find_by_name (c_files c2) nm (sv_files sv2)
      = Some (List.find (\<lambda>a. file_name_of (sv_files sv) a = nm) (concat (map (files_at sv) (cs @ hs))))" for nm
    using s2(6) s1(7) same(3) names assms(5)
    unfolding ni_testbus_file_array_find_by_name_def find_by_name_alive [OF s2(5)]
    by (simp add: find_append ni_testbus_file_array_init_def cong: option.case_cong)
  ultimately show ?thesis using s1(1) s2(1,2) by blast
qed

text \<open>A command in a test below the global context, run on a host of the global context.\<close>

definition chain_server :: server where
  "chain_server = \<lparr>sv_containers =
       [0 \<mapsto> (blank_container Global)\<lparr>c_env := env_of [(''A'', Some ''global''), (''B'', Some ''global'')]\<rparr>,
        1 \<mapsto> (blank_container Testcase)\<lparr>c_parent := Some 0, c_env := env_of [(''A'', Some ''test'')], c_files := \<lparr>fa_data = [0], fa_next_id = 1\<rparr>\<rparr>,
        2 \<mapsto> (blank_container Command)\<lparr>c_parent := Some 1\<rparr>,
        3 \<mapsto> (blank_container Host)\<lparr>c_parent := Some 0, c_env := env_of [(''B'', Some ''host''), (''C'', Some ''host'')]\<rparr>,
        4 \<mapsto> (blank_container Process)\<lparr>c_parent := Some 3, p_command := Some 2\<rparr>],
     sv_next = 5, sv_global = Some 0, sv_files = no_files\<lparr>fs_files := [0 \<mapsto> one_file]\<rparr>, sv_names = [], sv_signals = [], sv_processes_freed = []\<rparr>"

lemma process_context_nearest_witness:
  "\<exists>sv1 sv2 c'. ni_testbus_process_apply_context 4 2 chain_server = Some sv1 \<and> ni_testbus_process_apply_context 4 3 sv1 = Some sv2
     \<and> cget 4 sv2 = Some c' \<and> env_map (c_env c') ''A'' = Some (Some ''test'') \<and> env_map (c_env c') ''B'' = Some (Some ''global'')
     \<and> env_map (c_env c') ''C'' = Some (Some ''host'')
     \<and> ni_testbus_file_array_find_by_name (c_files c') (f_name one_file) (sv_files sv2) = Some (Some 0)"
proof -
  have live: "cget 0 chain_server = Some ((blank_container Global)\<lparr>c_env := env_of [(''A'', Some ''global''), (''B'', Some ''global'')]\<rparr>)"
    "cget 1 chain_server = Some ((blank_container Testcase)\<lparr>c_parent := Some 0, c_env := env_of [(''A'', Some ''test'')], c_files := \<lparr>fa_data = [0], fa_next_id = 1\<rparr>\<rparr>)"
    "cget 2 chain_server = Some ((blank_container Command)\<lparr>c_parent := Some 1\<rparr>)"
    "cget 3 chain_server = Some ((blank_container Host)\<lparr>c_parent := Some 0, c_env := env_of [(''B'', Some ''host''), (''C'', Some ''host'')]\<rparr>)"
    "cget 4 chain_server = Some ((blank_container Process)\<lparr>c_parent := Some 3, p_command := Some 2\<rparr>)"
    "sv_files chain_server = no_files\<lparr>fs_files := [0 \<mapsto> one_file]\<rparr>"
    by (simp_all add: chain_server_def cget_def)
  note blank = blank_container_def
  have files: "files_at chain_server 0 = []" "files_at chain_server 1 = [0]" "files_at chain_server 2 = []" "files_at chain_server 3 = []"
    using live by (simp_all add: files_at_def blank ni_testbus_file_array_init_def)
  have envs: "env_at chain_server 0 = [''A'' \<mapsto> Some ''global'', ''B'' \<mapsto> Some ''global'']" "env_at chain_server 1 = [''A'' \<mapsto> Some ''test'']"
      "env_at chain_server 2 = Map.empty" "env_at chain_server 3 = [''B'' \<mapsto> Some ''host'', ''C'' \<mapsto> Some ''host'']"
    using live env_wf_init(2) by (simp_all add: env_at_def blank env_of_ok fun_eq_iff)
  have "alive (sv_files chain_server) [0]" using live(6) by (simp add: alive_def one_file_def)
  then have ok: "chain_ok chain_server 4 2 [2, 1, 0]" "chain_ok chain_server 4 3 [3, 0]"
    using live files env_wf_init(1) env_of_ok by (simp_all add: chain_ok_def blank) (simp_all add: alive_def)
  have name: "file_name_of (sv_files chain_server) 0 = f_name one_file" using live(6) by (simp add: file_name_of_def)
  show ?thesis
    using process_context_nearest [OF ok live(5)] files envs name by (fastforce simp: blank)
qed

end
