(* ===== verification/ServerTree.thy ===== *)
theory ServerTree
  imports ServerChain
begin

text \<open>
  The invariant of the tree of containers - references are counted exactly, nothing dangles, identifiers of siblings
  differ, a host that is ready has an agent - and the operations that keep it: making containers, claiming hosts,
  setting variables, agents coming and going (server/container.c, host.c, test.c, command.c, main.c).
\<close>

section \<open>Making a container\<close>

definition new_child :: "kind \<Rightarrow> cstring option \<Rightarrow> nat \<Rightarrow> u32 \<Rightarrow> container \<Rightarrow> container" where
  "new_child k name parent i c = (context_init k name parent c)\<lparr>c_id := i, c_trace_name := Some (take 63 (name_prefix k @ print_dec (unat i)))\<rparr>"

definition with_child :: "kind \<Rightarrow> nat \<Rightarrow> container \<Rightarrow> container" where
  "with_child k a p = set_children k \<lparr>ca_data = ca_data (children_of k p) @ [a], ca_next_id = ca_next_id (children_of k p) + 1\<rparr> p"

lemma children_of_set_children [simp]: "k \<noteq> Global \<Longrightarrow> children_of k (set_children k arr c) = arr"
  by (cases k) (simp_all add: children_of_def set_children_def)

lemma set_children_twice [simp]: "set_children k x (set_children k y c) = set_children k x c"
  by (cases k) (simp_all add: set_children_def)

lemma cset_same [simp]: "cset a c (cset a d sv) = cset a c sv"
  by (simp add: cset_def)

lemma cset_twist: "a \<noteq> b \<Longrightarrow> cset a c (cset b d sv) = cset b d (cset a c sv)"
  by (simp add: cset_def fun_upd_twist)

lemma cset_there: "cget a sv = Some c \<Longrightarrow> cset a c sv = sv"
  by (cases sv) (auto simp: cset_def cget_def)

lemma context_init_simps [simp]:
  "c_refcount (context_init k name parent c) = 1" "c_kind (context_init k name parent c) = k"
  by (simp_all add: context_init_def)

lemma container_init_eq:
  assumes "cget a sv = Some c" "cget parent sv = Some p" "a \<noteq> parent" "has_children k p" "k \<noteq> Monitor"
  shows "ni_testbus_container_init a k name parent sv
     = Some (cset a (new_child k name parent (ca_next_id (children_of k p)) c) (cset parent (with_child k a p) sv))"
proof -
  have k: "k \<noteq> Global" using assms(4) by (auto simp: has_children_def)
  let ?i = "ca_next_id (children_of k p)"
  let ?arr = "(children_of k p)\<lparr>ca_next_id := ?i + 1\<rparr>"
  let ?c0 = "context_init k name parent c"
  let ?c1 = "?c0\<lparr>c_id := ?i\<rparr>"
  define P where "P = set_children k (?arr\<lparr>ca_data := ca_data ?arr @ [a]\<rparr>) p"
  have P: "P = with_child k a p" by (cases "children_of k p") (simp add: P_def with_child_def)
  define base where "base = cset parent P sv"
  have ids: "take_id k parent a (cset a ?c0 sv) = Some (cset a ?c1 (cset parent (set_children k ?arr p) sv))"
    using assms(2,3) k by (simp add: take_id_def Let_def) (simp add: cset_twist)
  have app: "child_append k parent a (cset a ?c1 (cset parent (set_children k ?arr p) sv)) = Some (cset a (?c1\<lparr>c_refcount := 2\<rparr>) base)"
    using assms(3) k by (simp add: child_append_def ni_testbus_container_get_def Let_def base_def P_def)
      (simp add: cset_twist numeral_2_eq_2)
  have tr: "set_trace_name k a (cset a (?c1\<lparr>c_refcount := 2\<rparr>) base)
      = Some (cset a (?c1\<lparr>c_refcount := 2, c_trace_name := Some (take 63 (name_prefix k @ print_dec (unat ?i)))\<rparr>) base)"
    by (simp add: set_trace_name_def)
  have put: "ni_testbus_container_put 1 a (cset a (?c1\<lparr>c_refcount := 2, c_trace_name := Some (take 63 (name_prefix k @ print_dec (unat ?i)))\<rparr>) base)
      = Some (cset a (new_child k name parent ?i c) base)"
    by (cases c) (simp add: new_child_def context_init_def)
  show ?thesis
    using assms ids app tr put k unfolding ni_testbus_container_init_def by (simp add: Let_def base_def P new_child_def)
qed

section \<open>The invariant\<close>

definition slots :: "container \<Rightarrow> nat list" where
  "slots c = all_children c @ ca_data (c_monitors c) @ (case p_command c of None \<Rightarrow> [] | Some m \<Rightarrow> [m])"

definition refs_to :: "server \<Rightarrow> nat \<Rightarrow> nat" where
  "refs_to sv a = (\<Sum>p\<in>{..<sv_next sv}. (case cget p sv of None \<Rightarrow> 0 | Some c \<Rightarrow> count_list (slots c) a))"

text \<open>What holds of one container \<open>c\<close> at \<open>a\<close>.\<close>

definition node_ok :: "server \<Rightarrow> nat \<Rightarrow> nat \<Rightarrow> container \<Rightarrow> bool" where
  "node_ok sv g a c \<longleftrightarrow>
     a < sv_next sv \<and> (c_kind c = Global \<longleftrightarrow> a = g) \<and> c_kind c \<noteq> Monitor \<and> (a = g \<longrightarrow> c_parent c = None)
   \<and> (a \<noteq> g \<longrightarrow> (\<exists>p cp. c_parent c = Some p \<and> p < a \<and> cget p sv = Some cp \<and> has_children (c_kind c) cp \<and> a \<in> set (ca_data (children_of (c_kind c) cp))
         \<and> unat (c_id c) < unat (ca_next_id (children_of (c_kind c) cp))))
   \<and> (c_kind c = Host \<longrightarrow> c_parent c = Some g)
   \<and> (\<forall>o'. c_owner c = Some o' \<longrightarrow> cget o' sv \<noteq> None)
   \<and> (\<forall>m. p_command c = Some m \<longrightarrow> c_kind c = Process \<and> (\<exists>cm. cget m sv = Some cm \<and> c_kind cm = Command))
   \<and> env_wf (c_env c) \<and> sa_wf (cmd_argv c) \<and> sa_wf (h_capabilities c) \<and> (h_ready c \<longrightarrow> h_agent_bus_name c \<noteq> None)"

text \<open>What holds of the children of a kind.  A test has the hosts it has claimed as children too.\<close>

definition children_ok :: "server \<Rightarrow> nat \<Rightarrow> container \<Rightarrow> kind \<Rightarrow> bool" where
  "children_ok sv p cp k \<longleftrightarrow>
     (\<forall>x\<in>set (ca_data (children_of k cp)). \<exists>cx. cget x sv = Some cx \<and> c_kind cx = k \<and> (k \<noteq> Host \<longrightarrow> c_parent cx = Some p))
   \<and> (\<forall>x y cx cy. x \<in> set (ca_data (children_of k cp)) \<and> y \<in> set (ca_data (children_of k cp)) \<and> cget x sv = Some cx \<and> cget y sv = Some cy
        \<and> c_parent cx = Some p \<and> c_parent cy = Some p \<and> (c_id cx = c_id cy \<or> k = Host \<and> c_name cx = c_name cy) \<longrightarrow> x = y)
   \<and> unat (ca_next_id (children_of k cp)) \<le> sv_next sv"

text \<open>\<open>pending a\<close> references to \<open>a\<close> are held by the running code.\<close>

definition tree_inv :: "server \<Rightarrow> nat \<Rightarrow> (nat \<Rightarrow> nat) \<Rightarrow> bool" where
  "tree_inv sv g pending \<longleftrightarrow> sv_global sv = Some g \<and> (\<exists>cg. cget g sv = Some cg)
   \<and> (\<forall>a c. cget a sv = Some c \<longrightarrow> node_ok sv g a c)
   \<and> (\<forall>a c k. cget a sv = Some c \<longrightarrow> children_ok sv a c k)
   \<and> (\<forall>a c. cget a sv = Some c \<longrightarrow> c_refcount c = refs_to sv a + (if a = g then 1 else 0) + pending a)
   \<and> (\<forall>m\<in>set (sv_names sv). nm_bus_name m \<noteq> None)"

lemma tree_invD:
  assumes "tree_inv sv g d"
  shows "sv_global sv = Some g" "\<exists>cg. cget g sv = Some cg" "cget a sv = Some c \<Longrightarrow> node_ok sv g a c" "cget a sv = Some c \<Longrightarrow> children_ok sv a c k"
    "cget a sv = Some c \<Longrightarrow> c_refcount c = refs_to sv a + (if a = g then 1 else 0) + d a" "m \<in> set (sv_names sv) \<Longrightarrow> nm_bus_name m \<noteq> None"
  using assms by (auto simp: tree_inv_def)

lemma sum_update:
  fixes f :: "nat \<Rightarrow> nat"
  assumes "finite A" "b \<in> A" "\<And>x. x \<in> A \<Longrightarrow> x \<noteq> b \<Longrightarrow> f x = h x"
  shows "sum f A + h b = sum h A + f b"
proof -
  have "sum f A = f b + sum f (A - {b})" "sum h A = h b + sum h (A - {b})" using assms(1,2) by (simp_all add: sum.remove)
  moreover have "sum f (A - {b}) = sum h (A - {b})" using assms(3) by (intro sum.cong) auto
  ultimately show ?thesis by simp
qed

lemma refs_to_cset:
  assumes "a < sv_next sv" "cget a sv = Some c"
  shows "refs_to (cset a c' sv) x + count_list (slots c) x = refs_to sv x + count_list (slots c') x"
proof -
  have nx: "sv_next (cset a c' sv) = sv_next sv" by (simp add: cset_def)
  show ?thesis
    using sum_update [of "{..<sv_next sv}" a "\<lambda>p. (case cget p (cset a c' sv) of None \<Rightarrow> 0 | Some c \<Rightarrow> count_list (slots c) x)"
        "\<lambda>p. (case cget p sv of None \<Rightarrow> 0 | Some c \<Rightarrow> count_list (slots c) x)"] assms
    by (simp add: refs_to_def nx)
qed

lemma refs_to_cset_same:
  assumes "a < sv_next sv" "cget a sv = Some c" "slots c' = slots c"
  shows "refs_to (cset a c' sv) x = refs_to sv x"
  using refs_to_cset [OF assms(1,2), of c' x] assms(3) by simp

lemma refs_to_new:
  "refs_to ((cset (sv_next sv) c' sv)\<lparr>sv_next := Suc (sv_next sv)\<rparr>) x = refs_to sv x + count_list (slots c') x"
  by (simp add: refs_to_def cong: sum.cong_simp)

lemma refs_to_other [simp]: "refs_to (sv\<lparr>sv_signals := ss\<rparr>) x = refs_to sv x" "refs_to (sv\<lparr>sv_names := ns\<rparr>) x = refs_to sv x"
  by (simp_all add: refs_to_def)

lemma member_counts:
  assumes "cget p sv = Some cp" "p < sv_next sv" "a \<in> set (slots cp)"
  shows "0 < refs_to sv a"
proof -
  have "0 < count_list (slots cp) a" using assms(3) count_list_0_iff [of "slots cp" a] by (cases "count_list (slots cp) a") simp_all
  also have "\<dots> = (case cget p sv of None \<Rightarrow> 0 | Some c \<Rightarrow> count_list (slots c) a)" using assms(1) by simp
  also have "\<dots> \<le> refs_to sv a" unfolding refs_to_def using assms(2) by (intro member_le_sum) auto
  finally show ?thesis .
qed

lemma children_in_slots: "set (ca_data (children_of k c)) \<subseteq> set (slots c)"
  by (cases k) (auto simp: children_of_def slots_def all_children_def child_array_init_def)

lemma live_counted:
  assumes "tree_inv sv g d" "cget a sv = Some c"
  shows "c_refcount c \<noteq> 0"
proof (cases "a = g")
  case True
  then show ?thesis using tree_invD(5) [OF assms] by simp
next
  case False
  then obtain p cp where p: "cget p sv = Some cp" "a \<in> set (ca_data (children_of (c_kind c) cp))"
    using tree_invD(3) [OF assms] by (auto simp: node_ok_def)
  then have "p < sv_next sv" using tree_invD(3) [OF assms(1) p(1)] by (simp add: node_ok_def)
  then show ?thesis using tree_invD(5) [OF assms] member_counts [OF p(1), of a] children_in_slots [of "c_kind c" cp] p(2) by auto
qed

section \<open>Changes that leave the tree as it is\<close>

definition same_links :: "container \<Rightarrow> container \<Rightarrow> bool" where
  "same_links c c' \<longleftrightarrow> c_kind c' = c_kind c \<and> c_id c' = c_id c \<and> c_name c' = c_name c \<and> c_parent c' = c_parent c
     \<and> (\<forall>k. children_of k c' = children_of k c) \<and> p_command c' = p_command c"

lemma same_links_slots: "same_links c c' \<Longrightarrow> slots c' = slots c"
  unfolding slots_def all_children_def
  by (simp add: same_links_def) (metis (no_types, lifting) children_of_def kind.simps)

lemma same_links_has_children: "same_links c c' \<Longrightarrow> has_children k c' = has_children k c"
  by (cases k) (simp_all add: same_links_def has_children_def ni_testbus_container_has_feature_def)

text \<open>The members a change of one container must keep right itself.\<close>

definition self_ok :: "server \<Rightarrow> container \<Rightarrow> bool" where
  "self_ok sv c \<longleftrightarrow> (\<forall>o'. c_owner c = Some o' \<longrightarrow> cget o' sv \<noteq> None) \<and> env_wf (c_env c) \<and> sa_wf (cmd_argv c)
     \<and> sa_wf (h_capabilities c) \<and> (h_ready c \<longrightarrow> h_agent_bus_name c \<noteq> None)"

lemma change_container:
  assumes "tree_inv sv g d" "cget a sv = Some c" "same_links c c'" "self_ok sv c'" "c_refcount c' = c_refcount c + e"
  shows "tree_inv (cset a c' sv) g (d(a := d a + e))"
proof -
  let ?sv = "cset a c' sv"
  have a: "a < sv_next sv" using tree_invD(3) [OF assms(1,2)] by (simp add: node_ok_def)
  have nx: "sv_next ?sv = sv_next sv" "sv_global ?sv = sv_global sv" "sv_names ?sv = sv_names sv" by (simp_all add: cset_def)
  have fwd: "\<exists>cx'. cget x ?sv = Some cx' \<and> same_links cx cx'" if "cget x sv = Some cx" for x cx
    using that assms(2,3) by (cases "x = a") (auto simp: same_links_def)
  have bwd: "\<exists>cx. cget x sv = Some cx \<and> same_links cx cx'" if "cget x ?sv = Some cx'" for x cx'
    using that assms(2,3) by (cases "x = a") (auto simp: same_links_def)
  have refs: "refs_to ?sv x = refs_to sv x" for x using refs_to_cset_same [OF a assms(2) same_links_slots [OF assms(3)]] .
  have node: "node_ok ?sv g x cx'" if x: "cget x ?sv = Some cx'" for x cx'
  proof -
    obtain cx where cx: "cget x sv = Some cx" "same_links cx cx'" using bwd [OF x] by blast
    note n = tree_invD(3) [OF assms(1) cx(1)]
    have self: "self_ok sv cx'" using n x assms(2,4) cx by (cases "x = a") (auto simp: self_ok_def node_ok_def)
    have par: "\<exists>p cp. c_parent cx' = Some p \<and> p < x \<and> cget p ?sv = Some cp \<and> has_children (c_kind cx') cp
        \<and> x \<in> set (ca_data (children_of (c_kind cx') cp)) \<and> unat (c_id cx') < unat (ca_next_id (children_of (c_kind cx') cp))" if xg: "x \<noteq> g"
    proof -
      obtain p cp where p: "c_parent cx = Some p" "p < x" "cget p sv = Some cp" "has_children (c_kind cx) cp"
          "x \<in> set (ca_data (children_of (c_kind cx) cp))" "unat (c_id cx) < unat (ca_next_id (children_of (c_kind cx) cp))"
        using n xg by (auto simp: node_ok_def)
      obtain cp' where cp': "cget p ?sv = Some cp'" "same_links cp cp'" using fwd [OF p(3)] by blast
      show ?thesis using p cp' cx(2) same_links_has_children [OF cp'(2)] by (intro exI [of _ p] exI [of _ cp']) (simp add: same_links_def)
    qed
    have own: "\<forall>o'. c_owner cx' = Some o' \<longrightarrow> cget o' ?sv \<noteq> None" using self by (simp add: self_ok_def)
    have cmd: "c_kind cx' = Process \<and> (\<exists>cm. cget m ?sv = Some cm \<and> c_kind cm = Command)" if "p_command cx' = Some m" for m
    proof -
      have "c_kind cx = Process" "\<exists>cm. cget m sv = Some cm \<and> c_kind cm = Command"
        using n that cx(2) unfolding node_ok_def same_links_def by simp_all
      then show ?thesis using fwd cx(2) unfolding same_links_def by metis
    qed
    show ?thesis using n par own cmd self cx(2) nx unfolding node_ok_def self_ok_def same_links_def by simp
  qed
  have kids: "children_ok ?sv x cx' k" if x: "cget x ?sv = Some cx'" for x cx' k
  proof -
    obtain cx where cx: "cget x sv = Some cx" "same_links cx cx'" using bwd [OF x] by blast
    note ch = tree_invD(4) [OF assms(1) cx(1), of k]
    have "\<exists>cy. cget y ?sv = Some cy \<and> c_kind cy = k \<and> (k \<noteq> Host \<longrightarrow> c_parent cy = Some x)" if y: "y \<in> set (ca_data (children_of k cx))" for y
    proof -
      obtain cy where "cget y sv = Some cy" "c_kind cy = k" "k \<noteq> Host \<longrightarrow> c_parent cy = Some x" using ch y by (auto simp: children_ok_def)
      then show ?thesis using fwd unfolding same_links_def by metis
    qed
    moreover have "y = z" if yz: "y \<in> set (ca_data (children_of k cx))" "z \<in> set (ca_data (children_of k cx))" "cget y ?sv = Some cy" "cget z ?sv = Some cz"
        "c_parent cy = Some x" "c_parent cz = Some x" "c_id cy = c_id cz \<or> k = Host \<and> c_name cy = c_name cz" for y z cy cz
    proof -
      obtain cy0 cz0 where "cget y sv = Some cy0" "same_links cy0 cy" "cget z sv = Some cz0" "same_links cz0 cz" using bwd yz(3,4) by blast
      then show ?thesis using ch yz unfolding children_ok_def same_links_def by metis
    qed
    ultimately show ?thesis using ch cx(2) nx by (simp add: children_ok_def same_links_def)
  qed
  have count: "c_refcount cx' = refs_to ?sv x + (if x = g then 1 else 0) + (d(a := d a + e)) x" if x: "cget x ?sv = Some cx'" for x cx'
  proof (cases "x = a")
    case True
    then have "cx' = c'" using x by simp
    then show ?thesis using True assms(2,5) tree_invD(5) [OF assms(1,2)] refs [of a] by simp
  next
    case False
    then show ?thesis using x tree_invD(5) [OF assms(1), of x cx'] refs [of x] by simp
  qed
  show ?thesis unfolding tree_inv_def using tree_invD(1,2,6) [OF assms(1)] fwd node kids count nx by auto
qed

section \<open>A new child\<close>

lemma with_child_simps [simp]:
  "c_kind (with_child k a p) = c_kind p" "c_id (with_child k a p) = c_id p" "c_name (with_child k a p) = c_name p"
  "c_parent (with_child k a p) = c_parent p" "c_owner (with_child k a p) = c_owner p" "c_env (with_child k a p) = c_env p"
  "p_command (with_child k a p) = p_command p" "c_refcount (with_child k a p) = c_refcount p" "cmd_argv (with_child k a p) = cmd_argv p"
  "h_capabilities (with_child k a p) = h_capabilities p" "h_ready (with_child k a p) = h_ready p" "h_agent_bus_name (with_child k a p) = h_agent_bus_name p"
  by (cases k; simp add: with_child_def set_children_def)+

lemma with_child_children:
  "k \<noteq> Global \<Longrightarrow> children_of k' (with_child k a p) =
     (if k' = k then \<lparr>ca_data = ca_data (children_of k p) @ [a], ca_next_id = ca_next_id (children_of k p) + 1\<rparr> else children_of k' p)"
  by (cases k; cases k'; simp add: with_child_def set_children_def children_of_def)

lemma with_child_slots: "k \<noteq> Global \<Longrightarrow> count_list (slots (with_child k a p)) x = count_list (slots p) x + (if x = a then 1 else 0)"
  by (cases k) (simp_all add: with_child_def set_children_def children_of_def slots_def all_children_def)

lemma dead_unreferenced:
  assumes "tree_inv sv g d" "cget a sv = None"
  shows "refs_to sv a = 0" "cget p sv = Some cp \<Longrightarrow> a \<notin> set (slots cp)"
proof -
  have notin: "a \<notin> set (slots cp)" if p: "cget p sv = Some cp" for p cp
  proof -
    have "a \<notin> set (ca_data (children_of k cp))" for k
      using tree_invD(4) [OF assms(1) p, of k] assms(2) by (auto simp: children_ok_def)
    from this [of Host] this [of Testcase] this [of Command] this [of Process] this [of Monitor]
    have "a \<notin> set (all_children cp)" "a \<notin> set (ca_data (c_monitors cp))" by (simp_all add: children_of_def all_children_def)
    moreover have "p_command cp \<noteq> Some a" using tree_invD(3) [OF assms(1) p] assms(2) by (auto simp: node_ok_def)
    ultimately show ?thesis by (auto simp: slots_def split: option.splits)
  qed
  then show "cget p sv = Some cp \<Longrightarrow> a \<notin> set (slots cp)" by blast
  show "refs_to sv a = 0" unfolding refs_to_def
  proof (intro sum.neutral ballI)
    fix p
    show "(case cget p sv of None \<Rightarrow> 0 | Some c \<Rightarrow> count_list (slots c) a) = 0"
      using notin count_list_0_iff by (fastforce split: option.splits)
  qed
qed

definition is_new :: "server \<Rightarrow> kind \<Rightarrow> nat \<Rightarrow> container \<Rightarrow> container \<Rightarrow> bool" where
  "is_new sv k p cp n \<longleftrightarrow> c_kind n = k \<and> c_id n = ca_next_id (children_of k cp) \<and> c_parent n = Some p \<and> c_refcount n = 1
     \<and> (\<forall>k'. children_of k' n = child_array_init) \<and> self_ok sv n"

definition drop_ref :: "nat option \<Rightarrow> (nat \<Rightarrow> nat) \<Rightarrow> nat \<Rightarrow> nat" where
  "drop_ref m d = (case m of None \<Rightarrow> d | Some x \<Rightarrow> d(x := d x - 1))"

definition add_child :: "kind \<Rightarrow> nat \<Rightarrow> container \<Rightarrow> container \<Rightarrow> server \<Rightarrow> server" where
  "add_child k p cp n sv = cset (sv_next sv) n (cset p (with_child k (sv_next sv) cp) (sv\<lparr>sv_next := sv_next sv + 1\<rparr>))"

lemma add_child_inv:
  assumes inv: "tree_inv sv g d" and p: "cget p sv = Some cp" and k: "has_children k cp" "k \<noteq> Monitor" and small: "sv_next sv + 1 < 2 ^ 32"
    and n: "is_new sv k p cp n" and d: "d (sv_next sv) = 0"
    and host: "k = Host \<Longrightarrow> p = g \<and> (\<forall>x\<in>set (ca_data (c_hosts cp)). \<forall>cx. cget x sv = Some cx \<longrightarrow> c_name cx \<noteq> c_name n)"
    and cmd: "\<And>m. p_command n = Some m \<Longrightarrow> k = Process \<and> 0 < d m \<and> (\<exists>cm. cget m sv = Some cm \<and> c_kind cm = Command)"
  shows "tree_inv (add_child k p cp n sv) g (drop_ref (p_command n) d)"
proof -
  let ?a = "sv_next sv"
  define S where "S = add_child k p cp n sv"
  have kG: "k \<noteq> Global" using k(1) by (auto simp: has_children_def)
  have dead: "cget ?a sv = None" using tree_invD(3) [OF inv] by (cases "cget ?a sv") (fastforce simp: node_ok_def)+
  have pa: "p < ?a" using tree_invD(3) [OF inv p] by (simp add: node_ok_def)
  have get: "cget x S = (if x = ?a then Some n else if x = p then Some (with_child k ?a cp) else cget x sv)" for x
    by (simp add: S_def add_child_def)
  have live: "cget y S \<noteq> None" if "cget y sv \<noteq> None" for y using that by (simp add: get)
  have other: "sv_next S = ?a + 1" "sv_global S = sv_global sv" "sv_names S = sv_names sv" by (simp_all add: S_def add_child_def cset_def)
  have nid: "unat (ca_next_id (children_of k cp)) < sv_next sv + 1" using tree_invD(4) [OF inv p, of k] by (simp add: children_ok_def)
  have nid1: "unat (ca_next_id (children_of k cp) + 1) = unat (ca_next_id (children_of k cp)) + 1"
    using nid small by (simp add: unat_word_ariths)
  have refs: "refs_to S x = refs_to sv x + (if x = ?a then 1 else 0) + (if p_command n = Some x then 1 else 0)" for x
  proof -
    let ?sv1 = "cset p (with_child k ?a cp) sv"
    have "S = (cset (sv_next ?sv1) n ?sv1)\<lparr>sv_next := Suc (sv_next ?sv1)\<rparr>" by (simp add: S_def add_child_def cset_def)
    then have "refs_to S x = refs_to ?sv1 x + count_list (slots n) x" using refs_to_new by metis
    moreover have "refs_to ?sv1 x = refs_to sv x + (if x = ?a then 1 else 0)"
      using refs_to_cset [OF pa p, of "with_child k ?a cp" x] with_child_slots [OF kG] by simp
    moreover have "slots n = (case p_command n of None \<Rightarrow> [] | Some m \<Rightarrow> [m])"
    proof -
      have e: "children_of k' n = child_array_init" for k' using n by (simp add: is_new_def)
      from e [of Host] e [of Testcase] e [of Command] e [of Process] e [of Monitor]
      show ?thesis by (simp add: children_of_def slots_def all_children_def child_array_init_def)
    qed
    ultimately show ?thesis by (auto split: option.splits)
  qed
  have fwd: "\<exists>cx'. cget x S = Some cx' \<and> c_kind cx' = c_kind cx \<and> c_id cx' = c_id cx \<and> c_name cx' = c_name cx \<and> c_parent cx' = c_parent cx
      \<and> has_children k' cx' = has_children k' cx \<and> set (ca_data (children_of k' cx)) \<subseteq> set (ca_data (children_of k' cx'))
      \<and> unat (ca_next_id (children_of k' cx)) \<le> unat (ca_next_id (children_of k' cx'))" if x: "cget x sv = Some cx" for x cx k'
  proof (cases "x = p")
    case True
    then have "cx = cp" using x p by simp
    moreover have "has_children k' (with_child k ?a cp) = has_children k' cp"
      by (cases k') (simp_all add: has_children_def ni_testbus_container_has_feature_def)
    ultimately show ?thesis using True get [of p] pa with_child_children [OF kG, of k' ?a cp] nid1 by auto
  next
    case False
    then show ?thesis using x get [of x] dead by (cases "x = ?a") auto
  qed
  have node: "node_ok S g x cx'" if x: "cget x S = Some cx'" for x cx'
  proof (cases "x = ?a")
    case True
    then have cx': "cx' = n" using x get by simp
    have ag: "?a \<noteq> g" using tree_invD(2) [OF inv] dead by auto
    have cp': "cget p S = Some (with_child k ?a cp)" using get [of p] pa by simp
    have hc: "has_children k (with_child k ?a cp)" using fwd [OF p, of k] cp' k(1) by auto
    have "\<exists>q cq. c_parent n = Some q \<and> q < ?a \<and> cget q S = Some cq \<and> has_children (c_kind n) cq \<and> ?a \<in> set (ca_data (children_of (c_kind n) cq))
         \<and> unat (c_id n) < unat (ca_next_id (children_of (c_kind n) cq))"
      using n pa cp' hc with_child_children [OF kG, of k ?a cp] nid1
      by (intro exI [of _ p] exI [of _ "with_child k ?a cp"]) (simp add: is_new_def)
    moreover have "\<forall>o'. c_owner n = Some o' \<longrightarrow> cget o' S \<noteq> None" using n live unfolding is_new_def self_ok_def by simp
    moreover have "c_kind n = Process \<and> (\<exists>cm. cget m S = Some cm \<and> c_kind cm = Command)" if m: "p_command n = Some m" for m
      using cmd [OF m] n fwd unfolding is_new_def by metis
    ultimately show ?thesis using True cx' n kG k(2) ag host other unfolding node_ok_def is_new_def self_ok_def by simp
  next
    case False
    obtain cx where cx: "cget x sv = Some cx" "c_kind cx' = c_kind cx" "c_id cx' = c_id cx" "c_parent cx' = c_parent cx" "c_owner cx' = c_owner cx"
        "p_command cx' = p_command cx" "self_ok sv cx \<longrightarrow> self_ok sv cx'"
    proof (cases "x = p")
      case True
      then have cx': "cx' = with_child k ?a cp" using x get [of p] pa by simp
      show ?thesis by (rule that [of cp]) (use p True in \<open>simp_all add: cx' self_ok_def\<close>)
    next
      case False
      show ?thesis by (rule that [of cx']) (use x get [of x] False \<open>x \<noteq> ?a\<close> in simp_all)
    qed
    note nx = tree_invD(3) [OF inv cx(1)]
    have "self_ok sv cx" using nx unfolding self_ok_def node_ok_def by blast
    then have "self_ok sv cx'" using cx(7) by blast
    moreover have own: "\<forall>o'. c_owner cx' = Some o' \<longrightarrow> cget o' S \<noteq> None" using \<open>self_ok sv cx'\<close> live unfolding self_ok_def by simp
    moreover have par: "\<exists>q cq. c_parent cx' = Some q \<and> q < x \<and> cget q S = Some cq \<and> has_children (c_kind cx') cq
        \<and> x \<in> set (ca_data (children_of (c_kind cx') cq)) \<and> unat (c_id cx') < unat (ca_next_id (children_of (c_kind cx') cq))" if xg: "x \<noteq> g"
    proof -
      obtain q cq where q: "c_parent cx = Some q" "q < x" "cget q sv = Some cq" "has_children (c_kind cx) cq"
          "x \<in> set (ca_data (children_of (c_kind cx) cq))" "unat (c_id cx) < unat (ca_next_id (children_of (c_kind cx) cq))"
        using nx xg by (auto simp: node_ok_def)
      obtain cq' where cq': "cget q S = Some cq'" "has_children (c_kind cx) cq'"
          "x \<in> set (ca_data (children_of (c_kind cx) cq'))" "unat (c_id cx) < unat (ca_next_id (children_of (c_kind cx) cq'))"
        using fwd [OF q(3), of "c_kind cx"] q(4-6) by fastforce
      show ?thesis using q(1,2) cq' cx by (intro exI [of _ q] exI [of _ cq']) simp
    qed
    moreover have "c_kind cx' = Process \<and> (\<exists>cm. cget m S = Some cm \<and> c_kind cm = Command)" if m: "p_command cx' = Some m" for m
    proof -
      have "c_kind cx = Process" "\<exists>cm. cget m sv = Some cm \<and> c_kind cm = Command" using nx m cx(6) unfolding node_ok_def by simp_all
      then obtain cm where "c_kind cx = Process" "cget m sv = Some cm" "c_kind cm = Command" by blast
      then show ?thesis using fwd [of m cm k] cx(2) by auto
    qed
    ultimately show ?thesis using nx cx other unfolding node_ok_def self_ok_def by simp
  qed
  have old: "\<exists>cx. cget x sv = Some cx \<and> c_kind cx' = c_kind cx \<and> c_id cx' = c_id cx \<and> c_name cx' = c_name cx \<and> c_parent cx' = c_parent cx"
    if "cget x S = Some cx'" "x \<noteq> ?a" for x cx'
    using that get [of x] p by (cases "x = p") auto
  have kept: "children_ok S x cx' k'" if x: "cget x sv = Some cx" and ch: "children_of k' cx' = children_of k' cx" for x cx cx' k'
  proof -
    note ok = tree_invD(4) [OF inv x, of k']
    have alive: "y \<noteq> ?a" if "y \<in> set (ca_data (children_of k' cx))" for y using ok that dead by (auto simp: children_ok_def)
    have "\<exists>cy. cget y S = Some cy \<and> c_kind cy = k' \<and> (k' \<noteq> Host \<longrightarrow> c_parent cy = Some x)" if y: "y \<in> set (ca_data (children_of k' cx))" for y
    proof -
      obtain cy where "cget y sv = Some cy" "c_kind cy = k'" "k' \<noteq> Host \<longrightarrow> c_parent cy = Some x" using ok y by (auto simp: children_ok_def)
      then show ?thesis using fwd [of y cy k'] by fastforce
    qed
    moreover have "y = z" if yz: "y \<in> set (ca_data (children_of k' cx))" "z \<in> set (ca_data (children_of k' cx))" "cget y S = Some cy" "cget z S = Some cz"
        "c_parent cy = Some x" "c_parent cz = Some x" "c_id cy = c_id cz \<or> k' = Host \<and> c_name cy = c_name cz" for y z cy cz
    proof -
      obtain cy0 cz0 where "cget y sv = Some cy0" "c_id cy = c_id cy0" "c_name cy = c_name cy0" "c_parent cy = c_parent cy0"
          "cget z sv = Some cz0" "c_id cz = c_id cz0" "c_name cz = c_name cz0" "c_parent cz = c_parent cz0"
        using old [OF yz(3) alive [OF yz(1)]] old [OF yz(4) alive [OF yz(2)]] by metis
      then show ?thesis using ok yz unfolding children_ok_def by metis
    qed
    ultimately show ?thesis using ok ch other by (simp add: children_ok_def)
  qed
  have kids: "children_ok S x cx' k'" if x: "cget x S = Some cx'" for x cx' k'
  proof (cases "x = ?a")
    case True
    then show ?thesis using x get n by (simp add: children_ok_def is_new_def child_array_init_def)
  next
    case False
    show ?thesis
    proof (cases "x = p \<and> k' = k")
      case True
      then have cx': "cx' = with_child k ?a cp" using x get [of p] pa by simp
      have ch: "children_of k cx' = \<lparr>ca_data = ca_data (children_of k cp) @ [?a], ca_next_id = ca_next_id (children_of k cp) + 1\<rparr>"
        using cx' with_child_children [OF kG, of k] by simp
      note ok = tree_invD(4) [OF inv p, of k]
      have na: "cget ?a S = Some n" using get by simp
      have alive: "y \<noteq> ?a" if "y \<in> set (ca_data (children_of k cp))" for y using ok that dead by (auto simp: children_ok_def)
      have mem: "\<exists>cy. cget y S = Some cy \<and> c_kind cy = k \<and> (k \<noteq> Host \<longrightarrow> c_parent cy = Some p)" if y: "y \<in> set (ca_data (children_of k cp)) \<union> {?a}" for y
      proof (cases "y = ?a")
        case True
        then show ?thesis using na n by (simp add: is_new_def)
      next
        case False
        then obtain cy where "cget y sv = Some cy" "c_kind cy = k" "k \<noteq> Host \<longrightarrow> c_parent cy = Some p" using ok y by (auto simp: children_ok_def)
        then show ?thesis using fwd [of y cy k] by fastforce
      qed
      have fresh: "c_id cy \<noteq> c_id n \<and> (k = Host \<longrightarrow> c_name cy \<noteq> c_name n)"
        if y: "y \<in> set (ca_data (children_of k cp))" "cget y S = Some cy" "c_parent cy = Some p" for y cy
      proof -
        obtain cy0 where cy0: "cget y sv = Some cy0" "c_id cy = c_id cy0" "c_name cy = c_name cy0" "c_parent cy0 = Some p"
          using old [OF y(2) alive [OF y(1)]] y(3) by auto
        have kd: "c_kind cy0 = k" using ok y(1) cy0(1) by (auto simp: children_ok_def)
        have "y \<noteq> g" using tree_invD(3) [OF inv cy0(1)] cy0(4) by (auto simp: node_ok_def)
        then have "unat (c_id cy0) < unat (ca_next_id (children_of k cp))"
          using tree_invD(3) [OF inv cy0(1)] cy0(4) p kd by (auto simp: node_ok_def)
        moreover have "k = Host \<longrightarrow> c_name cy0 \<noteq> c_name n" using host y(1) cy0(1) by (auto simp: children_of_def)
        ultimately show ?thesis using cy0(2,3) n by (auto simp: is_new_def)
      qed
      have "y = z" if yz: "y \<in> set (ca_data (children_of k cp)) \<union> {?a}" "z \<in> set (ca_data (children_of k cp)) \<union> {?a}" "cget y S = Some cy" "cget z S = Some cz"
          "c_parent cy = Some p" "c_parent cz = Some p" "c_id cy = c_id cz \<or> k = Host \<and> c_name cy = c_name cz" for y z cy cz
      proof (cases "y = ?a \<or> z = ?a")
        case True
        then show ?thesis using yz fresh [of y cy] fresh [of z cz] na by auto
      next
        case False
        then show ?thesis using yz kept [OF p, of k cp] unfolding children_ok_def by blast
      qed
      then show ?thesis using True mem ch nid1 other nid by (simp add: children_ok_def)
    next
      case no: False
      obtain cx where cx: "cget x sv = Some cx" "children_of k' cx' = children_of k' cx"
        using x get [of x] p False no with_child_children [OF kG, of k' ?a cp] by (cases "x = p") auto
      then show ?thesis using kept by blast
    qed
  qed
  have count: "c_refcount cx' = refs_to S x + (if x = g then 1 else 0) + drop_ref (p_command n) d x" if x: "cget x S = Some cx'" for x cx'
  proof (cases "x = ?a")
    case True
    have "?a \<noteq> g" using tree_invD(2) [OF inv] dead by auto
    moreover have "p_command n \<noteq> Some ?a" using cmd dead by auto
    ultimately show ?thesis using True x get n refs [of ?a] dead_unreferenced(1) [OF inv dead] d
      by (auto simp: is_new_def drop_ref_def split: option.splits)
  next
    case False
    obtain cx where cx: "cget x sv = Some cx" "c_refcount cx' = c_refcount cx" using x get [of x] p False by (cases "x = p") auto
    then show ?thesis using tree_invD(5) [OF inv cx(1)] refs [of x] False cmd by (auto simp: drop_ref_def split: option.splits)
  qed
  have "\<exists>cg. cget g S = Some cg" using tree_invD(2) [OF inv] live [of g] by auto
  then show ?thesis unfolding tree_inv_def S_def [symmetric] using tree_invD(1,6) [OF inv] node kids count other by simp
qed

section \<open>References and claims\<close>

lemma get_inv:
  assumes "tree_inv sv g d" "cget a sv = Some c"
  shows "ni_testbus_container_get a sv = Some (cset a (c\<lparr>c_refcount := c_refcount c + 1\<rparr>) sv)"
    "tree_inv (cset a (c\<lparr>c_refcount := c_refcount c + 1\<rparr>) sv) g (d(a := d a + 1))"
proof -
  let ?c = "c\<lparr>c_refcount := c_refcount c + 1\<rparr>"
  have "same_links c ?c" by (simp add: same_links_def children_of_def split: kind.split)
  moreover have "self_ok sv ?c" using tree_invD(3) [OF assms] by (simp add: self_ok_def node_ok_def)
  ultimately show "tree_inv (cset a ?c sv) g (d(a := d a + 1))" using change_container [OF assms, of ?c 1] by simp
  show "ni_testbus_container_get a sv = Some (cset a ?c sv)" using assms(2) live_counted [OF assms] by (simp add: ni_testbus_container_get_def)
qed

definition with_host :: "nat \<Rightarrow> container \<Rightarrow> container" where
  "with_host h p = p\<lparr>c_hosts := (c_hosts p)\<lparr>ca_data := ca_data (c_hosts p) @ [h]\<rparr>\<rparr>"

lemma with_host_simps [simp]:
  "children_of k (with_host h p) = (if k = Host then (c_hosts p)\<lparr>ca_data := ca_data (c_hosts p) @ [h]\<rparr> else children_of k p)"
  "c_kind (with_host h p) = c_kind p" "c_id (with_host h p) = c_id p" "c_name (with_host h p) = c_name p"
  "c_parent (with_host h p) = c_parent p" "p_command (with_host h p) = p_command p" "c_refcount (with_host h p) = c_refcount p"
  "c_hosts (with_host h p) = (c_hosts p)\<lparr>ca_data := ca_data (c_hosts p) @ [h]\<rparr>" "self_ok sv (with_host h p) = self_ok sv p" "has_children k (with_host h p) = has_children k p"
  by (cases k; simp add: with_host_def children_of_def self_ok_def has_children_def ni_testbus_container_has_feature_def)+

lemma children_of_Host: "children_of Host c = c_hosts c"
  by (simp add: children_of_def)

lemma with_host_slots: "count_list (slots (with_host h p)) x = count_list (slots p) x + (if x = h then 1 else 0)"
  by (simp add: with_host_def slots_def all_children_def)

lemma self_ok_node: "self_ok sv c \<and> node_ok sv g a c \<longleftrightarrow> node_ok sv g a c"
  by (auto simp: self_ok_def node_ok_def)

lemma claim_inv:
  assumes inv: "tree_inv sv g d" and p: "cget p sv = Some cp" and h: "cget h sv = Some ch" "c_kind ch = Host" and d: "0 < d h"
  shows "tree_inv (cset p (with_host h cp) sv) g (d(h := d h - 1))"
proof -
  define S where "S = cset p (with_host h cp) sv"
  have get: "cget x S = (if x = p then Some (with_host h cp) else cget x sv)" for x by (simp add: S_def)
  have other: "sv_next S = sv_next sv" "sv_global S = sv_global sv" "sv_names S = sv_names sv" by (simp_all add: S_def cset_def)
  have pn: "p < sv_next sv" using tree_invD(3) [OF inv p] by (simp add: node_ok_def)
  have refs: "refs_to S x = refs_to sv x + (if x = h then 1 else 0)" for x
    using refs_to_cset [OF pn p, of "with_host h cp" x] with_host_slots unfolding S_def by simp
  have old: "\<exists>cx. cget x sv = Some cx \<and> c_kind cx' = c_kind cx \<and> c_id cx' = c_id cx \<and> c_name cx' = c_name cx \<and> c_parent cx' = c_parent cx
      \<and> p_command cx' = p_command cx \<and> c_refcount cx' = c_refcount cx \<and> self_ok sv cx' = self_ok sv cx" if "cget x S = Some cx'" for x cx'
    using that get [of x] p by (cases "x = p") auto
  have fwd: "\<exists>cx'. cget x S = Some cx' \<and> c_kind cx' = c_kind cx \<and> c_id cx' = c_id cx \<and> c_name cx' = c_name cx \<and> c_parent cx' = c_parent cx
      \<and> has_children k cx' = has_children k cx \<and> set (ca_data (children_of k cx)) \<subseteq> set (ca_data (children_of k cx'))
      \<and> ca_next_id (children_of k cx') = ca_next_id (children_of k cx)" if x: "cget x sv = Some cx" for x cx k
  proof (cases "x = p")
    case True
    then have "cx = cp" using x p by simp
    then show ?thesis using True get [of p] by (intro exI [of _ "with_host h cp"]) (auto simp: children_of_Host)
  next
    case False
    then show ?thesis using x get [of x] by simp
  qed
  have live: "cget y S \<noteq> None" if "cget y sv \<noteq> None" for y using that by (simp add: get)
  have node: "node_ok S g x cx'" if x: "cget x S = Some cx'" for x cx'
  proof -
    obtain cx where cx: "cget x sv = Some cx" "c_kind cx' = c_kind cx" "c_id cx' = c_id cx" "c_parent cx' = c_parent cx"
        "p_command cx' = p_command cx" "self_ok sv cx' = self_ok sv cx" using old [OF x] by blast
    note nx = tree_invD(3) [OF inv cx(1)]
    have self: "self_ok sv cx'" using cx(6) self_ok_node [of sv cx g x] nx by blast
    have own: "\<forall>o'. c_owner cx' = Some o' \<longrightarrow> cget o' S \<noteq> None" using self live unfolding self_ok_def by simp
    have par: "\<exists>q cq. c_parent cx' = Some q \<and> q < x \<and> cget q S = Some cq \<and> has_children (c_kind cx') cq
        \<and> x \<in> set (ca_data (children_of (c_kind cx') cq)) \<and> unat (c_id cx') < unat (ca_next_id (children_of (c_kind cx') cq))" if xg: "x \<noteq> g"
    proof -
      obtain q cq where q: "c_parent cx = Some q" "q < x" "cget q sv = Some cq" "has_children (c_kind cx) cq"
          "x \<in> set (ca_data (children_of (c_kind cx) cq))" "unat (c_id cx) < unat (ca_next_id (children_of (c_kind cx) cq))"
        using nx xg by (auto simp: node_ok_def)
      obtain cq' where cq': "cget q S = Some cq'" "has_children (c_kind cx) cq'"
          "x \<in> set (ca_data (children_of (c_kind cx) cq'))" "unat (c_id cx) < unat (ca_next_id (children_of (c_kind cx) cq'))"
        using fwd [OF q(3), of "c_kind cx"] q(4-6) by fastforce
      show ?thesis using q(1,2) cq' cx by (intro exI [of _ q] exI [of _ cq']) simp
    qed
    have cmd: "c_kind cx' = Process \<and> (\<exists>cm. cget m S = Some cm \<and> c_kind cm = Command)" if m: "p_command cx' = Some m" for m
    proof -
      have "c_kind cx = Process" "\<exists>cm. cget m sv = Some cm \<and> c_kind cm = Command" using nx m cx(5) unfolding node_ok_def by simp_all
      then obtain cm where "c_kind cx = Process" "cget m sv = Some cm" "c_kind cm = Command" by blast
      then show ?thesis using fwd [of m cm Host] cx(2) by auto
    qed
    show ?thesis using nx own par cmd self cx other unfolding node_ok_def self_ok_def by simp
  qed
  have kids: "children_ok S x cx' k" if x: "cget x S = Some cx'" for x cx' k
  proof -
    obtain cx where cx: "cget x sv = Some cx" using old [OF x] by blast
    note ok = tree_invD(4) [OF inv cx, of k]
    have new: "set (ca_data (children_of k cx')) = set (ca_data (children_of k cx)) \<union> (if x = p \<and> k = Host then {h} else {})"
        "ca_next_id (children_of k cx') = ca_next_id (children_of k cx)"
      using x get [of x] cx p by (auto simp: children_of_Host split: if_splits)
    have mem: "\<exists>cy. cget y S = Some cy \<and> c_kind cy = k \<and> (k \<noteq> Host \<longrightarrow> c_parent cy = Some x)" if y: "y \<in> set (ca_data (children_of k cx'))" for y
    proof -
      obtain cy where "cget y sv = Some cy" "c_kind cy = k" "k \<noteq> Host \<longrightarrow> c_parent cy = Some x"
        using ok y new(1) h by (auto simp: children_ok_def split: if_splits)
      then show ?thesis using fwd [of y cy k] by fastforce
    qed
    have hg: "h \<in> set (ca_data (c_hosts cp))" if "c_parent ch = Some p"
      using tree_invD(3) [OF inv h(1)] h(2) that p by (auto simp: node_ok_def children_of_def)
    have "y = z" if yz: "y \<in> set (ca_data (children_of k cx'))" "z \<in> set (ca_data (children_of k cx'))" "cget y S = Some cy" "cget z S = Some cz"
        "c_parent cy = Some x" "c_parent cz = Some x" "c_id cy = c_id cz \<or> k = Host \<and> c_name cy = c_name cz" for y z cy cz
    proof -
      obtain cy0 cz0 where c0: "cget y sv = Some cy0" "c_id cy = c_id cy0" "c_name cy = c_name cy0" "c_parent cy = c_parent cy0"
          "cget z sv = Some cz0" "c_id cz = c_id cz0" "c_name cz = c_name cz0" "c_parent cz = c_parent cz0"
        using old [OF yz(3)] old [OF yz(4)] by metis
      have "w \<in> set (ca_data (children_of k cx))" if "w \<in> set (ca_data (children_of k cx'))" "cget w sv = Some cw" "c_parent cw = Some x" for w cw
        using that new(1) hg h cx p by (auto simp: children_of_def split: if_splits)
      then have "y \<in> set (ca_data (children_of k cx))" "z \<in> set (ca_data (children_of k cx))" using yz c0 by metis+
      then show ?thesis using ok yz(5-7) c0 unfolding children_ok_def by metis
    qed
    then show ?thesis using mem ok new(2) other unfolding children_ok_def by simp
  qed
  have count: "c_refcount cx' = refs_to S x + (if x = g then 1 else 0) + (d(h := d h - 1)) x" if x: "cget x S = Some cx'" for x cx'
  proof -
    obtain cx where "cget x sv = Some cx" "c_refcount cx' = c_refcount cx" using old [OF x] by blast
    then show ?thesis using tree_invD(5) [OF inv, of x cx] refs [of x] d by auto
  qed
  have "\<exists>cg. cget g S = Some cg" using tree_invD(2) [OF inv] live [of g] by auto
  then show ?thesis unfolding tree_inv_def S_def [symmetric] using tree_invD(1,6) [OF inv] node kids count other by simp
qed

section \<open>Looking up\<close>

lemma find_child_live:
  "\<forall>a\<in>set as. cget a sv \<noteq> None \<Longrightarrow> find_child P as sv = Some (List.find (\<lambda>a. P (the (cget a sv))) as)"
  by (induction as) auto

lemma children_live: "tree_inv sv g d \<Longrightarrow> cget p sv = Some cp \<Longrightarrow> \<forall>a\<in>set (ca_data (children_of k cp)). cget a sv \<noteq> None"
  using tree_invD(4) [of sv g d p cp k] by (auto simp: children_ok_def)

lemma search_up_total:
  assumes "tree_inv sv g d" "\<And>a c. cget a sv = Some c \<Longrightarrow> \<exists>r. f c = Some r" "cget a sv = Some c"
  shows "\<exists>r. search_up globally f (Some a) sv = Some r"
  using assms(3)
proof (induction a arbitrary: c rule: less_induct)
  case (less a)
  obtain r where r: "f c = Some r" using assms(2) less.prems by blast
  show ?case
  proof (cases "c_parent c")
    case None
    then show ?thesis using less.prems r by (auto simp: search_up_some)
  next
    case (Some p)
    then have "a \<noteq> g" using tree_invD(3) [OF assms(1) less.prems] by (auto simp: node_ok_def)
    then obtain cp where "p < a" "cget p sv = Some cp" using tree_invD(3) [OF assms(1) less.prems] Some by (auto simp: node_ok_def)
    then have "\<exists>r. search_up globally f (Some p) sv = Some r" by (rule less.IH)
    moreover have "search_up globally f (Some a) sv = (if r \<noteq> None \<or> \<not> globally then Some r else search_up globally f (Some p) sv)"
      by (subst search_up_some) (simp add: less.prems r Some)
    ultimately show ?thesis by auto
  qed
qed

lemma global_host_by_name:
  assumes "tree_inv sv g d" "cget g sv = Some cg"
  shows "ni_testbus_container_get_host_by_name (Some g) name sv = Some (List.find (\<lambda>a. c_name (the (cget a sv)) = name) (ca_data (c_hosts cg)))"
proof -
  have k: "c_kind cg = Global" "c_parent cg = None" using tree_invD(3) [OF assms] by (simp_all add: node_ok_def)
  have "find_child (\<lambda>c. ni_string_eq (c_name c) name) (ca_data (c_hosts cg)) sv = Some (List.find (\<lambda>a. c_name (the (cget a sv)) = name) (ca_data (c_hosts cg)))"
    using find_child_live [of "ca_data (c_hosts cg)"] children_live [OF assms, of Host] by (simp add: children_of_Host)
  then show ?thesis using assms(2) k
    by (simp add: ni_testbus_container_get_host_by_name_def search_up_some ni_testbus_host_array_find_by_name_def)
qed

lemma global_agent_host:
  assumes "tree_inv sv g d" "cget g sv = Some cg"
  shows "ni_testbus_container_find_agent_host g name sv = Some (List.find (\<lambda>a. h_agent_bus_name (the (cget a sv)) = name) (ca_data (c_hosts cg)))"
proof -
  have k: "c_kind cg = Global" using tree_invD(3) [OF assms] by (simp add: node_ok_def)
  then show ?thesis using assms(2) find_child_live [of "ca_data (c_hosts cg)" sv] children_live [OF assms, of Host]
    by (simp add: ni_testbus_container_find_agent_host_def children_of_Host)
qed

lemma host_by_role_total:
  assumes "tree_inv sv g d" "cget p sv = Some cp"
  shows "\<exists>r. ni_testbus_container_get_host_by_role (Some p) role sv = Some r"
  unfolding ni_testbus_container_get_host_by_role_def
  by (rule search_up_total [OF assms(1) _ assms(2)])
    (use find_child_live children_live [OF assms(1), of _ _ Host] in \<open>fastforce simp: ni_testbus_host_array_find_by_role_def children_of_Host\<close>)

lemma test_by_name_total:
  assumes "tree_inv sv g d" "cget p sv = Some cp"
  shows "\<exists>r. ni_testbus_container_get_test_by_name (Some p) name globally sv = Some r"
  unfolding ni_testbus_container_get_test_by_name_def
  by (rule search_up_total [OF assms(1) _ assms(2)])
    (use find_child_live children_live [OF assms(1), of _ _ Testcase] in \<open>fastforce simp: ni_testbus_test_array_find_by_name_def children_of_def\<close>)

section \<open>Making the kinds\<close>

text \<open>Initialising a container that was just allocated, with its other members filled in.\<close>

lemma init_child:
  assumes inv: "tree_inv sv g d" and p: "cget p sv = Some cp" and k: "has_children k cp" "k \<noteq> Monitor" and small: "sv_next sv + 1 < 2 ^ 32"
    and c: "c_owner (context_init k name p c) = None" "sa_wf (cmd_argv c)" "sa_wf (h_capabilities c)" "\<not> h_ready c" and d: "d (sv_next sv) = 0"
    and host: "k = Host \<Longrightarrow> p = g \<and> (\<forall>x\<in>set (ca_data (c_hosts cp)). c_name (the (cget x sv)) \<noteq> name)"
    and cmd: "\<And>m. p_command c = Some m \<Longrightarrow> k = Process \<and> 0 < d m \<and> (\<exists>cm. cget m sv = Some cm \<and> c_kind cm = Command)"
  shows "\<exists>sv' n. ni_testbus_container_init (sv_next sv) k name p ((cset (sv_next sv) c sv)\<lparr>sv_next := sv_next sv + 1\<rparr>) = Some sv'
     \<and> tree_inv sv' g (drop_ref (p_command c) d) \<and> cget (sv_next sv) sv' = Some n \<and> c_kind n = k \<and> \<not> h_ready n \<and> c_owner n = None
     \<and> sv_next sv' = sv_next sv + 1 \<and> (\<forall>x. cget x sv \<noteq> None \<longrightarrow> cget x sv' \<noteq> None)"
proof -
  let ?a = "sv_next sv"
  let ?sv1 = "(cset ?a c sv)\<lparr>sv_next := ?a + 1\<rparr>"
  let ?n = "new_child k name p (ca_next_id (children_of k cp)) c"
  have pa: "p < ?a" using tree_invD(3) [OF inv p] by (simp add: node_ok_def)
  have g1: "cget ?a ?sv1 = Some c" "cget p ?sv1 = Some cp" using pa p by simp_all
  have "ni_testbus_container_init ?a k name p ?sv1 = Some (cset ?a ?n (cset p (with_child k ?a cp) ?sv1))"
    using container_init_eq [OF g1 _ k] pa by simp
  moreover have "cset ?a ?n (cset p (with_child k ?a cp) ?sv1) = add_child k p cp ?n sv"
    using pa by (simp add: add_child_def cset_def fun_upd_twist)
  moreover have new: "is_new sv k p cp ?n"
  proof -
    have "children_of k' ?n = child_array_init" for k' by (cases k') (simp_all add: new_child_def context_init_def children_of_def)
    then show ?thesis using c env_wf_init(1) by (simp add: is_new_def new_child_def context_init_def self_ok_def)
  qed
  moreover have "tree_inv (add_child k p cp ?n sv) g (drop_ref (p_command ?n) d)"
  proof (rule add_child_inv [OF inv p k small new d])
    show "k = Host \<Longrightarrow> p = g \<and> (\<forall>x\<in>set (ca_data (c_hosts cp)). \<forall>cx. cget x sv = Some cx \<longrightarrow> c_name cx \<noteq> c_name ?n)"
      using host by (fastforce simp: new_child_def context_init_def)
    show "p_command ?n = Some m \<Longrightarrow> k = Process \<and> 0 < d m \<and> (\<exists>cm. cget m sv = Some cm \<and> c_kind cm = Command)" for m
      using cmd by (simp add: new_child_def context_init_def)
  qed
  moreover have "p_command ?n = p_command c" "c_kind ?n = k" "\<not> h_ready ?n" "c_owner ?n = None"
    using c(4) by (simp_all add: new_child_def context_init_def)
  moreover have "cget ?a (add_child k p cp ?n sv) = Some ?n" "sv_next (add_child k p cp ?n sv) = ?a + 1" by (simp_all add: add_child_def cset_def) (simp_all add: cget_def)
  moreover have "\<forall>x. cget x sv \<noteq> None \<longrightarrow> cget x (add_child k p cp ?n sv) \<noteq> None" by (simp add: add_child_def)
  ultimately show ?thesis by metis
qed

lemma blank_simps:
  "c_owner (context_init k name p (blank_container k)) = None" "sa_wf (cmd_argv (blank_container k))" "sa_wf (h_capabilities (blank_container k))"
  "\<not> h_ready (blank_container k)" "p_command (blank_container k) = None" "cmd_argv (blank_container k) = ni_string_array_init"
  by (simp_all add: context_init_def blank_container_def)

lemma drop_no_ref [simp]: "drop_ref None d = d"
  by (simp add: drop_ref_def)

lemma host_new_ok:
  assumes inv: "tree_inv sv g (\<lambda>_. 0)" and small: "sv_next sv + 1 < 2 ^ 32"
  shows "\<exists>r sv'. ni_testbus_host_new g name sv = Some (r, sv') \<and> tree_inv sv' g (\<lambda>_. 0) \<and> sv_next sv' \<le> sv_next sv + 1
     \<and> (\<forall>x. cget x sv \<noteq> None \<longrightarrow> cget x sv' \<noteq> None)
     \<and> (\<forall>h. r = Inr h \<longrightarrow> (\<exists>c. cget h sv' = Some c \<and> c_kind c = Host \<and> \<not> h_ready c))"
proof -
  obtain cg where cg: "cget g sv = Some cg" using tree_invD(2) [OF inv] by blast
  have kg: "c_kind cg = Global" using tree_invD(3) [OF inv cg] by (simp add: node_ok_def)
  let ?r = "List.find (\<lambda>a. c_name (the (cget a sv)) = name) (ca_data (c_hosts cg))"
  have look: "ni_testbus_container_get_host_by_name (Some g) name sv = Some ?r" by (rule global_host_by_name [OF inv cg])
  show ?thesis
  proof (cases ?r)
    case (Some h)
    then show ?thesis using inv cg kg look by (simp add: ni_testbus_host_new_def)
  next
    case None
    have "\<forall>x\<in>set (ca_data (c_hosts cg)). c_name (the (cget x sv)) \<noteq> name" using None by (auto simp: find_none_iff)
    then obtain sv' n where i: "ni_testbus_container_init (sv_next sv) Host name g ((cset (sv_next sv) (blank_container Host) sv)\<lparr>sv_next := sv_next sv + 1\<rparr>) = Some sv'"
        "tree_inv sv' g (\<lambda>_. 0)" "cget (sv_next sv) sv' = Some n" "c_kind n = Host" "\<not> h_ready n" "sv_next sv' = sv_next sv + 1"
        "\<forall>x. cget x sv \<noteq> None \<longrightarrow> cget x sv' \<noteq> None"
      using init_child [OF inv cg, of Host name "blank_container Host"] kg small blank_simps
      by (auto simp: has_children_def)
    then show ?thesis using cg kg look None by (simp add: ni_testbus_host_new_def container_malloc_def)
  qed
qed

lemma testcase_new_ok:
  assumes inv: "tree_inv sv g (\<lambda>_. 0)" and small: "sv_next sv + 1 < 2 ^ 32" and p: "cget p sv = Some cp" "ni_testbus_container_has_feature cp HAS_TESTS"
  shows "\<exists>t sv'. ni_testbus_testcase_new name p sv = Some (t, sv') \<and> tree_inv sv' g (\<lambda>_. 0) \<and> sv_next sv' = sv_next sv + 1"
  using init_child [OF inv p(1), of Testcase name "blank_container Testcase"] p(2) small blank_simps
  by (auto simp: has_children_def ni_testbus_testcase_new_def container_malloc_def)

lemma set_argv_ok:
  "cget a sv = Some c \<Longrightarrow> sa_wf (cmd_argv c) \<Longrightarrow> sa_wf argv \<Longrightarrow>
   \<exists>arr. set_argv a argv sv = Some (cset a (c\<lparr>cmd_argv := arr\<rparr>) sv) \<and> sa_wf arr"
  using ni_string_array_copy_ok [of "cmd_argv c" argv] by (auto simp: set_argv_def)

lemma set_owner_inv:
  assumes "tree_inv sv g d" "cget a sv = Some c" "c_owner c = None" "cget p sv \<noteq> None"
  shows "\<exists>sv'. ni_testbus_container_set_owner a p sv = Some sv' \<and> tree_inv sv' g d \<and> sv_next sv' = sv_next sv"
proof -
  let ?c = "c\<lparr>c_owner := Some p\<rparr>"
  have "same_links c ?c" by (simp add: same_links_def children_of_def split: kind.split)
  moreover have "self_ok sv ?c" using tree_invD(3) [OF assms(1,2)] assms(4) by (simp add: self_ok_def node_ok_def)
  ultimately have "tree_inv (cset a ?c sv) g (d(a := d a + 0))" by (intro change_container [OF assms(1,2)]) simp_all
  then show ?thesis using assms(2,3) by (simp add: ni_testbus_container_set_owner_def cset_def)
qed

lemma command_new_ok:
  assumes inv: "tree_inv sv g (\<lambda>_. 0)" and small: "sv_next sv + 1 < 2 ^ 32" and p: "cget p sv = Some cp" "ni_testbus_container_has_feature cp HAS_CMDS"
    and argv: "sa_wf argv"
  shows "\<exists>a sv' c. ni_testbus_command_new p argv sv = Some (a, sv') \<and> tree_inv sv' g (\<lambda>_. 0) \<and> sv_next sv' = sv_next sv + 1
     \<and> cget a sv' = Some c \<and> c_owner c = None \<and> cget p sv' \<noteq> None"
proof -
  let ?a = "sv_next sv"
  let ?sv1 = "(cset ?a (blank_container Command) sv)\<lparr>sv_next := ?a + 1\<rparr>"
  obtain arr where arr: "set_argv ?a argv ?sv1 = Some (cset ?a ((blank_container Command)\<lparr>cmd_argv := arr\<rparr>) ?sv1)" "sa_wf arr"
    using set_argv_ok [of ?a ?sv1 "blank_container Command" argv] blank_simps argv by auto
  let ?c = "(blank_container Command)\<lparr>cmd_argv := arr\<rparr>"
  have eq: "cset ?a ?c ?sv1 = (cset ?a ?c sv)\<lparr>sv_next := ?a + 1\<rparr>" by (simp add: cset_def)
  obtain sv1 n where i: "ni_testbus_container_init ?a Command None p ((cset ?a ?c sv)\<lparr>sv_next := ?a + 1\<rparr>) = Some sv1"
      "tree_inv sv1 g (\<lambda>_. 0)" "cget ?a sv1 = Some n" "c_owner n = None" "sv_next sv1 = ?a + 1" "\<forall>x. cget x sv \<noteq> None \<longrightarrow> cget x sv1 \<noteq> None"
    using init_child [OF inv p(1), of Command None ?c] p(2) small arr(2)
    by (auto simp: has_children_def context_init_def blank_container_def)
  have "ni_testbus_command_new p argv sv = Some (?a, sv1)"
    using p arr(1) i(1) eq by (simp add: ni_testbus_command_new_def container_malloc_def)
  then show ?thesis using i p(1) by auto
qed

lemma process_new_ok:
  assumes inv: "tree_inv sv g (\<lambda>_. 0)" and small: "sv_next sv + 1 < 2 ^ 32" and h: "cget h sv = Some ch" "c_kind ch = Host"
    and m: "cget m sv = Some cm" "c_kind cm = Command"
  shows "\<exists>pr sv'. ni_testbus_process_new h m sv = Some (pr, sv') \<and> tree_inv sv' g (\<lambda>_. 0) \<and> sv_next sv' = sv_next sv + 1"
proof -
  let ?a = "sv_next sv"
  have ma: "m < ?a" using tree_invD(3) [OF inv m(1)] by (simp add: node_ok_def)
  let ?cm = "cm\<lparr>c_refcount := c_refcount cm + 1\<rparr>"
  let ?svm = "cset m ?cm sv"
  have inv1: "tree_inv ?svm g ((\<lambda>_. 0)(m := 1))" using get_inv(2) [OF inv m(1)] by simp
  have nm: "sv_next ?svm = ?a" by (simp add: cset_def)
  have hm: "h \<noteq> m" using h m by auto
  let ?sv1 = "(cset ?a (blank_container Process) sv)\<lparr>sv_next := ?a + 1\<rparr>"
  let ?sv2 = "cset m ?cm ?sv1"
  have get2: "ni_testbus_container_get m ?sv1 = Some ?sv2"
    using ma m(1) live_counted [OF inv m(1)] by (simp add: ni_testbus_container_get_def)
  let ?b = "(blank_container Process)\<lparr>p_command := Some m\<rparr>"
  let ?sv3 = "cset ?a ?b ?sv2"
  have wf: "sa_wf (cmd_argv cm)" using tree_invD(3) [OF inv m(1)] by (simp add: node_ok_def)
  obtain arr where arr: "set_argv ?a (cmd_argv cm) ?sv3 = Some (cset ?a (?b\<lparr>cmd_argv := arr\<rparr>) ?sv3)" "sa_wf arr"
    using set_argv_ok [of ?a ?sv3 ?b "cmd_argv cm"] wf blank_simps by auto
  let ?c = "?b\<lparr>cmd_argv := arr\<rparr>"
  have eq: "cset ?a ?c ?sv3 = (cset (sv_next ?svm) ?c ?svm)\<lparr>sv_next := sv_next ?svm + 1\<rparr>"
    using ma by (simp add: cset_def fun_upd_twist)
  obtain sv1 n where i: "ni_testbus_container_init (sv_next ?svm) Process None h ((cset (sv_next ?svm) ?c ?svm)\<lparr>sv_next := sv_next ?svm + 1\<rparr>) = Some sv1"
      "tree_inv sv1 g (drop_ref (p_command ?c) ((\<lambda>_. 0)(m := 1)))" "cget (sv_next ?svm) sv1 = Some n" "c_owner n = None" "sv_next sv1 = sv_next ?svm + 1"
      "\<forall>x. cget x ?svm \<noteq> None \<longrightarrow> cget x sv1 \<noteq> None"
    using init_child [OF inv1, of h ch Process None ?c] h hm small arr(2) m ma nm
    by (auto simp: has_children_def context_init_def blank_container_def)
  have d0: "drop_ref (p_command ?c) ((\<lambda>_. 0)(m := 1)) = (\<lambda>_. 0)" by (simp add: drop_ref_def fun_eq_iff)
  have inv2: "tree_inv sv1 g (\<lambda>_. 0)" using i(2) unfolding d0 .
  have live: "cget m sv1 \<noteq> None" using i(6) by simp
  obtain sv' where o: "ni_testbus_container_set_owner ?a m sv1 = Some sv'" "tree_inv sv' g (\<lambda>_. 0)" "sv_next sv' = sv_next sv1"
    using set_owner_inv [OF inv2 i(3,4) live] nm by auto
  have init: "ni_testbus_container_init ?a Process None h (cset ?a ?c ?sv3) = Some sv1" using i(1) eq nm by simp
  have "ni_testbus_process_new h m sv = Some (?a, sv')"
    using h ma get2 arr(1) init o(1) unfolding ni_testbus_process_new_def container_malloc_def by (simp add: Let_def)
  then show ?thesis using o(2,3) i(5) nm by auto
qed

section \<open>Hosts and agents\<close>

text \<open>Changing members that are not links.\<close>

lemma change_members:
  assumes "tree_inv sv g d" "cget a sv = Some c" "same_links c c'" "self_ok sv c'" "c_refcount c' = c_refcount c"
  shows "tree_inv (cset a c' sv) g d \<and> sv_next (cset a c' sv) = sv_next sv"
  using change_container [OF assms(1-4), of 0] assms(5) by (simp add: cset_def)

lemma children_of_other [simp]:
  "children_of k (c\<lparr>h_agent_bus_name := x1\<rparr>) = children_of k c" "children_of k (c\<lparr>h_eventlog := x2\<rparr>) = children_of k c"
  "children_of k (c\<lparr>h_ready := x3\<rparr>) = children_of k c" "children_of k (c\<lparr>h_generation := x4\<rparr>) = children_of k c"
  "children_of k (c\<lparr>h_capabilities := x5\<rparr>) = children_of k c" "children_of k (c\<lparr>c_env := x6\<rparr>) = children_of k c"
  "children_of k (c\<lparr>h_role := x7\<rparr>) = children_of k c" "children_of k (c\<lparr>c_owner := x8\<rparr>) = children_of k c"
  "children_of k (c\<lparr>h_uuid := x9\<rparr>) = children_of k c"
  by (cases k; simp add: children_of_def)+

lemma node_self: "tree_inv sv g d \<Longrightarrow> cget a sv = Some c \<Longrightarrow> self_ok sv c"
  using tree_invD(3) [of sv g d a c] by (auto simp: self_ok_def node_ok_def)

lemma lookup_name_some: "\<forall>m\<in>set ms. nm_bus_name m \<noteq> None \<Longrightarrow> lookup_name (Some n) ms \<noteq> None"
  by (induction ms) auto

lemma set_agent_inv:
  assumes "tree_inv sv g d" "cget h sv = Some c"
  shows "\<exists>sv'. u_ni_testbus_host_set_agent h (Some dest) sv = Some sv' \<and> tree_inv sv' g d \<and> sv_next sv' = sv_next sv"
proof -
  let ?n = "ni_testbus_lookup_wellknown_bus_name (Some dest) sv"
  have "?n \<noteq> None" using lookup_name_some [of "sv_names sv" dest] tree_invD(6) [OF assms(1)] by (simp add: ni_testbus_lookup_wellknown_bus_name_def)
  then have "self_ok sv (c\<lparr>h_agent_bus_name := ?n, h_eventlog := None\<rparr>)" using node_self [OF assms] by (simp add: self_ok_def)
  then show ?thesis using change_members [OF assms, of "c\<lparr>h_agent_bus_name := ?n, h_eventlog := None\<rparr>"] assms(2)
    by (simp add: u_ni_testbus_host_set_agent_def same_links_def)
qed

lemma agent_ready_inv:
  assumes "tree_inv sv g d" "cget h sv = Some c" "h_agent_bus_name c \<noteq> None"
  shows "\<exists>sv' c'. ni_testbus_host_agent_ready h sv = Some sv' \<and> tree_inv sv' g d \<and> cget h sv' = Some c' \<and> sv_next sv' = sv_next sv"
proof -
  let ?c = "c\<lparr>h_ready := True, h_generation := h_generation c + 1\<rparr>"
  have "self_ok sv ?c" using node_self [OF assms(1,2)] assms(3) by (simp add: self_ok_def)
  then show ?thesis using change_members [OF assms(1,2), of ?c] assms(2)
    by (simp add: ni_testbus_host_agent_ready_def same_links_def)
qed

lemma agent_disconnected_inv:
  assumes "tree_inv sv g d" "cget h sv = Some c"
  shows "\<exists>sv' c'. ni_testbus_host_agent_disconnected h sv = Some sv' \<and> tree_inv sv' g d \<and> sv_next sv' = sv_next sv
     \<and> cget h sv' = Some c' \<and> \<not> h_ready c' \<and> h_agent_bus_name c' = None"
proof -
  let ?c = "c\<lparr>h_capabilities := ni_string_array_init, c_env := ni_testbus_env_init, h_agent_bus_name := None, h_ready := False\<rparr>"
  have self: "self_ok sv c" by (rule node_self [OF assms])
  then have "self_ok sv ?c" using env_wf_init(1) by (simp add: self_ok_def)
  moreover have "env_wf (c_env c)" "sa_wf (h_capabilities c)" using self by (simp_all add: self_ok_def)
  ultimately show ?thesis using change_members [OF assms, of ?c] assms(2) env_destroy_ok
    by (simp add: ni_testbus_host_agent_disconnected_def same_links_def)
qed

lemma setenv_inv:
  assumes "tree_inv sv g d" "cget a sv = Some c"
  shows "\<exists>env. ni_testbus_setenv (c_env c) name v = Some env \<and> tree_inv (cset a (c\<lparr>c_env := env\<rparr>) sv) g d
     \<and> sv_next (cset a (c\<lparr>c_env := env\<rparr>) sv) = sv_next sv"
proof -
  have self: "self_ok sv c" by (rule node_self [OF assms])
  then obtain env where env: "ni_testbus_setenv (c_env c) name v = Some env" "env_wf env" using setenv_ok [of "c_env c" name v] by (auto simp: self_ok_def)
  then have "self_ok sv (c\<lparr>c_env := env\<rparr>)" using self by (simp add: self_ok_def)
  then show ?thesis using env(1) change_members [OF assms, of "c\<lparr>c_env := env\<rparr>"] by (simp add: same_links_def)
qed

lemma reclaim_inv:
  assumes "tree_inv sv g d" "cget h sv = Some c"
  shows "\<exists>free sv' c'. reclaim_host h uuid sv = Some (free, sv') \<and> tree_inv sv' g d \<and> sv_next sv' = sv_next sv \<and> cget h sv' = Some c'"
  using agent_disconnected_inv [OF assms] assms by (auto simp: reclaim_host_def)

lemma tree_inv_signal [simp]: "tree_inv (send_signal path m args sv) g d \<longleftrightarrow> tree_inv sv g d"
  by (simp add: tree_inv_def node_ok_def children_ok_def send_signal_def)

lemma claim_ok:
  assumes inv: "tree_inv sv g (\<lambda>_. 0)" and p: "cget p sv = Some cp" "ni_testbus_container_has_feature cp HAS_HOSTS"
    and h: "cget h sv = Some ch" "c_kind ch = Host"
  shows "\<exists>ok sv1. ni_testbus_host_set_role h (Some role) (Some p) sv = Some (ok, sv1) \<and> tree_inv sv1 g (\<lambda>_. 0) \<and> sv_next sv1 = sv_next sv
     \<and> (ok \<longrightarrow> (\<exists>sv'. ni_testbus_container_add_host p h sv1 = Some sv' \<and> tree_inv sv' g (\<lambda>_. 0) \<and> sv_next sv' = sv_next sv))"
proof -
  have ph: "p \<noteq> h" using p h by auto
  let ?ch = "ch\<lparr>h_role := Some role, c_owner := Some p\<rparr>"
  have "self_ok sv ?ch" using node_self [OF inv h(1)] p(1) by (simp add: self_ok_def)
  then have inv1: "tree_inv (cset h ?ch sv) g (\<lambda>_. 0)" "sv_next (cset h ?ch sv) = sv_next sv"
    using change_members [OF inv h(1), of ?ch] by (simp_all add: same_links_def)
  have add: "\<exists>sv'. ni_testbus_container_add_host p h sv1 = Some sv' \<and> tree_inv sv' g (\<lambda>_. 0) \<and> sv_next sv' = sv_next sv"
    if s: "tree_inv sv1 g (\<lambda>_. 0)" "cget p sv1 = Some cp" "cget h sv1 = Some c1" "c_kind c1 = Host" "sv_next sv1 = sv_next sv" for sv1 c1
  proof -
    let ?c2 = "c1\<lparr>c_refcount := c_refcount c1 + 1\<rparr>"
    have g2: "ni_testbus_container_get h sv1 = Some (cset h ?c2 sv1)" "tree_inv (cset h ?c2 sv1) g ((\<lambda>_. 0)(h := 1))"
      using get_inv [OF s(1,3)] by simp_all
    have "tree_inv (cset p (with_host h cp) (cset h ?c2 sv1)) g (((\<lambda>_. 0)(h := 1))(h := ((\<lambda>_. 0)(h := 1)) h - 1))"
      using s(2,4) ph by (intro claim_inv [where ch = ?c2, OF g2(2)]) simp_all
    moreover have "((\<lambda>_. 0)(h := 1))(h := ((\<lambda>_. 0)(h := 1)) h - 1) = (\<lambda>_. 0 :: nat)" by (simp add: fun_eq_iff)
    moreover have "ni_testbus_container_add_host p h sv1 = Some (cset p (with_host h cp) (cset h ?c2 sv1))"
      using s(2) p(2) g2(1) ph
      by (simp add: ni_testbus_container_add_host_def ni_testbus_host_array_append_def child_append_def Let_def set_children_def children_of_Host with_host_def)
    ultimately show ?thesis using s(5) by (simp add: cset_def)
  qed
  show ?thesis
  proof (cases "h_role ch")
    case None
    then show ?thesis using h inv1 add [OF inv1(1), of ?ch] p(1) ph
      by (intro exI [of _ True] exI [of _ "cset h ?ch sv"]) (simp add: ni_testbus_host_set_role_def)
  next
    case (Some r)
    then show ?thesis using h inv add [OF inv p(1) h] by (simp add: ni_testbus_host_set_role_def)
  qed
qed

lemma record_name_some:
  "\<forall>m\<in>set ms. nm_bus_name m \<noteq> None \<Longrightarrow> b \<noteq> None \<Longrightarrow> \<forall>m\<in>set (record_name b owner ms). nm_bus_name m \<noteq> None"
  by (induction ms) auto

lemma ok_names [simp]: "node_ok (sv\<lparr>sv_names := ns\<rparr>) g a c = node_ok sv g a c" "children_ok (sv\<lparr>sv_names := ns\<rparr>) a c k = children_ok sv a c k"
  by (simp_all add: node_ok_def children_ok_def)

lemma tree_inv_names:
  assumes "\<forall>m\<in>set ns. nm_bus_name m \<noteq> None" "tree_inv sv g d"
  shows "tree_inv (sv\<lparr>sv_names := ns\<rparr>) g d"
  using assms unfolding tree_inv_def by simp

lemma record_inv:
  assumes "tree_inv sv g d"
  shows "tree_inv (ni_testbus_record_wellknown_bus_name (Some name) owner sv) g d"
proof -
  have "\<forall>m\<in>set (sv_names sv). nm_bus_name m \<noteq> None" using tree_invD(6) [OF assms] by blast
  then show ?thesis unfolding ni_testbus_record_wellknown_bus_name_def
    using record_name_some [of "sv_names sv" "Some name"] by (intro tree_inv_names [OF _ assms]) simp
qed

lemma global_context_there: "sv_global sv = Some g \<Longrightarrow> ni_testbus_global_context sv = (g, sv)"
  by (simp add: ni_testbus_global_context_def)

lemma find_some_in: "List.find P xs = Some x \<Longrightarrow> x \<in> set xs \<and> P x"
  by (auto simp: find_Some_iff)

section \<open>Signals of agents and of the bus\<close>

abbreviation "steady sv g sv' \<equiv> tree_inv sv' g (\<lambda>_. 0) \<and> sv_next sv' \<le> sv_next sv + 1"

lemma agent_signal_ok:
  assumes "tree_inv sv g (\<lambda>_. 0)"
  shows "\<exists>sv'. u_ni_testbus_host_agent_signal (Some sender) signal sv = Some sv' \<and> steady sv g sv'"
proof (cases "signal = ''ready''")
  case True
  obtain cg where cg: "cget g sv = Some cg" using tree_invD(2) [OF assms] by blast
  let ?n = "ni_testbus_lookup_wellknown_bus_name (Some sender) sv"
  have n: "?n \<noteq> None" using lookup_name_some [of "sv_names sv"] tree_invD(6) [OF assms] by (simp add: ni_testbus_lookup_wellknown_bus_name_def)
  let ?r = "List.find (\<lambda>a. h_agent_bus_name (the (cget a sv)) = ?n) (ca_data (c_hosts cg))"
  have look: "ni_testbus_container_find_agent_host g ?n sv = Some ?r" by (rule global_agent_host [OF assms cg])
  note gl = global_context_there [OF tree_invD(1) [OF assms]]
  show ?thesis
  proof (cases ?r)
    case None
    then show ?thesis using True look gl assms by (simp add: u_ni_testbus_host_agent_signal_def)
  next
    case (Some h)
    then have "cget h sv \<noteq> None" "h_agent_bus_name (the (cget h sv)) \<noteq> None"
      using find_some_in [OF Some] children_live [OF assms cg, of Host] n by (simp_all add: children_of_Host)
    then obtain c where c: "cget h sv = Some c" "h_agent_bus_name c \<noteq> None" by auto
    obtain sv1 c1 where r: "ni_testbus_host_agent_ready h sv = Some sv1" "tree_inv sv1 g (\<lambda>_. 0)" "cget h sv1 = Some c1" "sv_next sv1 = sv_next sv"
      using agent_ready_inv [OF assms c] by blast
    have "sv_next (send_signal path m args sv1) = sv_next sv1" for path m args by (simp add: send_signal_def)
    then show ?thesis using True look gl Some r by (cases "c_path c1") (simp_all add: u_ni_testbus_host_agent_signal_def)
  qed
next
  case False
  then show ?thesis using assms by (simp add: u_ni_testbus_host_agent_signal_def)
qed

lemma bus_signal_ok:
  assumes "tree_inv sv g (\<lambda>_. 0)"
  shows "\<exists>sv'. u_ni_testbus_dbus_bus_signal_handler signal name new_owner sv = Some sv' \<and> steady sv g sv'"
proof (cases "signal = ''NameOwnerChanged''")
  case True
  define sv1 where "sv1 = (if take (length NI_TESTBUS_NAMESPACE) name = NI_TESTBUS_NAMESPACE
      then ni_testbus_record_wellknown_bus_name (Some name) (Some new_owner) sv else sv)"
  have s1: "tree_inv sv1 g (\<lambda>_. 0)" using record_inv [OF assms] assms by (simp add: sv1_def)
  have s1n: "sv_next sv1 = sv_next sv" by (simp add: sv1_def ni_testbus_record_wellknown_bus_name_def)
  obtain cg where cg: "cget g sv1 = Some cg" using tree_invD(2) [OF s1] by blast
  let ?r = "List.find (\<lambda>a. h_agent_bus_name (the (cget a sv1)) = Some name) (ca_data (c_hosts cg))"
  have look: "ni_testbus_container_find_agent_host g (Some name) sv1 = Some ?r" by (rule global_agent_host [OF s1 cg])
  note gl = global_context_there [OF tree_invD(1) [OF s1]]
  have eq: "u_ni_testbus_dbus_bus_signal_handler signal name new_owner sv =
      (if new_owner \<noteq> [] then Some sv1
       else do {
         let (g, sv2) = ni_testbus_global_context sv1;
         r \<leftarrow> ni_testbus_container_find_agent_host g (Some name) sv2;
         (case r of None \<Rightarrow> Some sv2 | Some h \<Rightarrow> ni_testbus_host_agent_disconnected h sv2) })"
    unfolding u_ni_testbus_dbus_bus_signal_handler_def sv1_def Let_def using True by (subst if_not_P) simp_all
  show ?thesis
  proof (cases "new_owner = []")
    case new: True
    show ?thesis
    proof (cases ?r)
      case None
      then show ?thesis unfolding eq using new look gl s1 s1n by simp
    next
      case (Some h)
      then have "cget h sv1 \<noteq> None" using find_some_in [OF Some] children_live [OF s1 cg, of Host] by (simp add: children_of_Host)
      then obtain c where c: "cget h sv1 = Some c" by blast
      obtain sv2 where "ni_testbus_host_agent_disconnected h sv1 = Some sv2" "tree_inv sv2 g (\<lambda>_. 0)" "sv_next sv2 = sv_next sv1"
        using agent_disconnected_inv [OF s1 c] by blast
      then show ?thesis unfolding eq using new look gl s1 s1n Some by simp
    qed
  next
    case new: False
    then show ?thesis unfolding eq using s1 s1n by simp
  qed
next
  case False
  then show ?thesis using assms by (simp add: u_ni_testbus_dbus_bus_signal_handler_def)
qed

section \<open>The start\<close>

text \<open>The server at its start: the global context has been made.\<close>

definition no_server :: server where
  "no_server = \<lparr>sv_containers = (\<lambda>_. None), sv_next = 0, sv_global = None, sv_files = no_files, sv_names = [], sv_signals = [], sv_processes_freed = []\<rparr>"

definition initial_server :: server where
  "initial_server = snd (ni_testbus_global_context no_server)"

lemma initial_inv: "tree_inv initial_server 0 (\<lambda>_. 0) \<and> sv_next initial_server = 1"
proof -
  define c where "c = (blank_container Global)\<lparr>c_refcount := 1, c_name := Some ''globalcontext''\<rparr>"
  have i: "cget a initial_server = (if a = 0 then Some c else None)" "sv_next initial_server = 1" "sv_global initial_server = Some 0" "sv_names initial_server = []" for a
    by (simp_all add: initial_server_def no_server_def ni_testbus_global_context_def container_malloc_def cset_def cget_def c_def blank_container_def)
  have f: "c_kind c = Global" "c_parent c = None" "c_owner c = None" "p_command c = None" "c_refcount c = 1" "\<not> h_ready c"
      "env_wf (c_env c)" "sa_wf (cmd_argv c)" "sa_wf (h_capabilities c)"
    using env_wf_init(1) sa_wf_init(1) by (simp_all add: c_def blank_container_def)
  have ch: "children_of k c = child_array_init" for k by (cases k) (simp_all add: children_of_def blank_container_def c_def)
  have "slots c = []" by (simp add: slots_def all_children_def blank_container_def child_array_init_def c_def)
  then have "refs_to initial_server 0 = 0" using i by (simp add: refs_to_def)
  moreover have "node_ok initial_server 0 0 c" using i f by (simp add: node_ok_def)
  moreover have "children_ok initial_server 0 c k" for k using ch by (simp add: children_ok_def child_array_init_def)
  ultimately show ?thesis using i f by (auto simp: tree_inv_def)
qed

end
