(* ===== verification/ServerCalls.thy ===== *)
theory ServerCalls
  imports ServerTree
begin

text \<open>
  The tree of containers under the server's methods and signals: references are counted exactly, nothing dangles,
  identifiers of siblings differ, and a host that is ready has an agent (server/dbus-*.c, main.c).
\<close>

section \<open>What leaves the tree as it is\<close>

abbreviation "kept sv g sv' \<equiv> tree_inv sv' g (\<lambda>_. 0) \<and> sv_next sv' = sv_next sv"

lemma tree_inv_files [simp]: "tree_inv (sv\<lparr>sv_files := fs\<rparr>) g d \<longleftrightarrow> tree_inv sv g d"
  by (simp add: tree_inv_def node_ok_def children_ok_def refs_to_def)

lemma send_signal_simps [simp]:
  "sv_next (send_signal path m args sv) = sv_next sv" "cget a (send_signal path m args sv) = cget a sv"
  "sv_files (send_signal path m args sv) = sv_files sv" "sv_global (send_signal path m args sv) = sv_global sv"
  by (simp_all add: send_signal_def)

lemma cset_next [simp]: "sv_next (cset a c sv) = sv_next sv"
  by (simp add: cset_def)

lemma children_of_more [simp]:
  "children_of k (c\<lparr>c_path := x1\<rparr>) = children_of k c" "children_of k (c\<lparr>c_trace_name := x2\<rparr>) = children_of k c"
  "children_of k (c\<lparr>c_files := x3\<rparr>) = children_of k c" "children_of k (c\<lparr>p_process := x4\<rparr>) = children_of k c"
  "children_of k (c\<lparr>cmd_use_terminal := x5\<rparr>) = children_of k c"
  by (cases k; simp add: children_of_def)+

text \<open>Members that neither link containers nor belong to what must stay right.\<close>

definition unlinked :: "container \<Rightarrow> container \<Rightarrow> bool" where
  "unlinked c c' \<longleftrightarrow> same_links c c' \<and> c_refcount c' = c_refcount c \<and> c_owner c' = c_owner c \<and> c_env c' = c_env c \<and> cmd_argv c' = cmd_argv c
     \<and> h_capabilities c' = h_capabilities c \<and> h_ready c' = h_ready c \<and> h_agent_bus_name c' = h_agent_bus_name c"

lemma unlinked_simps [simp]:
  "unlinked c (c\<lparr>c_path := p, c_trace_name := t\<rparr>)" "unlinked c (c\<lparr>c_files := f\<rparr>)" "unlinked c (c\<lparr>p_process := pi\<rparr>)"
  "unlinked c (c\<lparr>cmd_use_terminal := b\<rparr>)" "unlinked c (c\<lparr>h_eventlog := l\<rparr>)" "unlinked c (c\<lparr>h_uuid := u\<rparr>)"
  by (simp_all add: unlinked_def same_links_def)

lemma unlinked_kept:
  assumes "tree_inv sv g d" "cget a sv = Some c" "unlinked c c'"
  shows "tree_inv (cset a c' sv) g d"
  using change_members [OF assms(1,2), of c'] node_self [OF assms(1,2)] assms(3) by (simp add: unlinked_def self_ok_def)

text \<open>An object gets its path.\<close>

lemma wrap_kept:
  assumes "ni_testbus_container_wrap parent_path a sv = Some (path, sv')" "tree_inv sv g d"
  obtains c where "cget a sv = Some c" "sv' = cset a (c\<lparr>c_path := Some path, c_trace_name := Some path\<rparr>) sv" "tree_inv sv' g d"
proof -
  obtain c where c: "cget a sv = Some c" "sv' = cset a (c\<lparr>c_path := Some path, c_trace_name := Some path\<rparr>) sv"
    using assms(1) by (auto simp: ni_testbus_container_wrap_def bind_eq_Some_conv Let_def)
  moreover have "tree_inv (cset a (c\<lparr>c_path := Some path, c_trace_name := Some path\<rparr>) sv) g d" by (rule unlinked_kept [OF assms(2) c(1)]) simp
  ultimately show thesis using that by simp
qed

lemma file_wrap_files: "ni_testbus_file_wrap path a sv = Some (p, sv') \<Longrightarrow> \<exists>fs. sv' = sv\<lparr>sv_files := fs\<rparr>"
  by (auto simp: ni_testbus_file_wrap_def bind_eq_Some_conv Let_def)

lemma wrap_outputs_files: "wrap_outputs path as sv = Some sv' \<Longrightarrow> \<exists>fs. sv' = sv\<lparr>sv_files := fs\<rparr>"
proof (induction as arbitrary: sv)
  case Nil
  then show ?case by (intro exI [of _ "sv_files sv"]) simp
next
  case (Cons a as)
  then obtain sv1 where "wrap_outputs path as sv1 = Some sv'" "sv1 = sv \<or> (\<exists>p. ni_testbus_file_wrap path a sv = Some (p, sv1))"
    by (auto simp: bind_eq_Some_conv split: if_splits)
  then show ?case using Cons.IH file_wrap_files by fastforce
qed

section \<open>Hosts\<close>

lemma string_args_one: "string_args 1 argv = Some (Some ss) \<Longrightarrow> \<exists>s. arr_get ss 0 = Some s"
  by (auto simp: string_args_def bind_eq_Some_conv arr_get_def length_Suc_conv split: if_splits option.splits)

lemma createHost_kept:
  assumes inv: "tree_inv sv g (\<lambda>_. 0)" and small: "sv_next sv + 1 < 2 ^ 32"
    and h: "u_ni_Testbus_Hostlist_createHost path (Some destination) fresh argv sv = Some (r, sv')"
  shows "steady sv g sv'"
proof -
  note gl = global_context_there [OF tree_invD(1) [OF inv]]
  show ?thesis
  proof (cases "string_args 1 argv")
    case None
    then show ?thesis using h gl by (simp add: u_ni_Testbus_Hostlist_createHost_def)
  next
    case (Some args)
    show ?thesis
    proof (cases args)
      case None
      then show ?thesis using h gl Some inv by (simp add: u_ni_Testbus_Hostlist_createHost_def)
    next
      case ss: (Some ss)
      obtain name where name: "arr_get ss 0 = Some name" using string_args_one [of argv ss] Some ss by blast
      obtain rh sv1 where new: "ni_testbus_host_new g name sv = Some (rh, sv1)" "tree_inv sv1 g (\<lambda>_. 0)" "sv_next sv1 \<le> sv_next sv + 1"
          "\<forall>h. rh = Inr h \<longrightarrow> (\<exists>c. cget h sv1 = Some c \<and> c_kind c = Host \<and> \<not> h_ready c)"
        using host_new_ok [OF inv small, of name] by blast
      show ?thesis
      proof (cases rh)
        case (Inl rc)
        then show ?thesis using h gl Some ss name new by (simp add: u_ni_Testbus_Hostlist_createHost_def)
      next
        case (Inr host)
        then obtain c where c: "cget host sv1 = Some c" using new(4) by blast
        obtain sv2 where sv2: "u_ni_testbus_host_set_agent host (Some destination) sv1 = Some sv2" "tree_inv sv2 g (\<lambda>_. 0)" "sv_next sv2 = sv_next sv1"
          using set_agent_inv [OF new(2) c] by blast
        obtain c2 p sv3 where w: "cget host sv2 = Some c2" "ni_testbus_container_wrap path host (cset host (c2\<lparr>h_uuid := fresh\<rparr>) sv2) = Some (p, sv3)"
            "sv' = send_signal p ''connected'' [] sv3"
        proof -
          have "do { c \<leftarrow> cget host sv2; (p, sv3) \<leftarrow> ni_testbus_container_wrap path host (cset host (c\<lparr>h_uuid := fresh\<rparr>) sv2);
              Some (Inr [p], send_signal p ''connected'' [] sv3) } = Some (r, sv')"
            using h gl Some ss name new(1) Inr sv2(1) by (simp add: u_ni_Testbus_Hostlist_createHost_def)
          then show thesis using that by (auto simp: bind_eq_Some_conv)
        qed
        have "tree_inv (cset host (c2\<lparr>h_uuid := fresh\<rparr>) sv2) g (\<lambda>_. 0)" by (rule unlinked_kept [OF sv2(2) w(1)]) simp
        then obtain d where "sv3 = cset host (d\<lparr>c_path := Some p, c_trace_name := Some p\<rparr>) (cset host (c2\<lparr>h_uuid := fresh\<rparr>) sv2)" "tree_inv sv3 g (\<lambda>_. 0)"
          by (rule wrap_kept [OF w(2)])
        then show ?thesis using w(3) new(3) sv2(3) by simp
      qed
    qed
  qed
qed

lemma finish_reconnect_kept:
  assumes "tree_inv sv g (\<lambda>_. 0)" "finish_reconnect path (Some destination) fresh h uuid sv = Some (r, sv')"
  shows "kept sv g sv'"
proof -
  obtain c where c: "cget h sv = Some c" using assms(2) by (auto simp: finish_reconnect_def bind_eq_Some_conv)
  let ?sv0 = "\<lambda>u. cset h (c\<lparr>h_uuid := u\<rparr>) sv"
  have inv0: "tree_inv (?sv0 u) g (\<lambda>_. 0)" for u by (rule unlinked_kept [OF assms(1) c]) simp
  have "\<exists>sv1. u_ni_testbus_host_set_agent h (Some destination) (?sv0 u) = Some sv1 \<and> tree_inv sv1 g (\<lambda>_. 0) \<and> sv_next sv1 = sv_next sv" for u
    using set_agent_inv [OF inv0 [of u], of h "c\<lparr>h_uuid := u\<rparr>" destination] by auto
  then obtain sv1 where sv1: "u_ni_testbus_host_set_agent h (Some destination) (?sv0 (if ni_uuid_is_null uuid then fresh else uuid)) = Some sv1"
      "tree_inv sv1 g (\<lambda>_. 0)" "sv_next sv1 = sv_next sv" by blast
  have "\<exists>p. sv' = send_signal p ''connected'' [] sv1" using assms(2) c sv1(1) by (auto simp: finish_reconnect_def bind_eq_Some_conv)
  then show ?thesis using sv1(2,3) by auto
qed

lemma reconnect_kept:
  assumes inv: "tree_inv sv g (\<lambda>_. 0)" and small: "sv_next sv + 1 < 2 ^ 32"
    and h: "u_ni_Testbus_Hostlist_reconnect path (Some destination) fresh argv sv = Some (r, sv')"
  shows "steady sv g sv'"
proof -
  note gl = global_context_there [OF tree_invD(1) [OF inv]]
  obtain args where args: "(if length argv \<noteq> 2 then Some None else get_strings (take 1 argv)) = Some args"
    using h gl unfolding u_ni_Testbus_Hostlist_reconnect_def by (auto simp: bind_eq_Some_conv simp del: get_strings.simps)
  show ?thesis
  proof (cases args)
    case None
    then show ?thesis using h gl args inv unfolding u_ni_Testbus_Hostlist_reconnect_def by simp
  next
    case (Some ss)
    obtain name v ruuid where a: "arr_get ss 0 = Some name" "arr_get argv 1 = Some v" "ni_dbus_variant_get_uuid v = Some ruuid"
      using h gl args Some unfolding u_ni_Testbus_Hostlist_reconnect_def by (auto simp: bind_eq_Some_conv)
    show ?thesis
    proof (cases ruuid)
      case None
      then show ?thesis using h gl args Some a inv unfolding u_ni_Testbus_Hostlist_reconnect_def by simp
    next
      case uuid: (Some uuid)
      obtain r0 where look: "ni_testbus_container_get_host_by_name (Some g) name sv = Some r0"
        using h gl args Some a uuid unfolding u_ni_Testbus_Hostlist_reconnect_def by (auto simp: bind_eq_Some_conv)
      have red: "(case r0 of
                  None \<Rightarrow> do {
                    (rh, sv1) \<leftarrow> ni_testbus_host_new g name sv;
                    (case rh of
                       Inl rc \<Rightarrow> Some (Inl (error_from_code rc), sv1)
                     | Inr h \<Rightarrow> do {
                         (_, sv2) \<leftarrow> ni_testbus_container_wrap path h sv1;
                         finish_reconnect path (Some destination) fresh h uuid sv2 }) }
                | Some h \<Rightarrow> do {
                    (free, sv1) \<leftarrow> reclaim_host h uuid sv;
                    (if free then finish_reconnect path (Some destination) fresh h uuid sv1 else Some (Inl Name_exists, sv1)) }) = Some (r, sv')"
        using h gl args Some a uuid look unfolding u_ni_Testbus_Hostlist_reconnect_def by simp
      show ?thesis
      proof (cases r0)
        case None
        obtain rh sv1 where new: "ni_testbus_host_new g name sv = Some (rh, sv1)" "tree_inv sv1 g (\<lambda>_. 0)" "sv_next sv1 \<le> sv_next sv + 1"
          using host_new_ok [OF inv small, of name] by blast
        show ?thesis
        proof (cases rh)
          case (Inl rc)
          then show ?thesis using red None new by simp
        next
          case (Inr host)
          then obtain p sv2 where w: "ni_testbus_container_wrap path host sv1 = Some (p, sv2)"
              "finish_reconnect path (Some destination) fresh host uuid sv2 = Some (r, sv')" using red None new(1) by (auto simp: bind_eq_Some_conv)
          obtain d where "sv2 = cset host (d\<lparr>c_path := Some p, c_trace_name := Some p\<rparr>) sv1" "tree_inv sv2 g (\<lambda>_. 0)"
            by (rule wrap_kept [OF w(1) new(2)])
          then show ?thesis using finish_reconnect_kept [OF _ w(2)] new(3) by simp
        qed
      next
        case (Some host)
        then obtain free sv1 where rc: "reclaim_host host uuid sv = Some (free, sv1)"
            "if free then finish_reconnect path (Some destination) fresh host uuid sv1 = Some (r, sv') else sv' = sv1"
          using red by (auto simp: bind_eq_Some_conv split: if_splits)
        obtain ch where "cget host sv = Some ch" using rc(1) by (auto simp: reclaim_host_def bind_eq_Some_conv)
        then have s1: "tree_inv sv1 g (\<lambda>_. 0)" "sv_next sv1 = sv_next sv" using reclaim_inv [OF inv, of host _ uuid] rc(1) by auto
        then show ?thesis using rc(2) finish_reconnect_kept [OF s1(1), of path destination fresh host uuid r sv'] by (cases free) simp_all
      qed
    qed
  qed
qed

lemma addCapability_kept:
  assumes inv: "tree_inv sv g (\<lambda>_. 0)" and h: "u_ni_Testbus_Host_addCapability a argv sv = Some (r, sv')"
  shows "kept sv g sv'"
proof -
  have add: "kept sv g sv1" if one: "ni_testbus_host_add_capability a capability sv = Some sv1" for capability sv1
  proof -
    obtain c where c: "cget a sv = Some c" using one by (cases "cget a sv") (auto simp: ni_testbus_host_add_capability_def)
    have wf: "sa_wf (h_capabilities c)" using node_self [OF inv c] by (simp add: self_ok_def)
    obtain caps where caps: "ni_string_array_append (h_capabilities c) capability = Some caps" "sa_wf caps"
      using strings.append_ok [OF wf, of capability] by blast
    have "kept sv g (cset a (c\<lparr>h_capabilities := caps\<rparr>) sv)"
      using change_members [OF inv c, of "c\<lparr>h_capabilities := caps\<rparr>"] node_self [OF inv c] caps(2) by (simp add: self_ok_def same_links_def)
    then show ?thesis using one c caps(1) inv
      by (cases capability) (auto simp: ni_testbus_host_add_capability_def bind_eq_Some_conv split: if_splits)
  qed
  then show ?thesis using h inv
    by (auto simp: u_ni_Testbus_Host_addCapability_def bind_eq_Some_conv split: if_splits option.splits)
qed

lemma goes_down_kept:
  assumes inv: "tree_inv sv g (\<lambda>_. 0)" and h: "host_goes_down signal path a argv sv = Some (r, sv')"
  shows "kept sv g sv'"
proof -
  obtain c where c: "cget a sv = Some c" using h by (auto simp: host_goes_down_def bind_eq_Some_conv)
  let ?s = "send_signal path signal [] sv"
  have "tree_inv ?s g (\<lambda>_. 0)" "cget a ?s = Some c" using inv c by simp_all
  then obtain sv1 where "ni_testbus_host_agent_disconnected a ?s = Some sv1" "tree_inv sv1 g (\<lambda>_. 0)" "sv_next sv1 = sv_next ?s"
    using agent_disconnected_inv by blast
  then show ?thesis using h c inv by (auto simp: host_goes_down_def split: if_splits)
qed

lemma delegate_kept:
  assumes call: "\<And>path a argv sv r sv'. tree_inv sv g (\<lambda>_. 0) \<Longrightarrow> call path a argv sv = Some (r, sv') \<Longrightarrow> kept sv g sv'"
  shows "tree_inv sv g (\<lambda>_. 0) \<Longrightarrow> delegate_to_hosts call hs argv sv = Some (r, sv') \<Longrightarrow> kept sv g sv'"
proof (induction hs arbitrary: sv r)
  case (Cons h hs)
  obtain c where c: "cget h sv = Some c" using Cons.prems(2) by (auto simp: bind_eq_Some_conv)
  show ?case
  proof (cases "c_path c")
    case None
    then show ?thesis using Cons.prems c by simp
  next
    case (Some path)
    show ?thesis
    proof (cases "registered path sv")
      case None
      then show ?thesis using Cons.prems c Some by simp
    next
      case a: (Some a)
      obtain r1 sv1 where s1: "call path a argv sv = Some (r1, sv1)" using Cons.prems(2) c Some a by (auto simp: bind_eq_Some_conv)
      have k: "kept sv g sv1" by (rule call [OF Cons.prems(1) s1])
      show ?thesis
      proof (cases r1)
        case (Inl e)
        then show ?thesis using Cons.prems(2) c Some a s1 k by simp
      next
        case (Inr x)
        then have "delegate_to_hosts call hs argv sv1 = Some (r, sv')" using Cons.prems(2) c Some a s1 by simp
        from Cons.IH [OF _ this] k show ?thesis by simp
      qed
    qed
  qed
qed simp

lemma delegate_hosts_kept:
  assumes "\<And>path a argv sv r sv'. tree_inv sv g (\<lambda>_. 0) \<Longrightarrow> call path a argv sv = Some (r, sv') \<Longrightarrow> kept sv g sv'"
    and "tree_inv sv g (\<lambda>_. 0)" "u_ni_testbus_context_delegate_hosts call a argv sv = Some (r, sv')"
  shows "kept sv g sv'"
proof -
  obtain c :: container where "delegate_to_hosts call (ca_data (c_hosts c)) argv sv = Some (r, sv')"
    using assms(3) unfolding u_ni_testbus_context_delegate_hosts_def bind_eq_Some_conv by blast
  then show ?thesis by (rule delegate_kept [rotated 2]) (use assms in blast)+
qed

lemma addHost_kept:
  assumes inv: "tree_inv sv g (\<lambda>_. 0)" and h: "u_ni_Testbus_Hostset_addHost others a argv sv = Some (r, sv')"
  shows "kept sv g sv'"
proof -
  consider "sv' = sv"
    | name h ch ok sv1 where "ni_testbus_container_get_host_by_role (Some a) (Some name) sv = Some None" "cget h sv = Some ch" "c_kind ch = Host"
      "ni_testbus_host_set_role h (Some name) (Some a) sv = Some (ok, sv1)" "if ok then ni_testbus_container_add_host a h sv1 = Some sv' else sv' = sv1"
  proof -
    obtain args where args: "string_args 2 argv = Some args" using h by (auto simp: u_ni_Testbus_Hostset_addHost_def bind_eq_Some_conv)
    show thesis
    proof (cases args)
      case None
      then show thesis using h args that(1) by (simp add: u_ni_Testbus_Hostset_addHost_def)
    next
      case (Some ss)
      obtain name p where n: "arr_get ss 0 = Some (Some name)" "arr_get ss 1 = Some (Some p)"
        using h args Some by (auto simp: u_ni_Testbus_Hostset_addHost_def bind_eq_Some_conv)
      show thesis
      proof (cases "u_ni_testbus_identifier_valid name")
        case False
        then show thesis using h args Some n that(1) by (simp add: u_ni_Testbus_Hostset_addHost_def)
      next
        case True
        obtain r0 where r0: "ni_testbus_container_get_host_by_role (Some a) (Some name) sv = Some r0"
          using h args Some n True by (auto simp: u_ni_Testbus_Hostset_addHost_def bind_eq_Some_conv)
        show thesis
        proof (cases "\<exists>host ch. r0 = None \<and> ni_dbus_object_lookup others p sv = Container_object host \<and> cget host sv = Some ch \<and> c_kind ch = Host")
          case False
          then show thesis using h args Some n True r0 that(1)
            by (auto simp: u_ni_Testbus_Hostset_addHost_def bind_eq_Some_conv split: if_splits bus_object.splits)
        next
          case host: True
          then obtain host ch where k: "r0 = None" "ni_dbus_object_lookup others p sv = Container_object host" "cget host sv = Some ch" "c_kind ch = Host"
            by blast
          then obtain ok sv1 where "ni_testbus_host_set_role host (Some name) (Some a) sv = Some (ok, sv1)"
              "if ok then ni_testbus_container_add_host a host sv1 = Some sv' else sv' = sv1"
            using h args Some n True r0 by (auto simp: u_ni_Testbus_Hostset_addHost_def bind_eq_Some_conv split: if_splits)
          then show thesis using that(2) r0 k by blast
        qed
      qed
    qed
  qed
  then show ?thesis
  proof cases
    case 1
    then show ?thesis using inv by simp
  next
    case s: (2 name h ch ok sv1)
    obtain c where c: "cget a sv = Some c"
      using s(1) by (auto simp: ni_testbus_container_get_host_by_role_def search_up_some bind_eq_Some_conv)
    have role: "\<exists>c1. cget a sv1 = Some c1 \<and> c_kind c1 = c_kind c"
      using s(2,4) c by (auto simp: ni_testbus_host_set_role_def split: if_splits)
    show ?thesis
    proof (cases "ni_testbus_container_has_feature c HAS_HOSTS")
      case True
      show ?thesis using claim_ok [OF inv c True s(2,3), of name] s(4,5) by (auto split: if_splits)
    next
      case False
      then have "\<not> ok" using s(5) role
        by (auto simp: ni_testbus_container_add_host_def ni_testbus_container_has_feature_def bind_eq_Some_conv split: if_splits)
      then have "sv1 = sv" using s(2,4) by (auto simp: ni_testbus_host_set_role_def split: if_splits)
      then show ?thesis using \<open>\<not> ok\<close> s(5) inv by simp
    qed
  qed
qed

section \<open>Tests, commands, variables, events, files\<close>

lemma init_feature:
  "ni_testbus_container_init a k name parent sv = Some sv' \<Longrightarrow> a \<noteq> parent \<Longrightarrow> cget parent sv = Some p \<Longrightarrow> has_children k p"
  by (auto simp: ni_testbus_container_init_def bind_eq_Some_conv Let_def)

lemma createTest_kept:
  assumes inv: "tree_inv sv g (\<lambda>_. 0)" and small: "sv_next sv + 1 < 2 ^ 32" and h: "u_ni_Testbus_Testset_createTest path a argv sv = Some (r, sv')"
  shows "steady sv g sv'"
proof -
  consider "sv' = sv"
    | name r0 t sv1 p where "ni_testbus_container_get_test_by_name (Some a) (Some name) False sv = Some r0"
      "ni_testbus_testcase_new (Some name) a sv = Some (t, sv1)" "ni_testbus_container_wrap path t sv1 = Some (p, sv')"
    using h unfolding u_ni_Testbus_Testset_createTest_def
    by (auto simp: bind_eq_Some_conv split: if_splits option.splits)
  then show ?thesis
  proof cases
    case 1
    then show ?thesis using inv by simp
  next
    case (2 name r0 t sv1 p)
    obtain c where c: "cget a sv = Some c"
      using 2(1) by (auto simp: ni_testbus_container_get_test_by_name_def search_up_some bind_eq_Some_conv)
    have "a \<noteq> sv_next sv" using tree_invD(3) [OF inv c] by (auto simp: node_ok_def)
    then have "has_children Testcase c"
      using 2(2) c init_feature [of "sv_next sv" Testcase "Some name" a] by (auto simp: ni_testbus_testcase_new_def container_malloc_def bind_eq_Some_conv)
    then have "ni_testbus_container_has_feature c HAS_TESTS" by (simp add: has_children_def)
    then have s1: "tree_inv sv1 g (\<lambda>_. 0)" "sv_next sv1 = sv_next sv + 1"
      using testcase_new_ok [OF inv small c, of "Some name"] 2(2) by auto
    obtain d where "sv' = cset t (d\<lparr>c_path := Some p, c_trace_name := Some p\<rparr>) sv1" "tree_inv sv' g (\<lambda>_. 0)"
      by (rule wrap_kept [OF 2(3) s1(1)])
    then show ?thesis using s1(2) by simp
  qed
qed

lemma get_string_array_wf:
  assumes "sa_wf nsa" "ni_dbus_variant_get_string_array v nsa = Some (ok, nsa')"
  shows "sa_wf nsa'"
proof -
  have "nsa' = nsa \<or> (\<exists>ss. append_all ni_string_array_append nsa ss = Some nsa')"
    using assms(2) by (auto simp: ni_dbus_variant_get_string_array_def bind_eq_Some_conv split: if_splits)
  then show ?thesis
  proof (elim disjE exE)
    fix ss assume "append_all ni_string_array_append nsa ss = Some nsa'"
    then show ?thesis using strings.append_all_ok [OF assms(1), of ss] by auto
  qed (use assms(1) in simp)
qed

lemma createCommand_kept:
  assumes inv: "tree_inv sv g (\<lambda>_. 0)" and small: "sv_next sv + 1 < 2 ^ 32"
    and h: "u_ni_Testbus_CommandQueue_createCommand path a argv sv = Some (r, sv')"
  shows "steady sv g sv'"
proof -
  consider "sv' = sv"
    | v cmd_argv0 cmd sv1 c b p sv2 where "ni_dbus_variant_get_string_array v ni_string_array_init = Some (True, cmd_argv0)"
      "ni_testbus_command_new a cmd_argv0 sv = Some (cmd, sv1)" "cget cmd sv1 = Some c"
      "ni_testbus_container_wrap path cmd (cset cmd (c\<lparr>cmd_use_terminal := b\<rparr>) sv1) = Some (p, sv2)"
      "ni_testbus_container_set_owner cmd a sv2 = Some sv'"
    using h unfolding u_ni_Testbus_CommandQueue_createCommand_def
    by (auto simp: bind_eq_Some_conv split: if_splits)
  then show ?thesis
  proof cases
    case 1
    then show ?thesis using inv by simp
  next
    case (2 v cmd_argv0 cmd sv1 c b p sv2)
    have wf: "sa_wf cmd_argv0" by (rule get_string_array_wf [OF _ 2(1)]) (rule sa_wf_init(1))
    obtain ca where ca: "cget a sv = Some ca" "ni_testbus_container_has_feature ca HAS_CMDS"
      using 2(2) by (auto simp: ni_testbus_command_new_def bind_eq_Some_conv)
    obtain c1 where s1: "tree_inv sv1 g (\<lambda>_. 0)" "sv_next sv1 = sv_next sv + 1" "cget cmd sv1 = Some c1" "c_owner c1 = None" "cget a sv1 \<noteq> None"
      using command_new_ok [OF inv small ca wf] 2(2) by auto
    let ?c = "c\<lparr>cmd_use_terminal := b\<rparr>"
    have s2: "tree_inv (cset cmd ?c sv1) g (\<lambda>_. 0)" by (rule unlinked_kept [OF s1(1) 2(3)]) simp
    obtain d where d: "cget cmd (cset cmd ?c sv1) = Some d" "sv2 = cset cmd (d\<lparr>c_path := Some p, c_trace_name := Some p\<rparr>) (cset cmd ?c sv1)" "tree_inv sv2 g (\<lambda>_. 0)"
      by (rule wrap_kept [OF 2(4) s2])
    have own: "cget cmd sv2 = Some (d\<lparr>c_path := Some p, c_trace_name := Some p\<rparr>)" "c_owner d = None" "cget a sv2 \<noteq> None"
      using d(1,2) s1(3-5) 2(3) by auto
    then show ?thesis using set_owner_inv [OF d(3) own(1), of a] 2(5) d(2) s1(2) by auto
  qed
qed

lemma setenv_kept:
  assumes inv: "tree_inv sv g (\<lambda>_. 0)" and h: "u_ni_Testbus_Environment_setenv a argv sv = Some (r, sv')"
  shows "kept sv g sv'"
proof -
  consider "sv' = sv" | name v c env where "cget a sv = Some c" "ni_testbus_setenv (c_env c) name v = Some env" "sv' = cset a (c\<lparr>c_env := env\<rparr>) sv"
    using h unfolding u_ni_Testbus_Environment_setenv_def
    by (auto simp: bind_eq_Some_conv split: if_splits option.splits)
  then show ?thesis
  proof cases
    case (2 name v c env)
    then show ?thesis using setenv_inv [OF inv 2(1), of name v] by simp
  qed (use inv in simp)
qed

lemma eventlog_kept:
  "tree_inv sv g (\<lambda>_. 0) \<Longrightarrow> u_ni_objectmodel_get_eventlog a write_access sv = Some (r, sv') \<Longrightarrow> kept sv g sv'"
  "tree_inv sv g (\<lambda>_. 0) \<Longrightarrow> set_eventlog a log sv = Some sv' \<Longrightarrow> kept sv g sv'"
  using unlinked_kept [of sv g "\<lambda>_. 0" a]
  by (auto simp: u_ni_objectmodel_get_eventlog_def set_eventlog_def bind_eq_Some_conv split: if_splits option.splits)

lemma eventlog_add_kept:
  assumes inv: "tree_inv sv g (\<lambda>_. 0)" and h: "u_ni_Testbus_Eventlog_add path a argv sv = Some (r, sv')"
  shows "kept sv g sv'"
proof -
  obtain r0 sv1 where s1: "u_ni_objectmodel_get_eventlog a True sv = Some (r0, sv1)"
    using h by (auto simp: u_ni_Testbus_Eventlog_add_def bind_eq_Some_conv)
  have k1: "kept sv g sv1" by (rule eventlog_kept(1) [OF inv s1])
  have "sv' = sv1 \<or> (\<exists>log sv2 m arg. set_eventlog a log sv1 = Some sv2 \<and> sv' = send_signal path m arg sv2)"
    using h s1 unfolding u_ni_Testbus_Eventlog_add_def
    by (cases r0) (auto simp: bind_eq_Some_conv split: if_splits)
  then show ?thesis using k1 eventlog_kept(2) [of sv1 g a] by auto
qed

lemma eventlog_purge_kept:
  assumes inv: "tree_inv sv g (\<lambda>_. 0)" and h: "u_ni_Testbus_Eventlog_purge a argv sv = Some (r, sv')"
  shows "kept sv g sv'"
proof -
  obtain r0 sv1 where s1: "u_ni_objectmodel_get_eventlog a True sv = Some (r0, sv1)"
    using h by (auto simp: u_ni_Testbus_Eventlog_purge_def bind_eq_Some_conv)
  have k1: "kept sv g sv1" by (rule eventlog_kept(1) [OF inv s1])
  have "sv' = sv1 \<or> (\<exists>log. set_eventlog a log sv1 = Some sv')"
    using h s1 unfolding u_ni_Testbus_Eventlog_purge_def
    by (cases r0) (auto simp: bind_eq_Some_conv split: if_splits option.splits)
  then show ?thesis using k1 eventlog_kept(2) [of sv1 g a] by auto
qed

lemma createFile_kept:
  assumes inv: "tree_inv sv g (\<lambda>_. 0)" and h: "u_ni_Testbus_Fileset_createFile path a argv sv = Some (r, sv')"
  shows "kept sv g sv'"
proof -
  consider "sv' = sv"
    | c files fs f p where "cget a sv = Some c" "ni_testbus_file_wrap path f ((cset a (c\<lparr>c_files := files\<rparr>) sv)\<lparr>sv_files := fs\<rparr>) = Some (p, sv')"
    using h unfolding u_ni_Testbus_Fileset_createFile_def
    by (auto simp: bind_eq_Some_conv split: if_splits option.splits)
  then show ?thesis
  proof cases
    case 1
    then show ?thesis using inv by simp
  next
    case (2 c files fs f p)
    then obtain fs' where "sv' = (cset a (c\<lparr>c_files := files\<rparr>) sv)\<lparr>sv_files := fs'\<rparr>" using file_wrap_files by fastforce
    then show ?thesis using unlinked_kept [OF inv 2(1), of "c\<lparr>c_files := files\<rparr>"] by simp
  qed
qed

lemma append_kept:
  assumes inv: "tree_inv sv g (\<lambda>_. 0)" and h: "u_ni_Testbus_Tmpfile_append mem f argv sv = Some (r, sv')"
  shows "kept sv g sv'"
proof -
  have "sv' = sv \<or> (\<exists>file. sv' = set_file f file sv)"
    using h unfolding u_ni_Testbus_Tmpfile_append_def Let_def
    by (auto simp: bind_eq_Some_conv split: if_splits)
  then show ?thesis using inv by (auto simp: set_file_def)
qed

lemma setExitInfo_kept:
  assumes inv: "tree_inv sv g (\<lambda>_. 0)" and h: "u_ni_Testbus_Process_setExitInfo path a argv sv = Some (r, sv')"
  shows "kept sv g sv'"
proof -
  obtain c where c: "cget a sv = Some c" using h by (auto simp: u_ni_Testbus_Process_setExitInfo_def bind_eq_Some_conv)
  consider "sv' = sv"
    | xi2 arg where "sv' = send_signal path ''processExited'' [arg]
        (case p_process c of None \<Rightarrow> sv | Some pi \<Rightarrow> cset a (c\<lparr>p_process := Some (ni_process_set_exit_info xi2 pi)\<rparr>) sv)"
    using h c unfolding u_ni_Testbus_Process_setExitInfo_def Let_def
    by (auto simp: bind_eq_Some_conv split: if_splits)
  then show ?thesis
  proof cases
    case 1
    then show ?thesis using inv by simp
  next
    case (2 xi2 arg)
    then show ?thesis using inv unlinked_kept [OF inv c] by (auto split: option.split)
  qed
qed

section \<open>Running a command\<close>

lemma ancestors_there:
  assumes "tree_inv sv g d"
  shows "cget a sv = Some c \<Longrightarrow> \<exists>as. ancestors sv (Some a) as"
proof (induction a arbitrary: c rule: less_induct)
  case (less a)
  show ?case
  proof (cases "c_parent c")
    case None
    then show ?thesis using less.prems by (intro exI [of _ "[a]"]) simp
  next
    case (Some p)
    then have "a \<noteq> g" using tree_invD(3) [OF assms less.prems] by (auto simp: node_ok_def)
    then obtain cp where "p < a" "cget p sv = Some cp" using tree_invD(3) [OF assms less.prems] Some by (auto simp: node_ok_def)
    then obtain as where "ancestors sv (Some p) as" using less.IH by blast
    then show ?thesis using less.prems Some by (intro exI [of _ "a # as"]) simp
  qed
qed

lemma set_env_kept:
  assumes "tree_inv sv g d" "cget a sv = Some c" "env_wf e"
  shows "tree_inv (cset a (c\<lparr>c_env := e\<rparr>) sv) g d"
  using change_members [OF assms(1,2), of "c\<lparr>c_env := e\<rparr>"] node_self [OF assms(1,2)] assms(3) by (simp add: self_ok_def same_links_def)

lemma set_envs_kept:
  "tree_inv sv g d \<Longrightarrow> list_all env_wf es \<Longrightarrow> set_envs as es sv = Some sv' \<Longrightarrow> tree_inv sv' g d \<and> sv_next sv' = sv_next sv"
proof (induction as es sv rule: set_envs.induct)
  case (1 a as e es sv)
  obtain c where c: "cget a sv = Some c" "set_envs as es (cset a (c\<lparr>c_env := e\<rparr>) sv) = Some sv'"
    using "1.prems"(3) by (auto simp: bind_eq_Some_conv)
  then show ?case using "1.IH" [OF c(1)] "1.prems"(2) set_env_kept [OF "1.prems"(1) c(1), of e] by simp
qed simp_all

lemma get_envs_wf: "tree_inv sv g d \<Longrightarrow> get_envs as sv = Some es \<Longrightarrow> list_all env_wf es"
  using node_self by (induction as arbitrary: es) (auto simp: bind_eq_Some_conv self_ok_def)

lemma merge_environment_kept:
  assumes inv: "tree_inv sv g d" and wf: "env_wf result" and h: "ni_testbus_container_merge_environment p result sv = Some (ok, env, sv')"
  shows "env_wf env \<and> tree_inv sv' g d \<and> sv_next sv' = sv_next sv"
proof -
  obtain chain es where c: "env_chain p sv = Some chain" "get_envs chain sv = Some es"
    using h by (auto simp: ni_testbus_container_merge_environment_def bind_eq_Some_conv Let_def)
  have es: "list_all env_wf es" by (rule get_envs_wf [OF inv c(2)])
  define own where "own = (va_count (env_vars result) \<noteq> 0)"
  let ?in = "(if own then [result] else []) @ es"
  have inputs: "list_all env_wf ?in" using es wf by simp
  show ?thesis
  proof (cases "?in = []")
    case True
    then have "es = []" "va_count (env_vars result) = 0" by (auto simp: own_def split: if_splits)
    then show ?thesis using h c inv wf by (simp add: ni_testbus_container_merge_environment_def)
  next
    case False
    obtain merged sorted where m: "ni_testbus_env_merge ni_testbus_env_init ?in = Some (merged, sorted)" "env_wf merged"
      using env_merge_ok [OF env_wf_init(1) inputs] by (auto simp: ni_testbus_env_init_def va_wf_init)
    have s: "list_all env_wf sorted" using sort_all_wf [OF inputs merge_sorts [OF m(1)]] by simp
    then have s1: "list_all env_wf (if own then List.tl sorted else sorted)" by (cases sorted) simp_all
    have "env = merged" "set_envs chain (if own then List.tl sorted else sorted) sv = Some sv'"
      using h c False m(1) unfolding own_def by (auto simp: ni_testbus_container_merge_environment_def bind_eq_Some_conv Let_def split: if_splits)
    then show ?thesis using set_envs_kept [OF inv s1] m(2) by blast
  qed
qed

lemma merge_files_up_files: "tree_inv sv g d \<Longrightarrow> merge_files_up (Some a) files sv = Some (r, sv') \<Longrightarrow> \<exists>fs. sv' = sv\<lparr>sv_files := fs\<rparr>"
proof (induction a arbitrary: files sv rule: less_induct)
  case (less a)
  obtain c r1 where c: "cget a sv = Some c" "merge_files_up (c_parent c) (fst r1) (sv\<lparr>sv_files := snd r1\<rparr>) = Some (r, sv')"
    using less.prems(2) by (subst (asm) merge_files_up.simps) (auto simp: bind_eq_Some_conv)
  show ?case
  proof (cases "c_parent c")
    case None
    then show ?thesis using c(2) by (auto simp: merge_files_up_none)
  next
    case (Some p)
    then have "a \<noteq> g" using tree_invD(3) [OF less.prems(1) c(1)] by (auto simp: node_ok_def)
    then have "p < a" using tree_invD(3) [OF less.prems(1) c(1)] Some by (auto simp: node_ok_def)
    then obtain fs where "sv' = (sv\<lparr>sv_files := snd r1\<rparr>)\<lparr>sv_files := fs\<rparr>" using less.IH [of p "sv\<lparr>sv_files := snd r1\<rparr>"] less.prems(1) c(2) Some by auto
    then show ?thesis by auto
  qed
qed

lemma apply_context_kept:
  assumes inv: "tree_inv sv g d" and h: "ni_testbus_process_apply_context proc a sv = Some sv'"
  shows "tree_inv sv' g d \<and> sv_next sv' = sv_next sv"
proof -
  obtain c ok env sv1 where m: "cget proc sv = Some c" "ni_testbus_container_merge_environment (Some a) (c_env c) sv = Some (ok, env, sv1)"
    using h by (auto simp: ni_testbus_process_apply_context_def bind_eq_Some_conv)
  have "env_wf (c_env c)" using node_self [OF inv m(1)] by (simp add: self_ok_def)
  then have s1: "env_wf env" "tree_inv sv1 g d" "sv_next sv1 = sv_next sv" using merge_environment_kept [OF inv _ m(2)] by simp_all
  obtain c1 where c1: "cget proc sv1 = Some c1"
    using h m by (auto simp: ni_testbus_process_apply_context_def bind_eq_Some_conv)
  let ?sv2 = "cset proc (c1\<lparr>c_env := env\<rparr>) sv1"
  have s2: "tree_inv ?sv2 g d" by (rule set_env_kept [OF s1(2) c1 s1(1)])
  obtain files sv3 c2 where f: "merge_files_up (Some a) (c_files c1) ?sv2 = Some (files, sv3)" "cget proc sv3 = Some c2" "sv' = cset proc (c2\<lparr>c_files := files\<rparr>) sv3"
    using h m c1 by (auto simp: ni_testbus_process_apply_context_def ni_testbus_container_merge_files_def bind_eq_Some_conv Let_def)
  obtain fs where fs: "sv3 = ?sv2\<lparr>sv_files := fs\<rparr>" using merge_files_up_files [OF s2 f(1)] by blast
  have "tree_inv sv3 g d" "sv_next sv3 = sv_next sv" using s2 s1(3) by (simp_all add: fs)
  then show ?thesis using unlinked_kept [OF _ f(2), of g d "c2\<lparr>c_files := files\<rparr>"] f(3) by simp
qed

lemma signal_scheduled_kept:
  assumes inv: "tree_inv sv g d" and h: "ni_testbus_host_signal_process_scheduled host_path process_path proc sv = Some (ok, sv')"
  shows "tree_inv sv' g d \<and> sv_next sv' = sv_next sv"
proof -
  obtain c where c: "cget proc sv = Some c" using h by (auto simp: ni_testbus_host_signal_process_scheduled_def bind_eq_Some_conv)
  have "sv' = sv \<or> (\<exists>pi m args. sv' = cset proc (c\<lparr>p_process := pi\<rparr>) (send_signal host_path m args sv))"
    using h c unfolding ni_testbus_host_signal_process_scheduled_def Let_def
    by (auto simp: bind_eq_Some_conv split: if_splits)
  moreover have "tree_inv (cset proc (c\<lparr>p_process := pi\<rparr>) (send_signal host_path m args sv)) g d" for pi m args
    using inv c by (intro unlinked_kept [of _ g d proc c]) simp_all
  ultimately show ?thesis using inv by auto
qed

lemma run_command_kept:
  assumes inv: "tree_inv sv g (\<lambda>_. 0)" and small: "sv_next sv + 1 < 2 ^ 32" and host: "cget a sv = Some ch" "c_kind ch = Host"
    and cmd: "cget m sv = Some cm" "c_kind cm = Command" and h: "run_command path a m sv = Some (r, sv')"
  shows "steady sv g sv'"
proof -
  obtain proc sv1 where s1: "ni_testbus_process_new a m sv = Some (proc, sv1)" "tree_inv sv1 g (\<lambda>_. 0)" "sv_next sv1 = sv_next sv + 1"
    using process_new_ok [OF inv small host cmd] by blast
  obtain sv2 sv3 p sv4 ok sv5 c sv6 ok2 where r: "ni_testbus_process_apply_context proc m sv1 = Some sv2" "ni_testbus_process_apply_context proc a sv2 = Some sv3"
      "ni_testbus_container_wrap path proc sv3 = Some (p, sv4)" "ni_testbus_process_finalize proc sv4 = Some (ok, sv5)"
      "(if ok then wrap_outputs p (fa_data (c_files (c :: container))) sv5 else Some sv5) = Some sv6"
      "ni_testbus_host_signal_process_scheduled path p proc sv6 = Some (ok2, sv')"
    using h s1(1) unfolding run_command_def by (auto simp: bind_eq_Some_conv)
  note s2 = apply_context_kept [OF s1(2) r(1)]
  note s3 = apply_context_kept [OF conjunct1 [OF s2] r(2)]
  obtain e where "sv4 = cset proc (e\<lparr>c_path := Some p, c_trace_name := Some p\<rparr>) sv3" "tree_inv sv4 g (\<lambda>_. 0)"
    by (rule wrap_kept [OF r(3) conjunct1 [OF s3]])
  then have s4: "tree_inv sv4 g (\<lambda>_. 0)" "sv_next sv4 = sv_next sv + 1" using s1(3) s2 s3 by simp_all
  obtain c4 arr fs where f: "cget proc sv4 = Some c4" "sv5 = (cset proc (c4\<lparr>c_files := arr\<rparr>) sv4)\<lparr>sv_files := fs\<rparr>"
    using r(4) by (auto simp: ni_testbus_process_finalize_def bind_eq_Some_conv)
  have s5: "tree_inv sv5 g (\<lambda>_. 0)" "sv_next sv5 = sv_next sv + 1"
    using unlinked_kept [OF s4(1) f(1), of "c4\<lparr>c_files := arr\<rparr>"] s4(2) by (simp_all add: f(2))
  have "\<exists>fs. sv6 = sv5\<lparr>sv_files := fs\<rparr>"
  proof (cases ok)
    case True
    then show ?thesis using r(5) wrap_outputs_files by simp
  next
    case False
    then show ?thesis using r(5) by (intro exI [of _ "sv_files sv5"]) simp
  qed
  then obtain fs6 where "sv6 = sv5\<lparr>sv_files := fs6\<rparr>" by blast
  then have s6: "tree_inv sv6 g (\<lambda>_. 0)" "sv_next sv6 = sv_next sv + 1" using s5 by simp_all
  show ?thesis using signal_scheduled_kept [OF s6(1) r(6)] s6(2) by simp
qed

lemma run_kept:
  assumes inv: "tree_inv sv g (\<lambda>_. 0)" and small: "sv_next sv + 1 < 2 ^ 32" and h: "u_ni_Testbus_Host_run others path a argv sv = Some (r, sv')"
  shows "steady sv g sv'"
proof -
  obtain ch where ch: "cget a sv = Some ch" using h by (auto simp: u_ni_Testbus_Host_run_def bind_eq_Some_conv)
  show ?thesis
  proof (cases "c_kind ch = Host")
    case False
    then show ?thesis using h ch inv by (simp add: u_ni_Testbus_Host_run_def)
  next
    case host: True
    obtain args where args: "string_args 1 argv = Some args" using h ch host by (auto simp: u_ni_Testbus_Host_run_def bind_eq_Some_conv)
    show ?thesis
    proof (cases "args = None \<or> \<not> h_ready ch")
      case True
      then show ?thesis using h ch host args inv by (cases args) (simp_all add: u_ni_Testbus_Host_run_def)
    next
      case False
      then obtain ss where ss: "args = Some ss" "h_ready ch" by auto
      obtain command_path where p: "arr_get ss 0 = Some (Some command_path)"
        using h ch host args ss by (auto simp: u_ni_Testbus_Host_run_def bind_eq_Some_conv)
      show ?thesis
      proof (cases "\<exists>m cm. ni_dbus_object_lookup others command_path sv = Container_object m \<and> cget m sv = Some cm \<and> c_kind cm = Command")
        case False
        then show ?thesis using h ch host args ss p inv
          by (auto simp: u_ni_Testbus_Host_run_def bind_eq_Some_conv split: bus_object.splits if_splits)
      next
        case True
        then obtain m cm where m: "ni_dbus_object_lookup others command_path sv = Container_object m" "cget m sv = Some cm" "c_kind cm = Command" by blast
        then have "run_command path a m sv = Some (r, sv')" using h ch host args ss p by (simp add: u_ni_Testbus_Host_run_def)
        then show ?thesis by (rule run_command_kept [OF inv small ch host m(2,3)])
      qed
    qed
  qed
qed

section \<open>Sequences of calls and signals\<close>

text \<open>A call or signal, with the path and the address of the object it is for, what the environment contributes - the
  sender's bus name, what \<open>ni_uuid_generate\<close> gives, which paths are objects that are no containers, how a class name is
  looked up, what the allocator leaves in memory - and its arguments.  All methods are there but the two that delete
  (\<open>Container.delete\<close> and \<open>Hostlist.removeHost\<close>).\<close>

datatype bus_call =
    Hostlist_createHost cstring cstring ni_uuid "ni_dbus_variant list"
  | Hostlist_reconnect cstring cstring ni_uuid "ni_dbus_variant list"
  | Hostlist_shutdown "ni_dbus_variant list"
  | Hostlist_reboot "ni_dbus_variant list"
  | Hostset_shutdown nat "ni_dbus_variant list"
  | Hostset_reboot nat "ni_dbus_variant list"
  | Hostset_addHost "cstring \<Rightarrow> bool" nat "ni_dbus_variant list"
  | Host_addCapability nat "ni_dbus_variant list"
  | Host_shutdown cstring nat "ni_dbus_variant list"
  | Host_reboot cstring nat "ni_dbus_variant list"
  | Host_run "cstring \<Rightarrow> bool" cstring nat "ni_dbus_variant list"
  | Container_getChildByName "cstring \<Rightarrow> child_class option" cstring nat "ni_dbus_variant list"
  | Testset_createTest cstring nat "ni_dbus_variant list"
  | CommandQueue_createCommand cstring nat "ni_dbus_variant list"
  | Environment_setenv nat "ni_dbus_variant list"
  | Environment_getenv nat "ni_dbus_variant list"
  | Eventlog_add cstring nat "ni_dbus_variant list"
  | Eventlog_purge nat "ni_dbus_variant list"
  | Fileset_createFile cstring nat "ni_dbus_variant list"
  | Tmpfile_append "nat \<Rightarrow> byte" nat "ni_dbus_variant list"
  | Tmpfile_retrieve nat "ni_dbus_variant list"
  | Process_setExitInfo cstring nat "ni_dbus_variant list"
  | Agent_signal cstring cstring
  | Bus_signal cstring cstring cstring

text \<open>The handler of each; None: the server is gone.\<close>

fun handle :: "bus_call \<Rightarrow> server \<Rightarrow> server option" where
  "handle (Hostlist_createHost path sender fresh argv) sv = map_option snd (u_ni_Testbus_Hostlist_createHost path (Some sender) fresh argv sv)"
| "handle (Hostlist_reconnect path sender fresh argv) sv = map_option snd (u_ni_Testbus_Hostlist_reconnect path (Some sender) fresh argv sv)"
| "handle (Hostlist_shutdown argv) sv = map_option snd (u_ni_Testbus_Hostlist_shutdown argv sv)"
| "handle (Hostlist_reboot argv) sv = map_option snd (u_ni_Testbus_Hostlist_reboot argv sv)"
| "handle (Hostset_shutdown a argv) sv = map_option snd (u_ni_Testbus_Hostset_shutdown a argv sv)"
| "handle (Hostset_reboot a argv) sv = map_option snd (u_ni_Testbus_Hostset_reboot a argv sv)"
| "handle (Hostset_addHost others a argv) sv = map_option snd (u_ni_Testbus_Hostset_addHost others a argv sv)"
| "handle (Host_addCapability a argv) sv = map_option snd (u_ni_Testbus_Host_addCapability a argv sv)"
| "handle (Host_shutdown path a argv) sv = map_option snd (u_ni_Testbus_Host_shutdown path a argv sv)"
| "handle (Host_reboot path a argv) sv = map_option snd (u_ni_Testbus_Host_reboot path a argv sv)"
| "handle (Host_run others path a argv) sv = map_option snd (u_ni_Testbus_Host_run others path a argv sv)"
| "handle (Container_getChildByName class_of path a argv) sv = map_option snd (u_ni_Testbus_Container_getChildByName class_of path a argv sv)"
| "handle (Testset_createTest path a argv) sv = map_option snd (u_ni_Testbus_Testset_createTest path a argv sv)"
| "handle (CommandQueue_createCommand path a argv) sv = map_option snd (u_ni_Testbus_CommandQueue_createCommand path a argv sv)"
| "handle (Environment_setenv a argv) sv = map_option snd (u_ni_Testbus_Environment_setenv a argv sv)"
| "handle (Environment_getenv a argv) sv = map_option snd (u_ni_Testbus_Environment_getenv a argv sv)"
| "handle (Eventlog_add path a argv) sv = map_option snd (u_ni_Testbus_Eventlog_add path a argv sv)"
| "handle (Eventlog_purge a argv) sv = map_option snd (u_ni_Testbus_Eventlog_purge a argv sv)"
| "handle (Fileset_createFile path a argv) sv = map_option snd (u_ni_Testbus_Fileset_createFile path a argv sv)"
| "handle (Tmpfile_append mem f argv) sv = map_option snd (u_ni_Testbus_Tmpfile_append mem f argv sv)"
| "handle (Tmpfile_retrieve f argv) sv = map_option snd (u_ni_Testbus_Tmpfile_retrieve f argv sv)"
| "handle (Process_setExitInfo path a argv) sv = map_option snd (u_ni_Testbus_Process_setExitInfo path a argv sv)"
| "handle (Agent_signal sender signal) sv = u_ni_testbus_host_agent_signal (Some sender) signal sv"
| "handle (Bus_signal signal name new_owner) sv = u_ni_testbus_dbus_bus_signal_handler signal name new_owner sv"

fun handle_all :: "bus_call list \<Rightarrow> server \<Rightarrow> server option" where
  "handle_all [] sv = Some sv"
| "handle_all (c # cs) sv = do { sv1 \<leftarrow> handle c sv; handle_all cs sv1 }"

lemma getChildByName_same: "u_ni_Testbus_Container_getChildByName class_of path a argv sv = Some (r, sv') \<Longrightarrow> sv' = sv"
  by (auto simp: u_ni_Testbus_Container_getChildByName_def bind_eq_Some_conv Let_def split: if_splits option.splits)

lemma getenv_same: "u_ni_Testbus_Environment_getenv a argv sv = Some (r, sv') \<Longrightarrow> sv' = sv"
  by (auto simp: u_ni_Testbus_Environment_getenv_def bind_eq_Some_conv split: if_splits option.splits)

lemma retrieve_same: "u_ni_Testbus_Tmpfile_retrieve f argv sv = Some (r, sv') \<Longrightarrow> sv' = sv"
  by (auto simp: u_ni_Testbus_Tmpfile_retrieve_def bind_eq_Some_conv Let_def split: if_splits option.splits)

lemmas handlers_steady = createHost_kept reconnect_kept createTest_kept createCommand_kept run_kept
lemmas handlers_kept = addHost_kept addCapability_kept goes_down_kept setenv_kept eventlog_add_kept eventlog_purge_kept createFile_kept
  append_kept setExitInfo_kept

lemma handle_ok:
  assumes inv: "tree_inv sv g (\<lambda>_. 0)" and small: "sv_next sv + 1 < 2 ^ 32" and h: "handle c sv = Some sv'"
  shows "steady sv g sv'"
proof -
  note gl = global_context_there [OF tree_invD(1) [OF inv]]
  have down: "kept sv g sv'" if "u_ni_testbus_context_delegate_hosts (host_goes_down signal) a argv sv = Some (r, sv')" for signal a argv r
    by (rule delegate_hosts_kept [OF goes_down_kept inv that])
  note defs = u_ni_Testbus_Hostlist_shutdown_def u_ni_Testbus_Hostlist_reboot_def u_ni_Testbus_Hostset_shutdown_def u_ni_Testbus_Hostset_reboot_def
    u_ni_Testbus_Host_shutdown_def u_ni_Testbus_Host_reboot_def
  show ?thesis
  proof (cases c)
    case (Agent_signal sender signal)
    then show ?thesis using h agent_signal_ok [OF inv, of sender signal] by simp
  next
    case (Bus_signal signal name new_owner)
    then show ?thesis using h bus_signal_ok [OF inv, of signal name new_owner] by simp
  next
    case (Hostlist_createHost path sender fresh argv)
    then show ?thesis using h handlers_steady(1) [OF inv small, of path sender fresh argv _ sv'] by auto
  next
    case (Hostlist_reconnect path sender fresh argv)
    then show ?thesis using h handlers_steady(2) [OF inv small, of path sender fresh argv _ sv'] by auto
  next
    case (Testset_createTest path a argv)
    then show ?thesis using h handlers_steady(3) [OF inv small, of path a argv _ sv'] by auto
  next
    case (CommandQueue_createCommand path a argv)
    then show ?thesis using h handlers_steady(4) [OF inv small, of path a argv _ sv'] by auto
  next
    case (Host_run others path a argv)
    then show ?thesis using h handlers_steady(5) [OF inv small, of others path a argv _ sv'] by auto
  next
    case (Hostlist_shutdown argv)
    then show ?thesis using h gl down by (auto simp: defs)
  next
    case (Hostlist_reboot argv)
    then show ?thesis using h gl down by (auto simp: defs)
  next
    case (Hostset_shutdown a argv)
    then show ?thesis using h down by (auto simp: defs)
  next
    case (Hostset_reboot a argv)
    then show ?thesis using h down by (auto simp: defs)
  next
    case (Host_shutdown path a argv)
    then show ?thesis using h handlers_kept(3) [OF inv] by (auto simp: defs)
  next
    case (Host_reboot path a argv)
    then show ?thesis using h handlers_kept(3) [OF inv] by (auto simp: defs)
  next
    case (Hostset_addHost others a argv)
    then show ?thesis using h handlers_kept(1) [OF inv, of others a argv _ sv'] by auto
  next
    case (Host_addCapability a argv)
    then show ?thesis using h handlers_kept(2) [OF inv, of a argv _ sv'] by auto
  next
    case (Container_getChildByName class_of path a argv)
    then show ?thesis using h inv getChildByName_same [of class_of path a argv sv _ sv'] by auto
  next
    case (Environment_setenv a argv)
    then show ?thesis using h handlers_kept(4) [OF inv, of a argv _ sv'] by auto
  next
    case (Environment_getenv a argv)
    then show ?thesis using h inv getenv_same [of a argv sv _ sv'] by auto
  next
    case (Eventlog_add path a argv)
    then show ?thesis using h handlers_kept(5) [OF inv, of path a argv _ sv'] by auto
  next
    case (Eventlog_purge a argv)
    then show ?thesis using h handlers_kept(6) [OF inv, of a argv _ sv'] by auto
  next
    case (Fileset_createFile path a argv)
    then show ?thesis using h handlers_kept(7) [OF inv, of path a argv _ sv'] by auto
  next
    case (Tmpfile_append mem f argv)
    then show ?thesis using h handlers_kept(8) [OF inv, of mem f argv _ sv'] by auto
  next
    case (Tmpfile_retrieve f argv)
    then show ?thesis using h inv retrieve_same [of f argv sv _ sv'] by auto
  next
    case (Process_setExitInfo path a argv)
    then show ?thesis using h handlers_kept(9) [OF inv, of path a argv _ sv'] by auto
  qed
qed

lemma handle_all_ok:
  "tree_inv sv g (\<lambda>_. 0) \<Longrightarrow> sv_next sv + length cs < 2 ^ 32 \<Longrightarrow> handle_all cs sv = Some sv' \<Longrightarrow> tree_inv sv' g (\<lambda>_. 0)"
proof (induction cs arbitrary: sv)
  case (Cons c cs)
  obtain sv1 where sv1: "handle c sv = Some sv1" "handle_all cs sv1 = Some sv'" using Cons.prems(3) by (auto simp: bind_eq_Some_conv)
  have "steady sv g sv1" using handle_ok [OF Cons.prems(1) _ sv1(1)] Cons.prems(2) by simp
  then show ?case using Cons.IH [of sv1] Cons.prems(2) sv1(2) by simp
qed simp

text \<open>C35: Until a client deletes something, the tree of containers stays consistent, whatever methods clients and agents
  call, on whatever objects, with whatever arguments, and whatever signals arrive, as long as there are fewer than
  \<open>2 ^ 32 - 1\<close> of them and none has ended the server.  Written out: every container but the global context has an
  older, live parent of a kind that has such children, and is in its array; every member of an array is live and of
  the kind of the array; the reference count of a container is exactly the number of places it is held in (arrays
  and the commands of processes, and one for the global context); children of one container have different
  identifiers; no two hosts have the same name; the command of a process and the owner of a container are live; and a
  host is ready only if it has an agent.  What a deletion can do to the tree is the subject of
  \<open>claimed_host_orphaned\<close>.\<close>

theorem server_tree_consistent:
  assumes "handle_all calls initial_server = Some sv" "length calls < 2 ^ 32 - 1"
  shows "(\<forall>a c. cget a sv = Some c \<longrightarrow>
          (a \<noteq> 0 \<longrightarrow> (\<exists>p cp. c_parent c = Some p \<and> p < a \<and> cget p sv = Some cp \<and> has_children (c_kind c) cp \<and> a \<in> set (ca_data (children_of (c_kind c) cp))))
        \<and> (\<forall>k. \<forall>x\<in>set (ca_data (children_of k c)). \<exists>cx. cget x sv = Some cx \<and> c_kind cx = k \<and> (k = Host \<longrightarrow> c_parent cx = Some 0) \<and> (k \<noteq> Host \<longrightarrow> c_parent cx = Some a))
        \<and> c_refcount c = refs_to sv a + (if a = 0 then 1 else 0)
        \<and> (\<forall>m. p_command c = Some m \<longrightarrow> (\<exists>cm. cget m sv = Some cm \<and> c_kind cm = Command))
        \<and> (\<forall>o'. c_owner c = Some o' \<longrightarrow> cget o' sv \<noteq> None)
        \<and> (h_ready c \<longrightarrow> h_agent_bus_name c \<noteq> None))
     \<and> (\<forall>a b c d. cget a sv = Some c \<and> cget b sv = Some d \<and> c_kind c = c_kind d \<and> c_parent c = c_parent d
          \<and> (c_id c = c_id d \<or> c_kind c = Host \<and> c_name c = c_name d) \<longrightarrow> a = b)"
proof -
  have inv: "tree_inv sv 0 (\<lambda>_. 0)" using handle_all_ok [of initial_server 0 calls sv] initial_inv assms by simp
  note node = tree_invD(3) [OF inv] and kids = tree_invD(4) [OF inv] and count = tree_invD(5) [OF inv]
  have "a = b" if ab: "cget a sv = Some c" "cget b sv = Some d" "c_kind c = c_kind d" "c_parent c = c_parent d"
      "c_id c = c_id d \<or> c_kind c = Host \<and> c_name c = c_name d" for a b c d
  proof (cases "a = 0 \<or> b = 0")
    case True
    then show ?thesis using node [OF ab(1)] node [OF ab(2)] ab(3) by (auto simp: node_ok_def)
  next
    case False
    then obtain p cp where p: "c_parent c = Some p" "cget p sv = Some cp" "a \<in> set (ca_data (children_of (c_kind c) cp))"
      using node [OF ab(1)] by (auto simp: node_ok_def)
    moreover have "b \<in> set (ca_data (children_of (c_kind c) cp))" using node [OF ab(2)] False p ab(3,4) by (auto simp: node_ok_def)
    ultimately show ?thesis using kids [OF p(2), of "c_kind c"] ab unfolding children_ok_def by metis
  qed
  moreover have "(a \<noteq> 0 \<longrightarrow> (\<exists>p cp. c_parent c = Some p \<and> p < a \<and> cget p sv = Some cp \<and> has_children (c_kind c) cp \<and> a \<in> set (ca_data (children_of (c_kind c) cp))))
        \<and> (\<forall>k. \<forall>x\<in>set (ca_data (children_of k c)). \<exists>cx. cget x sv = Some cx \<and> c_kind cx = k \<and> (k = Host \<longrightarrow> c_parent cx = Some 0) \<and> (k \<noteq> Host \<longrightarrow> c_parent cx = Some a))
        \<and> c_refcount c = refs_to sv a + (if a = 0 then 1 else 0)
        \<and> (\<forall>m. p_command c = Some m \<longrightarrow> (\<exists>cm. cget m sv = Some cm \<and> c_kind cm = Command))
        \<and> (\<forall>o'. c_owner c = Some o' \<longrightarrow> cget o' sv \<noteq> None) \<and> (h_ready c \<longrightarrow> h_agent_bus_name c \<noteq> None)" if a: "cget a sv = Some c" for a c
  proof -
    have "\<exists>cx. cget x sv = Some cx \<and> c_kind cx = k \<and> (k = Host \<longrightarrow> c_parent cx = Some 0) \<and> (k \<noteq> Host \<longrightarrow> c_parent cx = Some a)"
      if x: "x \<in> set (ca_data (children_of k c))" for k x
    proof -
      obtain cx where cx: "cget x sv = Some cx" "c_kind cx = k" "k \<noteq> Host \<longrightarrow> c_parent cx = Some a" using kids [OF a, of k] x by (auto simp: children_ok_def)
      then show ?thesis using node [OF cx(1)] by (simp add: node_ok_def)
    qed
    then show ?thesis using node [OF a] count [OF a] unfolding node_ok_def by simp blast
  qed
  ultimately show ?thesis by blast
qed

text \<open>A host registers and gets ready; a test is made, claims the host and makes a command, which is run on the host.\<close>

definition str_arg :: "cstring \<Rightarrow> ni_dbus_variant" where
  "str_arg s = the (ni_dbus_variant_set_string ni_dbus_variant_init (Some s))"

definition sample_calls :: "bus_call list" where
  "sample_calls =
     [Hostlist_createHost ''/H'' '':1.5'' [] [str_arg ''client''],
      Testset_createTest ''/G'' 0 [str_arg ''mytest''],
      Hostset_addHost (\<lambda>_. False) 2 [str_arg ''server'', str_arg ''/H/Host0''],
      Agent_signal '':1.5'' ''ready'',
      CommandQueue_createCommand ''/G/Test0'' 2
        [the (ni_dbus_variant_set_string_array ni_dbus_variant_init [Some ''ls'']), the (ni_dbus_variant_init_dict ni_dbus_variant_init)],
      Host_run (\<lambda>_. False) ''/H/Host0'' 1 [str_arg ''/G/Test0/Command0'']]"

definition kinds_of :: "server \<Rightarrow> kind option list" where
  "kinds_of sv = map (\<lambda>a. map_option c_kind (cget a sv)) [0..<sv_next sv]"

lemma sample_calls_run:
  "map_option kinds_of (handle_all sample_calls initial_server) = Some [Some Global, Some Host, Some Testcase, Some Command, Some Process]"
  by code_simp

theorem server_tree_consistent_witness:
  "\<exists>sv. handle_all sample_calls initial_server = Some sv \<and> kinds_of sv = [Some Global, Some Host, Some Testcase, Some Command, Some Process]
     \<and> (\<forall>a c. cget a sv = Some c \<longrightarrow> c_refcount c = refs_to sv a + (if a = 0 then 1 else 0))"
proof -
  obtain sv where sv: "handle_all sample_calls initial_server = Some sv" "kinds_of sv = [Some Global, Some Host, Some Testcase, Some Command, Some Process]"
    using sample_calls_run by auto
  have "length sample_calls < 2 ^ 32 - 1" by (simp add: sample_calls_def)
  note all = conjunct1 [OF server_tree_consistent [OF sv(1) this]]
  have "c_refcount c = refs_to sv a + (if a = 0 then 1 else 0)" if "cget a sv = Some c" for a c
    using spec [OF spec [OF all, of a], of c] that by simp
  then show ?thesis using sv by blast
qed

end
