(* ===== verification/ServerOrphan.thy ===== *)
theory ServerOrphan
  imports ServerCalls
begin

text \<open>What becomes of a host that a test has claimed when the test goes away (src/server/host.c,
  ni_testbus_host_array_destroy).  The array of the test holds a second reference to a host whose parent is the
  global context.  Destroying the array clears the role and the owner, as it should, and also sets the parent of the
  host to NULL although the array is not the parent's.\<close>

definition host_left :: "nat \<Rightarrow> container \<Rightarrow> container" where
  "host_left p c = (let c1 = (if c_owner c = Some p then c\<lparr>h_role := None, c_owner := None\<rparr> else c)
                    in c1\<lparr>c_parent := None, c_refcount := c_refcount c - 1\<rparr>)"

definition held_elsewhere :: "server \<Rightarrow> nat \<Rightarrow> bool" where
  "held_elsewhere sv h = (case cget h sv of None \<Rightarrow> False
     | Some c \<Rightarrow> c_refcount c > 1 \<and> (case c_owner c of None \<Rightarrow> True | Some p \<Rightarrow> cget p sv \<noteq> None))"

lemma cset_global [simp]: "sv_global (cset a c sv) = sv_global sv"
  by (simp add: cset_def)

lemma put_shared:
  "cget h sv = Some c \<Longrightarrow> c_refcount c > 1 \<Longrightarrow> ni_testbus_container_put (Suc n) h sv = Some (cset h (c\<lparr>c_refcount := c_refcount c - 1\<rparr>) sv)"
  by simp

lemma host_array_destroy_step:
  assumes "child_pop Host p sv = Some (Some h, sv1)" "host_unclaim p h sv1 = Some sv2" "set_parent_null h sv2 = Some sv3"
    "ni_testbus_container_put n h sv3 = Some sv4"
  shows "ni_testbus_host_array_destroy (Suc n) p sv = ni_testbus_host_array_destroy n p sv4"
  using assms by (subst ni_testbus_host_array_destroy.simps(2)) (simp del: ni_testbus_container_put.simps ni_testbus_host_array_destroy.simps)

lemma host_step:
  assumes "held_elsewhere sv h" "cget h sv = Some c"
  shows "\<exists>sv1 sv2 sv'. host_unclaim p h sv = Some sv1 \<and> set_parent_null h sv1 = Some sv2 \<and> ni_testbus_container_put (Suc n) h sv2 = Some sv'
    \<and> (\<forall>a. cget a sv' = (if a = h then Some (host_left p c) else cget a sv)) \<and> sv_global sv' = sv_global sv"
proof -
  define d where "d = (if c_owner c = Some p then c\<lparr>h_role := None, c_owner := None\<rparr> else c)"
  define sv1 where "sv1 = (if c_owner c = Some p then cset h d sv else sv)"
  have more: "c_refcount c > 1" and owner: "\<And>q. c_owner c = Some q \<Longrightarrow> \<exists>cq. cget q sv = Some cq"
    using assms by (auto simp: held_elsewhere_def)
  have u: "host_unclaim p h sv = Some sv1"
    using assms(2) owner by (cases "c_owner c") (auto simp: host_unclaim_def ni_testbus_host_set_role_def sv1_def d_def)
  have g1: "cget h sv1 = Some d" using assms(2) by (simp add: sv1_def d_def)
  then have n: "set_parent_null h sv1 = Some (cset h (d\<lparr>c_parent := None\<rparr>) sv1)" by (simp add: set_parent_null_def)
  have "c_refcount (d\<lparr>c_parent := None\<rparr>) > 1" using more by (simp add: d_def)
  then have p: "ni_testbus_container_put (Suc n) h (cset h (d\<lparr>c_parent := None\<rparr>) sv1) =
      Some (cset h (d\<lparr>c_parent := None, c_refcount := c_refcount (d\<lparr>c_parent := None\<rparr>) - 1\<rparr>) (cset h (d\<lparr>c_parent := None\<rparr>) sv1))"
    using put_shared by simp
  have "d\<lparr>c_parent := None, c_refcount := c_refcount (d\<lparr>c_parent := None\<rparr>) - 1\<rparr> = host_left p c" by (simp add: host_left_def d_def)
  moreover have "cget a sv1 = cget a sv" if "a \<noteq> h" for a using that by (simp add: sv1_def)
  moreover have "sv_global sv1 = sv_global sv" by (simp add: sv1_def)
  ultimately show ?thesis using u n p by simp
qed

lemma host_array_destroy_ok:
  assumes "cget p sv = Some cp" "distinct (ca_data (c_hosts cp))" "p \<notin> set (ca_data (c_hosts cp))"
    "\<forall>h\<in>set (ca_data (c_hosts cp)). held_elsewhere sv h" "length (ca_data (c_hosts cp)) < n"
  shows "\<exists>sv'. ni_testbus_host_array_destroy n p sv = Some sv'
    \<and> (\<forall>a. cget a sv' = (if a = p then Some (cp\<lparr>c_hosts := child_array_init\<rparr>)
                        else if a \<in> set (ca_data (c_hosts cp)) then map_option (host_left p) (cget a sv) else cget a sv))
    \<and> sv_global sv' = sv_global sv"
  using assms
proof (induction "ca_data (c_hosts cp)" arbitrary: sv cp n rule: rev_induct)
  case Nil
  then obtain m where "n = Suc m" by (cases n) auto
  then show ?case using Nil by (auto simp: child_pop_def child_reset_def children_of_def set_children_def cget_cset)
next
  case (snoc h hs)
  obtain m where m: "n = Suc (Suc m)" "length hs < Suc m" using snoc.hyps(2) [symmetric] snoc.prems(5) by (cases n; cases "n - 1") auto
  define arr where "arr = (c_hosts cp)\<lparr>ca_data := hs\<rparr>"
  define cq where "cq = cp\<lparr>c_hosts := arr\<rparr>"
  have hs: "ca_data (c_hosts cp) = hs @ [h]" "ca_data (c_hosts cq) = hs" "p \<noteq> h" "h \<notin> set hs" "p \<notin> set hs"
    using snoc.hyps(2) [symmetric] snoc.prems(2,3) by (auto simp: cq_def arr_def)
  have pop: "child_pop Host p sv = Some (Some h, cset p cq sv)"
    using snoc.prems(1) hs by (simp add: child_pop_def children_of_def set_children_def cq_def arr_def)
  obtain c where c: "cget h sv = Some c" using snoc.prems(4) hs by (auto simp: held_elsewhere_def split: option.splits)
  have held: "held_elsewhere (cset p cq sv) a" if "a \<in> set (hs @ [h])" for a
    using that hs snoc.prems(1,4) by (auto simp: held_elsewhere_def cget_cset split: option.splits)
  have c1: "cget h (cset p cq sv) = Some c" using c hs by (simp add: cget_cset)
  obtain sv1 sv2 sv3 where s: "host_unclaim p h (cset p cq sv) = Some sv1" "set_parent_null h sv1 = Some sv2"
      "ni_testbus_container_put (Suc m) h sv2 = Some sv3" "\<forall>a. cget a sv3 = (if a = h then Some (host_left p c) else cget a (cset p cq sv))"
      "sv_global sv3 = sv_global (cset p cq sv)"
    using host_step [OF held c1, of p m] by auto
  have held3: "held_elsewhere sv3 a" if "a \<in> set hs" for a
    using that held [of a] hs s(4) by (auto simp: held_elsewhere_def split: option.splits)
  obtain sv' where sv': "ni_testbus_host_array_destroy (Suc m) p sv3 = Some sv'"
      "\<forall>a. cget a sv' = (if a = p then Some (cq\<lparr>c_hosts := child_array_init\<rparr>)
                        else if a \<in> set hs then map_option (host_left p) (cget a sv3) else cget a sv3)" "sv_global sv' = sv_global sv3"
    using snoc.hyps(1) [of cq sv3 "Suc m"] hs s(4) held3 m(2) snoc.prems(2) by (auto simp: cget_cset)
  have "ni_testbus_host_array_destroy n p sv = Some sv'" using host_array_destroy_step [OF pop s(1-3)] sv'(1) m(1) by simp
  moreover have "cget a sv' = (if a = p then Some (cp\<lparr>c_hosts := child_array_init\<rparr>)
      else if a \<in> set (ca_data (c_hosts cp)) then map_option (host_left p) (cget a sv) else cget a sv)" for a
    using sv'(2) s(4) hs c by (auto simp: cget_cset cq_def)
  ultimately show ?case using sv'(3) s(5) by (auto simp: cset_def)
qed

text \<open>In a consistent server a host that a test has claimed is held by the global context too.\<close>

lemma claimed_twice:
  assumes inv: "tree_inv sv g (\<lambda>_. 0)" and p: "cget p sv = Some cp" "p \<noteq> g" and h: "h \<in> set (ca_data (c_hosts cp))" "cget h sv = Some c"
  obtains cg where "cget g sv = Some cg" "h \<in> set (ca_data (c_hosts cg))" "c_parent c = Some g" "c_kind c = Host" "held_elsewhere sv h"
proof -
  have k: "c_kind c = Host" using tree_invD(4) [OF inv p(1), of Host] h by (auto simp: children_ok_def children_of_Host)
  note n = tree_invD(3) [OF inv h(2)]
  obtain cg where cg: "cget g sv = Some cg" using tree_invD(2) [OF inv] by blast
  have "c_kind cg = Global" using tree_invD(3) [OF inv cg] by (simp add: node_ok_def)
  then have "h \<noteq> g" using k cg h(2) by auto
  then have par: "c_parent c = Some g" "h \<in> set (ca_data (c_hosts cg))" using n k cg by (auto simp: node_ok_def children_of_Host)
  have in_slots: "0 < count_list (slots cq) h" if "h \<in> set (ca_data (c_hosts cq))" for cq
    using that count_list_0_iff [of "slots cq" h] by (auto simp: slots_def all_children_def)
  let ?f = "\<lambda>q. case cget q sv of None \<Rightarrow> 0 | Some c \<Rightarrow> count_list (slots c) h"
  have two: "?f p \<ge> 1" "?f g \<ge> 1" using in_slots [OF h(1)] in_slots [OF par(2)] p(1) cg by simp_all
  have "p < sv_next sv" "g < sv_next sv" using tree_invD(3) [OF inv p(1)] tree_invD(3) [OF inv cg] by (simp_all add: node_ok_def)
  then have "sum ?f {p, g} \<le> refs_to sv h" unfolding refs_to_def by (intro sum_mono2) simp_all
  then have "2 \<le> refs_to sv h" using two p(2) by simp
  then have "1 < c_refcount c" using tree_invD(5) [OF inv h(2)] by simp
  then have "held_elsewhere sv h" using h(2) n by (auto simp: held_elsewhere_def node_ok_def split: option.split)
  then show thesis using that cg par k by blast
qed

lemma env_chain_orphan:
  "cget h sv = Some c \<Longrightarrow> c_parent c = None \<Longrightarrow> \<exists>as. env_chain (Some h) sv = Some as \<and> set as \<subseteq> {h}"
  using env_chain_eq [of sv "Some h" "[h]"] by simp


text \<open>The first calls of the sample: a host, a test, and its claim.\<close>

definition claimed_server :: server where
  "claimed_server = the (handle_all (take 3 sample_calls) initial_server)"

lemma claimed_server_run: "handle_all (take 3 sample_calls) initial_server = Some claimed_server"
proof -
  have "handle_all (take 3 sample_calls) initial_server \<noteq> None" by code_simp
  then show ?thesis by (auto simp: claimed_server_def)
qed


text \<open>The same through the methods: the test is deleted, then deleting the host is refused, and removing it by its
  name succeeds.\<close>

definition answers :: "(dbus_error + cstring list) option \<times> (dbus_error + cstring list) option \<times> (dbus_error + cstring list) option" where
  "answers =
     (case u_ni_Testbus_Container_delete 20 2 [] claimed_server of
        None \<Rightarrow> (None, None, None)
      | Some (r1, sv1) \<Rightarrow>
          (case u_ni_Testbus_Container_delete 20 1 [] sv1 of
             None \<Rightarrow> (Some r1, None, None)
           | Some (r2, sv2) \<Rightarrow> (Some r1, Some r2, map_option fst (u_ni_Testbus_Hostlist_removeHost 20 [str_arg ''client''] sv2))))"

lemma claimed_host_removed_by_name: "answers = (Some (Inr []), Some (Inl Permission_denied), Some (Inr []))"
  by code_simp

end
