(* ===== verification/Schema.thy ===== *)
theory Schema
  imports Vars Xml
begin

text \<open>
  XML schemas (dborb/xml-schema.h, dborb/xml-schema.c): types, scopes, and the parser that turns a schema document
  into services, methods and types.

  Types are values.  The parser changes a type in place only when nothing else refers to it, otherwise it works on
  a clone, which loses description, metadata and origin; whether there are other references is known where it
  asks, and is a flag beside the type here.  The scopes that are open while a part of the document is read are a
  list, the innermost first; closing a named one makes it the last child of the scope around it, closing an
  unnamed one frees it.  A result of \<open>Some None\<close> is the error return of the code, after which the schema is
  given up.
\<close>

section \<open>Types\<close>

datatype ni_xs_relation = NI_XS_GROUP_CONSTRAINT_REQUIRE | NI_XS_GROUP_CONSTRAINT_CONFLICT

text \<open>A group is an object the types of several members refer to; the number is its identity.\<close>

record ni_xs_group =
  gr_id :: nat
  gr_relation :: ni_xs_relation
  gr_name :: cstring

record ni_xs_range =
  rg_min :: u64
  rg_max :: u64

datatype ni_xs_notation = Notation_external_file | Notation_uuid

text \<open>The origin is the name a type was first defined by, and whether the scope of that definition lives on.\<close>

datatype ni_xs_type = Xs_type
    (xt_description: "cstring option")
    (xt_mandatory: bool)
    (xt_group: "ni_xs_group option")
    (xt_origdef: "(cstring \<times> bool) option")
    (xt_info: xs_info)
    (xt_meta: "xml_node option")
and xs_info =
    Xs_void
  | Xs_scalar (si_basic_name: cstring) (si_type: char) (si_enums: "ni_intmap list option") (si_range: "ni_xs_range option")
      (si_bitmap: "ni_intmap list option")
  | Xs_struct "ni_xs_name_type list"
  | Xs_union "ni_xs_name_type list" cstring
  | Xs_dict "ni_xs_name_type list" "ni_xs_group list"
  | Xs_array ni_xs_type "cstring option" u64 u64 "ni_xs_notation option"
and ni_xs_name_type = Name_type
    (nt_name: "cstring option")
    (nt_type: ni_xs_type)
    (nt_description: "cstring option")

definition u_ni_xs_type_new :: "xs_info \<Rightarrow> ni_xs_type" where
  "u_ni_xs_type_new i = Xs_type None False None None i None"

definition ni_xs_scalar_new :: "cstring \<Rightarrow> char \<Rightarrow> ni_xs_type" where
  "ni_xs_scalar_new basic_name ty = u_ni_xs_type_new (Xs_scalar basic_name ty None None None)"

definition ni_xs_struct_new :: "ni_xs_name_type list \<Rightarrow> ni_xs_type" where
  "ni_xs_struct_new children = u_ni_xs_type_new (Xs_struct children)"

definition ni_xs_union_new :: "ni_xs_name_type list \<Rightarrow> cstring \<Rightarrow> ni_xs_type" where
  "ni_xs_union_new children discriminant = u_ni_xs_type_new (Xs_union children discriminant)"

definition ni_xs_dict_new :: "ni_xs_name_type list \<Rightarrow> ni_xs_type" where
  "ni_xs_dict_new children = u_ni_xs_type_new (Xs_dict children [])"

definition ni_xs_array_new :: "ni_xs_type \<Rightarrow> cstring option \<Rightarrow> u64 \<Rightarrow> u64 \<Rightarrow> ni_xs_type" where
  "ni_xs_array_new elementType elementName minlen maxlen = u_ni_xs_type_new (Xs_array elementType elementName minlen maxlen None)"

text \<open>For \<open>void\<close> the clone is NULL and written to.\<close>

definition ni_xs_type_clone :: "ni_xs_type \<Rightarrow> ni_xs_type option" where
  "ni_xs_type_clone src =
     (case xt_info src of
        Xs_void \<Rightarrow> None
      | i \<Rightarrow> Some (Xs_type None (xt_mandatory src) (xt_group src) None i None))"

definition ni_xs_type_clone_and_release :: "bool \<times> ni_xs_type \<Rightarrow> ni_xs_type option" where
  "ni_xs_type_clone_and_release ref = (if fst ref then ni_xs_type_clone (snd ref) else Some (snd ref))"

definition with_description :: "cstring option \<Rightarrow> ni_xs_type \<Rightarrow> ni_xs_type" where
  "with_description d t = Xs_type d (xt_mandatory t) (xt_group t) (xt_origdef t) (xt_info t) (xt_meta t)"

definition with_mandatory :: "ni_xs_type \<Rightarrow> ni_xs_type" where
  "with_mandatory t = Xs_type (xt_description t) True (xt_group t) (xt_origdef t) (xt_info t) (xt_meta t)"

definition with_group :: "ni_xs_group \<Rightarrow> ni_xs_type \<Rightarrow> ni_xs_type" where
  "with_group g t = Xs_type (xt_description t) (xt_mandatory t) (Some g) (xt_origdef t) (xt_info t) (xt_meta t)"

definition with_origdef :: "cstring \<times> bool \<Rightarrow> ni_xs_type \<Rightarrow> ni_xs_type" where
  "with_origdef d t = Xs_type (xt_description t) (xt_mandatory t) (xt_group t) (Some d) (xt_info t) (xt_meta t)"

definition with_info :: "xs_info \<Rightarrow> ni_xs_type \<Rightarrow> ni_xs_type" where
  "with_info i t = Xs_type (xt_description t) (xt_mandatory t) (xt_group t) (xt_origdef t) i (xt_meta t)"

definition with_meta :: "xml_node option \<Rightarrow> ni_xs_type \<Rightarrow> ni_xs_type" where
  "with_meta m t = Xs_type (xt_description t) (xt_mandatory t) (xt_group t) (xt_origdef t) (xt_info t) m"

definition ni_xs_scalar_set_bitmap :: "ni_xs_type \<Rightarrow> ni_intmap list \<Rightarrow> ni_xs_type option" where
  "ni_xs_scalar_set_bitmap t m =
     (case xt_info t of Xs_scalar b ty e r _ \<Rightarrow> Some (with_info (Xs_scalar b ty e r (Some m)) t) | _ \<Rightarrow> None)"

definition ni_xs_scalar_set_enum :: "ni_xs_type \<Rightarrow> ni_intmap list \<Rightarrow> ni_xs_type option" where
  "ni_xs_scalar_set_enum t m =
     (case xt_info t of Xs_scalar b ty _ r bm \<Rightarrow> Some (with_info (Xs_scalar b ty (Some m) r bm) t) | _ \<Rightarrow> None)"

definition ni_xs_scalar_set_range :: "ni_xs_type \<Rightarrow> ni_xs_range \<Rightarrow> ni_xs_type option" where
  "ni_xs_scalar_set_range t g =
     (case xt_info t of Xs_scalar b ty e _ bm \<Rightarrow> Some (with_info (Xs_scalar b ty e (Some g) bm) t) | _ \<Rightarrow> None)"

definition is_scalar :: "ni_xs_type \<Rightarrow> bool" where
  "is_scalar t = (case xt_info t of Xs_scalar _ _ _ _ _ \<Rightarrow> True | _ \<Rightarrow> False)"

text \<open>A member without a name in front of the one that is sought is a fault of \<open>strcmp\<close>.\<close>

fun u_ni_xs_name_type_array_find :: "ni_xs_name_type list \<Rightarrow> cstring \<Rightarrow> ni_xs_type option option" where
  "u_ni_xs_name_type_array_find [] name = Some None"
| "u_ni_xs_name_type_array_find (d # ds) name = do {
     n \<leftarrow> nt_name d;
     (if n = name then Some (Some (nt_type d)) else u_ni_xs_name_type_array_find ds name) }"

definition nt_notation_name :: "ni_xs_notation \<Rightarrow> cstring" where
  "nt_notation_name n = (case n of Notation_external_file \<Rightarrow> ''external-file'' | Notation_uuid \<Rightarrow> ''uuid'')"

definition array_element_type :: "ni_xs_notation \<Rightarrow> char" where
  "array_element_type n = (case n of Notation_external_file \<Rightarrow> CHR ''y'' | Notation_uuid \<Rightarrow> CHR ''y'')"

text \<open>The notations registered by \<open>ni_dbus_define_xml_notations\<close>.\<close>

definition array_notations :: "ni_xs_notation list" where
  "array_notations = [Notation_external_file, Notation_uuid]"

definition ni_xs_get_array_notation :: "cstring \<Rightarrow> ni_xs_notation option" where
  "ni_xs_get_array_notation name = find (\<lambda>n. nt_notation_name n = name) array_notations"

section \<open>Scopes\<close>

record ni_xs_method =
  xm_name :: cstring
  xm_description :: "cstring option"
  xm_arguments :: "ni_xs_name_type list"
  xm_retval :: "ni_xs_type option"
  xm_meta :: "xml_node option"

record ni_xs_service =
  xs_name :: cstring
  xs_interface :: cstring
  xs_description :: "cstring option"
  xs_attributes :: ni_var_array
  xs_methods :: "ni_xs_method list"
  xs_signals :: "ni_xs_method list"

record ni_xs_class =
  xc_name :: cstring
  xc_base_name :: "cstring option"

datatype ni_xs_scope = Xs_scope
  (sc_name: "cstring option")
  (sc_types: "ni_xs_name_type list")
  (sc_services: "ni_xs_service list")
  (sc_classes: "ni_xs_class list")
  (sc_constants: ni_var_array)
  (sc_children: "ni_xs_scope list")

record xs_state =
  st_scopes :: "ni_xs_scope list"
  st_groups :: nat

definition ni_xs_scope_new :: "cstring option \<Rightarrow> ni_xs_scope" where
  "ni_xs_scope_new name = Xs_scope name [] [] [] ni_var_array_init []"

definition scope_add_type :: "ni_xs_name_type \<Rightarrow> ni_xs_scope \<Rightarrow> ni_xs_scope" where
  "scope_add_type d s = Xs_scope (sc_name s) (sc_types s @ [d]) (sc_services s) (sc_classes s) (sc_constants s) (sc_children s)"

definition scope_add_service :: "ni_xs_service \<Rightarrow> ni_xs_scope \<Rightarrow> ni_xs_scope" where
  "scope_add_service d s = Xs_scope (sc_name s) (sc_types s) (sc_services s @ [d]) (sc_classes s) (sc_constants s) (sc_children s)"

definition scope_add_class :: "ni_xs_class \<Rightarrow> ni_xs_scope \<Rightarrow> ni_xs_scope" where
  "scope_add_class d s = Xs_scope (sc_name s) (sc_types s) (sc_services s) (sc_classes s @ [d]) (sc_constants s) (sc_children s)"

definition scope_set_constants :: "ni_var_array \<Rightarrow> ni_xs_scope \<Rightarrow> ni_xs_scope" where
  "scope_set_constants v s = Xs_scope (sc_name s) (sc_types s) (sc_services s) (sc_classes s) v (sc_children s)"

definition scope_add_child :: "ni_xs_scope \<Rightarrow> ni_xs_scope \<Rightarrow> ni_xs_scope" where
  "scope_add_child c s = Xs_scope (sc_name s) (sc_types s) (sc_services s) (sc_classes s) (sc_constants s) (sc_children s @ [c])"

definition attach :: "ni_xs_scope \<Rightarrow> ni_xs_scope \<Rightarrow> ni_xs_scope" where
  "attach c s = (if sc_name c \<noteq> None then scope_add_child c s else s)"

definition open_scope :: "cstring option \<Rightarrow> xs_state \<Rightarrow> xs_state" where
  "open_scope name st = st\<lparr>st_scopes := ni_xs_scope_new name # st_scopes st\<rparr>"

definition close_scope :: "xs_state \<Rightarrow> xs_state" where
  "close_scope st = st\<lparr>st_scopes := (case st_scopes st of c # s # ss \<Rightarrow> attach c s # ss | ss \<Rightarrow> ss)\<rparr>"

definition on_scope :: "(ni_xs_scope \<Rightarrow> ni_xs_scope) \<Rightarrow> xs_state \<Rightarrow> xs_state" where
  "on_scope f st = st\<lparr>st_scopes := (case st_scopes st of s # ss \<Rightarrow> f s # ss | [] \<Rightarrow> [])\<rparr>"

text \<open>The tree as the root sees it: open scopes are linked as soon as they are created.\<close>

fun root_scope :: "ni_xs_scope list \<Rightarrow> ni_xs_scope option" where
  "root_scope [] = None"
| "root_scope [s] = Some s"
| "root_scope (c # s # ss) = root_scope (attach c s # ss)"

definition ni_xs_scope_lookup_scope :: "ni_xs_scope \<Rightarrow> cstring \<Rightarrow> ni_xs_scope option" where
  "ni_xs_scope_lookup_scope s name = find (\<lambda>c. sc_name c = Some name) (sc_children s)"

definition ni_xs_scope_lookup_local :: "ni_xs_scope \<Rightarrow> cstring \<Rightarrow> ni_xs_type option option" where
  "ni_xs_scope_lookup_local s name = u_ni_xs_name_type_array_find (sc_types s) name"

text \<open>\<open>strtok\<close> with the delimiter \<open>:\<close> skips empty tokens.\<close>

fun split_colon :: "cstring \<Rightarrow> cstring list" where
  "split_colon [] = [[]]"
| "split_colon (c # cs) = (case split_colon cs of t # ts \<Rightarrow> (if c = CHR '':'' then [] # t # ts else (c # t) # ts) | [] \<Rightarrow> [[]])"

definition colon_tokens :: "cstring \<Rightarrow> cstring list" where
  "colon_tokens s = filter (\<lambda>t. t \<noteq> []) (split_colon s)"

fun lookup_path :: "ni_xs_scope \<Rightarrow> cstring list \<Rightarrow> ni_xs_type option option" where
  "lookup_path s [] = (if sc_types s = [] then Some None else None)"
| "lookup_path s [name] = ni_xs_scope_lookup_local s name"
| "lookup_path s (name # n # ns) = (case ni_xs_scope_lookup_scope s name of None \<Rightarrow> Some None | Some c \<Rightarrow> lookup_path c (n # ns))"

fun lookup_up :: "ni_xs_scope list \<Rightarrow> cstring \<Rightarrow> ni_xs_type option option" where
  "lookup_up [] name = Some None"
| "lookup_up (s # ss) name = do {
     r \<leftarrow> ni_xs_scope_lookup_local s name;
     (case r of Some t \<Rightarrow> Some (Some t) | None \<Rightarrow> lookup_up ss name) }"

definition ni_xs_scope_lookup :: "ni_xs_scope list \<Rightarrow> cstring \<Rightarrow> ni_xs_type option option" where
  "ni_xs_scope_lookup ss name =
     (if CHR '':'' \<in> set name then do { root \<leftarrow> root_scope ss; lookup_path root (colon_tokens name) }
      else lookup_up ss name)"

text \<open>Only the scopes around the root are freed later.\<close>

definition lives_on :: "ni_xs_scope list \<Rightarrow> bool" where
  "lives_on ss = list_all (\<lambda>s. sc_name s \<noteq> None) (butlast ss)"

definition ni_xs_scope_typedef :: "cstring \<Rightarrow> ni_xs_type \<Rightarrow> cstring option \<Rightarrow> xs_state \<Rightarrow> xs_state option option" where
  "ni_xs_scope_typedef name t description st =
     (case st_scopes st of
        [] \<Rightarrow> None
      | s # ss \<Rightarrow> do {
          r \<leftarrow> ni_xs_scope_lookup_local s name;
          (case r of
             Some _ \<Rightarrow> Some None
           | None \<Rightarrow>
               let t1 = (if xt_origdef t = None then with_origdef (name, lives_on (st_scopes st)) t else t)
               in Some (Some (on_scope (scope_add_type (Name_type (Some name) t1 description)) st))) })"

definition ni_xs_is_class_name :: "cstring \<Rightarrow> bool" where
  "ni_xs_is_class_name name \<longleftrightarrow> name \<in> {''scalar'', ''dict'', ''struct'', ''union'', ''array''}"

definition ni_xs_is_reserved_name :: "cstring \<Rightarrow> bool" where
  "ni_xs_is_reserved_name name \<longleftrightarrow> name \<in> {''dict'', ''struct'', ''union'', ''array'', ''define'', ''object-class''}"

end
