(* ===== verification/SchemaParse.thy ===== *)
theory SchemaParse
  imports Schema
begin

text \<open>
  The parser of schemas (dborb/xml-schema.c): constraints, types, definitions, services, included files.
\<close>

section \<open>Constraints\<close>

definition ni_xs_group_get ::
    "ni_xs_group list option \<Rightarrow> ni_xs_relation \<Rightarrow> cstring \<Rightarrow> nat \<Rightarrow> (ni_xs_group \<times> ni_xs_group list \<times> nat) option" where
  "ni_xs_group_get group_array kind name k = do {
     gs \<leftarrow> group_array;
     Some (case find (\<lambda>g. gr_relation g = kind \<and> gr_name g = name) gs of
       Some g \<Rightarrow> (g, gs, k)
     | None \<Rightarrow> let g = \<lparr>gr_id = k, gr_relation = kind, gr_name = name\<rparr> in (g, gs @ [g], k + 1)) }"

text \<open>A missing value is one more than the last; None inside: an attribute that is not a number.\<close>

fun u_ni_xs_intmap_build :: "xml_node list \<Rightarrow> cstring \<Rightarrow> u32 \<Rightarrow> ni_intmap list option option" where
  "u_ni_xs_intmap_build [] attr_name last_value = Some (Some [])"
| "u_ni_xs_intmap_build (child # cs) attr_name last_value =
     (case (case xml_node_get_attr child attr_name of
              None \<Rightarrow> Some (last_value + 1)
            | Some s \<Rightarrow> (case strtoul s 0 of (v, _, ep) \<Rightarrow> if ep \<noteq> [] then None else Some (ucast v))) of
        None \<Rightarrow> Some None
      | Some v \<Rightarrow> do {
          name \<leftarrow> xn_name child;
          r \<leftarrow> u_ni_xs_intmap_build cs attr_name v;
          Some (map_option (\<lambda>m. \<lparr>im_name = name, im_value = v\<rparr> # m) r) })"

definition ni_xs_build_bitmap_constraint :: "xml_node \<Rightarrow> ni_intmap list option option" where
  "ni_xs_build_bitmap_constraint node = u_ni_xs_intmap_build (xn_children node) ''bit'' 0"

definition ni_xs_build_enum_constraint :: "xml_node \<Rightarrow> ni_intmap list option option" where
  "ni_xs_build_enum_constraint node = u_ni_xs_intmap_build (xn_children node) ''value'' 0"

text \<open>With a limit, \<open>strtoul\<close> is told to store its end pointer over the characters of the attribute.\<close>

definition ni_xs_build_range_constraint :: "xml_node \<Rightarrow> ni_xs_range option option" where
  "ni_xs_build_range_constraint node =
     (if xml_node_get_attr node ''min'' \<noteq> None \<or> xml_node_get_attr node ''max'' \<noteq> None then None
      else Some (Some \<lparr>rg_min = 0, rg_max = -1\<rparr>))"

text \<open>One constraint on a type no one else refers to.\<close>

definition apply_constraint ::
    "xml_node \<Rightarrow> cstring \<Rightarrow> ni_xs_type \<Rightarrow> ni_xs_group list option \<Rightarrow> nat \<Rightarrow> (ni_xs_type \<times> ni_xs_group list option \<times> nat) option option" where
  "apply_constraint node v t gs k =
     (let group = (\<lambda>kind name.
            (if xt_group t \<noteq> None then Some None
             else do { (g, gs1, k1) \<leftarrow> ni_xs_group_get gs kind name k; Some (Some (with_group g t, Some gs1, k1)) }));
          scalar = (\<lambda>build set_it. do {
            r \<leftarrow> build node;
            (case r of None \<Rightarrow> Some None | Some m \<Rightarrow> do { t1 \<leftarrow> set_it t m; Some (Some (t1, gs, k)) }) }) in
      if v = ''required'' then Some (Some (with_mandatory t, gs, k))
      else if take 9 v = ''required:'' then group NI_XS_GROUP_CONSTRAINT_REQUIRE (drop 9 v)
      else if take 10 v = ''exclusive:'' then group NI_XS_GROUP_CONSTRAINT_CONFLICT (drop 10 v)
      else if is_scalar t \<and> v = ''bitmap'' then scalar ni_xs_build_bitmap_constraint ni_xs_scalar_set_bitmap
      else if is_scalar t \<and> v = ''enum'' then scalar ni_xs_build_enum_constraint ni_xs_scalar_set_enum
      else if is_scalar t \<and> v = ''range'' then do {
        r \<leftarrow> ni_xs_build_range_constraint node;
        (case r of None \<Rightarrow> Some None | Some m \<Rightarrow> do { t1 \<leftarrow> ni_xs_scalar_set_range t m; Some (Some (t1, gs, k)) }) }
      else Some (Some (t, gs, k)))"

fun ni_xs_type_build_constraints ::
    "xml_node \<Rightarrow> xml_attr list \<Rightarrow> bool \<times> ni_xs_type \<Rightarrow> ni_xs_group list option \<Rightarrow> nat \<Rightarrow>
     ((bool \<times> ni_xs_type) \<times> ni_xs_group list option \<times> nat) option option" where
  "ni_xs_type_build_constraints node [] ref gs k = Some (Some (ref, gs, k))"
| "ni_xs_type_build_constraints node ((name, value) # as) ref gs k =
     (if name \<noteq> ''constraint'' then ni_xs_type_build_constraints node as ref gs k
      else do {
        t \<leftarrow> ni_xs_type_clone_and_release ref;
        v \<leftarrow> value;
        r \<leftarrow> apply_constraint node v t gs k;
        (case r of
           None \<Rightarrow> Some None
         | Some (t1, gs1, k1) \<Rightarrow> ni_xs_type_build_constraints node as (False, t1) gs1 k1) })"

section \<open>Types\<close>

definition ni_xs_get_description :: "xml_node \<Rightarrow> cstring option option" where
  "ni_xs_get_description node =
     (case xml_node_get_attr node ''description'' of
        Some d \<Rightarrow> Some (Some d)
      | None \<Rightarrow> do {
          r \<leftarrow> xml_node_get_child (Some node) ''description'';
          Some (case r of None \<Rightarrow> None | Some i \<Rightarrow> xn_cdata (xn_children node ! i)) })"

definition ni_xs_type_set_description :: "bool \<times> ni_xs_type \<Rightarrow> xml_node \<Rightarrow> (bool \<times> ni_xs_type) option" where
  "ni_xs_type_set_description ref node = do {
     d \<leftarrow> ni_xs_get_description node;
     (case d of
        None \<Rightarrow> Some ref
      | Some s \<Rightarrow> do { t \<leftarrow> ni_xs_type_clone_and_release ref; Some (False, with_description (Some s) t) }) }"

text \<open>\<open><meta:name>\<close> is \<open><name>\<close> inside \<open><meta>\<close>; a second \<open><meta>\<close> is ignored.\<close>

definition is_meta_name :: "cstring \<Rightarrow> bool" where
  "is_meta_name n \<longleftrightarrow> strcasecmp_eq (take 5 n) ''meta:''"

definition add_meta :: "xml_node option \<Rightarrow> xml_node \<Rightarrow> cstring \<Rightarrow> xml_node" where
  "add_meta meta child n =
     xml_node_add_child (case meta of None \<Rightarrow> xml_node_new (Some ''meta'') | Some m \<Rightarrow> m)
       (Xml_node (Some (drop 5 n)) (xn_cdata child) (xn_attrs child) (xn_children child) (xn_location child))"

fun collect_meta :: "xml_node list \<Rightarrow> xml_node option \<Rightarrow> xml_node option option" where
  "collect_meta [] meta = Some meta"
| "collect_meta (child # cs) meta = do {
     n \<leftarrow> xn_name child;
     (if n = ''meta'' then collect_meta cs (if meta = None then Some child else meta)
      else if is_meta_name n then collect_meta cs (Some (add_meta meta child n))
      else collect_meta cs meta) }"

definition ni_xs_build_simple_type ::
    "xml_node \<Rightarrow> cstring \<Rightarrow> ni_xs_group list option \<Rightarrow> xs_state \<Rightarrow> ((bool \<times> ni_xs_type) \<times> ni_xs_group list option \<times> xs_state) option option" where
  "ni_xs_build_simple_type node typeName group_array st = do {
     r \<leftarrow> ni_xs_scope_lookup (st_scopes st) typeName;
     (case r of
        None \<Rightarrow> Some None
      | Some result \<Rightarrow> do {
          c \<leftarrow> ni_xs_type_build_constraints node (xn_attrs node) (True, result) group_array (st_groups st);
          (case c of
             None \<Rightarrow> Some None
           | Some (ref, gs, k) \<Rightarrow> do {
               meta \<leftarrow> collect_meta (xn_children node) None;
               (case meta of
                  None \<Rightarrow> Some (Some (ref, gs, st\<lparr>st_groups := k\<rparr>))
                | Some m \<Rightarrow> do {
                    t \<leftarrow> ni_xs_type_clone_and_release ref;
                    Some (Some ((False, if xt_meta t \<noteq> None then t else with_meta (Some m) t), gs, st\<lparr>st_groups := k\<rparr>)) }) }) }) }"

text \<open>The base of a struct or dict: its members, or none.  None inside: no such type, or one of another class.\<close>

definition base_members :: "xml_node \<Rightarrow> (ni_xs_type \<Rightarrow> ni_xs_name_type list option) \<Rightarrow> xs_state \<Rightarrow> ni_xs_name_type list option option" where
  "base_members node members st =
     (case xml_node_get_attr node ''extends'' of
        None \<Rightarrow> Some (Some [])
      | Some base_name \<Rightarrow> do {
          r \<leftarrow> ni_xs_scope_lookup (st_scopes st) base_name;
          Some (do { t \<leftarrow> r; members t }) })"

definition struct_members :: "ni_xs_type \<Rightarrow> ni_xs_name_type list option" where
  "struct_members t = (case xt_info t of Xs_struct ms \<Rightarrow> Some ms | _ \<Rightarrow> None)"

definition dict_members :: "ni_xs_type \<Rightarrow> ni_xs_name_type list option" where
  "dict_members t = (case xt_info t of Xs_dict ms _ \<Rightarrow> Some ms | _ \<Rightarrow> None)"

text \<open>The attributes of an array.  None: an unknown or incompatible notation.\<close>

definition array_notation :: "xml_node \<Rightarrow> ni_xs_type \<Rightarrow> ni_xs_notation option option" where
  "array_notation node elementType =
     (case xt_info elementType of
        Xs_scalar _ ty _ _ _ \<Rightarrow>
          (case xml_node_get_attr node ''notation'' of
             None \<Rightarrow> Some None
           | Some v \<Rightarrow>
               (case ni_xs_get_array_notation v of
                  None \<Rightarrow> None
                | Some n \<Rightarrow> if array_element_type n \<noteq> ty then None else Some (Some n)))
      | _ \<Rightarrow> Some None)"

definition array_length :: "xml_node \<Rightarrow> cstring \<Rightarrow> u64 \<Rightarrow> u64" where
  "array_length node name dflt = (case xml_node_get_attr node name of None \<Rightarrow> dflt | Some s \<Rightarrow> fst (strtoul s 0))"

definition build_array :: "xml_node \<Rightarrow> ni_xs_type \<Rightarrow> ni_xs_type option" where
  "build_array node elementType =
     (case array_notation node elementType of
        None \<Rightarrow> None
      | Some notation \<Rightarrow>
          Some (with_info (Xs_array elementType
            (case xml_node_get_attr node ''element-name'' of Some s \<Rightarrow> if s = [] then None else Some s | None \<Rightarrow> None)
            (array_length node ''minlen'' 0) (array_length node ''maxlen'' (-1)) notation)
            (ni_xs_array_new elementType None 0 0)))"

text \<open>The end of a definition.\<close>

definition finish_define :: "xml_node \<Rightarrow> cstring \<Rightarrow> bool \<times> ni_xs_type \<Rightarrow> xs_state \<Rightarrow> xs_state option option" where
  "finish_define node name ref st = do {
     ref1 \<leftarrow> ni_xs_type_set_description ref node;
     ni_xs_scope_typedef name (snd ref1) None st }"

definition define_constant :: "xml_node \<Rightarrow> cstring \<Rightarrow> xs_state \<Rightarrow> xs_state option option" where
  "define_constant node name st =
     (case st_scopes st of
        [] \<Rightarrow> None
      | s # _ \<Rightarrow> do {
          v \<leftarrow> ni_var_array_set (sc_constants s) name (Some (case xn_cdata node of None \<Rightarrow> [] | Some c \<Rightarrow> c));
          Some (Some (on_scope (scope_set_constants v) st)) })"

section \<open>Definitions and members\<close>

text \<open>\<open><define>\<close>, the members of a struct, union, dict or list of arguments, a type by its class, and the one type
  in an element.  A member that is neither a type nor has a class or a type is released through NULL.  What
  \<open>ni_xs_build_one_type\<close> returns is held by someone else too, or held twice.\<close>

function ni_xs_process_define :: "xml_node \<Rightarrow> xs_state \<Rightarrow> xs_state option option"
  and ni_xs_build_complex_type :: "xml_node \<Rightarrow> cstring \<Rightarrow> xs_state \<Rightarrow> ((bool \<times> ni_xs_type) \<times> xs_state) option option"
  and ni_xs_build_typelist :: "xml_node list \<Rightarrow> ni_xs_name_type list \<Rightarrow> bool \<Rightarrow> ni_xs_group list option \<Rightarrow> xs_state \<Rightarrow>
        (ni_xs_name_type list \<times> ni_xs_group list option \<times> xs_state) option option"
  and ni_xs_build_one_type :: "xml_node list \<Rightarrow> ni_xs_type option \<Rightarrow> xs_state \<Rightarrow> (ni_xs_type \<times> xs_state) option option" where
  "ni_xs_process_define node st =
     (if xn_name node \<noteq> Some ''define'' then Some None
      else case xml_node_get_attr node ''name'' of
        None \<Rightarrow> Some None
      | Some nameAttr \<Rightarrow>
          (if ni_xs_is_reserved_name nameAttr then Some None
           else case xml_node_get_attr node ''class'' of
             Some typeAttr \<Rightarrow> do {
               r \<leftarrow> ni_xs_build_complex_type node typeAttr (open_scope (Some nameAttr) st);
               (case r of None \<Rightarrow> Some None | Some (newType, st1) \<Rightarrow> finish_define node nameAttr newType (close_scope st1)) }
           | None \<Rightarrow>
               (case xml_node_get_attr node ''type'' of
                  Some typeAttr \<Rightarrow> do {
                    r \<leftarrow> ni_xs_build_simple_type node typeAttr None (open_scope (Some nameAttr) st);
                    (case r of None \<Rightarrow> Some None | Some (refType, _, st1) \<Rightarrow> finish_define node nameAttr refType (close_scope st1)) }
                | None \<Rightarrow>
                    (if xn_children node \<noteq> [] then do {
                       r \<leftarrow> ni_xs_build_one_type (xn_children node) None st;
                       (case r of None \<Rightarrow> Some None | Some (refType, st1) \<Rightarrow> finish_define node nameAttr (True, refType) st1) }
                     else define_constant node nameAttr st))))"
| "ni_xs_build_complex_type node className st =
     (let describe = (\<lambda>t st1. do { ref \<leftarrow> ni_xs_type_set_description (False, t) node; Some (Some (ref, st1)) }) in
      if className = ''struct'' then do {
        base \<leftarrow> base_members node struct_members st;
        (case base of
           None \<Rightarrow> Some None
         | Some ms \<Rightarrow> do {
             r \<leftarrow> ni_xs_build_typelist (xn_children node) ms True None st;
             (case r of None \<Rightarrow> Some None | Some (children, _, st1) \<Rightarrow> describe (ni_xs_struct_new children) st1) }) }
      else if className = ''union'' then
        (case xml_node_get_attr node ''switch'' of
           None \<Rightarrow> Some None
         | Some disc_name \<Rightarrow> do {
             r \<leftarrow> ni_xs_build_typelist (xn_children node) [] True None st;
             (case r of None \<Rightarrow> Some None | Some (children, _, st1) \<Rightarrow> describe (ni_xs_union_new children disc_name) st1) })
      else if className = ''array'' then do {
        r \<leftarrow> (case xml_node_get_attr node ''element-type'' of
               Some typeAttr \<Rightarrow> do {
                 t \<leftarrow> ni_xs_scope_lookup (st_scopes st) typeAttr;
                 Some (map_option (\<lambda>t. (t, st)) t) }
             | None \<Rightarrow> (if xn_children node = [] then Some None else ni_xs_build_one_type (xn_children node) None st));
        (case r of
           None \<Rightarrow> Some None
         | Some (elementType, st1) \<Rightarrow>
             (case build_array node elementType of None \<Rightarrow> Some None | Some t \<Rightarrow> describe t st1)) }
      else if className = ''dict'' then do {
        base \<leftarrow> base_members node dict_members st;
        (case base of
           None \<Rightarrow> Some None
         | Some ms \<Rightarrow> do {
             r \<leftarrow> ni_xs_build_typelist (xn_children node) ms False (Some []) st;
             (case r of
                None \<Rightarrow> Some None
              | Some (children, groups, st1) \<Rightarrow>
                  (if list_ex (\<lambda>d. nt_name d = None) children then Some None
                   else do { gs \<leftarrow> groups; describe (with_info (Xs_dict children gs) (ni_xs_dict_new children)) st1 })) }) }
      else if className = ''void'' then describe (u_ni_xs_type_new Xs_void) st
      else Some None)"
| "ni_xs_build_typelist [] result allow_anon gs st = Some (Some (result, gs, st))"
| "ni_xs_build_typelist (child # cs) result allow_anon gs st =
     (let add = (\<lambda>memberName memberType gs1 st1. do {
            d \<leftarrow> ni_xs_get_description child;
            ni_xs_build_typelist cs (result @ [Name_type memberName memberType d]) allow_anon gs1 st1 }) in
      case xn_name child of
        None \<Rightarrow> ni_xs_build_typelist cs result allow_anon gs st
      | Some name \<Rightarrow>
          (if name = ''define'' then do {
             r \<leftarrow> ni_xs_process_define child st;
             (case r of None \<Rightarrow> Some None | Some st1 \<Rightarrow> ni_xs_build_typelist cs result allow_anon gs st1) }
           else if name = ''description'' then ni_xs_build_typelist cs result allow_anon gs st
           else if ni_xs_is_class_name name then do {
             r \<leftarrow> ni_xs_build_complex_type child name (open_scope None st);
             (case r of None \<Rightarrow> Some None | Some (ref, st1) \<Rightarrow> add None (snd ref) gs (close_scope st1)) }
           else do {
             l \<leftarrow> ni_xs_scope_lookup (st_scopes st) name;
             (case l of
                Some memberType \<Rightarrow>
                  (if xml_node_get_attr child ''class'' \<noteq> None \<or> xml_node_get_attr child ''type'' \<noteq> None \<or> \<not> allow_anon then Some None
                   else add None memberType gs st)
              | None \<Rightarrow>
                  (if ni_xs_is_reserved_name name then Some None
                   else case xml_node_get_attr child ''class'' of
                     Some typeAttr \<Rightarrow> do {
                       r \<leftarrow> ni_xs_build_complex_type child typeAttr (open_scope (Some name) st);
                       (case r of None \<Rightarrow> Some None | Some (ref, st1) \<Rightarrow> add (Some name) (snd ref) gs (close_scope st1)) }
                   | None \<Rightarrow>
                       (case xml_node_get_attr child ''type'' of
                          Some typeAttr \<Rightarrow> do {
                            r \<leftarrow> ni_xs_build_simple_type child typeAttr gs (open_scope (Some name) st);
                            (case r of None \<Rightarrow> Some None | Some (ref, gs1, st1) \<Rightarrow> add (Some name) (snd ref) gs1 (close_scope st1)) }
                        | None \<Rightarrow> None))) }))"
| "ni_xs_build_one_type [] result st = Some (map_option (\<lambda>t. (t, st)) result)"
| "ni_xs_build_one_type (child # cs) result st = do {
     name \<leftarrow> xn_name child;
     (if name = ''define'' then do {
        r \<leftarrow> ni_xs_process_define child st;
        (case r of None \<Rightarrow> Some None | Some st1 \<Rightarrow> ni_xs_build_one_type cs result st1) }
      else if name = ''description'' then ni_xs_build_one_type cs result st
      else if result \<noteq> None then Some None
      else if ni_xs_is_class_name name then do {
        r \<leftarrow> ni_xs_build_complex_type child name (open_scope None st);
        (case r of None \<Rightarrow> Some None | Some (ref, st1) \<Rightarrow> ni_xs_build_one_type cs (Some (snd ref)) (close_scope st1)) }
      else do {
        l \<leftarrow> ni_xs_scope_lookup (st_scopes st) name;
        (case l of None \<Rightarrow> Some None | Some t \<Rightarrow> ni_xs_build_one_type cs (Some t) st) }) }"
  by pat_completeness auto

definition parse_measure :: "(xml_node \<times> xs_state + xml_node \<times> cstring \<times> xs_state)
    + (xml_node list \<times> ni_xs_name_type list \<times> bool \<times> ni_xs_group list option \<times> xs_state)
    + (xml_node list \<times> ni_xs_type option \<times> xs_state) \<Rightarrow> nat" where
  "parse_measure x = (case x of
     Inl (Inl (node, _)) \<Rightarrow> 3 * size node + 2
   | Inl (Inr (node, _)) \<Rightarrow> 3 * size node + 1
   | Inr (Inl (cs, _)) \<Rightarrow> 3 * size_list size cs
   | Inr (Inr (cs, _)) \<Rightarrow> 3 * size_list size cs)"

lemma children_size [simp]:
  "3 * size_list size (xn_children node) < Suc (Suc (3 * size node))" "3 * size_list size (xn_children node) < Suc (3 * size node)"
  by (cases node, simp)+

termination ni_xs_process_define
  by (relation "measure parse_measure")
    (simp_all add: parse_measure_def)

section \<open>Services and schemas\<close>

fun ni_xs_process_method :: "xml_node list \<Rightarrow> ni_xs_method \<Rightarrow> xs_state \<Rightarrow> (ni_xs_method \<times> xs_state) option option" where
  "ni_xs_process_method [] m st = Some (Some (m, st))"
| "ni_xs_process_method (child # cs) m st =
     (if xn_name child = Some ''arguments'' then do {
        r \<leftarrow> ni_xs_build_typelist (xn_children child) (xm_arguments m) True None (open_scope None st);
        (case r of
           None \<Rightarrow> Some None
         | Some (as, _, st1) \<Rightarrow> ni_xs_process_method cs (m\<lparr>xm_arguments := as\<rparr>) (close_scope st1)) }
      else if xn_name child = Some ''return'' then do {
        r \<leftarrow> (if xn_children child = [] then Some None else ni_xs_build_one_type (xn_children child) None (open_scope None st));
        (case r of
           None \<Rightarrow> Some None
         | Some (t, st1) \<Rightarrow> ni_xs_process_method cs (m\<lparr>xm_retval := Some t\<rparr>) (close_scope st1)) }
      else if xn_name child = Some ''description'' then ni_xs_process_method cs (m\<lparr>xm_description := xn_cdata child\<rparr>) st
      else if xn_name child = Some ''meta'' then ni_xs_process_method cs (m\<lparr>xm_meta := Some child\<rparr>) st
      else do {
        n \<leftarrow> xn_name child;
        ni_xs_process_method cs (if take 5 n = ''meta:'' then m\<lparr>xm_meta := Some (add_meta (xm_meta m) child n)\<rparr> else m) st })"

fun ni_xs_process_signal :: "xml_node list \<Rightarrow> ni_xs_method \<Rightarrow> xs_state \<Rightarrow> (ni_xs_method \<times> xs_state) option option" where
  "ni_xs_process_signal [] m st = Some (Some (m, st))"
| "ni_xs_process_signal (child # cs) m st =
     (if xn_name child = Some ''arguments'' then do {
        r \<leftarrow> ni_xs_build_typelist (xn_children child) (xm_arguments m) True None (open_scope None st);
        (case r of
           None \<Rightarrow> Some None
         | Some (as, _, st1) \<Rightarrow> ni_xs_process_signal cs (m\<lparr>xm_arguments := as\<rparr>) (close_scope st1)) }
      else if xn_name child = Some ''description'' then ni_xs_process_signal cs (m\<lparr>xm_description := xn_cdata child\<rparr>) st
      else ni_xs_process_signal cs m st)"

definition ni_xs_method_new :: "cstring \<Rightarrow> ni_xs_method" where
  "ni_xs_method_new name = \<lparr>xm_name = name, xm_description = None, xm_arguments = [], xm_retval = None, xm_meta = None\<rparr>"

fun service_loop :: "xml_node list \<Rightarrow> ni_xs_service \<Rightarrow> xs_state \<Rightarrow> (ni_xs_service \<times> xs_state) option option" where
  "service_loop [] service st = Some (Some (service, st))"
| "service_loop (child # cs) service st = do {
     name \<leftarrow> xn_name child;
     (if name = ''define'' then do {
        r \<leftarrow> ni_xs_process_define child st;
        (case r of None \<Rightarrow> Some None | Some st1 \<Rightarrow> service_loop cs service st1) }
      else if name = ''method'' then
        (case xml_node_get_attr child ''name'' of
           None \<Rightarrow> Some None
         | Some nameAttr \<Rightarrow> do {
             r \<leftarrow> ni_xs_process_method (xn_children child) (ni_xs_method_new nameAttr) st;
             (case r of None \<Rightarrow> Some None
              | Some (m, st1) \<Rightarrow> service_loop cs (service\<lparr>xs_methods := xs_methods service @ [m]\<rparr>) st1) })
      else if name = ''signal'' then
        (case xml_node_get_attr child ''name'' of
           None \<Rightarrow> Some None
         | Some nameAttr \<Rightarrow> do {
             r \<leftarrow> ni_xs_process_signal (xn_children child) (ni_xs_method_new nameAttr) st;
             (case r of None \<Rightarrow> Some None
              | Some (m, st1) \<Rightarrow> service_loop cs (service\<lparr>xs_signals := xs_signals service @ [m]\<rparr>) st1) })
      else if name = ''description'' then service_loop cs (service\<lparr>xs_description := xn_cdata child\<rparr>) st
      else service_loop cs service st) }"

fun copy_attributes :: "xml_attr list \<Rightarrow> ni_var_array \<Rightarrow> ni_var_array option" where
  "copy_attributes [] nva = Some nva"
| "copy_attributes ((name, value) # as) nva =
     (if name \<noteq> ''name'' \<and> name \<noteq> ''interface'' then do { nva1 \<leftarrow> ni_var_array_set nva name value; copy_attributes as nva1 }
      else copy_attributes as nva)"

definition ni_xs_process_service :: "xml_node \<Rightarrow> xs_state \<Rightarrow> xs_state option option" where
  "ni_xs_process_service node st =
     (case (xml_node_get_attr node ''name'', xml_node_get_attr node ''interface'') of
        (Some nameAttr, Some intfAttr) \<Rightarrow>
          (if ni_xs_is_reserved_name nameAttr then Some None
           else do {
             attributes \<leftarrow> copy_attributes (xn_attrs node) ni_var_array_init;
             r \<leftarrow> service_loop (xn_children node)
                    \<lparr>xs_name = nameAttr, xs_interface = intfAttr, xs_description = None, xs_attributes = attributes, xs_methods = [], xs_signals = []\<rparr>
                    (open_scope (Some nameAttr) st);
             Some (case r of None \<Rightarrow> None | Some (service, st1) \<Rightarrow> Some (on_scope (scope_add_service service) (close_scope st1))) })
      | _ \<Rightarrow> Some None)"

definition ni_xs_process_class :: "xml_node \<Rightarrow> xs_state \<Rightarrow> xs_state option" where
  "ni_xs_process_class node st =
     (case xml_node_get_attr node ''name'' of
        None \<Rightarrow> None
      | Some nameAttr \<Rightarrow>
          Some (on_scope (scope_add_class \<lparr>xc_name = nameAttr, xc_base_name = xml_node_get_attr node ''base-class''\<rparr>) st))"

text \<open>The file name relative to the file with the element; a name without a slash is taken for a directory.\<close>

definition dir_part :: "cstring \<Rightarrow> cstring" where
  "dir_part s = (if CHR ''/'' \<in> set s then rev (tl (dropWhile (\<lambda>c. c \<noteq> CHR ''/'') (rev s))) else s)"

definition PATH_MAX :: nat where "PATH_MAX = 4096"

definition include_path :: "xml_node \<Rightarrow> cstring option" where
  "include_path node =
     (case xml_node_get_attr node ''name'' of
        None \<Rightarrow> None
      | Some nameAttr \<Rightarrow>
          Some (if take 1 nameAttr \<noteq> ''/'' then
                  (case xn_location node of
                     Some (filename, _) \<Rightarrow> take (PATH_MAX - 1) (dir_part filename @ ''/'' @ nameAttr)
                   | None \<Rightarrow> nameAttr)
                else nameAttr))"

text \<open>\<open>read\<close> is \<open>xml_document_read\<close> on the files there are; \<open>n\<close> bounds the depth of files that include each other.\<close>

fun ni_xs_process_schema :: "(cstring \<Rightarrow> xml_document option) \<Rightarrow> nat \<Rightarrow> xml_node list \<Rightarrow> xs_state \<Rightarrow> xs_state option option" where
  "ni_xs_process_schema read n [] st = Some (Some st)"
| "ni_xs_process_schema read n (child # cs) st = do {
     name \<leftarrow> xn_name child;
     r \<leftarrow> (if name = ''include'' then
            (case include_path child of
               None \<Rightarrow> Some None
             | Some filename \<Rightarrow>
                 (case read filename of
                    None \<Rightarrow> Some None
                  | Some doc \<Rightarrow>
                      (case n of
                         0 \<Rightarrow> None
                       | Suc k \<Rightarrow> do { root \<leftarrow> xd_root doc; ni_xs_process_schema read k (xn_children root) st })))
          else if name = ''object-class'' then Some (ni_xs_process_class child st)
          else if name = ''define'' then ni_xs_process_define child st
          else if name = ''service'' then ni_xs_process_service child st
          else Some None);
     (case r of None \<Rightarrow> Some None | Some st1 \<Rightarrow> ni_xs_process_schema read n cs st1) }"

definition ni_xs_process_schema_file :: "(cstring \<Rightarrow> xml_document option) \<Rightarrow> nat \<Rightarrow> cstring option \<Rightarrow> xs_state \<Rightarrow> xs_state option option" where
  "ni_xs_process_schema_file read n filename st =
     (case filename of
        None \<Rightarrow> Some None
      | Some f \<Rightarrow>
          (case read f of
             None \<Rightarrow> Some None
           | Some doc \<Rightarrow> do { root \<leftarrow> xd_root doc; ni_xs_process_schema read n (xn_children root) st }))"

end
