(* ===== verification/SchemaXml.thy ===== *)
theory SchemaXml
  imports SchemaParse Dicts Numbers
begin

text \<open>
  Data between XML and DBus (dborb/dbus-xml.c): the signature of a schema type, variants from XML documents,
  documents from variants, and the validation of documents.  What is written through a pointer to a member is
  written back at its index here.
\<close>

section \<open>Libraries and files\<close>

text \<open>\<open>strtod\<close>, \<open>%f\<close>, the conversions of doubles, the files there are, and the temporary files: None without a
  temp state, otherwise the name of a new file with the data, when it can be made.\<close>

record xml_env =
  xe_strtod :: "cstring \<Rightarrow> u64 \<times> cstring"
  xe_fmt :: "u64 \<Rightarrow> cstring"
  xe_of_int :: "int \<Rightarrow> u64"
  xe_to_int :: "u64 \<Rightarrow> u64"
  xe_file :: "cstring \<Rightarrow> byte list option"
  xe_temp :: "(byte list \<Rightarrow> cstring option) option"

section \<open>Scalar types and signatures\<close>

definition dbus_xml_types :: "(cstring \<times> char) list" where
  "dbus_xml_types =
     [(''boolean'', DBUS_TYPE_BOOLEAN), (''byte'', DBUS_TYPE_BYTE), (''string'', DBUS_TYPE_STRING), (''double'', DBUS_TYPE_DOUBLE),
      (''uint16'', DBUS_TYPE_UINT16), (''uint32'', DBUS_TYPE_UINT32), (''uint64'', DBUS_TYPE_UINT64), (''int16'', DBUS_TYPE_INT16),
      (''int32'', DBUS_TYPE_INT32), (''int64'', DBUS_TYPE_INT64), (''object-path'', DBUS_TYPE_OBJECT_PATH), (''flag'', DBUS_TYPE_INVALID)]"

fun ni_dbus_define_scalar_types :: "(cstring \<times> char) list \<Rightarrow> xs_state \<Rightarrow> xs_state option" where
  "ni_dbus_define_scalar_types [] st = Some st"
| "ni_dbus_define_scalar_types ((name, ty) # ts) st = do {
     r \<leftarrow> ni_xs_scope_typedef name (ni_xs_scalar_new name ty) None st;
     ni_dbus_define_scalar_types ts (case r of None \<Rightarrow> st | Some st1 \<Rightarrow> st1) }"

definition ni_dbus_xml_init :: "xs_state option" where
  "ni_dbus_xml_init = ni_dbus_define_scalar_types dbus_xml_types \<lparr>st_scopes = [ni_xs_scope_new (Some ''dbus'')], st_groups = 0\<rparr>"

text \<open>A flag has the type 0, which ends the string.\<close>

fun u_ni_xs_type_to_dbus_signature :: "ni_xs_type \<Rightarrow> nat \<Rightarrow> cstring option option" where
  "u_ni_xs_type_to_dbus_signature (Xs_type d m g og (Xs_scalar b ty en r bm) mt) buflen = do {
     ni_assert (2 \<le> buflen);
     Some (Some (if ty = DBUS_TYPE_INVALID then [] else [ty])) }"
| "u_ni_xs_type_to_dbus_signature (Xs_type d m g og (Xs_array el en mn mx nt) mt) buflen = do {
     ni_assert (2 \<le> buflen);
     r \<leftarrow> u_ni_xs_type_to_dbus_signature el (buflen - 1);
     Some (map_option (\<lambda>s. DBUS_TYPE_ARRAY # s) r) }"
| "u_ni_xs_type_to_dbus_signature (Xs_type d m g og (Xs_dict ms gs) mt) buflen = do {
     ni_assert (2 \<le> buflen);
     ni_assert (length NI_DBUS_DICT_SIGNATURE < buflen);
     Some (Some NI_DBUS_DICT_SIGNATURE) }"
| "u_ni_xs_type_to_dbus_signature t buflen = do { ni_assert (2 \<le> buflen); Some None }"

definition ni_xs_type_to_dbus_signature :: "ni_xs_type \<Rightarrow> cstring option option" where
  "ni_xs_type_to_dbus_signature t = u_ni_xs_type_to_dbus_signature t 32"

text \<open>\<open>ni_dbus_variant_init_signature\<close> reads its argument without a test.\<close>

definition init_for_type :: "ni_dbus_variant \<Rightarrow> ni_xs_type \<Rightarrow> (bool \<times> ni_dbus_variant) option" where
  "init_for_type var t = do { r \<leftarrow> ni_xs_type_to_dbus_signature t; s \<leftarrow> r; ni_dbus_variant_init_signature var s }"

section \<open>Notations\<close>

text \<open>A parser gives the block it has allocated and the number of bytes in it.\<close>

definition u_ni_notation_uuid_parse :: "cstring \<Rightarrow> (byte list \<times> nat) option" where
  "u_ni_notation_uuid_parse s =
     (case ni_uuid_parse (Some (replicate 16 0)) (Some s) of
        (r, Some u) \<Rightarrow> if r < 0 then None else Some (u @ replicate 16 0, 16)
      | _ \<Rightarrow> None)"

definition u_ni_notation_uuid_print :: "byte list \<Rightarrow> nat \<Rightarrow> cstring option" where
  "u_ni_notation_uuid_print data len =
     (if length data \<noteq> 16 then None
      else case ni_uuid_print (Some data) of None \<Rightarrow> None | Some s \<Rightarrow> if len \<le> length s then None else Some s)"

definition u_ni_notation_external_file_parse :: "xml_env \<Rightarrow> cstring \<Rightarrow> (byte list \<times> nat) option" where
  "u_ni_notation_external_file_parse env s = map_option (\<lambda>data. (data, length data)) (xe_file env s)"

definition u_ni_notation_external_file_print :: "xml_env \<Rightarrow> byte list \<Rightarrow> nat \<Rightarrow> cstring option" where
  "u_ni_notation_external_file_print env data len =
     (case xe_temp env of
        None \<Rightarrow> Some (take (len - 1) ''[[file data]]'')
      | Some store \<Rightarrow> map_option (take (len - 1)) (store data))"

definition notation_parse :: "xml_env \<Rightarrow> ni_xs_notation \<Rightarrow> cstring \<Rightarrow> (byte list \<times> nat) option" where
  "notation_parse env n s =
     (case n of Notation_external_file \<Rightarrow> u_ni_notation_external_file_parse env s | Notation_uuid \<Rightarrow> u_ni_notation_uuid_parse s)"

definition notation_print :: "xml_env \<Rightarrow> ni_xs_notation \<Rightarrow> byte list \<Rightarrow> nat \<Rightarrow> cstring option" where
  "notation_print env n data len =
     (case n of Notation_external_file \<Rightarrow> u_ni_notation_external_file_print env data len
      | Notation_uuid \<Rightarrow> u_ni_notation_uuid_print data len)"

definition ni_dbus_serialize_byte_array_notation :: "xml_env \<Rightarrow> xml_node \<Rightarrow> ni_xs_notation \<Rightarrow> (byte list \<times> nat) option" where
  "ni_dbus_serialize_byte_array_notation env node n =
     (if array_element_type n \<noteq> DBUS_TYPE_BYTE then None
      else do { s \<leftarrow> xn_cdata node; notation_parse env n s })"

section \<open>From XML to variants\<close>

text \<open>\<open>1 << bb\<close> has type \<open>int\<close> and is extended with its sign.\<close>

definition bit_mask :: "nat \<Rightarrow> u64" where
  "bit_mask bb = scast (push_bit bb 1 :: u32)"

fun ni_dbus_serialize_xml_bitmap :: "xml_node list \<Rightarrow> ni_intmap list \<Rightarrow> u64 \<Rightarrow> u64 option" where
  "ni_dbus_serialize_xml_bitmap [] bits acc = Some acc"
| "ni_dbus_serialize_xml_bitmap (child # cs) bits acc =
     (case ni_parse_uint_mapped (xn_name child) (Some bits) of
        None \<Rightarrow> None
      | Some bb \<Rightarrow> if 32 \<le> unat bb then None else ni_dbus_serialize_xml_bitmap cs bits (acc OR bit_mask (unat bb)))"

definition ni_dbus_serialize_xml_enum :: "xml_node \<Rightarrow> ni_intmap list \<Rightarrow> u32 option" where
  "ni_dbus_serialize_xml_enum node names =
     (case ni_parse_uint_maybe_mapped (xn_cdata node) (Some names) 0 of (r, v) \<Rightarrow> if r < 0 then None else v)"

definition ni_dbus_serialize_xml_scalar :: "xml_env \<Rightarrow> xml_node \<Rightarrow> ni_xs_type \<Rightarrow> ni_dbus_variant \<Rightarrow> (bool \<times> ni_dbus_variant) option" where
  "ni_dbus_serialize_xml_scalar env node t var =
     (case xt_info t of
        Xs_scalar _ ty enums _ bitmap \<Rightarrow>
          (if ty = DBUS_TYPE_INVALID then map_option (Pair True) (ni_dbus_variant_set_byte var 0)
           else case bitmap of
             Some bits \<Rightarrow>
               (case ni_dbus_serialize_xml_bitmap (xn_children node) bits 0 of
                  None \<Rightarrow> Some (False, var)
                | Some v \<Rightarrow> do {
                    (ok, var1) \<leftarrow> init_for_type var t;
                    (if ok then ni_dbus_variant_set_ulong (xe_of_int env) var1 v else Some (False, var1)) })
           | None \<Rightarrow>
               (case xn_cdata node of
                  None \<Rightarrow> Some (False, var)
                | Some text \<Rightarrow>
                    (case enums of
                       Some names \<Rightarrow>
                         (case ni_dbus_serialize_xml_enum node names of
                            None \<Rightarrow> Some (False, var)
                          | Some v \<Rightarrow> do {
                              (ok, var1) \<leftarrow> init_for_type var t;
                              (if ok then ni_dbus_variant_set_uint (xe_of_int env) var1 v else Some (False, var1)) })
                     | None \<Rightarrow> do {
                         r \<leftarrow> ni_xs_type_to_dbus_signature t;
                         s \<leftarrow> r;
                         ni_dbus_variant_parse (xe_strtod env) var text s })))
      | _ \<Rightarrow> None)"

text \<open>The type a union has at a node, and the name of that type.  None inside: no such attribute, or an unknown name.\<close>

definition u_ni_dbus_xml_union_type :: "xml_node \<Rightarrow> ni_xs_name_type list \<Rightarrow> cstring \<Rightarrow> (ni_xs_type \<times> cstring) option option" where
  "u_ni_dbus_xml_union_type node ms discriminant =
     (case xml_node_get_attr node discriminant of
        None \<Rightarrow> Some None
      | Some kind \<Rightarrow> do {
          r \<leftarrow> u_ni_xs_name_type_array_find ms kind;
          Some (map_option (\<lambda>t. (t, kind)) r) })"

text \<open>A dict's members all have names, and a child without a name is a fault when there are members.\<close>

definition member_type :: "ni_xs_name_type list \<Rightarrow> cstring option \<Rightarrow> ni_xs_type option option" where
  "member_type ms name = (case ms of [] \<Rightarrow> Some None | _ \<Rightarrow> do { n \<leftarrow> name; u_ni_xs_name_type_array_find ms n })"

definition is_dict :: "ni_xs_type \<Rightarrow> bool" where
  "is_dict t = (case xt_info t of Xs_dict _ _ \<Rightarrow> True | _ \<Rightarrow> False)"

definition is_void :: "ni_xs_type \<Rightarrow> bool" where
  "is_void t = (case xt_info t of Xs_void \<Rightarrow> True | _ \<Rightarrow> False)"

lemma find_size: "u_ni_xs_name_type_array_find ms n = Some (Some t) \<Longrightarrow> size t < size_list size ms"
  by (induction ms) (auto split: if_splits, case_tac a, auto)

lemma member_size: "member_type ms n = Some (Some t) \<Longrightarrow> size t < size_list size ms"
  by (cases ms) (auto simp: member_type_def simp del: u_ni_xs_name_type_array_find.simps dest!: find_size)

lemma union_size: "u_ni_dbus_xml_union_type node ms d = Some (Some (t, k)) \<Longrightarrow> size t < size_list size ms"
  by (auto simp: u_ni_dbus_xml_union_type_def find_size split: option.splits)

function ni_dbus_serialize_xml :: "xml_env \<Rightarrow> xml_node \<Rightarrow> ni_xs_type \<Rightarrow> ni_dbus_variant \<Rightarrow> (bool \<times> ni_dbus_variant) option"
  and serialize_xml_elements :: "xml_env \<Rightarrow> xml_node list \<Rightarrow> ni_xs_type \<Rightarrow> ni_dbus_variant \<Rightarrow> (bool \<times> ni_dbus_variant) option"
  and serialize_xml_members :: "xml_env \<Rightarrow> xml_node list \<Rightarrow> ni_xs_name_type list \<Rightarrow> ni_dbus_variant \<Rightarrow> (bool \<times> ni_dbus_variant) option" where
  "ni_dbus_serialize_xml env node t var =
     (case xt_info t of
        Xs_void \<Rightarrow> Some (True, var)
      | Xs_scalar _ _ _ _ _ \<Rightarrow> ni_dbus_serialize_xml_scalar env node t var
      | Xs_struct _ \<Rightarrow> Some (False, var)
      | Xs_union ms discriminant \<Rightarrow> do {
          r \<leftarrow> u_ni_dbus_xml_union_type node ms discriminant;
          (case r of
             None \<Rightarrow> Some (False, var)
           | Some (child_type, kind) \<Rightarrow> do {
               v \<leftarrow> ni_dbus_variant_init_struct var;
               (ok, v1) \<leftarrow> ni_dbus_struct_add_string v (Some kind);
               (if \<not> ok then Some (False, v1)
                else if is_void child_type then Some (True, v1)
                else do {
                  (i, v2) \<leftarrow> ni_dbus_struct_add v1;
                  (case i of
                     None \<Rightarrow> Some (False, v2)
                   | Some i \<Rightarrow> do {
                       b \<leftarrow> variant_array_value v2;
                       e \<leftarrow> arr_get b i;
                       (ok, e1) \<leftarrow> ni_dbus_serialize_xml env node child_type e;
                       v3 \<leftarrow> update_element v2 i (\<lambda>_. Some e1);
                       Some (ok, v3) }) }) }) }
      | Xs_array element_type _ _ _ notation \<Rightarrow>
          (case notation of
             Some n \<Rightarrow> do {
               v \<leftarrow> ni_dbus_variant_init_byte_array var;
               Some (case ni_dbus_serialize_byte_array_notation env node n of
                 None \<Rightarrow> (False, v)
               | Some (data, len) \<Rightarrow> (True, with_value len (ByteArr data) v)) }
           | None \<Rightarrow> do {
               (ok, v) \<leftarrow> init_for_type var t;
               (if ok then serialize_xml_elements env (xn_children node) element_type v else Some (False, v)) })
      | Xs_dict ms _ \<Rightarrow> do {
          v \<leftarrow> ni_dbus_variant_init_dict var;
          serialize_xml_members env (xn_children node) ms v })"
| "serialize_xml_elements env [] element_type var = Some (True, var)"
| "serialize_xml_elements env (child # cs) element_type var =
     (if is_scalar element_type then
        (case xn_cdata child of
           None \<Rightarrow> Some (False, var)
         | Some text \<Rightarrow> do {
             (ok, v) \<leftarrow> ni_dbus_variant_array_parse_and_append_string var (Some text);
             (if ok then serialize_xml_elements env cs element_type v else Some (False, v)) })
      else if is_dict element_type then do {
        (i, v) \<leftarrow> ni_dbus_dict_array_add var;
        (case i of
           None \<Rightarrow> Some (False, v)
         | Some i \<Rightarrow> do {
             b \<leftarrow> variant_array_value v;
             e \<leftarrow> arr_get b i;
             (ok, e1) \<leftarrow> ni_dbus_serialize_xml env child element_type e;
             v1 \<leftarrow> update_element v i (\<lambda>_. Some e1);
             (if ok then serialize_xml_elements env cs element_type v1 else Some (False, v1)) }) }
      else Some (False, var))"
| "serialize_xml_members env [] ms dict = Some (True, dict)"
| "serialize_xml_members env (child # cs) ms dict = do {
     r \<leftarrow> member_type ms (xn_name child);
     (case r of
        None \<Rightarrow> serialize_xml_members env cs ms dict
      | Some child_type \<Rightarrow> do {
          (i, d) \<leftarrow> ni_dbus_dict_add dict (xn_name child);
          i \<leftarrow> i;
          b \<leftarrow> dict_array_value d;
          e \<leftarrow> arr_get b i;
          (ok, x) \<leftarrow> ni_dbus_serialize_xml env child child_type (de_datum e);
          d1 \<leftarrow> update_datum d i (\<lambda>_. Some x);
          (if ok then serialize_xml_members env cs ms d1 else Some (False, d1)) }) }"
  by pat_completeness auto


lemma type_size: "xt_info t = i \<Longrightarrow> size i < size t"
  by (cases t) simp

definition serialize_measure :: "(xml_env \<times> xml_node \<times> ni_xs_type \<times> ni_dbus_variant)
    + (xml_env \<times> xml_node list \<times> ni_xs_type \<times> ni_dbus_variant) + (xml_env \<times> xml_node list \<times> ni_xs_name_type list \<times> ni_dbus_variant) \<Rightarrow> nat \<times> nat" where
  "serialize_measure x = (case x of
     Inl (_, _, t, _) \<Rightarrow> (2 * size t, 0)
   | Inr (Inl (_, cs, t, _)) \<Rightarrow> (2 * size t + 1, length cs)
   | Inr (Inr (_, cs, ms, _)) \<Rightarrow> (2 * size_list size ms, length cs))"

termination ni_dbus_serialize_xml
  by (relation "inv_image (less_than <*lex*> less_than) serialize_measure")
    (auto simp: serialize_measure_def dest!: type_size member_size union_size)

section \<open>From variants to XML\<close>

definition bit_names :: "ni_intmap list \<Rightarrow> u64 \<Rightarrow> nat list \<Rightarrow> cstring list" where
  "bit_names bits v bbs =
     List.map_filter (\<lambda>bb. if v AND bit_mask bb = 0 then None else ni_format_uint_mapped (of_nat bb) (Some bits)) bbs"

definition add_elements :: "xml_node \<Rightarrow> cstring list \<Rightarrow> xml_node" where
  "add_elements node names = foldl (\<lambda>n name. xml_node_add_child n (xml_node_new (Some name))) node names"

definition ni_dbus_deserialize_xml_scalar :: "xml_env \<Rightarrow> ni_dbus_variant \<Rightarrow> ni_xs_type \<Rightarrow> xml_node \<Rightarrow> (bool \<times> xml_node) option" where
  "ni_dbus_deserialize_xml_scalar env var t node =
     (case xt_info t of
        Xs_scalar _ ty enums _ bitmap \<Rightarrow>
          (if v_type var = DBUS_TYPE_ARRAY then Some (False, node)
           else if ty = DBUS_TYPE_INVALID then Some (v_type var = DBUS_TYPE_BYTE, node)
           else case bitmap of
             Some bits \<Rightarrow> do {
               r \<leftarrow> ni_dbus_variant_get_ulong (xe_to_int env) var;
               Some (case r of None \<Rightarrow> (False, node) | Some v \<Rightarrow> (True, add_elements node (bit_names bits v [0..<32]))) }
           | None \<Rightarrow>
               (case enums of
                  Some names \<Rightarrow> do {
                    r \<leftarrow> ni_dbus_variant_get_uint (xe_to_int env) var;
                    Some (case r of
                      None \<Rightarrow> (False, node)
                    | Some v \<Rightarrow>
                        (True, xml_node_set_cdata node (Some
                           (case ni_format_uint_mapped v (Some names) of Some name \<Rightarrow> name | None \<Rightarrow> print_dec (unat v))))) }
                | None \<Rightarrow> do {
                    r \<leftarrow> ni_dbus_variant_sprint (xe_fmt env) var;
                    Some (case r of None \<Rightarrow> (False, node) | Some s \<Rightarrow> (True, xml_node_set_cdata node (Some s))) }))
      | _ \<Rightarrow> None)"

text \<open>The name of an element of an array; the origin of a type may have been freed with its scope.\<close>

definition array_element_name :: "cstring option \<Rightarrow> ni_xs_type \<Rightarrow> cstring option" where
  "array_element_name element_name element_type =
     (case element_name of
        Some s \<Rightarrow> Some s
      | None \<Rightarrow> (case xt_origdef element_type of Some (name, lives) \<Rightarrow> (if lives then Some name else None) | None \<Rightarrow> Some ''e''))"

text \<open>The scalars of an array, from index \<open>i\<close> on, \<open>n\<close> of them.\<close>

fun deserialize_xml_scalars :: "ni_dbus_variant \<Rightarrow> nat \<Rightarrow> nat \<Rightarrow> cstring option \<Rightarrow> ni_xs_type \<Rightarrow> xml_node \<Rightarrow> (bool \<times> xml_node) option" where
  "deserialize_xml_scalars var i 0 en element_type node = Some (True, node)"
| "deserialize_xml_scalars var i (Suc n) en element_type node = do {
     r \<leftarrow> ni_dbus_variant_array_print_element var i;
     (case r of
        None \<Rightarrow> Some (False, node)
      | Some s \<Rightarrow> do {
          name \<leftarrow> array_element_name en element_type;
          deserialize_xml_scalars var (Suc i) n en element_type
            (xml_node_add_child node (xml_node_set_cdata (xml_node_new (Some name)) (Some s))) }) }"

function ni_dbus_deserialize_xml :: "xml_env \<Rightarrow> ni_dbus_variant \<Rightarrow> ni_xs_type \<Rightarrow> xml_node \<Rightarrow> (bool \<times> xml_node) option"
  and deserialize_xml_elements :: "xml_env \<Rightarrow> ni_dbus_variant list \<Rightarrow> cstring option \<Rightarrow> ni_xs_type \<Rightarrow> xml_node \<Rightarrow> (bool \<times> xml_node) option"
  and deserialize_xml_members :: "xml_env \<Rightarrow> dict_entry list \<Rightarrow> ni_xs_name_type list \<Rightarrow> xml_node \<Rightarrow> (bool \<times> xml_node) option" where
  "ni_dbus_deserialize_xml env var t node =
     (case xt_info t of
        Xs_void \<Rightarrow> Some (True, node)
      | Xs_scalar _ _ _ _ _ \<Rightarrow> ni_dbus_deserialize_xml_scalar env var t node
      | Xs_struct _ \<Rightarrow> Some (False, node)
      | Xs_union ms discriminant \<Rightarrow> do {
          k \<leftarrow> ni_dbus_struct_get_string var 0;
          (case k of
             None \<Rightarrow> Some (False, node)
           | Some kind \<Rightarrow> do {
               let node1 = xml_node_add_attr node discriminant kind;
               r \<leftarrow> u_ni_dbus_xml_union_type node1 ms discriminant;
               (case r of
                  None \<Rightarrow> Some (False, node1)
                | Some (child_type, _) \<Rightarrow>
                    (if is_void child_type then Some (True, node1)
                     else do {
                       c \<leftarrow> ni_dbus_struct_get var 1;
                       (case c of None \<Rightarrow> Some (False, node1) | Some child \<Rightarrow> ni_dbus_deserialize_xml env child child_type node1) })) }) }
      | Xs_array element_type element_name _ _ notation \<Rightarrow>
          (case notation of
             Some n \<Rightarrow>
               (if array_element_type n \<noteq> DBUS_TYPE_BYTE \<or> \<not> ni_dbus_variant_is_byte_array var then Some (False, node)
                else do {
                  b \<leftarrow> byte_array_value var;
                  bs \<leftarrow> mem_read b 0 (v_len var);
                  Some (case notation_print env n bs 256 of
                    None \<Rightarrow> (False, node) | Some s \<Rightarrow> (True, xml_node_set_cdata node (Some s))) })
           | None \<Rightarrow>
               (if is_scalar element_type then
                  (if v_element_type var = DBUS_TYPE_VARIANT then Some (False, node)
                   else deserialize_xml_scalars var 0 (v_len var) element_name element_type node)
                else if is_dict element_type then
                  (if v_element_type var \<noteq> DBUS_TYPE_VARIANT \<and> \<not> ni_dbus_variant_is_dict_array var then Some (False, node)
                   else do {
                     b \<leftarrow> variant_array_value var;
                     vs \<leftarrow> mem_read b 0 (v_len var);
                     deserialize_xml_elements env vs element_name element_type node })
                else Some (False, node)))
      | Xs_dict ms _ \<Rightarrow>
          (if \<not> ni_dbus_variant_is_dict var then Some (False, node)
           else do {
             b \<leftarrow> dict_array_value var;
             es \<leftarrow> mem_read b 0 (v_len var);
             deserialize_xml_members env es ms node }))"
| "deserialize_xml_elements env [] en element_type node = Some (True, node)"
| "deserialize_xml_elements env (e # es) en element_type node = do {
     name \<leftarrow> array_element_name en element_type;
     (ok, child) \<leftarrow> ni_dbus_deserialize_xml env e element_type (xml_node_new (Some name));
     let node1 = xml_node_add_child node child;
     (if ok then deserialize_xml_elements env es en element_type node1 else Some (False, node1)) }"
| "deserialize_xml_members env [] ms node = Some (True, node)"
| "deserialize_xml_members env (e # es) ms node = do {
     r \<leftarrow> member_type ms (de_key e);
     (case r of
        None \<Rightarrow> deserialize_xml_members env es ms node
      | Some child_type \<Rightarrow> do {
          (ok, child) \<leftarrow> ni_dbus_deserialize_xml env (de_datum e) child_type (xml_node_new (de_key e));
          let node1 = xml_node_add_child node child;
          (if ok then deserialize_xml_members env es ms node1 else Some (False, node1)) }) }"
  by pat_completeness auto

definition deserialize_measure :: "(xml_env \<times> ni_dbus_variant \<times> ni_xs_type \<times> xml_node)
    + (xml_env \<times> ni_dbus_variant list \<times> cstring option \<times> ni_xs_type \<times> xml_node) + (xml_env \<times> dict_entry list \<times> ni_xs_name_type list \<times> xml_node)
    \<Rightarrow> nat \<times> nat" where
  "deserialize_measure x = (case x of
     Inl (_, _, t, _) \<Rightarrow> (2 * size t, 0)
   | Inr (Inl (_, cs, _, t, _)) \<Rightarrow> (2 * size t + 1, length cs)
   | Inr (Inr (_, cs, ms, _)) \<Rightarrow> (2 * size_list size ms, length cs))"

termination ni_dbus_deserialize_xml
  by (relation "inv_image (less_than <*lex*> less_than) deserialize_measure")
    (auto simp: deserialize_measure_def dest!: type_size member_size union_size)

section \<open>Validation\<close>

text \<open>The callbacks may change the node they are called for.\<close>

record ni_dbus_xml_validate_context =
  vc_metadata :: "(xml_node \<Rightarrow> ni_xs_type \<Rightarrow> xml_node \<Rightarrow> bool \<times> xml_node) option"
  vc_prompt :: "(xml_node \<Rightarrow> ni_xs_type \<Rightarrow> xml_node \<Rightarrow> int \<times> xml_node) option"

definition NI_ERROR_RETRY_OPERATION :: int where "NI_ERROR_RETRY_OPERATION = 2"
definition NI_ERROR_DOCUMENT_ERROR :: int where "NI_ERROR_DOCUMENT_ERROR = 5"

definition metadata_callback :: "ni_dbus_xml_validate_context option \<Rightarrow> xml_node \<Rightarrow> ni_xs_type \<Rightarrow> bool \<times> xml_node" where
  "metadata_callback ctx node t =
     (case (Option.bind ctx vc_metadata, xt_meta t) of (Some f, Some m) \<Rightarrow> f node t m | _ \<Rightarrow> (True, node))"

definition ni_dbus_validate_xml_void :: "xml_node \<Rightarrow> bool" where
  "ni_dbus_validate_xml_void node \<longleftrightarrow> xn_cdata node = None \<and> xn_children node = []"

definition ni_dbus_validate_xml_scalar :: "xml_node \<Rightarrow> ni_xs_type \<Rightarrow> bool option" where
  "ni_dbus_validate_xml_scalar node t =
     (case xt_info t of
        Xs_scalar _ ty enums _ bitmap \<Rightarrow>
          Some (case bitmap of
             Some bits \<Rightarrow> ni_dbus_serialize_xml_bitmap (xn_children node) bits 0 \<noteq> None
           | None \<Rightarrow>
               (if ty = DBUS_TYPE_INVALID then xn_cdata node = None
                else if xn_cdata node = None then False
                else case enums of Some names \<Rightarrow> ni_dbus_serialize_xml_enum node names \<noteq> None | None \<Rightarrow> True))
      | _ \<Rightarrow> None)"

text \<open>A missing mandatory member can be supplied by the prompt; the context is read without a test.\<close>

fun mandatory_loop :: "ni_dbus_xml_validate_context option \<Rightarrow> ni_xs_name_type list \<Rightarrow> xml_node \<Rightarrow> (bool \<times> xml_node) option" where
  "mandatory_loop ctx [] node = Some (True, node)"
| "mandatory_loop ctx (d # ds) node =
     (if \<not> xt_mandatory (nt_type d) then mandatory_loop ctx ds node
      else do {
        name \<leftarrow> nt_name d;
        r \<leftarrow> xml_node_get_child (Some node) name;
        (if r \<noteq> None then mandatory_loop ctx ds node
         else do {
           c \<leftarrow> ctx;
           (case (vc_prompt c, xt_meta (nt_type d)) of
              (Some prompt, Some m) \<Rightarrow> do {
                u \<leftarrow> xml_node_get_child (Some m) ''user-input'';
                (case u of
                   None \<Rightarrow> Some (False, node)
                 | Some i \<Rightarrow>
                     (case prompt (xml_node_new (Some name)) (nt_type d) (xn_children m ! i) of
                        (rv, child) \<Rightarrow>
                          (if rv = 0 then mandatory_loop ctx ds (xml_node_add_child node child)
                           else if rv = - NI_ERROR_RETRY_OPERATION then mandatory_loop ctx ds node
                           else Some (False, node)))) }
            | _ \<Rightarrow> Some (False, node)) }) })"

text \<open>How often the groups occur among the children.\<close>

fun child_groups :: "ni_xs_name_type list \<Rightarrow> xml_node list \<Rightarrow> nat list option" where
  "child_groups ms [] = Some []"
| "child_groups ms (child # cs) = do {
     r \<leftarrow> member_type ms (xn_name child);
     rest \<leftarrow> child_groups ms cs;
     Some (case Option.bind r xt_group of None \<Rightarrow> rest | Some g \<Rightarrow> gr_id g # rest) }"

definition group_ok :: "nat list \<Rightarrow> ni_xs_group \<Rightarrow> bool" where
  "group_ok ids g =
     (case gr_relation g of
        NI_XS_GROUP_CONSTRAINT_REQUIRE \<Rightarrow> count_list ids (gr_id g) \<noteq> 0
      | NI_XS_GROUP_CONSTRAINT_CONFLICT \<Rightarrow> count_list ids (gr_id g) \<le> 1)"

function ni_dbus_validate_xml ::
    "xml_env \<Rightarrow> ni_dbus_xml_validate_context option \<Rightarrow> xml_node \<Rightarrow> ni_xs_type \<Rightarrow> (bool \<times> xml_node) option"
  and validate_xml_elements ::
    "xml_env \<Rightarrow> ni_dbus_xml_validate_context option \<Rightarrow> xml_node list \<Rightarrow> ni_xs_type \<Rightarrow> (bool \<times> xml_node list) option"
  and validate_xml_members ::
    "xml_env \<Rightarrow> ni_dbus_xml_validate_context option \<Rightarrow> xml_node list \<Rightarrow> ni_xs_name_type list \<Rightarrow> (bool \<times> xml_node list) option" where
  "ni_dbus_validate_xml env ctx node0 t =
     (case metadata_callback ctx node0 t of
        (False, node) \<Rightarrow> Some (False, node)
      | (True, node) \<Rightarrow>
          (case xt_info t of
             Xs_void \<Rightarrow> Some (ni_dbus_validate_xml_void node, node)
           | Xs_scalar _ _ _ _ _ \<Rightarrow> do { ok \<leftarrow> ni_dbus_validate_xml_scalar node t; Some (ok, node) }
           | Xs_struct _ \<Rightarrow> Some (False, node)
           | Xs_union ms discriminant \<Rightarrow> do {
               r \<leftarrow> u_ni_dbus_xml_union_type node ms discriminant;
               (case r of None \<Rightarrow> Some (False, node) | Some (child_type, _) \<Rightarrow> ni_dbus_validate_xml env ctx node child_type) }
           | Xs_array element_type _ _ _ notation \<Rightarrow>
               (case notation of
                  Some n \<Rightarrow> Some (ni_dbus_serialize_byte_array_notation env node n \<noteq> None, node)
                | None \<Rightarrow> do {
                    (ok, cs) \<leftarrow> validate_xml_elements env ctx (xn_children node) element_type;
                    Some (ok, xml_node_set_children node cs) })
           | Xs_dict ms groups \<Rightarrow> do {
               (ok, cs) \<leftarrow> validate_xml_members env ctx (xn_children node) ms;
               let node1 = xml_node_set_children node cs;
               (if \<not> ok then Some (False, node1)
                else do {
                  (ok, node2) \<leftarrow> mandatory_loop ctx ms node1;
                  (if \<not> ok then Some (False, node2)
                   else if groups = [] then Some (True, node2)
                   else do {
                     ids \<leftarrow> child_groups ms (xn_children node2);
                     Some (list_all (group_ok ids) groups, node2) }) }) }))"
| "validate_xml_elements env ctx [] element_type = Some (True, [])"
| "validate_xml_elements env ctx (child # cs) element_type = do {
     (ok, child1) \<leftarrow> ni_dbus_validate_xml env ctx child element_type;
     (if ok then do { (ok, cs1) \<leftarrow> validate_xml_elements env ctx cs element_type; Some (ok, child1 # cs1) }
      else Some (False, child1 # cs)) }"
| "validate_xml_members env ctx [] ms = Some (True, [])"
| "validate_xml_members env ctx (child # cs) ms = do {
     r \<leftarrow> member_type ms (xn_name child);
     (case r of
        None \<Rightarrow> do { (ok, cs1) \<leftarrow> validate_xml_members env ctx cs ms; Some (ok, child # cs1) }
      | Some child_type \<Rightarrow> do {
          (ok, child1) \<leftarrow> ni_dbus_validate_xml env ctx child child_type;
          (if ok then do { (ok, cs1) \<leftarrow> validate_xml_members env ctx cs ms; Some (ok, child1 # cs1) }
           else Some (False, child1 # cs)) }) }"
  by pat_completeness auto

definition validate_measure :: "(xml_env \<times> ni_dbus_xml_validate_context option \<times> xml_node \<times> ni_xs_type)
    + (xml_env \<times> ni_dbus_xml_validate_context option \<times> xml_node list \<times> ni_xs_type)
    + (xml_env \<times> ni_dbus_xml_validate_context option \<times> xml_node list \<times> ni_xs_name_type list) \<Rightarrow> nat \<times> nat" where
  "validate_measure x = (case x of
     Inl (_, _, _, t) \<Rightarrow> (2 * size t, 0)
   | Inr (Inl (_, _, cs, t)) \<Rightarrow> (2 * size t + 1, length cs)
   | Inr (Inr (_, _, cs, ms)) \<Rightarrow> (2 * size_list size ms, length cs))"

termination ni_dbus_validate_xml
  by (relation "inv_image (less_than <*lex*> less_than) validate_measure")
    (auto simp: validate_measure_def dest!: type_size member_size union_size)

end
