(* ===== verification/SchemaCalls.thy ===== *)
theory SchemaCalls
  imports SchemaXml XPathEval
begin

text \<open>
  Methods and the schema (dborb/dbus-xml.c): the methods a service gets from its schema, the arguments, results and
  properties of a call between XML and DBus, and what the metadata of an argument says about the document node it
  comes from.
\<close>

section \<open>Methods\<close>

text \<open>The handler, and the signature when it is not NULL, come with the built-in methods.\<close>

record ni_dbus_method =
  dm_name :: cstring
  dm_call_signature :: "cstring option"
  dm_handled :: bool
  dm_schema :: "ni_xs_method option"

text \<open>The signatures of the arguments one after the other, in a buffer of 64 bytes.\<close>

fun call_signature :: "ni_xs_name_type list \<Rightarrow> cstring \<Rightarrow> cstring option option" where
  "call_signature [] sigbuf = Some (Some sigbuf)"
| "call_signature (a # args) sigbuf = do {
     r \<leftarrow> u_ni_xs_type_to_dbus_signature (nt_type a) (64 - length sigbuf);
     (case r of None \<Rightarrow> Some None | Some s \<Rightarrow> call_signature args (sigbuf @ s)) }"

fun method_index :: "ni_dbus_method list \<Rightarrow> cstring \<Rightarrow> nat option" where
  "method_index [] name = None"
| "method_index (m # ms) name = (if dm_name m = name then Some 0 else map_option Suc (method_index ms name))"

definition is_private :: "cstring \<Rightarrow> bool" where
  "is_private name \<longleftrightarrow> (case name of [] \<Rightarrow> False | c # _ \<Rightarrow> c = CHR ''_'')"

fun register_loop :: "ni_xs_method list \<Rightarrow> ni_dbus_method list \<Rightarrow> ni_dbus_method list option" where
  "register_loop [] ms = Some ms"
| "register_loop (x # xs) ms =
     (if is_private (xm_name x) then register_loop xs ms
      else do {
        r \<leftarrow> call_signature (xm_arguments x) [];
        (case r of
           None \<Rightarrow> register_loop xs ms
         | Some sigbuf \<Rightarrow>
             register_loop xs
               (case method_index ms (xm_name x) of
                  Some i \<Rightarrow> ms[i := (ms ! i)\<lparr>dm_schema := Some x\<rparr>]
                | None \<Rightarrow> ms @ [\<lparr>dm_name = xm_name x, dm_call_signature = Some sigbuf, dm_handled = False, dm_schema = Some x\<rparr>])) })"

definition ni_dbus_xml_register_methods :: "ni_xs_method list \<Rightarrow> ni_dbus_method list option \<Rightarrow> ni_dbus_method list option option" where
  "ni_dbus_xml_register_methods xs old =
     (if xs = [] then Some None
      else map_option Some (register_loop xs (case old of None \<Rightarrow> [] | Some ms \<Rightarrow> ms)))"

section \<open>Arguments and results\<close>

definition ni_dbus_xml_method_num_args :: "ni_dbus_method \<Rightarrow> nat" where
  "ni_dbus_xml_method_num_args method = (case dm_schema method of None \<Rightarrow> 0 | Some x \<Rightarrow> length (xm_arguments x))"

definition ni_dbus_xml_method_has_return :: "ni_dbus_method \<Rightarrow> bool" where
  "ni_dbus_xml_method_has_return method = (case dm_schema method of None \<Rightarrow> False | Some x \<Rightarrow> xm_retval x \<noteq> None)"

definition ni_dbus_xml_get_argument_type :: "ni_dbus_method \<Rightarrow> nat \<Rightarrow> ni_xs_type option" where
  "ni_dbus_xml_get_argument_type method narg =
     (case dm_schema method of
        None \<Rightarrow> None
      | Some x \<Rightarrow> if length (xm_arguments x) \<le> narg then None else Some (nt_type (xm_arguments x ! narg)))"

definition ni_dbus_xml_validate_argument ::
    "xml_env \<Rightarrow> ni_dbus_method \<Rightarrow> nat \<Rightarrow> xml_node \<Rightarrow> ni_dbus_xml_validate_context option \<Rightarrow> (bool \<times> xml_node) option" where
  "ni_dbus_xml_validate_argument env method narg node ctx =
     (case dm_schema method of
        None \<Rightarrow> Some (False, node)
      | Some x \<Rightarrow>
          if length (xm_arguments x) \<le> narg then Some (False, node)
          else ni_dbus_validate_xml env ctx node (nt_type (xm_arguments x ! narg)))"

definition ni_dbus_xml_get_argument_metadata :: "ni_dbus_method \<Rightarrow> nat \<Rightarrow> xml_node option" where
  "ni_dbus_xml_get_argument_metadata method narg = Option.bind (ni_dbus_xml_get_argument_type method narg) xt_meta"

definition ni_dbus_xml_serialize_arg ::
    "xml_env \<Rightarrow> ni_dbus_method \<Rightarrow> nat \<Rightarrow> ni_dbus_variant \<Rightarrow> xml_node \<Rightarrow> (bool \<times> ni_dbus_variant) option" where
  "ni_dbus_xml_serialize_arg env method narg var node =
     (case ni_dbus_xml_get_argument_type method narg of
        None \<Rightarrow> Some (False, var)
      | Some t \<Rightarrow> ni_dbus_serialize_xml env node t var)"

text \<open>The variables are read against the arguments of the schema by index: more variables than arguments, or a method
without a schema, is a fault.  None inside when a variable does not fit; the new node is freed then.\<close>

fun deserialize_loop :: "xml_env \<Rightarrow> ni_dbus_variant list \<Rightarrow> ni_xs_name_type list \<Rightarrow> xml_node \<Rightarrow> xml_node option option" where
  "deserialize_loop env [] args node = Some (Some node)"
| "deserialize_loop env (v # vs) [] node = None"
| "deserialize_loop env (v # vs) (a # args) node = do {
     (ok, arg) \<leftarrow> ni_dbus_deserialize_xml env v (nt_type a) (xml_node_new (nt_name a));
     (if ok then deserialize_loop env vs args (xml_node_add_child node arg) else Some None) }"

text \<open>The temp state is kept in a global variable, which is reset only when all variables fit.\<close>

definition ni_dbus_xml_deserialize_arguments ::
    "xml_env \<Rightarrow> ni_dbus_method \<Rightarrow> ni_dbus_variant list \<Rightarrow> (byte list \<Rightarrow> cstring option) option \<Rightarrow> (xml_node option \<times> xml_env) option" where
  "ni_dbus_xml_deserialize_arguments env method vars temp_state = do {
     let node = xml_node_new (Some ''arguments'');
     let env1 = env\<lparr>xe_temp := temp_state\<rparr>;
     r \<leftarrow> (if vars = [] then Some (Some node)
           else do { x \<leftarrow> dm_schema method; deserialize_loop env1 vars (xm_arguments x) node });
     Some (case r of None \<Rightarrow> (None, env1) | Some n \<Rightarrow> (Some n, env1\<lparr>xe_temp := None\<rparr>)) }"

text \<open>The answer of an extension: \<open>int\<close> results are kept.\<close>

definition NI_ERROR_CANNOT_MARSHAL :: int where "NI_ERROR_CANNOT_MARSHAL = 19"

definition ni_dbus_serialize_return ::
    "xml_env \<Rightarrow> ni_dbus_method \<Rightarrow> ni_dbus_variant \<Rightarrow> xml_node \<Rightarrow> (int \<times> ni_dbus_variant) option" where
  "ni_dbus_serialize_return env method result node = do {
     x \<leftarrow> dm_schema method;
     (case xm_retval x of
        None \<Rightarrow> Some (0, result)
      | Some t \<Rightarrow> do {
          (ok, v) \<leftarrow> ni_dbus_serialize_xml env node t result;
          Some (if ok then 1 else - NI_ERROR_CANNOT_MARSHAL, v) }) }"

section \<open>Properties\<close>

definition ni_dbus_xml_get_service_schema :: "ni_xs_scope \<Rightarrow> cstring \<Rightarrow> ni_xs_service option" where
  "ni_dbus_xml_get_service_schema scope interface_name = find (\<lambda>s. xs_interface s = interface_name) (sc_services scope)"

definition ni_dbus_xml_get_properties_schema :: "ni_xs_scope \<Rightarrow> ni_xs_service \<Rightarrow> ni_xs_type option option" where
  "ni_dbus_xml_get_properties_schema scope service =
     (case ni_xs_scope_lookup_scope scope (xs_name service) of
        None \<Rightarrow> Some None
      | Some s \<Rightarrow> ni_xs_scope_lookup_local s ''properties'')"

text \<open>The node that is returned, and the children of the parent that are new: after a failure to build it the node
stays a child.\<close>

definition ni_dbus_xml_deserialize_properties ::
    "xml_env \<Rightarrow> ni_xs_scope \<Rightarrow> cstring \<Rightarrow> ni_dbus_variant \<Rightarrow> (xml_node option \<times> xml_node list) option" where
  "ni_dbus_xml_deserialize_properties env schema interface_name var =
     (if ni_dbus_variant_is_dict var \<and> v_len var = 0 then Some (None, [])
      else case ni_dbus_xml_get_service_schema schema interface_name of
        None \<Rightarrow> Some (None, [])
      | Some service \<Rightarrow> do {
          r \<leftarrow> ni_dbus_xml_get_properties_schema schema service;
          (case r of
             None \<Rightarrow> Some (None, [])
           | Some t \<Rightarrow> do {
               (ok, node) \<leftarrow> ni_dbus_deserialize_xml env var t (xml_node_new (Some (xs_name service)));
               Some (if ok then Some node else None, [node]) }) })"

definition ni_dbus_xml_serialize_properties ::
    "xml_env \<Rightarrow> ni_xs_scope \<Rightarrow> ni_dbus_variant \<Rightarrow> xml_node \<Rightarrow> (int \<times> ni_dbus_variant) option" where
  "ni_dbus_xml_serialize_properties env schema result node = do {
     v \<leftarrow> ni_dbus_variant_init_dict result;
     service \<leftarrow> (if sc_services schema = [] then Some None
                 else map_option (ni_dbus_xml_get_service_schema schema) (xn_name node));
     (case service of
        None \<Rightarrow> Some (- NI_ERROR_CANNOT_MARSHAL, v)
      | Some service \<Rightarrow> do {
          r \<leftarrow> ni_dbus_xml_get_properties_schema schema service;
          (case r of
             None \<Rightarrow> Some (- NI_ERROR_CANNOT_MARSHAL, v)
           | Some t \<Rightarrow> do {
               (ok, v1) \<leftarrow> ni_dbus_serialize_xml env node t v;
               Some (if ok then 0 else - NI_ERROR_CANNOT_MARSHAL, v1) }) }) }"

section \<open>Metadata of arguments\<close>

text \<open>The result code, the node that was found and whether the call is to be skipped; on an error the caller's flag is
not written.\<close>

definition ni_dbus_xml_map_method_argument ::
    "ni_dbus_method \<Rightarrow> nat \<Rightarrow> xml_node option \<Rightarrow> xpath_store \<Rightarrow> (int \<times> xml_node option \<times> bool option \<times> xpath_store) option" where
  "ni_dbus_xml_map_method_argument method index doc_node st = do {
     let meta = ni_dbus_xml_get_argument_metadata method index;
     m \<leftarrow> xml_node_get_child meta ''mapping'';
     (case (meta, m) of
        (Some meta, Some i) \<Rightarrow>
          (let mapping = xn_children meta ! i;
               skip_call = (case xml_node_get_attr mapping ''skip-unless-present'' of
                  None \<Rightarrow> False | Some attr \<Rightarrow> strcasecmp_eq attr ''true'')
           in case (xml_node_get_attr mapping ''document-node'', doc_node) of
                (Some attr, Some doc) \<Rightarrow> do {
                  (r, st1) \<leftarrow> ni_dbus_xml_expand_element_reference (Some doc) (Some attr) 2 st;
                  Some (case r of
                    None \<Rightarrow> (- NI_ERROR_DOCUMENT_ERROR, None, None, st1)
                  | Some [] \<Rightarrow> (0, None, Some skip_call, st1)
                  | Some [n] \<Rightarrow> (0, Some n, Some False, st1)
                  | Some _ \<Rightarrow> (- NI_ERROR_DOCUMENT_ERROR, None, None, st1)) }
              | _ \<Rightarrow> Some (0, None, Some skip_call, st))
      | _ \<Rightarrow> Some (0, None, Some False, st)) }"

definition ni_dbus_xml_get_method_metadata :: "ni_dbus_method \<Rightarrow> cstring option \<Rightarrow> nat \<Rightarrow> xml_node list" where
  "ni_dbus_xml_get_method_metadata method name max_nodes =
     (case Option.bind (dm_schema method) xm_meta of
        None \<Rightarrow> []
      | Some meta \<Rightarrow> take max_nodes (filter (\<lambda>child. ni_string_eq (xn_name child) name) (xn_children meta)))"

definition ni_dbus_xml_type_signature :: "ni_xs_type \<Rightarrow> cstring option option" where
  "ni_dbus_xml_type_signature t = ni_xs_type_to_dbus_signature t"

end
