(* ===== verification/SchemaRound.thy ===== *)
theory SchemaRound
  imports SchemaCalls
begin

text \<open>
  Data survive their XML form: what \<open>ni_dbus_deserialize_xml\<close> writes for a variant that fits its type is read back
  by \<open>ni_dbus_serialize_xml\<close> as a variant with the same data.
\<close>

section \<open>Data\<close>

text \<open>What a variant says, without the spare room of its arrays.\<close>

datatype xs_data =
    X_flag
  | X_num u64
  | X_text cstring
  | X_strings "cstring list"
  | X_bytes "byte list"
  | X_dicts "xs_data list"
  | X_dict "(cstring \<times> xs_data) list"
  | X_union cstring "xs_data option"

definition is_int_type :: "char \<Rightarrow> bool" where
  "is_int_type ty \<longleftrightarrow> ty \<in> {DBUS_TYPE_BYTE, DBUS_TYPE_INT16, DBUS_TYPE_UINT16, DBUS_TYPE_INT32, DBUS_TYPE_UINT32, DBUS_TYPE_INT64, DBUS_TYPE_UINT64}"

text \<open>The number a variant of an integer type or boolean holds, extended to 64 bits.\<close>

definition holds_number :: "char \<Rightarrow> u64 \<Rightarrow> ni_dbus_variant \<Rightarrow> bool" where
  "holds_number ty x v \<longleftrightarrow> v_type v = ty \<and> (\<exists>w. v_value v = Raw w) \<and> cast_switch_get id v = Some (Some x)"

text \<open>A name that is read back as the number it stands for.\<close>

definition names_number :: "ni_intmap list \<Rightarrow> u32 \<Rightarrow> bool" where
  "names_number names x \<longleftrightarrow> (case intmap_by_value x names of None \<Rightarrow> False | Some n \<Rightarrow> intmap_by_name n names = Some x)"

definition is_union :: "ni_xs_type \<Rightarrow> bool" where
  "is_union t = (case xt_info t of Xs_union _ _ \<Rightarrow> True | _ \<Rightarrow> False)"

definition holds_strings :: "char \<Rightarrow> cstring list \<Rightarrow> ni_dbus_variant \<Rightarrow> bool" where
  "holds_strings ty ss v \<longleftrightarrow> v_type v = DBUS_TYPE_ARRAY \<and> v_element_type v = ty \<and> v_len v = length ss
     \<and> (\<exists>b. string_array_value v = Some b \<and> take (length ss) b = map Some ss)"

definition holds_bytes :: "byte list \<Rightarrow> ni_dbus_variant \<Rightarrow> bool" where
  "holds_bytes bs v \<longleftrightarrow> v_type v = DBUS_TYPE_ARRAY \<and> v_element_type v = DBUS_TYPE_BYTE \<and> v_len v = length bs
     \<and> (\<exists>b. byte_array_value v = Some b \<and> take (length bs) b = bs)"

definition holds_variants :: "ni_dbus_variant list \<Rightarrow> ni_dbus_variant \<Rightarrow> bool" where
  "holds_variants vs v \<longleftrightarrow> v_len v = length vs \<and> (\<exists>b. variant_array_value v = Some b \<and> take (length vs) b = vs)"

definition holds_dict :: "dict_entry list \<Rightarrow> ni_dbus_variant \<Rightarrow> bool" where
  "holds_dict es v \<longleftrightarrow> ni_dbus_variant_is_dict v \<and> v_len v = length es \<and> (\<exists>b. dict_array_value v = Some b \<and> take (length es) b = es)"

text \<open>A variant holds data of a type: the numbers of an enumeration have names, all bits of a bitmap are named and below
31, a member of a union is not itself a union, a dict has members of the schema only, and the elements of an array
can be named.  Not covered are doubles, scalars that are object paths, which are read as strings, and external files.\<close>

inductive holds :: "ni_xs_type \<Rightarrow> xs_data \<Rightarrow> ni_dbus_variant \<Rightarrow> bool"
  and holds_elements :: "ni_xs_type \<Rightarrow> xs_data list \<Rightarrow> ni_dbus_variant list \<Rightarrow> bool"
  and holds_members :: "ni_xs_name_type list \<Rightarrow> (cstring \<times> xs_data) list \<Rightarrow> dict_entry list \<Rightarrow> bool" where
  holds_flag: "xt_info t = Xs_scalar nm DBUS_TYPE_INVALID en r bm \<Longrightarrow> v_type v = DBUS_TYPE_BYTE \<Longrightarrow> holds t X_flag v"
| holds_num: "xt_info t = Xs_scalar nm ty None r None \<Longrightarrow> is_int_type ty \<or> ty = DBUS_TYPE_BOOLEAN \<and> x \<le> 1 \<Longrightarrow>
    holds_number ty x v \<Longrightarrow> holds t (X_num x) v"
| holds_enum: "xt_info t = Xs_scalar nm ty (Some names) r None \<Longrightarrow> is_int_type ty \<Longrightarrow>
    holds_number ty (ucast (x :: u32)) v \<Longrightarrow> names_number names x \<Longrightarrow> holds t (X_num (ucast x)) v"
| holds_bitmap: "xt_info t = Xs_scalar nm ty en r (Some bits) \<Longrightarrow> is_int_type ty \<Longrightarrow> holds_number ty x v \<Longrightarrow>
    \<forall>b. bit x b \<longrightarrow> b < 31 \<and> names_number bits (of_nat b) \<Longrightarrow> holds t (X_num x) v"
| holds_text: "xt_info t = Xs_scalar nm DBUS_TYPE_STRING None r None \<Longrightarrow> v_type v = DBUS_TYPE_STRING \<Longrightarrow> v_value v = Str s \<Longrightarrow>
    holds t (X_text s) v"
| holds_strs: "xt_info t = Xs_array el en mn mx None \<Longrightarrow> xt_info el = Xs_scalar nm ty e r bm \<Longrightarrow>
    ty = DBUS_TYPE_STRING \<or> ty = DBUS_TYPE_OBJECT_PATH \<Longrightarrow> array_element_name en el \<noteq> None \<Longrightarrow> holds_strings ty ss v \<Longrightarrow>
    holds t (X_strings ss) v"
| holds_byts: "xt_info t = Xs_array el en mn mx None \<Longrightarrow> xt_info el = Xs_scalar nm DBUS_TYPE_BYTE e r bm \<Longrightarrow>
    array_element_name en el \<noteq> None \<Longrightarrow> holds_bytes bs v \<Longrightarrow> holds t (X_bytes bs) v"
| holds_uuid: "xt_info t = Xs_array el en mn mx (Some Notation_uuid) \<Longrightarrow> holds_bytes bs v \<Longrightarrow> length bs = 16 \<Longrightarrow> holds t (X_bytes bs) v"
| holds_dicts: "xt_info t = Xs_array el en mn mx None \<Longrightarrow> is_dict el \<Longrightarrow> array_element_name en el \<noteq> None \<Longrightarrow>
    ni_dbus_variant_is_dict_array v \<Longrightarrow> holds_variants vs v \<Longrightarrow> holds_elements el ds vs \<Longrightarrow> holds t (X_dicts ds) v"
| holds_dct: "xt_info t = Xs_dict ms gs \<Longrightarrow> holds_dict es v \<Longrightarrow> holds_members ms kds es \<Longrightarrow> holds t (X_dict kds) v"
| holds_void: "xt_info t = Xs_union ms discriminant \<Longrightarrow> v_type v = DBUS_TYPE_STRUCT \<Longrightarrow> holds_variants (k # vs) v \<Longrightarrow>
    ni_dbus_variant_get_string k = Some (Some (Some kind)) \<Longrightarrow>
    u_ni_xs_name_type_array_find ms kind = Some (Some ct) \<Longrightarrow> is_void ct \<Longrightarrow> holds t (X_union kind None) v"
| holds_union: "xt_info t = Xs_union ms discriminant \<Longrightarrow> v_type v = DBUS_TYPE_STRUCT \<Longrightarrow> holds_variants (k # c # vs) v \<Longrightarrow>
    ni_dbus_variant_get_string k = Some (Some (Some kind)) \<Longrightarrow>
    u_ni_xs_name_type_array_find ms kind = Some (Some ct) \<Longrightarrow> \<not> is_void ct \<Longrightarrow> \<not> is_union ct \<Longrightarrow> holds ct d c \<Longrightarrow>
    holds t (X_union kind (Some d)) v"
| holds_no_elements: "holds_elements el [] []"
| holds_more_elements: "holds el d v \<Longrightarrow> holds_elements el ds vs \<Longrightarrow> holds_elements el (d # ds) (v # vs)"
| holds_no_members: "holds_members ms [] []"
| holds_more_members: "u_ni_xs_name_type_array_find ms key = Some (Some t) \<Longrightarrow> holds t d v \<Longrightarrow> holds_members ms kds es \<Longrightarrow>
    holds_members ms ((key, d) # kds) (Entry (Some key) v # es)"

section \<open>Scalars\<close>

lemma int_print_parse:
  assumes ty: "is_int_type ty" and v: "holds_number ty x v"
  shows "\<exists>s v'. ni_dbus_variant_sprint fmt v = Some (Some s)
     \<and> ni_dbus_variant_parse sd ni_dbus_variant_init s [ty] = Some (True, v') \<and> holds_number ty x v'"
proof -
  obtain w where w: "v_value v = Raw w" using v by (auto simp: holds_number_def)
  obtain s v' where s: "ni_dbus_variant_sprint fmt v = Some (Some s)" "ni_dbus_variant_parse sd ni_dbus_variant_init s [v_type v] = Some (True, v')"
      "v_type v' = v_type v" "cast_switch_get id v' = cast_switch_get id v"
    using ni_dbus_variant_print_parse [of v w fmt sd id] ty v w by (auto simp: is_int_type_def holds_number_def)
  have "\<exists>w. v_value v' = Raw w"
    using s(3,4) ty v by (cases "v_value v'") (auto simp: cast_switch_get_def read_bits_def is_int_type_def holds_number_def)
  then show ?thesis using s v by (auto simp: holds_number_def)
qed

lemma bool_print_parse:
  assumes x: "x \<le> 1" and v: "holds_number DBUS_TYPE_BOOLEAN x v"
  shows "\<exists>s v'. ni_dbus_variant_sprint fmt v = Some (Some s)
     \<and> ni_dbus_variant_parse sd ni_dbus_variant_init s [DBUS_TYPE_BOOLEAN] = Some (True, v') \<and> holds_number DBUS_TYPE_BOOLEAN x v'"
proof -
  obtain w where w: "v_type v = DBUS_TYPE_BOOLEAN" "v_value v = Raw w" "x = ucast (ucast w :: u32)"
    using v by (auto simp: holds_number_def cast_switch_get_def read_bits_def)
  let ?v = "with_value 0 (Raw (x AND mask 32)) (with_type DBUS_TYPE_BOOLEAN ni_dbus_variant_init)"
  have x01: "x = 0 \<or> x = 1" using x by (simp add: word_le_nat_alt word_unat_eq_iff le_Suc_eq)
  have z: "(ucast w :: u32) = 0 \<longleftrightarrow> x = 0"
  proof
    assume "x = 0"
    then have "(ucast (ucast (ucast w :: u32) :: u64) :: u32) = 0" using w(3) by simp
    then show "(ucast w :: u32) = 0" by (simp add: cast_back_16_32)
  qed (simp add: w(3))
  have h: "holds_number DBUS_TYPE_BOOLEAN x ?v"
    using w(3) by (simp add: holds_number_def cast_switch_get_def read_bits_def cast_back cast_back_16_32)
  have "ni_dbus_variant_sprint fmt v = Some (Some (if x = 0 then ''false'' else ''true''))"
    using w z by (simp add: ni_dbus_variant_sprint_def read_bits_def)
  moreover have "ni_dbus_variant_parse sd ni_dbus_variant_init (if x = 0 then ''false'' else ''true'') [DBUS_TYPE_BOOLEAN] = Some (True, ?v)"
    using x01 by (auto simp: ni_dbus_variant_parse_def)
  ultimately show ?thesis using h by blast
qed

lemma number_print_parse:
  assumes "is_int_type ty \<or> ty = DBUS_TYPE_BOOLEAN \<and> x \<le> 1" and "holds_number ty x v"
  shows "\<exists>s v'. ni_dbus_variant_sprint fmt v = Some (Some s)
     \<and> ni_dbus_variant_parse sd ni_dbus_variant_init s [ty] = Some (True, v') \<and> holds_number ty x v'"
  using assms int_print_parse bool_print_parse by blast

lemma byte_back: "ucast (scast (b :: byte) :: u64) = b"
  by (rule bit_word_eqI) (auto simp: bit_simps bit_signed_iff)

lemma number_set:
  assumes "is_int_type ty" and "holds_number ty y v"
  shows "\<exists>v'. cast_switch_set (with_type ty ni_dbus_variant_init) y d = Some (True, v') \<and> holds_number ty y v'"
proof -
  obtain w where w: "v_type v = ty" "v_value v = Raw w" "cast_switch_get id v = Some (Some y)" using assms(2) by (auto simp: holds_number_def)
  show ?thesis using assms(1) w unfolding is_int_type_def
    by (auto simp: holds_number_def cast_switch_set_def cast_switch_get_def read_bits_def cast_back cast_back_16_32 byte_back)
qed

lemma signature_scalar:
  "xt_info t = Xs_scalar nm ty en r bm \<Longrightarrow> ty \<noteq> DBUS_TYPE_INVALID \<Longrightarrow> ni_xs_type_to_dbus_signature t = Some (Some [ty])"
  by (cases t) (simp add: ni_xs_type_to_dbus_signature_def)

lemma init_scalar:
  "xt_info t = Xs_scalar nm ty en r bm \<Longrightarrow> is_int_type ty \<Longrightarrow> init_for_type ni_dbus_variant_init t = Some (True, with_type ty ni_dbus_variant_init)"
  by (auto simp: init_for_type_def signature_scalar is_int_type_def ni_dbus_variant_init_signature_def ni_dbus_variant_destroy_def
      ni_dbus_type_as_string_def ni_dbus_variant_init_def)

lemma int_type_facts: "is_int_type ty \<Longrightarrow> ty \<noteq> DBUS_TYPE_INVALID \<and> ty \<noteq> DBUS_TYPE_ARRAY \<and> ty \<noteq> DBUS_TYPE_BOOLEAN \<and> ty \<noteq> DBUS_TYPE_DOUBLE"
  by (auto simp: is_int_type_def)

lemma round_num:
  assumes t: "xt_info t = Xs_scalar nm ty None r None" and x: "is_int_type ty \<or> ty = DBUS_TYPE_BOOLEAN \<and> x \<le> 1" "holds_number ty x v"
  shows "\<exists>s v'. ni_dbus_deserialize_xml env v t node = Some (True, xml_node_set_cdata node (Some s))
     \<and> ni_dbus_serialize_xml env (xml_node_set_cdata node (Some s)) t ni_dbus_variant_init = Some (True, v') \<and> holds_number ty x v'"
proof -
  obtain s v' where s: "ni_dbus_variant_sprint (xe_fmt env) v = Some (Some s)"
      "ni_dbus_variant_parse (xe_strtod env) ni_dbus_variant_init s [ty] = Some (True, v')" "holds_number ty x v'"
    using number_print_parse [OF x] by blast
  have ty: "ty \<noteq> DBUS_TYPE_INVALID" "ty \<noteq> DBUS_TYPE_ARRAY" "v_type v = ty" using x int_type_facts by (auto simp: holds_number_def)
  have "ni_dbus_deserialize_xml env v t node = Some (True, xml_node_set_cdata node (Some s))"
    using t ty s(1) by (simp add: ni_dbus_deserialize_xml_scalar_def)
  moreover have "ni_dbus_serialize_xml env (xml_node_set_cdata node (Some s)) t ni_dbus_variant_init = Some (True, v')"
    using t ty s(2) signature_scalar [OF t ty(1)] by (simp add: ni_dbus_serialize_xml_scalar_def)
  ultimately show ?thesis using s(3) by blast
qed

lemma change_type_same: "v_type v = ty \<Longrightarrow> u_ni_dbus_variant_change_type v ty = Some v"
  by (simp add: u_ni_dbus_variant_change_type_def)

lemma round_text:
  assumes t: "xt_info t = Xs_scalar nm DBUS_TYPE_STRING None r None" and v: "v_type v = DBUS_TYPE_STRING" "v_value v = Str s"
  shows "ni_dbus_deserialize_xml env v t node = Some (True, xml_node_set_cdata node (Some s))
     \<and> ni_dbus_serialize_xml env (xml_node_set_cdata node (Some s)) t ni_dbus_variant_init
        = Some (True, with_value 0 (Str s) (with_type DBUS_TYPE_STRING ni_dbus_variant_init))"
proof
  show "ni_dbus_deserialize_xml env v t node = Some (True, xml_node_set_cdata node (Some s))"
    using t v by (simp add: ni_dbus_deserialize_xml_scalar_def ni_dbus_variant_sprint_def string_value_def)
  show "ni_dbus_serialize_xml env (xml_node_set_cdata node (Some s)) t ni_dbus_variant_init
        = Some (True, with_value 0 (Str s) (with_type DBUS_TYPE_STRING ni_dbus_variant_init))"
    using t signature_scalar [OF t]
    by (simp add: ni_dbus_serialize_xml_scalar_def ni_dbus_variant_parse_def ni_dbus_variant_set_string_def
        change_type_same dup_string_fresh)
qed

lemma round_flag:
  assumes t: "xt_info t = Xs_scalar nm DBUS_TYPE_INVALID en r bm" and v: "v_type v = DBUS_TYPE_BYTE"
  shows "\<exists>v'. ni_dbus_deserialize_xml env v t node = Some (True, node)
     \<and> ni_dbus_serialize_xml env node t ni_dbus_variant_init = Some (True, v') \<and> v_type v' = DBUS_TYPE_BYTE"
  using t v by (simp add: ni_dbus_deserialize_xml_scalar_def ni_dbus_serialize_xml_scalar_def ni_dbus_variant_set_byte_def)

lemma round_enum:
  assumes t: "xt_info t = Xs_scalar nm ty (Some names) r None" and ty: "is_int_type ty"
    and v: "holds_number ty (ucast (x :: u32)) v" and n: "names_number names x"
  shows "\<exists>s v'. ni_dbus_deserialize_xml env v t node = Some (True, xml_node_set_cdata node (Some s))
     \<and> ni_dbus_serialize_xml env (xml_node_set_cdata node (Some s)) t ni_dbus_variant_init = Some (True, v') \<and> holds_number ty (ucast x) v'"
proof -
  obtain s where s: "intmap_by_value x names = Some s" "intmap_by_name s names = Some x"
    using n by (auto simp: names_number_def split: option.splits)
  obtain v' where v': "cast_switch_set (with_type ty ni_dbus_variant_init) (ucast x) (xe_of_int env (uint x)) = Some (True, v')"
      "holds_number ty (ucast x) v'"
    using number_set [OF ty v] by blast
  have vt: "v_type v = ty" "cast_switch_get (xe_to_int env) v = Some (Some (ucast x))"
    using v int_type_facts [OF ty] by (auto simp: holds_number_def cast_switch_get_def split: if_splits)
  have "ni_dbus_deserialize_xml env v t node = Some (True, xml_node_set_cdata node (Some s))"
    using t vt int_type_facts [OF ty] s(1)
    by (simp add: ni_dbus_deserialize_xml_scalar_def ni_dbus_variant_get_uint_def ni_format_uint_mapped_def cast_back_16_32)
  moreover have "ni_dbus_serialize_xml env (xml_node_set_cdata node (Some s)) t ni_dbus_variant_init = Some (True, v')"
    using t int_type_facts [OF ty] s(2) v'(1) init_scalar [OF t ty]
    by (simp add: ni_dbus_serialize_xml_scalar_def ni_dbus_serialize_xml_enum_def ni_parse_uint_maybe_mapped_def
        ni_parse_uint_mapped_def ni_dbus_variant_set_uint_def)
  ultimately show ?thesis using v'(2) by blast
qed

subsection \<open>Bitmaps\<close>

lemma bit_bit_mask: "b < 32 \<Longrightarrow> bit (bit_mask b) i \<longleftrightarrow> i < 64 \<and> (if i < 32 then i = b else b = 31)"
  by (auto simp: bit_mask_def bit_signed_iff bit_simps min_def)

lemma and_bit_mask:
  assumes x: "\<forall>b. bit (x :: u64) b \<longrightarrow> b < 31" and b: "b < 32"
  shows "x AND bit_mask b = 0 \<longleftrightarrow> \<not> bit x b"
proof
  assume z: "x AND bit_mask b = 0"
  show "\<not> bit x b"
  proof
    assume xb: "bit x b"
    then have "bit (x AND bit_mask b) b" using b by (simp add: bit_and_iff bit_bit_mask)
    then show False by (simp add: z)
  qed
next
  assume n: "\<not> bit x b"
  show "x AND bit_mask b = 0"
  proof (rule bit_word_eqI)
    fix i assume "i < LENGTH(64)"
    show "bit (x AND bit_mask b) i = bit (0 :: u64) i" using n x b by (auto simp: bit_and_iff bit_bit_mask split: if_splits)
  qed
qed

lemma bitmap_loop:
  assumes x: "\<forall>b. bit (x :: u64) b \<longrightarrow> b < 31 \<and> names_number bits (of_nat b)"
  shows "\<forall>b\<in>set bbs. b < 32 \<Longrightarrow>
    \<exists>r. ni_dbus_serialize_xml_bitmap (map (\<lambda>n. xml_node_new (Some n)) (bit_names bits x bbs)) bits acc = Some r
      \<and> (\<forall>i. bit r i \<longleftrightarrow> bit acc i \<or> i \<in> set bbs \<and> bit x i)"
proof (induction bbs arbitrary: acc)
  case Nil
  then show ?case by (simp add: bit_names_def List.map_filter_def)
next
  case (Cons b bbs)
  have b32: "b < 32" using Cons.prems by simp
  show ?case
  proof (cases "bit x b")
    case False
    then have "bit_names bits x (b # bbs) = bit_names bits x bbs"
      using and_bit_mask [of x b] x b32 by (simp add: bit_names_def List.map_filter_simps)
    then show ?thesis using Cons.IH [of acc] Cons.prems False by auto
  next
    case True
    then obtain n where n: "intmap_by_value (of_nat b) bits = Some n" "intmap_by_name n bits = Some (of_nat b)"
      using x by (auto simp: names_number_def split: option.splits)
    have e: "bit_names bits x (b # bbs) = n # bit_names bits x bbs"
      using and_bit_mask [of x b] x b32 True n(1) by (simp add: bit_names_def List.map_filter_simps ni_format_uint_mapped_def)
    have u: "unat (of_nat b :: u32) = b" using b32 by (simp add: unat_of_nat)
    obtain r where r: "ni_dbus_serialize_xml_bitmap (map (\<lambda>n. xml_node_new (Some n)) (bit_names bits x bbs)) bits (acc OR bit_mask b) = Some r"
        "\<forall>i. bit r i \<longleftrightarrow> bit (acc OR bit_mask b) i \<or> i \<in> set bbs \<and> bit x i"
      using Cons.IH [of "acc OR bit_mask b"] Cons.prems by auto
    have b31: "b < 31" using x True by blast
    have "bit (bit_mask b) i \<longleftrightarrow> i = b" for i using bit_bit_mask [OF b32, of i] b31 by auto
    then have "\<forall>i. bit r i \<longleftrightarrow> bit acc i \<or> i \<in> set (b # bbs) \<and> bit x i" using r(2) True by (auto simp: bit_or_iff)
    then show ?thesis using r(1) e n(2) u b32 by (simp add: ni_parse_uint_mapped_def)
  qed
qed

lemma add_elements_eq: "add_elements node names = xml_node_set_children node (xn_children node @ map (\<lambda>n. xml_node_new (Some n)) names)"
proof (induction names arbitrary: node)
  case Nil
  then show ?case by (cases node) (simp add: add_elements_def xml_node_set_children_def)
next
  case (Cons n names)
  have "add_elements node (n # names) = add_elements (xml_node_add_child node (xml_node_new (Some n))) names" by (simp add: add_elements_def)
  then show ?case by (simp add: Cons.IH xml_node_add_child_def xml_node_set_children_def)
qed

lemma round_bitmap:
  assumes t: "xt_info t = Xs_scalar nm ty en r (Some bits)" and ty: "is_int_type ty" and v: "holds_number ty x v"
    and x: "\<forall>b. bit x b \<longrightarrow> b < 31 \<and> names_number bits (of_nat b)" and node: "xn_children node = []"
  shows "\<exists>cs v'. ni_dbus_deserialize_xml env v t node = Some (True, xml_node_set_children node cs)
     \<and> ni_dbus_serialize_xml env (xml_node_set_children node cs) t ni_dbus_variant_init = Some (True, v') \<and> holds_number ty x v'"
proof -
  let ?cs = "map (\<lambda>n. xml_node_new (Some n)) (bit_names bits x [0..<32])"
  obtain y where y: "ni_dbus_serialize_xml_bitmap ?cs bits 0 = Some y" "\<forall>i. bit y i \<longleftrightarrow> i < 32 \<and> bit x i"
    using bitmap_loop [OF x, of "[0..<32]" 0] by auto
  have yx: "y = x" using y(2) x by (intro bit_word_eqI) fastforce
  obtain v' where v': "cast_switch_set (with_type ty ni_dbus_variant_init) x (xe_of_int env (uint x)) = Some (True, v')" "holds_number ty x v'"
    using number_set [OF ty v] by blast
  have vt: "v_type v = ty" "cast_switch_get (xe_to_int env) v = Some (Some x)"
    using v int_type_facts [OF ty] by (auto simp: holds_number_def cast_switch_get_def split: if_splits)
  have "ni_dbus_deserialize_xml env v t node = Some (True, xml_node_set_children node ?cs)"
    using t vt int_type_facts [OF ty] node
    by (simp add: ni_dbus_deserialize_xml_scalar_def ni_dbus_variant_get_ulong_def add_elements_eq)
  moreover have "ni_dbus_serialize_xml env (xml_node_set_children node ?cs) t ni_dbus_variant_init = Some (True, v')"
    using t int_type_facts [OF ty] y(1) yx v'(1) init_scalar [OF t ty]
    by (simp add: ni_dbus_serialize_xml_scalar_def ni_dbus_variant_set_ulong_def)
  ultimately show ?thesis using v'(2) by blast
qed

section \<open>Arrays of scalars\<close>

definition scalar_nodes :: "cstring \<Rightarrow> cstring list \<Rightarrow> xml_node list" where
  "scalar_nodes name ss = map (\<lambda>s. xml_node_set_cdata (xml_node_new (Some name)) (Some s)) ss"

lemma deserialize_scalars_ok:
  assumes name: "array_element_name en el = Some name"
    and p: "\<And>i. i < length ss \<Longrightarrow> ni_dbus_variant_array_print_element v i = Some (Some (ss ! i))"
  shows "i + n = length ss \<Longrightarrow> deserialize_xml_scalars v i n en el node
     = Some (True, xml_node_set_children node (xn_children node @ scalar_nodes name (drop i ss)))"
proof (induction n arbitrary: i node)
  case 0
  then show ?case by (cases node) (simp add: scalar_nodes_def xml_node_set_children_def)
next
  case (Suc n)
  have i: "i < length ss" using Suc.prems by simp
  have "scalar_nodes name (drop i ss) = xml_node_set_cdata (xml_node_new (Some name)) (Some (ss ! i)) # scalar_nodes name (drop (Suc i) ss)"
    using i by (simp add: scalar_nodes_def Cons_nth_drop_Suc [symmetric])
  then show ?case using Suc.IH [of "Suc i"] Suc.prems p [OF i] name
    by (simp add: xml_node_add_child_def xml_node_set_children_def)
qed

definition string_array :: "char \<Rightarrow> cstring list \<Rightarrow> ni_dbus_variant \<Rightarrow> bool" where
  "string_array ty ss v \<longleftrightarrow> strings_wf ty v \<and> v_element_type v = ty \<and> strings_of v = map Some ss"

definition byte_array :: "byte list \<Rightarrow> ni_dbus_variant \<Rightarrow> bool" where
  "byte_array bs v \<longleftrightarrow> bytes_wf v \<and> v_element_type v = DBUS_TYPE_BYTE \<and> bytes_of v = bs"

lemma string_array_holds: "string_array ty ss v \<Longrightarrow> holds_strings ty ss v"
proof -
  assume h: "string_array ty ss v"
  then obtain b where b: "string_array_value v = Some b" "fits b (v_len v)" "take (v_len v) b = map Some ss" "u_ni_dbus_is_array v [ty]"
    by (auto simp: string_array_def strings_wf_def strings_of_def)
  have "v_len v = length ss" using arg_cong [OF b(3), of length] fits_le [OF b(2)] by simp
  then show ?thesis using b h by (simp add: holds_strings_def string_array_def u_ni_dbus_is_array_def split: if_splits)
qed

lemma byte_array_holds: "byte_array bs v \<Longrightarrow> holds_bytes bs v"
proof -
  assume h: "byte_array bs v"
  then obtain b where b: "byte_array_value v = Some b" "fits b (v_len v)" "take (v_len v) b = bs" "u_ni_dbus_is_array v [DBUS_TYPE_BYTE]"
    by (auto simp: byte_array_def bytes_wf_def bytes_of_def)
  have "v_len v = length bs" using arg_cong [OF b(3), of length] fits_le [OF b(2)] by simp
  then show ?thesis using b h by (simp add: holds_bytes_def byte_array_def u_ni_dbus_is_array_def split: if_splits)
qed

lemma array_is_array: "u_ni_dbus_is_array v sig \<Longrightarrow> v_type v = DBUS_TYPE_ARRAY"
  by (simp add: u_ni_dbus_is_array_def split: if_splits)

lemma append_text_ok:
  assumes ty: "ty = DBUS_TYPE_STRING \<or> ty = DBUS_TYPE_OBJECT_PATH" and v: "string_array ty ss v"
  shows "\<exists>v1. ni_dbus_variant_array_parse_and_append_string v (Some s) = Some (True, v1) \<and> string_array ty (ss @ [s]) v1"
proof -
  have wf: "strings_wf ty v" "v_element_type v = ty" "strings_of v = map Some ss" "v_type v = DBUS_TYPE_ARRAY"
    using v by (simp_all add: string_array_def strings_wf_def array_is_array [of v "[ty]"])
  obtain b where b: "string_array_value v = Some b" using wf(1) by (auto simp: strings_wf_def)
  obtain b1 where b1: "u_ni_dbus_array_grow b (v_len v) 1 None = Some b1" "v_len v < length b1"
      "strings_wf ty (with_value (v_len v + 1) (StrArr (b1[v_len v := Some s])) v)"
      "strings_of (with_value (v_len v + 1) (StrArr (b1[v_len v := Some s])) v) = strings_of v @ [Some s]"
    using append_string_ok [OF wf(1), of "Some s"] b by auto
  have "ty \<noteq> DBUS_TYPE_INVALID" "ni_dbus_type_size ty \<noteq> 0" using ty by (auto simp: ni_dbus_type_size_def)
  then have "ni_dbus_variant_array_parse_and_append_string v (Some s)
      = Some (True, with_value (v_len v + 1) (StrArr (b1[v_len v := Some s])) v)"
    using ty wf b b1(1,2) by (simp add: ni_dbus_variant_array_parse_and_append_string_def arr_set_in)
  then show ?thesis using b1(3,4) wf by (simp add: string_array_def)
qed

lemma append_hex_ok:
  assumes v: "byte_array bs v"
  shows "\<exists>v1. ni_dbus_variant_array_parse_and_append_string v (Some (''0x'' @ print_02x (ucast (x :: byte)))) = Some (True, v1) \<and> byte_array (bs @ [x]) v1"
proof -
  have wf: "bytes_wf v" "v_element_type v = DBUS_TYPE_BYTE" "bytes_of v = bs" "v_type v = DBUS_TYPE_ARRAY"
    using v by (simp_all add: byte_array_def bytes_wf_def array_is_array [of v "[DBUS_TYPE_BYTE]"])
  obtain b where b: "byte_array_value v = Some b" "fits b (v_len v)" using wf(1) by (auto simp: bytes_wf_def)
  obtain b1 where b1: "u_ni_dbus_array_grow b (v_len v) 1 0 = Some b1" "v_len v < length b1" "fits (b1[v_len v := x]) (Suc (v_len v))"
      "take (Suc (v_len v)) (b1[v_len v := x]) = take (v_len v) b @ [x]"
    using grow_set [OF b(2), of 0 x] by blast
  let ?v1 = "with_value (v_len v + 1) (ByteArr (b1[v_len v := x])) v"
  have c: "(ucast (ucast (ucast x :: u32) :: u64) :: byte) = x" by (rule bit_word_eqI) (simp add: bit_simps)
  have "ni_dbus_variant_array_parse_and_append_string v (Some (''0x'' @ print_02x (ucast x))) = Some (True, ?v1)"
    using wf b(1) b1(1,2) strtoul_print_02x [of "ucast x"]
    by (simp add: ni_dbus_variant_array_parse_and_append_string_def ni_dbus_type_size_def arr_set_in c)
  moreover have "byte_array (bs @ [x]) ?v1"
    using wf b b1(3,4) by (simp add: byte_array_def bytes_wf_def bytes_of_def byte_array_value_def)
  ultimately show ?thesis by blast
qed

lemma serialize_texts:
  assumes el: "is_scalar el" and step: "\<And>v xs x. J xs v \<Longrightarrow>
    \<exists>v1. ni_dbus_variant_array_parse_and_append_string v (Some (tx x)) = Some (True, v1) \<and> J (xs @ [x]) v1"
  shows "J xs v \<Longrightarrow> \<exists>v1. serialize_xml_elements env (scalar_nodes name (map tx ys)) el v = Some (True, v1) \<and> J (xs @ ys) v1"
proof (induction ys arbitrary: xs v)
  case (Cons y ys)
  obtain v1 where v1: "ni_dbus_variant_array_parse_and_append_string v (Some (tx y)) = Some (True, v1)" "J (xs @ [y]) v1"
    using step [OF Cons.prems] by blast
  then show ?case using Cons.IH [OF v1(2)] el by (simp add: scalar_nodes_def)
qed (simp add: scalar_nodes_def)

lemma signature_array_scalar:
  "xt_info t = Xs_array el en mn mx None \<Longrightarrow> xt_info el = Xs_scalar nm ty e r bm \<Longrightarrow> ty \<noteq> DBUS_TYPE_INVALID \<Longrightarrow>
     ni_xs_type_to_dbus_signature t = Some (Some [DBUS_TYPE_ARRAY, ty])"
  by (cases t; cases el) (simp add: ni_xs_type_to_dbus_signature_def)

lemma init_array_scalar:
  "xt_info t = Xs_array el en mn mx None \<Longrightarrow> xt_info el = Xs_scalar nm ty e r bm \<Longrightarrow> ty \<in> {DBUS_TYPE_STRING, DBUS_TYPE_OBJECT_PATH, DBUS_TYPE_BYTE} \<Longrightarrow>
     init_for_type ni_dbus_variant_init t = Some (True, Variant DBUS_TYPE_ARRAY ty None 0 (Raw 0))"
  by (auto simp: init_for_type_def signature_array_scalar ni_dbus_variant_init_signature_def ni_dbus_variant_destroy_def
      u_ni_dbus_init_array_signature_def ni_dbus_type_as_string_def ni_dbus_variant_init_def with_type_def with_elements_def)

lemma round_strings:
  assumes t: "xt_info t = Xs_array el en mn mx None" "xt_info el = Xs_scalar nm ty e r bm"
    and ty: "ty = DBUS_TYPE_STRING \<or> ty = DBUS_TYPE_OBJECT_PATH" and en: "array_element_name en el \<noteq> None" and v: "holds_strings ty ss v"
    and node: "xn_children node = []"
  shows "\<exists>cs v'. ni_dbus_deserialize_xml env v t node = Some (True, xml_node_set_children node cs)
     \<and> ni_dbus_serialize_xml env (xml_node_set_children node cs) t ni_dbus_variant_init = Some (True, v') \<and> holds_strings ty ss v'"
proof -
  obtain name where name: "array_element_name en el = Some name" using en by auto
  have el: "is_scalar el" using t(2) by (simp add: is_scalar_def)
  obtain b where b: "v_type v = DBUS_TYPE_ARRAY" "v_element_type v = ty" "v_len v = length ss" "string_array_value v = Some b"
      "take (length ss) b = map Some ss" using v by (auto simp: holds_strings_def)
  have lb: "length ss \<le> length b" using arg_cong [OF b(5), of length] by simp
  have "ni_dbus_variant_array_print_element v i = Some (Some (ss ! i))" if "i < length ss" for i
  proof -
    have "b ! i = Some (ss ! i)" using arg_cong [OF b(5), of "\<lambda>l. l ! i"] that by simp
    then show ?thesis using b ty that lb by (auto simp: ni_dbus_variant_array_print_element_def arr_get_in)
  qed
  then have "ni_dbus_deserialize_xml env v t node = Some (True, xml_node_set_children node (scalar_nodes name ss))"
    using deserialize_scalars_ok [OF name, of ss v 0 "length ss" node] t ty b node by (auto simp: is_scalar_def)
  moreover have sa: "string_array ty [] (Variant DBUS_TYPE_ARRAY ty None 0 (Raw 0))"
    using ty by (auto simp: string_array_def strings_wf_def strings_of_def u_ni_dbus_is_array_def string_array_value_def)
  then obtain v' where "serialize_xml_elements env (scalar_nodes name ss) el (Variant DBUS_TYPE_ARRAY ty None 0 (Raw 0)) = Some (True, v')"
      "string_array ty ss v'"
    using serialize_texts [where J = "string_array ty" and tx = "\<lambda>s. s" and ys = ss and name = name and env = env, OF el append_text_ok [OF ty] sa]
    by auto
  moreover have "init_for_type ni_dbus_variant_init t = Some (True, Variant DBUS_TYPE_ARRAY ty None 0 (Raw 0))"
    using init_array_scalar [OF t] ty by auto
  ultimately show ?thesis using t string_array_holds by (intro exI [of _ "scalar_nodes name ss"] exI [of _ v']) simp
qed

lemma round_bytes:
  assumes t: "xt_info t = Xs_array el en mn mx None" "xt_info el = Xs_scalar nm DBUS_TYPE_BYTE e r bm"
    and en: "array_element_name en el \<noteq> None" and v: "holds_bytes bs v" and node: "xn_children node = []"
  shows "\<exists>cs v'. ni_dbus_deserialize_xml env v t node = Some (True, xml_node_set_children node cs)
     \<and> ni_dbus_serialize_xml env (xml_node_set_children node cs) t ni_dbus_variant_init = Some (True, v') \<and> holds_bytes bs v'"
proof -
  let ?tx = "\<lambda>x :: byte. ''0x'' @ print_02x (ucast x)"
  obtain name where name: "array_element_name en el = Some name" using en by auto
  have el: "is_scalar el" using t(2) by (simp add: is_scalar_def)
  obtain b where b: "v_type v = DBUS_TYPE_ARRAY" "v_element_type v = DBUS_TYPE_BYTE" "v_len v = length bs" "byte_array_value v = Some b"
      "take (length bs) b = bs" using v by (auto simp: holds_bytes_def)
  have lb: "length bs \<le> length b" using arg_cong [OF b(5), of length] by simp
  have "ni_dbus_variant_array_print_element v i = Some (Some (map ?tx bs ! i))" if "i < length bs" for i
  proof -
    have "b ! i = bs ! i" using arg_cong [OF b(5), of "\<lambda>l. l ! i"] that by simp
    then show ?thesis using b that lb by (auto simp: ni_dbus_variant_array_print_element_def arr_get_in)
  qed
  then have "ni_dbus_deserialize_xml env v t node = Some (True, xml_node_set_children node (scalar_nodes name (map ?tx bs)))"
    using deserialize_scalars_ok [OF name, of "map ?tx bs" v 0 "length bs" node] t b node by (auto simp: is_scalar_def)
  moreover have sa: "byte_array [] (Variant DBUS_TYPE_ARRAY DBUS_TYPE_BYTE None 0 (Raw 0))"
    by (auto simp: byte_array_def bytes_wf_def bytes_of_def u_ni_dbus_is_array_def byte_array_value_def)
  then obtain v' where "serialize_xml_elements env (scalar_nodes name (map ?tx bs)) el (Variant DBUS_TYPE_ARRAY DBUS_TYPE_BYTE None 0 (Raw 0)) = Some (True, v')"
      "byte_array bs v'"
    using serialize_texts [where J = byte_array and tx = ?tx and ys = bs and name = name and env = env, OF el append_hex_ok sa]
    by auto
  moreover have "init_for_type ni_dbus_variant_init t = Some (True, Variant DBUS_TYPE_ARRAY DBUS_TYPE_BYTE None 0 (Raw 0))"
    using init_array_scalar [OF t] by auto
  ultimately show ?thesis using t byte_array_holds by (intro exI [of _ "scalar_nodes name (map ?tx bs)"] exI [of _ v']) simp
qed

section \<open>UUIDs\<close>

lemma uuid_print_length: "length p = 16 \<Longrightarrow> ni_uuid_print (Some p) = Some s \<Longrightarrow> length s \<le> 36"
proof -
  assume p: "length p = 16" "ni_uuid_print (Some p) = Some s"
  have h: "length (concat (map print_hex2 xs)) = 2 * length xs" for xs by (induction xs) auto
  show ?thesis using p h by (auto simp: ni_uuid_print_def split: if_splits)
qed

lemma round_uuid:
  assumes t: "xt_info t = Xs_array el en mn mx (Some Notation_uuid)" and v: "holds_bytes bs v" and l: "length bs = 16"
  shows "\<exists>s v'. ni_dbus_deserialize_xml env v t node = Some (True, xml_node_set_cdata node (Some s))
     \<and> ni_dbus_serialize_xml env (xml_node_set_cdata node (Some s)) t ni_dbus_variant_init = Some (True, v') \<and> holds_bytes bs v'"
proof -
  obtain s where s: "ni_uuid_print (Some bs) = Some s" by (cases "ni_uuid_print (Some bs)") (auto simp: ni_uuid_print_def split: if_splits)
  have ls: "length s < 256" using uuid_print_length [OF l s] by simp
  obtain b where b: "v_type v = DBUS_TYPE_ARRAY" "v_element_type v = DBUS_TYPE_BYTE" "v_len v = length bs" "byte_array_value v = Some b"
      "take (length bs) b = bs" using v by (auto simp: holds_bytes_def)
  have lb: "length bs \<le> length b" using arg_cong [OF b(5), of length] by simp
  let ?v' = "Variant DBUS_TYPE_ARRAY DBUS_TYPE_BYTE None 16 (ByteArr (bs @ replicate 16 0))"
  have "ni_dbus_deserialize_xml env v t node = Some (True, xml_node_set_cdata node (Some s))"
    using t b l lb ls s
    by (simp add: array_element_type_def ni_dbus_variant_is_byte_array_def u_ni_dbus_is_array_def mem_read_in notation_print_def u_ni_notation_uuid_print_def)
  moreover have "ni_uuid_parse (Some (replicate 16 0)) (Some s) = (0, Some bs)" using ni_uuid_roundtrip [OF l _ s] by simp
  then have "u_ni_notation_uuid_parse s = Some (bs @ replicate 16 0, 16)" by (simp add: u_ni_notation_uuid_parse_def)
  then have "ni_dbus_serialize_xml env (xml_node_set_cdata node (Some s)) t ni_dbus_variant_init = Some (True, ?v')"
    using t by (simp add: ni_dbus_serialize_byte_array_notation_def array_element_type_def notation_parse_def ni_dbus_variant_init_byte_array_def
      ni_dbus_variant_destroy_def ni_dbus_variant_init_def init_array_fresh [unfolded ni_dbus_variant_init_def] with_value_def)
  moreover have "holds_bytes bs ?v'" using l by (simp add: holds_bytes_def byte_array_value_def)
  ultimately show ?thesis by blast
qed

section \<open>Dicts, arrays of dicts, unions\<close>

lemma has_entries_holds: "has_entries d es \<Longrightarrow> holds_dict es d"
proof -
  assume h: "has_entries d es"
  then obtain b where b: "is_entry_array d" "dict_array_value d = Some b" "fits b (v_len d)" "dict_entries d = es"
    by (auto simp: has_entries_def dict_wf_def)
  have tk: "take (v_len d) b = es" using dict_block [OF b(2)] b(4) by simp
  have "v_len d = length es" using arg_cong [OF tk, of length] fits_le [OF b(3)] by simp
  then show ?thesis using b tk is_entry_array_dict [OF b(1)] by (simp add: holds_dict_def)
qed

lemma has_dicts_holds: "has_dicts v vs \<Longrightarrow> ni_dbus_variant_is_dict_array v \<and> holds_variants vs v"
  using has_dicts_is_array [of v vs] by (auto simp: has_dicts_def ni_dbus_variant_is_dict_array_def holds_variants_def)

lemma serialize_dict_reset:
  "is_dict t \<Longrightarrow> can_free v \<Longrightarrow> ni_dbus_serialize_xml env node t v = ni_dbus_serialize_xml env node t ni_dbus_variant_init"
proof -
  assume a: "is_dict t" "can_free v"
  then obtain ms gs where "xt_info t = Xs_dict ms gs" by (auto simp: is_dict_def split: xs_info.splits)
  moreover have "ni_dbus_variant_init_dict v = ni_dbus_variant_init_dict ni_dbus_variant_init"
    using a(2) by (simp add: ni_dbus_variant_init_dict_def ni_dbus_variant_destroy_def ni_dbus_variant_init_def)
  ultimately show ?thesis by simp
qed

lemma add_dict_element:
  assumes v: "has_dicts v ds" and el: "is_dict el" and c: "ni_dbus_serialize_xml env child el ni_dbus_variant_init = Some (True, x)"
  shows "\<exists>w. serialize_xml_elements env (child # cs) el v = serialize_xml_elements env cs el w \<and> has_dicts w (ds @ [x])"
proof -
  obtain w e where w: "ni_dbus_dict_array_add v = Some (Some (length ds), w)" "has_dicts w (ds @ [e])" "can_free e"
    using has_dicts_add [OF v] by blast
  obtain b where b: "variant_array_value w = Some b" "arr_get b (length ds) = Some e" using has_dicts_element [OF w(2)] by blast
  obtain w1 where w1: "update_element w (length ds) (\<lambda>_. Some x) = Some w1" "has_dicts w1 (ds @ [x])"
    using has_dicts_update [OF w(2)] by blast
  have "\<not> is_scalar el" using el by (auto simp: is_scalar_def is_dict_def split: xs_info.splits)
  then have "serialize_xml_elements env (child # cs) el v = serialize_xml_elements env cs el w1"
    using el w(1) b w1(1) c serialize_dict_reset [OF el w(3)] by (simp del: ni_dbus_serialize_xml.simps)
  then show ?thesis using w1(2) by blast
qed

lemma add_dict_member:
  assumes d: "has_entries d es" and f: "u_ni_xs_name_type_array_find ms key = Some (Some t)" and k: "xn_name child = Some key"
    and c: "ni_dbus_serialize_xml env child t ni_dbus_variant_init = Some (True, x)"
  shows "\<exists>d1. serialize_xml_members env (child # cs) ms d = serialize_xml_members env cs ms d1 \<and> has_entries d1 (es @ [Entry (Some key) x])"
proof -
  have wf: "dict_wf d" "dict_entries d = es" using d by (simp_all add: has_entries_def)
  obtain d1 b where d1: "ni_dbus_dict_add d (Some key) = Some (Some (v_len d), d1)" "is_entry_array d1" "v_len d1 = v_len d + 1"
      "dict_array_value d1 = Some b" "fits b (v_len d1)" "take (v_len d) b = es" "b ! v_len d = Entry (Some key) ni_dbus_variant_init"
      "\<forall>i. v_len d1 \<le> i \<and> i < length b \<longrightarrow> de_datum (b ! i) = ni_dbus_variant_init"
    using dict_add_ok [OF wf(1), of "Some key"] wf(2) by blast
  obtain d2 where d2: "update_datum d1 (v_len d) (\<lambda>_. Some x) = Some d2" "dict_wf d2" "dict_entries d2 = take (v_len d) b @ [Entry (Some key) x]"
    using update_datum_last [OF d1(2,3,4,5,7,8), of "\<lambda>_. Some x" x] by blast
  have g: "arr_get b (v_len d) = Some (Entry (Some key) ni_dbus_variant_init)"
    using fits_le [OF d1(5)] d1(3,7) by (simp add: arr_get_in)
  have m: "member_type ms (Some key) = Some (Some t)" using f by (cases ms) (simp_all add: member_type_def del: u_ni_xs_name_type_array_find.simps(2))
  have "serialize_xml_members env (child # cs) ms d = serialize_xml_members env cs ms d2"
    using m k d1(1,4) g c d2(1) by (simp del: ni_dbus_serialize_xml.simps)
  then show ?thesis using d2(2,3) d1(6) by (auto simp: has_entries_def)
qed

text \<open>A struct with a string and a fresh second member.\<close>

definition struct_with :: "cstring \<Rightarrow> nat \<Rightarrow> ni_dbus_variant \<Rightarrow> ni_dbus_variant" where
  "struct_with kind n x = Variant DBUS_TYPE_STRUCT DBUS_TYPE_INVALID None n
     (VarArr (with_value 0 (Str kind) (with_type DBUS_TYPE_STRING ni_dbus_variant_init) # x # replicate 30 ni_dbus_variant_init))"

lemma replicate_32: "replicate 32 x = x # x # replicate 30 x"
  by (simp add: numeral_eq_Suc)

lemma struct_string:
  "ni_dbus_variant_init_struct ni_dbus_variant_init = Some (Variant DBUS_TYPE_STRUCT DBUS_TYPE_INVALID None 0 (Raw 0))"
  "ni_dbus_struct_add_string (Variant DBUS_TYPE_STRUCT DBUS_TYPE_INVALID None 0 (Raw 0)) (Some kind) = Some (True, struct_with kind 1 ni_dbus_variant_init)"
  "ni_dbus_struct_add (struct_with kind 1 ni_dbus_variant_init) = Some (Some 1, struct_with kind 2 ni_dbus_variant_init)"
  "variant_array_value (struct_with kind n x) = Some (with_value 0 (Str kind) (with_type DBUS_TYPE_STRING ni_dbus_variant_init) # x # replicate 30 ni_dbus_variant_init)"
  "update_element (struct_with kind 2 y) 1 (\<lambda>_. Some x) = Some (struct_with kind 2 x)"
proof -
  show "ni_dbus_variant_init_struct ni_dbus_variant_init = Some (Variant DBUS_TYPE_STRUCT DBUS_TYPE_INVALID None 0 (Raw 0))"
    by (simp add: ni_dbus_variant_init_struct_def ni_dbus_variant_destroy_def ni_dbus_variant_init_def with_value_def with_type_def)
  show v: "variant_array_value (struct_with kind n x) = Some (with_value 0 (Str kind) (with_type DBUS_TYPE_STRING ni_dbus_variant_init) # x # replicate 30 ni_dbus_variant_init)"
    for n x by (simp add: struct_with_def variant_array_value_def)
  show "update_element (struct_with kind 2 y) 1 (\<lambda>_. Some x) = Some (struct_with kind 2 x)"
    by (simp add: update_element_def v arr_get_def arr_set_def) (simp add: struct_with_def with_value_def)
  show "ni_dbus_struct_add (struct_with kind 1 ni_dbus_variant_init) = Some (Some 1, struct_with kind 2 ni_dbus_variant_init)"
    by (simp add: ni_dbus_struct_add_def append_variant_def v u_ni_dbus_array_grow_def NI_DBUS_ARRAY_ALLOCATION_def)
      (simp add: struct_with_def with_value_def)
  show "ni_dbus_struct_add_string (Variant DBUS_TYPE_STRUCT DBUS_TYPE_INVALID None 0 (Raw 0)) (Some kind) = Some (True, struct_with kind 1 ni_dbus_variant_init)"
    by (simp add: ni_dbus_struct_add_string_def ni_dbus_struct_add_def append_variant_def variant_array_value_def u_ni_dbus_array_grow_def
        NI_DBUS_ARRAY_ALLOCATION_def mem_read_in replicate_32 update_element_def arr_get_def arr_set_def ni_dbus_variant_set_string_def
        dup_string_fresh with_value_def [of "Suc 0"] with_value_def [of 1] struct_with_def)
qed

section \<open>All types\<close>

text \<open>The form of the statement that goes through the induction: the node keeps its name, and its attributes unless the
type is a union.\<close>

definition round_trip :: "ni_xs_type \<Rightarrow> xs_data \<Rightarrow> ni_dbus_variant \<Rightarrow> bool" where
  "round_trip t d v \<longleftrightarrow> (\<forall>env node. xn_children node = [] \<longrightarrow> (\<exists>node' v'.
     ni_dbus_deserialize_xml env v t node = Some (True, node') \<and> xn_name node' = xn_name node
     \<and> (\<not> is_union t \<longrightarrow> xn_attrs node' = xn_attrs node)
     \<and> ni_dbus_serialize_xml env node' t ni_dbus_variant_init = Some (True, v') \<and> holds t d v'))"

definition round_elements :: "ni_xs_type \<Rightarrow> xs_data list \<Rightarrow> ni_dbus_variant list \<Rightarrow> bool" where
  "round_elements el ds vs \<longleftrightarrow> (\<forall>env en node. array_element_name en el \<noteq> None \<and> is_dict el \<longrightarrow> (\<exists>cs.
     deserialize_xml_elements env vs en el node = Some (True, xml_node_set_children node (xn_children node @ cs))
     \<and> (\<forall>v ws. has_dicts v ws \<longrightarrow> (\<exists>v' ws'. serialize_xml_elements env cs el v = Some (True, v') \<and> has_dicts v' (ws @ ws') \<and> holds_elements el ds ws'))))"

definition round_members :: "ni_xs_name_type list \<Rightarrow> (cstring \<times> xs_data) list \<Rightarrow> dict_entry list \<Rightarrow> bool" where
  "round_members ms kds es \<longleftrightarrow> (\<forall>env node. \<exists>cs.
     deserialize_xml_members env es ms node = Some (True, xml_node_set_children node (xn_children node @ cs))
     \<and> (\<forall>d es0. has_entries d es0 \<longrightarrow> (\<exists>d' es'. serialize_xml_members env cs ms d = Some (True, d') \<and> has_entries d' (es0 @ es') \<and> holds_members ms kds es')))"

lemma round_trip_cdata:
  assumes "\<And>env node. \<exists>s v'. ni_dbus_deserialize_xml env v t node = Some (True, xml_node_set_cdata node (Some s))
     \<and> ni_dbus_serialize_xml env (xml_node_set_cdata node (Some s)) t ni_dbus_variant_init = Some (True, v') \<and> holds t d v'"
  shows "round_trip t d v"
  unfolding round_trip_def
proof (intro allI impI)
  fix env node
  obtain s v' where "ni_dbus_deserialize_xml env v t node = Some (True, xml_node_set_cdata node (Some s))"
    "ni_dbus_serialize_xml env (xml_node_set_cdata node (Some s)) t ni_dbus_variant_init = Some (True, v')" "holds t d v'"
    using assms [of env node] by blast
  then show "\<exists>node' v'. ni_dbus_deserialize_xml env v t node = Some (True, node') \<and> xn_name node' = xn_name node
     \<and> (\<not> is_union t \<longrightarrow> xn_attrs node' = xn_attrs node)
     \<and> ni_dbus_serialize_xml env node' t ni_dbus_variant_init = Some (True, v') \<and> holds t d v'"
    by (intro exI [of _ "xml_node_set_cdata node (Some s)"] exI [of _ v']) (simp del: ni_dbus_serialize_xml.simps ni_dbus_deserialize_xml.simps)
qed

lemma round_trip_children:
  assumes "\<And>env node. xn_children node = [] \<Longrightarrow> \<exists>cs v'. ni_dbus_deserialize_xml env v t node = Some (True, xml_node_set_children node cs)
     \<and> ni_dbus_serialize_xml env (xml_node_set_children node cs) t ni_dbus_variant_init = Some (True, v') \<and> holds t d v'"
  shows "round_trip t d v"
  unfolding round_trip_def
proof (intro allI impI)
  fix env node assume "xn_children node = []"
  then obtain cs v' where "ni_dbus_deserialize_xml env v t node = Some (True, xml_node_set_children node cs)"
    "ni_dbus_serialize_xml env (xml_node_set_children node cs) t ni_dbus_variant_init = Some (True, v')" "holds t d v'"
    using assms [of node env] by blast
  then show "\<exists>node' v'. ni_dbus_deserialize_xml env v t node = Some (True, node') \<and> xn_name node' = xn_name node
     \<and> (\<not> is_union t \<longrightarrow> xn_attrs node' = xn_attrs node)
     \<and> ni_dbus_serialize_xml env node' t ni_dbus_variant_init = Some (True, v') \<and> holds t d v'"
    by (intro exI [of _ "xml_node_set_children node cs"] exI [of _ v']) (simp del: ni_dbus_serialize_xml.simps ni_dbus_deserialize_xml.simps)
qed

lemma round_dicts:
  assumes t: "xt_info t = Xs_array el en mn mx None" and el: "is_dict el" "array_element_name en el \<noteq> None"
    and v: "ni_dbus_variant_is_dict_array v" "holds_variants vs v" and IH: "round_elements el ds vs"
  shows "round_trip t (X_dicts ds) v"
proof (rule round_trip_children)
  fix env and node :: xml_node assume node: "xn_children node = []"
  obtain b where b: "v_len v = length vs" "variant_array_value v = Some b" "take (length vs) b = vs" using v(2) by (auto simp: holds_variants_def)
  have lb: "length vs \<le> length b" using arg_cong [OF b(3), of length] by simp
  have sc: "\<not> is_scalar el" using el by (auto simp: is_scalar_def is_dict_def split: xs_info.splits)
  obtain cs where cs: "deserialize_xml_elements env vs en el node = Some (True, xml_node_set_children node cs)"
      "\<And>w ws. has_dicts w ws \<Longrightarrow> \<exists>v' ws'. serialize_xml_elements env cs el w = Some (True, v') \<and> has_dicts v' (ws @ ws') \<and> holds_elements el ds ws'"
    using IH el node unfolding round_elements_def by (metis append_Nil)
  let ?w = "Variant DBUS_TYPE_ARRAY DBUS_TYPE_INVALID (Some NI_DBUS_DICT_SIGNATURE) 0 (Raw 0)"
  have "ni_xs_type_to_dbus_signature t = Some (Some (DBUS_TYPE_ARRAY # NI_DBUS_DICT_SIGNATURE))"
    using t el(1) by (cases t; cases el) (auto simp: ni_xs_type_to_dbus_signature_def is_dict_def NI_DBUS_DICT_SIGNATURE_def split: xs_info.splits)
  then have i: "init_for_type ni_dbus_variant_init t = Some (True, ?w)"
    by (auto simp: init_for_type_def ni_dbus_variant_init_signature_def ni_dbus_variant_destroy_def NI_DBUS_DICT_SIGNATURE_def
        u_ni_dbus_init_array_signature_def ni_dbus_variant_init_def with_type_def with_elements_def)
  have "has_dicts ?w []" by (simp add: has_dicts_def variant_array_value_def)
  then obtain v' ws' where v': "serialize_xml_elements env cs el ?w = Some (True, v')" "has_dicts v' ws'" "holds_elements el ds ws'"
    using cs(2) [of ?w "[]"] by auto
  have "ni_dbus_deserialize_xml env v t node = Some (True, xml_node_set_children node cs)"
    using t sc el(1) v(1) b lb cs(1) by (simp add: mem_read_in)
  moreover have "ni_dbus_serialize_xml env (xml_node_set_children node cs) t ni_dbus_variant_init = Some (True, v')"
    using t i v'(1) by simp
  moreover have "holds t (X_dicts ds) v'"
    using t el has_dicts_holds [OF v'(2)] v'(3) by (intro holds_holds_elements_holds_members.holds_dicts) auto
  ultimately show "\<exists>cs v'. ni_dbus_deserialize_xml env v t node = Some (True, xml_node_set_children node cs)
     \<and> ni_dbus_serialize_xml env (xml_node_set_children node cs) t ni_dbus_variant_init = Some (True, v') \<and> holds t (X_dicts ds) v'"
    by blast
qed

lemma round_dict:
  assumes t: "xt_info t = Xs_dict ms gs" and v: "holds_dict es v" and IH: "round_members ms kds es"
  shows "round_trip t (X_dict kds) v"
proof (rule round_trip_children)
  fix env and node :: xml_node assume node: "xn_children node = []"
  obtain b where b: "ni_dbus_variant_is_dict v" "v_len v = length es" "dict_array_value v = Some b" "take (length es) b = es"
    using v by (auto simp: holds_dict_def)
  have lb: "length es \<le> length b" using arg_cong [OF b(4), of length] by simp
  obtain cs where cs: "deserialize_xml_members env es ms node = Some (True, xml_node_set_children node cs)"
      "\<And>d es0. has_entries d es0 \<Longrightarrow> \<exists>d' es'. serialize_xml_members env cs ms d = Some (True, d') \<and> has_entries d' (es0 @ es') \<and> holds_members ms kds es'"
    using IH node unfolding round_members_def by (metis append_Nil)
  obtain d0 where d0: "ni_dbus_variant_init_dict ni_dbus_variant_init = Some d0" "has_entries d0 []"
    using has_entries_new [of ni_dbus_variant_init] by (auto simp: ni_dbus_variant_init_def)
  obtain d' es' where d': "serialize_xml_members env cs ms d0 = Some (True, d')" "has_entries d' es'" "holds_members ms kds es'"
    using cs(2) [OF d0(2)] by auto
  have "ni_dbus_deserialize_xml env v t node = Some (True, xml_node_set_children node cs)"
    using t b lb cs(1) by (simp add: mem_read_in)
  moreover have "ni_dbus_serialize_xml env (xml_node_set_children node cs) t ni_dbus_variant_init = Some (True, d')"
    using t d0(1) d'(1) by simp
  moreover have "holds t (X_dict kds) d'"
    using t has_entries_holds [OF d'(2)] d'(3) by (rule holds_holds_elements_holds_members.holds_dct)
  ultimately show "\<exists>cs v'. ni_dbus_deserialize_xml env v t node = Some (True, xml_node_set_children node cs)
     \<and> ni_dbus_serialize_xml env (xml_node_set_children node cs) t ni_dbus_variant_init = Some (True, v') \<and> holds t (X_dict kds) v'"
    by blast
qed

lemma get_added_attr: "xml_node_get_attr (xml_node_add_attr node a x) a = x"
proof -
  have "find (\<lambda>p. fst p = a) (attrs_set as a x) = Some (a, x)" for as by (induction as) auto
  then show ?thesis by (simp add: xml_node_get_attr_def u_xml_node_get_attr_def xml_node_add_attr_def)
qed

lemma union_type_of:
  assumes "xn_attrs n = xn_attrs (xml_node_add_attr node discriminant (Some kind))" "u_ni_xs_name_type_array_find ms kind = Some (Some ct)"
  shows "u_ni_dbus_xml_union_type n ms discriminant = Some (Some (ct, kind))"
proof -
  have "xml_node_get_attr n discriminant = Some kind"
    using get_added_attr [of node discriminant "Some kind"] assms(1) by (simp add: xml_node_get_attr_def u_xml_node_get_attr_def)
  then show ?thesis using assms(2) by (simp add: u_ni_dbus_xml_union_type_def)
qed

lemma struct_get_member:
  assumes "v_type v = DBUS_TYPE_STRUCT" "holds_variants vs v"
  shows "i < length vs \<Longrightarrow> ni_dbus_struct_get v i = Some (Some (vs ! i))"
proof -
  assume i: "i < length vs"
  obtain b where b: "v_len v = length vs" "variant_array_value v = Some b" "take (length vs) b = vs" using assms(2) by (auto simp: holds_variants_def)
  have "length vs \<le> length b" using arg_cong [OF b(3), of length] by simp
  moreover have "b ! i = vs ! i" using arg_cong [OF b(3), of "\<lambda>l. l ! i"] i by simp
  ultimately show ?thesis using assms(1) b(1,2) i by (simp add: ni_dbus_struct_get_def arr_get_in)
qed

lemma struct_with_holds:
  "v_type (struct_with kind n x) = DBUS_TYPE_STRUCT"
  "holds_variants [with_value 0 (Str kind) (with_type DBUS_TYPE_STRING ni_dbus_variant_init)] (struct_with kind 1 y)"
  "holds_variants [with_value 0 (Str kind) (with_type DBUS_TYPE_STRING ni_dbus_variant_init), x] (struct_with kind 2 x)"
  "ni_dbus_variant_get_string (with_value 0 (Str kind) (with_type DBUS_TYPE_STRING ni_dbus_variant_init)) = Some (Some (Some kind))"
  by (simp_all add: holds_variants_def struct_string(4)) (simp_all add: struct_with_def ni_dbus_variant_get_string_def string_value_def)

lemma round_void:
  assumes t: "xt_info t = Xs_union ms discriminant" and v: "v_type v = DBUS_TYPE_STRUCT" "holds_variants (k # vs) v"
    and k: "ni_dbus_variant_get_string k = Some (Some (Some kind))" and ct: "u_ni_xs_name_type_array_find ms kind = Some (Some ct)" "is_void ct"
  shows "round_trip t (X_union kind None) v"
  unfolding round_trip_def
proof (intro allI impI)
  fix env and node :: xml_node assume "xn_children node = []"
  let ?n = "xml_node_add_attr node discriminant (Some kind)"
  have u: "u_ni_dbus_xml_union_type ?n ms discriminant = Some (Some (ct, kind))" by (rule union_type_of [OF refl ct(1)])
  have "ni_dbus_struct_get_string v 0 = Some (Some (Some kind))"
    using struct_get_member [OF v, of 0] k by (simp add: ni_dbus_struct_get_string_def)
  then have "ni_dbus_deserialize_xml env v t node = Some (True, ?n)" using t u ct(2) by simp
  moreover have "ni_dbus_serialize_xml env ?n t ni_dbus_variant_init = Some (True, struct_with kind 1 ni_dbus_variant_init)"
    using t u ct(2) by (simp add: struct_string(1,2))
  moreover have "holds t (X_union kind None) (struct_with kind 1 ni_dbus_variant_init)"
    by (rule holds_holds_elements_holds_members.holds_void [OF t struct_with_holds(1,2,4) ct])
  moreover have "is_union t" "xn_name ?n = xn_name node" using t by (simp_all add: is_union_def xml_node_add_attr_def)
  ultimately show "\<exists>node' v'. ni_dbus_deserialize_xml env v t node = Some (True, node') \<and> xn_name node' = xn_name node
     \<and> (\<not> is_union t \<longrightarrow> xn_attrs node' = xn_attrs node)
     \<and> ni_dbus_serialize_xml env node' t ni_dbus_variant_init = Some (True, v') \<and> holds t (X_union kind None) v'"
    by blast
qed

lemma round_union:
  assumes t: "xt_info t = Xs_union ms discriminant" and v: "v_type v = DBUS_TYPE_STRUCT" "holds_variants (k # c # vs) v"
    and k: "ni_dbus_variant_get_string k = Some (Some (Some kind))" and ct: "u_ni_xs_name_type_array_find ms kind = Some (Some ct)" "\<not> is_void ct" "\<not> is_union ct"
    and IH: "round_trip ct d c"
  shows "round_trip t (X_union kind (Some d)) v"
  unfolding round_trip_def
proof (intro allI impI)
  fix env and node :: xml_node assume node: "xn_children node = []"
  let ?n = "xml_node_add_attr node discriminant (Some kind)"
  have "xn_children ?n = []" using node by (simp add: xml_node_add_attr_def)
  then obtain n x where n: "ni_dbus_deserialize_xml env c ct ?n = Some (True, n)" "xn_name n = xn_name ?n" "xn_attrs n = xn_attrs ?n"
      "ni_dbus_serialize_xml env n ct ni_dbus_variant_init = Some (True, x)" "holds ct d x"
    using IH ct(3) unfolding round_trip_def by blast
  have u: "u_ni_dbus_xml_union_type ?n ms discriminant = Some (Some (ct, kind))" "u_ni_dbus_xml_union_type n ms discriminant = Some (Some (ct, kind))"
    using union_type_of [OF _ ct(1)] n(3) by blast+
  have "ni_dbus_struct_get_string v 0 = Some (Some (Some kind))" "ni_dbus_struct_get v 1 = Some (Some c)"
    using struct_get_member [OF v, of 0] struct_get_member [OF v, of 1] k by (simp_all add: ni_dbus_struct_get_string_def)
  then have "ni_dbus_deserialize_xml env v t node = Some (True, n)"
    using t u(1) ct(2) n(1) by (subst ni_dbus_deserialize_xml.simps) (simp del: ni_dbus_deserialize_xml.simps)
  moreover have "ni_dbus_serialize_xml env n t ni_dbus_variant_init = Some (True, struct_with kind 2 x)"
    using t u(2) ct(2) n(4) struct_string(5) [of kind ni_dbus_variant_init x]
    by (subst ni_dbus_serialize_xml.simps)
      (simp del: ni_dbus_serialize_xml.simps add: struct_string(1-4) [simplified] arr_get_def)
  moreover have "holds t (X_union kind (Some d)) (struct_with kind 2 x)"
    by (rule holds_holds_elements_holds_members.holds_union [OF t struct_with_holds(1,3,4) ct n(5)])
  moreover have "is_union t" "xn_name n = xn_name node" using t n(2) by (simp_all add: is_union_def xml_node_add_attr_def)
  ultimately show "\<exists>node' v'. ni_dbus_deserialize_xml env v t node = Some (True, node') \<and> xn_name node' = xn_name node
     \<and> (\<not> is_union t \<longrightarrow> xn_attrs node' = xn_attrs node)
     \<and> ni_dbus_serialize_xml env node' t ni_dbus_variant_init = Some (True, v') \<and> holds t (X_union kind (Some d)) v'"
    by blast
qed

lemma round_more_elements:
  assumes "round_trip el d v" "round_elements el ds vs"
  shows "round_elements el (d # ds) (v # vs)"
  unfolding round_elements_def
proof (intro allI impI)
  fix env en and node :: xml_node assume a: "array_element_name en el \<noteq> None \<and> is_dict el"
  then obtain name where name: "array_element_name en el = Some name" by auto
  obtain child x where c: "ni_dbus_deserialize_xml env v el (xml_node_new (Some name)) = Some (True, child)"
      "ni_dbus_serialize_xml env child el ni_dbus_variant_init = Some (True, x)" "holds el d x"
    using assms(1) unfolding round_trip_def by (metis xml_node_new_sel(4))
  obtain cs where cs: "deserialize_xml_elements env vs en el (xml_node_add_child node child)
        = Some (True, xml_node_set_children (xml_node_add_child node child) (xn_children (xml_node_add_child node child) @ cs))"
      "\<And>v ws. has_dicts v ws \<Longrightarrow> \<exists>v' ws'. serialize_xml_elements env cs el v = Some (True, v') \<and> has_dicts v' (ws @ ws') \<and> holds_elements el ds ws'"
    using assms(2) a unfolding round_elements_def by metis
  have "\<exists>v' ws'. serialize_xml_elements env (child # cs) el w = Some (True, v') \<and> has_dicts v' (ws @ ws') \<and> holds_elements el (d # ds) ws'"
    if h: "has_dicts w ws" for w ws
  proof -
    obtain w1 where w1: "serialize_xml_elements env (child # cs) el w = serialize_xml_elements env cs el w1" "has_dicts w1 (ws @ [x])"
      using add_dict_element [OF h _ c(2)] a by blast
    obtain v' ws' where "serialize_xml_elements env cs el w1 = Some (True, v')" "has_dicts v' ((ws @ [x]) @ ws')" "holds_elements el ds ws'"
      using cs(2) [OF w1(2)] by blast
    then show ?thesis using w1(1) holds_more_elements [OF c(3)] by (intro exI [of _ v'] exI [of _ "x # ws'"]) simp
  qed
  moreover have "deserialize_xml_elements env (v # vs) en el node = Some (True, xml_node_set_children node (xn_children node @ child # cs))"
    using name c(1) cs(1) by (simp add: xml_node_add_child_def xml_node_set_children_def del: ni_dbus_deserialize_xml.simps)
  ultimately show "\<exists>cs. deserialize_xml_elements env (v # vs) en el node = Some (True, xml_node_set_children node (xn_children node @ cs))
     \<and> (\<forall>w ws. has_dicts w ws \<longrightarrow> (\<exists>v' ws'. serialize_xml_elements env cs el w = Some (True, v') \<and> has_dicts v' (ws @ ws') \<and> holds_elements el (d # ds) ws'))"
    by blast
qed

lemma round_more_members:
  assumes f: "u_ni_xs_name_type_array_find ms key = Some (Some t)" and v: "round_trip t d v" and rest: "round_members ms kds es"
  shows "round_members ms ((key, d) # kds) (Entry (Some key) v # es)"
  unfolding round_members_def
proof (intro allI)
  fix env and node :: xml_node
  obtain child x where c: "ni_dbus_deserialize_xml env v t (xml_node_new (Some key)) = Some (True, child)" "xn_name child = Some key"
      "ni_dbus_serialize_xml env child t ni_dbus_variant_init = Some (True, x)" "holds t d x"
    using v unfolding round_trip_def by (metis xml_node_new_sel(1,4))
  obtain cs where cs: "deserialize_xml_members env es ms (xml_node_add_child node child)
        = Some (True, xml_node_set_children (xml_node_add_child node child) (xn_children (xml_node_add_child node child) @ cs))"
      "\<And>d es0. has_entries d es0 \<Longrightarrow> \<exists>d' es'. serialize_xml_members env cs ms d = Some (True, d') \<and> has_entries d' (es0 @ es') \<and> holds_members ms kds es'"
    using rest unfolding round_members_def by metis
  have "\<exists>d' es'. serialize_xml_members env (child # cs) ms w = Some (True, d') \<and> has_entries d' (es0 @ es') \<and> holds_members ms ((key, d) # kds) es'"
    if h: "has_entries w es0" for w es0
  proof -
    obtain w1 where w1: "serialize_xml_members env (child # cs) ms w = serialize_xml_members env cs ms w1" "has_entries w1 (es0 @ [Entry (Some key) x])"
      using add_dict_member [OF h f c(2,3)] by blast
    obtain d' es' where "serialize_xml_members env cs ms w1 = Some (True, d')" "has_entries d' ((es0 @ [Entry (Some key) x]) @ es')" "holds_members ms kds es'"
      using cs(2) [OF w1(2)] by blast
    then show ?thesis using w1(1) holds_more_members [OF f c(4)] by (intro exI [of _ d'] exI [of _ "Entry (Some key) x # es'"]) simp
  qed
  moreover have "member_type ms (Some key) = Some (Some t)"
    using f by (cases ms) (simp_all add: member_type_def del: u_ni_xs_name_type_array_find.simps(2))
  then have "deserialize_xml_members env (Entry (Some key) v # es) ms node = Some (True, xml_node_set_children node (xn_children node @ child # cs))"
    using c(1) cs(1) by (simp add: xml_node_add_child_def xml_node_set_children_def del: ni_dbus_deserialize_xml.simps)
  ultimately show "\<exists>cs. deserialize_xml_members env (Entry (Some key) v # es) ms node = Some (True, xml_node_set_children node (xn_children node @ cs))
     \<and> (\<forall>w es0. has_entries w es0 \<longrightarrow> (\<exists>d' es'. serialize_xml_members env cs ms w = Some (True, d') \<and> has_entries d' (es0 @ es')
          \<and> holds_members ms ((key, d) # kds) es'))"
    by blast
qed

lemma holds_round_trip:
  "holds t d v \<Longrightarrow> round_trip t d v" "holds_elements el ds vs \<Longrightarrow> round_elements el ds vs" "holds_members ms kds es \<Longrightarrow> round_members ms kds es"
proof (induction rule: holds_holds_elements_holds_members.inducts)
  case (holds_flag t nm en r bm v)
  show ?case
  proof (rule round_trip_children)
    fix env and node :: xml_node assume n: "xn_children node = []"
    have e: "xml_node_set_children node [] = node" using n by (cases node) (simp add: xml_node_set_children_def)
    obtain v' where "ni_dbus_deserialize_xml env v t node = Some (True, node)"
      "ni_dbus_serialize_xml env node t ni_dbus_variant_init = Some (True, v')" "v_type v' = DBUS_TYPE_BYTE"
      using round_flag [OF holds_flag] by blast
    then show "\<exists>cs v'. ni_dbus_deserialize_xml env v t node = Some (True, xml_node_set_children node cs)
       \<and> ni_dbus_serialize_xml env (xml_node_set_children node cs) t ni_dbus_variant_init = Some (True, v') \<and> holds t X_flag v'"
      using holds_holds_elements_holds_members.holds_flag [OF holds_flag(1)] e by metis
  qed
next
  case (holds_num t nm ty r x v)
  show ?case using round_num [OF holds_num] holds_holds_elements_holds_members.holds_num [OF holds_num(1,2)]
    by (intro round_trip_cdata) blast
next
  case (holds_enum t nm ty names r x v)
  show ?case using round_enum [OF holds_enum] holds_holds_elements_holds_members.holds_enum [OF holds_enum(1,2) _ holds_enum(4)]
    by (intro round_trip_cdata) blast
next
  case (holds_bitmap t nm ty en r bits x v)
  show ?case using round_bitmap [OF holds_bitmap] holds_holds_elements_holds_members.holds_bitmap [OF holds_bitmap(1,2) _ holds_bitmap(4)]
    by (intro round_trip_children) blast
next
  case (holds_text t nm r v s)
  have "holds t (X_text s) (with_value 0 (Str s) (with_type DBUS_TYPE_STRING ni_dbus_variant_init))"
    by (rule holds_holds_elements_holds_members.holds_text [OF holds_text(1)]) simp_all
  then show ?case using round_text [OF holds_text] by (intro round_trip_cdata) blast
next
  case (holds_strs t el en mn mx nm ty e r bm ss v)
  show ?case using round_strings [OF holds_strs] holds_holds_elements_holds_members.holds_strs [OF holds_strs(1-4)]
    by (intro round_trip_children) blast
next
  case (holds_byts t el en mn mx nm e r bm bs v)
  show ?case using round_bytes [OF holds_byts] holds_holds_elements_holds_members.holds_byts [OF holds_byts(1-3)]
    by (intro round_trip_children) blast
next
  case (holds_uuid t el en mn mx bs v)
  show ?case using round_uuid [OF holds_uuid] holds_holds_elements_holds_members.holds_uuid [OF holds_uuid(1) _ holds_uuid(3)]
    by (intro round_trip_cdata) blast
next
  case (holds_dicts t el en mn mx v vs ds)
  show ?case by (rule round_dicts [OF holds_dicts(1-5) holds_dicts(7)])
next
  case (holds_dct t ms gs es v kds)
  show ?case by (rule round_dict [OF holds_dct(1,2,4)])
next
  case (holds_void t ms discriminant v k vs kind ct)
  show ?case by (rule round_void [OF holds_void])
next
  case (holds_union t ms discriminant v k c vs kind ct d)
  show ?case by (rule round_union [OF holds_union(1-7) holds_union(9)])
next
  case (holds_no_elements el)
  have "xml_node_set_children node (xn_children node) = node" for node by (cases node) (simp add: xml_node_set_children_def)
  then show ?case unfolding round_elements_def
    using holds_holds_elements_holds_members.holds_no_elements by (intro allI impI exI [of _ "[]"]) force
next
  case (holds_more_elements el d v ds vs)
  show ?case by (rule round_more_elements [OF holds_more_elements(3,4)])
next
  case (holds_no_members ms)
  have "xml_node_set_children node (xn_children node) = node" for node by (cases node) (simp add: xml_node_set_children_def)
  then show ?case unfolding round_members_def
    using holds_holds_elements_holds_members.holds_no_members by (intro allI impI exI [of _ "[]"]) force
next
  case (holds_more_members ms key t d v kds es)
  show ?case by (rule round_more_members [OF holds_more_members(1,4,5)])
qed

subsection \<open>The data are determined by the variant\<close>

inductive_cases holds_elims: "holds t d v"
inductive_cases holds_elements_elims: "holds_elements el ds vs"
inductive_cases holds_members_elims: "holds_members ms kds es"

lemma holds_block_unique:
  "holds_strings ty ss v \<Longrightarrow> holds_strings ty' ss' v \<Longrightarrow> ss' = ss"
  "holds_bytes bs v \<Longrightarrow> holds_bytes bs' v \<Longrightarrow> bs' = bs"
  "holds_variants vs v \<Longrightarrow> holds_variants vs' v \<Longrightarrow> vs' = vs"
  "holds_dict es v \<Longrightarrow> holds_dict es' v \<Longrightarrow> es' = es"
proof -
  assume "holds_strings ty ss v" "holds_strings ty' ss' v"
  then have "map Some ss' = map Some ss" unfolding holds_strings_def by (metis option.inject)
  then show "ss' = ss" by simp
next
  assume "holds_bytes bs v" "holds_bytes bs' v"
  then show "bs' = bs" unfolding holds_bytes_def by (metis option.inject)
next
  assume "holds_variants vs v" "holds_variants vs' v"
  then show "vs' = vs" unfolding holds_variants_def by (metis option.inject)
next
  assume "holds_dict es v" "holds_dict es' v"
  then show "es' = es" unfolding holds_dict_def by (metis option.inject)
qed

lemma holds_unique:
  "holds t d v \<Longrightarrow> \<forall>d'. holds t d' v \<longrightarrow> d' = d"
  "holds_elements el ds vs \<Longrightarrow> \<forall>ds'. holds_elements el ds' vs \<longrightarrow> ds' = ds"
  "holds_members ms kds es \<Longrightarrow> \<forall>kds'. holds_members ms kds' es \<longrightarrow> kds' = kds"
proof (induction rule: holds_holds_elements_holds_members.inducts)
  case H: (holds_flag t nm en r bm v)
  show ?case by (intro allI impI, erule holds_elims) (use H in \<open>auto simp: is_int_type_def\<close>)
next
  case H: (holds_num t nm ty r x v)
  show ?case by (intro allI impI, erule holds_elims) (use H in \<open>auto simp: is_int_type_def holds_number_def\<close>)
next
  case H: (holds_enum t nm ty names r x v)
  show ?case by (intro allI impI, erule holds_elims) (use H in \<open>auto simp: is_int_type_def holds_number_def\<close>)
next
  case H: (holds_bitmap t nm ty en r bits x v)
  show ?case by (intro allI impI, erule holds_elims) (use H in \<open>auto simp: is_int_type_def holds_number_def\<close>)
next
  case H: (holds_text t nm r v s)
  show ?case by (intro allI impI, erule holds_elims) (use H in \<open>auto simp: is_int_type_def holds_number_def\<close>)
next
  case H: (holds_strs t el en mn mx nm ty e r bm ss v)
  show ?case by (intro allI impI, erule holds_elims) (use H in \<open>auto simp: is_dict_def dest: holds_block_unique(1)\<close>)
next
  case H: (holds_byts t el en mn mx nm e r bm bs v)
  show ?case by (intro allI impI, erule holds_elims) (use H in \<open>auto simp: is_dict_def dest: holds_block_unique(2)\<close>)
next
  case H: (holds_uuid t el en mn mx bs v)
  show ?case by (intro allI impI, erule holds_elims) (use H in \<open>auto dest: holds_block_unique(2)\<close>)
next
  case H: (holds_dicts t el en mn mx v vs ds)
  have ns: "xt_info el \<noteq> Xs_scalar nm ty e r bm" for nm ty e r bm using H(2) by (auto simp: is_dict_def)
  have "holds t d' v \<Longrightarrow> \<exists>ds'. d' = X_dicts ds' \<and> holds_elements el ds' vs" for d'
    by (erule holds_elims; insert H(1); simp) (use ns holds_block_unique(3) [OF H(5)] in blast)+
  then show ?case using H(7) by blast
next
  case H: (holds_dct t ms gs es v kds)
  have "holds t d' v \<Longrightarrow> \<exists>kds'. d' = X_dict kds' \<and> holds_members ms kds' es" for d'
    by (erule holds_elims; insert H(1); simp) (use holds_block_unique(4) [OF H(2)] in blast)
  then show ?case using H(4) by blast
next
  case H: (holds_void t ms discriminant v k vs kind ct)
  show ?case by (intro allI impI, erule holds_elims) (use H in \<open>auto dest!: holds_block_unique(3) [OF H(3)]\<close>)
next
  case H: (holds_union t ms discriminant v k c vs kind ct d)
  have f: "holds t d' v \<Longrightarrow> \<exists>d''. d' = X_union kind (Some d'') \<and> holds ct d'' c" for d'
    by (erule holds_elims) (use H(1-7) in \<open>auto dest!: holds_block_unique(3) [OF H(3)]\<close>)
  show ?case using f H(9) by blast
next
  case H: (holds_more_elements el d v ds vs)
  show ?case by (intro allI impI, erule holds_elements_elims, simp) (use H(3,4) in blast)
next
  case H: (holds_more_members ms key t d v kds es)
  show ?case by (intro allI impI, erule holds_members_elims, simp) (use H(1,4,5) in force)
next
  case (holds_no_elements el)
  show ?case by (intro allI impI) (erule holds_elements_elims, auto)
next
  case (holds_no_members ms)
  show ?case by (intro allI impI) (erule holds_members_elims, auto)
qed

text \<open>C5: Data survive their XML form.  For a schema type of scalars, enumerations, bitmaps, arrays, UUIDs,
  dicts and unions, nested in any way, and a variant that holds data of it, \<open>ni_dbus_deserialize_xml\<close> writes a node, and
  \<open>ni_dbus_serialize_xml\<close> makes of this node a variant that holds the same data and no other.\<close>

theorem ni_dbus_xml_roundtrip:
  assumes "holds t d v" and "xn_children node = []"
  shows "\<exists>node' v'. ni_dbus_deserialize_xml env v t node = Some (True, node')
     \<and> ni_dbus_serialize_xml env node' t ni_dbus_variant_init = Some (True, v') \<and> (\<forall>d'. holds t d' v' \<longleftrightarrow> d' = d)"
proof -
  obtain node' v' where n: "ni_dbus_deserialize_xml env v t node = Some (True, node')"
      "ni_dbus_serialize_xml env node' t ni_dbus_variant_init = Some (True, v')" "holds t d v'"
    using holds_round_trip(1) [OF assms(1)] assms(2) unfolding round_trip_def by blast
  moreover have "\<forall>d'. holds t d' v' \<longleftrightarrow> d' = d" using holds_unique(1) [OF n(3)] n(3) by blast
  ultimately show ?thesis by blast
qed

definition sample_string :: ni_xs_type where "sample_string = ni_xs_scalar_new ''string'' DBUS_TYPE_STRING"
definition sample_mode :: ni_xs_type where
  "sample_mode = u_ni_xs_type_new (Xs_scalar ''uint32'' DBUS_TYPE_UINT32 (Some [\<lparr>im_name = ''off'', im_value = 0\<rparr>, \<lparr>im_name = ''on'', im_value = 1\<rparr>]) None None)"
definition sample_dict :: ni_xs_type where
  "sample_dict = ni_xs_dict_new [Name_type (Some ''tags'') (ni_xs_array_new sample_string (Some ''tag'') 0 0) None, Name_type (Some ''mode'') sample_mode None]"
definition sample_variant :: ni_dbus_variant where
  "sample_variant = Variant DBUS_TYPE_ARRAY DBUS_TYPE_DICT_ENTRY None 2 (DictArr
     [Entry (Some ''mode'') (Variant DBUS_TYPE_UINT32 DBUS_TYPE_INVALID None 0 (Raw 1)),
      Entry (Some ''tags'') (Variant DBUS_TYPE_ARRAY DBUS_TYPE_STRING None 2 (StrArr [Some ''a'', Some ''b'']))])"

lemma sample_holds: "holds sample_dict (X_dict [(''mode'', X_num 1), (''tags'', X_strings [''a'', ''b''])]) sample_variant"
proof -
  let ?ms = "[Name_type (Some ''tags'') (ni_xs_array_new sample_string (Some ''tag'') 0 0) None, Name_type (Some ''mode'') sample_mode None]"
  let ?m = "Variant DBUS_TYPE_UINT32 DBUS_TYPE_INVALID None 0 (Raw 1)"
  let ?t = "Variant DBUS_TYPE_ARRAY DBUS_TYPE_STRING None 2 (StrArr [Some ''a'', Some ''b''])"
  have "holds sample_mode (X_num (ucast (1 :: u32))) ?m"
    by (rule holds_enum [where ty = DBUS_TYPE_UINT32 and nm = "''uint32''" and r = None
          and names = "[\<lparr>im_name = ''off'', im_value = 0\<rparr>, \<lparr>im_name = ''on'', im_value = 1\<rparr>]"])
      (simp_all add: sample_mode_def u_ni_xs_type_new_def is_int_type_def holds_number_def cast_switch_get_def read_bits_def
        names_number_def strcasecmp_eq_def)
  then have m: "holds sample_mode (X_num 1) ?m" by simp
  have t: "holds (ni_xs_array_new sample_string (Some ''tag'') 0 0) (X_strings [''a'', ''b'']) ?t"
    by (rule holds_strs [where el = sample_string and ty = DBUS_TYPE_STRING and en = "Some ''tag''" and nm = "''string''" and e = None and r = None and bm = None
          and mn = 0 and mx = 0])
      (simp_all add: ni_xs_array_new_def sample_string_def ni_xs_scalar_new_def u_ni_xs_type_new_def array_element_name_def holds_strings_def
        string_array_value_def)
  have "holds_members ?ms [(''mode'', X_num 1), (''tags'', X_strings [''a'', ''b''])] [Entry (Some ''mode'') ?m, Entry (Some ''tags'') ?t]"
    by (rule holds_more_members [OF _ m holds_more_members [OF _ t holds_no_members]]) simp_all
  then show ?thesis
    by (rule holds_dct [where gs = "[]" and ms = ?ms, rotated 2])
      (simp_all add: sample_dict_def ni_xs_dict_new_def u_ni_xs_type_new_def sample_variant_def holds_dict_def ni_dbus_variant_is_dict_def
        u_ni_dbus_is_array_def dict_array_value_def)
qed

lemma ni_dbus_xml_roundtrip_witness:
  "\<forall>env. \<exists>node' v'. ni_dbus_deserialize_xml env sample_variant sample_dict (xml_node_new (Some ''arg'')) = Some (True, node')
     \<and> ni_dbus_serialize_xml env node' sample_dict ni_dbus_variant_init = Some (True, v')
     \<and> (\<forall>d'. holds sample_dict d' v' \<longleftrightarrow> d' = X_dict [(''mode'', X_num 1), (''tags'', X_strings [''a'', ''b''])])"
  by (intro allI ni_dbus_xml_roundtrip [OF sample_holds]) simp

section \<open>What does not survive\<close>

text \<open>A scalar object path is read as a string: \<open>ni_dbus_variant_parse\<close> stores it with \<open>ni_dbus_variant_set_string\<close>.\<close>

lemma object_path_becomes_string:
  assumes t: "xt_info t = Xs_scalar nm DBUS_TYPE_OBJECT_PATH None r None"
  shows "\<exists>v. ni_dbus_serialize_xml env (xml_node_set_cdata node (Some s)) t ni_dbus_variant_init = Some (True, v) \<and> v_type v = DBUS_TYPE_STRING"
proof -
  have "u_ni_dbus_variant_change_type (with_type DBUS_TYPE_OBJECT_PATH ni_dbus_variant_init) DBUS_TYPE_STRING
      = Some (with_type DBUS_TYPE_STRING ni_dbus_variant_init)"
    by (simp add: u_ni_dbus_variant_change_type_def ni_dbus_variant_destroy_def ni_dbus_variant_init_def with_type_def frees_string_def)
  then show ?thesis using t signature_scalar [OF t]
    by (simp add: ni_dbus_serialize_xml_scalar_def ni_dbus_variant_parse_def ni_dbus_variant_set_string_def dup_string_fresh)
qed

text \<open>Bit 31 of a bitmap sets the upper half of a 64-bit number too.\<close>

lemma bit_31_extends: "bit_mask 31 = 0xffffffff80000000"
  by code_simp

text \<open>An array of unions has no signature, and NULL is passed on.\<close>

lemma array_of_unions_faults:
  assumes "xt_info t = Xs_array el en mn mx None" and "is_union el"
  shows "ni_dbus_serialize_xml env node t ni_dbus_variant_init = None"
  using assms by (cases t; cases el) (auto simp: is_union_def init_for_type_def ni_xs_type_to_dbus_signature_def split: xs_info.splits)

text \<open>A range with a limit is a fault, and so is a group in a place without groups.\<close>

lemma range_constraint_faults: "xml_node_get_attr node ''min'' \<noteq> None \<Longrightarrow> ni_xs_build_range_constraint node = None"
  by (simp add: ni_xs_build_range_constraint_def)

lemma group_constraint_faults:
  "xt_group t = None \<Longrightarrow> apply_constraint node (''required:'' @ name) t None k = None"
  by (simp add: apply_constraint_def ni_xs_group_get_def)

end
