(* ===== verification/SchemaScopes.thy ===== *)
theory SchemaScopes
  imports SchemaCalls
begin

text \<open>
  What the schema parser keeps: scopes are closed in the order they were opened, no type is defined twice in a
  scope, and the name of a type always stands for the type it was defined as.  Of constants, services, classes and the
  scopes inside, several may have one name.
\<close>

section \<open>Growth of scopes\<close>

definition scope_grows :: "ni_xs_scope \<Rightarrow> ni_xs_scope \<Rightarrow> bool" where
  "scope_grows s s' \<longleftrightarrow> sc_name s' = sc_name s \<and> prefix (sc_types s) (sc_types s') \<and> prefix (sc_services s) (sc_services s')
     \<and> prefix (sc_classes s) (sc_classes s') \<and> prefix (sc_children s) (sc_children s')"

text \<open>Type definitions have names, distinct within a scope; so it is in the scopes inside, which have names themselves.\<close>

fun scope_wf :: "ni_xs_scope \<Rightarrow> bool" where
  "scope_wf (Xs_scope name types services classes constants children) \<longleftrightarrow>
     list_all (\<lambda>d. nt_name d \<noteq> None) types \<and> distinct (map nt_name types)
     \<and> list_all (\<lambda>c. sc_name c \<noteq> None) children \<and> list_all scope_wf children"

lemma scope_wf_iff:
  "scope_wf s \<longleftrightarrow> list_all (\<lambda>d. nt_name d \<noteq> None) (sc_types s) \<and> distinct (map nt_name (sc_types s))
     \<and> list_all (\<lambda>c. sc_name c \<noteq> None) (sc_children s) \<and> list_all scope_wf (sc_children s)"
  by (cases s) simp

definition keeps :: "xs_state \<Rightarrow> xs_state \<Rightarrow> bool" where
  "keeps st st' \<longleftrightarrow> (st_scopes st \<noteq> [] \<longrightarrow> list_all2 scope_grows (st_scopes st) (st_scopes st')
     \<and> (list_all scope_wf (st_scopes st) \<longrightarrow> list_all scope_wf (st_scopes st')))"

lemma scope_grows_refl [simp]: "scope_grows s s"
  by (simp add: scope_grows_def)

lemma scope_grows_trans: "scope_grows a b \<Longrightarrow> scope_grows b c \<Longrightarrow> scope_grows a c"
  unfolding scope_grows_def by (metis prefix_order.trans)

lemma keeps_refl [simp]: "keeps st st" "keeps st (st\<lparr>st_groups := k\<rparr>)"
  by (simp_all add: keeps_def list_all2_refl)

lemma keeps_trans: "keeps a b \<Longrightarrow> keeps b c \<Longrightarrow> keeps a c"
proof -
  assume a: "keeps a b" and b: "keeps b c"
  have "list_all2 scope_grows (st_scopes a) (st_scopes c) \<and> (list_all scope_wf (st_scopes a) \<longrightarrow> list_all scope_wf (st_scopes c))"
    if ne: "st_scopes a \<noteq> []"
  proof -
    have ab: "list_all2 scope_grows (st_scopes a) (st_scopes b)" using a ne by (simp add: keeps_def)
    then have ne': "st_scopes b \<noteq> []" using ne by auto
    then have "list_all2 scope_grows (st_scopes b) (st_scopes c)" using b by (simp add: keeps_def)
    then have "list_all2 scope_grows (st_scopes a) (st_scopes c)"
      using list_all2_trans [OF _ ab, of scope_grows scope_grows] scope_grows_trans by blast
    then show ?thesis using a b ne ne' by (simp add: keeps_def)
  qed
  then show "keeps a c" by (simp add: keeps_def)
qed

lemma find_none: "u_ni_xs_name_type_array_find ds name = Some None \<Longrightarrow> Some name \<notin> nt_name ` set ds"
  by (induction ds) (auto simp: bind_eq_Some_conv split: if_splits)

lemma keeps_typedef: "ni_xs_scope_typedef name t d st = Some (Some st') \<Longrightarrow> keeps st st'"
proof -
  assume h: "ni_xs_scope_typedef name t d st = Some (Some st')"
  obtain s ss where s: "st_scopes st = s # ss" using h by (cases "st_scopes st") (auto simp: ni_xs_scope_typedef_def)
  obtain t1 where r: "ni_xs_scope_lookup_local s name = Some None" "st' = on_scope (scope_add_type (Name_type (Some name) t1 d)) st"
    using h s by (auto simp: ni_xs_scope_typedef_def bind_eq_Some_conv Let_def split: option.splits)
  have "scope_wf s \<Longrightarrow> scope_wf (scope_add_type (Name_type (Some name) t1 d) s)"
    using find_none [of "sc_types s" name] r(1)
    by (auto simp: scope_wf_iff [of s] scope_wf_iff [of "scope_add_type _ _"] scope_add_type_def ni_xs_scope_lookup_local_def)
  then show ?thesis using s r(2)
    by (auto simp: keeps_def on_scope_def scope_grows_def scope_add_type_def list_all2_refl)
qed

lemma keeps_on_scope:
  assumes "\<And>s. sc_types (f s) = sc_types s \<and> sc_children (f s) = sc_children s \<and> sc_name (f s) = sc_name s
    \<and> prefix (sc_services s) (sc_services (f s)) \<and> prefix (sc_classes s) (sc_classes (f s))"
  shows "keeps st (on_scope f st)"
  using assms by (cases "st_scopes st")
    (auto simp: keeps_def on_scope_def scope_grows_def list_all2_refl scope_wf_iff)

lemma keeps_around: "keeps (open_scope name st) st1 \<Longrightarrow> keeps st (close_scope st1)"
proof -
  assume k: "keeps (open_scope name st) st1"
  show ?thesis
  proof (cases "st_scopes st")
    case (Cons s ss)
    obtain c s1 ss1 where st1: "st_scopes st1 = c # s1 # ss1" "scope_grows s s1" "list_all2 scope_grows ss ss1"
      using k Cons by (auto simp: keeps_def open_scope_def list_all2_Cons1)
    have "scope_grows s (attach c s1)" using st1(2) by (auto simp: scope_grows_def attach_def scope_add_child_def intro: prefix_order.trans)
    moreover have "list_all scope_wf (st_scopes st) \<Longrightarrow> list_all scope_wf (attach c s1 # ss1)"
    proof -
      assume "list_all scope_wf (st_scopes st)"
      then have "list_all scope_wf (c # s1 # ss1)" using k st1(1) by (simp add: keeps_def open_scope_def ni_xs_scope_new_def)
      then show "list_all scope_wf (attach c s1 # ss1)"
        by (auto simp: attach_def scope_add_child_def scope_wf_iff [of s1])
    qed
    ultimately show ?thesis using Cons st1 by (simp add: keeps_def close_scope_def)
  qed (simp add: keeps_def)
qed

lemma keeps_finish: "finish_define node name ref st = Some (Some st') \<Longrightarrow> keeps st st'"
  by (auto simp: finish_define_def bind_eq_Some_conv intro: keeps_typedef)

lemma keeps_constant: "define_constant node name st = Some (Some st') \<Longrightarrow> keeps st st'"
  by (auto simp: define_constant_def bind_eq_Some_conv scope_set_constants_def intro!: keeps_on_scope split: list.splits)

lemma keeps_simple: "ni_xs_build_simple_type node name gs st = Some (Some (ref, gs1, st')) \<Longrightarrow> keeps st st'"
  by (auto simp: ni_xs_build_simple_type_def bind_eq_Some_conv split: option.splits)


section \<open>The parser\<close>

declare ni_xs_process_define.simps [simp del] ni_xs_build_complex_type.simps [simp del] ni_xs_build_typelist.simps [simp del]
  ni_xs_build_one_type.simps [simp del]

text \<open>What holds of the result of a step that succeeds, and rules for the ways steps are put together.\<close>

definition yields :: "('a \<Rightarrow> bool) \<Rightarrow> 'a option option \<Rightarrow> bool" where
  "yields P r \<longleftrightarrow> (\<forall>x. r = Some (Some x) \<longrightarrow> P x)"

lemma yieldsD: "r = Some (Some x) \<Longrightarrow> yields P r \<Longrightarrow> P x"
  by (simp add: yields_def)

lemma yields_simps [simp]: "yields P None" "yields P (Some None)" "yields P (Some (Some x)) \<longleftrightarrow> P x"
  by (simp_all add: yields_def)

lemma yields_case: "yields P a \<Longrightarrow> (\<And>y. yields P (f y)) \<Longrightarrow> yields P (case x of None \<Rightarrow> a | Some y \<Rightarrow> f y)"
  by (cases x) auto

lemma yields_if: "yields P a \<Longrightarrow> yields P b \<Longrightarrow> yields P (if c then a else b)"
  by simp

lemma yields_bind: "(\<And>x. yields P (f x)) \<Longrightarrow> yields P (Option.bind m f)"
  by (cases m) auto

lemma yields_step: "yields Q m \<Longrightarrow> (\<And>x. Q x \<Longrightarrow> yields P (f x)) \<Longrightarrow> yields P (Option.bind m (case_option (Some None) f))"
  by (auto simp: yields_def bind_eq_Some_conv split: option.splits)

lemma yields_pair: "(\<And>x y. p = (x, y) \<Longrightarrow> yields P (f x y)) \<Longrightarrow> yields P (case p of (x, y) \<Rightarrow> f x y)"
  by (cases p) simp

lemma yields_map: "(\<And>y. P (f y)) \<Longrightarrow> yields P (Some (map_option f x))"
  by (cases x) auto

lemma yields_let: "yields P (f x) \<Longrightarrow> yields P (Let x f)"
  by simp

lemmas yields_rules = yields_case yields_if yields_pair yields_let yields_map yields_simps(1,2)

text \<open>A step that gives a state, possibly behind something else, from which an earlier state can be seen.\<close>

abbreviation (input) kept1 :: "xs_state \<Rightarrow> 'a \<times> xs_state \<Rightarrow> bool" where "kept1 st0 \<equiv> \<lambda>p. keeps st0 (snd p)"
abbreviation (input) kept2 :: "xs_state \<Rightarrow> 'a \<times> 'b \<times> xs_state \<Rightarrow> bool" where "kept2 st0 \<equiv> \<lambda>p. keeps st0 (snd (snd p))"

lemma yields_keep: "keeps st0 st \<Longrightarrow> (\<And>x. r = Some (Some x) \<Longrightarrow> keeps st (g x)) \<Longrightarrow> yields (\<lambda>x. keeps st0 (g x)) r"
  unfolding yields_def using keeps_trans by blast

definition node_keeps :: "xml_node \<Rightarrow> bool" where
  "node_keeps node \<longleftrightarrow> (\<forall>st. yields (keeps st) (ni_xs_process_define node st))
     \<and> (\<forall>cls st. yields (kept1 st) (ni_xs_build_complex_type node cls st))"

lemma yields_trans: "yields (\<lambda>x. keeps st (g x)) r \<Longrightarrow> keeps st0 st \<Longrightarrow> yields (\<lambda>x. keeps st0 (g x)) r"
  unfolding yields_def using keeps_trans by blast

lemma yields_around:
  "yields (\<lambda>x. keeps (open_scope name st) (g x)) r \<Longrightarrow> keeps st0 st \<Longrightarrow> yields (\<lambda>x. keeps st0 (close_scope (g x))) r"
  unfolding yields_def using keeps_trans keeps_around by blast

lemma define_step: "node_keeps node \<Longrightarrow> keeps st0 st \<Longrightarrow> yields (keeps st0) (ni_xs_process_define node st)"
  using yields_trans [of st "\<lambda>x. x"] by (simp add: node_keeps_def)

lemma complex_step:
  "node_keeps node \<Longrightarrow> keeps st0 st \<Longrightarrow> yields (\<lambda>p. keeps st0 (close_scope (snd p))) (ni_xs_build_complex_type node cls (open_scope name st))"
  by (rule yields_around [of name st snd]) (auto simp: node_keeps_def)

lemma simple_step:
  "keeps st0 st \<Longrightarrow> yields (\<lambda>p. keeps st0 (close_scope (snd (snd p)))) (ni_xs_build_simple_type node ty gs (open_scope name st))"
  by (rule yields_around [of name st "\<lambda>p. snd (snd p)"]) (auto simp: yields_def intro: keeps_simple)

lemma typelist_step:
  "list_all node_keeps cs \<Longrightarrow> keeps st0 st \<Longrightarrow> yields (kept2 st0) (ni_xs_build_typelist cs result anon gs st)"
proof (induction cs arbitrary: result gs st)
  case Nil
  then show ?case by (simp add: ni_xs_build_typelist.simps)
next
  case (Cons child cs)
  have c: "node_keeps child" and cs: "list_all node_keeps cs" using Cons.prems(1) by simp_all
  note rest = Cons.IH [OF cs]
  show ?case unfolding ni_xs_build_typelist.simps Let_def
    by (rule yields_rules yields_step [OF define_step [OF c Cons.prems(2)]] yields_step [OF complex_step [OF c Cons.prems(2)]]
         yields_step [OF simple_step [OF Cons.prems(2)]] rest Cons.prems(2) | assumption | rule yields_bind | simp)+
qed

lemma one_type_step:
  "list_all node_keeps cs \<Longrightarrow> keeps st0 st \<Longrightarrow> yields (kept1 st0) (ni_xs_build_one_type cs res st)"
proof (induction cs arbitrary: res st)
  case Nil
  then show ?case by (cases res) (simp_all add: ni_xs_build_one_type.simps)
next
  case (Cons child cs)
  have c: "node_keeps child" and cs: "list_all node_keeps cs" using Cons.prems(1) by simp_all
  note rest = Cons.IH [OF cs]
  show ?case unfolding ni_xs_build_one_type.simps Let_def
    by (rule yields_rules yields_step [OF define_step [OF c Cons.prems(2)]] yields_step [OF complex_step [OF c Cons.prems(2)]]
         rest Cons.prems(2) | assumption | rule yields_bind | simp)+
qed

lemma complex_keeps:
  assumes "list_all node_keeps (xn_children node)"
  shows "yields (kept1 st) (ni_xs_build_complex_type node cls st)"
  unfolding ni_xs_build_complex_type.simps Let_def
  by (rule yields_rules yields_step [OF typelist_step [OF assms keeps_refl(1)]] one_type_step [OF assms keeps_refl(1)]
     | assumption | rule yields_step [where Q = "\<lambda>p. keeps st (snd p)"] yields_bind | simp)+


lemma finish_step: "keeps st0 st \<Longrightarrow> yields (keeps st0) (finish_define node name ref st)"
  unfolding yields_def using keeps_finish keeps_trans by blast

lemma define_keeps:
  assumes "list_all node_keeps (xn_children node)"
  shows "yields (keeps st) (ni_xs_process_define node st)"
proof -
  have konst: "yields (keeps st) (define_constant node name st)" for name by (auto simp: yields_def intro: keeps_constant)
  have complex: "yields (\<lambda>p. keeps st (close_scope (snd p))) (ni_xs_build_complex_type node cls (open_scope name st))" for cls name
    by (rule yields_around [of name st snd]) (simp_all add: complex_keeps [OF assms])
  show ?thesis unfolding ni_xs_process_define.simps
    by (rule yields_rules yields_step [OF complex] yields_step [OF simple_step [OF keeps_refl(1)]] konst
        yields_step [OF one_type_step [OF assms keeps_refl(1)]] finish_step | assumption | simp)+
qed

lemma all_node_keeps: "node_keeps node"
proof (induction node)
  case (Xml_node name cdata attrs children loc)
  then have "list_all node_keeps (xn_children (Xml_node name cdata attrs children loc))" by (simp add: list_all_iff)
  then show ?case using complex_keeps define_keeps by (simp add: node_keeps_def)
qed

lemma all_nodes_keep: "list_all node_keeps cs"
  by (simp add: list_all_iff all_node_keeps)

lemma arguments_step:
  "keeps st0 st \<Longrightarrow> yields (\<lambda>p. keeps st0 (close_scope (snd (snd p)))) (ni_xs_build_typelist cs result anon gs (open_scope name st))"
  by (rule yields_around [of name st "\<lambda>p. snd (snd p)"]) (simp_all add: typelist_step all_nodes_keep)

lemma return_step:
  "keeps st0 st \<Longrightarrow> yields (\<lambda>p. keeps st0 (close_scope (snd p))) (ni_xs_build_one_type cs res (open_scope name st))"
  by (rule yields_around [of name st snd]) (simp_all add: one_type_step all_nodes_keep)

lemma method_step: "keeps st0 st \<Longrightarrow> yields (kept1 st0) (ni_xs_process_method cs m st)"
proof (induction cs arbitrary: m st)
  case (Cons child cs)
  show ?case unfolding ni_xs_process_method.simps
    by (rule yields_rules yields_step [OF arguments_step [OF Cons.prems]] return_step Cons.IH Cons.prems | assumption
       | rule yields_step [where Q = "\<lambda>p. keeps st0 (close_scope (snd p))"] yields_bind | simp)+
qed simp

lemma signal_step: "keeps st0 st \<Longrightarrow> yields (kept1 st0) (ni_xs_process_signal cs m st)"
proof (induction cs arbitrary: m st)
  case (Cons child cs)
  show ?case unfolding ni_xs_process_signal.simps
    by (rule yields_rules yields_step [OF arguments_step [OF Cons.prems]] Cons.IH Cons.prems | assumption | simp)+
qed simp

lemma service_loop_step: "keeps st0 st \<Longrightarrow> yields (kept1 st0) (service_loop cs service st)"
proof (induction cs arbitrary: service st)
  case (Cons child cs)
  show ?case unfolding service_loop.simps
    by (rule yields_rules yields_step [OF define_step [OF all_node_keeps Cons.prems]] yields_step [OF method_step [OF Cons.prems]]
        yields_step [OF signal_step [OF Cons.prems]] Cons.IH Cons.prems | assumption | rule yields_bind | simp)+
qed simp

lemma service_step: "keeps st0 st \<Longrightarrow> yields (keeps st0) (ni_xs_process_service node st)"
proof -
  assume st: "keeps st0 st"
  have add: "keeps s1 (on_scope (scope_add_service sv) s1)" for s1 sv
    by (rule keeps_on_scope) (simp add: scope_add_service_def)
  have loop: "yields (\<lambda>p. keeps st0 (close_scope (snd p))) (service_loop cs sv (open_scope name st))" for cs sv name
    by (rule yields_around [of name st snd, OF _ st]) (simp add: service_loop_step)
  have "\<exists>cs sv name sv1 s1. service_loop cs sv (open_scope name st) = Some (Some (sv1, s1)) \<and> st' = on_scope (scope_add_service sv1) (close_scope s1)"
    if "ni_xs_process_service node st = Some (Some st')" for st'
    using that by (auto simp: ni_xs_process_service_def bind_eq_Some_conv split: option.split_asm if_split_asm) blast+
  then show ?thesis unfolding yields_def using loop [unfolded yields_def] keeps_trans add by (metis snd_conv)
qed

lemma class_step: "keeps st0 st \<Longrightarrow> yields (keeps st0) (Some (ni_xs_process_class node st))"
proof -
  assume st: "keeps st0 st"
  have "keeps st (on_scope (scope_add_class c) st)" for c by (rule keeps_on_scope) (simp add: scope_add_class_def)
  then show ?thesis using keeps_trans [OF st] by (simp add: ni_xs_process_class_def split: option.split)
qed

lemma schema_step: "keeps st0 st \<Longrightarrow> yields (keeps st0) (ni_xs_process_schema read n cs st)"
proof (induction n arbitrary: cs st)
  case 0
  then show ?case
  proof (induction cs arbitrary: st)
    case (Cons child cs)
    show ?case unfolding ni_xs_process_schema.simps
      by (rule yields_rules service_step [OF Cons.prems] class_step [OF Cons.prems] define_step [OF all_node_keeps Cons.prems] Cons.IH | assumption
         | rule yields_step [where Q = "keeps st0"] yields_bind | simp)+
  qed simp
next
  case (Suc n)
  note inner = Suc.IH
  show ?case using Suc.prems
  proof (induction cs arbitrary: st)
    case (Cons child cs)
    show ?case unfolding ni_xs_process_schema.simps nat.case
      by (rule yields_rules service_step [OF Cons.prems] class_step [OF Cons.prems] define_step [OF all_node_keeps Cons.prems] Cons.IH inner [OF Cons.prems]
         | assumption | rule yields_step [where Q = "keeps st0"] yields_bind | simp)+
  qed simp
qed

section \<open>Names keep their meaning\<close>

lemma find_prefix: "u_ni_xs_name_type_array_find xs name = Some (Some t) \<Longrightarrow> u_ni_xs_name_type_array_find (xs @ ys) name = Some (Some t)"
  by (induction xs) (auto simp: bind_eq_Some_conv split: if_splits)

lemma lookup_local_grows: "scope_grows s s' \<Longrightarrow> ni_xs_scope_lookup_local s name = Some (Some t) \<Longrightarrow> ni_xs_scope_lookup_local s' name = Some (Some t)"
  by (auto simp: scope_grows_def ni_xs_scope_lookup_local_def prefix_def find_prefix)

lemma lookup_scope_grows: "scope_grows s s' \<Longrightarrow> ni_xs_scope_lookup_scope s name = Some c \<Longrightarrow> ni_xs_scope_lookup_scope s' name = Some c"
proof -
  have f: "find P xs = Some c \<Longrightarrow> find P (xs @ ys) = Some c" for P :: "ni_xs_scope \<Rightarrow> bool" and xs ys by (induction xs) (auto split: if_splits)
  show "scope_grows s s' \<Longrightarrow> ni_xs_scope_lookup_scope s name = Some c \<Longrightarrow> ni_xs_scope_lookup_scope s' name = Some c"
    by (auto simp: scope_grows_def ni_xs_scope_lookup_scope_def prefix_def f)
qed

lemma lookup_path_grows: "scope_grows s s' \<Longrightarrow> lookup_path s names = Some (Some t) \<Longrightarrow> lookup_path s' names = Some (Some t)"
proof (cases names rule: list.exhaust)
  case (Cons a as)
  then show "scope_grows s s' \<Longrightarrow> lookup_path s names = Some (Some t) \<Longrightarrow> lookup_path s' names = Some (Some t)"
    by (cases as) (auto simp: lookup_local_grows dest: lookup_scope_grows split: option.splits)
qed (simp split: if_splits)


lemma lookup_local_safe: "scope_wf s \<Longrightarrow> ni_xs_scope_lookup_local s name \<noteq> None"
proof -
  have "list_all (\<lambda>d. nt_name d \<noteq> None) ds \<Longrightarrow> u_ni_xs_name_type_array_find ds name \<noteq> None" for ds
  proof (induction ds)
    case (Cons d ds)
    then obtain n r where "nt_name d = Some n" "u_ni_xs_name_type_array_find ds name = Some r" by auto
    then show ?case by (cases "n = name") auto
  qed simp
  then show "scope_wf s \<Longrightarrow> ni_xs_scope_lookup_local s name \<noteq> None"
    by (simp add: scope_wf_iff ni_xs_scope_lookup_local_def)
qed

text \<open>C10: The name of a type keeps its meaning.  When a schema has been processed on top of the definitions of a
  root scope, whatever it defines, includes and opens on the way, the root is the only open scope again, no two types of
  one scope have the same name, every type name that could be resolved, qualified or not, still resolves to the same
  type, and no lookup of an unqualified name faults.  It is only types that are protected so: constants, services and
  scopes inside may repeat a name (\<open>names_collide\<close>).\<close>

theorem ni_xs_process_schema_keeps_names:
  assumes "ni_xs_process_schema read n nodes st = Some (Some st')" and "st_scopes st = [root]" and "scope_wf root"
  shows "\<exists>root'. st_scopes st' = [root'] \<and> scope_wf root'
     \<and> (\<forall>name t. ni_xs_scope_lookup [root] name = Some (Some t) \<longrightarrow> ni_xs_scope_lookup [root'] name = Some (Some t))
     \<and> (\<forall>name. CHR '':'' \<notin> set name \<longrightarrow> ni_xs_scope_lookup [root'] name \<noteq> None)"
proof -
  have "keeps st st'" using schema_step [OF keeps_refl(1), of st read n nodes] assms(1) by (simp add: yields_def)
  then obtain root' where r: "st_scopes st' = [root']" "scope_grows root root'" "scope_wf root'"
    using assms(2,3) by (auto simp: keeps_def list_all2_Cons1)
  have "ni_xs_scope_lookup [root'] name = Some (Some t)" if "ni_xs_scope_lookup [root] name = Some (Some t)" for name t
    using that r(2) lookup_path_grows lookup_local_grows [OF r(2), of name]
    by (auto simp: ni_xs_scope_lookup_def bind_eq_Some_conv split: if_splits option.splits)
  moreover have "ni_xs_scope_lookup [root'] name \<noteq> None" if "CHR '':'' \<notin> set name" for name
  proof -
    obtain y where "ni_xs_scope_lookup_local root' name = Some y" using lookup_local_safe [OF r(3), of name] by blast
    then show ?thesis using that by (cases y) (simp_all add: ni_xs_scope_lookup_def)
  qed
  ultimately show ?thesis using r by blast
qed

definition sample_root :: ni_xs_scope where
  "sample_root = Xs_scope (Some ''dbus'') [Name_type (Some ''string'') (ni_xs_scalar_new ''string'' DBUS_TYPE_STRING) None] [] [] ni_var_array_init []"

definition sample_schema :: "xml_node list" where
  "sample_schema = [Xml_node (Some ''define'') None [(''name'', Some ''host''), (''class'', Some ''dict'')]
     [Xml_node (Some ''name'') None [(''type'', Some ''string'')] [] None] None]"

lemma ni_xs_process_schema_keeps_names_witness:
  "\<exists>st' root'. ni_xs_process_schema (\<lambda>_. None) 0 sample_schema \<lparr>st_scopes = [sample_root], st_groups = 0\<rparr> = Some (Some st')
     \<and> st_scopes st' = [root'] \<and> scope_wf root'
     \<and> (\<forall>name t. ni_xs_scope_lookup [sample_root] name = Some (Some t) \<longrightarrow> ni_xs_scope_lookup [root'] name = Some (Some t))
     \<and> (\<forall>name. CHR '':'' \<notin> set name \<longrightarrow> ni_xs_scope_lookup [root'] name \<noteq> None)"
proof -
  have "case ni_xs_process_schema (\<lambda>_. None) 0 sample_schema \<lparr>st_scopes = [sample_root], st_groups = 0\<rparr> of Some (Some _) \<Rightarrow> True | _ \<Rightarrow> False"
    by code_simp
  then obtain st' where st': "ni_xs_process_schema (\<lambda>_. None) 0 sample_schema \<lparr>st_scopes = [sample_root], st_groups = 0\<rparr> = Some (Some st')"
    by (auto split: option.splits)
  have wf: "scope_wf sample_root" by (simp add: sample_root_def)
  show ?thesis using ni_xs_process_schema_keeps_names [OF st' _ wf] st' by simp
qed

lemma ni_dbus_xml_init_wf: "\<exists>st root. ni_dbus_xml_init = Some st \<and> st_scopes st = [root] \<and> scope_wf root"
proof -
  have "case ni_dbus_xml_init of Some st \<Rightarrow> (case st_scopes st of [root] \<Rightarrow> scope_wf root | _ \<Rightarrow> False) | None \<Rightarrow> False" by code_simp
  then show ?thesis by (auto split: option.splits list.splits)
qed

text \<open>A constant that is defined again is overwritten, a type may have the name of a constant, and two services of one
  name stand side by side, each with its own scope.\<close>

definition colliding_schema :: "xml_node list" where
  "colliding_schema =
     [Xml_node (Some ''define'') (Some ''1'') [(''name'', Some ''x'')] [] None,
      Xml_node (Some ''define'') (Some ''2'') [(''name'', Some ''x'')] [] None,
      Xml_node (Some ''define'') None [(''name'', Some ''x''), (''type'', Some ''string'')] [] None,
      Xml_node (Some ''service'') None [(''name'', Some ''x''), (''interface'', Some ''a'')] [] None,
      Xml_node (Some ''service'') None [(''name'', Some ''x''), (''interface'', Some ''b'')] [] None]"

lemma names_collide:
  "case ni_xs_process_schema (\<lambda>_. None) 0 colliding_schema \<lparr>st_scopes = [sample_root], st_groups = 0\<rparr> of
     Some (Some st) \<Rightarrow>
       (case st_scopes st of
          [root] \<Rightarrow> ni_var_array_get_string (sc_constants root) ''x'' = Some (Some ''2'')
            \<and> map nt_name (sc_types root) = [Some ''string'', Some ''x'']
            \<and> map xs_name (sc_services root) = [''x'', ''x''] \<and> map sc_name (sc_children root) = [Some ''x'', Some ''x'', Some ''x'']
        | _ \<Rightarrow> False)
   | _ \<Rightarrow> False"
  by code_simp

section \<open>Included files\<close>

text \<open>The file an element names: an absolute name, or one in the directory of the file that holds the element.\<close>

definition names_file :: "xml_node \<Rightarrow> cstring \<Rightarrow> bool" where
  "names_file node f \<longleftrightarrow> (\<exists>name. xml_node_get_attr node ''name'' = Some name \<and>
     (if take 1 name = ''/'' \<or> xn_location node = None then f = name
      else \<exists>dir base line. xn_location node = Some (dir @ ''/'' @ base, line) \<and> CHR ''/'' \<notin> set base
        \<and> f = dir @ ''/'' @ name \<and> length f < PATH_MAX))"

text \<open>A schema with everything it includes put in the place of the elements that include it.\<close>

inductive inlined :: "(cstring \<Rightarrow> xml_document option) \<Rightarrow> xml_node list \<Rightarrow> xml_node list \<Rightarrow> bool"
  for read :: "cstring \<Rightarrow> xml_document option" where
    Inline_end: "inlined read [] []"
  | Inline_other: "xn_name c \<noteq> Some ''include'' \<Longrightarrow> inlined read cs ds \<Longrightarrow> inlined read (c # cs) (c # ds)"
  | Inline_file: "xn_name c = Some ''include'' \<Longrightarrow> names_file c f \<Longrightarrow> read f = Some doc \<Longrightarrow> xd_root doc = Some root
      \<Longrightarrow> inlined read (xn_children root) es \<Longrightarrow> inlined read cs ds \<Longrightarrow> inlined read (c # cs) (es @ ds)"

lemma dir_part_in: "CHR ''/'' \<notin> set base \<Longrightarrow> dir_part (dir @ ''/'' @ base) = dir"
proof -
  assume b: "CHR ''/'' \<notin> set base"
  have "dropWhile (\<lambda>c. c \<noteq> CHR ''/'') (rev (dir @ ''/'' @ base)) = CHR ''/'' # rev dir"
    using b by (subst rev_append) (simp add: dropWhile_append2 dropWhile_append)
  then show ?thesis by (simp add: dir_part_def)
qed

lemma include_path_names: "names_file c f \<Longrightarrow> include_path c = Some f"
  using dir_part_in by (fastforce simp: names_file_def include_path_def split: if_splits option.split)

lemma schema_append:
  "ni_xs_process_schema read n (as @ bs) st =
     do { r \<leftarrow> ni_xs_process_schema read n as st; (case r of None \<Rightarrow> Some None | Some st1 \<Rightarrow> ni_xs_process_schema read n bs st1) }"
proof (induction as arbitrary: st)
  case (Cons a as)
  show ?case unfolding append_Cons ni_xs_process_schema.simps Cons.IH
    by (auto intro!: Option.bind_cong split: option.split)
qed simp

text \<open>Elements other than \<open><include>\<close> are processed without reading anything.\<close>

lemma schema_other:
  "xn_name c \<noteq> Some ''include'' \<Longrightarrow> ni_xs_process_schema read n [c] st = ni_xs_process_schema read' n' [c] st"
proof -
  have nil: "ni_xs_process_schema read n [] = ni_xs_process_schema read' n' []" by (intro ext) simp
  show "xn_name c \<noteq> Some ''include'' \<Longrightarrow> ni_xs_process_schema read n [c] st = ni_xs_process_schema read' n' [c] st"
    unfolding ni_xs_process_schema.simps nil by (cases "xn_name c") simp_all
qed

lemma inlined_process:
  assumes "inlined read nodes flat"
  shows "\<exists>n0. \<forall>n\<ge>n0. \<forall>st. ni_xs_process_schema read n nodes st = ni_xs_process_schema none 0 flat st"
  using assms
proof induction
  case Inline_end
  show ?case by simp
next
  case (Inline_other c cs ds)
  then obtain n0 where n0: "\<forall>n\<ge>n0. \<forall>st. ni_xs_process_schema read n cs st = ni_xs_process_schema none 0 ds st" by blast
  have "ni_xs_process_schema read n (c # cs) st = ni_xs_process_schema none 0 (c # ds) st" if n: "n0 \<le> n" for n st
  proof -
    have cs: "ni_xs_process_schema read n cs = ni_xs_process_schema none 0 ds" using n0 n by (intro ext) simp
    show ?thesis
    using schema_append [of read n "[c]" cs st, unfolded cs] schema_append [of none 0 "[c]" ds st]
      schema_other [OF Inline_other.hyps(1), of read n st none 0] by (simp del: ni_xs_process_schema.simps)
  qed
  then show ?case by blast
next
  case (Inline_file c f doc root es cs ds)
  then obtain n1 n2 where n1: "\<forall>n\<ge>n1. \<forall>st. ni_xs_process_schema read n (xn_children root) st = ni_xs_process_schema none 0 es st"
    and n2: "\<forall>n\<ge>n2. \<forall>st. ni_xs_process_schema read n cs st = ni_xs_process_schema none 0 ds st" by blast
  have "ni_xs_process_schema read n (c # cs) st = ni_xs_process_schema none 0 (es @ ds) st" if n: "Suc (n1 + n2) \<le> n" for n st
  proof -
    obtain k where k: "n = Suc k" "n1 \<le> k" using n by (cases n) auto
    have "ni_xs_process_schema read n [c] st = ni_xs_process_schema read k (xn_children root) st"
    proof -
      have "case_option (Some None) (ni_xs_process_schema read n []) = Some" by (intro ext) (simp split: option.split)
      then show ?thesis
        using Inline_file.hyps(1,3,4) include_path_names [OF Inline_file.hyps(2)] k(1) unfolding ni_xs_process_schema.simps(2) by simp
    qed
    moreover have cs: "ni_xs_process_schema read n cs = ni_xs_process_schema none 0 ds" using n2 n by (intro ext) simp
    ultimately show ?thesis
      using schema_append [of read n "[c]" cs st, unfolded cs] schema_append [of none 0 es ds st] n1 k(2) by (simp del: ni_xs_process_schema.simps)
  qed
  then show ?case by blast
qed

text \<open>When files do not include each other in a circle, and all are there, a schema can be inlined: every file has a
  rank above those it includes.\<close>

definition includes_below :: "(cstring \<Rightarrow> xml_document option) \<Rightarrow> (cstring \<Rightarrow> nat) \<Rightarrow> nat \<Rightarrow> xml_node list \<Rightarrow> bool" where
  "includes_below read rank n nodes \<longleftrightarrow>
     list_all (\<lambda>c. xn_name c = Some ''include'' \<longrightarrow>
       (\<exists>f doc root. names_file c f \<and> read f = Some doc \<and> xd_root doc = Some root \<and> rank f < n)) nodes"

lemma inlined_exists:
  assumes "\<And>f doc root. read f = Some doc \<Longrightarrow> xd_root doc = Some root \<Longrightarrow> includes_below read rank (rank f) (xn_children root)"
    and "includes_below read rank n nodes"
  shows "\<exists>flat. inlined read nodes flat"
  using assms(2)
proof (induction n arbitrary: nodes rule: less_induct)
  case (less n)
  note inner = less.IH
  show ?case using less.prems
  proof (induction nodes)
    case Nil
    then show ?case by (blast intro: Inline_end)
  next
    case (Cons c cs)
    then obtain ds where ds: "inlined read cs ds" by (auto simp: includes_below_def)
    show ?case
    proof (cases "xn_name c = Some ''include''")
      case True
      then obtain f doc root where f: "names_file c f" "read f = Some doc" "xd_root doc = Some root" "rank f < n"
        using Cons.prems by (auto simp: includes_below_def)
      obtain es where "inlined read (xn_children root) es" using inner [OF f(4) assms(1) [OF f(2,3)]] by blast
      then show ?thesis using Inline_file [where read = read, OF True f(1-3)] ds by blast
    next
      case False
      then show ?thesis using Inline_other ds by blast
    qed
  qed
qed

text \<open>C40: An included file is processed as if its elements stood in the place of the element that includes it: in
  order, in the same scope, and a relative name is that of a file in the directory of the file that includes it.  A
  schema file all of whose files are there and do not include each other in a circle is read to the end, for any
  sufficient bound \<open>n\<close> on the depth of files, with the same result as the one list of elements without any
  \<open><include>\<close> that this makes of it, for which no file is read.\<close>

theorem ni_xs_process_include_inlines:
  assumes "read file = Some doc" "xd_root doc = Some root" "inlined read (xn_children root) flat"
  shows "(\<forall>c\<in>set flat. xn_name c \<noteq> Some ''include'')
     \<and> (\<exists>n0. \<forall>n\<ge>n0. \<forall>st. ni_xs_process_schema_file read n (Some file) st = ni_xs_process_schema (\<lambda>_. None) 0 flat st)"
proof
  show "\<forall>c\<in>set flat. xn_name c \<noteq> Some ''include''" using assms(3) by induction auto
  show "\<exists>n0. \<forall>n\<ge>n0. \<forall>st. ni_xs_process_schema_file read n (Some file) st = ni_xs_process_schema (\<lambda>_. None) 0 flat st"
    using inlined_process [OF assms(3), of "\<lambda>_. None"] assms(1,2) by (simp add: ni_xs_process_schema_file_def)
qed

text \<open>A schema with a definition behind the inclusion of a file of the same directory.\<close>

definition including_schema :: "xml_node list" where
  "including_schema =
     [Xml_node (Some ''include'') None [(''name'', Some ''b.xml'')] [] (Some (''/etc/a.xml'', 1)),
      Xml_node (Some ''define'') None [(''name'', Some ''x''), (''type'', Some ''host'')] [] None]"

definition schema_files :: "cstring \<Rightarrow> xml_document option" where
  "schema_files f =
     (if f = ''/etc/a.xml'' then Some \<lparr>xd_dtd = None, xd_root = Some (Xml_node None None [] including_schema None)\<rparr>
      else if f = ''/etc/b.xml'' then Some \<lparr>xd_dtd = None, xd_root = Some (Xml_node None None [] sample_schema None)\<rparr> else None)"

lemma ni_xs_process_include_inlines_witness:
  "\<exists>n0. \<forall>n\<ge>n0. \<forall>st. ni_xs_process_schema_file schema_files n (Some ''/etc/a.xml'') st
     = ni_xs_process_schema (\<lambda>_. None) 0 (sample_schema @ [Xml_node (Some ''define'') None [(''name'', Some ''x''), (''type'', Some ''host'')] [] None]) st"
proof -
  have a: "schema_files ''/etc/a.xml'' = Some \<lparr>xd_dtd = None, xd_root = Some (Xml_node None None [] including_schema None)\<rparr>"
    and b: "schema_files ''/etc/b.xml'' = Some \<lparr>xd_dtd = None, xd_root = Some (Xml_node None None [] sample_schema None)\<rparr>"
    by (simp_all add: schema_files_def)
  have plain: "inlined schema_files sample_schema sample_schema"
    unfolding sample_schema_def by (intro Inline_other Inline_end) simp
  have tl: "inlined schema_files [Xml_node (Some ''define'') None [(''name'', Some ''x''), (''type'', Some ''host'')] [] None]
      [Xml_node (Some ''define'') None [(''name'', Some ''x''), (''type'', Some ''host'')] [] None]"
    by (intro Inline_other Inline_end) simp
  have nf: "names_file (Xml_node (Some ''include'') None [(''name'', Some ''b.xml'')] [] (Some (''/etc/a.xml'', 1))) ''/etc/b.xml''"
    unfolding names_file_def
    by (simp add: xml_node_get_attr_def u_xml_node_get_attr_def PATH_MAX_def)
  have "inlined schema_files including_schema (sample_schema @ [Xml_node (Some ''define'') None [(''name'', Some ''x''), (''type'', Some ''host'')] [] None])"
    unfolding including_schema_def
    by (rule Inline_file [where root = "Xml_node None None [] sample_schema None", OF _ nf b _ _ tl]) (simp_all add: plain)
  then show ?thesis using ni_xs_process_include_inlines [where read = schema_files, OF a] by simp
qed

end
