(* ===== verification/Spec2Isabelle.thy ===== *)
theory Spec2Isabelle
  imports XmlTotal XPathSound Buffer ProxyClose Vars Strings Environ Fileset Timer Process ServerFiles ServerOrphan SchemaRound SchemaScopes
begin

text \<open>
  A model of testbus in HOL.  Testbus runs distributed tests: a server (src/server) keeps hosts, tests and
  commands as a tree of containers with environments and files, agents (src/agent) run the commands on the
  tested hosts, a client (src/client) gives the orders, all talking over DBus through the library src/dborb;
  src/testbus holds the form in which files, events and processes cross the bus, and src/proxy carries DBus
  connections over a serial line or a pair of sockets.

  The theories, in the order of their dependencies:

  \<^item> \<^bold>\<open>Prelude\<close>: faults as \<open>None\<close>, blocks of memory, C strings, the interface of a FIFO.
  \<^item> \<^bold>\<open>Buffer\<close>: include/dborb/buffer.h and dborb/buffer.c, byte buffers and chains of them.
  \<^item> \<^bold>\<open>Proxy\<close>, \<^bold>\<open>ProxyMain\<close>: proxy/main.c, its endpoints, transports, write queues, credits, frames and handlers, and
    the poll loop.  \<^bold>\<open>ProxyFrames\<close> shows that the multiplexed connection is a tunnel, \<^bold>\<open>ProxyCredit\<close> and
    \<^bold>\<open>ProxyInvariant\<close> the flow control in every reachable state, \<^bold>\<open>ProxyOutput\<close> the order of the output,
    \<^bold>\<open>ProxyClose\<close> what closing does, and the limits that end the proxy.
  \<^item> \<^bold>\<open>Arrays\<close>, \<^bold>\<open>Vars\<close>, \<^bold>\<open>Numbers\<close>, \<^bold>\<open>Strings\<close>: dborb/util.c, by the data it is about: string arrays; arrays of integers
    and variables, bit fields; numbers, octet strings and UUIDs; string buffers, splitting, quoting.
  \<^item> \<^bold>\<open>Environ\<close>: server/environ.c, environments and their n-way merge.
  \<^item> \<^bold>\<open>Variant\<close>, \<^bold>\<open>Dicts\<close>: dborb/dbus-common.c, variants of the basic types; arrays, structs and dicts.
  \<^item> \<^bold>\<open>Fileset\<close>: testbus/file.c, reference-counted files and arrays of them, as objects and as dicts.
  \<^item> \<^bold>\<open>Timer\<close>: dborb/timer.c, the timers and retransmission timeouts, with the arithmetic of \<open>long\<close>.
  \<^item> \<^bold>\<open>Events\<close>: dborb/monitor.c and testbus/event.c, the event log, monitors, the monitor of a file.
  \<^item> \<^bold>\<open>Process\<close>: dborb/process.c and testbus/process.c, commands, processes, their output, the wait queue.
  \<^item> \<^bold>\<open>Xml\<close>: dborb/xml.c and dborb/xml-writer.c, documents and their printed form; \<^bold>\<open>XmlRead\<close>: dborb/xml-reader.c, from
    characters to documents.  \<^bold>\<open>XmlLex\<close> and \<^bold>\<open>XmlRound\<close> show that what is printed is read back, \<^bold>\<open>XmlTotal\<close> that reading
    ends on every input but one kind, and where the writer and the reader do not fit each other.
  \<^item> \<^bold>\<open>XPath\<close>, \<^bold>\<open>XPathEval\<close>: dborb/xpath.c, the parser of expressions and their evaluation at an element of a document,
    with results as counted objects in a store.  \<^bold>\<open>XPathSound\<close> gives expressions types and a meaning and shows that
    evaluation computes it without losing or keeping a reference, and where the code departs from that.
  \<^item> \<^bold>\<open>Schema\<close>, \<^bold>\<open>SchemaParse\<close>: dborb/xml-schema.c, types and scopes, and the parser that turns a schema document and
    the files it includes into services, methods and types.  \<^bold>\<open>SchemaScopes\<close> shows how scopes grow: balanced, without
    double definitions of types, and never changing the type a name stands for; and that included files are inlined.
  \<^item> \<^bold>\<open>SchemaXml\<close>, \<^bold>\<open>SchemaCalls\<close>: dborb/dbus-xml.c, signatures of types, variants from XML and XML from variants,
    validation, the methods of a service with their arguments, results and properties.  \<^bold>\<open>SchemaRound\<close> shows that data
    survive their XML form, and where the two directions do not fit each other.
  \<^item> \<^bold>\<open>Container\<close>, \<^bold>\<open>ContainerOps\<close>: server/container.c, host.c, test.c, command.c, the tree of containers: one record for
    every kind, in a store, with reference counts, parents, owners and arrays of children; destruction in the first
    theory, creation, lookups, environments, files, agents and bus names (main.c) in the second.
  \<^item> \<^bold>\<open>ServerBus\<close>: server/dbus-*.c and main.c, the methods clients and agents call and the signals that pass.
    \<^bold>\<open>ServerFiles\<close> is about files over the bus, \<^bold>\<open>ServerChain\<close> about the environment and the files of a process,
    \<^bold>\<open>ServerTree\<close> about the invariant of the tree and the operations that keep it, \<^bold>\<open>ServerCalls\<close> about the tree under
    any sequence of methods (other than the two that delete) and signals, \<^bold>\<open>ServerOrphan\<close> about hosts a test has claimed.

  How code becomes definitions.  A definition has the name of the C function (leading underscores become
  \<open>u_\<close>).  A C struct is a record whose fields carry a prefix; a block of memory is the list of its cells, with
  what was allocated beyond the length in use; what is shared through pointers lives in a store from addresses to
  records, and a missing entry is freed memory.  Integers keep their width where wrapping or a cast can be seen
  (sizes of buffers, credits, DBus values, counters); counts of list items are natural numbers.  An
  \<open>assert\<close>, \<open>ni_fatal\<close> or undefined behaviour is \<open>None\<close>, so a theorem that a call gives \<open>Some\<close> also says that
  there is no such fault; an error return is a value.  Allocation does not fail (it ends the process).  The
  operating system answers through arguments: the bytes and sizes of reads and writes, descriptors, times,
  process ids, the contents of files.  Callbacks of timers are sequences of calls chosen by a parameter; the
  callbacks of processes are observers.

  What is shown.  Representations refine what they stand for (buffers are byte streams, string arrays are lists,
  variable arrays and dicts are maps, string buffers are strings, the event log is a queue); data survives the
  way out and back (variants, files, events, exit statuses, UUIDs, quoted and joined words); the proxy delivers
  each channel's bytes in order within its credits; reference counts of files are exact; the merge of environments,
  the reaper, the timer loop (no timer 2^63 milliseconds ahead) and the file monitor (no file truncated between two
  polls) return and do what they promise; documents are read back as they were printed; the server's tree of containers
  stays consistent, reference counts included, as long as nothing is deleted.  The properties of kind error,
  and some theorems that are not properties, show defects of the code as it is.

  Loops.  Loops over lists are structural; the merge of environments has fuel for one round per variable of its
  inputs and one more, and never needs more (\<open>testbus_env_merge_first_wins\<close>); the timer loop and the walk through the
  wait queue can be endless and are \<open>partial_function (option)\<close>, with theorems that say when they return and an
  example of a cycle on which the walk does not.  Walks along the parents of containers are \<open>partial_function (option)\<close>,
  and end when the tree is consistent.  The destruction of containers (put, destroy, release of what is owned, the
  arrays) is one mutual recursion with fuel; a call made for \<open>n\<close> containers needs fuel in proportion to the tree
  below them, \<open>host_array_destroy_ok\<close> gives the bound for the array of a test.  The schema parser has fuel for the
  depth of inclusion only, since a file can include itself; when the files do not include each other in a circle,
  some fuel is enough and more changes nothing (\<open>ni_xs_process_include_inlines\<close>).

  Interfaces.  \<open>fifo_queue\<close> (Prelude) is provided by buffers, buffer chains and the event log; \<open>growing_array\<close>
  (Arrays) by every array that is appended to, in Arrays, Vars, Dicts and Fileset; the two locales of ProxyInvariant
  collect what an invariant of the endpoint store has to satisfy to survive the handlers.

  Not modelled.  The nodes of XML documents as shared objects: documents are values here, which is what printing,
  XPath and schemas need.  The object model (dborb/dbus-object.c, dbus-model.c and their neighbours), connections,
  messages and clients (dbus-connection.c, dbus-client.c, dbus-server.c, dbus-message.c), the agent and the client
  program: they register handlers with libdbus, call it and are called by it, and libdbus is not part of the
  repository.  Logging, option parsing, global configuration, sockets, the redirection of descriptors between fork
  and exec: effects on the operating system.  The tables that bind methods and properties to interfaces.
\<close>

end
